(* ===== verification/Prelude.thy ===== *)
theory Prelude
  imports Main "HOL-Library.List_Lexorder" "HOL-Library.Char_ord"
begin

text \<open>
  What every component of the model shares: the result of a Go call that may panic, the
  type of runes, list facts about blocks seq_cut out of a sequence, and the collections of
  simplification rules the component theories extend.

  Go's \<open>int\<close> is 64 bits wide; lengths and offsets are modelled by the unbounded
  \<open>int\<close>, since none of the modelled code reaches the bounds with data that fits in memory.
  Where the code depends on a width (packed integers), words are used instead.
\<close>

named_theorems go_simps "how the results of Go calls combine"
named_theorems wf_intros "introduction rules for well-formedness invariants"

section \<open>Calls that may panic\<close>

text \<open>
  A call either returns a value or ends in a run-time panic (an index or slice bound out of
  range, an explicit \<open>panic\<close>). Errors that the code returns are ordinary values of the
  result. No modelled caller recovers from a run-time panic, so the state at the
  panic is not kept.
\<close>

datatype 'a go = Ret 'a | Panic

fun go_map :: "('a \<Rightarrow> 'b) \<Rightarrow> 'a go \<Rightarrow> 'b go" where
  "go_map f (Ret x) = Ret (f x)"
| "go_map f Panic = Panic"

fun go_bind :: "'a go \<Rightarrow> ('a \<Rightarrow> 'b go) \<Rightarrow> 'b go" where
  "go_bind (Ret x) f = f x"
| "go_bind Panic f = Panic"

lemma go_map_Ret_iff [go_simps]: "go_map f r = Ret y \<longleftrightarrow> (\<exists>x. r = Ret x \<and> y = f x)"
  by (cases r) auto

lemma go_bind_Ret_iff [go_simps]: "go_bind r f = Ret y \<longleftrightarrow> (\<exists>x. r = Ret x \<and> f x = Ret y)"
  by (cases r) auto

lemma go_bind_cong [fundef_cong]:
  "r = r' \<Longrightarrow> (\<And>x. r' = Ret x \<Longrightarrow> f x = f' x) \<Longrightarrow> go_bind r f = go_bind r' f'"
  by (cases r') auto

section \<open>Sequences\<close>

text \<open>The type of Go runes (code points, and the special codes of the regexp compiler).\<close>

type_synonym rune = int

text \<open>The length of a list as Go sees it.\<close>

abbreviation len :: "'a list \<Rightarrow> int" where
  "len xs \<equiv> int (length xs)"

text \<open>\<open>seq_cut off n xs\<close> is the slice of at most \<open>n\<close> elements of \<open>xs\<close> starting at \<open>off\<close>.\<close>

definition seq_cut :: "nat \<Rightarrow> nat \<Rightarrow> 'a list \<Rightarrow> 'a list" where
  "seq_cut off n xs = take n (drop off xs)"

text \<open>\<open>seq_ins off ys xs\<close> inserts \<open>ys\<close> at \<open>off\<close>; \<open>seq_del off n xs\<close> removes a slice.\<close>

definition seq_ins :: "nat \<Rightarrow> 'a list \<Rightarrow> 'a list \<Rightarrow> 'a list" where
  "seq_ins off ys xs = take off xs @ ys @ drop off xs"

definition seq_del :: "nat \<Rightarrow> nat \<Rightarrow> 'a list \<Rightarrow> 'a list" where
  "seq_del off n xs = take off xs @ drop (off + n) xs"

lemma length_seq_ins [simp]: "off \<le> length xs \<Longrightarrow> length (seq_ins off ys xs) = length xs + length ys"
  by (simp add: seq_ins_def)

lemma length_seq_cut [simp]: "length (seq_cut off n xs) = min n (length xs - off)"
  by (simp add: seq_cut_def min.commute)

lemma length_seq_del [simp]:
  "length (seq_del off n xs) = min off (length xs) + (length xs - (off + n))"
  by (simp add: seq_del_def min.commute)

lemma seq_ins_Nil [simp]: "seq_ins off [] xs = xs"
  by (simp add: seq_ins_def)

lemma seq_del_0 [simp]: "seq_del off 0 xs = xs"
  by (simp add: seq_del_def)

lemma seq_del_seq_ins [simp]:
  "off \<le> length xs \<Longrightarrow> seq_del off (length ys) (seq_ins off ys xs) = xs"
  by (simp add: seq_del_def seq_ins_def)

lemma seq_cut_seq_ins [simp]:
  "off \<le> length xs \<Longrightarrow> seq_cut off (length ys) (seq_ins off ys xs) = ys"
  by (simp add: seq_cut_def seq_ins_def)

lemma seq_ins_seq_del:
  assumes "off \<le> length xs"
  shows "seq_ins off (seq_cut off n xs) (seq_del off n xs) = xs"
proof -
  have "take n (drop off xs) @ drop (off + n) xs = drop off xs"
    by (metis add.commute append_take_drop_id drop_drop)
  then show ?thesis
    using assms by (simp add: seq_ins_def seq_cut_def seq_del_def min_def)
qed

lemma seq_ins_seq_ins_adjacent:
  "off \<le> length xs \<Longrightarrow> seq_ins (off + length ys) zs (seq_ins off ys xs) = seq_ins off (ys @ zs) xs"
  by (simp add: seq_ins_def)

text \<open>A slice that starts in the first of two parts, \<open>d\<close> of its \<open>m\<close> elements being there.\<close>

lemma seq_cut_append:
  assumes "off + d \<le> length xs" and "d \<le> m" and "d = m \<or> off + d = length xs"
  shows "seq_cut off m (xs @ ys) = seq_cut off d xs @ seq_cut 0 (m - d) ys"
  using assms(3)
proof
  assume "d = m"
  then show ?thesis using assms by (simp add: seq_cut_def)
next
  assume "off + d = length xs"
  then have "length xs - off = d" "off \<le> length xs" by simp_all
  then show ?thesis using assms(2) by (simp add: seq_cut_def)
qed

lemma seq_del_append:
  assumes "off + d \<le> length xs" and "d \<le> m" and "d = m \<or> off + d = length xs"
  shows "seq_del off m (xs @ ys) = seq_del off d xs @ seq_del 0 (m - d) ys"
  using assms(3)
proof
  assume "d = m"
  then show ?thesis using assms by (simp add: seq_del_def)
next
  assume "off + d = length xs"
  then have "off + m - length xs = m - d" "off \<le> length xs" "length xs \<le> off + m"
    using assms(2) by simp_all
  then show ?thesis using \<open>off + d = length xs\<close> by (simp add: seq_del_def)
qed

text \<open>Where an element is after an insertion or a removal.\<close>

lemma nth_seq_ins_before:
  "i < off \<Longrightarrow> off \<le> length xs \<Longrightarrow> seq_ins off ys xs ! i = xs ! i"
  by (simp add: seq_ins_def nth_append)

lemma nth_seq_ins_after:
  assumes "off \<le> i" and "i < length xs"
  shows "seq_ins off ys xs ! (i + length ys) = xs ! i"
proof -
  have "i + length ys = length (take off xs @ ys) + (i - off)"
    using assms by simp
  moreover have "(take off xs @ ys) @ drop off xs = seq_ins off ys xs"
    by (simp add: seq_ins_def)
  ultimately have "seq_ins off ys xs ! (i + length ys) = drop off xs ! (i - off)"
    by (metis nth_append_length_plus)
  then show ?thesis
    using assms by simp
qed

lemma nth_seq_del_before:
  "i < off \<Longrightarrow> off \<le> length xs \<Longrightarrow> seq_del off n xs ! i = xs ! i"
  by (simp add: seq_del_def nth_append)

lemma nth_seq_del_after:
  assumes "off + n \<le> i" and "i < length xs"
  shows "seq_del off n xs ! (i - n) = xs ! i"
proof -
  have "i - n = length (take off xs) + (i - (off + n))"
    using assms by simp
  then have "seq_del off n xs ! (i - n) = drop (off + n) xs ! (i - (off + n))"
    unfolding seq_del_def by (metis nth_append_length_plus)
  then show ?thesis
    using assms by simp
qed

end
