(* ===== verification/TxtBlocks.thy ===== *)
theory TxtBlocks
  imports Prelude
begin

text \<open>
  The text of package \<open>txt\<close> (src/txt/txt.go): the \<open>Text\<close> object, kept as a series of
  rune slices, and the raw operations on it (\<open>ins\<close>, \<open>del\<close>, \<open>Get\<close>, \<open>Getc\<close>), which
  undo, redo and marks build on.  \<open>contents\<close> is the abstraction: the runes of all the
  slices in order.  The lemmas refine each raw operation to one on that flat sequence.
\<close>

section \<open>State\<close>

datatype tedit = Eins | Edel

record edit =
  e_op :: tedit
  e_off :: int
  e_data :: "rune list"
  e_contd :: bool

text \<open>
  \<open>mk_id\<close> is the address of the mark object: \<open>markins\<close> compares mark pointers, so
  each mark gets an identity of its own when it is allocated.
\<close>

record mark =
  mk_name :: string
  mk_off :: int
  mk_equaltoo :: bool
  mk_id :: nat

record seekpos =
  sk_off :: int
  sk_i :: int
  sk_n :: int

text \<open>
  \<open>edits\<close> is \<open>None\<close> for a nil slice (a text without undo).  \<open>marks\<close> lists the map's
  entries, with distinct keys; \<open>mark\<close> is the address of the mark being edited, if any, and
  \<open>fresh\<close> the next address to allocate.  The mutex is not modelled: each exported
  operation holds it from its first to its last statement, so operations are atomic.
\<close>

record text_state =
  tx_data :: "rune list list"
  tx_edits :: "edit list option"
  tx_nedits :: nat
  tx_sz :: int
  tx_marks :: "(string \<times> mark) list"
  tx_mark :: "nat option"
  tx_seek :: seekpos
  tx_contd :: bool
  tx_vers :: int
  tx_fresh :: nat

definition contents :: "text_state \<Rightarrow> rune list" where
  "contents t = concat (tx_data t)"

text \<open>The size field agrees with the slices.\<close>

definition wf_text :: "text_state \<Rightarrow> bool" where
  "wf_text t \<longleftrightarrow> tx_sz t = len (concat (tx_data t))"

definition no_empty :: "'a list list \<Rightarrow> bool" where
  "no_empty bs \<longleftrightarrow> [] \<notin> set bs"

definition txt_Len :: "text_state \<Rightarrow> int" where
  "txt_Len t = tx_sz t"

definition txt_Vers :: "text_state \<Rightarrow> int" where
  "txt_Vers t = tx_vers t"

section \<open>Raw insert and delete\<close>

datatype txt_error = NoHoles | NoMark string

text \<open>
  The loop of \<open>txt_ins\<close> over the slices: the slice that holds \<open>off\<close> is split, the data is
  appended to its first half and the loop stops.  The flag tells whether the data went in.
  A negative offset makes a slice expression panic at the first slice.
\<close>

fun txt_ins_loop :: "rune list \<Rightarrow> int \<Rightarrow> rune list list \<Rightarrow> (rune list list \<times> bool) go" where
  "txt_ins_loop dat off [] = Ret ([], False)"
| "txt_ins_loop dat off (b # bs) =
     (if off < len b then
        (if off < 0 then Panic
         else Ret ((take (nat off) b @ dat) # drop (nat off) b # bs, True))
      else if off = len b then Ret ((b @ dat) # bs, True)
      else go_map (\<lambda>(bs', done). (b # bs', done)) (txt_ins_loop dat (off - len b) bs))"

definition txt_ins :: "text_state \<Rightarrow> rune list \<Rightarrow> int \<Rightarrow> (text_state \<times> txt_error option) go" where
  "txt_ins t0 dat off =
     (let t = t0\<lparr>tx_seek := (tx_seek t0)\<lparr>sk_off := -2\<rparr>\<rparr>; d = tx_data t in
      if off > tx_sz t then Ret (t, Some NoHoles)
      else if off = tx_sz t then
        (if d \<noteq> [] \<and> len (last d) < 512
         then Ret (t\<lparr>tx_data := butlast d @ [last d @ dat], tx_sz := tx_sz t + len dat\<rparr>, None)
         else Ret (t\<lparr>tx_data := d @ [dat], tx_sz := tx_sz t + len dat\<rparr>, None))
      else go_map (\<lambda>(d', done). (t\<lparr>tx_data := d', tx_sz := (if done then tx_sz t + len dat else tx_sz t)\<rparr>, None))
             (txt_ins_loop dat off d))"

text \<open>The search for the slice that holds an offset, shared by \<open>txt_del\<close>, \<open>txt_Get\<close> and \<open>txt_Getc\<close>.\<close>

fun find_block :: "int \<Rightarrow> 'a list list \<Rightarrow> nat \<times> int" where
  "find_block off [] = (0, off)"
| "find_block off (b # bs) =
     (if off < len b then (0, off)
      else (let (i, o') = find_block (off - len b) bs in (Suc i, o')))"

text \<open>
  The deleting loop of \<open>txt_del\<close>, from the slice that holds \<open>off\<close> on, with \<open>m\<close> runes to
  go: the deleted runes, the slices left and how many runes went.
\<close>

fun txt_del_loop :: "int \<Rightarrow> int \<Rightarrow> rune list list \<Rightarrow> (rune list \<times> rune list list \<times> int) go" where
  "txt_del_loop off m [] = Ret ([], [], 0)"
| "txt_del_loop off m (b # bs) =
     (if m \<le> 0 then Ret ([], b # bs, 0)
      else (let nd = (if len b - off > m then m else len b - off) in
        if nd = len b then
          go_map (\<lambda>(r, bs', k). (b @ r, bs', nd + k)) (txt_del_loop 0 (m - nd) bs)
        else if off < 0 then Panic
        else if off + nd = len b then
          go_map (\<lambda>(r, bs', k). (drop (nat off) b @ r, take (nat off) b # bs', nd + k))
            (txt_del_loop 0 (m - nd) bs)
        else
          go_map (\<lambda>(r, bs', k). (take (nat nd) (drop (nat off) b) @ r,
                    (take (nat off) b @ drop (nat (off + nd)) b) # bs', nd + k))
            (txt_del_loop 0 (m - nd) bs)))"

definition txt_del :: "text_state \<Rightarrow> int \<Rightarrow> int \<Rightarrow> (text_state \<times> rune list) go" where
  "txt_del t0 off n =
     (let t = t0\<lparr>tx_seek := (tx_seek t0)\<lparr>sk_off := -2\<rparr>\<rparr>; d = tx_data t in
      if off \<ge> tx_sz t then Ret (t, [])
      else (let (i, off') = find_block off d in
        go_map (\<lambda>(r, d', k). (t\<lparr>tx_data := take i d @ d', tx_sz := tx_sz t - k\<rparr>, r))
          (txt_del_loop off' n (drop i d))))"

section \<open>Reading\<close>

text \<open>
  \<open>txt_Get\<close> sends slices of the text through a channel; its result here is the list of the
  messages a reader that drains the channel receives.
\<close>

fun txt_get_loop :: "int \<Rightarrow> int \<Rightarrow> rune list list \<Rightarrow> rune list list go" where
  "txt_get_loop off m [] = Ret []"
| "txt_get_loop off m (b # bs) =
     (if m \<le> 0 then Ret []
      else (let nd = (if len b - off > m then m else len b - off) in
        if off < 0 then Panic
        else go_map (\<lambda>r. take (nat nd) (drop (nat off) b) # r) (txt_get_loop 0 (m - nd) bs)))"

definition txt_Get :: "text_state \<Rightarrow> int \<Rightarrow> int \<Rightarrow> rune list list go" where
  "txt_Get t off n0 =
     (let n = (if n0 < 0 then tx_sz t else n0); d = tx_data t in
      if off \<ge> tx_sz t then Ret [[]]
      else (let (i, off') = find_block off d in txt_get_loop off' n (drop i d)))"

text \<open>Indexing two levels of slices, as \<open>d[i][n]\<close> does.\<close>

definition index2 :: "'a list list \<Rightarrow> int \<Rightarrow> int \<Rightarrow> 'a go" where
  "index2 d i n =
     (if 0 \<le> i \<and> i < len d \<and> 0 \<le> n \<and> n < len (d ! nat i) then Ret (d ! nat i ! nat n) else Panic)"

definition block_len :: "'a list list \<Rightarrow> int \<Rightarrow> int go" where
  "block_len d i = (if 0 \<le> i \<and> i < len d then Ret (len (d ! nat i)) else Panic)"

text \<open>
  \<open>txt_Getc\<close> caches the position of the last rune it returned: the cases of its switch are
  the cached position, the one before and the one after; else the slices are searched.
\<close>

definition txt_Getc :: "text_state \<Rightarrow> int \<Rightarrow> (text_state \<times> rune) go" where
  "txt_Getc t off =
     (let d = tx_data t; k = tx_seek t;
          at = (\<lambda>k'. go_map (\<lambda>r. (t\<lparr>tx_seek := k'\<rparr>, r)) (index2 d (sk_i k') (sk_n k'))) in
      if off = sk_off k then at k
      else if off = sk_off k - 1 then
        (if sk_n k > 0 then at (k\<lparr>sk_n := sk_n k - 1, sk_off := sk_off k - 1\<rparr>)
         else if sk_i k > 0 then
           go_bind (block_len d (sk_i k - 1)) (\<lambda>l.
             at (k\<lparr>sk_i := sk_i k - 1, sk_n := l - 1, sk_off := sk_off k - 1\<rparr>))
         else Ret (t, 0))
      else if off = sk_off k + 1 then
        (if sk_i k \<ge> len d then Ret (t, 0)
         else go_bind (block_len d (sk_i k)) (\<lambda>l.
           if sk_n k \<ge> l - 1 then
             (if sk_i k \<ge> len d - 1 then Ret (t, 0)
              else at (k\<lparr>sk_i := sk_i k + 1, sk_n := 0, sk_off := sk_off k + 1\<rparr>))
           else at (k\<lparr>sk_n := sk_n k + 1, sk_off := sk_off k + 1\<rparr>)))
      else if off < 0 \<or> off \<ge> tx_sz t then Ret (t\<lparr>tx_seek := k\<lparr>sk_off := -2\<rparr>\<rparr>, 0)
      else (let (i, soff) = find_block off d in
        if int i \<ge> len d then Ret (t, 0)
        else at \<lparr>sk_off = off, sk_i = int i, sk_n = soff\<rparr>))"

section \<open>The raw operations refine operations on the flat sequence\<close>

lemma len_concat_Cons [simp]: "len (concat (b # bs)) = len b + len (concat bs)"
  by simp

lemma txt_ins_loop_refines:
  assumes "0 \<le> off" and "off < len (concat bs)"
  shows "\<exists>bs'. txt_ins_loop dat off bs = Ret (bs', True) \<and>
    concat bs' = seq_ins (nat off) dat (concat bs) \<and>
    (dat \<noteq> [] \<longrightarrow> no_empty bs \<longrightarrow> no_empty bs')"
  using assms
proof (induction bs arbitrary: off)
  case Nil
  then show ?case by simp
next
  case (Cons b bs)
  show ?case
  proof (cases "off \<le> len b")
    case True
    then show ?thesis
      using Cons.prems by (cases "off = len b") (auto simp: seq_ins_def no_empty_def)
  next
    case False
    then obtain bs' where bs': "txt_ins_loop dat (off - len b) bs = Ret (bs', True)"
      "concat bs' = seq_ins (nat (off - len b)) dat (concat bs)"
      "dat \<noteq> [] \<longrightarrow> no_empty bs \<longrightarrow> no_empty bs'"
      using Cons.IH [of "off - len b"] Cons.prems by auto
    moreover have "nat off = length b + nat (off - len b)"
      using False by simp
    ultimately show ?thesis
      using False by (auto simp: seq_ins_def no_empty_def)
  qed
qed

lemma find_block_spec:
  assumes "0 \<le> off" and "off < len (concat bs)" and "find_block off bs = (i, off')"
  shows "i < length bs \<and> 0 \<le> off' \<and> off' < len (bs ! i) \<and>
    nat off = length (concat (take i bs)) + nat off'"
  using assms
proof (induction bs arbitrary: off i)
  case Nil
  then show ?case by simp
next
  case (Cons b bs)
  show ?case
  proof (cases "off < len b")
    case True
    then show ?thesis using Cons.prems by auto
  next
    case False
    then obtain j where j: "find_block (off - len b) bs = (j, off')" "i = Suc j"
      using Cons.prems(3) by (auto split: prod.splits)
    then show ?thesis
      using Cons.IH [of "off - len b" j] Cons.prems False by auto
  qed
qed

lemma concat_take_drop: "concat (take i bs) @ concat (drop i bs) = concat bs"
  by (metis append_take_drop_id concat_append)

text \<open>Slices of the flat sequence, read from the block that \<open>find_block\<close> found.\<close>

lemma seq_cut_after: "seq_cut (length xs + o') n (xs @ ys) = seq_cut o' n ys"
  by (simp add: seq_cut_def)

lemma seq_del_after: "seq_del (length xs + o') n (xs @ ys) = xs @ seq_del o' n ys"
  by (simp add: seq_del_def add.assoc)

lemma txt_del_loop_refines:
  assumes "0 \<le> off" and "bs \<noteq> [] \<Longrightarrow> off \<le> len (hd bs)"
  shows "\<exists>r bs' k. txt_del_loop off m bs = Ret (r, bs', k) \<and>
    r = seq_cut (nat off) (nat m) (concat bs) \<and>
    concat bs' = seq_del (nat off) (nat m) (concat bs) \<and> k = len r \<and>
    (no_empty bs \<longrightarrow> no_empty bs')"
  using assms
proof (induction bs arbitrary: off m)
  case Nil
  then show ?case by (simp add: seq_cut_def seq_del_def)
next
  case (Cons b bs)
  show ?case
  proof (cases "m \<le> 0")
    case True
    then have "nat m = 0" by simp
    with True show ?thesis by (simp add: seq_cut_def)
  next
    case False
    define nd where "nd = (if len b - off > m then m else len b - off)"
    have nd: "0 \<le> nd" "nd \<le> m" "off + nd \<le> len b" "nd < m \<longrightarrow> off + nd = len b"
      using False Cons.prems by (auto simp: nd_def)
    obtain r bs' k where IH: "txt_del_loop 0 (m - nd) bs = Ret (r, bs', k)"
      "r = seq_cut 0 (nat (m - nd)) (concat bs)"
      "concat bs' = seq_del 0 (nat (m - nd)) (concat bs)" "k = len r"
      "no_empty bs \<longrightarrow> no_empty bs'"
      using Cons.IH [of 0 "m - nd"] by auto
    have nat: "nat off + nat nd \<le> length b" "nat nd \<le> nat m"
      "nat nd = nat m \<or> nat off + nat nd = length b" "nat (m - nd) = nat m - nat nd"
      using nd Cons.prems(1) by linarith+
    have step: "seq_cut (nat off) (nat m) (concat (b # bs)) = take (nat nd) (drop (nat off) b) @ r"
      "seq_del (nat off) (nat m) (concat (b # bs)) =
        (take (nat off) b @ drop (nat off + nat nd) b) @ concat bs'"
      using seq_cut_append [OF nat(1-3), of "concat bs"] seq_del_append [OF nat(1-3), of "concat bs"]
      by (simp_all add: IH(2,3) nat(4) seq_cut_def [of _ _ b] seq_del_def [of _ _ b])
    have res: "txt_del_loop off m (b # bs) =
      Ret (take (nat nd) (drop (nat off) b) @ r,
        (if nd = len b then bs' else (take (nat off) b @ drop (nat off + nat nd) b) # bs'), nd + k)"
      using False Cons.prems(1) nd nat(1) IH(1)
      by (auto simp: nd_def [symmetric] Let_def nat_add_distrib)
    have ne: "no_empty (b # bs) \<longrightarrow>
      no_empty (if nd = len b then bs' else (take (nat off) b @ drop (nat off + nat nd) b) # bs')"
      using IH(5) nd nat(1) Cons.prems(1) by (auto simp: no_empty_def)
    have all: "nd = len b \<longrightarrow> take (nat off) b @ drop (nat off + nat nd) b = []"
      using nd Cons.prems(1) by auto
    show ?thesis
      unfolding res using step ne all IH(4) nd(1,3) nat(1) Cons.prems(1)
      by (auto simp: min_def)
  qed
qed

lemma txt_get_loop_refines:
  assumes "0 \<le> off" and "bs \<noteq> [] \<Longrightarrow> off \<le> len (hd bs)"
  shows "\<exists>ms. txt_get_loop off m bs = Ret ms \<and> concat ms = seq_cut (nat off) (nat m) (concat bs)"
  using assms
proof (induction bs arbitrary: off m)
  case Nil
  then show ?case by (simp add: seq_cut_def)
next
  case (Cons b bs)
  show ?case
  proof (cases "m \<le> 0")
    case True
    then show ?thesis by (simp add: seq_cut_def)
  next
    case False
    define nd where "nd = (if len b - off > m then m else len b - off)"
    have nd: "0 \<le> nd" "nd \<le> m" "off + nd \<le> len b" "nd < m \<longrightarrow> off + nd = len b"
      using False Cons.prems by (auto simp: nd_def)
    obtain ms where IH: "txt_get_loop 0 (m - nd) bs = Ret ms"
      "concat ms = seq_cut 0 (nat (m - nd)) (concat bs)"
      using Cons.IH [of 0 "m - nd"] by auto
    have nat: "nat off + nat nd \<le> length b" "nat nd \<le> nat m"
      "nat nd = nat m \<or> nat off + nat nd = length b" "nat (m - nd) = nat m - nat nd"
      using nd Cons.prems(1) by linarith+
    have "seq_cut (nat off) (nat m) (concat (b # bs)) = take (nat nd) (drop (nat off) b) @ concat ms"
      using seq_cut_append [OF nat(1-3), of "concat bs"]
      by (simp add: IH(2) nat(4) seq_cut_def [of _ _ b])
    then show ?thesis
      using False Cons.prems(1) IH(1) by (simp add: nd_def [symmetric] Let_def)
  qed
qed

section \<open>The raw operations on texts\<close>

text \<open>\<open>raw_frame t t'\<close>: only the slices, the size and the read cache changed.\<close>

definition raw_frame :: "text_state \<Rightarrow> text_state \<Rightarrow> bool" where
  "raw_frame t t' \<longleftrightarrow>
     tx_edits t' = tx_edits t \<and> tx_nedits t' = tx_nedits t \<and> tx_marks t' = tx_marks t \<and>
     tx_mark t' = tx_mark t \<and> tx_contd t' = tx_contd t \<and> tx_vers t' = tx_vers t \<and>
     tx_fresh t' = tx_fresh t \<and> sk_off (tx_seek t') = -2"

lemma raw_frameD:
  assumes "raw_frame t t'"
  shows "tx_edits t' = tx_edits t" "tx_nedits t' = tx_nedits t" "tx_marks t' = tx_marks t"
    "tx_mark t' = tx_mark t" "tx_contd t' = tx_contd t" "tx_vers t' = tx_vers t"
    "tx_fresh t' = tx_fresh t" "sk_off (tx_seek t') = -2"
  using assms by (simp_all add: raw_frame_def)

lemma txt_ins_refines:
  assumes "wf_text t" and "0 \<le> off" and "off \<le> tx_sz t"
  shows "\<exists>t'. txt_ins t dat off = Ret (t', None) \<and> wf_text t' \<and> raw_frame t t' \<and>
    contents t' = seq_ins (nat off) dat (contents t) \<and>
    (dat \<noteq> [] \<longrightarrow> no_empty (tx_data t) \<longrightarrow> no_empty (tx_data t'))"
proof (cases "off = tx_sz t")
  case True
  then have "nat off = length (concat (tx_data t))"
    using assms(1) by (simp add: wf_text_def)
  moreover have "tx_data t \<noteq> [] \<Longrightarrow> concat (tx_data t) = concat (butlast (tx_data t)) @ last (tx_data t)"
    by (metis append_butlast_last_id concat.simps concat_append append_Nil2)
  ultimately show ?thesis
    using True assms(1)
    by (auto simp: txt_ins_def Let_def contents_def wf_text_def raw_frame_def seq_ins_def no_empty_def
        simp del: length_concat dest: in_set_butlastD)
next
  case False
  then have "off < len (concat (tx_data t))"
    using assms by (simp add: wf_text_def)
  then obtain bs' where "txt_ins_loop dat off (tx_data t) = Ret (bs', True)"
    "concat bs' = seq_ins (nat off) dat (concat (tx_data t))"
    "dat \<noteq> [] \<longrightarrow> no_empty (tx_data t) \<longrightarrow> no_empty bs'"
    using txt_ins_loop_refines assms(2) by blast
  then show ?thesis
    using False assms
    by (auto simp: txt_ins_def contents_def wf_text_def raw_frame_def)
qed

lemma txt_ins_hole:
  "tx_sz t < off \<Longrightarrow>
     txt_ins t dat off = Ret (t\<lparr>tx_seek := (tx_seek t)\<lparr>sk_off := -2\<rparr>\<rparr>, Some NoHoles)"
  by (simp add: txt_ins_def)

lemma txt_del_refines:
  assumes "wf_text t" and "0 \<le> off"
  shows "\<exists>t' r. txt_del t off n = Ret (t', r) \<and> wf_text t' \<and> raw_frame t t' \<and>
    r = seq_cut (nat off) (nat n) (contents t) \<and>
    contents t' = seq_del (nat off) (nat n) (contents t) \<and>
    (no_empty (tx_data t) \<longrightarrow> no_empty (tx_data t'))"
proof (cases "off < tx_sz t")
  case False
  then have "length (contents t) \<le> nat off"
    using assms by (simp add: wf_text_def contents_def)
  then show ?thesis
    using False assms
    by (auto simp: txt_del_def Let_def wf_text_def raw_frame_def contents_def seq_cut_def seq_del_def)
next
  case True
  obtain i off' where f: "find_block off (tx_data t) = (i, off')"
    by fastforce
  have off: "off < len (concat (tx_data t))"
    using True assms(1) by (simp add: wf_text_def)
  note fb = find_block_spec [OF assms(2) off f]
  let ?d = "drop i (tx_data t)" and ?p = "concat (take i (tx_data t))"
  have "?d \<noteq> [] \<Longrightarrow> off' \<le> len (hd ?d)"
    using fb by (simp add: hd_drop_conv_nth)
  then obtain r bs' k where d: "txt_del_loop off' n ?d = Ret (r, bs', k)"
    "r = seq_cut (nat off') (nat n) (concat ?d)" "concat bs' = seq_del (nat off') (nat n) (concat ?d)"
    "k = len r" "no_empty ?d \<longrightarrow> no_empty bs'"
    using txt_del_loop_refines [of off' ?d n] fb by blast
  have c: "concat (tx_data t) = ?p @ concat ?d"
    by (simp add: concat_take_drop)
  have "r = seq_cut (nat off) (nat n) (concat (tx_data t))"
    "?p @ concat bs' = seq_del (nat off) (nat n) (concat (tx_data t))"
    using fb unfolding c d(2,3) by (simp_all add: seq_cut_after seq_del_after del: length_concat)
  moreover from this have "len (?p @ concat bs') = tx_sz t - k"
    using assms(1) off d(4) assms(2) by (auto simp: wf_text_def min_def)
  moreover have "no_empty (tx_data t) \<longrightarrow> no_empty (take i (tx_data t) @ bs')"
    using d(5) by (auto simp: no_empty_def dest: in_set_takeD in_set_dropD)
  ultimately show ?thesis
    using True d(1) f by (auto simp: txt_del_def Let_def contents_def wf_text_def raw_frame_def)
qed

lemma txt_Get_refines:
  assumes "wf_text t" and "0 \<le> off"
  shows "\<exists>ms. txt_Get t off n = Ret ms \<and>
    concat ms = seq_cut (nat off) (if n < 0 then length (contents t) else nat n) (contents t)"
proof (cases "off < tx_sz t")
  case False
  then have "length (contents t) \<le> nat off"
    using assms by (simp add: wf_text_def contents_def)
  then show ?thesis
    using False by (simp add: txt_Get_def Let_def seq_cut_def)
next
  case True
  obtain i off' where f: "find_block off (tx_data t) = (i, off')"
    by fastforce
  have off: "off < len (concat (tx_data t))"
    using True assms(1) by (simp add: wf_text_def)
  note fb = find_block_spec [OF assms(2) off f]
  let ?d = "drop i (tx_data t)" and ?p = "concat (take i (tx_data t))"
  let ?n = "if n < 0 then tx_sz t else n"
  have "?d \<noteq> [] \<Longrightarrow> off' \<le> len (hd ?d)"
    using fb by (simp add: hd_drop_conv_nth)
  then obtain ms where g: "txt_get_loop off' ?n ?d = Ret ms"
    "concat ms = seq_cut (nat off') (nat ?n) (concat ?d)"
    using txt_get_loop_refines [of off' ?d ?n] fb by blast
  have c: "concat (tx_data t) = ?p @ concat ?d"
    by (simp add: concat_take_drop)
  have n: "nat ?n = (if n < 0 then length (contents t) else nat n)"
    using assms(1) by (simp add: wf_text_def contents_def)
  have "concat ms = seq_cut (nat off) (nat ?n) (concat (tx_data t))"
    using fb unfolding c g(2) by (simp add: seq_cut_after)
  then show ?thesis
    using True f g(1) n by (simp add: txt_Get_def Let_def contents_def del: length_concat)
qed

section \<open>Cached reads\<close>

text \<open>
  The cache of \<open>Getc\<close> is either invalid (offset -2) or names the slice and the index in
  it of the rune at the cached offset.
\<close>

definition seek_at :: "rune list list \<Rightarrow> seekpos \<Rightarrow> bool" where
  "seek_at d k \<longleftrightarrow> 0 \<le> sk_i k \<and> sk_i k < len d \<and> 0 \<le> sk_n k \<and> sk_n k < len (d ! nat (sk_i k)) \<and>
     sk_off k = len (concat (take (nat (sk_i k)) d)) + sk_n k"

definition seek_ok :: "text_state \<Rightarrow> bool" where
  "seek_ok t \<longleftrightarrow> sk_off (tx_seek t) = -2 \<or> seek_at (tx_data t) (tx_seek t)"

lemma length_concat_take_Suc:
  "i < length d \<Longrightarrow> length (concat (take (Suc i) d)) = length (concat (take i d)) + length (d ! i)"
  by (simp add: take_Suc_conv_app_nth)

lemma concat_nth_block:
  assumes "i < length d" and "n < length (d ! i)"
  shows "concat d ! (length (concat (take i d)) + n) = d ! i ! n"
    and "length (concat (take i d)) + n < length (concat d)"
proof -
  have "concat d = concat (take i d) @ d ! i @ concat (drop (Suc i) d)"
    using assms(1) by (metis Cons_nth_drop_Suc concat.simps(2) concat_take_drop)
  then show "concat d ! (length (concat (take i d)) + n) = d ! i ! n"
    "length (concat (take i d)) + n < length (concat d)"
    using assms(2) by (simp_all add: nth_append)
qed

lemma seek_at_index2:
  assumes "seek_at d k"
  shows "index2 d (sk_i k) (sk_n k) = Ret (concat d ! nat (sk_off k))"
    and "0 \<le> sk_off k" and "sk_off k < len (concat d)"
proof -
  have b: "nat (sk_i k) < length d" "nat (sk_n k) < length (d ! nat (sk_i k))"
    "nat (sk_off k) = length (concat (take (nat (sk_i k)) d)) + nat (sk_n k)"
    using assms unfolding seek_at_def by linarith+
  show "index2 d (sk_i k) (sk_n k) = Ret (concat d ! nat (sk_off k))"
    using assms concat_nth_block(1) [OF b(1,2)] unfolding b(3) by (simp add: index2_def seek_at_def)
  show "0 \<le> sk_off k"
    using assms by (simp add: seek_at_def)
  then show "sk_off k < len (concat d)"
    using concat_nth_block(2) [OF b(1,2)] b(3) by linarith
qed

lemma seek_at_prev_block:
  assumes "no_empty d" and "seek_at d k" and "sk_n k = 0" and "0 < sk_i k"
  shows "block_len d (sk_i k - 1) = Ret (len (d ! nat (sk_i k - 1)))"
    and "seek_at d (k\<lparr>sk_i := sk_i k - 1, sk_n := len (d ! nat (sk_i k - 1)) - 1, sk_off := sk_off k - 1\<rparr>)"
proof -
  let ?j = "nat (sk_i k - 1)"
  have j: "?j < length d" "nat (sk_i k) = Suc ?j"
    using assms(2,4) unfolding seek_at_def by linarith+
  then have "d ! ?j \<noteq> []"
    using assms(1) nth_mem unfolding no_empty_def by metis
  then show "block_len d (sk_i k - 1) = Ret (len (d ! ?j))"
    "seek_at d (k\<lparr>sk_i := sk_i k - 1, sk_n := len (d ! ?j) - 1, sk_off := sk_off k - 1\<rparr>)"
    using assms(2-4) length_concat_take_Suc [OF j(1)] j
    by (simp_all add: block_len_def seek_at_def Suc_le_eq del: length_concat)
qed

lemma seek_at_next_block:
  assumes "no_empty d" and "seek_at d k" and "sk_n k \<ge> len (d ! nat (sk_i k)) - 1" and "sk_i k < len d - 1"
  shows "seek_at d (k\<lparr>sk_i := sk_i k + 1, sk_n := 0, sk_off := sk_off k + 1\<rparr>)"
proof -
  let ?j = "nat (sk_i k)"
  have j: "?j < length d" "Suc ?j < length d" "nat (sk_i k + 1) = Suc ?j"
    using assms(2,4) unfolding seek_at_def by linarith+
  have "d ! Suc ?j \<noteq> []"
    using assms(1) j(2) nth_mem unfolding no_empty_def by metis
  then show ?thesis
    using assms(2-4) length_concat_take_Suc [OF j(1)] j(3)
    by (simp add: seek_at_def del: length_concat)
qed

lemma seek_at_last:
  assumes "seek_at d k" and "sk_n k \<ge> len (d ! nat (sk_i k)) - 1" and "sk_i k \<ge> len d - 1"
  shows "sk_off k + 1 = len (concat d)"
proof -
  have "length d = Suc (nat (sk_i k))" "nat (sk_i k) < length d"
    using assms unfolding seek_at_def by linarith+
  then show ?thesis
    using assms(1,2) length_concat_take_Suc [of "nat (sk_i k)" d]
    by (simp add: seek_at_def del: length_concat)
qed

lemma txt_Getc_refines:
  assumes "wf_text t" and "no_empty (tx_data t)" and "seek_ok t" and "0 \<le> off"
  shows "\<exists>k. txt_Getc t off =
      Ret (t\<lparr>tx_seek := k\<rparr>, if off < len (contents t) then contents t ! nat off else 0) \<and>
    seek_ok (t\<lparr>tx_seek := k\<rparr>)"
proof -
  let ?d = "tx_data t" and ?k = "tx_seek t"
  have sz: "tx_sz t = len (contents t)"
    using assms(1) by (simp add: wf_text_def contents_def)
  define c where "c = (if off < len (contents t) then contents t ! nat off else 0)"
  define R where "R r \<longleftrightarrow> (\<exists>k. r = Ret (t\<lparr>tx_seek := k\<rparr>, c) \<and> seek_ok (t\<lparr>tx_seek := k\<rparr>))" for r
  have at: "R (go_map (\<lambda>r. (t\<lparr>tx_seek := k\<rparr>, r)) (index2 ?d (sk_i k) (sk_n k)))"
    if "seek_at ?d k" "sk_off k = off" for k
    using that seek_at_index2 [OF that(1)]
    by (auto simp: R_def c_def contents_def seek_ok_def simp del: length_concat)
  have stay: "R (Ret (t, 0))" if "len (contents t) \<le> off"
    using that assms(3) unfolding R_def c_def by (intro exI [of _ ?k]) simp
  consider (hit) "off = sk_off ?k" "seek_at ?d ?k"
    | (prev) "off = sk_off ?k - 1" "seek_at ?d ?k" | (after) "off = sk_off ?k + 1" "seek_at ?d ?k"
    | (miss) "off \<noteq> sk_off ?k" "off \<noteq> sk_off ?k - 1" "off \<noteq> sk_off ?k + 1"
    using assms(3,4) unfolding seek_ok_def by auto
  then have "R (txt_Getc t off)"
  proof cases
    case hit
    then show ?thesis using at [of ?k] by (simp add: txt_Getc_def Let_def)
  next
    case prev
    have dec: "seek_at ?d (?k\<lparr>sk_n := sk_n ?k - 1, sk_off := sk_off ?k - 1\<rparr>)" if "0 < sk_n ?k"
      using prev(2) that by (simp add: seek_at_def)
    have first: "sk_n ?k = 0 \<and> 0 < sk_i ?k" if "\<not> 0 < sk_n ?k"
      using prev that assms(4) unfolding seek_at_def by (cases "sk_i ?k = 0") auto
    show ?thesis
    proof (cases "0 < sk_n ?k")
      case True
      then show ?thesis
        using prev at [OF dec] by (simp add: txt_Getc_def Let_def)
    next
      case False
      with first have n: "sk_n ?k = 0" "0 < sk_i ?k"
        by simp_all
      note pb = seek_at_prev_block [OF assms(2) prev(2) n]
      show ?thesis
        using prev n pb(1) at [OF pb(2)] by (simp add: txt_Getc_def Let_def)
    qed
  next
    case after
    have i: "sk_i ?k < len ?d" "block_len ?d (sk_i ?k) = Ret (len (?d ! nat (sk_i ?k)))"
      using after(2) by (simp_all add: seek_at_def block_len_def)
    show ?thesis
    proof (cases "sk_n ?k \<ge> len (?d ! nat (sk_i ?k)) - 1")
      case False
      then have fwd: "seek_at ?d (?k\<lparr>sk_n := sk_n ?k + 1, sk_off := sk_off ?k + 1\<rparr>)"
        using after(2) by (simp add: seek_at_def)
      show ?thesis
        using False after(1) i at [OF fwd] by (simp add: txt_Getc_def Let_def)
    next
      case last: True
      show ?thesis
      proof (cases "sk_i ?k \<ge> len ?d - 1")
        case True
        then have "R (Ret (t, 0))"
          using stay seek_at_last [OF after(2) last] after(1) by (simp add: contents_def del: length_concat)
        then show ?thesis
          using last True after(1) i by (simp add: txt_Getc_def Let_def)
      next
        case False
        then show ?thesis
          using last after(1) i at [OF seek_at_next_block [OF assms(2) after(2) last]]
          by (simp add: txt_Getc_def Let_def)
      qed
    qed
  next
    case miss
    show ?thesis
    proof (cases "off < tx_sz t")
      case False
      then have "R (Ret (t\<lparr>tx_seek := ?k\<lparr>sk_off := -2\<rparr>\<rparr>, 0))"
        using sz unfolding R_def c_def by (intro exI [of _ "?k\<lparr>sk_off := -2\<rparr>"]) (simp add: seek_ok_def)
      then show ?thesis
        using miss False by (simp add: txt_Getc_def Let_def)
    next
      case True
      obtain i soff where f: "find_block off ?d = (i, soff)"
        by fastforce
      have "off < len (concat ?d)"
        using True sz by (simp add: contents_def del: length_concat)
      then have fb: "i < length ?d" "0 \<le> soff" "soff < len (?d ! i)"
        "nat off = length (concat (take i ?d)) + nat soff"
        using find_block_spec [OF assms(4) _ f] by blast+
      then have found: "seek_at ?d \<lparr>sk_off = off, sk_i = int i, sk_n = soff\<rparr>"
        using assms(4) by (auto simp: seek_at_def simp del: length_concat)
      show ?thesis
        using miss True f fb(1) assms(4) at [OF found] by (simp add: txt_Getc_def Let_def)
    qed
  qed
  then show ?thesis
    by (simp add: R_def c_def)
qed

end
