(* ===== verification/TxtEdit.thy ===== *)
theory TxtEdit
  imports TxtBlocks "HOL-Library.AList"
begin

text \<open>
  Marks, undo and redo of package \<open>txt\<close> (src/txt/txt.go), on top of the raw operations of
  TxtBlocks.  The undo list is shown to be a replayable history of the text: \<open>replay\<close> runs
  it on the flat sequence, and the invariant \<open>history\<close> says that replaying the applied
  edits from the first contents gives the current ones.
\<close>

section \<open>Marks\<close>

definition pins :: "int \<Rightarrow> int \<Rightarrow> int \<Rightarrow> int" where
  "pins old insp inssz = (if old < insp then old else old + inssz)"

definition pdel :: "int \<Rightarrow> int \<Rightarrow> int \<Rightarrow> int" where
  "pdel old delp0 delp1 =
     (if old < delp0 then old else if old < delp1 then delp0 else old - (delp1 - delp0))"

definition map_marks :: "(mark \<Rightarrow> mark) \<Rightarrow> text_state \<Rightarrow> text_state" where
  "map_marks f t = t\<lparr>tx_marks := map (\<lambda>(k, m). (k, f m)) (tx_marks t)\<rparr>"

definition txt_markins :: "text_state \<Rightarrow> int \<Rightarrow> int \<Rightarrow> text_state" where
  "txt_markins t p0 n =
     map_marks (\<lambda>m. if mk_off m \<noteq> p0 \<or> mk_equaltoo m \<or> tx_mark t = Some (mk_id m)
                     then m\<lparr>mk_off := pins (mk_off m) p0 n\<rparr> else m) t"

definition txt_markdel :: "text_state \<Rightarrow> int \<Rightarrow> int \<Rightarrow> text_state" where
  "txt_markdel t p0 p1 = map_marks (\<lambda>m. m\<lparr>mk_off := pdel (mk_off m) p0 p1\<rparr>) t"

definition txt_markEdit :: "text_state \<Rightarrow> edit \<Rightarrow> text_state" where
  "txt_markEdit t e =
     (if e_op e = Eins then txt_markins t (e_off e) (len (e_data e))
      else txt_markdel t (e_off e) (e_off e + len (e_data e)))"

fun tedit_String :: "tedit \<Rightarrow> string" where
  "tedit_String Eins = ''Eins''"
| "tedit_String Edel = ''Edel''"

section \<open>The undo list\<close>

definition txt_DropEdits :: "text_state \<Rightarrow> text_state" where
  "txt_DropEdits t = t\<lparr>tx_edits := Some [], tx_nedits := 0, tx_contd := False\<rparr>"

text \<open>
  \<open>addEdit\<close> drops the edits undone, then extends the last edit in place when the new one
  continues it and it is still short, or appends a new one.  An applied count past the end
  of the list would make the indexing panic.
\<close>

definition txt_addEdit ::
  "text_state \<Rightarrow> tedit \<Rightarrow> int \<Rightarrow> rune list \<Rightarrow> bool \<Rightarrow> (text_state \<times> edit) go" where
  "txt_addEdit t op pos dat same =
     (case tx_edits t of
        None \<Rightarrow> Ret (t, \<lparr>e_op = op, e_off = pos, e_data = dat, e_contd = same\<rparr>)
      | Some es0 \<Rightarrow>
          (let n = tx_nedits t; es = (if n < length es0 then take n es0 else es0) in
           if n > length es then Panic
           else if n > 0 \<and> e_op (es ! (n - 1)) = op \<and>
                e_off (es ! (n - 1)) + len (e_data (es ! (n - 1))) = pos \<and>
                len (e_data (es ! (n - 1))) < 1024
           then (let e = es ! (n - 1) in
             Ret (t\<lparr>tx_edits := Some (es[n - 1 := e\<lparr>e_data := e_data e @ dat\<rparr>])\<rparr>,
                  \<lparr>e_op = op, e_off = pos, e_data = dat, e_contd = e_contd e\<rparr>))
           else (let e = \<lparr>e_op = op, e_off = pos, e_data = dat, e_contd = same\<rparr> in
             Ret (t\<lparr>tx_edits := Some (es @ [e]), tx_nedits := n + 1\<rparr>, e))))"

definition txt_edit :: "text_state \<Rightarrow> edit \<Rightarrow> (text_state \<times> txt_error option) go" where
  "txt_edit t e =
     (if e_op e = Eins then txt_ins t (e_data e) (e_off e)
      else go_map (\<lambda>(t', _). (t', None)) (txt_del t (e_off e) (len (e_data e))))"

text \<open>\<open>Undo\<close> and \<open>Redo\<close> ignore the error of the edit they apply, as the code does.\<close>

definition txt_Undo :: "text_state \<Rightarrow> (text_state \<times> edit option) go" where
  "txt_Undo t =
     (case tx_edits t of
        None \<Rightarrow> Ret (t, None)
      | Some es \<Rightarrow>
          if tx_nedits t = 0 then Ret (t, None)
          else if tx_nedits t > length es then Panic
          else (let n = tx_nedits t - 1; e0 = es ! n;
                    e = e0\<lparr>e_op := (if e_op e0 = Eins then Edel else Eins)\<rparr>;
                    t1 = t\<lparr>tx_vers := tx_vers t + 1, tx_nedits := n\<rparr> in
                go_map (\<lambda>(t2, _). (txt_markEdit t2 e, Some e)) (txt_edit t1 e)))"

definition txt_Redo :: "text_state \<Rightarrow> (text_state \<times> edit option) go" where
  "txt_Redo t =
     (case tx_edits t of
        None \<Rightarrow> Ret (t, None)
      | Some es \<Rightarrow>
          if tx_nedits t = length es then Ret (t, None)
          else if tx_nedits t > length es then Panic
          else (let n = tx_nedits t; e0 = es ! n;
                    e = e0\<lparr>e_contd := (n < length es - 1 \<and> e_contd (es ! (n + 1)))\<rparr>;
                    t1 = t\<lparr>tx_vers := tx_vers t + 1, tx_nedits := n + 1\<rparr> in
                go_map (\<lambda>(t2, _). (txt_markEdit t2 e, Some e)) (txt_edit t1 e)))"

definition txt_ContdEdit :: "text_state \<Rightarrow> text_state" where
  "txt_ContdEdit t = t\<lparr>tx_contd := True\<rparr>"

definition txt_DiscontdEdit :: "text_state \<Rightarrow> text_state" where
  "txt_DiscontdEdit t = t\<lparr>tx_contd := False\<rparr>"

section \<open>The exported updates\<close>

definition txt_Ins :: "text_state \<Rightarrow> rune list \<Rightarrow> int \<Rightarrow> (text_state \<times> txt_error option) go" where
  "txt_Ins t dat off =
     (let contd = tx_contd t in
      go_bind (txt_ins (t\<lparr>tx_contd := False\<rparr>) dat off) (\<lambda>(t1, err).
        case err of
          Some x \<Rightarrow> Ret (t1, Some x)
        | None \<Rightarrow>
            go_map (\<lambda>(t2, e). (txt_markEdit t2 e, None))
              (txt_addEdit (t1\<lparr>tx_vers := tx_vers t1 + 1\<rparr>) Eins off dat contd)))"

definition txt_Del :: "text_state \<Rightarrow> int \<Rightarrow> int \<Rightarrow> (text_state \<times> rune list) go" where
  "txt_Del t off n =
     (let t0 = t\<lparr>tx_vers := tx_vers t + 1\<rparr> in
      if n = 0 then Ret (t0, [])
      else (let contd = tx_contd t0 in
        go_bind (txt_del (t0\<lparr>tx_contd := False\<rparr>) off n) (\<lambda>(t1, rs).
          go_map (\<lambda>(t2, e). (txt_markEdit t2 e, rs)) (txt_addEdit t1 Edel off rs contd))))"

definition txt_DelAll :: "text_state \<Rightarrow> text_state go" where
  "txt_DelAll t =
     (let contd = tx_contd t; t0 = t\<lparr>tx_contd := False, tx_vers := tx_vers t + 1\<rparr> in
      if tx_sz t0 = 0 then Ret t0
      else go_bind (txt_del t0 0 (tx_sz t0)) (\<lambda>(t1, dat).
        go_map (\<lambda>(t2, e). txt_markEdit t2 e) (txt_addEdit t1 Edel 0 dat contd)))"

text \<open>A text with no slices, with or without an undo list; \<open>New\<close> and \<open>NewEditing\<close> fill it.\<close>

definition empty_text :: "edit list option \<Rightarrow> text_state" where
  "empty_text es = \<lparr>tx_data = [], tx_edits = es, tx_nedits = 0, tx_sz = 0, tx_marks = [],
     tx_mark = None, tx_seek = \<lparr>sk_off = -2, sk_i = 0, sk_n = 0\<rparr>, tx_contd = False,
     tx_vers = 0, tx_fresh = 0\<rparr>"

definition txt_NewEditing :: "rune list \<Rightarrow> text_state go" where
  "txt_NewEditing txt =
     (let t = empty_text (Some []) in if txt \<noteq> [] then go_map fst (txt_Ins t txt 0) else Ret t)"

definition txt_New :: "rune list \<Rightarrow> text_state go" where
  "txt_New txt =
     (let t = empty_text None in if txt \<noteq> [] then go_map fst (txt_Ins t txt 0) else Ret t)"

section \<open>Mark operations\<close>

definition txt_SetMark :: "text_state \<Rightarrow> string \<Rightarrow> int \<Rightarrow> text_state \<times> mark" where
  "txt_SetMark t name off =
     (let m = \<lparr>mk_name = name, mk_off = off, mk_equaltoo = False, mk_id = tx_fresh t\<rparr> in
      (t\<lparr>tx_marks := AList.update name m (tx_marks t), tx_fresh := tx_fresh t + 1\<rparr>, m))"

definition txt_DelMark :: "text_state \<Rightarrow> string \<Rightarrow> text_state" where
  "txt_DelMark t name = t\<lparr>tx_marks := AList.delete name (tx_marks t)\<rparr>"

definition txt_Marks :: "text_state \<Rightarrow> string list" where
  "txt_Marks t = sort (map fst (tx_marks t))"

definition txt_Mark :: "text_state \<Rightarrow> string \<Rightarrow> mark option" where
  "txt_Mark t name = map_of (tx_marks t) name"

text \<open>The error return of \<open>MarkIns\<close> leaves \<open>t.mark\<close> set.\<close>

definition txt_MarkIns :: "text_state \<Rightarrow> string \<Rightarrow> rune list \<Rightarrow> (text_state \<times> txt_error option) go" where
  "txt_MarkIns t name dat =
     (case map_of (tx_marks t) name of
        None \<Rightarrow> Ret (t, Some (NoMark name))
      | Some m \<Rightarrow>
          (let contd = tx_contd t; off = mk_off m;
               t0 = t\<lparr>tx_mark := Some (mk_id m), tx_contd := False\<rparr> in
           go_bind (txt_ins t0 dat off) (\<lambda>(t1, err).
             case err of
               Some x \<Rightarrow> Ret (t1, Some x)
             | None \<Rightarrow>
                 go_map (\<lambda>(t2, e). ((txt_markEdit t2 e)\<lparr>tx_mark := None\<rparr>, None))
                   (txt_addEdit (t1\<lparr>tx_vers := tx_vers t1 + 1\<rparr>) Eins off dat contd))))"

text \<open>\<open>MarkDel\<close> clips a negative mark to 0 in place, before it deletes.\<close>

definition txt_MarkDel :: "text_state \<Rightarrow> string \<Rightarrow> int \<Rightarrow> (text_state \<times> rune list) go" where
  "txt_MarkDel t name n0 =
     (let t0 = t\<lparr>tx_vers := tx_vers t + 1\<rparr> in
      case map_of (tx_marks t) name of
        None \<Rightarrow> Ret (t0, [])
      | Some m0 \<Rightarrow>
          if n0 = 0 then Ret (t0, [])
          else (let m = (if mk_off m0 < 0 then m0\<lparr>mk_off := 0\<rparr> else m0);
                    n = (if n0 > mk_off m then mk_off m else n0);
                    off = mk_off m - n; contd = tx_contd t0;
                    t1 = t0\<lparr>tx_marks := AList.update name m (tx_marks t0),
                            tx_mark := Some (mk_id m), tx_contd := False\<rparr> in
                go_bind (txt_del t1 off n) (\<lambda>(t2, rs).
                  go_map (\<lambda>(t3, e). ((txt_markEdit t3 e)\<lparr>tx_mark := None\<rparr>, rs))
                    (txt_addEdit t2 Edel off rs contd))))"

section \<open>The store that undo works on\<close>

text \<open>
  What undo and redo rely on: a store whose insert and delete act on a flat sequence.  In
  any such store a deletion at the place of an insertion undoes it, and the other way round.
\<close>

locale flat_store =
  fixes st_seq :: "'s \<Rightarrow> 'a list"
    and st_wf :: "'s \<Rightarrow> bool"
    and st_ins :: "'s \<Rightarrow> 'a list \<Rightarrow> int \<Rightarrow> ('s \<times> 'e option) go"
    and st_del :: "'s \<Rightarrow> int \<Rightarrow> int \<Rightarrow> ('s \<times> 'a list) go"
  assumes ins_law: "st_wf s \<Longrightarrow> 0 \<le> off \<Longrightarrow> off \<le> len (st_seq s) \<Longrightarrow>
      \<exists>s'. st_ins s xs off = Ret (s', None) \<and> st_wf s' \<and> st_seq s' = seq_ins (nat off) xs (st_seq s)"
    and hole_law: "st_wf s \<Longrightarrow> len (st_seq s) < off \<Longrightarrow>
      \<exists>s' err. st_ins s xs off = Ret (s', Some err) \<and> st_wf s' \<and> st_seq s' = st_seq s"
    and del_law: "st_wf s \<Longrightarrow> 0 \<le> off \<Longrightarrow>
      \<exists>s'. st_del s off n = Ret (s', seq_cut (nat off) (nat n) (st_seq s)) \<and> st_wf s' \<and>
        st_seq s' = seq_del (nat off) (nat n) (st_seq s)"
begin

lemma undo_ins:
  assumes "st_wf s" and "0 \<le> off" and "off \<le> len c" and "st_seq s = seq_ins (nat off) xs c"
  shows "\<exists>s'. st_del s off (len xs) = Ret (s', xs) \<and> st_wf s' \<and> st_seq s' = c"
proof -
  have "nat off \<le> length c"
    using assms(3) by linarith
  then show ?thesis
    using del_law [OF assms(1,2), of "len xs"] assms(4) by auto
qed

lemma undo_del:
  assumes "st_wf s" and "0 \<le> off" and "st_seq s = seq_del (nat off) n c"
  shows "\<exists>s' err. st_ins s (seq_cut (nat off) n c) off = Ret (s', err) \<and> st_wf s' \<and> st_seq s' = c"
proof (cases "off \<le> len c")
  case True
  then have "nat off \<le> length c" by linarith
  moreover from this have "off \<le> len (st_seq s)"
    using assms(2,3) by simp
  ultimately show ?thesis
    using ins_law [OF assms(1,2), of "seq_cut (nat off) n c"] assms(3)
    by (auto simp: seq_ins_seq_del)
next
  case False
  then have "st_seq s = c"
    using assms(3) by (simp add: seq_del_def)
  then show ?thesis
    using hole_law [OF assms(1), of off "seq_cut (nat off) n c"] False by auto
qed

end

interpretation txt_store: flat_store contents wf_text txt_ins txt_del
proof (unfold_locales, goal_cases)
  case (1 t off xs)
  then have "off \<le> tx_sz t" by (simp add: wf_text_def contents_def)
  with 1 show ?case using txt_ins_refines by blast
next
  case (2 t off xs)
  then have "tx_sz t < off" by (simp add: wf_text_def contents_def)
  with 2(1) show ?case by (simp add: txt_ins_hole wf_text_def contents_def)
next
  case (3 t off n)
  then show ?case using txt_del_refines by blast
qed

section \<open>The undo list as a history\<close>

definition valid_edit :: "edit \<Rightarrow> rune list \<Rightarrow> bool" where
  "valid_edit e c \<longleftrightarrow> 0 \<le> e_off e \<and>
     (if e_op e = Eins then e_off e \<le> len c
      else seq_cut (nat (e_off e)) (length (e_data e)) c = e_data e)"

definition apply_edit :: "edit \<Rightarrow> rune list \<Rightarrow> rune list" where
  "apply_edit e c =
     (if e_op e = Eins then seq_ins (nat (e_off e)) (e_data e) c
      else seq_del (nat (e_off e)) (length (e_data e)) c)"

definition inverse_edit :: "edit \<Rightarrow> edit" where
  "inverse_edit e = e\<lparr>e_op := (if e_op e = Eins then Edel else Eins)\<rparr>"

fun replay :: "rune list \<Rightarrow> edit list \<Rightarrow> rune list option" where
  "replay c [] = Some c"
| "replay c (e # es) = (if valid_edit e c then replay (apply_edit e c) es else None)"

lemma replay_append:
  "replay c (es @ fs) = (case replay c es of None \<Rightarrow> None | Some c' \<Rightarrow> replay c' fs)"
  by (induction es arbitrary: c) auto

lemma replay_snoc:
  "replay c (es @ [e]) = Some d \<longleftrightarrow>
     (\<exists>c'. replay c es = Some c' \<and> valid_edit e c' \<and> d = apply_edit e c')"
  by (auto simp: replay_append split: option.splits if_splits)

text \<open>
  \<open>history base t\<close>: replaying the edits applied so far on \<open>base\<close> gives the contents of
  the text, and the edits undone can be replayed after them.
\<close>

definition history :: "rune list \<Rightarrow> text_state \<Rightarrow> bool" where
  "history base t \<longleftrightarrow>
     (\<exists>es. tx_edits t = Some es \<and> tx_nedits t \<le> length es \<and>
       replay base (take (tx_nedits t) es) = Some (contents t) \<and> replay base es \<noteq> None)"

lemma valid_edit_applies:
  assumes "wf_text t" and "valid_edit e (contents t)"
  shows "\<exists>t'. txt_edit t e = Ret (t', None) \<and> wf_text t' \<and> raw_frame t t' \<and>
    contents t' = apply_edit e (contents t)"
proof (cases "e_op e = Eins")
  case True
  then have "0 \<le> e_off e" "e_off e \<le> tx_sz t"
    using assms by (auto simp: valid_edit_def wf_text_def contents_def)
  then show ?thesis
    using txt_ins_refines [OF assms(1), of "e_off e" "e_data e"] True
    by (auto simp: txt_edit_def apply_edit_def)
next
  case False
  then have "0 \<le> e_off e"
    using assms(2) by (simp add: valid_edit_def)
  then show ?thesis
    using txt_del_refines [OF assms(1), of "e_off e" "len (e_data e)"] False
    by (auto simp: txt_edit_def apply_edit_def)
qed

lemma txt_ins_frame: "txt_ins t dat off = Ret (t', err) \<Longrightarrow> raw_frame t t'"
  by (auto simp: txt_ins_def Let_def raw_frame_def go_simps split: if_splits)

lemma txt_del_frame: "txt_del t off n = Ret (t', r) \<Longrightarrow> raw_frame t t'"
  by (auto simp: txt_del_def Let_def raw_frame_def go_simps split: if_splits prod.splits)

lemma txt_edit_frame: "txt_edit t e = Ret (t', err) \<Longrightarrow> raw_frame t t'"
  by (auto simp: txt_edit_def go_simps txt_ins_frame txt_del_frame split: if_splits)

lemma inverse_edit_applies:
  assumes "wf_text t" and "valid_edit e c" and "contents t = apply_edit e c"
  shows "\<exists>t' err. txt_edit t (inverse_edit e) = Ret (t', err) \<and> wf_text t' \<and> raw_frame t t' \<and>
    contents t' = c"
proof -
  have "\<exists>t' err. txt_edit t (inverse_edit e) = Ret (t', err) \<and> wf_text t' \<and> contents t' = c"
  proof (cases "e_op e = Eins")
    case True
    then have "0 \<le> e_off e" "e_off e \<le> len c" "contents t = seq_ins (nat (e_off e)) (e_data e) c"
      using assms(2,3) by (auto simp: valid_edit_def apply_edit_def)
    from txt_store.undo_ins [OF assms(1) this] True show ?thesis
      by (auto simp: txt_edit_def inverse_edit_def)
  next
    case False
    then have e: "0 \<le> e_off e" "contents t = seq_del (nat (e_off e)) (length (e_data e)) c"
      "seq_cut (nat (e_off e)) (length (e_data e)) c = e_data e"
      using assms(2,3) by (auto simp: valid_edit_def apply_edit_def)
    from txt_store.undo_del [OF assms(1) e(1,2)] False e(3) show ?thesis
      by (auto simp: txt_edit_def inverse_edit_def)
  qed
  then show ?thesis
    using txt_edit_frame by blast
qed

text \<open>Moving marks leaves the rest of the text alone.\<close>

lemma markEdit_fields [simp]:
  "tx_data (txt_markEdit t e) = tx_data t" "tx_edits (txt_markEdit t e) = tx_edits t"
  "tx_nedits (txt_markEdit t e) = tx_nedits t" "tx_sz (txt_markEdit t e) = tx_sz t"
  "tx_seek (txt_markEdit t e) = tx_seek t" "tx_contd (txt_markEdit t e) = tx_contd t"
  "tx_vers (txt_markEdit t e) = tx_vers t" "tx_mark (txt_markEdit t e) = tx_mark t"
  "contents (txt_markEdit t e) = contents t" "wf_text (txt_markEdit t e) = wf_text t"
  by (simp_all add: txt_markEdit_def txt_markins_def txt_markdel_def map_marks_def contents_def wf_text_def)

lemma history_cong:
  "tx_edits t = tx_edits t' \<Longrightarrow> tx_nedits t = tx_nedits t' \<Longrightarrow> contents t = contents t' \<Longrightarrow>
     history base t = history base t'"
  by (simp add: history_def)

text \<open>
  A deletion is merged into the last edit when that is a deletion that ended, in the text
  as it was before it, at the offset of the new one.
\<close>

definition del_merges :: "text_state \<Rightarrow> int \<Rightarrow> bool" where
  "del_merges t off \<longleftrightarrow>
     (let e = the (tx_edits t) ! (tx_nedits t - 1) in
      tx_edits t \<noteq> None \<and> tx_nedits t > 0 \<and> e_op e = Edel \<and> e_off e + len (e_data e) = off \<and>
      len (e_data e) < 1024 \<and> e_data e \<noteq> [])"

lemma apply_edit_ins_merge:
  assumes "valid_edit e c" and "e_op e = Eins"
  shows "valid_edit (e\<lparr>e_data := e_data e @ xs\<rparr>) c"
    and "apply_edit (e\<lparr>e_data := e_data e @ xs\<rparr>) c =
      seq_ins (nat (e_off e + len (e_data e))) xs (apply_edit e c)"
proof -
  have "nat (e_off e + len (e_data e)) = nat (e_off e) + length (e_data e)"
    "nat (e_off e) \<le> length c"
    using assms by (auto simp: valid_edit_def nat_add_distrib)
  then show "valid_edit (e\<lparr>e_data := e_data e @ xs\<rparr>) c"
    "apply_edit (e\<lparr>e_data := e_data e @ xs\<rparr>) c =
      seq_ins (nat (e_off e + len (e_data e))) xs (apply_edit e c)"
    using assms by (simp_all add: valid_edit_def apply_edit_def seq_ins_seq_ins_adjacent)
qed

lemma txt_addEdit_merge_history:
  assumes es: "tx_edits t = Some es" "tx_nedits t = Suc m" "Suc m \<le> length es"
    and rep: "replay base (take (Suc m) es) = Some c"
    and e: "valid_edit e c" "contents t = apply_edit e c" "e_op e = e_op (es ! m)"
      "e_off (es ! m) + len (e_data (es ! m)) = e_off e" "len (e_data (es ! m)) < 1024"
    and ok: "e_op e = Edel \<Longrightarrow> e_data e \<noteq> [] \<Longrightarrow> \<not> del_merges t (e_off e)"
  shows "replay base (take m es @ [(es ! m)\<lparr>e_data := e_data (es ! m) @ e_data e\<rparr>]) = Some (contents t)"
proof -
  have "take (Suc m) es = take m es @ [es ! m]"
    using es(3) by (simp add: take_Suc_conv_app_nth)
  then obtain c0 where c0: "replay base (take m es) = Some c0" "valid_edit (es ! m) c0"
    "c = apply_edit (es ! m) c0"
    using rep by (auto simp: replay_snoc)
  show ?thesis
  proof (cases "e_op e")
    case Eins
    then show ?thesis
      using apply_edit_ins_merge [OF c0(2), of "e_data e"] c0 e
      by (simp add: replay_snoc apply_edit_def [of e])
  next
    case Edel
    then have "e_data e = [] \<or> e_data (es ! m) = []"
      using ok es e(3-5) by (auto simp: del_merges_def Let_def)
    then show ?thesis
    proof
      assume "e_data e = []"
      then show ?thesis
        using c0 e(2) Edel by (simp add: replay_snoc apply_edit_def [of e])
    next
      assume "e_data (es ! m) = []"
      then have "c = c0" "e_off e = e_off (es ! m)"
        using c0(3) e(3,4) Edel by (simp_all add: apply_edit_def)
      then show ?thesis
        using c0 e Edel \<open>e_data (es ! m) = []\<close>
        by (simp add: replay_snoc apply_edit_def valid_edit_def)
    qed
  qed
qed

lemma txt_addEdit_history:
  assumes "tx_edits t = Some es" and "tx_nedits t \<le> length es"
    and "replay base (take (tx_nedits t) es) = Some c"
    and "valid_edit e c" and "contents t = apply_edit e c"
    and "e_op e = Edel \<Longrightarrow> e_data e \<noteq> [] \<Longrightarrow> \<not> del_merges t (e_off e)"
  shows "\<exists>t' e'. txt_addEdit t (e_op e) (e_off e) (e_data e) (e_contd e) = Ret (t', e') \<and>
    history base t' \<and> tx_data t' = tx_data t \<and> tx_sz t' = tx_sz t \<and> tx_seek t' = tx_seek t \<and>
    e_op e' = e_op e \<and> e_off e' = e_off e \<and> e_data e' = e_data e \<and> tx_marks t' = tx_marks t \<and>
    tx_mark t' = tx_mark t"
proof -
  let ?n = "tx_nedits t" and ?es = "take (tx_nedits t) es"
  have es: "(if ?n < length es then ?es else es) = ?es"
    using assms(2) by auto
  show ?thesis
  proof (cases "?n > 0 \<and> e_op (es ! (?n - 1)) = e_op e \<and>
      e_off (es ! (?n - 1)) + len (e_data (es ! (?n - 1))) = e_off e \<and>
      len (e_data (es ! (?n - 1))) < 1024")
    case False
    have e: "\<lparr>e_op = e_op e, e_off = e_off e, e_data = e_data e, e_contd = e_contd e\<rparr> = e"
      by simp
    have "\<not> (?n > 0 \<and> e_op (?es ! (?n - 1)) = e_op e \<and>
      e_off (?es ! (?n - 1)) + len (e_data (?es ! (?n - 1))) = e_off e \<and>
      len (e_data (?es ! (?n - 1))) < 1024)"
      using False by (cases ?n) auto
    moreover have "\<not> ?n > length ?es"
      using assms(2) by simp
    ultimately have "txt_addEdit t (e_op e) (e_off e) (e_data e) (e_contd e) =
      Ret (t\<lparr>tx_edits := Some (?es @ [e]), tx_nedits := ?n + 1\<rparr>, e)"
      unfolding txt_addEdit_def assms(1) option.case Let_def es e by (simp only: if_False)
    moreover have "replay base (?es @ [e]) = Some (contents t)"
      using assms(3-5) by (simp add: replay_snoc)
    ultimately show ?thesis
      using assms(2) by (simp add: history_def contents_def)
  next
    case True
    then obtain m where m: "?n = Suc m"
      using gr0_implies_Suc by blast
    let ?e' = "(es ! m)\<lparr>e_data := e_data (es ! m) @ e_data e\<rparr>"
    have upd: "?es[m := ?e'] = take m es @ [?e']"
      using assms(2) m by (simp add: take_Suc_conv_app_nth list_update_append)
    have "\<not> ?n > length ?es" "?es ! (?n - 1) = es ! m"
      using assms(2) m by simp_all
    then have "txt_addEdit t (e_op e) (e_off e) (e_data e) (e_contd e) =
      Ret (t\<lparr>tx_edits := Some (take m es @ [?e'])\<rparr>,
        \<lparr>e_op = e_op e, e_off = e_off e, e_data = e_data e, e_contd = e_contd (es ! m)\<rparr>)"
      unfolding txt_addEdit_def assms(1) option.case Let_def es using True m upd by simp
    moreover have "replay base (take m es @ [?e']) = Some (contents t)"
      using txt_addEdit_merge_history [OF assms(1) m _ _ assms(4,5)] assms(2,3,6) True m by auto
    ultimately show ?thesis
      using assms(2) m by (simp add: history_def contents_def)
  qed
qed

section \<open>What the exported updates do to the text\<close>

text \<open>The applied count stays within the undo list.\<close>

definition edits_wf :: "text_state \<Rightarrow> bool" where
  "edits_wf t \<longleftrightarrow> tx_edits t = None \<or> tx_nedits t \<le> length (the (tx_edits t))"

definition text_inv :: "text_state \<Rightarrow> bool" where
  "text_inv t \<longleftrightarrow> wf_text t \<and> edits_wf t"

lemma txt_addEdit_total:
  assumes "edits_wf t"
  shows "\<exists>t' e. txt_addEdit t op pos dat same = Ret (t', e) \<and> edits_wf t' \<and>
    tx_data t' = tx_data t \<and> tx_sz t' = tx_sz t \<and> tx_vers t' = tx_vers t \<and> tx_seek t' = tx_seek t \<and>
    tx_marks t' = tx_marks t \<and> tx_mark t' = tx_mark t \<and> tx_contd t' = tx_contd t \<and>
    e_op e = op \<and> e_off e = pos \<and> e_data e = dat"
  using assms by (auto simp: txt_addEdit_def edits_wf_def Let_def min_def split: option.splits)

lemma markEdit_edits_wf [simp]: "edits_wf (txt_markEdit t e) = edits_wf t"
  by (simp add: edits_wf_def)

lemma raw_frame_edits_wf: "raw_frame t t' \<Longrightarrow> edits_wf t' = edits_wf t"
  by (simp add: raw_frame_def edits_wf_def)

lemma txt_Ins_spec:
  assumes "text_inv t" and "0 \<le> off" and "off \<le> tx_sz t"
  shows "\<exists>t'. txt_Ins t dat off = Ret (t', None) \<and> text_inv t' \<and>
    contents t' = seq_ins (nat off) dat (contents t) \<and> tx_vers t' = tx_vers t + 1"
proof -
  let ?t = "t\<lparr>tx_contd := False\<rparr>"
  obtain t1 where t1: "txt_ins ?t dat off = Ret (t1, None)" "wf_text t1" "raw_frame ?t t1"
    "contents t1 = seq_ins (nat off) dat (contents t)"
    using txt_ins_refines [of ?t off dat] assms
    by (auto simp: text_inv_def wf_text_def contents_def simp del: length_concat)
  obtain t2 e where "txt_addEdit (t1\<lparr>tx_vers := tx_vers t1 + 1\<rparr>) Eins off dat (tx_contd t) = Ret (t2, e)"
    "edits_wf t2" "tx_data t2 = tx_data t1" "tx_sz t2 = tx_sz t1" "tx_vers t2 = tx_vers t1 + 1"
    using txt_addEdit_total [of "t1\<lparr>tx_vers := tx_vers t1 + 1\<rparr>" Eins off dat "tx_contd t"]
      raw_frame_edits_wf [OF t1(3)] assms(1) by (auto simp: text_inv_def edits_wf_def)
  then show ?thesis
    using t1 raw_frameD(6) [OF t1(3)]
    by (simp add: txt_Ins_def Let_def text_inv_def wf_text_def contents_def)
qed

lemma txt_Ins_hole:
  "tx_sz t < off \<Longrightarrow> txt_Ins t dat off =
     Ret (t\<lparr>tx_contd := False, tx_seek := (tx_seek t)\<lparr>sk_off := -2\<rparr>\<rparr>, Some NoHoles)"
  by (simp add: txt_Ins_def txt_ins_hole Let_def)

lemma txt_Del_spec:
  assumes "text_inv t" and "0 \<le> off"
  shows "\<exists>t'. txt_Del t off n = Ret (t', seq_cut (nat off) (nat n) (contents t)) \<and> text_inv t' \<and>
    contents t' = seq_del (nat off) (nat n) (contents t) \<and> tx_vers t' = tx_vers t + 1"
proof (cases "n = 0")
  case True
  then show ?thesis
    using assms
    by (simp add: txt_Del_def Let_def text_inv_def wf_text_def edits_wf_def contents_def seq_cut_def)
next
  case False
  let ?t = "t\<lparr>tx_vers := tx_vers t + 1, tx_contd := False\<rparr>"
  obtain t1 r where t1: "txt_del ?t off n = Ret (t1, r)" "wf_text t1" "raw_frame ?t t1"
    "r = seq_cut (nat off) (nat n) (contents t)" "contents t1 = seq_del (nat off) (nat n) (contents t)"
    using txt_del_refines [of ?t off n] assms
    by (auto simp: text_inv_def wf_text_def contents_def simp del: length_concat)
  obtain t2 e where "txt_addEdit t1 Edel off r (tx_contd t) = Ret (t2, e)"
    "edits_wf t2" "tx_data t2 = tx_data t1" "tx_sz t2 = tx_sz t1" "tx_vers t2 = tx_vers t1"
    using txt_addEdit_total [of t1 Edel off r "tx_contd t"]
      raw_frame_edits_wf [OF t1(3)] assms(1) by (auto simp: text_inv_def edits_wf_def)
  then show ?thesis
    using t1 False raw_frameD(6) [OF t1(3)]
    by (simp add: txt_Del_def Let_def text_inv_def wf_text_def contents_def)
qed

section \<open>Every update keeps the undo list a history of the text\<close>

lemma txt_Ins_history_step:
  assumes "history base t" and "wf_text t" and "0 \<le> off" and "off \<le> tx_sz t"
  shows "\<exists>t'. txt_Ins t dat off = Ret (t', None) \<and> history base t' \<and> wf_text t' \<and>
    contents t' = seq_ins (nat off) dat (contents t)"
proof -
  let ?t = "t\<lparr>tx_contd := False\<rparr>"
  obtain t1 where t1: "txt_ins ?t dat off = Ret (t1, None)" "wf_text t1" "raw_frame ?t t1"
    "contents t1 = seq_ins (nat off) dat (contents t)"
    using txt_ins_refines [of ?t off dat] assms(2-4)
    by (auto simp: wf_text_def contents_def simp del: length_concat)
  let ?e = "\<lparr>e_op = Eins, e_off = off, e_data = dat, e_contd = tx_contd t\<rparr>"
  let ?t1 = "t1\<lparr>tx_vers := tx_vers t1 + 1\<rparr>"
  obtain es where es: "tx_edits t = Some es" "tx_nedits t \<le> length es"
    "replay base (take (tx_nedits t) es) = Some (contents t)"
    using assms(1) by (auto simp: history_def)
  have "valid_edit ?e (contents t)"
    using assms(2-4) by (simp add: valid_edit_def wf_text_def contents_def)
  moreover have "contents ?t1 = apply_edit ?e (contents t)"
    using t1(4) by (simp add: apply_edit_def contents_def)
  ultimately obtain t2 e where "txt_addEdit ?t1 Eins off dat (tx_contd t) = Ret (t2, e)"
    "history base t2" "tx_data t2 = tx_data t1" "tx_sz t2 = tx_sz t1"
    using txt_addEdit_history [of ?t1 es base "contents t" ?e] es raw_frameD [OF t1(3)] by auto
  then show ?thesis
    using t1 history_cong [of "txt_markEdit t2 e" t2 base]
    by (simp add: txt_Ins_def Let_def wf_text_def contents_def)
qed

lemma txt_del_addEdit_history:
  assumes "history base t" and "wf_text t" and "0 \<le> off" and "\<not> del_merges t off"
  obtains t1 t2 e where "txt_del t off n = Ret (t1, seq_cut (nat off) (nat n) (contents t))"
    "txt_addEdit t1 Edel off (seq_cut (nat off) (nat n) (contents t)) same = Ret (t2, e)"
    "history base t2" "wf_text t2" "contents t2 = seq_del (nat off) (nat n) (contents t)"
proof -
  let ?r = "seq_cut (nat off) (nat n) (contents t)"
  let ?e = "\<lparr>e_op = Edel, e_off = off, e_data = ?r, e_contd = same\<rparr>"
  obtain t1 where t1: "txt_del t off n = Ret (t1, ?r)" "wf_text t1" "raw_frame t t1"
    "contents t1 = seq_del (nat off) (nat n) (contents t)"
    using txt_del_refines [of t off n] assms(2,3) by blast
  obtain es where es: "tx_edits t = Some es" "tx_nedits t \<le> length es"
    "replay base (take (tx_nedits t) es) = Some (contents t)"
    using assms(1) by (auto simp: history_def)
  have "seq_cut (nat off) (length ?r) (contents t) = ?r"
    "seq_del (nat off) (length ?r) (contents t) = seq_del (nat off) (nat n) (contents t)"
    by (auto simp: seq_cut_def seq_del_def min_def)
  then have "valid_edit ?e (contents t)" "contents t1 = apply_edit ?e (contents t)"
    using assms(3) t1(4) by (simp_all add: valid_edit_def apply_edit_def)
  moreover have "\<not> del_merges t1 off"
    using assms(4) raw_frameD [OF t1(3)] by (simp add: del_merges_def)
  ultimately obtain t2 e where "txt_addEdit t1 Edel off ?r same = Ret (t2, e)"
    "history base t2" "tx_data t2 = tx_data t1" "tx_sz t2 = tx_sz t1"
    using txt_addEdit_history [of t1 es base "contents t" ?e] es raw_frameD [OF t1(3)] by auto
  then show thesis
    using that t1 by (simp add: wf_text_def contents_def)
qed

lemma txt_Del_history_step:
  assumes "history base t" and "wf_text t" and "0 \<le> off" and "\<not> del_merges t off"
  shows "\<exists>t'. txt_Del t off n = Ret (t', seq_cut (nat off) (nat n) (contents t)) \<and>
    history base t' \<and> wf_text t' \<and> contents t' = seq_del (nat off) (nat n) (contents t)"
proof (cases "n = 0")
  case True
  then show ?thesis
    using assms(1,2) history_cong [of "t\<lparr>tx_vers := tx_vers t + 1\<rparr>" t base]
    by (simp add: txt_Del_def Let_def wf_text_def contents_def seq_cut_def)
next
  case False
  let ?t = "t\<lparr>tx_vers := tx_vers t + 1, tx_contd := False\<rparr>"
  have "history base ?t" "wf_text ?t" "\<not> del_merges ?t off" and c: "contents ?t = contents t"
    using assms by (simp_all add: history_def wf_text_def contents_def del_merges_def)
  from txt_del_addEdit_history [OF this(1,2) assms(3) this(3), of n "tx_contd t"]
  obtain t1 t2 e where "txt_del ?t off n = Ret (t1, seq_cut (nat off) (nat n) (contents t))"
    "txt_addEdit t1 Edel off (seq_cut (nat off) (nat n) (contents t)) (tx_contd t) = Ret (t2, e)"
    "history base t2" "wf_text t2" "contents t2 = seq_del (nat off) (nat n) (contents t)"
    unfolding c by blast
  then show ?thesis
    using False history_cong [of "txt_markEdit t2 e" t2 base] by (simp add: txt_Del_def Let_def)
qed

lemma txt_DelAll_history_step:
  assumes "history base t" and "wf_text t" and "\<not> del_merges t 0"
  shows "\<exists>t'. txt_DelAll t = Ret t' \<and> history base t' \<and> wf_text t' \<and> contents t' = []"
proof (cases "tx_sz t = 0")
  case True
  then show ?thesis
    using assms(1,2) history_cong [of "t\<lparr>tx_contd := False, tx_vers := tx_vers t + 1\<rparr>" t base]
    by (simp add: txt_DelAll_def Let_def wf_text_def contents_def)
next
  case False
  let ?t = "t\<lparr>tx_contd := False, tx_vers := tx_vers t + 1\<rparr>"
  have "history base ?t" "wf_text ?t" "\<not> del_merges ?t 0" and c: "contents ?t = contents t"
    and n: "nat (tx_sz t) = length (contents t)"
    using assms by (simp_all add: history_def wf_text_def contents_def del_merges_def)
  from txt_del_addEdit_history [OF this(1,2) order_refl this(3), of "tx_sz t" "tx_contd t"]
  obtain t1 t2 e where "txt_del ?t 0 (tx_sz t) = Ret (t1, contents t)"
    "txt_addEdit t1 Edel 0 (contents t) (tx_contd t) = Ret (t2, e)"
    "history base t2" "wf_text t2" "contents t2 = []"
    unfolding c n by (auto simp: seq_cut_def seq_del_def)
  then show ?thesis
    using False history_cong [of "txt_markEdit t2 e" t2 base] by (simp add: txt_DelAll_def Let_def)
qed

text \<open>\<open>MarkIns\<close> is an insertion at the mark, which is the one that moves past the data.\<close>

lemma txt_MarkIns_eq:
  "txt_MarkIns t name dat =
     (case map_of (tx_marks t) name of
        None \<Rightarrow> Ret (t, Some (NoMark name))
      | Some m \<Rightarrow> go_map (\<lambda>(t1, err). (if err = None then t1\<lparr>tx_mark := None\<rparr> else t1, err))
          (txt_Ins (t\<lparr>tx_mark := Some (mk_id m)\<rparr>) dat (mk_off m)))"
proof -
  have distr: "go_map f (go_bind r g) = go_bind r (\<lambda>x. go_map f (g x))" "go_map f (go_map h r') = go_map (f \<circ> h) r'"
    for f :: "'c \<Rightarrow> 'd" and r :: "'b go" and g and h :: "'e \<Rightarrow> 'c" and r' by (cases r; simp) (cases r'; simp)
  show ?thesis
    by (auto simp: txt_MarkIns_def txt_Ins_def Let_def distr comp_def case_prod_unfold
        split: option.splits intro!: arg_cong [where f = "go_bind _"] arg_cong2 [where f = go_map])
qed

lemma txt_MarkIns_history_step:
  assumes "history base t" and "wf_text t" and "map_of (tx_marks t) name = Some m"
    and "0 \<le> mk_off m" and "mk_off m \<le> tx_sz t"
  shows "\<exists>t'. txt_MarkIns t name dat = Ret (t', None) \<and> history base t' \<and> wf_text t' \<and>
    contents t' = seq_ins (nat (mk_off m)) dat (contents t)"
proof -
  let ?t = "t\<lparr>tx_mark := Some (mk_id m)\<rparr>"
  have "history base ?t" "wf_text ?t" "mk_off m \<le> tx_sz ?t"
    using assms by (simp_all add: history_def wf_text_def contents_def)
  from txt_Ins_history_step [OF this(1,2) assms(4) this(3), of dat] assms(3) show ?thesis
    by (auto simp: txt_MarkIns_eq history_def wf_text_def contents_def)
qed

lemma txt_MarkDel_history_step:
  assumes "history base t" and "wf_text t" and "map_of (tx_marks t) name = Some m"
    and "0 \<le> mk_off m" and "0 \<le> n" and "\<not> del_merges t (mk_off m - min n (mk_off m))"
  shows "\<exists>t'. txt_MarkDel t name n =
      Ret (t', seq_cut (nat (mk_off m - min n (mk_off m))) (nat (min n (mk_off m))) (contents t)) \<and>
    history base t' \<and> wf_text t' \<and>
    contents t' = seq_del (nat (mk_off m - min n (mk_off m))) (nat (min n (mk_off m))) (contents t)"
proof (cases "n = 0")
  case True
  then show ?thesis
    using assms by (simp add: txt_MarkDel_def Let_def history_def wf_text_def contents_def seq_cut_def)
next
  case False
  let ?n = "min n (mk_off m)" and ?off = "mk_off m - min n (mk_off m)"
  let ?t = "t\<lparr>tx_vers := tx_vers t + 1, tx_marks := AList.update name m (tx_marks t),
    tx_mark := Some (mk_id m), tx_contd := False\<rparr>"
  have "history base ?t" "wf_text ?t" "0 \<le> ?off" "\<not> del_merges ?t ?off"
    and c: "contents ?t = contents t"
    using assms by (simp_all add: history_def wf_text_def contents_def del_merges_def)
  from txt_del_addEdit_history [OF this(1-4), of ?n "tx_contd t"]
  obtain t1 t2 e where "txt_del ?t ?off ?n = Ret (t1, seq_cut (nat ?off) (nat ?n) (contents t))"
    "txt_addEdit t1 Edel ?off (seq_cut (nat ?off) (nat ?n) (contents t)) (tx_contd t) = Ret (t2, e)"
    "history base t2" "wf_text t2" "contents t2 = seq_del (nat ?off) (nat ?n) (contents t)"
    unfolding c by blast
  moreover have "(if n > mk_off m then mk_off m else n) = ?n"
    by simp
  ultimately show ?thesis
    using False assms(3,4)
    by (simp add: txt_MarkDel_def Let_def history_def wf_text_def contents_def)
qed

lemma txt_Undo_history_step:
  assumes "history base t" and "wf_text t" and "tx_nedits t = Suc n" and "tx_edits t = Some es"
  shows "\<exists>t'. txt_Undo t = Ret (t', Some (inverse_edit (es ! n))) \<and> history base t' \<and> wf_text t' \<and>
    tx_nedits t' = n \<and> tx_edits t' = Some es \<and> replay base (take n es) = Some (contents t')"
proof -
  have len: "Suc n \<le> length es" and rep: "replay base (take (Suc n) es) = Some (contents t)"
    "replay base es \<noteq> None"
    using assms(1,3,4) by (auto simp: history_def)
  have "take (Suc n) es = take n es @ [es ! n]"
    using len by (simp add: take_Suc_conv_app_nth)
  then obtain c where c: "replay base (take n es) = Some c" "valid_edit (es ! n) c"
    "contents t = apply_edit (es ! n) c"
    using rep(1) by (auto simp: replay_snoc)
  let ?t = "t\<lparr>tx_vers := tx_vers t + 1, tx_nedits := n\<rparr>"
  obtain t1 err where "txt_edit ?t (inverse_edit (es ! n)) = Ret (t1, err)" "wf_text t1"
    "raw_frame ?t t1" "contents t1 = c"
    using inverse_edit_applies [of ?t "es ! n" c] assms(2) c(2,3)
    by (auto simp: wf_text_def contents_def)
  then show ?thesis
    using assms(3,4) len c(1) rep(2)
    by (simp add: txt_Undo_def inverse_edit_def Let_def history_def raw_frame_def)
qed

lemma txt_Redo_history_step:
  assumes "history base t" and "wf_text t" and "tx_edits t = Some es" and "tx_nedits t < length es"
  shows "\<exists>t' e. txt_Redo t = Ret (t', Some e) \<and> history base t' \<and> wf_text t' \<and>
    tx_nedits t' = Suc (tx_nedits t) \<and> tx_edits t' = Some es \<and>
    e = (es ! tx_nedits t)\<lparr>e_contd := e_contd e\<rparr> \<and>
    contents t' = apply_edit (es ! tx_nedits t) (contents t)"
proof -
  let ?n = "tx_nedits t" and ?e = "(es ! tx_nedits t)\<lparr>e_contd :=
    (tx_nedits t < length es - 1 \<and> e_contd (es ! (tx_nedits t + 1)))\<rparr>"
  have rep: "replay base (take ?n es) = Some (contents t)" "replay base es \<noteq> None"
    using assms(1,3) by (auto simp: history_def)
  have split: "take (Suc ?n) es = take ?n es @ [es ! ?n]"
    "es = take (Suc ?n) es @ drop (Suc ?n) es"
    using assms(4) take_Suc_conv_app_nth append_take_drop_id [symmetric] by blast+
  have "replay base (take (Suc ?n) es) \<noteq> None"
    using rep(2) split(2) by (metis option.case_eq_if replay_append)
  then have v: "valid_edit (es ! ?n) (contents t)"
    "replay base (take (Suc ?n) es) = Some (apply_edit (es ! ?n) (contents t))"
    using rep(1) by (auto simp: split(1) replay_append split: if_splits)
  let ?t = "t\<lparr>tx_vers := tx_vers t + 1, tx_nedits := ?n + 1\<rparr>"
  have v': "valid_edit ?e (contents ?t)" "apply_edit ?e = apply_edit (es ! ?n)"
    using v(1) by (simp_all add: valid_edit_def apply_edit_def contents_def fun_eq_iff)
  obtain t1 where "txt_edit ?t ?e = Ret (t1, None)" "wf_text t1" "raw_frame ?t t1"
    "contents t1 = apply_edit (es ! ?n) (contents t)"
    using valid_edit_applies [OF _ v'(1)] assms(2) v'(2) by (auto simp: wf_text_def contents_def)
  then show ?thesis
    using assms(3,4) v(2) rep(2) by (simp add: txt_Redo_def Let_def history_def raw_frame_def)
qed

end
