(* ===== verification/TxtLines.thy ===== *)
theory TxtLines
  imports TxtBlocks
begin

text \<open>
  Line numbers and line offsets of package \<open>txt\<close> (src/txt/txt.go).  The two nested loops
  of the code go over the runes of the slices in order, so they are one recursion over the
  flat contents here.
\<close>

definition dot :: "int \<Rightarrow> int \<Rightarrow> int \<times> int" where
  "dot p0 p1 = (p0, if p1 < p0 then p0 else p1)"

fun lines_at_loop ::
  "int \<Rightarrow> int \<Rightarrow> rune list \<Rightarrow> int \<Rightarrow> int \<Rightarrow> int \<Rightarrow> int \<Rightarrow> bool \<Rightarrow> int \<times> int \<times> bool" where
  "lines_at_loop p0 p1 [] tot ln ln0 ln1 wasnl = (ln0, ln1, wasnl)"
| "lines_at_loop p0 p1 (r # rs) tot ln ln0 ln1 wasnl =
     (if tot = p1 then (ln0, ln1, wasnl)
      else (let tot' = tot + 1; nl = (r = 10); ln' = (if nl then ln + 1 else ln) in
        lines_at_loop p0 p1 rs tot' ln'
          (if p0 \<ge> tot' then ln' else ln0) (if p1 \<ge> tot' then ln' else ln1) nl))"

definition txt_LinesAt :: "text_state \<Rightarrow> int \<Rightarrow> int \<Rightarrow> int \<times> int" where
  "txt_LinesAt t a b =
     (let (p0, p1) = dot a b;
          (ln0, ln1, wasnl) = lines_at_loop p0 p1 (contents t) 0 1 1 1 False in
      (ln0, if ln1 > ln0 \<and> wasnl then ln1 - 1 else ln1))"

definition txt_LineAt :: "text_state \<Rightarrow> int \<Rightarrow> int" where
  "txt_LineAt t off = fst (txt_LinesAt t off off)"

text \<open>The result holds how many runes were seen, \<open>off0\<close> and \<open>off1\<close> (-1 when not found).\<close>

fun lines_offs_loop ::
  "int \<Rightarrow> int \<Rightarrow> rune list \<Rightarrow> int \<Rightarrow> int \<Rightarrow> int \<Rightarrow> int \<Rightarrow> int \<times> int \<times> int" where
  "lines_offs_loop ln0 ln1 [] tot lnoff ln off0 = (tot, off0, -1)"
| "lines_offs_loop ln0 ln1 (r # rs) tot lnoff ln off0 =
     (let tot' = tot + 1 in
      if r = 10 then
        (let off0' = (if ln = ln0 then lnoff else off0) in
         if ln + 1 = ln1 + 1 then (tot', off0', tot')
         else lines_offs_loop ln0 ln1 rs tot' tot' (ln + 1) off0')
      else lines_offs_loop ln0 ln1 rs tot' lnoff ln off0)"

definition txt_LinesOffs :: "text_state \<Rightarrow> int \<Rightarrow> int \<Rightarrow> int \<times> int" where
  "txt_LinesOffs t a b =
     (let (ln0, ln1) = dot a b in
      if ln1 \<le> 1 then (0, 0)
      else (let (tot, off0, off1) =
              lines_offs_loop ln0 ln1 (contents t) 0 0 1 (if 1 = ln0 then 0 else -1) in
        (if off0 < 0 then tot else off0, if off1 < 0 then tot else off1)))"

definition txt_LineOff :: "text_state \<Rightarrow> int \<Rightarrow> int" where
  "txt_LineOff t ln = fst (txt_LinesOffs t ln ln)"

section \<open>Counting newlines\<close>

definition nls :: "rune list \<Rightarrow> int" where
  "nls rs = int (count_list rs 10)"

lemma nls_simps [simp]:
  "nls [] = 0" "nls (r # rs) = (if r = 10 then nls rs + 1 else nls rs)" "nls (xs @ ys) = nls xs + nls ys"
  by (simp_all add: nls_def)

lemma nls_nonneg [simp]: "0 \<le> nls rs"
  by (simp add: nls_def)

lemma nls_take_le: "nls (take n rs) \<le> nls rs"
  by (metis append_take_drop_id le_add_same_cancel1 nls_nonneg nls_simps(3))

text \<open>
  The loop of \<open>LinesAt\<close> from \<open>tot\<close> on: each bound counts the newlines up to its offset,
  and the flag says whether the last rune counted was one.
\<close>

lemma lines_at_loop_spec:
  assumes "tot \<le> p1" and "p0 \<le> p1"
  shows "lines_at_loop p0 p1 rs tot ln ln0 ln1 nl =
    (if rs = [] \<or> p0 \<le> tot then ln0 else ln + nls (take (nat (p0 - tot)) rs),
     if rs = [] \<or> p1 = tot then ln1 else ln + nls (take (nat (p1 - tot)) rs),
     if rs = [] \<or> p1 = tot then nl else last (take (nat (p1 - tot)) rs) = 10)"
  using assms
proof (induction rs arbitrary: tot ln ln0 ln1 nl)
  case Nil
  then show ?case by simp
next
  case (Cons r rs)
  show ?case
  proof (cases "tot = p1")
    case True
    then show ?thesis using Cons.prems by simp
  next
    case False
    then have p1: "tot + 1 \<le> p1" "nat (p1 - tot) = Suc (nat (p1 - (tot + 1)))"
      using Cons.prems by simp_all
    have p0: "tot < p0 \<Longrightarrow> nat (p0 - tot) = Suc (nat (p0 - (tot + 1)))"
      by simp
    show ?thesis
      using False Cons.prems(2) p1 p0 Cons.IH [OF p1(1) Cons.prems(2)]
      by (cases "rs = []"; cases "p1 = tot + 1"; cases "p0 = tot + 1") (auto simp: Let_def)
  qed
qed

lemma txt_LineAt_count:
  assumes "0 \<le> off"
  shows "txt_LineAt t off = 1 + nls (take (nat off) (contents t))"
  using assms by (auto simp: txt_LineAt_def txt_LinesAt_def dot_def lines_at_loop_spec Let_def)

text \<open>The offset right after the \<open>k\<close>-th newline, \<open>None\<close> when there are fewer.\<close>

fun after_nl :: "nat \<Rightarrow> rune list \<Rightarrow> int option" where
  "after_nl 0 rs = Some 0"
| "after_nl (Suc k) [] = None"
| "after_nl (Suc k) (r # rs) =
     map_option (\<lambda>n. n + 1) (if r = 10 then after_nl k rs else after_nl (Suc k) rs)"

lemma after_nl_None: "after_nl k rs = None \<longleftrightarrow> nls rs < int k"
  by (induction k rs rule: after_nl.induct) (auto simp: not_less)

lemma after_nl_Some:
  "after_nl k rs = Some n \<Longrightarrow> 0 \<le> n \<and> n \<le> len rs \<and> nls (take (nat n) rs) = int k \<and>
     (0 < k \<longrightarrow> 0 < n \<and> rs ! nat (n - 1) = 10)"
proof (induction k rs arbitrary: n rule: after_nl.induct)
  case (3 k r rs)
  then obtain m where m: "n = m + 1"
    "(if r = 10 then after_nl k rs else after_nl (Suc k) rs) = Some m"
    by auto
  have "0 \<le> m \<and> m \<le> len rs \<and> nls (take (nat m) rs) = (if r = 10 then int k else int (Suc k)) \<and>
      ((if r = 10 then 0 < k else True) \<longrightarrow> 0 < m \<and> rs ! nat (m - 1) = 10) \<and> (r = 10 \<longrightarrow> k = 0 \<longrightarrow> m = 0)"
    using 3 m(2) by (auto split: if_splits)
  moreover from this have "nat (m + 1) = Suc (nat m)" "0 < m \<Longrightarrow> nat m = Suc (nat (m - 1))"
    by linarith+
  ultimately show ?case
    using m(1) by (cases "m = 0") (auto split: if_splits)
qed auto

text \<open>The loop of \<open>LinesOffs\<close> for one line, before and after that line was reached.\<close>

lemma lines_offs_loop_fst:
  assumes "ln \<le> l" and "0 \<le> lnoff" and "lnoff \<le> tot"
  shows "lines_offs_loop l l rs tot lnoff ln (-1) =
    (case after_nl (nat (l - ln)) rs of
       None \<Rightarrow> (tot + len rs, -1, -1)
     | Some n \<Rightarrow>
         (case after_nl (Suc (nat (l - ln))) rs of
            None \<Rightarrow> (tot + len rs, -1, -1)
          | Some m \<Rightarrow> (tot + m, if l = ln then lnoff else tot + n, tot + m)))"
  using assms
proof (induction rs arbitrary: tot lnoff ln)
  case Nil
  then show ?case by (simp split: option.splits)
next
  case (Cons r rs)
  consider "r \<noteq> 10" | "r = 10" "l = ln" | "r = 10" "ln < l"
    using Cons.prems(1) by linarith
  then show ?case
  proof cases
    case 1
    then show ?thesis
      using Cons.IH [of ln lnoff "tot + 1"] Cons.prems
      by (cases "nat (l - ln)") (auto split: option.splits)
  next
    case 2
    then show ?thesis by (simp add: Let_def)
  next
    case 3
    then have "nat (l - ln) = Suc (nat (l - (ln + 1)))"
      by simp
    then show ?thesis
      using Cons.IH [of "ln + 1" "tot + 1" "tot + 1"] Cons.prems 3
      by (cases "l = ln + 1") (auto simp: Let_def split: option.splits)
  qed
qed

lemma txt_LineOff_spec:
  assumes "2 \<le> ln"
  shows "txt_LineOff t ln =
    (if ln \<le> nls (contents t) then the (after_nl (nat (ln - 1)) (contents t)) else len (contents t))"
proof -
  have "Suc (nat (ln - 1)) = nat ln"
    using assms by simp
  then show ?thesis
    using assms lines_offs_loop_fst [of 1 ln 0 0 "contents t"]
      after_nl_None [of "nat ln" "contents t"] after_nl_None [of "nat (ln - 1)" "contents t"]
      after_nl_Some [of "nat (ln - 1)" "contents t"]
    by (auto simp: txt_LineOff_def txt_LinesOffs_def dot_def Let_def split: option.splits)
qed

lemma after_nl_last_line:
  assumes "after_nl (nat (ln - 1)) c = Some n" and "2 \<le> ln"
  shows "1 + nls (take (nat n) c) = ln"
  using after_nl_Some [OF assms(1)] assms(2) by simp

end

