(* ===== verification/TxtProps.thy ===== *)
theory TxtProps
  imports TxtEdit TxtLines
begin

text \<open>
  The properties of package \<open>txt\<close>: each exported update does to the flat contents what its
  comment says, cached reads agree with the contents, the undo list can take any editing
  session back to its start, marks follow the text, and line numbers count newlines.
\<close>

section \<open>Sessions\<close>

text \<open>
  \<open>session base t\<close>: the text \<open>t\<close> can be reached by exported operations from a text that
  held \<open>base\<close> when its undo list was last dropped.  Deletions that are merged into the
  previous one at its old end are left out: they break the undo list (see below).
\<close>

inductive session :: "rune list \<Rightarrow> text_state \<Rightarrow> bool" where
  start: "wf_text t \<Longrightarrow> session (contents t) (txt_DropEdits t)"
| insert: "session base t \<Longrightarrow> 0 \<le> off \<Longrightarrow> txt_Ins t dat off = Ret (t', err) \<Longrightarrow> session base t'"
| delete: "session base t \<Longrightarrow> 0 \<le> off \<Longrightarrow> \<not> del_merges t off \<Longrightarrow>
    txt_Del t off n = Ret (t', rs) \<Longrightarrow> session base t'"
| delete_all: "session base t \<Longrightarrow> \<not> del_merges t 0 \<Longrightarrow> txt_DelAll t = Ret t' \<Longrightarrow> session base t'"
| mark_insert: "session base t \<Longrightarrow> map_of (tx_marks t) name = Some m \<Longrightarrow> 0 \<le> mk_off m \<Longrightarrow>
    mk_off m \<le> tx_sz t \<Longrightarrow> txt_MarkIns t name dat = Ret (t', err) \<Longrightarrow> session base t'"
| mark_delete: "session base t \<Longrightarrow> map_of (tx_marks t) name = Some m \<Longrightarrow> 0 \<le> mk_off m \<Longrightarrow> 0 \<le> n \<Longrightarrow>
    \<not> del_merges t (mk_off m - min n (mk_off m)) \<Longrightarrow> txt_MarkDel t name n = Ret (t', rs) \<Longrightarrow>
    session base t'"
| undo: "session base t \<Longrightarrow> txt_Undo t = Ret (t', e) \<Longrightarrow> session base t'"
| redo: "session base t \<Longrightarrow> txt_Redo t = Ret (t', e) \<Longrightarrow> session base t'"
| continue: "session base t \<Longrightarrow> session base (txt_ContdEdit t)"
| discontinue: "session base t \<Longrightarrow> session base (txt_DiscontdEdit t)"
| set_mark: "session base t \<Longrightarrow> session base (fst (txt_SetMark t name off))"
| del_mark: "session base t \<Longrightarrow> session base (txt_DelMark t name)"

lemma history_other_fields:
  assumes "history base t" and "wf_text t"
  shows "history base (txt_ContdEdit t) \<and> wf_text (txt_ContdEdit t)"
    and "history base (txt_DiscontdEdit t) \<and> wf_text (txt_DiscontdEdit t)"
    and "history base (fst (txt_SetMark t name off)) \<and> wf_text (fst (txt_SetMark t name off))"
    and "history base (txt_DelMark t name) \<and> wf_text (txt_DelMark t name)"
  using assms
  by (simp_all add: history_def wf_text_def contents_def txt_ContdEdit_def txt_DiscontdEdit_def
      txt_SetMark_def txt_DelMark_def Let_def)

lemma txt_Undo_history:
  assumes "history base t" and "wf_text t" and "txt_Undo t = Ret (t', e)"
  shows "history base t' \<and> wf_text t'"
proof (cases "tx_nedits t")
  case 0
  then show ?thesis
    using assms by (auto simp: txt_Undo_def split: option.splits)
next
  case (Suc n)
  moreover obtain es where "tx_edits t = Some es"
    using assms(1) by (auto simp: history_def)
  ultimately show ?thesis
    using txt_Undo_history_step [OF assms(1,2)] assms(3) by auto
qed

lemma txt_Redo_history:
  assumes "history base t" and "wf_text t" and "txt_Redo t = Ret (t', e)"
  shows "history base t' \<and> wf_text t'"
proof -
  obtain es where es: "tx_edits t = Some es" "tx_nedits t \<le> length es"
    using assms(1) by (auto simp: history_def)
  then consider "tx_nedits t = length es" | "tx_nedits t < length es"
    by linarith
  then show ?thesis
  proof cases
    case 1
    then show ?thesis using assms es by (auto simp: txt_Redo_def)
  next
    case 2
    then show ?thesis using txt_Redo_history_step [OF assms(1,2) es(1) 2] assms(3) by auto
  qed
qed

lemma session_history: "session base t \<Longrightarrow> history base t \<and> wf_text t"
proof (induction rule: session.induct)
  case (start t)
  then show ?case by (simp add: history_def txt_DropEdits_def wf_text_def contents_def)
next
  case (insert base t off dat t' err)
  then show ?case
    using txt_Ins_history_step [of base t off dat] txt_Ins_hole [of t off dat]
    by (cases "off \<le> tx_sz t") (auto simp: history_def wf_text_def contents_def)
next
  case (delete base t off n t' rs)
  then show ?case using txt_Del_history_step [of base t off n] by auto
next
  case (delete_all base t t')
  then show ?case using txt_DelAll_history_step [of base t] by auto
next
  case (mark_insert base t name m dat t' err)
  then show ?case using txt_MarkIns_history_step [of base t name m dat] by auto
next
  case (mark_delete base t name m n t' rs)
  then show ?case using txt_MarkDel_history_step [of base t name m n] by auto
next
  case (undo base t t' e)
  then show ?case using txt_Undo_history by blast
next
  case (redo base t t' e)
  then show ?case using txt_Redo_history by blast
qed (use history_other_fields in blast)+

text \<open>\<open>n\<close> calls of \<open>Undo\<close>.\<close>

fun undo_n :: "nat \<Rightarrow> text_state \<Rightarrow> text_state go" where
  "undo_n 0 t = Ret t"
| "undo_n (Suc n) t = go_bind (txt_Undo t) (\<lambda>(t', e). undo_n n t')"

lemma undo_n_history:
  "history base t \<Longrightarrow> wf_text t \<Longrightarrow> tx_nedits t = n \<Longrightarrow>
     \<exists>t'. undo_n n t = Ret t' \<and> contents t' = base"
proof (induction n arbitrary: t)
  case 0
  then show ?case by (auto simp: history_def)
next
  case (Suc n)
  then obtain es where "tx_edits t = Some es"
    by (auto simp: history_def)
  then obtain t' where "txt_Undo t = Ret (t', Some (inverse_edit (es ! n)))" "history base t'"
    "wf_text t'" "tx_nedits t' = n"
    using txt_Undo_history_step [OF Suc.prems] by blast
  then show ?case using Suc.IH by simp
qed

section \<open>Marks follow the text\<close>

lemma map_of_map_marks:
  "map_of (map (\<lambda>(k, m). (k, f m)) ms) k = map_option f (map_of ms k)"
  by (induction ms) auto

lemma txt_addEdit_frame:
  "txt_addEdit t op pos dat same = Ret (t', e) \<Longrightarrow>
     tx_marks t' = tx_marks t \<and> tx_mark t' = tx_mark t \<and> e_op e = op \<and> e_off e = pos \<and> e_data e = dat"
  by (auto simp: txt_addEdit_def Let_def split: option.splits if_splits)

lemma txt_Ins_marks:
  assumes "txt_Ins t dat off = Ret (t', None)"
  shows "tx_marks t' = tx_marks (txt_markins t off (len dat))"
  using assms
  by (auto simp: txt_Ins_def Let_def go_simps txt_markEdit_def txt_markins_def map_marks_def
      dest!: txt_addEdit_frame txt_ins_frame simp: raw_frame_def split: option.splits)

lemma txt_Del_marks:
  assumes "txt_Del t off n = Ret (t', rs)" and "n \<noteq> 0"
  shows "tx_marks t' = tx_marks (txt_markdel t off (off + len rs))"
  using assms
  by (auto simp: txt_Del_def Let_def go_simps txt_markEdit_def txt_markdel_def map_marks_def
      dest!: txt_addEdit_frame txt_del_frame simp: raw_frame_def split: option.splits)

section \<open>Properties\<close>

text \<open>A text of two slices with a mark, used by the witnesses.\<close>

definition demo_text :: text_state where
  "demo_text = (empty_text (Some []))\<lparr>tx_data := [[97, 98, 10], [99, 100]], tx_sz := 5,
     tx_marks := [(''m'', \<lparr>mk_name = ''m'', mk_off = 3, mk_equaltoo = False, mk_id = 0\<rparr>)]\<rparr>"

lemma demo_text_inv: "text_inv demo_text" "wf_text demo_text" "no_empty (tx_data demo_text)"
  "seek_ok demo_text" "contents demo_text = [97, 98, 10, 99, 100]" "tx_sz demo_text = 5"
  by (simp_all add: demo_text_def empty_text_def text_inv_def wf_text_def edits_wf_def no_empty_def
      seek_ok_def contents_def)

text \<open>
  C1: On a well-formed text, \<open>Ins\<close> at a valid offset puts the data at that offset of the
  flat contents, counts one more version and reports no error; past the end it reports
  "text can't have holes" and changes nothing but the pending continuation flag and the cache.
\<close>

theorem txt_Ins_correct:
  assumes "text_inv t" and "0 \<le> off"
  shows "if off \<le> txt_Len t
    then \<exists>t'. txt_Ins t dat off = Ret (t', None) \<and> text_inv t' \<and>
      contents t' = seq_ins (nat off) dat (contents t) \<and> txt_Vers t' = txt_Vers t + 1
    else txt_Ins t dat off =
      Ret (t\<lparr>tx_contd := False, tx_seek := (tx_seek t)\<lparr>sk_off := -2\<rparr>\<rparr>, Some NoHoles)"
  using assms txt_Ins_spec txt_Ins_hole by (auto simp: txt_Len_def txt_Vers_def)

theorem txt_Ins_correct_witness:
  "(\<exists>t'. txt_Ins demo_text [120] 3 = Ret (t', None) \<and> contents t' = [97, 98, 10, 120, 99, 100]) \<and>
   (\<exists>t'. txt_Ins demo_text [120] 6 = Ret (t', Some NoHoles))"
  using txt_Ins_correct [OF demo_text_inv(1), of 3 "[120]"]
    txt_Ins_correct [OF demo_text_inv(1), of 6 "[120]"]
  by (auto simp: txt_Len_def demo_text_inv seq_ins_def)

text \<open>
  \<open>Del\<close> returns the runes it removes, which are the \<open>n\<close> at the offset or those up to
  the end, removes exactly them from the flat contents and counts one more version.
\<close>

theorem txt_Del_correct:
  assumes "text_inv t" and "0 \<le> off"
  shows "\<exists>t'. txt_Del t off n = Ret (t', seq_cut (nat off) (nat n) (contents t)) \<and> text_inv t' \<and>
    contents t' = seq_del (nat off) (nat n) (contents t) \<and> txt_Vers t' = txt_Vers t + 1"
  using txt_Del_spec [OF assms] by (simp add: txt_Vers_def)

theorem txt_Del_correct_witness:
  "\<exists>t'. txt_Del demo_text 1 3 = Ret (t', [98, 10, 99]) \<and> contents t' = [97, 100]"
  using txt_Del_correct [OF demo_text_inv(1), of 1 3]
  by (auto simp: demo_text_inv seq_cut_def seq_del_def numeral_3_eq_3)

text \<open>
  \<open>solid t\<close>: the text \<open>t\<close> can be reached by exported operations from a new one, by insertions that
  insert something and deletions that delete something (or of no runes, which are not recorded).
\<close>

inductive solid :: "text_state \<Rightarrow> bool" where
  new_editing: "txt_NewEditing dat = Ret t \<Longrightarrow> solid t"
| new: "txt_New dat = Ret t \<Longrightarrow> solid t"
| insert: "solid t \<Longrightarrow> 0 \<le> off \<Longrightarrow> dat \<noteq> [] \<Longrightarrow> txt_Ins t dat off = Ret (t', err) \<Longrightarrow> solid t'"
| delete: "solid t \<Longrightarrow> 0 \<le> off \<Longrightarrow> txt_Del t off n = Ret (t', rs) \<Longrightarrow> n = 0 \<or> rs \<noteq> [] \<Longrightarrow> solid t'"
| delete_all: "solid t \<Longrightarrow> txt_DelAll t = Ret t' \<Longrightarrow> solid t'"
| mark_insert: "solid t \<Longrightarrow> map_of (tx_marks t) name = Some m \<Longrightarrow> 0 \<le> mk_off m \<Longrightarrow> dat \<noteq> [] \<Longrightarrow>
    txt_MarkIns t name dat = Ret (t', err) \<Longrightarrow> solid t'"
| mark_delete: "solid t \<Longrightarrow> 0 \<le> n \<Longrightarrow> txt_MarkDel t name n = Ret (t', rs) \<Longrightarrow> n = 0 \<or> rs \<noteq> [] \<Longrightarrow> solid t'"
| undo: "solid t \<Longrightarrow> txt_Undo t = Ret (t', e) \<Longrightarrow> solid t'"
| redo: "solid t \<Longrightarrow> txt_Redo t = Ret (t', e) \<Longrightarrow> solid t'"
| drop: "solid t \<Longrightarrow> solid (txt_DropEdits t)"
| continue: "solid t \<Longrightarrow> solid (txt_ContdEdit t)"
| discontinue: "solid t \<Longrightarrow> solid (txt_DiscontdEdit t)"
| set_mark: "solid t \<Longrightarrow> solid (fst (txt_SetMark t name off))"
| del_mark: "solid t \<Longrightarrow> solid (txt_DelMark t name)"
| getc: "solid t \<Longrightarrow> 0 \<le> off \<Longrightarrow> txt_Getc t off = Ret (t', r) \<Longrightarrow> solid t'"

text \<open>The invariant: no slice and no recorded edit is empty, and the cache is valid.\<close>

definition tight :: "text_state \<Rightarrow> bool" where
  "tight t \<longleftrightarrow> wf_text t \<and> no_empty (tx_data t) \<and> seek_ok t \<and>
     (\<forall>es. tx_edits t = Some es \<longrightarrow> (\<forall>e\<in>set es. e_data e \<noteq> [] \<and> 0 \<le> e_off e))"

lemma tight_fields [simp]:
  "tight (txt_markEdit t e) = tight t" "tight (t\<lparr>tx_vers := v\<rparr>) = tight t" "tight (t\<lparr>tx_contd := c\<rparr>) = tight t"
  "tight (t\<lparr>tx_nedits := n\<rparr>) = tight t" "tight (t\<lparr>tx_mark := m\<rparr>) = tight t" "tight (t\<lparr>tx_marks := ms\<rparr>) = tight t"
  "tight (t\<lparr>tx_fresh := f\<rparr>) = tight t"
  by (simp_all add: tight_def wf_text_def seek_ok_def)

lemma tight_ins:
  assumes "tight t" and "0 \<le> off" and "dat \<noteq> []" and "txt_ins t dat off = Ret (t', err)"
  shows "tight t'"
proof (cases "off \<le> tx_sz t")
  case True
  then show ?thesis
    using txt_ins_refines [of t off dat] assms by (auto simp: tight_def raw_frame_def seek_ok_def)
next
  case False
  then show ?thesis
    using txt_ins_hole [of t off dat] assms by (auto simp: tight_def wf_text_def seek_ok_def)
qed

lemma tight_del: "tight t \<Longrightarrow> 0 \<le> off \<Longrightarrow> txt_del t off n = Ret (t', rs) \<Longrightarrow> tight t'"
  using txt_del_refines [of t off n] by (auto simp: tight_def raw_frame_def seek_ok_def)

lemma tight_addEdit:
  assumes "tight t" and "0 \<le> pos" and "dat \<noteq> []" and "txt_addEdit t op pos dat same = Ret (t', e)"
  shows "tight t'"
proof (cases "tx_edits t")
  case None
  then show ?thesis using assms by (simp add: txt_addEdit_def)
next
  case (Some es0)
  define es where "es = (if tx_nedits t < length es0 then take (tx_nedits t) es0 else es0)"
  have es: "\<forall>e\<in>set es. e_data e \<noteq> [] \<and> 0 \<le> e_off e"
    using assms(1) Some by (auto simp: tight_def es_def dest: in_set_takeD)
  have "tight (t\<lparr>tx_edits := Some es', tx_nedits := n\<rparr>)" "tight (t\<lparr>tx_edits := Some es'\<rparr>)"
    if "\<forall>e\<in>set es'. e_data e \<noteq> [] \<and> 0 \<le> e_off e" for es' n
    using assms(1) that by (simp_all add: tight_def wf_text_def seek_ok_def)
  moreover have "\<forall>e\<in>set (es @ [\<lparr>e_op = op, e_off = pos, e_data = dat, e_contd = same\<rparr>]). e_data e \<noteq> [] \<and> 0 \<le> e_off e"
    using es assms(2,3) by auto
  moreover have "\<forall>e\<in>set (es[n - 1 := (es ! (n - 1))\<lparr>e_data := e_data (es ! (n - 1)) @ dat\<rparr>]). e_data e \<noteq> [] \<and> 0 \<le> e_off e"
    if "n > 0" "n \<le> length es" for n
  proof -
    have "es ! (n - 1) \<in> set es" using that by simp
    then show ?thesis using es assms(3) set_update_subset_insert [of es "n - 1"] by fastforce
  qed
  ultimately show ?thesis
    using assms(4) Some unfolding txt_addEdit_def
    by (auto simp: Let_def es_def [symmetric] split: if_splits)
qed

lemma tight_Ins:
  assumes "tight t" and "0 \<le> off" and "dat \<noteq> []" and "txt_Ins t dat off = Ret (t', err)"
  shows "tight t'"
proof -
  obtain t1 e1 where t1: "txt_ins (t\<lparr>tx_contd := False\<rparr>) dat off = Ret (t1, e1)"
    and r: "(case e1 of Some x \<Rightarrow> Ret (t1, Some x) | None \<Rightarrow>
      go_map (\<lambda>(t2, e). (txt_markEdit t2 e, None)) (txt_addEdit (t1\<lparr>tx_vers := tx_vers t1 + 1\<rparr>) Eins off dat (tx_contd t))) = Ret (t', err)"
    using assms(4) by (auto simp: txt_Ins_def Let_def go_bind_Ret_iff)
  have "tight t1" using tight_ins [OF _ assms(2,3) t1] assms(1) by simp
  then show ?thesis
    using r assms(2,3) tight_addEdit [of "t1\<lparr>tx_vers := tx_vers t1 + 1\<rparr>"]
    by (auto simp: go_map_Ret_iff split: option.splits)
qed

lemma tight_del_addEdit:
  assumes "tight t" and "0 \<le> off" and "txt_del t off n = Ret (t1, rs)" and "rs \<noteq> []"
    and "txt_addEdit t1 Edel off rs same = Ret (t2, e)"
  shows "tight t2"
  using tight_addEdit [OF tight_del [OF assms(1-3)] assms(2,4,5)] .

lemma tight_edit:
  assumes "tight t" and "txt_edit t e = Ret (t', err)" and "e_data e \<noteq> []" and "0 \<le> e_off e"
  shows "tight t'"
  using assms tight_ins [OF assms(1,4,3)] tight_del [OF assms(1,4)]
  by (auto simp: txt_edit_def go_map_Ret_iff split: if_splits)

lemma tight_nth: "tight t \<Longrightarrow> tx_edits t = Some es \<Longrightarrow> i < length es \<Longrightarrow> e_data (es ! i) \<noteq> [] \<and> 0 \<le> e_off (es ! i)"
  using nth_mem by (auto simp: tight_def)

lemma tight_Undo:
  assumes "tight t" and "txt_Undo t = Ret (t', e)"
  shows "tight t'"
proof (cases "tx_edits t = None \<or> tx_nedits t = 0")
  case True
  then show ?thesis using assms by (auto simp: txt_Undo_def split: option.splits)
next
  case False
  then obtain es where es: "tx_edits t = Some es" "0 < tx_nedits t" by auto
  then have n: "tx_nedits t \<le> length es" using assms(2) by (simp add: txt_Undo_def not_le split: if_splits)
  let ?e0 = "es ! (tx_nedits t - 1)"
  let ?e = "?e0\<lparr>e_op := if e_op ?e0 = Eins then Edel else Eins\<rparr>"
  obtain t2 err where "txt_edit (t\<lparr>tx_vers := tx_vers t + 1, tx_nedits := tx_nedits t - 1\<rparr>) ?e = Ret (t2, err)"
    "t' = txt_markEdit t2 ?e"
    using assms(2) es n by (auto simp: txt_Undo_def Let_def go_map_Ret_iff not_less)
  then show ?thesis
    using tight_edit [of "t\<lparr>tx_vers := tx_vers t + 1, tx_nedits := tx_nedits t - 1\<rparr>" ?e t2 err]
      tight_nth [OF assms(1) es(1), of "tx_nedits t - 1"] assms(1) es(2) n by simp
qed

lemma tight_Redo:
  assumes "tight t" and "txt_Redo t = Ret (t', e)"
  shows "tight t'"
proof (cases "tx_edits t = None \<or> tx_nedits t = length (the (tx_edits t))")
  case True
  then show ?thesis using assms by (auto simp: txt_Redo_def split: option.splits)
next
  case False
  then obtain es where es: "tx_edits t = Some es" "tx_nedits t \<noteq> length es" by auto
  then have n: "tx_nedits t < length es" using assms(2) by (simp add: txt_Redo_def split: if_splits)
  let ?e = "(es ! tx_nedits t)\<lparr>e_contd := (tx_nedits t < length es - 1 \<and> e_contd (es ! (tx_nedits t + 1)))\<rparr>"
  obtain t2 err where "txt_edit (t\<lparr>tx_vers := tx_vers t + 1, tx_nedits := tx_nedits t + 1\<rparr>) ?e = Ret (t2, err)"
    "t' = txt_markEdit t2 ?e"
    using assms(2) es n by (auto simp: txt_Redo_def Let_def go_map_Ret_iff)
  then show ?thesis
    using tight_edit [of "t\<lparr>tx_vers := tx_vers t + 1, tx_nedits := tx_nedits t + 1\<rparr>" ?e t2 err]
      tight_nth [OF assms(1) es(1) n] assms(1) by simp
qed

lemma tight_Del:
  assumes "tight t" and "0 \<le> off" and "txt_Del t off n = Ret (t', rs)" and "n = 0 \<or> rs \<noteq> []"
  shows "tight t'"
proof (cases "n = 0")
  case False
  then obtain t1 t2 e where d: "txt_del (t\<lparr>tx_vers := tx_vers t + 1, tx_contd := False\<rparr>) off n = Ret (t1, rs)"
    "txt_addEdit t1 Edel off rs (tx_contd t) = Ret (t2, e)" "t' = txt_markEdit t2 e"
    using assms(3) by (auto simp: txt_Del_def Let_def go_bind_Ret_iff go_map_Ret_iff)
  then show ?thesis using tight_del_addEdit [OF _ assms(2) d(1) _ d(2)] assms(1,4) False d(3) by simp
qed (use assms in \<open>auto simp: txt_Del_def\<close>)

lemma tight_DelAll:
  assumes "tight t" and "txt_DelAll t = Ret t'"
  shows "tight t'"
proof (cases "tx_sz t = 0")
  case False
  let ?t = "t\<lparr>tx_contd := False, tx_vers := tx_vers t + 1\<rparr>"
  obtain t1 t2 rs e where d: "txt_del ?t 0 (tx_sz t) = Ret (t1, rs)"
    "txt_addEdit t1 Edel 0 rs (tx_contd t) = Ret (t2, e)" "t' = txt_markEdit t2 e"
    using assms(2) False by (auto simp: txt_DelAll_def Let_def go_bind_Ret_iff go_map_Ret_iff)
  have w: "wf_text ?t" and sz: "tx_sz t = len (contents ?t)"
    using assms(1) by (simp_all add: tight_def wf_text_def contents_def)
  then have "rs = contents ?t" using txt_del_refines [of ?t 0 "tx_sz t"] d(1) by (auto simp: seq_cut_def)
  then have "rs \<noteq> []" using False sz by auto
  then show ?thesis using tight_del_addEdit [OF _ order_refl d(1) _ d(2)] assms(1) d(3) by simp
qed (use assms in \<open>auto simp: txt_DelAll_def Let_def\<close>)

lemma tight_MarkIns:
  assumes "tight t" and "map_of (tx_marks t) name = Some m" and "0 \<le> mk_off m" and "dat \<noteq> []"
    and "txt_MarkIns t name dat = Ret (t', err)"
  shows "tight t'"
proof -
  obtain t1 where i: "txt_Ins (t\<lparr>tx_mark := Some (mk_id m)\<rparr>) dat (mk_off m) = Ret (t1, err)"
    "t' = (if err = None then t1\<lparr>tx_mark := None\<rparr> else t1)"
    using assms(2,5) by (auto simp: txt_MarkIns_eq go_map_Ret_iff)
  then show ?thesis using tight_Ins [OF _ assms(3,4) i(1)] assms(1) i(2) by simp
qed

lemma tight_MarkDel:
  assumes "tight t" and "0 \<le> n" and "txt_MarkDel t name n = Ret (t', rs)" and "n = 0 \<or> rs \<noteq> []"
  shows "tight t'"
proof (cases "map_of (tx_marks t) name = None \<or> n = 0")
  case True
  then show ?thesis using assms by (auto simp: txt_MarkDel_def Let_def split: option.splits)
next
  case False
  then obtain m0 where m0: "map_of (tx_marks t) name = Some m0" "n \<noteq> 0" by auto
  define m where "m = (if mk_off m0 < 0 then m0\<lparr>mk_off := 0\<rparr> else m0)"
  define k where "k = (if n > mk_off m then mk_off m else n)"
  have off: "0 \<le> mk_off m - k" using assms(2) by (auto simp: m_def k_def)
  obtain t2 t3 e where d: "txt_del (t\<lparr>tx_vers := tx_vers t + 1, tx_marks := AList.update name m (tx_marks t),
      tx_mark := Some (mk_id m), tx_contd := False\<rparr>) (mk_off m - k) k = Ret (t2, rs)"
    "txt_addEdit t2 Edel (mk_off m - k) rs (tx_contd t) = Ret (t3, e)" "t' = (txt_markEdit t3 e)\<lparr>tx_mark := None\<rparr>"
    using assms(3) m0 unfolding txt_MarkDel_def
    by (auto simp: Let_def go_bind_Ret_iff go_map_Ret_iff m_def [symmetric] k_def [symmetric])
  then show ?thesis using tight_del_addEdit [OF _ off d(1) _ d(2)] assms(1,4) m0(2) d(3) by simp
qed

lemma tight_empty: "es = None \<or> es = Some [] \<Longrightarrow> tight (empty_text es)"
  by (auto simp: tight_def empty_text_def wf_text_def no_empty_def seek_ok_def)

lemma solid_tight: "solid t \<Longrightarrow> tight t"
proof (induction rule: solid.induct)
  case (new_editing dat t)
  then show ?case
    using tight_Ins [OF tight_empty order_refl] tight_empty
    by (fastforce simp: txt_NewEditing_def Let_def go_map_Ret_iff split: if_splits)
next
  case (new dat t)
  then show ?case
    using tight_Ins [OF tight_empty order_refl] tight_empty
    by (fastforce simp: txt_New_def Let_def go_map_Ret_iff split: if_splits)
next
  case (drop t)
  then show ?case by (simp add: tight_def txt_DropEdits_def wf_text_def seek_ok_def)
next
  case (getc t off t' r)
  then show ?case using txt_Getc_refines [of t off] by (auto simp: tight_def wf_text_def)
qed (auto intro: tight_Ins tight_Del tight_DelAll tight_MarkIns tight_MarkDel tight_Undo tight_Redo
    simp: txt_ContdEdit_def txt_DiscontdEdit_def txt_SetMark_def txt_DelMark_def Let_def)

text \<open>
  C3: \<open>Getc\<close>, whatever its cache holds, returns the rune at the offset, or 0 past the end, and leaves a valid cache
  and the same text: of every text reached from a new one by the exported operations, reads included, as long as
  insertions insert something and deletions delete something.  After an insertion or a deletion of nothing, or undoing
  one, the text may have an empty slice, and \<open>Getc\<close> may panic (\<open>txt_Getc_panics\<close>).
\<close>

theorem txt_Getc_correct:
  assumes "solid t" and "0 \<le> off"
  shows "\<exists>k. txt_Getc t off =
      Ret (t\<lparr>tx_seek := k\<rparr>, if off < txt_Len t then contents t ! nat off else 0) \<and>
    seek_ok (t\<lparr>tx_seek := k\<rparr>) \<and> solid (t\<lparr>tx_seek := k\<rparr>)"
proof -
  have t: "wf_text t" "no_empty (tx_data t)" "seek_ok t" using solid_tight [OF assms(1)] by (simp_all add: tight_def)
  have "txt_Len t = len (contents t)" using t(1) by (simp add: txt_Len_def wf_text_def contents_def)
  then show ?thesis using txt_Getc_refines [OF t assms(2)] solid.getc [OF assms] by metis
qed

text \<open>A text of two slices: the first half of the original one, with what was inserted, and the rest.\<close>

definition split_text :: text_state where
  "split_text = (case go_bind (txt_NewEditing [97, 98, 99]) (\<lambda>t. txt_Ins t [120, 121] 1) of
     Ret (t, _) \<Rightarrow> t | Panic \<Rightarrow> empty_text None)"

lemma split_text_solid: "solid split_text"
proof -
  obtain t where t: "txt_NewEditing [97, 98, 99] = Ret t"
    and "\<exists>t' err. txt_Ins t [120, 121] 1 = Ret (t', err)"
    by (simp add: txt_NewEditing_def empty_text_def txt_Ins_def txt_ins_def txt_addEdit_def Let_def
        txt_markEdit_def txt_markins_def map_marks_def)
  then obtain t' err where t': "txt_Ins t [120, 121] 1 = Ret (t', err)" by blast
  from solid.insert [OF solid.new_editing [OF t] _ _ t'] show ?thesis by (simp add: split_text_def t t')
qed

theorem txt_Getc_correct_witness: "\<exists>k. txt_Getc split_text 3 = Ret (split_text\<lparr>tx_seek := k\<rparr>, 98)"
proof -
  have "txt_Len split_text = 5" "contents split_text = [97, 120, 121, 98, 99]" by code_simp+
  then show ?thesis using txt_Getc_correct [OF split_text_solid, of 3] by (auto simp: numeral_3_eq_3)
qed

text \<open>
  Undoing a deletion of nothing at the end of a text of 512 runes leaves an empty slice: the text is the same,
  but reading past its end right after its last rune panics.
\<close>

lemma txt_Getc_panics:
  assumes "length dat = 512"
  shows "\<exists>t0 t1 t2 t3 e. txt_NewEditing dat = Ret t0 \<and> txt_Del t0 512 1 = Ret (t1, []) \<and> txt_Undo t1 = Ret (t2, Some e) \<and>
    contents t2 = dat \<and> txt_Getc t2 511 = Ret (t3, dat ! 511) \<and> txt_Getc t3 512 = Panic"
proof -
  have "dat \<noteq> []" using assms by auto
  then show ?thesis using assms
    by (simp add: txt_NewEditing_def empty_text_def txt_Ins_def txt_ins_def txt_addEdit_def Let_def contents_def
        txt_markEdit_def txt_markins_def txt_markdel_def map_marks_def txt_Del_def txt_del_def txt_Undo_def txt_edit_def
        txt_Getc_def index2_def block_len_def)
qed

text \<open>
  The slices \<open>Get\<close> sends, in order, are the \<open>n\<close> runes at the offset, or those up to
  the end of the text; a negative \<open>n\<close> asks for all of them.
\<close>

theorem txt_Get_correct:
  assumes "wf_text t" and "0 \<le> off"
  shows "\<exists>ms. txt_Get t off n = Ret ms \<and>
    concat ms = seq_cut (nat off) (if n < 0 then length (contents t) else nat n) (contents t)"
  by (rule txt_Get_refines [OF assms])

theorem txt_Get_correct_witness: "\<exists>ms. txt_Get demo_text 1 (-1) = Ret ms \<and> concat ms = [98, 10, 99, 100]"
  using txt_Get_correct [OF demo_text_inv(2), of 1 "-1"] by (auto simp: demo_text_inv seq_cut_def)

text \<open>
  C2: after any session of inserts, deletes, mark updates, undos and redos, undoing every
  applied edit brings back the contents the text had when its undo list was empty.
\<close>

theorem session_undo_all:
  assumes "session base t"
  shows "\<exists>t'. undo_n (tx_nedits t) t = Ret t' \<and> contents t' = base"
  using undo_n_history session_history [OF assms] by blast

theorem session_undo_all_witness:
  "\<exists>t t'. tx_nedits t = 2 \<and> undo_n 2 t = Ret t' \<and> contents t' = [97, 98, 10, 99, 100]"
proof -
  let ?d = "txt_DropEdits demo_text"
  have s0: "session (contents demo_text) ?d"
    using demo_text_inv(2) by (rule session.start)
  obtain t1 e1 where t1: "txt_Ins ?d [120] 0 = Ret (t1, e1)" "tx_nedits t1 = 1" "\<not> del_merges t1 2"
    by (simp add: txt_Ins_def txt_ins_def txt_addEdit_def txt_DropEdits_def demo_text_def empty_text_def
        del_merges_def Let_def)
  then have s1: "session (contents demo_text) t1"
    using session.insert [OF s0] by blast
  have "\<exists>t2 rs. txt_Del t1 2 1 = Ret (t2, rs) \<and> tx_nedits t2 = 2"
    using t1(1) by (auto simp: txt_Ins_def txt_ins_def txt_del_def txt_Del_def txt_addEdit_def
        txt_DropEdits_def demo_text_def empty_text_def txt_markEdit_def txt_markins_def txt_markdel_def
        map_marks_def Let_def)
  then obtain t2 rs where t2: "txt_Del t1 2 1 = Ret (t2, rs)" "tx_nedits t2 = 2"
    by blast
  then have "session (contents demo_text) t2"
    using session.delete [OF s1 _ t1(3)] by simp
  from session_undo_all [OF this] t2(2) show ?thesis
    unfolding demo_text_inv by auto
qed

text \<open>
  \<open>Redo\<close> right after \<open>Undo\<close> restores the contents and the applied count, and hands
  back an edit with the same operation, offset and data as the one in the undo list.
\<close>

theorem redo_after_undo:
  assumes "session base t" and "0 < tx_nedits t"
  shows "\<exists>t1 t2 e1 e2. txt_Undo t = Ret (t1, Some e1) \<and> txt_Redo t1 = Ret (t2, Some e2) \<and>
    contents t2 = contents t \<and> tx_nedits t2 = tx_nedits t \<and> tx_edits t2 = tx_edits t \<and>
    e_op e1 \<noteq> e_op e2 \<and> e_off e1 = e_off e2 \<and> e_data e1 = e_data e2"
proof -
  have h: "history base t" "wf_text t"
    using session_history [OF assms(1)] by simp_all
  obtain n es where n: "tx_nedits t = Suc n" and es: "tx_edits t = Some es" "Suc n \<le> length es"
    "replay base (take (Suc n) es) = Some (contents t)"
    using assms(2) h(1) gr0_implies_Suc unfolding history_def by metis
  obtain t1 where t1: "txt_Undo t = Ret (t1, Some (inverse_edit (es ! n)))" "history base t1"
    "wf_text t1" "tx_nedits t1 = n" "tx_edits t1 = Some es" "replay base (take n es) = Some (contents t1)"
    using txt_Undo_history_step [OF h n es(1)] by blast
  have "tx_nedits t1 < length es"
    using t1(4) es(2) by simp
  then obtain t2 e where t2: "txt_Redo t1 = Ret (t2, Some e)" "tx_nedits t2 = Suc n"
    "tx_edits t2 = Some es" "e = (es ! n)\<lparr>e_contd := e_contd e\<rparr>"
    "contents t2 = apply_edit (es ! n) (contents t1)"
    using txt_Redo_history_step [OF t1(2,3,5)] t1(4) by auto
  have "take (Suc n) es = take n es @ [es ! n]"
    using es(2) by (simp add: take_Suc_conv_app_nth)
  then have c: "contents t = apply_edit (es ! n) (contents t1)"
    using es(3) t1(6) by (simp add: replay_append split: if_splits)
  have "e_op e = e_op (es ! n)" "e_off e = e_off (es ! n)" "e_data e = e_data (es ! n)"
    by (subst t2(4), simp)+
  then have "e_op (inverse_edit (es ! n)) \<noteq> e_op e" "e_off (inverse_edit (es ! n)) = e_off e"
    "e_data (inverse_edit (es ! n)) = e_data e"
    by (cases "e_op (es ! n)"; simp add: inverse_edit_def)+
  then show ?thesis
    using t1(1) t2 n es(1) c by simp
qed

theorem redo_after_undo_witness:
  "\<exists>t t1 e1. txt_Undo t = Ret (t1, Some e1) \<and> contents t = [120, 97, 98, 10, 99, 100] \<and>
     (\<exists>t2 e2. txt_Redo t1 = Ret (t2, Some e2) \<and> contents t2 = contents t)"
proof -
  let ?d = "txt_DropEdits demo_text"
  have s0: "session (contents demo_text) ?d"
    using demo_text_inv(2) by (rule session.start)
  obtain t1 e1 where t1: "txt_Ins ?d [120] 0 = Ret (t1, e1)" "tx_nedits t1 = 1"
    "contents t1 = [120, 97, 98, 10, 99, 100]"
    by (simp add: txt_Ins_def txt_ins_def txt_addEdit_def txt_DropEdits_def demo_text_def empty_text_def
        contents_def txt_markEdit_def txt_markins_def map_marks_def Let_def)
  then have "session (contents demo_text) t1"
    using session.insert [OF s0] by blast
  from redo_after_undo [OF this] t1(2) obtain u1 u2 d1 d2 where
    "txt_Undo t1 = Ret (u1, Some d1)" "txt_Redo u1 = Ret (u2, Some d2)" "contents u2 = contents t1"
    by auto
  then show ?thesis
    using t1(3) by blast
qed

text \<open>
  A mark stays on its rune through an insertion: every mark keeps its name, stays within
  the text, and, unless the data goes in exactly at it, stays on the rune it was on; a mark
  at the offset stays before the data, unless it is the one being edited.
\<close>

theorem txt_Ins_moves_marks:
  assumes "text_inv t" and "0 \<le> off" and "off \<le> txt_Len t"
    and "txt_Mark t name = Some m" and "0 \<le> mk_off m" and "mk_off m \<le> txt_Len t"
    and "txt_Ins t dat off = Ret (t', None)"
  shows "\<exists>m'. txt_Mark t' name = Some m' \<and> mk_name m' = mk_name m \<and> mk_id m' = mk_id m \<and>
    0 \<le> mk_off m' \<and> mk_off m' \<le> txt_Len t' \<and>
    (if mk_off m = off
     then mk_off m' = (if mk_equaltoo m \<or> tx_mark t = Some (mk_id m) then off + len dat else off)
     else mk_off m < txt_Len t \<longrightarrow> contents t' ! nat (mk_off m') = contents t ! nat (mk_off m))"
proof -
  have t': "text_inv t'" "contents t' = seq_ins (nat off) dat (contents t)"
    using txt_Ins_spec [OF assms(1,2), of dat] assms(3,7) by (auto simp: txt_Len_def)
  have sz: "tx_sz t = len (contents t)" "tx_sz t' = len (contents t')"
    using assms(1) t'(1) by (simp_all add: text_inv_def wf_text_def contents_def)
  have off: "nat off \<le> length (contents t)"
    using assms(2,3) sz(1) by (simp add: txt_Len_def)
  let ?f = "\<lambda>m. if mk_off m \<noteq> off \<or> mk_equaltoo m \<or> tx_mark t = Some (mk_id m)
                 then m\<lparr>mk_off := pins (mk_off m) off (len dat)\<rparr> else m"
  have "txt_Mark t' name = Some (?f m)"
    using txt_Ins_marks [OF assms(7)] assms(4)
    by (simp add: txt_Mark_def txt_markins_def map_marks_def map_of_map_marks)
  moreover have "mk_off m < off \<Longrightarrow> contents t' ! nat (mk_off m) = contents t ! nat (mk_off m)"
    using off assms(5) unfolding t'(2) by (intro nth_seq_ins_before) auto
  moreover have "contents t' ! nat (mk_off m + len dat) = contents t ! nat (mk_off m)"
    if "off < mk_off m" "mk_off m < len (contents t)"
  proof -
    have "nat (mk_off m + len dat) = nat (mk_off m) + length dat"
      using assms(5) by (simp add: nat_add_distrib)
    moreover have "nat off \<le> nat (mk_off m)" "nat (mk_off m) < length (contents t)"
      using that assms(5) by linarith+
    ultimately show ?thesis
      unfolding t'(2) by (simp only: nth_seq_ins_after)
  qed
  ultimately show ?thesis
    using assms(2,3,5,6) sz t'(2) off by (auto simp: txt_Len_def pins_def)
qed

theorem txt_Ins_moves_marks_witness:
  "\<exists>t' m'. txt_Ins demo_text [120, 121] 1 = Ret (t', None) \<and> txt_Mark t' ''m'' = Some m' \<and>
     contents t' ! nat (mk_off m') = 99"
proof -
  obtain t' where t': "txt_Ins demo_text [120, 121] 1 = Ret (t', None)"
    using txt_Ins_spec [OF demo_text_inv(1), of 1 "[120, 121]"] by (auto simp: demo_text_inv)
  have m: "txt_Mark demo_text ''m'' = Some \<lparr>mk_name = ''m'', mk_off = 3, mk_equaltoo = False, mk_id = 0\<rparr>"
    by (simp add: txt_Mark_def demo_text_def empty_text_def)
  show ?thesis
    using txt_Ins_moves_marks [OF demo_text_inv(1) _ _ m _ _ t'] t'
    by (auto simp: txt_Len_def demo_text_inv)
qed

text \<open>
  A mark stays on its rune through a deletion, or moves to the place of the deletion
  when its rune is deleted; it never leaves the text.
\<close>

theorem txt_Del_moves_marks:
  assumes "text_inv t" and "0 \<le> off" and "n \<noteq> 0"
    and "txt_Mark t name = Some m" and "0 \<le> mk_off m" and "mk_off m \<le> txt_Len t"
    and "txt_Del t off n = Ret (t', rs)"
  shows "\<exists>m'. txt_Mark t' name = Some m' \<and> mk_name m' = mk_name m \<and> mk_id m' = mk_id m \<and>
    0 \<le> mk_off m' \<and> mk_off m' \<le> txt_Len t' \<and>
    (if off \<le> mk_off m \<and> mk_off m < off + len rs then mk_off m' = off
     else mk_off m < txt_Len t \<longrightarrow> contents t' ! nat (mk_off m') = contents t ! nat (mk_off m))"
proof -
  have t': "text_inv t'" "rs = seq_cut (nat off) (nat n) (contents t)"
    "contents t' = seq_del (nat off) (nat n) (contents t)"
    using txt_Del_spec [OF assms(1,2), of n] assms(7) by auto
  have c: "contents t' = seq_del (nat off) (length rs) (contents t)"
    unfolding t'(2,3) by (simp add: seq_del_def min_def)
  have sz: "tx_sz t = len (contents t)" "tx_sz t' = len (contents t')"
    using assms(1) t'(1) by (simp_all add: text_inv_def wf_text_def contents_def)
  have rs: "nat off + length rs \<le> length (contents t) \<or> rs = []"
    unfolding t'(2) by (cases "nat off \<le> length (contents t)") (auto simp: seq_cut_def)
  have len': "len (contents t') = len (contents t) - len rs"
    unfolding c using rs by auto
  have mark: "txt_Mark t' name = Some (m\<lparr>mk_off := pdel (mk_off m) off (off + len rs)\<rparr>)"
    using txt_Del_marks [OF assms(7,3)] assms(4)
    by (simp add: txt_Mark_def txt_markdel_def map_marks_def map_of_map_marks)
  have before: "contents t' ! nat (mk_off m) = contents t ! nat (mk_off m)"
    if "mk_off m < off" "rs \<noteq> []"
    using rs that assms(5) unfolding c by (intro nth_seq_del_before) auto
  have after: "contents t' ! nat (mk_off m - len rs) = contents t ! nat (mk_off m)"
    if "off + len rs \<le> mk_off m" "mk_off m < len (contents t)"
  proof -
    have "nat (mk_off m - len rs) = nat (mk_off m) - length rs"
      by simp
    moreover have "nat off + length rs \<le> nat (mk_off m)" "nat (mk_off m) < length (contents t)"
      using that assms(2,5) by linarith+
    ultimately show ?thesis
      unfolding c by (simp only: nth_seq_del_after)
  qed
  show ?thesis
  proof (cases "rs = []")
    case True
    then show ?thesis
      using mark assms(2,5,6) sz len' c by (auto simp: txt_Len_def pdel_def)
  next
    case False
    then have "off + len rs \<le> len (contents t)"
      using rs assms(2) by linarith
    then show ?thesis
      using mark assms(2,5,6) sz len' before after False by (auto simp: txt_Len_def pdel_def)
  qed
qed

theorem txt_Del_moves_marks_witness:
  "\<exists>t' m'. txt_Del demo_text 1 3 = Ret (t', [98, 10, 99]) \<and> txt_Mark t' ''m'' = Some m' \<and> mk_off m' = 1"
proof -
  obtain t' where t': "txt_Del demo_text 1 3 = Ret (t', [98, 10, 99])"
    using txt_Del_spec [OF demo_text_inv(1), of 1 3]
    by (auto simp: demo_text_inv seq_cut_def numeral_3_eq_3)
  have m: "txt_Mark demo_text ''m'' = Some \<lparr>mk_name = ''m'', mk_off = 3, mk_equaltoo = False, mk_id = 0\<rparr>"
    by (simp add: txt_Mark_def demo_text_def empty_text_def)
  show ?thesis
    using txt_Del_moves_marks [OF demo_text_inv(1) _ _ m _ _ t'] t'
    by (auto simp: txt_Len_def demo_text_inv)
qed

text \<open>
  \<open>LineAt\<close> is one more than the newlines before the offset, and \<open>LineOff\<close> gives, for
  every line that ends in a newline, the offset right after the newline before it, which
  \<open>LineAt\<close> takes back to the line; for later lines it gives the end of the text.
\<close>

theorem txt_line_numbers:
  assumes "2 \<le> ln" and "0 \<le> off"
  shows "txt_LineAt t off = 1 + nls (take (nat off) (contents t)) \<and>
    (if ln \<le> nls (contents t)
     then 0 < txt_LineOff t ln \<and> txt_LineOff t ln \<le> len (contents t) \<and>
       contents t ! nat (txt_LineOff t ln - 1) = 10 \<and> txt_LineAt t (txt_LineOff t ln) = ln
     else txt_LineOff t ln = len (contents t))"
proof (cases "ln \<le> nls (contents t)")
  case True
  then obtain n where n: "after_nl (nat (ln - 1)) (contents t) = Some n"
    using after_nl_None [of "nat (ln - 1)" "contents t"] assms(1) by fastforce
  then have "txt_LineOff t ln = n"
    using txt_LineOff_spec [OF assms(1), of t] True by simp
  moreover have "0 < n \<and> n \<le> len (contents t) \<and> contents t ! nat (n - 1) = 10"
    using after_nl_Some [OF n] assms(1) by simp
  ultimately show ?thesis
    using True txt_LineAt_count [OF assms(2), of t] txt_LineAt_count [of n t]
      after_nl_last_line [OF n assms(1)] by simp
next
  case False
  then show ?thesis
    using txt_LineOff_spec [OF assms(1), of t] txt_LineAt_count [OF assms(2), of t] by simp
qed

theorem txt_line_numbers_witness:
  "txt_LineAt demo_text 4 = 2 \<and> txt_LineOff demo_text 2 = 5"
  using txt_line_numbers [of 2 4 demo_text] by (simp add: demo_text_inv)

text \<open>
  Two deletions that are merged into one edit are not undone: here the second starts
  where the first ended in the text before it, and \<open>Undo\<close> puts its runes back at the wrong
  place.
\<close>

definition letters :: text_state where
  "letters = (empty_text (Some []))\<lparr>tx_data := [[65, 66, 67, 68, 69, 70]], tx_sz := 6\<rparr>"

theorem merged_deletions_not_undone:
  "\<exists>t1 t2 t3 e.
     txt_Del letters 1 1 = Ret (t1, [66]) \<and> txt_Del t1 2 1 = Ret (t2, [68]) \<and>
     tx_nedits t2 = 1 \<and> txt_Undo t2 = Ret (t3, Some e) \<and> tx_nedits t3 = 0 \<and>
     contents letters = [65, 66, 67, 68, 69, 70] \<and> contents t3 = [65, 66, 68, 67, 69, 70]"
  by (simp add: letters_def empty_text_def contents_def txt_Del_def txt_del_def txt_addEdit_def
      txt_markEdit_def txt_markdel_def txt_markins_def map_marks_def txt_Undo_def txt_edit_def
      txt_ins_def Let_def numeral_2_eq_2)

text \<open>
  an offset below the text is not always read as 0: on a text whose cache is still
  invalid, reading at -1 returns the second rune and then 0 reads the third one.
\<close>

theorem txt_Getc_negative:
  "\<exists>t1 t2. txt_Getc letters (-1) = Ret (t1, 66) \<and> txt_Getc t1 0 = Ret (t2, 67) \<and>
     contents letters ! 0 = 65"
  by (simp add: letters_def empty_text_def contents_def txt_Getc_def index2_def block_len_def Let_def)

end
