(* ===== verification/Mblk.thy ===== *)
theory Mblk
  imports Prelude
begin

text \<open>
  The memory buffers of package \<open>mblk\<close> (src/mblk/mblk.go): a buffer is a list of blocks,
  each with data or a hole; descriptors keep a cached position.  \<open>Size\<close>, the block size, is
  a positive variable of the package, set before buffers are used: it is the first argument
  \<open>S\<close> of every definition that depends on it (with 0 the loops of the code do not end).  The mutex is not modelled: every exported
  operation holds it throughout, but for \<open>BufferFd.Write\<close>, \<open>SendTo\<close> and \<open>RecvFrom\<close>,
  which are modelled for a single process.

  A byte is a \<open>char\<close>, so that byte slices and strings have the same type.
\<close>

type_synonym byte = char

abbreviation zero_byte :: byte where
  "zero_byte \<equiv> CHR 0x00"

section \<open>Blocks\<close>

text \<open>
  A data slice is the pair of its visible bytes and of the spare ones up to its capacity,
  which a reslice makes visible.  \<open>None\<close> is the nil slice of a hole.
\<close>

record block =
  b_off :: int
  b_data :: "(byte list \<times> byte list) option"
  b_n :: int

type_synonym buffer = "block list"

record bufferfd =
  fd_rwoff :: int
  fd_rwi :: int
  fd_rwboff :: int

datatype mb_error = OffRange | EOF

definition block_bytes :: "block \<Rightarrow> byte list" where
  "block_bytes blk = (case b_data blk of None \<Rightarrow> replicate (nat (b_n blk)) zero_byte | Some (v, w) \<Rightarrow> v)"

text \<open>The contents: the bytes of the blocks in order, zeros for holes.\<close>

definition buf_seq :: "buffer \<Rightarrow> byte list" where
  "buf_seq b = concat (map block_bytes b)"

definition mb_len :: "buffer \<Rightarrow> int" where
  "mb_len b = (if b = [] then 0 else b_off (last b) + b_n (last b))"

definition mb_Len :: "buffer option \<Rightarrow> int" where
  "mb_Len b = (case b of None \<Rightarrow> 0 | Some bs \<Rightarrow> mb_len bs)"

text \<open>
  Copying \<open>src\<close> over \<open>dst\<close> from \<open>at\<close> on stops at the end of \<open>dst\<close>, as \<open>copy\<close> does.
\<close>

definition copy_at :: "'a list \<Rightarrow> nat \<Rightarrow> 'a list \<Rightarrow> 'a list" where
  "copy_at dst at src =
     take at dst @ take (length dst - at) src @ drop (at + length src) dst"

text \<open>\<open>Bytes\<close> copies each data block at its offset into a zeroed array of the buffer's length.\<close>

definition mb_Bytes :: "buffer \<Rightarrow> byte list" where
  "mb_Bytes b =
     (let bytes = replicate (nat (mb_len b)) zero_byte in
      if bytes = [] then bytes
      else fold (\<lambda>blk acc. case b_data blk of
                   None \<Rightarrow> acc | Some (v, w) \<Rightarrow> copy_at acc (nat (b_off blk)) v) b bytes)"

definition mb_String :: "buffer \<Rightarrow> string" where
  "mb_String b = mb_Bytes b"

section \<open>Finding a position\<close>

text \<open>\<open>sort.Search\<close>: binary search for the least index in \<open>[i, j)\<close> where \<open>f\<close> holds.\<close>

function sort_search :: "(nat \<Rightarrow> bool) \<Rightarrow> nat \<Rightarrow> nat \<Rightarrow> nat" where
  "sort_search f i j =
     (if i < j then (let h = (i + j) div 2 in
        if \<not> f h then sort_search f (h + 1) j else sort_search f i h)
      else i)"
  by pat_completeness auto
termination
  by (relation "measure (\<lambda>(f, i, j). j - i)") auto

declare sort_search.simps [simp del]

definition mb_seek :: "buffer \<Rightarrow> int \<Rightarrow> int \<times> int" where
  "mb_seek b pos =
     (if pos \<le> 0 then (0, 0)
      else if pos \<ge> mb_len b then (len b, 0)
      else (let i = sort_search (\<lambda>i. i \<ge> length b \<or> b_off (b ! i) + b_n (b ! i) > pos) 0 (nat pos) in
        if i \<ge> length b then (len b, 0) else (int i, pos - b_off (b ! i))))"

section \<open>Changing the length\<close>

text \<open>The holes that \<open>grow\<close> appends: \<open>nz\<close> bytes from \<open>off\<close> on, in blocks of \<open>S\<close> at most.\<close>

function mb_holes :: "int \<Rightarrow> int \<Rightarrow> int \<Rightarrow> block list" where
  "mb_holes S off nz =
     (if nz \<le> 0 \<or> S \<le> 0 then []
      else (let hsz = (if nz > S then S else nz) in
        \<lparr>b_off = off, b_data = None, b_n = hsz\<rparr> # mb_holes S (off + hsz) (nz - hsz)))"
  by pat_completeness auto
termination
  by (relation "measure (\<lambda>(S, off, nz). nat nz)") auto

declare mb_holes.simps [simp del]

text \<open>How much the last block takes of the \<open>nz\<close> bytes, and the block then.\<close>

definition mb_grow_last :: "int \<Rightarrow> block \<Rightarrow> int \<Rightarrow> block \<times> int" where
  "mb_grow_last S blk nz =
     (case b_data blk of
        None \<Rightarrow>
          if b_n blk < S then
            (let lz0 = S - b_n blk; lz = (if lz0 > nz then nz else lz0) in
             (blk\<lparr>b_n := b_n blk + lz\<rparr>, nz - lz))
          else (blk, nz)
      | Some (v, w) \<Rightarrow>
          (let left = len v + len w - b_n blk; lz = (if nz > left then left else nz) in
           if lz > 0 then
             (blk\<lparr>b_data := Some (v @ take (nat lz) w, drop (nat lz) w), b_n := b_n blk + lz\<rparr>, nz - lz)
           else (blk, nz)))"

definition mb_grow :: "int \<Rightarrow> buffer \<Rightarrow> int \<Rightarrow> buffer" where
  "mb_grow S b nz =
     (let (b1, nz1) =
        (if b \<noteq> [] then (let (l, nz') = mb_grow_last S (last b) nz in (butlast b @ [l], nz'))
         else (b, nz)) in
      b1 @ mb_holes S (mb_len b1) nz1)"

text \<open>Shrinking a block clears the bytes it hides, so that they read as zeros if it grows again.\<close>

definition mb_shrink_block :: "block \<Rightarrow> int \<Rightarrow> block" where
  "mb_shrink_block blk n =
     (case b_data blk of
        None \<Rightarrow> blk\<lparr>b_n := n\<rparr>
      | Some (v, w) \<Rightarrow>
          blk\<lparr>b_n := n,
              b_data := Some (take (nat n) v, replicate (length v - nat n) zero_byte @ w)\<rparr>)"

definition mb_truncate :: "int \<Rightarrow> buffer \<Rightarrow> int \<Rightarrow> buffer" where
  "mb_truncate S b n =
     (let sz = mb_len b in
      if n = sz then b
      else if n \<ge> sz then mb_grow S b (n - sz)
      else (let (nb, boff) = mb_seek b n in
        if boff = 0 then take (nat nb) b
        else take (nat nb) b @ [mb_shrink_block (b ! nat nb) (n - b_off (b ! nat nb))]))"

text \<open>On a nil buffer only the length 0 is in range.\<close>

definition mb_Truncate :: "int \<Rightarrow> buffer option \<Rightarrow> int \<Rightarrow> buffer option \<times> mb_error option" where
  "mb_Truncate S b n =
     (case b of
        None \<Rightarrow> (None, if n = 0 then None else Some OffRange)
      | Some bs \<Rightarrow> (Some (mb_truncate S bs n), None))"

definition mb_Reset :: "int \<Rightarrow> buffer option \<Rightarrow> buffer option" where
  "mb_Reset S b = fst (mb_Truncate S b 0)"

text \<open>\<open>Clear\<close> zeroes a byte slice, in runs of the size of a fixed array of zeros.\<close>

function mb_Clear :: "byte list \<Rightarrow> byte list" where
  "mb_Clear b =
     (if b = [] then []
      else replicate (min (length b) 4096) zero_byte @ mb_Clear (drop 4096 b))"
  by pat_completeness auto
termination
  by (relation "measure length") auto

declare mb_Clear.simps [simp del]

definition mb_bufsz :: "int \<Rightarrow> int \<Rightarrow> int" where
  "mb_bufsz S sz = (if sz \<le> S then S else sz)"

section \<open>Writing\<close>

text \<open>The blocks for the rest of the data of a \<open>write\<close>, \<open>S\<close> bytes each but for the last.\<close>

function mb_chunks :: "int \<Rightarrow> int \<Rightarrow> byte list \<Rightarrow> block list" where
  "mb_chunks S off p =
     (if p = [] \<or> S \<le> 0 then []
      else (let sz = min (nat S) (length p) in
        \<lparr>b_off = off, b_data = Some (take sz p, replicate (nat S - sz) zero_byte), b_n = int sz\<rparr>
          # mb_chunks S (off + int sz) (drop sz p)))"
  by pat_completeness auto
termination
  by (relation "measure (\<lambda>(S, off, p). length p)") (auto simp: Let_def)

declare mb_chunks.simps [simp del]

text \<open>How the last block takes the first bytes of the data, and what is left to write.\<close>

definition mb_fill_last :: "block \<Rightarrow> byte list \<Rightarrow> block \<times> byte list" where
  "mb_fill_last blk p =
     (case b_data blk of
        None \<Rightarrow> (blk, p)
      | Some (v, w) \<Rightarrow>
          (let left = (if length w > length p then length p else length w) in
           if left > 0 then
             (blk\<lparr>b_data := Some (v @ take left p, drop left w), b_n := b_n blk + int left\<rparr>, drop left p)
           else (blk, p)))"

definition mb_write :: "int \<Rightarrow> buffer \<Rightarrow> byte list \<Rightarrow> buffer" where
  "mb_write S b p =
     (if p = [] then b
      else (let (b1, p1) =
        (if b \<noteq> [] then (let (l, p') = mb_fill_last (last b) p in (butlast b @ [l], p')) else (b, p)) in
        b1 @ mb_chunks S (mb_len b1) p1))"

definition mb_Write :: "int \<Rightarrow> buffer \<Rightarrow> byte list \<Rightarrow> buffer \<times> int" where
  "mb_Write S b p = (mb_write S b p, len p)"

text \<open>A hole that is read or written gets a zeroed data slice of the block size.\<close>

definition mb_alloc :: "int \<Rightarrow> block \<Rightarrow> block go" where
  "mb_alloc S blk =
     (case b_data blk of
        Some d \<Rightarrow> Ret blk
      | None \<Rightarrow>
          if 0 \<le> b_n blk \<and> b_n blk \<le> S then
            Ret (blk\<lparr>b_data := Some (replicate (nat (b_n blk)) zero_byte,
                                     replicate (nat (S - b_n blk)) zero_byte)\<rparr>)
          else Panic)"

text \<open>The overwriting loop of \<open>WriteAt\<close>: the blocks from the one that holds the offset on.\<close>

fun mb_overwrite :: "int \<Rightarrow> int \<Rightarrow> int \<Rightarrow> byte list \<Rightarrow> block list \<Rightarrow> (block list \<times> byte list) go" where
  "mb_overwrite S nwr boff p [] = (if nwr > 0 then Panic else Ret ([], p))"
| "mb_overwrite S nwr boff p (blk # bs) =
     (if nwr > 0 then
        (let nbwr = (if nwr > b_n blk - boff then b_n blk - boff else nwr) in
         go_bind (mb_alloc S blk) (\<lambda>blk1.
           case b_data blk1 of
             None \<Rightarrow> Panic
           | Some (v, w) \<Rightarrow>
               if boff > len v \<or> nbwr < 0 then Panic
               else go_map (\<lambda>(bs', p'). (blk1\<lparr>b_data := Some (copy_at v (nat boff) (take (nat nbwr) p), w)\<rparr> # bs', p'))
                      (mb_overwrite S (nwr - nbwr) 0 (drop (nat nbwr) p) bs)))
      else Ret (blk # bs, p))"

definition mb_WriteAt :: "int \<Rightarrow> buffer \<Rightarrow> byte list \<Rightarrow> int \<Rightarrow> (buffer \<times> int) go" where
  "mb_WriteAt S b0 p woff =
     (let b = (if woff > mb_len b0 then mb_truncate S b0 woff else b0) in
      go_map (\<lambda>(b1, p1). (mb_write S b1 p1, len p))
        (if woff < mb_len b then
           (let nwr = (if mb_len b - woff > len p then len p else mb_len b - woff);
                (nb, boff) = mb_seek b woff in
            go_map (\<lambda>(bs, p'). (take (nat nb) b @ bs, p'))
              (mb_overwrite S nwr boff p (drop (nat nb) b)))
         else Ret (b, p)))"

section \<open>Descriptors\<close>

definition mb_Open :: "bufferfd" where
  "mb_Open = \<lparr>fd_rwoff = 0, fd_rwi = 0, fd_rwboff = 0\<rparr>"

definition fd_seek_to :: "buffer \<Rightarrow> int \<Rightarrow> bufferfd" where
  "fd_seek_to b off =
     (let (i, boff) = mb_seek b off in \<lparr>fd_rwoff = off, fd_rwi = i, fd_rwboff = boff\<rparr>)"

definition fd_Seek :: "buffer \<Rightarrow> bufferfd \<Rightarrow> int \<Rightarrow> int \<Rightarrow> bufferfd \<times> int" where
  "fd_Seek b fd off whence =
     (let o1 = (if whence = 0 then off
                else if whence = 1 then fd_rwoff fd + off
                else if whence = 2 then mb_len b + off
                else fd_rwoff fd);
          o2 = (if o1 < 0 then 0 else o1) in
      (fd_seek_to b o2, o2))"

definition fd_Write :: "int \<Rightarrow> buffer \<Rightarrow> bufferfd \<Rightarrow> byte list \<Rightarrow> (buffer \<times> bufferfd \<times> int) go" where
  "fd_Write S b fd p =
     (let off = fd_rwoff fd; rwoff = off + len p in
      go_map (\<lambda>(b', nw). (b', fd_seek_to b' rwoff, nw)) (mb_WriteAt S b p off))"

text \<open>
  The loop of \<open>read\<close>, over the blocks from the descriptor's on: the bytes copied, the blocks
  (a hole that is read becomes data), how many blocks were passed, the offset in the next
  block, and whether the last block was passed.
\<close>

fun fd_read_loop :: "int \<Rightarrow> int \<Rightarrow> int \<Rightarrow> block list \<Rightarrow> (byte list \<times> block list \<times> int \<times> int \<times> bool) go" where
  "fd_read_loop S want boff [] = Ret ([], [], 0, boff, False)"
| "fd_read_loop S want boff (blk # bs) =
     (if want \<le> 0 then Ret ([], blk # bs, 0, boff, False)
      else (let nr = (if want > b_n blk - boff then b_n blk - boff else want) in
        go_bind (mb_alloc S blk) (\<lambda>blk1.
          case b_data blk1 of
            None \<Rightarrow> Panic
          | Some (v, w) \<Rightarrow>
              if boff < 0 \<or> nr < 0 \<or> boff + nr > len v + len w then Panic
              else (let d = take (nat nr) (drop (nat boff) (v @ w)) in
                if boff + nr \<ge> b_n blk then
                  go_map (\<lambda>(d', bs', k, boff', eof). (d @ d', blk1 # bs', k + 1, boff', eof \<or> bs = []))
                    (fd_read_loop S (want - nr) 0 bs)
                else Ret (d, blk1 # bs, 0, boff + nr, False)))))"

text \<open>The result: the buffer and descriptor after, the bytes read and the error.\<close>

definition fd_read ::
  "int \<Rightarrow> buffer \<Rightarrow> bufferfd \<Rightarrow> int \<Rightarrow> (buffer \<times> bufferfd \<times> byte list \<times> mb_error option) go" where
  "fd_read S b fd want =
     (if mb_len b = 0 then Ret (b, fd, [], Some EOF)
      else if fd_rwoff fd \<ge> mb_len b then Ret (b, fd, [], Some EOF)
      else if fd_rwi fd \<ge> len b then Ret (b, fd, [], Some EOF)
      else if fd_rwi fd < 0 then Panic
      else go_map (\<lambda>(d, bs, k, boff, eof).
             (take (nat (fd_rwi fd)) b @ bs,
              \<lparr>fd_rwoff = fd_rwoff fd + len d, fd_rwi = fd_rwi fd + k, fd_rwboff = boff\<rparr>,
              d, if d = [] \<or> eof then Some EOF else None))
           (fd_read_loop S want (fd_rwboff fd) (drop (nat (fd_rwi fd)) b)))"

definition fd_ReadAt ::
  "int \<Rightarrow> buffer \<Rightarrow> bufferfd \<Rightarrow> int \<Rightarrow> int \<Rightarrow> (buffer \<times> bufferfd \<times> byte list \<times> mb_error option) go" where
  "fd_ReadAt S b fd want off =
     (if off \<ge> mb_len b then Ret (b, fd, [], Some EOF)
      else if fd_rwoff fd = off then fd_read S b fd want
      else (let fd1 = fd_seek_to b off in
        if fd_rwi fd1 \<ge> len b then Ret (b, fd1, [], Some EOF) else fd_read S b fd1 want))"

definition mb_ReadAt ::
  "int \<Rightarrow> buffer \<Rightarrow> int \<Rightarrow> int \<Rightarrow> (buffer \<times> byte list \<times> mb_error option) go" where
  "mb_ReadAt S b want off = go_map (\<lambda>(b', fd, d, e). (b', d, e)) (fd_ReadAt S b mb_Open want off)"

section \<open>Streams\<close>

text \<open>
  \<open>WriteTo\<close> hands the blocks to a writer; \<open>wr k d\<close> is what the writer's \<open>k\<close>-th call
  returns for the data \<open>d\<close>: how many bytes it took and whether it failed.  The result
  holds the blocks (holes become data), the total and whether a write failed.
\<close>

fun mb_WriteTo_loop ::
  "int \<Rightarrow> (nat \<Rightarrow> byte list \<Rightarrow> int \<times> bool) \<Rightarrow> nat \<Rightarrow> block list \<Rightarrow> (block list \<times> int \<times> bool) go" where
  "mb_WriteTo_loop S wr k [] = Ret ([], 0, False)"
| "mb_WriteTo_loop S wr k (blk # bs) =
     go_bind (mb_alloc S blk) (\<lambda>blk1.
       let (nw, failed) = wr k (block_bytes blk1) in
       if failed then Ret (blk1 # bs, nw, True)
       else go_map (\<lambda>(bs', tot, err). (blk1 # bs', nw + tot, err)) (mb_WriteTo_loop S wr (k + 1) bs))"

definition mb_WriteTo ::
  "int \<Rightarrow> buffer \<Rightarrow> (nat \<Rightarrow> byte list \<Rightarrow> int \<times> bool) \<Rightarrow> (buffer \<times> int \<times> bool) go" where
  "mb_WriteTo S b wr = mb_WriteTo_loop S wr 0 b"

text \<open>
  \<open>SendTo\<close> sends the bytes from an offset on, in messages of at most \<open>S\<close> bytes; \<open>takes k\<close>
  tells whether the receiver takes the \<open>k\<close>-th message or has closed the channel.  The
  result holds the buffer, the bytes and messages counted, the messages received and whether
  the channel was closed.  Each round but the last reads at least a byte, so as many rounds
  as the buffer has bytes, and one more, are enough (\<open>send_fuel_enough\<close>).
\<close>

fun mb_send_loop ::
  "nat \<Rightarrow> int \<Rightarrow> int \<Rightarrow> (nat \<Rightarrow> bool) \<Rightarrow> buffer \<Rightarrow> bufferfd \<Rightarrow> int \<Rightarrow> nat \<Rightarrow>
     (buffer \<times> int \<times> nat \<times> byte list list \<times> bool) go option" where
  "mb_send_loop 0 S count takes b fd tot nm = None"
| "mb_send_loop (Suc fuel) S count takes b fd tot nm =
     (if \<not> (count < 0 \<or> tot < count) then Some (Ret (b, tot, nm, [], False))
      else (let sz = (if count > 0 \<and> count - tot < S then count - tot else S) in
        case fd_read S b fd sz of
          Panic \<Rightarrow> Some Panic
        | Ret (b', fd', d, err) \<Rightarrow>
            if d = [] then Some (Ret (b', tot, nm, [], False))
            else if \<not> takes nm then Some (Ret (b', tot + len d, nm, [], True))
            else map_option (go_map (\<lambda>(b2, tot2, nm2, ms, closed). (b2, tot2, nm2, d # ms, closed)))
                   (mb_send_loop fuel S count takes b' fd' (tot + len d) (nm + 1))))"

definition mb_SendTo ::
  "int \<Rightarrow> buffer option \<Rightarrow> int \<Rightarrow> int \<Rightarrow> (nat \<Rightarrow> bool) \<Rightarrow>
     (buffer option \<times> int \<times> nat \<times> byte list list \<times> bool) go option" where
  "mb_SendTo S bo off count takes =
     (case bo of
        None \<Rightarrow> Some (Ret (None, 0, 0, [], False))
      | Some b \<Rightarrow>
          if count = 0 \<or> off \<ge> mb_len b then Some (Ret (Some b, 0, 0, [], False))
          else map_option (go_map (\<lambda>(b', r). (Some b', r)))
                 (mb_send_loop (Suc (length (buf_seq b))) S count takes b
                   (fst (fd_Seek b mb_Open off 0)) 0 0))"

text \<open>\<open>RecvFrom\<close> writes the messages of a channel one after the other; \<open>off < 0\<close> appends.\<close>

fun mb_recv_loop ::
  "int \<Rightarrow> buffer \<Rightarrow> bufferfd \<Rightarrow> byte list list \<Rightarrow> (buffer \<times> int \<times> nat) go" where
  "mb_recv_loop S b fd [] = Ret (b, 0, 0)"
| "mb_recv_loop S b fd (d # ds) =
     go_bind (fd_Write S b fd d) (\<lambda>(b', fd', nw).
       go_map (\<lambda>(b2, tot, nm). (b2, nw + tot, nm + 1)) (mb_recv_loop S b' fd' ds))"

definition mb_RecvFrom ::
  "int \<Rightarrow> buffer \<Rightarrow> int \<Rightarrow> byte list list \<Rightarrow> (buffer \<times> int \<times> nat) go" where
  "mb_RecvFrom S b off ds =
     mb_recv_loop S b (fst (if off < 0 then fd_Seek b mb_Open 0 2 else fd_Seek b mb_Open off 0)) ds"

end
