(* ===== verification/MblkProps.thy ===== *)
theory MblkProps
  imports Mblk
begin

text \<open>
  The buffers of package \<open>mblk\<close> against flat byte sequences: the block invariant, what each
  operation does to \<open>buf_seq\<close>, descriptors, and the transfer of a buffer over a channel.
\<close>

section \<open>The block invariant\<close>

text \<open>
  A data slice has the capacity of a block and its spare bytes are zeros, so that growing a
  block reads as zeros; blocks are contiguous from the offset of the first.
\<close>

definition wf_block :: "int \<Rightarrow> block \<Rightarrow> bool" where
  "wf_block S blk \<longleftrightarrow> 0 < b_n blk \<and> b_n blk \<le> S \<and>
     (\<forall>v w. b_data blk = Some (v, w) \<longrightarrow>
        len v = b_n blk \<and> w = replicate (nat (S - b_n blk)) zero_byte)"

lemma wf_block_code [code]:
  "wf_block S blk \<longleftrightarrow> 0 < b_n blk \<and> b_n blk \<le> S \<and>
     (case b_data blk of None \<Rightarrow> True
      | Some (v, w) \<Rightarrow> len v = b_n blk \<and> w = replicate (nat (S - b_n blk)) zero_byte)"
  by (auto simp: wf_block_def split: option.splits)

fun wf_blks :: "int \<Rightarrow> int \<Rightarrow> block list \<Rightarrow> bool" where
  "wf_blks S off [] = True"
| "wf_blks S off (blk # bs) \<longleftrightarrow> b_off blk = off \<and> wf_block S blk \<and> wf_blks S (off + b_n blk) bs"

abbreviation wf_buf :: "int \<Rightarrow> buffer \<Rightarrow> bool" where
  "wf_buf S b \<equiv> wf_blks S 0 b"

lemma buf_seq_simps [simp]:
  "buf_seq [] = []"
  "buf_seq (blk # bs) = block_bytes blk @ buf_seq bs"
  "buf_seq (xs @ ys) = buf_seq xs @ buf_seq ys"
  by (simp_all add: buf_seq_def)

lemma wf_block_len: "wf_block S blk \<Longrightarrow> len (block_bytes blk) = b_n blk"
  by (auto simp: wf_block_def block_bytes_def split: option.splits)

lemma wf_block_length: "wf_block S blk \<Longrightarrow> length (block_bytes blk) = nat (b_n blk)"
  using wf_block_len by fastforce

lemma wf_block_pos: "wf_block S blk \<Longrightarrow> 0 < b_n blk \<and> b_n blk \<le> S"
  by (simp add: wf_block_def)

lemma wf_blks_append:
  "wf_blks S off (xs @ ys) \<longleftrightarrow> wf_blks S off xs \<and> wf_blks S (off + len (buf_seq xs)) ys"
proof (induction xs arbitrary: off)
  case (Cons blk bs)
  show ?case
    using Cons.IH[of "off + b_n blk"] wf_block_len[of S blk] by (auto simp: add.assoc)
qed simp

lemma wf_blks_last:
  "wf_blks S off b \<Longrightarrow> b \<noteq> [] \<Longrightarrow> b_off (last b) + b_n (last b) = off + len (buf_seq b)"
  by (induction b arbitrary: off) (auto simp: wf_block_len)

lemma mb_len_seq [simp]: "wf_buf S b \<Longrightarrow> mb_len b = len (buf_seq b)"
  using wf_blks_last[of S 0 b] by (auto simp: mb_len_def)

lemma wf_blks_empty: "wf_blks S off b \<Longrightarrow> buf_seq b = [] \<longleftrightarrow> b = []"
proof (cases b)
  case (Cons blk bs)
  then show "wf_blks S off b \<Longrightarrow> ?thesis"
    using wf_block_len[of S blk] wf_block_pos[of S blk] by auto
qed simp

lemma wf_buf_pieces:
  assumes "wf_buf S b" and "i < length b"
  shows "wf_blks S 0 (take i b)" and "wf_block S (b ! i)"
    and "b_off (b ! i) = len (buf_seq (take i b))"
    and "wf_blks S (len (buf_seq (take (Suc i) b))) (drop (Suc i) b)"
    and "buf_seq b = buf_seq (take i b) @ block_bytes (b ! i) @ buf_seq (drop (Suc i) b)"
    and "buf_seq (take (Suc i) b) = buf_seq (take i b) @ block_bytes (b ! i)"
proof -
  have b: "b = take i b @ b ! i # drop (Suc i) b"
    using assms(2) by (simp add: id_take_nth_drop)
  have w: "wf_blks S 0 (take i b @ b ! i # drop (Suc i) b)"
    using assms(1) b by metis
  have t: "take (Suc i) b = take i b @ [b ! i]"
    using assms(2) by (rule take_Suc_conv_app_nth)
  from w show "wf_blks S 0 (take i b)" and p: "wf_block S (b ! i)"
    and "b_off (b ! i) = len (buf_seq (take i b))"
    unfolding wf_blks_append by simp_all
  show "wf_blks S (len (buf_seq (take (Suc i) b))) (drop (Suc i) b)"
    using w wf_block_len[OF p] unfolding wf_blks_append by (simp add: t)
  show "buf_seq b = buf_seq (take i b) @ block_bytes (b ! i) @ buf_seq (drop (Suc i) b)"
    by (subst b, simp only: buf_seq_simps)
  show "buf_seq (take (Suc i) b) = buf_seq (take i b) @ block_bytes (b ! i)"
    by (simp add: t)
qed

section \<open>Finding a position\<close>

text \<open>Binary search finds the first index where a monotone predicate holds.\<close>

lemma sort_search_least:
  assumes "i \<le> j" and "\<forall>a b. a \<le> b \<longrightarrow> f a \<longrightarrow> f b" and "\<forall>a<i. \<not> f a" and "f j"
  shows "f (sort_search f i j) \<and> (\<forall>a<sort_search f i j. \<not> f a)"
  using assms
proof (induction f i j rule: sort_search.induct)
  case (1 f i j)
  show ?case
  proof (cases "i < j")
    case False
    then have "i = j" using "1.prems"(1) by simp
    moreover have "sort_search f i j = i"
      using False by (subst sort_search.simps) simp
    ultimately show ?thesis using "1.prems"(3,4) by metis
  next
    case True
    let ?h = "(i + j) div 2"
    have h: "i \<le> ?h" "?h < j" using True by auto
    show ?thesis
    proof (cases "f ?h")
      case True
      have "sort_search f i j = sort_search f i ?h"
        using \<open>i < j\<close> True by (subst sort_search.simps) (simp add: Let_def)
      then show ?thesis
        using 1(2)[OF \<open>i < j\<close> refl] True h "1.prems" by simp
    next
      case False
      have lt: "\<forall>a<?h + 1. \<not> f a"
      proof (intro allI impI notI)
        fix a assume "a < ?h + 1" "f a"
        then have "a \<le> ?h" by simp
        then show False using False "1.prems"(2) \<open>f a\<close> by blast
      qed
      have "sort_search f i j = sort_search f (?h + 1) j"
        using \<open>i < j\<close> False by (subst sort_search.simps) (simp add: Let_def)
      then show ?thesis
        using 1(1)[OF \<open>i < j\<close> refl] False h "1.prems" lt by simp
    qed
  qed
qed

lemma wf_buf_take_len:
  assumes "wf_buf S b" and "i < length b"
  shows "len (buf_seq (take (Suc i) b)) = b_off (b ! i) + b_n (b ! i)"
  using wf_buf_pieces[OF assms] by (simp add: wf_block_len)

lemma buf_seq_take_mono: "i \<le> j \<Longrightarrow> length (buf_seq (take i b)) \<le> length (buf_seq (take j b))"
  by (metis append_take_drop_id buf_seq_simps(3) le_add1 length_append min.absorb1 take_take)

text \<open>Every block has a byte: so many blocks hold at least as many bytes.\<close>

lemma wf_blks_length: "wf_blks S off b \<Longrightarrow> length b \<le> length (buf_seq b)"
proof (induction b arbitrary: off)
  case (Cons blk bs)
  then show ?case
    using wf_block_len[of S blk] wf_block_pos[of S blk] by fastforce
qed simp

lemma mb_seek_inside:
  assumes wf: "wf_buf S b" and pos: "0 \<le> pos" "pos < len (buf_seq b)"
  obtains i where "i < length b" "mb_seek b pos = (int i, pos - b_off (b ! i))"
    "b_off (b ! i) \<le> pos" "pos < b_off (b ! i) + b_n (b ! i)"
proof (cases "pos = 0")
  case True
  have "b \<noteq> []" using pos by auto
  then obtain blk bs where b: "b = blk # bs" by (cases b) auto
  show thesis
    using that[of 0] True wf b by (auto simp: mb_seek_def dest: wf_block_pos)
next
  case False
  let ?f = "\<lambda>i. i \<ge> length b \<or> b_off (b ! i) + b_n (b ! i) > pos"
  have end_eq: "b_off (b ! i) + b_n (b ! i) = len (buf_seq (take (Suc i) b))" if "i < length b" for i
    using wf_buf_take_len[OF wf that] by simp
  have mono: "\<forall>x y. x \<le> y \<longrightarrow> ?f x \<longrightarrow> ?f y"
  proof (intro allI impI)
    fix x y assume "x \<le> y" "?f x"
    show "?f y"
    proof (cases "y < length b")
      case True
      then have "x < length b" using \<open>x \<le> y\<close> by simp
      then show ?thesis
        using \<open>?f x\<close> True end_eq[of x] end_eq[of y] buf_seq_take_mono[of "Suc x" "Suc y" b] \<open>x \<le> y\<close> by auto
    qed simp
  qed
  have "?f (nat pos)"
  proof (cases "nat pos < length b")
    case True
    have "wf_blks S 0 (take (Suc (nat pos)) b)"
      using wf by (metis append_take_drop_id wf_blks_append)
    then have "length (take (Suc (nat pos)) b) \<le> length (buf_seq (take (Suc (nat pos)) b))"
      by (rule wf_blks_length)
    then show ?thesis using True end_eq[OF True] pos by auto
  qed simp
  then have least: "?f (sort_search ?f 0 (nat pos)) \<and> (\<forall>a<sort_search ?f 0 (nat pos). \<not> ?f a)"
    by (intro sort_search_least mono) simp_all
  define i where "i = sort_search ?f 0 (nat pos)"
  have fi: "?f i" and lt: "\<And>a. a < i \<Longrightarrow> \<not> ?f a"
    using least unfolding i_def by blast+
  have il: "i < length b"
  proof (rule ccontr)
    assume "\<not> i < length b"
    moreover have ne: "length b > 0" using pos by auto
    ultimately have "length b - 1 < i" by linarith
    then have "\<not> ?f (length b - 1)" by (rule lt)
    then show False using ne end_eq[of "length b - 1"] pos by simp
  qed
  have lo: "b_off (b ! i) \<le> pos"
  proof (cases i)
    case 0
    then show ?thesis using wf_buf_pieces(3)[OF wf il] pos by simp
  next
    case (Suc j)
    then have "\<not> ?f j" using lt[of j] by simp
    then have "b_off (b ! j) + b_n (b ! j) \<le> pos" by simp
    moreover have "b_off (b ! j) + b_n (b ! j) = len (buf_seq (take i b))"
      using end_eq[of j] il unfolding Suc by simp
    moreover have "b_off (b ! i) = len (buf_seq (take i b))"
      using wf_buf_pieces(3)[OF wf il] .
    ultimately show ?thesis by (simp only:)
  qed
  have "mb_seek b pos = (int i, pos - b_off (b ! i))"
    using False pos il mb_len_seq[OF wf] by (simp add: mb_seek_def i_def[symmetric] Let_def)
  then show thesis
    using that[OF il _ lo] fi il by simp
qed

lemma mb_seek_end:
  "wf_buf S b \<Longrightarrow> pos \<ge> len (buf_seq b) \<Longrightarrow> mb_seek b pos = (len b, 0)"
proof (cases "pos \<le> 0")
  case True
  assume "wf_buf S b" "pos \<ge> len (buf_seq b)"
  then have "b = []" using True wf_blks_empty[of S 0 b] by (metis length_0_conv of_nat_le_0_iff order_trans)
  then show ?thesis using True by (simp add: mb_seek_def)
qed (simp add: mb_seek_def)


section \<open>Growing and writing\<close>

lemma mb_holes_ok:
  "0 < S \<Longrightarrow> wf_blks S off (mb_holes S off nz) \<and>
    buf_seq (mb_holes S off nz) = replicate (nat nz) zero_byte"
proof (induction S off nz rule: mb_holes.induct)
  case (1 S off nz)
  show ?case
  proof (cases "nz \<le> 0")
    case True
    then show ?thesis by (simp add: mb_holes.simps)
  next
    case False
    define h where "h = (if nz > S then S else nz)"
    have h: "0 < h" "h \<le> S" "h \<le> nz" using False \<open>0 < S\<close> by (auto simp: h_def)
    have eq: "mb_holes S off nz = \<lparr>b_off = off, b_data = None, b_n = h\<rparr> # mb_holes S (off + h) (nz - h)"
      using False \<open>0 < S\<close> by (subst mb_holes.simps) (simp add: h_def Let_def)
    have "nat nz = nat h + nat (nz - h)" using h by simp
    then have "replicate (nat nz) zero_byte = replicate (nat h) zero_byte @ replicate (nat (nz - h)) zero_byte"
      by (simp only: replicate_add)
    then show ?thesis
      using 1(1)[OF _ h_def \<open>0 < S\<close>] False \<open>0 < S\<close> h
      by (simp add: eq wf_block_def block_bytes_def)
  qed
qed

lemma mb_chunks_ok:
  "0 < S \<Longrightarrow> wf_blks S off (mb_chunks S off p) \<and> buf_seq (mb_chunks S off p) = p"
proof (induction S off p rule: mb_chunks.induct)
  case (1 S off p)
  show ?case
  proof (cases "p = []")
    case True
    then show ?thesis by (simp add: mb_chunks.simps)
  next
    case False
    define h where "h = min (nat S) (length p)"
    have h: "0 < h" "int h \<le> S" "h \<le> length p" using False \<open>0 < S\<close> by (auto simp: h_def)
    have eq: "mb_chunks S off p = \<lparr>b_off = off, b_data = Some (take h p, replicate (nat S - h) zero_byte), b_n = int h\<rparr>
        # mb_chunks S (off + int h) (drop h p)"
      using False \<open>0 < S\<close> by (subst mb_chunks.simps) (simp add: h_def Let_def)
    have "wf_block S \<lparr>b_off = off, b_data = Some (take h p, replicate (nat S - h) zero_byte), b_n = int h\<rparr>"
      using h by (auto simp: wf_block_def nat_diff_distrib)
    then show ?thesis
      using 1(1)[OF _ h_def \<open>0 < S\<close>] False \<open>0 < S\<close>
      by (simp add: eq block_bytes_def)
  qed
qed

lemma mb_grow_last_ok:
  assumes "wf_block S blk" and "0 \<le> nz" and "mb_grow_last S blk nz = (l, nz')"
  shows "wf_block S l \<and> b_off l = b_off blk \<and> 0 \<le> nz' \<and> nz' \<le> nz \<and>
    block_bytes l = block_bytes blk @ replicate (nat (nz - nz')) zero_byte"
proof (cases "b_data blk")
  case None
  show ?thesis
  proof (cases "b_n blk < S")
    case True
    then have l: "l = blk\<lparr>b_n := b_n blk + (nz - nz')\<rparr>" and z: "nz - nz' = (if S - b_n blk > nz then nz else S - b_n blk)"
      using assms(3) None by (auto simp: mb_grow_last_def Let_def)
    have pos: "0 \<le> nz - nz'" "0 < b_n blk" using z True assms by (auto simp: wf_block_def)
    then have "nat (b_n blk + (nz - nz')) = nat (b_n blk) + nat (nz - nz')" by simp
    then have "block_bytes l = block_bytes blk @ replicate (nat (nz - nz')) zero_byte"
      using None by (simp add: l block_bytes_def replicate_add)
    then show ?thesis
      using assms None pos z by (auto simp: l wf_block_def split: if_splits)
  next
    case False
    then show ?thesis using assms None by (auto simp: mb_grow_last_def)
  qed
next
  case (Some d)
  obtain v w where d: "d = (v, w)" by force
  have wf: "len v = b_n blk" "w = replicate (nat (S - b_n blk)) zero_byte" "0 < b_n blk" "b_n blk \<le> S"
    using assms(1) Some d by (auto simp: wf_block_def)
  define lz where "lz = (if nz > S - b_n blk then S - b_n blk else nz)"
  have cap: "len v + len w - b_n blk = S - b_n blk" using wf by simp
  show ?thesis
  proof (cases "lz > 0")
    case True
    have l: "l = blk\<lparr>b_data := Some (v @ take (nat lz) w, drop (nat lz) w), b_n := b_n blk + lz\<rparr>"
      and z: "nz' = nz - lz"
      using assms(3) Some d True cap by (auto simp: mb_grow_last_def Let_def lz_def)
    have le: "lz \<le> S - b_n blk" "lz \<le> nz" by (auto simp: lz_def)
    have t: "take (nat lz) w = replicate (nat lz) zero_byte"
      and dr: "drop (nat lz) w = replicate (nat (S - (b_n blk + lz))) zero_byte"
      using wf le True by (auto simp: min_def nat_diff_distrib' diff_diff_eq intro!: arg_cong[where f = "\<lambda>n. replicate n zero_byte"])
    show ?thesis
      using wf le True t dr Some d by (simp add: l z wf_block_def block_bytes_def)
  next
    case False
    then have "l = blk" "nz' = nz" using assms(3) Some d cap by (auto simp: mb_grow_last_def Let_def lz_def)
    then show ?thesis using assms by simp
  qed
qed

lemma mb_fill_last_ok:
  assumes "wf_block S blk" and "mb_fill_last blk p = (l, p')"
  shows "wf_block S l \<and> b_off l = b_off blk \<and> block_bytes l @ p' = block_bytes blk @ p"
proof (cases "b_data blk")
  case None
  then show ?thesis using assms by (auto simp: mb_fill_last_def)
next
  case (Some d)
  obtain v w where d: "d = (v, w)" by force
  define k where "k = min (length w) (length p)"
  have k: "k = (if length w > length p then length p else length w)" by (auto simp: k_def)
  have wf: "len v = b_n blk" "w = replicate (nat (S - b_n blk)) zero_byte" "0 < b_n blk" "b_n blk \<le> S"
    using assms(1) Some d by (auto simp: wf_block_def)
  show ?thesis
  proof (cases "k > 0")
    case True
    have l: "l = blk\<lparr>b_data := Some (v @ take k p, drop k w), b_n := b_n blk + int k\<rparr>" and p': "p' = drop k p"
      using assms(2) Some d True by (auto simp: mb_fill_last_def Let_def k[symmetric])
    have kl: "k \<le> length w" "k \<le> length p" by (simp_all add: k_def)
    have "drop k w = replicate (nat (S - (b_n blk + int k))) zero_byte"
    proof -
      have "nat (S - b_n blk) - k = nat (S - (b_n blk + int k))" by simp
      then show ?thesis using wf(2) by (simp del: nat_minus_as_int)
    qed
    then show ?thesis
      using wf kl Some d by (simp add: l p' wf_block_def block_bytes_def)
  next
    case False
    then have "l = blk" "p' = p" using assms(2) Some d by (auto simp: mb_fill_last_def Let_def k[symmetric])
    then show ?thesis using assms by simp
  qed
qed

lemma wf_buf_extend:
  "wf_buf S xs \<Longrightarrow> wf_blks S (len (buf_seq xs)) ys \<Longrightarrow> wf_buf S (xs @ ys)"
  by (simp add: wf_blks_append)

lemma wf_buf_last:
  assumes "wf_buf S b" and "b \<noteq> []"
  shows "wf_buf S (butlast b)" and "wf_block S (last b)" and "b_off (last b) = len (buf_seq (butlast b))"
    and "buf_seq b = buf_seq (butlast b) @ block_bytes (last b)"
proof -
  have "wf_buf S (butlast b @ [last b])" using assms by simp
  then show "wf_buf S (butlast b)" and "wf_block S (last b)" and "b_off (last b) = len (buf_seq (butlast b))"
    unfolding wf_blks_append by simp_all
  have "buf_seq (butlast b @ [last b]) = buf_seq (butlast b) @ block_bytes (last b)" by simp
  then show "buf_seq b = buf_seq (butlast b) @ block_bytes (last b)" using assms(2) by simp
qed

lemma mb_grow_ok:
  assumes "wf_buf S b" and "0 < S" and "0 \<le> nz"
  shows "wf_buf S (mb_grow S b nz) \<and> buf_seq (mb_grow S b nz) = buf_seq b @ replicate (nat nz) zero_byte"
proof (cases "b = []")
  case True
  then show ?thesis using mb_holes_ok[OF assms(2)] by (simp add: mb_grow_def mb_len_def)
next
  case False
  obtain l nz' where g: "mb_grow_last S (last b) nz = (l, nz')" by force
  note w = wf_buf_last[OF assms(1) False]
  note l = mb_grow_last_ok[OF w(2) assms(3) g]
  have wl: "wf_buf S (butlast b @ [l])"
    using w l by (simp add: wf_blks_append)
  have sq: "buf_seq (butlast b @ [l]) = buf_seq b @ replicate (nat (nz - nz')) zero_byte"
    using w(4) l by simp
  have "nat nz = nat (nz - nz') + nat nz'" using l by linarith
  then have "replicate (nat nz) zero_byte = replicate (nat (nz - nz')) zero_byte @ replicate (nat nz') zero_byte"
    by (simp only: replicate_add)
  moreover have "mb_grow S b nz = (butlast b @ [l]) @ mb_holes S (len (buf_seq (butlast b @ [l]))) nz'"
    using False mb_len_seq[OF wl] by (simp add: mb_grow_def g)
  moreover note wf_buf_extend[OF wl conjunct1[OF mb_holes_ok[OF assms(2)]]]
  ultimately show ?thesis
    using sq mb_holes_ok[OF assms(2)] by (simp del: append_assoc buf_seq_simps(2) add: buf_seq_simps(3))
qed

lemma mb_write_ok:
  assumes "wf_buf S b" and "0 < S"
  shows "wf_buf S (mb_write S b p) \<and> buf_seq (mb_write S b p) = buf_seq b @ p"
proof (cases "b = [] \<or> p = []")
  case True
  then show ?thesis using assms mb_chunks_ok[OF assms(2)] by (auto simp: mb_write_def mb_len_def)
next
  case False
  then have ne: "b \<noteq> []" by simp
  obtain l p' where g: "mb_fill_last (last b) p = (l, p')" by force
  note w = wf_buf_last[OF assms(1) ne]
  note l = mb_fill_last_ok[OF w(2) g]
  have wl: "wf_buf S (butlast b @ [l])"
    using w l by (simp add: wf_blks_append)
  have "mb_write S b p = (butlast b @ [l]) @ mb_chunks S (len (buf_seq (butlast b @ [l]))) p'"
    using False mb_len_seq[OF wl] by (simp add: mb_write_def g)
  moreover have "buf_seq (butlast b @ [l]) @ p' = buf_seq b @ p"
    using w(4) l by simp
  moreover note wf_buf_extend[OF wl conjunct1[OF mb_chunks_ok[OF assms(2)]]]
  ultimately show ?thesis
    using mb_chunks_ok[OF assms(2)] by (simp del: append_assoc buf_seq_simps(2) add: buf_seq_simps(3))
qed

lemma mb_shrink_ok:
  assumes "wf_block S blk" and "0 < n" and "n < b_n blk"
  shows "wf_block S (mb_shrink_block blk n) \<and> b_off (mb_shrink_block blk n) = b_off blk \<and>
    block_bytes (mb_shrink_block blk n) = take (nat n) (block_bytes blk)"
proof (cases "b_data blk")
  case None
  then show ?thesis using assms by (auto simp: mb_shrink_block_def wf_block_def block_bytes_def min_def)
next
  case (Some d)
  obtain v w where d: "d = (v, w)" by force
  have wf: "len v = b_n blk" "w = replicate (nat (S - b_n blk)) zero_byte" "b_n blk \<le> S"
    using assms(1) Some d by (auto simp: wf_block_def)
  have "length v - nat n + nat (S - b_n blk) = nat (S - n)" using wf assms by simp
  then have "replicate (length v - nat n) zero_byte @ w = replicate (nat (S - n)) zero_byte"
    using wf(2) by (simp add: replicate_add[symmetric])
  then show ?thesis
    using Some d wf assms by (simp add: mb_shrink_block_def wf_block_def block_bytes_def)
qed

definition resized :: "nat \<Rightarrow> byte list \<Rightarrow> byte list" where
  "resized n xs = take n xs @ replicate (n - length xs) zero_byte"

lemma mb_truncate_ok:
  assumes wf: "wf_buf S b" and S: "0 < S" and n: "0 \<le> n"
  shows "wf_buf S (mb_truncate S b n) \<and> buf_seq (mb_truncate S b n) = resized (nat n) (buf_seq b)"
proof (cases "n \<ge> len (buf_seq b)")
  case True
  then have "nat n - length (buf_seq b) = nat (n - len (buf_seq b))" "length (buf_seq b) \<le> nat n" by simp_all
  then show ?thesis
    using True mb_grow_ok[OF wf S, of "n - len (buf_seq b)"] wf
    by (auto simp: mb_truncate_def resized_def Let_def)
next
  case False
  then have lt: "n < len (buf_seq b)" by simp
  obtain i where i: "i < length b" "mb_seek b n = (int i, n - b_off (b ! i))"
    "b_off (b ! i) \<le> n" "n < b_off (b ! i) + b_n (b ! i)"
    using mb_seek_inside[OF wf n lt] .
  note w = wf_buf_pieces[OF wf i(1)]
  have rs: "resized (nat n) (buf_seq b) = take (nat n) (buf_seq b)"
    using lt by (simp add: resized_def)
  show ?thesis
  proof (cases "n - b_off (b ! i) = 0")
    case True
    then have "mb_truncate S b n = take i b"
      using lt wf i by (simp add: mb_truncate_def)
    moreover have "take (nat n) (buf_seq b) = buf_seq (take i b)"
      using True w(3) by (subst w(5)) simp
    ultimately show ?thesis using w(1) rs by simp
  next
    case False
    let ?m = "n - b_off (b ! i)"
    have m: "0 < ?m" "?m < b_n (b ! i)" using False i by simp_all
    note sh = mb_shrink_ok[OF w(2) m]
    have eq: "mb_truncate S b n = take i b @ [mb_shrink_block (b ! i) ?m]"
      using lt wf i False by (simp add: mb_truncate_def)
    have "take (nat n) (buf_seq b) = buf_seq (take i b) @ take (nat ?m) (block_bytes (b ! i))"
    proof -
      have "nat n - length (buf_seq (take i b)) = nat ?m" using w(3) by simp
      moreover have "nat ?m \<le> length (block_bytes (b ! i))" using m wf_block_length[OF w(2)] by simp
      moreover have "length (buf_seq (take i b)) \<le> nat n" using w(3) i(3) by simp
      ultimately show ?thesis by (subst w(5)) simp
    qed
    then show ?thesis
      using w sh rs by (simp add: eq wf_blks_append)
  qed
qed

section \<open>Overwriting\<close>

text \<open>The bytes after a write of \<open>p\<close> at \<open>off\<close>: zeros fill the gap past the end.\<close>

definition overwritten :: "nat \<Rightarrow> byte list \<Rightarrow> byte list \<Rightarrow> byte list" where
  "overwritten off p xs = resized off xs @ p @ drop (off + length p) xs"

lemma copy_at_Nil [simp]: "copy_at xs n [] = xs"
  by (simp add: copy_at_def)

lemma length_copy_at [simp]: "n \<le> length xs \<Longrightarrow> length (copy_at xs n ys) = length xs"
  by (simp add: copy_at_def)

lemma copy_at_inside: "n + length ys \<le> length xs \<Longrightarrow> copy_at xs n ys = take n xs @ ys @ drop (n + length ys) xs"
  by (simp add: copy_at_def)

lemma copy_at_append:
  assumes "n + length ys \<le> length xs" and "zs = [] \<or> n + length ys = length xs" and "length zs \<le> length rs"
  shows "copy_at (xs @ rs) n (ys @ zs) = copy_at xs n ys @ copy_at rs 0 zs"
  using assms(2)
proof
  assume "zs = []"
  then show ?thesis using assms by (simp add: copy_at_def)
next
  assume e: "n + length ys = length xs"
  have "length rs + length xs - n = length ys + length rs"
    and "n + (length ys + length zs) - length xs = length zs" using e by linarith+
  then show ?thesis using e assms(3) by (simp add: copy_at_def)
qed

lemma mb_alloc_ok:
  assumes "wf_block S blk"
  obtains blk1 w where "mb_alloc S blk = Ret blk1" "b_data blk1 = Some (block_bytes blk, w)" "wf_block S blk1"
    "b_off blk1 = b_off blk" "b_n blk1 = b_n blk" "block_bytes blk1 = block_bytes blk"
proof (cases "b_data blk")
  case None
  then show thesis
    using that[of "blk\<lparr>b_data := Some (replicate (nat (b_n blk)) zero_byte, replicate (nat (S - b_n blk)) zero_byte)\<rparr>"]
      assms by (simp add: mb_alloc_def wf_block_def block_bytes_def)
next
  case (Some d)
  then show thesis
    using that[of blk "snd d"] assms by (cases d) (simp add: mb_alloc_def block_bytes_def)
qed

lemma mb_overwrite_ok:
  assumes "wf_blks S off bs" and "0 \<le> boff" and "bs \<noteq> [] \<Longrightarrow> boff < b_n (hd bs)"
    and "n \<le> length p" and "0 < n \<Longrightarrow> boff + int n \<le> len (buf_seq bs)"
  shows "\<exists>bs'. mb_overwrite S (int n) boff p bs = Ret (bs', drop n p) \<and> wf_blks S off bs' \<and>
    buf_seq bs' = copy_at (buf_seq bs) (nat boff) (take n p)"
  using assms
proof (induction bs arbitrary: off n boff p)
  case Nil
  then show ?case by auto
next
  case (Cons blk bs)
  show ?case
  proof (cases "n = 0")
    case True
    then show ?thesis using Cons.prems by simp
  next
    case False
    have wfb: "wf_block S blk" and wfs: "wf_blks S (off + b_n blk) bs" and bo: "b_off blk = off"
      using Cons.prems(1) by simp_all
    define m where "m = min n (nat (b_n blk - boff))"
    have bb: "boff < b_n blk" using Cons.prems(3) by simp
    have m: "(if int n > b_n blk - boff then b_n blk - boff else int n) = int m"
      using bb by (simp add: m_def)
    obtain blk1 w where a: "mb_alloc S blk = Ret blk1" "b_data blk1 = Some (block_bytes blk, w)"
      "wf_block S blk1" "b_off blk1 = b_off blk" "b_n blk1 = b_n blk" "block_bytes blk1 = block_bytes blk"
      using mb_alloc_ok[OF wfb] .
    have lb: "len (block_bytes blk) = b_n blk" using wf_block_len[OF wfb] .
    have mn: "m \<le> n" "nat boff + m \<le> length (block_bytes blk)" "m = n \<or> nat boff + m = length (block_bytes blk)"
      using bb lb Cons.prems(2) by (auto simp: m_def)
    have left: "0 < n - m \<Longrightarrow> 0 + int (n - m) \<le> len (buf_seq bs)"
      using Cons.prems(5) False lb mn Cons.prems(2) by fastforce
    have "bs \<noteq> [] \<Longrightarrow> 0 < b_n (hd bs)" using wfs by (cases bs) (auto dest: wf_block_pos)
    moreover have "n - m \<le> length (drop m p)" using Cons.prems(4) by simp
    ultimately obtain bs' where
      ih: "mb_overwrite S (int (n - m)) 0 (drop m p) bs = Ret (bs', drop (n - m) (drop m p))"
        "wf_blks S (off + b_n blk) bs'" "buf_seq bs' = copy_at (buf_seq bs) 0 (take (n - m) (drop m p))"
      using Cons.IH[OF wfs order_refl _ _ left, of "drop m p"] by auto
    define new where "new = blk1\<lparr>b_data := Some (copy_at (block_bytes blk) (nat boff) (take m p), w)\<rparr>"
    have wn: "wf_block S new" "b_off new = off" "b_n new = b_n blk"
      using a bo mn by (auto simp: new_def wf_block_def)
    have bn: "block_bytes new = copy_at (block_bytes blk) (nat boff) (take m p)"
      by (simp add: new_def block_bytes_def)
    have dr: "drop (n - m) (drop m p) = drop n p" using mn by simp
    have nm: "int n - int m = int (n - m)" using mn by simp
    have bound: "\<not> boff > len (block_bytes blk)" using bb lb by simp
    have "mb_overwrite S (int n) boff p (blk # bs) =
        go_map (\<lambda>(bs', p'). (new # bs', p')) (mb_overwrite S (int n - int m) 0 (drop m p) bs)"
      using False bound a(1,2) unfolding mb_overwrite.simps m Let_def by (simp add: new_def)
    then have "mb_overwrite S (int n) boff p (blk # bs) = Ret (new # bs', drop n p)"
      unfolding nm ih(1) dr by simp
    moreover have "take n p = take m p @ take (n - m) (drop m p)"
      using mn by (metis le_add_diff_inverse take_add)
    moreover have "length (take (n - m) (drop m p)) \<le> length (buf_seq bs)"
    proof (cases "n = m")
      case False
      then have "m < n" using mn(1) by simp
      then have "n - m \<le> length (buf_seq bs)" using left by simp
      then show ?thesis by simp
    qed simp
    ultimately show ?thesis
      using mn Cons.prems(4) wn ih(2,3) bn copy_at_append[of "nat boff" "take m p" "block_bytes blk" "take (n - m) (drop m p)" "buf_seq bs"]
      by auto
  qed
qed

lemma mb_WriteAt_ok:
  assumes wf: "wf_buf S b" and S: "0 < S" and off: "0 \<le> off"
  obtains b' where "mb_WriteAt S b p off = Ret (b', len p)" "wf_buf S b'"
    "buf_seq b' = overwritten (nat off) p (buf_seq b)"
proof -
  define b0 where "b0 = (if off > mb_len b then mb_truncate S b off else b)"
  have b0: "wf_buf S b0" "buf_seq b0 = buf_seq b @ replicate (nat off - length (buf_seq b)) zero_byte"
    using mb_truncate_ok[OF wf S off] wf off by (auto simp: b0_def resized_def)
  show thesis
  proof (cases "off < mb_len b0")
    case False
    then have e: "mb_len b0 \<le> off" by simp
    have "overwritten (nat off) p (buf_seq b) = buf_seq b0 @ p"
      using e b0 off by (simp add: overwritten_def resized_def)
    then show thesis
      using that[of "mb_write S b0 p"] mb_write_ok[OF b0(1) S] False
      by (simp add: mb_WriteAt_def b0_def[symmetric] Let_def)
  next
    case True
    then have lt: "off < len (buf_seq b0)" using b0 by simp
    have sq: "buf_seq b0 = buf_seq b" using lt b0(2) off by (cases "nat off \<le> length (buf_seq b)") auto
    obtain i where i: "i < length b0" "mb_seek b0 off = (int i, off - b_off (b0 ! i))"
      "b_off (b0 ! i) \<le> off" "off < b_off (b0 ! i) + b_n (b0 ! i)"
      using mb_seek_inside[OF b0(1) off lt] .
    note w = wf_buf_pieces[OF b0(1) i(1)]
    define n where "n = min (length p) (length (buf_seq b0) - nat off)"
    have n: "(if mb_len b0 - off > len p then len p else mb_len b0 - off) = int n"
      using lt off b0(1) by (auto simp: n_def)
    have dr: "drop i b0 = b0 ! i # drop (Suc i) b0" using i(1) by (simp add: Cons_nth_drop_Suc)
    have "wf_blks S (len (buf_seq (take i b0))) (drop i b0)"
      using b0(1) by (metis add_0 append_take_drop_id wf_blks_append)
    moreover have sum: "len (buf_seq (take i b0)) + len (buf_seq (drop i b0)) = len (buf_seq b0)"
      by (metis append_take_drop_id buf_seq_simps(3) length_append of_nat_add)
    have "0 \<le> off - b_off (b0 ! i)" using i by simp
    moreover have "off - b_off (b0 ! i) < b_n (hd (drop i b0))" using i dr by simp
    moreover have "n \<le> length p" by (simp add: n_def)
    moreover have "off - b_off (b0 ! i) + int n \<le> len (buf_seq (drop i b0))"
      using sum w(3) lt off by (simp add: n_def)
    ultimately obtain bs where bs:
      "mb_overwrite S (int n) (off - b_off (b0 ! i)) p (drop i b0) = Ret (bs, drop n p)"
      "wf_blks S (len (buf_seq (take i b0))) bs"
      "buf_seq bs = copy_at (buf_seq (drop i b0)) (nat (off - b_off (b0 ! i))) (take n p)"
      using mb_overwrite_ok by blast
    define b1 where "b1 = take i b0 @ bs"
    have wb1: "wf_buf S b1" using w(1) bs(2) by (simp add: b1_def wf_buf_extend)
    have "buf_seq b1 = copy_at (buf_seq b0) (nat off) (take n p)"
    proof -
      have "buf_seq b0 = buf_seq (take i b0) @ buf_seq (drop i b0)"
        by (metis append_take_drop_id buf_seq_simps(3))
      moreover have "nat off = length (buf_seq (take i b0)) + nat (off - b_off (b0 ! i))"
        using w(3) i(3) by simp
      ultimately show ?thesis
        by (simp add: b1_def bs(3) copy_at_def add.assoc)
    qed
    moreover have "nat off + length (take n p) \<le> length (buf_seq b0)" using lt off by (auto simp: n_def)
    ultimately have b1: "buf_seq b1 = take (nat off) (buf_seq b) @ take n p @ drop (nat off + n) (buf_seq b)"
      using copy_at_inside[of "nat off" "take n p" "buf_seq b0"] sq by (simp add: n_def)
    have "overwritten (nat off) p (buf_seq b) = buf_seq b1 @ drop n p"
      using lt off sq b1 by (auto simp: overwritten_def resized_def n_def min_def)
    moreover have "mb_WriteAt S b p off = Ret (mb_write S b1 (drop n p), len p)"
      using True i(2) n bs(1) unfolding mb_WriteAt_def b0_def[symmetric] Let_def by (simp add: b1_def)
    ultimately show thesis
      using that[of "mb_write S b1 (drop n p)"] mb_write_ok[OF wb1 S] by simp
  qed
qed

section \<open>The contents in one array\<close>

lemma bytes_fold:
  assumes "wf_blks S off b" and "off = len pre"
  shows "fold (\<lambda>blk acc. case b_data blk of None \<Rightarrow> acc | Some (v, w) \<Rightarrow> copy_at acc (nat (b_off blk)) v) b
      (pre @ replicate (length (buf_seq b)) zero_byte) = pre @ buf_seq b"
  using assms
proof (induction b arbitrary: off pre)
  case (Cons blk bs)
  have step: "(case b_data blk of None \<Rightarrow> pre @ replicate (length (buf_seq (blk # bs))) zero_byte
      | Some (v, w) \<Rightarrow> copy_at (pre @ replicate (length (buf_seq (blk # bs))) zero_byte) (nat (b_off blk)) v)
    = (pre @ block_bytes blk) @ replicate (length (buf_seq bs)) zero_byte"
    using Cons.prems
    by (cases "b_data blk") (auto simp: block_bytes_def wf_block_def copy_at_def replicate_add)
  have "wf_blks S (off + b_n blk) bs" "off + b_n blk = len (pre @ block_bytes blk)"
    using Cons.prems wf_block_len[of S blk] by auto
  from Cons.IH[OF this] show ?case unfolding fold_simps step by simp
qed simp

lemma mb_Bytes_ok: "wf_buf S b \<Longrightarrow> mb_Bytes b = buf_seq b"
  using bytes_fold[of S 0 b "[]"] by (simp add: mb_Bytes_def Let_def)

end
