(* ===== verification/MblkFd.thy ===== *)
theory MblkFd
  imports MblkProps
begin

text \<open>
  Descriptors of memory buffers, transfers over a channel, and the properties of package
  \<open>mblk\<close> (src/mblk/mblk.go).  A descriptor caches the block of its offset; \<open>fd_ok\<close> says the
  cache is right, which every operation through the only descriptor of a buffer keeps.
\<close>

section \<open>Reading\<close>

definition fd_ok :: "buffer \<Rightarrow> bufferfd \<Rightarrow> bool" where
  "fd_ok b fd \<longleftrightarrow> 0 \<le> fd_rwoff fd \<and>
     (fd_rwi fd = len b \<and> fd_rwboff fd = 0 \<and> len (buf_seq b) \<le> fd_rwoff fd \<or>
      (\<exists>i<length b. fd_rwi fd = int i \<and> 0 \<le> fd_rwboff fd \<and> fd_rwboff fd < b_n (b ! i) \<and>
        fd_rwoff fd = b_off (b ! i) + fd_rwboff fd))"

lemma fd_seek_to_ok:
  assumes "wf_buf S b" and "0 \<le> off"
  shows "fd_ok b (fd_seek_to b off) \<and> fd_rwoff (fd_seek_to b off) = off"
proof (cases "off < len (buf_seq b)")
  case True
  obtain i where i: "i < length b" "mb_seek b off = (int i, off - b_off (b ! i))"
    "b_off (b ! i) \<le> off" "off < b_off (b ! i) + b_n (b ! i)"
    using mb_seek_inside[OF assms True] .
  have "fd_seek_to b off = \<lparr>fd_rwoff = off, fd_rwi = int i, fd_rwboff = off - b_off (b ! i)\<rparr>"
    by (simp add: fd_seek_to_def i(2))
  then show ?thesis
    using i assms(2) unfolding fd_ok_def by (intro conjI disjI2 exI[of _ i]) simp_all
next
  case False
  then show ?thesis
    using mb_seek_end[OF assms(1)] assms(2) by (simp add: fd_ok_def fd_seek_to_def)
qed

text \<open>The blocks after a read: the same bytes in the same places.\<close>

definition same_blocks :: "block list \<Rightarrow> block list \<Rightarrow> bool" where
  "same_blocks bs bs' \<longleftrightarrow> map (\<lambda>k. (b_off k, b_n k, block_bytes k)) bs' = map (\<lambda>k. (b_off k, b_n k, block_bytes k)) bs"

lemma same_blocks_refl [simp]: "same_blocks bs bs"
  by (simp add: same_blocks_def)

lemma same_blocks_Cons:
  "same_blocks bs bs' \<Longrightarrow> b_off k' = b_off k \<Longrightarrow> b_n k' = b_n k \<Longrightarrow> block_bytes k' = block_bytes k
    \<Longrightarrow> same_blocks (k # bs) (k' # bs')"
  by (simp add: same_blocks_def)

lemma same_blocks_app: "same_blocks bs bs' \<Longrightarrow> same_blocks (as @ bs) (as @ bs')"
  by (simp add: same_blocks_def)

lemma same_blocks_seq: "same_blocks bs bs' \<Longrightarrow> buf_seq bs' = buf_seq bs"
proof -
  have m: "map block_bytes x = map (\<lambda>(o1, n, d). d) (map (\<lambda>k. (b_off k, b_n k, block_bytes k)) x)" for x
    by simp
  assume "same_blocks bs bs'"
  then show ?thesis unfolding same_blocks_def buf_seq_def m[of bs] m[of bs'] by (simp only:)
qed

lemma same_blocks_length: "same_blocks bs bs' \<Longrightarrow> length bs' = length bs"
  unfolding same_blocks_def by (drule arg_cong[of _ _ length]) simp

lemma same_blocks_nth:
  assumes "same_blocks bs bs'" and "i < length bs"
  shows "b_off (bs' ! i) = b_off (bs ! i)" and "b_n (bs' ! i) = b_n (bs ! i)"
proof -
  have "map (\<lambda>k. (b_off k, b_n k, block_bytes k)) bs' ! i = map (\<lambda>k. (b_off k, b_n k, block_bytes k)) bs ! i"
    using assms(1) by (simp only: same_blocks_def)
  moreover have "i < length bs'" using assms(2) same_blocks_length[OF assms(1)] by simp
  ultimately have "(b_off (bs' ! i), b_n (bs' ! i), block_bytes (bs' ! i)) = (b_off (bs ! i), b_n (bs ! i), block_bytes (bs ! i))"
    using assms(2) by (simp only: nth_map)
  then show "b_off (bs' ! i) = b_off (bs ! i)" and "b_n (bs' ! i) = b_n (bs ! i)" by simp_all
qed

lemma fd_read_loop_ok:
  assumes "wf_blks S off bs" and "0 \<le> boff" and "if bs = [] then boff = 0 else boff < b_n (hd bs)"
    and "0 \<le> want"
  shows "\<exists>bs' k boff'. fd_read_loop S want boff bs =
      Ret (take (nat want) (drop (nat boff) (buf_seq bs)), bs', int k, boff', want > 0 \<and> bs \<noteq> [] \<and> k = length bs) \<and>
    wf_blks S off bs' \<and> same_blocks bs bs' \<and> k \<le> length bs \<and> 0 \<le> boff' \<and>
    (if k = length bs then boff' = 0 else boff' < b_n (bs ! k)) \<and>
    len (buf_seq (take k bs)) + boff' = boff + len (take (nat want) (drop (nat boff) (buf_seq bs)))"
  using assms
proof (induction bs arbitrary: off want boff)
  case Nil
  then show ?case by simp
next
  case (Cons blk bs)
  have wfb: "wf_block S blk" and wfs: "wf_blks S (off + b_n blk) bs" and bo: "b_off blk = off"
    and bb: "boff < b_n blk" using Cons.prems by simp_all
  show ?case
  proof (cases "want = 0")
    case True
    then show ?thesis
      using Cons.prems(1,2) bb by (intro exI[of _ "blk # bs"] exI[of _ 0] exI[of _ boff]) simp
  next
    case False
    obtain blk1 w where a: "mb_alloc S blk = Ret blk1" "b_data blk1 = Some (block_bytes blk, w)"
      "wf_block S blk1" "b_off blk1 = b_off blk" "b_n blk1 = b_n blk" "block_bytes blk1 = block_bytes blk"
      using mb_alloc_ok[OF wfb] .
    have lb: "len (block_bytes blk) = b_n blk" using wf_block_len[OF wfb] .
    define nr where "nr = (if want > b_n blk - boff then b_n blk - boff else want)"
    have nr: "0 < nr" "nr \<le> want" "boff + nr \<le> b_n blk" "nr = want \<or> boff + nr = b_n blk"
      using bb False Cons.prems(4) by (auto simp: nr_def)
    define d where "d = take (nat nr) (drop (nat boff) (block_bytes blk))"
    have d: "take (nat nr) (drop (nat boff) (block_bytes blk @ w)) = d" and ld: "len d = nr"
      using nr lb Cons.prems(2) by (auto simp: d_def)
    have ok: "\<not> (boff < 0 \<or> nr < 0 \<or> boff + nr > len (block_bytes blk) + len w)" and wp: "\<not> want \<le> 0"
      using nr lb Cons.prems(2,4) by auto
    have split: "take (nat want) (drop (nat boff) (buf_seq (blk # bs))) = d @ take (nat (want - nr)) (buf_seq bs)"
    proof -
      have bl: "nat boff \<le> length (block_bytes blk)" using lb bb Cons.prems(2) by simp
      have "nat want = nat nr + nat (want - nr)" using nr by simp
      then have "take (nat want) (drop (nat boff) (buf_seq (blk # bs))) =
        take (nat nr + nat (want - nr)) (drop (nat boff) (block_bytes blk) @ buf_seq bs)"
        using bl by simp
      moreover have "want - nr = 0 \<or> length (drop (nat boff) (block_bytes blk)) = nat nr"
        using nr lb Cons.prems(2) by auto
      moreover have "nat nr \<le> length (drop (nat boff) (block_bytes blk))"
        using nr lb Cons.prems(2) by auto
      ultimately show ?thesis by (auto simp: d_def take_add)
    qed
    show ?thesis
    proof (cases "boff + nr \<ge> b_n blk")
      case False
      then have wn: "want = nr" using nr by simp
      have "fd_read_loop S want boff (blk # bs) = Ret (d, blk1 # bs, 0, boff + nr, False)"
        using ok wp False a(1,2) d unfolding fd_read_loop.simps nr_def[symmetric] Let_def by simp
      then show ?thesis
        using a wfs bo wn nr False ld split Cons.prems(2)
        by (intro exI[of _ "blk1 # bs"] exI[of _ 0] exI[of _ "boff + nr"]) (auto intro!: same_blocks_Cons)
    next
      case True
      then have full: "boff + nr = b_n blk" using nr by simp
      have "if bs = [] then 0 = (0::int) else 0 < b_n (hd bs)" using wfs by (cases bs) (auto dest: wf_block_pos)
      from Cons.IH[OF wfs order_refl this, of "want - nr"] nr obtain bs' k boff' where ih:
        "fd_read_loop S (want - nr) 0 bs =
           Ret (take (nat (want - nr)) (buf_seq bs), bs', int k, boff', want - nr > 0 \<and> bs \<noteq> [] \<and> k = length bs)"
        "wf_blks S (off + b_n blk) bs'" "same_blocks bs bs'" "k \<le> length bs" "0 \<le> boff'"
        "if k = length bs then boff' = 0 else boff' < b_n (bs ! k)"
        "len (buf_seq (take k bs)) + boff' = len (take (nat (want - nr)) (buf_seq bs))"
        by auto
      have e: "(want - nr > 0 \<and> bs \<noteq> [] \<and> k = length bs \<or> bs = []) = (k = length bs)"
      proof
        assume "k = length bs"
        have "bs \<noteq> [] \<Longrightarrow> want - nr > 0"
        proof (rule ccontr)
          assume "bs \<noteq> []" "\<not> want - nr > 0"
          then have "len (buf_seq bs) = 0" using ih(5,6,7) \<open>k = length bs\<close> nr by simp
          then show False using \<open>bs \<noteq> []\<close> wf_blks_empty[OF wfs] by simp
        qed
        then show "want - nr > 0 \<and> bs \<noteq> [] \<and> k = length bs \<or> bs = []" using \<open>k = length bs\<close> by auto
      qed (use ih(4) in auto)
      have "fd_read_loop S want boff (blk # bs) =
          Ret (d @ take (nat (want - nr)) (buf_seq bs), blk1 # bs', int k + 1, boff', k = length bs)"
        using ok wp True a(1,2) d e unfolding fd_read_loop.simps nr_def[symmetric] Let_def by (simp add: ih(1))
      moreover have "len (take (nat want) (drop (nat boff) (buf_seq (blk # bs)))) = nr + len (take (nat (want - nr)) (buf_seq bs))"
        unfolding split using ld by (simp del: length_take)
      ultimately show ?thesis
        unfolding split using a bo ih wp full lb
        by (intro exI[of _ "blk1 # bs'"] exI[of _ "Suc k"] exI[of _ boff'])
          (auto intro!: same_blocks_Cons simp del: length_take)
    qed
  qed
qed

lemma fd_read_ok:
  assumes wf: "wf_buf S b" and fd: "fd_ok b fd" and w: "0 \<le> want"
  obtains b' fd' where
    "fd_read S b fd want = Ret (b', fd', seq_cut (nat (fd_rwoff fd)) (nat want) (buf_seq b),
       if want = 0 \<or> fd_rwoff fd + want \<ge> len (buf_seq b) then Some EOF else None)"
    "wf_buf S b'" "buf_seq b' = buf_seq b" "fd_ok b' fd'"
    "fd_rwoff fd' = fd_rwoff fd + len (seq_cut (nat (fd_rwoff fd)) (nat want) (buf_seq b))"
proof (cases "len (buf_seq b) \<le> fd_rwoff fd")
  case True
  then have "seq_cut (nat (fd_rwoff fd)) (nat want) (buf_seq b) = []"
    using fd by (auto simp: seq_cut_def fd_ok_def)
  moreover have "fd_rwoff fd + want \<ge> len (buf_seq b)" using True w by simp
  ultimately show thesis
    using that[of b fd] True wf fd by (auto simp: fd_read_def fd_ok_def)
next
  case False
  then obtain i where i: "i < length b" "fd_rwi fd = int i" "0 \<le> fd_rwboff fd" "fd_rwboff fd < b_n (b ! i)"
    "fd_rwoff fd = b_off (b ! i) + fd_rwboff fd" using fd by (auto simp: fd_ok_def)
  note wp = wf_buf_pieces[OF wf i(1)]
  have dr: "drop i b = b ! i # drop (Suc i) b" using i(1) by (simp add: Cons_nth_drop_Suc)
  have "wf_blks S (len (buf_seq (take i b))) (drop i b)"
    using wf by (metis add_0 append_take_drop_id wf_blks_append)
  moreover have "if drop i b = [] then fd_rwboff fd = 0 else fd_rwboff fd < b_n (hd (drop i b))"
    using dr i by simp
  ultimately obtain bs' k boff' where l: "fd_read_loop S want (fd_rwboff fd) (drop i b) =
      Ret (take (nat want) (drop (nat (fd_rwboff fd)) (buf_seq (drop i b))), bs', int k, boff',
        want > 0 \<and> drop i b \<noteq> [] \<and> k = length (drop i b))"
    "wf_blks S (len (buf_seq (take i b))) bs'" "same_blocks (drop i b) bs'" "k \<le> length (drop i b)" "0 \<le> boff'"
    "if k = length (drop i b) then boff' = 0 else boff' < b_n (drop i b ! k)"
    "len (buf_seq (take k (drop i b))) + boff' = fd_rwboff fd + len (take (nat want) (drop (nat (fd_rwboff fd)) (buf_seq (drop i b))))"
    using fd_read_loop_ok[OF _ i(3) _ w, of S _ "drop i b"] by blast
  have seq: "buf_seq b = buf_seq (take i b) @ buf_seq (drop i b)" by (metis append_take_drop_id buf_seq_simps(3))
  have d: "take (nat want) (drop (nat (fd_rwboff fd)) (buf_seq (drop i b))) = seq_cut (nat (fd_rwoff fd)) (nat want) (buf_seq b)"
  proof -
    have "nat (fd_rwoff fd) = length (buf_seq (take i b)) + nat (fd_rwboff fd)" using i wp(3) by simp
    then show ?thesis by (subst seq) (simp add: seq_cut_def)
  qed
  let ?d = "seq_cut (nat (fd_rwoff fd)) (nat want) (buf_seq b)"
  define b' where "b' = take i b @ bs'"
  define fd' where "fd' = \<lparr>fd_rwoff = fd_rwoff fd + len ?d, fd_rwi = fd_rwi fd + int k, fd_rwboff = boff'\<rparr>"
  have same: "same_blocks b b'" using same_blocks_app[OF l(3), of "take i b"] by (simp add: b'_def)
  have wb: "wf_buf S b'" using wp(1) l(2) by (simp add: b'_def wf_buf_extend)
  have ld: "len ?d = (if fd_rwoff fd + want \<ge> len (buf_seq b) then len (buf_seq b) - fd_rwoff fd else want)"
    using False w i(3,5) wp(3) by auto
  have tk: "len (buf_seq (take (i + k) b)) + boff' = fd_rwoff fd + len ?d"
    using l(7) i wp(3) unfolding d by (simp add: take_add)
  have wtk: "wf_buf S (take (i + k) b)" using wf by (metis append_take_drop_id wf_blks_append)
  have ok: "fd_ok b' fd'"
  proof (cases "i + k < length b")
    case True
    then have "k < length (drop i b)" by simp
    then have "boff' < b_n (b ! (i + k))" using l(6) i(1) by simp
    moreover have "b_off (b ! (i + k)) + boff' = fd_rwoff fd + len ?d"
      using tk wf_buf_pieces(3)[OF wf True] by simp
    moreover have "0 \<le> fd_rwoff fd + len ?d" using fd by (simp add: fd_ok_def)
    ultimately show ?thesis
      using l(5) True i(2) same_blocks_nth[OF same True] same_blocks_length[OF same]
      unfolding fd_ok_def fd'_def by (intro conjI disjI2 exI[of _ "i + k"]) (simp_all del: length_seq_cut)
  next
    case False
    then have k: "k = length (drop i b)" "i + k = length b" using l(4) i(1) by simp_all
    then have "boff' = 0" using l(6) by simp
    moreover have "fd_rwi fd + int k = len b'" using i(2) k(2) same_blocks_length[OF same] by simp
    moreover have "fd_rwoff fd + len ?d = len (buf_seq b')"
      using tk \<open>boff' = 0\<close> k(2) same_blocks_seq[OF same] by (simp del: length_seq_cut)
    moreover have "0 \<le> fd_rwoff fd + len ?d" using fd by (simp add: fd_ok_def)
    ultimately show ?thesis
      unfolding fd_ok_def fd'_def by (simp del: length_seq_cut)
  qed
  have kiff: "k = length (drop i b) \<longleftrightarrow> fd_rwoff fd + len ?d = len (buf_seq b)"
  proof
    assume "k = length (drop i b)"
    then have "boff' = 0" and "take (i + k) b = b" using l(6) i(1) by simp_all
    then show "fd_rwoff fd + len ?d = len (buf_seq b)" using tk by (simp only:) 
  next
    assume e: "fd_rwoff fd + len ?d = len (buf_seq b)"
    show "k = length (drop i b)"
    proof (rule ccontr)
      assume ne: "k \<noteq> length (drop i b)"
      then have kl: "i + k < length b" using l(4) by simp
      have "boff' < b_n (b ! (i + k))" using l(6) ne i(1) by simp
      moreover have "len (buf_seq (take (i + k) b)) + b_n (b ! (i + k)) \<le> len (buf_seq b)"
      proof -
        have "len (buf_seq b) = len (buf_seq (take (i + k) b)) + (b_n (b ! (i + k)) + len (buf_seq (drop (Suc (i + k)) b)))"
          unfolding wf_block_len[OF wf_buf_pieces(2)[OF wf kl], symmetric]
          using arg_cong[OF wf_buf_pieces(5)[OF wf kl], of len] by (simp only: length_append of_nat_add)
        then show ?thesis by simp
      qed
      ultimately show False using e tk by simp
    qed
  qed
  have err: "(if ?d = [] \<or> want > 0 \<and> drop i b \<noteq> [] \<and> k = length (drop i b) then Some EOF else None) =
      (if want = 0 \<or> fd_rwoff fd + want \<ge> len (buf_seq b) then Some EOF else None)"
  proof -
    have "?d = [] \<longleftrightarrow> len ?d = 0" by (simp del: length_seq_cut)
    then show ?thesis using kiff ld False w dr by auto
  qed
  have "fd_read S b fd want = Ret (b', fd', ?d, if ?d = [] \<or> want > 0 \<and> drop i b \<noteq> [] \<and> k = length (drop i b) then Some EOF else None)"
  proof -
    have "0 \<le> fd_rwoff fd" using fd by (simp add: fd_ok_def)
    then have "mb_len b \<noteq> 0" "\<not> fd_rwoff fd \<ge> mb_len b" using False mb_len_seq[OF wf] by auto
    moreover have "\<not> fd_rwi fd \<ge> len b" "\<not> fd_rwi fd < 0" "nat (fd_rwi fd) = i" using i by simp_all
    ultimately show ?thesis
      unfolding fd_read_def b'_def fd'_def by (simp only: l(1) d if_False go_map.simps prod.case)
  qed
  then show thesis
    using that[of b' fd'] wb ok same_blocks_seq[OF same] unfolding err by (simp add: fd'_def)
qed

lemma mb_Open_seek: "mb_Open = fd_seek_to b 0"
  by (simp add: mb_Open_def fd_seek_to_def mb_seek_def)

lemma mb_ReadAt_ok:
  assumes wf: "wf_buf S b" and off: "0 \<le> off" "off < len (buf_seq b)" and w: "0 \<le> want"
  shows "\<exists>b'. mb_ReadAt S b want off = Ret (b', seq_cut (nat off) (nat want) (buf_seq b),
      if want = 0 \<or> off + want \<ge> len (buf_seq b) then Some EOF else None) \<and>
    wf_buf S b' \<and> buf_seq b' = buf_seq b"
proof -
  define fd where "fd = fd_seek_to b off"
  have fd: "fd_ok b fd" "fd_rwoff fd = off" using fd_seek_to_ok[OF wf off(1)] by (simp_all add: fd_def)
  have "\<not> fd_rwi fd \<ge> len b" using fd off by (auto simp: fd_ok_def)
  moreover have "fd_rwoff mb_Open = off \<Longrightarrow> mb_Open = fd"
    using mb_Open_seek[of b] by (simp add: fd_def mb_Open_def)
  ultimately have "mb_ReadAt S b want off = go_map (\<lambda>(b', fd, d, e). (b', d, e)) (fd_read S b fd want)"
    using off(2) mb_len_seq[OF wf] unfolding mb_ReadAt_def fd_ReadAt_def fd_def[symmetric] Let_def by auto
  moreover obtain b' fd' where "fd_read S b fd want = Ret (b', fd', seq_cut (nat off) (nat want) (buf_seq b),
       if want = 0 \<or> off + want \<ge> len (buf_seq b) then Some EOF else None)" "wf_buf S b'" "buf_seq b' = buf_seq b"
    using fd_read_ok[OF wf fd(1) w] unfolding fd(2) by blast
  ultimately show ?thesis by simp
qed

section \<open>Writing through a descriptor\<close>

lemma fd_Write_ok:
  assumes wf: "wf_buf S b" and S: "0 < S" and fd: "0 \<le> fd_rwoff fd"
  obtains b' fd' where "fd_Write S b fd p = Ret (b', fd', len p)" "wf_buf S b'" "fd_ok b' fd'"
    "fd_rwoff fd' = fd_rwoff fd + len p" "buf_seq b' = overwritten (nat (fd_rwoff fd)) p (buf_seq b)"
proof -
  obtain b' where b': "mb_WriteAt S b p (fd_rwoff fd) = Ret (b', len p)" "wf_buf S b'"
    "buf_seq b' = overwritten (nat (fd_rwoff fd)) p (buf_seq b)"
    using mb_WriteAt_ok[OF wf S fd] .
  then show thesis
    using that[of b' "fd_seek_to b' (fd_rwoff fd + len p)"] fd_seek_to_ok[OF b'(2), of "fd_rwoff fd + len p"] fd
    by (simp add: fd_Write_def Let_def)
qed

lemma fd_Seek_ok:
  assumes "wf_buf S b"
  shows "fd_ok b (fst (fd_Seek b fd off whence)) \<and> fd_rwoff (fst (fd_Seek b fd off whence)) = snd (fd_Seek b fd off whence)
    \<and> 0 \<le> snd (fd_Seek b fd off whence)"
  using fd_seek_to_ok[OF assms] by (simp add: fd_Seek_def Let_def)

lemma overwritten_append:
  "overwritten (off + length p) q (overwritten off p xs) = overwritten off (p @ q) xs"
  by (simp add: overwritten_def resized_def add.assoc min_def add.commute add.left_commute) linarith

section \<open>Transfers\<close>

lemma mb_recv_loop_ok:
  assumes "wf_buf S b" and "0 < S" and "0 \<le> fd_rwoff fd"
  shows "\<exists>b'. mb_recv_loop S b fd ds = Ret (b', len (concat ds), length ds) \<and> wf_buf S b' \<and>
    (ds \<noteq> [] \<longrightarrow> buf_seq b' = overwritten (nat (fd_rwoff fd)) (concat ds) (buf_seq b)) \<and>
    (ds = [] \<longrightarrow> b' = b)"
  using assms
proof (induction ds arbitrary: b fd)
  case (Cons d ds)
  obtain b1 fd1 where w: "fd_Write S b fd d = Ret (b1, fd1, len d)" "wf_buf S b1" "fd_ok b1 fd1"
    "fd_rwoff fd1 = fd_rwoff fd + len d" "buf_seq b1 = overwritten (nat (fd_rwoff fd)) d (buf_seq b)"
    using fd_Write_ok[OF Cons.prems] .
  obtain b' where ih: "mb_recv_loop S b1 fd1 ds = Ret (b', len (concat ds), length ds)" "wf_buf S b'"
    "ds \<noteq> [] \<longrightarrow> buf_seq b' = overwritten (nat (fd_rwoff fd1)) (concat ds) (buf_seq b1)" "ds = [] \<longrightarrow> b' = b1"
    using Cons.IH[of b1 fd1] w Cons.prems by (auto simp: fd_ok_def)
  have "nat (fd_rwoff fd1) = nat (fd_rwoff fd) + length d" using w(4) Cons.prems(3) by simp
  then have "buf_seq b' = overwritten (nat (fd_rwoff fd)) (d @ concat ds) (buf_seq b)"
    using ih(3,4) w(5) by (cases "ds = []") (simp_all add: overwritten_append)
  then show ?case using w(1) ih(1,2) by simp
qed simp

definition wanted :: "int \<Rightarrow> int \<Rightarrow> byte list \<Rightarrow> byte list" where
  "wanted count tot xs = (if count < 0 then xs else take (nat (count - tot)) xs)"

lemma mb_send_loop_ok:
  assumes "wf_buf S b" and "fd_ok b fd" and "0 < S" and "count \<noteq> 0"
    and "length (drop (nat (fd_rwoff fd)) (buf_seq b)) < fuel"
  shows "\<exists>b' tot' nm' ms closed rest.
    mb_send_loop fuel S count takes b fd tot nm = Some (Ret (b', tot', nm', ms, closed)) \<and>
    wf_buf S b' \<and> buf_seq b' = buf_seq b \<and> (\<forall>m\<in>set ms. m \<noteq> [] \<and> len m \<le> S) \<and>
    wanted count tot (drop (nat (fd_rwoff fd)) (buf_seq b)) = concat ms @ rest \<and> nm' = nm + length ms \<and>
    (\<not> closed \<longrightarrow> rest = [] \<and> tot' = tot + len (concat ms)) \<and> (closed \<longrightarrow> \<not> takes nm')"
  using assms
proof (induction fuel arbitrary: b fd tot nm)
  case (Suc fuel)
  let ?rest = "drop (nat (fd_rwoff fd)) (buf_seq b)"
  show ?case
  proof (cases "count < 0 \<or> tot < count")
    case False
    then show ?thesis using Suc.prems(1) by (auto simp: wanted_def)
  next
    case True
    define sz where "sz = (if count > 0 \<and> count - tot < S then count - tot else S)"
    have sz: "0 < sz" "sz \<le> S" using True Suc.prems(3) by (auto simp: sz_def)
    let ?d = "seq_cut (nat (fd_rwoff fd)) (nat sz) (buf_seq b)"
    obtain b1 fd1 where r: "fd_read S b fd sz = Ret (b1, fd1, ?d,
         if sz = 0 \<or> fd_rwoff fd + sz \<ge> len (buf_seq b) then Some EOF else None)"
      "wf_buf S b1" "buf_seq b1 = buf_seq b" "fd_ok b1 fd1" "fd_rwoff fd1 = fd_rwoff fd + len ?d"
      using fd_read_ok[OF Suc.prems(1,2), of sz] sz by auto
    have d: "?d = take (nat sz) ?rest" by (simp add: seq_cut_def)
    have pos: "0 \<le> fd_rwoff fd" using Suc.prems(2) by (simp add: fd_ok_def)
    show ?thesis
    proof (cases "?d = []")
      case True
      then have "?rest = []" using d sz by simp
      then show ?thesis
        using r(1-3) True \<open>count < 0 \<or> tot < count\<close> by (simp add: sz_def[symmetric] wanted_def exI[of _ False])
    next
      case False
      have ld: "0 < length ?d" using False unfolding length_greater_0_conv .
      have ls: "length ?d \<le> nat sz" by simp
      have rest: "?rest = ?d @ drop (nat (fd_rwoff fd1)) (buf_seq b1)"
      proof (cases "nat sz \<le> length ?rest")
        case True
        then have "nat (fd_rwoff fd1) = nat sz + nat (fd_rwoff fd)" using r(5) pos sz by simp
        then show ?thesis unfolding d r(3) by (metis append_take_drop_id drop_drop)
      next
        case False
        then have "nat (fd_rwoff fd1) \<ge> length (buf_seq b)" using r(5) pos by simp
        then show ?thesis unfolding d r(3) using False by simp
      qed
      have w: "wanted count tot ?rest = ?d @ wanted count (tot + len ?d) (drop (nat (fd_rwoff fd1)) (buf_seq b1))"
      proof (cases "count < 0")
        case False
        then have "len ?d \<le> count - tot" using ls sz True Suc.prems(4) by (auto simp: sz_def split: if_splits)
        then have "nat (count - tot) = length ?d + nat (count - (tot + len ?d))" by linarith
        then show ?thesis using False by (subst rest) (simp add: wanted_def del: length_seq_cut)
      qed (use rest in \<open>simp add: wanted_def\<close>)
      show ?thesis
      proof (cases "takes nm")
        case False
        then show ?thesis
          using r(1-3) True \<open>?d \<noteq> []\<close> by (simp add: sz_def[symmetric] exI[of _ "wanted count tot ?rest"] exI[of _ True])
      next
        case True
        have "length (drop (nat (fd_rwoff fd1)) (buf_seq b1)) < fuel"
          using arg_cong[OF rest, of length] ld Suc.prems(5) unfolding length_append by linarith
        from Suc.IH[OF r(2,4) Suc.prems(3,4) this, of "tot + len ?d" "nm + 1"] obtain b' tot' nm' ms closed rest' where ih:
          "mb_send_loop fuel S count takes b1 fd1 (tot + len ?d) (nm + 1) = Some (Ret (b', tot', nm', ms, closed))"
          "wf_buf S b'" "buf_seq b' = buf_seq b1" "\<forall>m\<in>set ms. m \<noteq> [] \<and> len m \<le> S"
          "wanted count (tot + len ?d) (drop (nat (fd_rwoff fd1)) (buf_seq b1)) = concat ms @ rest'"
          "nm' = nm + 1 + length ms" "\<not> closed \<longrightarrow> rest' = [] \<and> tot' = tot + len ?d + len (concat ms)"
          "closed \<longrightarrow> \<not> takes nm'"
          by - (elim exE conjE, rule that, assumption+)
        have "mb_send_loop (Suc fuel) S count takes b fd tot nm = Some (Ret (b', tot', nm', ?d # ms, closed))"
          using \<open>count < 0 \<or> tot < count\<close> True \<open>?d \<noteq> []\<close> r(1) ih(1) by (simp add: sz_def[symmetric])
        moreover have "len ?d \<le> S" using ls sz by linarith
        ultimately show ?thesis
          using ih(2-4,6-8) r(3) \<open>?d \<noteq> []\<close> unfolding w ih(5)
          by (intro exI[of _ b'] exI[of _ tot'] exI[of _ nm'] exI[of _ "?d # ms"] exI[of _ closed] exI[of _ rest'] conjI)
            (simp_all del: length_seq_cut)
      qed
    qed
  qed
qed simp

lemma mb_SendTo_ok:
  assumes wf: "wf_buf S b" and S: "0 < S"
  obtains b' tot nm ms closed rest where
    "mb_SendTo S (Some b) off count takes = Some (Ret (Some b', tot, nm, ms, closed))"
    "wf_buf S b'" "buf_seq b' = buf_seq b" "\<forall>m\<in>set ms. m \<noteq> [] \<and> len m \<le> S"
    "wanted count 0 (drop (nat off) (buf_seq b)) = concat ms @ rest" "nm = length ms"
    "\<not> closed \<longrightarrow> rest = [] \<and> tot = len (concat ms)" "closed \<longrightarrow> \<not> takes nm"
proof (cases "count = 0 \<or> off \<ge> mb_len b")
  case True
  then have "wanted count 0 (drop (nat off) (buf_seq b)) = []"
    using wf by (auto simp: wanted_def)
  then show thesis
    using that[of b 0 0 "[]" False "[]"] True wf by (simp add: mb_SendTo_def)
next
  case False
  define fd where "fd = fst (fd_Seek b mb_Open off 0)"
  have fd: "fd_ok b fd" using fd_Seek_ok[OF wf] by (simp add: fd_def)
  have off: "fd_rwoff fd = (if off < 0 then 0 else off)"
    using fd_seek_to_ok[OF wf] by (simp add: fd_def fd_Seek_def)
  have off: "nat (fd_rwoff fd) = nat off" unfolding off by simp
  have c: "count \<noteq> 0" using False by simp
  have fuel: "length (drop (nat (fd_rwoff fd)) (buf_seq b)) < Suc (length (buf_seq b))" by simp
  obtain b' tot nm ms closed rest where l:
    "mb_send_loop (Suc (length (buf_seq b))) S count takes b fd 0 0 = Some (Ret (b', tot, nm, ms, closed))"
    "wf_buf S b'" "buf_seq b' = buf_seq b" "\<forall>m\<in>set ms. m \<noteq> [] \<and> len m \<le> S"
    "wanted count 0 (drop (nat (fd_rwoff fd)) (buf_seq b)) = concat ms @ rest" "nm = 0 + length ms"
    "\<not> closed \<longrightarrow> rest = [] \<and> tot = 0 + len (concat ms)" "closed \<longrightarrow> \<not> takes nm"
    using mb_send_loop_ok[OF wf fd S c fuel, of takes 0 0] by - (elim exE conjE, rule that, assumption+)
  have "mb_SendTo S (Some b) off count takes = Some (Ret (Some b', tot, nm, ms, closed))"
    unfolding mb_SendTo_def fd_def[symmetric] option.case l(1) using False by simp
  from that[OF this l(2-4) l(5)[unfolded off] l(6)[unfolded add_0] l(7)[unfolded add_0] l(8)] show thesis .
qed

text \<open>The rounds that \<open>mb_SendTo\<close> grants to the loop are enough: it always returns.\<close>

lemma send_fuel_enough:
  assumes "wf_buf S b" and "0 < S"
  shows "\<exists>r. mb_SendTo S (Some b) off count takes = Some (Ret r)"
  using mb_SendTo_ok[OF assms, of off count takes] by metis

section \<open>Properties\<close>

text \<open>
  C4: \<open>Truncate\<close> cuts the contents at \<open>n\<close> or extends them with zeros up to \<open>n\<close>, whatever
  bytes an earlier truncation left in the memory of the last block, and keeps the blocks
  well formed.
\<close>

theorem mb_Truncate_correct:
  assumes "wf_buf S b" and "0 < S" and "0 \<le> n"
  shows "\<exists>b'. mb_Truncate S (Some b) n = (Some b', None) \<and> wf_buf S b' \<and>
    mb_Bytes b' = take (nat n) (mb_Bytes b) @ replicate (nat n - length (mb_Bytes b)) zero_byte \<and> mb_len b' = n"
  using mb_truncate_ok[OF assms] mb_Bytes_ok[OF assms(1)] mb_Bytes_ok[of S "mb_truncate S b n"]
    mb_len_seq[of S "mb_truncate S b n"] assms(3)
  by (simp add: mb_Truncate_def resized_def min_def)

text \<open>A buffer of three blocks of 4 bytes at most, the second of them a hole.\<close>

definition demo_buf :: buffer where
  "demo_buf = mb_write 4 (mb_truncate 4 (mb_write 4 [] ''abcd'') 7) ''xyzt''"

lemma demo_buf_wf: "wf_buf 4 demo_buf"
  by code_simp

theorem mb_Truncate_correct_witness:
  "\<exists>b'. mb_Truncate 4 (Some demo_buf) 9 = (Some b', None) \<and> wf_buf 4 b' \<and>
    mb_Bytes b' = take (nat 9) (mb_Bytes demo_buf) @ replicate (nat 9 - length (mb_Bytes demo_buf)) zero_byte \<and> mb_len b' = 9"
  by (rule mb_Truncate_correct [OF demo_buf_wf]) simp_all

text \<open>
  C5: a read at an offset inside or past the buffer returns what a write there left: after
  \<open>WriteAt\<close> of \<open>p\<close> at \<open>off\<close>, which reports all of \<open>p\<close> as written, \<open>ReadAt\<close> of as many
  bytes at \<open>off\<close> returns \<open>p\<close>, the other bytes are those of before, and a gap reads as zeros.
\<close>

theorem mb_WriteAt_ReadAt:
  assumes "wf_buf S b" and "0 < S" and "0 \<le> off" and "p \<noteq> []"
  shows "\<exists>b1 b2 e. mb_WriteAt S b p off = Ret (b1, len p) \<and> mb_ReadAt S b1 (len p) off = Ret (b2, p, e) \<and>
    wf_buf S b2 \<and> mb_Bytes b2 = mb_Bytes b1 \<and>
    (e = (if mb_len b \<le> off + len p then Some EOF else None)) \<and>
    mb_Bytes b1 = take (nat off) (mb_Bytes b) @ replicate (nat off - length (mb_Bytes b)) zero_byte @ p
      @ drop (nat off + length p) (mb_Bytes b)"
proof -
  obtain b1 where w: "mb_WriteAt S b p off = Ret (b1, len p)" "wf_buf S b1"
    "buf_seq b1 = overwritten (nat off) p (buf_seq b)"
    using mb_WriteAt_ok[OF assms(1-3)] .
  have sq: "buf_seq b1 = resized (nat off) (buf_seq b) @ p @ drop (nat off + length p) (buf_seq b)"
    by (simp add: w(3) overwritten_def)
  have lr: "length (resized (nat off) (buf_seq b)) = nat off" by (auto simp: resized_def)
  have cut: "seq_cut (nat off) (nat (len p)) (buf_seq b1) = p"
    using lr by (simp add: sq seq_cut_def)
  have l1: "len (buf_seq b1) = max (off + len p) (len (buf_seq b))"
    using lr assms(3) by (simp add: sq)
  have "0 < len p" using assms(4) by simp
  then have lt: "off < len (buf_seq b1)" using l1 by linarith
  obtain b2 where r: "mb_ReadAt S b1 (len p) off = Ret (b2, p,
      if len p = 0 \<or> off + len p \<ge> len (buf_seq b1) then Some EOF else None)" "wf_buf S b2" "buf_seq b2 = buf_seq b1"
    using mb_ReadAt_ok[OF w(2) assms(3) lt, of "len p"] cut by auto
  have "mb_Bytes b1 = take (nat off) (mb_Bytes b) @ replicate (nat off - length (mb_Bytes b)) zero_byte @ p
      @ drop (nat off + length p) (mb_Bytes b)"
    using mb_Bytes_ok[OF w(2)] mb_Bytes_ok[OF assms(1)] by (simp add: sq resized_def)
  moreover have "(len p = 0 \<or> off + len p \<ge> len (buf_seq b1)) = (mb_len b \<le> off + len p)"
    using l1 assms(4) mb_len_seq[OF assms(1)] by auto
  ultimately show ?thesis
    using w(1) r mb_Bytes_ok[OF w(2)] mb_Bytes_ok[OF r(2)] by (simp del: of_nat_0_eq_iff)
qed

theorem mb_WriteAt_ReadAt_witness:
  "\<exists>b1 b2 e. mb_WriteAt 4 demo_buf ''hello'' 3 = Ret (b1, len ''hello'') \<and>
    mb_ReadAt 4 b1 (len ''hello'') 3 = Ret (b2, ''hello'', e) \<and> wf_buf 4 b2 \<and> mb_Bytes b2 = mb_Bytes b1 \<and>
    (e = (if mb_len demo_buf \<le> 3 + len ''hello'' then Some EOF else None)) \<and>
    mb_Bytes b1 = take (nat 3) (mb_Bytes demo_buf) @ replicate (nat 3 - length (mb_Bytes demo_buf)) zero_byte @ ''hello''
      @ drop (nat 3 + length ''hello'') (mb_Bytes demo_buf)"
  by (rule mb_WriteAt_ReadAt [OF demo_buf_wf]) simp_all

text \<open>
  C6: a read through a descriptor with a valid position returns the next bytes of the
  contents, at most as many as asked for, reports the end exactly when it is reached (or
  when nothing was asked for), leaves the contents alone and keeps the position valid.
\<close>

theorem fd_read_correct:
  assumes "wf_buf S b" and "fd_ok b fd" and "0 \<le> want"
  shows "\<exists>b' fd'. fd_read S b fd want = Ret (b', fd', seq_cut (nat (fd_rwoff fd)) (nat want) (mb_Bytes b),
       if want = 0 \<or> fd_rwoff fd + want \<ge> mb_len b then Some EOF else None) \<and>
    wf_buf S b' \<and> mb_Bytes b' = mb_Bytes b \<and> fd_ok b' fd' \<and>
    fd_rwoff fd' = fd_rwoff fd + len (seq_cut (nat (fd_rwoff fd)) (nat want) (mb_Bytes b))"
proof -
  obtain b' fd' where r: "fd_read S b fd want = Ret (b', fd', seq_cut (nat (fd_rwoff fd)) (nat want) (buf_seq b),
       if want = 0 \<or> fd_rwoff fd + want \<ge> len (buf_seq b) then Some EOF else None)"
    "wf_buf S b'" "buf_seq b' = buf_seq b" "fd_ok b' fd'"
    "fd_rwoff fd' = fd_rwoff fd + len (seq_cut (nat (fd_rwoff fd)) (nat want) (buf_seq b))"
    using fd_read_ok[OF assms] .
  show ?thesis
    unfolding mb_Bytes_ok[OF assms(1)] mb_len_seq[OF assms(1)] using r mb_Bytes_ok[OF r(2)] by metis
qed

theorem fd_read_correct_witness:
  "\<exists>b' fd'. fd_read 4 demo_buf mb_Open 6 = Ret (b', fd', seq_cut (nat (fd_rwoff mb_Open)) (nat 6) (mb_Bytes demo_buf),
       if (6::int) = 0 \<or> fd_rwoff mb_Open + 6 \<ge> mb_len demo_buf then Some EOF else None) \<and>
    wf_buf 4 b' \<and> mb_Bytes b' = mb_Bytes demo_buf \<and> fd_ok b' fd' \<and>
    fd_rwoff fd' = fd_rwoff mb_Open + len (seq_cut (nat (fd_rwoff mb_Open)) (nat 6) (mb_Bytes demo_buf))"
  by (rule fd_read_correct [OF demo_buf_wf]) (use fd_seek_to_ok [OF demo_buf_wf, of 0] mb_Open_seek [of demo_buf] in simp_all)

text \<open>
  C7: a buffer sent over a channel and received into an empty buffer arrives whole: the
  messages are at most a block each and none is empty, both sides count the same bytes and
  messages, and the receiver's contents equal the sender's.
\<close>

theorem mb_transfer_roundtrip:
  assumes "wf_buf S b" and "0 < S"
  shows "\<exists>b1 ms b2. mb_SendTo S (Some b) 0 (- 1) (\<lambda>k. True) = Some (Ret (Some b1, mb_len b, length ms, ms, False)) \<and>
    (\<forall>m\<in>set ms. m \<noteq> [] \<and> len m \<le> S) \<and>
    mb_RecvFrom S [] 0 ms = Ret (b2, mb_len b, length ms) \<and> wf_buf S b2 \<and> mb_Bytes b2 = mb_Bytes b"
proof -
  obtain b1 tot nm ms closed rest where s:
    "mb_SendTo S (Some b) 0 (- 1) (\<lambda>k. True) = Some (Ret (Some b1, tot, nm, ms, closed))"
    "\<forall>m\<in>set ms. m \<noteq> [] \<and> len m \<le> S"
    "wanted (- 1) 0 (drop (nat 0) (buf_seq b)) = concat ms @ rest" "nm = length ms"
    "\<not> closed \<longrightarrow> rest = [] \<and> tot = len (concat ms)" "closed \<longrightarrow> \<not> True"
    using mb_SendTo_ok[OF assms, of 0 "- 1" "\<lambda>k. True"] by metis
  then have c: "concat ms = buf_seq b" "\<not> closed" "tot = len (buf_seq b)" by (auto simp: wanted_def)
  have fd0: "fst (fd_Seek [] mb_Open 0 0) = mb_Open"
    by (simp add: fd_Seek_def fd_seek_to_def mb_seek_def mb_Open_def)
  have off0: "fd_rwoff mb_Open = 0" by (simp add: mb_Open_def)
  obtain b2 where r: "mb_recv_loop S [] mb_Open ms = Ret (b2, len (concat ms), length ms)" "wf_buf S b2"
    "ms \<noteq> [] \<longrightarrow> buf_seq b2 = overwritten 0 (concat ms) []" "ms = [] \<longrightarrow> b2 = []"
    using mb_recv_loop_ok[of S "[]" mb_Open ms] assms(2) off0 by auto
  have rv: "mb_RecvFrom S [] 0 ms = Ret (b2, mb_len b, length ms)"
    using r(1) fd0 c(1) mb_len_seq[OF assms(1)] by (simp add: mb_RecvFrom_def)
  have "buf_seq b2 = concat ms" using r(3,4) by (cases "ms = []") (simp_all add: overwritten_def resized_def)
  then have "mb_Bytes b2 = mb_Bytes b" using c(1) mb_Bytes_ok[OF assms(1)] mb_Bytes_ok[OF r(2)] by simp
  moreover have "mb_SendTo S (Some b) 0 (- 1) (\<lambda>k. True) = Some (Ret (Some b1, mb_len b, length ms, ms, False))"
    using s(1,4) c mb_len_seq[OF assms(1)] by simp
  ultimately show ?thesis
    using s(2) rv r(2) by blast
qed

theorem mb_transfer_roundtrip_witness:
  "\<exists>b1 ms b2. mb_SendTo 4 (Some demo_buf) 0 (- 1) (\<lambda>k. True) = Some (Ret (Some b1, mb_len demo_buf, length ms, ms, False)) \<and>
    (\<forall>m\<in>set ms. m \<noteq> [] \<and> len m \<le> 4) \<and>
    mb_RecvFrom 4 [] 0 ms = Ret (b2, mb_len demo_buf, length ms) \<and> wf_buf 4 b2 \<and> mb_Bytes b2 = mb_Bytes demo_buf"
  by (rule mb_transfer_roundtrip [OF demo_buf_wf]) simp

text \<open>
  The position a descriptor caches goes stale when the buffer is resized under it: in a
  well-formed buffer of 9 bytes, a read at offset 8 panics instead of returning a byte.
\<close>

theorem fd_stale_after_truncate:
  "let b = mb_write 8 (mb_truncate 8 [] 3) ''abcdef''; fd = fst (fd_Seek b mb_Open 8 0);
       b' = mb_truncate 8 (mb_truncate 8 b 3) 9
   in wf_buf 8 b' \<and> mb_len b' = 9 \<and> fd_rwoff fd = 8 \<and> fd_read 8 b' fd 1 = Panic"
  by code_simp

end
