(* ===== verification/Ch.thy ===== *)
theory Ch
  imports MblkFd "HOL-Library.Word"
begin

text \<open>
  The messages of package \<open>ch\<close> (src/ch/ch.go): how values are framed and written to an
  external writer, and read back.  A message is \<open>size[4] tag[4] type[2] data[size]\<close>, all
  little endian.

  A reader is the bytes it still holds and the error it gives at their end.  A writer is a
  function of the frames written before and of the data: how many bytes it takes and its
  error.  The types other packages define are values of the type parameter \<open>'u\<close>, with the
  operations they bring: \<open>pk\<close> (their bytes), \<open>ty\<close> (their type id) and the table \<open>unp\<close> of
  unpackers.
\<close>

section \<open>Little endian numbers\<close>

fun le_bytes :: "nat \<Rightarrow> nat \<Rightarrow> byte list" where
  "le_bytes 0 n = []"
| "le_bytes (Suc k) n = char_of (n mod 256) # le_bytes k (n div 256)"

fun le_nat :: "byte list \<Rightarrow> nat" where
  "le_nat [] = 0"
| "le_nat (c # cs) = of_char c + 256 * le_nat cs"

lemma length_le_bytes [simp]: "length (le_bytes k n) = k"
  by (induction k arbitrary: n) auto

lemma le_nat_le_bytes [simp]: "le_nat (le_bytes k n) = n mod 256 ^ k"
  by (induction k arbitrary: n) (auto simp: mod_mult2_eq)

section \<open>Types of messages\<close>

definition Tnone :: "16 word" where "Tnone = 0"
definition Tbytes :: "16 word" where "Tbytes = 1"
definition Tign :: "16 word" where "Tign = 2"
definition Tstr :: "16 word" where "Tstr = 3"
definition Terr :: "16 word" where "Terr = 4"
definition Taddr :: "16 word" where "Taddr = 5"
definition Tdir :: "16 word" where "Tdir = 6"
definition Tzx :: "16 word" where "Tzx = 7"
definition Tusr :: "16 word" where "Tusr = 8"

lemmas ch_types = Tnone_def Tbytes_def Tign_def Tstr_def Terr_def Taddr_def Tdir_def Tzx_def Tusr_def

definition hdrSz :: nat where "hdrSz = 10"
definition MaxMsgSz :: nat where "MaxMsgSz = 65536"

text \<open>The messages: \<open>MOther\<close> is a value of a type that cannot be sent.\<close>

datatype 'u msg = MBytes "byte list" | MIgn "16 word" "byte list" | MStr string | MErr string | MUser 'u | MOther

text \<open>The errors: \<open>IOErr e\<close> wraps \<open>e\<close> as an i/o error; \<open>OtherErr\<close> has its text.\<close>

datatype ch_error = EOFErr | UnexpectedEOF | TooLarge | TooSmall | Discarded | IOErr ch_error | OtherErr string

section \<open>Strings\<close>

text \<open>What \<open>WriteStringTo\<close> writes; to a buffer, which never fails.\<close>

definition ch_WriteStringTo :: "string \<Rightarrow> byte list" where
  "ch_WriteStringTo s = le_bytes 4 (length s) @ s"

text \<open>The rest of the bytes, the string, and the error.\<close>

definition ch_UnpackString :: "byte list \<Rightarrow> byte list option \<times> string \<times> ch_error option" where
  "ch_UnpackString b =
     (if length b < 4 then (None, [], Some TooSmall)
      else (let sz = le_nat (take 4 b); b' = drop 4 b in
        if length b' < sz then (None, [], Some TooSmall)
        else (Some (drop sz b'), take sz b', None)))"

lemma ch_UnpackString_WriteStringTo:
  "length s < 2 ^ 32 \<Longrightarrow> ch_UnpackString (ch_WriteStringTo s @ rest) = (Some rest, s, None)"
  by (simp add: ch_UnpackString_def ch_WriteStringTo_def)

section \<open>Writing messages\<close>

definition ch_frame :: "32 word \<Rightarrow> 16 word \<Rightarrow> byte list \<Rightarrow> byte list" where
  "ch_frame tag typ b = le_bytes 4 (length b) @ le_bytes 4 (unat tag) @ le_bytes 2 (unat typ) @ b"

text \<open>A writer: the frames written before, and the data of the call.\<close>

type_synonym ch_writer = "byte list list \<Rightarrow> byte list \<Rightarrow> nat \<times> ch_error option"

text \<open>A single write for each message: the frames after, the bytes written and the error.\<close>

definition ch_writeBytes ::
  "ch_writer \<Rightarrow> byte list list \<Rightarrow> 32 word \<Rightarrow> 16 word \<Rightarrow> byte list \<Rightarrow> byte list list \<times> nat \<times> ch_error option" where
  "ch_writeBytes wr hist tag typ b =
     (let m = ch_frame tag typ b; (tot, err) = wr hist m in
      (hist @ [m], tot, map_option IOErr err))"

definition ch_WriteMsg ::
  "('u \<Rightarrow> 16 word option) \<Rightarrow> ('u \<Rightarrow> byte list) \<Rightarrow> ch_writer \<Rightarrow> byte list list \<Rightarrow> 32 word \<Rightarrow> 'u msg \<Rightarrow>
     byte list list \<times> nat \<times> ch_error option" where
  "ch_WriteMsg ty pk wr hist tag m =
     (case m of
        MBytes b \<Rightarrow> ch_writeBytes wr hist tag Tbytes b
      | MIgn t b \<Rightarrow> ch_writeBytes wr hist tag t b
      | MStr s \<Rightarrow> ch_writeBytes wr hist tag Tstr s
      | MErr s \<Rightarrow> ch_writeBytes wr hist tag Terr s
      | MUser u \<Rightarrow> ch_writeBytes wr hist tag (case ty u of Some t \<Rightarrow> t | None \<Rightarrow> Tign) (pk u)
      | MOther \<Rightarrow> (hist, 0, Some Discarded))"

text \<open>
  \<open>WriteMsgs\<close>: the messages received from the channel, and the error it was closed with.
  \<open>fl\<close> is the writer's \<open>Flush\<close>, if it has one.
\<close>

fun ch_write_loop ::
  "('u \<Rightarrow> 16 word option) \<Rightarrow> ('u \<Rightarrow> byte list) \<Rightarrow> ch_writer \<Rightarrow> (byte list list \<Rightarrow> ch_error option) option \<Rightarrow>
     32 word \<Rightarrow> byte list list \<Rightarrow> 'u msg list \<Rightarrow> byte list list \<times> nat \<times> nat \<times> ch_error option" where
  "ch_write_loop ty pk wr fl tag hist [] = (hist, 0, 0, None)"
| "ch_write_loop ty pk wr fl tag hist (m # ms) =
     (let (hist1, n, rerr) = ch_WriteMsg ty pk wr hist tag m;
          err = (if rerr = Some Discarded then None else rerr);
          err1 = (if err = None then (case fl of None \<Rightarrow> None | Some f \<Rightarrow> f hist1) else err) in
      if err1 \<noteq> None then (hist1, 0, 0, err1)
      else (let (hist2, nbytes, nmsgs, e) = ch_write_loop ty pk wr fl tag hist1 ms in
        (hist2, n + nbytes, nmsgs + 1, e)))"

definition ch_WriteMsgs ::
  "('u \<Rightarrow> 16 word option) \<Rightarrow> ('u \<Rightarrow> byte list) \<Rightarrow> ch_writer \<Rightarrow> (byte list list \<Rightarrow> ch_error option) option \<Rightarrow>
     32 word \<Rightarrow> byte list list \<Rightarrow> 'u msg list \<Rightarrow> string option \<Rightarrow> byte list list \<times> nat \<times> nat \<times> ch_error option" where
  "ch_WriteMsgs ty pk wr fl tag hist ms cerr =
     (let (hist1, nbytes, nmsgs, err) = ch_write_loop ty pk wr fl tag hist ms in
      if err \<noteq> None then (hist1, nbytes, nmsgs, err)
      else (case cerr of
              None \<Rightarrow> (hist1, nbytes, nmsgs, None)
            | Some e \<Rightarrow>
                (let (hist2, n, _) = ch_WriteMsg ty pk wr hist1 tag (MErr e) in
                 (hist2, nbytes + n, nmsgs, Some (OtherErr e)))))"

section \<open>Reading messages\<close>

type_synonym reader = "byte list \<times> ch_error"

text \<open>\<open>io.ReadFull\<close> of \<open>n\<close> bytes: how many were read, the bytes or the error, and the reader.\<close>

definition read_full :: "nat \<Rightarrow> reader \<Rightarrow> nat \<times> (ch_error + byte list) \<times> reader" where
  "read_full n r =
     (let (s, e) = r in
      if n \<le> length s then (n, Inr (take n s), (drop n s, e))
      else (length s,
            Inl (if s \<noteq> [] \<and> e = EOFErr then UnexpectedEOF else e), ([], e)))"

definition ch_decHdr :: "byte list \<Rightarrow> nat \<times> 32 word \<times> 16 word" where
  "ch_decHdr hdr =
     (le_nat (take 4 hdr), word_of_nat (le_nat (take 4 (drop 4 hdr))), word_of_nat (le_nat (take 2 (drop 8 hdr))))"

definition ch_readBytes :: "reader \<Rightarrow> nat \<Rightarrow> (ch_error + byte list) \<times> reader" where
  "ch_readBytes r sz = (let (nr, res, r') = read_full sz r in (res, r'))"

type_synonym 'u unpackers = "16 word \<Rightarrow> (byte list \<Rightarrow> 'u \<times> ch_error option) option"

text \<open>The bytes counted, the tag, the message, the error and the reader after.\<close>

definition ch_ReadMsg ::
  "'u unpackers \<Rightarrow> reader \<Rightarrow> nat \<times> 32 word \<times> 'u msg option \<times> ch_error option \<times> reader" where
  "ch_ReadMsg unp r =
     (let (nr, hres, r1) = read_full hdrSz r in
      case hres of
        Inl err \<Rightarrow> (nr, 0, None, Some (if err = EOFErr then err else IOErr err), r1)
      | Inr hdr \<Rightarrow>
        (let (sz, tag, typ) = ch_decHdr hdr in
         if sz > MaxMsgSz then (nr, tag, None, Some TooLarge, r1)
         else (let (bres, r2) = (if sz > 0 then ch_readBytes r1 sz else (Inr [], r1)); sz' = sz + hdrSz in
           case bres of
             Inl err \<Rightarrow> (sz', tag, None, Some (IOErr err), r2)
           | Inr b \<Rightarrow>
             (if typ = Tbytes then (sz', tag, Some (MBytes b), None, r2)
              else if typ = Tstr then (sz', tag, Some (MStr b), None, r2)
              else if typ = Terr then (sz', tag, Some (MErr b), None, r2)
              else (case unp typ of
                      Some f \<Rightarrow> (let (u, e) = f b in (sz', tag, Some (MUser u), e, r2))
                    | None \<Rightarrow> (sz', tag, Some (MIgn typ b), None, r2))))))"

lemma read_full_rest: "snd (snd (read_full n r)) = (drop n (fst r), snd r)"
  by (cases r) (simp add: read_full_def)

lemma ch_ReadMsg_shorter:
  assumes "ch_ReadMsg unp r = (n, tag, m, None, r')"
  shows "length (fst r') < length (fst r)"
proof (cases "hdrSz \<le> length (fst r)")
  case True
  have 1: "read_full hdrSz r = (hdrSz, Inr (take hdrSz (fst r)), (drop hdrSz (fst r), snd r))"
    using True by (cases r) (simp add: read_full_def)
  obtain sz t ty where 2: "ch_decHdr (take hdrSz (fst r)) = (sz, t, ty)" by (cases "ch_decHdr (take hdrSz (fst r))") auto
  have "\<exists>k. r' = (drop k (drop hdrSz (fst r)), snd r)"
  proof (cases "sz > 0")
    case True
    then show ?thesis
      using assms read_full_rest[of sz "(drop hdrSz (fst r), snd r)"]
      by (auto simp: ch_ReadMsg_def 1 2 Let_def ch_readBytes_def prod.case_eq_if split: if_splits sum.splits option.splits)
  next
    case False
    then have "r' = (drop hdrSz (fst r), snd r)"
      using assms by (auto simp: ch_ReadMsg_def 1 2 Let_def prod.case_eq_if split: if_splits option.splits)
    then show ?thesis by (intro exI[of _ 0]) simp
  qed
  then obtain k where "r' = (drop k (drop hdrSz (fst r)), snd r)" ..
  then show ?thesis using True by (simp add: hdrSz_def)
next
  case False
  then show ?thesis
    using assms by (cases r) (simp add: ch_ReadMsg_def read_full_def)
qed

text \<open>
  \<open>ReadMsgs\<close> sends the messages through a channel: the bytes and messages counted, the
  messages sent and the error; \<open>takes k\<close> tells whether the channel takes the \<open>k\<close>-th, and
  \<open>cerr\<close> is the error it is closed with otherwise.
\<close>

function ch_read_loop ::
  "'u unpackers \<Rightarrow> (nat \<Rightarrow> bool) \<Rightarrow> ch_error option \<Rightarrow> nat \<Rightarrow> reader \<Rightarrow> nat \<times> nat \<times> 'u msg list \<times> ch_error option" where
  "ch_read_loop unp takes cerr k r =
     (let (n, tag, m, rerr, r') = ch_ReadMsg unp r in
      if rerr \<noteq> None then (0, 0, [], if rerr = Some EOFErr then None else rerr)
      else if \<not> takes k then (n, 1, [], cerr)
      else (let (nbytes, nmsgs, ms, e) = ch_read_loop unp takes cerr (k + 1) r' in
        (n + nbytes, nmsgs + 1, the m # ms, e)))"
  by pat_completeness auto
termination
  by (relation "measure (\<lambda>(unp, takes, cerr, k, r). length (fst r))")
    (auto dest!: ch_ReadMsg_shorter[OF sym])

declare ch_read_loop.simps [simp del]

definition ch_ReadMsgs ::
  "'u unpackers \<Rightarrow> (nat \<Rightarrow> bool) \<Rightarrow> ch_error option \<Rightarrow> reader \<Rightarrow> nat \<times> nat \<times> 'u msg list \<times> ch_error option" where
  "ch_ReadMsgs unp takes cerr r = ch_read_loop unp takes cerr 0 r"

section \<open>Bytes\<close>

text \<open>
  \<open>ReadBytes\<close> sends what a reader with state \<open>'s\<close> gives; \<open>rd n s\<close> is a read into a buffer
  of \<open>n\<close> bytes.  The loop may not end for a reader that never fails: None is running out of
  fuel.
\<close>

fun ch_ReadBytes ::
  "nat \<Rightarrow> (nat \<Rightarrow> 's \<Rightarrow> byte list \<times> ch_error option \<times> 's) \<Rightarrow> nat \<Rightarrow> (nat \<Rightarrow> bool) \<Rightarrow> ch_error option \<Rightarrow> nat \<Rightarrow> 's \<Rightarrow>
     (nat \<times> nat \<times> 'u msg list \<times> ch_error option) option" where
  "ch_ReadBytes 0 rd msgsz takes cerr k s = None"
| "ch_ReadBytes (Suc fuel) rd msgsz takes cerr k s =
     (let (d, rerr, s') = rd msgsz s in
      case rerr of
        Some e \<Rightarrow> Some (0, 0, [], if e \<noteq> EOFErr then Some (IOErr e) else None)
      | None \<Rightarrow>
          if \<not> takes k then Some (length d, 1, [], cerr)
          else map_option (\<lambda>(nbytes, nmsgs, ms, e). (length d + nbytes, nmsgs + 1, MBytes d # ms, e))
                 (ch_ReadBytes fuel rd msgsz takes cerr (k + 1) s'))"

text \<open>\<open>WriteBytes\<close>: the data written, the counts and the error, the first one met.\<close>

fun ch_WriteBytes ::
  "ch_writer \<Rightarrow> byte list list \<Rightarrow> ch_error option \<Rightarrow> ch_error option \<Rightarrow> 'u msg list \<Rightarrow>
     byte list list \<times> nat \<times> nat \<times> ch_error option" where
  "ch_WriteBytes wr hist cerr err [] = (hist, 0, 0, if err = None then cerr else err)"
| "ch_WriteBytes wr hist cerr err (m # ms) =
     (case m of
        MErr e \<Rightarrow> ch_WriteBytes wr hist cerr (if err = None then Some (OtherErr e) else err) ms
      | MBytes b \<Rightarrow>
          (let (n, werr) = wr hist b; hist1 = hist @ [b] in
           case werr of
             Some e \<Rightarrow> (hist1, n, 1, if err = None then Some (IOErr e) else err)
           | None \<Rightarrow> (let (hist2, nbytes, nmsgs, e) = ch_WriteBytes wr hist1 cerr err ms in
               (hist2, n + nbytes, nmsgs + 1, e)))
      | _ \<Rightarrow> ch_WriteBytes wr hist cerr err ms)"

end
