(* ===== verification/Mux.thy ===== *)
theory Mux
  imports Ch
begin

unbundle bit_operations_syntax

text \<open>
  Channels multiplexed on a connection (src/ch/mux.go): two ends of a connection, each with a process
  that reads the messages of the other end and, for every stream, a process that sends it and one that
  receives it.

  The state of an end holds where each of its processes is, and an action is a step of one of them, up to the
  next operation on a channel or on the device, or an operation of its user; any process may be the
  next to run, and an action that is not possible now is None.  The messages on the wire of an end are those
  written and not read yet by the other end; frames are those of \<open>WriteMsg\<close> and \<open>ReadMsg\<close>, which carry a tag and
  a message.  A stream whose tag is used again, after \<open>2^27\<close> more, is not modelled: opening it is not possible.
  Closing a channel that is closed has no effect, as in the dialect of Go of the code, and so has closing a
  nil channel; a closed channel still gives what is in its buffer.
\<close>

section \<open>Tags\<close>

definition firsttag :: "32 word" where "firsttag = push_bit 31 1"
definition rpctag :: "32 word" where "rpctag = push_bit 30 1"
definition flowtag :: "32 word" where "flowtag = push_bit 29 1"
definition endtag :: "32 word" where "endtag = push_bit 28 1"
definition tagmask :: "32 word" where "tagmask = firsttag OR rpctag OR flowtag OR endtag"

definition tagv :: "32 word \<Rightarrow> 32 word" where "tagv tag = tag AND NOT tagmask"
definition has_tag :: "32 word \<Rightarrow> 32 word \<Rightarrow> bool" where "has_tag tag flag \<longleftrightarrow> tag AND flag \<noteq> 0"

text \<open>The tag of the next stream.\<close>

definition next_tag :: "32 word \<Rightarrow> 32 word" where
  "next_tag tag = (let t = (if (tag + 2) AND tagmask \<noteq> 0 then tag AND 1 else tag) in t + 2)"

section \<open>Connections\<close>

type_synonym error = "string option"

text \<open>
  Where the process that sends a stream (\<open>out\<close>) is: waiting for its first ticket, at the top of its loop, with a
  message and waiting for a ticket, with a message to write, and at the end.  The boolean is whether the first
  message is still to be sent, and the number how many may be sent.
\<close>

datatype 'u outpc =
  ONone | OStart | OLoop bool nat | OTicket bool "'u msg" | OSend bool nat "'u msg" | OFinish bool | OClose error | ODone | OPanic

text \<open>
  And the process that hands messages to the reader (\<open>flowproc\<close>): waiting for a message, with one for the reader,
  about to grant more messages, done after the end of the stream, and done because the reader closed it.
\<close>

datatype 'u flowpc = FNone | FIdle nat | FHold nat "'u msg" | FGrant | FClosed | FGone

text \<open>
  A connection.  A channel is what is in its buffer (None is a nil channel) and the error it was closed with,
  if it was.  \<open>cn_live\<close> is whether it is in the table of the end, \<open>cn_grants\<close> the processes that have a ticket to post,
  and \<open>cn_sent\<close> and \<open>cn_got\<close> are the messages that the user sent and that the reader received.
\<close>

record 'u conn =
  cn_in :: "'u msg list option"
  cn_inclosed :: "error option"
  cn_out :: "'u msg list option"
  cn_outclosed :: "error option"
  cn_flow :: nat
  cn_flowclosed :: bool
  cn_grants :: nat
  cn_live :: bool
  cn_pc :: "'u outpc"
  cn_isreply :: bool
  cn_fpc :: "'u flowpc"
  cn_uinclosed :: "error option"
  cn_sent :: "'u msg list"
  cn_got :: "'u msg list"

text \<open>An end.  \<open>mx_werr\<close> is the error of the writes to a device that is closed.\<close>

record 'u mux =
  mx_tag :: "32 word"
  mx_conns :: "32 word \<Rightarrow> 'u conn option"
  mx_In :: "32 word list"
  mx_Inclosed :: "error option"
  mx_wire :: "(32 word \<times> 'u msg) list"
  mx_closed :: bool
  mx_err :: error
  mx_werr :: string

definition NewMux :: "bool \<Rightarrow> string \<Rightarrow> 'u mux" where
  "NewMux iscaller werr = \<lparr>mx_tag = (if iscaller then 1 else 0), mx_conns = (\<lambda>t. None), mx_In = [], mx_Inclosed = None,
     mx_wire = [], mx_closed = False, mx_err = None, mx_werr = werr\<rparr>"

text \<open>A new connection has two tickets.\<close>

definition newConn :: "'u msg list option \<Rightarrow> 'u msg list option \<Rightarrow> 'u conn" where
  "newConn c_in c_out = \<lparr>cn_in = c_in, cn_inclosed = None, cn_out = c_out, cn_outclosed = None, cn_flow = 2,
     cn_flowclosed = False, cn_grants = 0, cn_live = True, cn_pc = ONone, cn_isreply = False, cn_fpc = FNone,
     cn_uinclosed = None, cn_sent = [], cn_got = []\<rparr>"

definition close_with :: "error \<Rightarrow> error option \<Rightarrow> error option" where
  "close_with e c = (case c of None \<Rightarrow> Some e | Some _ \<Rightarrow> c)"

definition closeConn :: "error \<Rightarrow> 'u conn \<Rightarrow> 'u conn" where
  "closeConn e mc = mc\<lparr>cn_inclosed := close_with e (cn_inclosed mc), cn_outclosed := close_with e (cn_outclosed mc),
     cn_flowclosed := True, cn_live := False\<rparr>"

definition set_conn :: "'u mux \<Rightarrow> 32 word \<Rightarrow> 'u conn \<Rightarrow> 'u mux" where
  "set_conn m t c = m\<lparr>mx_conns := (mx_conns m)(t \<mapsto> c)\<rparr>"

text \<open>A message written to the device.\<close>

definition wire_put :: "'u mux \<Rightarrow> 32 word \<Rightarrow> 'u msg \<Rightarrow> 'u mux" where
  "wire_put m tag d = m\<lparr>mx_wire := mx_wire m @ [(tag, d)]\<rparr>"

section \<open>Opening streams\<close>

definition mux_open :: "'u msg list option \<Rightarrow> 'u mux \<Rightarrow> 'u mux option" where
  "mux_open c_in m =
     (let tv = next_tag (mx_tag m) in
      if mx_conns m tv \<noteq> None then None
      else Some (set_conn (m\<lparr>mx_tag := tv\<rparr>) tv ((newConn c_in (Some []))\<lparr>cn_pc := OStart\<rparr>)))"

definition mux_Out :: "'u mux \<Rightarrow> 'u mux option" where "mux_Out m = mux_open None m"
definition mux_Rpc :: "'u mux \<Rightarrow> 'u mux option" where "mux_Rpc m = mux_open (Some []) m"

section \<open>The sender of a stream\<close>

definition conn_isrpc :: "'u conn \<Rightarrow> bool" where
  "conn_isrpc c \<longleftrightarrow> cn_in c \<noteq> None \<and> cn_out c \<noteq> None"

definition out_tag :: "32 word \<Rightarrow> 'u conn \<Rightarrow> bool \<Rightarrow> 32 word" where
  "out_tag tv c first = tv OR (if conn_isrpc c then rpctag else 0) OR (if first then firsttag else 0)"

text \<open>A ticket taken from the channel of tickets; a closed one gives any number of them.\<close>

definition take_ticket :: "'u conn \<Rightarrow> 'u outpc \<Rightarrow> 'u conn option" where
  "take_ticket c pc =
     (if cn_flow c > 0 then Some (c\<lparr>cn_flow := cn_flow c - 1, cn_pc := pc\<rparr>)
      else if cn_flowclosed c then Some (c\<lparr>cn_pc := pc\<rparr>)
      else None)"

definition out_write :: "'u mux \<Rightarrow> 32 word \<Rightarrow> 'u conn \<Rightarrow> bool \<Rightarrow> nat \<Rightarrow> 'u msg \<Rightarrow> 'u mux" where
  "out_write m tv c first n d =
     (if d = MOther then set_conn m tv (c\<lparr>cn_pc := OLoop first (n - 1)\<rparr>)
      else if mx_closed m then
        (set_conn m tv (c\<lparr>cn_pc := OFinish False, cn_outclosed := close_with (Some (mx_werr m)) (cn_outclosed c)\<rparr>))
          \<lparr>mx_err := Some (mx_werr m)\<rparr>
      else wire_put (set_conn m tv (c\<lparr>cn_pc := OLoop False (n - 1)\<rparr>)) (out_tag tv c first) d)"

definition end_msg :: "error \<Rightarrow> 'u msg" where
  "end_msg e = (case e of Some s \<Rightarrow> MErr s | None \<Rightarrow> MBytes [])"

definition out_end :: "'u mux \<Rightarrow> 32 word \<Rightarrow> 'u conn \<Rightarrow> bool \<Rightarrow> 'u mux" where
  "out_end m tv c first =
     (let err = (case cn_outclosed c of Some e \<Rightarrow> e | None \<Rightarrow> None) in
      if mx_closed m then set_conn m tv (c\<lparr>cn_pc := OClose (if err = None then Some (mx_werr m) else err)\<rparr>)
      else wire_put (set_conn m tv (c\<lparr>cn_pc := OClose err\<rparr>)) (out_tag tv c first OR endtag) (end_msg err))"

definition out_step :: "nat \<Rightarrow> 32 word \<Rightarrow> 'u mux \<Rightarrow> 'u mux option" where
  "out_step nbuf tv m =
     (case mx_conns m tv of
        None \<Rightarrow> None
      | Some c \<Rightarrow>
          (case cn_pc c of
             OStart \<Rightarrow> map_option (set_conn m tv) (take_ticket c (OLoop True (nbuf div 2)))
           | OLoop first n \<Rightarrow>
               (case cn_out c of
                  Some (d # ds) \<Rightarrow>
                    Some (set_conn m tv (c\<lparr>cn_out := Some ds, cn_pc := (if n = 0 then OTicket first d else OSend first n d)\<rparr>))
                | _ \<Rightarrow> if cn_outclosed c = None then None else Some (set_conn m tv (c\<lparr>cn_pc := OFinish first\<rparr>)))
           | OTicket first d \<Rightarrow> map_option (set_conn m tv) (take_ticket c (OSend first (nbuf div 2) d))
           | OSend first n d \<Rightarrow>
               Some (if n > nbuf then set_conn m tv (c\<lparr>cn_pc := OPanic\<rparr>) else out_write m tv c first n d)
           | OFinish first \<Rightarrow> Some (out_end m tv c first)
           | OClose err \<Rightarrow>
               Some (set_conn m tv ((if cn_isreply c \<or> \<not> conn_isrpc c \<or> err \<noteq> None then closeConn err c else c)\<lparr>cn_pc := ODone\<rparr>))
           | _ \<Rightarrow> None))"

section \<open>The receiver of a stream\<close>

text \<open>Steps of its own; and a message that the reader takes.\<close>

definition flow_step :: "nat \<Rightarrow> 32 word \<Rightarrow> 'u mux \<Rightarrow> 'u mux option" where
  "flow_step nbuf tv m =
     (case mx_conns m tv of
        None \<Rightarrow> None
      | Some c \<Rightarrow>
          (case cn_fpc c of
             FIdle n \<Rightarrow>
               (case cn_in c of
                  Some (d # ds) \<Rightarrow> Some (set_conn m tv (c\<lparr>cn_in := Some ds, cn_fpc := FHold n d\<rparr>))
                | _ \<Rightarrow>
                    (case cn_inclosed c of
                       None \<Rightarrow> None
                     | Some e \<Rightarrow> Some (set_conn m tv (c\<lparr>cn_uinclosed := close_with e (cn_uinclosed c), cn_fpc := FClosed\<rparr>))))
           | FHold n d \<Rightarrow>
               (case cn_uinclosed c of
                  None \<Rightarrow> None
                | Some e \<Rightarrow> Some (set_conn m tv (c\<lparr>cn_inclosed := close_with e (cn_inclosed c), cn_fpc := FGone\<rparr>)))
           | FGrant \<Rightarrow>
               (let m' = set_conn m tv (c\<lparr>cn_fpc := FIdle 0\<rparr>) in
                Some (if mx_closed m then m' else wire_put m' (tv OR flowtag) (MBytes [])))
           | _ \<Rightarrow> None))"

definition read_step :: "nat \<Rightarrow> 32 word \<Rightarrow> 'u mux \<Rightarrow> 'u mux option" where
  "read_step nbuf tv m =
     (case mx_conns m tv of
        None \<Rightarrow> None
      | Some c \<Rightarrow>
          (case cn_fpc c of
             FHold n d \<Rightarrow>
               if cn_uinclosed c \<noteq> None then None
               else Some (set_conn m tv (c\<lparr>cn_got := cn_got c @ [d], cn_fpc := (if n + 1 = nbuf div 2 then FGrant else FIdle (n + 1))\<rparr>))
           | FNone \<Rightarrow>
               (case cn_in c of
                  Some (d # ds) \<Rightarrow> Some (set_conn m tv (c\<lparr>cn_in := Some ds, cn_got := cn_got c @ [d]\<rparr>))
                | _ \<Rightarrow> None)
           | _ \<Rightarrow> None))"

text \<open>The process that posts a ticket; the channel of tickets holds 3.\<close>

definition grant_step :: "32 word \<Rightarrow> 'u mux \<Rightarrow> 'u mux option" where
  "grant_step tv m =
     (case mx_conns m tv of
        None \<Rightarrow> None
      | Some c \<Rightarrow>
          if cn_grants c = 0 then None
          else if cn_flowclosed c then Some (set_conn m tv (c\<lparr>cn_grants := cn_grants c - 1\<rparr>))
          else if cn_flow c < 3 then Some (set_conn m tv (c\<lparr>cn_grants := cn_grants c - 1, cn_flow := cn_flow c + 1\<rparr>))
          else None)"

section \<open>The reader of the device\<close>

definition mux_Close :: "'u mux \<Rightarrow> 'u mux" where
  "mux_Close m =
     (let err = (if mx_err m = None then Some ''mux closed by user'' else mx_err m) in
      m\<lparr>mx_err := err, mx_Inclosed := close_with err (mx_Inclosed m), mx_closed := True,
        mx_conns := (\<lambda>t. case mx_conns m t of
          None \<Rightarrow> None | Some c \<Rightarrow> Some (if cn_live c then closeConn err c else c))\<rparr>)"

text \<open>
  The first message of a new connection.  The channel of new connections holds 10.
\<close>

definition demux_new :: "32 word \<Rightarrow> 'u msg \<Rightarrow> 'u mux \<Rightarrow> 'u mux option" where
  "demux_new tag d m =
     (let tv = tagv tag; rpc = has_tag tag rpctag;
          mc = (newConn (Some [d]) (if rpc then Some [] else None))\<lparr>cn_flowclosed := \<not> rpc, cn_fpc := FIdle 0\<rparr>
      in if mx_Inclosed m \<noteq> None then
           (let err = (case the (mx_Inclosed m) of None \<Rightarrow> Some ''mux.In is closed'' | Some e \<Rightarrow> Some e) in
            Some (mux_Close ((set_conn m tv (closeConn err mc))\<lparr>mx_err := err\<rparr>)))
         else if length (mx_In m) < 10 then
           Some ((set_conn m tv (mc\<lparr>cn_pc := (if rpc then OStart else ONone), cn_isreply := rpc\<rparr>))\<lparr>mx_In := mx_In m @ [tv]\<rparr>)
         else None)"

definition msg_err :: "'u msg \<Rightarrow> error" where
  "msg_err d = (case d of MErr s \<Rightarrow> Some s | _ \<Rightarrow> None)"

definition demux_old :: "nat \<Rightarrow> 32 word \<Rightarrow> 'u msg \<Rightarrow> 'u conn \<Rightarrow> 'u conn option" where
  "demux_old nbuf tag d mc =
     (if has_tag tag flowtag then Some (mc\<lparr>cn_grants := cn_grants mc + 1\<rparr>)
      else if has_tag tag endtag then
        Some (if \<not> has_tag tag rpctag then closeConn (msg_err d) mc
              else mc\<lparr>cn_flowclosed := True, cn_inclosed := close_with (msg_err d) (cn_inclosed mc)\<rparr>)
      else (case cn_in mc of
          None \<Rightarrow> Some mc
        | Some ds \<Rightarrow>
            (case cn_inclosed mc of
               Some e \<Rightarrow> Some (closeConn e mc)
             | None \<Rightarrow> if length ds < nbuf then Some (mc\<lparr>cn_in := Some (ds @ [d])\<rparr>) else None)))"

definition demux :: "nat \<Rightarrow> 32 word \<times> 'u msg \<Rightarrow> 'u mux \<Rightarrow> 'u mux option" where
  "demux nbuf x m =
     (let (tag, d) = x; tv = tagv tag in
      if mx_closed m then None
      else (case mx_conns m tv of
          None \<Rightarrow> if \<not> has_tag tag firsttag then Some m else demux_new tag d m
        | Some mc \<Rightarrow>
            if cn_live mc then map_option (set_conn m tv) (demux_old nbuf tag d mc)
            else if \<not> has_tag tag firsttag then Some m else demux_new tag d m))"

section \<open>Users\<close>

definition user_send :: "nat \<Rightarrow> 32 word \<Rightarrow> 'u msg \<Rightarrow> 'u mux \<Rightarrow> 'u mux option" where
  "user_send nbuf tv d m =
     (case mx_conns m tv of
        None \<Rightarrow> None
      | Some c \<Rightarrow>
          (case cn_out c of
             Some ds \<Rightarrow>
               if cn_outclosed c = None \<and> length ds < nbuf
               then Some (set_conn m tv (c\<lparr>cn_out := Some (ds @ [d]), cn_sent := cn_sent c @ [d]\<rparr>)) else None
           | None \<Rightarrow> None))"

definition user_close :: "32 word \<Rightarrow> error \<Rightarrow> 'u mux \<Rightarrow> 'u mux option" where
  "user_close tv e m =
     (case mx_conns m tv of
        None \<Rightarrow> None
      | Some c \<Rightarrow> Some (set_conn m tv (c\<lparr>cn_outclosed := close_with e (cn_outclosed c)\<rparr>)))"

text \<open>A reader closes the channel it reads: that of \<open>flowproc\<close>, or that of the replies to a call.\<close>

definition reader_close :: "32 word \<Rightarrow> error \<Rightarrow> 'u mux \<Rightarrow> 'u mux option" where
  "reader_close tv e m =
     (case mx_conns m tv of
        None \<Rightarrow> None
      | Some c \<Rightarrow>
          Some (set_conn m tv (if cn_fpc c = FNone then c\<lparr>cn_inclosed := close_with e (cn_inclosed c)\<rparr>
                               else c\<lparr>cn_uinclosed := close_with e (cn_uinclosed c)\<rparr>)))"

definition user_accept :: "'u mux \<Rightarrow> 'u mux option" where
  "user_accept m = (if mx_In m = [] then None else Some (m\<lparr>mx_In := tl (mx_In m)\<rparr>))"

definition close_In :: "error \<Rightarrow> 'u mux \<Rightarrow> 'u mux option" where
  "close_In e m = Some (m\<lparr>mx_Inclosed := close_with e (mx_Inclosed m)\<rparr>)"

section \<open>Two ends\<close>

datatype 'u mux_act =
  AOut | ARpc | ASend "32 word" "'u msg" | AClose "32 word" error | ARead "32 word" | AReaderClose "32 word" error
| AAccept | ACloseIn error | AMuxClose | AOutStep "32 word" | AFlowStep "32 word" | AGrant "32 word"

definition mux_act :: "nat \<Rightarrow> 'u mux_act \<Rightarrow> 'u mux \<Rightarrow> 'u mux option" where
  "mux_act nbuf x m =
     (case x of
        AOut \<Rightarrow> mux_Out m | ARpc \<Rightarrow> mux_Rpc m
      | ASend t d \<Rightarrow> user_send nbuf t d m | AClose t e \<Rightarrow> user_close t e m
      | ARead t \<Rightarrow> read_step nbuf t m | AReaderClose t e \<Rightarrow> reader_close t e m
      | AAccept \<Rightarrow> user_accept m | ACloseIn e \<Rightarrow> close_In e m | AMuxClose \<Rightarrow> Some (mux_Close m)
      | AOutStep t \<Rightarrow> out_step nbuf t m | AFlowStep t \<Rightarrow> flow_step nbuf t m | AGrant t \<Rightarrow> grant_step t m)"

text \<open>
  The two ends, by a boolean: what one does, and a message of its wire that the other reads.
\<close>

type_synonym 'u muxes = "'u mux \<times> 'u mux"

datatype 'u sys_act = Act bool "'u mux_act" | Deliver bool

fun sys_step :: "nat \<Rightarrow> 'u sys_act \<Rightarrow> 'u muxes \<Rightarrow> 'u muxes option" where
  "sys_step nbuf (Act True x) (a, b) = map_option (\<lambda>a'. (a', b)) (mux_act nbuf x a)"
| "sys_step nbuf (Act False x) (a, b) = map_option (\<lambda>b'. (a, b')) (mux_act nbuf x b)"
| "sys_step nbuf (Deliver True) (a, b) =
     (case mx_wire a of
        [] \<Rightarrow> None
      | x # w \<Rightarrow> map_option (\<lambda>b'. (a\<lparr>mx_wire := w\<rparr>, b')) (demux nbuf x b))"
| "sys_step nbuf (Deliver False) (a, b) =
     (case mx_wire b of
        [] \<Rightarrow> None
      | x # w \<Rightarrow> map_option (\<lambda>a'. (a', b\<lparr>mx_wire := w\<rparr>)) (demux nbuf x a))"

inductive mux_reach :: "nat \<Rightarrow> 'u muxes \<Rightarrow> bool" for nbuf where
  init: "mux_reach nbuf (NewMux True ea, NewMux False eb)"
| step: "mux_reach nbuf s \<Longrightarrow> sys_step nbuf x s = Some s' \<Longrightarrow> mux_reach nbuf s'"

text \<open>A schedule of actions.\<close>

fun sys_run :: "nat \<Rightarrow> 'u sys_act list \<Rightarrow> 'u muxes \<Rightarrow> 'u muxes option" where
  "sys_run nbuf [] s = Some s"
| "sys_run nbuf (x # xs) s = (case sys_step nbuf x s of None \<Rightarrow> None | Some s' \<Rightarrow> sys_run nbuf xs s')"

lemma run_reach: "mux_reach nbuf s \<Longrightarrow> sys_run nbuf xs s = Some s' \<Longrightarrow> mux_reach nbuf s'"
  by (induction xs arbitrary: s) (auto split: option.splits intro: mux_reach.step)

end
