(* ===== verification/MuxInv.thy ===== *)
theory MuxInv
  imports Mux "HOL-Library.Sublist"
begin

text \<open>
  A stream with no reply, seen at both ends: the invariants of the sender's connection, of its messages on
  the wire and of the receiver's connection, one for flow control and one for the messages themselves.
\<close>

section \<open>Tags\<close>

lemma bit_tags [simp]:
  "bit firsttag k \<longleftrightarrow> k = 31" "bit rpctag k \<longleftrightarrow> k = 30" "bit flowtag k \<longleftrightarrow> k = 29" "bit endtag k \<longleftrightarrow> k = 28"
  unfolding firsttag_def rpctag_def flowtag_def endtag_def bit_push_bit_iff by (auto simp: bit_1_iff)

lemma bit_mask [simp]: "bit tagmask k \<longleftrightarrow> k \<in> {28, 29, 30, 31}"
  by (auto simp: tagmask_def bit_simps)

lemma has_tag_bit [simp]:
  "has_tag w firsttag = bit w 31" "has_tag w rpctag = bit w 30" "has_tag w flowtag = bit w 29" "has_tag w endtag = bit w 28"
  unfolding has_tag_def bit_eq_iff by (auto simp: bit_simps)

definition tag_ok :: "32 word \<Rightarrow> bool" where "tag_ok t \<longleftrightarrow> tagv t = t"

lemma tag_ok_bits: "tag_ok t \<Longrightarrow> \<not> bit t 28 \<and> \<not> bit t 29 \<and> \<not> bit t 30 \<and> \<not> bit t 31"
  by (metis (no_types) bit_mask bit_and_iff bit_not_iff insertCI tag_ok_def tagv_def)

lemma tag_ok_tagv: "tag_ok (tagv w)"
  unfolding tag_ok_def tagv_def bit_eq_iff by (auto simp: bit_simps)

lemma tag_okI: "\<not> bit t 28 \<Longrightarrow> \<not> bit t 29 \<Longrightarrow> \<not> bit t 30 \<Longrightarrow> \<not> bit t 31 \<Longrightarrow> tag_ok t"
  unfolding tag_ok_def tagv_def bit_eq_iff by (auto simp: bit_simps)

lemma tagv_or:
  "tag_ok t \<Longrightarrow> tagv (out_tag t c f) = t" "tag_ok t \<Longrightarrow> tagv (out_tag t c f OR endtag) = t" "tag_ok t \<Longrightarrow> tagv (t OR flowtag) = t"
  using tag_ok_bits[of t] unfolding tagv_def out_tag_def bit_eq_iff by (auto simp: bit_simps)

lemma bits_out_tag:
  assumes "tag_ok t"
  shows "bit (out_tag t c f) 31 = f" "bit (out_tag t c f) 30 = conn_isrpc c" "\<not> bit (out_tag t c f) 29" "\<not> bit (out_tag t c f) 28"
  using tag_ok_bits[OF assms] by (auto simp: out_tag_def bit_simps)

lemma next_tag_ok:
  "tag_ok (next_tag w)" "bit (next_tag w) 0 = bit w 0"
proof -
  have z: "x AND tagmask = 0 \<longleftrightarrow> tag_ok x" for x :: "32 word"
    unfolding tag_ok_def tagv_def bit_eq_iff by (auto simp: bit_simps)
  have p: "bit (x + 2) 0 = bit x 0" for x :: "32 word" by (simp add: bit_0)
  show "bit (next_tag w) 0 = bit w 0" by (simp add: next_tag_def Let_def p bit_simps)
  show "tag_ok (next_tag w)"
  proof (cases "(w + 2) AND tagmask = 0")
    case True
    then show ?thesis by (simp add: next_tag_def z)
  next
    case False
    have "w AND 1 = 0 \<or> w AND 1 = 1" by (simp add: and_one_eq mod_2_eq_odd)
    moreover have "tag_ok 2" "tag_ok 3" by (intro tag_okI; simp)+
    ultimately show ?thesis using False by (auto simp: next_tag_def)
  qed
qed

section \<open>A stream\<close>

text \<open>
  The sender's connection and whether its end is open, the messages of the stream on the wire (whether each has
  the mark of the first and of the last one), the grants on their way back, and the receiver's connection, if there
  is one yet, and whether its end is open.
\<close>

record 'u strm =
  sm_ca :: "'u conn"
  sm_up :: bool
  sm_V :: "(bool \<times> bool \<times> 'u msg) list"
  sm_n :: nat
  sm_cb :: "'u conn option"
  sm_qup :: bool

fun pc_first :: "'u outpc \<Rightarrow> bool list" where
  "pc_first OStart = [True]"
| "pc_first (OLoop f n) = [f]"
| "pc_first (OTicket f d) = [f]"
| "pc_first (OSend f n d) = [f]"
| "pc_first (OFinish f) = [f]"
| "pc_first _ = []"

fun pc_cur :: "'u outpc \<Rightarrow> 'u msg list" where
  "pc_cur (OTicket f d) = [d]"
| "pc_cur (OSend f n d) = [d]"
| "pc_cur _ = []"

fun pc_done :: "'u outpc \<Rightarrow> bool" where
  "pc_done (OClose e) = True"
| "pc_done ODone = True"
| "pc_done _ = False"

definition pc_ended :: "'u outpc \<Rightarrow> bool" where
  "pc_ended pc \<longleftrightarrow> pc_done pc \<or> (\<exists>f. pc = OFinish f)"

text \<open>How many messages it may still send, at most; a first message is always possible, if only the last one.\<close>

fun pc_own :: "'u outpc \<Rightarrow> nat" where
  "pc_own (OLoop f n) = (if f then max n 1 else n)"
| "pc_own (OTicket f d) = (if f then 1 else 0)"
| "pc_own (OSend f n d) = (if f then max n 1 else n)"
| "pc_own (OFinish f) = (if f then 1 else 0)"
| "pc_own _ = 0"

definition outs :: "'u conn \<Rightarrow> 'u msg list" where "outs c = (case cn_out c of None \<Rightarrow> [] | Some ds \<Rightarrow> ds)"
definition ins :: "'u conn \<Rightarrow> 'u msg list" where "ins c = (case cn_in c of None \<Rightarrow> [] | Some ds \<Rightarrow> ds)"

definition sendable :: "'u msg list \<Rightarrow> 'u msg list" where "sendable ms = filter (\<lambda>m. m \<noteq> MOther) ms"

text \<open>
  What the sender says: the messages that its user sent, but those that cannot be written; when there are none, the
  last message, which is then taken for data.
\<close>

definition said :: "'u conn \<Rightarrow> 'u msg list" where
  "said c = (if sendable (cn_sent c) = [] \<and> pc_done (cn_pc c) then [end_msg (the (cn_outclosed c))] else sendable (cn_sent c))"

text \<open>What the receiver has, and what it has taken and not granted yet.\<close>

definition has :: "'u conn option \<Rightarrow> 'u msg list" where
  "has ocb = (case ocb of
      None \<Rightarrow> []
    | Some cb \<Rightarrow> cn_got cb @ (case cn_fpc cb of FGone \<Rightarrow> [] | FHold n d \<Rightarrow> d # ins cb | _ \<Rightarrow> ins cb))"

definition at_cb :: "nat \<Rightarrow> 'u conn option \<Rightarrow> nat" where
  "at_cb h ocb = (case ocb of
      None \<Rightarrow> 0
    | Some cb \<Rightarrow> length (ins cb) + (case cn_fpc cb of FIdle n \<Rightarrow> n | FHold n d \<Rightarrow> n + 1 | FGrant \<Rightarrow> h | _ \<Rightarrow> 0))"

definition cb_open :: "'u conn option \<Rightarrow> bool" where
  "cb_open ocb \<longleftrightarrow> (case ocb of None \<Rightarrow> True | Some cb \<Rightarrow> cn_inclosed cb = None)"

definition cb_ended :: "'u conn option \<Rightarrow> bool \<Rightarrow> bool" where
  "cb_ended ocb qup \<longleftrightarrow> (case ocb of None \<Rightarrow> False | Some cb \<Rightarrow> cn_inclosed cb \<noteq> None \<and> qup \<and> cn_fpc cb \<noteq> FGone)"

text \<open>The messages on the wire that arrive as data.\<close>

definition vdata :: "(bool \<times> bool \<times> 'u msg) list \<Rightarrow> 'u msg list" where
  "vdata V = map (\<lambda>(f, e, d). d) (filter (\<lambda>(f, e, d). f \<or> \<not> e) V)"

definition firsts :: "'u strm \<Rightarrow> bool list" where
  "firsts s = map fst (sm_V s) @ (if sm_up s then pc_first (cn_pc (sm_ca s)) else [])"

definition has_end :: "(bool \<times> bool \<times> 'u msg) list \<Rightarrow> bool" where
  "has_end V \<longleftrightarrow> (\<exists>x\<in>set V. fst (snd x))"

definition ca_ok :: "nat \<Rightarrow> 'u strm \<Rightarrow> bool" where
  "ca_ok h s \<longleftrightarrow> (let c = sm_ca s in
     cn_in c = None \<and> cn_out c \<noteq> None \<and> cn_fpc c = FNone \<and> cn_pc c \<noteq> ONone \<and> cn_pc c \<noteq> OPanic \<and>
     (\<forall>f n. cn_pc c = OLoop f n \<longrightarrow> n \<le> h) \<and> (\<forall>f n d. cn_pc c = OSend f n d \<longrightarrow> 1 \<le> n \<and> n \<le> h) \<and>
     (pc_ended (cn_pc c) \<longrightarrow> cn_outclosed c \<noteq> None) \<and> (cn_flowclosed c \<and> sm_up s \<longrightarrow> cn_pc c = ODone))"

definition cb_ok :: "'u strm \<Rightarrow> bool" where
  "cb_ok s \<longleftrightarrow> (\<forall>c. sm_cb s = Some c \<longrightarrow>
     cn_in c \<noteq> None \<and> cn_out c = None \<and> cn_fpc c \<noteq> FNone \<and> cn_pc c = ONone \<and> (cn_live c \<or> cn_inclosed c \<noteq> None) \<and>
     (cn_fpc c = FClosed \<longrightarrow> cn_in c = Some [] \<and> cn_inclosed c \<noteq> None) \<and> (cn_fpc c = FGone \<longrightarrow> cn_inclosed c \<noteq> None))"

definition first_order :: "bool \<Rightarrow> bool list \<Rightarrow> bool" where
  "first_order new l \<longleftrightarrow> (if new then l = [] \<or> hd l \<and> (\<forall>x\<in>set (tl l). \<not> x) else \<forall>x\<in>set l. \<not> x)"

definition firsts_ok :: "'u strm \<Rightarrow> bool" where
  "firsts_ok s \<longleftrightarrow> first_order (sm_cb s = None) (firsts s)"

definition ends_ok :: "'u strm \<Rightarrow> bool" where
  "ends_ok s \<longleftrightarrow> (\<forall>x\<in>set (butlast (sm_V s)). \<not> fst (snd x)) \<and> (has_end (sm_V s) \<longrightarrow> pc_done (cn_pc (sm_ca s)))"

text \<open>Flow control: no more than the buffer holds is sent, on the wire, in the buffer, or taken and not granted.\<close>

definition credit_ok :: "nat \<Rightarrow> 'u strm \<Rightarrow> bool" where
  "credit_ok h s \<longleftrightarrow>
     (if sm_up s then pc_own (cn_pc (sm_ca s)) + h * (cn_flow (sm_ca s) + cn_grants (sm_ca s)) else 0) +
     h * sm_n s + length (vdata (sm_V s)) + at_cb h (sm_cb s) \<le> 2 * h"

text \<open>The messages: the receiver has a prefix of what is said; the rest is on its way.\<close>

definition sure :: "'u strm \<Rightarrow> bool" where "sure s \<longleftrightarrow> sm_up s \<or> has_end (sm_V s)"

definition sent_ok :: "'u strm \<Rightarrow> bool" where
  "sent_ok s \<longleftrightarrow> (let c = sm_ca s in
     (sure s \<and> pc_ended (cn_pc c) \<longrightarrow> outs c = []) \<and>
     (sm_up s \<and> pc_first (cn_pc c) = [False] \<longrightarrow> sendable (cn_sent c) \<noteq> []) \<and>
     set (pc_cur (cn_pc c)) \<union> set (outs c) \<subseteq> set (cn_sent c))"

definition data_ok :: "'u strm \<Rightarrow> bool" where
  "data_ok s \<longleftrightarrow> (let c = sm_ca s in
     prefix (has (sm_cb s)) (said c) \<and>
     (cb_open (sm_cb s) \<longrightarrow> prefix (has (sm_cb s) @ vdata (sm_V s)) (said c)) \<and>
     (sure s \<and> cb_open (sm_cb s) \<longrightarrow>
        has (sm_cb s) @ vdata (sm_V s) @ sendable (pc_cur (cn_pc c)) @ sendable (outs c) = said c) \<and>
     (cb_ended (sm_cb s) (sm_qup s) \<longrightarrow>
        has (sm_cb s) = said c \<and> pc_done (cn_pc c) \<and> sm_V s = []))"

definition strm_ok :: "nat \<Rightarrow> 'u strm \<Rightarrow> bool" where
  "strm_ok h s \<longleftrightarrow> ca_ok h s \<and> cb_ok s \<and> firsts_ok s \<and> ends_ok s \<and> credit_ok h s \<and> sent_ok s \<and> data_ok s"

lemmas strm_defs = strm_ok_def ca_ok_def cb_ok_def firsts_ok_def ends_ok_def credit_ok_def sent_ok_def data_ok_def Let_def

lemma vdata_simps [simp]: "vdata [] = []" "vdata (x # V) = (if fst x \<or> \<not> fst (snd x) then [snd (snd x)] else []) @ vdata V"
  "vdata (V @ W) = vdata V @ vdata W"
  by (auto simp: vdata_def split: prod.splits)

lemma sendable_simps [simp]: "sendable [] = []" "sendable (m # ms) = (if m = MOther then [] else [m]) @ sendable ms"
  "sendable (ms @ ns) = sendable ms @ sendable ns"
  by (auto simp: sendable_def)

lemma has_end_simps [simp]: "has_end [] = False" "has_end (x # V) = (fst (snd x) \<or> has_end V)" "has_end (V @ W) = (has_end V \<or> has_end W)"
  by (auto simp: has_end_def)

section \<open>The sender\<close>

lemma strm_okI:
  assumes "ca_ok h s" "cb_ok s" "firsts_ok s" "ends_ok s" "credit_ok h s" "sent_ok s" "data_ok s"
  shows "strm_ok h s"
  using assms by (simp add: strm_ok_def)

lemma strm_okD:
  assumes "strm_ok h s"
  shows "ca_ok h s" "cb_ok s" "firsts_ok s" "ends_ok s" "credit_ok h s" "sent_ok s" "data_ok s"
  using assms by (simp_all add: strm_ok_def)

lemma not_ended: "ca_ok h s \<Longrightarrow> cn_outclosed (sm_ca s) = None \<Longrightarrow> \<not> pc_ended (cn_pc (sm_ca s)) \<and> \<not> pc_done (cn_pc (sm_ca s))"
  by (auto simp: ca_ok_def Let_def pc_ended_def)

lemma firsts_same: "cn_pc c = cn_pc (sm_ca s) \<Longrightarrow> firsts (s\<lparr>sm_ca := c\<rparr>) = firsts s"
  by (simp add: firsts_def)

lemma sure_same [simp]: "sure (s\<lparr>sm_ca := c\<rparr>) = sure s"
  by (simp add: sure_def)

lemma outs_same: "cn_out c = cn_out c' \<Longrightarrow> outs c = outs c'"
  by (simp add: outs_def)

text \<open>Changes of the sender's connection that are not seen from the stream.\<close>

lemma ca_frame:
  assumes ok: "strm_ok h s" and c: "cn_pc c = cn_pc (sm_ca s)" "cn_in c = cn_in (sm_ca s)" "cn_out c = cn_out (sm_ca s)"
    "cn_fpc c = cn_fpc (sm_ca s)" "cn_sent c = cn_sent (sm_ca s)" "cn_flowclosed c = cn_flowclosed (sm_ca s)"
    "cn_outclosed (sm_ca s) \<noteq> None \<Longrightarrow> cn_outclosed c = cn_outclosed (sm_ca s)"
    "cn_flow c + cn_grants c \<le> cn_flow (sm_ca s) + cn_grants (sm_ca s)"
  shows "strm_ok h (s\<lparr>sm_ca := c\<rparr>)"
proof -
  note I = strm_okD[OF ok]
  have e: "pc_ended (cn_pc (sm_ca s)) \<Longrightarrow> cn_outclosed c = cn_outclosed (sm_ca s) \<and> cn_outclosed (sm_ca s) \<noteq> None"
    using I(1) c(7) by (simp add: ca_ok_def Let_def)
  then have sd: "said c = said (sm_ca s)" by (auto simp: said_def pc_ended_def c)
  have o: "outs c = outs (sm_ca s)" by (rule outs_same) (rule c)
  show ?thesis
  proof (rule strm_okI)
    show "ca_ok h (s\<lparr>sm_ca := c\<rparr>)" using I(1) e by (simp add: ca_ok_def Let_def c)
    show "data_ok (s\<lparr>sm_ca := c\<rparr>)" using I(7) by (simp add: data_ok_def Let_def sd o c)
    show "sent_ok (s\<lparr>sm_ca := c\<rparr>)" using I(6) by (simp add: sent_ok_def Let_def o c)
    show "firsts_ok (s\<lparr>sm_ca := c\<rparr>)" using I(3) by (simp add: firsts_ok_def firsts_same c)
    obtain k where k: "cn_flow (sm_ca s) + cn_grants (sm_ca s) = cn_flow c + cn_grants c + k" using c(8) le_Suc_ex by blast
    show "credit_ok h (s\<lparr>sm_ca := c\<rparr>)" using I(5) by (simp add: credit_ok_def c k distrib_left split: if_splits)
  qed (use I in \<open>simp_all add: cb_ok_def ends_ok_def c\<close>)
qed

lemma sm_user_send:
  assumes "strm_ok h s" and "cn_outclosed (sm_ca s) = None" and "cn_out (sm_ca s) = Some ds"
  shows "strm_ok h (s\<lparr>sm_ca := (sm_ca s)\<lparr>cn_out := Some (ds @ [d]), cn_sent := cn_sent (sm_ca s) @ [d]\<rparr>\<rparr>)"
proof -
  note I = strm_okD[OF assms(1)]
  let ?c = "(sm_ca s)\<lparr>cn_out := Some (ds @ [d]), cn_sent := cn_sent (sm_ca s) @ [d]\<rparr>"
  note ne = not_ended[OF I(1) assms(2)]
  have o: "outs (sm_ca s) = ds" "outs ?c = ds @ [d]" by (simp_all add: outs_def assms(3))
  have sd: "said ?c = said (sm_ca s) @ sendable [d]" using ne by (simp add: said_def)
  have nd: "\<not> pc_done (cn_pc (sm_ca s))" using ne by simp
  show ?thesis
  proof (rule strm_okI)
    show "sent_ok (s\<lparr>sm_ca := ?c\<rparr>)" using I(6) ne by (auto simp: sent_ok_def Let_def o)
    show "data_ok (s\<lparr>sm_ca := ?c\<rparr>)"
      using I(7) nd sd o unfolding data_ok_def Let_def
      by (auto simp del: sendable_simps(2) intro: prefix_prefix simp flip: append_assoc)
    show "firsts_ok (s\<lparr>sm_ca := ?c\<rparr>)" using I(3) by (simp add: firsts_ok_def firsts_def split: if_splits)
    show "credit_ok h (s\<lparr>sm_ca := ?c\<rparr>)" using I(5) by (simp add: credit_ok_def split: if_splits)
  qed (use I in \<open>simp_all add: ca_ok_def cb_ok_def ends_ok_def Let_def\<close>)
qed

lemma close_with_simps [simp]: "close_with e x \<noteq> None" "\<exists>y. close_with e x = Some y" "close_with e (Some y) = Some y"
  by (auto simp: close_with_def split: option.splits)

lemma sm_user_close:
  "strm_ok h s \<Longrightarrow> strm_ok h (s\<lparr>sm_ca := (sm_ca s)\<lparr>cn_outclosed := close_with e (cn_outclosed (sm_ca s))\<rparr>\<rparr>)"
  by (erule ca_frame) auto

lemma sm_reader_close:
  "strm_ok h s \<Longrightarrow> strm_ok h (s\<lparr>sm_ca := (sm_ca s)\<lparr>cn_inclosed := e\<rparr>\<rparr>)"
  by (erule ca_frame) auto

lemma sm_grant:
  assumes "strm_ok h s" and "cn_grants (sm_ca s) > 0" and "k \<le> 1"
  shows "strm_ok h (s\<lparr>sm_ca := (sm_ca s)\<lparr>cn_grants := cn_grants (sm_ca s) - 1, cn_flow := cn_flow (sm_ca s) + k\<rparr>\<rparr>)"
  using assms by (intro ca_frame) auto

lemma sm_flow_arrives:
  assumes "strm_ok h s" and "sm_n s = Suc k"
  shows "strm_ok h (s\<lparr>sm_ca := (sm_ca s)\<lparr>cn_grants := Suc (cn_grants (sm_ca s))\<rparr>, sm_n := k\<rparr>)"
proof -
  note I = strm_okD[OF assms(1)]
  let ?c = "(sm_ca s)\<lparr>cn_grants := Suc (cn_grants (sm_ca s))\<rparr>"
  have sd: "said ?c = said (sm_ca s)" "outs ?c = outs (sm_ca s)" by (simp_all add: said_def outs_def)
  have f: "firsts (s\<lparr>sm_ca := ?c, sm_n := k\<rparr>) = firsts s" by (simp add: firsts_def)
  have su: "sure (s\<lparr>sm_ca := ?c, sm_n := k\<rparr>) = sure s" by (simp add: sure_def)
  show ?thesis
  proof (rule strm_okI)
    show "credit_ok h (s\<lparr>sm_ca := ?c, sm_n := k\<rparr>)" using I(5) assms(2) by (auto simp: credit_ok_def algebra_simps split: if_splits)
    show "firsts_ok (s\<lparr>sm_ca := ?c, sm_n := k\<rparr>)" using I(3) by (simp add: firsts_ok_def f)
    show "sent_ok (s\<lparr>sm_ca := ?c, sm_n := k\<rparr>)" using I(6) by (simp add: sent_ok_def Let_def su sd)
    show "data_ok (s\<lparr>sm_ca := ?c, sm_n := k\<rparr>)" using I(7) by (simp add: data_ok_def Let_def su sd)
  qed (use I in \<open>simp_all add: ca_ok_def cb_ok_def ends_ok_def Let_def\<close>)
qed

lemma sm_flow_lost:
  assumes "strm_ok h s" and "sm_n s = Suc k"
  shows "strm_ok h (s\<lparr>sm_n := k\<rparr>)"
proof -
  note I = strm_okD[OF assms(1)]
  have f: "firsts (s\<lparr>sm_n := k\<rparr>) = firsts s" "sure (s\<lparr>sm_n := k\<rparr>) = sure s" by (simp_all add: firsts_def sure_def)
  show ?thesis
  proof (rule strm_okI)
    show "credit_ok h (s\<lparr>sm_n := k\<rparr>)" using I(5) assms(2) by (auto simp: credit_ok_def split: if_splits)
  qed (use I f in \<open>simp_all add: ca_ok_def cb_ok_def ends_ok_def firsts_ok_def sent_ok_def data_ok_def Let_def\<close>)
qed

text \<open>Steps of the sender that write nothing.\<close>

lemma pc_move:
  assumes ok: "strm_ok h s" and ca: "ca_ok h (s\<lparr>sm_ca := c\<rparr>)" and sent: "cn_sent c = cn_sent (sm_ca s)"
    and nd: "\<not> pc_done (cn_pc (sm_ca s))" "\<not> pc_done (cn_pc c)"
    and first: "sm_up s \<Longrightarrow> pc_first (cn_pc c) = pc_first (cn_pc (sm_ca s))"
    and credit: "sm_up s \<Longrightarrow> pc_own (cn_pc c) + h * (cn_flow c + cn_grants c) \<le>
      pc_own (cn_pc (sm_ca s)) + h * (cn_flow (sm_ca s) + cn_grants (sm_ca s))"
    and data: "sm_up s \<Longrightarrow> sendable (pc_cur (cn_pc c)) @ sendable (outs c) =
      sendable (pc_cur (cn_pc (sm_ca s))) @ sendable (outs (sm_ca s))"
    and sub: "set (pc_cur (cn_pc c)) \<union> set (outs c) \<subseteq> set (pc_cur (cn_pc (sm_ca s))) \<union> set (outs (sm_ca s))"
    and empty: "sm_up s \<Longrightarrow> pc_ended (cn_pc c) \<Longrightarrow> outs c = []"
  shows "strm_ok h (s\<lparr>sm_ca := c\<rparr>)"
proof -
  note I = strm_okD[OF ok]
  have sd: "said c = said (sm_ca s)" using nd by (simp add: said_def sent)
  have he: "\<not> has_end (sm_V s)" using I(4) nd by (simp add: ends_ok_def)
  have su: "sure s = sm_up s" using he by (simp add: sure_def)
  show ?thesis
  proof (rule strm_okI)
    show "firsts_ok (s\<lparr>sm_ca := c\<rparr>)" using I(3) first by (cases "sm_up s") (simp_all add: firsts_ok_def firsts_def)
    show "credit_ok h (s\<lparr>sm_ca := c\<rparr>)" using I(5) credit by (cases "sm_up s") (simp_all add: credit_ok_def split: if_splits)
    show "sent_ok (s\<lparr>sm_ca := c\<rparr>)"
      using I(6) sub empty first unfolding sent_ok_def Let_def by (auto simp: su sent)
    have no_cur: "sure s \<and> cb_open (sm_cb s) \<longrightarrow>
        has (sm_cb s) @ vdata (sm_V s) @ sendable (pc_cur (cn_pc c)) @ sendable (outs c) = said (sm_ca s)"
      using I(7) data by (simp add: data_ok_def Let_def su)
    show "data_ok (s\<lparr>sm_ca := c\<rparr>)" using I(7) no_cur nd by (simp add: data_ok_def Let_def sd)
  qed (use I ca he in \<open>simp_all add: cb_ok_def ends_ok_def\<close>)
qed

lemma sm_ticket:
  assumes ok: "strm_ok h s" and pc: "cn_pc (sm_ca s) = OStart \<and> pc' = OLoop True h \<or> cn_pc (sm_ca s) = OTicket f d \<and> pc' = OSend f h d"
    and t: "take_ticket (sm_ca s) pc' = Some c" and h: "1 \<le> h"
  shows "strm_ok h (s\<lparr>sm_ca := c\<rparr>)"
proof (rule pc_move[OF ok])
  note I = strm_okD[OF ok]
  have c: "c = (sm_ca s)\<lparr>cn_pc := pc'\<rparr> \<and> cn_flowclosed (sm_ca s) \<or> (\<exists>k. cn_flow (sm_ca s) = Suc k \<and> c = (sm_ca s)\<lparr>cn_flow := k, cn_pc := pc'\<rparr>)"
    using t by (auto simp: take_ticket_def gr0_conv_Suc split: if_splits)
  have fc: "sm_up s \<Longrightarrow> \<not> cn_flowclosed (sm_ca s)" using I(1) pc by (auto simp: ca_ok_def Let_def)
  show "ca_ok h (s\<lparr>sm_ca := c\<rparr>)" using I(1) pc c fc h by (auto simp: ca_ok_def Let_def pc_ended_def)
  show "sm_up s \<Longrightarrow> pc_own (cn_pc c) + h * (cn_flow c + cn_grants c) \<le>
      pc_own (cn_pc (sm_ca s)) + h * (cn_flow (sm_ca s) + cn_grants (sm_ca s))"
    using c fc pc h by (auto simp: algebra_simps)
  show "cn_sent c = cn_sent (sm_ca s)" using c by auto
  show "\<not> pc_done (cn_pc (sm_ca s))" "\<not> pc_done (cn_pc c)" using c pc by auto
  show "pc_first (cn_pc c) = pc_first (cn_pc (sm_ca s))" using c pc by auto
  show "sendable (pc_cur (cn_pc c)) @ sendable (outs c) = sendable (pc_cur (cn_pc (sm_ca s))) @ sendable (outs (sm_ca s))"
    "set (pc_cur (cn_pc c)) \<union> set (outs c) \<subseteq> set (pc_cur (cn_pc (sm_ca s))) \<union> set (outs (sm_ca s))"
    using c pc by (auto simp: outs_def)
  show "pc_ended (cn_pc c) \<Longrightarrow> outs c = []" using c pc by (auto simp: pc_ended_def)
qed

lemma sm_next_message:
  assumes ok: "strm_ok h s" and pc: "cn_pc (sm_ca s) = OLoop f n" and o: "cn_out (sm_ca s) = Some (d # ds)"
  shows "strm_ok h (s\<lparr>sm_ca := (sm_ca s)\<lparr>cn_out := Some ds, cn_pc := (if n = 0 then OTicket f d else OSend f n d)\<rparr>\<rparr>)"
  using strm_okD(1)[OF ok] pc o
  by (intro pc_move[OF ok]) (auto simp: ca_ok_def Let_def outs_def pc_ended_def split: if_splits)

lemma sm_no_more:
  assumes ok: "strm_ok h s" and pc: "cn_pc (sm_ca s) = OLoop f n" and o: "cn_out (sm_ca s) = Some []" and c: "cn_outclosed (sm_ca s) \<noteq> None"
  shows "strm_ok h (s\<lparr>sm_ca := (sm_ca s)\<lparr>cn_pc := OFinish f\<rparr>\<rparr>)"
  using strm_okD(1)[OF ok] pc o c
  by (intro pc_move[OF ok]) (auto simp: ca_ok_def Let_def outs_def pc_ended_def)

lemma sm_discard:
  assumes ok: "strm_ok h s" and pc: "cn_pc (sm_ca s) = OSend f n MOther"
  shows "strm_ok h (s\<lparr>sm_ca := (sm_ca s)\<lparr>cn_pc := OLoop f (n - 1)\<rparr>\<rparr>)"
  using strm_okD(1)[OF ok] pc
  by (intro pc_move[OF ok]) (auto simp: ca_ok_def Let_def outs_def pc_ended_def)

lemma sm_write_fails:
  assumes ok: "strm_ok h s" and pc: "cn_pc (sm_ca s) = OSend f n d" and up: "\<not> sm_up s"
  shows "strm_ok h (s\<lparr>sm_ca := (sm_ca s)\<lparr>cn_pc := OFinish False, cn_outclosed := close_with e (cn_outclosed (sm_ca s))\<rparr>\<rparr>)"
  using strm_okD(1)[OF ok] pc up
  by (intro pc_move[OF ok]) (auto simp: ca_ok_def Let_def outs_def pc_ended_def)

text \<open>Steps that write, and the end.\<close>

lemma first_order_simps: "first_order new (l @ [False]) \<Longrightarrow> first_order new l"
  "first_order new (l @ [f]) \<Longrightarrow> first_order new ((l @ [f]) @ [False])"
  by (cases l; auto simp: first_order_def split: if_splits)+

lemma first_order_prefix: "first_order new (l @ m) \<Longrightarrow> first_order new l"
  by (cases l) (auto simp: first_order_def split: if_splits)

lemma first_is_new: "first_order new (l @ [True]) \<Longrightarrow> new \<and> l = []"
  by (cases l) (auto simp: first_order_def split: if_splits)

lemma sm_write:
  assumes ok: "strm_ok h s" and pc: "cn_pc (sm_ca s) = OSend f n d" and up: "sm_up s" and d: "d \<noteq> MOther"
  shows "strm_ok h (s\<lparr>sm_ca := (sm_ca s)\<lparr>cn_pc := OLoop False (n - Suc 0)\<rparr>, sm_V := sm_V s @ [(f, False, d)]\<rparr>)"
    (is "strm_ok h ?s")
proof (rule strm_okI)
  note I = strm_okD[OF ok]
  let ?c = "(sm_ca s)\<lparr>cn_pc := OLoop False (n - Suc 0)\<rparr>"
  have n: "1 \<le> n" "n \<le> h" using I(1) pc by (auto simp: ca_ok_def Let_def)
  have he: "\<not> has_end (sm_V s)" using I(4) pc by (simp add: ends_ok_def)
  have sd: "said ?c = said (sm_ca s)" "outs ?c = outs (sm_ca s)" using pc by (simp_all add: said_def outs_def)
  have in_sent: "d \<in> set (cn_sent (sm_ca s))" using I(6) pc by (simp add: sent_ok_def Let_def)
  then have ne: "sendable (cn_sent (sm_ca s)) \<noteq> []" using d by (auto simp: sendable_def filter_empty_conv)
  show "ca_ok h ?s" using I(1) pc n by (auto simp: ca_ok_def Let_def pc_ended_def)
  show "cb_ok ?s" using I(2) by (simp add: cb_ok_def)
  show "firsts_ok ?s" using I(3) pc up first_order_simps(2) by (simp add: firsts_ok_def firsts_def)
  show "ends_ok ?s" using he by (auto simp: ends_ok_def has_end_def butlast_append)
  show "credit_ok h ?s" using I(5) pc up n by (auto simp: credit_ok_def split: if_splits)
  show "sent_ok ?s" using I(6) pc ne by (auto simp: sent_ok_def Let_def sd pc_ended_def)
  have e: "cb_open (sm_cb s) \<longrightarrow> has (sm_cb s) @ vdata (sm_V s) @ d # sendable (outs (sm_ca s)) = said (sm_ca s)"
    using I(7) pc up d by (auto simp: data_ok_def Let_def sure_def)
  then have "cb_open (sm_cb s) \<longrightarrow> prefix (has (sm_cb s) @ vdata (sm_V s) @ [d]) (said (sm_ca s))"
    by (metis append_Cons append_Nil append_assoc prefixI)
  then show "data_ok ?s" using I(7) pc e by (auto simp: data_ok_def Let_def sd)
qed

lemma sm_end:
  assumes ok: "strm_ok h s" and pc: "cn_pc (sm_ca s) = OFinish f" and up: "sm_up s" and e: "cn_outclosed (sm_ca s) = Some e"
  shows "strm_ok h (s\<lparr>sm_ca := (sm_ca s)\<lparr>cn_pc := OClose e\<rparr>, sm_V := sm_V s @ [(f, True, end_msg e)]\<rparr>)"
    (is "strm_ok h ?s")
proof (rule strm_okI)
  note I = strm_okD[OF ok]
  let ?c = "(sm_ca s)\<lparr>cn_pc := OClose e\<rparr>"
  have he: "\<not> has_end (sm_V s)" using I(4) pc by (simp add: ends_ok_def)
  have o: "outs (sm_ca s) = []" "outs ?c = []" using I(6) pc up by (simp_all add: sent_ok_def Let_def sure_def pc_ended_def outs_def)
  have new: "sm_cb s = None \<and> sm_V s = []" if f
    using I(3) pc up that first_is_new by (fastforce simp: firsts_ok_def firsts_def)
  have "sendable (cn_sent (sm_ca s)) \<noteq> []" if "\<not> f" using I(6) pc up that by (simp add: sent_ok_def Let_def)
  moreover have s0: "sendable (cn_sent (sm_ca s)) = []" if f
    using I(7) pc up new[OF that] o by (simp add: data_ok_def Let_def sure_def cb_open_def has_def said_def)
  ultimately have sd: "said ?c = (if f then [end_msg e] else said (sm_ca s))" using pc e by (auto simp: said_def)
  have ncut: "\<not> cb_ended (sm_cb s) (sm_qup s)" using I(7) pc by (auto simp: data_ok_def Let_def)
  show "ca_ok h ?s" using I(1) pc e by (auto simp: ca_ok_def Let_def pc_ended_def)
  show "cb_ok ?s" using I(2) by (simp add: cb_ok_def)
  show "firsts_ok ?s" using I(3) pc up by (simp add: firsts_ok_def firsts_def)
  show "ends_ok ?s" using he by (auto simp: ends_ok_def has_end_def butlast_append)
  show "credit_ok h ?s" using I(5) pc up by (auto simp: credit_ok_def split: if_splits)
  show "sent_ok ?s" using I(6) pc o by (auto simp: sent_ok_def Let_def)
  show "data_ok ?s"
  proof (cases f)
    case True
    then show ?thesis using sd new o ncut by (simp add: data_ok_def Let_def has_def)
  next
    case False
    have "cb_open (sm_cb s) \<longrightarrow> has (sm_cb s) @ vdata (sm_V s) = said (sm_ca s)"
      using I(7) pc up o by (simp add: data_ok_def Let_def sure_def)
    then show ?thesis using I(7) False sd o ncut by (auto simp: data_ok_def Let_def)
  qed
qed

lemma sm_end_fails:
  assumes ok: "strm_ok h s" and pc: "cn_pc (sm_ca s) = OFinish f" and up: "\<not> sm_up s"
  shows "strm_ok h (s\<lparr>sm_ca := (sm_ca s)\<lparr>cn_pc := OClose e\<rparr>\<rparr>)" (is "strm_ok h ?s")
proof (rule strm_okI)
  note I = strm_okD[OF ok]
  let ?c = "(sm_ca s)\<lparr>cn_pc := OClose e\<rparr>"
  have he: "\<not> has_end (sm_V s)" using I(4) pc by (simp add: ends_ok_def)
  have sd: "prefix (said (sm_ca s)) (said ?c)" using pc by (auto simp: said_def)
  have ncut: "\<not> cb_ended (sm_cb s) (sm_qup s)" using I(7) pc by (auto simp: data_ok_def Let_def)
  show "ca_ok h ?s" using I(1) pc by (auto simp: ca_ok_def Let_def pc_ended_def)
  show "cb_ok ?s" using I(2) by (simp add: cb_ok_def)
  show "firsts_ok ?s" using I(3) up by (simp add: firsts_ok_def firsts_def)
  show "ends_ok ?s" using I(4) he by (simp add: ends_ok_def)
  show "credit_ok h ?s" using I(5) up by (simp add: credit_ok_def split: if_splits)
  show "sent_ok ?s" using I(6) up he by (auto simp: sent_ok_def Let_def sure_def outs_def)
  show "data_ok ?s" using I(7) up he ncut sd prefix_order.trans by (auto simp: data_ok_def Let_def sure_def)
qed

lemma sm_close:
  assumes ok: "strm_ok h s" and pc: "cn_pc (sm_ca s) = OClose e"
  shows "strm_ok h (s\<lparr>sm_ca := (closeConn x (sm_ca s))\<lparr>cn_pc := ODone\<rparr>\<rparr>)" (is "strm_ok h ?s")
proof (rule strm_okI)
  note I = strm_okD[OF ok]
  let ?c = "(closeConn x (sm_ca s))\<lparr>cn_pc := ODone\<rparr>"
  obtain y where y: "cn_outclosed (sm_ca s) = Some y" using I(1) pc by (auto simp: ca_ok_def Let_def pc_ended_def)
  have sd: "said ?c = said (sm_ca s)" "outs ?c = outs (sm_ca s)" using pc y by (simp_all add: said_def outs_def closeConn_def)
  show "ca_ok h ?s" using I(1) pc by (auto simp: ca_ok_def Let_def pc_ended_def closeConn_def)
  show "cb_ok ?s" using I(2) by (simp add: cb_ok_def)
  show "firsts_ok ?s" using I(3) pc by (simp add: firsts_ok_def firsts_def split: if_splits)
  show "ends_ok ?s" using I(4) pc by (simp add: ends_ok_def)
  show "credit_ok h ?s" using I(5) pc by (simp add: credit_ok_def closeConn_def split: if_splits)
  show "sent_ok ?s" using I(6) pc by (simp add: sent_ok_def Let_def sd pc_ended_def) (simp add: closeConn_def)
  show "data_ok ?s" using I(7) pc by (simp add: data_ok_def Let_def sd)
qed

lemma sm_p_closes:
  assumes ok: "strm_ok h s" and c: "c = sm_ca s \<or> c = closeConn e (sm_ca s)"
  shows "strm_ok h (s\<lparr>sm_ca := c, sm_up := False\<rparr>)" (is "strm_ok h ?s")
proof (rule strm_okI)
  note I = strm_okD[OF ok]
  have "pc_ended (cn_pc (sm_ca s)) \<longrightarrow> cn_outclosed c = cn_outclosed (sm_ca s)"
    using I(1) c by (auto simp: ca_ok_def Let_def closeConn_def)
  moreover have cs: "cn_sent c = cn_sent (sm_ca s)" "cn_pc c = cn_pc (sm_ca s)" "outs c = outs (sm_ca s)"
    using c by (auto simp: closeConn_def outs_def)
  ultimately have sd: "said c = said (sm_ca s)" by (auto simp: said_def pc_ended_def)
  have su: "sure ?s \<Longrightarrow> sure s" by (auto simp: sure_def)
  show "ca_ok h ?s" using I(1) c by (auto simp: ca_ok_def Let_def closeConn_def)
  show "cb_ok ?s" using I(2) by (simp add: cb_ok_def)
  show "firsts_ok ?s" using I(3) first_order_prefix by (auto simp: firsts_ok_def firsts_def split: if_splits)
  show "ends_ok ?s" using I(4) by (simp add: ends_ok_def cs)
  show "credit_ok h ?s" using I(5) by (simp add: credit_ok_def split: if_splits)
  show "sent_ok ?s" using I(6) su by (auto simp: sent_ok_def Let_def cs)
  show "data_ok ?s" using I(7) su by (auto simp: data_ok_def Let_def cs sd)
qed

section \<open>The receiver\<close>

text \<open>Changes of the receiver's connection that keep what it has; it may grant \<open>h\<close> messages for each of \<open>k\<close> grants.\<close>

lemma cb_frame:
  assumes ok: "strm_ok h s" and cb: "sm_cb s = Some cb" and n: "at_cb h (Some c) + h * k \<le> at_cb h (Some cb)"
    and c: "cb_ok (s\<lparr>sm_cb := Some c\<rparr>)" "has (Some c) = has (Some cb)" "cn_inclosed c = cn_inclosed cb"
      "cn_fpc c = FGone \<longleftrightarrow> cn_fpc cb = FGone"
  shows "strm_ok h (s\<lparr>sm_cb := Some c, sm_n := sm_n s + k\<rparr>)" (is "strm_ok h ?s")
proof (rule strm_okI)
  note I = strm_okD[OF ok]
  have o: "cb_open (Some c) = cb_open (sm_cb s)" "cb_ended (Some c) q = cb_ended (sm_cb s) q" "has (Some c) = has (sm_cb s)" for q
    using c cb by (simp_all add: cb_open_def cb_ended_def)
  have f: "firsts ?s = firsts s" "sure ?s = sure s" by (simp_all add: firsts_def sure_def)
  show "ca_ok h ?s" using I(1) by (simp add: ca_ok_def Let_def)
  show "cb_ok ?s" using c(1) by (simp add: cb_ok_def)
  show "firsts_ok ?s" using I(3) cb by (simp add: firsts_ok_def f)
  show "ends_ok ?s" using I(4) by (simp add: ends_ok_def)
  show "credit_ok h ?s" using I(5) n cb by (auto simp: credit_ok_def distrib_left split: if_splits)
  show "sent_ok ?s" using I(6) by (simp add: sent_ok_def Let_def f)
  show "data_ok ?s" using I(7) by (simp add: data_ok_def Let_def f o)
qed

lemma cb_frame0:
  assumes "strm_ok h s" and "sm_cb s = Some cb" and "at_cb h (Some c) \<le> at_cb h (Some cb)"
    and "cb_ok (s\<lparr>sm_cb := Some c\<rparr>)" "has (Some c) = has (Some cb)" "cn_inclosed c = cn_inclosed cb"
      "cn_fpc c = FGone \<longleftrightarrow> cn_fpc cb = FGone"
  shows "strm_ok h (s\<lparr>sm_cb := Some c\<rparr>)"
  using cb_frame[of h s cb c 0] assms by simp

lemma cb_okD: "strm_ok h s \<Longrightarrow> sm_cb s = Some cb \<Longrightarrow> cb_ok (s\<lparr>sm_cb := Some cb\<rparr>) \<and> (\<exists>ds. cn_in cb = Some ds)"
  by (auto simp: strm_ok_def cb_ok_def)

lemma sm_take:
  assumes "strm_ok h s" and "sm_cb s = Some cb" and "cn_fpc cb = FIdle n" and "cn_in cb = Some (d # ds)"
  shows "strm_ok h (s\<lparr>sm_cb := Some (cb\<lparr>cn_in := Some ds, cn_fpc := FHold n d\<rparr>)\<rparr>)"
  using assms cb_okD[OF assms(1,2)] by (intro cb_frame0[OF assms(1,2)]) (auto simp: at_cb_def has_def ins_def cb_ok_def)

lemma sm_see_end:
  assumes "strm_ok h s" and "sm_cb s = Some cb" and "cn_fpc cb = FIdle n" and "cn_in cb = Some []" and "cn_inclosed cb \<noteq> None"
  shows "strm_ok h (s\<lparr>sm_cb := Some (cb\<lparr>cn_uinclosed := e, cn_fpc := FClosed\<rparr>)\<rparr>)"
  using assms cb_okD[OF assms(1,2)] by (intro cb_frame0[OF assms(1,2)]) (auto simp: at_cb_def has_def ins_def cb_ok_def)

lemma sm_read:
  assumes "strm_ok h s" and "sm_cb s = Some cb" and "cn_fpc cb = FHold n d"
  shows "strm_ok h (s\<lparr>sm_cb := Some (cb\<lparr>cn_got := cn_got cb @ [d], cn_fpc := (if n + 1 = h then FGrant else FIdle (n + 1))\<rparr>)\<rparr>)"
  using assms cb_okD[OF assms(1,2)]
  by (intro cb_frame0[OF assms(1,2)]) (auto simp: at_cb_def has_def ins_def cb_ok_def)

lemma sm_grants:
  assumes "strm_ok h s" and "sm_cb s = Some cb" and "cn_fpc cb = FGrant"
  shows "strm_ok h (s\<lparr>sm_cb := Some (cb\<lparr>cn_fpc := FIdle 0\<rparr>), sm_n := sm_n s + 1\<rparr>)"
    and "strm_ok h (s\<lparr>sm_cb := Some (cb\<lparr>cn_fpc := FIdle 0\<rparr>)\<rparr>)"
  using assms cb_okD[OF assms(1,2)]
  by (intro cb_frame[OF assms(1,2)] cb_frame0[OF assms(1,2)]; auto simp: at_cb_def has_def ins_def cb_ok_def)+

text \<open>Fields of the connection that have no effect on the stream.\<close>

lemma sm_other:
  assumes "strm_ok h s" and "sm_cb s = Some cb" and "cn_in c = cn_in cb" and "cn_out c = cn_out cb" and "cn_fpc c = cn_fpc cb"
    and "cn_pc c = cn_pc cb" and "cn_live c = cn_live cb" and "cn_inclosed c = cn_inclosed cb" and "cn_got c = cn_got cb"
  shows "strm_ok h (s\<lparr>sm_cb := Some c\<rparr>)"
  using assms cb_okD[OF assms(1,2)]
  by (intro cb_frame0[OF assms(1,2)]) (auto simp: at_cb_def has_def ins_def cb_ok_def split: flowpc.splits)

text \<open>The connection closed at the receiver: by its reader, by an end that arrives, or with the whole end.\<close>

lemma prefix_has_gone: "prefix (has (Some (cb\<lparr>cn_inclosed := e, cn_fpc := FGone\<rparr>))) (has (Some cb))"
  by (auto simp: has_def split: flowpc.splits)

lemma sm_gone:
  assumes ok: "strm_ok h s" and cb: "sm_cb s = Some cb" and pc: "cn_fpc cb = FHold n d"
  shows "strm_ok h (s\<lparr>sm_cb := Some (cb\<lparr>cn_inclosed := close_with e (cn_inclosed cb), cn_fpc := FGone\<rparr>)\<rparr>)" (is "strm_ok h ?s")
proof (rule strm_okI)
  note I = strm_okD[OF ok]
  have f: "firsts ?s = firsts s" "sure ?s = sure s" by (simp_all add: firsts_def sure_def)
  show "ca_ok h ?s" using I(1) by (simp add: ca_ok_def Let_def)
  show "cb_ok ?s" using I(2) cb by (simp add: cb_ok_def)
  show "firsts_ok ?s" using I(3) cb by (simp add: firsts_ok_def f)
  show "ends_ok ?s" using I(4) by (simp add: ends_ok_def)
  show "credit_ok h ?s" using I(5) cb pc by (simp add: credit_ok_def at_cb_def ins_def split: if_splits)
  show "sent_ok ?s" using I(6) by (simp add: sent_ok_def Let_def f)
  have "prefix (has (sm_cb s)) (said (sm_ca s))" using I(7) by (simp add: data_ok_def Let_def)
  then have "prefix (has (sm_cb ?s)) (said (sm_ca ?s))"
    using prefix_has_gone[where cb = cb] cb prefix_order.trans by fastforce
  then show "data_ok ?s" by (simp add: data_ok_def Let_def f cb_open_def cb_ended_def)
qed

lemma sm_q_closes:
  assumes ok: "strm_ok h s" and c: "case sm_cb s of None \<Rightarrow> oc = None | Some cb \<Rightarrow> oc = Some cb \<and> \<not> cn_live cb \<or> oc = Some (closeConn e cb)"
  shows "strm_ok h (s\<lparr>sm_cb := oc, sm_qup := False\<rparr>)" (is "strm_ok h ?s")
proof (rule strm_okI)
  note I = strm_okD[OF ok]
  have f: "firsts ?s = firsts s" "sure ?s = sure s" by (simp_all add: firsts_def sure_def)
  have no: "oc = None \<longleftrightarrow> sm_cb s = None" using c by (auto split: option.splits)
  have hs: "has oc = has (sm_cb s)" "at_cb h oc = at_cb h (sm_cb s)"
    using c by (auto split: option.splits simp: has_def at_cb_def closeConn_def ins_def cong: flowpc.case_cong)
  have op: "cb_open oc \<longrightarrow> cb_open (sm_cb s)" "\<not> cb_ended oc False"
    using c I(2) by (auto simp: cb_open_def cb_ended_def cb_ok_def closeConn_def split: option.splits)
  show "ca_ok h ?s" using I(1) by (simp add: ca_ok_def Let_def)
  show "cb_ok ?s" using I(2) c by (auto simp: cb_ok_def closeConn_def split: option.splits)
  show "firsts_ok ?s" using I(3) by (simp add: firsts_ok_def f no)
  show "ends_ok ?s" using I(4) by (simp add: ends_ok_def)
  show "credit_ok h ?s" using I(5) by (simp add: credit_ok_def hs split: if_splits)
  show "sent_ok ?s" using I(6) by (simp add: sent_ok_def Let_def f)
  show "data_ok ?s" using I(7) op by (simp add: data_ok_def Let_def f hs)
qed

section \<open>Arrivals\<close>

lemma first_order_tl: "first_order new (x # l) \<Longrightarrow> first_order False l" "first_order new (x # l) \<Longrightarrow> x \<longleftrightarrow> new"
  by (auto simp: first_order_def split: if_splits)

text \<open>What does not depend on the receiver's connection.\<close>

lemma arrive_rest:
  assumes ok: "strm_ok h s" and V: "sm_V s = (f, e, d) # V"
  shows "ca_ok h (s\<lparr>sm_V := V, sm_cb := Some c\<rparr>)" "firsts_ok (s\<lparr>sm_V := V, sm_cb := Some c\<rparr>)"
    "ends_ok (s\<lparr>sm_V := V, sm_cb := Some c\<rparr>)" "sent_ok (s\<lparr>sm_V := V, sm_cb := Some c\<rparr>)"
    "f \<longleftrightarrow> sm_cb s = None" "\<not> cb_ended (sm_cb s) (sm_qup s)"
    "e \<Longrightarrow> V = [] \<and> pc_done (cn_pc (sm_ca s)) \<and> outs (sm_ca s) = []"
    "sure (s\<lparr>sm_V := V, sm_cb := Some c\<rparr>) \<Longrightarrow> sure s"
proof -
  note I = strm_okD[OF ok]
  show su: "sure (s\<lparr>sm_V := V, sm_cb := Some c\<rparr>) \<Longrightarrow> sure s" by (auto simp: sure_def V)
  have fo: "first_order (sm_cb s = None) (f # map fst V @ (if sm_up s then pc_first (cn_pc (sm_ca s)) else []))"
    using I(3) by (simp add: firsts_ok_def firsts_def V)
  show "f \<longleftrightarrow> sm_cb s = None" using first_order_tl(2)[OF fo] .
  show "firsts_ok (s\<lparr>sm_V := V, sm_cb := Some c\<rparr>)" using first_order_tl(1)[OF fo] by (simp add: firsts_ok_def firsts_def split: if_splits)
  show "ca_ok h (s\<lparr>sm_V := V, sm_cb := Some c\<rparr>)" using I(1) by (simp add: ca_ok_def Let_def)
  show "ends_ok (s\<lparr>sm_V := V, sm_cb := Some c\<rparr>)" using I(4) by (auto simp: ends_ok_def V split: if_splits)
  show "sent_ok (s\<lparr>sm_V := V, sm_cb := Some c\<rparr>)" using I(6) su by (auto simp: sent_ok_def Let_def)
  show "\<not> cb_ended (sm_cb s) (sm_qup s)" using I(7) by (auto simp: data_ok_def Let_def V)
  show "V = [] \<and> pc_done (cn_pc (sm_ca s)) \<and> outs (sm_ca s) = []" if e
    using I(4,6) that by (cases V) (auto simp: ends_ok_def V sent_ok_def Let_def sure_def pc_ended_def)
qed

lemma sm_arrive_new:
  assumes ok: "strm_ok h s" and V: "sm_V s = (True, e, d) # V"
    and c: "c = (newConn (Some [d]) None)\<lparr>cn_flowclosed := x, cn_fpc := FIdle 0, cn_isreply := y, cn_pc := ONone\<rparr>"
  shows "strm_ok h (s\<lparr>sm_V := V, sm_cb := Some c\<rparr>)" (is "strm_ok h ?s")
proof (rule strm_okI)
  note I = strm_okD[OF ok] and R = arrive_rest[OF ok V]
  have cb: "sm_cb s = None" using R(5) by simp
  show "ca_ok h ?s" "firsts_ok ?s" "ends_ok ?s" "sent_ok ?s" using R by blast+
  show "cb_ok ?s" by (simp add: cb_ok_def c newConn_def)
  show "credit_ok h ?s" using I(5) by (simp add: credit_ok_def V cb at_cb_def c newConn_def ins_def split: if_splits)
  have hc: "has (Some c) = [d]" "cb_open (Some c)" "\<not> cb_ended (Some c) q" for q
    by (simp_all add: has_def c newConn_def ins_def cb_open_def cb_ended_def)
  have D: "prefix (d # vdata V) (said (sm_ca s))"
      "sure s \<longrightarrow> d # vdata V @ sendable (pc_cur (cn_pc (sm_ca s))) @ sendable (outs (sm_ca s)) = said (sm_ca s)"
    using I(7) V by (auto simp: data_ok_def Let_def cb cb_open_def has_def)
  then have "prefix [d] (said (sm_ca s))" by (cases "said (sm_ca s)") auto
  then show "data_ok ?s" using D R(8) by (auto simp: data_ok_def Let_def hc)
qed

lemma sm_arrive_data:
  assumes ok: "strm_ok h s" and V: "sm_V s = (f, False, d) # V" and cb: "sm_cb s = Some cb" and i: "cn_in cb = Some ds"
    and op: "cn_inclosed cb = None"
  shows "strm_ok h (s\<lparr>sm_V := V, sm_cb := Some (cb\<lparr>cn_in := Some (ds @ [d])\<rparr>)\<rparr>)" (is "strm_ok h ?s")
proof (rule strm_okI)
  let ?c = "cb\<lparr>cn_in := Some (ds @ [d])\<rparr>"
  note I = strm_okD[OF ok] and R = arrive_rest[OF ok V]
  have nf: "\<not> f" using R(5) cb by simp
  show "ca_ok h ?s" "firsts_ok ?s" "ends_ok ?s" "sent_ok ?s" using R by blast+
  show "cb_ok ?s" using I(2) cb op by (auto simp: cb_ok_def)
  show "credit_ok h ?s"
    using I(5) by (simp add: credit_ok_def V cb at_cb_def ins_def i nf split: if_splits)
  have ng: "cn_fpc cb \<noteq> FGone" using I(2) cb op by (auto simp: cb_ok_def)
  then have hc: "has (Some ?c) = has (sm_cb s) @ [d]" "cb_open (Some ?c)" "\<not> cb_ended (Some ?c) q" "cb_open (sm_cb s)" for q
    using op cb i by (auto simp: has_def ins_def cb_open_def cb_ended_def split: flowpc.splits)
  have D: "prefix (has (sm_cb s) @ d # vdata V) (said (sm_ca s))"
      "sure s \<longrightarrow> has (sm_cb s) @ d # vdata V @ sendable (pc_cur (cn_pc (sm_ca s))) @ sendable (outs (sm_ca s)) = said (sm_ca s)"
    using I(7) V nf hc(4) by (auto simp: data_ok_def Let_def)
  have "prefix (has (sm_cb s) @ [d]) (has (sm_cb s) @ d # vdata V)" by simp
  then have "prefix (has (sm_cb s) @ [d]) (said (sm_ca s))" using D(1) prefix_order.trans by blast
  then show "data_ok ?s" using D R(8) by (auto simp: data_ok_def Let_def hc)
qed

text \<open>Messages that are lost, because the receiver's connection is closed.\<close>

lemma sm_arrive_lost:
  assumes ok: "strm_ok h s" and V: "sm_V s = (f, e, d) # V" and cb: "sm_cb s = Some cb" and cl: "cn_inclosed cb \<noteq> None"
    and c: "c = cb \<or> c = closeConn x cb"
  shows "strm_ok h (s\<lparr>sm_V := V, sm_cb := Some c\<rparr>)" (is "strm_ok h ?s")
proof (rule strm_okI)
  note I = strm_okD[OF ok] and R = arrive_rest[OF ok V]
  have hc: "has (Some c) = has (sm_cb s)" "at_cb h (Some c) = at_cb h (sm_cb s)" "\<not> cb_open (Some c)" "\<not> cb_ended (Some c) (sm_qup s)"
    using c cb cl R(6) by (auto simp: has_def at_cb_def ins_def cb_open_def cb_ended_def closeConn_def cong: flowpc.case_cong)
  show "ca_ok h ?s" "firsts_ok ?s" "ends_ok ?s" "sent_ok ?s" using R by blast+
  show "cb_ok ?s" using I(2) cb c by (auto simp: cb_ok_def closeConn_def)
  show "credit_ok h ?s" using I(5) by (simp add: credit_ok_def V hc split: if_splits)
  show "data_ok ?s" using I(7) by (simp add: data_ok_def Let_def hc)
qed

lemma sm_arrive_end:
  assumes ok: "strm_ok h s" and V: "sm_V s = (f, True, d) # V" and cb: "sm_cb s = Some cb"
  shows "strm_ok h (s\<lparr>sm_V := V, sm_cb := Some (closeConn x cb)\<rparr>)" (is "strm_ok h ?s")
proof (cases "cn_inclosed cb = None")
  case False
  then show ?thesis using sm_arrive_lost[OF ok V cb] by blast
next
  case True
  let ?c = "closeConn x cb"
  note I = strm_okD[OF ok] and R = arrive_rest[OF ok V]
  have nf: "\<not> f" using R(5) cb by simp
  have hc: "has (Some ?c) = has (sm_cb s)" "at_cb h (Some ?c) = at_cb h (sm_cb s)" "\<not> cb_open (Some ?c)"
    using cb by (auto simp: has_def at_cb_def ins_def cb_open_def closeConn_def cong: flowpc.case_cong)
  have E: "V = []" "pc_done (cn_pc (sm_ca s))" "outs (sm_ca s) = []" using R(7) by blast+
  then have cu: "pc_cur (cn_pc (sm_ca s)) = []" by (cases "cn_pc (sm_ca s)") auto
  have "has (sm_cb s) = said (sm_ca s)"
    using I(7) V nf E cu True cb by (simp add: data_ok_def Let_def sure_def cb_open_def)
  then have "data_ok ?s" using E by (simp add: data_ok_def Let_def hc)
  moreover have "credit_ok h ?s" using I(5) by (simp add: credit_ok_def V hc split: if_splits)
  moreover have "cb_ok ?s" using I(2) cb by (auto simp: cb_ok_def closeConn_def)
  ultimately show ?thesis using R by (intro strm_okI) blast+
qed

text \<open>There is always room for the data that arrives.\<close>

lemma sm_room:
  assumes ok: "strm_ok h s" and V: "sm_V s = (f, False, d) # V" and cb: "sm_cb s = Some cb" and i: "cn_in cb = Some ds"
  shows "length ds < 2 * h"
  using strm_okD(5)[OF ok] by (simp add: credit_ok_def V cb at_cb_def ins_def i split: if_splits)

end
