(* ===== verification/MuxProps.thy ===== *)
theory MuxProps
  imports MuxInv
begin

text \<open>
  Multiplexed streams deliver what was sent: at any point of any schedule of two ends, the reader of a stream
  with no reply has received a prefix of the messages that its user sent, all of them if it has seen the end, and
  the reader of the device never waits for a stream.  What else the code does: replies are not subject to flow control,
  and streams with no messages never end.
\<close>

section \<open>Connections and tags\<close>

definition conns_ok :: "'u mux \<Rightarrow> bool" where
  "conns_ok m \<longleftrightarrow> (\<forall>t. mx_conns m t \<noteq> None \<longrightarrow> tag_ok t)"

lemma set_conn_simps [simp]:
  "mx_conns (set_conn m t c) = (mx_conns m)(t \<mapsto> c)" "mx_wire (set_conn m t c) = mx_wire m"
  "mx_closed (set_conn m t c) = mx_closed m" "mx_tag (set_conn m t c) = mx_tag m"
  by (simp_all add: set_conn_def)

lemma wire_put_simps [simp]:
  "mx_conns (wire_put m tag d) = mx_conns m" "mx_wire (wire_put m tag d) = mx_wire m @ [(tag, d)]"
  "mx_closed (wire_put m tag d) = mx_closed m" "mx_tag (wire_put m tag d) = mx_tag m"
  by (simp_all add: wire_put_def)

definition msgs_for :: "32 word \<Rightarrow> (32 word \<times> 'u msg) list \<Rightarrow> (32 word \<times> 'u msg) list" where
  "msgs_for t w = filter (\<lambda>(tag, d). tagv tag = t) w"

lemma msgs_for_simps [simp]: "msgs_for t [] = []" "msgs_for t (x # w) = (if tagv (fst x) = t then [x] else []) @ msgs_for t w"
  "msgs_for t (v @ w) = msgs_for t v @ msgs_for t w"
  by (auto simp: msgs_for_def split: prod.splits)

text \<open>Nothing of a stream changes at an end.\<close>

definition same_for :: "32 word \<Rightarrow> 'u mux \<Rightarrow> 'u mux \<Rightarrow> bool" where
  "same_for t m m' \<longleftrightarrow> mx_conns m' t = mx_conns m t \<and> msgs_for t (mx_wire m') = msgs_for t (mx_wire m) \<and>
     mx_closed m' = mx_closed m \<and> bit (mx_tag m') 0 = bit (mx_tag m) 0"

fun act_tag :: "'u mux_act \<Rightarrow> 'u mux \<Rightarrow> 32 word option" where
  "act_tag AOut m = Some (next_tag (mx_tag m))"
| "act_tag ARpc m = Some (next_tag (mx_tag m))"
| "act_tag (ASend t d) m = Some t"
| "act_tag (AClose t e) m = Some t"
| "act_tag (ARead t) m = Some t"
| "act_tag (AReaderClose t e) m = Some t"
| "act_tag (AOutStep t) m = Some t"
| "act_tag (AFlowStep t) m = Some t"
| "act_tag (AGrant t) m = Some t"
| "act_tag _ m = None"

lemmas act_defs = mux_act_def mux_Out_def mux_Rpc_def mux_open_def user_send_def user_close_def read_step_def reader_close_def
  user_accept_def close_In_def grant_step_def flow_step_def out_step_def out_write_def out_end_def

lemma act_other:
  assumes "mux_act nbuf x m = Some m'" and "conns_ok m" and "x \<noteq> AMuxClose" and "act_tag x m \<noteq> Some t"
  shows "same_for t m m'"
proof -
  have tv: "mx_conns m t' = Some c' \<Longrightarrow> tagv (out_tag t' c f) = t'"
      "mx_conns m t' = Some c' \<Longrightarrow> tagv (out_tag t' c f OR endtag) = t'"
      "mx_conns m t' = Some c' \<Longrightarrow> tagv (t' OR flowtag) = t'" for t' c c' f
    using assms(2) by (auto simp: conns_ok_def tagv_or)
  show ?thesis
    using assms(1,3,4)
    by (cases x) (auto simp: act_defs same_for_def next_tag_ok Let_def tv
        split: option.splits if_splits outpc.splits flowpc.splits list.splits)
qed

lemma act_conns_ok:
  assumes "mux_act nbuf x m = Some m'" and "conns_ok m"
  shows "conns_ok m'"
  using assms next_tag_ok(1)
  by (cases x) (auto simp: act_defs conns_ok_def mux_Close_def Let_def
      split: option.splits if_splits outpc.splits flowpc.splits list.splits)

lemma demux_conns_ok:
  assumes "demux nbuf (tag, d) m = Some m'" and "conns_ok m"
  shows "conns_ok m'"
  using assms tag_ok_tagv[of tag]
  by (auto simp: demux_def demux_new_def conns_ok_def mux_Close_def Let_def split: option.splits if_splits)

lemma demux_other:
  assumes "demux nbuf (tag, d) m = Some m'" and "tagv tag \<noteq> t" and "mx_closed m' = mx_closed m"
  shows "same_for t m m'"
  using assms
  by (auto simp: demux_def demux_new_def same_for_def mux_Close_def Let_def split: option.splits if_splits)

section \<open>A stream at two ends\<close>

definition view :: "32 word \<Rightarrow> 'u mux \<Rightarrow> 'u mux \<Rightarrow> 'u conn \<Rightarrow> 'u strm" where
  "view t p q ca = \<lparr>sm_ca = ca, sm_up = (\<not> mx_closed p),
     sm_V = map (\<lambda>(tag, d). (bit tag 31, bit tag 28, d)) (msgs_for t (mx_wire p)),
     sm_n = length (msgs_for t (mx_wire q)), sm_cb = mx_conns q t, sm_qup = (\<not> mx_closed q)\<rparr>"

text \<open>
  The stream \<open>t\<close> of the end \<open>p\<close>: before it is opened nothing has its tag, and then, if it has no reply, its
  messages are data and what comes back are grants.
\<close>

definition stream_at :: "nat \<Rightarrow> 32 word \<Rightarrow> 'u mux \<Rightarrow> 'u mux \<Rightarrow> bool" where
  "stream_at h t p q \<longleftrightarrow>
     (case mx_conns p t of
        None \<Rightarrow> msgs_for t (mx_wire p) = [] \<and> msgs_for t (mx_wire q) = [] \<and> mx_conns q t = None
      | Some ca \<Rightarrow> cn_in ca = None \<longrightarrow> strm_ok h (view t p q ca) \<and>
          (\<forall>(tag, d)\<in>set (msgs_for t (mx_wire p)). \<not> bit tag 30 \<and> \<not> bit tag 29) \<and>
          (\<forall>(tag, d)\<in>set (msgs_for t (mx_wire q)). bit tag 29 \<and> \<not> bit tag 31))"

lemma view_same: "same_for t p p' \<Longrightarrow> same_for t q q' \<Longrightarrow> view t p q c = view t p' q' c"
  by (simp add: view_def same_for_def)

lemma stream_at_same: "same_for t p p' \<Longrightarrow> same_for t q q' \<Longrightarrow> stream_at h t p q = stream_at h t p' q'"
  unfolding stream_at_def using view_same[of t p p' q q'] by (auto simp: same_for_def split: option.splits)

lemma same_for_refl [simp]: "same_for t m m"
  by (simp add: same_for_def)

lemma stream_atD:
  assumes "stream_at h t p q" and "mx_conns p t = Some ca" and "cn_in ca = None"
  shows "strm_ok h (view t p q ca)" "(tag, d) \<in> set (msgs_for t (mx_wire p)) \<Longrightarrow> \<not> bit tag 30 \<and> \<not> bit tag 29"
    "(tag, d) \<in> set (msgs_for t (mx_wire q)) \<Longrightarrow> bit tag 29 \<and> \<not> bit tag 31"
  using assms by (auto simp: stream_at_def)

lemma view_conv [simp]: "sm_ca (view t p q c) = c" "sm_up (view t p q c) = (\<not> mx_closed p)" "sm_cb (view t p q c) = mx_conns q t"
  "sm_qup (view t p q c) = (\<not> mx_closed q)" "sm_n (view t p q c) = length (msgs_for t (mx_wire q))"
  by (simp_all add: view_def)

text \<open>The sender's connection changes, and may write a message.\<close>

lemma stream_at_ca:
  assumes "stream_at h t p q" and "mx_conns p t = Some ca" and "cn_in ca = None" and "cn_in c = None"
    and "strm_ok h ((view t p q ca)\<lparr>sm_ca := c\<rparr>)"
    and "mx_conns p' t = Some c" and "mx_wire p' = mx_wire p" and "mx_closed p' = mx_closed p"
  shows "stream_at h t p' q"
proof -
  have "view t p' q c = (view t p q ca)\<lparr>sm_ca := c\<rparr>" using assms by (simp add: view_def)
  then show ?thesis using assms stream_atD[OF assms(1-3)] by (auto simp: stream_at_def)
qed

lemma stream_at_ca_write:
  assumes "stream_at h t p q" and "mx_conns p t = Some ca" and "cn_in ca = None" and "cn_in c = None"
    and "strm_ok h ((view t p q ca)\<lparr>sm_ca := c, sm_V := sm_V (view t p q ca) @ [(bit tag 31, bit tag 28, d)]\<rparr>)"
    and "mx_conns p' t = Some c" and "mx_wire p' = mx_wire p @ [(tag, d)]" and "mx_closed p' = mx_closed p"
    and "tagv tag = t" and "\<not> bit tag 30" and "\<not> bit tag 29"
  shows "stream_at h t p' q"
proof -
  have "view t p' q c = (view t p q ca)\<lparr>sm_ca := c, sm_V := sm_V (view t p q ca) @ [(bit tag 31, bit tag 28, d)]\<rparr>"
    using assms by (simp add: view_def)
  then show ?thesis using assms stream_atD[OF assms(1-3)] by (auto simp: stream_at_def)
qed

text \<open>The receiver's connection changes, and may write a grant.\<close>

lemma stream_at_cb:
  assumes "stream_at h t p q" and "mx_conns p t = Some ca" and "cn_in ca = None"
    and "strm_ok h ((view t p q ca)\<lparr>sm_cb := Some c\<rparr>)"
    and "mx_conns q' t = Some c" and "mx_wire q' = mx_wire q" and "mx_closed q' = mx_closed q"
  shows "stream_at h t p q'"
proof -
  have "view t p q' ca = (view t p q ca)\<lparr>sm_cb := Some c\<rparr>" using assms by (simp add: view_def)
  then show ?thesis using assms stream_atD[OF assms(1-3)] by (auto simp: stream_at_def)
qed

lemma stream_at_cb_write:
  assumes "stream_at h t p q" and "mx_conns p t = Some ca" and "cn_in ca = None" and "tag_ok t"
    and "strm_ok h ((view t p q ca)\<lparr>sm_cb := Some c, sm_n := sm_n (view t p q ca) + 1\<rparr>)"
    and "mx_conns q' t = Some c" and "mx_wire q' = mx_wire q @ [(t OR flowtag, d)]" and "mx_closed q' = mx_closed q"
  shows "stream_at h t p q'"
proof -
  have tv: "tagv (t OR flowtag) = t" "bit (t OR flowtag) 29" "\<not> bit (t OR flowtag) 31"
    using tagv_or(3) tag_ok_bits[OF assms(4)] assms(4) by (auto simp: bit_simps)
  have "view t p q' ca = (view t p q ca)\<lparr>sm_cb := Some c, sm_n := sm_n (view t p q ca) + 1\<rparr>"
    using assms tv by (simp add: view_def)
  then show ?thesis using assms tv stream_atD[OF assms(1-3)] by (auto simp: stream_at_def)
qed

section \<open>The steps of the sender's end\<close>

lemma sm_init: "strm_ok h \<lparr>sm_ca = (newConn None (Some []))\<lparr>cn_pc := OStart\<rparr>, sm_up = up, sm_V = [], sm_n = 0, sm_cb = None, sm_qup = qup\<rparr>"
  by (simp add: strm_defs newConn_def pc_ended_def firsts_def first_order_def at_cb_def outs_def sure_def has_def said_def
      cb_open_def cb_ended_def)

lemma open_stream:
  assumes st: "stream_at h t p q" and op: "mux_open c_in p = Some p'" and t: "t = next_tag (mx_tag p)"
  shows "stream_at h t p' q"
proof -
  have no: "mx_conns p t = None" and p': "p' = set_conn (p\<lparr>mx_tag := t\<rparr>) t ((newConn c_in (Some []))\<lparr>cn_pc := OStart\<rparr>)"
    using op t by (auto simp: mux_open_def Let_def split: if_splits)
  have e: "msgs_for t (mx_wire p) = []" "msgs_for t (mx_wire q) = []" "mx_conns q t = None"
    using st no by (auto simp: stream_at_def)
  show ?thesis
    using sm_init[of h "\<not> mx_closed p" "\<not> mx_closed q"] e unfolding p'
    by (auto simp: stream_at_def view_def newConn_def)
qed

lemma out_step_stream:
  assumes st: "stream_at (nbuf div 2) t p q" and ca: "mx_conns p t = Some ca" "cn_in ca = None"
    and step: "out_step nbuf t p = Some p'" and nb: "2 \<le> nbuf" and t: "tag_ok t"
  shows "stream_at (nbuf div 2) t p' q"
proof -
  let ?h = "nbuf div 2"
  note ok = stream_atD(1)[OF st ca] and upd = stream_at_ca[OF st ca]
  have h: "1 \<le> ?h" using nb by simp
  have I: "cn_out ca \<noteq> None" "cn_pc ca \<noteq> OPanic" "\<And>f n d. cn_pc ca = OSend f n d \<Longrightarrow> n \<le> ?h"
    "pc_ended (cn_pc ca) \<Longrightarrow> cn_outclosed ca \<noteq> None"
    using strm_okD(1)[OF ok] by (auto simp: ca_ok_def Let_def)
  have nr: "\<not> conn_isrpc ca" using ca(2) by (simp add: conn_isrpc_def)
  have bits: "\<not> bit (out_tag t ca f OR endtag) 30" "\<not> bit (out_tag t ca f OR endtag) 29" "bit (out_tag t ca f OR endtag) 31 = f"
    "bit (out_tag t ca f OR endtag) 28" for f
    using bits_out_tag[OF t, of ca f] nr by (auto simp: bit_simps)
  have tk: "take_ticket ca pc = Some c \<Longrightarrow> cn_in c = None" for pc c
    using ca(2) by (auto simp: take_ticket_def split: if_splits)
  show ?thesis
  proof (cases "cn_pc ca")
    case OStart
    then obtain c where c: "take_ticket ca (OLoop True ?h) = Some c" "p' = set_conn p t c"
      using step ca by (auto simp: out_step_def)
    have "strm_ok ?h ((view t p q ca)\<lparr>sm_ca := c\<rparr>)" using ok OStart c(1) h by (intro sm_ticket[where pc' = "OLoop True ?h"]) auto
    then show ?thesis using c(2) tk[OF c(1)] by (intro upd) auto
  next
    case (OLoop f n)
    obtain os where o: "cn_out ca = Some os" using I(1) by auto
    show ?thesis
    proof (cases os)
      case (Cons d ds)
      then have p': "p' = set_conn p t (ca\<lparr>cn_out := Some ds, cn_pc := (if n = 0 then OTicket f d else OSend f n d)\<rparr>)"
        using step ca OLoop o by (simp add: out_step_def)
      have "strm_ok ?h ((view t p q ca)\<lparr>sm_ca := ca\<lparr>cn_out := Some ds, cn_pc := (if n = 0 then OTicket f d else OSend f n d)\<rparr>\<rparr>)"
        using sm_next_message[OF ok] OLoop o Cons by simp
      then show ?thesis using p' ca(2) by (intro upd) auto
    next
      case Nil
      then have p': "p' = set_conn p t (ca\<lparr>cn_pc := OFinish f\<rparr>)" and c: "cn_outclosed ca \<noteq> None"
        using step ca OLoop o by (auto simp: out_step_def split: if_splits)
      have "strm_ok ?h ((view t p q ca)\<lparr>sm_ca := ca\<lparr>cn_pc := OFinish f\<rparr>\<rparr>)"
        using sm_no_more[OF ok] OLoop o Nil c by simp
      then show ?thesis using p' ca(2) by (intro upd) auto
    qed
  next
    case (OTicket f d)
    then obtain c where c: "take_ticket ca (OSend f ?h d) = Some c" "p' = set_conn p t c"
      using step ca by (auto simp: out_step_def)
    have "strm_ok ?h ((view t p q ca)\<lparr>sm_ca := c\<rparr>)" using ok OTicket c(1) h by (intro sm_ticket[where pc' = "OSend f ?h d"]) auto
    then show ?thesis using c(2) tk[OF c(1)] by (intro upd) auto
  next
    case (OSend f n d)
    have n: "\<not> n > nbuf" using I(3)[OF OSend] by simp
    then have p': "p' = out_write p t ca f n d" using step ca OSend by (simp add: out_step_def)
    show ?thesis
    proof (cases "d = MOther")
      case True
      then have "p' = set_conn p t (ca\<lparr>cn_pc := OLoop f (n - 1)\<rparr>)" using p' by (simp add: out_write_def)
      moreover have "strm_ok ?h ((view t p q ca)\<lparr>sm_ca := ca\<lparr>cn_pc := OLoop f (n - 1)\<rparr>\<rparr>)"
        using sm_discard[OF ok] OSend True by simp
      ultimately show ?thesis using ca(2) by (intro upd) auto
    next
      case d: False
      show ?thesis
      proof (cases "mx_closed p")
        case True
        let ?c = "ca\<lparr>cn_pc := OFinish False, cn_outclosed := close_with (Some (mx_werr p)) (cn_outclosed ca)\<rparr>"
        have "p' = (set_conn p t ?c)\<lparr>mx_err := Some (mx_werr p)\<rparr>" using p' d True by (simp add: out_write_def)
        moreover have "strm_ok ?h ((view t p q ca)\<lparr>sm_ca := ?c\<rparr>)" using sm_write_fails[OF ok] OSend True by simp
        ultimately show ?thesis using ca(2) by (intro upd) auto
      next
        case False
        let ?c = "ca\<lparr>cn_pc := OLoop False (n - Suc 0)\<rparr>"
        have p': "p' = wire_put (set_conn p t ?c) (out_tag t ca f) d" using p' d False by (simp add: out_write_def)
        have b: "bit (out_tag t ca f) 31 = f" "\<not> bit (out_tag t ca f) 28" "\<not> bit (out_tag t ca f) 30" "\<not> bit (out_tag t ca f) 29"
          using bits_out_tag[OF t, of ca f] nr by auto
        have "strm_ok ?h ((view t p q ca)\<lparr>sm_ca := ?c, sm_V := sm_V (view t p q ca) @ [(f, False, d)]\<rparr>)"
          using sm_write[OF ok] OSend False d by simp
        then show ?thesis
          using p' ca(2) b tagv_or(1)[OF t] by (intro stream_at_ca_write[OF st ca, of ?c "out_tag t ca f" d]) auto
      qed
    qed
  next
    case (OFinish f)
    obtain e where e: "cn_outclosed ca = Some e" using I(4) OFinish by (auto simp: pc_ended_def)
    have p': "p' = out_end p t ca f" using step ca OFinish by (simp add: out_step_def)
    show ?thesis
    proof (cases "mx_closed p")
      case True
      then obtain x where "p' = set_conn p t (ca\<lparr>cn_pc := OClose x\<rparr>)" using p' e by (simp add: out_end_def)
      moreover have "strm_ok ?h ((view t p q ca)\<lparr>sm_ca := ca\<lparr>cn_pc := OClose x\<rparr>\<rparr>)" using sm_end_fails[OF ok] OFinish True by simp
      ultimately show ?thesis using ca(2) by (intro upd) auto
    next
      case False
      let ?c = "ca\<lparr>cn_pc := OClose e\<rparr>"
      have p': "p' = wire_put (set_conn p t ?c) (out_tag t ca f OR endtag) (end_msg e)" using p' e False by (simp add: out_end_def)
      have "strm_ok ?h ((view t p q ca)\<lparr>sm_ca := ?c, sm_V := sm_V (view t p q ca) @ [(f, True, end_msg e)]\<rparr>)"
        using sm_end[OF ok] OFinish False e by simp
      then show ?thesis
        using p' ca(2) bits tagv_or(2)[OF t] by (intro stream_at_ca_write[OF st ca, of ?c "out_tag t ca f OR endtag" "end_msg e"]) auto
    qed
  next
    case (OClose e)
    then have p': "p' = set_conn p t ((closeConn e ca)\<lparr>cn_pc := ODone\<rparr>)" using step ca nr by (simp add: out_step_def)
    have "strm_ok ?h ((view t p q ca)\<lparr>sm_ca := (closeConn e ca)\<lparr>cn_pc := ODone\<rparr>\<rparr>)" using sm_close[OF ok] OClose by simp
    then show ?thesis using p' ca(2) by (intro upd) (auto simp: closeConn_def)
  qed (use step ca I in \<open>auto simp: out_step_def\<close>)
qed

lemma stream_at_p_close:
  assumes "stream_at h t p q"
  shows "stream_at h t (mux_Close p) q"
proof (cases "mx_conns p t")
  case None
  then show ?thesis using assms by (simp add: stream_at_def mux_Close_def Let_def)
next
  case (Some ca)
  define e where "e = (if mx_err p = None then Some ''mux closed by user'' else mx_err p)"
  define c where "c = (if cn_live ca then closeConn e ca else ca)"
  have p': "mx_conns (mux_Close p) t = Some c" "mx_wire (mux_Close p) = mx_wire p" "mx_closed (mux_Close p)"
    using Some by (simp_all add: mux_Close_def Let_def c_def e_def)
  have cin: "cn_in c = cn_in ca" by (simp add: c_def closeConn_def)
  show ?thesis
  proof (cases "cn_in ca = None")
    case True
    have "strm_ok h ((view t p q ca)\<lparr>sm_ca := c, sm_up := False\<rparr>)"
      by (rule sm_p_closes[OF stream_atD(1)[OF assms Some True], where e = e]) (simp add: c_def)
    moreover have "view t (mux_Close p) q c = (view t p q ca)\<lparr>sm_ca := c, sm_up := False\<rparr>"
      using p' by (simp add: view_def)
    ultimately show ?thesis using assms Some True p' cin by (simp add: stream_at_def)
  next
    case False
    then show ?thesis using p' cin by (auto simp: stream_at_def)
  qed
qed

lemma act_reply_conn:
  assumes "mux_act nbuf x m = Some m'" and "mx_conns m t = Some c" and "cn_in c \<noteq> None"
  shows "\<exists>c'. mx_conns m' t = Some c' \<and> cn_in c' \<noteq> None"
  using assms
  by (cases x) (auto simp: act_defs mux_Close_def closeConn_def take_ticket_def Let_def
      split: option.splits if_splits outpc.splits flowpc.splits list.splits)

lemma act_sender:
  assumes st: "stream_at (nbuf div 2) t p q" and act: "mux_act nbuf x p = Some p'" and ok: "conns_ok p" and nb: "2 \<le> nbuf"
    and t: "tag_ok t"
  shows "stream_at (nbuf div 2) t p' q"
proof (cases "x = AMuxClose")
  case True
  then show ?thesis using stream_at_p_close[OF st] act by (simp add: mux_act_def)
next
  case nclose: False
  show ?thesis
  proof (cases "act_tag x p = Some t")
    case False
    then show ?thesis using act_other[OF act ok nclose] stream_at_same[of t p p' q q] st by simp
  next
    case at: True
    show ?thesis
    proof (cases "mx_conns p t")
      case None
      have "x = AOut \<or> x = ARpc"
        using act at None by (cases x) (simp_all add: mux_act_def user_send_def user_close_def read_step_def reader_close_def
            grant_step_def flow_step_def out_step_def)
      then obtain c_in where "mux_open c_in p = Some p'" "t = next_tag (mx_tag p)"
        using act at by (auto simp: mux_act_def mux_Out_def mux_Rpc_def)
      then show ?thesis using open_stream[OF st] by blast
    next
      case ca: (Some ca)
      show ?thesis
      proof (cases "cn_in ca = None")
        case False
        then show ?thesis using act_reply_conn[OF act ca] by (auto simp: stream_at_def)
      next
        case cin: True
        note sok = stream_atD(1)[OF st ca cin] and upd = stream_at_ca[OF st ca cin]
        have fpc: "cn_fpc ca = FNone" using strm_okD(1)[OF sok] by (simp add: ca_ok_def Let_def)
        show ?thesis
        proof (cases x)
          case (ASend t' d)
          then obtain ds where "cn_out ca = Some ds" "cn_outclosed ca = None"
              "p' = set_conn p t (ca\<lparr>cn_out := Some (ds @ [d]), cn_sent := cn_sent ca @ [d]\<rparr>)"
            using act at ca by (auto simp: mux_act_def user_send_def split: option.splits if_splits)
          then show ?thesis using sm_user_send[OF sok] cin by (intro upd) auto
        next
          case (AClose t' e)
          then have "p' = set_conn p t (ca\<lparr>cn_outclosed := close_with e (cn_outclosed ca)\<rparr>)"
            using act at ca by (simp add: mux_act_def user_close_def)
          then show ?thesis using sm_user_close[OF sok] cin by (intro upd) auto
        next
          case (AReaderClose t' e)
          then have "p' = set_conn p t (ca\<lparr>cn_inclosed := close_with e (cn_inclosed ca)\<rparr>)"
            using act at ca fpc by (simp add: mux_act_def reader_close_def)
          then show ?thesis using sm_reader_close[OF sok] cin by (intro upd) auto
        next
          case (AOutStep t')
          then show ?thesis using out_step_stream[OF st ca cin _ nb t] act at by (simp add: mux_act_def)
        next
          case (AGrant t')
          then have g: "cn_grants ca > 0"
              and "p' = set_conn p t (ca\<lparr>cn_grants := cn_grants ca - 1, cn_flow := cn_flow ca + 0\<rparr>) \<or>
                p' = set_conn p t (ca\<lparr>cn_grants := cn_grants ca - 1, cn_flow := cn_flow ca + 1\<rparr>)"
            using act at ca by (auto simp: mux_act_def grant_step_def split: if_splits)
          then obtain k where k: "k \<le> 1" "p' = set_conn p t (ca\<lparr>cn_grants := cn_grants ca - 1, cn_flow := cn_flow ca + k\<rparr>)"
            by (metis le0 order_refl)
          show ?thesis using sm_grant[OF sok _ k(1)] g k(2) cin by (intro upd) auto
        qed (use act at ca fpc cin in \<open>auto simp: act_defs Let_def\<close>)
      qed
    qed
  qed
qed

section \<open>The steps of the receiver's end\<close>

lemma stream_at_q_close:
  assumes "stream_at h t p q"
  shows "stream_at h t p (mux_Close q)"
proof -
  have q': "mx_wire (mux_Close q) = mx_wire q" "mx_closed (mux_Close q)"
    "mx_conns (mux_Close q) t = (case mx_conns q t of None \<Rightarrow> None | Some c \<Rightarrow>
      Some (if cn_live c then closeConn (if mx_err q = None then Some ''mux closed by user'' else mx_err q) c else c))"
    by (simp_all add: mux_Close_def Let_def)
  show ?thesis
  proof (cases "mx_conns p t")
    case None
    then show ?thesis using assms q' by (simp add: stream_at_def)
  next
    case (Some ca)
    have "strm_ok h (view t p (mux_Close q) ca)" if cin: "cn_in ca = None"
    proof -
      note sok = stream_atD(1)[OF assms Some cin]
      have "strm_ok h ((view t p q ca)\<lparr>sm_cb := mx_conns (mux_Close q) t, sm_qup := False\<rparr>)"
        by (rule sm_q_closes[OF sok, where e = "if mx_err q = None then Some ''mux closed by user'' else mx_err q"])
          (auto simp: q'(3) split: option.splits)
      moreover have "view t p (mux_Close q) ca = (view t p q ca)\<lparr>sm_cb := mx_conns (mux_Close q) t, sm_qup := False\<rparr>"
        using q' by (simp add: view_def)
      ultimately show ?thesis by simp
    qed
    then show ?thesis using assms Some q' by (simp add: stream_at_def)
  qed
qed

lemma act_receiver:
  assumes st: "stream_at (nbuf div 2) t p q" and act: "mux_act nbuf x q = Some q'" and ok: "conns_ok q"
    and t: "tag_ok t" and odd: "bit t 0 \<noteq> bit (mx_tag q) 0"
  shows "stream_at (nbuf div 2) t p q'"
proof (cases "x = AMuxClose")
  case True
  then show ?thesis using stream_at_q_close[OF st] act by (simp add: mux_act_def)
next
  case nclose: False
  have nopen: "t \<noteq> next_tag (mx_tag q)" using odd next_tag_ok(2) by metis
  show ?thesis
  proof (cases "act_tag x q = Some t \<and> mx_conns q t \<noteq> None")
    case False
    then have "act_tag x q \<noteq> Some t \<or> mx_conns q t = None" by simp
    moreover have False if "act_tag x q = Some t" "mx_conns q t = None"
      using that act nopen by (cases x) (auto simp: act_defs split: option.splits)
    ultimately have "act_tag x q \<noteq> Some t" by blast
    then show ?thesis using act_other[OF act ok nclose] stream_at_same[of t p p q q'] st by simp
  next
    case at: True
    then obtain cb where cb: "mx_conns q t = Some cb" by auto
    then obtain ca where ca: "mx_conns p t = Some ca" using st by (auto simp: stream_at_def split: option.splits)
    show ?thesis
    proof (cases "cn_in ca = None")
      case False
      then show ?thesis using ca by (auto simp: stream_at_def)
    next
      case cin: True
      note sok = stream_atD(1)[OF st ca cin] and upd = stream_at_cb[OF st ca cin]
      have B: "\<exists>ds. cn_in cb = Some ds" "cn_out cb = None" "cn_fpc cb \<noteq> FNone" "cn_pc cb = ONone"
        using strm_okD(2)[OF sok] cb by (auto simp: cb_ok_def)
      have scb: "sm_cb (view t p q ca) = Some cb" using cb by simp
      show ?thesis
      proof (cases x)
        case (AClose t' e)
        then have "q' = set_conn q t (cb\<lparr>cn_outclosed := close_with e (cn_outclosed cb)\<rparr>)"
          using act at cb by (simp add: mux_act_def user_close_def)
        then show ?thesis using sm_other[OF sok scb] by (intro upd) auto
      next
        case (AReaderClose t' e)
        then have "q' = set_conn q t (cb\<lparr>cn_uinclosed := close_with e (cn_uinclosed cb)\<rparr>)"
          using act at cb B by (simp add: mux_act_def reader_close_def)
        then show ?thesis using sm_other[OF sok scb] by (intro upd) auto
      next
        case (AGrant t')
        then obtain c where "q' = set_conn q t c" "c = cb\<lparr>cn_grants := cn_grants cb - 1\<rparr> \<or> c = cb\<lparr>cn_grants := cn_grants cb - 1, cn_flow := cn_flow cb + 1\<rparr>"
          using act at cb by (auto simp: mux_act_def grant_step_def split: if_splits)
        then show ?thesis using sm_other[OF sok scb] by (intro upd) auto
      next
        case (ARead t')
        then obtain n d where f: "cn_fpc cb = FHold n d"
            and q': "q' = set_conn q t (cb\<lparr>cn_got := cn_got cb @ [d], cn_fpc := (if n + 1 = nbuf div 2 then FGrant else FIdle (n + 1))\<rparr>)"
          using act at cb B by (auto simp: mux_act_def read_step_def split: flowpc.splits if_splits)
        show ?thesis using sm_read[OF sok scb f] q' by (intro upd) auto
      next
        case (AFlowStep t')
        then have fs: "flow_step nbuf t q = Some q'" using act at by (simp add: mux_act_def)
        obtain ds where ds: "cn_in cb = Some ds" using B by blast
        show ?thesis
        proof (cases "cn_fpc cb")
          case (FIdle n)
          show ?thesis
          proof (cases ds)
            case (Cons d ds')
            then have q': "q' = set_conn q t (cb\<lparr>cn_in := Some ds', cn_fpc := FHold n d\<rparr>)"
              using fs cb FIdle ds by (simp add: flow_step_def)
            then show ?thesis using sm_take[OF sok scb FIdle] ds Cons by (intro upd) auto
          next
            case Nil
            then obtain e where i: "cn_inclosed cb = Some e"
                and q': "q' = set_conn q t (cb\<lparr>cn_uinclosed := close_with e (cn_uinclosed cb), cn_fpc := FClosed\<rparr>)"
              using fs cb FIdle ds by (auto simp: flow_step_def split: option.splits)
            then show ?thesis using sm_see_end[OF sok scb FIdle] ds Nil by (intro upd) auto
          qed
        next
          case (FHold n d)
          then obtain e where q': "q' = set_conn q t (cb\<lparr>cn_inclosed := close_with e (cn_inclosed cb), cn_fpc := FGone\<rparr>)"
            using fs cb by (auto simp: flow_step_def split: option.splits)
          then show ?thesis using sm_gone[OF sok scb FHold] by (intro upd) auto
        next
          case FGrant
          note G = sm_grants[OF sok scb FGrant]
          show ?thesis
          proof (cases "mx_closed q")
            case True
            then have "q' = set_conn q t (cb\<lparr>cn_fpc := FIdle 0\<rparr>)" using fs cb FGrant by (simp add: flow_step_def Let_def)
            then show ?thesis using G(2) by (intro upd) auto
          next
            case False
            then have "q' = wire_put (set_conn q t (cb\<lparr>cn_fpc := FIdle 0\<rparr>)) (t OR flowtag) (MBytes [])"
              using fs cb FGrant by (simp add: flow_step_def Let_def)
            then show ?thesis using G(1) by (intro stream_at_cb_write[OF st ca cin t]) auto
          qed
        qed (use fs cb B in \<open>auto simp: flow_step_def\<close>)
      qed (use act at cb B nopen in \<open>auto simp: act_defs Let_def\<close>)
    qed
  qed
qed

section \<open>Messages that arrive\<close>

text \<open>A message that opens a connection when the channel of connections is closed closes the end.\<close>

lemma demux_cases:
  assumes "demux nbuf (tag, d) m = Some m'"
  obtains "mx_closed m' = mx_closed m"
  | e c m1 where "m1 = (set_conn m (tagv tag) (closeConn e c))\<lparr>mx_err := e\<rparr>" "m' = mux_Close m1" "bit tag 31"
      "c = (newConn (Some [d]) (if bit tag 30 then Some [] else None))\<lparr>cn_flowclosed := \<not> bit tag 30, cn_fpc := FIdle 0\<rparr>"
  using assms
  by (auto simp: demux_def demux_new_def Let_def split: option.splits if_splits)

lemma same_set_other: "tagv tag \<noteq> t \<Longrightarrow> same_for t m ((set_conn m (tagv tag) c)\<lparr>mx_err := e\<rparr>)"
  by (simp add: same_for_def)

lemma wire_rest_same: "mx_wire m = (tag, d) # w \<Longrightarrow> tagv tag \<noteq> t \<Longrightarrow> same_for t m (m\<lparr>mx_wire := w\<rparr>)"
  by (simp add: same_for_def)

text \<open>A message of the stream, at the receiver's end.\<close>

lemma view_rest:
  assumes "mx_wire p = (tag, d) # w" and "tagv tag = t"
  shows "sm_V (view t p q ca) = (bit tag 31, bit tag 28, d) # sm_V (view t (p\<lparr>mx_wire := w\<rparr>) q ca)"
    "view t (p\<lparr>mx_wire := w\<rparr>) q ca = (view t p q ca)\<lparr>sm_V := sm_V (view t (p\<lparr>mx_wire := w\<rparr>) q ca)\<rparr>"
  using assms by (simp_all add: view_def)

lemma stream_at_rest:
  assumes st: "stream_at h t p q" and ca: "mx_conns p t = Some ca" "cn_in ca = None" and w: "mx_wire p = (tag, d) # w"
    and c: "strm_ok h ((view t p q ca)\<lparr>sm_V := sm_V (view t (p\<lparr>mx_wire := w\<rparr>) q ca), sm_cb := Some c\<rparr>)"
    and q': "mx_conns q' t = Some c" "mx_wire q' = mx_wire q" "mx_closed q' = mx_closed q" and tv: "tagv tag = t"
  shows "stream_at h t (p\<lparr>mx_wire := w\<rparr>) q'"
proof -
  have "view t (p\<lparr>mx_wire := w\<rparr>) q' ca = (view t p q ca)\<lparr>sm_V := sm_V (view t (p\<lparr>mx_wire := w\<rparr>) q ca), sm_cb := Some c\<rparr>"
    using q' by (simp add: view_def)
  then show ?thesis using c ca q' w tv stream_atD[OF st ca] by (auto simp: stream_at_def)
qed

lemma arrives_stream:
  assumes st: "stream_at h t p q" and ca: "mx_conns p t = Some ca" "cn_in ca = None" and w: "mx_wire p = (tag, d) # w"
    and tv: "tagv tag = t" and dm: "demux nbuf (tag, d) q = Some q'"
  shows "stream_at h t (p\<lparr>mx_wire := w\<rparr>) q'"
proof -
  let ?V = "sm_V (view t (p\<lparr>mx_wire := w\<rparr>) q ca)"
  note sok = stream_atD(1)[OF st ca] and rest = stream_at_rest[OF st ca w] and V = view_rest(1)[OF w tv, of q ca]
  have b: "\<not> bit tag 30" "\<not> bit tag 29" using stream_atD(2)[OF st ca, of tag d] w tv by auto
  have first: "bit tag 31 \<longleftrightarrow> mx_conns q t = None" using arrive_rest(5)[OF sok V] by simp
  show ?thesis
  proof (cases "mx_conns q t")
    case None
    then have f: "bit tag 31" using first by simp
    let ?mc = "(newConn (Some [d]) None)\<lparr>cn_flowclosed := True, cn_fpc := FIdle 0\<rparr>"
    have new: "demux_new tag d q = Some q'" using dm None f tv by (simp add: demux_def split: if_splits)
    have arr: "strm_ok h ((view t p q ca)\<lparr>sm_V := ?V, sm_cb := Some (?mc\<lparr>cn_isreply := False, cn_pc := ONone\<rparr>)\<rparr>)"
      using sm_arrive_new[OF sok, of "bit tag 28" d ?V] V f by simp
    have mc: "?mc\<lparr>cn_isreply := False, cn_pc := ONone\<rparr> = ?mc" "?mc\<lparr>cn_pc := ONone, cn_isreply := False\<rparr> = ?mc"
      by (simp_all add: newConn_def)
    show ?thesis
    proof (cases "mx_Inclosed q = None")
      case True
      then have "mx_conns q' t = Some ?mc" "mx_wire q' = mx_wire q" "mx_closed q' = mx_closed q"
        using new tv b mc by (auto simp: demux_new_def split: if_splits)
      then show ?thesis using arr mc tv by (intro rest) auto
    next
      case False
      let ?q1 = "set_conn q t ?mc"
      define e where "e = (case the (mx_Inclosed q) of None \<Rightarrow> Some ''mux.In is closed'' | Some e \<Rightarrow> Some e)"
      have st1: "stream_at h t (p\<lparr>mx_wire := w\<rparr>) ?q1" using arr mc tv by (intro rest) auto
      have q': "q' = mux_Close ((set_conn q t (closeConn e ?mc))\<lparr>mx_err := e\<rparr>)"
        using new False tv b by (auto simp: demux_new_def e_def Let_def)
      have "e \<noteq> None" by (simp add: e_def split: option.splits)
      then have cc: "mux_Close ((set_conn q t (closeConn e ?mc))\<lparr>mx_err := e\<rparr>) = mux_Close (?q1\<lparr>mx_err := e\<rparr>)"
        by (intro mux.equality ext) (auto simp: mux_Close_def Let_def set_conn_def closeConn_def newConn_def split: option.splits)
      have "stream_at h t (p\<lparr>mx_wire := w\<rparr>) (?q1\<lparr>mx_err := e\<rparr>)"
        using stream_at_same[of t "p\<lparr>mx_wire := w\<rparr>" "p\<lparr>mx_wire := w\<rparr>" ?q1 "?q1\<lparr>mx_err := e\<rparr>"] st1 by (simp add: same_for_def)
      from stream_at_q_close[OF this] show ?thesis using q' cc by simp
    qed
  next
    case cb: (Some cb)
    then have f: "\<not> bit tag 31" using first by simp
    have scb: "sm_cb (view t p q ca) = Some cb" using cb by simp
    obtain ds where ds: "cn_in cb = Some ds" using strm_okD(2)[OF sok] cb by (auto simp: cb_ok_def)
    show ?thesis
    proof (cases "cn_live cb")
      case False
      then have q': "q' = q" using dm cb f tv by (simp add: demux_def split: if_splits)
      have "cn_inclosed cb \<noteq> None" using strm_okD(2)[OF sok] cb False by (auto simp: cb_ok_def)
      then show ?thesis using sm_arrive_lost[OF sok V scb] cb q' tv by (intro rest[of cb]) auto
    next
      case True
      then obtain c where c: "demux_old nbuf tag d cb = Some c" and q': "q' = set_conn q t c"
        using dm cb tv by (auto simp: demux_def split: if_splits)
      have "strm_ok h ((view t p q ca)\<lparr>sm_V := ?V, sm_cb := Some c\<rparr>)"
      proof (cases "bit tag 28")
        case True
        then have "c = closeConn (msg_err d) cb" using c b by (simp add: demux_old_def)
        then show ?thesis using sm_arrive_end[OF sok _ scb] V True by simp
      next
        case nend: False
        show ?thesis
        proof (cases "cn_inclosed cb")
          case None
          then have "c = cb\<lparr>cn_in := Some (ds @ [d])\<rparr>" using c b nend ds by (simp add: demux_old_def split: if_splits)
          then show ?thesis using sm_arrive_data[OF sok _ scb ds None] V nend by simp
        next
          case (Some e)
          then have "c = closeConn e cb" using c b nend ds by (simp add: demux_old_def)
          then show ?thesis using sm_arrive_lost[OF sok V scb, of c e] Some by simp
        qed
      qed
      then show ?thesis using q' tv by (intro rest) auto
    qed
  qed
qed

lemma deliver_receiver:
  assumes st: "stream_at h t p q" and w: "mx_wire p = (tag, d) # w" and dm: "demux nbuf (tag, d) q = Some q'"
  shows "stream_at h t (p\<lparr>mx_wire := w\<rparr>) q'"
proof (cases "tagv tag = t")
  case True
  then obtain ca where ca: "mx_conns p t = Some ca" using st w by (auto simp: stream_at_def split: option.splits)
  show ?thesis
  proof (cases "cn_in ca = None")
    case True
    then show ?thesis using arrives_stream[OF st ca _ w \<open>tagv tag = t\<close> dm] by blast
  next
    case False
    then show ?thesis using ca by (auto simp: stream_at_def)
  qed
next
  case ne: False
  note same = wire_rest_same[OF w ne]
  from dm show ?thesis
  proof (cases rule: demux_cases)
    case 1
    then show ?thesis using demux_other[OF dm ne] stream_at_same[OF same] st by blast
  next
    case (2 e c m1)
    then have "stream_at h t (p\<lparr>mx_wire := w\<rparr>) m1"
      using stream_at_same[OF same same_set_other[OF ne]] st by blast
    then show ?thesis using stream_at_q_close 2 by blast
  qed
qed

lemma deliver_sender:
  assumes st: "stream_at h t p q" and w: "mx_wire q = (tag, d) # w" and dm: "demux nbuf (tag, d) p = Some p'"
  shows "stream_at h t p' (q\<lparr>mx_wire := w\<rparr>)"
proof (cases "tagv tag = t")
  case tv: True
  then obtain ca where ca: "mx_conns p t = Some ca" using st w by (auto simp: stream_at_def split: option.splits)
  show ?thesis
  proof (cases "cn_in ca = None")
    case False
    have "\<exists>c'. mx_conns p' t = Some c' \<and> cn_in c' \<noteq> None"
      using dm False ca tv
      by (auto simp: demux_def demux_new_def demux_old_def mux_Close_def closeConn_def newConn_def Let_def
          split: option.splits if_splits)
    then show ?thesis by (auto simp: stream_at_def)
  next
    case cin: True
    note sok = stream_atD(1)[OF st ca cin]
    have b: "bit tag 29" "\<not> bit tag 31" using stream_atD(3)[OF st ca cin, of tag d] w tv by auto
    have n: "sm_n (view t p q ca) = Suc (length (msgs_for t w))" using w tv by simp
    show ?thesis
    proof (cases "cn_live ca")
      case True
      let ?c = "ca\<lparr>cn_grants := Suc (cn_grants ca)\<rparr>"
      have p': "p' = set_conn p t ?c" using dm True ca tv b by (simp add: demux_def demux_old_def split: if_splits)
      have "strm_ok h ((view t p q ca)\<lparr>sm_ca := ?c, sm_n := length (msgs_for t w)\<rparr>)" using sm_flow_arrives[OF sok n] by simp
      moreover have "view t p' (q\<lparr>mx_wire := w\<rparr>) ?c = (view t p q ca)\<lparr>sm_ca := ?c, sm_n := length (msgs_for t w)\<rparr>"
        using p' by (simp add: view_def)
      ultimately show ?thesis using p' stream_atD[OF st ca cin] w tv by (auto simp: stream_at_def)
    next
      case False
      have p': "p' = p" using dm False ca tv b by (simp add: demux_def split: if_splits)
      have "strm_ok h ((view t p q ca)\<lparr>sm_n := length (msgs_for t w)\<rparr>)" using sm_flow_lost[OF sok n] by simp
      moreover have "view t p (q\<lparr>mx_wire := w\<rparr>) ca = (view t p q ca)\<lparr>sm_n := length (msgs_for t w)\<rparr>" by (simp add: view_def)
      ultimately show ?thesis using p' ca stream_atD[OF st ca cin] w tv by (auto simp: stream_at_def)
    qed
  qed
next
  case ne: False
  note same = wire_rest_same[OF w ne]
  from dm show ?thesis
  proof (cases rule: demux_cases)
    case 1
    then show ?thesis using demux_other[OF dm ne] stream_at_same[OF _ same] st by blast
  next
    case (2 e c m1)
    then have "stream_at h t m1 (q\<lparr>mx_wire := w\<rparr>)"
      using stream_at_same[OF same_set_other[OF ne] same] st by blast
    then show ?thesis using stream_at_p_close 2 by blast
  qed
qed

section \<open>Every schedule\<close>

text \<open>
  What holds at any point: tags are well formed, the ends open streams with tags of their own, and the streams that
  each of them opens are as they should be at both.
\<close>

definition ends_inv :: "nat \<Rightarrow> 'u mux \<Rightarrow> 'u mux \<Rightarrow> bool" where
  "ends_inv h p q \<longleftrightarrow> conns_ok p \<and> bit (mx_tag p) 0 \<noteq> bit (mx_tag q) 0 \<and>
     (\<forall>t. tag_ok t \<and> bit t 0 = bit (mx_tag p) 0 \<longrightarrow> stream_at h t p q)"

lemma act_bit: "mux_act nbuf x m = Some m' \<Longrightarrow> bit (mx_tag m') 0 = bit (mx_tag m) 0"
  by (cases x) (auto simp: act_defs mux_Close_def next_tag_ok Let_def
      split: option.splits if_splits outpc.splits flowpc.splits list.splits)

lemma demux_bit: "demux nbuf (tag, d) m = Some m' \<Longrightarrow> bit (mx_tag m') 0 = bit (mx_tag m) 0"
  by (auto simp: demux_def demux_new_def mux_Close_def Let_def split: option.splits if_splits)

lemma act_ends:
  assumes "mux_act nbuf x p = Some p'" and "2 \<le> nbuf" and "ends_inv (nbuf div 2) p q" and "ends_inv (nbuf div 2) q p"
  shows "ends_inv (nbuf div 2) p' q" and "ends_inv (nbuf div 2) q p'"
  using assms act_bit[OF assms(1)] act_conns_ok[OF assms(1)] act_sender[OF _ assms(1)] act_receiver[OF _ assms(1)]
  unfolding ends_inv_def by metis+

lemma deliver_ends:
  assumes "mx_wire p = (tag, d) # w" and "demux nbuf (tag, d) q = Some q'" and "ends_inv h p q" and "ends_inv h q p"
  shows "ends_inv h (p\<lparr>mx_wire := w\<rparr>) q'" and "ends_inv h q' (p\<lparr>mx_wire := w\<rparr>)"
  using assms demux_bit[OF assms(2)] demux_conns_ok[OF assms(2)] deliver_receiver[OF _ assms(1,2)]
    deliver_sender[OF _ assms(1,2)]
  unfolding ends_inv_def by (auto simp: conns_ok_def)

lemma reach_ends:
  assumes "mux_reach nbuf s" and "2 \<le> nbuf"
  shows "ends_inv (nbuf div 2) (fst s) (snd s) \<and> ends_inv (nbuf div 2) (snd s) (fst s)"
  using assms(1)
proof (induction rule: mux_reach.induct)
  case (init ea eb)
  then show ?case by (auto simp: ends_inv_def conns_ok_def NewMux_def stream_at_def)
next
  case (step s x s')
  obtain a b a' b' where s: "s = (a, b)" "s' = (a', b')" by (cases s; cases s')
  show ?case
  proof (cases x)
    case (Act side y)
    then show ?thesis
      using step act_ends[OF _ assms(2)] s by (cases side) auto
  next
    case (Deliver side)
    then show ?thesis
      using step.hyps step.IH deliver_ends s by (cases side) (auto split: list.splits)
  qed
qed

text \<open>The streams of an end with no reply: the first end when the boolean is true.\<close>

definition sender :: "bool \<Rightarrow> 'u muxes \<Rightarrow> 'u mux" where "sender side s = (if side then fst s else snd s)"
definition receiver :: "bool \<Rightarrow> 'u muxes \<Rightarrow> 'u mux" where "receiver side s = (if side then snd s else fst s)"

definition out_stream :: "bool \<Rightarrow> 32 word \<Rightarrow> 'u muxes \<Rightarrow> 'u conn \<Rightarrow> bool" where
  "out_stream side t s ca \<longleftrightarrow> bit t 0 = bit (mx_tag (sender side s)) 0 \<and> mx_conns (sender side s) t = Some ca \<and> cn_in ca = None"

lemma out_stream_at:
  assumes "mux_reach nbuf s" and "2 \<le> nbuf" and "out_stream side t s ca"
  shows "tag_ok t" and "stream_at (nbuf div 2) t (sender side s) (receiver side s)"
proof -
  have e: "ends_inv (nbuf div 2) (sender side s) (receiver side s)"
    using reach_ends[OF assms(1,2)] by (cases side) (simp_all add: sender_def receiver_def)
  have o: "mx_conns (sender side s) t \<noteq> None" "bit t 0 = bit (mx_tag (sender side s)) 0"
    using assms(3) by (simp_all add: out_stream_def)
  show "tag_ok t" using e o(1) unfolding ends_inv_def conns_ok_def by blast
  then show "stream_at (nbuf div 2) t (sender side s) (receiver side s)" using e o(2) unfolding ends_inv_def by blast
qed

text \<open>
  C9: at any point of any schedule of two ends with buffers of two messages or more, the reader of a stream with no
  reply (one opened by \<open>Out\<close>) whose sender has sent a message that can be written has received a prefix, in order, of
  the messages sent that can be written; and all of them once it has seen the end of the stream, if its own end of the
  connection has not been closed.  A stream of no such messages is an exception, by a bug of the code
  (\<open>mux_empty_stream\<close>): its reader receives nothing, or the message that ends the stream as if it were data.
\<close>

theorem mux_stream_fifo:
  assumes "mux_reach nbuf s" and "2 \<le> nbuf" and "out_stream side t s ca" and "mx_conns (receiver side s) t = Some cb"
  shows "if sendable (cn_sent ca) \<noteq> [] then
      prefix (cn_got cb) (sendable (cn_sent ca)) \<and>
      (cn_fpc cb = FClosed \<and> \<not> mx_closed (receiver side s) \<longrightarrow> cn_got cb = sendable (cn_sent ca))
    else cn_got cb = [] \<or> (\<exists>e. cn_outclosed ca = Some e \<and> cn_got cb = [end_msg e])"
proof -
  have ca: "mx_conns (sender side s) t = Some ca" "cn_in ca = None" using assms(3) by (simp_all add: out_stream_def)
  note I = strm_okD[OF stream_atD(1)[OF out_stream_at(2)[OF assms(1-3)] ca]]
  have B: "cn_fpc cb = FClosed \<longrightarrow> cn_in cb = Some [] \<and> cn_inclosed cb \<noteq> None"
    using I(2) assms(4) by (simp add: cb_ok_def)
  have "prefix (cn_got cb) (has (Some cb))" by (simp add: has_def)
  moreover have "prefix (has (Some cb)) (said ca)"
    "cn_fpc cb = FClosed \<and> \<not> mx_closed (receiver side s) \<longrightarrow> has (Some cb) = said ca"
    using I(7) assms(4) B by (auto simp: data_ok_def Let_def cb_ended_def)
  moreover have "cn_fpc cb = FClosed \<longrightarrow> has (Some cb) = cn_got cb" using B by (auto simp: has_def ins_def)
  ultimately have got: "prefix (cn_got cb) (said ca)"
    "cn_fpc cb = FClosed \<and> \<not> mx_closed (receiver side s) \<longrightarrow> cn_got cb = said ca"
    using prefix_order.trans by metis+
  show ?thesis
  proof (cases "sendable (cn_sent ca) = []")
    case False
    then show ?thesis using got by (simp add: said_def)
  next
    case True
    have "pc_done (cn_pc ca) \<Longrightarrow> cn_outclosed ca \<noteq> None" using I(1) by (auto simp: ca_ok_def Let_def pc_ended_def)
    then show ?thesis using True got(1) by (auto simp: said_def prefix_Cons split: if_splits)
  qed
qed

text \<open>
  C10: the reader of the device of an end that is not closed, at any point of any schedule with buffers of two messages
  or more, never waits for the reader of a stream with no reply (one opened by \<open>Out\<close>), whatever the readers do: the next
  message, when it is of such a stream, is taken at once if fewer than 10 new connections wait to be accepted.  It does wait
  for a caller that does not read the replies to a call (\<open>mux_replies_block\<close>).
\<close>

theorem mux_never_waits:
  assumes "mux_reach nbuf s" and "2 \<le> nbuf" and "mx_wire (sender side s) = (tag, d) # w"
    and "out_stream side (tagv tag) s ca" and "\<not> mx_closed (receiver side s)" and "length (mx_In (receiver side s)) < 10"
  shows "demux nbuf (tag, d) (receiver side s) \<noteq> None"
proof -
  let ?q = "receiver side s" and ?t = "tagv tag"
  have new: "demux_new tag d ?q \<noteq> None" using assms(6) by (simp add: demux_new_def Let_def)
  have ca: "mx_conns (sender side s) ?t = Some ca" "cn_in ca = None" using assms(4) by (simp_all add: out_stream_def)
  note sok = stream_atD(1)[OF out_stream_at(2)[OF assms(1,2,4)] ca]
  show ?thesis
  proof (cases "mx_conns ?q ?t")
    case None
    then show ?thesis using new assms(5) by (simp add: demux_def)
  next
    case (Some cb)
    have V: "sm_V (view ?t (sender side s) ?q ca) = (bit tag 31, bit tag 28, d) # sm_V (view ?t ((sender side s)\<lparr>mx_wire := w\<rparr>) ?q ca)"
      using view_rest(1)[OF assms(3) refl] .
    have "demux_old nbuf tag d cb \<noteq> None"
      using sm_room[OF sok, of _ d _ cb] V Some by (auto simp: demux_old_def split: option.splits)
    then show ?thesis using new assms(5) Some by (simp add: demux_def)
  qed
qed

end
