(* ===== verification/MuxRuns.thy ===== *)
theory MuxRuns
  imports MuxProps
begin

text \<open>
  Schedules of two ends: a stream that is read to its end, and what happens where the code goes wrong.
\<close>

section \<open>Running a schedule\<close>

text \<open>Two ends with buffers of 2 messages; the first stream of the first end has the tag 3.\<close>

definition demo_ends :: "unit muxes" where
  "demo_ends = (NewMux True ''closed'', NewMux False ''closed'')"

definition ran :: "unit sys_act list \<Rightarrow> (unit muxes \<Rightarrow> bool) \<Rightarrow> bool" where
  "ran xs P \<longleftrightarrow> (case sys_run 2 xs demo_ends of None \<Rightarrow> False | Some s \<Rightarrow> P s)"

lemma ran_reach:
  assumes "ran xs P"
  shows "\<exists>s. mux_reach 2 s \<and> P s"
proof -
  obtain s where s: "sys_run 2 xs demo_ends = Some s" "P s" using assms by (auto simp: ran_def split: option.splits)
  have "mux_reach 2 s" using run_reach[OF mux_reach.init s(1)[unfolded demo_ends_def]] .
  then show ?thesis using s(2) by blast
qed

definition conn_at :: "bool \<Rightarrow> 32 word \<Rightarrow> 'u muxes \<Rightarrow> ('u conn \<Rightarrow> bool) \<Rightarrow> bool" where
  "conn_at side t s P \<longleftrightarrow> (case mx_conns (sender side s) t of None \<Rightarrow> False | Some c \<Rightarrow> P c)"

definition idle_wires :: "'u muxes \<Rightarrow> bool" where
  "idle_wires s \<longleftrightarrow> mx_wire (fst s) = [] \<and> mx_wire (snd s) = [] \<and> \<not> mx_closed (fst s) \<and> \<not> mx_closed (snd s)"

definition outs_at :: "bool \<Rightarrow> nat \<Rightarrow> unit sys_act list" where
  "outs_at side n = replicate n (Act side (AOutStep 3))"

definition say :: "bool \<Rightarrow> unit msg \<Rightarrow> nat \<Rightarrow> unit sys_act list" where
  "say side d n = Act side (ASend 3 d) # outs_at side n"

section \<open>A stream\<close>

definition one_message :: "unit sys_act list" where
  "one_message = Act True AOut # say True (MStr ''a'') 3"

definition read_all :: "unit sys_act list" where
  "read_all = [Deliver True, Act False (AFlowStep 3), Act False (ARead 3), Act False (AFlowStep 3),
     Act True (AClose 3 None)] @ outs_at True 2 @ [Deliver True, Act False (AFlowStep 3)]"

lemma demo_message: "ran one_message (\<lambda>s. conn_at True 3 s (\<lambda>c. cn_in c = None \<and> bit (3 :: 32 word) 0 = bit (mx_tag (fst s)) 0) \<and>
    mx_wire (fst s) = [(3 + push_bit 31 1, MStr ''a'')] \<and> \<not> mx_closed (snd s) \<and> mx_In (snd s) = [])"
  by code_simp

lemma demo_read: "ran (one_message @ read_all) (\<lambda>s.
    conn_at True 3 s (\<lambda>c. cn_in c = None \<and> bit (3 :: 32 word) 0 = bit (mx_tag (fst s)) 0 \<and> cn_sent c = [MStr ''a'']) \<and>
    conn_at False 3 s (\<lambda>c. cn_got c = [MStr ''a''] \<and> cn_fpc c = FClosed) \<and> \<not> mx_closed (snd s))"
  by code_simp

theorem mux_stream_fifo_witness:
  "\<exists>s ca cb. mux_reach 2 s \<and> out_stream True 3 s ca \<and> mx_conns (receiver True s) 3 = Some (cb :: unit conn) \<and>
    sendable (cn_sent ca) = [MStr ''a''] \<and> prefix (cn_got cb) (sendable (cn_sent ca)) \<and> cn_got cb = [MStr ''a'']"
proof -
  obtain s :: "unit muxes" where s: "mux_reach 2 s"
      "conn_at True 3 s (\<lambda>c. cn_in c = None \<and> bit (3 :: 32 word) 0 = bit (mx_tag (fst s)) 0 \<and> cn_sent c = [MStr ''a''])"
      "conn_at False 3 s (\<lambda>c. cn_got c = [MStr ''a''] \<and> cn_fpc c = FClosed)" "\<not> mx_closed (snd s)"
    using ran_reach[OF demo_read] by blast
  obtain ca where ca: "out_stream True 3 s ca" "sendable (cn_sent ca) = [MStr ''a'']"
    using s(2) by (auto simp: conn_at_def out_stream_def sender_def split: option.splits)
  obtain cb where cb: "mx_conns (receiver True s) 3 = Some cb" "cn_got cb = [MStr ''a'']" "cn_fpc cb = FClosed"
    using s(3) by (auto simp: conn_at_def receiver_def sender_def split: option.splits)
  from mux_stream_fifo[OF s(1) order_refl ca(1) cb(1)] have "prefix (cn_got cb) (sendable (cn_sent ca))" by (simp add: ca(2))
  then show ?thesis using s(1) ca cb by blast
qed

theorem mux_never_waits_witness:
  "\<exists>s. mux_reach 2 s \<and> mx_wire (sender True s) = [(3 + push_bit 31 1, MStr ''a'')] \<and>
    demux 2 (3 + push_bit 31 1, MStr ''a'' :: unit msg) (receiver True s) \<noteq> None"
proof -
  obtain s :: "unit muxes" where s: "mux_reach 2 s" "conn_at True 3 s (\<lambda>c. cn_in c = None \<and> bit (3 :: 32 word) 0 = bit (mx_tag (fst s)) 0)"
      "mx_wire (fst s) = [(3 + push_bit 31 1, MStr ''a'')]" "\<not> mx_closed (snd s)" "mx_In (snd s) = []"
    using ran_reach[OF demo_message] by blast
  have w: "mx_wire (sender True s) = [(3 + push_bit 31 1, MStr ''a'')]" using s(3) by (simp add: sender_def)
  have t: "tagv (3 + push_bit 31 1) = 3" by code_simp
  obtain ca where "out_stream True 3 s ca" using s(2) by (auto simp: conn_at_def out_stream_def sender_def split: option.splits)
  then have ca: "out_stream True (tagv (3 + push_bit 31 1)) s ca" by (simp only: t)
  have q: "\<not> mx_closed (receiver True s)" "length (mx_In (receiver True s)) < 10" using s(4,5) by (simp_all add: receiver_def)
  from mux_never_waits[OF s(1) order_refl w ca q] s(1) w show ?thesis by blast
qed

section \<open>Where the code goes wrong\<close>

text \<open>
  A stream closed with no message sent: the reader of the other end receives an empty message, and the stream never
  ends for it, with the sender done and nothing on its way.
\<close>

theorem mux_empty_stream:
  "ran ([Act True AOut, Act True (AClose 3 None)] @ outs_at True 4 @
      [Deliver True, Act False (AFlowStep 3), Act False (ARead 3), Act False (AFlowStep 3), Deliver False])
    (\<lambda>s. idle_wires s \<and> conn_at True 3 s (\<lambda>c. cn_sent c = [] \<and> cn_pc c = ODone) \<and>
      conn_at False 3 s (\<lambda>c. cn_got c = [MBytes []] \<and> cn_fpc c = FIdle 0 \<and> cn_inclosed c = None))"
  by code_simp

text \<open>
  Messages that cannot be written take their tickets, and nobody grants them back: after as many as the buffer holds
  the stream stops for ever.
\<close>

theorem mux_discarded_stop:
  "ran (Act True AOut # say True MOther 3 @ say True MOther 3 @ say True (MStr ''a'') 1)
    (\<lambda>s. idle_wires s \<and> conn_at True 3 s (\<lambda>c. cn_pc c = OTicket True (MStr ''a'') \<and> cn_flow c = 0 \<and> cn_grants c = 0) \<and>
      out_step 2 3 (fst s) = None \<and> mx_conns (snd s) 3 = None)"
  by code_simp

text \<open>
  Nobody grants the replies to a call: while its request has not ended, no more than the buffer holds are sent, with
  all of them read.
\<close>

theorem mux_replies_stop:
  "ran (Act True ARpc # say True (MStr ''q'') 3 @ [Deliver True] @
      say False (MStr ''r'') 3 @ [Deliver False, Act True (ARead 3)] @ say False (MStr ''r'') 3 @ [Deliver False, Act True (ARead 3)] @
      say False (MStr ''r'') 1)
    (\<lambda>s. idle_wires s \<and> conn_at True 3 s (\<lambda>c. cn_got c = [MStr ''r'', MStr ''r''] \<and> cn_in c = Some []) \<and>
      out_step 2 3 (snd s) = None \<and> conn_at False 3 s (\<lambda>c. cn_pc c = OTicket False (MStr ''r'') \<and> cn_grants c = 0))"
  by code_simp

text \<open>
  And once it has ended they are not subject to flow control: a caller that does not read them stops the reader of the
  device, and with it every other stream.
\<close>

theorem mux_replies_block:
  "ran (Act True ARpc # say True (MStr ''q'') 3 @ [Act True (AClose 3 None)] @ outs_at True 3 @ [Deliver True, Deliver True] @
      say False (MStr ''r'') 3 @ [Deliver False] @ say False (MStr ''r'') 3 @ [Deliver False] @ say False (MStr ''r'') 3)
    (\<lambda>s. mx_wire (snd s) \<noteq> [] \<and> \<not> mx_closed (fst s) \<and> mx_In (fst s) = [] \<and> demux 2 (hd (mx_wire (snd s))) (fst s) = None)"
  by code_simp

text \<open>
  A call whose request is closed with an error is forgotten by the caller, and the first reply, which has the mark of
  a first message, is then taken for a new connection from the server.
\<close>

theorem mux_reply_opens_connection:
  "ran (Act True ARpc # say True (MStr ''q'') 3 @ [Act True (AClose 3 (Some ''no''))] @ outs_at True 3 @ [Deliver True] @
      say False (MStr ''r'') 3 @ [Deliver False])
    (\<lambda>s. mx_In (fst s) = [3] \<and> conn_at True 3 s (\<lambda>c. cn_sent c = [] \<and> cn_in c = Some [MStr ''r''] \<and> cn_fpc c = FIdle 0))"
  by code_simp

text \<open>A call that is done is kept in the table of the caller.\<close>

theorem mux_calls_are_kept:
  "ran (Act True ARpc # say True (MStr ''q'') 3 @ [Act True (AClose 3 None)] @ outs_at True 3 @ [Deliver True, Deliver True,
      Act False (AClose 3 None)] @ outs_at False 4 @ [Deliver False])
    (\<lambda>s. idle_wires s \<and> conn_at False 3 s (\<lambda>c. cn_pc c = ODone \<and> \<not> cn_live c) \<and>
      conn_at True 3 s (\<lambda>c. cn_pc c = ODone \<and> cn_inclosed c \<noteq> None \<and> cn_live c))"
  by code_simp

end
