(* ===== verification/GoStrings.thy ===== *)
theory GoStrings
  imports Prelude
begin

text \<open>
  What the modelled code uses of Go's standard library on strings: \<open>strings\<close>, \<open>strconv\<close>,
  \<open>unicode/utf8\<close>, \<open>path\<close> and the verbs of \<open>fmt\<close>, after their documentation.  A string is
  its list of bytes.  Unicode tables (which runes past Latin-1 are printable, or upper case)
  are parameters of the operations that use them.
\<close>

abbreviation byte_of :: "char \<Rightarrow> int" where
  "byte_of c \<equiv> int (of_char c)"

definition chr_of :: "int \<Rightarrow> char" where
  "chr_of n = char_of (nat n)"

section \<open>Package strings\<close>

definition go_has_prefix :: "string \<Rightarrow> string \<Rightarrow> bool" where
  "go_has_prefix s p \<longleftrightarrow> take (length p) s = p"

fun go_contains :: "string \<Rightarrow> string \<Rightarrow> bool" where
  "go_contains [] sub \<longleftrightarrow> sub = []"
| "go_contains (c # s) sub \<longleftrightarrow> go_has_prefix (c # s) sub \<or> go_contains s sub"

text \<open>\<open>Split\<close> by a separator of one byte: always at least one element.\<close>

fun go_split :: "char \<Rightarrow> string \<Rightarrow> string list" where
  "go_split c [] = [[]]"
| "go_split c (x # s) =
     (if x = c then [] # go_split c s
      else (x # hd (go_split c s)) # tl (go_split c s))"

text \<open>\<open>SplitN\<close> with at most two elements.\<close>

fun go_split2 :: "char \<Rightarrow> string \<Rightarrow> string list" where
  "go_split2 c [] = [[]]"
| "go_split2 c (x # s) =
     (if x = c then [[], s]
      else (x # hd (go_split2 c s)) # tl (go_split2 c s))"

text \<open>The same functions with one recursive call, for evaluation.\<close>

lemma go_split_code [code]:
  "go_split c [] = [[]]"
  "go_split c (x # s) =
     (if x = c then [] # go_split c s else (case go_split c s of [] \<Rightarrow> [[x]] | a # as \<Rightarrow> (x # a) # as))"
proof -
  have "go_split c s \<noteq> []" by (cases s) simp_all
  then show "go_split c (x # s) =
     (if x = c then [] # go_split c s else (case go_split c s of [] \<Rightarrow> [[x]] | a # as \<Rightarrow> (x # a) # as))"
    by (cases "go_split c s") simp_all
qed simp

lemma go_split2_code [code]:
  "go_split2 c [] = [[]]"
  "go_split2 c (x # s) =
     (if x = c then [[], s] else (case go_split2 c s of [] \<Rightarrow> [[x]] | a # as \<Rightarrow> (x # a) # as))"
proof -
  have "go_split2 c s \<noteq> []" by (cases s) simp_all
  then show "go_split2 c (x # s) =
     (if x = c then [[], s] else (case go_split2 c s of [] \<Rightarrow> [[x]] | a # as \<Rightarrow> (x # a) # as))"
    by (cases "go_split2 c s") simp_all
qed simp

fun go_join :: "string \<Rightarrow> string list \<Rightarrow> string" where
  "go_join sep [] = []"
| "go_join sep [s] = s"
| "go_join sep (s # ss) = s @ sep @ go_join sep ss"

text \<open>\<open>IndexByte\<close> and \<open>LastIndexByte\<close>; None stands for -1.\<close>

fun go_index_byte :: "string \<Rightarrow> char \<Rightarrow> nat option" where
  "go_index_byte [] c = None"
| "go_index_byte (x # s) c = (if x = c then Some 0 else map_option Suc (go_index_byte s c))"

fun go_last_index_byte :: "string \<Rightarrow> char \<Rightarrow> nat option" where
  "go_last_index_byte [] c = None"
| "go_last_index_byte (x # s) c =
     (case go_last_index_byte s c of
        Some n \<Rightarrow> Some (Suc n)
      | None \<Rightarrow> if x = c then Some 0 else None)"

section \<open>UTF-8\<close>

definition rune_error :: rune where
  "rune_error = 0xFFFD"

definition cont_byte :: "char \<Rightarrow> bool" where
  "cont_byte c \<longleftrightarrow> 0x80 \<le> byte_of c \<and> byte_of c < 0xC0"

text \<open>
  \<open>DecodeRune\<close>: the first rune and its size in bytes; an invalid sequence is the error rune
  with size 1, an empty one has size 0.
\<close>

definition go_decode :: "string \<Rightarrow> rune \<times> nat" where
  "go_decode s =
     (case s of
        [] \<Rightarrow> (rune_error, 0)
      | c0 # r0 \<Rightarrow>
        if byte_of c0 < 0x80 then (byte_of c0, 1)
        else if byte_of c0 < 0xC0 then (rune_error, 1)
        else (case r0 of
            [] \<Rightarrow> (rune_error, 1)
          | c1 # r1 \<Rightarrow>
            if \<not> cont_byte c1 then (rune_error, 1)
            else if byte_of c0 < 0xE0 then
              (let r = (byte_of c0 - 0xC0) * 64 + (byte_of c1 - 0x80) in
               if r \<le> 0x7F then (rune_error, 1) else (r, 2))
            else (case r1 of
                [] \<Rightarrow> (rune_error, 1)
              | c2 # r2 \<Rightarrow>
                if \<not> cont_byte c2 then (rune_error, 1)
                else if byte_of c0 < 0xF0 then
                  (let r = (byte_of c0 - 0xE0) * 4096 + (byte_of c1 - 0x80) * 64 + (byte_of c2 - 0x80) in
                   if r \<le> 0x7FF \<or> 0xD800 \<le> r \<and> r \<le> 0xDFFF then (rune_error, 1) else (r, 3))
                else (case r2 of
                    [] \<Rightarrow> (rune_error, 1)
                  | c3 # r3 \<Rightarrow>
                    if \<not> cont_byte c3 then (rune_error, 1)
                    else if byte_of c0 < 0xF8 then
                      (let r = (byte_of c0 - 0xF0) * 262144 + (byte_of c1 - 0x80) * 4096
                               + (byte_of c2 - 0x80) * 64 + (byte_of c3 - 0x80) in
                       if r \<le> 0xFFFF \<or> 0x10FFFF < r then (rune_error, 1) else (r, 4))
                    else (rune_error, 1)))))"

lemma go_decode_size: "s \<noteq> [] \<Longrightarrow> 0 < snd (go_decode s)"
  by (auto simp: go_decode_def Let_def split: list.splits)

lemma go_decode_ascii: "byte_of c < 0x80 \<Longrightarrow> go_decode (c # s) = (byte_of c, 1)"
  by (simp add: go_decode_def)

text \<open>\<open>EncodeRune\<close>, as in \<open>string(r)\<close> and \<open>WriteRune\<close>: surrogates and runes out of range
  are written as the error rune.\<close>

definition go_encode :: "rune \<Rightarrow> string" where
  "go_encode r0 =
     (let r = (if r0 < 0 \<or> 0x10FFFF < r0 \<or> 0xD800 \<le> r0 \<and> r0 \<le> 0xDFFF then rune_error else r0) in
      if r \<le> 0x7F then [chr_of r]
      else if r \<le> 0x7FF then [chr_of (0xC0 + r div 64), chr_of (0x80 + r mod 64)]
      else if r \<le> 0xFFFF then
        [chr_of (0xE0 + r div 4096), chr_of (0x80 + r div 64 mod 64), chr_of (0x80 + r mod 64)]
      else [chr_of (0xF0 + r div 262144), chr_of (0x80 + r div 4096 mod 64),
            chr_of (0x80 + r div 64 mod 64), chr_of (0x80 + r mod 64)])"

function go_runes :: "string \<Rightarrow> rune list" where
  "go_runes s = (if s = [] then [] else fst (go_decode s) # go_runes (drop (snd (go_decode s)) s))"
  by pat_completeness auto
termination
  by (relation "measure length") (use go_decode_size in auto)

declare go_runes.simps [simp del]

definition go_string :: "rune list \<Rightarrow> string" where
  "go_string rs = concat (map go_encode rs)"

text \<open>White space, and \<open>Fields\<close> and \<open>TrimSpace\<close>, which work on runes.\<close>

definition go_is_space :: "rune \<Rightarrow> bool" where
  "go_is_space r \<longleftrightarrow> 9 \<le> r \<and> r \<le> 13 \<or> r = 32 \<or> r = 0x85 \<or> r = 0xA0 \<or> r = 0x1680 \<or>
     0x2000 \<le> r \<and> r \<le> 0x200A \<or> r = 0x2028 \<or> r = 0x2029 \<or> r = 0x202F \<or> r = 0x205F \<or> r = 0x3000"

text \<open>The bytes of a string, one group for each rune.\<close>

function go_groups :: "string \<Rightarrow> (rune \<times> string) list" where
  "go_groups s = (if s = [] then []
     else (let (r, n) = go_decode s in (r, take n s) # go_groups (drop n s)))"
  by pat_completeness auto
termination
  by (relation "measure length") (use go_decode_size in \<open>auto simp: prod_eq_iff\<close>)

declare go_groups.simps [simp del]

fun fields_loop :: "(rune \<times> string) list \<Rightarrow> string \<Rightarrow> string list" where
  "fields_loop [] cur = (if cur = [] then [] else [cur])"
| "fields_loop ((r, g) # gs) cur =
     (if go_is_space r then (if cur = [] then fields_loop gs [] else cur # fields_loop gs [])
      else fields_loop gs (cur @ g))"

definition go_fields :: "string \<Rightarrow> string list" where
  "go_fields s = fields_loop (go_groups s) []"

definition go_trim_space :: "string \<Rightarrow> string" where
  "go_trim_space s =
     concat (map snd (rev (dropWhile (go_is_space \<circ> fst)
       (rev (dropWhile (go_is_space \<circ> fst) (go_groups s))))))"

definition go_rune_count :: "string \<Rightarrow> nat" where
  "go_rune_count s = length (go_runes s)"

text \<open>\<open>IsUpper\<close>: ASCII letters, and past ASCII what the Unicode tables say.\<close>

definition go_is_upper :: "(rune \<Rightarrow> bool) \<Rightarrow> rune \<Rightarrow> bool" where
  "go_is_upper tab r \<longleftrightarrow> (if r < 0x80 then 65 \<le> r \<and> r \<le> 90 else tab r)"

end
