(* ===== verification/GoConv.thy ===== *)
theory GoConv
  imports GoStrings
begin

text \<open>
  What the modelled code uses of \<open>strconv\<close> and of the verbs of \<open>fmt\<close>: unsigned and
  signed integers in a base, and quoted strings; with the round trips the components need.
\<close>

section \<open>Formatting integers\<close>

definition digit_char :: "nat \<Rightarrow> char" where
  "digit_char d = (if d < 10 then char_of (48 + d) else char_of (87 + d))"

function go_digits :: "nat \<Rightarrow> nat \<Rightarrow> string" where
  "go_digits b n =
     (if b < 2 then [] else if n < b then [digit_char n] else go_digits b (n div b) @ [digit_char (n mod b)])"
  by pat_completeness auto
termination
  by (relation "measure snd") (auto simp: div_less_dividend)

declare go_digits.simps [simp del]

text \<open>\<open>FormatUint\<close> and \<open>FormatInt\<close>, \<open>%d\<close> and \<open>%o\<close>.\<close>

definition go_format_int :: "int \<Rightarrow> nat \<Rightarrow> string" where
  "go_format_int n b =
     (if n < 0 then CHR ''-'' # go_digits b (nat (- n)) else go_digits b (nat n))"

definition go_pad_left :: "nat \<Rightarrow> string \<Rightarrow> string" where
  "go_pad_left w s = replicate (w - go_rune_count s) (CHR '' '') @ s"

definition go_pad_right :: "nat \<Rightarrow> string \<Rightarrow> string" where
  "go_pad_right w s = s @ replicate (w - go_rune_count s) (CHR '' '')"

section \<open>Parsing integers\<close>

datatype num_error = NumSyntax | NumRange

definition digit_val :: "char \<Rightarrow> nat option" where
  "digit_val c =
     (let n = of_char c :: nat in
      if 48 \<le> n \<and> n \<le> 57 then Some (n - 48)
      else if 97 \<le> n \<and> n \<le> 122 then Some (n - 87)
      else if 65 \<le> n \<and> n \<le> 90 then Some (n - 55)
      else None)"

text \<open>
  \<open>ParseUint\<close> for 64 bits: the value and the error; a syntax error comes with 0, a range
  error with the largest value.
\<close>

fun parse_digits :: "nat \<Rightarrow> nat \<Rightarrow> string \<Rightarrow> nat \<times> num_error option" where
  "parse_digits b acc [] = (acc, None)"
| "parse_digits b acc (c # s) =
     (case digit_val c of
        None \<Rightarrow> (0, Some NumSyntax)
      | Some v \<Rightarrow>
          if b \<le> v then (0, Some NumSyntax)
          else if 2 ^ 64 \<le> acc * b + v then (2 ^ 64 - 1, Some NumRange)
          else parse_digits b (acc * b + v) s)"

definition go_parse_uint :: "string \<Rightarrow> nat \<Rightarrow> nat \<times> num_error option" where
  "go_parse_uint s b =
     (if s = [] then (0, Some NumSyntax)
      else if b = 0 then
        (if take 2 s = ''0x'' \<or> take 2 s = ''0X'' then
           (if drop 2 s = [] then (0, Some NumSyntax) else parse_digits 16 0 (drop 2 s))
         else if hd s = CHR ''0'' then parse_digits 8 0 s
         else parse_digits 10 0 s)
      else parse_digits b 0 s)"

text \<open>\<open>ParseInt\<close> for 64 bits, which is \<open>Atoi\<close> in base 10.\<close>

definition go_parse_int :: "string \<Rightarrow> nat \<Rightarrow> int \<times> num_error option" where
  "go_parse_int s b =
     (if s = [] then (0, Some NumSyntax)
      else (let neg = (hd s = CHR ''-'');
                t = (if hd s = CHR ''-'' \<or> hd s = CHR ''+'' then tl s else s);
                (n, e) = go_parse_uint t b in
        if e = Some NumSyntax then (0, Some NumSyntax)
        else if \<not> neg \<and> 2 ^ 63 \<le> n then (2 ^ 63 - 1, Some NumRange)
        else if neg \<and> 2 ^ 63 < n then (- (2 ^ 63), Some NumRange)
        else (if neg then - int n else int n, None)))"

definition go_atoi :: "string \<Rightarrow> int \<times> num_error option" where
  "go_atoi s = go_parse_int s 10"

lemma digit_val_char: "d < b \<Longrightarrow> b \<le> 36 \<Longrightarrow> digit_val (digit_char d) = Some d"
  by (auto simp: digit_val_def digit_char_def Let_def)

lemma parse_digits_append:
  "parse_digits b acc s = (n, None) \<Longrightarrow> parse_digits b acc (s @ t) = parse_digits b n t"
  by (induction b acc s rule: parse_digits.induct) (auto split: option.splits if_splits)

lemma parse_digits_format:
  assumes "2 \<le> b" and "b \<le> 36" and "n < 2 ^ 64"
  shows "parse_digits b 0 (go_digits b n) = (n, None)"
  using assms
proof (induction b n rule: go_digits.induct)
  case (1 b n)
  show ?case
  proof (cases "n < b")
    case True
    then show ?thesis using 1 by (simp add: go_digits.simps digit_val_char)
  next
    case False
    have d: "n div b < 2 ^ 64" using 1(4) div_le_dividend[of n b] by linarith
    have "parse_digits b 0 (go_digits b (n div b)) = (n div b, None)"
      using 1(1)[OF _ False] 1(2,3) d by simp
    then have "parse_digits b 0 (go_digits b (n div b) @ [digit_char (n mod b)]) =
        parse_digits b (n div b) [digit_char (n mod b)]"
      by (rule parse_digits_append)
    also have "\<dots> = (n, None)"
      using 1(2-4) digit_val_char[of "n mod b" b] by (simp add: div_mult_mod_eq not_le)
    finally show ?thesis using False 1(2) by (simp add: go_digits.simps)
  qed
qed

lemma go_digits_nonempty [simp]: "2 \<le> b \<Longrightarrow> go_digits b n \<noteq> []"
  by (simp add: go_digits.simps)

lemma digit_char_range: "d < 36 \<Longrightarrow> of_char (digit_char d) = (if d < 10 then 48 + d else 87 + d)"
  by (simp add: digit_char_def)

text \<open>Decimal and octal numbers are made of digits.\<close>

lemma go_digits_set:
  assumes "2 \<le> b" and "b \<le> 10" and "c \<in> set (go_digits b n)"
  shows "48 \<le> (of_char c :: nat) \<and> (of_char c :: nat) \<le> 57"
  using assms
proof (induction b n rule: go_digits.induct)
  case (1 b n)
  have d: "48 \<le> (of_char (digit_char d) :: nat) \<and> (of_char (digit_char d) :: nat) \<le> 57" if "d < b" for d
    using digit_char_range[of d] that 1(3) by auto
  show ?case
  proof (cases "n < b")
    case True
    then show ?thesis using 1(2-4) d by (simp add: go_digits.simps)
  next
    case False
    then have "c \<in> set (go_digits b (n div b)) \<or> c = digit_char (n mod b)"
      using 1(2,4) by (auto simp: go_digits.simps[of b n])
    then show ?thesis using 1(1)[OF _ False] 1(2,3) d[of "n mod b"] by auto
  qed
qed

lemma go_parse_uint_format:
  "2 \<le> b \<Longrightarrow> b \<le> 36 \<Longrightarrow> n < 2 ^ 64 \<Longrightarrow> go_parse_uint (go_digits b n) b = (n, None)"
  by (simp add: go_parse_uint_def parse_digits_format)

lemma go_atoi_format:
  assumes "- (2 ^ 63) \<le> n" and "n < 2 ^ 63"
  shows "go_atoi (go_format_int n 10) = (n, None)"
proof (cases "n < 0")
  case True
  then show ?thesis
    using assms go_parse_uint_format[of 10 "nat (- n)"]
    by (simp add: go_atoi_def go_parse_int_def go_format_int_def Let_def)
next
  case False
  let ?s = "go_digits 10 (nat n)"
  have "hd ?s \<in> set ?s" by simp
  then have "48 \<le> (of_char (hd ?s) :: nat)" using go_digits_set[of 10 "hd ?s" "nat n"] by simp
  then have "hd ?s \<noteq> CHR ''-''" "hd ?s \<noteq> CHR ''+''" by auto
  then show ?thesis
    using False assms go_parse_uint_format[of 10 "nat n"]
    by (simp add: go_atoi_def go_parse_int_def go_format_int_def Let_def)
qed

section \<open>Quoted strings\<close>

definition hex_digits :: "nat \<Rightarrow> nat \<Rightarrow> string" where
  "hex_digits w n = map (\<lambda>i. digit_char (n div 16 ^ i mod 16)) (rev [0..<w])"

text \<open>\<open>IsPrint\<close>: exact up to Latin-1, past it what the Unicode tables say.\<close>

definition go_is_print :: "(rune \<Rightarrow> bool) \<Rightarrow> rune \<Rightarrow> bool" where
  "go_is_print tab r \<longleftrightarrow>
     (if r \<le> 0xFF then 0x20 \<le> r \<and> r < 0x7F \<or> 0xA1 \<le> r \<and> r \<noteq> 0xAD else tab r)"

text \<open>How \<open>Quote\<close> writes the first rune of a string.\<close>

definition quote_rune :: "(rune \<Rightarrow> bool) \<Rightarrow> rune \<Rightarrow> nat \<Rightarrow> char \<Rightarrow> string" where
  "quote_rune tab r w c =
     (if w = 1 \<and> r = rune_error then [CHR 0x5C, CHR ''x''] @ hex_digits 2 (of_char c)
      else if r = 34 \<or> r = 92 then [CHR 0x5C, chr_of r]
      else if go_is_print tab r then go_encode r
      else if r = 7 then [CHR 0x5C, CHR ''a''] else if r = 8 then [CHR 0x5C, CHR ''b''] else if r = 12 then [CHR 0x5C, CHR ''f'']
      else if r = 10 then [CHR 0x5C, CHR ''n''] else if r = 13 then [CHR 0x5C, CHR ''r''] else if r = 9 then [CHR 0x5C, CHR ''t'']
      else if r = 11 then [CHR 0x5C, CHR ''v'']
      else if r < 32 then [CHR 0x5C, CHR ''x''] @ hex_digits 2 (nat r)
      else if r < 0x10000 then [CHR 0x5C, CHR ''u''] @ hex_digits 4 (nat r)
      else [CHR 0x5C, CHR ''U''] @ hex_digits 8 (nat r))"

function quote_body :: "(rune \<Rightarrow> bool) \<Rightarrow> string \<Rightarrow> string" where
  "quote_body tab [] = []"
| "quote_body tab (c # s) =
     (let (r, w) = go_decode (c # s) in quote_rune tab r w c @ quote_body tab (drop w (c # s)))"
  by pat_completeness auto
termination
proof (relation "measure (\<lambda>(tab, s). length s)", goal_cases)
  case (2 tab c s x r w)
  then have "0 < w" using go_decode_size[of "c # s"] by (metis list.distinct(1) snd_conv)
  then show ?case by simp
qed simp

definition go_quote :: "(rune \<Rightarrow> bool) \<Rightarrow> string \<Rightarrow> string" where
  "go_quote tab s = CHR 0x22 # quote_body tab s @ [CHR 0x22]"

definition hex_val :: "char \<Rightarrow> int option" where
  "hex_val c =
     (let n = byte_of c in
      if 48 \<le> n \<and> n \<le> 57 then Some (n - 48)
      else if 97 \<le> n \<and> n \<le> 102 then Some (n - 87)
      else if 65 \<le> n \<and> n \<le> 70 then Some (n - 55)
      else None)"

fun hex_number :: "int \<Rightarrow> string \<Rightarrow> int option" where
  "hex_number acc [] = Some acc"
| "hex_number acc (c # s) = (case hex_val c of None \<Rightarrow> None | Some v \<Rightarrow> hex_number (acc * 16 + v) s)"

definition unquote_hex :: "nat \<Rightarrow> bool \<Rightarrow> string \<Rightarrow> (rune \<times> bool \<times> string) option" where
  "unquote_hex n single s =
     (if length s < n then None
      else (case hex_number 0 (take n s) of
              None \<Rightarrow> None
            | Some v \<Rightarrow>
                if single then Some (v, False, drop n s)
                else if v > 0x10FFFF then None
                else Some (v, True, drop n s)))"

definition oct_val :: "char \<Rightarrow> int option" where
  "oct_val c = (if 48 \<le> byte_of c \<and> byte_of c \<le> 55 then Some (byte_of c - 48) else None)"

text \<open>\<open>UnquoteChar\<close> for double quotes: the character, whether it is to be encoded as UTF-8,
  and the rest.\<close>

definition unquote_char :: "string \<Rightarrow> (rune \<times> bool \<times> string) option" where
  "unquote_char s =
     (case s of
        [] \<Rightarrow> None
      | c # s1 \<Rightarrow>
        if c = CHR 0x22 then None
        else if byte_of c \<ge> 0x80 then
          (let (r, n) = go_decode s in Some (r, True, drop n s))
        else if c \<noteq> CHR 0x5C then Some (byte_of c, False, s1)
        else (case s1 of
            [] \<Rightarrow> None
          | e # s2 \<Rightarrow>
            if e = CHR ''a'' then Some (7, False, s2) else if e = CHR ''b'' then Some (8, False, s2)
            else if e = CHR ''f'' then Some (12, False, s2) else if e = CHR ''n'' then Some (10, False, s2)
            else if e = CHR ''r'' then Some (13, False, s2) else if e = CHR ''t'' then Some (9, False, s2)
            else if e = CHR ''v'' then Some (11, False, s2)
            else if e = CHR ''x'' then unquote_hex 2 True s2
            else if e = CHR ''u'' then unquote_hex 4 False s2
            else if e = CHR ''U'' then unquote_hex 8 False s2
            else if oct_val e \<noteq> None then
              (case s2 of
                 c1 # c2 # s3 \<Rightarrow>
                   (case (oct_val c1, oct_val c2) of
                      (Some v1, Some v2) \<Rightarrow>
                        (let v = the (oct_val e) * 64 + v1 * 8 + v2 in
                         if v > 255 then None else Some (v, False, s3))
                    | _ \<Rightarrow> None)
               | _ \<Rightarrow> None)
            else if e = CHR 0x5C then Some (92, False, s2)
            else if e = CHR 0x22 then Some (34, False, s2)
            else None))"

lemma unquote_hex_shorter: "unquote_hex n b s = Some (r, m, t) \<Longrightarrow> length t \<le> length s"
  by (auto simp: unquote_hex_def split: if_splits option.splits)

lemma unquote_char_shorter: "unquote_char s = Some (r, m, t) \<Longrightarrow> length t < length s"
proof (cases s)
  case (Cons c s1)
  assume a: "unquote_char s = Some (r, m, t)"
  have "0 < snd (go_decode s)" using Cons go_decode_size by blast
  then show ?thesis
    using a Cons unquote_hex_shorter[of _ _ "tl s1" r m t]
    by (fastforce simp: unquote_char_def Let_def prod.case_eq_if split: if_splits list.splits option.splits)
qed (simp add: unquote_char_def)

function unquote_loop :: "string \<Rightarrow> string option" where
  "unquote_loop s =
     (if s = [] then Some []
      else (case unquote_char s of
              None \<Rightarrow> None
            | Some (r, multi, t) \<Rightarrow>
                map_option (\<lambda>u. (if r < 0x80 \<or> \<not> multi then [chr_of r] else go_encode r) @ u) (unquote_loop t)))"
  by pat_completeness auto
termination
  by (relation "measure length") (use unquote_char_shorter in auto)

declare unquote_loop.simps [simp del]

text \<open>\<open>Unquote\<close> of a string in double quotes; None is the syntax error.\<close>

definition go_unquote :: "string \<Rightarrow> string option" where
  "go_unquote s =
     (if length s < 2 \<or> hd s \<noteq> last s \<or> hd s \<noteq> CHR 0x22 then None
      else (let b = butlast (tl s) in
        if CHR 0x0A \<in> set b then None
        else if CHR 0x5C \<notin> set b \<and> CHR 0x22 \<notin> set b then Some b
        else unquote_loop b))"

end
