(* ===== verification/GoPath.thy ===== *)
theory GoPath
  imports GoStrings
begin

text \<open>
  What the modelled code uses of packages \<open>path\<close> and \<open>path/filepath\<close>: \<open>Clean\<close> and the shell
  patterns of \<open>Match\<close>, after their documentation.
\<close>

abbreviation slash :: char where
  "slash \<equiv> CHR ''/''"

section \<open>Clean\<close>

text \<open>
  \<open>Clean\<close> drops empty and \<open>.\<close> elements, and each \<open>..\<close> with the element before it; a \<open>..\<close>
  at the root is dropped, and at the start of a relative path it is kept.  The elements so
  far are kept last first.
\<close>

fun clean_loop :: "bool \<Rightarrow> string list \<Rightarrow> string list \<Rightarrow> string list" where
  "clean_loop rooted acc [] = rev acc"
| "clean_loop rooted acc (e # es) =
     (if e = [] \<or> e = ''.'' then clean_loop rooted acc es
      else if e = ''..'' then
        (if acc \<noteq> [] \<and> hd acc \<noteq> ''..'' then clean_loop rooted (tl acc) es
         else if rooted then clean_loop rooted acc es
         else clean_loop rooted (e # acc) es)
      else clean_loop rooted (e # acc) es)"

definition is_rooted :: "string \<Rightarrow> bool" where
  "is_rooted p \<longleftrightarrow> p \<noteq> [] \<and> hd p = slash"

definition clean_els :: "string \<Rightarrow> string list" where
  "clean_els p = clean_loop (is_rooted p) [] (go_split slash p)"

definition path_Clean :: "string \<Rightarrow> string" where
  "path_Clean p =
     (let es = clean_els p in
      if is_rooted p then slash # go_join [slash] es
      else if es = [] then ''.'' else go_join [slash] es)"

section \<open>Match\<close>

text \<open>The chunk of a pattern up to the next star, after the stars before it.\<close>

fun scan_chunk :: "bool \<Rightarrow> string \<Rightarrow> string \<times> string" where
  "scan_chunk inrange [] = ([], [])"
| "scan_chunk inrange (c # p) =
     (if c = CHR 0x5C then
        (case p of
           [] \<Rightarrow> ([c], [])
         | d # q \<Rightarrow> (let (a, b) = scan_chunk inrange q in (c # d # a, b)))
      else if c = CHR ''['' then (let (a, b) = scan_chunk True p in (c # a, b))
      else if c = CHR '']'' then (let (a, b) = scan_chunk False p in (c # a, b))
      else if c = CHR ''*'' \<and> \<not> inrange then ([], c # p)
      else (let (a, b) = scan_chunk inrange p in (c # a, b)))"

text \<open>A (possibly escaped) character of a class; None is the bad pattern error.\<close>

definition get_esc :: "string \<Rightarrow> (rune \<times> string) option" where
  "get_esc chunk =
     (if chunk = [] \<or> hd chunk = CHR ''-'' \<or> hd chunk = CHR '']'' then None
      else (let c1 = (if hd chunk = CHR 0x5C then tl chunk else chunk) in
        if c1 = [] then None
        else (let (r, n) = go_decode c1 in
          if r = rune_error \<and> n = 1 then None
          else if drop n c1 = [] then None
          else Some (r, drop n c1))))"

lemma get_esc_shorter: "get_esc chunk = Some (r, t) \<Longrightarrow> length t < length chunk \<and> t \<noteq> []"
proof -
  assume a: "get_esc chunk = Some (r, t)"
  define c1 where "c1 = (if hd chunk = CHR 0x5C then tl chunk else chunk)"
  from a have "c1 \<noteq> []" "t = drop (snd (go_decode c1)) c1" "t \<noteq> []" "chunk \<noteq> []"
    by (auto simp: get_esc_def Let_def c1_def[symmetric] prod.case_eq_if split: if_splits)
  moreover from this have "0 < snd (go_decode c1)" using go_decode_size by blast
  moreover have "length c1 \<le> length chunk" by (simp add: c1_def)
  moreover have "0 < length c1" using \<open>c1 \<noteq> []\<close> by simp
  ultimately show ?thesis by (simp del: length_0_conv length_greater_0_conv)
qed

text \<open>The ranges of a class: whether one holds the rune, and the chunk after the class.\<close>

function class_loop :: "rune \<Rightarrow> nat \<Rightarrow> bool \<Rightarrow> string \<Rightarrow> (bool \<times> string) option" where
  "class_loop r nrange m chunk =
     (if chunk \<noteq> [] \<and> hd chunk = CHR '']'' \<and> nrange > 0 then Some (m, tl chunk)
      else (case get_esc chunk of
              None \<Rightarrow> None
            | Some (lo, c1) \<Rightarrow>
                if hd c1 = CHR ''-'' then
                  (case get_esc (tl c1) of
                     None \<Rightarrow> None
                   | Some (hi, c2) \<Rightarrow> class_loop r (nrange + 1) (m \<or> lo \<le> r \<and> r \<le> hi) c2)
                else class_loop r (nrange + 1) (m \<or> lo = r) c1))"
  by pat_completeness auto
termination
proof (relation "measure (\<lambda>(r, k, m, chunk). length chunk)", goal_cases)
  case (2 r nrange m chunk x lo c1 y hi c2)
  then have "length c1 < length chunk" "length c2 < length (tl c1)" using get_esc_shorter by metis+
  then show ?case by simp
next
  case (3 r nrange m chunk x lo c1)
  then show ?case using get_esc_shorter[of chunk lo c1] by simp
qed simp

declare class_loop.simps [simp del]

lemma class_loop_shorter: "class_loop r k m chunk = Some (m', t) \<Longrightarrow> length t < length chunk"
proof (induction r k m chunk rule: class_loop.induct)
  case (1 r k m chunk)
  show ?case
  proof (cases "chunk \<noteq> [] \<and> hd chunk = CHR '']'' \<and> k > 0")
    case True
    then show ?thesis using 1(3) by (subst (asm) class_loop.simps) (auto simp: neq_Nil_conv)
  next
    case False
    then obtain lo c1 where e: "get_esc chunk = Some (lo, c1)"
      using 1(3) by (subst (asm) class_loop.simps) (auto split: option.splits)
    show ?thesis
    proof (cases "hd c1 = CHR ''-''")
      case True
      then obtain hi c2 where e2: "get_esc (tl c1) = Some (hi, c2)"
        and l: "class_loop r (k + 1) (m \<or> lo \<le> r \<and> r \<le> hi) c2 = Some (m', t)"
        using 1(3) False e by (subst (asm) class_loop.simps) (auto split: option.splits)
      then show ?thesis
        using 1(1)[OF False e refl True e2 refl l] get_esc_shorter[OF e] get_esc_shorter[OF e2]
        by (metis (no_types, lifting) diff_le_self length_tl less_le_trans less_trans order.strict_implies_order)
    next
      case no: False
      then have "class_loop r (k + 1) (m \<or> lo = r) c1 = Some (m', t)"
        using 1(3) False e by (subst (asm) class_loop.simps) auto
      then show ?thesis
        using 1(2)[OF False e refl no] get_esc_shorter[OF e] by simp
    qed
  qed
qed

text \<open>How matching a chunk ends.\<close>

datatype chunk_result = Matched string | NoMatch | BadPattern

function match_chunk :: "string \<Rightarrow> string \<Rightarrow> chunk_result" where
  "match_chunk [] s = Matched s"
| "match_chunk (c # chunk) s =
     (if s = [] then NoMatch
      else if c = CHR ''['' then
        (let (r, n) = go_decode s in
         if chunk = [] then BadPattern
         else (let neg = (hd chunk = CHR ''^'') in
           case class_loop r 0 False (if neg then tl chunk else chunk) of
             None \<Rightarrow> BadPattern
           | Some (m, rest) \<Rightarrow> if m = neg then NoMatch else match_chunk rest (drop n s)))
      else if c = CHR ''?'' then
        (if hd s = slash then NoMatch else match_chunk chunk (drop (snd (go_decode s)) s))
      else if c = CHR 0x5C then
        (case chunk of
           [] \<Rightarrow> BadPattern
         | d # chunk' \<Rightarrow> if d \<noteq> hd s then NoMatch else match_chunk chunk' (tl s))
      else if c \<noteq> hd s then NoMatch else match_chunk chunk (tl s))"
  by pat_completeness auto
termination
proof (relation "measure (\<lambda>(chunk, s). length chunk)", goal_cases)
  case (2 c chunk s x r n neg y m rest)
  then have "length rest < length (if neg then tl chunk else chunk)"
    using class_loop_shorter by metis
  moreover have "length (if neg then tl chunk else chunk) \<le> length chunk" by simp
  ultimately show ?case by (simp add: less_Suc_eq_le)
qed simp_all

text \<open>After a star: the places where the chunk may match, none past a separator.\<close>

fun star_positions :: "string \<Rightarrow> string list" where
  "star_positions [] = []"
| "star_positions (c # s) = (if c = slash then [] else s # star_positions s)"

fun star_match :: "string \<Rightarrow> bool \<Rightarrow> string list \<Rightarrow> chunk_result" where
  "star_match chunk lastp [] = NoMatch"
| "star_match chunk lastp (s # ss) =
     (case match_chunk chunk s of
        Matched t \<Rightarrow> if lastp \<and> t \<noteq> [] then star_match chunk lastp ss else Matched t
      | NoMatch \<Rightarrow> star_match chunk lastp ss
      | BadPattern \<Rightarrow> BadPattern)"

lemma scan_chunk_rest: "length (snd (scan_chunk b p)) \<le> length p"
  by (induction b p rule: scan_chunk.induct)
    (simp_all add: prod.case_eq_if le_SucI split: list.split)

lemma scan_chunk_first: "p \<noteq> [] \<Longrightarrow> hd p \<noteq> CHR ''*'' \<Longrightarrow> length (snd (scan_chunk b p)) < length p"
proof (cases p)
  case (Cons c q)
  assume "hd p \<noteq> CHR ''*''"
  then show ?thesis
    using Cons scan_chunk_rest[of _ q] scan_chunk_rest[of b]
    by (simp add: prod.case_eq_if less_Suc_eq_le le_SucI split: list.split)
qed simp

lemma fp_Match_rest:
  assumes "pat \<noteq> []" and "scan_chunk False (dropWhile (\<lambda>c. c = CHR ''*'') pat) = (chunk, rest)"
  shows "length rest < length pat"
proof (cases "hd pat = CHR ''*''")
  case True
  then have "length (dropWhile (\<lambda>c. c = CHR ''*'') pat) < length pat"
    using assms(1) length_dropWhile_le[of "\<lambda>c. c = CHR ''*''" "tl pat"] by (cases pat) auto
  then show ?thesis using scan_chunk_rest[of False "dropWhile (\<lambda>c. c = CHR ''*'') pat"] assms(2) by simp
next
  case False
  then have "dropWhile (\<lambda>c. c = CHR ''*'') pat = pat" using assms(1) by (cases pat) auto
  then show ?thesis using scan_chunk_first[OF assms(1) False, of False] assms(2) by simp
qed

text \<open>\<open>Match\<close>: None is the bad pattern error.\<close>

function fp_Match :: "string \<Rightarrow> string \<Rightarrow> bool option" where
  "fp_Match pat nm =
     (if pat = [] then Some (nm = [])
      else (let p1 = dropWhile (\<lambda>c. c = CHR ''*'') pat; star = (hd pat = CHR ''*'');
                (chunk, rest) = scan_chunk False p1 in
        if star \<and> chunk = [] then Some (slash \<notin> set nm)
        else (case match_chunk chunk nm of
            BadPattern \<Rightarrow> None
          | Matched t \<Rightarrow>
              if t = [] \<or> rest \<noteq> [] then fp_Match rest t
              else if star then
                (case star_match chunk (rest = []) (star_positions nm) of
                   Matched t' \<Rightarrow> fp_Match rest t' | NoMatch \<Rightarrow> Some False | BadPattern \<Rightarrow> None)
              else Some False
          | NoMatch \<Rightarrow>
              if star then
                (case star_match chunk (rest = []) (star_positions nm) of
                   Matched t' \<Rightarrow> fp_Match rest t' | NoMatch \<Rightarrow> Some False | BadPattern \<Rightarrow> None)
              else Some False)))"
  by pat_completeness auto

termination
  by (relation "measure (\<lambda>(pat, nm). length pat)") (simp_all only: wf_measure in_measure prod.case, (metis fp_Match_rest)+)

declare fp_Match.simps [simp del]

end
