(* ===== verification/ZxUtil.thy ===== *)
theory ZxUtil
  imports GoPath "HOL-Library.Sublist"
begin

text \<open>
  The path operations of package \<open>zx\<close> (src/zx/util.go), and what they mean on lists of path
  elements.
\<close>

section \<open>Operations\<close>

text \<open>The error of a path that is not absolute is None.\<close>

definition zx_UseAbsPath :: "string \<Rightarrow> string option" where
  "zx_UseAbsPath s = (if s = [] \<or> hd s \<noteq> slash then None else Some (path_Clean s))"

definition zx_Elems :: "string \<Rightarrow> string list" where
  "zx_Elems p =
     (if p = ''/'' \<or> p = [] then []
      else go_split slash (if hd p = slash then tl p else p))"

definition zx_HasPrefix :: "string \<Rightarrow> string \<Rightarrow> bool" where
  "zx_HasPrefix p0 pref0 =
     (if pref0 = [] then True
      else (let p = path_Clean p0; pref = path_Clean pref0 in
        if length pref > length p then False
        else if \<not> go_has_prefix p pref then False
        else pref = ''/'' \<or> length p = length pref \<or> p ! length pref = slash))"

definition zx_Path :: "string list \<Rightarrow> string" where
  "zx_Path elems = path_Clean (slash # go_join ''/'' elems)"

definition zx_Suffix :: "string \<Rightarrow> string \<Rightarrow> string" where
  "zx_Suffix p0 pref0 =
     (if p0 = [] then []
      else (let p = path_Clean p0 in
        if pref0 = [] then p
        else (let pref = path_Clean pref0 in
          if (hd pref = slash) \<noteq> (hd p = slash) then []
          else if pref = ''.'' \<or> pref = ''/'' then p
          else if length p < length pref then []
          else if \<not> go_has_prefix p pref then []
          else if length p = length pref then ''/''
          else if p ! length pref \<noteq> slash then []
          else drop (length pref) p)))"

fun path_cmp_loop :: "string list \<Rightarrow> string list \<Rightarrow> int" where
  "path_cmp_loop (a # as) (b # bs) =
     (if a < b then -1 else if a > b then 1 else path_cmp_loop as bs)"
| "path_cmp_loop as bs =
     (if length as < length bs then -1 else if length as > length bs then 1 else 0)"

definition zx_PathCmp :: "string \<Rightarrow> string \<Rightarrow> int" where
  "zx_PathCmp path0 path1 = path_cmp_loop (zx_Elems path0) (zx_Elems path1)"

text \<open>The loop of \<open>PathPrefixMatch\<close>, for an absolute and for a relative expression.\<close>

fun prefix_match_abs :: "string list \<Rightarrow> string list \<Rightarrow> bool" where
  "prefix_match_abs (e # es) (p # ps) =
     (case fp_Match e p of
        None \<Rightarrow> False
      | Some m \<Rightarrow> if \<not> m then False else prefix_match_abs es ps)"
| "prefix_match_abs es ps = True"

fun prefix_match_rel :: "string \<Rightarrow> string list \<Rightarrow> bool" where
  "prefix_match_rel exp [] = False"
| "prefix_match_rel exp (p # ps) =
     (case fp_Match exp p of
        None \<Rightarrow> False
      | Some m \<Rightarrow> if m then True else prefix_match_rel exp ps)"

definition zx_PathPrefixMatch :: "string \<Rightarrow> string \<Rightarrow> bool" where
  "zx_PathPrefixMatch p exp =
     (let els = zx_Elems exp; pels = zx_Elems p in
      if els = [] then True
      else if length pels < length els then False
      else if hd exp = slash then prefix_match_abs els pels
      else prefix_match_rel exp pels)"

section \<open>Splitting and joining\<close>

lemma go_split_nonempty [simp]: "go_split c s \<noteq> []"
  by (induction s) auto

lemma go_split_no_sep: "e \<in> set (go_split c s) \<Longrightarrow> c \<notin> set e"
proof (induction s arbitrary: e)
  case (Cons x s)
  then show ?case
    by (cases "go_split c s") (auto split: if_splits)
qed simp

lemma go_split_plain: "c \<notin> set e \<Longrightarrow> go_split c e = [e]"
  by (induction e) auto

lemma go_split_app: "c \<notin> set e \<Longrightarrow> go_split c (e @ c # s) = e # go_split c s"
  by (induction e) auto

lemma go_split_join:
  "es \<noteq> [] \<Longrightarrow> \<forall>e\<in>set es. c \<notin> set e \<Longrightarrow> go_split c (go_join [c] es) = es"
  by (induction "[c]" es rule: go_join.induct) (auto simp: go_split_plain go_split_app)

lemma go_join_split: "go_join [c] (go_split c s) = s"
proof (induction s)
  case (Cons x s)
  obtain a as where "go_split c s = a # as" by (cases "go_split c s") auto
  then show ?case using Cons by (cases as) auto
qed simp

text \<open>The elements of a clean path.\<close>

definition plain_el :: "string \<Rightarrow> bool" where
  "plain_el e \<longleftrightarrow> e \<noteq> [] \<and> e \<noteq> ''.'' \<and> e \<noteq> ''..'' \<and> slash \<notin> set e"

lemma clean_loop_plain:
  assumes "\<forall>e\<in>set acc. plain_el e" and "\<forall>e\<in>set es. slash \<notin> set e"
  shows "\<forall>e\<in>set (clean_loop True acc es). plain_el e"
  using assms
proof (induction es arbitrary: acc)
  case (Cons e es)
  consider "e = [] \<or> e = ''.''" | "e = ''..''" | "plain_el e"
    using Cons.prems(2) by (auto simp: plain_el_def)
  then show ?case
  proof cases
    case 1
    then show ?thesis using Cons.IH[of acc] Cons.prems by simp
  next
    case 2
    have "\<forall>x\<in>set (tl acc). plain_el x" using Cons.prems(1) by (cases acc) auto
    then show ?thesis using Cons.IH[of acc] Cons.IH[of "tl acc"] Cons.prems 2 by simp
  next
    case 3
    then have "clean_loop True acc (e # es) = clean_loop True (e # acc) es" by (simp add: plain_el_def)
    then show ?thesis using Cons.IH[of "e # acc"] Cons.prems 3 by simp
  qed
qed simp

lemma clean_els_plain: "is_rooted p \<Longrightarrow> \<forall>e\<in>set (clean_els p). plain_el e"
  using clean_loop_plain[of "[]" "go_split slash p"] go_split_no_sep[of _ slash p]
  by (auto simp: clean_els_def)

lemma clean_loop_id: "\<forall>e\<in>set es. plain_el e \<Longrightarrow> clean_loop r acc es = rev acc @ es"
  by (induction es arbitrary: acc) (auto simp: plain_el_def)

definition abs_path :: "string list \<Rightarrow> string" where
  "abs_path es = slash # go_join [slash] es"

lemma path_Clean_rooted: "is_rooted p \<Longrightarrow> path_Clean p = abs_path (clean_els p)"
  by (simp add: path_Clean_def abs_path_def)

lemma clean_els_abs_path: "\<forall>e\<in>set es. plain_el e \<Longrightarrow> clean_els (abs_path es) = es"
proof (cases "es = []")
  case False
  assume p: "\<forall>e\<in>set es. plain_el e"
  then have "go_split slash (go_join [slash] es) = es"
    using False by (intro go_split_join) (auto simp: plain_el_def)
  then show ?thesis
    using clean_loop_id[OF p] by (simp add: clean_els_def abs_path_def is_rooted_def)
qed (simp add: clean_els_def abs_path_def is_rooted_def)

lemma is_rooted_abs_path [simp]: "is_rooted (abs_path es)"
  by (simp add: abs_path_def is_rooted_def)

lemma path_Clean_idem: "is_rooted p \<Longrightarrow> path_Clean (path_Clean p) = path_Clean p"
  by (simp add: path_Clean_rooted clean_els_abs_path clean_els_plain)

lemma zx_Elems_abs_path: "\<forall>e\<in>set es. plain_el e \<Longrightarrow> zx_Elems (abs_path es) = es"
proof (cases es)
  case (Cons a as)
  assume p: "\<forall>e\<in>set es. plain_el e"
  then have "go_join [slash] es \<noteq> []" using Cons by (cases as) (auto simp: plain_el_def)
  then show ?thesis
    using p Cons go_split_join[of es slash] by (auto simp: zx_Elems_def abs_path_def plain_el_def)
qed (simp add: zx_Elems_def abs_path_def)

text \<open>A path as the elements each after its slash: textual and element prefixes agree.\<close>

definition slashed :: "string list \<Rightarrow> string" where
  "slashed es = concat (map (\<lambda>e. slash # e) es)"

lemma slashed_simps [simp]:
  "slashed [] = []" "slashed (e # es) = slash # e @ slashed es" "slashed (xs @ ys) = slashed xs @ slashed ys"
  by (simp_all add: slashed_def)

lemma abs_path_slashed: "es \<noteq> [] \<Longrightarrow> abs_path es = slashed es"
proof (induction es rule: list_nonempty_induct)
  case (cons x xs)
  then show ?case by (cases xs) (auto simp: abs_path_def)
qed (simp add: abs_path_def)

lemma no_slash_append_eq:
  "slash \<notin> set a \<Longrightarrow> slash \<notin> set b \<Longrightarrow> (r = [] \<or> hd r = slash) \<Longrightarrow> (s = [] \<or> hd s = slash) \<Longrightarrow>
    a @ r = b @ s \<Longrightarrow> a = b \<and> r = s"
proof (induction a arbitrary: b)
  case Nil
  then show ?case by (cases b) auto
next
  case (Cons x a)
  show ?case
  proof (cases b)
    case Nil
    then show ?thesis using Cons.prems by auto
  next
    case (Cons y b')
    then show ?thesis using Cons.IH[of b'] Cons.prems by auto
  qed
qed

lemma slashed_Nil_iff [simp]: "slashed es = [] \<longleftrightarrow> es = []"
  by (cases es) simp_all

lemma slashed_hd: "slashed es = [] \<or> hd (slashed es) = slash"
  by (cases es) auto

lemma slashed_prefix:
  assumes "\<forall>e\<in>set fs. slash \<notin> set e" and "\<forall>e\<in>set es. slash \<notin> set e"
    and "slashed es = slashed fs @ r" and "r = [] \<or> hd r = slash"
  shows "\<exists>gs. es = fs @ gs \<and> r = slashed gs"
  using assms
proof (induction fs arbitrary: es)
  case (Cons f fs)
  obtain e es' where es: "es = e # es'" using Cons.prems(3) by (cases es) auto
  have 1: "e @ slashed es' = f @ (slashed fs @ r)" using Cons.prems(3) es by simp
  have 2: "slashed fs @ r = [] \<or> hd (slashed fs @ r) = slash"
    using slashed_hd[of fs] Cons.prems(4) by (cases "slashed fs") simp_all
  have 3: "slash \<notin> set e" "slash \<notin> set f" "\<forall>e\<in>set fs. slash \<notin> set e" "\<forall>e\<in>set es'. slash \<notin> set e"
    using Cons.prems(1,2) es by simp_all
  have eq: "e = f \<and> slashed es' = slashed fs @ r"
    by (rule no_slash_append_eq[OF 3(1,2) slashed_hd 2 1])
  then show ?case using Cons.IH[of es'] Cons.prems(4) 3 es by simp
qed simp

lemma slashed_boundary:
  assumes "\<forall>e\<in>set fs. plain_el e" and "\<forall>e\<in>set es. plain_el e"
  shows "(go_has_prefix (slashed es) (slashed fs) \<and>
      (length (slashed es) = length (slashed fs) \<or> slashed es ! length (slashed fs) = slash)
      \<and> length (slashed fs) \<le> length (slashed es))
    \<longleftrightarrow> prefix fs es" (is "?l \<longleftrightarrow> ?r")
proof
  assume l: ?l
  define r where "r = drop (length (slashed fs)) (slashed es)"
  have e: "slashed es = slashed fs @ r"
    using l append_take_drop_id[of "length (slashed fs)" "slashed es"] by (simp add: go_has_prefix_def r_def)
  have "r = [] \<or> hd r = slash"
  proof (cases "r = []")
    case False
    then have "length (slashed fs) < length (slashed es)" by (simp add: r_def)
    then show ?thesis using l by (simp add: r_def hd_drop_conv_nth)
  qed simp
  moreover have "\<forall>e\<in>set fs. slash \<notin> set e" "\<forall>e\<in>set es. slash \<notin> set e"
    using assms by (simp_all add: plain_el_def)
  ultimately show ?r
    using slashed_prefix[of fs es r] e by (auto simp: prefix_def)
next
  assume ?r
  then obtain gs where "es = fs @ gs" by (auto elim: prefixE)
  then show ?l
    by (cases gs) (simp_all add: go_has_prefix_def nth_append)
qed

section \<open>Properties\<close>

lemma zx_PathCmp_loop: "path_cmp_loop as bs = (if as < bs then -1 else if as = bs then 0 else 1)"
proof (induction as arbitrary: bs)
  case Nil
  then show ?case by (cases bs) auto
next
  case (Cons a as)
  then show ?case by (cases bs) auto
qed

text \<open>
  \<open>PathCmp\<close> compares paths as lists of elements, in lexicographic order: it is a total
  order in which a directory comes right before what it holds.
\<close>

theorem zx_PathCmp_correct:
  "zx_PathCmp p q = (if zx_Elems p < zx_Elems q then -1 else if zx_Elems p = zx_Elems q then 0 else 1)"
  by (simp add: zx_PathCmp_def zx_PathCmp_loop)

lemma abs_path_eq_root: "\<forall>e\<in>set es. plain_el e \<Longrightarrow> abs_path es = ''/'' \<longleftrightarrow> es = []"
proof
  assume "\<forall>e\<in>set es. plain_el e" "abs_path es = ''/''"
  then show "es = []" using zx_Elems_abs_path[of es] by (simp add: zx_Elems_def)
qed (simp add: abs_path_def)

lemma zx_HasPrefix_prefix:
  assumes "is_rooted p" and "is_rooted q"
  shows "zx_HasPrefix p q \<longleftrightarrow> prefix (clean_els q) (clean_els p)"
proof -
  define es where "es = clean_els p"
  define fs where "fs = clean_els q"
  have pl: "\<forall>e\<in>set fs. plain_el e" "\<forall>e\<in>set es. plain_el e"
    using clean_els_plain assms by (auto simp: es_def fs_def)
  have q: "q \<noteq> []" using assms(2) by (auto simp: is_rooted_def)
  have eq: "zx_HasPrefix p q \<longleftrightarrow> length (abs_path fs) \<le> length (abs_path es) \<and> go_has_prefix (abs_path es) (abs_path fs) \<and>
     (fs = [] \<or> length (abs_path es) = length (abs_path fs) \<or> abs_path es ! length (abs_path fs) = slash)"
  proof -
    have "path_Clean p = abs_path es" "path_Clean q = abs_path fs"
      using assms by (simp_all add: path_Clean_rooted es_def fs_def)
    then show ?thesis
      using q abs_path_eq_root[OF pl(1)] unfolding zx_HasPrefix_def Let_def
      by (simp add: not_less)
  qed
  show ?thesis
  proof (cases "fs = []")
    case True
    then show ?thesis using eq by (simp add: abs_path_def go_has_prefix_def fs_def)
  next
    case False
    show ?thesis
    proof (cases "es = []")
      case True
      have "abs_path fs \<noteq> ''/''" using abs_path_eq_root[OF pl(1)] False by simp
      then have "\<not> length (abs_path fs) \<le> length (abs_path es)"
        using True by (cases "go_join [slash] fs") (auto simp: abs_path_def)
      then show ?thesis using eq True False by (simp add: es_def fs_def)
    next
      case ne: False
      show ?thesis
        using eq slashed_boundary[OF pl] False ne
        by (auto simp: abs_path_slashed es_def fs_def)
    qed
  qed
qed

text \<open>
  For absolute paths, \<open>HasPrefix\<close> holds exactly when the elements of the clean prefix are
  a prefix of those of the clean path: \<open>/a/bc\<close> is not under \<open>/a/b\<close>.
\<close>

theorem zx_HasPrefix_correct:
  assumes "is_rooted p" and "is_rooted q"
  shows "zx_HasPrefix p q \<longleftrightarrow> prefix (zx_Elems (path_Clean q)) (zx_Elems (path_Clean p))"
  using zx_HasPrefix_prefix[OF assms] assms
  by (simp add: path_Clean_rooted zx_Elems_abs_path clean_els_plain)

theorem zx_HasPrefix_correct_witness:
  "zx_HasPrefix ''/a/../b//c'' ''/b/.'' \<longleftrightarrow>
     prefix (zx_Elems (path_Clean ''/b/.'')) (zx_Elems (path_Clean ''/a/../b//c''))"
  by (rule zx_HasPrefix_correct) (simp_all add: is_rooted_def)

lemma zx_Suffix_rooted:
  assumes "is_rooted p" and "is_rooted q"
  shows "zx_Suffix p q =
    (if zx_HasPrefix p q
     then slash # go_join ''/'' (drop (length (zx_Elems (path_Clean q))) (zx_Elems (path_Clean p)))
     else [])"
proof -
  define es where "es = clean_els p"
  define fs where "fs = clean_els q"
  have pl: "\<forall>e\<in>set fs. plain_el e" "\<forall>e\<in>set es. plain_el e"
    using clean_els_plain assms by (auto simp: es_def fs_def)
  have ne: "p \<noteq> []" "q \<noteq> []" using assms by (auto simp: is_rooted_def)
  have cl: "path_Clean p = abs_path es" "path_Clean q = abs_path fs"
    using assms by (simp_all add: path_Clean_rooted es_def fs_def)
  have el: "zx_Elems (path_Clean p) = es" "zx_Elems (path_Clean q) = fs"
    using pl by (simp_all add: cl zx_Elems_abs_path)
  have dot: "abs_path fs \<noteq> ''.''" by (simp add: abs_path_def)
  have hp: "zx_HasPrefix p q \<longleftrightarrow> prefix fs es"
    using zx_HasPrefix_prefix[OF assms] by (simp add: es_def fs_def)
  have s: "zx_Suffix p q = (if fs = [] then abs_path es
     else if length (abs_path es) < length (abs_path fs) then []
     else if \<not> go_has_prefix (abs_path es) (abs_path fs) then []
     else if length (abs_path es) = length (abs_path fs) then ''/''
     else if abs_path es ! length (abs_path fs) \<noteq> slash then [] else drop (length (abs_path fs)) (abs_path es))"
    using ne dot abs_path_eq_root[OF pl(1)]
    by (simp add: zx_Suffix_def cl Let_def) (simp add: abs_path_def)
  show ?thesis
  proof (cases "fs = []")
    case True
    then show ?thesis using s hp el by (simp add: abs_path_def)
  next
    case False
    show ?thesis
    proof (cases "prefix fs es")
      case True
      then obtain gs where gs: "es = fs @ gs" by (auto elim: prefixE)
      then have "es \<noteq> []" using False by simp
      then have ab: "abs_path es = slashed fs @ slashed gs" "abs_path fs = slashed fs"
        using False gs abs_path_slashed[of es] abs_path_slashed[of fs] by simp_all
      have r: "zx_HasPrefix p q" using hp True by simp
      show ?thesis
      proof (cases "gs = []")
        case True
        then show ?thesis using s r el False gs ab by (simp add: go_has_prefix_def)
      next
        case ne: False
        then have "hd (slashed gs) = slash" using slashed_hd[of gs] by simp
        then have "zx_Suffix p q = slashed gs"
          using s False ab ne by (simp add: go_has_prefix_def nth_append hd_conv_nth)
        then show ?thesis
          using r el gs abs_path_slashed[OF ne] by (simp add: abs_path_def)
      qed
    next
      case no: False
      then have "zx_HasPrefix p q = False" using hp by simp
      then have "length (abs_path es) < length (abs_path fs) \<or> \<not> go_has_prefix (abs_path es) (abs_path fs) \<or>
         length (abs_path es) \<noteq> length (abs_path fs) \<and> abs_path es ! length (abs_path fs) \<noteq> slash"
        using ne cl False abs_path_eq_root[OF pl(1)] by (auto simp: zx_HasPrefix_def Let_def split: if_splits)
      then show ?thesis using s hp no False by auto
    qed
  qed
qed

text \<open>
  For absolute paths, \<open>Suffix\<close> is empty exactly when \<open>HasPrefix\<close> fails, and otherwise it is
  the absolute path of the elements after the prefix.
\<close>

theorem zx_Suffix_correct:
  assumes "is_rooted p" and "is_rooted q"
  shows "zx_Suffix p q =
    (if zx_HasPrefix p q
     then slash # go_join ''/'' (drop (length (zx_Elems (path_Clean q))) (zx_Elems (path_Clean p)))
     else [])"
  using assms by (rule zx_Suffix_rooted)

theorem zx_Suffix_correct_witness:
  "zx_Suffix ''/a/b/../c'' ''/a/'' =
    (if zx_HasPrefix ''/a/b/../c'' ''/a/''
     then slash # go_join ''/'' (drop (length (zx_Elems (path_Clean ''/a/''))) (zx_Elems (path_Clean ''/a/b/../c'')))
     else [])"
  by (rule zx_Suffix_correct) (simp_all add: is_rooted_def)

end
