(* ===== verification/ZxDir.thy ===== *)
theory ZxDir
  imports Ch GoConv ZxUtil "HOL-Library.AList"
begin

unbundle bit_operations_syntax

text \<open>
  Directory entries of package \<open>zx\<close> (src/zx/dir.go): attribute/value maps, their formats,
  their parser and their binary form.

  A \<open>Dir\<close> is an association list with distinct keys; its order stands for the order in which
  Go iterates over the map, which Go does not specify, so that what a definition returns for
  every order is what the code may return.  Where the code tells a nil map from an empty one
  the argument is an option.
\<close>

type_synonym dir = "(string \<times> string) list"

definition wf_dir :: "dir \<Rightarrow> bool" where
  "wf_dir d \<longleftrightarrow> distinct (map fst d)"

text \<open>\<open>d[k]\<close>, which is empty when \<open>k\<close> is not defined, and \<open>d[k] = v\<close>.\<close>

definition dget :: "dir \<Rightarrow> string \<Rightarrow> string" where
  "dget d k = (case map_of d k of None \<Rightarrow> [] | Some v \<Rightarrow> v)"

definition dset :: "dir \<Rightarrow> string \<Rightarrow> string \<Rightarrow> dir" where
  "dset d k v = AList.update k v d"

record addr =
  a_Name :: string
  a_Ln0 :: int
  a_Ln1 :: int
  a_P0 :: int
  a_P1 :: int

section \<open>Attributes\<close>

definition StdAttrOrder :: "string list" where
  "StdAttrOrder = [''name'', ''type'', ''mode'', ''size'', ''mtime'', ''uid'', ''gid'', ''wuid'',
     ''path'', ''addr'', ''err'']"

definition stdShortOrder :: "string list" where
  "stdShortOrder = [''type'', ''mode'', ''size'', ''path'', ''err'']"

definition zx_IsStd :: "string \<Rightarrow> bool" where
  "zx_IsStd attr \<longleftrightarrow> attr \<in> set StdAttrOrder"

definition zx_Dup :: "dir \<Rightarrow> dir" where
  "zx_Dup d = fold (\<lambda>(k, v) nd. dset nd k v) d []"

text \<open>\<open>tab\<close> is the Unicode table of upper-case runes.\<close>

definition zx_IsTemp :: "(rune \<Rightarrow> bool) \<Rightarrow> string \<Rightarrow> bool" where
  "zx_IsTemp tab nm = go_is_upper tab (fst (go_decode nm))"

definition zx_SysDup :: "(rune \<Rightarrow> bool) \<Rightarrow> dir \<Rightarrow> dir" where
  "zx_SysDup tab d = fold (\<lambda>(k, v) nd. if \<not> zx_IsTemp tab k then dset nd k v else nd) d []"

text \<open>The errors of \<open>ParseUint\<close> are ignored: its value with a syntax error is 0.\<close>

definition zx_Uint :: "dir \<Rightarrow> string \<Rightarrow> 64 word" where
  "zx_Uint d attr =
     (case map_of d attr of
        None \<Rightarrow> 0
      | Some v \<Rightarrow> word_of_nat (fst (go_parse_uint v (if attr = ''mode'' then 8 else 0))))"

definition zx_Size :: "dir \<Rightarrow> int" where
  "zx_Size d = sint (zx_Uint d ''size'')"

definition zx_SetSize :: "dir \<Rightarrow> int \<Rightarrow> dir" where
  "zx_SetSize d size0 = dset d ''size'' (go_format_int (if size0 < 0 then 0 else size0) 10)"

definition zx_SetUint :: "dir \<Rightarrow> string \<Rightarrow> 64 word \<Rightarrow> dir" where
  "zx_SetUint d nm v = dset d nm (go_digits 10 (unat v))"

text \<open>Times are nanoseconds since the epoch: \<open>Unix(t / 1e9, t % 1e9)\<close> is the time \<open>t\<close>.\<close>

definition zx_Time :: "dir \<Rightarrow> string \<Rightarrow> int" where
  "zx_Time d attr = sint (zx_Uint d attr)"

definition zx_SetTime :: "dir \<Rightarrow> string \<Rightarrow> int \<Rightarrow> dir" where
  "zx_SetTime d nm t = dset d nm (go_format_int t 10)"

definition zx_SetMode :: "dir \<Rightarrow> 64 word \<Rightarrow> dir" where
  "zx_SetMode d mode = dset d ''mode'' (CHR ''0'' # go_digits 8 (unat (mode AND 0x1FF)))"

definition zx_Mode :: "dir \<Rightarrow> 64 word" where
  "zx_Mode d = zx_Uint d ''mode'' AND 0x1FF"

text \<open>The octal constants are 0440 = 0x120, 0400 = 0x100, 040 = 0x20, 0220 = 0x90, 0200 = 0x80,
  020 = 0x10, 0110 = 0x48, 0100 = 0x40 and 010 = 8.\<close>

definition zx_Inherit :: "dir \<Rightarrow> 64 word \<Rightarrow> dir" where
  "zx_Inherit d parent =
     (let m0 = zx_Mode d AND parent;
          m1 = (if m0 AND 0x120 = 0x100 \<and> parent AND 0x20 = 0x20 then m0 OR 0x20 else m0);
          m2 = (if m1 AND 0x90 = 0x80 \<and> parent AND 0x10 = 0x10 then m1 OR 0x10 else m1);
          m3 = (if dget d ''type'' = ''d'' \<and> m2 AND 0x48 = 0x40 \<and> parent AND 8 = 8 then m2 OR 8 else m2)
      in zx_SetMode d m3)"

definition zx_EqualDirs :: "dir \<Rightarrow> dir \<Rightarrow> bool" where
  "zx_EqualDirs d1 d2 \<longleftrightarrow>
     length d1 = length d2 \<and> list_all (\<lambda>(k, v). \<not> (k \<noteq> ''addr'' \<and> dget d2 k \<noteq> v)) d1"

text \<open>\<open>sort.Sort\<close> promises no order among equal names; here they stay as they were.\<close>

definition zx_SortDirs :: "dir list \<Rightarrow> dir list" where
  "zx_SortDirs ds = sort_key (\<lambda>d. dget d ''name'') ds"

section \<open>Formats\<close>

text \<open>The value of \<open>float64(n)\<close>, an integer: the nearest with 53 significant bits, ties to even.\<close>

definition half_even_div :: "nat \<Rightarrow> nat \<Rightarrow> nat" where
  "half_even_div n d =
     (let q = n div d; r = n mod d in
      if 2 * r > d \<or> 2 * r = d \<and> odd q then q + 1 else q)"

definition float64_of :: "nat \<Rightarrow> nat" where
  "float64_of n = (if n < 2 ^ 53 then n
     else half_even_div n (2 ^ (length (go_digits 2 n) - 53)) * 2 ^ (length (go_digits 2 n) - 53))"

text \<open>\<open>%5.1f%c\<close> of a size over a unit, in tenths.\<close>

definition zx_szstr :: "64 word \<Rightarrow> string" where
  "zx_szstr szw =
     (let sz = unat szw in
      if sz < 1024 then go_pad_left 6 (go_digits 10 sz)
      else (let (dv, u) = (if sz \<ge> 1073741824 then (1073741824, CHR ''G'')
                           else if sz \<ge> 1048576 then (1048576, CHR ''M'')
                           else (1024, CHR ''k''));
                t = half_even_div (float64_of sz * 10) dv in
        go_pad_left 5 (go_digits 10 (t div 10) @ ''.'' @ go_digits 10 (t mod 10)) @ [u]))"

definition zx_modeString :: "64 word \<Rightarrow> string" where
  "zx_modeString m0 =
     (let m = m0 AND 0x1FF in
      map (\<lambda>(i, c). if m AND push_bit (9 - 1 - i) 1 \<noteq> 0 then c else CHR ''-'')
        (zip [0..<9] ''rwxrwxrwx''))"

text \<open>\<open>tab\<close> is the Unicode table of printable runes, for quoted values.\<close>

fun fmt_attr :: "(rune \<Rightarrow> bool) \<Rightarrow> dir \<Rightarrow> bool \<Rightarrow> string \<Rightarrow> string option" where
  "fmt_attr tab d quoteall a =
     (let v = dget d a in
      if zx_IsStd a \<and> \<not> quoteall then
        (if a = ''size'' then Some (zx_szstr (word_of_nat (fst (go_parse_uint v 10))))
         else if a = ''mode'' then Some (zx_modeString (word_of_nat (fst (go_parse_uint v 8))))
         else if a = ''mtime'' then Some (go_pad_left 12 v)
         else if a = ''name'' then (if dget d ''path'' \<noteq> [] then None else Some v)
         else if a = ''uid'' \<or> a = ''gid'' \<or> a = ''wuid'' then Some (go_pad_left 6 v)
         else if a = ''addr'' then None
         else if a = ''err'' then (if v = [] then None else Some v)
         else Some v)
      else Some (a @ '':'' @ go_quote tab v))"

fun fmt_loop :: "(rune \<Rightarrow> bool) \<Rightarrow> dir \<Rightarrow> bool \<Rightarrow> string \<Rightarrow> string list \<Rightarrow> string" where
  "fmt_loop tab d quoteall sep [] = []"
| "fmt_loop tab d quoteall sep (a # as) =
     (case fmt_attr tab d quoteall a of
        None \<Rightarrow> fmt_loop tab d quoteall sep as
      | Some s \<Rightarrow> sep @ s @ fmt_loop tab d quoteall '' '' as)"

definition zx_fmt :: "(rune \<Rightarrow> bool) \<Rightarrow> dir option \<Rightarrow> string list \<Rightarrow> bool \<Rightarrow> string" where
  "zx_fmt tab d0 attrs quoteall =
     (case d0 of None \<Rightarrow> ''<nil dir>'' | Some d \<Rightarrow> fmt_loop tab d quoteall [] attrs)"

definition zx_Attrs :: "dir \<Rightarrow> string list" where
  "zx_Attrs d =
     filter (\<lambda>k. map_of d k \<noteq> None) StdAttrOrder @ sort (filter (\<lambda>k. \<not> zx_IsStd k) (map fst d))"

text \<open>\<open>me\<close> is the user running the program, \<open>u.Uid\<close>.\<close>

definition zx_TestFmt :: "(rune \<Rightarrow> bool) \<Rightarrow> string \<Rightarrow> dir \<Rightarrow> string" where
  "zx_TestFmt tab me d =
     (let nd = fold (\<lambda>usr nd. if dget nd usr = me then dset nd usr ''elf'' else nd)
                 [''uid'', ''gid'', ''wuid''] (zx_Dup d);
          nd' = AList.delete ''mtime'' nd
      in zx_fmt tab (Some nd') (zx_Attrs nd') True)"

definition zx_Fmt :: "(rune \<Rightarrow> bool) \<Rightarrow> dir option \<Rightarrow> string" where
  "zx_Fmt tab d = zx_fmt tab d stdShortOrder False"

definition zx_LongFmt :: "(rune \<Rightarrow> bool) \<Rightarrow> dir option \<Rightarrow> string" where
  "zx_LongFmt tab d = zx_fmt tab d (case d of None \<Rightarrow> [] | Some d' \<Rightarrow> zx_Attrs d') False"

definition zx_nouid :: "string \<Rightarrow> string" where
  "zx_nouid s = (if s = [] then ''none'' else s)"

definition zx_DbFmt :: "dir \<Rightarrow> string" where
  "zx_DbFmt d =
     go_pad_right 14 (dget d ''path'') @
     (if dget d ''type'' = [] then '' -'' else '' '' @ dget d ''type'') @
     (if dget d ''rm'' \<noteq> [] then '' GONE'' else '' 0'' @ go_digits 8 (unat (zx_Mode d))) @
     '' '' @ go_pad_right 8 (zx_nouid (dget d ''uid'')) @
     '' '' @ go_pad_right 8 (zx_nouid (dget d ''gid'')) @
     '' '' @ go_pad_right 8 (zx_nouid (dget d ''wuid'')) @
     '' '' @ go_pad_left 8 (go_digits 10 (unat (zx_Uint d ''size''))) @
     (if dget d ''type'' \<noteq> ''d'' then '' '' @ go_digits 10 (unat (zx_Uint d ''mtime'')) else []) @
     (if dget d ''err'' \<noteq> [] then '' '' @ dget d ''err'' else [])"

definition zx_String :: "(rune \<Rightarrow> bool) \<Rightarrow> dir option \<Rightarrow> string" where
  "zx_String tab d = zx_fmt tab d (case d of None \<Rightarrow> [] | Some d' \<Rightarrow> zx_Attrs d') True"

end
