(* ===== verification/ZxParse.thy ===== *)
theory ZxParse
  imports ZxDir
begin

text \<open>
  Reading directory entries and addresses back (src/zx/dir.go): the binary form that travels
  in \<open>ch\<close> messages, and the text forms.
\<close>

section \<open>Binary form\<close>

text \<open>What \<open>WriteTo\<close> writes to a buffer, which is \<open>Bytes\<close>.\<close>

definition zx_Dir_WriteTo :: "dir \<Rightarrow> byte list" where
  "zx_Dir_WriteTo d =
     le_bytes 4 (length d) @ concat (map (\<lambda>(k, v). ch_WriteStringTo k @ ch_WriteStringTo v) d)"

definition zx_Dir_Bytes :: "dir \<Rightarrow> byte list" where
  "zx_Dir_Bytes d = zx_Dir_WriteTo d"

fun unpack_dir_loop :: "nat \<Rightarrow> byte list \<Rightarrow> dir \<Rightarrow> byte list option \<times> dir option \<times> ch_error option" where
  "unpack_dir_loop 0 b d = (Some b, Some d, None)"
| "unpack_dir_loop (Suc n) b d =
     (case ch_UnpackString b of
        (b1, k, Some err) \<Rightarrow> (b1, None, Some err)
      | (b1, k, None) \<Rightarrow>
          (case ch_UnpackString (the b1) of
             (b2, v, Some err) \<Rightarrow> (b2, None, Some err)
           | (b2, v, None) \<Rightarrow> unpack_dir_loop n (the b2) (dset d k v)))"

definition zx_UnpackDir :: "byte list \<Rightarrow> byte list option \<times> dir option \<times> ch_error option" where
  "zx_UnpackDir b =
     (if length b < 4 then (Some b, None, Some TooSmall)
      else (let n = le_nat (take 4 b) in
        if n > MaxMsgSz then (Some b, None, Some TooLarge)
        else unpack_dir_loop n (drop 4 b) []))"

text \<open>\<open>uint32\<close> of a Go int.\<close>

definition uint32_of :: "int \<Rightarrow> nat" where
  "uint32_of n = nat (n mod 2 ^ 32)"

definition zx_Addr_WriteTo :: "addr \<Rightarrow> byte list" where
  "zx_Addr_WriteTo a =
     ch_WriteStringTo (a_Name a) @ le_bytes 4 (uint32_of (a_Ln0 a)) @ le_bytes 4 (uint32_of (a_Ln1 a))
       @ le_bytes 4 (uint32_of (a_P0 a)) @ le_bytes 4 (uint32_of (a_P1 a))"

definition zero_addr :: addr where
  "zero_addr = \<lparr>a_Name = [], a_Ln0 = 0, a_Ln1 = 0, a_P0 = 0, a_P1 = 0\<rparr>"

definition zx_UnpackAddr :: "byte list \<Rightarrow> byte list option \<times> addr \<times> ch_error option" where
  "zx_UnpackAddr b =
     (case ch_UnpackString b of
        (b1, nm, Some err) \<Rightarrow> (b1, zero_addr\<lparr>a_Name := nm\<rparr>, Some err)
      | (b1, nm, None) \<Rightarrow>
          (let b' = the b1 in
           if length b' < 4 * 4 then (Some b', zero_addr\<lparr>a_Name := nm\<rparr>, Some TooSmall)
           else (Some (drop 16 b'),
                 \<lparr>a_Name = nm, a_Ln0 = int (le_nat (take 4 b')), a_Ln1 = int (le_nat (take 4 (drop 4 b'))),
                  a_P0 = int (le_nat (take 4 (drop 8 b'))), a_P1 = int (le_nat (take 4 (drop 12 b')))\<rparr>,
                 None)))"

text \<open>The values package \<open>zx\<close> defines as messages, their ids, and their unpackers.\<close>

datatype zx_val = VDir "dir option" | VAddr addr

definition zx_TypeId :: "zx_val \<Rightarrow> 16 word option" where
  "zx_TypeId v = (case v of VDir d \<Rightarrow> Some Tdir | VAddr a \<Rightarrow> Some Taddr)"

definition zx_WriteTo :: "zx_val \<Rightarrow> byte list" where
  "zx_WriteTo v = (case v of VDir d \<Rightarrow> zx_Dir_WriteTo (case d of None \<Rightarrow> [] | Some d' \<Rightarrow> d') | VAddr a \<Rightarrow> zx_Addr_WriteTo a)"

definition zx_Unpack :: "zx_val unpackers" where
  "zx_Unpack typ =
     (if typ = Tdir then Some (\<lambda>b. let (r, d, e) = zx_UnpackDir b in (VDir d, e))
      else if typ = Taddr then Some (\<lambda>b. let (r, a, e) = zx_UnpackAddr b in (VAddr a, e))
      else None)"

section \<open>Addresses as text\<close>

definition zx_parseDot :: "string \<Rightarrow> (int \<times> int) go" where
  "zx_parseDot s =
     (if s = [] then Ret (0, 0)
      else (case go_split2 (CHR '','') s of
          [] \<Rightarrow> Panic
        | e0 # r \<Rightarrow>
          if e0 = [] then Panic
          else (let p0 = fst (go_atoi (if hd e0 = CHR ''#'' then tl e0 else e0)) in
            case r of
              [] \<Rightarrow> Ret (p0, p0)
            | e1 # r' \<Rightarrow>
                if e1 = [] then Panic
                else Ret (p0, fst (go_atoi (if hd e1 = CHR ''#'' then tl e1 else e1))))))"

definition zx_parseLns :: "string \<Rightarrow> int \<times> int" where
  "zx_parseLns s =
     (if s = [] then (0, 0)
      else (case go_split2 (CHR '','') s of
          e0 # e1 # r \<Rightarrow> (fst (go_atoi e0), fst (go_atoi e1))
        | e0 # [] \<Rightarrow> (fst (go_atoi e0), fst (go_atoi e0))
        | [] \<Rightarrow> (0, 0)))"

fun parse_addr_loop :: "addr \<Rightarrow> string list \<Rightarrow> addr go" where
  "parse_addr_loop a [] = Ret a"
| "parse_addr_loop a (e # es) =
     (if e \<noteq> [] \<and> hd e = CHR ''#'' then
        go_bind (zx_parseDot e) (\<lambda>(p0, p1). parse_addr_loop (a\<lparr>a_P0 := p0, a_P1 := p1\<rparr>) es)
      else if e \<noteq> [] then
        (let (l0, l1) = zx_parseLns e in parse_addr_loop (a\<lparr>a_Ln0 := l0, a_Ln1 := l1\<rparr>) es)
      else parse_addr_loop a es)"

definition zx_ParseAddr :: "string \<Rightarrow> addr go" where
  "zx_ParseAddr s =
     (let els = go_split (CHR '':'') s in
      parse_addr_loop (zero_addr\<lparr>a_Name := hd els\<rparr>) (tl els))"

definition zx_Addr_String :: "addr \<Rightarrow> string" where
  "zx_Addr_String a =
     (let nm = (if a_Name a = [] then ''in'' else a_Name a);
          d = (\<lambda>n. go_format_int n 10);
          ln = (if a_Ln0 a \<noteq> 0 \<or> a_Ln1 a \<noteq> 0 then
                  (if a_Ln0 a = a_Ln1 a then '':'' @ d (a_Ln0 a) else '':'' @ d (a_Ln0 a) @ '','' @ d (a_Ln1 a))
                else [])
      in if (a_Ln0 a \<noteq> 0 \<or> a_Ln1 a \<noteq> 0) \<and> a_P0 a = 0 \<and> a_P1 a = 0 then nm @ ln
         else nm @ ln @ '':#'' @ d (a_P0 a) @ '',#'' @ d (a_P1 a))"

section \<open>Entries as text\<close>

definition zx_Matches :: "dir \<Rightarrow> dir option \<Rightarrow> bool" where
  "zx_Matches e d0 =
     (case d0 of
        None \<Rightarrow> True
      | Some d \<Rightarrow> list_all (\<lambda>(k, v).
          (let dv = dget e k in
           if (map_of e k = None \<or> dv = []) \<and> v \<noteq> [] then False
           else \<not> (dv \<noteq> v \<and> v \<noteq> ''*''))) d)"

definition dir_blank :: "char \<Rightarrow> bool" where
  "dir_blank c \<longleftrightarrow> c = CHR '' '' \<or> c = CHR 0x09 \<or> c = CHR 0x0A"

text \<open>How many bytes the rest of a value takes: up to a blank, or to the closing quote.\<close>

function unquoted_len :: "string \<Rightarrow> nat" where
  "unquoted_len s =
     (if s = [] then 0
      else (let (r, n) = go_decode s in
        if r = 32 \<or> r = 9 \<or> r = 10 then 1 else n + unquoted_len (drop n s)))"
  by pat_completeness auto
termination
  by (relation "measure length") (use go_decode_size in \<open>auto simp: prod_eq_iff\<close>)

declare unquoted_len.simps [simp del]

function quoted_len :: "string \<Rightarrow> nat" where
  "quoted_len s =
     (if s = [] then 0
      else (let (r, n) = go_decode s in
        if r = 92 \<and> length s > 1 \<and> s ! 1 = CHR 0x22 then 2 + quoted_len (drop 2 s)
        else if r = 34 then 1
        else n + quoted_len (drop n s)))"
  by pat_completeness auto
termination
  by (relation "measure length") (use go_decode_size in \<open>auto simp: prod_eq_iff\<close>)

declare quoted_len.simps [simp del]

datatype parse_error = MissingColon | BadQuoted

lemma go_split2_shorter: "go_split2 c s = n # r # rest \<Longrightarrow> length r < length s"
proof (induction s arbitrary: n)
  case (Cons x s)
  show ?case
  proof (cases "x = c")
    case False
    then have "tl (go_split2 c s) = r # rest" using Cons.prems by simp
    then have "go_split2 c s = hd (go_split2 c s) # r # rest" by (cases "go_split2 c s") simp_all
    then show ?thesis using Cons.IH by (metis length_Cons less_SucI)
  qed (use Cons.prems in simp)
qed simp

lemma parse_dir_shorter:
  assumes "go_split2 (CHR '':'') (dropWhile dir_blank s0) = n # r # rest" and "dropWhile dir_blank r \<noteq> []"
  shows "length (drop (Suc k) (dropWhile dir_blank r)) < length s0"
proof -
  have "length (dropWhile dir_blank r) < length s0"
    using go_split2_shorter[OF assms(1)] length_dropWhile_le[of dir_blank r] length_dropWhile_le[of dir_blank s0]
    by linarith
  then show ?thesis by simp
qed

function parse_dir_loop :: "dir \<Rightarrow> string \<Rightarrow> dir \<times> parse_error option" where
  "parse_dir_loop d s0 =
     (let s = dropWhile dir_blank s0 in
      if s = [] then (d, None)
      else (case go_split2 (CHR '':'') s of
          n # r # rest \<Rightarrow>
            (let v0 = dropWhile dir_blank r in
             if v0 = [] then (d, None)
             else if hd v0 = CHR 0x22 then
               (let i = 1 + quoted_len (tl v0) in
                case go_unquote (take i v0) of
                  None \<Rightarrow> (d, Some BadQuoted)
                | Some v \<Rightarrow> parse_dir_loop (dset d n v) (drop i v0))
             else
               (let i = 1 + unquoted_len (tl v0) in
                parse_dir_loop (dset d n (if i < length v0 then take (i - 1) v0 else take i v0)) (drop i v0)))
        | _ \<Rightarrow> (d, Some MissingColon)))"
  by pat_completeness auto

termination
  by (relation "measure (\<lambda>(d, s). length s)")
    (use parse_dir_shorter in \<open>simp_all del: length_drop length_greater_0_conv\<close>)

declare parse_dir_loop.simps [simp del]

definition zx_ParseDir :: "string \<Rightarrow> dir \<times> parse_error option" where
  "zx_ParseDir s = parse_dir_loop [] s"

section \<open>Addresses of servers\<close>

definition zx_SPath :: "dir \<Rightarrow> string" where
  "zx_SPath d =
     (let a = dget d ''addr'' in
      case go_last_index_byte a (CHR ''!'') of None \<Rightarrow> dget d ''path'' | Some n \<Rightarrow> drop (n + 1) a)"

definition zx_SAddr :: "dir \<Rightarrow> string" where
  "zx_SAddr d =
     (let a = dget d ''addr'' in
      case go_last_index_byte a (CHR ''!'') of None \<Rightarrow> [] | Some n \<Rightarrow> take n a)"

definition zx_Proto :: "dir \<Rightarrow> string" where
  "zx_Proto d =
     (let a = dget d ''addr'' in
      case go_index_byte a (CHR ''!'') of None \<Rightarrow> [] | Some n \<Rightarrow> take n a)"

definition zx_IsFinder :: "dir \<Rightarrow> bool" where
  "zx_IsFinder d \<longleftrightarrow> zx_Proto d \<in> {''lfs'', ''zxc'', ''zx'', ''finder''}"

end
