(* ===== verification/ZxPerms.thy ===== *)
theory ZxPerms
  imports ZxParse
begin

text \<open>
  Permissions (src/zx/perms.go and \<open>InGroup\<close> of src/net/auth/auth.go), errors (err.go),
  changes (chg.go), flags (flags.go), statistics (stats.go) and the calls on file systems
  (fs.go) of package \<open>zx\<close>.  An \<open>error\<close> is its text, None the nil error.
\<close>

section \<open>Errors\<close>

definition ErrNotExist :: string where "ErrNotExist = ''no such file or directory''"
definition ErrExists :: string where "ErrExists = ''file already exists''"
definition ErrIsDir :: string where "ErrIsDir = ''file is a directory''"
definition ErrPerm :: string where "ErrPerm = ''permission denied''"
definition ErrNotEmpty :: string where "ErrNotEmpty = ''directory not empty''"
definition ErrBadCtl :: string where "ErrBadCtl = ''bad ctl request''"
definition ErrIO :: string where "ErrIO = ''i/o error''"

definition zx_IsIOError :: "string option \<Rightarrow> bool" where
  "zx_IsIOError e = (case e of None \<Rightarrow> False | Some s \<Rightarrow> s = ErrIO \<or> go_contains s ''i/o error'')"

definition zx_IsNotExist :: "string option \<Rightarrow> bool" where
  "zx_IsNotExist e = (case e of None \<Rightarrow> False
     | Some s \<Rightarrow> s = ErrNotExist \<or> go_contains s ''does not exist'' \<or> go_contains s ''no such file''
         \<or> go_contains s ''not found'')"

definition zx_IsNotEmpty :: "string option \<Rightarrow> bool" where
  "zx_IsNotEmpty e = (case e of None \<Rightarrow> False | Some s \<Rightarrow> s = ErrNotEmpty \<or> go_contains s ''not empty'')"

definition zx_IsExists :: "string option \<Rightarrow> bool" where
  "zx_IsExists e = (case e of None \<Rightarrow> False
     | Some s \<Rightarrow> s = ErrExists \<or> go_contains s ''already exists'' \<or> go_contains s ''file exists'')"

definition zx_IsPerm :: "string option \<Rightarrow> bool" where
  "zx_IsPerm e = (case e of None \<Rightarrow> False | Some s \<Rightarrow> s = ErrPerm \<or> go_contains s ''permission denied'')"

section \<open>Users and groups\<close>

record auth_info =
  ai_Uid :: string
  ai_Gids :: "string list"

text \<open>The groups are the keys of the map \<open>Gids\<close> with a true value.\<close>

definition auth_InGroup :: "auth_info option \<Rightarrow> string \<Rightarrow> bool" where
  "auth_InGroup ai nm =
     (case ai of None \<Rightarrow> True
      | Some a \<Rightarrow> nm = [] \<or> ai_Uid a = ''elf'' \<or> nm = ai_Uid a \<or> nm \<in> set (ai_Gids a))"

section \<open>Permissions\<close>

definition zx_Can :: "dir option \<Rightarrow> auth_info option \<Rightarrow> 64 word \<Rightarrow> bool" where
  "zx_Can d0 ai what =
     (case d0 of
        None \<Rightarrow> True
      | Some d \<Rightarrow>
          (let mode = zx_Mode d in
           if auth_InGroup ai (dget d ''Uid'') then mode AND what \<noteq> 0
           else if auth_InGroup ai (dget d ''Gid'') then mode AND what AND 0x3F \<noteq> 0
           else mode AND what AND 7 \<noteq> 0))"

definition zx_CanGet :: "dir option \<Rightarrow> auth_info option \<Rightarrow> bool" where
  "zx_CanGet d ai = zx_Can d ai 0x124"

definition zx_CanPut :: "dir option \<Rightarrow> auth_info option \<Rightarrow> bool" where
  "zx_CanPut d ai = zx_Can d ai 0x92"

definition zx_CanExec :: "dir option \<Rightarrow> auth_info option \<Rightarrow> bool" where
  "zx_CanExec d ai = zx_Can d ai 0x49"

definition zx_CanWalk :: "dir option \<Rightarrow> auth_info option \<Rightarrow> bool" where
  "zx_CanWalk d ai = zx_Can d ai 0x49"

text \<open>What \<open>CanWstat\<close> says of one attribute: None lets the loop go on.\<close>

definition wstat_attr :: "dir \<Rightarrow> auth_info option \<Rightarrow> string \<times> string \<Rightarrow> string option" where
  "wstat_attr d ai kv =
     (let (k, v) = kv; isowner = auth_InGroup ai (dget d ''uid'') in
      if dget d k = v then None
      else if k \<in> {''path'', ''addr'', ''type'', ''wuid'', ''name''} then None
      else if k = ''mode'' then (if \<not> isowner then Some (''mode: '' @ ErrPerm) else None)
      else if k = ''size'' then (if \<not> zx_CanPut (Some d) ai then Some (''size: '' @ ErrPerm) else None)
      else if k = ''uid'' \<or> k = ''gid'' then
        (if \<not> isowner \<or> \<not> auth_InGroup ai v \<and> \<not> auth_InGroup ai ''elf'' then Some (k @ '': '' @ ErrPerm) else None)
      else (if \<not> isowner \<and> \<not> auth_InGroup ai (dget d ''gid'') then Some (''size: '' @ ErrPerm) else None))"

fun wstat_loop :: "dir \<Rightarrow> auth_info option \<Rightarrow> dir \<Rightarrow> string option" where
  "wstat_loop d ai [] = None"
| "wstat_loop d ai (kv # nd) =
     (case wstat_attr d ai kv of None \<Rightarrow> wstat_loop d ai nd | Some e \<Rightarrow> Some e)"

definition zx_CanWstat :: "dir \<Rightarrow> auth_info option \<Rightarrow> dir \<Rightarrow> string option" where
  "zx_CanWstat d ai nd =
     (if ai = None \<and> dget nd ''size'' \<noteq> [] \<and> dget d ''type'' = ''d'' then Some (''size: '' @ ErrIsDir)
      else if length d = 0 \<or> length nd = 0 \<or> ai = None then None
      else wstat_loop d ai nd)"

section \<open>Changes\<close>

datatype chgtype = ChgNone | ChgAdd | ChgData | ChgMeta | ChgDel | ChgDirFile | ChgErr

record chg =
  c_Type :: chgtype
  c_D :: "dir option"
  c_Time :: int
  c_Err :: "string option"

fun chgtype_String :: "chgtype \<Rightarrow> string" where
  "chgtype_String ChgNone = ''none''"
| "chgtype_String ChgAdd = ''add''"
| "chgtype_String ChgData = ''data''"
| "chgtype_String ChgMeta = ''meta''"
| "chgtype_String ChgDel = ''del''"
| "chgtype_String ChgDirFile = ''dirfile''"
| "chgtype_String ChgErr = ''error''"

definition chg_String :: "(rune \<Rightarrow> bool) \<Rightarrow> chg \<Rightarrow> string" where
  "chg_String tab c =
     (case c_Type c of
        ChgNone \<Rightarrow> ''none''
      | ChgErr \<Rightarrow> chgtype_String (c_Type c) @ '' '' @ dget (case c_D c of None \<Rightarrow> [] | Some d \<Rightarrow> d) ''path'' @ '' '' @
          (case c_Err c of None \<Rightarrow> ''%!s(<nil>)'' | Some e \<Rightarrow> e)
      | _ \<Rightarrow> chgtype_String (c_Type c) @ '' '' @ zx_String tab (c_D c))"

section \<open>Flags\<close>

text \<open>
  A user flag is a pointer, kept here as the value it points to: a boolean, an integer, a
  string, a function, something that prints itself, or a value of another type.
\<close>

datatype flag = FBool bool | FInt int | FString string | FFun "string list \<Rightarrow> string option" | FStringer string | FOther

datatype face = VBool bool | VInt int | VString string | VOther

record flags =
  fl_usr :: "(string \<times> flag) list"
  fl_ro :: "(string \<times> bool) list"

definition fl_is_ro :: "flags \<Rightarrow> string \<Rightarrow> bool" where
  "fl_is_ro t nm \<longleftrightarrow> map_of (fl_ro t) nm = Some True"

definition fl_put :: "flags \<Rightarrow> string \<Rightarrow> flag \<Rightarrow> flags" where
  "fl_put t nm f = t\<lparr>fl_usr := AList.update nm f (fl_usr t)\<rparr>"

text \<open>\<open>add\<close> stops the program (\<open>Fatal\<close>) for a nil pointer or a type it does not know.\<close>

definition fl_add :: "flags \<Rightarrow> string \<Rightarrow> flag option \<Rightarrow> bool \<Rightarrow> flags go" where
  "fl_add t nm vp ro =
     (case vp of
        None \<Rightarrow> Panic
      | Some f \<Rightarrow>
          if f = FOther then Panic
          else Ret (t\<lparr>fl_usr := AList.update nm f (fl_usr t), fl_ro := AList.update nm ro (fl_ro t)\<rparr>))"

definition fl_Add :: "flags \<Rightarrow> string \<Rightarrow> flag option \<Rightarrow> flags go" where
  "fl_Add t nm vp = fl_add t nm vp False"

definition fl_AddRO :: "flags \<Rightarrow> string \<Rightarrow> flag option \<Rightarrow> flags go" where
  "fl_AddRO t nm vp = fl_add t nm vp True"

definition fl_Set :: "flags \<Rightarrow> string \<Rightarrow> face \<Rightarrow> flags \<times> string option" where
  "fl_Set t nm v =
     (case map_of (fl_usr t) nm of
        None \<Rightarrow> (t, Some ''no such flag'')
      | Some pt \<Rightarrow>
          if fl_is_ro t nm then (t, Some ''read-only flag'')
          else (let wrong = (t, Some ''wrong flag type''); done = (\<lambda>f. (fl_put t nm f, Some ''unknown flag type'')) in
            case pt of
              FBool b \<Rightarrow> (case v of VBool x \<Rightarrow> done (FBool x) | _ \<Rightarrow> wrong)
            | FInt b \<Rightarrow> (case v of VInt x \<Rightarrow> done (FInt x) | _ \<Rightarrow> wrong)
            | FString b \<Rightarrow> (case v of VString x \<Rightarrow> done (FString x) | _ \<Rightarrow> wrong)
            | FStringer s \<Rightarrow> (t, Some (''can'' @ [CHR 0x27] @ ''t set a Stringer() flag''))
            | _ \<Rightarrow> (t, Some ''unknown flag type'')))"

definition fl_String :: "flags \<Rightarrow> string" where
  "fl_String t =
     concat (map (\<lambda>(k, v). (case v of
          FBool b \<Rightarrow> k @ '' '' @ (if b then ''on'' else ''off'') @ [CHR 0x0A]
        | FInt n \<Rightarrow> k @ '' '' @ go_format_int n 10 @ [CHR 0x0A]
        | FString s \<Rightarrow> k @ '' '' @ s @ [CHR 0x0A]
        | FStringer s \<Rightarrow> k @ '' '' @ s @ [CHR 0x0A]
        | _ \<Rightarrow> [])) (fl_usr t))"

text \<open>A name in single quotes. The last error of \<open>Ctl\<close> also names the Go type, left out here.\<close>

definition quoted_name :: "string \<Rightarrow> string" where
  "quoted_name nm = [CHR 0x27] @ nm @ [CHR 0x27]"

definition fl_Ctl :: "flags \<Rightarrow> string \<Rightarrow> flags \<times> string option" where
  "fl_Ctl t cmd =
     (let toks0 = go_fields cmd in
      if length toks0 < 1 then (t, Some ErrBadCtl)
      else (let toks = (if length toks0 = 1 then
                 (if go_has_prefix (hd toks0) ''no'' then [drop 2 (hd toks0), ''off''] else toks0 @ [''on''])
               else toks0); nm = hd toks in
        case map_of (fl_usr t) nm of
          None \<Rightarrow> (t, Some (nm @ '': '' @ ErrBadCtl))
        | Some vp \<Rightarrow>
            if fl_is_ro t nm then (t, Some (nm @ '': read only flag''))
            else (case vp of
                FBool b \<Rightarrow>
                  if length toks > 2 then (t, Some (''usage: '' @ quoted_name nm @ '' on|off''))
                  else (fl_put t nm (FBool (toks ! 1 \<in> {''on'', ''1'', ''y'', ''yes''})), None)
              | FInt n \<Rightarrow>
                  if length toks \<noteq> 2 then (t, Some (''usage: '' @ quoted_name nm @ '' number''))
                  else (let (v, err) = go_atoi (toks ! 1) in
                    (fl_put t nm (FInt v), if err \<noteq> None then Some (''usage: '' @ quoted_name nm @ '' number'') else None))
              | FString s \<Rightarrow>
                  (fl_put t nm (FString (if length toks = 1 then [] else go_join '' '' (tl toks))), None)
              | FFun f \<Rightarrow> (t, f toks)
              | _ \<Rightarrow> (t, Some ''unknown flag type''))))"

section \<open>Statistics\<close>

text \<open>The counters in the order of the calls: stat, get, put, move, link, remove, wstat, find, all.\<close>

definition stats_name :: "string list" where
  "stats_name = [''stats'', ''gets'', ''puts'', ''moves'', ''links'', ''removes'', ''wstats'', ''finds'', ''total'']"

text \<open>The counters are 9 integers of 64 bits.\<close>

type_synonym stats = "64 word list"

definition stats_Count :: "stats \<Rightarrow> nat \<Rightarrow> stats go" where
  "stats_Count nb what = (if what < length nb then Ret (nb[what := nb ! what + 1]) else Panic)"

definition stats_String :: "stats \<Rightarrow> string" where
  "stats_String nb =
     concat (map (\<lambda>(n, nm). go_pad_left 6 (go_format_int (sint n) 10) @ '' '' @ nm @ [CHR 0x0A]) (zip nb stats_name))"

definition stats_Clear :: "stats \<Rightarrow> stats" where
  "stats_Clear nb = replicate (length nb) 0"

section \<open>Calls on file systems\<close>

text \<open>
  A call returns a channel: what is received from it, and the error it is closed with.
\<close>

definition zx_Stat :: "dir option list \<times> string option \<Rightarrow> dir option \<times> string option" where
  "zx_Stat dc = (case fst dc of [] \<Rightarrow> None | d # ds \<Rightarrow> d, snd dc)"

definition zx_GetAll :: "byte list list \<times> string option \<Rightarrow> byte list \<times> string option" where
  "zx_GetAll gc = (concat (fst gc), snd gc)"

text \<open>\<open>PutAll\<close>: the arguments of \<open>Put\<close> (the entry, the offset and the data sent), with the
  error its reply is closed with.\<close>

definition zx_PutAll ::
  "(string \<Rightarrow> dir \<Rightarrow> int \<Rightarrow> byte list list \<Rightarrow> string option) \<Rightarrow> string \<Rightarrow> byte list \<Rightarrow> string list \<Rightarrow> string option" where
  "zx_PutAll put path dat mode =
     put path [(''type'', ''-''), (''mode'', if length mode > 0 then hd mode else ''0644'')] 0 [dat]"

fun get_dir_loop :: "byte list list \<Rightarrow> ch_error option \<times> dir list" where
  "get_dir_loop [] = (None, [])"
| "get_dir_loop (b # bs) =
     (case zx_UnpackDir b of
        (r, d, Some err) \<Rightarrow> (Some err, [])
      | (r, d, None) \<Rightarrow> (let (e, ds) = get_dir_loop bs in (e, the d # ds)))"

definition zx_GetDir :: "byte list list \<times> ch_error option \<Rightarrow> dir list option \<times> ch_error option" where
  "zx_GetDir c =
     (case get_dir_loop (fst c) of
        (Some err, ds) \<Rightarrow> (None, Some err)
      | (None, ds) \<Rightarrow> (case snd c of Some err \<Rightarrow> (None, Some err) | None \<Rightarrow> (Some ds, None)))"

end
