(* ===== verification/ChProps.thy ===== *)
theory ChProps
  imports Ch
begin

text \<open>
  The frames of package \<open>ch\<close> read back: for any set of user types whose unpackers invert
  their packing (locale \<open>msg_codec\<close>), what \<open>WriteMsg\<close> and \<open>WriteMsgs\<close> write, \<open>ReadMsg\<close> and
  \<open>ReadMsgs\<close> read, message by message.
\<close>

section \<open>Frames\<close>

lemma length_ch_frame: "length (ch_frame tag typ b) = hdrSz + length b"
  by (simp add: ch_frame_def hdrSz_def)

lemma ch_decHdr_frame:
  "length b < 2 ^ 32 \<Longrightarrow> ch_decHdr (take hdrSz (ch_frame tag typ b @ rest)) = (length b, tag, typ)"
proof -
  assume b: "length b < 2 ^ 32"
  have h: "take hdrSz (ch_frame tag typ b @ rest) = le_bytes 4 (length b) @ le_bytes 4 (unat tag) @ le_bytes 2 (unat typ)"
    by (simp add: ch_frame_def hdrSz_def)
  have "unat tag < 2 ^ LENGTH(32)" "unat typ < 2 ^ LENGTH(16)" by (rule unsigned_less)+
  then have "unat tag mod 4294967296 = unat tag" "unat typ mod 65536 = unat typ" by simp_all
  then show ?thesis unfolding h using b by (simp add: ch_decHdr_def)
qed

lemma read_full_append: "length a = n \<Longrightarrow> read_full n (a @ rest, e) = (n, Inr a, (rest, e))"
  by (simp add: read_full_def)

lemma ch_ReadMsg_frame:
  assumes "length b \<le> MaxMsgSz"
  shows "ch_ReadMsg unp (ch_frame tag typ b @ rest, e) =
    (length b + hdrSz, tag,
      (if typ = Tbytes then (Some (MBytes b), None, (rest, e))
       else if typ = Tstr then (Some (MStr b), None, (rest, e))
       else if typ = Terr then (Some (MErr b), None, (rest, e))
       else (case unp typ of
               Some f \<Rightarrow> (Some (MUser (fst (f b))), snd (f b), (rest, e))
             | None \<Rightarrow> (Some (MIgn typ b), None, (rest, e)))))"
proof -
  have b32: "length b < 2 ^ 32" using assms by (simp add: MaxMsgSz_def)
  have hs: "hdrSz \<le> length (ch_frame tag typ b @ rest)" by (simp add: length_ch_frame)
  have h: "read_full hdrSz (ch_frame tag typ b @ rest, e) =
      (hdrSz, Inr (take hdrSz (ch_frame tag typ b @ rest)), (b @ rest, e))"
    using hs by (simp add: read_full_def) (simp add: ch_frame_def hdrSz_def)
  have bl: "\<not> length b > MaxMsgSz" using assms by simp
  have rb: "(if length b > 0 then ch_readBytes (b @ rest, e) (length b) else (Inr [], (b @ rest, e))) = (Inr b, (rest, e))"
    by (simp add: ch_readBytes_def read_full_append)
  show ?thesis
    unfolding ch_ReadMsg_def h Let_def prod.case sum.case ch_decHdr_frame[OF b32] if_not_P[OF bl] rb
    by (auto simp: prod.case_eq_if split: option.splits)
qed

section \<open>The codec interface\<close>

text \<open>
  What a package promises of the types it defines: their ids are not those of the messages of
  \<open>ch\<close>, and unpacking what \<open>pk\<close> packed gives the value back.
\<close>

locale msg_codec =
  fixes ty :: "'u \<Rightarrow> 16 word option" and pk :: "'u \<Rightarrow> byte list"
    and unp :: "'u unpackers" and good :: "'u \<Rightarrow> bool"
  assumes ty_law: "good u \<Longrightarrow> \<exists>t. ty u = Some t \<and> t \<noteq> Tbytes \<and> t \<noteq> Tstr \<and> t \<noteq> Terr"
    and unpack_law: "good u \<Longrightarrow> ty u = Some t \<Longrightarrow> \<exists>f. unp t = Some f \<and> f (pk u) = (u, None)"
begin

text \<open>The bytes of a message, and the messages that come back as they are.\<close>

definition payload :: "'u msg \<Rightarrow> (16 word \<times> byte list) option" where
  "payload m = (case m of
      MBytes b \<Rightarrow> Some (Tbytes, b) | MIgn t b \<Rightarrow> Some (t, b) | MStr s \<Rightarrow> Some (Tstr, s)
    | MErr s \<Rightarrow> Some (Terr, s)
    | MUser u \<Rightarrow> Some (case ty u of Some t \<Rightarrow> t | None \<Rightarrow> Tign, pk u)
    | MOther \<Rightarrow> None)"

definition good_msg :: "'u msg \<Rightarrow> bool" where
  "good_msg m \<longleftrightarrow>
     (\<exists>t b. payload m = Some (t, b) \<and> length b \<le> MaxMsgSz) \<and>
     (\<forall>u. m = MUser u \<longrightarrow> good u) \<and>
     (\<forall>t b. m = MIgn t b \<longrightarrow> t \<noteq> Tbytes \<and> t \<noteq> Tstr \<and> t \<noteq> Terr \<and> unp t = None)"

lemma WriteMsg_payload:
  "payload m = Some (t, b) \<Longrightarrow> ch_WriteMsg ty pk wr hist tag m = ch_writeBytes wr hist tag t b"
  by (auto simp: payload_def ch_WriteMsg_def split: msg.splits option.splits)

lemma ReadMsg_payload:
  assumes "good_msg m" and "payload m = Some (t, b)"
  shows "ch_ReadMsg unp (ch_frame tag t b @ rest, e) = (length b + hdrSz, tag, Some m, None, (rest, e))"
proof -
  have b: "length b \<le> MaxMsgSz" using assms by (auto simp: good_msg_def)
  note r = ch_ReadMsg_frame[OF b, of unp tag t rest e]
  have ne: "Tbytes \<noteq> Tstr" "Tbytes \<noteq> Terr" "Tstr \<noteq> Terr" by (simp_all add: ch_types)
  show ?thesis
  proof (cases m)
    case (MUser u)
    then have "good u" using assms(1) by (simp add: good_msg_def)
    from ty_law[OF this] obtain t' where t': "ty u = Some t'" "t' \<noteq> Tbytes" "t' \<noteq> Tstr" "t' \<noteq> Terr" by blast
    moreover obtain f where "unp t' = Some f" "f (pk u) = (u, None)"
      using unpack_law[OF \<open>good u\<close> t'(1)] by blast
    ultimately show ?thesis using r assms(2) MUser by (simp add: payload_def)
  next
    case (MIgn t' b')
    then show ?thesis using r assms by (simp add: payload_def good_msg_def)
  qed (use r assms(2) ne in \<open>auto simp: payload_def\<close>)
qed

text \<open>A stream of messages: each frame is read back as its message.\<close>

definition frames :: "32 word \<Rightarrow> 'u msg list \<Rightarrow> byte list list" where
  "frames tag ms = map (\<lambda>m. case payload m of Some (t, b) \<Rightarrow> ch_frame tag t b | None \<Rightarrow> []) ms"

lemma read_loop_frames:
  assumes "\<forall>m\<in>set ms. good_msg m"
  shows "ch_read_loop unp (\<lambda>i. True) cerr k (concat (frames tag ms), EOFErr) =
    (length (concat (frames tag ms)), length ms, ms, None)"
  using assms
proof (induction ms arbitrary: k)
  case Nil
  have "ch_ReadMsg unp ([], EOFErr) = (0, 0, None, Some EOFErr, ([], EOFErr))"
    by (simp add: ch_ReadMsg_def read_full_def hdrSz_def)
  then show ?case by (simp add: ch_read_loop.simps frames_def)
next
  case (Cons m ms)
  obtain t b where p: "payload m = Some (t, b)" using Cons.prems by (auto simp: good_msg_def)
  have f: "concat (frames tag (m # ms)) = ch_frame tag t b @ concat (frames tag ms)"
    by (simp add: frames_def p)
  have "ch_ReadMsg unp (ch_frame tag t b @ concat (frames tag ms), EOFErr) =
      (length b + hdrSz, tag, Some m, None, (concat (frames tag ms), EOFErr))"
    using Cons.prems p by (intro ReadMsg_payload) auto
  then show ?case
    using Cons unfolding f by (subst ch_read_loop.simps) (simp add: Let_def length_ch_frame)
qed

text \<open>A writer that takes everything and does not fail.\<close>

lemma write_loop_frames:
  assumes "\<forall>h m. wr h m = (length m, None)" and "\<forall>m\<in>set ms. good_msg m"
  shows "ch_write_loop ty pk wr None tag hist ms =
    (hist @ frames tag ms, length (concat (frames tag ms)), length ms, None)"
  using assms(2)
proof (induction ms arbitrary: hist)
  case (Cons m ms)
  obtain t b where p: "payload m = Some (t, b)" using Cons.prems by (auto simp: good_msg_def)
  have "ch_WriteMsg ty pk wr hist tag m = (hist @ [ch_frame tag t b], length (ch_frame tag t b), None)"
    using assms(1) by (simp add: WriteMsg_payload[OF p] ch_writeBytes_def Let_def)
  then show ?case using Cons p by (simp add: frames_def)
qed (simp add: frames_def)

lemma WriteMsgs_ReadMsgs:
  assumes "\<forall>h m. wr h m = (length m, None)" and "\<forall>m\<in>set ms. good_msg m"
  shows "\<exists>fs n. ch_WriteMsgs ty pk wr None tag [] ms None = (fs, n, length ms, None) \<and>
    ch_ReadMsgs unp (\<lambda>i. True) cerr (concat fs, EOFErr) = (n, length ms, ms, None)"
  using write_loop_frames[OF assms, of tag "[]"] read_loop_frames[OF assms(2), of cerr 0 tag]
  by (simp add: ch_WriteMsgs_def ch_ReadMsgs_def)

end

end
