(* ===== verification/ZxProps.thy ===== *)
theory ZxProps
  imports ZxPerms ChProps
begin

text \<open>
  Properties of package \<open>zx\<close>: entries and addresses travel through \<open>ch\<close> messages and through
  text unchanged, modes and permissions, and how flags are set.
\<close>

section \<open>Maps\<close>

lemma dset_fresh: "k \<notin> set (map fst d) \<Longrightarrow> dset d k v = d @ [(k, v)]"
  by (induction d) (auto simp: dset_def)

lemma dget_dset [simp]: "dget (dset d k v) k' = (if k' = k then v else dget d k')"
  by (simp add: dget_def dset_def update_conv')

lemma map_of_dset [simp]: "map_of (dset d k v) k' = (if k' = k then Some v else map_of d k')"
  by (simp add: dset_def update_conv')

section \<open>Messages\<close>

lemma unpack_dir_loop_ok:
  assumes "distinct (map fst (acc @ d))" and "\<forall>(k, v)\<in>set d. length k < 2 ^ 32 \<and> length v < 2 ^ 32"
  shows "unpack_dir_loop (length d) (concat (map (\<lambda>(k, v). ch_WriteStringTo k @ ch_WriteStringTo v) d) @ rest) acc
    = (Some rest, Some (acc @ d), None)"
  using assms
proof (induction d arbitrary: acc)
  case (Cons kv d)
  obtain k v where kv: "kv = (k, v)" by force
  have l: "length k < 2 ^ 32" "length v < 2 ^ 32" using Cons.prems(2) kv by auto
  have "unpack_dir_loop (length d) (concat (map (\<lambda>(k, v). ch_WriteStringTo k @ ch_WriteStringTo v) d) @ rest) (acc @ [(k, v)])
    = (Some rest, Some ((acc @ [(k, v)]) @ d), None)"
    using Cons.prems kv by (intro Cons.IH) auto
  moreover have "dset acc k v = acc @ [(k, v)]" using Cons.prems(1) kv by (intro dset_fresh) auto
  ultimately show ?case
    using l kv by (simp add: ch_UnpackString_WriteStringTo)
qed simp

text \<open>The entries and addresses that fit in a message.\<close>

definition good_dir :: "dir \<Rightarrow> bool" where
  "good_dir d \<longleftrightarrow> distinct (map fst d) \<and> length d \<le> MaxMsgSz \<and>
     list_all (\<lambda>(k, v). length k < 2 ^ 32 \<and> length v < 2 ^ 32) d"

definition good_addr :: "addr \<Rightarrow> bool" where
  "good_addr a \<longleftrightarrow> length (a_Name a) < 2 ^ 32 \<and>
     list_all (\<lambda>n. 0 \<le> n \<and> n < 2 ^ 32) [a_Ln0 a, a_Ln1 a, a_P0 a, a_P1 a]"

fun good_val :: "zx_val \<Rightarrow> bool" where
  "good_val (VDir (Some d)) = good_dir d"
| "good_val (VDir None) = False"
| "good_val (VAddr a) = good_addr a"

lemma zx_UnpackDir_WriteTo:
  assumes "good_dir d"
  shows "zx_UnpackDir (zx_Dir_WriteTo d @ rest) = (Some rest, Some d, None)"
proof -
  have l: "length d \<le> MaxMsgSz" and d: "distinct (map fst ([] @ d))"
    and b: "\<forall>(k, v)\<in>set d. length k < 2 ^ 32 \<and> length v < 2 ^ 32"
    using assms by (auto simp: good_dir_def list_all_iff)
  have "length d mod 256 ^ 4 = length d" using l by (simp add: MaxMsgSz_def)
  then show ?thesis
    using l unpack_dir_loop_ok[OF d b, of rest] by (simp add: zx_UnpackDir_def zx_Dir_WriteTo_def)
qed

lemma uint32_of_bounds: "0 \<le> n \<Longrightarrow> n < 2 ^ 32 \<Longrightarrow> int (uint32_of n mod 256 ^ 4) = n"
  by (simp add: uint32_of_def)

lemma zx_UnpackAddr_WriteTo:
  assumes "good_addr a"
  shows "zx_UnpackAddr (zx_Addr_WriteTo a @ rest) = (Some rest, a, None)"
  using assms uint32_of_bounds
  by (cases a) (simp add: good_addr_def zx_UnpackAddr_def zx_Addr_WriteTo_def ch_UnpackString_WriteStringTo)

interpretation zx_codec: msg_codec zx_TypeId zx_WriteTo zx_Unpack good_val
proof
  fix u assume "good_val u"
  then show "\<exists>t. zx_TypeId u = Some t \<and> t \<noteq> Tbytes \<and> t \<noteq> Tstr \<and> t \<noteq> Terr"
    by (cases u) (auto simp: zx_TypeId_def ch_types)
next
  fix u t assume g: "good_val u" and t: "zx_TypeId u = Some t"
  show "\<exists>f. zx_Unpack t = Some f \<and> f (zx_WriteTo u) = (u, None)"
  proof (cases u)
    case (VDir d)
    then obtain d' where d: "d = Some d'" "good_dir d'" using g by (cases d) auto
    then show ?thesis
      using t VDir zx_UnpackDir_WriteTo[OF d(2), of "[]"]
      by (simp add: zx_TypeId_def zx_Unpack_def zx_WriteTo_def)
  next
    case (VAddr a)
    then show ?thesis
      using t g zx_UnpackAddr_WriteTo[of a "[]"]
      by (auto simp: zx_TypeId_def zx_Unpack_def zx_WriteTo_def ch_types)
  qed
qed

text \<open>
  The messages that arrive as they were sent: up to \<open>MaxMsgSz\<close> bytes of data, errors,
  strings, entries and addresses, and ignored data of a type that nobody unpacks.
\<close>

fun sendable :: "zx_val msg \<Rightarrow> bool" where
  "sendable (MBytes b) = (length b \<le> MaxMsgSz)"
| "sendable (MStr s) = (length s \<le> MaxMsgSz)"
| "sendable (MErr s) = (length s \<le> MaxMsgSz)"
| "sendable (MUser u) = (good_val u \<and> length (zx_WriteTo u) \<le> MaxMsgSz)"
| "sendable (MIgn t b) = (length b \<le> MaxMsgSz \<and> t \<notin> {Tbytes, Tstr, Terr, Tdir, Taddr})"
| "sendable MOther = False"

lemma sendable_good: "sendable m \<Longrightarrow> zx_codec.good_msg m"
  by (cases m) (auto simp: zx_codec.good_msg_def zx_codec.payload_def zx_Unpack_def)

text \<open>
  C8: a sequence of messages (data, strings, errors, directory entries, addresses) written by
  \<open>WriteMsgs\<close> to a writer that takes everything is read back by \<open>ReadMsgs\<close> from the bytes
  written, message by message and with no error, and both count the same bytes and messages.
\<close>

theorem ch_messages_roundtrip:
  assumes "\<forall>h m. wr h m = (length m, None)" and "\<forall>m\<in>set ms. sendable m"
  shows "\<exists>fs n. ch_WriteMsgs zx_TypeId zx_WriteTo wr None tag [] ms None = (fs, n, length ms, None) \<and>
    ch_ReadMsgs zx_Unpack (\<lambda>i. True) cerr (concat fs, EOFErr) = (n, length ms, ms, None)"
  using zx_codec.WriteMsgs_ReadMsgs[OF assms(1)] assms(2) sendable_good by blast

definition demo_dir :: dir where
  "demo_dir = [(''name'', ''a''), (''size'', ''12''), (''mode'', ''0644'')]"

theorem ch_messages_roundtrip_witness:
  "\<exists>fs n. ch_WriteMsgs zx_TypeId zx_WriteTo (\<lambda>h m. (length m, None)) None 7 []
        [MUser (VDir (Some demo_dir)), MBytes ''data'', MErr ''no''] None = (fs, n, length [MUser (VDir (Some demo_dir)), MBytes ''data'', MErr ''no''], None) \<and>
    ch_ReadMsgs zx_Unpack (\<lambda>i. True) None (concat fs, EOFErr) =
      (n, length [MUser (VDir (Some demo_dir)), MBytes ''data'', MErr ''no''], [MUser (VDir (Some demo_dir)), MBytes ''data'', MErr ''no''], None)"
proof (rule ch_messages_roundtrip)
  show "\<forall>m\<in>set [MUser (VDir (Some demo_dir)), MBytes ''data'', MErr ''no'']. sendable m"
    by (simp add: demo_dir_def good_dir_def MaxMsgSz_def zx_WriteTo_def zx_Dir_WriteTo_def ch_WriteStringTo_def)
qed simp

section \<open>Modes\<close>

lemma mode_bits: "unat ((m :: 64 word) AND 0x1FF) < 512"
proof -
  have "m AND 0x1FF \<le> 0x1FF" by (rule word_and_le1)
  then have "unat (m AND 0x1FF) \<le> unat (0x1FF :: 64 word)" by (simp add: word_le_nat_alt)
  then show ?thesis by simp
qed

lemma zx_Mode_SetMode [simp]: "zx_Mode (zx_SetMode d m) = m AND 0x1FF"
proof -
  let ?n = "unat (m AND 0x1FF)"
  have "parse_digits 8 0 (CHR ''0'' # go_digits 8 ?n) = parse_digits 8 0 (go_digits 8 ?n)"
    by (simp add: digit_val_def)
  also have "\<dots> = (?n, None)" using mode_bits[of m] by (intro parse_digits_format) simp_all
  finally have "go_parse_uint (CHR ''0'' # go_digits 8 ?n) 8 = (?n, None)" by (simp add: go_parse_uint_def)
  then show ?thesis by (simp add: zx_Mode_def zx_SetMode_def zx_Uint_def and.assoc)
qed

lemma dget_SetMode [simp]: "k \<noteq> ''mode'' \<Longrightarrow> dget (zx_SetMode d m) k = dget d k"
  by (simp add: zx_SetMode_def)

text \<open>Testing bits with masks.\<close>

lemma and_two_bits:
  fixes x k r :: "64 word"
  assumes k: "\<And>n. bit k n \<longleftrightarrow> n = a \<or> n = b" and r: "\<And>n. bit r n \<longleftrightarrow> n = a" and ne: "a \<noteq> b"
  shows "x AND k = r \<longleftrightarrow> bit x a \<and> \<not> bit x b"
proof
  assume e: "x AND k = r"
  have "bit (x AND k) n \<longleftrightarrow> bit r n" for n by (simp only: e)
  from this[of a] this[of b] show "bit x a \<and> \<not> bit x b" using ne by (simp only: bit_and_iff k r) simp
next
  assume "bit x a \<and> \<not> bit x b"
  then show "x AND k = r" by (intro bit_word_eqI) (auto simp only: bit_and_iff k r)
qed

lemma and_one_bit:
  fixes p s :: "64 word"
  assumes s: "\<And>n. bit s n \<longleftrightarrow> n = a"
  shows "p AND s = s \<longleftrightarrow> bit p a"
proof
  assume e: "p AND s = s"
  have "bit (p AND s) n \<longleftrightarrow> bit s n" for n by (simp only: e)
  from this[of a] show "bit p a" by (simp only: bit_and_iff s) simp
next
  assume "bit p a"
  then show "p AND s = s" by (intro bit_word_eqI) (auto simp only: bit_and_iff s)
qed

lemma bit64:
  fixes w :: "64 word"
  assumes "\<forall>n\<in>set [0..<64]. bit w n = P n" and "\<And>n. P n \<Longrightarrow> n < 64"
  shows "bit w n = P n"
  using assms bit_imp_le_length[of w n] by fastforce

lemma mode_masks:
  "bit (0x120 :: 64 word) n \<longleftrightarrow> n = 8 \<or> n = 5" "bit (0x100 :: 64 word) n \<longleftrightarrow> n = 8"
  "bit (0x90 :: 64 word) n \<longleftrightarrow> n = 7 \<or> n = 4" "bit (0x80 :: 64 word) n \<longleftrightarrow> n = 7"
  "bit (0x48 :: 64 word) n \<longleftrightarrow> n = 6 \<or> n = 3" "bit (0x40 :: 64 word) n \<longleftrightarrow> n = 6"
  "bit (0x20 :: 64 word) n \<longleftrightarrow> n = 5" "bit (0x10 :: 64 word) n \<longleftrightarrow> n = 4" "bit (8 :: 64 word) n \<longleftrightarrow> n = 3"
  "bit (0x1FF :: 64 word) n \<longleftrightarrow> n < 9"
  by (rule bit64, code_simp, linarith)+

lemma mode_tests:
  "x AND 0x120 = 0x100 \<longleftrightarrow> bit x 8 \<and> \<not> bit x 5" "x AND 0x90 = 0x80 \<longleftrightarrow> bit x 7 \<and> \<not> bit x 4"
  "x AND 0x48 = 0x40 \<longleftrightarrow> bit x 6 \<and> \<not> bit x 3" "x AND 0x20 = 0x20 \<longleftrightarrow> bit x 5"
  "x AND 0x10 = 0x10 \<longleftrightarrow> bit x 4" "x AND 8 = 8 \<longleftrightarrow> bit x 3" for x :: "64 word"
  by (rule and_two_bits[OF mode_masks(1,2)] and_two_bits[OF mode_masks(3,4)] and_two_bits[OF mode_masks(5,6)]
      and_one_bit[OF mode_masks(7)] and_one_bit[OF mode_masks(8)] and_one_bit[OF mode_masks(9)]; simp)+

text \<open>
  After \<open>Inherit\<close>, the mode has no bit that the parent lacks; the owner's and the others'
  bits are those of both the entry and the parent, and a group bit is set when the parent
  has it and the entry gave it (within the parent's bits) to the group or to the owner, the
  execute bit only for directories.
\<close>

theorem zx_Inherit_correct:
  "bit (zx_Mode (zx_Inherit d parent)) i \<longleftrightarrow>
     bit (zx_Mode d) i \<and> bit parent i \<or>
     bit parent i \<and> (i = 5 \<and> bit (zx_Mode d) 8 \<and> bit parent 8 \<or>
       i = 4 \<and> bit (zx_Mode d) 7 \<and> bit parent 7 \<or>
       i = 3 \<and> dget d ''type'' = ''d'' \<and> bit (zx_Mode d) 6 \<and> bit parent 6)"
proof -
  have m9: "bit (zx_Mode d) n \<Longrightarrow> n < 9" for n
    by (simp only: zx_Mode_def bit_and_iff mode_masks)
  have step: "bit (if A then x OR s else x) n \<longleftrightarrow> bit x n \<or> A \<and> bit s n" for A n and x s :: "64 word"
    by (simp add: bit_or_iff)
  define m0 where "m0 = zx_Mode d AND parent"
  define m1 where "m1 = (if m0 AND 0x120 = 0x100 \<and> parent AND 0x20 = 0x20 then m0 OR 0x20 else m0)"
  define m2 where "m2 = (if m1 AND 0x90 = 0x80 \<and> parent AND 0x10 = 0x10 then m1 OR 0x10 else m1)"
  define m3 where "m3 = (if dget d ''type'' = ''d'' \<and> m2 AND 0x48 = 0x40 \<and> parent AND 8 = 8 then m2 OR 8 else m2)"
  have b0: "bit m0 n \<longleftrightarrow> bit (zx_Mode d) n \<and> bit parent n" for n
    unfolding m0_def bit_and_iff ..
  have b1: "bit m1 n \<longleftrightarrow> bit m0 n \<or> n = 5 \<and> bit m0 8 \<and> bit parent 5" for n
    unfolding m1_def step mode_tests mode_masks by blast
  have b2: "bit m2 n \<longleftrightarrow> bit m1 n \<or> n = 4 \<and> bit m1 7 \<and> bit parent 4" for n
    unfolding m2_def step mode_tests mode_masks by blast
  have b3: "bit m3 n \<longleftrightarrow> bit m2 n \<or> n = 3 \<and> dget d ''type'' = ''d'' \<and> bit m2 6 \<and> bit parent 3" for n
    unfolding m3_def step mode_tests mode_masks by blast
  have "zx_Mode (zx_Inherit d parent) = m3 AND 0x1FF"
    unfolding zx_Inherit_def Let_def m0_def[symmetric] m1_def[symmetric] m2_def[symmetric] m3_def[symmetric]
    by (rule zx_Mode_SetMode)
  then have "bit (zx_Mode (zx_Inherit d parent)) i \<longleftrightarrow> bit m3 i \<and> i < 9"
    by (simp only: bit_and_iff mode_masks)
  then show ?thesis
    using m9[of i] unfolding b3 b2 b1 b0 by auto
qed

section \<open>Permissions\<close>

text \<open>
  A real entry has its owner under \<open>uid\<close>; \<open>Can\<close> looks for \<open>Uid\<close>, finds the empty name, and
  everyone is in the group of the empty name: what a user may do does not depend on who the
  user is, and a file of another user with mode 0600 can be read and written.
\<close>

theorem zx_Can_ignores_user:
  "(\<forall>d ai ai' what. map_of d ''Uid'' = None \<longrightarrow> zx_Can (Some d) ai what = zx_Can (Some d) ai' what) \<and>
   zx_CanPut (Some [(''uid'', ''alice''), (''gid'', ''staff''), (''mode'', ''0600'')])
     (Some \<lparr>ai_Uid = ''mallory'', ai_Gids = []\<rparr>)"
proof
  show "\<forall>d ai ai' what. map_of d ''Uid'' = None \<longrightarrow> zx_Can (Some d) ai what = zx_Can (Some d) ai' what"
    by (simp add: zx_Can_def auth_InGroup_def dget_def Let_def split: option.split)
qed (simp add: zx_CanPut_def zx_Can_def zx_Mode_def zx_Uint_def go_parse_uint_def digit_val_def auth_InGroup_def dget_def Let_def)

theorem zx_Can_ignores_user_witness:
  "zx_Can (Some [(''mode'', ''0600'')]) None 0x92 = zx_Can (Some [(''mode'', ''0600'')]) (Some \<lparr>ai_Uid = ''mallory'', ai_Gids = []\<rparr>) 0x92"
  using zx_Can_ignores_user by simp

text \<open>Whether \<open>CanWstat\<close> lets a change through does not depend on the order of the attributes.\<close>

lemma wstat_loop_None: "wstat_loop d ai nd = None \<longleftrightarrow> (\<forall>kv\<in>set nd. wstat_attr d ai kv = None)"
  by (induction nd) (auto split: option.splits)

text \<open>
  For a user (not nil) and nonempty entries, \<open>CanWstat\<close> accepts an update exactly when each
  attribute that changes is one the user may change: the mode for the owner, the size with
  write permission, the owner and group for the owner into a group of theirs, other
  attributes for the owner and the group; the path, address, type, name and last writer are
  ignored.
\<close>

theorem zx_CanWstat_correct:
  assumes "ai = Some u" and "d \<noteq> []" and "nd \<noteq> []" and "wf_dir nd"
  shows "zx_CanWstat d ai nd = None \<longleftrightarrow>
    (\<forall>k v. map_of nd k = Some v \<and> v \<noteq> dget d k \<longrightarrow>
      k \<in> {''path'', ''addr'', ''type'', ''wuid'', ''name''} \<or>
      k = ''mode'' \<and> auth_InGroup ai (dget d ''uid'') \<or>
      k = ''size'' \<and> zx_CanPut (Some d) ai \<or>
      k \<in> {''uid'', ''gid''} \<and> auth_InGroup ai (dget d ''uid'') \<and> (auth_InGroup ai v \<or> auth_InGroup ai ''elf'') \<or>
      k \<notin> {''mode'', ''size'', ''uid'', ''gid''} \<and> (auth_InGroup ai (dget d ''uid'') \<or> auth_InGroup ai (dget d ''gid'')))"
    (is "_ \<longleftrightarrow> (\<forall>k v. map_of nd k = Some v \<and> v \<noteq> dget d k \<longrightarrow> ?may k v)")
proof -
  have attr: "wstat_attr d ai (k, v) = None \<longleftrightarrow> (v \<noteq> dget d k \<longrightarrow> ?may k v)" for k v
    unfolding wstat_attr_def Let_def prod.case
    by (cases "dget d k = v"; cases "k \<in> {''path'', ''addr'', ''type'', ''wuid'', ''name''}";
        cases "k = ''mode''"; cases "k = ''size''"; cases "k = ''uid'' \<or> k = ''gid''") simp_all
  have "zx_CanWstat d ai nd = wstat_loop d ai nd" using assms(1-3) by (simp add: zx_CanWstat_def)
  then have "zx_CanWstat d ai nd = None \<longleftrightarrow> (\<forall>kv\<in>set nd. wstat_attr d ai kv = None)"
    by (simp add: wstat_loop_None)
  also have "\<dots> \<longleftrightarrow> (\<forall>k v. map_of nd k = Some v \<longrightarrow> wstat_attr d ai (k, v) = None)"
    using map_of_eq_Some_iff[of nd] assms(4) unfolding wf_dir_def by auto
  finally show ?thesis unfolding attr by (simp only: imp_conjL)
qed

theorem zx_CanWstat_correct_witness:
  "zx_CanWstat [(''uid'', ''bob''), (''mode'', ''0644'')] (Some \<lparr>ai_Uid = ''eve'', ai_Gids = []\<rparr>) [(''mode'', ''0777'')] \<noteq> None"
proof
  let ?d = "[(''uid'', ''bob''), (''mode'', ''0644'')]" and ?nd = "[(''mode'', ''0777'')]"
  let ?ai = "Some \<lparr>ai_Uid = ''eve'', ai_Gids = []\<rparr>"
  assume n: "zx_CanWstat ?d ?ai ?nd = None"
  have ne: "?d \<noteq> []" "?nd \<noteq> []" "wf_dir ?nd" by (simp_all add: wf_dir_def)
  have "map_of ?nd ''mode'' = Some ''0777'' \<and> ''0777'' \<noteq> dget ?d ''mode''" by (simp add: dget_def)
  with zx_CanWstat_correct [OF refl ne, THEN iffD1, OF n, rule_format, of "''mode''" "''0777''"]
  have "auth_InGroup ?ai (dget ?d ''uid'')" by simp
  then show False by (simp add: auth_InGroup_def dget_def)
qed

section \<open>Comparing entries\<close>

text \<open>
  \<open>EqualDirs\<close> takes an attribute that is missing for one with an empty value: it calls equal
  two entries with different attributes, and in the other order it does not.
\<close>

theorem zx_EqualDirs_asymmetric:
  "zx_EqualDirs [(''a'', [])] [(''b'', ''x'')] \<and> \<not> zx_EqualDirs [(''b'', ''x'')] [(''a'', [])]"
  by code_simp

section \<open>Flags\<close>

text \<open>
  \<open>Set\<close> never reports success: whatever the flag and the value, an error is returned, also
  when the flag has been set.
\<close>

theorem fl_Set_always_fails:
  "snd (fl_Set t nm v) \<noteq> None \<and>
   fl_Set \<lparr>fl_usr = [(''debug'', FBool False)], fl_ro = [(''debug'', False)]\<rparr> ''debug'' (VBool True)
     = (\<lparr>fl_usr = [(''debug'', FBool True)], fl_ro = [(''debug'', False)]\<rparr>, Some ''unknown flag type'')"
proof
  show "snd (fl_Set t nm v) \<noteq> None"
    by (auto simp: fl_Set_def Let_def split: option.splits flag.splits face.splits)
qed (simp add: fl_Set_def fl_is_ro_def fl_put_def)

end
