(* ===== verification/ZxText.thy ===== *)
theory ZxText
  imports ZxProps
begin

text \<open>
  Directory entries and addresses as text: what \<open>String\<close> prints, \<open>ParseDir\<close> and
  \<open>ParseAddr\<close> read back, and the entries for which they do not.
\<close>

section \<open>Quoted ASCII text\<close>

definition ascii :: "char \<Rightarrow> bool" where
  "ascii c \<longleftrightarrow> byte_of c < 128"

text \<open>How \<open>Quote\<close> writes an ASCII character.\<close>

definition esc_char :: "char \<Rightarrow> string" where
  "esc_char c =
     (let n = of_char c :: nat in
      if n = 34 \<or> n = 92 then [CHR 0x5C, c]
      else if 32 \<le> n \<and> n < 127 then [c]
      else if n = 7 then [CHR 0x5C, CHR ''a''] else if n = 8 then [CHR 0x5C, CHR ''b'']
      else if n = 12 then [CHR 0x5C, CHR ''f''] else if n = 10 then [CHR 0x5C, CHR ''n'']
      else if n = 13 then [CHR 0x5C, CHR ''r''] else if n = 9 then [CHR 0x5C, CHR ''t'']
      else if n = 11 then [CHR 0x5C, CHR ''v'']
      else if n < 32 then CHR 0x5C # CHR ''x'' # hex_digits 2 n
      else CHR 0x5C # CHR ''u'' # hex_digits 4 n)"

lemma chr_of_byte [simp]: "chr_of (byte_of c) = c"
  by (simp add: chr_of_def)

lemma quote_rune_ascii: "ascii c \<Longrightarrow> quote_rune tab (byte_of c) (Suc 0) c = esc_char c"
  by (auto simp: ascii_def quote_rune_def esc_char_def rune_error_def go_is_print_def go_encode_def Let_def)

lemma quote_body_ascii:
  "\<forall>c\<in>set s. ascii c \<Longrightarrow> quote_body tab s = concat (map esc_char s)"
proof (induction s)
  case (Cons c s)
  then have c: "byte_of c < 128" by (simp add: ascii_def)
  then show ?case
    using Cons quote_rune_ascii[of c tab] go_decode_ascii[of c s] by (simp add: ascii_def)
qed simp

lemma hex_digits_2: "hex_digits 2 n = [digit_char (n div 16 mod 16), digit_char (n mod 16)]"
  by (simp add: hex_digits_def numeral_2_eq_2)

lemma hex_digits_4_del: "hex_digits 4 127 = ''007f''"
  by code_simp

lemma hex_val_digit: "d < 16 \<Longrightarrow> hex_val (digit_char d) = Some (int d)"
proof -
  assume d: "d < 16"
  then have b: "byte_of (digit_char d) = (if d < 10 then 48 + int d else 87 + int d)"
    using digit_char_range[of d] by auto
  show ?thesis using d unfolding hex_val_def b Let_def by auto
qed

lemma of_char_quote: "(of_char c :: nat) = 34 \<longleftrightarrow> c = CHR 0x22" "(of_char c :: nat) = 92 \<longleftrightarrow> c = CHR 0x5C"
  using of_char_eq_iff[of c "CHR 0x22", where 'a = nat] of_char_eq_iff[of c "CHR 0x5C", where 'a = nat] by simp_all

lemma ascii_cases:
  assumes "ascii c"
  obtains (special) "c = CHR 0x22 \<or> c = CHR 0x5C" | (plain) "32 \<le> byte_of c" "byte_of c < 127" "c \<noteq> CHR 0x22" "c \<noteq> CHR 0x5C"
  | (letter) l where "(byte_of c, l) \<in> {(7, CHR ''a''), (8, CHR ''b''), (12, CHR ''f''), (10, CHR ''n''), (13, CHR ''r''), (9, CHR ''t''), (11, CHR ''v'')}"
      "esc_char c = [CHR 0x5C, l]"
  | (hex) "byte_of c < 32" "esc_char c = CHR 0x5C # CHR ''x'' # hex_digits 2 (of_char c)"
  | (del) "byte_of c = 127" "esc_char c = CHR 0x5C # CHR ''u'' # ''007f''"
proof -
  define n where "n = (of_char c :: nat)"
  have c: "c = char_of n" by (simp add: n_def)
  have n: "n < 128" using assms by (simp add: ascii_def n_def)
  consider "n = 34 \<or> n = 92" | "32 \<le> n" "n < 127" "n \<noteq> 34" "n \<noteq> 92"
    | "n \<in> {7, 8, 9, 10, 11, 12, 13}" | "n < 32" "n \<notin> {7, 8, 9, 10, 11, 12, 13}" | "n = 127"
    using n by fastforce
  then show thesis
  proof cases
    case 1
    then show thesis using special of_char_quote[of c] by (auto simp: n_def)
  next
    case 2
    have "c \<noteq> CHR 0x22" "c \<noteq> CHR 0x5C" using 2 of_char_quote[of c] by (simp_all add: n_def)
    then show thesis using plain 2 by (simp add: n_def)
  next
    case 3
    define l where "l = (if n = 7 then CHR ''a'' else if n = 8 then CHR ''b'' else if n = 9 then CHR ''t''
      else if n = 10 then CHR ''n'' else if n = 11 then CHR ''v'' else if n = 12 then CHR ''f'' else CHR ''r'')"
    have e: "esc_char c = [CHR 0x5C, l]"
      using 3 unfolding esc_char_def n_def[symmetric] Let_def l_def by (elim insertE emptyE) simp_all
    have "(byte_of c, l) \<in> {(7, CHR ''a''), (8, CHR ''b''), (12, CHR ''f''), (10, CHR ''n''), (13, CHR ''r''), (9, CHR ''t''), (11, CHR ''v'')}"
      using 3 unfolding n_def[symmetric] l_def by (elim insertE emptyE) simp_all
    then show thesis using letter e by blast
  next
    case 4
    then show thesis using hex by (simp add: esc_char_def n_def[symmetric] Let_def)
  next
    case 5
    then show thesis using del by (simp add: esc_char_def n_def[symmetric] hex_digits_4_del)
  qed
qed

lemma esc_char_simps:
  "esc_char (CHR 0x22) = [CHR 0x5C, CHR 0x22]" "esc_char (CHR 0x5C) = [CHR 0x5C, CHR 0x5C]"
  "32 \<le> byte_of c \<Longrightarrow> byte_of c < 127 \<Longrightarrow> c \<noteq> CHR 0x22 \<Longrightarrow> c \<noteq> CHR 0x5C \<Longrightarrow> esc_char c = [c]"
proof -
  assume a: "32 \<le> byte_of c" "byte_of c < 127" "c \<noteq> CHR 0x22" "c \<noteq> CHR 0x5C"
  then have "(of_char c :: nat) \<noteq> 34" "(of_char c :: nat) \<noteq> 92"
    using of_char_quote[of c] by simp_all
  then show "esc_char c = [c]" using a by (simp add: esc_char_def)
qed (simp_all add: esc_char_def)

section \<open>Unquoting\<close>

lemma unquote_esc_char:
  assumes "ascii c"
  shows "\<exists>m. unquote_char (esc_char c @ t) = Some (byte_of c, m, t)"
  using assms
proof (cases rule: ascii_cases)
  case special
  then show ?thesis by (auto simp: esc_char_simps unquote_char_def oct_val_def)
next
  case plain
  then show ?thesis by (simp add: esc_char_simps unquote_char_def exI[of _ False])
next
  case (letter l)
  have "unquote_char (CHR 0x5C # l # t) = Some (byte_of c, False, t)"
    using letter(1) unfolding insert_iff empty_iff prod.inject
    by (elim disjE conjE FalseE) (simp_all add: unquote_char_def)
  then show ?thesis using letter(2) by auto
next
  case hex
  have n: "(of_char c :: nat) < 32" using hex(1) by simp
  have d: "(of_char c :: nat) div 16 mod 16 < 16" "(of_char c :: nat) mod 16 < 16" by simp_all
  have "hex_number 0 (hex_digits 2 (of_char c)) = Some (byte_of c)"
    unfolding hex_digits_2 hex_number.simps hex_val_digit[OF d(1)] hex_val_digit[OF d(2)] option.case
    using n arg_cong[OF div_mult_mod_eq[of "of_char c :: nat" 16], of int]
    by (simp only: of_nat_add of_nat_mult of_nat_numeral) simp
  then show ?thesis
    using hex(2) by (simp add: unquote_char_def unquote_hex_def) (simp add: hex_digits_2 exI[of _ False])
next
  case del
  have "hex_number 0 ''007f'' = Some 127" by code_simp
  then show ?thesis using del by (simp add: unquote_char_def unquote_hex_def exI[of _ True])
qed

lemma esc_char_nonempty: "ascii c \<Longrightarrow> esc_char c \<noteq> []"
  by (auto simp: esc_char_def Let_def)

lemma unquote_loop_esc:
  "\<forall>c\<in>set s. ascii c \<Longrightarrow> unquote_loop (concat (map esc_char s)) = Some s"
proof (induction s)
  case Nil
  show ?case by (simp add: unquote_loop.simps)
next
  case (Cons c s)
  then have c: "ascii c" by simp
  obtain m where u: "unquote_char (esc_char c @ concat (map esc_char s)) = Some (byte_of c, m, concat (map esc_char s))"
    using unquote_esc_char[OF c] by blast
  have "byte_of c < 0x80" using c by (simp add: ascii_def)
  then show ?case
    using Cons u esc_char_nonempty[OF c] by (subst unquote_loop.simps) simp
qed

lemma digit_char_plain:
  assumes "d < 16"
  shows "32 \<le> byte_of (digit_char d) \<and> byte_of (digit_char d) < 127 \<and> digit_char d \<noteq> CHR 0x22 \<and> digit_char d \<noteq> CHR 0x5C
    \<and> digit_char d \<noteq> CHR 0x0A"
proof -
  have b: "(of_char (digit_char d) :: nat) = (if d < 10 then 48 + d else 87 + d)"
    using digit_char_range[of d] assms by simp
  moreover have "(of_char (CHR 0x22) :: nat) = 34" "(of_char (CHR 0x5C) :: nat) = 92" "(of_char (CHR 0x0A) :: nat) = 10" by simp_all
  moreover have "48 \<le> (of_char (digit_char d) :: nat) \<and> (of_char (digit_char d) :: nat) \<le> 57 \<or>
      97 \<le> (of_char (digit_char d) :: nat) \<and> (of_char (digit_char d) :: nat) \<le> 102"
    unfolding b using assms by simp
  ultimately show ?thesis by fastforce
qed

text \<open>A plain character: printable, not a quote nor a backslash.\<close>

definition plain_char :: "char \<Rightarrow> bool" where
  "plain_char c \<longleftrightarrow> 32 \<le> byte_of c \<and> byte_of c < 127 \<and> c \<noteq> CHR 0x22 \<and> c \<noteq> CHR 0x5C"

text \<open>An escaped character is itself, or a backslash with plain characters or a quote or a
  backslash after it.\<close>

lemma esc_char_shape:
  assumes "ascii c"
  shows "esc_char c = [c] \<and> plain_char c \<or>
    (\<exists>x q. esc_char c = CHR 0x5C # x # q \<and> (plain_char x \<or> x = c \<and> (c = CHR 0x22 \<or> c = CHR 0x5C))
      \<and> (\<forall>y\<in>set q. plain_char y))"
  using assms
proof (cases rule: ascii_cases)
  case special
  then show ?thesis by (auto simp: esc_char_simps)
next
  case plain
  then show ?thesis by (simp add: esc_char_simps plain_char_def)
next
  case (letter l)
  have "plain_char l" using letter(1) by (auto simp: plain_char_def)
  then show ?thesis using letter(2) by auto
next
  case hex
  have "plain_char (CHR ''x'')" by (simp add: plain_char_def)
  moreover have "\<forall>y\<in>set (hex_digits 2 (of_char c)). plain_char y"
    using digit_char_plain by (simp add: hex_digits_2 plain_char_def)
  ultimately show ?thesis using hex(2) by simp
next
  case del
  have "plain_char (CHR ''u'')" "\<forall>y\<in>set ''007f''. plain_char y" by (simp_all add: plain_char_def)
  then show ?thesis using del(2) by simp
qed

lemma plain_char_not_nl: "plain_char c \<Longrightarrow> c \<noteq> CHR 0x0A"
  by (auto simp: plain_char_def)

lemma esc_no_newline: "ascii c \<Longrightarrow> CHR 0x0A \<notin> set (esc_char c)"
  using esc_char_shape[of c] plain_char_not_nl by fastforce

lemma esc_identity:
  "\<forall>c\<in>set s. ascii c \<Longrightarrow> CHR 0x5C \<notin> set (concat (map esc_char s)) \<Longrightarrow> concat (map esc_char s) = s"
proof (induction s)
  case (Cons c s)
  then have "esc_char c = [c]" using esc_char_shape[of c] by auto
  then show ?case using Cons by auto
qed simp

lemma go_unquote_quote:
  assumes "\<forall>c\<in>set s. ascii c"
  shows "go_unquote (go_quote tab s) = Some s"
proof -
  let ?b = "concat (map esc_char s)"
  have "CHR 0x0A \<notin> set ?b" using assms esc_no_newline by auto
  then show ?thesis
    using unquote_loop_esc[OF assms] esc_identity[OF assms]
    by (simp add: go_quote_def quote_body_ascii[OF assms] go_unquote_def butlast_append Let_def)
qed

section \<open>Scanning quoted values\<close>

lemma quoted_len_plain:
  "\<forall>c\<in>set q. plain_char c \<Longrightarrow> quoted_len (q @ r) = length q + quoted_len r"
proof (induction q)
  case (Cons c q)
  then have c: "plain_char c" by simp
  then have d: "go_decode (c # q @ r) = (byte_of c, 1)"
    by (intro go_decode_ascii) (simp add: plain_char_def)
  have "byte_of c \<noteq> 34" "byte_of c \<noteq> 92" using c of_char_quote[of c] by (auto simp: plain_char_def)
  then show ?case using Cons d by (subst append_Cons, subst quoted_len.simps) simp
qed simp

lemma quoted_len_backslash:
  "x \<noteq> CHR 0x22 \<Longrightarrow> quoted_len (CHR 0x5C # x # r) = 1 + quoted_len (x # r)"
  "quoted_len (CHR 0x5C # CHR 0x22 # r) = 2 + quoted_len r"
  by (subst quoted_len.simps, simp add: go_decode_ascii)+

lemma quoted_len_esc:
  assumes "ascii c" and "c = CHR 0x5C \<Longrightarrow> r \<noteq> [] \<and> hd r \<noteq> CHR 0x22"
  shows "quoted_len (esc_char c @ r) = length (esc_char c) + quoted_len r"
  using esc_char_shape[OF assms(1)]
proof
  assume "esc_char c = [c] \<and> plain_char c"
  then show ?thesis using quoted_len_plain[of "[c]" r] by simp
next
  assume "\<exists>x q. esc_char c = CHR 0x5C # x # q \<and> (plain_char x \<or> x = c \<and> (c = CHR 0x22 \<or> c = CHR 0x5C))
      \<and> (\<forall>y\<in>set q. plain_char y)"
  then obtain x q where e: "esc_char c = CHR 0x5C # x # q" "plain_char x \<or> x = c \<and> (c = CHR 0x22 \<or> c = CHR 0x5C)"
    "\<forall>y\<in>set q. plain_char y" by blast
  note q = quoted_len_plain[OF e(3), of r]
  show ?thesis
  proof (cases "plain_char x")
    case True
    then have "x \<noteq> CHR 0x22" by (simp add: plain_char_def)
    then show ?thesis
      using e q quoted_len_backslash(1)[of x "q @ r"] quoted_len_plain[of "x # q" r] True by simp
  next
    case False
    then have x: "x = c" "c = CHR 0x22 \<or> c = CHR 0x5C" using e(2) by auto
    show ?thesis
    proof (cases "c = CHR 0x22")
      case True
      then show ?thesis using e x q quoted_len_backslash(2)[of "q @ r"] by simp
    next
      case False
      then have c: "c = CHR 0x5C" using x by simp
      then have qn: "q = []" using e(1) by (simp add: esc_char_simps)
      obtain y r' where r: "r = y # r'" "y \<noteq> CHR 0x22" using assms(2)[OF c] by (cases r) auto
      show ?thesis
        unfolding c esc_char_simps(2) r(1)
        using quoted_len_backslash(1)[of "CHR 0x5C" "y # r'"] quoted_len_backslash(1)[of y r'] r(2) by simp
    qed
  qed
qed

lemma esc_hd: "ascii c \<Longrightarrow> hd (esc_char c) \<noteq> CHR 0x22"
  by (drule esc_char_shape) (elim disjE exE conjE; simp add: plain_char_def)

lemma quoted_len_body:
  assumes "\<forall>c\<in>set s. ascii c" and "s = [] \<or> last s \<noteq> CHR 0x5C"
  shows "quoted_len (concat (map esc_char s) @ CHR 0x22 # rest) = length (concat (map esc_char s)) + 1"
  using assms
proof (induction s)
  case Nil
  show ?case by (simp add: quoted_len.simps go_decode_ascii)
next
  case (Cons c s)
  have c: "ascii c" using Cons.prems by simp
  have "c = CHR 0x5C \<Longrightarrow> concat (map esc_char s) @ CHR 0x22 # rest \<noteq> [] \<and>
      hd (concat (map esc_char s) @ CHR 0x22 # rest) \<noteq> CHR 0x22"
  proof -
    assume "c = CHR 0x5C"
    then obtain y s' where s: "s = y # s'" using Cons.prems(2) by (cases s) auto
    then have "ascii y" using Cons.prems(1) by simp
    then show ?thesis using esc_hd[of y] esc_char_nonempty[of y] by (simp add: s hd_append)
  qed
  moreover have "s = [] \<or> last s \<noteq> CHR 0x5C" using Cons.prems(2) by auto
  ultimately show ?case
    using Cons quoted_len_esc[OF c, of "concat (map esc_char s) @ CHR 0x22 # rest"] by simp
qed

section \<open>Entries\<close>

lemma go_split2_app: "c \<notin> set k \<Longrightarrow> go_split2 c (k @ c # r) = [k, r]"
  by (induction k) auto

text \<open>What the text of an entry carries: names without a colon that do not start with a blank,
  ASCII values that do not end in a backslash.\<close>

definition text_key :: "string \<Rightarrow> bool" where
  "text_key k \<longleftrightarrow> CHR '':'' \<notin> set k \<and> (k = [] \<or> \<not> dir_blank (hd k))"

definition text_val :: "string \<Rightarrow> bool" where
  "text_val v \<longleftrightarrow> (\<forall>c\<in>set v. ascii c) \<and> (v = [] \<or> last v \<noteq> CHR 0x5C)"

lemma parse_dir_step:
  assumes k: "text_key k" and v: "text_val v" and sep: "sep = [] \<or> sep = '' ''"
  shows "parse_dir_loop d (sep @ k @ '':'' @ go_quote tab v @ rest) = parse_dir_loop (dset d k v) rest"
proof -
  let ?b = "concat (map esc_char v)"
  have va: "\<forall>c\<in>set v. ascii c" and vl: "v = [] \<or> last v \<noteq> CHR 0x5C" using v by (auto simp: text_val_def)
  have q: "go_quote tab v = CHR 0x22 # ?b @ [CHR 0x22]"
    by (simp add: go_quote_def quote_body_ascii[OF va])
  have nb: "\<not> dir_blank (CHR '':'')" "\<not> dir_blank (CHR 0x22)" "dir_blank (CHR '' '')" by (simp_all add: dir_blank_def)
  have hdk: "\<not> dir_blank (hd (k @ '':''))" using k nb(1) by (cases k) (simp_all add: text_key_def)
  have dw: "dropWhile dir_blank (k @ CHR '':'' # w) = k @ CHR '':'' # w" for w
    using hdk by (cases k) auto
  have s: "dropWhile dir_blank (sep @ k @ '':'' @ go_quote tab v @ rest) = k @ CHR '':'' # go_quote tab v @ rest"
    using sep nb dw by auto
  have sp: "go_split2 (CHR '':'') (k @ CHR '':'' # go_quote tab v @ rest) = [k, go_quote tab v @ rest]"
    using k by (intro go_split2_app) (simp add: text_key_def)
  have dq: "dropWhile dir_blank (go_quote tab v @ rest) = go_quote tab v @ rest"
    by (simp add: q nb)
  have i: "1 + quoted_len (tl (go_quote tab v @ rest)) = length (go_quote tab v)"
    using quoted_len_body[OF va vl, of rest] by (simp add: q)
  have ne: "k @ CHR '':'' # go_quote tab v @ rest \<noteq> []" "go_quote tab v @ rest \<noteq> []" "hd (go_quote tab v @ rest) = CHR 0x22"
    by (simp_all add: q)
  show ?thesis
    by (subst parse_dir_loop.simps)
      (simp only: Let_def s sp dq i if_not_P[OF ne(1)] if_not_P[OF ne(2)] if_P[OF ne(3)] list.case
        append_eq_conv_conj[THEN iffD1] take_append drop_append; simp add: go_unquote_quote[OF va])
qed

lemma parse_dir_fmt:
  assumes "\<forall>a\<in>set as. text_key a \<and> text_val (dget d a)" and "sep = [] \<or> sep = '' ''"
  shows "parse_dir_loop acc (fmt_loop tab d True sep as) = (fold (\<lambda>a acc. dset acc a (dget d a)) as acc, None)"
  using assms
proof (induction as arbitrary: sep acc)
  case Nil
  show ?case by (simp add: parse_dir_loop.simps)
next
  case (Cons a as)
  have "fmt_loop tab d True sep (a # as) = sep @ a @ '':'' @ go_quote tab (dget d a) @ fmt_loop tab d True '' '' as"
    by simp
  then have "parse_dir_loop acc (fmt_loop tab d True sep (a # as)) =
      parse_dir_loop (dset acc a (dget d a)) (fmt_loop tab d True '' '' as)"
    using parse_dir_step[of a "dget d a" sep acc tab] Cons.prems by simp
  then show ?case using Cons by simp
qed

lemma fold_dset: "map_of (fold (\<lambda>a acc. dset acc a (f a)) as acc) k = (if k \<in> set as then Some (f k) else map_of acc k)"
  by (induction as arbitrary: acc) auto

lemma set_zx_Attrs: "set (zx_Attrs d) = fst ` set d"
  by (auto simp: zx_Attrs_def zx_IsStd_def map_of_eq_None_iff)

lemma parse_dir_text:
  assumes "\<forall>(k, v)\<in>set d. text_key k \<and> text_val v"
  shows "zx_ParseDir (zx_String tab (Some d)) = (fold (\<lambda>a acc. dset acc a (dget d a)) (zx_Attrs d) [], None)"
proof -
  have "\<forall>a\<in>set (zx_Attrs d). text_key a \<and> text_val (dget d a)"
  proof
    fix a assume "a \<in> set (zx_Attrs d)"
    then obtain v where v: "map_of d a = Some v"
      unfolding set_zx_Attrs by (metis map_of_eq_None_iff not_None_eq)
    then show "text_key a \<and> text_val (dget d a)"
      using assms map_of_SomeD[OF v] by (auto simp: dget_def)
  qed
  from parse_dir_fmt[OF this disjI1[OF refl], of "[]" tab]
  show ?thesis by (simp add: zx_ParseDir_def zx_String_def zx_fmt_def)
qed

lemma map_of_attrs: "map_of (fold (\<lambda>a acc. dset acc a (dget d a)) (zx_Attrs d) []) = map_of d"
proof
  fix k
  have "k \<in> fst ` set d \<longleftrightarrow> map_of d k \<noteq> None" by (simp add: map_of_eq_None_iff)
  then show "map_of (fold (\<lambda>a acc. dset acc a (dget d a)) (zx_Attrs d) []) k = map_of d k"
    unfolding fold_dset set_zx_Attrs by (simp add: dget_def split: option.split)
qed

text \<open>
  C11: an entry printed by \<open>String\<close> is parsed back by \<open>ParseDir\<close> as an entry with the same
  attributes and values, and no error, if its names have no colon and do not start with a
  blank and its values are ASCII and do not end in a backslash; the values may hold quotes,
  blanks, newlines and control characters.
\<close>

theorem zx_ParseDir_String:
  assumes "\<forall>(k, v)\<in>set d. text_key k \<and> text_val v"
  shows "\<exists>d'. zx_ParseDir (zx_String tab (Some d)) = (d', None) \<and> map_of d' = map_of d"
  using parse_dir_text[OF assms] map_of_attrs by blast

theorem zx_ParseDir_String_witness:
  "\<exists>d'. zx_ParseDir (zx_String (\<lambda>r. True) (Some [(''name'', ''a b''), (''X'', [CHR 0x22, CHR 0x5C, CHR 0x0A])])) = (d', None) \<and>
     map_of d' = map_of [(''name'', ''a b''), (''X'', [CHR 0x22, CHR 0x5C, CHR 0x0A])]"
  by (rule zx_ParseDir_String) (simp add: text_key_def text_val_def ascii_def dir_blank_def)

text \<open>
  \<open>ParseDir\<close> does not parse what \<open>String\<close> prints when a value that is not the last ends in a
  backslash (the scan takes its closing quote for an escaped one), and it keeps the blank after an unquoted
  last value, which it removes after the others.
\<close>

theorem zx_ParseDir_misreads:
  "zx_ParseDir (zx_String (\<lambda>r. True) (Some [(''a'', [CHR 0x5C]), (''b'', ''x'')])) = ([], Some BadQuoted) \<and>
   zx_ParseDir ''a:b c:d '' = ([(''a'', ''b''), (''c'', ''d '')], None)"
  by code_simp

section \<open>Addresses\<close>

lemma go_format_int_set:
  assumes "c \<in> set (go_format_int n 10)"
  shows "c \<noteq> CHR '':'' \<and> c \<noteq> CHR '','' \<and> c \<noteq> CHR ''#''"
proof -
  have d: "48 \<le> (of_char c :: nat) \<and> (of_char c :: nat) \<le> 57" if "c \<in> set (go_digits 10 m)" for m
    using go_digits_set[OF _ _ that] by simp
  show ?thesis
    using assms d by (fastforce simp: go_format_int_def split: if_splits)
qed

lemma go_format_int_nonempty [simp]: "go_format_int n 10 \<noteq> []"
  by (simp add: go_format_int_def)

lemma go_split2_single: "c \<notin> set s \<Longrightarrow> go_split2 c s = [s]"
  by (induction s) auto

definition int64 :: "int \<Rightarrow> bool" where
  "int64 n \<longleftrightarrow> - (2 ^ 63) \<le> n \<and> n < 2 ^ 63"

lemma atoi_int64: "int64 n \<Longrightarrow> fst (go_atoi (go_format_int n 10)) = n"
  using go_atoi_format[of n] by (simp add: int64_def)

lemma zx_parseLns_print:
  assumes "int64 a" and "int64 b"
  shows "zx_parseLns (go_format_int a 10 @ '','' @ go_format_int b 10) = (a, b)"
    and "zx_parseLns (go_format_int a 10) = (a, a)"
proof -
  have c: "CHR '','' \<notin> set (go_format_int n 10)" for n using go_format_int_set by blast
  show "zx_parseLns (go_format_int a 10 @ '','' @ go_format_int b 10) = (a, b)"
    using c assms by (simp add: zx_parseLns_def go_split2_app atoi_int64)
  show "zx_parseLns (go_format_int a 10) = (a, a)"
    using c assms by (simp add: zx_parseLns_def go_split2_single atoi_int64)
qed

lemma zx_parseDot_print:
  assumes "int64 a" and "int64 b"
  shows "zx_parseDot (''#'' @ go_format_int a 10 @ '',#'' @ go_format_int b 10) = Ret (a, b)"
proof -
  have "CHR '','' \<notin> set (CHR ''#'' # go_format_int a 10)" using go_format_int_set by auto
  then have "go_split2 (CHR '','') ((CHR ''#'' # go_format_int a 10) @ CHR '','' # ''#'' @ go_format_int b 10) =
      [CHR ''#'' # go_format_int a 10, ''#'' @ go_format_int b 10]"
    by (rule go_split2_app)
  then show ?thesis using assms by (simp add: zx_parseDot_def atoi_int64)
qed

text \<open>
  An address with a name (not empty, with no colon) printed by \<open>String\<close> is parsed back
  by \<open>ParseAddr\<close> as the same address, whatever its 64-bit lines and points.
\<close>

theorem zx_ParseAddr_String:
  assumes "a_Name a \<noteq> []" and "CHR '':'' \<notin> set (a_Name a)"
    and "int64 (a_Ln0 a)" and "int64 (a_Ln1 a)" and "int64 (a_P0 a)" and "int64 (a_P1 a)"
  shows "zx_ParseAddr (zx_Addr_String a) = Ret a"
proof -
  let ?d = "\<lambda>n. go_format_int n 10"
  define ln where "ln = (if a_Ln0 a = a_Ln1 a then ?d (a_Ln0 a) else ?d (a_Ln0 a) @ '','' @ ?d (a_Ln1 a))"
  define dot where "dot = ''#'' @ ?d (a_P0 a) @ '',#'' @ ?d (a_P1 a)"
  have col: "CHR '':'' \<notin> set (?d n)" for n using go_format_int_set by blast
  have hash: "hd (?d n) \<noteq> CHR ''#''" for n using go_format_int_set[of "hd (?d n)" n] by auto
  have lnc: "CHR '':'' \<notin> set ln" "CHR '':'' \<notin> set dot" "ln \<noteq> []" "dot \<noteq> []" using col by (auto simp: ln_def dot_def)
  have lnh: "hd ln \<noteq> CHR ''#''" "hd dot = CHR ''#''" using hash by (auto simp: ln_def dot_def hd_append)
  have pl: "zx_parseLns ln = (a_Ln0 a, a_Ln1 a)" using zx_parseLns_print assms(3,4) by (auto simp: ln_def)
  have pd: "zx_parseDot dot = Ret (a_P0 a, a_P1 a)" unfolding dot_def by (rule zx_parseDot_print[OF assms(5,6)])
  have sp: "go_split (CHR '':'') (a_Name a @ CHR '':'' # r) = a_Name a # go_split (CHR '':'') r" for r
    using assms(2) by (rule go_split_app)
  consider "a_Ln0 a = 0" "a_Ln1 a = 0" | "a_Ln0 a \<noteq> 0 \<or> a_Ln1 a \<noteq> 0" "a_P0 a = 0" "a_P1 a = 0"
    | "a_Ln0 a \<noteq> 0 \<or> a_Ln1 a \<noteq> 0" "\<not> (a_P0 a = 0 \<and> a_P1 a = 0)" by blast
  then show ?thesis
  proof cases
    case 1
    then have "zx_Addr_String a = a_Name a @ CHR '':'' # dot"
      using assms(1) by (simp add: zx_Addr_String_def dot_def)
    then show ?thesis
      using sp lnc lnh pd 1 by (simp add: zx_ParseAddr_def go_split_plain zero_addr_def)
  next
    case 2
    then have "zx_Addr_String a = a_Name a @ CHR '':'' # ln"
      using assms(1) by (auto simp: zx_Addr_String_def ln_def)
    then show ?thesis
      using sp lnc lnh pl 2 by (simp add: zx_ParseAddr_def go_split_plain zero_addr_def)
  next
    case 3
    then have "zx_Addr_String a = a_Name a @ CHR '':'' # ln @ CHR '':'' # dot"
      using assms(1) by (auto simp: zx_Addr_String_def ln_def dot_def Let_def)
    then show ?thesis
      using sp lnc lnh pl pd 3 by (simp add: zx_ParseAddr_def go_split_plain go_split_app zero_addr_def)
  qed
qed

theorem zx_ParseAddr_String_witness:
  "zx_ParseAddr (zx_Addr_String \<lparr>a_Name = ''f.go'', a_Ln0 = 3, a_Ln1 = 5, a_P0 = 10, a_P1 = -2\<rparr>) =
     Ret \<lparr>a_Name = ''f.go'', a_Ln0 = 3, a_Ln1 = 5, a_P0 = 10, a_P1 = -2\<rparr>"
  by (rule zx_ParseAddr_String) (simp_all add: int64_def)

text \<open>
  an address with a comma and nothing after it makes \<open>ParseAddr\<close> panic.
\<close>

theorem zx_ParseAddr_panics:
  "zx_ParseAddr ''f:#1,'' = Panic \<and> zx_ParseAddr ''f:#1'' = Ret (zero_addr\<lparr>a_Name := ''f'', a_P0 := 1, a_P1 := 1\<rparr>)"
  by (simp add: zx_ParseAddr_def zx_parseDot_def go_atoi_def go_parse_int_def go_parse_uint_def digit_val_def
      zero_addr_def)

end
