(* ===== verification/Sre.thy ===== *)
theory Sre
  imports GoConv "HOL-Library.Word"
begin

text \<open>
  The compiler of structural regular expressions, \<open>src/sre/sre.go\<close>.  The expression is
  compiled with a stack of operators and a stack of parse nodes directly to the code of an
  NFA: a list of instructions, each with a \<open>left\<close> continuation and, for the branches, a
  \<open>right\<close> one; program counter 0 is never an instruction.  Operators and instructions share
  their codes, integers past the Unicode range, and the code of an operator is its precedence.

  The two stacks have their top first.  The index of an instruction is checked where the code
  indexes the program; a pointer that \<open>emit\<close> has just returned is always good.
\<close>

unbundle bit_operations_syntax

section \<open>Operators and instructions\<close>

definition tOPERATOR :: rune where "tOPERATOR = 0x1000000"
definition tSTART :: rune where "tSTART = 0x1000001"
definition tRPAREN :: rune where "tRPAREN = 0x1000002"
definition tLPAREN :: rune where "tLPAREN = 0x1000003"
definition tOR :: rune where "tOR = 0x1000004"
definition tCAT :: rune where "tCAT = 0x1000005"
definition tSTAR :: rune where "tSTAR = 0x1000006"
definition tPLUS :: rune where "tPLUS = 0x1000007"
definition tQUEST :: rune where "tQUEST = 0x1000008"
definition tANY :: rune where "tANY = 0x2000009"
definition tWORD :: rune where "tWORD = 0x200000A"
definition tBLANK :: rune where "tBLANK = 0x200000B"
definition tNOP :: rune where "tNOP = 0x200000C"
definition tBOL :: rune where "tBOL = 0x200000D"
definition tEOL :: rune where "tEOL = 0x200000E"
definition tCCLASS :: rune where "tCCLASS = 0x200000F"
definition tNCCLASS :: rune where "tNCCLASS = 0x2000010"
definition tEND :: rune where "tEND = 0x2000080"
definition tQUOTE :: rune where "tQUOTE = 0x4000000"

text \<open>The largest rune also flags a range in a character class.\<close>

definition cRange :: rune where "cRange = 0x10FFFF"

lemmas sre_codes = tOPERATOR_def tSTART_def tRPAREN_def tLPAREN_def tOR_def tCAT_def tSTAR_def
  tPLUS_def tQUEST_def tANY_def tWORD_def tBLANK_def tNOP_def tBOL_def tEOL_def tCCLASS_def
  tNCCLASS_def tEND_def

record inst =
  i_op :: rune
  i_class :: "rune list"
  i_subid :: nat
  i_left :: nat
  i_right :: nat

definition new_inst :: "rune \<Rightarrow> inst" where
  "new_inst op = \<lparr>i_op = op, i_class = [], i_subid = 0, i_left = 0, i_right = 0\<rparr>"

record reprog =
  pr_code :: "inst list"
  pr_opstk :: "(rune \<times> nat) list"
  pr_cursubid :: nat
  pr_ndstk :: "(nat \<times> nat) list"
  pr_nparen :: nat
  pr_expr :: "rune list"
  pr_lastwasand :: bool
  pr_entry :: nat
  pr_back :: bool

section \<open>Errors\<close>

text \<open>
  \<open>Compile\<close> recovers from the panics it raises itself, which become its error, and lets
  run-time errors through: a step ends well, in an error or in a crash.
\<close>

datatype 'a comp = COk 'a | CErr string | CCrash

fun cbind :: "'a comp \<Rightarrow> ('a \<Rightarrow> 'b comp) \<Rightarrow> 'b comp" where
  "cbind (COk x) f = f x"
| "cbind (CErr e) f = CErr e"
| "cbind CCrash f = CCrash"

lemma cbind_cong [fundef_cong]:
  "r = r' \<Longrightarrow> (\<And>x. r' = COk x \<Longrightarrow> f x = f' x) \<Longrightarrow> cbind r f = cbind r' f'"
  by (cases r') auto

lemma cbind_COk_iff [go_simps]: "cbind r f = COk y \<longleftrightarrow> (\<exists>x. r = COk x \<and> f x = COk y)"
  by (cases r) auto

lemma cbind_CCrash_iff [go_simps]:
  "cbind r f = CCrash \<longleftrightarrow> r = CCrash \<or> (\<exists>x. r = COk x \<and> f x = CCrash)"
  by (cases r) auto

section \<open>Stacks and code\<close>

definition emit :: "rune \<Rightarrow> reprog \<Rightarrow> nat \<times> reprog" where
  "emit op prg =
     (let code = (if pr_code prg = [] then [new_inst 0] else pr_code prg) in
      (length code, prg\<lparr>pr_code := code @ [new_inst op]\<rparr>))"

definition pushOp :: "rune \<Rightarrow> reprog \<Rightarrow> reprog" where
  "pushOp t prg = prg\<lparr>pr_opstk := (t, pr_cursubid prg) # pr_opstk prg\<rparr>"

definition popOp :: "reprog \<Rightarrow> (rune \<times> nat \<times> reprog) comp" where
  "popOp prg = (case pr_opstk prg of
       [] \<Rightarrow> CErr ''operator stack underflow''
     | t # rest \<Rightarrow> COk (fst t, snd t, prg\<lparr>pr_opstk := rest\<rparr>))"

definition pushNd :: "nat \<Rightarrow> nat \<Rightarrow> reprog \<Rightarrow> reprog" where
  "pushNd f l prg = prg\<lparr>pr_ndstk := (f, l) # pr_ndstk prg\<rparr>"

definition popNd :: "char \<Rightarrow> reprog \<Rightarrow> ((nat \<times> nat) \<times> reprog) comp" where
  "popNd op prg = (case pr_ndstk prg of
       [] \<Rightarrow> CErr (''missing operand for '' @ [CHR 0x27, op, CHR 0x27])
     | t # rest \<Rightarrow> COk (t, prg\<lparr>pr_ndstk := rest\<rparr>))"

text \<open>Assignments to the fields of an instruction: \<open>prg.code[pc].left = t\<close>, which checks the
  index, and those through the pointer \<open>emit\<close> returned.\<close>

definition set_left :: "nat \<Rightarrow> nat \<Rightarrow> reprog \<Rightarrow> reprog comp" where
  "set_left pc t prg =
     (if pc < length (pr_code prg)
      then COk (prg\<lparr>pr_code := (pr_code prg)[pc := (pr_code prg ! pc)\<lparr>i_left := t\<rparr>]\<rparr>)
      else CCrash)"

definition upd_inst :: "nat \<Rightarrow> (inst \<Rightarrow> inst) \<Rightarrow> reprog \<Rightarrow> reprog" where
  "upd_inst pc f prg = prg\<lparr>pr_code := (pr_code prg)[pc := f (pr_code prg ! pc)]\<rparr>"

section \<open>Evaluation of the operator stack\<close>

text \<open>One case of the switch of \<open>evalUntil\<close>: the operator has been popped.\<close>

definition eval_op :: "rune \<Rightarrow> nat \<Rightarrow> reprog \<Rightarrow> reprog comp" where
  "eval_op op subid prg =
     (if op = tLPAREN then
        cbind (popNd CHR ''('' prg) (\<lambda>(op1, prg).
          let (i2, prg) = emit tRPAREN prg;
              prg = upd_inst i2 (i_subid_update (\<lambda>_. subid)) prg in
          cbind (set_left (snd op1) i2 prg) (\<lambda>prg.
            let (i1, prg) = emit tLPAREN prg;
                prg = upd_inst i1 (\<lambda>x. x\<lparr>i_subid := subid, i_left := fst op1\<rparr>) prg in
            COk (pushNd i1 i2 prg)))
      else if op = tOR then
        cbind (popNd CHR ''|'' prg) (\<lambda>(op2, prg).
        cbind (popNd CHR ''|'' prg) (\<lambda>(op1, prg).
          let (i2, prg) = emit tNOP prg in
          cbind (set_left (snd op2) i2 prg) (\<lambda>prg.
          cbind (set_left (snd op1) i2 prg) (\<lambda>prg.
            let (i1, prg) = emit tOR prg;
                prg = upd_inst i1 (\<lambda>x. x\<lparr>i_right := fst op1, i_left := fst op2\<rparr>) prg in
            COk (pushNd i1 i2 prg)))))
      else if op = tCAT then
        cbind (popNd CHR ''.'' prg) (\<lambda>(op2, prg).
        cbind (popNd CHR ''.'' prg) (\<lambda>(op1, prg).
          if pr_back prg \<and> \<not> fst op2 < length (pr_code prg) then CCrash
          else
            let (op1, op2) = (if pr_back prg \<and> i_op (pr_code prg ! fst op2) \<noteq> tEND
                              then (op2, op1) else (op1, op2)) in
            cbind (set_left (snd op1) (fst op2) prg) (\<lambda>prg.
              COk (pushNd (fst op1) (snd op2) prg))))
      else if op = tSTAR then
        cbind (popNd CHR ''*'' prg) (\<lambda>(op2, prg).
          let (i1, prg) = emit tOR prg in
          cbind (set_left (snd op2) i1 prg) (\<lambda>prg.
            let prg = upd_inst i1 (i_right_update (\<lambda>_. fst op2)) prg in
            COk (pushNd i1 i1 prg)))
      else if op = tPLUS then
        cbind (popNd CHR ''+'' prg) (\<lambda>(op2, prg).
          let (i1, prg) = emit tOR prg in
          cbind (set_left (snd op2) i1 prg) (\<lambda>prg.
            let prg = upd_inst i1 (i_right_update (\<lambda>_. fst op2)) prg in
            COk (pushNd (fst op2) i1 prg)))
      else if op = tQUEST then
        cbind (popNd CHR ''?'' prg) (\<lambda>(op2, prg).
          let (i1, prg) = emit tOR prg;
              (i2, prg) = emit tNOP prg;
              prg = upd_inst i1 (\<lambda>x. x\<lparr>i_left := i2, i_right := fst op2\<rparr>) prg in
          cbind (set_left (snd op2) i2 prg) (\<lambda>prg.
            COk (pushNd i1 i2 prg)))
      else CErr (''unknown regexp op '' @ go_format_int op 10))"

text \<open>The operations on nodes and code leave the operator stack and the expression alone.\<close>

named_theorems sre_ops "what the operations of the compiler do to the fields of the program"

lemma emit_frame [simp]:
  "pr_opstk (snd (emit op prg)) = pr_opstk prg"
  "pr_expr (snd (emit op prg)) = pr_expr prg"
  "pr_cursubid (snd (emit op prg)) = pr_cursubid prg"
  by (simp_all add: emit_def Let_def)

lemma set_left_frame [sre_ops]:
  "set_left pc t prg = COk prg' \<Longrightarrow>
     pr_opstk prg' = pr_opstk prg \<and> pr_expr prg' = pr_expr prg \<and>
     pr_cursubid prg' = pr_cursubid prg"
  by (auto simp: set_left_def split: if_splits)

lemma popNd_frame [sre_ops]:
  "popNd c prg = COk (nd, prg') \<Longrightarrow>
     pr_opstk prg' = pr_opstk prg \<and> pr_expr prg' = pr_expr prg \<and>
     pr_cursubid prg' = pr_cursubid prg"
  by (auto simp: popNd_def split: list.splits)

lemma push_frame [simp]:
  "pr_opstk (pushNd f l prg) = pr_opstk prg"
  "pr_expr (pushNd f l prg) = pr_expr prg"
  "pr_opstk (upd_inst i g prg) = pr_opstk prg"
  "pr_expr (upd_inst i g prg) = pr_expr prg"
  "pr_expr (pushOp t prg) = pr_expr prg"
  "pr_cursubid (pushNd f l prg) = pr_cursubid prg"
  "pr_cursubid (upd_inst i g prg) = pr_cursubid prg"
  "pr_cursubid (pushOp t prg) = pr_cursubid prg"
  by (simp_all add: pushNd_def upd_inst_def pushOp_def)

lemma eval_op_frame:
  "eval_op op subid prg = COk prg' \<Longrightarrow>
     pr_opstk prg' = pr_opstk prg \<and> pr_expr prg' = pr_expr prg \<and>
     pr_cursubid prg' = pr_cursubid prg"
  unfolding eval_op_def Let_def
  by (auto simp: cbind_COk_iff case_prod_beta split: if_splits dest!: sre_ops)

lemma popOp_frame:
  "popOp prg = COk (op, subid, prg') \<Longrightarrow>
     pr_opstk prg = (op, subid) # pr_opstk prg' \<and> pr_expr prg' = pr_expr prg \<and>
     pr_cursubid prg' = pr_cursubid prg"
  by (auto simp: popOp_def split: list.splits)

text \<open>
  \<open>evalUntil\<close>: evaluate operators down to the given priority.  The loop indexes the top of
  the stack before it pops it, unless the priority is that of a closing parenthesis.
\<close>

function eval_loop :: "rune \<Rightarrow> reprog \<Rightarrow> reprog comp" where
  "eval_loop pri prg =
     (if pri \<noteq> tRPAREN \<and> pr_opstk prg = [] then CCrash
      else if pri = tRPAREN \<or> pri \<le> fst (hd (pr_opstk prg)) then
        cbind (popOp prg) (\<lambda>(op, subid, prg).
          cbind (eval_op op subid prg) (\<lambda>prg.
            if op = tLPAREN then COk prg else eval_loop pri prg))
      else COk prg)"
  by pat_completeness auto
termination
  by (relation "measure (\<lambda>(pri, prg). length (pr_opstk prg))")
    (auto dest!: popOp_frame eval_op_frame)

declare eval_loop.simps [simp del]

definition evalUntil :: "rune \<Rightarrow> reprog \<Rightarrow> reprog comp" where
  "evalUntil pri prg =
     (if pr_opstk prg = [] then CErr ''operator stack underflow'' else eval_loop pri prg)"

section \<open>Operators and operands\<close>

function operator :: "rune \<Rightarrow> reprog \<Rightarrow> reprog comp" where
  "operator op prg =
     cbind
       (if op = tRPAREN then
          (if pr_nparen prg = 0 then CErr (''unmatched '' @ [CHR 0x27, CHR '')'', CHR 0x27])
           else evalUntil op (prg\<lparr>pr_nparen := pr_nparen prg - 1\<rparr>))
        else if op = tLPAREN then
          (let prg = prg\<lparr>pr_nparen := pr_nparen prg + 1, pr_cursubid := pr_cursubid prg + 1\<rparr> in
           cbind (if pr_lastwasand prg then operator tCAT prg else COk prg) (\<lambda>prg.
             COk (pushOp op prg)))
        else
          cbind (evalUntil op prg) (\<lambda>prg. COk (pushOp op prg)))
       (\<lambda>prg. COk (prg\<lparr>pr_lastwasand :=
          (op = tSTAR \<or> op = tQUEST \<or> op = tPLUS \<or> op = tRPAREN)\<rparr>))"
  by pat_completeness auto
termination
  by (relation "measure (\<lambda>(op, prg). if op = tLPAREN then 1 else 0)") (auto simp: sre_codes)

declare operator.simps [simp del]

definition operand :: "rune \<Rightarrow> rune list \<Rightarrow> reprog \<Rightarrow> reprog comp" where
  "operand op val prg =
     cbind (if pr_lastwasand prg then operator tCAT prg else COk prg) (\<lambda>prg.
       let (i, prg) = emit op prg;
           prg = (if op = tCCLASS \<or> op = tNCCLASS then upd_inst i (i_class_update (\<lambda>_. val)) prg
                  else prg);
           prg = pushNd i i prg in
       COk (prg\<lparr>pr_lastwasand := True\<rparr>))"

text \<open>
  \<open>eatNops\<close> makes every instruction jump over the no-ops that follow it.  The loop over the
  no-ops need not end in a program made by hand: None is the loop that does not.
\<close>

partial_function (option) skip_nops :: "inst list \<Rightarrow> nat \<Rightarrow> nat comp option" where
  "skip_nops code t =
     (if \<not> t < length code then Some CCrash
      else if i_op (code ! t) = tNOP then skip_nops code (i_left (code ! t))
      else Some (COk t))"

declare skip_nops.simps [code]

fun eat_loop :: "nat list \<Rightarrow> inst list \<Rightarrow> inst list comp option" where
  "eat_loop [] code = Some (COk code)"
| "eat_loop (pc # pcs) code =
     (case skip_nops code (i_left (code ! pc)) of
        None \<Rightarrow> None
      | Some (COk t) \<Rightarrow> eat_loop pcs (code[pc := (code ! pc)\<lparr>i_left := t\<rparr>])
      | Some (CErr e) \<Rightarrow> Some (CErr e)
      | Some CCrash \<Rightarrow> Some CCrash)"

definition eatNops :: "reprog \<Rightarrow> reprog comp option" where
  "eatNops prg =
     map_option (\<lambda>r. cbind r (\<lambda>code. COk (prg\<lparr>pr_code := code\<rparr>)))
       (eat_loop [0..<length (pr_code prg)] (pr_code prg))"

section \<open>The lexer\<close>

definition sre_peek :: "rune list \<Rightarrow> rune" where
  "sre_peek e = (case e of [] \<Rightarrow> tEND | r # _ \<Rightarrow> r)"

definition sre_getc :: "rune list \<Rightarrow> rune \<times> rune list" where
  "sre_getc e = (case e of [] \<Rightarrow> (tEND, []) | r # e' \<Rightarrow> (r, e'))"

abbreviation rune_of :: "char \<Rightarrow> rune" where
  "rune_of c \<equiv> of_char c"

definition malformed :: string where
  "malformed = ''malformed []''"

text \<open>The next element of a character class.\<close>

definition scanEl :: "rune list \<Rightarrow> (rune \<times> rune list) comp" where
  "scanEl e =
     (let (c, e) = sre_getc e in
      if c = tEND then CErr (''malformed '' @ [CHR 0x27, CHR ''['', CHR '']'', CHR 0x27])
      else if c = rune_of CHR 0x5C then
        (let (c, e) = sre_getc e in
         if c = tEND then CErr (''malformed '' @ [CHR 0x27, CHR ''['', CHR '']'', CHR 0x27])
         else if c = rune_of CHR ''n'' then COk (10, e)
         else if c = rune_of CHR ''t'' then COk (9, e)
         else if c = rune_of CHR ''w'' then COk (tWORD, e)
         else if c = rune_of CHR ''s'' then COk (tBLANK, e)
         else COk (c OR tQUOTE, e))
      else COk (c, e))"

lemma scanEl_shorter: "scanEl e = COk (c, e') \<Longrightarrow> length e' < length e"
  by (auto simp: scanEl_def sre_getc_def Let_def split: list.splits if_splits)

function sre_class_loop :: "rune list \<Rightarrow> rune list \<Rightarrow> (rune list \<times> rune list) comp" where
  "sre_class_loop e cls =
     cbind (scanEl e) (\<lambda>(c1, e1).
       if c1 = rune_of CHR '']'' then COk (cls, e1)
       else if c1 = tEND \<or> c1 = rune_of CHR ''-'' then CErr malformed
       else if sre_peek e1 = rune_of CHR ''-'' then
         cbind (scanEl (snd (sre_getc e1))) (\<lambda>(c2, e2).
           if c2 = rune_of CHR '']'' \<or> c2 = tEND
           then CErr (''malformed range in '' @ [CHR 0x27, CHR ''['', CHR '']'', CHR 0x27])
           else sre_class_loop e2 (cls @ [cRange, c1, c2]))
       else sre_class_loop e1 (cls @ [c1 AND NOT tQUOTE]))"
  by pat_completeness auto
termination
proof (relation "measure (\<lambda>(e, cls). length e)", goal_cases)
  case (2 e cls x c1 e1 y c2 e2)
  have "length (snd (sre_getc e1)) \<le> length e1"
    by (auto simp: sre_getc_def split: list.splits)
  then show ?case
    using 2 scanEl_shorter[of e c1 e1] scanEl_shorter[of "snd (sre_getc e1)" c2 e2] by simp
next
  case (3 e cls x c1 e1)
  then show ?case using scanEl_shorter[of e c1 e1] by simp
qed simp

declare sre_class_loop.simps [simp del]

definition scanClass :: "rune list \<Rightarrow> (rune list \<times> bool \<times> rune list) comp" where
  "scanClass e =
     (if sre_peek e = tEND then CErr malformed
      else
        let neg = (sre_peek e = rune_of CHR 0x5E);
            cls = (if neg then [10] else []);
            e = (if neg then snd (sre_getc e) else e) in
        if sre_peek e = tEND then CErr malformed
        else cbind (sre_class_loop e cls) (\<lambda>(cls, e). COk (cls, neg, e)))"

text \<open>The next token, its class when it has one, and what is left of the expression.\<close>

definition sre_lex :: "rune list \<Rightarrow> (rune \<times> rune list \<times> rune list) comp" where
  "sre_lex e =
     (if e = [] then COk (tEND, [], [])
      else
        let (c, e) = sre_getc e in
        if c = rune_of CHR 0x5C then
          (let (n, e) = sre_getc e in
           COk (if n = rune_of CHR ''n'' then 10
                 else if n = rune_of CHR ''t'' then 9
                 else if n = rune_of CHR ''w'' then tWORD
                 else if n = rune_of CHR ''s'' then tBLANK
                 else n, [], e))
        else if c = rune_of CHR ''*'' then COk (tSTAR, [], e)
        else if c = rune_of CHR ''?'' then COk (tQUEST, [], e)
        else if c = rune_of CHR ''+'' then COk (tPLUS, [], e)
        else if c = rune_of CHR ''|'' then COk (tOR, [], e)
        else if c = rune_of CHR ''.'' then COk (tANY, [], e)
        else if c = rune_of CHR ''('' then COk (tLPAREN, [], e)
        else if c = rune_of CHR '')'' then COk (tRPAREN, [], e)
        else if c = rune_of CHR 0x5E then COk (tBOL, [], e)
        else if c = rune_of CHR ''$'' then COk (tEOL, [], e)
        else if c = rune_of CHR ''['' then
          cbind (scanClass e) (\<lambda>(cls, neg, e).
            COk (if neg then tNCCLASS else tCCLASS, cls, e))
        else COk (c, [], e))"

section \<open>Compile\<close>

lemma scanEl_le: "scanEl e = COk (c, e') \<Longrightarrow> length e' \<le> length e"
  using scanEl_shorter less_imp_le by blast

lemma sre_class_loop_shorter: "sre_class_loop e cls = COk (cls', e') \<Longrightarrow> length e' < length e"
proof (induction e cls rule: sre_class_loop.induct)
  case (1 e cls)
  obtain c1 e1 where el: "scanEl e = COk (c1, e1)"
    using 1(3) by (subst (asm) sre_class_loop.simps) (auto simp: cbind_COk_iff)
  have l1: "length e1 < length e" using scanEl_shorter[OF el] .
  have le: "length (snd (sre_getc e1)) \<le> length e1"
    by (auto simp: sre_getc_def split: list.splits)
  show ?case
  proof (cases "c1 = rune_of CHR '']'' \<or> c1 = tEND \<or> c1 = rune_of CHR ''-''")
    case True
    then show ?thesis using 1(3) el l1
      by (subst (asm) sre_class_loop.simps) (auto split: if_splits)
  next
    case F: False
    show ?thesis
    proof (cases "sre_peek e1 = rune_of CHR ''-''")
      case True
      then obtain c2 e2 where e2: "scanEl (snd (sre_getc e1)) = COk (c2, e2)"
          "c2 \<noteq> rune_of CHR '']''" "c2 \<noteq> tEND" "sre_class_loop e2 (cls @ [cRange, c1, c2]) = COk (cls', e')"
        using 1(3) el F
        by (subst (asm) sre_class_loop.simps) (auto simp: cbind_COk_iff split: if_splits)
      have "length e' < length e2"
        using 1(1)[OF el refl _ _ True e2(1) refl] F e2 by auto
      then show ?thesis using scanEl_shorter[OF e2(1)] le l1 by linarith
    next
      case False
      then have "sre_class_loop e1 (cls @ [c1 AND NOT tQUOTE]) = COk (cls', e')"
        using 1(3) el F by (subst (asm) sre_class_loop.simps) auto
      then have "length e' < length e1"
        using 1(2)[OF el refl _ _ False] F by auto
      then show ?thesis using l1 by linarith
    qed
  qed
qed

lemma sre_lex_shorter:
  assumes "sre_lex e = COk (tok, val, e')" and "e \<noteq> []"
  shows "length e' < length e"
proof -
  obtain c e1 where e: "e = c # e1" using assms(2) by (cases e) auto
  have gs: "length (snd (sre_getc x)) \<le> length x" for x
    by (auto simp: sre_getc_def split: list.splits)
  have sc: "length e'' < length e1" if "scanClass e1 = COk (cls, neg, e'')" for cls neg e''
  proof -
    have "\<exists>x cls0. length x \<le> length e1 \<and> sre_class_loop x cls0 = COk (cls, e'')"
      using that gs[of e1] unfolding scanClass_def Let_def
      by (auto simp: cbind_COk_iff split: if_splits)
    then show ?thesis using sre_class_loop_shorter by force
  qed
  show ?thesis
    using assms(1) gs[of e1] sc unfolding sre_lex_def e Let_def
    by (auto simp: sre_getc_def[of "c # e1"] cbind_COk_iff less_Suc_eq_le
        split: if_splits prod.splits) force+
qed

lemma evalUntil_frame:
  "evalUntil pri prg = COk prg' \<Longrightarrow> pr_expr prg' = pr_expr prg \<and> pr_cursubid prg' = pr_cursubid prg"
proof -
  have "eval_loop pri prg = COk prg' \<Longrightarrow>
      pr_expr prg' = pr_expr prg \<and> pr_cursubid prg' = pr_cursubid prg" for prg
  proof (induction pri prg rule: eval_loop.induct)
    case (1 pri prg)
    show ?case
    proof (cases "pri \<noteq> tRPAREN \<and> pr_opstk prg = [] \<or>
        \<not> (pri = tRPAREN \<or> pri \<le> fst (hd (pr_opstk prg)))")
      case True
      then show ?thesis using 1(2) by (subst (asm) eval_loop.simps) (auto split: if_splits)
    next
      case False
      then obtain op subid prg1 prg2 where s: "popOp prg = COk (op, subid, prg1)"
          "eval_op op subid prg1 = COk prg2"
          "if op = tLPAREN then prg' = prg2 else eval_loop pri prg2 = COk prg'"
        using 1(2) by (subst (asm) eval_loop.simps) (auto simp: cbind_COk_iff split: if_splits)
      have "pr_expr prg1 = pr_expr prg \<and> pr_cursubid prg1 = pr_cursubid prg"
        using popOp_frame[OF s(1)] by simp
      moreover have "pr_expr prg2 = pr_expr prg1 \<and> pr_cursubid prg2 = pr_cursubid prg1"
        using eval_op_frame[OF s(2)] by simp
      ultimately show ?thesis
        using 1(1)[OF _ _ s(1) refl refl s(2)] s(3) False by (auto split: if_splits)
    qed
  qed
  then show "evalUntil pri prg = COk prg' \<Longrightarrow>
      pr_expr prg' = pr_expr prg \<and> pr_cursubid prg' = pr_cursubid prg"
    by (auto simp: evalUntil_def split: if_splits)
qed

lemma operator_frame: "operator op prg = COk prg' \<Longrightarrow> pr_expr prg' = pr_expr prg"
proof (induction op prg arbitrary: prg' rule: operator.induct)
  case (1 op prg)
  then show ?case
    by (subst (asm) (2) operator.simps)
      (auto simp: cbind_COk_iff Let_def split: if_splits dest!: evalUntil_frame)
qed

lemma operand_frame: "operand op val prg = COk prg' \<Longrightarrow> pr_expr prg' = pr_expr prg"
  by (auto simp: operand_def cbind_COk_iff Let_def case_prod_beta split: if_splits
      dest!: operator_frame)

function compile_loop :: "reprog \<Rightarrow> reprog comp" where
  "compile_loop prg =
     cbind (sre_lex (pr_expr prg)) (\<lambda>(tok, val, e).
       if tok = tEND then COk (prg\<lparr>pr_expr := e\<rparr>)
       else cbind (if tok AND tOPERATOR \<noteq> 0 then operator tok (prg\<lparr>pr_expr := e\<rparr>)
                   else operand tok val (prg\<lparr>pr_expr := e\<rparr>))
              compile_loop)"
  by pat_completeness auto
termination
proof (relation "measure (\<lambda>prg. length (pr_expr prg))", goal_cases)
  case (2 prg x tok y val e prg1)
  then have ne: "pr_expr prg \<noteq> []" by (auto simp: sre_lex_def)
  have "pr_expr prg1 = e"
    using 2 by (auto dest!: operator_frame operand_frame split: if_splits)
  then show ?case
    using 2 sre_lex_shorter[OF _ ne] by auto
qed simp

declare compile_loop.simps [simp del]

datatype dir = Fwd | Bck

definition new_prog :: "rune list \<Rightarrow> dir \<Rightarrow> reprog" where
  "new_prog re dir = \<lparr>pr_code = [], pr_opstk = [], pr_cursubid = 0, pr_ndstk = [], pr_nparen = 0,
     pr_expr = re, pr_lastwasand = False, pr_entry = 0, pr_back = (dir = Bck)\<rparr>"

text \<open>The code that is run on the tokens, before the no-ops are eaten.\<close>

definition compile_body :: "reprog \<Rightarrow> reprog comp" where
  "compile_body prg =
     cbind (compile_loop (pushOp (tSTART - 1) prg)) (\<lambda>prg.
     cbind (evalUntil tSTART prg) (\<lambda>prg.
     cbind (operand tEND [] prg) (\<lambda>prg.
     cbind (evalUntil tSTART prg) (\<lambda>prg.
       if pr_nparen prg \<noteq> 0 then CErr (''unmatched '' @ [CHR 0x27, CHR ''('', CHR 0x27])
       else case pr_ndstk prg of
              [] \<Rightarrow> CCrash
            | nd # _ \<Rightarrow> COk (prg\<lparr>pr_entry := fst nd\<rparr>)))))"

definition sre_Compile :: "rune list \<Rightarrow> dir \<Rightarrow> reprog comp option" where
  "sre_Compile re dir =
     (case compile_body (new_prog re dir) of
        COk prg \<Rightarrow> eatNops prg
      | CErr e \<Rightarrow> Some (CErr e)
      | CCrash \<Rightarrow> Some CCrash)"

definition sre_CompileStr :: "string \<Rightarrow> dir \<Rightarrow> reprog comp option" where
  "sre_CompileStr re dir = sre_Compile (go_runes re) dir"

end
