(* ===== verification/SreInv.thy ===== *)
theory SreInv
  imports Sre "HOL-Library.Multiset"
begin

text \<open>
  Invariants of the regexp compiler.  The left continuations of the code form a forest: from
  every instruction, following \<open>left\<close> ends at an instruction that has none yet, the last one
  of its parse node.  The compiler only links the last instruction of a node to an
  instruction of another node, or to a new one, so the forest stays one; the loops that follow
  left continuations (the no-op eater, the execution of a state) end because of it.
\<close>

section \<open>Left chains\<close>

lemma nth_upd: "xs[i := x] ! j = (if i = j \<and> i < length xs then x else xs ! j)"
  by (cases "i < length xs") (auto simp: nth_list_update list_update_beyond)

inductive ends :: "inst list \<Rightarrow> nat \<Rightarrow> nat \<Rightarrow> bool" for code where
  ends_stop: "0 < p \<Longrightarrow> p < length code \<Longrightarrow> i_left (code ! p) = 0 \<Longrightarrow> ends code p p"
| ends_next: "0 < p \<Longrightarrow> p < length code \<Longrightarrow> i_left (code ! p) \<noteq> 0 \<Longrightarrow>
    ends code (i_left (code ! p)) e \<Longrightarrow> ends code p e"

lemma ends_bounds: "ends code p e \<Longrightarrow> 0 < p \<and> p < length code"
  by (auto elim: ends.cases)

lemma ends_last: "ends code p e \<Longrightarrow> ends code e e \<and> i_left (code ! e) = 0"
  by (induction rule: ends.induct) (auto intro: ends_stop)

lemma ends_unique: "ends code p e \<Longrightarrow> ends code p e' \<Longrightarrow> e' = e"
proof (induction rule: ends.induct)
  case (ends_stop p)
  then show ?case by (auto elim: ends.cases)
next
  case (ends_next p e)
  from ends_next(6) show ?case by (rule ends.cases) (use ends_next in auto)
qed

lemma ends_self: "ends code p e \<Longrightarrow> i_left (code ! p) = 0 \<Longrightarrow> e = p"
  by (auto elim: ends.cases)

text \<open>What later code may change of earlier code: links that are not made yet.\<close>

definition ext :: "inst list \<Rightarrow> inst list \<Rightarrow> bool" where
  "ext code code' \<longleftrightarrow> length code \<le> length code' \<and>
     (\<forall>p < length code.
        i_op (code' ! p) = i_op (code ! p) \<and>
        i_class (code' ! p) = i_class (code ! p) \<and>
        (i_left (code ! p) \<noteq> 0 \<longrightarrow> i_left (code' ! p) = i_left (code ! p)) \<and>
        (i_right (code ! p) \<noteq> 0 \<longrightarrow> i_right (code' ! p) = i_right (code ! p)))"

lemma ext_refl [simp]: "ext code code"
  by (simp add: ext_def)

lemma ext_trans [trans]: "ext a b \<Longrightarrow> ext b c \<Longrightarrow> ext a c"
  proof -
  assume ab: "ext a b" and bc: "ext b c"
  then have l: "length a \<le> length b" "length b \<le> length c" by (auto simp: ext_def)
  then have "p < length b" if "p < length a" for p using that by simp
  then show ?thesis using ab bc l unfolding ext_def by (smt (verit) order_trans)
qed

text \<open>A chain in extended code, when the last instruction of the chain got a link or none.\<close>

lemma ends_ext:
  assumes "ends code p e" and "ext code code'"
    and "i_left (code' ! e) = 0 \<and> x = e \<or> i_left (code' ! e) \<noteq> 0 \<and> ends code' (i_left (code' ! e)) x"
  shows "ends code' p x"
  using assms
proof (induction rule: ends.induct)
  case (ends_stop p)
  then have "p < length code'" by (auto simp: ext_def)
  then show ?case using ends_stop by (auto intro: ends.intros)
next
  case (ends_next p e)
  then have "p < length code'" "i_left (code' ! p) = i_left (code ! p)" by (auto simp: ext_def)
  then show ?case using ends_next by (auto intro: ends.ends_next)
qed

section \<open>The invariant of the code and the parse nodes\<close>

text \<open>\<open>nds\<close> are the nodes on the stack, and those popped from it that are still in use.\<close>

definition cinv :: "inst list \<Rightarrow> (nat \<times> nat) list \<Rightarrow> bool" where
  "cinv code nds \<longleftrightarrow>
     (code \<noteq> [] \<longrightarrow> code ! 0 = new_inst 0) \<and>
     distinct (map snd nds) \<and>
     (\<forall>(f, l) \<in> set nds. ends code f l) \<and>
     (\<forall>p. 0 < p \<and> p < length code \<longrightarrow> (\<exists>e. ends code p e)) \<and>
     (\<forall>p. 0 < p \<and> p < length code \<and> i_right (code ! p) \<noteq> 0 \<longrightarrow>
        (\<forall>e. ends code p e \<longrightarrow> ends code (i_right (code ! p)) e))"

lemma cinv_Nil [simp]: "cinv [] []"
  by (simp add: cinv_def)

lemma cinv_nodes: "cinv code nds \<Longrightarrow> (f, l) \<in> set nds \<Longrightarrow> ends code f l"
  by (auto simp: cinv_def)

lemma cinv_ends: "cinv code nds \<Longrightarrow> 0 < p \<Longrightarrow> p < length code \<Longrightarrow> \<exists>e. ends code p e"
  unfolding cinv_def by simp

lemma cinv_right:
  "cinv code nds \<Longrightarrow> ends code p e \<Longrightarrow> i_right (code ! p) \<noteq> 0 \<Longrightarrow>
     ends code (i_right (code ! p)) e"
  using ends_bounds[of code p e] unfolding cinv_def by simp

lemma cinv_perm: "cinv code nds \<Longrightarrow> mset nds' = mset nds \<Longrightarrow> cinv code nds'"
  unfolding cinv_def by (metis mset_eq_imp_distinct_iff mset_map set_mset_mset)

lemma cinv_first: "cinv code ((f, l) # nds) \<Longrightarrow> ends code f' l \<Longrightarrow> cinv code ((f', l) # nds)"
  by (auto simp: cinv_def)

lemma cinv_drop: "cinv code (nd # nds) \<Longrightarrow> cinv code nds"
  by (auto simp: cinv_def)

text \<open>Emitting an instruction makes a node of its own.\<close>

definition grow :: "rune \<Rightarrow> inst list \<Rightarrow> inst list" where
  "grow op code = (if code = [] then [new_inst 0] else code) @ [new_inst op]"

lemma emit_grow:
  "emit op prg = (length (pr_code prg) + (if pr_code prg = [] then 1 else 0),
                  prg\<lparr>pr_code := grow op (pr_code prg)\<rparr>)"
  by (simp add: emit_def grow_def Let_def)

lemma ext_grow: "cinv code nds \<Longrightarrow> ext code (grow op code)"
  by (auto simp: ext_def grow_def nth_append)

lemma ends_grow: "ends code p e \<Longrightarrow> cinv code nds \<Longrightarrow> ends (grow op code) p e"
proof -
  assume e: "ends code p e" and c: "cinv code nds"
  then have "i_left (grow op code ! e) = 0"
    using ends_last[OF e] ends_bounds[of code e e] by (auto simp: grow_def nth_append)
  then show ?thesis using ends_ext[OF e ext_grow[OF c]] by blast
qed

lemma cinv_grow:
  assumes c: "cinv code nds" and i: "i = length code + (if code = [] then 1 else 0)"
  shows "cinv (grow op code) ((i, i) # nds)"
proof -
  have len: "length (grow op code) = i + 1" and i0: "0 < i" using i by (auto simp: grow_def)
  have gi: "grow op code ! i = new_inst op" using i by (auto simp: grow_def nth_append)
  have old: "grow op code ! p = code ! p" if "p < length code" for p
    using that by (auto simp: grow_def nth_append)
  have zero: "p = 0" if "\<not> p < length code" "p < i" for p using that i by (auto split: if_splits)
  have ii: "ends (grow op code) i i"
    using i0 by (intro ends_stop) (auto simp: len gi new_inst_def)
  have lasts: "l < length code" if "(f, l) \<in> set nds" for f l
    using cinv_nodes[OF c that] ends_last ends_bounds by blast
  have "distinct (map snd ((i, i) # nds))"
    using c lasts i by (fastforce simp: cinv_def)
  moreover have "\<forall>(f, l) \<in> set ((i, i) # nds). ends (grow op code) f l"
    using ii cinv_nodes[OF c] ends_grow[OF _ c] by auto
  moreover have "\<exists>e. ends (grow op code) p e" if "0 < p" "p < length (grow op code)" for p
  proof (cases "p = i")
    case True then show ?thesis using ii by auto
  next
    case False
    then have "p < length code" using that zero len by fastforce
    then show ?thesis using cinv_ends[OF c that(1)] ends_grow[OF _ c] by blast
  qed
  moreover have "ends (grow op code) (i_right (grow op code ! p)) e"
    if t: "0 < p" "p < length (grow op code)" "i_right (grow op code ! p) \<noteq> 0"
      "ends (grow op code) p e" for p e
  proof -
    have "p \<noteq> i" using that(3) gi by (auto simp: new_inst_def)
    then have p: "p < length code" using that zero len by fastforce
    obtain e' where e': "ends code p e'" using cinv_ends[OF c t(1) p] by blast
    then have "e' = e" using ends_grow[OF e' c] ends_unique[OF that(4)] by blast
    have r: "i_right (grow op code ! p) = i_right (code ! p)" using old[OF p] by simp
    then have "ends code (i_right (code ! p)) e'"
      using cinv_right[OF c e'] that(3) by simp
    then show ?thesis using ends_grow[OF _ c] r \<open>e' = e\<close> by simp
  qed
  moreover have "grow op code ! 0 = new_inst 0"
    using c by (auto simp: cinv_def grow_def nth_append)
  ultimately show ?thesis unfolding cinv_def by blast
qed

text \<open>Linking the last instruction of a node to the first one of another joins the two.\<close>

abbreviation link :: "nat \<Rightarrow> nat \<Rightarrow> inst list \<Rightarrow> inst list" where
  "link l t code \<equiv> code[l := (code ! l)\<lparr>i_left := t\<rparr>]"

lemma ext_link: "i_left (code ! l) = 0 \<Longrightarrow> ext code (link l t code)"
  by (auto simp: ext_def nth_upd)

lemma cinv_link:
  assumes c: "cinv code ((f1, l1) # (f2, l2) # nds)"
  shows "cinv (link l1 f2 code) ((f1, l2) # nds) \<and> ext code (link l1 f2 code)"
proof -
  let ?c = "link l1 f2 code"
  have e1: "ends code f1 l1" and e2: "ends code f2 l2" using c by (auto simp: cinv_def)
  have d: "l1 \<noteq> l2" "l1 \<notin> snd ` set nds" "l2 \<notin> snd ` set nds" using c by (auto simp: cinv_def)
  have z: "i_left (code ! l1) = 0" "l1 < length code" "0 < l1"
    using ends_last[OF e1] ends_bounds by blast+
  have x: "ext code ?c" using ext_link[OF z(1)] .
  have other: "ends ?c p e" if "ends code p e" "e \<noteq> l1" for p e
    using ends_ext[OF that(1) x] ends_last[OF that(1)] that(2) by (auto simp: nth_upd)
  have e2': "ends ?c f2 l2" using other[OF e2] d(1) by blast
  have f20: "f2 \<noteq> 0" using ends_bounds[OF e2] by simp
  have joined: "ends ?c p l2" if "ends code p l1" for p
    using ends_ext[OF that x] e2' z f20 by (auto simp: nth_upd)
  have new: "\<exists>e'. ends code p e' \<and> (if e' = l1 then e = l2 else e = e')"
    if t: "ends ?c p e" "0 < p" "p < length code" for p e
  proof -
    obtain e' where e': "ends code p e'" using cinv_ends[OF c t(2,3)] by blast
    show ?thesis
    proof (cases "e' = l1")
      case True
      then have "ends ?c p l2" using e' joined by simp
      then have "e = l2" using ends_unique[OF t(1)] by simp
      then show ?thesis using e' True by auto
    next
      case False
      then have "ends ?c p e'" using e' other by simp
      then have "e = e'" using ends_unique[OF t(1)] by simp
      then show ?thesis using e' False by auto
    qed
  qed
  have ex: "ends ?c q e" if "ends code p e'" "ends code q e'" "if e' = l1 then e = l2 else e = e'" for p q e e'
    using that joined other by (cases "e' = l1") auto
  have "distinct (map snd ((f1, l2) # nds))" using c d by (auto simp: cinv_def)
  moreover have "\<forall>(f, l) \<in> set ((f1, l2) # nds). ends ?c f l"
  proof -
    have "ends ?c f l" if "(f, l) \<in> set nds" for f l
      using cinv_nodes[OF c, of f l] that d(2) other[of f l] by force
    then show ?thesis using joined[OF e1] by auto
  qed
  moreover have "\<exists>e. ends ?c p e" if t: "0 < p" "p < length ?c" for p
  proof -
    obtain e where "ends code p e" using cinv_ends[OF c t(1)] t(2) by auto
    then show ?thesis using joined other by (cases "e = l1") blast+
  qed
  moreover have "ends ?c (i_right (?c ! p)) e"
    if p: "0 < p" "p < length ?c" "i_right (?c ! p) \<noteq> 0" "ends ?c p e" for p e
  proof -
    have r: "i_right (?c ! p) = i_right (code ! p)" by (auto simp: nth_upd)
    obtain e' where e': "ends code p e'" "if e' = l1 then e = l2 else e = e'"
      using new[OF p(4,1)] p(2) by auto
    have "ends code (i_right (code ! p)) e'"
      using cinv_right[OF c e'(1)] p(3) r by simp
    then show ?thesis using ex[OF e'(1) _ e'(2)] r by simp
  qed
  moreover have "?c \<noteq> [] \<longrightarrow> ?c ! 0 = new_inst 0" using c z by (auto simp: cinv_def)
  ultimately show ?thesis using x unfolding cinv_def by blast
qed

text \<open>A change of the other fields of an instruction that has no right continuation yet.\<close>

lemma ends_same_left:
  assumes "\<And>p. p < length code \<Longrightarrow> i_left (code' ! p) = i_left (code ! p)" "length code' = length code"
  shows "ends code p e \<Longrightarrow> ends code' p e"
  by (induction rule: ends.induct) (auto intro: ends.intros simp: assms)

lemma cinv_upd:
  assumes c: "cinv code nds" and i: "0 < i" "i < length code" and f: "i_left (g (code ! i)) = i_left (code ! i)"
    and r: "i_right (g (code ! i)) = i_right (code ! i) \<or>
            (\<exists>e. ends code i e \<and> ends code (i_right (g (code ! i))) e)"
  shows "cinv (code[i := g (code ! i)]) nds"
proof -
  let ?c = "code[i := g (code ! i)]"
  have to: "ends code p e \<Longrightarrow> ends ?c p e" for p e
    by (rule ends_same_left) (auto simp: nth_upd f)
  have from': "ends ?c p e \<Longrightarrow> ends code p e" for p e
    by (rule ends_same_left) (auto simp: nth_upd f)
  have right: "ends ?c (i_right (?c ! p)) e"
    if p: "0 < p" "p < length ?c" "i_right (?c ! p) \<noteq> 0" "ends ?c p e" for p e
  proof (cases "p = i \<and> i_right (g (code ! i)) \<noteq> i_right (code ! i)")
    case True
    then obtain e' where e': "ends code i e'" "ends code (i_right (g (code ! i))) e'" using r by auto
    then have "e' = e" using from'[OF p(4)] True ends_unique by blast
    then show ?thesis using to[OF e'(2)] True i by simp
  next
    case False
    then have "i_right (?c ! p) = i_right (code ! p)" by (auto simp: nth_upd)
    then show ?thesis using to[OF cinv_right[OF c from'[OF p(4)]]] p(3) by simp
  qed
  have "\<exists>e. ends ?c p e" if "0 < p" "p < length ?c" for p
    using cinv_ends[OF c that(1)] that(2) to by auto
  moreover have "\<forall>(f, l) \<in> set nds. ends ?c f l" using cinv_nodes[OF c] to by auto
  ultimately show ?thesis using c i right unfolding cinv_def by auto
qed

end
