(* ===== verification/SreAst.thy ===== *)
theory SreAst
  imports SreInv
begin

text \<open>
  What the compiler means: a parser that keeps the operator stack of the code and builds
  syntax trees where the code builds nodes.  A tree describes a fragment of the program, and
  every step of the compiler refines the step of the parser, errors included.
\<close>

section \<open>Syntax trees\<close>

datatype sre = SAtom rune "rune list" | SGroup sre | SAlt sre sre | SCat sre sre
  | SStar sre | SPlus sre | SOpt sre

definition missing :: "char \<Rightarrow> string" where
  "missing c = ''missing operand for '' @ [CHR 0x27, c, CHR 0x27]"

definition unary :: "char \<Rightarrow> (sre \<Rightarrow> sre) \<Rightarrow> sre list \<Rightarrow> sre list comp" where
  "unary c f rs = (case rs of [] \<Rightarrow> CErr (missing c) | r # rs \<Rightarrow> COk (f r # rs))"

definition binary :: "char \<Rightarrow> (sre \<Rightarrow> sre \<Rightarrow> sre) \<Rightarrow> sre list \<Rightarrow> sre list comp" where
  "binary c f rs = (case rs of r2 # r1 # rs \<Rightarrow> COk (f r1 r2 # rs) | _ \<Rightarrow> CErr (missing c))"

text \<open>Sequences are reversed in a program that searches backward, but for the end mark.\<close>

fun first_op :: "sre \<Rightarrow> rune" where
  "first_op (SAtom x cls) = x"
| "first_op (SGroup r) = tLPAREN"
| "first_op (SAlt r1 r2) = tOR"
| "first_op (SCat r1 r2) = first_op r1"
| "first_op (SStar r) = tOR"
| "first_op (SPlus r) = first_op r"
| "first_op (SOpt r) = tOR"

definition ast_cat :: "bool \<Rightarrow> sre \<Rightarrow> sre \<Rightarrow> sre" where
  "ast_cat back r1 r2 = (if back \<and> first_op r2 \<noteq> tEND then SCat r2 r1 else SCat r1 r2)"

definition ast_op :: "bool \<Rightarrow> rune \<Rightarrow> sre list \<Rightarrow> sre list comp" where
  "ast_op back op rs =
     (if op = tLPAREN then unary CHR ''('' SGroup rs
      else if op = tOR then binary CHR ''|'' SAlt rs
      else if op = tCAT then binary CHR ''.'' (ast_cat back) rs
      else if op = tSTAR then unary CHR ''*'' SStar rs
      else if op = tPLUS then unary CHR ''+'' SPlus rs
      else if op = tQUEST then unary CHR ''?'' SOpt rs
      else CErr (''unknown regexp op '' @ go_format_int op 10))"

section \<open>Fragments of code\<close>

definition is_inst :: "inst list \<Rightarrow> nat \<Rightarrow> rune \<Rightarrow> bool" where
  "is_inst code pc op \<longleftrightarrow> 0 < pc \<and> pc < length code \<and> i_op (code ! pc) = op"

definition atom_op :: "rune \<Rightarrow> bool" where
  "atom_op op \<longleftrightarrow> op \<notin> {tLPAREN, tRPAREN, tOR, tNOP}"

text \<open>\<open>frag code r f l\<close>: the code from \<open>f\<close> to \<open>l\<close> is that of \<open>r\<close>; control leaves it from
  \<open>l\<close>, to its left.\<close>

fun frag :: "inst list \<Rightarrow> sre \<Rightarrow> nat \<Rightarrow> nat \<Rightarrow> bool" where
  "frag code (SAtom x cls) f l \<longleftrightarrow>
     f = l \<and> is_inst code f x \<and> atom_op x \<and> i_class (code ! f) = cls"
| "frag code (SGroup r) f l \<longleftrightarrow>
     is_inst code f tLPAREN \<and> is_inst code l tRPAREN \<and>
     (\<exists>f' l'. frag code r f' l' \<and> i_left (code ! f) = f' \<and> i_left (code ! l') = l)"
| "frag code (SAlt r1 r2) f l \<longleftrightarrow>
     is_inst code f tOR \<and> is_inst code l tNOP \<and>
     (\<exists>f1 l1 f2 l2. frag code r1 f1 l1 \<and> frag code r2 f2 l2 \<and>
        i_right (code ! f) = f1 \<and> i_left (code ! f) = f2 \<and>
        i_left (code ! l1) = l \<and> i_left (code ! l2) = l)"
| "frag code (SCat r1 r2) f l \<longleftrightarrow>
     (\<exists>l1 f2. frag code r1 f l1 \<and> frag code r2 f2 l \<and> i_left (code ! l1) = f2)"
| "frag code (SStar r) f l \<longleftrightarrow>
     f = l \<and> is_inst code f tOR \<and>
     (\<exists>f' l'. frag code r f' l' \<and> i_right (code ! f) = f' \<and> i_left (code ! l') = f)"
| "frag code (SPlus r) f l \<longleftrightarrow>
     is_inst code l tOR \<and>
     (\<exists>l'. frag code r f l' \<and> i_right (code ! l) = f \<and> i_left (code ! l') = l)"
| "frag code (SOpt r) f l \<longleftrightarrow>
     is_inst code f tOR \<and> is_inst code l tNOP \<and>
     (\<exists>f' l'. frag code r f' l' \<and> i_right (code ! f) = f' \<and> i_left (code ! f) = l \<and>
        i_left (code ! l') = l)"

lemma frag_bounds: "frag code r f l \<Longrightarrow> 0 < f \<and> f < length code \<and> 0 < l \<and> l < length code"
  by (induction r arbitrary: f l) (auto simp: is_inst_def)

lemma frag_first: "frag code r f l \<Longrightarrow> is_inst code f (first_op r)"
  by (induction r arbitrary: f l) auto

lemma frag_not_nop: "frag code r f l \<Longrightarrow> first_op r \<noteq> tNOP"
  by (induction r arbitrary: f l) (auto simp: atom_op_def sre_codes)

lemma ext_left: "ext code code' \<Longrightarrow> p < length code \<Longrightarrow> i_left (code ! p) = q \<Longrightarrow> 0 < q \<Longrightarrow>
    i_left (code' ! p) = q"
  by (auto simp: ext_def)

lemma ext_right: "ext code code' \<Longrightarrow> p < length code \<Longrightarrow> i_right (code ! p) = q \<Longrightarrow> 0 < q \<Longrightarrow>
    i_right (code' ! p) = q"
  by (auto simp: ext_def)

lemma ext_inst: "ext code code' \<Longrightarrow> is_inst code p op \<Longrightarrow> is_inst code' p op"
  by (auto simp: ext_def is_inst_def)

lemma ext_class: "ext code code' \<Longrightarrow> p < length code \<Longrightarrow> i_class (code' ! p) = i_class (code ! p)"
  by (auto simp: ext_def)

lemma is_inst_bounds: "is_inst code p op \<Longrightarrow> 0 < p \<and> p < length code"
  by (simp add: is_inst_def)

lemma frag_ext: "frag code r f l \<Longrightarrow> ext code code' \<Longrightarrow> frag code' r f l"
proof (induction r arbitrary: f l)
  case (SAtom x cls)
  then show ?case using ext_inst[OF SAtom(2)] ext_class[OF SAtom(2)] is_inst_bounds by auto
next
  case (SGroup r)
  then obtain f' l' where r: "frag code r f' l'" "i_left (code ! f) = f'" "i_left (code ! l') = l"
    and i: "is_inst code f tLPAREN" "is_inst code l tRPAREN" by auto
  have "i_left (code' ! f) = f'" "i_left (code' ! l') = l"
    using ext_left[OF SGroup(3)] r frag_bounds[OF r(1)] is_inst_bounds[OF i(1)] is_inst_bounds[OF i(2)]
    by auto
  then show ?case using SGroup(1)[OF r(1) SGroup(3)] ext_inst[OF SGroup(3)] i by auto
next
  case (SAlt r1 r2)
  then obtain f1 l1 f2 l2 where r: "frag code r1 f1 l1" "frag code r2 f2 l2"
      "i_right (code ! f) = f1" "i_left (code ! f) = f2" "i_left (code ! l1) = l" "i_left (code ! l2) = l"
    and i: "is_inst code f tOR" "is_inst code l tNOP" by auto
  have "i_right (code' ! f) = f1" "i_left (code' ! f) = f2" "i_left (code' ! l1) = l" "i_left (code' ! l2) = l"
    using ext_left[OF SAlt(4)] ext_right[OF SAlt(4)] r frag_bounds[OF r(1)] frag_bounds[OF r(2)]
      is_inst_bounds[OF i(1)] is_inst_bounds[OF i(2)] by auto
  then show ?case
    using SAlt(1)[OF r(1) SAlt(4)] SAlt(2)[OF r(2) SAlt(4)] ext_inst[OF SAlt(4)] i by auto
next
  case (SCat r1 r2)
  then obtain l1 where r: "frag code r1 f l1" "frag code r2 (i_left (code ! l1)) l" by auto
  then have "i_left (code' ! l1) = i_left (code ! l1)"
    using ext_left[OF SCat(4)] frag_bounds[OF r(1)] frag_bounds[OF r(2)] by auto
  then show ?case using SCat(1)[OF r(1) SCat(4)] SCat(2)[OF r(2) SCat(4)] by auto
next
  case (SStar r)
  then obtain f' l' where r: "frag code r f' l'" "i_right (code ! f) = f'" "i_left (code ! l') = f"
    and i: "is_inst code f tOR" "f = l" by auto
  have "i_right (code' ! f) = f'" "i_left (code' ! l') = f"
    using ext_left[OF SStar(3)] ext_right[OF SStar(3)] r frag_bounds[OF r(1)] is_inst_bounds[OF i(1)]
    by auto
  then show ?case using SStar(1)[OF r(1) SStar(3)] ext_inst[OF SStar(3)] i by auto
next
  case (SPlus r)
  then obtain l' where r: "frag code r f l'" "i_right (code ! l) = f" "i_left (code ! l') = l"
    and i: "is_inst code l tOR" by auto
  have "i_right (code' ! l) = f" "i_left (code' ! l') = l"
    using ext_left[OF SPlus(3)] ext_right[OF SPlus(3)] r frag_bounds[OF r(1)] is_inst_bounds[OF i]
    by auto
  then show ?case using SPlus(1)[OF r(1) SPlus(3)] ext_inst[OF SPlus(3)] i by auto
next
  case (SOpt r)
  then obtain f' l' where r: "frag code r f' l'" "i_right (code ! f) = f'" "i_left (code ! f) = l"
      "i_left (code ! l') = l"
    and i: "is_inst code f tOR" "is_inst code l tNOP" by auto
  have "i_right (code' ! f) = f'" "i_left (code' ! f) = l" "i_left (code' ! l') = l"
    using ext_left[OF SOpt(3)] ext_right[OF SOpt(3)] r frag_bounds[OF r(1)]
      is_inst_bounds[OF i(1)] is_inst_bounds[OF i(2)] by auto
  then show ?case using SOpt(1)[OF r(1) SOpt(3)] ext_inst[OF SOpt(3)] i by auto
qed

section \<open>The parser\<close>

text \<open>The state of the parser: operators and trees, the open parentheses, and whether an
  operand was the last thing seen.\<close>

record ast_state =
  a_ops :: "rune list"
  a_nds :: "sre list"
  a_nparen :: nat
  a_land :: bool

fun ast_eval :: "bool \<Rightarrow> rune \<Rightarrow> rune list \<Rightarrow> sre list \<Rightarrow> (rune list \<times> sre list) comp" where
  "ast_eval back pri [] rs =
     (if pri = tRPAREN then CErr ''operator stack underflow'' else CCrash)"
| "ast_eval back pri (op # ops) rs =
     (if pri = tRPAREN \<or> pri \<le> op then
        cbind (ast_op back op rs) (\<lambda>rs.
          if op = tLPAREN then COk (ops, rs) else ast_eval back pri ops rs)
      else COk (op # ops, rs))"

definition ast_until :: "bool \<Rightarrow> rune \<Rightarrow> ast_state \<Rightarrow> ast_state comp" where
  "ast_until back pri st =
     (if a_ops st = [] then CErr ''operator stack underflow''
      else cbind (ast_eval back pri (a_ops st) (a_nds st)) (\<lambda>(ops, rs).
        COk (st\<lparr>a_ops := ops, a_nds := rs\<rparr>)))"

definition ast_push :: "bool \<Rightarrow> rune \<Rightarrow> ast_state \<Rightarrow> ast_state comp" where
  "ast_push back op st =
     cbind (ast_until back op st) (\<lambda>st. COk (st\<lparr>a_ops := op # a_ops st\<rparr>))"

text \<open>The concatenation that is implicit before an operand.\<close>

definition ast_implicit :: "bool \<Rightarrow> ast_state \<Rightarrow> ast_state comp" where
  "ast_implicit back st =
     (if a_land st then cbind (ast_push back tCAT st) (\<lambda>st. COk (st\<lparr>a_land := False\<rparr>))
      else COk st)"

definition ast_operator :: "bool \<Rightarrow> rune \<Rightarrow> ast_state \<Rightarrow> ast_state comp" where
  "ast_operator back op st =
     (if op = tRPAREN then
        (if a_nparen st = 0 then CErr (''unmatched '' @ [CHR 0x27, CHR '')'', CHR 0x27])
         else cbind (ast_until back op (st\<lparr>a_nparen := a_nparen st - 1\<rparr>))
                (\<lambda>st. COk (st\<lparr>a_land := True\<rparr>)))
      else if op = tLPAREN then
        cbind (ast_implicit back (st\<lparr>a_nparen := a_nparen st + 1\<rparr>)) (\<lambda>st.
          COk (st\<lparr>a_ops := op # a_ops st, a_land := False\<rparr>))
      else
        cbind (ast_push back op st) (\<lambda>st.
          COk (st\<lparr>a_land := (op = tSTAR \<or> op = tQUEST \<or> op = tPLUS)\<rparr>)))"

definition ast_operand :: "bool \<Rightarrow> rune \<Rightarrow> rune list \<Rightarrow> ast_state \<Rightarrow> ast_state comp" where
  "ast_operand back x cls st =
     cbind (ast_implicit back st) (\<lambda>st. COk (st\<lparr>
       a_nds := SAtom x (if x = tCCLASS \<or> x = tNCCLASS then cls else []) # a_nds st,
       a_land := True\<rparr>))"

definition ast_token :: "bool \<Rightarrow> rune \<Rightarrow> rune list \<Rightarrow> ast_state \<Rightarrow> ast_state comp" where
  "ast_token back tok val st =
     (if tok AND tOPERATOR \<noteq> 0 then ast_operator back tok st else ast_operand back tok val st)"

function ast_loop :: "bool \<Rightarrow> rune list \<Rightarrow> ast_state \<Rightarrow> ast_state comp" where
  "ast_loop back e st =
     cbind (sre_lex e) (\<lambda>(tok, val, e').
       if e = [] \<or> tok = tEND then COk st
       else cbind (ast_token back tok val st) (ast_loop back e'))"
  by pat_completeness auto
termination
  by (relation "measure (\<lambda>(back, e, st). length e)") (auto dest: sre_lex_shorter)

declare ast_loop.simps [simp del]

text \<open>The tree of a whole expression, with the end mark.\<close>

definition sre_parse :: "bool \<Rightarrow> rune list \<Rightarrow> sre comp" where
  "sre_parse back re =
     cbind (ast_loop back re \<lparr>a_ops = [tSTART - 1], a_nds = [], a_nparen = 0, a_land = False\<rparr>) (\<lambda>st.
     cbind (ast_until back tSTART st) (\<lambda>st.
     cbind (ast_operand back tEND [] st) (\<lambda>st.
     cbind (ast_until back tSTART st) (\<lambda>st.
       if a_nparen st \<noteq> 0 then CErr (''unmatched '' @ [CHR 0x27, CHR ''('', CHR 0x27])
       else case a_nds st of [] \<Rightarrow> CCrash | r # _ \<Rightarrow> COk r))))"

end
