(* ===== verification/SreComp.thy ===== *)
theory SreComp
  imports SreAst
begin

text \<open>
  The compiler refines the parser: every operation on nodes and code has the effect of the
  parser on trees, keeps the invariant of the code, and never ends in a run-time error.
\<close>

section \<open>The code of each operator\<close>

lemma at_end [simp]:
  "length xs = n \<Longrightarrow> (xs @ [x])[n := y] = xs @ [y]"
  "length xs = n \<Longrightarrow> (xs @ [x]) ! n = x"
  by (auto simp: list_update_append)

text \<open>What an operator needs of the code and keeps: the invariant, subexpression numbers in
  range and never that of the whole match, and branches with both continuations; but for \<open>x\<close>, a branch under construction (0 if
  there is none).\<close>

definition sub_good :: "nat \<Rightarrow> inst \<Rightarrow> bool" where
  "sub_good n i \<longleftrightarrow> i_subid i \<le> n \<and> (i_op i \<in> {tLPAREN, tRPAREN} \<longrightarrow> 0 < i_subid i)"

definition code_ok :: "nat \<Rightarrow> nat \<Rightarrow> inst list \<Rightarrow> (nat \<times> nat) list \<Rightarrow> bool" where
  "code_ok n x code nds \<longleftrightarrow>
     cinv code nds \<and> (\<forall>i \<in> set code. sub_good n i) \<and>
     (\<forall>p. is_inst code p tOR \<and> p \<noteq> x \<longrightarrow> i_right (code ! p) \<noteq> 0)"

lemma code_okD: "code_ok n x code nds \<Longrightarrow> cinv code nds"
  by (simp add: code_ok_def)

lemma set_upd_ok: "\<forall>y \<in> set xs. P y \<Longrightarrow> P y \<Longrightarrow> \<forall>z \<in> set (xs[i := y]). P z"
  using set_update_subset_insert[of xs i y] by auto

lemma code_ok_swap: "code_ok n x code (a # b # nds) \<Longrightarrow> code_ok n x code (b # a # nds)"
  using cinv_perm[of code "a # b # nds" "b # a # nds"] by (auto simp: code_ok_def)

lemma code_ok_first:
  "code_ok n x code ((f, l) # nds) \<Longrightarrow> ends code f' l \<Longrightarrow> code_ok n x code ((f', l) # nds)"
  using cinv_first by (auto simp: code_ok_def)

lemma code_ok_ends: "code_ok n x code nds \<Longrightarrow> (f, l) \<in> set nds \<Longrightarrow> ends code f l"
  using cinv_nodes code_okD by blast

lemma code_ok_last:
  assumes "code_ok n x code nds" and "(f, l) \<in> set nds"
  shows "0 < l \<and> l < length code \<and> ends code l l \<and> i_left (code ! l) = 0"
  using ends_last[OF code_ok_ends[OF assms]] ends_bounds[of code l l] by simp

text \<open>A new instruction; a branch only gets its right continuation afterwards.\<close>

lemma new_ok:
  assumes c: "code_ok n x code nds" and ne: "code \<noteq> []"
    and op: "op = tOR \<and> x = 0 \<and> x' = length code \<or> op \<noteq> tOR \<and> x' = x"
    and sub: "op \<notin> {tLPAREN, tRPAREN}"
  shows "code_ok n x' (code @ [new_inst op]) ((length code, length code) # nds)"
    and "ext code (code @ [new_inst op])"
proof -
  have "i_right ((code @ [new_inst op]) ! p) \<noteq> 0"
    if p: "is_inst (code @ [new_inst op]) p tOR" "p \<noteq> x'" for p
  proof (cases "p < length code")
    case True
    then have "is_inst code p tOR" "p \<noteq> x"
      using p op by (auto simp: is_inst_def nth_append)
    then show ?thesis using c True by (auto simp: code_ok_def nth_append)
  next
    case False
    then have "p = length code" using p by (simp add: is_inst_def)
    then show ?thesis using p op by (auto simp: is_inst_def new_inst_def)
  qed
  moreover have "cinv (code @ [new_inst op]) ((length code, length code) # nds)"
    using cinv_grow[OF code_okD[OF c] refl, of op] ne by (simp add: grow_def)
  ultimately show "code_ok n x' (code @ [new_inst op]) ((length code, length code) # nds)"
    using c sub by (auto simp: code_ok_def new_inst_def sub_good_def)
  show "ext code (code @ [new_inst op])"
    using ext_grow[OF code_okD[OF c], of op] ne by (simp add: grow_def)
qed

lemma link_ok:
  assumes c: "code_ok n x code ((f1, l1) # (f2, l2) # nds)"
  shows "code_ok n x (link l1 f2 code) ((f1, l2) # nds)" and "ext code (link l1 f2 code)"
proof -
  have "\<forall>i \<in> set (link l1 f2 code). sub_good n i"
  proof (rule set_upd_ok)
    have "l1 < length code" using code_ok_last[OF c, of f1 l1] by simp
    then show "sub_good n ((code ! l1)\<lparr>i_left := f2\<rparr>)"
      using c by (simp add: code_ok_def sub_good_def)
  qed (use c in \<open>simp add: code_ok_def\<close>)
  moreover have "i_right (link l1 f2 code ! p) \<noteq> 0" if "is_inst (link l1 f2 code) p tOR" "p \<noteq> x" for p
    using that c by (auto simp: code_ok_def is_inst_def nth_upd split: if_splits)
  ultimately show "code_ok n x (link l1 f2 code) ((f1, l2) # nds)"
    using cinv_link[OF code_okD[OF c]] by (auto simp: code_ok_def)
  show "ext code (link l1 f2 code)" using cinv_link[OF code_okD[OF c]] by simp
qed

text \<open>A new parenthesis has its number.\<close>

lemma new_sub_ok:
  assumes c: "code_ok n 0 code nds" and ne: "code \<noteq> []" and op: "op \<in> {tLPAREN, tRPAREN}"
    and s: "0 < s" "s \<le> n"
  shows "code_ok n 0 (code @ [(new_inst op)\<lparr>i_subid := s\<rparr>]) ((length code, length code) # nds)"
    and "ext code (code @ [(new_inst op)\<lparr>i_subid := s\<rparr>])"
proof -
  let ?c = "code @ [new_inst op]" and ?c' = "code @ [(new_inst op)\<lparr>i_subid := s\<rparr>]"
  have c': "?c' = ?c[length code := (?c ! length code)\<lparr>i_subid := s\<rparr>]" by simp
  have "cinv ?c ((length code, length code) # nds)"
    using cinv_grow[OF code_okD[OF c] refl, of op] ne by (simp add: grow_def)
  from cinv_upd[OF this, of "length code" "i_subid_update (\<lambda>_. s)"]
  have "cinv ?c' ((length code, length code) # nds)" using ne unfolding c' by simp
  moreover have "\<forall>y \<in> set ?c'. sub_good n y"
    using c s by (auto simp: code_ok_def sub_good_def new_inst_def)
  moreover have "i_right (?c' ! p) \<noteq> 0" if p: "is_inst ?c' p tOR" for p
  proof (cases "p < length code")
    case True
    then show ?thesis using p c by (auto simp: code_ok_def is_inst_def nth_append)
  next
    case False
    then have "p = length code" using p by (simp add: is_inst_def)
    then show ?thesis using p op by (auto simp: is_inst_def new_inst_def sre_codes)
  qed
  ultimately show "code_ok n 0 ?c' ((length code, length code) # nds)" by (simp add: code_ok_def)
  show "ext code ?c'" by (auto simp: ext_def nth_append)
qed

text \<open>A branch is given its right continuation.\<close>

lemma right_ok:
  assumes c: "code_ok n i code nds" and i: "i_right (code ! i) = 0"
    and r: "ends code r e" "ends code i e"
  shows "code_ok n 0 (code[i := (code ! i)\<lparr>i_right := r\<rparr>]) nds"
    and "ext code (code[i := (code ! i)\<lparr>i_right := r\<rparr>])"
proof -
  let ?c = "code[i := (code ! i)\<lparr>i_right := r\<rparr>]"
  have b: "0 < i" "i < length code" using ends_bounds[OF r(2)] by auto
  have r0: "r \<noteq> 0" using ends_bounds[OF r(1)] by auto
  have "cinv ?c nds"
    using cinv_upd[OF code_okD[OF c] b, of "i_right_update (\<lambda>_. r)"] r by auto
  moreover have "\<forall>y \<in> set ?c. sub_good n y"
    by (rule set_upd_ok) (use c b in \<open>auto simp: code_ok_def sub_good_def\<close>)
  ultimately show "code_ok n 0 ?c nds"
    using c r0 b by (auto simp: code_ok_def is_inst_def nth_upd split: if_splits)
  show "ext code ?c" using i by (auto simp: ext_def nth_upd)
qed

section \<open>The fragments the operators build\<close>

text \<open>\<open>star_code\<close>, \<open>group_code\<close>, \<open>alt_code\<close>, \<open>opt_code\<close>: the code after the operator.\<close>

definition star_code :: "nat \<Rightarrow> nat \<Rightarrow> inst list \<Rightarrow> inst list" where
  "star_code f l c =
     (let i = length c; c = link l i (c @ [new_inst tOR]) in c[i := (c ! i)\<lparr>i_right := f\<rparr>])"

lemma frag_nonempty: "frag c r f l \<Longrightarrow> c \<noteq> []"
  using frag_bounds by fastforce

lemma star_node:
  assumes c: "code_ok n 0 c ((f, l) # nds)" and r: "frag c r f l"
  defines "i \<equiv> length c" and "c' \<equiv> star_code f l c"
  shows "code_ok n 0 c' ((i, i) # nds)" and "code_ok n 0 c' ((f, i) # nds)"
    and "frag c' (SStar r) i i" and "frag c' (SPlus r) f i" and "ext c c'"
proof -
  let ?c1 = "c @ [new_inst tOR]"
  let ?c2 = "link l i ?c1"
  have ne: "c \<noteq> []" using frag_nonempty[OF r] .
  have b: "0 < f" "f < i" "0 < l" "l < i" using frag_bounds[OF r] i_def by auto
  have l0: "i_left (c ! l) = 0" using code_ok_last[OF c, of f l] by simp
  have 1: "code_ok n i ?c1 ((i, i) # (f, l) # nds)" "ext c ?c1"
    using new_ok[OF c ne, of tOR i] i_def by (auto simp: sre_codes)
  have 2: "code_ok n i ?c2 ((f, i) # nds)" "ext ?c1 ?c2"
    using link_ok[OF code_ok_swap[OF 1(1)]] by auto
  have ei: "ends ?c2 i i" using code_ok_last[OF 2(1), of f i] by simp
  have ef: "ends ?c2 f i" using code_ok_ends[OF 2(1), of f i] by simp
  have ri: "i_right (?c2 ! i) = 0" using b i_def by (simp add: nth_upd new_inst_def)
  have c': "c' = ?c2[i := (?c2 ! i)\<lparr>i_right := f\<rparr>]"
    by (simp add: c'_def star_code_def i_def Let_def)
  have 3: "code_ok n 0 c' ((f, i) # nds)" "ext ?c2 c'"
    using right_ok[OF 2(1) ri ef ei] c' by auto
  then show "code_ok n 0 c' ((f, i) # nds)" by simp
  then show "code_ok n 0 c' ((i, i) # nds)"
    using code_ok_first code_ok_last[OF 3(1), of f i] by auto
  show x: "ext c c'" using 1(2) 2(2) 3(2) ext_trans by blast
  have fr: "frag c' r f l" using frag_ext[OF r x] .
  have ii: "is_inst c' i tOR" "i_right (c' ! i) = f" "i_left (c' ! l) = i"
    using b ne by (simp_all add: c' is_inst_def nth_upd i_def nth_append new_inst_def)
  show "frag c' (SStar r) i i" "frag c' (SPlus r) f i"
    using fr ii by auto
qed

definition group_code :: "nat \<Rightarrow> nat \<Rightarrow> nat \<Rightarrow> inst list \<Rightarrow> inst list" where
  "group_code s f l c =
     (let i2 = length c; c = link l i2 (c @ [(new_inst tRPAREN)\<lparr>i_subid := s\<rparr>]);
          i1 = length c; c = c @ [(new_inst tLPAREN)\<lparr>i_subid := s\<rparr>] in
      link i1 f c)"

lemma group_node:
  assumes c: "code_ok n 0 c ((f, l) # nds)" and r: "frag c r f l" and s: "0 < s" "s \<le> n"
  defines "i2 \<equiv> length c" and "i1 \<equiv> Suc (length c)" and "c' \<equiv> group_code s f l c"
  shows "code_ok n 0 c' ((i1, i2) # nds)" and "frag c' (SGroup r) i1 i2" and "ext c c'"
proof -
  let ?c1 = "c @ [(new_inst tRPAREN)\<lparr>i_subid := s\<rparr>]"
  let ?c2 = "link l i2 ?c1"
  let ?c3 = "?c2 @ [(new_inst tLPAREN)\<lparr>i_subid := s\<rparr>]"
  have ne: "c \<noteq> []" using frag_nonempty[OF r] .
  have b: "0 < f" "f < i2" "0 < l" "l < i2" "i2 < i1" using frag_bounds[OF r] i2_def i1_def by auto
  have 1: "code_ok n 0 ?c1 ((i2, i2) # (f, l) # nds)" "ext c ?c1"
    using new_sub_ok[OF c ne _ s, of tRPAREN] by (auto simp: i2_def)
  have 2: "code_ok n 0 ?c2 ((f, i2) # nds)" "ext ?c1 ?c2"
    using link_ok[OF code_ok_swap[OF 1(1)]] by auto
  have l2: "length ?c2 = i1" "?c2 \<noteq> []" by (simp_all add: i1_def)
  have 3: "code_ok n 0 ?c3 ((i1, i1) # (f, i2) # nds)" "ext ?c2 ?c3"
    using new_sub_ok[OF 2(1) l2(2) _ s, of tLPAREN] l2(1) by auto
  have c': "c' = link i1 f ?c3"
    by (simp only: c'_def group_code_def i2_def i1_def Let_def length_list_update
        length_append_singleton)
  have 4: "code_ok n 0 c' ((i1, i2) # nds)" "ext ?c3 c'"
    using link_ok[OF 3(1)] c' by auto
  then show "code_ok n 0 c' ((i1, i2) # nds)" by simp
  show x: "ext c c'" using 1(2) 2(2) 3(2) 4(2) ext_trans by blast
  have "is_inst c' i1 tLPAREN" "is_inst c' i2 tRPAREN" "i_left (c' ! i1) = f" "i_left (c' ! l) = i2"
    using b ne by (simp_all add: c' is_inst_def nth_upd i2_def i1_def nth_append new_inst_def)
  then show "frag c' (SGroup r) i1 i2" using frag_ext[OF r x] by auto
qed

definition alt_code :: "nat \<Rightarrow> nat \<Rightarrow> nat \<Rightarrow> nat \<Rightarrow> inst list \<Rightarrow> inst list" where
  "alt_code f1 l1 f2 l2 c =
     (let i2 = length c; c = link l1 i2 (link l2 i2 (c @ [new_inst tNOP]));
          i1 = length c; c = link i1 f2 (c @ [new_inst tOR]) in
      c[i1 := (c ! i1)\<lparr>i_right := f1\<rparr>])"

lemma alt_node:
  assumes c: "code_ok n 0 c ((f2, l2) # (f1, l1) # nds)"
    and r1: "frag c r1 f1 l1" and r2: "frag c r2 f2 l2"
  defines "i2 \<equiv> length c" and "i1 \<equiv> Suc (length c)" and "c' \<equiv> alt_code f1 l1 f2 l2 c"
  shows "code_ok n 0 c' ((i1, i2) # nds)" and "frag c' (SAlt r1 r2) i1 i2" and "ext c c'"
proof -
  let ?c1 = "c @ [new_inst tNOP]"
  let ?c2 = "link l2 i2 ?c1"
  let ?c3 = "link l1 i2 ?c2"
  let ?c4 = "?c3 @ [new_inst tOR]"
  let ?c5 = "link i1 f2 ?c4"
  have ne: "c \<noteq> []" using frag_nonempty[OF r1] .
  have b: "0 < f1" "f1 < i2" "0 < l1" "l1 < i2" "0 < f2" "f2 < i2" "0 < l2" "l2 < i2" "i2 < i1"
    using frag_bounds[OF r1] frag_bounds[OF r2] i2_def i1_def by auto
  have d: "l1 \<noteq> l2" using code_okD[OF c] by (auto simp: cinv_def)
  have 1: "code_ok n 0 ?c1 ((i2, i2) # (f2, l2) # (f1, l1) # nds)" "ext c ?c1"
    using new_ok[OF c ne, of tNOP 0] by (auto simp: i2_def sre_codes)
  have 2: "code_ok n 0 ?c2 ((f2, i2) # (f1, l1) # nds)" "ext ?c1 ?c2"
    using link_ok[OF code_ok_swap[OF 1(1)]] by auto
  have "code_ok n 0 ?c2 ((i2, i2) # (f1, l1) # nds)"
    using code_ok_first[OF 2(1)] code_ok_last[OF 2(1), of f2 i2] by simp
  then have 3: "code_ok n 0 ?c3 ((f1, i2) # nds)" "ext ?c2 ?c3"
    using link_ok[OF code_ok_swap] by blast+
  have e2: "ends ?c3 f2 i2"
  proof -
    have "f2 = i2 \<or> f2 \<noteq> i2" by simp
    have "i_left (?c3 ! i2) = 0" using code_ok_last[OF 3(1), of f1 i2] by simp
    then show ?thesis
      using ends_ext[OF code_ok_ends[OF 2(1), of f2 i2] 3(2)] by auto
  qed
  have l3: "length ?c3 = i1" "?c3 \<noteq> []" by (simp_all add: i1_def)
  have 4: "code_ok n i1 ?c4 ((i1, i1) # (f1, i2) # nds)" "ext ?c3 ?c4"
    using new_ok[OF 3(1) l3(2), of tOR i1] l3(1) by (auto simp: sre_codes)
  have e2': "ends ?c4 f2 i2"
    using ends_ext[OF e2 4(2)] code_ok_last[OF 4(1), of f1 i2] by auto
  have 5: "code_ok n i1 ?c5 ((i1, i2) # nds)" "ext ?c4 ?c5"
    using link_ok[of n i1 ?c4 i1 i1 f2 i2 nds]
      code_ok_swap[OF code_ok_first[OF code_ok_swap[OF 4(1)] e2']] by auto
  have ri: "i_right (?c5 ! i1) = 0" using l3(1) by (simp add: nth_upd nth_append new_inst_def)
  have ei: "ends ?c5 i1 i2" using code_ok_ends[OF 5(1), of i1 i2] by simp
  have e1: "ends ?c5 f1 i2"
    using ends_ext[OF code_ok_ends[OF 4(1), of f1 i2] 5(2)] code_ok_last[OF 5(1), of i1 i2] by auto
  have c': "c' = ?c5[i1 := (?c5 ! i1)\<lparr>i_right := f1\<rparr>]"
    by (simp only: c'_def alt_code_def i2_def i1_def Let_def length_list_update
        length_append_singleton)
  have 6: "code_ok n 0 c' ((i1, i2) # nds)" "ext ?c5 c'"
    using right_ok[OF 5(1) ri e1 ei] c' by auto
  then show "code_ok n 0 c' ((i1, i2) # nds)" by simp
  show x: "ext c c'" using 1(2) 2(2) 3(2) 4(2) 5(2) 6(2) ext_trans by blast
  have "is_inst c' i1 tOR" "is_inst c' i2 tNOP" "i_right (c' ! i1) = f1" "i_left (c' ! i1) = f2"
      "i_left (c' ! l1) = i2" "i_left (c' ! l2) = i2"
    using b ne d by (simp_all add: c' is_inst_def nth_upd i2_def i1_def nth_append new_inst_def)
  then show "frag c' (SAlt r1 r2) i1 i2" using frag_ext[OF r1 x] frag_ext[OF r2 x] by auto
qed

definition opt_code :: "nat \<Rightarrow> nat \<Rightarrow> inst list \<Rightarrow> inst list" where
  "opt_code f l c =
     (let i1 = length c; i2 = Suc (length c);
          c = link l i2 (link i1 i2 (c @ [new_inst tOR] @ [new_inst tNOP])) in
      c[i1 := (c ! i1)\<lparr>i_right := f\<rparr>])"

lemma opt_node:
  assumes c: "code_ok n 0 c ((f, l) # nds)" and r: "frag c r f l"
  defines "i1 \<equiv> length c" and "i2 \<equiv> Suc (length c)" and "c' \<equiv> opt_code f l c"
  shows "code_ok n 0 c' ((i1, i2) # nds)" and "frag c' (SOpt r) i1 i2" and "ext c c'"
proof -
  let ?c1 = "c @ [new_inst tOR]"
  let ?c2 = "?c1 @ [new_inst tNOP]"
  let ?c3 = "link i1 i2 ?c2"
  let ?c4 = "link l i2 ?c3"
  have ne: "c \<noteq> []" using frag_nonempty[OF r] .
  have b: "0 < f" "f < i1" "0 < l" "l < i1" "i1 < i2" using frag_bounds[OF r] i2_def i1_def by auto
  have 1: "code_ok n i1 ?c1 ((i1, i1) # (f, l) # nds)" "ext c ?c1"
    using new_ok[OF c ne, of tOR i1] i1_def by (auto simp: sre_codes)
  have 2: "code_ok n i1 ?c2 ((i2, i2) # (i1, i1) # (f, l) # nds)" "ext ?c1 ?c2"
    using new_ok[OF 1(1), of tNOP i1] by (auto simp: i2_def sre_codes)
  have 3: "code_ok n i1 ?c3 ((i1, i2) # (f, l) # nds)" "ext ?c2 ?c3"
    using link_ok[OF code_ok_swap[OF 2(1)]] by auto
  have ei3: "ends ?c3 i1 i2" using code_ok_ends[OF 3(1), of i1 i2] by simp
  have 4: "code_ok n i1 ?c4 ((f, i2) # nds)" "ext ?c3 ?c4"
    using link_ok[of n i1 ?c3 f l i2 i2 nds] code_ok_last[OF 3(1), of i1 i2]
      code_ok_swap[OF code_ok_first[OF 3(1), of i2]] by auto
  have ei: "ends ?c4 i1 i2"
    using ends_ext[OF ei3 4(2)] code_ok_last[OF 4(1), of f i2] by auto
  have ef: "ends ?c4 f i2" using code_ok_ends[OF 4(1), of f i2] by simp
  have ri: "i_right (?c4 ! i1) = 0"
    using b by (simp add: nth_upd nth_append new_inst_def i1_def)
  have c': "c' = ?c4[i1 := (?c4 ! i1)\<lparr>i_right := f\<rparr>]"
    by (simp add: c'_def opt_code_def i2_def i1_def Let_def)
  have 5: "code_ok n 0 c' ((f, i2) # nds)" "ext ?c4 c'"
    using right_ok[OF 4(1) ri ef ei] c' by auto
  have "ends c' i1 i2" using ends_ext[OF ei 5(2)] code_ok_last[OF 5(1), of f i2] by auto
  then show "code_ok n 0 c' ((i1, i2) # nds)" using code_ok_first[OF 5(1)] by simp
  show x: "ext c c'" using 1(2) 2(2) 3(2) 4(2) 5(2) ext_trans by blast
  have "is_inst c' i1 tOR" "is_inst c' i2 tNOP" "i_right (c' ! i1) = f" "i_left (c' ! i1) = i2"
      "i_left (c' ! l) = i2"
    using b ne by (simp_all add: c' is_inst_def nth_upd i2_def i1_def nth_append new_inst_def)
  then show "frag c' (SOpt r) i1 i2" using frag_ext[OF r x] by auto
qed

lemma cat_node:
  assumes c: "code_ok n 0 c ((f1, l1) # (f2, l2) # nds)"
    and r1: "frag c r1 f1 l1" and r2: "frag c r2 f2 l2"
  shows "code_ok n 0 (link l1 f2 c) ((f1, l2) # nds)"
    and "frag (link l1 f2 c) (SCat r1 r2) f1 l2" and "ext c (link l1 f2 c)"
proof -
  have x: "ext c (link l1 f2 c)" using link_ok(2)[OF c] .
  have "i_left (link l1 f2 c ! l1) = f2" using frag_bounds[OF r1] by simp
  then show "frag (link l1 f2 c) (SCat r1 r2) f1 l2"
    using frag_ext[OF r1 x] frag_ext[OF r2 x] by auto
qed (use link_ok[OF c] in auto)

section \<open>The compiler refines the parser\<close>

text \<open>\<open>comp_rel R x y\<close>: both end well, in related results, or both in the same error.  A
  crash is never related.\<close>

fun comp_rel :: "('a \<Rightarrow> 'b \<Rightarrow> bool) \<Rightarrow> 'a comp \<Rightarrow> 'b comp \<Rightarrow> bool" where
  "comp_rel R (COk x) (COk y) \<longleftrightarrow> R x y"
| "comp_rel R (CErr e) (CErr e') \<longleftrightarrow> e = e'"
| "comp_rel R _ _ \<longleftrightarrow> False"

lemma comp_rel_bind:
  assumes "comp_rel R x y" and "\<And>a b. x = COk a \<Longrightarrow> y = COk b \<Longrightarrow> R a b \<Longrightarrow> comp_rel S (f a) (g b)"
  shows "comp_rel S (cbind x f) (cbind y g)"
  using assms by (cases x; cases y) auto

lemma comp_rel_mono: "comp_rel R x y \<Longrightarrow> (\<And>a b. R a b \<Longrightarrow> S a b) \<Longrightarrow> comp_rel S x y"
  by (cases x; cases y) auto

definition nd_rel :: "reprog \<Rightarrow> sre list \<Rightarrow> bool" where
  "nd_rel prg rs \<longleftrightarrow>
     code_ok (pr_cursubid prg) 0 (pr_code prg) (pr_ndstk prg) \<and>
     list_all2 (\<lambda>r nd. frag (pr_code prg) r (fst nd) (snd nd)) rs (pr_ndstk prg)"

text \<open>The fields that are not nodes or code.\<close>

definition same_rest :: "reprog \<Rightarrow> reprog \<Rightarrow> bool" where
  "same_rest prg prg' \<longleftrightarrow>
     pr_cursubid prg' = pr_cursubid prg \<and> pr_nparen prg' = pr_nparen prg \<and>
     pr_expr prg' = pr_expr prg \<and> pr_lastwasand prg' = pr_lastwasand prg \<and>
     pr_back prg' = pr_back prg"

definition same_ctl :: "reprog \<Rightarrow> reprog \<Rightarrow> bool" where
  "same_ctl prg prg' \<longleftrightarrow> same_rest prg prg' \<and> pr_opstk prg' = pr_opstk prg"

lemma nd_rel_frags:
  "list_all2 (\<lambda>r nd. frag c r (fst nd) (snd nd)) rs nds \<Longrightarrow> ext c c' \<Longrightarrow>
     list_all2 (\<lambda>r nd. frag c' r (fst nd) (snd nd)) rs nds"
  by (erule list_all2_mono) (rule frag_ext)

lemma nd_relI:
  assumes "code_ok (pr_cursubid prg) 0 c' ((f, l) # nds)" and "frag c' r f l" and "ext c c'"
    and "list_all2 (\<lambda>r nd. frag c r (fst nd) (snd nd)) rs nds"
  shows "nd_rel (prg\<lparr>pr_code := c', pr_ndstk := (f, l) # nds\<rparr>) (r # rs)"
  using assms nd_rel_frags by (auto simp: nd_rel_def)

lemma missing_eqs [simp]:
  "popNd c prg = (case pr_ndstk prg of [] \<Rightarrow> CErr (missing c)
     | t # rest \<Rightarrow> COk (t, prg\<lparr>pr_ndstk := rest\<rparr>))"
  by (simp add: popNd_def missing_def split: list.split)

lemma eval_unary:
  assumes rel: "nd_rel prg rs" and s: "op = tLPAREN \<Longrightarrow> 0 < subid \<and> subid \<le> pr_cursubid prg"
    and op: "op \<in> {tLPAREN, tSTAR, tPLUS, tQUEST}"
  shows "comp_rel (\<lambda>prg' rs'. nd_rel prg' rs' \<and> same_ctl prg prg')
           (eval_op op subid prg) (ast_op (pr_back prg) op rs)"
proof (cases "pr_ndstk prg")
  case Nil
  then have "rs = []" using rel by (simp add: nd_rel_def)
  then show ?thesis using Nil op
    by (auto simp: eval_op_def ast_op_def unary_def sre_codes)
next
  case (Cons nd nds)
  obtain f l where nd: "nd = (f, l)" by force
  obtain r rs' where rs: "rs = r # rs'" using rel Cons by (auto simp: nd_rel_def list_all2_Cons2)
  let ?c = "pr_code prg"
  have c: "code_ok (pr_cursubid prg) 0 ?c ((f, l) # nds)" and fr: "frag ?c r f l"
    and rest: "list_all2 (\<lambda>r nd. frag ?c r (fst nd) (snd nd)) rs' nds"
    using rel by (auto simp: nd_rel_def Cons nd rs)
  have ne: "?c \<noteq> []" using frag_nonempty[OF fr] .
  have b: "l < length ?c" "f < length ?c" using frag_bounds[OF fr] by auto
  have new: "x = COk (prg\<lparr>pr_code := c', pr_ndstk := (f', l') # nds\<rparr>) \<Longrightarrow>
      y = COk (q # rs') \<Longrightarrow>
      code_ok (pr_cursubid prg) 0 c' ((f', l') # nds) \<Longrightarrow> frag c' q f' l' \<Longrightarrow> ext ?c c' \<Longrightarrow>
      comp_rel (\<lambda>prg' rs'. nd_rel prg' rs' \<and> same_ctl prg prg') x y" for x y c' f' l' q
    using nd_relI[of prg c' f' l' nds q ?c rs'] rest by (simp add: same_ctl_def same_rest_def)
  from op consider "op = tLPAREN" | "op = tSTAR" | "op = tPLUS" | "op = tQUEST" by auto
  then show ?thesis
  proof cases
    case 1
    have sb: "0 < subid" "subid \<le> pr_cursubid prg" using s 1 by auto
    note g = group_node[OF c fr sb]
    show ?thesis
    proof (rule new[OF _ _ g])
      show "eval_op op subid prg = COk (prg\<lparr>pr_code := group_code subid f l ?c,
          pr_ndstk := (Suc (length ?c), length ?c) # nds\<rparr>)"
        using ne b by (simp add: 1 eval_op_def Cons nd emit_grow grow_def set_left_def upd_inst_def
            pushNd_def Let_def group_code_def)
    qed (simp add: 1 ast_op_def unary_def rs)
  next
    case 2
    note g = star_node[OF c fr]
    show ?thesis
    proof (rule new[OF _ _ g(1) g(3) g(5)])
      show "eval_op op subid prg = COk (prg\<lparr>pr_code := star_code f l ?c,
          pr_ndstk := (length ?c, length ?c) # nds\<rparr>)"
        using ne b by (simp add: 2 eval_op_def Cons nd emit_grow grow_def set_left_def upd_inst_def
            pushNd_def Let_def star_code_def sre_codes)
    qed (simp add: 2 ast_op_def unary_def rs sre_codes)
  next
    case 3
    note g = star_node[OF c fr]
    show ?thesis
    proof (rule new[OF _ _ g(2) g(4) g(5)])
      show "eval_op op subid prg = COk (prg\<lparr>pr_code := star_code f l ?c,
          pr_ndstk := (f, length ?c) # nds\<rparr>)"
        using ne b by (simp add: 3 eval_op_def Cons nd emit_grow grow_def set_left_def upd_inst_def
            pushNd_def Let_def star_code_def sre_codes)
    qed (simp add: 3 ast_op_def unary_def rs sre_codes)
  next
    case 4
    note g = opt_node[OF c fr]
    show ?thesis
    proof (rule new[OF _ _ g])
      show "eval_op op subid prg = COk (prg\<lparr>pr_code := opt_code f l ?c,
          pr_ndstk := (length ?c, Suc (length ?c)) # nds\<rparr>)"
        using ne b by (simp add: 4 eval_op_def Cons nd emit_grow grow_def set_left_def upd_inst_def
            pushNd_def Let_def opt_code_def sre_codes list_update_append
            nth_append)
    qed (simp add: 4 ast_op_def unary_def rs sre_codes)
  qed
qed

lemma eval_binary:
  assumes rel: "nd_rel prg rs" and op: "op \<in> {tOR, tCAT}"
  shows "comp_rel (\<lambda>prg' rs'. nd_rel prg' rs' \<and> same_ctl prg prg')
           (eval_op op subid prg) (ast_op (pr_back prg) op rs)"
proof (cases "\<exists>f2 l2 f1 l1 nds. pr_ndstk prg = (f2, l2) # (f1, l1) # nds")
  case False
  then have "pr_ndstk prg = [] \<or> (\<exists>nd. pr_ndstk prg = [nd])"
    by (metis neq_Nil_conv surj_pair)
  then have "(pr_ndstk prg = [] \<and> rs = []) \<or> (\<exists>nd r. pr_ndstk prg = [nd] \<and> rs = [r])"
    using rel by (auto simp: nd_rel_def list_all2_Cons2)
  then show ?thesis using op
    by (auto simp: eval_op_def ast_op_def binary_def sre_codes)
next
  case True
  then obtain f2 l2 f1 l1 nds where nds: "pr_ndstk prg = (f2, l2) # (f1, l1) # nds" by blast
  obtain r2 r1 rs' where rs: "rs = r2 # r1 # rs'"
    using rel nds by (auto simp: nd_rel_def list_all2_Cons2)
  let ?c = "pr_code prg"
  have c: "code_ok (pr_cursubid prg) 0 ?c ((f2, l2) # (f1, l1) # nds)"
    and fr1: "frag ?c r1 f1 l1" and fr2: "frag ?c r2 f2 l2"
    and rest: "list_all2 (\<lambda>r nd. frag ?c r (fst nd) (snd nd)) rs' nds"
    using rel by (auto simp: nd_rel_def nds rs)
  have ne: "?c \<noteq> []" using frag_nonempty[OF fr1] .
  have b: "l1 < length ?c" "f1 < length ?c" "l2 < length ?c" "f2 < length ?c" "l1 \<noteq> l2"
    using frag_bounds[OF fr1] frag_bounds[OF fr2] code_okD[OF c] by (auto simp: cinv_def)
  have new: "x = COk (prg\<lparr>pr_code := c', pr_ndstk := (f', l') # nds\<rparr>) \<Longrightarrow>
      y = COk (q # rs') \<Longrightarrow>
      code_ok (pr_cursubid prg) 0 c' ((f', l') # nds) \<Longrightarrow> frag c' q f' l' \<Longrightarrow> ext ?c c' \<Longrightarrow>
      comp_rel (\<lambda>prg' rs'. nd_rel prg' rs' \<and> same_ctl prg prg') x y" for x y c' f' l' q
    using nd_relI[of prg c' f' l' nds q ?c rs'] rest by (simp add: same_ctl_def same_rest_def)
  from op consider "op = tOR" | "op = tCAT" by auto
  then show ?thesis
  proof cases
    case 1
    note g = alt_node[OF c fr1 fr2]
    show ?thesis
    proof (rule new[OF _ _ g])
      show "eval_op op subid prg = COk (prg\<lparr>pr_code := alt_code f1 l1 f2 l2 ?c,
          pr_ndstk := (Suc (length ?c), length ?c) # nds\<rparr>)"
        using ne b by (simp add: 1 eval_op_def nds emit_grow grow_def set_left_def upd_inst_def
            pushNd_def Let_def alt_code_def sre_codes)
    qed (simp add: 1 ast_op_def binary_def rs sre_codes)
  next
    case 2
    have fo: "i_op (?c ! f2) = first_op r2" using frag_first[OF fr2] by (simp add: is_inst_def)
    show ?thesis
    proof (cases "pr_back prg \<and> first_op r2 \<noteq> tEND")
      case True
      note g = cat_node[OF c fr2 fr1]
      show ?thesis
      proof (rule new[OF _ _ g])
        show "eval_op op subid prg = COk (prg\<lparr>pr_code := link l2 f1 ?c,
            pr_ndstk := (f2, l1) # nds\<rparr>)"
          using ne b True fo by (simp add: 2 eval_op_def nds set_left_def pushNd_def sre_codes)
      qed (use True in \<open>simp add: 2 ast_op_def binary_def rs ast_cat_def sre_codes\<close>)
    next
      case False
      note g = cat_node[OF code_ok_swap[OF c] fr1 fr2]
      show ?thesis
      proof (rule new[OF _ _ g])
        show "eval_op op subid prg = COk (prg\<lparr>pr_code := link l1 f2 ?c,
            pr_ndstk := (f1, l2) # nds\<rparr>)"
          using ne b False fo by (auto simp: 2 eval_op_def nds set_left_def pushNd_def sre_codes)
      qed (use False in \<open>auto simp: 2 ast_op_def binary_def rs ast_cat_def sre_codes\<close>)
    qed
  qed
qed

text \<open>One step of evaluation refines one step of the parser.\<close>

lemma eval_op_refines:
  assumes "nd_rel prg rs" and "op = tLPAREN \<Longrightarrow> 0 < subid \<and> subid \<le> pr_cursubid prg"
  shows "comp_rel (\<lambda>prg' rs'. nd_rel prg' rs' \<and> same_ctl prg prg')
           (eval_op op subid prg) (ast_op (pr_back prg) op rs)"
proof (cases "op \<in> {tLPAREN, tSTAR, tPLUS, tQUEST} \<or> op \<in> {tOR, tCAT}")
  case True
  then show ?thesis using eval_unary[OF assms] eval_binary[OF assms(1)] by blast
next
  case False
  then show ?thesis by (auto simp: eval_op_def ast_op_def)
qed

section \<open>The loops of the compiler\<close>

text \<open>The stacks of the two: the same operators, above the one that starts the stack.\<close>

definition ops_rel :: "reprog \<Rightarrow> rune list \<Rightarrow> bool" where
  "ops_rel prg ops \<longleftrightarrow> map fst (pr_opstk prg) = ops \<and>
     (\<forall>e \<in> set (pr_opstk prg). fst e = tLPAREN \<longrightarrow> 0 < snd e \<and> snd e \<le> pr_cursubid prg) \<and> ops \<noteq> [] \<and> last ops = tOPERATOR"

definition stk_rel :: "reprog \<Rightarrow> reprog \<Rightarrow> rune list \<times> sre list \<Rightarrow> bool" where
  "stk_rel prg prg' st \<longleftrightarrow> ops_rel prg' (fst st) \<and> nd_rel prg' (snd st) \<and>
     same_rest prg prg'"

lemma stk_rel_refl: "ops_rel prg ops \<Longrightarrow> nd_rel prg rs \<Longrightarrow> stk_rel prg prg (ops, rs)"
  by (simp add: stk_rel_def same_rest_def)

lemma stk_rel_trans: "stk_rel prg prg1 st1 \<Longrightarrow> stk_rel prg1 prg2 st2 \<Longrightarrow> stk_rel prg prg2 st2"
  by (simp add: stk_rel_def same_rest_def)

lemma eval_loop_refines:
  assumes "ops_rel prg ops" and "nd_rel prg rs" and "tOPERATOR < pri"
  shows "comp_rel (stk_rel prg) (eval_loop pri prg) (ast_eval (pr_back prg) pri ops rs)"
  using assms
proof (induction ops arbitrary: prg rs)
  case Nil
  then show ?case by (simp add: ops_rel_def)
next
  case (Cons op ops)
  obtain subid stk where stk: "pr_opstk prg = (op, subid) # stk"
    using Cons.prems(1) by (cases "pr_opstk prg") (auto simp: ops_rel_def)
  have pop: "popOp prg = COk (op, subid, prg\<lparr>pr_opstk := stk\<rparr>)"
    by (simp add: popOp_def stk)
  have sub: "op = tLPAREN \<Longrightarrow> 0 < subid \<and> subid \<le> pr_cursubid prg"
    using Cons.prems(1) by (simp add: ops_rel_def stk)
  show ?case
  proof (cases "pri = tRPAREN \<or> pri \<le> op")
    case False
    then show ?thesis
      using stk_rel_refl[OF Cons.prems(1,2)] by (simp add: eval_loop.simps[of pri prg] stk)
  next
    case True
    have ne: "\<not> (pri \<noteq> tRPAREN \<and> pr_opstk prg = [])" by (simp add: stk)
    have *: "eval_loop pri prg = cbind (eval_op op subid (prg\<lparr>pr_opstk := stk\<rparr>)) (\<lambda>prg.
          if op = tLPAREN then COk prg else eval_loop pri prg)"
      using True by (subst eval_loop.simps) (simp add: stk popOp_def)
    have nd: "nd_rel (prg\<lparr>pr_opstk := stk\<rparr>) rs" using Cons.prems(2) by (simp add: nd_rel_def)
    have bottom: "ops \<noteq> []" if "op \<noteq> tOPERATOR"
      using Cons.prems(1) that by (auto simp: ops_rel_def)
    have "comp_rel (stk_rel prg)
        (cbind (eval_op op subid (prg\<lparr>pr_opstk := stk\<rparr>)) (\<lambda>prg.
           if op = tLPAREN then COk prg else eval_loop pri prg))
        (cbind (ast_op (pr_back prg) op rs) (\<lambda>rs.
           if op = tLPAREN then COk (ops, rs) else ast_eval (pr_back prg) pri ops rs))"
    proof (rule comp_rel_bind)
      show "comp_rel (\<lambda>prg' rs'. nd_rel prg' rs' \<and> same_ctl (prg\<lparr>pr_opstk := stk\<rparr>) prg')
          (eval_op op subid (prg\<lparr>pr_opstk := stk\<rparr>)) (ast_op (pr_back prg) op rs)"
        using eval_op_refines[OF nd, of op subid] sub by simp
    next
      fix prg1 rs1
      assume ev: "ast_op (pr_back prg) op rs = COk rs1"
        and r1: "nd_rel prg1 rs1 \<and> same_ctl (prg\<lparr>pr_opstk := stk\<rparr>) prg1"
      have "op \<noteq> tOPERATOR" using ev by (auto simp: ast_op_def sre_codes)
      note bottom = bottom[OF this]
      have f1: "pr_opstk prg1 = stk" "pr_cursubid prg1 = pr_cursubid prg"
          "pr_back prg1 = pr_back prg" "same_rest prg prg1"
        using r1 by (simp_all add: same_ctl_def same_rest_def)
      have o1: "ops_rel prg1 ops"
        using Cons.prems(1) bottom by (simp add: ops_rel_def f1 stk)
      have s1: "stk_rel prg prg1 (ops, rs1)"
        using o1 r1 f1(4) by (simp add: stk_rel_def)
      show "comp_rel (stk_rel prg) (if op = tLPAREN then COk prg1 else eval_loop pri prg1)
          (if op = tLPAREN then COk (ops, rs1) else ast_eval (pr_back prg) pri ops rs1)"
        using s1 comp_rel_mono[OF Cons.IH[OF o1 _ Cons.prems(3)] stk_rel_trans[OF s1]] r1 f1 by auto
    qed
    then show ?thesis using True * by simp
  qed
qed

definition prog_rel :: "bool \<Rightarrow> reprog \<Rightarrow> ast_state \<Rightarrow> bool" where
  "prog_rel bk prg st \<longleftrightarrow> ops_rel prg (a_ops st) \<and> nd_rel prg (a_nds st) \<and>
     pr_nparen prg = a_nparen st \<and> pr_lastwasand prg = a_land st \<and> pr_back prg = bk"

lemma evalUntil_refines:
  assumes "prog_rel bk prg st" and "tOPERATOR < pri"
  shows "comp_rel (prog_rel bk) (evalUntil pri prg) (ast_until bk pri st)"
proof -
  have ne: "pr_opstk prg \<noteq> []" "a_ops st \<noteq> []"
    using assms(1) by (auto simp: prog_rel_def ops_rel_def)
  have "comp_rel (prog_rel bk) (cbind (eval_loop pri prg) COk)
      (cbind (ast_eval bk pri (a_ops st) (a_nds st)) (\<lambda>(ops, rs). COk (st\<lparr>a_ops := ops, a_nds := rs\<rparr>)))"
  proof (rule comp_rel_bind)
    show "comp_rel (stk_rel prg) (eval_loop pri prg) (ast_eval bk pri (a_ops st) (a_nds st))"
      using eval_loop_refines[OF _ _ assms(2), of prg "a_ops st" "a_nds st"] assms(1)
      by (simp add: prog_rel_def)
  next
    fix prg' st'
    assume "stk_rel prg prg' st'"
    then show "comp_rel (prog_rel bk) (COk prg')
        (case st' of (ops, rs) \<Rightarrow> COk (st\<lparr>a_ops := ops, a_nds := rs\<rparr>))"
      using assms(1) by (cases st') (auto simp: prog_rel_def stk_rel_def same_rest_def)
  qed
  moreover have "cbind (eval_loop pri prg) COk = eval_loop pri prg"
    by (cases "eval_loop pri prg") auto
  ultimately show ?thesis using ne by (simp add: evalUntil_def ast_until_def)
qed

lemma pushOp_rel:
  "prog_rel bk prg st \<Longrightarrow> (op = tLPAREN \<Longrightarrow> 0 < pr_cursubid prg) \<Longrightarrow>
     prog_rel bk (pushOp op prg) (st\<lparr>a_ops := op # a_ops st\<rparr>)"
  by (auto simp: prog_rel_def ops_rel_def nd_rel_def pushOp_def)

lemma land_rel: "prog_rel bk prg st \<Longrightarrow> prog_rel bk (prg\<lparr>pr_lastwasand := b\<rparr>) (st\<lparr>a_land := b\<rparr>)"
  by (auto simp: prog_rel_def ops_rel_def nd_rel_def)

lemma push_refines:
  assumes "prog_rel bk prg st" and "tOPERATOR < op" and "op \<noteq> tLPAREN"
  shows "comp_rel (prog_rel bk) (cbind (evalUntil op prg) (\<lambda>prg. COk (pushOp op prg)))
           (ast_push bk op st)"
  unfolding ast_push_def
  by (rule comp_rel_bind[OF evalUntil_refines[OF assms(1,2)]]) (use assms(3) in \<open>auto intro: pushOp_rel\<close>)

lemma implicit_refines:
  assumes "prog_rel bk prg st"
  shows "comp_rel (prog_rel bk) (if pr_lastwasand prg then operator tCAT prg else COk prg)
           (ast_implicit bk st)"
proof -
  have "operator tCAT prg = cbind (cbind (evalUntil tCAT prg) (\<lambda>prg. COk (pushOp tCAT prg)))
      (\<lambda>prg. COk (prg\<lparr>pr_lastwasand := False\<rparr>))"
    by (subst operator.simps) (simp add: sre_codes)
  moreover have "comp_rel (prog_rel bk)
      (cbind (cbind (evalUntil tCAT prg) (\<lambda>prg. COk (pushOp tCAT prg)))
         (\<lambda>prg. COk (prg\<lparr>pr_lastwasand := False\<rparr>)))
      (cbind (ast_push bk tCAT st) (\<lambda>st. COk (st\<lparr>a_land := False\<rparr>)))"
    by (rule comp_rel_bind[OF push_refines[OF assms]]) (auto simp: sre_codes land_rel)
  ultimately show ?thesis using assms by (auto simp: ast_implicit_def prog_rel_def)
qed

lemma code_ok_mono: "code_ok n x code nds \<Longrightarrow> n \<le> m \<Longrightarrow> code_ok m x code nds"
  by (auto simp: code_ok_def sub_good_def)

lemma operator_refines:
  assumes rel: "prog_rel bk prg st" and op: "tOPERATOR < op"
  shows "comp_rel (prog_rel bk) (operator op prg) (ast_operator bk op st)"
proof -
  have np: "pr_nparen prg = a_nparen st" using rel by (simp add: prog_rel_def)
  consider "op = tRPAREN" | "op = tLPAREN" | "op \<noteq> tRPAREN" "op \<noteq> tLPAREN" by blast
  then show ?thesis
  proof cases
    case 1
    have r: "prog_rel bk (prg\<lparr>pr_nparen := pr_nparen prg - 1\<rparr>) (st\<lparr>a_nparen := a_nparen st - 1\<rparr>)"
      using rel by (auto simp: prog_rel_def ops_rel_def nd_rel_def)
    have "comp_rel (prog_rel bk)
        (cbind (evalUntil op (prg\<lparr>pr_nparen := pr_nparen prg - 1\<rparr>))
           (\<lambda>prg. COk (prg\<lparr>pr_lastwasand := True\<rparr>)))
        (cbind (ast_until bk op (st\<lparr>a_nparen := a_nparen st - 1\<rparr>)) (\<lambda>st. COk (st\<lparr>a_land := True\<rparr>)))"
      by (rule comp_rel_bind[OF evalUntil_refines[OF r op]]) (simp add: land_rel)
    then show ?thesis using 1 np
      by (subst operator.simps) (simp add: ast_operator_def)
  next
    case 2
    let ?p = "prg\<lparr>pr_nparen := pr_nparen prg + 1, pr_cursubid := pr_cursubid prg + 1\<rparr>"
    have r: "prog_rel bk ?p (st\<lparr>a_nparen := a_nparen st + 1\<rparr>)"
      using rel code_ok_mono[of "pr_cursubid prg" 0 _ _ "pr_cursubid prg + 1"]
      by (auto simp: prog_rel_def ops_rel_def nd_rel_def)
    have "comp_rel (prog_rel bk)
        (cbind (if pr_lastwasand ?p then operator tCAT ?p else COk ?p)
           (\<lambda>prg. COk ((pushOp op prg)\<lparr>pr_lastwasand := False\<rparr>)))
        (cbind (ast_implicit bk (st\<lparr>a_nparen := a_nparen st + 1\<rparr>)) (\<lambda>st.
           COk (st\<lparr>a_ops := op # a_ops st, a_land := False\<rparr>)))"
    proof (rule comp_rel_bind[OF implicit_refines[OF r]])
      fix a b
      assume a: "(if pr_lastwasand ?p then operator tCAT ?p else COk ?p) = COk a" and ab: "prog_rel bk a b"
      have "pr_cursubid x = pr_cursubid ?p" if "operator tCAT ?p = COk x" for x
        using that by (subst (asm) operator.simps)
          (auto simp: cbind_COk_iff sre_codes dest!: evalUntil_frame)
      then have "0 < pr_cursubid a" using a by (auto split: if_splits)
      then show "comp_rel (prog_rel bk) (COk ((pushOp op a)\<lparr>pr_lastwasand := False\<rparr>))
          (COk (b\<lparr>a_ops := op # a_ops b, a_land := False\<rparr>))"
        using land_rel[OF pushOp_rel[OF ab, of op], of False] by simp
    qed
    moreover have "operator op prg = cbind (if pr_lastwasand ?p then operator tCAT ?p else COk ?p)
           (\<lambda>prg. COk ((pushOp op prg)\<lparr>pr_lastwasand := False\<rparr>))"
      using 2 by (subst operator.simps)
        (cases "operator tCAT ?p"; simp add: Let_def sre_codes)
    ultimately show ?thesis using 2 by (simp add: ast_operator_def sre_codes)
  next
    case 3
    have "comp_rel (prog_rel bk)
        (cbind (cbind (evalUntil op prg) (\<lambda>prg. COk (pushOp op prg)))
           (\<lambda>prg. COk (prg\<lparr>pr_lastwasand := (op = tSTAR \<or> op = tQUEST \<or> op = tPLUS)\<rparr>)))
        (cbind (ast_push bk op st)
           (\<lambda>st. COk (st\<lparr>a_land := (op = tSTAR \<or> op = tQUEST \<or> op = tPLUS)\<rparr>)))"
      by (rule comp_rel_bind[OF push_refines[OF rel op 3(2)]]) (simp add: land_rel)
    moreover have "operator op prg =
        cbind (cbind (evalUntil op prg) (\<lambda>prg. COk (pushOp op prg)))
           (\<lambda>prg. COk (prg\<lparr>pr_lastwasand := (op = tSTAR \<or> op = tQUEST \<or> op = tPLUS)\<rparr>))"
      using 3 by (subst operator.simps) simp
    ultimately show ?thesis using 3 by (simp add: ast_operator_def)
  qed
qed

lemma emit_node:
  assumes c: "code_ok n 0 code nds" and op: "atom_op op"
  defines "i \<equiv> length code + (if code = [] then 1 else 0)"
  shows "code_ok n 0 ((grow op code)[i := (grow op code ! i)\<lparr>i_class := cls\<rparr>]) ((i, i) # nds)"
    and "frag ((grow op code)[i := (grow op code ! i)\<lparr>i_class := cls\<rparr>]) (SAtom op cls) i i"
    and "ext code ((grow op code)[i := (grow op code ! i)\<lparr>i_class := cls\<rparr>])"
proof -
  let ?c = "grow op code"
  let ?c' = "?c[i := (?c ! i)\<lparr>i_class := cls\<rparr>]"
  have i: "0 < i" "i < length ?c" by (auto simp: i_def grow_def)
  have gi: "?c ! i = new_inst op" by (auto simp: i_def grow_def nth_append)
  have c1: "cinv ?c ((i, i) # nds)" using cinv_grow[OF code_okD[OF c]] i_def by blast
  have x1: "ext code ?c" using ext_grow[OF code_okD[OF c]] .
  have "cinv ?c' ((i, i) # nds)" using cinv_upd[OF c1 i, of "i_class_update (\<lambda>_. cls)"] by simp
  moreover have "\<forall>y \<in> set ?c'. sub_good n y"
    by (rule set_upd_ok)
      (use c gi op in \<open>auto simp: code_ok_def grow_def new_inst_def sub_good_def atom_op_def sre_codes\<close>)
  moreover have "i_right (?c' ! p) \<noteq> 0" if p: "is_inst ?c' p tOR" for p
  proof (cases "p < length code")
    case True
    then have "p \<noteq> i" "?c ! p = code ! p" by (auto simp: i_def grow_def nth_append)
    then show ?thesis using p c True by (auto simp: code_ok_def is_inst_def nth_upd)
  next
    case False
    then have "p = i"
      using p by (auto simp: is_inst_def i_def grow_def split: if_splits)
    then show ?thesis using p gi op i by (simp add: is_inst_def new_inst_def atom_op_def)
  qed
  ultimately show "code_ok n 0 ?c' ((i, i) # nds)" by (simp add: code_ok_def)
  show "frag ?c' (SAtom op cls) i i" using i gi op by (simp add: is_inst_def new_inst_def)
  have "p \<noteq> i" if "p < length code" for p using that by (auto simp: i_def)
  then show "ext code ?c'" using x1 by (auto simp: ext_def nth_upd)
qed

lemma operand_refines:
  assumes rel: "prog_rel bk prg st" and op: "atom_op op"
  shows "comp_rel (prog_rel bk) (operand op val prg) (ast_operand bk op val st)"
  unfolding operand_def ast_operand_def
proof (rule comp_rel_bind[OF implicit_refines[OF rel]])
  fix prg1 st1
  assume r1: "prog_rel bk prg1 st1"
  define cls where "cls = (if op = tCCLASS \<or> op = tNCCLASS then val else [])"
  let ?c = "pr_code prg1"
  define i where "i = length ?c + (if ?c = [] then 1 else 0)"
  have c: "code_ok (pr_cursubid prg1) 0 ?c (pr_ndstk prg1)"
    using r1 by (simp add: prog_rel_def nd_rel_def)
  note e = emit_node[OF c op, of cls, folded i_def]
  have i: "i < length (grow op ?c)" "grow op ?c ! i = new_inst op"
    by (auto simp: i_def grow_def nth_append)
  have same: "(grow op ?c)[i := (grow op ?c ! i)\<lparr>i_class := []\<rparr>] = grow op ?c"
    using i by (simp add: new_inst_def list_update_same_conv)
  have "nd_rel (prg1\<lparr>pr_code := (grow op ?c)[i := (grow op ?c ! i)\<lparr>i_class := cls\<rparr>],
      pr_ndstk := (i, i) # pr_ndstk prg1\<rparr>) (SAtom op cls # a_nds st1)"
    using nd_relI[OF e] r1 by (auto simp: prog_rel_def nd_rel_def)
  then have "prog_rel bk (prg1\<lparr>pr_code := (grow op ?c)[i := (grow op ?c ! i)\<lparr>i_class := cls\<rparr>],
      pr_ndstk := (i, i) # pr_ndstk prg1, pr_lastwasand := True\<rparr>)
      (st1\<lparr>a_nds := SAtom op cls # a_nds st1, a_land := True\<rparr>)"
    using r1 by (auto simp: prog_rel_def ops_rel_def nd_rel_def)
  then show "comp_rel (prog_rel bk)
      (let (i, prg) = emit op prg1;
           prg = (if op = tCCLASS \<or> op = tNCCLASS then upd_inst i (i_class_update (\<lambda>_. val)) prg
                  else prg);
           prg = pushNd i i prg in
       COk (prg\<lparr>pr_lastwasand := True\<rparr>))
      (COk (st1\<lparr>a_nds := SAtom op (if op = tCCLASS \<or> op = tNCCLASS then val else []) # a_nds st1,
         a_land := True\<rparr>))"
    using same by (auto simp: emit_grow i_def[symmetric] cls_def upd_inst_def pushNd_def)
qed

section \<open>Tokens\<close>

text \<open>The runes of an expression are valid: at most the largest code point.\<close>

definition rune_ok :: "rune \<Rightarrow> bool" where
  "rune_ok c \<longleftrightarrow> 0 \<le> c \<and> c \<le> 0x10FFFF"

lemma rune_no_operator: "rune_ok c \<Longrightarrow> c AND tOPERATOR = 0"
proof (rule bit_eqI)
  fix n
  assume c: "rune_ok c"
  then have "c = take_bit 24 c"
    by (intro take_bit_int_eq_self[symmetric]) (auto simp: rune_ok_def)
  moreover have "tOPERATOR = 2 ^ 24" by (simp add: tOPERATOR_def)
  ultimately show "bit (c AND tOPERATOR) n = bit (0 :: int) n"
    by (metis bit_0_eq bit_and_iff bit_exp_iff bit_take_bit_iff bot_apply bot_bool_def less_irrefl)
qed

definition operators :: "rune set" where
  "operators = {tSTAR, tQUEST, tPLUS, tOR, tLPAREN, tRPAREN}"

definition atoms :: "rune set" where
  "atoms = {tANY, tWORD, tBLANK, tBOL, tEOL, tCCLASS, tNCCLASS}"

lemma operators_bit: "op \<in> operators \<Longrightarrow> op AND tOPERATOR \<noteq> 0 \<and> tOPERATOR < op"
  by (auto simp: operators_def sre_codes)

lemma atoms_bit: "op \<in> atoms \<or> op = tEND \<Longrightarrow> op AND tOPERATOR = 0 \<and> atom_op op"
  by (auto simp: atoms_def atom_op_def sre_codes)

lemma rune_atom: "rune_ok c \<Longrightarrow> atom_op c"
  by (auto simp: rune_ok_def atom_op_def sre_codes)

lemma getc_ok:
  "\<forall>c \<in> set e. rune_ok c \<Longrightarrow> sre_getc e = (c, e') \<Longrightarrow>
     (c = tEND \<or> rune_ok c) \<and> (\<forall>c \<in> set e'. rune_ok c)"
  by (auto simp: sre_getc_def split: list.splits)

lemma scanEl_ok: "\<forall>c \<in> set e. rune_ok c \<Longrightarrow> scanEl e = COk (c, e') \<Longrightarrow> \<forall>c \<in> set e'. rune_ok c"
  by (auto simp: scanEl_def sre_getc_def Let_def split: list.splits if_splits)

lemma sre_class_loop_ok:
  "\<forall>c \<in> set e. rune_ok c \<Longrightarrow> sre_class_loop e cls = COk (cls', e') \<Longrightarrow> \<forall>c \<in> set e'. rune_ok c"
proof (induction e cls rule: sre_class_loop.induct)
  case (1 e cls)
  obtain c1 e1 where el: "scanEl e = COk (c1, e1)"
    using 1(4) by (subst (asm) sre_class_loop.simps) (auto simp: cbind_COk_iff)
  have e1: "\<forall>c \<in> set e1. rune_ok c" using scanEl_ok[OF 1(3) el] .
  have ge: "\<forall>c \<in> set (snd (sre_getc e1)). rune_ok c"
    using e1 by (auto simp: sre_getc_def split: list.splits)
  consider (stop) "c1 = rune_of CHR '']'' \<or> c1 = tEND \<or> c1 = rune_of CHR ''-''"
    | (range) "\<not> (c1 = rune_of CHR '']'' \<or> c1 = tEND \<or> c1 = rune_of CHR ''-'')"
        "sre_peek e1 = rune_of CHR ''-''"
    | (one) "\<not> (c1 = rune_of CHR '']'' \<or> c1 = tEND \<or> c1 = rune_of CHR ''-'')"
        "sre_peek e1 \<noteq> rune_of CHR ''-''" by blast
  then show ?case
  proof cases
    case stop
    then show ?thesis using 1(4) el e1
      by (subst (asm) sre_class_loop.simps) (auto split: if_splits)
  next
    case range
    then obtain c2 e2 where e2: "scanEl (snd (sre_getc e1)) = COk (c2, e2)"
        "c2 \<noteq> rune_of CHR '']''" "c2 \<noteq> tEND" "sre_class_loop e2 (cls @ [cRange, c1, c2]) = COk (cls', e')"
      using 1(4) el by (subst (asm) sre_class_loop.simps) (auto simp: cbind_COk_iff split: if_splits)
    then show ?thesis
      using 1(1)[OF el refl _ _ range(2) e2(1) refl _ scanEl_ok[OF ge e2(1)]] range(1) by auto
  next
    case one
    then have "sre_class_loop e1 (cls @ [c1 AND NOT tQUOTE]) = COk (cls', e')"
      using 1(4) el by (subst (asm) sre_class_loop.simps) auto
    then show ?thesis using 1(2)[OF el refl _ _ one(2) e1] one(1) by auto
  qed
qed

lemma scanClass_ok:
  assumes "\<forall>c \<in> set e. rune_ok c" and "scanClass e = COk (cls, neg, e')"
  shows "\<forall>c \<in> set e'. rune_ok c"
proof -
  have "\<exists>x cls0. set x \<subseteq> set e \<and> sre_class_loop x cls0 = COk (cls, e')"
    using assms(2) unfolding scanClass_def Let_def
    by (auto simp: cbind_COk_iff sre_getc_def split: if_splits list.splits)
  then show ?thesis using assms(1) sre_class_loop_ok by blast
qed

lemma sre_lex_ok:
  assumes ok: "\<forall>c \<in> set e. rune_ok c" and lex: "sre_lex e = COk (tok, val, e')"
  shows "(tok \<in> operators \<or> tok \<in> atoms \<or> rune_ok tok \<or> tok = tEND) \<and> (\<forall>c \<in> set e'. rune_ok c)"
proof (cases e)
  case Nil
  then show ?thesis using lex by (simp add: sre_lex_def)
next
  case (Cons c e1)
  have e1: "\<forall>c \<in> set e1. rune_ok c" "rune_ok c" using ok Cons by auto
  obtain n e2 where g: "sre_getc e1 = (n, e2)" by force
  have nl: "rune_ok 10" "rune_ok 9" by (simp_all add: rune_ok_def)
  show ?thesis
    using lex e1 getc_ok[OF e1(1) g] scanClass_ok[OF e1(1)] nl unfolding sre_lex_def Let_def Cons
    by (auto simp: sre_getc_def[of "c # e1"] g cbind_COk_iff operators_def atoms_def
        split: if_splits)
qed

lemma lex_never_crashes: "sre_lex e \<noteq> CCrash"
proof -
  have s: "scanEl e \<noteq> CCrash" for e by (auto simp: scanEl_def Let_def split: prod.splits)
  have "sre_class_loop e cls \<noteq> CCrash" for e cls
  proof (induction e cls rule: sre_class_loop.induct)
    case (1 e cls)
    show ?case
      by (subst sre_class_loop.simps) (use 1 s in \<open>auto simp: cbind_CCrash_iff\<close>)
  qed
  then show ?thesis
    by (auto simp: sre_lex_def scanClass_def Let_def cbind_CCrash_iff split: prod.splits)
qed

section \<open>The whole compilation\<close>

lemma token_refines:
  assumes rel: "prog_rel bk prg st" and tok: "tok \<in> operators \<or> tok \<in> atoms \<or> rune_ok tok \<or> tok = tEND"
  shows "comp_rel (prog_rel bk)
           (if tok AND tOPERATOR \<noteq> 0 then operator tok prg else operand tok val prg)
           (ast_token bk tok val st)"
  using tok operators_bit atoms_bit rune_no_operator rune_atom
    operator_refines[OF rel] operand_refines[OF rel]
  by (auto simp: ast_token_def)

lemma expr_rel: "prog_rel bk (prg\<lparr>pr_expr := e\<rparr>) st = prog_rel bk prg st"
  by (simp add: prog_rel_def ops_rel_def nd_rel_def)

lemma compile_loop_refines:
  assumes "prog_rel bk prg st" and "\<forall>c \<in> set (pr_expr prg). rune_ok c"
  shows "comp_rel (prog_rel bk) (compile_loop prg) (ast_loop bk (pr_expr prg) st)"
  using assms
proof (induction "length (pr_expr prg)" arbitrary: prg st rule: less_induct)
  case less
  show ?case
  proof (cases "sre_lex (pr_expr prg)")
    case (COk t)
    obtain tok val e where t: "t = (tok, val, e)" by (cases t) auto
    have lex: "sre_lex (pr_expr prg) = COk (tok, val, e)" using COk t by simp
    note ok = sre_lex_ok[OF less.prems(2) lex]
    show ?thesis
    proof (cases "pr_expr prg = [] \<or> tok = tEND")
      case True
      then have "tok = tEND" using lex by (auto simp: sre_lex_def)
      then show ?thesis using lex less.prems(1)
        by (simp add: compile_loop.simps[of prg] ast_loop.simps[of bk "pr_expr prg"] expr_rel)
    next
      case False
      have "comp_rel (prog_rel bk)
          (cbind (if tok AND tOPERATOR \<noteq> 0 then operator tok (prg\<lparr>pr_expr := e\<rparr>)
                  else operand tok val (prg\<lparr>pr_expr := e\<rparr>)) compile_loop)
          (cbind (ast_token bk tok val st) (ast_loop bk e))"
      proof (rule comp_rel_bind[OF token_refines])
        fix prg1 st1
        assume x: "(if tok AND tOPERATOR \<noteq> 0 then operator tok (prg\<lparr>pr_expr := e\<rparr>)
                  else operand tok val (prg\<lparr>pr_expr := e\<rparr>)) = COk prg1"
          and r: "prog_rel bk prg1 st1"
        have e1: "pr_expr prg1 = e"
          using x operator_frame operand_frame by (fastforce split: if_splits)
        then have "length (pr_expr prg1) < length (pr_expr prg)"
          using sre_lex_shorter[OF lex] False by simp
        then show "comp_rel (prog_rel bk) (compile_loop prg1) (ast_loop bk e st1)"
          using less.hyps[OF _ r] e1 ok by simp
      qed (use ok less.prems(1) expr_rel in auto)
      then show ?thesis using False lex
        by (simp add: compile_loop.simps[of prg] ast_loop.simps[of bk "pr_expr prg"])
    qed
  next
    case (CErr x)
    then show ?thesis
      by (simp add: compile_loop.simps[of prg] ast_loop.simps[of bk "pr_expr prg"])
  qed (simp add: lex_never_crashes)
qed

end
