(* ===== verification/SreTree.thy ===== *)
theory SreTree
  imports SreComp
begin

text \<open>
  The result of a compilation: the tree of the whole expression, which ends in the end mark
  and has no other, and the code after the no-ops are eaten.
\<close>

section \<open>The tree of the whole expression\<close>

fun no_end :: "sre \<Rightarrow> bool" where
  "no_end (SAtom x cls) \<longleftrightarrow> x \<noteq> tEND"
| "no_end (SGroup r) \<longleftrightarrow> no_end r"
| "no_end (SAlt r1 r2) \<longleftrightarrow> no_end r1 \<and> no_end r2"
| "no_end (SCat r1 r2) \<longleftrightarrow> no_end r1 \<and> no_end r2"
| "no_end (SStar r) \<longleftrightarrow> no_end r"
| "no_end (SPlus r) \<longleftrightarrow> no_end r"
| "no_end (SOpt r) \<longleftrightarrow> no_end r"

abbreviation end_mark :: sre where
  "end_mark \<equiv> SAtom tEND []"

text \<open>The operators above the one that starts the stack, and as many parentheses as are open.\<close>

definition ast_inv :: "nat \<Rightarrow> ast_state \<Rightarrow> bool" where
  "ast_inv n st \<longleftrightarrow> (\<forall>r \<in> set (a_nds st). no_end r) \<and>
     (\<exists>ops. a_ops st = ops @ [tOPERATOR] \<and> set ops \<subseteq> {tSTAR, tQUEST, tPLUS, tOR, tCAT, tLPAREN} \<and>
        count_list ops tLPAREN = n)"

lemma ast_op_no_end:
  "ast_op bk op rs = COk rs' \<Longrightarrow> \<forall>r \<in> set rs. no_end r \<Longrightarrow> \<forall>r \<in> set rs'. no_end r"
  by (auto simp: ast_op_def unary_def binary_def ast_cat_def split: if_splits list.splits)

text \<open>Evaluation leaves the operators below the first that is not evaluated; those evaluated
  have no parenthesis, unless one ends the evaluation.\<close>

lemma ast_eval_ops:
  assumes "ast_eval bk pri ops rs = COk (ops', rs')" and "\<forall>r \<in> set rs. no_end r"
  shows "(\<forall>r \<in> set rs'. no_end r) \<and>
     (\<exists>pre. ops = pre @ ops' \<and>
        ((\<exists>q. pre = q @ [tLPAREN] \<and> tLPAREN \<notin> set q \<and> (pri = tRPAREN \<or> pri \<le> tLPAREN)) \<or>
         tLPAREN \<notin> set pre \<and> pri \<noteq> tRPAREN \<and> (\<exists>op ops0. ops' = op # ops0 \<and> op < pri)))"
  using assms
proof (induction ops arbitrary: rs)
  case Nil
  then show ?case by (auto split: if_splits)
next
  case (Cons op ops)
  show ?case
  proof (cases "pri = tRPAREN \<or> pri \<le> op")
    case False
    then have e: "ops' = op # ops" "rs' = rs" using Cons.prems(1) by auto
    have "op # ops = [] @ ops'" "tLPAREN \<notin> set []" "pri \<noteq> tRPAREN" "op < pri"
      using e False by auto
    then show ?thesis using e Cons.prems(2) by blast
  next
    case True
    then obtain rs1 where r1: "ast_op bk op rs = COk rs1"
        "if op = tLPAREN then ops' = ops \<and> rs' = rs1 else ast_eval bk pri ops rs1 = COk (ops', rs')"
      using Cons.prems(1) by (auto simp: cbind_COk_iff split: if_splits)
    note ne = ast_op_no_end[OF r1(1) Cons.prems(2)]
    show ?thesis
    proof (cases "op = tLPAREN")
      case True
      then have "op # ops = [tLPAREN] @ ops'" using r1 by simp
      moreover have "[tLPAREN] = [] @ [tLPAREN]" "pri = tRPAREN \<or> pri \<le> tLPAREN"
        using True \<open>pri = tRPAREN \<or> pri \<le> op\<close> by auto
      ultimately show ?thesis using ne r1(2) True by fastforce
    next
      case False
      then have "ast_eval bk pri ops rs1 = COk (ops', rs')" using r1(2) by simp
      from Cons.IH[OF this ne] obtain pre where pre: "ops = pre @ ops'" "\<forall>r \<in> set rs'. no_end r"
        "(\<exists>q. pre = q @ [tLPAREN] \<and> tLPAREN \<notin> set q \<and> (pri = tRPAREN \<or> pri \<le> tLPAREN)) \<or>
         tLPAREN \<notin> set pre \<and> pri \<noteq> tRPAREN \<and> (\<exists>op ops0. ops' = op # ops0 \<and> op < pri)" by blast
      have "op # ops = (op # pre) @ ops'" using pre(1) by simp
      moreover have "(\<exists>q. op # pre = q @ [tLPAREN] \<and> tLPAREN \<notin> set q \<and> (pri = tRPAREN \<or> pri \<le> tLPAREN)) \<or>
         tLPAREN \<notin> set (op # pre) \<and> pri \<noteq> tRPAREN \<and> (\<exists>op ops0. ops' = op # ops0 \<and> op < pri)"
        using pre(3)
      proof
        assume "\<exists>q. pre = q @ [tLPAREN] \<and> tLPAREN \<notin> set q \<and> (pri = tRPAREN \<or> pri \<le> tLPAREN)"
        then obtain q where "pre = q @ [tLPAREN]" "tLPAREN \<notin> set q" "pri = tRPAREN \<or> pri \<le> tLPAREN"
          by blast
        then have "op # pre = (op # q) @ [tLPAREN] \<and> tLPAREN \<notin> set (op # q) \<and>
            (pri = tRPAREN \<or> pri \<le> tLPAREN)" using False by simp
        then show ?thesis by blast
      qed (use False in auto)
      ultimately show ?thesis using pre(2) by blast
    qed
  qed
qed

lemma ast_until_inv:
  assumes inv: "ast_inv n st" and ev: "ast_until bk pri st = COk st'" and pri: "tLPAREN < pri"
  shows "ast_inv n st'"
proof -
  obtain ops where ops: "a_ops st = ops @ [tOPERATOR]"
      "set ops \<subseteq> {tSTAR, tQUEST, tPLUS, tOR, tCAT, tLPAREN}" "count_list ops tLPAREN = n"
    using inv by (auto simp: ast_inv_def)
  obtain ops' rs' where e: "ast_eval bk pri (a_ops st) (a_nds st) = COk (ops', rs')"
      "st' = st\<lparr>a_ops := ops', a_nds := rs'\<rparr>"
    using ev by (auto simp: ast_until_def cbind_COk_iff split: if_splits)
  have p: "pri \<noteq> tRPAREN" "\<not> pri \<le> tLPAREN" using pri by (auto simp: sre_codes)
  obtain pre op ops0 where pre: "\<forall>r \<in> set rs'. no_end r" "ops @ [tOPERATOR] = pre @ op # ops0"
      "ops' = op # ops0" "tLPAREN \<notin> set pre"
    using ast_eval_ops[OF e(1)] inv ops(1) p by (auto simp: ast_inv_def)
  obtain q where q: "op # ops0 = q @ [tOPERATOR]"
    using pre(2) by (metis append_butlast_last_id last_appendR list.distinct(1) last_snoc)
  then have "ops = pre @ q" using pre(2) by simp
  then have "set q \<subseteq> {tSTAR, tQUEST, tPLUS, tOR, tCAT, tLPAREN}" "count_list q tLPAREN = n"
    using ops pre(4) count_notin[OF pre(4)] by auto
  then show ?thesis unfolding ast_inv_def e(2) using pre(1,3) q by fastforce
qed

lemma ast_close_inv:
  assumes inv: "ast_inv n st" and ev: "ast_until bk tRPAREN st = COk st'" and n: "n \<noteq> 0"
  shows "ast_inv (n - 1) st'"
proof -
  obtain ops where ops: "a_ops st = ops @ [tOPERATOR]"
      "set ops \<subseteq> {tSTAR, tQUEST, tPLUS, tOR, tCAT, tLPAREN}" "count_list ops tLPAREN = n"
    using inv by (auto simp: ast_inv_def)
  obtain ops' rs' where e: "ast_eval bk tRPAREN (a_ops st) (a_nds st) = COk (ops', rs')"
      "st' = st\<lparr>a_ops := ops', a_nds := rs'\<rparr>"
    using ev by (auto simp: ast_until_def cbind_COk_iff split: if_splits)
  obtain q where pre: "\<forall>r \<in> set rs'. no_end r" "ops @ [tOPERATOR] = q @ tLPAREN # ops'" "tLPAREN \<notin> set q"
    using ast_eval_ops[OF e(1)] inv ops(1) by (auto simp: ast_inv_def)
  have "ops' \<noteq> []" using pre(2) by (auto simp: sre_codes)
  then obtain q' where q': "ops' = q' @ [tOPERATOR]"
    using pre(2) by (metis append_butlast_last_id last_ConsR last_appendR last_snoc list.distinct(1))
  then have "ops = q @ tLPAREN # q'" using pre(2) by simp
  then have "set q' \<subseteq> {tSTAR, tQUEST, tPLUS, tOR, tCAT, tLPAREN}"
      "count_list q' tLPAREN = n - 1"
    using ops pre(3) count_notin[OF pre(3)] by auto
  then show ?thesis unfolding ast_inv_def e(2) using pre(1) q' by fastforce
qed

lemma ast_inv_land: "ast_inv n (st\<lparr>a_land := b\<rparr>) = ast_inv n st"
  by (simp add: ast_inv_def)

lemma ast_inv_push:
  assumes "ast_inv n st" and "op \<in> {tSTAR, tQUEST, tPLUS, tOR, tCAT}"
  shows "ast_inv n (st\<lparr>a_ops := op # a_ops st\<rparr>)"
proof -
  obtain ops where ops: "a_ops st = ops @ [tOPERATOR]"
      "set ops \<subseteq> {tSTAR, tQUEST, tPLUS, tOR, tCAT, tLPAREN}" "count_list ops tLPAREN = n"
    using assms(1) by (auto simp: ast_inv_def)
  have "count_list (op # ops) tLPAREN = n" using assms(2) ops(3) by (auto simp: sre_codes)
  then show ?thesis
    using assms ops unfolding ast_inv_def by (intro conjI exI[of _ "op # ops"]) auto
qed

lemma ast_push_inv:
  "ast_inv n st \<Longrightarrow> ast_push bk op st = COk st' \<Longrightarrow> op \<in> {tSTAR, tQUEST, tPLUS, tOR, tCAT} \<Longrightarrow>
     ast_inv n st'"
  by (auto simp: ast_push_def cbind_COk_iff intro!: ast_inv_push elim: ast_until_inv) (auto simp: sre_codes elim!: ast_until_inv)

lemma ast_implicit_inv: "ast_inv n st \<Longrightarrow> ast_implicit bk st = COk st' \<Longrightarrow> ast_inv n st'"
  by (auto simp: ast_implicit_def cbind_COk_iff ast_inv_land dest: ast_push_inv split: if_splits)

lemma ast_implicit_nparen: "ast_implicit bk st = COk st' \<Longrightarrow> a_nparen st' = a_nparen st"
  by (auto simp: ast_implicit_def ast_push_def ast_until_def cbind_COk_iff split: if_splits)

lemma ast_until_nparen: "ast_until bk op st = COk st' \<Longrightarrow> a_nparen st' = a_nparen st"
  by (auto simp: ast_until_def cbind_COk_iff split: if_splits)

lemma ast_inv_open:
  assumes "ast_inv n st"
  shows "ast_inv (n + 1) (st\<lparr>a_ops := tLPAREN # a_ops st\<rparr>)"
proof -
  obtain ops where ops: "a_ops st = ops @ [tOPERATOR]"
      "set ops \<subseteq> {tSTAR, tQUEST, tPLUS, tOR, tCAT, tLPAREN}" "count_list ops tLPAREN = n"
    using assms(1) by (auto simp: ast_inv_def)
  have "count_list (tLPAREN # ops) tLPAREN = n + 1" using ops(3) by simp
  then show ?thesis
    using assms ops unfolding ast_inv_def by (intro conjI exI[of _ "tLPAREN # ops"]) auto
qed

lemma ast_inv_other: "ast_inv n (st\<lparr>a_nparen := k\<rparr>) = ast_inv n st"
  by (simp add: ast_inv_def)

text \<open>The parser keeps as many parentheses on the stack as it counts.\<close>

abbreviation ast_good :: "ast_state \<Rightarrow> bool" where
  "ast_good st \<equiv> ast_inv (a_nparen st) st"

lemma ast_operator_good:
  assumes "ast_good st" and "op \<in> operators" and "ast_operator bk op st = COk st'"
  shows "ast_good st'"
proof -
  consider "op = tRPAREN" | "op = tLPAREN" | "op \<in> {tSTAR, tQUEST, tPLUS, tOR}"
    using assms(2) by (auto simp: operators_def)
  then show ?thesis
  proof cases
    case 1
    then obtain st1 where st1: "a_nparen st \<noteq> 0"
        "ast_until bk tRPAREN (st\<lparr>a_nparen := a_nparen st - 1\<rparr>) = COk st1" "st' = st1\<lparr>a_land := True\<rparr>"
      using assms(3) by (auto simp: ast_operator_def cbind_COk_iff split: if_splits)
    have "ast_inv (a_nparen st - 1) st1"
      using ast_close_inv[OF _ st1(2,1)] assms(1) by (simp add: ast_inv_other)
    then show ?thesis using ast_until_nparen[OF st1(2)] st1(3) by (simp add: ast_inv_land)
  next
    case 2
    then obtain st1 where st1: "ast_implicit bk (st\<lparr>a_nparen := a_nparen st + 1\<rparr>) = COk st1"
        "st' = st1\<lparr>a_ops := tLPAREN # a_ops st1, a_land := False\<rparr>"
      using assms(3) by (auto simp: ast_operator_def cbind_COk_iff sre_codes split: if_splits)
    have "ast_inv (a_nparen st) st1"
      using ast_implicit_inv[OF _ st1(1)] assms(1) by (simp add: ast_inv_other)
    from ast_inv_open[OF this] show ?thesis
      using ast_implicit_nparen[OF st1(1)] st1(2) by (simp add: ast_inv_def)
  next
    case 3
    then obtain st1 where st1: "ast_push bk op st = COk st1"
        "st' = st1\<lparr>a_land := (op = tSTAR \<or> op = tQUEST \<or> op = tPLUS)\<rparr>"
      using assms(3) by (auto simp: ast_operator_def cbind_COk_iff sre_codes split: if_splits)
    have "a_nparen st1 = a_nparen st"
      using st1(1) by (auto simp: ast_push_def cbind_COk_iff dest: ast_until_nparen)
    then show ?thesis
      using ast_push_inv[OF assms(1) st1(1)] 3 st1(2) by (auto simp: ast_inv_land)
  qed
qed

lemma ast_operand_good:
  assumes "ast_good st" and "x \<noteq> tEND" and "ast_operand bk x val st = COk st'"
  shows "ast_good st'"
proof -
  obtain st1 where st1: "ast_implicit bk st = COk st1"
      "st' = st1\<lparr>a_nds := SAtom x (if x = tCCLASS \<or> x = tNCCLASS then val else []) # a_nds st1,
         a_land := True\<rparr>"
    using assms(3) by (auto simp: ast_operand_def cbind_COk_iff)
  show ?thesis
    using ast_implicit_inv[OF assms(1) st1(1)] ast_implicit_nparen[OF st1(1)] st1(2) assms(2)
    by (auto simp: ast_inv_def)
qed

lemma ast_loop_good:
  "ast_good st \<Longrightarrow> \<forall>c \<in> set e. rune_ok c \<Longrightarrow> ast_loop bk e st = COk st' \<Longrightarrow> ast_good st'"
proof (induction bk e st rule: ast_loop.induct)
  case (1 bk e st)
  obtain tok val e' where lex: "sre_lex e = COk (tok, val, e')"
    using 1(4) by (subst (asm) ast_loop.simps) (auto simp: cbind_COk_iff)
  note ok = sre_lex_ok[OF 1(3) lex]
  show ?case
  proof (cases "e = [] \<or> tok = tEND")
    case True
    then show ?thesis using 1(2,4) lex by (subst (asm) ast_loop.simps) auto
  next
    case False
    then obtain st1 where st1: "ast_token bk tok val st = COk st1" "ast_loop bk e' st1 = COk st'"
      using 1(4) lex by (subst (asm) ast_loop.simps) (auto simp: cbind_COk_iff)
    have "ast_good st1"
    proof (cases "tok \<in> operators")
      case True
      then show ?thesis
        using ast_operator_good[OF 1(2)] st1(1) operators_bit by (simp add: ast_token_def)
    next
      case F: False
      then have "tok AND tOPERATOR = 0" using ok atoms_bit rune_no_operator by auto
      then have "ast_operand bk tok val st = COk st1" using st1(1) by (simp add: ast_token_def)
      then show ?thesis using ast_operand_good[OF 1(2)] False by blast
    qed
    then show ?thesis using 1(1)[OF lex refl refl False st1(1)] ok st1(2) by blast
  qed
qed

text \<open>The shape of the tree of a whole expression.\<close>

definition whole :: "sre \<Rightarrow> bool" where
  "whole r \<longleftrightarrow> r = end_mark \<or> (\<exists>r1. no_end r1 \<and> r = SCat r1 end_mark)"

lemma sre_parse_whole:
  assumes p: "sre_parse bk re = COk r" and ok: "\<forall>c \<in> set re. rune_ok c"
  shows "whole r"
proof -
  obtain st1 st2 st3 st4 where s:
      "ast_loop bk re \<lparr>a_ops = [tSTART - 1], a_nds = [], a_nparen = 0, a_land = False\<rparr> = COk st1"
      "ast_until bk tSTART st1 = COk st2" "ast_operand bk tEND [] st2 = COk st3"
      "ast_until bk tSTART st3 = COk st4" "a_nparen st4 = 0" "\<exists>rs. a_nds st4 = r # rs"
    using p unfolding sre_parse_def by (auto simp: cbind_COk_iff split: if_splits list.splits)
  have "ast_good \<lparr>a_ops = [tSTART - 1], a_nds = [], a_nparen = 0, a_land = False\<rparr>"
    by (auto simp: ast_inv_def sre_codes)
  from ast_loop_good[OF this ok s(1)] have g1: "ast_good st1" .
  obtain st25 where st25: "ast_implicit bk st2 = COk st25"
      "st3 = st25\<lparr>a_nds := end_mark # a_nds st25, a_land := True\<rparr>"
    using s(3) by (auto simp: ast_operand_def cbind_COk_iff sre_codes)
  have n: "a_nparen st1 = 0"
    using s(5) ast_until_nparen[OF s(2)] ast_until_nparen[OF s(4)] ast_implicit_nparen[OF st25(1)]
      st25(2) by simp
  obtain ops where ops: "a_ops st1 = ops @ [tOPERATOR]"
      "set ops \<subseteq> {tSTAR, tQUEST, tPLUS, tOR, tCAT}" "\<forall>r \<in> set (a_nds st1). no_end r"
    using g1 n unfolding ast_inv_def by (auto simp: count_list_0_iff)
  obtain ops' rs' where e: "ast_eval bk tSTART (a_ops st1) (a_nds st1) = COk (ops', rs')"
      "st2 = st1\<lparr>a_ops := ops', a_nds := rs'\<rparr>"
    using s(2) by (auto simp: ast_until_def cbind_COk_iff split: if_splits)
  have nl: "tLPAREN \<notin> set (ops @ [tOPERATOR])" using ops(2) by (auto simp: sre_codes)
  obtain pre0 where pre0: "ops @ [tOPERATOR] = pre0 @ ops'"
      "(\<exists>q. pre0 = q @ [tLPAREN]) \<or> (\<exists>op ops0. ops' = op # ops0 \<and> op < tSTART)"
      "\<forall>r \<in> set rs'. no_end r"
    using ast_eval_ops[OF e(1) ops(3)] ops(1) by metis
  have "\<not> (\<exists>q. pre0 = q @ [tLPAREN])" using nl pre0(1) by auto
  then obtain op ops0 pre where pre: "\<forall>r \<in> set rs'. no_end r"
      "ops @ [tOPERATOR] = pre @ op # ops0" "ops' = op # ops0" "op < tSTART"
    using pre0 by blast
  have "op = tOPERATOR"
  proof (rule ccontr)
    assume "op \<noteq> tOPERATOR"
    moreover have "op \<in> set (ops @ [tOPERATOR])" using pre(2) by auto
    ultimately have "op \<in> {tSTAR, tQUEST, tPLUS, tOR, tCAT}" using ops(2) by auto
    then show False using pre(4) by (auto simp: sre_codes)
  qed
  moreover have "tOPERATOR \<notin> set ops" using ops(2) by (auto simp: sre_codes)
  ultimately have "ops0 = []"
    using pre(2) by (metis append_eq_append_conv2 append_Cons in_set_conv_decomp list.inject
        append_Nil append_Nil2 butlast_snoc butlast_append butlast.simps(2) list.distinct(1))
  then have st2: "a_ops st2 = [tOPERATOR]" "a_nds st2 = rs'"
    using e pre(3) \<open>op = tOPERATOR\<close> by auto
  have t: "tSTART \<noteq> tRPAREN" "\<not> tSTART \<le> tOPERATOR" "tSTART \<le> tCAT" "tCAT \<noteq> tLPAREN"
      "tCAT \<noteq> tRPAREN" "\<not> tCAT \<le> tOPERATOR" "tCAT \<noteq> tOR"
    by (auto simp: sre_codes)
  show ?thesis
  proof (cases "a_land st2")
    case False
    then have "a_ops st3 = [tOPERATOR]" "a_nds st3 = end_mark # rs'"
      using st25 st2 by (auto simp: ast_implicit_def)
    then have "a_nds st4 = end_mark # rs'"
      using s(4) t by (auto simp: ast_until_def)
    then show ?thesis using s(6) by (auto simp: whole_def)
  next
    case True
    then have "a_ops st3 = [tCAT, tOPERATOR]" "a_nds st3 = end_mark # rs'"
      using st25 st2 t by (auto simp: ast_implicit_def ast_push_def ast_until_def)
    then obtain rs4 where r4: "ast_op bk tCAT (end_mark # rs') = COk rs4" "a_nds st4 = rs4"
      using s(4) t by (auto simp: ast_until_def cbind_COk_iff split: if_splits)
    then obtain r1 rs where "rs' = r1 # rs" "rs4 = SCat r1 end_mark # rs"
      using t by (auto simp: ast_op_def binary_def ast_cat_def split: list.splits)
    then show ?thesis using s(6) r4 pre(1) by (auto simp: whole_def)
  qed
qed

section \<open>Eating the no-ops\<close>

text \<open>\<open>skips code x t\<close>: the first instruction from \<open>x\<close> to the left that is no no-op is \<open>t\<close>.\<close>

inductive skips :: "inst list \<Rightarrow> nat \<Rightarrow> nat \<Rightarrow> bool" for code where
  skips_stop: "x < length code \<Longrightarrow> i_op (code ! x) \<noteq> tNOP \<Longrightarrow> skips code x x"
| skips_next: "x < length code \<Longrightarrow> i_op (code ! x) = tNOP \<Longrightarrow> skips code (i_left (code ! x)) t \<Longrightarrow>
    skips code x t"

lemma skips_nops: "skips code x t \<Longrightarrow> skip_nops code x = Some (COk t)"
  by (induction rule: skips.induct) (simp_all add: skip_nops.simps)

lemma skips_target: "skips code x t \<Longrightarrow> t < length code \<and> i_op (code ! t) \<noteq> tNOP \<and> skips code t t"
  by (induction rule: skips.induct) (auto intro: skips_stop)

lemma skips_id: "skips code x t \<Longrightarrow> i_op (code ! x) \<noteq> tNOP \<Longrightarrow> t = x"
  by (auto elim: skips.cases)

lemma skips_unique: "skips code x t \<Longrightarrow> skips code x t' \<Longrightarrow> t' = t"
  using skips_nops[of code x t] skips_nops[of code x t'] by simp

text \<open>\<open>eaten code code'\<close>: the code after all of its no-ops were eaten.\<close>

definition same_but_left :: "inst list \<Rightarrow> inst list \<Rightarrow> bool" where
  "same_but_left code code' \<longleftrightarrow> length code' = length code \<and>
     (\<forall>p < length code. i_op (code' ! p) = i_op (code ! p) \<and> i_class (code' ! p) = i_class (code ! p) \<and>
        i_subid (code' ! p) = i_subid (code ! p) \<and> i_right (code' ! p) = i_right (code ! p))"

definition eaten :: "inst list \<Rightarrow> inst list \<Rightarrow> bool" where
  "eaten code code' \<longleftrightarrow> same_but_left code code' \<and>
     (\<forall>p < length code. skips code (i_left (code ! p)) (i_left (code' ! p)))"

lemma eat_loop_eats:
  assumes "distinct pcs" and "set pcs \<subseteq> {..< length code}" and "same_but_left code c"
    and "\<forall>x t. skips code x t \<longrightarrow> skips c x t"
    and "\<forall>p < length code. if p \<in> set pcs then i_left (c ! p) = i_left (code ! p)
           else skips code (i_left (code ! p)) (i_left (c ! p))"
    and tot: "\<forall>p < length code. \<exists>t. skips code (i_left (code ! p)) t"
  shows "\<exists>code'. eat_loop pcs c = Some (COk code') \<and> eaten code code'"
  using assms
proof (induction pcs arbitrary: c)
  case Nil
  then show ?case by (auto simp: eaten_def)
next
  case (Cons pc pcs)
  have pc: "pc < length code" "i_left (c ! pc) = i_left (code ! pc)" "length c = length code"
    using Cons.prems by (auto simp: same_but_left_def)
  obtain t where t: "skips code (i_left (code ! pc)) t" using tot pc by blast
  let ?c = "link pc t c"
  have same: "same_but_left code ?c"
    using Cons.prems(3) by (auto simp: same_but_left_def nth_upd)
  have sk: "skips ?c x y" if "skips code x y" for x y
    using that
  proof (induction rule: skips.induct)
    case (skips_stop x)
    then show ?case using same by (intro skips.skips_stop) (auto simp: same_but_left_def)
  next
    case (skips_next x y)
    have x: "x < length ?c" "i_op (?c ! x) = tNOP"
      using skips_next same by (auto simp: same_but_left_def)
    show ?case
    proof (rule skips.skips_next[OF x])
      have "i_left (?c ! x) = i_left (code ! x) \<or> skips code (i_left (code ! x)) (i_left (?c ! x))"
        using Cons.prems(5) t pc skips_next(1) by (auto simp: nth_upd split: if_splits)
      then show "skips ?c (i_left (?c ! x)) y"
      proof
        assume l: "skips code (i_left (code ! x)) (i_left (?c ! x))"
        then have y: "y = i_left (?c ! x)" using skips_unique[OF _ skips_next(3)] by blast
        have "y < length ?c" "i_op (?c ! y) \<noteq> tNOP"
          using skips_target[OF skips_next(3)] same by (auto simp: same_but_left_def)
        then show ?thesis using y skips.skips_stop by metis
      qed (use skips_next.IH in simp)
    qed
  qed
  have "\<exists>code'. eat_loop pcs ?c = Some (COk code') \<and> eaten code code'"
  proof (rule Cons.IH)
    show "\<forall>p < length code. if p \<in> set pcs then i_left (?c ! p) = i_left (code ! p)
           else skips code (i_left (code ! p)) (i_left (?c ! p))"
      using Cons.prems(1,5) t pc by (auto simp: nth_upd)
  qed (use Cons.prems same sk tot in auto)
  moreover have "skip_nops c (i_left (c ! pc)) = Some (COk t)"
    using skips_nops Cons.prems(4) t pc(2) by simp
  ultimately show ?case by simp
qed

lemma cinv_skips:
  assumes "cinv code nds" and "x < length code"
  shows "\<exists>t. skips code x t"
proof -
  have zero: "\<exists>t. skips code 0 t" if "code \<noteq> []"
    using assms(1) that by (intro exI[of _ 0] skips_stop) (auto simp: cinv_def new_inst_def sre_codes)
  have "ends code p e \<Longrightarrow> \<exists>t. skips code p t" for p e
  proof (induction rule: ends.induct)
    case (ends_stop p)
    then show ?case
      using zero by (cases "i_op (code ! p) = tNOP") (force intro: skips.intros)+
  next
    case (ends_next p e)
    then show ?case by (cases "i_op (code ! p) = tNOP") (auto intro: skips.intros)
  qed
  then show ?thesis
    using cinv_ends[OF assms(1), of x] assms(2) zero by (cases "x = 0") fastforce+
qed

lemma ends_left: "ends code p e \<Longrightarrow> i_left (code ! p) < length code"
  by (auto elim!: ends.cases dest: ends_bounds)

lemma cinv_left:
  assumes "cinv code nds" and "p < length code"
  shows "i_left (code ! p) < length code"
proof (cases "p = 0")
  case True
  then show ?thesis using assms by (auto simp: cinv_def new_inst_def)
next
  case False
  then show ?thesis using cinv_ends[OF assms(1)] assms(2) ends_left by blast
qed

lemma eatNops_eats:
  assumes "cinv (pr_code prg) nds"
  shows "\<exists>code'. eatNops prg = Some (COk (prg\<lparr>pr_code := code'\<rparr>)) \<and> eaten (pr_code prg) code'"
proof -
  have "\<exists>code'. eat_loop [0..<length (pr_code prg)] (pr_code prg) = Some (COk code') \<and>
      eaten (pr_code prg) code'"
    using cinv_skips[OF assms] cinv_left[OF assms]
    by (intro eat_loop_eats) (auto simp: same_but_left_def)
  then show ?thesis by (auto simp: eatNops_def)
qed

section \<open>The whole compilation\<close>

text \<open>What is known of a compiled program: some code with no-ops, whose fragment from the
  entry is the tree, became the program when its no-ops were eaten.\<close>

definition compiled :: "dir \<Rightarrow> reprog \<Rightarrow> sre \<Rightarrow> bool" where
  "compiled dir prg r \<longleftrightarrow> whole r \<and> pr_back prg = (dir = Bck) \<and>
     (\<exists>code l nds. code_ok (pr_cursubid prg) 0 code ((pr_entry prg, l) # nds) \<and>
        frag code r (pr_entry prg) l \<and> eaten code (pr_code prg))"

lemma comp_rel_strengthen:
  "comp_rel R x y \<Longrightarrow> (\<And>a b. x = COk a \<Longrightarrow> y = COk b \<Longrightarrow> R a b \<Longrightarrow> S a b) \<Longrightarrow> comp_rel S x y"
  by (cases x; cases y) auto

lemma new_prog_rel:
  "prog_rel (dir = Bck) (pushOp (tSTART - 1) (new_prog re dir))
     \<lparr>a_ops = [tSTART - 1], a_nds = [], a_nparen = 0, a_land = False\<rparr>"
  by (simp add: prog_rel_def ops_rel_def nd_rel_def new_prog_def pushOp_def sre_codes code_ok_def
      is_inst_def)

lemma ast_eval_nonempty: "ast_eval bk pri ops rs = COk (ops', rs') \<Longrightarrow> rs \<noteq> [] \<Longrightarrow> rs' \<noteq> []"
proof (induction ops arbitrary: rs)
  case (Cons op ops)
  have "ast_op bk op rs = COk rs1 \<Longrightarrow> rs1 \<noteq> []" for rs1
    by (auto simp: ast_op_def unary_def binary_def split: if_splits list.splits)
  then show ?case using Cons by (auto simp: cbind_COk_iff split: if_splits)
qed (auto split: if_splits)

lemma ast_until_nonempty: "ast_until bk pri st = COk st' \<Longrightarrow> a_nds st \<noteq> [] \<Longrightarrow> a_nds st' \<noteq> []"
  by (auto simp: ast_until_def cbind_COk_iff split: if_splits dest: ast_eval_nonempty)

lemma ast_operand_nonempty: "ast_operand bk x cls st = COk st' \<Longrightarrow> a_nds st' \<noteq> []"
  by (auto simp: ast_operand_def cbind_COk_iff)

lemma compile_body_refines:
  assumes "\<forall>c \<in> set re. rune_ok c"
  shows "comp_rel (\<lambda>prg r. pr_back prg = (dir = Bck) \<and>
      (\<exists>l nds rs. pr_ndstk prg = (pr_entry prg, l) # nds \<and> nd_rel prg (r # rs)))
    (compile_body (new_prog re dir)) (sre_parse (dir = Bck) re)"
  unfolding compile_body_def sre_parse_def
proof (rule comp_rel_bind)
  show "comp_rel (prog_rel (dir = Bck)) (compile_loop (pushOp (tSTART - 1) (new_prog re dir)))
      (ast_loop (dir = Bck) re \<lparr>a_ops = [tSTART - 1], a_nds = [], a_nparen = 0, a_land = False\<rparr>)"
    using compile_loop_refines[OF new_prog_rel, of re dir] assms
    by (simp add: new_prog_def pushOp_def)
next
  fix p1 s1
  assume r1: "prog_rel (dir = Bck) p1 s1"
  have st: "tOPERATOR < tSTART" "atom_op tEND" by (auto simp: sre_codes atom_op_def)
  show "comp_rel (\<lambda>prg r. pr_back prg = (dir = Bck) \<and>
      (\<exists>l nds rs. pr_ndstk prg = (pr_entry prg, l) # nds \<and> nd_rel prg (r # rs)))
    (cbind (evalUntil tSTART p1) (\<lambda>prg. cbind (operand tEND [] prg) (\<lambda>prg.
       cbind (evalUntil tSTART prg) (\<lambda>prg.
         if pr_nparen prg \<noteq> 0 then CErr (''unmatched '' @ [CHR 0x27, CHR ''('', CHR 0x27])
         else case pr_ndstk prg of [] \<Rightarrow> CCrash | nd # _ \<Rightarrow> COk (prg\<lparr>pr_entry := fst nd\<rparr>)))))
    (cbind (ast_until (dir = Bck) tSTART s1) (\<lambda>st. cbind (ast_operand (dir = Bck) tEND [] st) (\<lambda>st.
       cbind (ast_until (dir = Bck) tSTART st) (\<lambda>st.
         if a_nparen st \<noteq> 0 then CErr (''unmatched '' @ [CHR 0x27, CHR ''('', CHR 0x27])
         else case a_nds st of [] \<Rightarrow> CCrash | r # _ \<Rightarrow> COk r))))"
  proof (rule comp_rel_bind[OF evalUntil_refines[OF r1 st(1)]],
      rule comp_rel_bind[OF operand_refines[OF _ st(2)]], assumption,
      rule comp_rel_bind[OF evalUntil_refines[OF _ st(1)]], assumption)
    fix p2 s2 p3 s3 p4 s4
    assume o: "ast_operand (dir = Bck) tEND [] s2 = COk s3"
      and u: "ast_until (dir = Bck) tSTART s3 = COk s4" and r4: "prog_rel (dir = Bck) p4 s4"
    show "comp_rel (\<lambda>prg r. pr_back prg = (dir = Bck) \<and>
      (\<exists>l nds rs. pr_ndstk prg = (pr_entry prg, l) # nds \<and> nd_rel prg (r # rs)))
      (if pr_nparen p4 \<noteq> 0 then CErr (''unmatched '' @ [CHR 0x27, CHR ''('', CHR 0x27])
         else case pr_ndstk p4 of [] \<Rightarrow> CCrash | nd # _ \<Rightarrow> COk (p4\<lparr>pr_entry := fst nd\<rparr>))
      (if a_nparen s4 \<noteq> 0 then CErr (''unmatched '' @ [CHR 0x27, CHR ''('', CHR 0x27])
         else case a_nds s4 of [] \<Rightarrow> CCrash | r # _ \<Rightarrow> COk r)"
    proof (cases "a_nds s4")
      case Nil
      then show ?thesis using ast_operand_nonempty[OF o] ast_until_nonempty[OF u] by simp
    next
      case (Cons r rs)
      then obtain f l nds where nd: "pr_ndstk p4 = (f, l) # nds"
        using r4 by (auto simp: prog_rel_def nd_rel_def list_all2_Cons1)
      then show ?thesis using Cons r4
        by (auto simp: prog_rel_def nd_rel_def)
    qed
  qed
qed

lemma Compile_refines:
  assumes ok: "\<forall>c \<in> set re. rune_ok c"
  shows "\<exists>y. sre_Compile re dir = Some y \<and> comp_rel (compiled dir) y (sre_parse (dir = Bck) re)"
proof (cases "compile_body (new_prog re dir)")
  case (COk prg)
  note b = compile_body_refines[OF ok, of dir]
  obtain r where r: "sre_parse (dir = Bck) re = COk r" using b COk
    by (cases "sre_parse (dir = Bck) re") auto
  obtain l nds rs where n: "pr_ndstk prg = (pr_entry prg, l) # nds" "nd_rel prg (r # rs)"
      "pr_back prg = (dir = Bck)"
    using b COk r by auto
  have c: "code_ok (pr_cursubid prg) 0 (pr_code prg) ((pr_entry prg, l) # nds)"
      "frag (pr_code prg) r (pr_entry prg) l"
    using n by (auto simp: nd_rel_def)
  obtain code' where e: "eatNops prg = Some (COk (prg\<lparr>pr_code := code'\<rparr>))" "eaten (pr_code prg) code'"
    using eatNops_eats[OF code_okD[OF c(1)]] by blast
  have "compiled dir (prg\<lparr>pr_code := code'\<rparr>) r"
    using c e(2) n(3) sre_parse_whole[OF r ok] unfolding compiled_def by auto
  then show ?thesis using COk e(1) r by (simp add: sre_Compile_def)
next
  case (CErr x)
  then show ?thesis using compile_body_refines[OF ok, of dir] by (simp add: sre_Compile_def)
      (cases "sre_parse (dir = Bck) re"; simp)
next
  case CCrash
  then show ?thesis using compile_body_refines[OF ok, of dir] by simp
qed

end
