(* ===== verification/SreExec.thy ===== *)
theory SreExec
  imports Sre
begin

text \<open>
  The execution of compiled regular expressions, \<open>src/sre/exec.go\<close>: the machine advances a
  list of states over the text, each an instruction to start with and the selections made to
  reach it, and keeps the best match found.

  The selections of a state are an array the state owns, which the instructions of the state
  update in place while it runs (the \<open>sel\<close> of the state in the list, here too).  A loop that
  does not end is None.
\<close>

section \<open>Texts, selections, states\<close>

text \<open>The interface \<open>Text\<close>: a provider of runes.\<close>

record rune_text =
  rd_Len :: int
  rd_Getc :: "int \<Rightarrow> rune go"

definition sre_runestr :: "rune list \<Rightarrow> rune_text" where
  "sre_runestr t = \<lparr>rd_Len = len t,
     rd_Getc = (\<lambda>n. if 0 \<le> n \<and> n < len t then Ret (t ! nat n) else Panic)\<rparr>"

record sre_range =
  P0 :: int
  P1 :: int

type_synonym sels = "sre_range list"

definition no_sel :: "nat \<Rightarrow> sels" where
  "no_sel n = replicate n \<lparr>P0 = 0, P1 = 0\<rparr>"

definition set_P0 :: "nat \<Rightarrow> int \<Rightarrow> sels \<Rightarrow> sels go" where
  "set_P0 k p sel = (if k < length sel then Ret (sel[k := (sel ! k)\<lparr>P0 := p\<rparr>]) else Panic)"

definition set_P1 :: "nat \<Rightarrow> int \<Rightarrow> sels \<Rightarrow> sels go" where
  "set_P1 k p sel = (if k < length sel then Ret (sel[k := (sel ! k)\<lparr>P1 := p\<rparr>]) else Panic)"

definition sre_retsel :: "sels \<Rightarrow> sels" where
  "sre_retsel r = (if r = [] \<or> P0 (hd r) < 0 then [] else r)"

record nstate =
  st_i :: nat
  st_sel :: sels

text \<open>\<open>add\<close>: a state that is there already only takes the selections, if they start before.\<close>

fun states_add :: "nat \<Rightarrow> sels \<Rightarrow> nstate list \<Rightarrow> nstate list" where
  "states_add i sel [] = [\<lparr>st_i = i, st_sel = sel\<rparr>]"
| "states_add i sel (s # ss) =
     (if st_i s = i then
        (if P0 (hd sel) < P0 (hd (st_sel s)) then s\<lparr>st_sel := sel\<rparr> # ss else s # ss)
      else s # states_add i sel ss)"

definition sre_newmatch :: "sels \<Rightarrow> sels \<Rightarrow> sels" where
  "sre_newmatch sel r =
     (if P0 (hd sel) < 0 \<or> P0 (hd r) < P0 (hd sel) \<or>
         P0 (hd r) = P0 (hd sel) \<and> P1 (hd sel) < P1 (hd r)
      then r else sel)"

definition sre_newbackmatch :: "sels \<Rightarrow> sels \<Rightarrow> sels" where
  "sre_newbackmatch sel r =
     (if P0 (hd sel) < 0 \<or> P1 (hd sel) < P0 (hd r) \<or>
         P0 (hd r) = P1 (hd sel) \<and> P1 (hd r) < P0 (hd sel)
      then map (\<lambda>x. \<lparr>P0 = P1 x, P1 = P0 x\<rparr>) r else sel)"

section \<open>Character classes\<close>

text \<open>Letters and numbers: ASCII, and past ASCII what the Unicode tables say.\<close>

definition go_is_word :: "(rune \<Rightarrow> bool) \<Rightarrow> rune \<Rightarrow> bool" where
  "go_is_word tab r \<longleftrightarrow>
     (if r < 0x80 then 48 \<le> r \<and> r \<le> 57 \<or> 65 \<le> r \<and> r \<le> 90 \<or> 97 \<le> r \<and> r \<le> 122 else tab r)"

text \<open>A range is the flag and its two bounds; the bounds may be missing after a flag that came
  from the expression itself.\<close>

fun sre_classMatch :: "(rune \<Rightarrow> bool) \<Rightarrow> rune list \<Rightarrow> rune \<Rightarrow> bool go" where
  "sre_classMatch tab [] c = Ret False"
| "sre_classMatch tab (r # cls) c =
     (if r = tWORD \<and> go_is_word tab c then Ret True
      else if r = tBLANK \<and> go_is_space c then Ret True
      else if r = cRange then
        (case cls of
           [] \<Rightarrow> Panic
         | [a] \<Rightarrow> if a \<le> c then Panic else Ret False
         | a # b # cls' \<Rightarrow> if a \<le> c \<and> c \<le> b then Ret True else sre_classMatch tab cls' c)
      else if r = c then Ret True
      else sre_classMatch tab cls c)"

section \<open>Instructions\<close>

text \<open>The machine: the current and the next lists of states, the best match, and the flag of
  the backward search that asks for one more round.\<close>

record machine =
  m_cur :: "nstate list"
  m_nxt :: "nstate list"
  m_sel :: sels
  m_more :: bool

text \<open>What an instruction does: go on with another, end the state, or break out of the list.\<close>

datatype goto = Goto nat | Next | Break

definition next_add :: "nat \<Rightarrow> nat \<Rightarrow> machine \<Rightarrow> machine" where
  "next_add si t m = m\<lparr>m_nxt := states_add t (st_sel (m_cur m ! si)) (m_nxt m)\<rparr>"

definition cur_add :: "nat \<Rightarrow> nat \<Rightarrow> machine \<Rightarrow> machine" where
  "cur_add si t m = m\<lparr>m_cur := states_add t (st_sel (m_cur m ! si)) (m_cur m)\<rparr>"

definition cur_sel :: "nat \<Rightarrow> sels \<Rightarrow> machine \<Rightarrow> machine" where
  "cur_sel si sel m = m\<lparr>m_cur := (m_cur m)[si := (m_cur m ! si)\<lparr>st_sel := sel\<rparr>]\<rparr>"

text \<open>The instructions that are the same in both directions: those that consume the rune
  \<open>c\<close>, those that mark a subexpression, and the branch.\<close>

definition exec_common ::
    "(rune \<Rightarrow> bool) \<Rightarrow> inst \<Rightarrow> int \<Rightarrow> rune \<Rightarrow> nat \<Rightarrow> machine \<Rightarrow> (goto \<times> machine) go" where
  "exec_common tab x p c si m =
     (if i_op x = tLPAREN then
        go_map (\<lambda>sel. (Goto (i_left x), cur_sel si sel m)) (set_P0 (i_subid x) p (st_sel (m_cur m ! si)))
      else if i_op x = tRPAREN then
        go_map (\<lambda>sel. (Goto (i_left x), cur_sel si sel m)) (set_P1 (i_subid x) p (st_sel (m_cur m ! si)))
      else if i_op x = tANY then
        Ret (Next, if c \<noteq> 10 \<and> c \<noteq> 0 then next_add si (i_left x) m else m)
      else if i_op x = tWORD then
        Ret (Next, if go_is_word tab c then next_add si (i_left x) m else m)
      else if i_op x = tBLANK then
        Ret (Next, if go_is_space c \<and> c \<noteq> 10 then next_add si (i_left x) m else m)
      else if i_op x = tCCLASS then
        go_map (\<lambda>b. (Next, if b then next_add si (i_left x) m else m)) (sre_classMatch tab (i_class x) c)
      else if i_op x = tNCCLASS then
        go_map (\<lambda>b. (Next, if b then m else next_add si (i_left x) m)) (sre_classMatch tab (i_class x) c)
      else if i_op x = tOR then Ret (Goto (i_left x), cur_add si (i_right x) m)
      else Ret (Next, if i_op x = c then next_add si (i_left x) m else m))"

text \<open>The body of the label \<open>Exec\<close> of the forward search, at \<open>p\<close>.\<close>

definition exec_inst ::
    "(rune \<Rightarrow> bool) \<Rightarrow> reprog \<Rightarrow> rune_text \<Rightarrow> int \<Rightarrow> int \<Rightarrow> rune \<Rightarrow> nat \<Rightarrow> nat \<Rightarrow> machine \<Rightarrow>
       (goto \<times> machine) go" where
  "exec_inst tab prg txt end p c si i m =
     (if i = 0 then Ret (Break, m)
      else if \<not> i < length (pr_code prg) then Panic
      else
        let x = pr_code prg ! i in
        if i_op x = tBOL then
          (if p = 0 then Ret (Goto (i_left x), m)
           else go_map (\<lambda>r. (if r = 10 \<and> p < end then Goto (i_left x) else Next, m)) (rd_Getc txt (p - 1)))
        else if i_op x = tEOL then
          Ret (if c = 10 \<or> c = 0 then Goto (i_left x) else Next, m)
        else if i_op x = tEND then
          go_map (\<lambda>sel. (Next, (cur_sel si sel m)\<lparr>m_sel := sre_newmatch (m_sel m) sel\<rparr>))
            (set_P1 0 p (st_sel (m_cur m ! si)))
        else exec_common tab x p c si m)"

text \<open>The same of the backward search, which has negated the start of the match.\<close>

definition exec_back_inst ::
    "(rune \<Rightarrow> bool) \<Rightarrow> reprog \<Rightarrow> rune_text \<Rightarrow> int \<Rightarrow> int \<Rightarrow> int \<Rightarrow> rune \<Rightarrow> nat \<Rightarrow> nat \<Rightarrow> machine \<Rightarrow>
       (goto \<times> machine) go" where
  "exec_back_inst tab prg txt start end p c si i m =
     (if i = 0 then Ret (Break, m)
      else if \<not> i < length (pr_code prg) then Panic
      else
        let x = pr_code prg ! i in
        if i_op x = tBOL then
          (if c = 0 then Ret (Goto (i_left x), m\<lparr>m_more := True\<rparr>)
           else if 0 < p then
             go_map (\<lambda>r. (if r = 10 \<and> p < end then Goto (i_left x) else Next, m)) (rd_Getc txt (p - 1))
           else Ret (Next, m))
        else if i_op x = tEOL then
          (if p = start then Ret (Goto (i_left x), m)
           else go_map (\<lambda>r. (if r = 10 then Goto (i_left x) else Next, m)) (rd_Getc txt p))
        else if i_op x = tEND then
          go_bind (set_P0 0 (- P0 (hd (st_sel (m_cur m ! si)))) (st_sel (m_cur m ! si))) (\<lambda>sel.
          go_map (\<lambda>sel. (Next, (cur_sel si sel m)\<lparr>m_sel := sre_newbackmatch (m_sel m) sel\<rparr>))
            (set_P1 0 p sel))
        else exec_common tab x p c si m)"

section \<open>The loops of the machine\<close>

text \<open>Run the state \<open>si\<close> from the instruction \<open>i\<close>; true when the list is broken out of.\<close>

partial_function (option) run_state ::
    "(nat \<Rightarrow> machine \<Rightarrow> (goto \<times> machine) go) \<Rightarrow> nat \<Rightarrow> machine \<Rightarrow> (bool \<times> machine) go option" where
  "run_state step i m =
     (case step i m of
        Panic \<Rightarrow> Some Panic
      | Ret gm \<Rightarrow>
          (case fst gm of
             Goto j \<Rightarrow> run_state step j (snd gm)
           | Next \<Rightarrow> Some (Ret (False, snd gm))
           | Break \<Rightarrow> Some (Ret (True, snd gm))))"

declare run_state.simps [code]

text \<open>Run the list of states, which grows meanwhile.\<close>

partial_function (option) run_list ::
    "(nat \<Rightarrow> nat \<Rightarrow> machine \<Rightarrow> (goto \<times> machine) go) \<Rightarrow> nat \<Rightarrow> machine \<Rightarrow> machine go option" where
  "run_list step si m =
     (if si < length (m_cur m) then
        Option.bind (run_state (step si) (st_i (m_cur m ! si)) m) (\<lambda>r.
          case r of
            Panic \<Rightarrow> Some Panic
          | Ret bm \<Rightarrow> if fst bm then Some (Ret (snd bm)) else run_list step (Suc si) (snd bm))
      else Some (Ret m))"

declare run_list.simps [code]

definition swap_lists :: "machine \<Rightarrow> machine" where
  "swap_lists m = m\<lparr>m_cur := m_nxt m, m_nxt := []\<rparr>"

text \<open>The rune a match can only start with, 0 if there is no such rune.\<close>

definition start_rune :: "reprog \<Rightarrow> rune go" where
  "start_rune prg =
     (if pr_entry prg < length (pr_code prg) then
        Ret (if i_op (pr_code prg ! pr_entry prg) < tOPERATOR
             then i_op (pr_code prg ! pr_entry prg) else 0)
      else Panic)"

text \<open>A state at the entry is only added while there is no match.\<close>

definition add_entry :: "reprog \<Rightarrow> int \<Rightarrow> machine \<Rightarrow> machine" where
  "add_entry prg p m =
     (if P0 (hd (m_sel m)) < 0 then
        m\<lparr>m_cur := states_add (pr_entry prg)
            ((no_sel (pr_cursubid prg + 1))[0 := \<lparr>P0 = p, P1 = 0\<rparr>]) (m_cur m)\<rparr>
      else m)"

partial_function (option) exec_loop ::
    "(rune \<Rightarrow> bool) \<Rightarrow> reprog \<Rightarrow> rune_text \<Rightarrow> int \<Rightarrow> rune \<Rightarrow> int \<Rightarrow> machine \<Rightarrow> sels go option" where
  "exec_loop tab prg txt end startc p m =
     (if end < p \<or> 0 \<le> P0 (hd (m_sel m)) \<and> m_cur m = [] then Some (Ret (sre_retsel (m_sel m)))
      else
        (case (if p = end then Ret 0 else rd_Getc txt p) of
           Panic \<Rightarrow> Some Panic
         | Ret c \<Rightarrow>
           if startc \<noteq> 0 \<and> m_cur m = [] \<and> c \<noteq> startc then
             exec_loop tab prg txt end startc (p + 1) m
           else
             Option.bind (run_list (exec_inst tab prg txt end p c) 0 (add_entry prg p m)) (\<lambda>r.
               case r of
                 Panic \<Rightarrow> Some Panic
               | Ret m' \<Rightarrow> exec_loop tab prg txt end startc (p + 1) (swap_lists m'))))"

declare exec_loop.simps [code]

text \<open>The backward search starts states with the negated position, so that \<open>add\<close> prefers the
  greater one.\<close>

partial_function (option) exec_back_loop ::
    "(rune \<Rightarrow> bool) \<Rightarrow> reprog \<Rightarrow> rune_text \<Rightarrow> int \<Rightarrow> int \<Rightarrow> rune \<Rightarrow> int \<Rightarrow> machine \<Rightarrow>
       sels go option" where
  "exec_back_loop tab prg txt start end startc p m =
     (if \<not> m_more m \<and> p < 0 \<or> 0 \<le> P0 (hd (m_sel m)) \<and> m_cur m = []
      then Some (Ret (sre_retsel (m_sel m)))
      else
        (case (if p = 0 \<or> m_more m then Ret 0 else rd_Getc txt (p - 1)) of
           Panic \<Rightarrow> Some Panic
         | Ret c \<Rightarrow>
           if startc \<noteq> 0 \<and> m_cur m = [] \<and> c \<noteq> startc then
             exec_back_loop tab prg txt start end startc (p - 1) (m\<lparr>m_more := False\<rparr>)
           else
             Option.bind (run_list (exec_back_inst tab prg txt start end p c) 0
                 (add_entry prg (- p) (m\<lparr>m_more := False\<rparr>))) (\<lambda>r.
               case r of
                 Panic \<Rightarrow> Some Panic
               | Ret m' \<Rightarrow> exec_back_loop tab prg txt start end startc (p - 1) (swap_lists m'))))"

declare exec_back_loop.simps [code]

definition new_machine :: "reprog \<Rightarrow> machine" where
  "new_machine prg = \<lparr>m_cur = [], m_nxt = [],
     m_sel = (no_sel (pr_cursubid prg + 1))[0 := \<lparr>P0 = -1, P1 = 0\<rparr>], m_more = False\<rparr>"

definition sre_execBack ::
    "(rune \<Rightarrow> bool) \<Rightarrow> reprog \<Rightarrow> rune_text \<Rightarrow> int \<Rightarrow> int \<Rightarrow> sels go option" where
  "sre_execBack tab prg txt start end =
     (case start_rune prg of
        Panic \<Rightarrow> Some Panic
      | Ret startc \<Rightarrow> exec_back_loop tab prg txt start end startc start (new_machine prg))"

definition sre_Exec ::
    "(rune \<Rightarrow> bool) \<Rightarrow> reprog \<Rightarrow> rune_text \<Rightarrow> int \<Rightarrow> int \<Rightarrow> sels go option" where
  "sre_Exec tab prg txt start end0 =
     (let end = (if end0 < 0 then rd_Len txt else end0) in
      if pr_back prg then sre_execBack tab prg txt start end
      else
        (case start_rune prg of
           Panic \<Rightarrow> Some Panic
         | Ret startc \<Rightarrow>
             exec_loop tab prg txt (min end (rd_Len txt)) startc start (new_machine prg)))"

definition sre_ExecRunes ::
    "(rune \<Rightarrow> bool) \<Rightarrow> reprog \<Rightarrow> rune list \<Rightarrow> int \<Rightarrow> int \<Rightarrow> sels go option" where
  "sre_ExecRunes tab prg s start end = sre_Exec tab prg (sre_runestr s) start end"

definition sre_ExecStr ::
    "(rune \<Rightarrow> bool) \<Rightarrow> reprog \<Rightarrow> string \<Rightarrow> int \<Rightarrow> int \<Rightarrow> sels go option" where
  "sre_ExecStr tab prg s start end = sre_ExecRunes tab prg (go_runes s) start end"

section \<open>Matches and replacements in strings\<close>

definition sre_safe :: "int \<Rightarrow> int \<Rightarrow> int" where
  "sre_safe i n = (if i < 0 then 0 else if n < i then n else i)"

text \<open>The substrings of the ranges; a slice that ends before it starts panics.\<close>

fun match_strings :: "rune list \<Rightarrow> sels \<Rightarrow> string list go" where
  "match_strings t [] = Ret []"
| "match_strings t (r # rs) =
     (let a = sre_safe (P0 r) (len t); b = sre_safe (P1 r) (len t) in
      if b < a then Panic
      else go_map (\<lambda>ss. go_string (seq_cut (nat a) (nat (b - a)) t) # ss) (match_strings t rs))"

definition sre_prog_Match :: "(rune \<Rightarrow> bool) \<Rightarrow> reprog \<Rightarrow> string \<Rightarrow> string list go option" where
  "sre_prog_Match tab prg text =
     map_option (\<lambda>r. go_bind r (match_strings (go_runes text)))
       (sre_Exec tab prg (sre_runestr (go_runes text)) 0 (len (go_runes text)))"

text \<open>\<open>Match\<close>: the strings, or the error of the expression.\<close>

definition sre_Match :: "(rune \<Rightarrow> bool) \<Rightarrow> string \<Rightarrow> string \<Rightarrow> (string + string list) go option" where
  "sre_Match tab sre text =
     Option.bind (sre_CompileStr sre Fwd) (\<lambda>r.
       case r of
         COk prg \<Rightarrow> map_option (go_map Inr) (sre_prog_Match tab prg text)
       | CErr e \<Rightarrow> Some (Ret (Inl e))
       | CCrash \<Rightarrow> Some Panic)"

fun repl_loop :: "string list \<Rightarrow> bool \<Rightarrow> rune list \<Rightarrow> string" where
  "repl_loop ms esc [] = []"
| "repl_loop ms esc (r # rs) =
     (if \<not> esc then
        (if r = rune_of CHR 0x5C then repl_loop ms True rs else go_encode r @ repl_loop ms False rs)
      else if r = rune_of CHR 0x5C then go_encode r @ repl_loop ms False rs
      else if 48 \<le> r \<and> r \<le> 57 \<and> r - 48 < len ms then ms ! nat (r - 48) @ repl_loop ms False rs
      else repl_loop ms False rs)"

definition sre_Repl :: "string list \<Rightarrow> string \<Rightarrow> string" where
  "sre_Repl matches s = repl_loop matches False (go_runes s)"

end
