(* ===== verification/SreSem.thy ===== *)
theory SreSem
  imports SreTree SreExec
begin

text \<open>
  What a program matches: steps of the program over a text of which the search sees the
  positions up to \<open>e\<close>, and the relation between positions that a tree denotes.  The steps of
  compiled code from the first instruction of a fragment to what follows the fragment are
  those the tree denotes.
\<close>

section \<open>Steps of a program over a text\<close>

definition rune_at :: "rune list \<Rightarrow> nat \<Rightarrow> nat \<Rightarrow> rune" where
  "rune_at T e p = (if p = e then 0 else T ! p)"

definition bol_at :: "rune list \<Rightarrow> nat \<Rightarrow> nat \<Rightarrow> bool" where
  "bol_at T e p \<longleftrightarrow> p = 0 \<or> T ! (p - 1) = 10 \<and> p < e"

definition eol_at :: "rune list \<Rightarrow> nat \<Rightarrow> nat \<Rightarrow> bool" where
  "eol_at T e p \<longleftrightarrow> rune_at T e p = 10 \<or> rune_at T e p = 0"

text \<open>The runes an instruction (or an atom of a tree) consumes.\<close>

definition eats :: "(rune \<Rightarrow> bool) \<Rightarrow> rune \<Rightarrow> rune list \<Rightarrow> rune \<Rightarrow> bool" where
  "eats tab x cls c =
     (if x = tANY then c \<noteq> 10 \<and> c \<noteq> 0
      else if x = tWORD then go_is_word tab c
      else if x = tBLANK then go_is_space c \<and> c \<noteq> 10
      else if x = tCCLASS then sre_classMatch tab cls c = Ret True
      else if x = tNCCLASS then sre_classMatch tab cls c = Ret False
      else x = c)"

definition eps_ops :: "rune set" where
  "eps_ops = {tLPAREN, tRPAREN, tOR, tBOL, tEOL, tEND}"

text \<open>A step without input, and one that consumes the rune at the position.\<close>

inductive eps :: "inst list \<Rightarrow> rune list \<Rightarrow> nat \<Rightarrow> nat \<Rightarrow> nat \<Rightarrow> nat \<Rightarrow> bool" for code T e p where
  eps_left: "is_inst code pc op \<Longrightarrow> op \<in> {tLPAREN, tRPAREN, tOR} \<Longrightarrow>
    eps code T e p pc (i_left (code ! pc))"
| eps_right: "is_inst code pc tOR \<Longrightarrow> eps code T e p pc (i_right (code ! pc))"
| eps_bol: "is_inst code pc tBOL \<Longrightarrow> bol_at T e p \<Longrightarrow> eps code T e p pc (i_left (code ! pc))"
| eps_eol: "is_inst code pc tEOL \<Longrightarrow> eol_at T e p \<Longrightarrow> eps code T e p pc (i_left (code ! pc))"

definition eat :: "(rune \<Rightarrow> bool) \<Rightarrow> inst list \<Rightarrow> rune list \<Rightarrow> nat \<Rightarrow> nat \<Rightarrow> nat \<Rightarrow> nat \<Rightarrow> bool" where
  "eat tab code T e p pc pc' \<longleftrightarrow> 0 < pc \<and> pc < length code \<and> i_op (code ! pc) \<notin> eps_ops \<and> p < e \<and>
     eats tab (i_op (code ! pc)) (i_class (code ! pc)) (T ! p) \<and> pc' = i_left (code ! pc)"

inductive mstep ::
    "(rune \<Rightarrow> bool) \<Rightarrow> inst list \<Rightarrow> rune list \<Rightarrow> nat \<Rightarrow> nat \<times> nat \<Rightarrow> nat \<times> nat \<Rightarrow> bool"
  for tab code T e where
  mstep_eps: "eps code T e p pc pc' \<Longrightarrow> mstep tab code T e (pc, p) (pc', p)"
| mstep_eat: "eat tab code T e p pc pc' \<Longrightarrow> mstep tab code T e (pc, p) (pc', Suc p)"

inductive_simps eps_simps: "eps code T e p pc pc'"
inductive_cases mstepE: "mstep tab code T e c c'"

section \<open>What a tree denotes\<close>

fun den :: "(rune \<Rightarrow> bool) \<Rightarrow> rune list \<Rightarrow> nat \<Rightarrow> sre \<Rightarrow> (nat \<times> nat) set" where
  "den tab T e (SAtom x cls) =
     (if x = tBOL then {(p, p) | p. bol_at T e p}
      else if x = tEOL then {(p, p) | p. eol_at T e p}
      else if x = tEND then Id
      else {(p, Suc p) | p. p < e \<and> eats tab x cls (T ! p)})"
| "den tab T e (SGroup r) = den tab T e r"
| "den tab T e (SAlt r1 r2) = den tab T e r1 \<union> den tab T e r2"
| "den tab T e (SCat r1 r2) = den tab T e r1 O den tab T e r2"
| "den tab T e (SStar r) = (den tab T e r)\<^sup>*"
| "den tab T e (SPlus r) = (den tab T e r)\<^sup>+"
| "den tab T e (SOpt r) = Id \<union> den tab T e r"

section \<open>Fragments do what their trees denote\<close>

text \<open>The target of a jump to \<open>x\<close> once the no-ops are eaten.\<close>

definition skp :: "inst list \<Rightarrow> nat \<Rightarrow> nat" where
  "skp code x = (THE t. skips code x t)"

lemma skp_eq: "skips code x t \<Longrightarrow> skp code x = t"
  unfolding skp_def using skips_unique by blast

lemma skp_id: "is_inst code x op \<Longrightarrow> op \<noteq> tNOP \<Longrightarrow> skp code x = x"
  by (intro skp_eq skips_stop) (auto simp: is_inst_def)

lemma eaten_left: "eaten code c' \<Longrightarrow> p < length code \<Longrightarrow> i_left (c' ! p) = skp code (i_left (code ! p))"
  unfolding eaten_def using skp_eq by metis

lemma eaten_inst: "eaten code c' \<Longrightarrow> is_inst c' p op = is_inst code p op"
  by (auto simp: eaten_def same_but_left_def is_inst_def)

lemma eaten_right: "eaten code c' \<Longrightarrow> p < length code \<Longrightarrow> i_right (c' ! p) = i_right (code ! p)"
  by (auto simp: eaten_def same_but_left_def)

lemma eaten_class: "eaten code c' \<Longrightarrow> p < length code \<Longrightarrow> i_class (c' ! p) = i_class (code ! p)"
  by (auto simp: eaten_def same_but_left_def)

text \<open>Jumping to a no-op is jumping to what follows it.\<close>

lemma skp_nop:
  assumes e: "eaten code c'" and i: "is_inst code l tNOP"
  shows "skp code l = skp code (i_left (code ! l))"
proof -
  have "skips code (i_left (code ! l)) (i_left (c' ! l))"
    using e i by (auto simp: eaten_def is_inst_def)
  then have "skips code l (i_left (c' ! l))"
    using i skips_next by (auto simp: is_inst_def)
  then show ?thesis using skp_eq \<open>skips code (i_left (code ! l)) (i_left (c' ! l))\<close> by metis
qed

lemma skp_first: "frag code r f l \<Longrightarrow> skp code f = f"
  using skp_id[OF frag_first] frag_not_nop by blast

abbreviation msteps ::
    "(rune \<Rightarrow> bool) \<Rightarrow> inst list \<Rightarrow> rune list \<Rightarrow> nat \<Rightarrow> nat \<times> nat \<Rightarrow> nat \<times> nat \<Rightarrow> bool" where
  "msteps tab c T e \<equiv> (mstep tab c T e)\<^sup>*\<^sup>*"

lemma step_left:
  assumes e: "eaten code c'" and i: "is_inst code pc op" "op \<in> {tLPAREN, tRPAREN, tOR}"
  shows "mstep tab c' T e (pc, p) (skp code (i_left (code ! pc)), p)"
proof -
  have "is_inst c' pc op" using i eaten_inst[OF e] by simp
  from mstep_eps[OF eps_left[OF this i(2)]] show ?thesis
    using eaten_left[OF e, of pc] i(1) by (simp add: is_inst_def)
qed

lemma step_right:
  assumes e: "eaten code c'" and i: "is_inst code pc tOR"
  shows "mstep tab c' T e (pc, p) (i_right (code ! pc), p)"
proof -
  have "is_inst c' pc tOR" using i eaten_inst[OF e] by simp
  from mstep_eps[OF eps_right[OF this]] show ?thesis
    using eaten_right[OF e, of pc] i by (simp add: is_inst_def)
qed

lemma step_atom:
  assumes e: "eaten code c'"
    and i: "is_inst code f x" "i_class (code ! f) = cls" "atom_op x" "x \<noteq> tEND"
    and d: "(p, p') \<in> den tab T e (SAtom x cls)"
  shows "mstep tab c' T e (f, p) (skp code (i_left (code ! f)), p')"
proof -
  have f: "f < length code" using i(1) by (simp add: is_inst_def)
  have x: "is_inst c' f x" using i(1) eaten_inst[OF e] by simp
  have l: "i_left (c' ! f) = skp code (i_left (code ! f))" using eaten_left[OF e f] .
  have c: "i_class (c' ! f) = cls" using eaten_class[OF e f] i(2) by simp
  consider "x = tBOL" | "x = tEOL" | "x \<notin> eps_ops" "x \<noteq> tBOL" "x \<noteq> tEOL"
    using i by (auto simp: eps_ops_def atom_op_def)
  then show ?thesis
  proof cases
    case 1
    then have "bol_at T e p" "p' = p" using d by auto
    then show ?thesis using mstep_eps[OF eps_bol[of c' f T e p]] x l 1 by auto
  next
    case 2
    then have "eol_at T e p" "p' = p" using d by (auto simp: sre_codes)
    then show ?thesis using mstep_eps[OF eps_eol[of c' f T e p]] x l 2 by auto
  next
    case 3
    then have "p < e" "eats tab x cls (T ! p)" "p' = Suc p" using d i(4) by auto
    then have "eat tab c' T e p f (i_left (c' ! f))"
      using x c 3(1) by (auto simp: eat_def is_inst_def)
    then show ?thesis using mstep_eat l \<open>p' = Suc p\<close> by metis
  qed
qed

text \<open>Every pair of positions the tree relates is a run of the fragment.\<close>

lemma frag_complete:
  assumes eaten: "eaten code c'"
  shows "frag code r f l \<Longrightarrow> no_end r \<Longrightarrow> (p, p') \<in> den tab T e r \<Longrightarrow>
     msteps tab c' T e (f, p) (skp code (i_left (code ! l)), p')"
proof (induction r arbitrary: f l p p')
  case (SAtom x cls)
  then show ?case using step_atom[OF eaten, of f x cls p p'] by auto
next
  case (SGroup r)
  then obtain f' l' where r: "frag code r f' l'" "i_left (code ! f) = f'" "i_left (code ! l') = l"
    and i: "is_inst code f tLPAREN" "is_inst code l tRPAREN" by auto
  have "mstep tab c' T e (f, p) (f', p)"
    using step_left[OF eaten i(1)] r skp_first[OF r(1)] by auto
  moreover have "msteps tab c' T e (f', p) (l, p')"
    using SGroup.IH[OF r(1)] SGroup.prems r(3) skp_id[OF i(2)] by (auto simp: sre_codes)
  moreover have "mstep tab c' T e (l, p') (skp code (i_left (code ! l)), p')"
    using step_left[OF eaten i(2)] by auto
  ultimately show ?case
    by (meson converse_rtranclp_into_rtranclp rtranclp.rtrancl_into_rtrancl)
next
  case (SAlt r1 r2)
  then obtain f1 l1 f2 l2 where r: "frag code r1 f1 l1" "frag code r2 f2 l2"
      "i_right (code ! f) = f1" "i_left (code ! f) = f2" "i_left (code ! l1) = l" "i_left (code ! l2) = l"
    and i: "is_inst code f tOR" "is_inst code l tNOP" by auto
  note nop = skp_nop[OF eaten i(2)]
  from SAlt.prems(3) consider "(p, p') \<in> den tab T e r1" | "(p, p') \<in> den tab T e r2" by auto
  then show ?case
  proof cases
    case 1
    then have "msteps tab c' T e (f1, p) (skp code (i_left (code ! l)), p')"
      using SAlt.IH(1)[OF r(1)] SAlt.prems(2) r(5) nop by auto
    then show ?thesis using step_right[OF eaten i(1), of tab T e p] r(3) by (meson converse_rtranclp_into_rtranclp)
  next
    case 2
    then have "msteps tab c' T e (f2, p) (skp code (i_left (code ! l)), p')"
      using SAlt.IH(2)[OF r(2)] SAlt.prems(2) r(6) nop by auto
    then show ?thesis
      using step_left[OF eaten i(1), of tab T e p] r(4) skp_first[OF r(2)] by (auto intro: converse_rtranclp_into_rtranclp)
  qed
next
  case (SCat r1 r2)
  then obtain l1 f2 where r: "frag code r1 f l1" "frag code r2 f2 l" "i_left (code ! l1) = f2" by auto
  obtain p1 where p1: "(p, p1) \<in> den tab T e r1" "(p1, p') \<in> den tab T e r2"
    using SCat.prems(3) by auto
  have "msteps tab c' T e (f, p) (f2, p1)"
    using SCat.IH(1)[OF r(1) _ p1(1)] SCat.prems(2) r(3) skp_first[OF r(2)] by auto
  then show ?case using SCat.IH(2)[OF r(2) _ p1(2)] SCat.prems(2) by auto
next
  case (SStar r)
  then obtain f' l' where r: "frag code r f' l'" "i_right (code ! f) = f'" "i_left (code ! l') = f"
    and i: "is_inst code f tOR" "f = l" by auto
  have round: "msteps tab c' T e (f, a) (f, b)" if "(a, b) \<in> den tab T e r" for a b
  proof -
    have "msteps tab c' T e (f', a) (f, b)"
      using SStar.IH[OF r(1) _ that] SStar.prems(2) r(3) skp_id[OF i(1)] by (auto simp: sre_codes)
    then show ?thesis using step_right[OF eaten i(1), of tab T e a] r(2) by (meson converse_rtranclp_into_rtranclp)
  qed
  have "(p, p') \<in> (den tab T e r)\<^sup>*" using SStar.prems(3) by simp
  then have "msteps tab c' T e (f, p) (f, p')"
    by (induction rule: rtrancl_induct) (auto dest: round)
  then show ?case
    using step_left[OF eaten i(1), of tab T e p'] i(2) by (auto intro: rtranclp.rtrancl_into_rtrancl)
next
  case (SPlus r)
  then obtain l' where r: "frag code r f l'" "i_right (code ! l) = f" "i_left (code ! l') = l"
    and i: "is_inst code l tOR" by auto
  have round: "msteps tab c' T e (f, a) (l, b)" if "(a, b) \<in> den tab T e r" for a b
    using SPlus.IH[OF r(1) _ that] SPlus.prems(2) r(3) skp_id[OF i] by (auto simp: sre_codes)
  have "(p, p') \<in> (den tab T e r)\<^sup>+" using SPlus.prems(3) by simp
  then have "msteps tab c' T e (f, p) (l, p')"
  proof (induction rule: trancl_induct)
    case (step y z)
    then show ?case
      using round[OF step(2)] step_right[OF eaten i, of tab T e y] r(2)
      by (meson converse_rtranclp_into_rtranclp rtranclp_trans)
  qed (rule round)
  then show ?case
    using step_left[OF eaten i, of tab T e p'] by (auto intro: rtranclp.rtrancl_into_rtrancl)
next
  case (SOpt r)
  then obtain f' l' where r: "frag code r f' l'" "i_right (code ! f) = f'" "i_left (code ! f) = l"
      "i_left (code ! l') = l"
    and i: "is_inst code f tOR" "is_inst code l tNOP" by auto
  note nop = skp_nop[OF eaten i(2)]
  from SOpt.prems(3) consider "p' = p" | "(p, p') \<in> den tab T e r" by auto
  then show ?case
  proof cases
    case 1
    then show ?thesis using step_left[OF eaten i(1), of tab T e p] r(3) nop by auto
  next
    case 2
    then have "msteps tab c' T e (f', p) (skp code (i_left (code ! l)), p')"
      using SOpt.IH[OF r(1)] SOpt.prems(2) r(4) nop by auto
    then show ?thesis using step_right[OF eaten i(1), of tab T e p] r(2) by (meson converse_rtranclp_into_rtranclp)
  qed
qed

text \<open>And a run that gets from the fragment to an end mark leaves the fragment on its way, in
  positions the tree relates.\<close>

lemma from_paren:
  assumes e: "eaten code c'" and i: "is_inst code pc op" "op \<in> {tLPAREN, tRPAREN}"
    and s: "mstep tab c' T e (pc, p) y"
  shows "y = (skp code (i_left (code ! pc)), p)"
proof -
  have "is_inst c' pc op" using i eaten_inst[OF e] by simp
  then show ?thesis
    using s i(2) eaten_left[OF e, of pc] i(1)
    by (auto elim!: mstepE simp: eps_simps eat_def eps_ops_def is_inst_def sre_codes)
qed

lemma from_branch:
  assumes e: "eaten code c'" and i: "is_inst code pc tOR" and s: "mstep tab c' T e (pc, p) y"
  shows "y = (skp code (i_left (code ! pc)), p) \<or> y = (i_right (code ! pc), p)"
proof -
  have "is_inst c' pc tOR" using i eaten_inst[OF e] by simp
  then show ?thesis
    using s eaten_left[OF e, of pc] eaten_right[OF e, of pc] i
    by (auto elim!: mstepE simp: eps_simps eat_def eps_ops_def is_inst_def sre_codes)
qed

lemma from_atom:
  assumes e: "eaten code c'"
    and i: "is_inst code f x" "i_class (code ! f) = cls" "atom_op x" "x \<noteq> tEND"
    and s: "mstep tab c' T e (f, p) y"
  shows "fst y = skp code (i_left (code ! f)) \<and> (p, snd y) \<in> den tab T e (SAtom x cls)"
proof -
  have f: "f < length code" using i(1) by (simp add: is_inst_def)
  have x: "is_inst c' f x" using i(1) eaten_inst[OF e] by simp
  have l: "i_left (c' ! f) = skp code (i_left (code ! f))" using eaten_left[OF e f] .
  have c: "i_class (c' ! f) = cls" using eaten_class[OF e f] i(2) by simp
  from s show ?thesis
  proof (rule mstepE)
    fix pc pp pc' assume m: "(f, p) = (pc, pp)" "y = (pc', pp)" "eps c' T e pp pc pc'"
    then have "(x = tBOL \<and> bol_at T e p \<or> x = tEOL \<and> eol_at T e p) \<and> pc' = i_left (c' ! f)"
      using x i(3) by (auto simp: eps_simps is_inst_def atom_op_def)
    then show ?thesis using m l by (auto simp: sre_codes)
  next
    fix pp pc pc' assume m: "(f, p) = (pc, pp)" "y = (pc', Suc pp)" "eat tab c' T e pp pc pc'"
    then have "x \<notin> eps_ops" "p < e" "eats tab x cls (T ! p)" "pc' = i_left (c' ! f)"
      using x c by (auto simp: eat_def is_inst_def)
    then show ?thesis using m l i(4) by (auto simp: eps_ops_def)
  qed
qed

lemma to_end:
  assumes "eaten code c'" and "is_inst code f op" and "op \<noteq> tEND" and "(mstep tab c' T e ^^ n) (f, p) (x, q)"
    and "i_op (c' ! x) = tEND"
  obtains m y where "n = Suc m" and "mstep tab c' T e (f, p) y" and "(mstep tab c' T e ^^ m) y (x, q)"
proof (cases n)
  case 0
  then have "i_op (c' ! f) = tEND" using assms(4,5) by auto
  moreover have "is_inst c' f op" using assms(2) eaten_inst[OF assms(1)] by simp
  ultimately show ?thesis using assms(3) by (simp add: is_inst_def)
next
  case (Suc m)
  then show ?thesis using assms(4) that relpowp_Suc_D2[of m "mstep tab c' T e" "(f, p)" "(x, q)"] by auto
qed

lemma frag_sound:
  assumes eaten: "eaten code c'" and x: "i_op (c' ! x) = tEND"
  shows "frag code r f l \<Longrightarrow> no_end r \<Longrightarrow> (mstep tab c' T e ^^ n) (f, p) (x, q) \<Longrightarrow>
     \<exists>p' m. m < n \<and> (p, p') \<in> den tab T e r \<and>
       (mstep tab c' T e ^^ m) (skp code (i_left (code ! l)), p') (x, q)"
proof (induction r arbitrary: f l p n)
  case (SAtom y cls)
  then have i: "is_inst code f y" "i_class (code ! f) = cls" "atom_op y" "y \<noteq> tEND" "l = f" by auto
  obtain m z where m: "n = Suc m" "mstep tab c' T e (f, p) z" "(mstep tab c' T e ^^ m) z (x, q)"
    using to_end[OF eaten i(1,4) SAtom.prems(3) x] .
  have z: "z = (skp code (i_left (code ! l)), snd z)" "(p, snd z) \<in> den tab T e (SAtom y cls)"
    using from_atom[OF eaten i(1-4) m(2)] i(5) by (auto simp: prod_eq_iff)
  then show ?case using m(1,3) by (intro exI[of _ "snd z"] exI[of _ m]) simp
next
  case (SGroup r)
  then obtain f' l' where r: "frag code r f' l'" "i_left (code ! f) = f'" "i_left (code ! l') = l"
    and i: "is_inst code f tLPAREN" "is_inst code l tRPAREN" by auto
  have op: "tLPAREN \<noteq> tEND" "tRPAREN \<noteq> tEND" "tRPAREN \<noteq> tNOP" by (auto simp: sre_codes)
  obtain m y where m: "n = Suc m" "mstep tab c' T e (f, p) y" "(mstep tab c' T e ^^ m) y (x, q)"
    using to_end[OF eaten i(1) op(1) SGroup.prems(3) x] .
  have "y = (f', p)" using from_paren[OF eaten i(1) _ m(2)] r skp_first[OF r(1)] by simp
  then obtain p' k where k: "k < m" "(p, p') \<in> den tab T e r" "(mstep tab c' T e ^^ k) (l, p') (x, q)"
    using SGroup.IH[OF r(1), of m p] SGroup.prems(2) m(3) r(3) skp_id[OF i(2) op(3)] by auto
  obtain j z where j: "k = Suc j" "mstep tab c' T e (l, p') z" "(mstep tab c' T e ^^ j) z (x, q)"
    using to_end[OF eaten i(2) op(2) k(3) x] .
  have "z = (skp code (i_left (code ! l)), p')" using from_paren[OF eaten i(2) _ j(2)] by simp
  then show ?case using k j m(1) by (intro exI[of _ p'] exI[of _ j]) auto
next
  case (SAlt r1 r2)
  then obtain f1 l1 f2 l2 where r: "frag code r1 f1 l1" "frag code r2 f2 l2"
      "i_right (code ! f) = f1" "i_left (code ! f) = f2" "i_left (code ! l1) = l" "i_left (code ! l2) = l"
    and i: "is_inst code f tOR" "is_inst code l tNOP" by auto
  note nop = skp_nop[OF eaten i(2)]
  have op: "tOR \<noteq> tEND" by (auto simp: sre_codes)
  obtain m y where m: "n = Suc m" "mstep tab c' T e (f, p) y" "(mstep tab c' T e ^^ m) y (x, q)"
    using to_end[OF eaten i(1) op SAlt.prems(3) x] .
  from from_branch[OF eaten i(1) m(2)] show ?case
  proof
    assume "y = (skp code (i_left (code ! f)), p)"
    then have "(mstep tab c' T e ^^ m) (f2, p) (x, q)" using m(3) r(4) skp_first[OF r(2)] by simp
    then obtain p' k where "k < m" "(p, p') \<in> den tab T e r2"
        "(mstep tab c' T e ^^ k) (skp code (i_left (code ! l)), p') (x, q)"
      using SAlt.IH(2)[OF r(2), of m p] SAlt.prems(2) r(6) nop by auto
    then show ?thesis using m(1) by (intro exI[of _ p'] exI[of _ k]) simp
  next
    assume "y = (i_right (code ! f), p)"
    then have "(mstep tab c' T e ^^ m) (f1, p) (x, q)" using m(3) r(3) by simp
    then obtain p' k where "k < m" "(p, p') \<in> den tab T e r1"
        "(mstep tab c' T e ^^ k) (skp code (i_left (code ! l)), p') (x, q)"
      using SAlt.IH(1)[OF r(1), of m p] SAlt.prems(2) r(5) nop by auto
    then show ?thesis using m(1) by (intro exI[of _ p'] exI[of _ k]) simp
  qed
next
  case (SCat r1 r2)
  then obtain l1 f2 where r: "frag code r1 f l1" "frag code r2 f2 l" "i_left (code ! l1) = f2" by auto
  obtain p1 m where m: "m < n" "(p, p1) \<in> den tab T e r1" "(mstep tab c' T e ^^ m) (f2, p1) (x, q)"
    using SCat.IH(1)[OF r(1) _ SCat.prems(3)] SCat.prems(2) r(3) skp_first[OF r(2)] by auto
  obtain p' k where k: "k < m" "(p1, p') \<in> den tab T e r2"
      "(mstep tab c' T e ^^ k) (skp code (i_left (code ! l)), p') (x, q)"
    using SCat.IH(2)[OF r(2) _ m(3)] SCat.prems(2) by auto
  then show ?case using m by (intro exI[of _ p'] exI[of _ k]) auto
next
  case (SStar r)
  then obtain f' l' where r: "frag code r f' l'" "i_right (code ! f) = f'" "i_left (code ! l') = f"
    and i: "is_inst code f tOR" "f = l" by auto
  have op: "tOR \<noteq> tEND" "tOR \<noteq> tNOP" by (auto simp: sre_codes)
  have "(mstep tab c' T e ^^ n) (f, p) (x, q) \<Longrightarrow> \<exists>p' m. m < n \<and> (p, p') \<in> (den tab T e r)\<^sup>* \<and>
       (mstep tab c' T e ^^ m) (skp code (i_left (code ! l)), p') (x, q)"
  proof (induction n arbitrary: p rule: less_induct)
    case (less n)
    obtain m y where m: "n = Suc m" "mstep tab c' T e (f, p) y" "(mstep tab c' T e ^^ m) y (x, q)"
      using to_end[OF eaten i(1) op(1) less.prems x] .
    from from_branch[OF eaten i(1) m(2)] show ?case
    proof
      assume "y = (skp code (i_left (code ! f)), p)"
      then show ?thesis using m i(2) by (intro exI[of _ p] exI[of _ m]) simp
    next
      assume "y = (i_right (code ! f), p)"
      then obtain p1 k where k: "k < m" "(p, p1) \<in> den tab T e r" "(mstep tab c' T e ^^ k) (f, p1) (x, q)"
        using SStar.IH[OF r(1), of m p] SStar.prems(2) m(3) r(2,3) skp_id[OF i(1) op(2)] by auto
      obtain p' j where j: "j < k" "(p1, p') \<in> (den tab T e r)\<^sup>*"
          "(mstep tab c' T e ^^ j) (skp code (i_left (code ! l)), p') (x, q)"
        using less.IH[of k p1] k m(1) by auto
      then show ?thesis
        using k m(1) converse_rtrancl_into_rtrancl[OF k(2)] by (intro exI[of _ p'] exI[of _ j]) simp
    qed
  qed
  then show ?case using SStar.prems(3) by simp
next
  case (SPlus r)
  then obtain l' where r: "frag code r f l'" "i_right (code ! l) = f" "i_left (code ! l') = l"
    and i: "is_inst code l tOR" by auto
  have op: "tOR \<noteq> tEND" "tOR \<noteq> tNOP" by (auto simp: sre_codes)
  have "(mstep tab c' T e ^^ n) (f, p) (x, q) \<Longrightarrow> \<exists>p' m. m < n \<and> (p, p') \<in> (den tab T e r)\<^sup>+ \<and>
       (mstep tab c' T e ^^ m) (skp code (i_left (code ! l)), p') (x, q)"
  proof (induction n arbitrary: p rule: less_induct)
    case (less n)
    obtain p1 k where k: "k < n" "(p, p1) \<in> den tab T e r" "(mstep tab c' T e ^^ k) (l, p1) (x, q)"
      using SPlus.IH[OF r(1) _ less.prems] SPlus.prems(2) r(3) skp_id[OF i op(2)] by auto
    obtain m y where m: "k = Suc m" "mstep tab c' T e (l, p1) y" "(mstep tab c' T e ^^ m) y (x, q)"
      using to_end[OF eaten i op(1) k(3) x] .
    from from_branch[OF eaten i m(2)] show ?case
    proof
      assume "y = (skp code (i_left (code ! l)), p1)"
      then show ?thesis using m k by (intro exI[of _ p1] exI[of _ m]) auto
    next
      assume "y = (i_right (code ! l), p1)"
      then obtain p' j where j: "j < m" "(p1, p') \<in> (den tab T e r)\<^sup>+"
          "(mstep tab c' T e ^^ j) (skp code (i_left (code ! l)), p') (x, q)"
        using less.IH[of m p1] k m r(2) by auto
      then show ?thesis
        using k m(1) trancl_into_trancl2[OF k(2)] by (intro exI[of _ p'] exI[of _ j]) simp
    qed
  qed
  then show ?case using SPlus.prems(3) by simp
next
  case (SOpt r)
  then obtain f' l' where r: "frag code r f' l'" "i_right (code ! f) = f'" "i_left (code ! f) = l"
      "i_left (code ! l') = l"
    and i: "is_inst code f tOR" "is_inst code l tNOP" by auto
  note nop = skp_nop[OF eaten i(2)]
  have op: "tOR \<noteq> tEND" by (auto simp: sre_codes)
  obtain m y where m: "n = Suc m" "mstep tab c' T e (f, p) y" "(mstep tab c' T e ^^ m) y (x, q)"
    using to_end[OF eaten i(1) op SOpt.prems(3) x] .
  from from_branch[OF eaten i(1) m(2)] show ?case
  proof
    assume "y = (skp code (i_left (code ! f)), p)"
    then show ?thesis using m r(3) nop by (intro exI[of _ p] exI[of _ m]) simp
  next
    assume "y = (i_right (code ! f), p)"
    then obtain p' k where "k < m" "(p, p') \<in> den tab T e r"
        "(mstep tab c' T e ^^ k) (skp code (i_left (code ! l)), p') (x, q)"
      using SOpt.IH[OF r(1), of m p] SOpt.prems(2) m(3) r(2,4) nop by auto
    then show ?thesis using m(1) by (intro exI[of _ p'] exI[of _ k]) simp
  qed
qed

section \<open>Compiled programs\<close>

text \<open>A match: a run of the program from its entry to an end mark.\<close>

definition prog_match :: "(rune \<Rightarrow> bool) \<Rightarrow> reprog \<Rightarrow> rune list \<Rightarrow> nat \<Rightarrow> nat \<Rightarrow> nat \<Rightarrow> bool" where
  "prog_match tab prg T e q q' \<longleftrightarrow>
     (\<exists>x. is_inst (pr_code prg) x tEND \<and> msteps tab (pr_code prg) T e (pr_entry prg, q) (x, q'))"

lemma den_end: "den tab T e end_mark = Id"
  by (auto simp: sre_codes)

lemma from_end:
  assumes "is_inst c x tEND" and "msteps tab c T e (x, p) y"
  shows "y = (x, p)"
proof -
  have "\<not> mstep tab c T e (x, p) z" for z
    using assms(1) by (auto elim!: mstepE simp: eps_simps eat_def eps_ops_def is_inst_def sre_codes)
  then show ?thesis using assms(2) by (auto elim: converse_rtranclpE)
qed

theorem compiled_match:
  assumes "compiled dir prg r"
  shows "prog_match tab prg T e q q' \<longleftrightarrow> (q, q') \<in> den tab T e r"
proof -
  obtain code l nds where w: "whole r" and c: "frag code r (pr_entry prg) l"
      and e: "eaten code (pr_code prg)"
    using assms by (auto simp: compiled_def)
  let ?c = "pr_code prg" and ?f = "pr_entry prg"
  show ?thesis
  proof (cases "r = end_mark")
    case True
    then have "is_inst code ?f tEND" using frag_first[OF c] by simp
    then have f: "is_inst ?c ?f tEND" using eaten_inst[OF e] by blast
    have "q = q'" if "msteps tab ?c T e (?f, q) (x, q')" for x
      using from_end[OF f that] by simp
    then show ?thesis using True f den_end by (auto simp: prog_match_def)
  next
    case False
    then obtain r1 where r1: "no_end r1" "r = SCat r1 end_mark" using w by (auto simp: whole_def)
    then obtain l1 f2 where f: "frag code r1 ?f l1" "frag code end_mark f2 l" "i_left (code ! l1) = f2"
      using c by auto
    have f2: "is_inst ?c f2 tEND" using frag_first[OF f(2)] eaten_inst[OF e] by simp
    have sk: "skp code (i_left (code ! l1)) = f2" using skp_first[OF f(2)] f(3) by simp
    have d: "den tab T e r = den tab T e r1" using r1(2) den_end by simp
    show ?thesis
    proof
      assume "prog_match tab prg T e q q'"
      then obtain x where x: "is_inst ?c x tEND" "msteps tab ?c T e (?f, q) (x, q')"
        by (auto simp: prog_match_def)
      then obtain n where n: "(mstep tab ?c T e ^^ n) (?f, q) (x, q')"
        using rtranclp_imp_relpowp by metis
      obtain p' m where m: "(q, p') \<in> den tab T e r1" "(mstep tab ?c T e ^^ m) (f2, p') (x, q')"
        using frag_sound[OF e _ f(1) r1(1) n] x(1) sk by (auto simp: is_inst_def)
      then have "(x, q') = (f2, p')" using from_end[OF f2] relpowp_imp_rtranclp by metis
      then show "(q, q') \<in> den tab T e r" using m(1) d by simp
    next
      assume "(q, q') \<in> den tab T e r"
      then have "msteps tab ?c T e (?f, q) (f2, q')"
        using frag_complete[OF e f(1) r1(1)] d sk by metis
      then show "prog_match tab prg T e q q'" using f2 by (auto simp: prog_match_def)
    qed
  qed
qed

end
