(* ===== verification/SreRun.thy ===== *)
theory SreRun
  imports SreSem
begin

text \<open>
  The forward search does what the program does: its lists of states are the instructions the
  program can be in at a position, so it ends, and it finds a match if and only if there is one.
  The text is any provider of runes that keeps the contract of the locale below.
\<close>

section \<open>Well-formed programs\<close>

text \<open>\<open>prog_ok prg L l\<close>: the instructions in \<open>L\<close> are those the execution can get to; left
  chains from them end at the end mark \<open>l\<close>.\<close>

definition prog_ok :: "reprog \<Rightarrow> nat set \<Rightarrow> nat \<Rightarrow> bool" where
  "prog_ok prg L l \<longleftrightarrow> pr_entry prg \<in> L \<and> is_inst (pr_code prg) l tEND \<and>
     (\<forall>pc \<in> L. ends (pr_code prg) pc l \<and> sub_good (pr_cursubid prg) (pr_code prg ! pc) \<and>
        (pc \<noteq> l \<longrightarrow> i_left (pr_code prg ! pc) \<in> L) \<and>
        (i_op (pr_code prg ! pc) = tOR \<longrightarrow> i_right (pr_code prg ! pc) \<in> L))"

lemma frag_last_end: "frag code r f l \<Longrightarrow> whole r \<Longrightarrow> is_inst code l tEND"
  by (auto simp: whole_def)

lemma eaten_zero:
  assumes e: "eaten code c'" and c: "cinv code nds" and x: "x < length code" "i_left (code ! x) = 0"
  shows "i_left (c' ! x) = 0"
proof -
  have "code ! 0 = new_inst 0" using c x(1) by (auto simp: cinv_def)
  moreover have "skips code 0 (i_left (c' ! x))" using e x by (auto simp: eaten_def)
  ultimately show ?thesis using skips_id by (auto simp: new_inst_def sre_codes)
qed

lemma eaten_ends:
  assumes e: "eaten code c'" and c: "cinv code nds"
  shows "ends code x l \<Longrightarrow> is_inst code l tEND \<Longrightarrow>
     ends c' x l \<and> (\<forall>t. skips code x t \<longrightarrow> ends c' t l \<and> ends code t l)"
proof (induction x l rule: ends.induct)
  case (ends_stop x)
  have x: "ends c' x x"
    using ends_stop eaten_zero[OF e c] e by (intro ends.ends_stop) (auto simp: eaten_def same_but_left_def)
  have "t = x" if "skips code x t" for t
    using skips_id[OF that] ends_stop(4) by (auto simp: is_inst_def sre_codes)
  then show ?case using x ends.ends_stop[OF ends_stop(1-3)] by auto
next
  case (ends_next x l)
  let ?y = "i_left (code ! x)" and ?t = "i_left (c' ! x)"
  have IH: "ends c' ?y l" "\<And>t. skips code ?y t \<Longrightarrow> ends c' t l \<and> ends code t l"
    using ends_next.IH ends_next.prems by auto
  have t: "skips code ?y ?t" using e ends_next by (auto simp: eaten_def)
  have et: "ends c' ?t l" using IH(2)[OF t] by simp
  have t0: "?t \<noteq> 0" using ends_bounds[OF et] by simp
  have "x < length c'" using e ends_next(2) by (simp add: eaten_def same_but_left_def)
  then have x: "ends c' x l" by (rule ends.ends_next[OF ends_next(1) _ t0 et])
  have xo: "ends code x l" by (rule ends.ends_next[OF ends_next(1-4)])
  have "ends c' t l \<and> ends code t l" if "skips code x t" for t
    using that
  proof (cases rule: skips.cases)
    case skips_stop
    then show ?thesis using x xo by simp
  next
    case skips_next
    then show ?thesis using IH(2)[OF skips_next(3)] by blast
  qed
  then show ?case using x by blast
qed

lemma compiled_prog_ok:
  assumes "compiled dir prg r"
  shows "\<exists>L l. prog_ok prg L l"
proof -
  obtain code l nds where w: "whole r" and f: "frag code r (pr_entry prg) l"
      and e: "eaten code (pr_code prg)" and c: "code_ok (pr_cursubid prg) 0 code ((pr_entry prg, l) # nds)"
    using assms by (auto simp: compiled_def)
  let ?c = "pr_code prg"
  have ci: "cinv code ((pr_entry prg, l) # nds)" using code_okD[OF c] .
  have l: "is_inst code l tEND" using frag_last_end[OF f w] .
  have "prog_ok prg {pc. ends code pc l} l"
    unfolding prog_ok_def
  proof (intro conjI ballI)
    show "pr_entry prg \<in> {pc. ends code pc l}" using code_ok_ends[OF c] by simp
    show "is_inst ?c l tEND" using l eaten_inst[OF e] by simp
    fix pc assume "pc \<in> {pc. ends code pc l}"
    then have pc: "ends code pc l" by simp
    have b: "0 < pc" "pc < length code" using ends_bounds[OF pc] by auto
    show "ends ?c pc l" using eaten_ends[OF e ci pc l] by simp
    have "sub_good (pr_cursubid prg) (code ! pc)" using c b by (auto simp: code_ok_def)
    then show "sub_good (pr_cursubid prg) (?c ! pc)"
      using e b by (auto simp: sub_good_def eaten_def same_but_left_def)
    show "pc \<noteq> l \<longrightarrow> i_left (?c ! pc) \<in> {pc. ends code pc l}"
    proof
      assume "pc \<noteq> l"
      then have "ends code (i_left (code ! pc)) l"
        using pc by (auto elim: ends.cases)
      moreover have "skips code (i_left (code ! pc)) (i_left (?c ! pc))"
        using e b by (auto simp: eaten_def)
      ultimately show "i_left (?c ! pc) \<in> {pc. ends code pc l}"
        using eaten_ends[OF e ci _ l] by blast
    qed
    show "i_op (?c ! pc) = tOR \<longrightarrow> i_right (?c ! pc) \<in> {pc. ends code pc l}"
    proof
      assume o: "i_op (?c ! pc) = tOR"
      then have "is_inst code pc tOR" using b e by (auto simp: is_inst_def eaten_def same_but_left_def)
      then have "i_right (code ! pc) \<noteq> 0" using c b by (auto simp: code_ok_def)
      from cinv_right[OF ci pc this] show "i_right (?c ! pc) \<in> {pc. ends code pc l}"
        using eaten_right[OF e b(2)] by simp
    qed
  qed
  then show ?thesis by blast
qed

section \<open>Lists of states\<close>

lemma hd_upd: "xs \<noteq> [] \<Longrightarrow> hd (xs[k := y]) = (if k = 0 then y else hd xs)"
  by (cases xs; cases k) auto

lemma states_add_ids:
  "map st_i (states_add t sel ss) = map st_i ss @ (if t \<in> st_i ` set ss then [] else [t])"
  by (induction ss) auto

lemma states_add_set: "s \<in> set (states_add t sel ss) \<Longrightarrow> s \<in> set ss \<or> st_i s = t \<and> st_sel s = sel"
  by (induction ss) (auto split: if_splits)

text \<open>Adding the selections of a state does not change that state.\<close>

lemma states_add_self:
  "si < length ss \<Longrightarrow> distinct (map st_i ss) \<Longrightarrow> sel = st_sel (ss ! si) \<Longrightarrow>
     states_add t sel ss ! si = ss ! si"
proof (induction ss arbitrary: si)
  case (Cons s ss)
  show ?case
  proof (cases si)
    case 0
    then show ?thesis using Cons.prems by auto
  next
    case (Suc k)
    then show ?thesis using Cons.prems Cons.IH[of k] by auto
  qed
qed simp

section \<open>The contract of a text\<close>

text \<open>A provider of the runes \<open>T\<close>: its length, and the rune at every position inside.\<close>

locale rune_reader =
  fixes rd :: rune_text and T :: "rune list"
  assumes len_reads: "rd_Len rd = len T"
    and getc_reads: "0 \<le> n \<Longrightarrow> n < len T \<Longrightarrow> rd_Getc rd n = Ret (T ! nat n)"

interpretation sre_rs: rune_reader "sre_runestr t" t for t
  by unfold_locales (simp_all add: sre_runestr_def)

text \<open>A search: the program, its live instructions, the text, and the positions between
  which it looks for a match.\<close>

record search =
  sr_tab :: "rune \<Rightarrow> bool"
  sr_prg :: reprog
  sr_live :: "nat set"
  sr_last :: nat
  sr_txt :: rune_text
  sr_text :: "rune list"
  sr_start :: nat
  sr_end :: nat

definition search_ok :: "search \<Rightarrow> bool" where
  "search_ok S \<longleftrightarrow> rune_reader (sr_txt S) (sr_text S) \<and> prog_ok (sr_prg S) (sr_live S) (sr_last S) \<and>
     sr_end S \<le> length (sr_text S)"

abbreviation sr_code :: "search \<Rightarrow> inst list" where
  "sr_code S \<equiv> pr_code (sr_prg S)"

abbreviation sr_steps :: "search \<Rightarrow> nat \<times> nat \<Rightarrow> nat \<times> nat \<Rightarrow> bool" where
  "sr_steps S \<equiv> msteps (sr_tab S) (sr_code S) (sr_text S) (sr_end S)"

abbreviation sr_eps :: "search \<Rightarrow> nat \<Rightarrow> nat \<Rightarrow> nat \<Rightarrow> bool" where
  "sr_eps S \<equiv> eps (sr_code S) (sr_text S) (sr_end S)"

abbreviation sr_eat :: "search \<Rightarrow> nat \<Rightarrow> nat \<Rightarrow> nat \<Rightarrow> bool" where
  "sr_eat S \<equiv> eat (sr_tab S) (sr_code S) (sr_text S) (sr_end S)"

abbreviation sr_match :: "search \<Rightarrow> nat \<Rightarrow> nat \<Rightarrow> bool" where
  "sr_match S \<equiv> prog_match (sr_tab S) (sr_prg S) (sr_text S) (sr_end S)"

text \<open>Selections that reach \<open>pc\<close> at \<open>p\<close>: the match they are of starts where a run did.\<close>

definition reached :: "search \<Rightarrow> nat \<Rightarrow> nat \<Rightarrow> sels \<Rightarrow> bool" where
  "reached S p pc sel \<longleftrightarrow> length sel = pr_cursubid (sr_prg S) + 1 \<and>
     (\<exists>q. P0 (hd sel) = int q \<and> sr_start S \<le> q \<and> q \<le> p \<and>
        sr_steps S (pr_entry (sr_prg S), q) (pc, p))"

definition list_ok :: "search \<Rightarrow> nat \<Rightarrow> nstate list \<Rightarrow> bool" where
  "list_ok S p ss \<longleftrightarrow> distinct (map st_i ss) \<and>
     (\<forall>x \<in> set ss. st_i x \<in> sr_live S \<and> reached S p (st_i x) (st_sel x))"

lemma list_ok_Nil [simp]: "list_ok S p []"
  by (simp add: list_ok_def)

lemma list_ok_add:
  assumes "list_ok S p ss" and "t \<in> sr_live S" and "reached S p t sel"
  shows "list_ok S p (states_add t sel ss)"
proof -
  have "distinct (map st_i (states_add t sel ss))"
    using assms(1) unfolding states_add_ids by (auto simp: list_ok_def)
  then show ?thesis using assms states_add_set[of _ t sel ss] unfolding list_ok_def by metis
qed

text \<open>Updating the selections of a state in place, not where its match starts.\<close>

lemma list_ok_sel:
  assumes "list_ok S p ss" and "si < length ss"
    and "length sel = length (st_sel (ss ! si))" and "P0 (hd sel) = P0 (hd (st_sel (ss ! si)))"
  shows "list_ok S p (ss[si := (ss ! si)\<lparr>st_sel := sel\<rparr>])"
proof -
  have "map st_i (ss[si := (ss ! si)\<lparr>st_sel := sel\<rparr>]) = map st_i ss"
    using assms(2) by (auto simp: map_update list_update_same_conv)
  moreover have "st_i x \<in> sr_live S \<and> reached S p (st_i x) (st_sel x)"
    if "x \<in> set (ss[si := (ss ! si)\<lparr>st_sel := sel\<rparr>])" for x
  proof -
    have "x = (ss ! si)\<lparr>st_sel := sel\<rparr> \<or> x \<in> set ss"
      using that set_update_subset_insert[of ss si] by fastforce
    moreover have "ss ! si \<in> set ss" using assms(2) by simp
    ultimately show ?thesis using assms unfolding list_ok_def reached_def by auto
  qed
  ultimately show ?thesis using assms(1) unfolding list_ok_def by metis
qed

section \<open>One instruction\<close>

text \<open>The best match so far, if there is one, is a match.\<close>

definition best_ok :: "search \<Rightarrow> sels \<Rightarrow> bool" where
  "best_ok S sel \<longleftrightarrow> length sel = pr_cursubid (sr_prg S) + 1 \<and>
     (P0 (hd sel) < 0 \<or>
      (\<exists>q q'. P0 (hd sel) = int q \<and> P1 (hd sel) = int q' \<and> sr_start S \<le> q \<and> q \<le> q' \<and>
         q' \<le> sr_end S \<and> sr_match S q q'))"

text \<open>
  While the list of states is run at \<open>p\<close>: \<open>V\<close> are the instructions run so far.  What follows
  them without input is among them, in the list or in \<open>todo\<close>; what follows them with the rune
  at \<open>p\<close> is in the next list; and if they reach the end mark there is a match.
\<close>

definition running :: "search \<Rightarrow> nat \<Rightarrow> nat set \<Rightarrow> nat set \<Rightarrow> machine \<Rightarrow> bool" where
  "running S p V todo m \<longleftrightarrow> V \<subseteq> sr_live S \<and> list_ok S p (m_cur m) \<and>
     (p < sr_end S \<longrightarrow> list_ok S (Suc p) (m_nxt m)) \<and> best_ok S (m_sel m) \<and>
     (\<forall>v \<in> V. (\<forall>w. sr_eps S p v w \<longrightarrow> w \<in> V \<union> st_i ` set (m_cur m) \<union> todo) \<and>
        (\<forall>w. sr_eat S p v w \<longrightarrow> w \<in> st_i ` set (m_nxt m)) \<and>
        (i_op (sr_code S ! v) = tEND \<longrightarrow> 0 \<le> P0 (hd (m_sel m))))"

text \<open>What a run of states keeps.\<close>

definition grows :: "machine \<Rightarrow> machine \<Rightarrow> bool" where
  "grows m m' \<longleftrightarrow> (\<exists>more. map st_i (m_cur m') = map st_i (m_cur m) @ more) \<and>
     (0 \<le> P0 (hd (m_sel m)) \<longrightarrow> 0 \<le> P0 (hd (m_sel m')))"

lemma grows_refl: "grows m m"
  by (simp add: grows_def)

lemma grows_trans: "grows a b \<Longrightarrow> grows b c \<Longrightarrow> grows a c"
  by (auto simp: grows_def)

lemma grows_length: "grows m m' \<Longrightarrow> length (m_cur m) \<le> length (m_cur m')"
  unfolding grows_def by (metis length_append length_map le_add1)

lemma grows_nth:
  assumes "grows m m'" and "si < length (m_cur m)"
  shows "st_i (m_cur m' ! si) = st_i (m_cur m ! si)"
proof -
  obtain more where "map st_i (m_cur m') = map st_i (m_cur m) @ more"
    using assms(1) by (auto simp: grows_def)
  then have "map st_i (m_cur m') ! si = map st_i (m_cur m) ! si"
    using assms(2) by (simp add: nth_append)
  then show ?thesis using assms grows_length[OF assms(1)] by simp
qed

text \<open>Every class of the program can be matched: no flag without its bounds.\<close>

definition classes_ok :: "search \<Rightarrow> bool" where
  "classes_ok S \<longleftrightarrow>
     (\<forall>pc \<in> sr_live S. \<forall>c. sre_classMatch (sr_tab S) (i_class (sr_code S ! pc)) c \<noteq> Panic)"

text \<open>One instruction either fails on a bad class, or ends the state, or goes on with a live one.\<close>

definition inst_post ::
    "search \<Rightarrow> nat \<Rightarrow> nat \<Rightarrow> nat set \<Rightarrow> nat \<Rightarrow> machine \<Rightarrow> (goto \<times> machine) go \<Rightarrow> bool" where
  "inst_post S p si V pc m y \<longleftrightarrow>
     (case y of
        Panic \<Rightarrow> \<not> classes_ok S
      | Ret (g, m') \<Rightarrow> grows m m' \<and>
          (case g of
             Break \<Rightarrow> False
           | Next \<Rightarrow> running S p (insert pc V) {} m'
           | Goto j \<Rightarrow> pc \<noteq> sr_last S \<and> j = i_left (sr_code S ! pc) \<and> running S p (insert pc V) {j} m' \<and>
               reached S p j (st_sel (m_cur m' ! si))))"

lemma run_insert:
  assumes "running S p V {pc} m" and "pc \<in> sr_live S" and "list_ok S p (m_cur m')"
    and "p < sr_end S \<Longrightarrow> list_ok S (Suc p) (m_nxt m')" and "best_ok S (m_sel m')"
    and "st_i ` set (m_cur m) \<subseteq> st_i ` set (m_cur m')" and "st_i ` set (m_nxt m) \<subseteq> st_i ` set (m_nxt m')"
    and "0 \<le> P0 (hd (m_sel m)) \<Longrightarrow> 0 \<le> P0 (hd (m_sel m'))"
    and "\<And>w. sr_eps S p pc w \<Longrightarrow> w \<in> st_i ` set (m_cur m') \<union> todo"
    and "\<And>w. sr_eat S p pc w \<Longrightarrow> w \<in> st_i ` set (m_nxt m')"
    and "i_op (sr_code S ! pc) = tEND \<Longrightarrow> 0 \<le> P0 (hd (m_sel m'))"
  shows "running S p (insert pc V) todo m'"
  unfolding running_def
proof (intro conjI ballI impI allI)
  fix v assume v: "v \<in> insert pc V"
  have old: "v = pc \<or> (\<forall>w. sr_eps S p v w \<longrightarrow> w \<in> V \<union> st_i ` set (m_cur m) \<union> {pc}) \<and>
        (\<forall>w. sr_eat S p v w \<longrightarrow> w \<in> st_i ` set (m_nxt m)) \<and>
        (i_op (sr_code S ! v) = tEND \<longrightarrow> 0 \<le> P0 (hd (m_sel m)))"
    using assms(1) v unfolding running_def by blast
  fix w
  show "w \<in> insert pc V \<union> st_i ` set (m_cur m') \<union> todo" if "sr_eps S p v w"
    using old that assms(6,9) by blast
  show "w \<in> st_i ` set (m_nxt m')" if "sr_eat S p v w"
    using old that assms(7,10) by blast
  show "0 \<le> P0 (hd (m_sel m'))" if "i_op (sr_code S ! v) = tEND"
    using old that assms(8,11) by blast
qed (use assms in \<open>auto simp: running_def\<close>)

lemma states_add_covers: "st_i ` set (states_add t sel ss) = insert t (st_i ` set ss)"
proof -
  have "st_i ` set (states_add t sel ss) = set (map st_i (states_add t sel ss))" by simp
  then show ?thesis unfolding states_add_ids by auto
qed

text \<open>What is known of a live instruction.\<close>

lemma live_facts:
  assumes "search_ok S" and "pc \<in> sr_live S"
  shows "0 < pc" "pc < length (sr_code S)" "ends (sr_code S) pc (sr_last S)"
    and "pc \<noteq> sr_last S \<Longrightarrow> i_left (sr_code S ! pc) \<in> sr_live S"
    and "i_op (sr_code S ! pc) = tOR \<Longrightarrow> i_right (sr_code S ! pc) \<in> sr_live S"
    and "i_op (sr_code S ! pc) \<noteq> tEND \<Longrightarrow> pc \<noteq> sr_last S"
    and "sub_good (pr_cursubid (sr_prg S)) (sr_code S ! pc)"
  using assms ends_bounds[of "sr_code S" pc "sr_last S"]
  by (auto simp: search_ok_def prog_ok_def is_inst_def)

lemma reached_step:
  assumes "reached S p pc sel" and "mstep (sr_tab S) (sr_code S) (sr_text S) (sr_end S) (pc, p) (pc', p')"
    and "p \<le> p'"
  shows "reached S p' pc' sel"
proof -
  obtain q where q: "P0 (hd sel) = int q" "sr_start S \<le> q" "q \<le> p"
      "sr_steps S (pr_entry (sr_prg S), q) (pc, p)" "length sel = pr_cursubid (sr_prg S) + 1"
    using assms(1) by (auto simp: reached_def)
  have "sr_steps S (pr_entry (sr_prg S), q) (pc', p')"
    using q(4) assms(2) by (rule rtranclp.rtrancl_into_rtrancl)
  then show ?thesis using q assms(3) unfolding reached_def by auto
qed

lemma reached_eps: "reached S p pc sel \<Longrightarrow> sr_eps S p pc pc' \<Longrightarrow> reached S p pc' sel"
  using reached_step mstep_eps by blast

text \<open>An instruction that consumes the rune.\<close>

lemma next_post:
  assumes ok: "search_ok S" and run: "running S p V {pc} m" and pc: "pc \<in> sr_live S"
    and si: "reached S p pc (st_sel (m_cur m ! si))"
    and op: "i_op (sr_code S ! pc) \<notin> eps_ops"
    and b: "p < sr_end S \<Longrightarrow> b = eats (sr_tab S) (i_op (sr_code S ! pc)) (i_class (sr_code S ! pc)) (sr_text S ! p)"
  shows "inst_post S p si V pc m (Ret (Next, if b then next_add si (i_left (sr_code S ! pc)) m else m))"
proof -
  let ?t = "i_left (sr_code S ! pc)"
  let ?m = "if b then next_add si ?t m else m"
  note live = live_facts[OF ok pc]
  have ne: "i_op (sr_code S ! pc) \<noteq> tEND" using op by (auto simp: eps_ops_def)
  have t: "?t \<in> sr_live S" using live(4,6) ne by simp
  have eat: "sr_eat S p pc w \<longleftrightarrow> p < sr_end S \<and> b \<and> w = ?t" for w
    using live(1,2) op b by (auto simp: eat_def)
  have noeps: "\<not> sr_eps S p pc w" for w
    using op by (auto simp: eps_simps is_inst_def eps_ops_def)
  have cur: "m_cur ?m = m_cur m" "m_sel ?m = m_sel m" by (simp_all add: next_add_def)
  have nxt: "list_ok S (Suc p) (m_nxt ?m)" if p: "p < sr_end S"
  proof (cases b)
    case True
    then have "sr_eat S p pc ?t" using eat p by simp
    then have "reached S (Suc p) ?t (st_sel (m_cur m ! si))"
      using reached_step[OF si] mstep_eat by (metis le_SucI order_refl)
    then show ?thesis
      using run p list_ok_add[OF _ t] True by (auto simp: running_def next_add_def)
  qed (use run p in \<open>auto simp: running_def\<close>)
  have "running S p (insert pc V) {} ?m"
  proof (rule run_insert[OF run pc])
    show "list_ok S p (m_cur ?m)" "best_ok S (m_sel ?m)" using run cur by (auto simp: running_def)
    show "st_i ` set (m_cur m) \<subseteq> st_i ` set (m_cur ?m)" using cur by simp
    show "st_i ` set (m_nxt m) \<subseteq> st_i ` set (m_nxt ?m)"
      by (auto simp: next_add_def states_add_covers)
    show "w \<in> st_i ` set (m_nxt ?m)" if "sr_eat S p pc w" for w
      using that eat[of w] by (auto simp: next_add_def states_add_covers)
  qed (use nxt cur noeps ne in auto)
  then show ?thesis using cur by (auto simp: inst_post_def grows_def)
qed

text \<open>An instruction that goes on to its left, after an update of the list of states.\<close>

lemma goto_post:
  assumes ok: "search_ok S" and run: "running S p V {pc} m" and pc: "pc \<in> sr_live S"
    and op: "i_op (sr_code S ! pc) \<noteq> tEND" "i_op (sr_code S ! pc) \<in> eps_ops"
    and cur: "list_ok S p (m_cur m')" "\<exists>more. map st_i (m_cur m') = map st_i (m_cur m) @ more"
    and same: "m_nxt m' = m_nxt m" "m_sel m' = m_sel m"
    and eps: "\<And>w. sr_eps S p pc w \<Longrightarrow> w = i_left (sr_code S ! pc) \<or> w \<in> st_i ` set (m_cur m')"
    and go: "sr_eps S p pc (i_left (sr_code S ! pc))"
    and sel: "reached S p pc (st_sel (m_cur m' ! si))"
  shows "inst_post S p si V pc m (Ret (Goto (i_left (sr_code S ! pc)), m'))"
proof -
  let ?t = "i_left (sr_code S ! pc)"
  have noeat: "\<not> sr_eat S p pc w" for w using op(2) by (auto simp: eat_def)
  have sub: "st_i ` set (m_cur m) \<subseteq> st_i ` set (m_cur m')"
  proof -
    obtain more where "map st_i (m_cur m') = map st_i (m_cur m) @ more" using cur(2) by blast
    then have "set (map st_i (m_cur m')) = set (map st_i (m_cur m)) \<union> set more" by simp
    then show ?thesis by auto
  qed
  have "running S p (insert pc V) {?t} m'"
  proof (rule run_insert[OF run pc cur(1) _ _ sub])
    show "best_ok S (m_sel m')" "p < sr_end S \<Longrightarrow> list_ok S (Suc p) (m_nxt m')"
      using run same by (auto simp: running_def)
  qed (use same eps noeat op(1) in auto)
  moreover have "grows m m'" using cur(2) same by (simp add: grows_def)
  moreover have "reached S p ?t (st_sel (m_cur m' ! si))" using reached_eps[OF sel go] .
  ultimately show ?thesis using live_facts(6)[OF ok pc op(1)] by (simp add: inst_post_def)
qed

lemma inst_post_next:
  assumes "running S p V {pc} m" and "pc \<in> sr_live S" and "i_op (sr_code S ! pc) \<in> eps_ops"
    and "i_op (sr_code S ! pc) \<noteq> tEND" and "\<And>w. \<not> sr_eps S p pc w"
  shows "inst_post S p si V pc m (Ret (Next, m))"
proof -
  have "running S p (insert pc V) {} m"
  proof (rule run_insert[OF assms(1,2)])
    show "sr_eat S p pc w \<Longrightarrow> w \<in> st_i ` set (m_nxt m)" for w
      using assms(3) by (auto simp: eat_def)
  qed (use assms in \<open>auto simp: running_def\<close>)
  then show ?thesis by (simp add: inst_post_def grows_refl)
qed

text \<open>The end mark: the match of the state is one.\<close>

lemma end_post:
  assumes ok: "search_ok S" and run: "running S p V {pc} m" and pc: "pc \<in> sr_live S"
    and len: "si < length (m_cur m)" and si: "reached S p pc (st_sel (m_cur m ! si))"
    and p: "p \<le> sr_end S" and op: "i_op (sr_code S ! pc) = tEND"
  shows "inst_post S p si V pc m
     (go_map (\<lambda>sel. (Next, (cur_sel si sel m)\<lparr>m_sel := sre_newmatch (m_sel m) sel\<rparr>))
        (set_P1 0 (int p) (st_sel (m_cur m ! si))))"
proof -
  let ?sel = "st_sel (m_cur m ! si)"
  let ?r = "?sel[0 := (?sel ! 0)\<lparr>P1 := int p\<rparr>]"
  let ?m = "(cur_sel si ?r m)\<lparr>m_sel := sre_newmatch (m_sel m) ?r\<rparr>"
  have ne: "?sel \<noteq> []" and lr: "length ?r = pr_cursubid (sr_prg S) + 1"
    using si by (auto simp: reached_def)
  have hr: "P0 (hd ?r) = P0 (hd ?sel)" "P1 (hd ?r) = int p"
    using ne by (simp_all add: hd_upd hd_conv_nth)
  obtain q where q: "P0 (hd ?sel) = int q" "sr_start S \<le> q" "q \<le> p"
      "sr_steps S (pr_entry (sr_prg S), q) (pc, p)"
    using si by (auto simp: reached_def)
  have "is_inst (sr_code S) pc tEND" using live_facts[OF ok pc] op by (simp add: is_inst_def)
  then have mt: "sr_match S q p" using q(4) by (auto simp: prog_match_def)
  have best: "best_ok S (sre_newmatch (m_sel m) ?r)" "0 \<le> P0 (hd (sre_newmatch (m_sel m) ?r))"
  proof -
    have r: "best_ok S ?r" "0 \<le> P0 (hd ?r)"
      unfolding best_ok_def using lr hr q mt p by auto
    show "best_ok S (sre_newmatch (m_sel m) ?r)"
      using r run by (auto simp: sre_newmatch_def running_def)
    show "0 \<le> P0 (hd (sre_newmatch (m_sel m) ?r))"
      using r by (auto simp: sre_newmatch_def)
  qed
  have cur: "list_ok S p (m_cur ?m)"
    using run list_ok_sel[OF _ len, of S p ?r] hr by (auto simp: running_def cur_sel_def)
  have ids: "map st_i (m_cur ?m) = map st_i (m_cur m)"
    using len by (auto simp: cur_sel_def map_update list_update_same_conv)
  then have ids': "st_i ` set (m_cur ?m) = st_i ` set (m_cur m)" by (metis set_map)
  have "running S p (insert pc V) {} ?m"
  proof (rule run_insert[OF run pc cur])
    show "\<And>w. sr_eps S p pc w \<Longrightarrow> w \<in> st_i ` set (m_cur ?m) \<union> {}"
      using op by (auto simp: eps_simps is_inst_def sre_codes)
    show "\<And>w. sr_eat S p pc w \<Longrightarrow> w \<in> st_i ` set (m_nxt ?m)"
      using op by (auto simp: eat_def eps_ops_def)
  qed (use run best ids' in \<open>auto simp: running_def cur_sel_def\<close>)
  moreover have "grows m ?m" using ids best by (simp add: grows_def)
  ultimately show ?thesis using ne by (simp add: set_P1_def inst_post_def)
qed

text \<open>The parentheses mark the selections of the state; the branch adds a state.\<close>

lemma paren_post:
  assumes ok: "search_ok S" and run: "running S p V {pc} m" and pc: "pc \<in> sr_live S"
    and len: "si < length (m_cur m)" and si: "reached S p pc (st_sel (m_cur m ! si))"
    and op: "i_op (sr_code S ! pc) \<in> {tLPAREN, tRPAREN}"
    and set: "set_Pk = set_P0 \<or> set_Pk = set_P1"
  shows "inst_post S p si V pc m
     (go_map (\<lambda>sel. (Goto (i_left (sr_code S ! pc)), cur_sel si sel m))
        (set_Pk (i_subid (sr_code S ! pc)) a (st_sel (m_cur m ! si))))"
proof -
  let ?sel = "st_sel (m_cur m ! si)" and ?k = "i_subid (sr_code S ! pc)"
  have k: "0 < ?k" "?k < length ?sel"
    using live_facts(7)[OF ok pc] op si by (auto simp: sub_good_def reached_def)
  obtain y where y: "set_Pk ?k a ?sel = Ret (?sel[?k := y])"
    using set k by (auto simp: set_P0_def set_P1_def)
  let ?m = "cur_sel si (?sel[?k := y]) m"
  have ne: "?sel \<noteq> []" using k(2) by auto
  then have hd: "P0 (hd (?sel[?k := y])) = P0 (hd ?sel)" using k(1) by (simp add: hd_upd)
  have i: "is_inst (sr_code S) pc (i_op (sr_code S ! pc))"
    using live_facts[OF ok pc] by (simp add: is_inst_def)
  have "inst_post S p si V pc m (Ret (Goto (i_left (sr_code S ! pc)), ?m))"
  proof (rule goto_post[OF ok run pc])
    show "list_ok S p (m_cur ?m)"
      using run list_ok_sel[OF _ len, of S p "?sel[?k := y]"] hd by (auto simp: running_def cur_sel_def)
    have "map st_i (m_cur ?m) = map st_i (m_cur m)"
      using len by (auto simp: cur_sel_def map_update list_update_same_conv)
    then show "\<exists>more. map st_i (m_cur ?m) = map st_i (m_cur m) @ more" by simp
    show "reached S p pc (st_sel (m_cur ?m ! si))"
      using si hd len by (simp add: cur_sel_def reached_def)
    show "sr_eps S p pc (i_left (sr_code S ! pc))"
      using eps_left[OF i] op by auto
    show "w = i_left (sr_code S ! pc) \<or> w \<in> st_i ` set (m_cur ?m)" if "sr_eps S p pc w" for w
      using that op by (auto simp: eps_simps is_inst_def sre_codes)
  qed (use op in \<open>auto simp: cur_sel_def eps_ops_def sre_codes\<close>)
  then show ?thesis using y by simp
qed

lemma branch_post:
  assumes ok: "search_ok S" and run: "running S p V {pc} m" and pc: "pc \<in> sr_live S"
    and len: "si < length (m_cur m)" and si: "reached S p pc (st_sel (m_cur m ! si))"
    and op: "i_op (sr_code S ! pc) = tOR"
  shows "inst_post S p si V pc m
     (Ret (Goto (i_left (sr_code S ! pc)), cur_add si (i_right (sr_code S ! pc)) m))"
proof (rule goto_post[OF ok run pc])
  let ?sel = "st_sel (m_cur m ! si)" and ?r = "i_right (sr_code S ! pc)"
  let ?m = "cur_add si ?r m"
  have i: "is_inst (sr_code S) pc tOR"
    using live_facts[OF ok pc] op by (simp add: is_inst_def)
  have cur: "list_ok S p (m_cur m)" using run by (simp add: running_def)
  have "reached S p ?r ?sel" using reached_eps[OF si eps_right[OF i]] .
  then show "list_ok S p (m_cur ?m)"
    using list_ok_add[OF cur live_facts(5)[OF ok pc op]] by (simp add: cur_add_def)
  show "\<exists>more. map st_i (m_cur ?m) = map st_i (m_cur m) @ more"
  proof
    show "map st_i (m_cur ?m) = map st_i (m_cur m) @
        (if ?r \<in> st_i ` set (m_cur m) then [] else [?r])"
      using states_add_ids[of ?r ?sel "m_cur m"] by (simp add: cur_add_def)
  qed
  have "m_cur ?m ! si = m_cur m ! si"
    using states_add_self[OF len _ refl] cur by (simp add: cur_add_def list_ok_def)
  then show "reached S p pc (st_sel (m_cur ?m ! si))" using si by simp
  show "sr_eps S p pc (i_left (sr_code S ! pc))" using eps_left[OF i] by simp
  show "w = i_left (sr_code S ! pc) \<or> w \<in> st_i ` set (m_cur ?m)" if "sr_eps S p pc w" for w
    using that op by (auto simp: eps_simps is_inst_def sre_codes cur_add_def states_add_covers)
qed (use op in \<open>auto simp: cur_add_def eps_ops_def sre_codes\<close>)

lemma class_post:
  assumes "pc \<in> sr_live S"
    and "\<And>b. sre_classMatch (sr_tab S) (i_class (sr_code S ! pc)) c = Ret b \<Longrightarrow>
           inst_post S p si V pc m (Ret (f b))"
  shows "inst_post S p si V pc m (go_map f (sre_classMatch (sr_tab S) (i_class (sr_code S ! pc)) c))"
  using assms by (cases "sre_classMatch (sr_tab S) (i_class (sr_code S ! pc)) c")
    (auto simp: inst_post_def classes_ok_def)

lemma exec_common_post:
  assumes ok: "search_ok S" and run: "running S p V {pc} m" and pc: "pc \<in> sr_live S"
    and len: "si < length (m_cur m)" and si: "reached S p pc (st_sel (m_cur m ! si))"
    and op: "i_op (sr_code S ! pc) \<notin> {tBOL, tEOL, tEND}"
    and c: "c = rune_at (sr_text S) (sr_end S) p"
  shows "inst_post S p si V pc m (exec_common (sr_tab S) (sr_code S ! pc) (int p) c si m)"
proof -
  let ?x = "sr_code S ! pc"
  have ct: "p < sr_end S \<Longrightarrow> sr_text S ! p = c" using c by (simp add: rune_at_def)
  note nx = next_post[OF ok run pc si]
  consider "i_op ?x \<in> {tLPAREN, tRPAREN}" | "i_op ?x = tOR" | "i_op ?x \<in> {tCCLASS, tNCCLASS}"
    | "i_op ?x \<notin> eps_ops" "i_op ?x \<notin> {tCCLASS, tNCCLASS}"
    using op by (auto simp: eps_ops_def)
  then show ?thesis
  proof cases
    case 1
    then show ?thesis
      using paren_post[OF ok run pc len si 1, of set_P0] paren_post[OF ok run pc len si 1, of set_P1]
      by (auto simp: exec_common_def sre_codes)
  next
    case 2
    then show ?thesis using branch_post[OF ok run pc len si 2] by (simp add: exec_common_def sre_codes)
  next
    case 3
    have n: "i_op ?x \<notin> eps_ops" using 3 by (auto simp: eps_ops_def sre_codes)
    show ?thesis
    proof (cases "i_op ?x = tCCLASS")
      case True
      have "inst_post S p si V pc m (go_map (\<lambda>b. (Next, if b then next_add si (i_left ?x) m else m))
          (sre_classMatch (sr_tab S) (i_class ?x) c))"
        by (rule class_post[OF pc], rule nx[OF n])
          (use True ct in \<open>auto simp: eats_def sre_codes\<close>)
      then show ?thesis using True by (simp add: exec_common_def sre_codes)
    next
      case False
      then have N: "i_op ?x = tNCCLASS" using 3 by simp
      have "inst_post S p si V pc m (go_map (\<lambda>b. (Next, if \<not> b then next_add si (i_left ?x) m else m))
          (sre_classMatch (sr_tab S) (i_class ?x) c))"
        by (rule class_post[OF pc], rule nx[OF n])
          (use N ct in \<open>auto simp: eats_def sre_codes\<close>)
      moreover have "(\<lambda>b. (Next, if \<not> b then next_add si (i_left ?x) m else m)) =
          (\<lambda>b. (Next, if b then m else next_add si (i_left ?x) m))" by auto
      ultimately show ?thesis using N by (simp add: exec_common_def sre_codes)
    qed
  next
    case 4
    let ?b = "if i_op ?x = tANY then c \<noteq> 10 \<and> c \<noteq> 0 else if i_op ?x = tWORD then go_is_word (sr_tab S) c
       else if i_op ?x = tBLANK then go_is_space c \<and> c \<noteq> 10 else i_op ?x = c"
    have "inst_post S p si V pc m (Ret (Next, if ?b then next_add si (i_left ?x) m else m))"
      by (rule nx[OF 4(1)]) (use 4 ct in \<open>auto simp: eats_def\<close>)
    moreover have "exec_common (sr_tab S) ?x (int p) c si m
        = Ret (Next, if ?b then next_add si (i_left ?x) m else m)"
      using 4 by (auto simp: exec_common_def eps_ops_def)
    ultimately show ?thesis by simp
  qed
qed

text \<open>The instruction of the forward search.\<close>

abbreviation sr_inst :: "search \<Rightarrow> nat \<Rightarrow> nat \<Rightarrow> nat \<Rightarrow> machine \<Rightarrow> (goto \<times> machine) go" where
  "sr_inst S p \<equiv> exec_inst (sr_tab S) (sr_prg S) (sr_txt S) (int (sr_end S)) (int p)
     (rune_at (sr_text S) (sr_end S) p)"

lemma line_post:
  assumes ok: "search_ok S" and run: "running S p V {pc} m" and pc: "pc \<in> sr_live S"
    and si: "reached S p pc (st_sel (m_cur m ! si))"
    and op: "i_op (sr_code S ! pc) \<in> {tBOL, tEOL}"
    and b: "b = (if i_op (sr_code S ! pc) = tBOL then bol_at (sr_text S) (sr_end S) p
                 else eol_at (sr_text S) (sr_end S) p)"
  shows "inst_post S p si V pc m (Ret (if b then Goto (i_left (sr_code S ! pc)) else Next, m))"
proof -
  have i: "is_inst (sr_code S) pc (i_op (sr_code S ! pc))"
    using live_facts[OF ok pc] by (simp add: is_inst_def)
  have e: "sr_eps S p pc w \<longleftrightarrow> b \<and> w = i_left (sr_code S ! pc)" for w
    using i op b by (auto simp: eps_simps is_inst_def sre_codes)
  have o: "i_op (sr_code S ! pc) \<in> eps_ops" "i_op (sr_code S ! pc) \<noteq> tEND"
    using op by (auto simp: eps_ops_def sre_codes)
  show ?thesis
  proof (cases b)
    case True
    have "inst_post S p si V pc m (Ret (Goto (i_left (sr_code S ! pc)), m))"
      by (rule goto_post[OF ok run pc o(2,1)]) (use run e True si in \<open>auto simp: running_def\<close>)
    then show ?thesis using True by simp
  next
    case False
    then show ?thesis using inst_post_next[OF run pc o] e by simp
  qed
qed

lemma exec_inst_post:
  assumes ok: "search_ok S" and run: "running S p V {pc} m" and pc: "pc \<in> sr_live S"
    and len: "si < length (m_cur m)" and si: "reached S p pc (st_sel (m_cur m ! si))"
    and p: "p \<le> sr_end S"
  shows "inst_post S p si V pc m (sr_inst S p si pc m)"
proof -
  let ?x = "sr_code S ! pc" and ?T = "sr_text S" and ?e = "sr_end S"
  note live = live_facts[OF ok pc]
  have inst: "sr_inst S p si pc m =
      (if i_op ?x = tBOL then
          (if p = 0 then Ret (Goto (i_left ?x), m)
           else go_map (\<lambda>r. (if r = 10 \<and> int p < int ?e then Goto (i_left ?x) else Next, m))
                  (rd_Getc (sr_txt S) (int p - 1)))
        else if i_op ?x = tEOL then
          Ret (if rune_at ?T ?e p = 10 \<or> rune_at ?T ?e p = 0 then Goto (i_left ?x) else Next, m)
        else if i_op ?x = tEND then
          go_map (\<lambda>sel. (Next, (cur_sel si sel m)\<lparr>m_sel := sre_newmatch (m_sel m) sel\<rparr>))
            (set_P1 0 (int p) (st_sel (m_cur m ! si)))
        else exec_common (sr_tab S) ?x (int p) (rune_at ?T ?e p) si m)"
    using live(1,2) by (simp add: exec_inst_def Let_def)
  consider "i_op ?x = tBOL" | "i_op ?x = tEOL" | "i_op ?x = tEND" | "i_op ?x \<notin> {tBOL, tEOL, tEND}"
    by auto
  then show ?thesis
  proof cases
    case 1
    note line = line_post[OF ok run pc si _ refl]
    show ?thesis
    proof (cases "p = 0")
      case True
      then show ?thesis using line 1 inst by (simp add: bol_at_def)
    next
      case False
      then have "rd_Getc (sr_txt S) (int p - 1) = Ret (?T ! (p - 1))"
        using rune_reader.getc_reads[of "sr_txt S" ?T "int p - 1"] ok p
        by (auto simp: search_ok_def nat_diff_distrib)
      then show ?thesis using line 1 inst False by (simp add: bol_at_def)
    qed
  next
    case 2
    then show ?thesis using line_post[OF ok run pc si _ refl] inst by (simp add: eol_at_def sre_codes)
  next
    case 3
    then show ?thesis using end_post[OF ok run pc len si p] inst by (simp add: sre_codes)
  next
    case 4
    then show ?thesis using exec_common_post[OF ok run pc len si 4 refl] inst by simp
  qed
qed

section \<open>The run of a state and of the list\<close>

lemma run_state_post:
  assumes ok: "search_ok S" and p: "p \<le> sr_end S"
  shows "ends (sr_code S) pc (sr_last S) \<Longrightarrow> pc \<in> sr_live S \<Longrightarrow> running S p V {pc} m \<Longrightarrow>
     si < length (m_cur m) \<Longrightarrow> reached S p pc (st_sel (m_cur m ! si)) \<Longrightarrow>
     \<exists>y. run_state (sr_inst S p si) pc m = Some y \<and>
       (case y of Panic \<Rightarrow> \<not> classes_ok S
        | Ret (stop, m') \<Rightarrow> \<not> stop \<and> grows m m' \<and> (\<exists>V'. insert pc V \<subseteq> V' \<and> running S p V' {} m'))"
proof (induction pc "sr_last S" arbitrary: V m rule: ends.induct)
  case (ends_stop)
  note post = exec_inst_post[OF ok ends_stop(5,4,6,7) p]
  show ?case
  proof (cases "sr_inst S p si (sr_last S) m")
    case Panic
    then show ?thesis using post by (subst run_state.simps) (simp add: inst_post_def)
  next
    case (Ret gm)
    then obtain m' where m': "gm = (Next, m')" "grows m m'" "running S p (insert (sr_last S) V) {} m'"
      using post by (cases gm; cases "fst gm") (auto simp: inst_post_def)
    then have "run_state (sr_inst S p si) (sr_last S) m = Some (Ret (False, m'))"
      using Ret by (subst run_state.simps) simp
    then show ?thesis using m'(2,3) by auto
  qed
next
  case (ends_next pc)
  note post = exec_inst_post[OF ok ends_next(7,6,8,9) p]
  show ?case
  proof (cases "sr_inst S p si pc m")
    case Panic
    then show ?thesis using post by (subst run_state.simps) (simp add: inst_post_def)
  next
    case (Ret gm)
    obtain g m' where gm: "gm = (g, m')" by force
    show ?thesis
    proof (cases g)
      case (Goto j)
      have g: "grows m m'" "pc \<noteq> sr_last S" "j = i_left (sr_code S ! pc)"
          "running S p (insert pc V) {j} m'" "reached S p j (st_sel (m_cur m' ! si))"
        using post Ret gm Goto by (auto simp: inst_post_def)
      have "j \<in> sr_live S" using live_facts(4)[OF ok ends_next(6)] g by simp
      moreover have "si < length (m_cur m')" using grows_length[OF g(1)] ends_next(8) by simp
      ultimately obtain y where y: "run_state (sr_inst S p si) j m' = Some y"
          "case y of Panic \<Rightarrow> \<not> classes_ok S
           | Ret (stop, m'') \<Rightarrow> \<not> stop \<and> grows m' m'' \<and>
               (\<exists>V'. insert j (insert pc V) \<subseteq> V' \<and> running S p V' {} m'')"
        using ends_next(5)[of "insert pc V" m'] g by auto
      have "run_state (sr_inst S p si) pc m = Some y"
        using Ret gm Goto y(1) by (subst run_state.simps) simp
      moreover have "case y of Panic \<Rightarrow> \<not> classes_ok S
           | Ret (stop, m'') \<Rightarrow> \<not> stop \<and> grows m m'' \<and> (\<exists>V'. insert pc V \<subseteq> V' \<and> running S p V' {} m'')"
        using y(2) grows_trans[OF g(1)] by (fastforce split: go.splits)
      ultimately show ?thesis by blast
    next
      case Next
      then show ?thesis using post Ret gm by (subst run_state.simps) (auto simp: inst_post_def)
    next
      case Break
      then show ?thesis using post Ret gm by (simp add: inst_post_def)
    qed
  qed
qed

lemma list_bound:
  assumes "search_ok S" and "list_ok S p ss"
  shows "length ss \<le> length (sr_code S)"
proof -
  have "set (map st_i ss) \<subseteq> {..<length (sr_code S)}"
    using assms live_facts(2) unfolding list_ok_def by auto
  then have "card (set (map st_i ss)) \<le> length (sr_code S)"
    using card_mono[of "{..<length (sr_code S)}"] by simp
  then show ?thesis using assms(2) distinct_card[of "map st_i ss"] by (simp add: list_ok_def)
qed

lemma running_more: "running S p V {} m \<Longrightarrow> running S p V todo m"
  unfolding running_def by blast

lemma run_list_post:
  assumes ok: "search_ok S" and p: "p \<le> sr_end S"
  shows "running S p V {} m \<Longrightarrow> \<forall>j < si. j < length (m_cur m) \<longrightarrow> st_i (m_cur m ! j) \<in> V \<Longrightarrow>
     \<exists>y. run_list (sr_inst S p) si m = Some y \<and>
       (case y of Panic \<Rightarrow> \<not> classes_ok S
        | Ret m' \<Rightarrow> grows m m' \<and> (\<exists>V'. running S p V' {} m' \<and> st_i ` set (m_cur m') \<subseteq> V'))"
proof (induction "length (sr_code S) - si" arbitrary: si V m rule: less_induct)
  case less
  show ?case
  proof (cases "si < length (m_cur m)")
    case False
    then have "st_i ` set (m_cur m) \<subseteq> V"
      using less.prems(2) by (auto simp: in_set_conv_nth)
    then show ?thesis
      using False less.prems(1) grows_refl by (subst run_list.simps) auto
  next
    case True
    let ?pc = "st_i (m_cur m ! si)"
    have lk: "list_ok S p (m_cur m)" using less.prems(1) by (simp add: running_def)
    then have pc: "?pc \<in> sr_live S" "reached S p ?pc (st_sel (m_cur m ! si))"
      using True by (auto simp: list_ok_def)
    obtain y where y: "run_state (sr_inst S p si) ?pc m = Some y"
       "case y of Panic \<Rightarrow> \<not> classes_ok S
        | Ret (stop, m') \<Rightarrow> \<not> stop \<and> grows m m' \<and> (\<exists>V'. insert ?pc V \<subseteq> V' \<and> running S p V' {} m')"
      using run_state_post[OF ok p live_facts(3)[OF ok pc(1)] pc(1) running_more[OF less.prems(1)] True pc(2)]
      by blast
    show ?thesis
    proof (cases y)
      case Panic
      then show ?thesis using y True by (subst run_list.simps) simp
    next
      case (Ret bm)
      then obtain m' V' where m': "bm = (False, m')" "grows m m'" "insert ?pc V \<subseteq> V'" "running S p V' {} m'"
        using y(2) by (cases bm) auto
      have visited: "\<forall>j < Suc si. j < length (m_cur m') \<longrightarrow> st_i (m_cur m' ! j) \<in> V'"
      proof (intro allI impI)
        fix j assume j: "j < Suc si" "j < length (m_cur m')"
        then have jm: "j < length (m_cur m)" using True by simp
        have "st_i (m_cur m' ! j) = st_i (m_cur m ! j)" using grows_nth[OF m'(2) jm] .
        moreover have "st_i (m_cur m ! j) \<in> insert ?pc V"
          using less.prems(2) j(1) jm by (cases "j = si") auto
        ultimately show "st_i (m_cur m' ! j) \<in> V'" using m'(3) by auto
      qed
      have "si < length (sr_code S)" using list_bound[OF ok lk] True by simp
      then have "length (sr_code S) - Suc si < length (sr_code S) - si" by simp
      from less.hyps[OF this m'(4) visited] obtain z where z: "run_list (sr_inst S p) (Suc si) m' = Some z"
        "case z of Panic \<Rightarrow> \<not> classes_ok S
         | Ret m'' \<Rightarrow> grows m' m'' \<and> (\<exists>V'. running S p V' {} m'' \<and> st_i ` set (m_cur m'') \<subseteq> V')"
        by blast
      have "run_list (sr_inst S p) si m = Some z"
        using y(1) Ret m'(1) z(1) True by (subst run_list.simps) simp
      moreover have "case z of Panic \<Rightarrow> \<not> classes_ok S
         | Ret m'' \<Rightarrow> grows m m'' \<and> (\<exists>V'. running S p V' {} m'' \<and> st_i ` set (m_cur m'') \<subseteq> V')"
        using z(2) grows_trans[OF m'(2)] by (auto split: go.splits)
      ultimately show ?thesis by blast
    qed
  qed
qed

end
