(* ===== verification/SreSearch.thy ===== *)
theory SreSearch
  imports SreRun
begin

text \<open>
  The forward search as a whole: it ends, and it finds a match if and only if the tree of the
  expression denotes one between the positions of the search.
\<close>

section \<open>The instructions the program can be in\<close>

definition at_pos :: "search \<Rightarrow> nat \<Rightarrow> nat set" where
  "at_pos S p = {pc. \<exists>q. sr_start S \<le> q \<and> q \<le> p \<and> sr_steps S (pr_entry (sr_prg S), q) (pc, p)}"

lemma mstep_mono: "mstep tab c T e x y \<Longrightarrow> snd x \<le> snd y"
  by (auto elim: mstep.cases)

lemma msteps_mono: "msteps tab c T e x y \<Longrightarrow> snd x \<le> snd y"
  by (induction rule: rtranclp_induct) (auto dest: mstep_mono)

lemma at_pos_before: "p < sr_start S \<Longrightarrow> at_pos S p = {}"
  by (auto simp: at_pos_def)

text \<open>They follow without input from the entry, or from what consumed the rune before.\<close>

lemma at_pos_origin:
  assumes "pc \<in> at_pos S p"
  shows "\<exists>pc0. (pc0 = pr_entry (sr_prg S) \<or>
      (\<exists>p' v. p = Suc p' \<and> v \<in> at_pos S p' \<and> sr_eat S p' v pc0)) \<and> (sr_eps S p)\<^sup>*\<^sup>* pc0 pc"
proof -
  obtain q where q: "sr_start S \<le> q" "q \<le> p" "sr_steps S (pr_entry (sr_prg S), q) (pc, p)"
    using assms by (auto simp: at_pos_def)
  define P where "P = (\<lambda>x. q \<le> snd x \<and> (\<exists>pc0. (pc0 = pr_entry (sr_prg S) \<or>
      (\<exists>p' v. snd x = Suc p' \<and> v \<in> at_pos S p' \<and> sr_eat S p' v pc0)) \<and> (sr_eps S (snd x))\<^sup>*\<^sup>* pc0 (fst x)))"
  have "P (pc, p)"
    using q(3)
  proof (induction rule: rtranclp_induct)
    case base
    then show ?case by (auto simp: P_def)
  next
    case (step y z)
    from step(2) show ?case
    proof (cases rule: mstep.cases)
      case (mstep_eps p1 pc1 pc2)
      then show ?thesis
        using step(3) unfolding P_def by (auto intro: rtranclp.rtrancl_into_rtrancl)
    next
      case (mstep_eat p1 pc1 pc2)
      have "q \<le> p1" using step(3) mstep_eat by (auto simp: P_def)
      moreover have "pc1 \<in> at_pos S p1"
        using step(1) mstep_eat q(1) \<open>q \<le> p1\<close> by (auto simp: at_pos_def)
      ultimately show ?thesis using mstep_eat unfolding P_def by auto
    qed
  qed
  then show ?thesis by (auto simp: P_def)
qed

lemma match_at_pos:
  assumes "sr_match S q q'" and "sr_start S \<le> q"
  shows "\<exists>v \<in> at_pos S q'. i_op (sr_code S ! v) = tEND"
proof -
  obtain x where x: "is_inst (sr_code S) x tEND" "sr_steps S (pr_entry (sr_prg S), q) (x, q')"
    using assms(1) by (auto simp: prog_match_def)
  have "q \<le> q'" using msteps_mono[OF x(2)] by simp
  then show ?thesis using x assms(2) by (auto simp: at_pos_def is_inst_def)
qed

section \<open>The invariant of the search\<close>

definition search_inv :: "search \<Rightarrow> nat \<Rightarrow> machine \<Rightarrow> bool" where
  "search_inv S p m \<longleftrightarrow> m_nxt m = [] \<and> best_ok S (m_sel m) \<and>
     (p \<le> sr_end S \<longrightarrow> list_ok S p (m_cur m)) \<and>
     (P0 (hd (m_sel m)) < 0 \<longrightarrow>
        (\<forall>p' < p. \<forall>v \<in> at_pos S p'. i_op (sr_code S ! v) \<noteq> tEND) \<and>
        (\<forall>p' v w. p = Suc p' \<and> v \<in> at_pos S p' \<and> sr_eat S p' v w \<longrightarrow> w \<in> st_i ` set (m_cur m)))"

text \<open>A result: no match when there is none, or a match.\<close>

definition found :: "search \<Rightarrow> sels \<Rightarrow> bool" where
  "found S r \<longleftrightarrow>
     (if r = [] then \<forall>q q'. sr_start S \<le> q \<and> q' \<le> sr_end S \<longrightarrow> \<not> sr_match S q q'
      else 0 \<le> P0 (hd r) \<and> best_ok S r)"

lemma inv_found:
  assumes inv: "search_inv S p m" and stop: "sr_end S < p \<or> 0 \<le> P0 (hd (m_sel m))"
  shows "found S (sre_retsel (m_sel m))"
proof (cases "P0 (hd (m_sel m)) < 0")
  case True
  then have "sr_end S < p" using stop by simp
  have "\<not> sr_match S q q'" if "sr_start S \<le> q" "q' \<le> sr_end S" for q q'
  proof
    assume m: "sr_match S q q'"
    have "q' < p" using that(2) \<open>sr_end S < p\<close> by simp
    then show False using match_at_pos[OF m that(1)] inv True by (auto simp: search_inv_def)
  qed
  then show ?thesis using True by (auto simp: found_def sre_retsel_def)
next
  case False
  then have "m_sel m \<noteq> []" using inv by (auto simp: search_inv_def best_ok_def)
  then show ?thesis using False inv by (auto simp: found_def sre_retsel_def search_inv_def)
qed

lemma add_entry_running:
  assumes ok: "search_ok S" and inv: "search_inv S p m" and p: "sr_start S \<le> p" "p \<le> sr_end S"
  shows "running S p {} {} (add_entry (sr_prg S) (int p) m)"
proof -
  let ?e = "pr_entry (sr_prg S)" and ?sel = "(no_sel (pr_cursubid (sr_prg S) + 1))[0 := \<lparr>P0 = int p, P1 = 0\<rparr>]"
  have "reached S p ?e ?sel" using p by (auto simp: reached_def no_sel_def)
  moreover have "?e \<in> sr_live S" using ok by (auto simp: search_ok_def prog_ok_def)
  ultimately have "list_ok S p (states_add ?e ?sel (m_cur m))"
    using inv p list_ok_add by (auto simp: search_inv_def)
  then show ?thesis using inv p by (auto simp: running_def add_entry_def search_inv_def)
qed

lemma running_closed:
  assumes "running S p V {} m" and "st_i ` set (m_cur m) \<subseteq> V" and "(sr_eps S p)\<^sup>*\<^sup>* v w" and "v \<in> V"
  shows "w \<in> V"
  using assms(3,4)
proof (induction rule: rtranclp_induct)
  case (step y z)
  then show ?case using assms(1,2) unfolding running_def by blast
qed

text \<open>One round keeps the invariant: a run of the list, or the skip of a rune that cannot
  start a match.\<close>

lemma round_inv:
  assumes inv: "search_inv S p m" and run: "running S p V {} m'" and cur: "st_i ` set (m_cur m') \<subseteq> V"
    and g: "grows (add_entry (sr_prg S) (int p) m) m'"
  shows "search_inv S (Suc p) (swap_lists m')"
proof -
  let ?e = "pr_entry (sr_prg S)"
  obtain more where "map st_i (m_cur m') = map st_i (m_cur (add_entry (sr_prg S) (int p) m)) @ more"
    using g by (auto simp: grows_def)
  then have "set (map st_i (m_cur m')) = set (map st_i (m_cur (add_entry (sr_prg S) (int p) m)) @ more)"
    by simp
  then have sub: "st_i ` set (m_cur (add_entry (sr_prg S) (int p) m)) \<subseteq> V" using cur by auto
  have main: "(\<forall>p' < Suc p. \<forall>v \<in> at_pos S p'. i_op (sr_code S ! v) \<noteq> tEND) \<and>
      (\<forall>v w. v \<in> at_pos S p \<and> sr_eat S p v w \<longrightarrow> w \<in> st_i ` set (m_nxt m'))"
    if none: "P0 (hd (m_sel m')) < 0"
  proof -
    have none0: "P0 (hd (m_sel m)) < 0"
      using g none by (auto simp: grows_def add_entry_def split: if_splits)
    then have V0: "?e \<in> V" "st_i ` set (m_cur m) \<subseteq> V"
      using sub by (auto simp: add_entry_def states_add_covers)
    have old: "(\<forall>p' < p. \<forall>v \<in> at_pos S p'. i_op (sr_code S ! v) \<noteq> tEND) \<and>
        (\<forall>p' v w. p = Suc p' \<and> v \<in> at_pos S p' \<and> sr_eat S p' v w \<longrightarrow> w \<in> st_i ` set (m_cur m))"
      using inv none0 unfolding search_inv_def by blast
    have at: "v \<in> V" if v: "v \<in> at_pos S p" for v
    proof -
      obtain pc0 where pc0: "pc0 = ?e \<or> (\<exists>p' v. p = Suc p' \<and> v \<in> at_pos S p' \<and> sr_eat S p' v pc0)"
          "(sr_eps S p)\<^sup>*\<^sup>* pc0 v"
        using at_pos_origin[OF v] by blast
      have "pc0 \<in> V" using pc0(1) V0 old by blast
      then show ?thesis using running_closed[OF run cur pc0(2)] by blast
    qed
    have "i_op (sr_code S ! v) \<noteq> tEND" if "v \<in> at_pos S p" for v
      using at[OF that] run none by (auto simp: running_def)
    moreover have "w \<in> st_i ` set (m_nxt m')" if "v \<in> at_pos S p" "sr_eat S p v w" for v w
      using at[OF that(1)] that(2) run unfolding running_def by blast
    ultimately show ?thesis using old by (auto simp: less_Suc_eq)
  qed
  show ?thesis
    using run main unfolding search_inv_def swap_lists_def running_def by auto
qed

lemma skip_inv:
  assumes ok: "search_ok S" and inv: "search_inv S p m" and none: "P0 (hd (m_sel m)) < 0" and cur: "m_cur m = []"
    and st: "start_rune (sr_prg S) = Ret c0" "c0 \<noteq> 0" and c: "rune_at (sr_text S) (sr_end S) p \<noteq> c0"
  shows "search_inv S (Suc p) m"
proof -
  let ?e = "pr_entry (sr_prg S)"
  have op: "i_op (sr_code S ! ?e) = c0" "c0 < tOPERATOR"
    using st by (auto simp: start_rune_def split: if_splits)
  have old: "(\<forall>p' < p. \<forall>v \<in> at_pos S p'. i_op (sr_code S ! v) \<noteq> tEND) \<and>
        (\<forall>p' v w. p = Suc p' \<and> v \<in> at_pos S p' \<and> sr_eat S p' v w \<longrightarrow> w \<in> st_i ` set (m_cur m))"
    using inv none unfolding search_inv_def by blast
  have noeps: "\<not> sr_eps S p ?e w" for w
    using op by (auto simp: eps_simps is_inst_def sre_codes)
  have at: "v = ?e" if v: "v \<in> at_pos S p" for v
  proof -
    obtain pc0 where pc0: "pc0 = ?e \<or> (\<exists>p' v. p = Suc p' \<and> v \<in> at_pos S p' \<and> sr_eat S p' v pc0)"
        "(sr_eps S p)\<^sup>*\<^sup>* pc0 v"
      using at_pos_origin[OF v] by blast
    have "pc0 = ?e" using pc0(1) old cur by auto
    then show ?thesis using pc0(2) noeps by (auto elim: converse_rtranclpE)
  qed
  have "\<not> sr_eat S p ?e w" for w
    using op c by (auto simp: eat_def eats_def rune_at_def sre_codes split: if_splits)
  then have "(\<forall>p' < Suc p. \<forall>v \<in> at_pos S p'. i_op (sr_code S ! v) \<noteq> tEND) \<and>
      (\<forall>v w. v \<in> at_pos S p \<and> sr_eat S p v w \<longrightarrow> w \<in> st_i ` set (m_cur m))"
    using old at op by (auto simp: less_Suc_eq sre_codes)
  then show ?thesis using inv cur by (auto simp: search_inv_def)
qed

section \<open>The search\<close>

lemma exec_loop_post:
  assumes ok: "search_ok S" and st: "start_rune (sr_prg S) = Ret c0"
  shows "search_inv S p m \<Longrightarrow> sr_start S \<le> p \<Longrightarrow>
     \<exists>y. exec_loop (sr_tab S) (sr_prg S) (sr_txt S) (int (sr_end S)) c0 (int p) m = Some y \<and>
       (case y of Panic \<Rightarrow> \<not> classes_ok S | Ret r \<Rightarrow> found S r)"
proof (induction "Suc (sr_end S) - p" arbitrary: p m rule: less_induct)
  case less
  show ?case
  proof (cases "sr_end S < p \<or> 0 \<le> P0 (hd (m_sel m)) \<and> m_cur m = []")
    case True
    then have "found S (sre_retsel (m_sel m))" using inv_found[OF less.prems(1)] by auto
    then show ?thesis using True by (subst exec_loop.simps) auto
  next
    case False
    then have p: "p \<le> sr_end S" by simp
    let ?c = "rune_at (sr_text S) (sr_end S) p"
    have dec: "Suc (sr_end S) - Suc p < Suc (sr_end S) - p" using p by simp
    have c: "(if int p = int (sr_end S) then Ret 0 else rd_Getc (sr_txt S) (int p)) = Ret ?c"
      using ok p rune_reader.getc_reads[of "sr_txt S" "sr_text S" "int p"]
      by (auto simp: rune_at_def search_ok_def)
    have sp: "int p + 1 = int (Suc p)" by simp
    show ?thesis
    proof (cases "c0 \<noteq> 0 \<and> m_cur m = [] \<and> ?c \<noteq> c0")
      case True
      have "P0 (hd (m_sel m)) < 0" using False True by auto
      then have "search_inv S (Suc p) m" using skip_inv[OF ok less.prems(1) _ _ st] True by blast
      moreover have "exec_loop (sr_tab S) (sr_prg S) (sr_txt S) (int (sr_end S)) c0 (int p) m =
          exec_loop (sr_tab S) (sr_prg S) (sr_txt S) (int (sr_end S)) c0 (int p + 1) m"
        using False True c by (subst exec_loop.simps) auto
      ultimately show ?thesis using less.hyps[OF dec] less.prems(2) sp by auto
    next
      case run: False
      obtain y where y: "run_list (sr_inst S p) 0 (add_entry (sr_prg S) (int p) m) = Some y"
        "case y of Panic \<Rightarrow> \<not> classes_ok S
         | Ret m' \<Rightarrow> grows (add_entry (sr_prg S) (int p) m) m' \<and>
             (\<exists>V'. running S p V' {} m' \<and> st_i ` set (m_cur m') \<subseteq> V')"
        using run_list_post[OF ok p add_entry_running[OF ok less.prems p], of 0] by auto
      have eq: "exec_loop (sr_tab S) (sr_prg S) (sr_txt S) (int (sr_end S)) c0 (int p) m =
          (case y of Panic \<Rightarrow> Some Panic
           | Ret m' \<Rightarrow> exec_loop (sr_tab S) (sr_prg S) (sr_txt S) (int (sr_end S)) c0 (int p + 1) (swap_lists m'))"
        using False run c y(1) by (subst exec_loop.simps) auto
      show ?thesis
      proof (cases y)
        case Panic
        then show ?thesis using eq y(2) by simp
      next
        case (Ret m')
        then have "search_inv S (Suc p) (swap_lists m')"
          using y(2) round_inv[OF less.prems(1)] by auto
        then show ?thesis using less.hyps[OF dec] less.prems(2) eq Ret sp by auto
      qed
    qed
  qed
qed

lemma new_machine_inv: "search_inv S (sr_start S) (new_machine (sr_prg S))"
  by (auto simp: search_inv_def new_machine_def best_ok_def no_sel_def at_pos_before)

end
