(* ===== verification/SreProps.thy ===== *)
theory SreProps
  imports SreSearch
begin

text \<open>
  The properties of the regexp engine: compilation always ends and refines the parser, the
  forward search finds a match if and only if the expression denotes one, and what the code
  does where it goes wrong.
\<close>

section \<open>The runes of a string are valid\<close>

lemma go_decode_ok: "rune_ok (fst (go_decode s))"
  by (auto simp: go_decode_def rune_ok_def cont_byte_def Let_def rune_error_def
      split: list.splits)

lemma go_runes_ok: "\<forall>c \<in> set (go_runes s). rune_ok c"
proof (induction s rule: go_runes.induct)
  case (1 s)
  then show ?case by (subst go_runes.simps) (auto simp: go_decode_ok)
qed

section \<open>Compilation\<close>

text \<open>
  C13: Compilation always returns: whatever the expression, \<open>CompileStr\<close> ends with a program or
  an error, in every direction of search; the loops over operators, tokens and no-ops end, and
  no index of the program or of a stack is out of range.
\<close>

theorem sre_CompileStr_returns: "\<exists>y. sre_CompileStr re d = Some y \<and> y \<noteq> CCrash"
proof -
  obtain y where "sre_CompileStr re d = Some y" "comp_rel (compiled d) y (sre_parse (d = Bck) (go_runes re))"
    using Compile_refines[OF go_runes_ok] unfolding sre_CompileStr_def by blast
  then show ?thesis by (cases y) auto
qed

text \<open>
  C12: The compiler refines the parser: an expression compiles if and only if the parser
  accepts it, the errors are the same, and the program is the code of the parser's tree.
\<close>

theorem sre_CompileStr_refines:
  "\<exists>y. sre_CompileStr re d = Some y \<and> comp_rel (compiled d) y (sre_parse (d = Bck) (go_runes re))"
  using Compile_refines[OF go_runes_ok] unfolding sre_CompileStr_def by blast

lemma CompileStr_compiled:
  assumes "sre_CompileStr re d = Some (COk prg)"
  shows "\<exists>r. sre_parse (d = Bck) (go_runes re) = COk r \<and> compiled d prg r"
proof -
  have "comp_rel (compiled d) (COk prg) (sre_parse (d = Bck) (go_runes re))"
    using Compile_refines[OF go_runes_ok, of re d] assms unfolding sre_CompileStr_def by auto
  then show ?thesis by (cases "sre_parse (d = Bck) (go_runes re)") auto
qed

section \<open>Classes\<close>

text \<open>A class panics only on a flag without its bounds, which an expression without the
  largest rune has not.\<close>

fun class_wf :: "rune list \<Rightarrow> bool" where
  "class_wf [] \<longleftrightarrow> True"
| "class_wf (r # cls) \<longleftrightarrow>
     (if r = cRange then (case cls of a # b # cls' \<Rightarrow> class_wf cls' | _ \<Rightarrow> False) else class_wf cls)"

lemma classMatch_total: "class_wf cls \<Longrightarrow> sre_classMatch tab cls c \<noteq> Panic"
proof (induction cls rule: class_wf.induct)
  case (2 r cls)
  then show ?case by (cases "r = cRange") (auto split: list.splits if_splits simp: sre_codes cRange_def)
qed simp

lemma class_wf_append: "class_wf xs \<Longrightarrow> class_wf (xs @ ys) = class_wf ys"
proof (induction xs rule: class_wf.induct)
  case (2 r cls)
  then show ?case by (cases "r = cRange") (auto split: list.splits)
qed simp

definition plain_rune :: "rune \<Rightarrow> bool" where
  "plain_rune c \<longleftrightarrow> 0 \<le> c \<and> c < cRange"

lemma unquote_small:
  assumes "0 \<le> c" and "c < 0x4000000"
  shows "c AND NOT tQUOTE = c"
proof (rule bit_eqI)
  fix n
  have "c = take_bit 26 c" using assms by (intro take_bit_int_eq_self[symmetric]) auto
  moreover have "tQUOTE = 2 ^ 26" by (simp add: tQUOTE_def)
  ultimately show "bit (c AND NOT tQUOTE) n = bit c n"
    by (metis bit_and_iff bit_exp_iff bit_not_iff bit_take_bit_iff impossible_bit less_irrefl)
qed

lemma scanEl_plain:
  assumes "\<forall>c \<in> set e. plain_rune c" and "scanEl e = COk (c, e')"
  shows "c AND NOT tQUOTE \<noteq> cRange \<and> set e' \<subseteq> set e"
proof -
  have q: "(c OR tQUOTE) AND NOT tQUOTE = c AND NOT tQUOTE" for c :: rune
    by (rule bit_eqI) (auto simp: bit_simps)
  have p: "x AND NOT tQUOTE = x" if "plain_rune x" for x
    using that by (intro unquote_small) (auto simp: plain_rune_def cRange_def)
  have w: "tWORD AND NOT tQUOTE = tWORD" "tBLANK AND NOT tQUOTE = tBLANK"
      "10 AND NOT tQUOTE = 10" "9 AND NOT tQUOTE = 9"
    by (rule unquote_small; simp add: sre_codes)+
  have r: "plain_rune x \<Longrightarrow> x \<noteq> cRange" for x by (simp add: plain_rune_def)
  show ?thesis
    using assms unfolding scanEl_def Let_def sre_getc_def
    by (auto simp: q p w r split: list.splits if_splits) (auto simp: cRange_def sre_codes)
qed

lemma sre_class_loop_wf:
  "\<forall>c \<in> set e. plain_rune c \<Longrightarrow> class_wf cls \<Longrightarrow> sre_class_loop e cls = COk (cls', e') \<Longrightarrow>
     class_wf cls' \<and> set e' \<subseteq> set e"
proof (induction e cls rule: sre_class_loop.induct)
  case (1 e cls)
  obtain c1 e1 where el: "scanEl e = COk (c1, e1)"
    using 1(5) by (subst (asm) sre_class_loop.simps) (auto simp: cbind_COk_iff)
  note p1 = scanEl_plain[OF 1(3) el]
  have ge: "set (snd (sre_getc e1)) \<subseteq> set e1" by (auto simp: sre_getc_def split: list.splits)
  consider (stop) "c1 = rune_of CHR '']'' \<or> c1 = tEND \<or> c1 = rune_of CHR ''-''"
    | (range) "\<not> (c1 = rune_of CHR '']'' \<or> c1 = tEND \<or> c1 = rune_of CHR ''-'')"
        "sre_peek e1 = rune_of CHR ''-''"
    | (one) "\<not> (c1 = rune_of CHR '']'' \<or> c1 = tEND \<or> c1 = rune_of CHR ''-'')"
        "sre_peek e1 \<noteq> rune_of CHR ''-''" by blast
  then show ?case
  proof cases
    case stop
    then show ?thesis using 1(4,5) el p1
      by (subst (asm) sre_class_loop.simps) (auto split: if_splits)
  next
    case range
    then obtain c2 e2 where e2: "scanEl (snd (sre_getc e1)) = COk (c2, e2)"
        "c2 \<noteq> rune_of CHR '']''" "c2 \<noteq> tEND" "sre_class_loop e2 (cls @ [cRange, c1, c2]) = COk (cls', e')"
      using 1(5) el by (subst (asm) sre_class_loop.simps) (auto simp: cbind_COk_iff split: if_splits)
    have pg: "\<forall>c \<in> set (snd (sre_getc e1)). plain_rune c" using 1(3) p1 ge by auto
    note p2 = scanEl_plain[OF pg e2(1)]
    have "\<forall>c \<in> set e2. plain_rune c" using pg p2 by auto
    moreover have "class_wf (cls @ [cRange, c1, c2])" using class_wf_append[OF 1(4)] by simp
    ultimately have "class_wf cls' \<and> set e' \<subseteq> set e2"
      using 1(1)[OF el refl _ _ range(2) e2(1) refl] range(1) e2 by auto
    then show ?thesis using p1 p2 ge by blast
  next
    case one
    then have l: "sre_class_loop e1 (cls @ [c1 AND NOT tQUOTE]) = COk (cls', e')"
      using 1(5) el by (subst (asm) sre_class_loop.simps) auto
    have "class_wf (cls @ [c1 AND NOT tQUOTE])" using class_wf_append[OF 1(4)] p1 by simp
    then have "class_wf cls' \<and> set e' \<subseteq> set e1"
      using 1(2)[OF el refl _ _ one(2)] one(1) l 1(3) p1 by blast
    then show ?thesis using p1 by blast
  qed
qed

lemma lex_plain:
  assumes "\<forall>c \<in> set e. plain_rune c" and "sre_lex e = COk (tok, val, e')"
  shows "class_wf val \<and> (\<forall>c \<in> set e'. plain_rune c)"
proof (cases e)
  case Nil
  then show ?thesis using assms(2) by (simp add: sre_lex_def)
next
  case (Cons c e1)
  have sc: "class_wf cls \<and> set e'' \<subseteq> set e1" if c: "scanClass e1 = COk (cls, neg, e'')" for cls neg e''
  proof -
    let ?x = "if neg then snd (sre_getc e1) else e1" and ?c = "if neg then [10] else [] :: rune list"
    have l: "sre_class_loop ?x ?c = COk (cls, e'')"
      using c unfolding scanClass_def Let_def by (auto simp: cbind_COk_iff split: if_splits)
    have "class_wf ?c" by (simp add: cRange_def)
    moreover have "set ?x \<subseteq> set e1" by (auto simp: sre_getc_def split: list.splits)
    ultimately show ?thesis using sre_class_loop_wf[OF _ _ l] assms(1) Cons by auto
  qed
  have g: "set (snd (sre_getc x)) \<subseteq> set x" for x by (auto simp: sre_getc_def split: list.splits)
  have "set e' \<subseteq> set e1 \<and> class_wf val"
    using assms(2) g[of e1] sc unfolding sre_lex_def Let_def Cons
    by (auto simp: sre_getc_def[of "c # e1"] cbind_COk_iff case_prod_beta split: if_splits)
      blast+
  then show ?thesis using assms(1) Cons by auto
qed

text \<open>The classes of the code are those of the tokens.\<close>

definition cls_ok :: "reprog \<Rightarrow> bool" where
  "cls_ok prg \<longleftrightarrow> (\<forall>i \<in> set (pr_code prg). class_wf (i_class i))"

lemma cls_push [simp]:
  "cls_ok (pushNd f l prg) = cls_ok prg" "cls_ok (pushOp t prg) = cls_ok prg"
  by (simp_all add: cls_ok_def pushNd_def pushOp_def)

lemma cls_emit [simp]: "cls_ok prg \<Longrightarrow> cls_ok (snd (emit op prg))"
  by (auto simp: cls_ok_def emit_def Let_def new_inst_def)

lemma cls_upd [simp]:
  assumes "cls_ok prg" and "\<And>i. class_wf (i_class i) \<Longrightarrow> class_wf (i_class (g i))"
  shows "cls_ok (upd_inst pc g prg)"
proof (cases "pc < length (pr_code prg)")
  case True
  then show ?thesis
    using assms set_upd_ok[of "pr_code prg" "\<lambda>i. class_wf (i_class i)" "g (pr_code prg ! pc)" pc]
    by (simp add: cls_ok_def upd_inst_def)
next
  case False
  then show ?thesis using assms(1) by (simp add: cls_ok_def upd_inst_def list_update_beyond)
qed

lemma cls_set_left: "set_left pc t prg = COk prg' \<Longrightarrow> cls_ok prg \<longrightarrow> cls_ok prg'"
  using cls_upd[of prg "\<lambda>i. i\<lparr>i_left := t\<rparr>" pc]
  by (auto simp: set_left_def upd_inst_def split: if_splits)

lemma cls_popNd: "popNd c prg = COk (nd, prg') \<Longrightarrow> cls_ok prg \<longrightarrow> cls_ok prg'"
  by (auto simp: popNd_def cls_ok_def split: list.splits)

lemma cls_eval_op: "eval_op op subid prg = COk prg' \<Longrightarrow> cls_ok prg \<Longrightarrow> cls_ok prg'"
  unfolding eval_op_def Let_def
  by (auto simp del: missing_eqs simp: cbind_COk_iff case_prod_beta split: if_splits
      dest!: cls_popNd cls_set_left)

lemma cls_eval_loop: "eval_loop pri prg = COk prg' \<Longrightarrow> cls_ok prg \<Longrightarrow> cls_ok prg'"
proof (induction pri prg rule: eval_loop.induct)
  case (1 pri prg)
  show ?case
  proof (cases "pri \<noteq> tRPAREN \<and> pr_opstk prg = [] \<or>
      \<not> (pri = tRPAREN \<or> pri \<le> fst (hd (pr_opstk prg)))")
    case True
    then show ?thesis using 1(2,3) by (subst (asm) eval_loop.simps) (auto split: if_splits)
  next
    case False
    then obtain op subid prg1 prg2 where s: "popOp prg = COk (op, subid, prg1)"
        "eval_op op subid prg1 = COk prg2"
        "if op = tLPAREN then prg' = prg2 else eval_loop pri prg2 = COk prg'"
      using 1(2) by (subst (asm) eval_loop.simps) (auto simp: cbind_COk_iff split: if_splits)
    have "cls_ok prg1" using s(1) 1(3) by (auto simp: popOp_def cls_ok_def split: list.splits)
    then have "cls_ok prg2" using cls_eval_op[OF s(2)] by simp
    then show ?thesis
      using 1(1)[OF _ _ s(1) refl refl s(2)] s(3) False by (auto split: if_splits)
  qed
qed

lemma cls_evalUntil: "evalUntil pri prg = COk prg' \<Longrightarrow> cls_ok prg \<Longrightarrow> cls_ok prg'"
  by (auto simp: evalUntil_def cls_eval_loop split: if_splits)

lemma cls_fields [simp]:
  "cls_ok (prg\<lparr>pr_nparen := n\<rparr>) = cls_ok prg" "cls_ok (prg\<lparr>pr_lastwasand := b\<rparr>) = cls_ok prg"
  "cls_ok (prg\<lparr>pr_cursubid := k\<rparr>) = cls_ok prg" "cls_ok (prg\<lparr>pr_expr := e\<rparr>) = cls_ok prg"
  "cls_ok (prg\<lparr>pr_entry := pc\<rparr>) = cls_ok prg"
  by (simp_all add: cls_ok_def)

lemma cls_operator: "operator op prg = COk prg' \<Longrightarrow> cls_ok prg \<Longrightarrow> cls_ok prg'"
proof (induction op prg arbitrary: prg' rule: operator.induct)
  case (1 op prg)
  then show ?case
    by (subst (asm) (2) operator.simps)
      (auto simp: cbind_COk_iff Let_def split: if_splits dest: cls_evalUntil)
qed

lemma cls_operand: "operand op val prg = COk prg' \<Longrightarrow> class_wf val \<Longrightarrow> cls_ok prg \<Longrightarrow> cls_ok prg'"
  by (auto simp: operand_def cbind_COk_iff Let_def case_prod_beta split: if_splits
      dest: cls_operator)

lemma cls_compile_loop:
  "compile_loop prg = COk prg' \<Longrightarrow> \<forall>c \<in> set (pr_expr prg). plain_rune c \<Longrightarrow> cls_ok prg \<Longrightarrow> cls_ok prg'"
proof (induction "length (pr_expr prg)" arbitrary: prg rule: less_induct)
  case less
  obtain tok val e where lex: "sre_lex (pr_expr prg) = COk (tok, val, e)"
    using less.prems(1) by (subst (asm) compile_loop.simps) (auto simp: cbind_COk_iff)
  note pl = lex_plain[OF less.prems(2) lex]
  show ?case
  proof (cases "tok = tEND")
    case True
    then show ?thesis using less.prems(1,3) lex by (subst (asm) compile_loop.simps) auto
  next
    case False
    then have ne: "pr_expr prg \<noteq> []" using lex by (auto simp: sre_lex_def)
    obtain prg1 where p1: "(if tok AND tOPERATOR \<noteq> 0 then operator tok (prg\<lparr>pr_expr := e\<rparr>)
                   else operand tok val (prg\<lparr>pr_expr := e\<rparr>)) = COk prg1" "compile_loop prg1 = COk prg'"
      using less.prems(1) lex False by (subst (asm) compile_loop.simps) (auto simp: cbind_COk_iff)
    have "cls_ok prg1"
      using p1(1) less.prems(3) pl cls_operator cls_operand by (auto split: if_splits)
    moreover have e1: "pr_expr prg1 = e"
      using p1(1) operator_frame operand_frame by (fastforce split: if_splits)
    ultimately show ?thesis
      using less.hyps[of prg1] p1(2) pl sre_lex_shorter[OF lex ne] by auto
  qed
qed

lemma Compile_cls:
  assumes "sre_Compile re d = Some (COk prg)" and "\<forall>c \<in> set re. plain_rune c"
  shows "cls_ok prg"
proof -
  have rok: "\<forall>c \<in> set re. rune_ok c" using assms(2) by (auto simp: plain_rune_def rune_ok_def cRange_def)
  obtain prg1 where b: "compile_body (new_prog re d) = COk prg1" "eatNops prg1 = Some (COk prg)"
    using assms(1) by (auto simp: sre_Compile_def split: comp.splits)
  have "cls_ok prg1"
    using b(1) unfolding compile_body_def
    by (auto simp: cbind_COk_iff new_prog_def pushOp_def split: if_splits list.splits
        dest!: cls_compile_loop cls_evalUntil cls_operand)
      (use assms(2) in \<open>auto simp: cls_ok_def\<close>)
  obtain l nds rs r where "nd_rel prg1 (r # rs)"
    using compile_body_refines[OF rok, of d] b(1) by (cases "sre_parse (d = Bck) re") auto
  then have "cinv (pr_code prg1) (pr_ndstk prg1)" using code_okD by (auto simp: nd_rel_def)
  from eatNops_eats[OF this] obtain code' where
      "prg = prg1\<lparr>pr_code := code'\<rparr>" "eaten (pr_code prg1) code'" using b(2) by auto
  then have l: "length (pr_code prg) = length (pr_code prg1)"
      "\<forall>p < length (pr_code prg1). i_class (pr_code prg ! p) = i_class (pr_code prg1 ! p)"
    by (simp_all add: eaten_def same_but_left_def)
  show ?thesis
    unfolding cls_ok_def all_set_conv_all_nth
  proof (intro allI impI)
    fix p assume p: "p < length (pr_code prg)"
    then have "pr_code prg1 ! p \<in> set (pr_code prg1)" using l by simp
    then show "class_wf (i_class (pr_code prg ! p))" using p l \<open>cls_ok prg1\<close> by (simp add: cls_ok_def)
  qed
qed

section \<open>The forward search\<close>

context rune_reader
begin

text \<open>Any text: the search returns, in no match or a match of the tree.\<close>

lemma Exec_search:
  assumes c: "compiled Fwd prg r" and cls: "cls_ok prg" and a: "0 \<le> start"
    and e: "e = nat (min (if end < 0 then rd_Len rd else end) (len T))"
  shows "\<exists>sel. sre_Exec tab prg rd start end = Some (Ret sel) \<and>
     (if sel = [] then \<forall>q q'. nat start \<le> q \<and> q' \<le> e \<longrightarrow> (q, q') \<notin> den tab T e r
      else length sel = pr_cursubid prg + 1 \<and>
        (\<exists>q q'. P0 (hd sel) = int q \<and> P1 (hd sel) = int q' \<and> nat start \<le> q \<and> q \<le> q' \<and> q' \<le> e \<and>
           (q, q') \<in> den tab T e r))"
proof -
  obtain L l where ok: "prog_ok prg L l" using compiled_prog_ok[OF c] by blast
  define S where "S = \<lparr>sr_tab = tab, sr_prg = prg, sr_live = L, sr_last = l, sr_txt = rd, sr_text = T,
      sr_start = nat start, sr_end = e\<rparr>"
  have "rune_reader rd T" ..
  then have S: "search_ok S" using ok e by (simp add: S_def search_ok_def)
  have b: "pr_back prg = False" using c by (auto simp: compiled_def)
  have "pr_entry prg < length (pr_code prg)" using live_facts(2)[OF S] ok by (simp add: S_def prog_ok_def)
  then obtain c0 where c0: "start_rune prg = Ret c0" by (simp add: start_rune_def)
  have "classes_ok S"
    unfolding classes_ok_def
  proof (intro ballI allI)
    fix pc x assume "pc \<in> sr_live S"
    then have "sr_code S ! pc \<in> set (sr_code S)" using live_facts(2)[OF S] by simp
    then show "sre_classMatch (sr_tab S) (i_class (sr_code S ! pc)) x \<noteq> Panic"
      using cls classMatch_total by (auto simp: cls_ok_def S_def)
  qed
  moreover have "search_inv S (nat start) (new_machine prg)"
    using new_machine_inv[of S] by (simp add: S_def)
  moreover have "start_rune (sr_prg S) = Ret c0" using c0 by (simp add: S_def)
  moreover have "sr_start S \<le> nat start" by (simp add: S_def)
  ultimately obtain y where
      y: "exec_loop (sr_tab S) (sr_prg S) (sr_txt S) (int (sr_end S)) c0 (int (nat start)) (new_machine prg) = Some y"
      "case y of Panic \<Rightarrow> \<not> classes_ok S | Ret sel \<Rightarrow> found S sel"
    using exec_loop_post[OF S] by blast
  have f: "sr_tab S = tab" "sr_prg S = prg" "sr_txt S = rd" "sr_end S = e" by (simp_all add: S_def)
  obtain sel where sel: "y = Ret sel" "found S sel"
    using y(2) \<open>classes_ok S\<close> by (cases y) auto
  have "exec_loop tab prg rd (min (if end < 0 then rd_Len rd else end) (rd_Len rd)) c0 start
      (new_machine prg) = Some (Ret sel)" if "0 \<le> end"
    using y(1) sel(1) a that unfolding f e len_reads by simp
  moreover have "exec_loop tab prg rd (rd_Len rd) c0 start (new_machine prg) = Some (Ret sel)" if "end < 0"
    using y(1) sel(1) a that unfolding f e len_reads by simp
  ultimately have "sre_Exec tab prg rd start end = Some (Ret sel)"
    using b c0 by (simp add: sre_Exec_def Let_def)
  moreover have "if sel = [] then \<forall>q q'. nat start \<le> q \<and> q' \<le> e \<longrightarrow> (q, q') \<notin> den tab T e r
      else length sel = pr_cursubid prg + 1 \<and>
        (\<exists>q q'. P0 (hd sel) = int q \<and> P1 (hd sel) = int q' \<and> nat start \<le> q \<and> q \<le> q' \<and> q' \<le> e \<and>
           (q, q') \<in> den tab T e r)"
    using sel(2) compiled_match[OF c]
    by (auto simp: found_def best_ok_def S_def split: if_splits)
  ultimately show ?thesis by blast
qed

end

text \<open>The expression and its tree: a compiled expression without the largest rune.\<close>

definition sre_denotes :: "string \<Rightarrow> reprog \<Rightarrow> sre \<Rightarrow> bool" where
  "sre_denotes re prg r \<longleftrightarrow>
     sre_CompileStr re Fwd = Some (COk prg) \<and> sre_parse False (go_runes re) = COk r \<and>
     cRange \<notin> set (go_runes re)"

lemma sre_denotes_compiled:
  assumes "sre_denotes re prg r"
  shows "compiled Fwd prg r" and "cls_ok prg"
proof -
  have c: "sre_CompileStr re Fwd = Some (COk prg)" "sre_parse False (go_runes re) = COk r"
    using assms by (auto simp: sre_denotes_def)
  show "compiled Fwd prg r" using CompileStr_compiled[OF c(1)] c(2) by auto
  have "\<forall>c \<in> set (go_runes re). plain_rune c"
  proof
    fix c assume "c \<in> set (go_runes re)"
    then show "plain_rune c"
      using assms go_runes_ok[of re] unfolding sre_denotes_def plain_rune_def rune_ok_def
      by (metis cRange_def order_le_less)
  qed
  then show "cls_ok prg" using c(1) Compile_cls unfolding sre_CompileStr_def by blast
qed

lemma ExecRunes_search:
  assumes "sre_denotes re prg r" and "0 \<le> start"
    and "e = nat (min (if end < 0 then len t else end) (len t))"
  shows "\<exists>sel. sre_ExecRunes tab prg t start end = Some (Ret sel) \<and>
     (if sel = [] then \<forall>q q'. nat start \<le> q \<and> q' \<le> e \<longrightarrow> (q, q') \<notin> den tab t e r
      else length sel = pr_cursubid prg + 1 \<and>
        (\<exists>q q'. P0 (hd sel) = int q \<and> P1 (hd sel) = int q' \<and> nat start \<le> q \<and> q \<le> q' \<and> q' \<le> e \<and>
           (q, q') \<in> den tab t e r))"
  unfolding sre_ExecRunes_def
  by (rule sre_rs.Exec_search[OF sre_denotes_compiled[OF assms(1)] assms(2)])
    (simp add: assms(3) sre_runestr_def)

lemma ExecRunes_result:
  assumes "sre_denotes re prg r" and "b \<le> length t"
    and "sre_ExecRunes tab prg t (int a) (int b) = Some (Ret sel)"
  shows "if sel = [] then \<forall>q q'. a \<le> q \<and> q' \<le> b \<longrightarrow> (q, q') \<notin> den tab t b r
      else length sel = pr_cursubid prg + 1 \<and>
        (\<exists>q q'. P0 (hd sel) = int q \<and> P1 (hd sel) = int q' \<and> a \<le> q \<and> q \<le> q' \<and> q' \<le> b \<and>
           (q, q') \<in> den tab t b r)"
proof -
  have "b = nat (min (if int b < 0 then len t else int b) (len t))" using assms(2) by simp
  from ExecRunes_search[OF assms(1) _ this, of "int a" tab] obtain sel' where
    "sre_ExecRunes tab prg t (int a) (int b) = Some (Ret sel')"
    "if sel' = [] then \<forall>q q'. nat (int a) \<le> q \<and> q' \<le> b \<longrightarrow> (q, q') \<notin> den tab t b r
      else length sel' = pr_cursubid prg + 1 \<and>
        (\<exists>q q'. P0 (hd sel') = int q \<and> P1 (hd sel') = int q' \<and> nat (int a) \<le> q \<and> q \<le> q' \<and> q' \<le> b \<and>
           (q, q') \<in> den tab t b r)" by auto
  moreover from this have "sel' = sel" using assms(3) by simp
  ultimately show ?thesis unfolding nat_int by blast
qed

text \<open>Programs and trees of given expressions.\<close>

definition sre_example :: "string \<Rightarrow> dir \<Rightarrow> reprog" where
  "sre_example re d = (case sre_CompileStr re d of Some (COk prg) \<Rightarrow> prg | _ \<Rightarrow> new_prog [] d)"

definition sre_example_tree :: "string \<Rightarrow> sre" where
  "sre_example_tree re = (case sre_parse False (go_runes re) of COk r \<Rightarrow> r | _ \<Rightarrow> SAtom 0 [])"

definition ascii_tab :: "rune \<Rightarrow> bool" where
  "ascii_tab c \<longleftrightarrow> False"

lemma example_denotes:
  "sre_denotes ''x(a|b)+'' (sre_example ''x(a|b)+'' Fwd) (sre_example_tree ''x(a|b)+'')"
  by code_simp

lemma example_result:
  "sre_ExecRunes ascii_tab (sre_example ''x(a|b)+'' Fwd) [121, 120, 97, 98, 99] (int 0) (int 5) =
     Some (Ret [\<lparr>P0 = 1, P1 = 4\<rparr>, \<lparr>P0 = 3, P1 = 4\<rparr>])"
  by code_simp

text \<open>
  C15: A forward search for an expression that compiles and does not hold the rune U+10FFFF, from a start that is not
  negative, always ends, whatever the text and the end of the search, and without a run-time error: the loop over the
  text, the loop over the states, and the loop over the instructions of a state, all end.  It gives nil, or one range
  for the expression, within the text and not before the start, and one for each subexpression.  With that rune in a class
  the search panics (\<open>sre_Exec_class_panics\<close>).
\<close>

theorem sre_ExecRunes_returns:
  assumes "sre_CompileStr re Fwd = Some (COk prg)" and "0x10FFFF \<notin> set (go_runes re)" and "0 \<le> start"
  shows "\<exists>sel. sre_ExecRunes tab prg t start end = Some (Ret sel) \<and>
    (sel = [] \<or> length sel = pr_cursubid prg + 1 \<and>
       start \<le> P0 (hd sel) \<and> P0 (hd sel) \<le> P1 (hd sel) \<and> P1 (hd sel) \<le> len t)"
proof -
  obtain r where "sre_denotes re prg r"
    using CompileStr_compiled[OF assms(1)] assms(1,2) by (auto simp: sre_denotes_def cRange_def)
  from ExecRunes_search[OF this assms(3) refl, of tab t "end"] obtain sel where
    "sre_ExecRunes tab prg t start end = Some (Ret sel)"
    "sel \<noteq> [] \<Longrightarrow> length sel = pr_cursubid prg + 1 \<and> (\<exists>q q'. P0 (hd sel) = int q \<and> P1 (hd sel) = int q' \<and>
      nat start \<le> q \<and> q \<le> q' \<and> q' \<le> nat (min (if end < 0 then len t else end) (len t)))"
    by (auto split: if_splits)
  then show ?thesis using assms(3) by (intro exI[of _ sel]) fastforce
qed

lemma example_compiles: "sre_CompileStr ''x(a|b)+'' Fwd = Some (COk (sre_example ''x(a|b)+'' Fwd))"
  "0x10FFFF \<notin> set (go_runes ''x(a|b)+'')"
  by code_simp+

lemma sre_ExecRunes_returns_witness:
  "\<exists>sel. sre_ExecRunes ascii_tab (sre_example ''x(a|b)+'' Fwd) [121, 120] 0 (-1) = Some (Ret sel)"
  using sre_ExecRunes_returns[OF example_compiles order_refl, of ascii_tab "[121, 120]" "-1"] by blast

text \<open>
  C14: A forward search finds a match if and only if there is one: the result is nil exactly
  when the tree of the expression denotes no pair of positions of the text between the bounds.
\<close>

theorem sre_ExecRunes_finds:
  assumes "sre_denotes re prg r" and "b \<le> length t"
    and "sre_ExecRunes tab prg t (int a) (int b) = Some (Ret sel)"
  shows "sel = [] \<longleftrightarrow> (\<nexists>q q'. a \<le> q \<and> q' \<le> b \<and> (q, q') \<in> den tab t b r)"
  using ExecRunes_result[OF assms] by (auto split: if_splits)

lemma sre_ExecRunes_finds_witness:
  "\<exists>q q'. 0 \<le> q \<and> q' \<le> 5 \<and>
     (q, q') \<in> den ascii_tab [121, 120, 97, 98, 99] 5 (sre_example_tree ''x(a|b)+'')"
  using sre_ExecRunes_finds[OF example_denotes _ example_result] by auto

text \<open>
  What a forward search reports is a match: the range of the whole expression is within
  the bounds of the search, it does not end before it starts, and it is denoted by the tree.
  There is one range for every subexpression.
\<close>

theorem sre_ExecRunes_sound:
  assumes "sre_denotes re prg r" and "b \<le> length t"
    and "sre_ExecRunes tab prg t (int a) (int b) = Some (Ret sel)" and "sel \<noteq> []"
  shows "length sel = pr_cursubid prg + 1 \<and>
     (\<exists>q q'. P0 (hd sel) = int q \<and> P1 (hd sel) = int q' \<and> a \<le> q \<and> q \<le> q' \<and> q' \<le> b \<and>
        (q, q') \<in> den tab t b r)"
  using ExecRunes_result[OF assms(1-3)] assms(4) by simp

lemma sre_ExecRunes_sound_witness:
  "(1, 4) \<in> den ascii_tab [121, 120, 97, 98, 99] 5 (sre_example_tree ''x(a|b)+'')"
  using sre_ExecRunes_sound[OF example_denotes _ example_result] by auto

section \<open>Where the engine does not do what it means to do\<close>

lemma den_rune:
  "\<lbrakk>0 \<le> x; x < tOPERATOR; p < e; T ! p = x\<rbrakk> \<Longrightarrow> (p, Suc p) \<in> den tab T e (SAtom x cls)"
  by (auto simp: eats_def sre_codes)

text \<open>
  The match is not always the leftmost one. In \<open>bbbc\<close>, \<open>b(b?)+c\<close> matches from 0, and the
  engine answers with the match from 1: when a state that has run already is added again for an
  earlier start, only its copy in the list learns the start.
\<close>

theorem sre_Exec_not_leftmost:
  "sre_denotes ''b(b?)+c'' (sre_example ''b(b?)+c'' Fwd) (sre_example_tree ''b(b?)+c'') \<and>
   (0, 4) \<in> den ascii_tab [98, 98, 98, 99] 4 (sre_example_tree ''b(b?)+c'') \<and>
   sre_ExecRunes ascii_tab (sre_example ''b(b?)+c'' Fwd) [98, 98, 98, 99] 0 4 =
     Some (Ret [\<lparr>P0 = 1, P1 = 4\<rparr>, \<lparr>P0 = 2, P1 = 3\<rparr>])"
proof (intro conjI)
  show "sre_denotes ''b(b?)+c'' (sre_example ''b(b?)+c'' Fwd) (sre_example_tree ''b(b?)+c'')"
    by code_simp
  show "sre_ExecRunes ascii_tab (sre_example ''b(b?)+c'' Fwd) [98, 98, 98, 99] 0 4 =
     Some (Ret [\<lparr>P0 = 1, P1 = 4\<rparr>, \<lparr>P0 = 2, P1 = 3\<rparr>])"
    by code_simp
  let ?d = "den ascii_tab [98, 98, 98, 99] 4"
  have t: "sre_example_tree ''b(b?)+c'' =
      SCat (SCat (SCat (SAtom 98 []) (SPlus (SGroup (SOpt (SAtom 98 []))))) (SAtom 99 [])) (SAtom tEND [])"
    by code_simp
  have "(0, Suc 0) \<in> ?d (SAtom 98 [])" "(1, Suc 1) \<in> ?d (SAtom 98 [])" "(2, Suc 2) \<in> ?d (SAtom 98 [])"
      "(3, Suc 3) \<in> ?d (SAtom 99 [])"
    by (rule den_rune; simp add: tOPERATOR_def)+
  then have "(0, 1) \<in> ?d (SAtom 98 [])" "(1, 3) \<in> ?d (SPlus (SGroup (SOpt (SAtom 98 []))))"
      "(3, 4) \<in> ?d (SAtom 99 [])"
    by (auto simp del: den.simps(1) simp: numeral_eq_Suc intro: trancl_into_trancl[of _ "Suc (Suc 0)"])
  moreover have "(4, 4) \<in> ?d (SAtom tEND [])" by (simp add: sre_codes)
  ultimately show "(0, 4) \<in> ?d (sre_example_tree ''b(b?)+c'')"
    unfolding t den.simps(4) by blast
qed

text \<open>
  A class with the largest rune panics: the rune is taken for the flag of a range whose
  bounds are missing.
\<close>

theorem sre_Exec_class_panics:
  "\<exists>re prg. sre_CompileStr re Fwd = Some (COk prg) \<and>
     sre_ExecRunes ascii_tab prg [97] 0 1 = Some Panic"
proof -
  let ?re = "[CHR ''['', CHR 0xF4, CHR 0x8F, CHR 0xBF, CHR 0xBF, CHR '']'']"
  have "sre_CompileStr ?re Fwd = Some (COk (sre_example ?re Fwd))"
       "sre_ExecRunes ascii_tab (sre_example ?re Fwd) [97] 0 1 = Some Panic" by code_simp+
  then show ?thesis by blast
qed

text \<open>A quoted bound of a range keeps its mark: no rune is in the range.\<close>

lemma sre_quoted_range:
  "\<exists>prg. sre_CompileStr [CHR ''['', CHR 0x5C, CHR ''a'', CHR ''-'', CHR 0x5C, CHR ''z'', CHR '']''] Fwd =
       Some (COk prg) \<and>
     sre_ExecRunes ascii_tab prg [97, 98, 122] 0 3 = Some (Ret [])"
proof -
  let ?re = "[CHR ''['', CHR 0x5C, CHR ''a'', CHR ''-'', CHR 0x5C, CHR ''z'', CHR '']'']"
  have "sre_CompileStr ?re Fwd = Some (COk (sre_example ?re Fwd))"
       "sre_ExecRunes ascii_tab (sre_example ?re Fwd) [97, 98, 122] 0 3 = Some (Ret [])" by code_simp+
  then show ?thesis by blast
qed

section \<open>A backward search that does not end\<close>

text \<open>The program of \<open>a^\<close>, compiled for a backward search, starts with the beginning of a
  line. Before the start of the text, every round sets the flag that asks for one more.\<close>

abbreviation bol_prog :: reprog where
  "bol_prog \<equiv> sre_example ''a^'' Bck"

abbreviation bol_machine :: machine where
  "bol_machine \<equiv> \<lparr>m_cur = [], m_nxt = [], m_sel = [\<lparr>P0 = -1, P1 = 0\<rparr>], m_more = True\<rparr>"

lemma bol_prog_code:
  "pr_code bol_prog = [new_inst 0, (new_inst 97)\<lparr>i_left := 3\<rparr>, (new_inst tBOL)\<lparr>i_left := 1\<rparr>, new_inst tEND]"
  "pr_entry bol_prog = 2" "pr_cursubid bol_prog = 0" "pr_back bol_prog = True"
  by code_simp+

lemma bol_round:
  assumes "m = bol_machine \<or> m = new_machine bol_prog"
  shows "\<exists>cur. run_list (exec_back_inst tab bol_prog tx start fin p 0) 0
      (add_entry bol_prog q (m\<lparr>m_more := False\<rparr>)) = Some (Ret (bol_machine\<lparr>m_cur := cur\<rparr>))"
  using assms
  by (auto simp: add_entry_def bol_prog_code no_sel_def run_list.simps[of _ 0]
      run_list.simps[of _ "Suc 0"] run_state.simps[of _ 2] run_state.simps[of _ "Suc 0"] new_machine_def
      exec_back_inst_def exec_common_def sre_codes new_inst_def)

lemma bol_start: "start_rune bol_prog = Ret 0"
  by (simp add: start_rune_def bol_prog_code new_inst_def sre_codes)

lemma bol_loops:
  assumes "exec_back_loop tab prg txt start end startc p m = Some y"
  shows "\<not> (prg = bol_prog \<and> startc = 0 \<and> (m = bol_machine \<or> m = new_machine bol_prog \<and> p = 0))"
proof (rule exec_back_loop.raw_induct[OF _ assms, where P = "\<lambda>tab prg tx start fin startc p m y.
    \<not> (prg = bol_prog \<and> startc = 0 \<and> (m = bol_machine \<or> m = new_machine bol_prog \<and> p = 0))"])
  fix loop tab prg tx start fin startc p m y
  show "\<not> (prg = bol_prog \<and> startc = 0 \<and> (m = bol_machine \<or> m = new_machine bol_prog \<and> p = 0))"
    if ih: "\<And>tab prg tx start fin startc p m y. loop tab prg tx start fin startc p m = Some y \<Longrightarrow>
        \<not> (prg = bol_prog \<and> startc = 0 \<and> (m = bol_machine \<or> m = new_machine bol_prog \<and> p = 0))"
      and body: "(if \<not> m_more m \<and> p < 0 \<or> 0 \<le> P0 (hd (m_sel m)) \<and> m_cur m = []
        then Some (Ret (sre_retsel (m_sel m)))
        else case if p = 0 \<or> m_more m then Ret 0 else rd_Getc tx (p - 1) of
             Panic \<Rightarrow> Some Panic
           | Ret c \<Rightarrow>
               if startc \<noteq> 0 \<and> m_cur m = [] \<and> c \<noteq> startc
               then loop tab prg tx start fin startc (p - 1) (m\<lparr>m_more := False\<rparr>)
               else Option.bind (run_list (exec_back_inst tab prg tx start fin p c) 0
                       (add_entry prg (- p) (m\<lparr>m_more := False\<rparr>)))
                     (\<lambda>r. case r of Panic \<Rightarrow> Some Panic
                        | Ret m' \<Rightarrow> loop tab prg tx start fin startc (p - 1) (swap_lists m'))) = Some y"
  proof
    assume a: "prg = bol_prog \<and> startc = 0 \<and> (m = bol_machine \<or> m = new_machine bol_prog \<and> p = 0)"
    then obtain cur where r: "run_list (exec_back_inst tab bol_prog tx start fin p 0) 0
        (add_entry bol_prog (- p) (m\<lparr>m_more := False\<rparr>)) = Some (Ret (bol_machine\<lparr>m_cur := cur\<rparr>))"
      using bol_round by blast
    have c: "\<not> (\<not> m_more m \<and> p < 0 \<or> 0 \<le> P0 (hd (m_sel m)) \<and> m_cur m = [])" "p = 0 \<or> m_more m"
      using a by (auto simp: new_machine_def no_sel_def bol_prog_code)
    have "loop tab prg tx start fin 0 (p - 1) bol_machine = Some y"
      using body c a r by (simp add: swap_lists_def)
    from ih[OF this] a show False by blast
  qed
qed

text \<open>
  A backward search may never end: searching \<open>a^\<close> backwards from the start of any text runs
  past the start of the text for ever.
\<close>

theorem sre_execBack_diverges:
  "sre_CompileStr ''a^'' Bck = Some (COk bol_prog) \<and>
   sre_ExecRunes tab bol_prog t 0 end = None"
proof
  show "sre_CompileStr ''a^'' Bck = Some (COk bol_prog)" by code_simp
  have "exec_back_loop tab bol_prog (sre_runestr t) 0 e 0 0 (new_machine bol_prog) = None" for e
    using bol_loops[of tab bol_prog "sre_runestr t" 0 e 0 0 "new_machine bol_prog"] by fastforce
  then show "sre_ExecRunes tab bol_prog t 0 end = None"
    by (simp add: sre_ExecRunes_def sre_Exec_def sre_execBack_def bol_start bol_prog_code Let_def)
qed

end
