(* ===== verification/SreText.thy ===== *)
theory SreText
  imports SreProps TxtProps
begin

text \<open>
  Searching editable text: \<open>txt.Text\<close> is a provider of runes for the regexp engine, by its
  methods \<open>Len\<close> and \<open>Getc\<close>. \<open>Getc\<close> moves the cache of the text; what it returns does not
  depend on the cache, so a search reads the runes of the contents.
\<close>

definition txt_reader :: "text_state \<Rightarrow> rune_text" where
  "txt_reader t = \<lparr>rd_Len = txt_Len t, rd_Getc = (\<lambda>n. go_map snd (txt_Getc t n))\<rparr>"

lemma txt_Getc_value:
  assumes "wf_text t" and "no_empty (tx_data t)" and "seek_ok t" and "0 \<le> n" and "n < len (contents t)"
  shows "go_map snd (txt_Getc t n) = Ret (contents t ! nat n)"
  using txt_Getc_refines[OF assms(1-4)] assms(5) by auto

lemma txt_rune_reader:
  assumes "wf_text t" and "no_empty (tx_data t)" and "seek_ok t"
  shows "rune_reader (txt_reader t) (contents t)"
  using assms txt_Getc_value
  by unfold_locales (auto simp: txt_reader_def txt_Len_def wf_text_def contents_def)

text \<open>
  C16: Searching an editable text finds what the flat contents hold, however the text is cut in slices and wherever its
  cache is, for a text reached from a new one by the exported operations with insertions that insert something and
  deletions that delete something (so that no slice is empty), and for an expression that compiles and does not
  hold the rune U+10FFFF: the search returns, it returns nil exactly when the contents have no match of the tree of the
  expression between the bounds, and the range it returns is a match.
\<close>

theorem sre_Exec_text:
  assumes "sre_CompileStr re Fwd = Some (COk prg)" and "sre_parse False (go_runes re) = COk r"
    and "0x10FFFF \<notin> set (go_runes re)" and "solid t" and "b \<le> length (contents t)"
  shows "\<exists>sel. sre_Exec tab prg (txt_reader t) (int a) (int b) = Some (Ret sel) \<and>
     (if sel = [] then \<nexists>q q'. a \<le> q \<and> q' \<le> b \<and> (q, q') \<in> den tab (contents t) b r
      else \<exists>q q'. P0 (hd sel) = int q \<and> P1 (hd sel) = int q' \<and> a \<le> q \<and> q \<le> q' \<and> q' \<le> b \<and>
        (q, q') \<in> den tab (contents t) b r)"
proof -
  have t: "wf_text t" "no_empty (tx_data t)" "seek_ok t" using solid_tight[OF assms(4)] by (simp_all add: tight_def)
  have d: "sre_denotes re prg r" using assms(1-3) by (simp add: sre_denotes_def cRange_def)
  have "b = nat (min (if int b < 0 then rd_Len (txt_reader t) else int b) (len (contents t)))"
    using assms(5) by simp
  from rune_reader.Exec_search[OF txt_rune_reader[OF t] sre_denotes_compiled[OF d] _ this, of "int a" tab]
  obtain sel where s: "sre_Exec tab prg (txt_reader t) (int a) (int b) = Some (Ret sel)"
    "if sel = [] then \<forall>q q'. nat (int a) \<le> q \<and> q' \<le> b \<longrightarrow> (q, q') \<notin> den tab (contents t) b r
      else length sel = pr_cursubid prg + 1 \<and>
        (\<exists>q q'. P0 (hd sel) = int q \<and> P1 (hd sel) = int q' \<and> nat (int a) \<le> q \<and> q \<le> q' \<and> q' \<le> b \<and>
           (q, q') \<in> den tab (contents t) b r)" by auto
  show ?thesis
    using s unfolding nat_int by (intro exI[of _ sel]) (auto split: if_splits)
qed

text \<open>The expression \<open>x(a|b)+\<close> in a text that an insertion has cut in two slices.\<close>

lemma sre_Exec_text_witness:
  "\<exists>sel. sre_Exec ascii_tab (sre_example ''x(a|b)+'' Fwd) (txt_reader split_text) 1 4 = Some (Ret sel)"
proof -
  have p: "sre_parse False (go_runes ''x(a|b)+'') = COk (sre_example_tree ''x(a|b)+'')" by code_simp
  have "4 \<le> length (contents split_text)" by code_simp
  from sre_Exec_text[OF example_compiles(1) p example_compiles(2) split_text_solid this, of ascii_tab 1]
  show ?thesis by auto
qed

end
