(* ===== verification/SreDebug.thy ===== *)
theory SreDebug
  imports SreExec GoConv
begin

text \<open>
  The printing of compiled expressions (\<open>src/sre/debug.go\<close>): tokens, instructions, programs.
\<close>

section \<open>Tokens and instructions\<close>

definition hex_sharp :: "int \<Rightarrow> string" where
  "hex_sharp n = (if n < 0 then ''-0x'' @ go_digits 16 (nat (- n)) else ''0x'' @ go_digits 16 (nat n))"

definition tokStr :: "rune \<Rightarrow> string" where
  "tokStr tok =
     (if tok = tSTART then ''start''
      else if tok = tRPAREN then '')''
      else if tok = tLPAREN then ''(''
      else if tok = tOR then ''|''
      else if tok = tCAT then ''cat''
      else if tok = tSTAR then ''*''
      else if tok = tPLUS then ''+''
      else if tok = tQUEST then ''?''
      else if tok = tANY then ''.''
      else if tok = tWORD then [CHR 0x5C, CHR ''w'']
      else if tok = tBLANK then [CHR 0x5C, CHR ''s'']
      else if tok = tNOP then ''nop''
      else if tok = tBOL then [CHR 0x5E]
      else if tok = tEOL then ''$''
      else if tok = tCCLASS then ''[]''
      else if tok = tNCCLASS then [CHR ''['', CHR 0x5E, CHR '']'']
      else if tok = tEND then ''eof''
      else if tok = 10 then [CHR 0x5C, CHR ''n'']
      else if tok = 9 then [CHR 0x5C, CHR ''t'']
      else if tok = 32 then ''_''
      else if tok = cRange then ''-''
      else if tok < 32 then hex_sharp tok
      else if tok AND tQUOTE \<noteq> 0 then CHR 0x5C # go_encode tok
      else go_encode tok)"

text \<open>\<open>inst.String\<close>: the operation, the number of the subexpression, the two jumps, the class.\<close>

definition inst_String :: "inst \<Rightarrow> string" where
  "inst_String i =
     tokStr (i_op i) @ [CHR 9, CHR 0x5C] @ go_format_int (int (i_subid i)) 10 @ [CHR 9] @ ''l '' @
     hex_sharp (int (i_left i)) @ [CHR 9] @ ''r '' @ hex_sharp (int (i_right i)) @
     (if i_class i = [] then []
      else [CHR 9, CHR 0x7B] @ go_join '' '' (map tokStr (i_class i)) @ [CHR 0x7D])"

text \<open>\<open>ReProg.String\<close>: the header, then one line for every instruction.\<close>

definition reprog_String :: "reprog \<Rightarrow> string" where
  "reprog_String prg =
     ''entry: '' @ hex_sharp (int (pr_entry prg)) @ '' back: '' @
     (if pr_back prg then ''true'' else ''false'') @ '' ids: '' @
     go_format_int (int (pr_cursubid prg)) 10 @ [CHR 10] @
     concat (map (\<lambda>(n, i). hex_sharp (int n) @ [CHR 9] @ inst_String i @ [CHR 10])
       (enumerate 0 (pr_code prg)))"

section \<open>One line for an instruction\<close>

definition newlines :: "string \<Rightarrow> nat" where
  "newlines s = length (filter (\<lambda>c. c = CHR 10) s)"

lemma newlines_append [simp]: "newlines (s @ t) = newlines s + newlines t"
  by (simp add: newlines_def)

lemma newlines_Nil [simp]: "newlines [] = 0"
  by (simp add: newlines_def)

lemma newlines_Cons [simp]: "newlines (c # s) = (if c = CHR 10 then 1 else 0) + newlines s"
  by (simp add: newlines_def)

lemma newlines_0: "CHR 10 \<notin> set s \<Longrightarrow> newlines s = 0"
  by (auto simp: newlines_def filter_empty_conv)

lemma newlines_concat: "newlines (concat ss) = sum_list (map newlines ss)"
  by (induction ss) auto

lemma digits_no_newline: "2 \<le> b \<Longrightarrow> b \<le> 36 \<Longrightarrow> newlines (go_digits b n) = 0"
proof (induction b n rule: go_digits.induct)
  case (1 b n)
  have d: "digit_char d \<noteq> CHR 10" if "d < b" for d
  proof
    assume "digit_char d = CHR 10"
    then show False using digit_char_range[of d] that 1(3) by (simp split: if_splits)
  qed
  show ?case
    using 1 d by (cases "n < b") (auto simp: go_digits.simps[of b n])
qed

lemma hex_no_newline [simp]: "newlines (hex_sharp n) = 0"
  by (simp add: hex_sharp_def digits_no_newline)

lemma int_no_newline [simp]: "newlines (go_format_int n 10) = 0"
  by (simp add: go_format_int_def digits_no_newline)

lemma chr_of_newline: "0 \<le> n \<Longrightarrow> n < 256 \<Longrightarrow> chr_of n = CHR 10 \<longleftrightarrow> n = 10"
proof
  assume n: "0 \<le> n" "n < 256" "chr_of n = CHR 10"
  have "(of_char (chr_of n) :: nat) = nat n" using n(1,2) by (simp add: chr_of_def nat_less_iff)
  then show "n = 10" using n by simp
next
  have "chr_of 10 = CHR 10" by code_simp
  then show "n = 10 \<Longrightarrow> chr_of n = CHR 10" by simp
qed

lemma encode_no_newline:
  assumes "r \<noteq> 10"
  shows "newlines (go_encode r) = 0"
proof -
  define x where "x = (if r < 0 \<or> 0x10FFFF < r \<or> 0xD800 \<le> r \<and> r \<le> 0xDFFF then rune_error else r)"
  have x: "0 \<le> x" "x \<le> 0x10FFFF" "x \<noteq> 10" using assms by (auto simp: x_def rune_error_def)
  have d: "0 \<le> x div 64" "0 \<le> x div 4096" "0 \<le> x div 262144" using x(1) by simp_all
  have "x div 64 < 32" if "x \<le> 0x7FF" using that by simp
  moreover have "x div 4096 < 16" if "x \<le> 0xFFFF" using that by simp
  moreover have "x div 262144 < 16" using x(2) by simp
  moreover have "chr_of (0x80 + y mod 64) \<noteq> CHR 10" for y using chr_of_newline[of "0x80 + y mod 64"] by simp
  ultimately show ?thesis
    unfolding go_encode_def Let_def x_def[symmetric] using x d
    by (auto simp: chr_of_newline)
qed

lemma tokStr_no_newline [simp]: "newlines (tokStr tok) = 0"
  by (simp add: tokStr_def encode_no_newline)

lemma join_no_newline: "\<forall>s \<in> set ss. newlines s = 0 \<Longrightarrow> newlines (go_join '' '' ss) = 0"
  by (induction "'' ''" ss rule: go_join.induct) auto

lemma inst_no_newline [simp]: "newlines (inst_String i) = 0"
  by (simp add: inst_String_def join_no_newline)

text \<open>
  A program prints on one line for its header and one for each of its instructions,
  whatever the runes it matches.
\<close>

theorem reprog_String_lines: "newlines (reprog_String prg) = Suc (length (pr_code prg))"
  by (simp add: reprog_String_def newlines_concat comp_def case_prod_beta sum_list_triv)

end
