(* ===== verification/ZxPred.thy ===== *)
theory ZxPred
  imports SreExec ZxUtil
begin

text \<open>
  Predicates on files (\<open>src/zx/pred/parse.go\<close>): their tokens, the lexer, the parser and the
  two ways to print them.
\<close>

section \<open>Codes, classes and precedences\<close>

text \<open>The types \<open>op\<close> and \<open>tok\<close> share their codes; converting one to the other is the identity.\<close>

datatype pcode =
    CNone | CLe | CEq | CNeq | CNeqs | CGe | CLt | CGt | CEqs | CMin | CMax | CMatch | CRexp
  | CNot | COr | CAnd | CName | CLpar | CRpar | CPrune | CTrue | CFalse

datatype tclass = ClBin | ClUn | ClOp | ClName | ClPar | ClAtom

fun tok_class :: "pcode \<Rightarrow> tclass" where
  "tok_class CNot = ClUn"
| "tok_class CAnd = ClBin"
| "tok_class COr = ClBin"
| "tok_class CLe = ClOp"
| "tok_class CEq = ClOp"
| "tok_class CNeq = ClOp"
| "tok_class CGe = ClOp"
| "tok_class CLt = ClOp"
| "tok_class CGt = ClOp"
| "tok_class CEqs = ClOp"
| "tok_class CNeqs = ClOp"
| "tok_class CMatch = ClOp"
| "tok_class CRexp = ClOp"
| "tok_class CLpar = ClPar"
| "tok_class CRpar = ClPar"
| "tok_class CPrune = ClAtom"
| "tok_class CTrue = ClAtom"
| "tok_class CFalse = ClAtom"
| "tok_class _ = ClName"

definition op_prec :: "pcode \<Rightarrow> nat" where
  "op_prec p = (if p = COr then 1 else if p = CAnd then 2 else if p = CNot then 3 else 4)"

fun op_String :: "pcode \<Rightarrow> string" where
  "op_String CLt = ''<''"
| "op_String CLe = ''<=''"
| "op_String CNeq = ''!==''"
| "op_String CEq = ''==''"
| "op_String CGe = ''>=''"
| "op_String CGt = ''>''"
| "op_String CNeqs = ''!=''"
| "op_String CEqs = ''=''"
| "op_String CMatch = ''~''"
| "op_String CRexp = ''~~''"
| "op_String COr = ''|''"
| "op_String CAnd = ''&''"
| "op_String CNot = ''!''"
| "op_String CPrune = ''p''"
| "op_String CTrue = ''t''"
| "op_String CFalse = ''f''"
| "op_String _ = ''???''"

section \<open>Predicates\<close>

text \<open>
  A predicate is a tree; \<open>PNil\<close> is the nil pointer. The compiled regexp that \<open>EvalAt\<close> keeps in
  a predicate is not part of it: it is a cache of what compiling \<open>value\<close> gives.
\<close>

datatype pred = PNil | Pred (p_op: pcode) (p_name: string) (p_value: string) (p_args: "pred list")

definition pred_Or :: "pred list \<Rightarrow> pred" where
  "pred_Or args = Pred COr [] [] args"

definition pred_And :: "pred list \<Rightarrow> pred" where
  "pred_And args = Pred CAnd [] [] args"

definition pred_Not :: "pred \<Rightarrow> pred" where
  "pred_Not a = Pred CNot [] [] [a]"

definition atom_String :: "pcode \<Rightarrow> string" where
  "atom_String p = (if p = CPrune then ''prune'' else if p = CTrue then ''true''
     else if p = CFalse then ''false'' else op_String p @ ''?'')"

fun pred_DebugString :: "pred \<Rightarrow> string" and debug_args :: "pred list \<Rightarrow> string" where
  "pred_DebugString PNil = []"
| "pred_DebugString (Pred p nm v args) =
     (case tok_class p of
        ClUn \<Rightarrow> (case args of [] \<Rightarrow> op_String p @ ''?''
                 | a # _ \<Rightarrow> op_String p @ ''('' @ pred_DebugString a @ '')'')
      | ClBin \<Rightarrow> op_String p @ ''('' @ debug_args args @ '')''
      | ClOp \<Rightarrow> nm @ '' '' @ op_String p @ '' '' @ v
      | ClAtom \<Rightarrow> atom_String p
      | _ \<Rightarrow> op_String p @ ''?'')"
| "debug_args [] = []"
| "debug_args (a # as) = pred_DebugString a @ '','' @ debug_args as"

text \<open>\<open>String\<close> looks at the operations of its arguments: a nil argument panics.\<close>

definition arg_prec :: "pred \<Rightarrow> nat go" where
  "arg_prec a = (case a of PNil \<Rightarrow> Panic | Pred p _ _ _ \<Rightarrow> Ret (op_prec p))"

definition paren_if :: "bool \<Rightarrow> string \<Rightarrow> string" where
  "paren_if b s = (if b then ''('' @ s @ '')'' else s)"

fun pred_String :: "pred \<Rightarrow> string go"
  and bin_String :: "pcode \<Rightarrow> bool \<Rightarrow> pred list \<Rightarrow> string go" where
  "pred_String PNil = Ret []"
| "pred_String (Pred p nm v args) =
     (case tok_class p of
        ClUn \<Rightarrow>
          (case args of
             [] \<Rightarrow> Ret (op_String p @ ''?'')
           | a # _ \<Rightarrow> go_bind (arg_prec a) (\<lambda>n.
               go_map (\<lambda>s. op_String p @ paren_if (n < op_prec p) s) (pred_String a)))
      | ClBin \<Rightarrow> bin_String p False args
      | ClOp \<Rightarrow> Ret (nm @ '' '' @ op_String p @ '' '' @ v)
      | ClAtom \<Rightarrow> Ret (atom_String p)
      | _ \<Rightarrow> Ret (op_String p @ ''?''))"
| "bin_String p later [] = Ret []"
| "bin_String p later (a # as) =
     go_bind (arg_prec a) (\<lambda>n.
     go_bind (pred_String a) (\<lambda>s.
     go_map (\<lambda>t. (if later then '' '' @ op_String p @ '' '' else []) @ paren_if (n < op_prec p) s @ t)
       (bin_String p True as)))"

section \<open>The lexer\<close>

definition pred_ispunct :: "rune \<Rightarrow> bool" where
  "pred_ispunct r \<longleftrightarrow>
     r \<in> {33, 38, 124, 126, 61, 40, 41, 62, 60, 39, 44, 58, 0x2248, 0x2261, 0x2260, 0x2265, 0x2264}"

definition pred_isspace :: "rune \<Rightarrow> bool" where
  "pred_isspace r \<longleftrightarrow> r = 32 \<or> r = 9 \<or> r = 10"

text \<open>A token: its code, its text, its error. End of input is the error \<open>EOF\<close>.\<close>

definition io_EOF :: string where
  "io_EOF = ''EOF''"

type_synonym lexeme = "pcode \<times> string \<times> string option"

definition quote_expected :: string where
  "quote_expected = [CHR 0x27] @ '' expected''"

text \<open>What follows the opening quote \<open>q\<close>; with no closing quote the input stays where it is.\<close>

definition lex_quoted :: "rune \<Rightarrow> rune list \<Rightarrow> lexeme \<times> rune list" where
  "lex_quoted q r =
     (if r = [] then
        ((CNone, [], Some (if q = 34 then [CHR 0x22] @ '' expected'' else quote_expected)), [q])
      else if q \<in> set r then
        ((CName, go_string (takeWhile (\<lambda>x. x \<noteq> q) r), None), tl (dropWhile (\<lambda>x. x \<noteq> q) r))
      else ((CName, [], Some quote_expected), q # r))"

text \<open>A word: the first rune, whatever it is, and what follows up to punctuation or space.\<close>

definition lex_word :: "rune \<Rightarrow> rune list \<Rightarrow> lexeme \<times> rune list" where
  "lex_word c r =
     (let t = go_string (c # takeWhile (\<lambda>x. \<not> (pred_ispunct x \<or> pred_isspace x)) r);
          rest = dropWhile (\<lambda>x. \<not> (pred_ispunct x \<or> pred_isspace x)) r in
      if t = ''prune'' then ((CPrune, t, None), rest)
      else if t = ''true'' \<or> t = ''t'' then ((CTrue, t, None), rest)
      else if t = ''false'' \<or> t = ''f'' then ((CFalse, t, None), rest)
      else ((CName, t, None), rest))"

text \<open>The runes that are tokens of their own.\<close>

definition lex_single :: "rune \<Rightarrow> pcode option" where
  "lex_single c =
     (if c = 40 then Some CLpar else if c = 41 then Some CRpar
      else if c = 124 \<or> c = 58 then Some COr
      else if c = 38 \<or> c = 44 then Some CAnd
      else if c = 0x2248 then Some CRexp
      else if c = 0x2261 then Some CEq
      else if c = 0x2260 then Some CNeqs
      else None)"

definition lex_order :: "rune \<Rightarrow> rune list \<Rightarrow> lexeme \<times> rune list" where
  "lex_order c r =
     (if r \<noteq> [] \<and> hd r = 61 then
        (if c = 33 then
           (if tl r \<noteq> [] \<and> hd (tl r) = 61 then ((CNeq, ''!=='', None), tl (tl r))
            else ((CNeqs, ''!='', None), tl r))
         else if c = 61 then ((CEq, ''=='', None), tl r)
         else if c = 60 then ((CLe, ''<='', None), tl r)
         else ((CGe, ''>='', None), tl r))
      else ((if c = 62 then CGt else if c = 60 then CLt else if c = 33 then CNot else CEqs,
             go_encode c, None), r))"

definition lex_token :: "rune \<Rightarrow> rune list \<Rightarrow> lexeme \<times> rune list" where
  "lex_token c r =
     (if c = 126 then
        (if r \<noteq> [] \<and> hd r = 126 then ((CRexp, ''~~'', None), tl r) else ((CMatch, ''~'', None), r))
      else case lex_single c of
        Some t \<Rightarrow> ((t, go_encode c, None), r)
      | None \<Rightarrow>
        if c = 62 \<or> c = 60 \<or> c = 33 \<or> c = 61 then lex_order c r
        else if c = 34 \<or> c = 39 then lex_quoted c r
        else lex_word c r)"

definition lex_next :: "rune list \<Rightarrow> lexeme \<times> rune list" where
  "lex_next t =
     (case dropWhile pred_isspace t of
        [] \<Rightarrow> ((CNone, [], Some io_EOF), [])
      | c # r \<Rightarrow> lex_token c r)"

definition lex_peek :: "rune list \<Rightarrow> lexeme" where
  "lex_peek t = fst (lex_next t)"

section \<open>The parser\<close>

text \<open>
  A parsing function returns an error, or what it parsed and the runes left. The functions
  call each other as they go down the input; None is out of fuel, which \<open>pred_parse\<close> never is.
\<close>

type_synonym pres = "(string + pred \<times> rune list) option"

fun pbind :: "pres \<Rightarrow> (pred \<Rightarrow> rune list \<Rightarrow> pres) \<Rightarrow> pres" where
  "pbind None f = None"
| "pbind (Some (Inl e)) f = Some (Inl e)"
| "pbind (Some (Inr (p, t))) f = f p t"

definition group_args :: "pcode \<Rightarrow> pred list \<Rightarrow> pred" where
  "group_args p args = (if length args = 1 then hd args else Pred p [] [] args)"

fun lex_value :: "lexeme \<Rightarrow> string option" where
  "lex_value (t, v, None) = (if tok_class t = ClName then Some v else None)"
| "lex_value (t, v, Some e) = None"

definition parse_unary :: "pcode \<Rightarrow> rune list \<Rightarrow> pres" where
  "parse_unary t r =
     (let (x, r) = lex_next r in
      case lex_value x of
        None \<Rightarrow> Some (Inl ''name expected'')
      | Some v \<Rightarrow> Some (Inr (Pred t (if CHR ''/'' \<in> set v then ''path'' else ''name'') v [], r)))"

definition parse_named :: "string \<Rightarrow> rune list \<Rightarrow> pres" where
  "parse_named v1 r =
     (if v1 = ''d'' \<or> v1 = ''-'' \<or> v1 = ''c'' then Some (Inr (Pred CEqs ''type'' v1 [], r))
      else if snd (go_atoi v1) = None then Some (Inr (Pred CLe ''depth'' v1 [], r))
      else
        let ((x, _, err), r) = lex_next r in
        if err \<noteq> None \<or> tok_class x \<noteq> ClOp then Some (Inl ''op expected'')
        else
          let (y, r) = lex_next r in
          case lex_value y of
            None \<Rightarrow> Some (Inl ''name expected'')
          | Some v2 \<Rightarrow> Some (Inr (Pred x v1 v2 [], r)))"

function (sequential) parse_ors :: "nat \<Rightarrow> rune list \<Rightarrow> pres"
  and ors_loop :: "nat \<Rightarrow> pred list \<Rightarrow> rune list \<Rightarrow> pres"
  and parse_ands :: "nat \<Rightarrow> rune list \<Rightarrow> pres"
  and ands_loop :: "nat \<Rightarrow> pred list \<Rightarrow> rune list \<Rightarrow> pres"
  and parse_prim :: "nat \<Rightarrow> rune list \<Rightarrow> pres" where
  "parse_ors 0 t = None"
| "parse_ors (Suc k) t = pbind (parse_ands k t) (\<lambda>a t. ors_loop k [a] t)"
| "ors_loop 0 args t = None"
| "ors_loop (Suc k) args t =
     (let ((p, _, err), t') = lex_next t in
      if err \<noteq> None \<or> p \<noteq> COr then
        (if err = None \<or> err = Some io_EOF \<or> p = CRpar then Some (Inr (group_args COr args, t))
         else Some (Inl (the err)))
      else pbind (parse_ands k t') (\<lambda>a t. ors_loop k (args @ [a]) t))"
| "parse_ands 0 t = None"
| "parse_ands (Suc k) t = pbind (parse_prim k t) (\<lambda>a t. ands_loop k [a] t)"
| "ands_loop 0 args t = None"
| "ands_loop (Suc k) args t =
     (let ((p, _, err), t') = lex_next t in
      if err \<noteq> None \<or> p \<noteq> CAnd then
        (if err = None \<or> err = Some io_EOF \<or> p = CRpar \<or> p = COr
         then Some (Inr (group_args CAnd args, t))
         else Some (Inl (the err)))
      else pbind (parse_prim k t') (\<lambda>a t. ands_loop k (args @ [a]) t))"
| "parse_prim 0 t = None"
| "parse_prim (Suc k) t =
     (let ((p, v, err), t') = lex_next t in
      if err \<noteq> None then Some (Inl (the err))
      else if p = CPrune \<or> p = CTrue \<or> p = CFalse then Some (Inr (Pred p [] [] [], t'))
      else if p = CMatch \<or> p = CEqs \<or> p = CRexp then parse_unary p t'
      else if p = CName then parse_named v t'
      else if tok_class p = ClUn then
        pbind (parse_prim k t') (\<lambda>a t. Some (Inr (Pred p [] [] [a], t)))
      else if p = CLpar then
        pbind (parse_ors k t') (\<lambda>a t.
          let ((r, _, err), t) = lex_next t in
          if err \<noteq> None \<or> r \<noteq> CRpar then Some (Inl ([CHR 0x27] @ '')'' @ [CHR 0x27] @ '' expected''))
          else Some (Inr (a, t)))
      else Some (Inl ''not a primary expression''))"
  by pat_completeness auto
termination
  by (relation "measure (\<lambda>x. case x of Inl (Inl (k, _)) \<Rightarrow> k | Inl (Inr (k, _)) \<Rightarrow> k
      | Inr (Inl (k, _)) \<Rightarrow> k | Inr (Inr (Inl (k, _))) \<Rightarrow> k | Inr (Inr (Inr (k, _))) \<Rightarrow> k)") simp_all

definition pred_parse :: "nat \<Rightarrow> rune list \<Rightarrow> (string + pred) option" where
  "pred_parse k t =
     (case parse_ors k t of
        None \<Rightarrow> None
      | Some (Inl e) \<Rightarrow> Some (Inl e)
      | Some (Inr (p, t)) \<Rightarrow>
          (case snd (snd (lex_peek t)) of
             None \<Rightarrow> Some (Inl ''syntax error'')
           | Some _ \<Rightarrow> Some (Inr p)))"

text \<open>Three calls go down to a primary, which consumes a rune before it calls again.\<close>

definition parse_fuel :: "rune list \<Rightarrow> nat" where
  "parse_fuel t = 4 * length t + 8"

definition pred_New :: "string \<Rightarrow> (string + pred) option" where
  "pred_New s =
     (if s = [] then Some (Inr PNil)
      else pred_parse (parse_fuel (go_runes s)) (go_runes s))"

end
