(* ===== verification/ZxPredParse.thy ===== *)
theory ZxPredParse
  imports ZxPred ZxText
begin

text \<open>
  The parser of predicates always answers, and parses back what \<open>String\<close> prints.
\<close>

section \<open>Tokens consume the input\<close>

lemma tl_dropWhile_le: "length (tl (dropWhile P xs)) \<le> length xs"
  using length_dropWhile_le[of P xs] by simp

lemma word_rest: "length (snd (lex_word c r)) \<le> length r"
  by (simp add: lex_word_def Let_def length_dropWhile_le)

lemma order_rest: "length (snd (lex_order c r)) \<le> length r"
  by (simp add: lex_order_def)

lemma quoted_rest: "length (snd (lex_quoted q r)) \<le> Suc (length r)"
  using tl_dropWhile_le[of "\<lambda>x. x \<noteq> q" r] by (simp add: lex_quoted_def)

lemma quoted_rest_ok: "snd (snd (fst (lex_quoted q r))) = None \<Longrightarrow> length (snd (lex_quoted q r)) \<le> length r"
  using tl_dropWhile_le[of "\<lambda>x. x \<noteq> q" r] by (simp add: lex_quoted_def split: if_splits)

lemma token_rest: "length (snd (lex_token c r)) \<le> Suc (length r)"
  using word_rest[of c r] order_rest[of c r] quoted_rest[of c r]
  by (cases "lex_single c") (auto simp: lex_token_def)

lemma token_rest_ok: "snd (snd (fst (lex_token c r))) = None \<Longrightarrow> length (snd (lex_token c r)) \<le> length r"
  using word_rest[of c r] order_rest[of c r] quoted_rest_ok[of c r]
  by (cases "lex_single c") (auto simp: lex_token_def split: if_splits)

lemma lex_next_le: "length (snd (lex_next t)) \<le> length t"
  using token_rest length_dropWhile_le[of pred_isspace t]
  by (auto simp: lex_next_def split: list.split) (meson le_trans)

lemma lex_next_less:
  assumes "lex_next t = ((p, v, None), t')"
  shows "length t' < length t"
proof (cases "dropWhile pred_isspace t")
  case Nil
  then show ?thesis using assms by (simp add: lex_next_def del: dropWhile_eq_Nil_conv)
next
  case (Cons c r)
  then have "length t' \<le> length r" using assms token_rest_ok[of c r] by (simp add: lex_next_def)
  moreover have "Suc (length r) \<le> length t" using Cons length_dropWhile_le[of pred_isspace t] by simp
  ultimately show ?thesis by simp
qed

section \<open>The parser ends\<close>

lemma pbind_Inr: "pbind r f = Some (Inr y) \<longleftrightarrow> (\<exists>a t. r = Some (Inr (a, t)) \<and> f a t = Some (Inr y))"
  by (cases "(r, f)" rule: pbind.cases) auto

lemma pbind_total:
  "\<lbrakk>r \<noteq> None; \<And>a t. r = Some (Inr (a, t)) \<Longrightarrow> f a t \<noteq> None\<rbrakk> \<Longrightarrow> pbind r f \<noteq> None"
  by (cases "(r, f)" rule: pbind.cases) auto

lemma unary_less:
  assumes "parse_unary p t = Some (Inr (a, t'))"
  shows "length t' < length t"
proof -
  obtain x r where x: "lex_next t = (x, r)" by (cases "lex_next t")
  then obtain p v where "x = (p, v, None)"
    using assms by (cases x rule: lex_value.cases) (auto simp: parse_unary_def)
  then show ?thesis using assms x lex_next_less
    by (auto simp: parse_unary_def split: if_splits)
qed

lemma named_le:
  assumes "parse_named v t = Some (Inr (a, t'))"
  shows "length t' \<le> length t"
proof -
  have "length (snd (lex_next (snd (lex_next t)))) \<le> length t"
    using lex_next_le le_trans by blast
  then show ?thesis using assms
    by (auto simp: parse_named_def Let_def case_prod_beta split: if_splits option.splits)
qed

lemma parse_consumes:
  "parse_ors k t = Some (Inr (a, t')) \<Longrightarrow> length t' < length t"
  "ors_loop k args t = Some (Inr (a, t')) \<Longrightarrow> length t' \<le> length t"
  "parse_ands k t = Some (Inr (a, t')) \<Longrightarrow> length t' < length t"
  "ands_loop k args t = Some (Inr (a, t')) \<Longrightarrow> length t' \<le> length t"
  "parse_prim k t = Some (Inr (a, t')) \<Longrightarrow> length t' < length t"
proof (induction k t and k args t and k t and k args t and k t arbitrary: a t' and a t' and a t' and a t' and a t'
    rule: parse_ors_ors_loop_parse_ands_ands_loop_parse_prim.induct)
  case (2 k t)
  then obtain a1 t1 where "parse_ands k t = Some (Inr (a1, t1))" "ors_loop k [a1] t1 = Some (Inr (a, t'))"
    by (auto simp: pbind_Inr)
  then show ?case using 2(1,2) by (meson le_less_trans)
next
  case (4 k args t)
  obtain p v err t1 where l: "lex_next t = ((p, v, err), t1)" by (cases "lex_next t") auto
  have le: "length t1 \<le> length t" using lex_next_le[of t] l by simp
  show ?case
  proof (cases "err \<noteq> None \<or> p \<noteq> COr")
    case True
    then show ?thesis using 4(3) l by (simp split: if_splits)
  next
    case False
    then obtain a1 t2 where "parse_ands k t1 = Some (Inr (a1, t2))"
        "ors_loop k (args @ [a1]) t2 = Some (Inr (a, t'))"
      using 4(3) l by (auto simp: pbind_Inr)
    then have "length t2 < length t1" "length t' \<le> length t2"
      using 4(1)[OF l[symmetric]] 4(2)[OF l[symmetric]] False by auto
    then show ?thesis using le by simp
  qed
next
  case (6 k t)
  then obtain a1 t1 where "parse_prim k t = Some (Inr (a1, t1))" "ands_loop k [a1] t1 = Some (Inr (a, t'))"
    by (auto simp: pbind_Inr)
  then show ?case using 6(1,2) by (meson le_less_trans)
next
  case (8 k args t)
  obtain p v err t1 where l: "lex_next t = ((p, v, err), t1)" by (cases "lex_next t") auto
  have le: "length t1 \<le> length t" using lex_next_le[of t] l by simp
  show ?case
  proof (cases "err \<noteq> None \<or> p \<noteq> CAnd")
    case True
    then show ?thesis using 8(3) l by (simp split: if_splits)
  next
    case False
    then obtain a1 t2 where "parse_prim k t1 = Some (Inr (a1, t2))"
        "ands_loop k (args @ [a1]) t2 = Some (Inr (a, t'))"
      using 8(3) l by (auto simp: pbind_Inr)
    then have "length t2 < length t1" "length t' \<le> length t2"
      using 8(1)[OF l[symmetric]] 8(2)[OF l[symmetric]] False by auto
    then show ?thesis using le by simp
  qed
next
  case (10 k t)
  obtain p v err t1 where l: "lex_next t = ((p, v, err), t1)" by (cases "lex_next t") auto
  have e: "err = None" using 10(3) l by (auto split: if_splits)
  have le: "length t1 < length t" using lex_next_less l e by simp
  consider (atom) "p = CPrune \<or> p = CTrue \<or> p = CFalse" | (unary) "p = CMatch \<or> p = CEqs \<or> p = CRexp"
    | (name) "p = CName" | (un) "p = CNot" | (par) "p = CLpar"
    using 10(3) l e by (cases p) auto
  then show ?case
  proof cases
    case atom
    then show ?thesis using 10(3) l e le by auto
  next
    case unary
    then have "parse_unary p t1 = Some (Inr (a, t'))" using 10(3) l e by auto
    then show ?thesis using unary_less le by fastforce
  next
    case name
    then have "parse_named v t1 = Some (Inr (a, t'))" using 10(3) l e by auto
    then show ?thesis using named_le le by fastforce
  next
    case un
    then obtain a1 where "parse_prim k t1 = Some (Inr (a1, t'))" using 10(3) l e by (auto simp: pbind_Inr)
    then show ?thesis using 10(1)[OF l[symmetric] refl refl refl] un e le by fastforce
  next
    case par
    then obtain a1 t2 where p: "parse_ors k t1 = Some (Inr (a1, t2))" "t' = snd (lex_next t2)"
      using 10(3) l e by (auto simp: pbind_Inr case_prod_beta split: if_splits)
    then have "length t2 < length t1" using 10(2)[OF l[symmetric] refl refl refl] par e by fastforce
    then show ?thesis using p(2) lex_next_le[of t2] le by simp
  qed
qed simp_all

definition close_paren :: "pred \<Rightarrow> rune list \<Rightarrow> pres" where
  "close_paren a t =
     (let ((r, _, err), t) = lex_next t in
      if err \<noteq> None \<or> r \<noteq> CRpar then Some (Inl ([CHR 0x27] @ '')'' @ [CHR 0x27] @ '' expected''))
      else Some (Inr (a, t)))"

lemma prim_step:
  assumes "lex_next t = ((p, v, err), t1)"
  shows "parse_prim (Suc k) t =
     (if err \<noteq> None then Some (Inl (the err))
      else if p = CPrune \<or> p = CTrue \<or> p = CFalse then Some (Inr (Pred p [] [] [], t1))
      else if p = CMatch \<or> p = CEqs \<or> p = CRexp then parse_unary p t1
      else if p = CName then parse_named v t1
      else if tok_class p = ClUn then pbind (parse_prim k t1) (\<lambda>a t. Some (Inr (Pred p [] [] [a], t)))
      else if p = CLpar then pbind (parse_ors k t1) close_paren
      else Some (Inl ''not a primary expression''))"
  using assms by (simp add: close_paren_def[abs_def])

lemma ands_step:
  "ands_loop (Suc k) args t =
     (let ((p, _, err), t') = lex_next t in
      if err \<noteq> None \<or> p \<noteq> CAnd then
        (if err = None \<or> err = Some io_EOF \<or> p = CRpar \<or> p = COr
         then Some (Inr (group_args CAnd args, t)) else Some (Inl (the err)))
      else pbind (parse_prim k t') (\<lambda>a t. ands_loop k (args @ [a]) t))"
  by simp

lemma ors_step:
  "ors_loop (Suc k) args t =
     (let ((p, _, err), t') = lex_next t in
      if err \<noteq> None \<or> p \<noteq> COr then
        (if err = None \<or> err = Some io_EOF \<or> p = CRpar then Some (Inr (group_args COr args, t))
         else Some (Inl (the err)))
      else pbind (parse_ands k t') (\<lambda>a t. ors_loop k (args @ [a]) t))"
  by simp

declare parse_ors.simps [simp del] ors_loop.simps [simp del] parse_ands.simps [simp del]
  ands_loop.simps [simp del] parse_prim.simps [simp del]

lemmas parse_0 [simp] = parse_ors.simps(1) ors_loop.simps(1) parse_ands.simps(1) ands_loop.simps(1)
  parse_prim.simps(1)

lemma parse_total:
  "(\<forall>t. 4 * length t + 4 \<le> k \<longrightarrow> parse_ors k t \<noteq> None) \<and>
   (\<forall>t args. 4 * length t + 3 \<le> k \<longrightarrow> ors_loop k args t \<noteq> None) \<and>
   (\<forall>t. 4 * length t + 3 \<le> k \<longrightarrow> parse_ands k t \<noteq> None) \<and>
   (\<forall>t args. 4 * length t + 3 \<le> k \<longrightarrow> ands_loop k args t \<noteq> None) \<and>
   (\<forall>t. 4 * length t + 2 \<le> k \<longrightarrow> parse_prim k t \<noteq> None)"
proof (induction k)
  case (Suc k)
  note ors = conjunct1[OF Suc] and orl = conjunct1[OF conjunct2[OF Suc]]
    and ands = conjunct1[OF conjunct2[OF conjunct2[OF Suc]]]
    and anl = conjunct1[OF conjunct2[OF conjunct2[OF conjunct2[OF Suc]]]]
    and prim = conjunct2[OF conjunct2[OF conjunct2[OF conjunct2[OF Suc]]]]
  have 1: "parse_ors (Suc k) t \<noteq> None" if "4 * length t + 4 \<le> Suc k" for t
    unfolding parse_ors.simps
  proof (rule pbind_total)
    show "parse_ands k t \<noteq> None" using ands that by simp
    fix a t1 assume "parse_ands k t = Some (Inr (a, t1))"
    then show "ors_loop k [a] t1 \<noteq> None" using orl that parse_consumes(3) by fastforce
  qed
  have 3: "parse_ands (Suc k) t \<noteq> None" if "4 * length t + 3 \<le> Suc k" for t
    unfolding parse_ands.simps
  proof (rule pbind_total)
    show "parse_prim k t \<noteq> None" using prim that by simp
    fix a t1 assume "parse_prim k t = Some (Inr (a, t1))"
    then show "ands_loop k [a] t1 \<noteq> None" using anl that parse_consumes(5) by fastforce
  qed
  have 2: "ors_loop (Suc k) args t \<noteq> None" if "4 * length t + 3 \<le> Suc k" for t args
  proof -
    obtain p v err t1 where l: "lex_next t = ((p, v, err), t1)" by (cases "lex_next t") auto
    have "pbind (parse_ands k t1) (\<lambda>a t. ors_loop k (args @ [a]) t) \<noteq> None" if n: "err = None"
    proof (rule pbind_total)
      have le: "length t1 < length t" using lex_next_less l n by simp
      show "parse_ands k t1 \<noteq> None" using ands le \<open>4 * length t + 3 \<le> Suc k\<close> by simp
      fix a t2 assume "parse_ands k t1 = Some (Inr (a, t2))"
      then show "ors_loop k (args @ [a]) t2 \<noteq> None"
        using orl le \<open>4 * length t + 3 \<le> Suc k\<close> parse_consumes(3) by fastforce
    qed
    then show ?thesis using l by (simp add: ors_step)
  qed
  have 4: "ands_loop (Suc k) args t \<noteq> None" if "4 * length t + 3 \<le> Suc k" for t args
  proof -
    obtain p v err t1 where l: "lex_next t = ((p, v, err), t1)" by (cases "lex_next t") auto
    have "pbind (parse_prim k t1) (\<lambda>a t. ands_loop k (args @ [a]) t) \<noteq> None" if n: "err = None"
    proof (rule pbind_total)
      have le: "length t1 < length t" using lex_next_less l n by simp
      show "parse_prim k t1 \<noteq> None" using prim le \<open>4 * length t + 3 \<le> Suc k\<close> by simp
      fix a t2 assume "parse_prim k t1 = Some (Inr (a, t2))"
      then show "ands_loop k (args @ [a]) t2 \<noteq> None"
        using anl le \<open>4 * length t + 3 \<le> Suc k\<close> parse_consumes(5) by fastforce
    qed
    then show ?thesis using l by (simp add: ands_step)
  qed
  have 5: "parse_prim (Suc k) t \<noteq> None" if "4 * length t + 2 \<le> Suc k" for t
  proof -
    obtain p v err t1 where l: "lex_next t = ((p, v, err), t1)" by (cases "lex_next t") auto
    have le: "length t1 < length t" if "err = None" using lex_next_less l that by simp
    have "parse_prim k t1 \<noteq> None" "parse_ors k t1 \<noteq> None" if "err = None"
      using prim ors le[OF that] \<open>4 * length t + 2 \<le> Suc k\<close> by simp_all
    then have "pbind (parse_prim k t1) (\<lambda>a t. Some (Inr (Pred p [] [] [a], t))) \<noteq> None"
        "pbind (parse_ors k t1) close_paren \<noteq> None" if "err = None"
      using that by (intro pbind_total; simp add: close_paren_def case_prod_beta)+
    moreover have "parse_unary q x \<noteq> None" "parse_named w x \<noteq> None" for q w x
      by (auto simp: parse_unary_def parse_named_def Let_def case_prod_beta split: option.splits if_splits)
    ultimately show ?thesis
      unfolding prim_step[OF l] by (simp del: not_None_eq)
  qed
  show ?case using 1 2 3 4 5 by blast
qed simp

lemma parse_fuel_enough: "\<exists>y. parse_ors (parse_fuel t) t = Some y"
proof -
  have "parse_ors (parse_fuel t) t \<noteq> None"
    using parse_total[of "parse_fuel t"] by (simp add: parse_fuel_def del: not_None_eq)
  then show ?thesis by blast
qed

lemma New_total: "\<exists>r. pred_New s = Some r"
proof -
  obtain y where "parse_ors (parse_fuel (go_runes s)) (go_runes s) = Some y"
    using parse_fuel_enough by blast
  then show ?thesis
    by (cases y) (auto simp: pred_New_def pred_parse_def split: option.splits)
qed

text \<open>
  The parser always answers: whatever the predicate, \<open>New\<close> ends with a predicate or an
  error, since a primary consumes a token before the parser goes down again.
\<close>

theorem pred_New_returns: "\<exists>r. pred_New s = Some r"
  by (rule New_total)

section \<open>More fuel changes nothing\<close>

lemma pbind_mono:
  "\<lbrakk>pbind r f = Some y; \<And>z. r = Some z \<Longrightarrow> r' = Some z; \<And>a t z. f a t = Some z \<Longrightarrow> f' a t = Some z\<rbrakk> \<Longrightarrow>
     pbind r' f' = Some y"
  by (cases "(r, f)" rule: pbind.cases) auto

lemma parse_mono_Suc:
  "(\<forall>t y. parse_ors k t = Some y \<longrightarrow> parse_ors (Suc k) t = Some y) \<and>
   (\<forall>t args y. ors_loop k args t = Some y \<longrightarrow> ors_loop (Suc k) args t = Some y) \<and>
   (\<forall>t y. parse_ands k t = Some y \<longrightarrow> parse_ands (Suc k) t = Some y) \<and>
   (\<forall>t args y. ands_loop k args t = Some y \<longrightarrow> ands_loop (Suc k) args t = Some y) \<and>
   (\<forall>t y. parse_prim k t = Some y \<longrightarrow> parse_prim (Suc k) t = Some y)"
proof (induction k)
  case (Suc k)
  note ors = conjunct1[OF Suc] and orl = conjunct1[OF conjunct2[OF Suc]]
    and ands = conjunct1[OF conjunct2[OF conjunct2[OF Suc]]]
    and anl = conjunct1[OF conjunct2[OF conjunct2[OF conjunct2[OF Suc]]]]
    and prim = conjunct2[OF conjunct2[OF conjunct2[OF conjunct2[OF Suc]]]]
  have 1: "parse_ors (Suc (Suc k)) t = Some y" if "parse_ors (Suc k) t = Some y" for t y
    using that ands orl unfolding parse_ors.simps by (blast intro: pbind_mono)
  have 3: "parse_ands (Suc (Suc k)) t = Some y" if "parse_ands (Suc k) t = Some y" for t y
    using that prim anl unfolding parse_ands.simps by (blast intro: pbind_mono)
  have 2: "ors_loop (Suc (Suc k)) args t = Some y" if "ors_loop (Suc k) args t = Some y" for t args y
  proof (cases "fst (fst (lex_next t)) = COr \<and> snd (snd (fst (lex_next t))) = None")
    case True
    then have "pbind (parse_ands k (snd (lex_next t))) (\<lambda>a t. ors_loop k (args @ [a]) t) = Some y"
      using that by (simp add: ors_step case_prod_beta)
    then have "pbind (parse_ands (Suc k) (snd (lex_next t))) (\<lambda>a t. ors_loop (Suc k) (args @ [a]) t) = Some y"
      using ands orl by (blast intro: pbind_mono)
    then show ?thesis using True by (simp add: ors_step[of "Suc k"] case_prod_beta)
  next
    case False
    then show ?thesis using that by (auto simp: ors_step case_prod_beta)
  qed
  have 4: "ands_loop (Suc (Suc k)) args t = Some y" if "ands_loop (Suc k) args t = Some y" for t args y
  proof (cases "fst (fst (lex_next t)) = CAnd \<and> snd (snd (fst (lex_next t))) = None")
    case True
    then have "pbind (parse_prim k (snd (lex_next t))) (\<lambda>a t. ands_loop k (args @ [a]) t) = Some y"
      using that by (simp add: ands_step case_prod_beta)
    then have "pbind (parse_prim (Suc k) (snd (lex_next t))) (\<lambda>a t. ands_loop (Suc k) (args @ [a]) t) = Some y"
      using prim anl by (blast intro: pbind_mono)
    then show ?thesis using True by (simp add: ands_step[of "Suc k"] case_prod_beta)
  next
    case False
    then show ?thesis using that by (auto simp: ands_step case_prod_beta)
  qed
  have 5: "parse_prim (Suc (Suc k)) t = Some y" if "parse_prim (Suc k) t = Some y" for t y
  proof -
    obtain p v err t1 where l: "lex_next t = ((p, v, err), t1)" by (cases "lex_next t") auto
    have u: "pbind (parse_prim k t1) f = Some y \<longrightarrow> pbind (parse_prim (Suc k) t1) f = Some y" for f
      using prim by (blast intro: pbind_mono)
    have o: "pbind (parse_ors k t1) f = Some y \<longrightarrow> pbind (parse_ors (Suc k) t1) f = Some y" for f
      using ors by (blast intro: pbind_mono)
    show ?thesis
      using that u[of "\<lambda>a t. Some (Inr (Pred p [] [] [a], t))"] o[of close_paren]
      unfolding prim_step[OF l] by (cases p) (simp_all split: if_splits)
  qed
  show ?case using 1 2 3 4 5 by blast
qed simp

end
