(* ===== verification/ZxPredEval.thy ===== *)
theory ZxPredEval
  imports ZxPred ZxPerms GoPath
begin

text \<open>
  The evaluation of predicates on directory entries and the walk of a tree of files that
  evaluates one at each entry (\<open>src/zx/pred/pred.go\<close>).
\<close>

section \<open>Matching paths\<close>

text \<open>The value, the prune indication and the error of an evaluation.\<close>

type_synonym ev = "bool \<times> bool \<times> string option"

definition ErrBadPattern :: string where
  "ErrBadPattern = ''syntax error in pattern''"

text \<open>The loop over the elements of the path, which are no more than those of the pattern.\<close>

fun match_els :: "string list \<Rightarrow> string list \<Rightarrow> ev" where
  "match_els (x # els) (q # pels) =
     (case fp_Match x q of
        None \<Rightarrow> (False, True, Some ErrBadPattern)
      | Some m \<Rightarrow> if \<not> m then (False, True, None) else match_els els pels)"
| "match_els els pels = (els = [], False, None)"

definition pathMatch :: "string \<Rightarrow> string \<Rightarrow> ev" where
  "pathMatch exp p =
     (if exp \<noteq> [] \<and> hd exp \<noteq> slash then
        (case fp_Match exp p of
           None \<Rightarrow> (False, False, Some ErrBadPattern)
         | Some m \<Rightarrow> (m, False, None))
      else
        let els = zx_Elems exp; pels = zx_Elems p in
        if length els < length pels then (False, True, None)
        else match_els els pels)"

section \<open>Comparing numbers\<close>

definition wrap64 :: "int \<Rightarrow> int" where
  "wrap64 n = sint (word_of_int n :: 64 word)"

text \<open>The value and the too deep flag of a comparison; \<open>!==\<close> has no case of its own.\<close>

definition cmp_nums :: "pcode \<Rightarrow> bool \<Rightarrow> int \<Rightarrow> int \<Rightarrow> bool \<times> bool" where
  "cmp_nums p isdepth n1 n2 =
     (if p = CLt then (n1 < n2, isdepth \<and> wrap64 (n2 - 1) \<le> n1)
      else if p = CLe then (n1 \<le> n2, isdepth \<and> n2 \<le> n1)
      else if p = CEq then (n1 = n2, isdepth \<and> n2 \<le> n1)
      else if p = CGe then (n2 \<le> n1, False)
      else (n2 < n1, False))"

definition eval_num :: "pcode \<Rightarrow> string \<Rightarrow> string \<Rightarrow> dir \<Rightarrow> int \<Rightarrow> ev" where
  "eval_num p nm v e lvl =
     (let isdepth = (nm = ''depth''); bad = (False, False, Some ''not a number'') in
      case (if isdepth then Some (Some lvl)
            else case map_of e nm of
                None \<Rightarrow> None
              | Some s \<Rightarrow> Some (case go_parse_int s 0 of (n, err) \<Rightarrow> if err = None then Some n else None)) of
        None \<Rightarrow> (False, False, None)
      | Some None \<Rightarrow> bad
      | Some (Some n1) \<Rightarrow>
          (case go_parse_int v 0 of
             (n2, err) \<Rightarrow>
               if err \<noteq> None then bad
               else (let (b, deep) = cmp_nums p isdepth n1 n2 in (b, deep, None))))"

section \<open>Evaluation\<close>

definition eval_rexp :: "(rune \<Rightarrow> bool) \<Rightarrow> string \<Rightarrow> string \<Rightarrow> ev go option" where
  "eval_rexp tab v n =
     (case sre_CompileStr v Fwd of
        None \<Rightarrow> None
      | Some CCrash \<Rightarrow> Some Panic
      | Some (CErr e) \<Rightarrow> Some (Ret (False, False, Some e))
      | Some (COk prg) \<Rightarrow>
          map_option (go_map (\<lambda>sel. (sel \<noteq> [], False, None))) (sre_ExecStr tab prg n 0 (len n)))"

text \<open>The operations on a name and a value.\<close>

definition eval_attr :: "(rune \<Rightarrow> bool) \<Rightarrow> pcode \<Rightarrow> string \<Rightarrow> string \<Rightarrow> dir \<Rightarrow> int \<Rightarrow> ev go option" where
  "eval_attr tab p nm v e lvl =
     (if p = CLt \<or> p = CLe \<or> p = CNeq \<or> p = CEq \<or> p = CGe \<or> p = CGt then
        Some (Ret (eval_num p nm v e lvl))
      else if p = CMatch then
        Some (Ret (case map_of e nm of None \<Rightarrow> (False, False, None) | Some n \<Rightarrow> pathMatch v n))
      else if p = CRexp then
        (case map_of e nm of None \<Rightarrow> Some (Ret (False, False, None)) | Some n \<Rightarrow> eval_rexp tab v n)
      else if p = CEqs then
        Some (Ret (case map_of e nm of None \<Rightarrow> (False, False, None) | Some n \<Rightarrow> (n = v, False, None)))
      else if p = CNeqs then
        Some (Ret (case map_of e nm of
            None \<Rightarrow> (True, False, None)
          | Some n \<Rightarrow> (n \<noteq> v, (nm = ''name'' \<or> nm = ''path'') \<and> n = v, None)))
      else Some (Ret (False, False, None)))"

fun ev_bind :: "ev go option \<Rightarrow> (bool \<Rightarrow> bool \<Rightarrow> string option \<Rightarrow> ev go option) \<Rightarrow> ev go option" where
  "ev_bind (Some (Ret (v, pruned, err))) f = f v pruned err"
| "ev_bind (Some Panic) f = Some Panic"
| "ev_bind None f = None"

text \<open>A negated test of the name or the path prunes where the test holds.\<close>

definition not_prune :: "pred \<Rightarrow> bool \<Rightarrow> bool \<Rightarrow> bool go" where
  "not_prune a m prune =
     (case a of
        PNil \<Rightarrow> Panic
      | Pred p nm _ _ \<Rightarrow>
          Ret (if (p = CMatch \<or> p = CEqs \<or> p = CRexp) \<and> (nm = ''name'' \<or> nm = ''path'') then m else prune))"

function (sequential) EvalAt :: "(rune \<Rightarrow> bool) \<Rightarrow> pred \<Rightarrow> dir \<Rightarrow> int \<Rightarrow> ev go option"
  and and_loop :: "(rune \<Rightarrow> bool) \<Rightarrow> pred list \<Rightarrow> dir \<Rightarrow> int \<Rightarrow> ev go option"
  and or_loop :: "(rune \<Rightarrow> bool) \<Rightarrow> pred list \<Rightarrow> dir \<Rightarrow> int \<Rightarrow> ev go option" where
  "EvalAt tab PNil e lvl = Some (Ret (True, False, None))"
| "EvalAt tab (Pred p nm v args) e lvl =
     (if p = CTrue \<or> p = CFalse then Some (Ret (p = CTrue, False, None))
      else if p = CPrune then Some (Ret (False, True, None))
      else if p = CNot then
        (case args of
           [] \<Rightarrow> Some Panic
         | a # _ \<Rightarrow>
             ev_bind (EvalAt tab a e lvl) (\<lambda>m prune err.
               Some (go_map (\<lambda>pr. (\<not> m, pr, err)) (not_prune a m prune))))
      else if p = CAnd then and_loop tab args e lvl
      else if p = COr then or_loop tab args e lvl
      else eval_attr tab p nm v e lvl)"
| "and_loop tab [] e lvl = Some (Ret (True, False, None))"
| "and_loop tab (a # as) e lvl =
     ev_bind (EvalAt tab a e lvl) (\<lambda>v pruned err.
       if err \<noteq> None \<or> \<not> v \<or> pruned then Some (Ret (v, pruned, err)) else and_loop tab as e lvl)"
| "or_loop tab [] e lvl = Some (Ret (False, False, None))"
| "or_loop tab (a # as) e lvl =
     ev_bind (EvalAt tab a e lvl) (\<lambda>v pruned err.
       if err \<noteq> None \<or> v \<or> pruned then Some (Ret (v, pruned, err)) else or_loop tab as e lvl)"
  by pat_completeness auto
termination
  by (relation "measure (\<lambda>x. case x of Inl (_, p, _) \<Rightarrow> size p
      | Inr (Inl (_, ps, _)) \<Rightarrow> size_list size ps | Inr (Inr (_, ps, _)) \<Rightarrow> size_list size ps)")
    simp_all

definition EvalStr :: "(rune \<Rightarrow> bool) \<Rightarrow> dir \<Rightarrow> string \<Rightarrow> int \<Rightarrow> ev go option" where
  "EvalStr tab e p lvl =
     (case pred_New p of
        None \<Rightarrow> None
      | Some (Inl err) \<Rightarrow> Some (Ret (False, False, Some err))
      | Some (Inr x) \<Rightarrow> EvalAt tab x e lvl)"

section \<open>Walking a tree\<close>

text \<open>
  The channel of the entries found: what was sent, how many more entries the reader takes
  before it closes its end (None when it takes them all), and what the walk closed it with.
  Sending to a closed channel fails.
\<close>

record dirchan =
  dc_sent :: "dir list"
  dc_room :: "nat option"
  dc_closed :: "string option option"

definition dc_send :: "dir \<Rightarrow> dirchan \<Rightarrow> bool \<times> dirchan" where
  "dc_send d c =
     (if dc_closed c \<noteq> None \<or> dc_room c = Some 0 then (False, c)
      else (True, c\<lparr>dc_sent := dc_sent c @ [d], dc_room := map_option (\<lambda>n. n - 1) (dc_room c)\<rparr>))"

definition dc_close :: "string option \<Rightarrow> dirchan \<Rightarrow> dirchan" where
  "dc_close err c = (if dc_closed c = None then c\<lparr>dc_closed := Some err\<rparr> else c)"

fun ch_error_Error :: "ch_error \<Rightarrow> string" where
  "ch_error_Error EOFErr = ''EOF''"
| "ch_error_Error UnexpectedEOF = ''unexpected EOF''"
| "ch_error_Error TooLarge = ''message size is too large''"
| "ch_error_Error TooSmall = ''truncated message''"
| "ch_error_Error Discarded = ''msg write discarded''"
| "ch_error_Error (IOErr e) = ''i/o error: '' @ ch_error_Error e"
| "ch_error_Error (OtherErr s) = s"

text \<open>
  The walk reads directories with \<open>get\<close>, what the file system replies to \<open>Get\<close> for a path.
  It goes down the tree it reads, which the code does not bound: None is out of fuel.
\<close>

type_synonym getter = "string \<Rightarrow> byte list list \<times> ch_error option"

definition with_err :: "dir \<Rightarrow> string \<Rightarrow> dir" where
  "with_err d e = dset (zx_Dup d) ''err'' e"

definition find_dirs :: "getter \<Rightarrow> dir \<Rightarrow> dir list \<times> ch_error option" where
  "find_dirs get d =
     (if dget d ''type'' = ''d'' then
        (case zx_GetDir (get (dget d ''path'')) of (ds, err) \<Rightarrow> (case ds of None \<Rightarrow> [] | Some ds \<Rightarrow> ds, err))
      else ([], None))"

function (sequential) FindAt :: "nat \<Rightarrow> (rune \<Rightarrow> bool) \<Rightarrow> getter \<Rightarrow> pred \<Rightarrow> dir \<Rightarrow> dirchan \<Rightarrow> int \<Rightarrow> dirchan go option"
  and find_each :: "nat \<Rightarrow> (rune \<Rightarrow> bool) \<Rightarrow> getter \<Rightarrow> pred \<Rightarrow> dir list \<Rightarrow> dirchan \<Rightarrow> int \<Rightarrow> dirchan go option" where
  "FindAt 0 tab get p d c lvl = None"
| "FindAt (Suc k) tab get p d c lvl =
     (case EvalAt tab p d lvl of
        None \<Rightarrow> None
      | Some Panic \<Rightarrow> Some Panic
      | Some (Ret (match, pruned, err)) \<Rightarrow>
          if err \<noteq> None then Some (Ret (dc_close err c))
          else if pruned then Some (Ret (snd (dc_send (with_err d ''pruned'') c)))
          else if dget d ''rm'' \<noteq> [] then Some (Ret c)
          else
            case find_dirs get d of
              (ds, Some gerr) \<Rightarrow> Some (Ret (snd (dc_send (with_err d (ch_error_Error gerr)) c)))
            | (ds, None) \<Rightarrow>
                if match then
                  (case dc_send d c of
                     (ok, c) \<Rightarrow> if ok then find_each k tab get p ds c (lvl + 1) else Some (Ret c))
                else find_each k tab get p ds c (lvl + 1))"
| "find_each k tab get p [] c lvl = Some (Ret c)"
| "find_each k tab get p (cd # ds) c lvl =
     (if dget cd ''rm'' \<noteq> [] then find_each k tab get p ds c lvl
      else
        case FindAt k tab get p cd c lvl of
          None \<Rightarrow> None
        | Some Panic \<Rightarrow> Some Panic
        | Some (Ret c) \<Rightarrow> find_each k tab get p ds c lvl)"
  by pat_completeness auto
termination
  by (relation "measures [\<lambda>x. case x of Inl (k, _) \<Rightarrow> 2 * k | Inr (k, _) \<Rightarrow> 2 * k + 1,
      \<lambda>x. case x of Inl _ \<Rightarrow> 0 | Inr (_, _, _, _, ds, _) \<Rightarrow> length ds]") simp_all

text \<open>\<open>Find\<close>: the entry that \<open>Stat\<close> replies for the path, then the walk.\<close>

definition pred_Find ::
    "nat \<Rightarrow> (rune \<Rightarrow> bool) \<Rightarrow> getter \<Rightarrow> dir option list \<times> string option \<Rightarrow> string \<Rightarrow> dirchan \<Rightarrow> dirchan go option" where
  "pred_Find k tab get stat pred c =
     (case zx_Stat stat of
        (None, err) \<Rightarrow> Some (Ret (dc_close err c))
      | (Some d, _) \<Rightarrow>
          (case pred_New pred of
             None \<Rightarrow> None
           | Some (Inl err) \<Rightarrow> Some (Ret (dc_close (Some err) c))
           | Some (Inr x) \<Rightarrow> map_option (go_map (dc_close None)) (FindAt k tab get x d c 0)))"

end
