(* ===== verification/ZxPredString.thy ===== *)
theory ZxPredString
  imports ZxPredParse ZxPredEval
begin

text \<open>
  \<open>String\<close> prints what \<open>New\<close> parses back, for the predicates whose names and values are words, with
  conjunctions within conjunctions and disjunctions within disjunctions made one.
\<close>

declare parse_ors.simps [simp del] ors_loop.simps [simp del] parse_ands.simps [simp del]
  ands_loop.simps [simp del] parse_prim.simps [simp del]
declare parse_0 [simp]

section \<open>Plain predicates\<close>

definition word_char :: "char \<Rightarrow> bool" where
  "word_char c \<longleftrightarrow> ascii c \<and> \<not> pred_ispunct (of_char c) \<and> \<not> pred_isspace (of_char c) \<and> c \<noteq> CHR 0x22"

definition plain_word :: "string \<Rightarrow> bool" where
  "plain_word w \<longleftrightarrow> w \<noteq> [] \<and> (\<forall>c \<in> set w. word_char c) \<and>
     w \<notin> {''prune'', ''true'', ''t'', ''false'', ''f''}"

text \<open>A name that stands for a test by itself is not read as the name of an attribute.\<close>

definition plain_name :: "string \<Rightarrow> bool" where
  "plain_name w \<longleftrightarrow> plain_word w \<and> w \<notin> {''d'', ''-'', ''c''} \<and> snd (go_atoi w) \<noteq> None"

text \<open>A conjunction within a conjunction prints as one; so does a disjunction.\<close>

fun plain_pred :: "pred \<Rightarrow> bool" where
  "plain_pred PNil \<longleftrightarrow> False"
| "plain_pred (Pred p nm v args) \<longleftrightarrow>
     (case tok_class p of
        ClOp \<Rightarrow> args = [] \<and> plain_name nm \<and> plain_word v
      | ClAtom \<Rightarrow> nm = [] \<and> v = [] \<and> args = []
      | ClUn \<Rightarrow> nm = [] \<and> v = [] \<and> length args = 1 \<and> (\<forall>a \<in> set args. plain_pred a)
      | ClBin \<Rightarrow> nm = [] \<and> v = [] \<and> 2 \<le> length args \<and> (\<forall>a \<in> set args. plain_pred a \<and> p_op a \<noteq> p)
      | _ \<Rightarrow> False)"

section \<open>Runes of ASCII strings\<close>

abbreviation rs :: "string \<Rightarrow> rune list" where
  "rs \<equiv> map of_char"

lemma byte_of_rune: "byte_of c = (of_char c :: rune)"
  by (rule of_nat_of_char)

lemma go_runes_ascii: "\<forall>c \<in> set s. ascii c \<Longrightarrow> go_runes s = rs s"
proof (induction s)
  case Nil
  then show ?case by (simp add: go_runes.simps)
next
  case (Cons c s)
  then show ?case
    using go_decode_ascii[of c s] by (subst go_runes.simps) (simp add: ascii_def byte_of_rune)
qed

lemma go_encode_ascii: "ascii c \<Longrightarrow> go_encode (of_char c) = [c]"
  unfolding go_encode_def ascii_def byte_of_rune[symmetric] by (simp add: Let_def del: byte_of_rune)

lemma go_string_ascii: "\<forall>c \<in> set s. ascii c \<Longrightarrow> go_string (rs s) = s"
  by (induction s) (simp_all add: go_string_def go_encode_ascii)

section \<open>The tokens of what is printed\<close>

definition stop :: "rune list \<Rightarrow> bool" where
  "stop t \<longleftrightarrow> t = [] \<or> pred_ispunct (hd t) \<or> pred_isspace (hd t)"

lemma lex_space [simp]: "lex_next (32 # t) = lex_next t"
  by (simp add: lex_next_def pred_isspace_def)

lemma lex_eof [simp]: "lex_next [] = ((CNone, [], Some io_EOF), [])"
  by (simp add: lex_next_def)

lemma lex_puncts [simp]:
  "lex_next (40 # t) = ((CLpar, ''('', None), t)"
  "lex_next (41 # t) = ((CRpar, '')'', None), t)"
  "lex_next (124 # t) = ((COr, ''|'', None), t)"
  "lex_next (38 # t) = ((CAnd, ''&'', None), t)"
  by (simp_all add: lex_next_def lex_token_def lex_single_def pred_isspace_def
      go_encode_ascii[of "CHR ''(''", simplified ascii_def, simplified]
      go_encode_ascii[of "CHR '')''", simplified ascii_def, simplified]
      go_encode_ascii[of "CHR ''|''", simplified ascii_def, simplified]
      go_encode_ascii[of "CHR ''&''", simplified ascii_def, simplified])

lemma lex_not: "t \<noteq> [] \<Longrightarrow> hd t \<noteq> 61 \<Longrightarrow> \<exists>v. lex_next (33 # t) = ((CNot, v, None), t)"
  by (simp add: lex_next_def lex_token_def lex_single_def pred_isspace_def lex_order_def)

lemma lex_op:
  "tok_class p = ClOp \<Longrightarrow> \<exists>v. lex_next (rs (op_String p) @ 32 # t) = ((p, v, None), 32 # t)"
  by (cases p) (simp_all add: lex_next_def lex_token_def lex_single_def pred_isspace_def lex_order_def)

lemma word_split:
  assumes "\<forall>c \<in> set w. word_char c" and "stop t"
  shows "takeWhile (\<lambda>x. \<not> (pred_ispunct x \<or> pred_isspace x)) (rs w @ t) = rs w"
    and "dropWhile (\<lambda>x. \<not> (pred_ispunct x \<or> pred_isspace x)) (rs w @ t) = t"
proof -
  have w: "\<And>x. x \<in> set (rs w) \<Longrightarrow> \<not> (pred_ispunct x \<or> pred_isspace x)"
    using assms(1) by (auto simp: word_char_def)
  have "takeWhile (\<lambda>x. \<not> (pred_ispunct x \<or> pred_isspace x)) t = []"
    "dropWhile (\<lambda>x. \<not> (pred_ispunct x \<or> pred_isspace x)) t = t"
    using assms(2) by (cases t; auto simp: stop_def)+
  then show "takeWhile (\<lambda>x. \<not> (pred_ispunct x \<or> pred_isspace x)) (rs w @ t) = rs w"
    and "dropWhile (\<lambda>x. \<not> (pred_ispunct x \<or> pred_isspace x)) (rs w @ t) = t"
    using w by (simp_all add: takeWhile_append2 dropWhile_append2 del: set_map)
qed

lemma word_first:
  assumes "word_char c"
  shows "of_char c \<notin> {33::rune, 38, 124, 126, 61, 40, 41, 62, 60, 39, 44, 58, 34, 0x2248, 0x2261, 0x2260}"
    and "\<not> pred_isspace (of_char c)"
proof -
  have "(of_char c :: rune) \<noteq> 34"
  proof
    assume "(of_char c :: rune) = 34"
    then have "(of_char c :: rune) = of_char (CHR 0x22)" by simp
    then show False using assms unfolding of_char_eq_iff by (simp add: word_char_def)
  qed
  then show "of_char c \<notin> {33::rune, 38, 124, 126, 61, 40, 41, 62, 60, 39, 44, 58, 34, 0x2248, 0x2261, 0x2260}"
    using assms by (simp add: word_char_def pred_ispunct_def)
  show "\<not> pred_isspace (of_char c)" using assms by (simp add: word_char_def)
qed

lemma lex_words:
  assumes "w \<noteq> []" and w: "\<forall>c \<in> set w. word_char c" and "stop t"
  shows "lex_next (rs w @ t) =
     ((if w = ''prune'' then CPrune else if w = ''true'' \<or> w = ''t'' then CTrue
       else if w = ''false'' \<or> w = ''f'' then CFalse else CName, w, None), t)"
proof -
  obtain c w' where cw: "w = c # w'" using assms(1) by (cases w) auto
  note f = word_first[of c]
  have "go_string (rs w) = w" using w by (intro go_string_ascii) (auto simp: word_char_def)
  then have "lex_word (of_char c) (rs w' @ t) =
     ((if w = ''prune'' then CPrune else if w = ''true'' \<or> w = ''t'' then CTrue
       else if w = ''false'' \<or> w = ''f'' then CFalse else CName, w, None), t)"
    using w assms(3) word_split[of w' t] by (simp add: lex_word_def Let_def cw)
  then show ?thesis
    using f w unfolding cw
    by (simp add: lex_next_def lex_token_def lex_single_def)
qed

section \<open>Putting parsers together\<close>

text \<open>Enough fuel for two calls is enough for both.\<close>

lemma mono_add:
  assumes "\<And>k y. f k = Some y \<Longrightarrow> f (Suc k) = Some y" and "f k = Some y" and "k \<le> k'"
  shows "f k' = Some y"
  using assms(3)
proof (induction rule: dec_induct)
  case (step n)
  then show ?case using assms(1) by blast
qed (rule assms(2))

lemma parse_ors_mono: "parse_ors k t = Some y \<Longrightarrow> k \<le> k' \<Longrightarrow> parse_ors k' t = Some y"
  by (rule mono_add[where f = "\<lambda>k. parse_ors k t"]) (use parse_mono_Suc in blast)+

lemma ors_loop_mono: "ors_loop k args t = Some y \<Longrightarrow> k \<le> k' \<Longrightarrow> ors_loop k' args t = Some y"
  by (rule mono_add[where f = "\<lambda>k. ors_loop k args t"]) (use parse_mono_Suc in blast)+

lemma parse_ands_mono: "parse_ands k t = Some y \<Longrightarrow> k \<le> k' \<Longrightarrow> parse_ands k' t = Some y"
  by (rule mono_add[where f = "\<lambda>k. parse_ands k t"]) (use parse_mono_Suc in blast)+

lemma ands_loop_mono: "ands_loop k args t = Some y \<Longrightarrow> k \<le> k' \<Longrightarrow> ands_loop k' args t = Some y"
  by (rule mono_add[where f = "\<lambda>k. ands_loop k args t"]) (use parse_mono_Suc in blast)+

lemma parse_prim_mono: "parse_prim k t = Some y \<Longrightarrow> k \<le> k' \<Longrightarrow> parse_prim k' t = Some y"
  by (rule mono_add[where f = "\<lambda>k. parse_prim k t"]) (use parse_mono_Suc in blast)+

lemmas mono_max = parse_ors_mono[OF _ max.cobounded1] parse_ors_mono[OF _ max.cobounded2] ors_loop_mono[OF _ max.cobounded1] ors_loop_mono[OF _ max.cobounded2] 
  parse_ands_mono[OF _ max.cobounded1] parse_ands_mono[OF _ max.cobounded2] ands_loop_mono[OF _ max.cobounded1] ands_loop_mono[OF _ max.cobounded2] 
  parse_prim_mono[OF _ max.cobounded1] parse_prim_mono[OF _ max.cobounded2]

text \<open>What a parser gives with enough fuel.\<close>

definition to_ors :: "rune list \<Rightarrow> pred \<Rightarrow> rune list \<Rightarrow> bool" where
  "to_ors t a t' \<longleftrightarrow> (\<exists>k. parse_ors k t = Some (Inr (a, t')))"

definition to_ands :: "rune list \<Rightarrow> pred \<Rightarrow> rune list \<Rightarrow> bool" where
  "to_ands t a t' \<longleftrightarrow> (\<exists>k. parse_ands k t = Some (Inr (a, t')))"

definition to_prim :: "rune list \<Rightarrow> pred \<Rightarrow> rune list \<Rightarrow> bool" where
  "to_prim t a t' \<longleftrightarrow> (\<exists>k. parse_prim k t = Some (Inr (a, t')))"

definition more_ors :: "pred list \<Rightarrow> rune list \<Rightarrow> pred \<Rightarrow> rune list \<Rightarrow> bool" where
  "more_ors as t a t' \<longleftrightarrow> (\<exists>k. ors_loop k as t = Some (Inr (a, t')))"

definition more_ands :: "pred list \<Rightarrow> rune list \<Rightarrow> pred \<Rightarrow> rune list \<Rightarrow> bool" where
  "more_ands as t a t' \<longleftrightarrow> (\<exists>k. ands_loop k as t = Some (Inr (a, t')))"

lemmas to_defs = to_ors_def to_ands_def to_prim_def more_ors_def more_ands_def

lemma to_ors_intro: "to_ands t a t1 \<Longrightarrow> more_ors [a] t1 b t2 \<Longrightarrow> to_ors t b t2"
proof -
  assume "to_ands t a t1" "more_ors [a] t1 b t2"
  then obtain k1 k2 where "parse_ands k1 t = Some (Inr (a, t1))" "ors_loop k2 [a] t1 = Some (Inr (b, t2))"
    by (auto simp: to_defs)
  from mono_max(5)[OF this(1)] mono_max(4)[OF this(2)]
  have "parse_ands (max k1 k2) t = Some (Inr (a, t1))" "ors_loop (max k1 k2) [a] t1 = Some (Inr (b, t2))" .
  then have "parse_ors (Suc (max k1 k2)) t = Some (Inr (b, t2))" by (simp add: parse_ors.simps)
  then show "to_ors t b t2" unfolding to_defs by blast
qed

lemma to_ands_intro: "to_prim t a t1 \<Longrightarrow> more_ands [a] t1 b t2 \<Longrightarrow> to_ands t b t2"
proof -
  assume "to_prim t a t1" "more_ands [a] t1 b t2"
  then obtain k1 k2 where "parse_prim k1 t = Some (Inr (a, t1))" "ands_loop k2 [a] t1 = Some (Inr (b, t2))"
    by (auto simp: to_defs)
  from mono_max(9)[OF this(1)] mono_max(8)[OF this(2)]
  have "parse_prim (max k1 k2) t = Some (Inr (a, t1))" "ands_loop (max k1 k2) [a] t1 = Some (Inr (b, t2))" .
  then have "parse_ands (Suc (max k1 k2)) t = Some (Inr (b, t2))" by (simp add: parse_ands.simps)
  then show "to_ands t b t2" unfolding to_defs by blast
qed

lemma more_ands_intro:
  assumes "lex_next t = ((CAnd, v, None), t0)" and "to_prim t0 a t1" and "more_ands (as @ [a]) t1 b t2"
  shows "more_ands as t b t2"
proof -
  obtain k1 k2 where "parse_prim k1 t0 = Some (Inr (a, t1))" "ands_loop k2 (as @ [a]) t1 = Some (Inr (b, t2))"
    using assms by (auto simp: to_defs)
  from mono_max(9)[OF this(1)] mono_max(8)[OF this(2)]
  have "parse_prim (max k1 k2) t0 = Some (Inr (a, t1))"
      "ands_loop (max k1 k2) (as @ [a]) t1 = Some (Inr (b, t2))" .
  then have "ands_loop (Suc (max k1 k2)) as t = Some (Inr (b, t2))" using assms(1) by (simp add: ands_step)
  then show ?thesis unfolding to_defs by blast
qed

lemma more_ors_intro:
  assumes "lex_next t = ((COr, v, None), t0)" and "to_ands t0 a t1" and "more_ors (as @ [a]) t1 b t2"
  shows "more_ors as t b t2"
proof -
  obtain k1 k2 where "parse_ands k1 t0 = Some (Inr (a, t1))" "ors_loop k2 (as @ [a]) t1 = Some (Inr (b, t2))"
    using assms by (auto simp: to_defs)
  from mono_max(5)[OF this(1)] mono_max(4)[OF this(2)]
  have "parse_ands (max k1 k2) t0 = Some (Inr (a, t1))"
      "ors_loop (max k1 k2) (as @ [a]) t1 = Some (Inr (b, t2))" .
  then have "ors_loop (Suc (max k1 k2)) as t = Some (Inr (b, t2))" using assms(1) by (simp add: ors_step)
  then show ?thesis unfolding to_defs by blast
qed

lemma to_prim_paren: "to_ors t a (41 # t') \<Longrightarrow> to_prim (40 # t) a t'"
proof -
  assume "to_ors t a (41 # t')"
  then obtain k where "parse_ors k t = Some (Inr (a, 41 # t'))" by (auto simp: to_defs)
  then have "parse_prim (Suc k) (40 # t) = Some (Inr (a, t'))"
    by (simp add: prim_step[OF lex_puncts(1)] close_paren_def)
  then show ?thesis unfolding to_defs by blast
qed

lemma to_prim_not:
  assumes "to_prim t a t'" and "t \<noteq> []" and "hd t \<noteq> 61"
  shows "to_prim (33 # t) (Pred CNot [] [] [a]) t'"
proof -
  obtain k where "parse_prim k t = Some (Inr (a, t'))" using assms(1) by (auto simp: to_defs)
  moreover obtain v where "lex_next (33 # t) = ((CNot, v, None), t)" using lex_not assms(2,3) by blast
  ultimately have "parse_prim (Suc k) (33 # t) = Some (Inr (Pred CNot [] [] [a], t'))"
    by (simp add: prim_step)
  then show ?thesis unfolding to_defs by blast
qed

text \<open>A space before a primary is skipped.\<close>

lemma to_prim_space: "to_prim t a t' \<Longrightarrow> to_prim (32 # t) a t'"
proof -
  assume "to_prim t a t'"
  then obtain k where k: "parse_prim k t = Some (Inr (a, t'))" by (auto simp: to_defs)
  obtain k' where "k = Suc k'" using k by (cases k) auto
  then have "parse_prim k (32 # t) = parse_prim k t" by (simp add: parse_prim.simps)
  then show ?thesis using k unfolding to_defs by auto
qed

lemma to_ands_space: "to_ands t a t' \<Longrightarrow> to_ands (32 # t) a t'"
proof -
  assume "to_ands t a t'"
  then obtain k where k: "parse_ands k t = Some (Inr (a, t'))" by (auto simp: to_defs)
  obtain k' where k': "k = Suc k'" using k by (cases k) auto
  have "to_prim t a1 t1 \<Longrightarrow> to_prim (32 # t) a1 t1" for a1 t1 by (rule to_prim_space)
  moreover obtain a1 t1 where "parse_prim k' t = Some (Inr (a1, t1))" "ands_loop k' [a1] t1 = Some (Inr (a, t'))"
    using k k' by (auto simp: parse_ands.simps pbind_Inr)
  ultimately show ?thesis using to_ands_intro[of "32 # t" a1 t1 a t'] unfolding to_defs by blast
qed

text \<open>What may follow a conjunction, and what may follow a disjunction.\<close>

definition and_end :: "rune list \<Rightarrow> bool" where
  "and_end t \<longleftrightarrow> t = [] \<or> (\<exists>r. t = 41 # r) \<or> (\<exists>r. t = 32 # 124 # r)"

definition or_end :: "rune list \<Rightarrow> bool" where
  "or_end t \<longleftrightarrow> t = [] \<or> (\<exists>r. t = 41 # r)"

lemma ends_stop: "or_end t \<Longrightarrow> and_end t" "and_end t \<Longrightarrow> stop t"
  by (auto simp: or_end_def and_end_def stop_def pred_ispunct_def pred_isspace_def)

lemma more_ands_end: "and_end t \<Longrightarrow> more_ands as t (group_args CAnd as) t"
proof -
  assume "and_end t"
  then have "ands_loop 1 as t = Some (Inr (group_args CAnd as, t))"
    using ands_step[of 0 as t] by (auto simp: and_end_def)
  then show ?thesis unfolding to_defs by blast
qed

lemma more_ors_end: "or_end t \<Longrightarrow> more_ors as t (group_args COr as) t"
proof -
  assume "or_end t"
  then have "ors_loop 1 as t = Some (Inr (group_args COr as, t))"
    using ors_step[of 0 as t] by (auto simp: or_end_def)
  then show ?thesis unfolding to_defs by blast
qed

section \<open>The text of a plain predicate\<close>

definition text_of :: "pred \<Rightarrow> string" where
  "text_of p = (case pred_String p of Ret s \<Rightarrow> s | Panic \<Rightarrow> [])"

definition arg_text :: "pcode \<Rightarrow> pred \<Rightarrow> string" where
  "arg_text p a = paren_if (op_prec (p_op a) < op_prec p) (text_of a)"

fun args_text :: "pcode \<Rightarrow> pred list \<Rightarrow> string" where
  "args_text p [] = []"
| "args_text p (a # as) = '' '' @ op_String p @ '' '' @ arg_text p a @ args_text p as"

text \<open>A text: it does not make the negation before it another operation.\<close>

definition good_text :: "string \<Rightarrow> bool" where
  "good_text s \<longleftrightarrow> s \<noteq> [] \<and> hd s \<noteq> CHR ''='' \<and> (\<forall>c \<in> set s. ascii c)"

lemma good_paren: "good_text s \<Longrightarrow> good_text (paren_if b s)"
  by (auto simp: good_text_def paren_if_def ascii_def)

lemma op_ascii: "\<forall>c \<in> set (op_String p). ascii c"
  by (cases p) (simp_all add: ascii_def)

lemma word_good: "plain_word w \<Longrightarrow> good_text w"
proof -
  assume w: "plain_word w"
  then have "hd w \<in> set w" "\<forall>c \<in> set w. word_char c" by (simp_all add: plain_word_def)
  moreover have "\<not> word_char (CHR ''='')" by (simp add: word_char_def pred_ispunct_def)
  ultimately have "hd w \<noteq> CHR ''=''" by metis
  then show ?thesis using w by (simp add: good_text_def plain_word_def word_char_def)
qed

lemma arg_prec_ok: "a \<noteq> PNil \<Longrightarrow> arg_prec a = Ret (op_prec (p_op a))"
  by (cases a) (auto simp: arg_prec_def)

lemma args_String:
  assumes "\<forall>a \<in> set as. a \<noteq> PNil \<and> pred_String a = Ret (text_of a)"
  shows "bin_String p True as = Ret (args_text p as)"
    and "as \<noteq> [] \<Longrightarrow> bin_String p False as = Ret (arg_text p (hd as) @ args_text p (tl as))"
proof -
  have l: "bin_String p True as = Ret (args_text p as)"
    if "\<forall>a \<in> set as. a \<noteq> PNil \<and> pred_String a = Ret (text_of a)" for as
    using that by (induction as) (simp_all add: arg_prec_ok arg_text_def)
  show "bin_String p True as = Ret (args_text p as)" using l assms by blast
  show "as \<noteq> [] \<Longrightarrow> bin_String p False as = Ret (arg_text p (hd as) @ args_text p (tl as))"
    using assms l[of "tl as"] by (cases as) (auto simp: arg_prec_ok arg_text_def)
qed

lemma args_ascii:
  "\<forall>a \<in> set as. good_text (text_of a) \<Longrightarrow> \<forall>c \<in> set (args_text p as). ascii c"
proof (induction as)
  case (Cons a as)
  have "good_text (arg_text p a)" using Cons.prems good_paren by (simp add: arg_text_def)
  then show ?case using Cons op_ascii[of p] by (auto simp: good_text_def ascii_def)
qed simp

lemma plain_text:
  "plain_pred p \<Longrightarrow> pred_String p = Ret (text_of p) \<and> good_text (text_of p)"
proof (induction p)
  case (Pred p nm v args)
  have ih: "\<forall>a \<in> set args. a \<noteq> PNil \<and> pred_String a = Ret (text_of a) \<and> good_text (text_of a)"
    if "\<forall>a \<in> set args. plain_pred a"
    using that Pred.IH by (metis plain_pred.simps(1))
  show ?case
  proof (cases "tok_class p")
    case ClOp
    then have "good_text nm" "good_text v" using Pred.prems word_good by (auto simp: plain_name_def)
    then show ?thesis using ClOp op_ascii[of p] by (auto simp: text_of_def good_text_def ascii_def)
  next
    case ClAtom
    then show ?thesis
      by (cases p) (simp_all add: text_of_def atom_String_def good_text_def ascii_def)
  next
    case ClUn
    then obtain a where a: "args = [a]" "\<forall>a \<in> set args. plain_pred a"
      using Pred.prems by (auto simp: length_Suc_conv)
    have p: "p = CNot" using ClUn by (cases p) auto
    obtain q where q: "a \<noteq> PNil" "pred_String a = Ret (text_of a)" "good_text (text_of a)"
      using ih[OF a(2)] a(1) by auto
    then show ?thesis
      using a(1) good_paren[OF q(3)] p
      by (auto simp: text_of_def[of "Pred _ _ _ _"] arg_prec_ok good_text_def ascii_def)
  next
    case ClBin
    then have a: "args \<noteq> []" "\<forall>a \<in> set args. plain_pred a" using Pred.prems by auto
    note i = ih[OF a(2)]
    have s: "pred_String (Pred p nm v args) = Ret (arg_text p (hd args) @ args_text p (tl args))"
      using args_String(2)[of args p] i a(1) ClBin by simp
    have "good_text (arg_text p (hd args))" using i a(1) good_paren by (simp add: arg_text_def)
    moreover have "\<forall>c \<in> set (args_text p (tl args)). ascii c"
      using args_ascii[of "tl args" p] i a(1) by (meson list.set_sel(2))
    ultimately show ?thesis using s by (auto simp: text_of_def[of "Pred _ _ _ _"] good_text_def)
  qed (use Pred.prems in auto)
qed simp

lemma text_not:
  "plain_pred (Pred CNot [] [] [a]) \<Longrightarrow> text_of (Pred CNot [] [] [a]) = ''!'' @ arg_text CNot a"
proof -
  assume "plain_pred (Pred CNot [] [] [a])"
  then have a: "a \<noteq> PNil" "pred_String a = Ret (text_of a)" using plain_text[of a] by auto
  have "pred_String (Pred CNot [] [] [a]) = Ret (''!'' @ arg_text CNot a)"
    by (simp add: arg_prec_ok a arg_text_def)
  then show ?thesis by (simp add: text_of_def[of "Pred _ _ _ _"] del: pred_String.simps)
qed

lemma text_bin:
  assumes "plain_pred (Pred p [] [] (a # as))" and "tok_class p = ClBin"
  shows "text_of (Pred p [] [] (a # as)) = arg_text p a @ args_text p as"
proof -
  have "\<forall>b \<in> set (a # as). b \<noteq> PNil \<and> pred_String b = Ret (text_of b)"
    using assms plain_text by auto
  then show ?thesis
    using args_String(2)[of "a # as" p] assms(2) by (simp add: text_of_def[of "Pred _ _ _ _"] del: bin_String.simps)
qed

section \<open>Parsing the text back\<close>

text \<open>What the parsers do with the text of a predicate, by its precedence.\<close>

definition reads :: "pred \<Rightarrow> bool" where
  "reads p \<longleftrightarrow>
     (\<forall>t. (3 \<le> op_prec (p_op p) \<longrightarrow> stop t \<longrightarrow> to_prim (rs (text_of p) @ t) p t) \<and>
          (p_op p = CAnd \<longrightarrow> and_end t \<longrightarrow> to_ands (rs (text_of p) @ t) p t) \<and>
          (p_op p = COr \<longrightarrow> or_end t \<longrightarrow> to_ors (rs (text_of p) @ t) p t))"

lemma prec_cases: "op_prec p < 3 \<longleftrightarrow> p = CAnd \<or> p = COr" "3 \<le> op_prec p \<longleftrightarrow> p \<noteq> CAnd \<and> p \<noteq> COr"
  by (auto simp: op_prec_def)

lemma reads_ands: "reads p \<Longrightarrow> p_op p \<noteq> COr \<Longrightarrow> and_end t \<Longrightarrow> to_ands (rs (text_of p) @ t) p t"
  using to_ands_intro[OF _ more_ands_end, of "rs (text_of p) @ t" p t] ends_stop(2)
  by (cases "p_op p = CAnd") (auto simp: reads_def prec_cases group_args_def)

lemma reads_ors: "reads p \<Longrightarrow> or_end t \<Longrightarrow> to_ors (rs (text_of p) @ t) p t"
  using to_ors_intro[OF _ more_ors_end, of "rs (text_of p) @ t" p t] ends_stop(1) reads_ands
  by (cases "p_op p = COr") (auto simp: reads_def group_args_def)

lemma reads_paren: "reads p \<Longrightarrow> to_prim (rs (''('' @ text_of p @ '')'') @ t) p t"
  using to_prim_paren[OF reads_ors[of p "41 # t"]] by (simp add: or_end_def)

text \<open>An argument, with its parentheses, is a primary, or a conjunction in a disjunction.\<close>

lemma arg_prim:
  assumes "reads a" and "p = CAnd \<and> p_op a \<noteq> CAnd \<or> p = CNot" and "stop t"
  shows "to_prim (rs (arg_text p a) @ t) a t"
proof (cases "op_prec (p_op a) < 3")
  case True
  then have "op_prec (p_op a) < op_prec p" using assms(2) by (auto simp: op_prec_def split: if_splits)
  then show ?thesis using reads_paren[OF assms(1)] by (simp add: arg_text_def paren_if_def)
next
  case False
  then have "\<not> op_prec (p_op a) < op_prec p" using assms(2) by (auto simp: op_prec_def split: if_splits)
  then show ?thesis using assms(1,3) False by (simp add: arg_text_def paren_if_def reads_def)
qed

lemma arg_ands:
  assumes "reads a" and "p_op a \<noteq> COr" and "and_end t"
  shows "to_ands (rs (arg_text COr a) @ t) a t"
  using reads_ands[OF assms] assms(2) by (simp add: arg_text_def paren_if_def op_prec_def)

lemma args_stop: "stop t \<Longrightarrow> stop (rs (args_text p as) @ t)"
  by (cases as) (auto simp: stop_def pred_isspace_def)

lemma args_and_end: "or_end t \<Longrightarrow> and_end (rs (args_text COr as) @ t)"
  using ends_stop(1) by (cases as) (auto simp: and_end_def)

lemma more_args_and:
  "\<lbrakk>\<forall>a \<in> set as. reads a \<and> p_op a \<noteq> CAnd; and_end t\<rbrakk> \<Longrightarrow>
     more_ands bs (rs (args_text CAnd as) @ t) (group_args CAnd (bs @ as)) t"
proof (induction as arbitrary: bs)
  case Nil
  then show ?case using more_ands_end by simp
next
  case (Cons a as)
  let ?t = "rs (args_text CAnd as) @ t"
  have "to_prim (32 # rs (arg_text CAnd a) @ ?t) a ?t"
    using arg_prim[of a CAnd ?t] Cons.prems args_stop ends_stop(2) to_prim_space by simp
  moreover have "more_ands (bs @ [a]) ?t (group_args CAnd ((bs @ [a]) @ as)) t"
    using Cons.IH[of "bs @ [a]"] Cons.prems by simp
  moreover have "lex_next (rs (args_text CAnd (a # as)) @ t) =
      ((CAnd, ''&'', None), 32 # rs (arg_text CAnd a) @ ?t)" by simp
  ultimately show ?case using more_ands_intro by fastforce
qed

lemma more_args_or:
  "\<lbrakk>\<forall>a \<in> set as. reads a \<and> p_op a \<noteq> COr; or_end t\<rbrakk> \<Longrightarrow>
     more_ors bs (rs (args_text COr as) @ t) (group_args COr (bs @ as)) t"
proof (induction as arbitrary: bs)
  case Nil
  then show ?case using more_ors_end by simp
next
  case (Cons a as)
  let ?t = "rs (args_text COr as) @ t"
  have "to_ands (32 # rs (arg_text COr a) @ ?t) a ?t"
    using arg_ands[of a ?t] Cons.prems args_and_end to_ands_space by simp
  moreover have "more_ors (bs @ [a]) ?t (group_args COr ((bs @ [a]) @ as)) t"
    using Cons.IH[of "bs @ [a]"] Cons.prems by simp
  moreover have "lex_next (rs (args_text COr (a # as)) @ t) =
      ((COr, ''|'', None), 32 # rs (arg_text COr a) @ ?t)" by simp
  ultimately show ?case using more_ors_intro by fastforce
qed

lemma to_prim_atom:
  assumes "tok_class p = ClAtom" and "stop t"
  shows "to_prim (rs (atom_String p) @ t) (Pred p [] [] []) t"
proof -
  have w: "\<forall>c \<in> set (atom_String p). word_char c" "atom_String p \<noteq> []"
    using assms(1) by (cases p; simp add: atom_String_def word_char_def pred_ispunct_def pred_isspace_def ascii_def)+
  have "parse_prim (Suc 0) (rs (atom_String p) @ t) = Some (Inr (Pred p [] [] [], t))"
    using assms(1) lex_words[OF w(2,1) assms(2)]
    by (cases p) (simp_all add: prim_step atom_String_def)
  then show ?thesis unfolding to_defs by blast
qed

lemma to_prim_named:
  assumes "tok_class p = ClOp" and n: "plain_name nm" and v: "plain_word v" and "stop t"
  shows "to_prim (rs (nm @ '' '' @ op_String p @ '' '' @ v) @ t) (Pred p nm v []) t"
proof -
  let ?t1 = "32 # rs (op_String p) @ 32 # rs v @ t"
  have "stop ?t1" by (simp add: stop_def pred_isspace_def)
  then have l: "lex_next (rs nm @ ?t1) = ((CName, nm, None), ?t1)"
    using lex_words[of nm ?t1] n by (auto simp: plain_name_def plain_word_def)
  obtain w where o: "lex_next (rs (op_String p) @ 32 # rs v @ t) = ((p, w, None), 32 # rs v @ t)"
    using lex_op[OF assms(1)] by blast
  have "lex_next (rs v @ t) = ((CName, v, None), t)"
    using lex_words[of v t] v assms(4) by (auto simp: plain_word_def)
  then have "parse_named nm ?t1 = Some (Inr (Pred p nm v [], t))"
    using n o assms(1) by (auto simp: parse_named_def plain_name_def)
  then have "parse_prim (Suc 0) (rs nm @ ?t1) = Some (Inr (Pred p nm v [], t))"
    by (simp add: prim_step[OF l])
  then show ?thesis unfolding to_defs by auto
qed

lemma plain_reads: "plain_pred p \<Longrightarrow> reads p"
proof (induction p)
  case (Pred p nm v args)
  show ?case
  proof (cases "tok_class p")
    case ClOp
    then show ?thesis
      using Pred.prems to_prim_named[OF ClOp] by (auto simp: reads_def text_of_def)
  next
    case ClAtom
    then show ?thesis
      using Pred.prems to_prim_atom[OF ClAtom] by (auto simp: reads_def text_of_def)
  next
    case ClUn
    then have p: "p = CNot" by (cases p) auto
    then obtain a where a: "args = [a]" "plain_pred a" "nm = []" "v = []"
      using Pred.prems by (auto simp: length_Suc_conv)
    have r: "reads a" using Pred.IH a by simp
    have g: "good_text (arg_text CNot a)" using plain_text[OF a(2)] good_paren by (simp add: arg_text_def)
    have "to_prim (33 # rs (arg_text CNot a) @ t) (Pred CNot [] [] [a]) t" if "stop t" for t
    proof (rule to_prim_not)
      show "to_prim (rs (arg_text CNot a) @ t) a t" using arg_prim[OF r _ that] by simp
      show "rs (arg_text CNot a) @ t \<noteq> []" using g by (simp add: good_text_def)
      have "hd (arg_text CNot a) \<noteq> CHR ''=''" using g by (simp add: good_text_def)
      then have "of_char (hd (arg_text CNot a)) \<noteq> (of_char (CHR ''='') :: rune)" unfolding of_char_eq_iff .
      then show "hd (rs (arg_text CNot a) @ t) \<noteq> 61" using g by (simp add: good_text_def hd_map)
    qed
    then show ?thesis using Pred.prems text_not[of a] unfolding reads_def p a by simp
  next
    case ClBin
    then obtain a as where a: "args = a # as" "nm = []" "v = []" "as \<noteq> []"
        "\<forall>b \<in> set (a # as). plain_pred b \<and> p_op b \<noteq> p"
      using Pred.prems by (cases args) (auto simp: Suc_le_eq)
    have r: "\<forall>b \<in> set (a # as). reads b \<and> p_op b \<noteq> p" using Pred.IH a by auto
    have t: "text_of (Pred p [] [] (a # as)) = arg_text p a @ args_text p as"
      using Pred.prems ClBin unfolding a by (intro text_bin)
    have g: "group_args p (a # as) = Pred p [] [] (a # as)" using a(4) by (simp add: group_args_def)
    have "p = CAnd \<or> p = COr" using ClBin by (cases p) auto
    then show ?thesis
    proof
      assume p: "p = CAnd"
      have "to_ands (rs (arg_text CAnd a @ args_text CAnd as) @ t) (group_args CAnd (a # as)) t"
        if e: "and_end t" for t
        using to_ands_intro[OF arg_prim more_args_and[of as t "[a]"]] r p e args_stop ends_stop(2) by simp
      then show ?thesis using t g unfolding reads_def a p by (simp add: op_prec_def)
    next
      assume p: "p = COr"
      have "to_ors (rs (arg_text COr a @ args_text COr as) @ t) (group_args COr (a # as)) t"
        if e: "or_end t" for t
        using to_ors_intro[OF arg_ands more_args_or[of as t "[a]"]] r p e args_and_end by simp
      then show ?thesis using t g unfolding reads_def a p by (simp add: op_prec_def)
    qed
  qed (use Pred.prems in auto)
qed simp

section \<open>Nested conjunctions and disjunctions\<close>

text \<open>
  The predicates whose names and values are words, with conjunctions and disjunctions of two arguments or more
  nested in any way, and no nil pointer.
\<close>

fun words_pred :: "pred \<Rightarrow> bool" where
  "words_pred PNil \<longleftrightarrow> False"
| "words_pred (Pred p nm v args) \<longleftrightarrow>
     (case tok_class p of
        ClOp \<Rightarrow> args = [] \<and> plain_name nm \<and> plain_word v
      | ClAtom \<Rightarrow> nm = [] \<and> v = [] \<and> args = []
      | ClUn \<Rightarrow> nm = [] \<and> v = [] \<and> length args = 1 \<and> (\<forall>a \<in> set args. words_pred a)
      | ClBin \<Rightarrow> nm = [] \<and> v = [] \<and> 2 \<le> length args \<and> (\<forall>a \<in> set args. words_pred a)
      | _ \<Rightarrow> False)"

text \<open>The arguments of a conjunction within a conjunction are arguments of the outer one; so with disjunctions.\<close>

fun splice_arg :: "pcode \<Rightarrow> pred \<Rightarrow> pred list" where
  "splice_arg p PNil = [PNil]"
| "splice_arg p (Pred q nm v args) = (if q = p then args else [Pred q nm v args])"

fun flat_pred :: "pred \<Rightarrow> pred" where
  "flat_pred PNil = PNil"
| "flat_pred (Pred p nm v args) =
     Pred p nm v (if tok_class p = ClBin then concat (map (\<lambda>a. splice_arg p (flat_pred a)) args) else map flat_pred args)"

lemma flat_op: "a \<noteq> PNil \<Longrightarrow> p_op (flat_pred a) = p_op a \<and> p_name (flat_pred a) = p_name a"
  by (cases a) simp_all

lemma flat_nil [simp]: "flat_pred a = PNil \<longleftrightarrow> a = PNil"
  by (cases a) simp_all

lemma plain_flat: "plain_pred p \<Longrightarrow> flat_pred p = p"
proof (induction p)
  case (Pred p nm v args)
  have i: "flat_pred a = a" if "a \<in> set args" "tok_class p = ClBin \<or> tok_class p = ClUn" for a
    using Pred that by (cases "tok_class p") auto
  have "concat (map (\<lambda>a. splice_arg p (flat_pred a)) args) = args" if b: "tok_class p = ClBin"
  proof -
    have "splice_arg p (flat_pred a) = [a]" if "a \<in> set args" for a
      using i[OF that] b Pred.prems that by (cases a) auto
    then have "map (\<lambda>a. splice_arg p (flat_pred a)) args = map (\<lambda>a. [a]) args" by simp
    moreover have "concat (map (\<lambda>a. [a]) args) = args" by (induction args) simp_all
    ultimately show ?thesis by (simp only:)
  qed
  moreover have "map flat_pred args = args" if "tok_class p \<noteq> ClBin"
    using i that Pred.prems by (cases "tok_class p") (auto intro: map_idI)
  ultimately show ?case by simp
qed simp

lemma args_text_append: "args_text p (as @ bs) = args_text p as @ args_text p bs"
  by (induction as) simp_all

lemma splice_text:
  assumes "plain_pred f" and "tok_class p = ClBin"
  shows "args_text p (splice_arg p f) = '' '' @ op_String p @ '' '' @ arg_text p f"
    and "\<forall>b\<in>set (splice_arg p f). plain_pred b \<and> p_op b \<noteq> p" and "splice_arg p f \<noteq> []"
proof -
  obtain q nm v args where f: "f = Pred q nm v args" using assms(1) by (cases f) auto
  have "args_text p args = '' '' @ op_String p @ '' '' @ arg_text p f" if "q = p"
  proof -
    have nv: "nm = []" "v = []" "2 \<le> length args" using assms that f by simp_all
    then obtain b bs where b: "args = b # bs" "nm = []" "v = []" by (cases args) auto
    then have "text_of f = arg_text p b @ args_text p bs" using text_bin[of p b bs] assms that f by simp
    then show ?thesis using f that by (simp add: b arg_text_def paren_if_def)
  qed
  then show "args_text p (splice_arg p f) = '' '' @ op_String p @ '' '' @ arg_text p f" by (simp add: f)
  show "\<forall>b\<in>set (splice_arg p f). plain_pred b \<and> p_op b \<noteq> p" "splice_arg p f \<noteq> []"
    using assms by (auto simp: f)
qed

lemma flat_args_text:
  assumes "tok_class p = ClBin" and "\<forall>a\<in>set args. a \<noteq> PNil \<and> plain_pred (flat_pred a) \<and> text_of (flat_pred a) = text_of a"
  shows "args_text p (concat (map (\<lambda>a. splice_arg p (flat_pred a)) args)) = args_text p args"
  using assms(2)
proof (induction args)
  case (Cons a args)
  have "arg_text p (flat_pred a) = arg_text p a" using Cons.prems flat_op[of a] by (simp add: arg_text_def)
  then show ?case using Cons splice_text(1)[of "flat_pred a" p] assms(1) by (simp add: args_text_append)
qed simp

lemma bin_text:
  assumes "tok_class p = ClBin" and "args \<noteq> []" and "\<forall>a\<in>set args. a \<noteq> PNil \<and> pred_String a = Ret (text_of a)"
  shows "pred_String (Pred p nm v args) = Ret (drop (length (op_String p) + 2) (args_text p args))"
  using args_String(2)[OF assms(3,2), of p] assms(1,2) by (cases args) simp_all

lemma word_flat: "words_pred x \<Longrightarrow> plain_pred (flat_pred x) \<and> pred_String x = pred_String (flat_pred x)"
proof (induction x)
  case (Pred p nm v args)
  have i: "plain_pred (flat_pred a)" "pred_String a = pred_String (flat_pred a)" "a \<noteq> PNil"
    if "a \<in> set args" "tok_class p = ClBin \<or> tok_class p = ClUn" for a
  proof -
    have w: "words_pred a" using Pred.prems that by (cases "tok_class p") auto
    then show "plain_pred (flat_pred a)" "pred_String a = pred_String (flat_pred a)" using Pred.IH that(1) by blast+
    show "a \<noteq> PNil" using w by auto
  qed
  show ?case
  proof (cases "tok_class p")
    case ClUn
    then obtain a where a: "args = [a]" using Pred.prems by (auto simp: length_Suc_conv)
    have "arg_prec (flat_pred a) = arg_prec a" using i(3)[of a] flat_op[of a] ClUn a by (simp add: arg_prec_ok)
    then show ?thesis using ClUn Pred.prems i[of a] a by simp
  next
    case ClBin
    let ?fs = "concat (map (\<lambda>a. splice_arg p (flat_pred a)) args)"
    have ne: "args \<noteq> []" and l: "2 \<le> length args" and nv: "nm = []" "v = []" using Pred.prems ClBin by auto
    have each: "plain_pred (flat_pred a) \<and> text_of (flat_pred a) = text_of a \<and> a \<noteq> PNil \<and> pred_String a = Ret (text_of a)"
      if "a \<in> set args" for a
    proof -
      note j = i[OF that disjI1[OF ClBin]]
      have "pred_String (flat_pred a) = Ret (text_of (flat_pred a))" using plain_text[OF j(1)] by blast
      then show ?thesis using j unfolding text_of_def by simp
    qed
    then have t: "\<forall>a\<in>set args. a \<noteq> PNil \<and> plain_pred (flat_pred a) \<and> text_of (flat_pred a) = text_of a"
      and s: "\<forall>a\<in>set args. a \<noteq> PNil \<and> pred_String a = Ret (text_of a)" by blast+
    have f: "\<forall>b\<in>set ?fs. plain_pred b \<and> p_op b \<noteq> p" using splice_text(2)[OF _ ClBin] t unfolding set_concat set_map by blast
    have "length args \<le> length ?fs"
      using t
    proof (induction args)
      case (Cons a as)
      have "Suc 0 \<le> length (splice_arg p (flat_pred a))"
        using splice_text(3)[OF _ ClBin, of "flat_pred a"] Cons.prems by (simp add: Suc_le_eq)
      then show ?case using Cons by simp
    qed simp
    then have pl: "plain_pred (flat_pred (Pred p nm v args))" using f l nv ClBin by simp
    have "?fs \<noteq> []" using \<open>length args \<le> length ?fs\<close> l by (metis list.size(3) le_zero_eq zero_neq_numeral)
    moreover have "\<forall>b\<in>set ?fs. b \<noteq> PNil \<and> pred_String b = Ret (text_of b)"
      using f plain_text by (metis plain_pred.simps(1))
    ultimately have "pred_String (flat_pred (Pred p nm v args)) = pred_String (Pred p nm v args)"
      using bin_text[OF ClBin ne s] bin_text[OF ClBin, of ?fs] flat_args_text[OF ClBin t] ClBin
      by (simp del: pred_String.simps)
    then show ?thesis using pl by metis
  qed (use Pred.prems in auto)
qed simp

text \<open>A predicate evaluates as it does flattened.\<close>

lemma and_loop_append:
  "and_loop tab (as @ bs) e lvl = ev_bind (and_loop tab as e lvl) (\<lambda>v pruned err.
     if err \<noteq> None \<or> \<not> v \<or> pruned then Some (Ret (v, pruned, err)) else and_loop tab bs e lvl)"
proof (induction as)
  case (Cons a as)
  then show ?case by (cases "EvalAt tab a e lvl"; simp; rename_tac y; case_tac y) auto
qed simp

lemma or_loop_append:
  "or_loop tab (as @ bs) e lvl = ev_bind (or_loop tab as e lvl) (\<lambda>v pruned err.
     if err \<noteq> None \<or> v \<or> pruned then Some (Ret (v, pruned, err)) else or_loop tab bs e lvl)"
proof (induction as)
  case (Cons a as)
  then show ?case by (cases "EvalAt tab a e lvl"; simp; rename_tac y; case_tac y) auto
qed simp

lemma loop_one: "and_loop tab [a] e lvl = EvalAt tab a e lvl" "or_loop tab [a] e lvl = EvalAt tab a e lvl"
  by (cases "EvalAt tab a e lvl"; simp; rename_tac y; case_tac y; auto)+

lemma splice_loop:
  "and_loop tab (splice_arg CAnd a) e lvl = EvalAt tab a e lvl" "or_loop tab (splice_arg COr a) e lvl = EvalAt tab a e lvl"
  by (cases a; simp add: loop_one del: and_loop.simps(2) or_loop.simps(2))+

lemma flat_loops:
  assumes "\<forall>a\<in>set as. EvalAt tab (flat_pred a) e lvl = EvalAt tab a e lvl"
  shows "and_loop tab (concat (map (\<lambda>a. splice_arg CAnd (flat_pred a)) as)) e lvl = and_loop tab as e lvl"
    and "or_loop tab (concat (map (\<lambda>a. splice_arg COr (flat_pred a)) as)) e lvl = or_loop tab as e lvl"
  using assms by (induction as) (simp_all add: and_loop_append or_loop_append splice_loop cong: if_cong)

lemma EvalAt_flat: "EvalAt tab (flat_pred x) e lvl = EvalAt tab x e lvl"
proof (induction x)
  case (Pred p nm v args)
  then have i: "\<forall>a\<in>set args. EvalAt tab (flat_pred a) e lvl = EvalAt tab a e lvl" by blast
  have "not_prune (flat_pred a) m pr = not_prune a m pr" for a m pr
    by (cases a) (simp_all add: not_prune_def)
  then have n: "EvalAt tab (Pred CNot nm v (map flat_pred args)) e lvl = EvalAt tab (Pred CNot nm v args) e lvl"
    using i by (cases args) simp_all
  consider "p = CNot" | "p = CAnd" | "p = COr" | "p \<noteq> CNot" "p \<noteq> CAnd" "p \<noteq> COr" by blast
  then show ?case
  proof cases
    case 1
    show ?thesis using n unfolding 1 flat_pred.simps tok_class.simps by simp
  next
    case 2
    show ?thesis using flat_loops(1)[OF i] unfolding 2 flat_pred.simps EvalAt.simps by simp
  next
    case 3
    show ?thesis using flat_loops(2)[OF i] unfolding 3 flat_pred.simps EvalAt.simps by simp
  next
    case 4
    then show ?thesis unfolding flat_pred.simps EvalAt.simps by simp
  qed
qed simp

lemma plain_New:
  assumes "plain_pred p"
  shows "pred_String p = Ret (text_of p) \<and> pred_New (text_of p) = Some (Inr p)"
proof -
  have g: "pred_String p = Ret (text_of p)" "good_text (text_of p)" using plain_text[OF assms] by auto
  then have r: "go_runes (text_of p) = rs (text_of p)" by (simp add: go_runes_ascii good_text_def)
  let ?f = "parse_fuel (rs (text_of p))"
  obtain k where k: "parse_ors k (rs (text_of p)) = Some (Inr (p, []))"
    using reads_ors[OF plain_reads[OF assms], of "[]"] by (auto simp: or_end_def to_defs)
  obtain y where y: "parse_ors ?f (rs (text_of p)) = Some y"
    using parse_fuel_enough by blast
  have "y = Inr (p, [])" using mono_max(1)[OF k, of ?f] mono_max(2)[OF y, of k] by simp
  then show ?thesis
    using y g r by (simp add: pred_New_def pred_parse_def lex_peek_def good_text_def)
qed

lemma word_New:
  assumes "words_pred p"
  shows "\<exists>s. pred_String p = Ret s \<and> pred_String (flat_pred p) = Ret s \<and> pred_New s = Some (Inr (flat_pred p))"
  using word_flat[OF assms] plain_New[of "flat_pred p"] by auto

text \<open>
  C17: What \<open>String\<close> prints \<open>New\<close> parses back, for every predicate with no nil pointer, whose conjunctions and
  disjunctions have two arguments or more and whose values are words: ASCII, not empty, with no punctuation of
  predicates, blank or double quote, and other than \<open>t\<close>, \<open>f\<close>, \<open>true\<close>, \<open>false\<close> and \<open>prune\<close>; attribute names are words too,
  other than \<open>d\<close>, \<open>c\<close>, \<open>-\<close> and numbers, which stand for tests.  What comes back has the conjunctions within
  conjunctions and the disjunctions within disjunctions made one: it is the predicate printed when there are none, prints
  the same in any case, and evaluates the same on every entry.
\<close>

theorem pred_String_roundtrip:
  assumes "words_pred p"
  shows "\<exists>s. pred_String p = Ret s \<and> pred_New s = Some (Inr (flat_pred p)) \<and> pred_String (flat_pred p) = Ret s \<and>
    (plain_pred p \<longrightarrow> flat_pred p = p) \<and> (\<forall>tab e lvl. EvalAt tab (flat_pred p) e lvl = EvalAt tab p e lvl)"
  using word_New[OF assms] plain_flat EvalAt_flat by auto

definition demo_pred :: pred where
  "demo_pred = Pred CAnd [] [] [Pred COr [] [] [Pred CEqs ''type'' ''d'' [], Pred CMatch ''name'' ''*.go'' []],
     Pred CAnd [] [] [Pred CNot [] [] [Pred CLe ''depth'' ''3'' []], Pred CTrue [] [] []]]"

lemma pred_String_roundtrip_witness:
  "pred_String demo_pred = Ret ''(type = d | name ~ *.go) & !depth <= 3 & true'' \<and>
   pred_New ''(type = d | name ~ *.go) & !depth <= 3 & true'' = Some (Inr (flat_pred demo_pred))"
proof -
  have n: "plain_name ''type''" "plain_name ''name''" "plain_name ''depth''"
    "plain_word ''d''" "plain_word ''*.go''" "plain_word ''3''"
    by (simp_all add: plain_name_def plain_word_def word_char_def ascii_def pred_ispunct_def pred_isspace_def
        go_atoi_def go_parse_int_def go_parse_uint_def digit_val_def)
  have "words_pred demo_pred" by (simp add: demo_pred_def n)
  moreover have "pred_String demo_pred = Ret ''(type = d | name ~ *.go) & !depth <= 3 & true''" by code_simp
  ultimately show ?thesis using pred_String_roundtrip[of demo_pred] by auto
qed

section \<open>What does not come back\<close>

text \<open>The words that are tokens are read within quotes as names, but printed without them.\<close>

lemma pred_String_tokens:
  "pred_New (''name='' @ [CHR 0x22] @ w @ [CHR 0x22]) = Some (Inr (Pred CEqs ''name'' w [])) \<and>
   pred_String (Pred CEqs ''name'' w []) = Ret (''name = '' @ w) \<and>
   pred_New (''name = '' @ w) = Some (Inl ''name expected'')"
  if "w \<in> {''t'', ''f'', ''true'', ''false'', ''prune''}"
  using that by (elim insertE emptyE; hypsubst; code_simp)

text \<open>A conjunction within a conjunction comes back as one.\<close>

lemma pred_String_flattens:
  "\<exists>x s y. pred_New ''(x=b&y=g)&z=h'' = Some (Inr x) \<and> pred_String x = Ret s \<and> pred_New s = Some (Inr y) \<and> y \<noteq> x"
proof -
  let ?x = "Pred CAnd [] [] [Pred CAnd [] [] [Pred CEqs ''x'' ''b'' [], Pred CEqs ''y'' ''g'' []], Pred CEqs ''z'' ''h'' []]"
  let ?y = "Pred CAnd [] [] [Pred CEqs ''x'' ''b'' [], Pred CEqs ''y'' ''g'' [], Pred CEqs ''z'' ''h'' []]"
  have "pred_New ''(x=b&y=g)&z=h'' = Some (Inr ?x)" "pred_String ?x = Ret ''x = b & y = g & z = h''"
    "pred_New ''x = b & y = g & z = h'' = Some (Inr ?y)" "?y \<noteq> ?x" by code_simp+
  then show ?thesis by blast
qed

end
