(* ===== verification/ZxPredProps.thy ===== *)
theory ZxPredProps
  imports ZxPredEval ZxPredParse SreProps ZxProps
begin

text \<open>
  What the evaluation of predicates does: a parsed predicate evaluates without a run-time
  error, the walk of a tree sends what an abstract walk lists, a prune indication is sound for
  a test of the depth or of the path, and where the code is wrong.
\<close>

declare split_paired_Ex [simp del]

section \<open>Parsed predicates are well formed\<close>

fun wf_pred :: "pred \<Rightarrow> bool" where
  "wf_pred PNil \<longleftrightarrow> False"
| "wf_pred (Pred p nm v args) \<longleftrightarrow>
     (case tok_class p of
        ClOp \<Rightarrow> args = []
      | ClAtom \<Rightarrow> args = []
      | ClUn \<Rightarrow> length args = 1 \<and> (\<forall>a \<in> set args. wf_pred a)
      | ClBin \<Rightarrow> 2 \<le> length args \<and> (\<forall>a \<in> set args. wf_pred a)
      | _ \<Rightarrow> False)"

lemma wf_group:
  assumes "\<forall>a \<in> set args. wf_pred a" and "args \<noteq> []" and "tok_class p = ClBin"
  shows "wf_pred (group_args p args)"
proof (cases "length args = 1")
  case True
  then show ?thesis using assms by (simp add: group_args_def)
next
  case False
  then have "2 \<le> length args" using assms(2) by (cases args) (auto simp: Suc_le_eq)
  then show ?thesis using False assms by (simp add: group_args_def)
qed

lemma unary_wf: "parse_unary p t = Some (Inr (a, t')) \<Longrightarrow> tok_class p = ClOp \<Longrightarrow> wf_pred a"
  by (auto simp: parse_unary_def case_prod_beta split: option.splits)

lemma named_wf: "parse_named v t = Some (Inr (a, t')) \<Longrightarrow> wf_pred a"
  by (auto simp: parse_named_def Let_def case_prod_beta split: if_splits option.splits)

lemma parse_wf:
  "(\<forall>t a t'. parse_ors k t = Some (Inr (a, t')) \<longrightarrow> wf_pred a) \<and>
   (\<forall>t args a t'. ors_loop k args t = Some (Inr (a, t')) \<longrightarrow> args \<noteq> [] \<longrightarrow>
      (\<forall>b \<in> set args. wf_pred b) \<longrightarrow> wf_pred a) \<and>
   (\<forall>t a t'. parse_ands k t = Some (Inr (a, t')) \<longrightarrow> wf_pred a) \<and>
   (\<forall>t args a t'. ands_loop k args t = Some (Inr (a, t')) \<longrightarrow> args \<noteq> [] \<longrightarrow>
      (\<forall>b \<in> set args. wf_pred b) \<longrightarrow> wf_pred a) \<and>
   (\<forall>t a t'. parse_prim k t = Some (Inr (a, t')) \<longrightarrow> wf_pred a)"
proof (induction k)
  case (Suc k)
  note ors = conjunct1[OF Suc] and orl = conjunct1[OF conjunct2[OF Suc]]
    and ands = conjunct1[OF conjunct2[OF conjunct2[OF Suc]]]
    and anl = conjunct1[OF conjunct2[OF conjunct2[OF conjunct2[OF Suc]]]]
    and prim = conjunct2[OF conjunct2[OF conjunct2[OF conjunct2[OF Suc]]]]
  have 1: "wf_pred a" if "parse_ors (Suc k) t = Some (Inr (a, t'))" for t a t'
  proof -
    from that obtain b t1 where "parse_ands k t = Some (Inr (b, t1))" "ors_loop k [b] t1 = Some (Inr (a, t'))"
      by (auto simp: parse_ors.simps pbind_Inr)
    then show ?thesis using ands orl by fastforce
  qed
  have 3: "wf_pred a" if "parse_ands (Suc k) t = Some (Inr (a, t'))" for t a t'
  proof -
    from that obtain b t1 where "parse_prim k t = Some (Inr (b, t1))" "ands_loop k [b] t1 = Some (Inr (a, t'))"
      by (auto simp: parse_ands.simps pbind_Inr)
    then show ?thesis using prim anl by fastforce
  qed
  have 2: "wf_pred a" if l: "ors_loop (Suc k) args t = Some (Inr (a, t'))" and n: "args \<noteq> []"
      and w: "\<forall>b \<in> set args. wf_pred b" for t args a t'
  proof (cases "fst (fst (lex_next t)) = COr \<and> snd (snd (fst (lex_next t))) = None")
    case True
    then obtain b t1 where "parse_ands k (snd (lex_next t)) = Some (Inr (b, t1))"
        "ors_loop k (args @ [b]) t1 = Some (Inr (a, t'))"
      using l by (auto simp: ors_step case_prod_beta pbind_Inr)
    moreover from this(1) have "wf_pred b" using ands by blast
    ultimately show ?thesis using orl w by fastforce
  next
    case False
    then show ?thesis using l wf_group[OF w n, of COr] by (auto simp: ors_step case_prod_beta split: if_splits)
  qed
  have 4: "wf_pred a" if l: "ands_loop (Suc k) args t = Some (Inr (a, t'))" and n: "args \<noteq> []"
      and w: "\<forall>b \<in> set args. wf_pred b" for t args a t'
  proof (cases "fst (fst (lex_next t)) = CAnd \<and> snd (snd (fst (lex_next t))) = None")
    case True
    then obtain b t1 where "parse_prim k (snd (lex_next t)) = Some (Inr (b, t1))"
        "ands_loop k (args @ [b]) t1 = Some (Inr (a, t'))"
      using l by (auto simp: ands_step case_prod_beta pbind_Inr)
    moreover from this(1) have "wf_pred b" using prim by blast
    ultimately show ?thesis using anl w by fastforce
  next
    case False
    then show ?thesis using l wf_group[OF w n, of CAnd] by (auto simp: ands_step case_prod_beta split: if_splits)
  qed
  have 5: "wf_pred a" if r: "parse_prim (Suc k) t = Some (Inr (a, t'))" for t a t'
  proof -
    obtain p v err t1 where l: "lex_next t = ((p, v, err), t1)" by (cases "lex_next t") auto
    have c: "wf_pred b" if "pbind (parse_ors k x) close_paren = Some (Inr (b, y))" for b x y
      using that ors by (auto simp: pbind_Inr close_paren_def case_prod_beta split: if_splits)
    have n: "wf_pred b" if "pbind (parse_prim k x) (\<lambda>a t. Some (Inr (Pred CNot [] [] [a], t))) = Some (Inr (b, y))" for b x y
      using that prim by (auto simp: pbind_Inr) blast
    have e: "err = None" using r unfolding prim_step[OF l] by (auto split: if_splits)
    consider "a = Pred p [] [] []" "tok_class p = ClAtom" | "parse_unary p t1 = Some (Inr (a, t'))" "tok_class p = ClOp"
      | "parse_named v t1 = Some (Inr (a, t'))"
      | "pbind (parse_prim k t1) (\<lambda>a t. Some (Inr (Pred CNot [] [] [a], t))) = Some (Inr (a, t'))"
      | "pbind (parse_ors k t1) close_paren = Some (Inr (a, t'))"
      using r e unfolding prim_step[OF l] by (cases p) simp_all
    then show ?thesis
      by cases (simp, fact unary_wf, fact named_wf, fact n, fact c)
  qed
  show ?case using 1 2 3 4 5 by blast
qed simp

lemma pred_New_wf: "pred_New s = Some (Inr p) \<Longrightarrow> p = PNil \<or> wf_pred p"
  using parse_wf[of "parse_fuel (go_runes s)"]
  by (auto simp: pred_New_def pred_parse_def split: if_splits option.splits sum.splits) blast

section \<open>Evaluation does not go wrong\<close>

text \<open>The regexps of a predicate that hold the largest rune, which the matcher of classes takes
  for a range.\<close>

fun regexps_ok :: "pred \<Rightarrow> bool" where
  "regexps_ok PNil \<longleftrightarrow> True"
| "regexps_ok (Pred p nm v args) \<longleftrightarrow>
     (p = CRexp \<longrightarrow> cRange \<notin> set (go_runes v)) \<and> (\<forall>a \<in> set args. regexps_ok a)"

lemma rexp_returns:
  assumes "cRange \<notin> set (go_runes v)"
  shows "\<exists>r. eval_rexp tab v n = Some (Ret r)"
proof -
  obtain y where y: "sre_CompileStr v Fwd = Some y" "comp_rel (compiled Fwd) y (sre_parse False (go_runes v))"
    using Compile_refines[OF go_runes_ok, of v Fwd] by (auto simp: sre_CompileStr_def)
  show ?thesis
  proof (cases y)
    case (COk prg)
    then obtain r where "sre_parse False (go_runes v) = COk r" using y(2) by (cases "sre_parse False (go_runes v)") auto
    then have "sre_denotes v prg r" using y(1) COk assms by (simp add: sre_denotes_def)
    then have "\<exists>sel. sre_ExecRunes tab prg (go_runes n) 0 (len n) = Some (Ret sel)"
      using ExecRunes_search[OF _ _ refl] by blast
    then show ?thesis using y(1) COk by (auto simp: eval_rexp_def sre_ExecStr_def)
  next
    case (CErr e)
    then show ?thesis using y(1) by (simp add: eval_rexp_def)
  next
    case CCrash
    then show ?thesis using y(2) by simp
  qed
qed

lemma attr_returns:
  "p = CRexp \<longrightarrow> cRange \<notin> set (go_runes v) \<Longrightarrow> \<exists>r. eval_attr tab p nm v e lvl = Some (Ret r)"
  using rexp_returns[of v tab] unfolding eval_attr_def
  by (cases "map_of e nm") (simp_all del: split_paired_Ex)

lemma EvalAt_returns:
  "wf_pred p \<Longrightarrow> regexps_ok p \<Longrightarrow> \<exists>r. EvalAt tab p e lvl = Some (Ret r)"
proof (induction p)
  case (Pred p nm v args)
  have ih: "\<exists>r. EvalAt tab a e lvl = Some (Ret r)" if "a \<in> set args" "wf_pred a" for a
    using Pred that by auto
  have ands: "\<exists>r. and_loop tab as e lvl = Some (Ret r)" if "\<forall>a \<in> set as. a \<in> set args \<and> wf_pred a" for as
    using that
  proof (induction as)
    case (Cons a as)
    then obtain r where "EvalAt tab a e lvl = Some (Ret r)" using ih[of a] by fastforce
    then show ?case using Cons by (cases r) auto
  qed (simp del: split_paired_Ex)
  have ors: "\<exists>r. or_loop tab as e lvl = Some (Ret r)" if "\<forall>a \<in> set as. a \<in> set args \<and> wf_pred a" for as
    using that
  proof (induction as)
    case (Cons a as)
    then obtain r where "EvalAt tab a e lvl = Some (Ret r)" using ih[of a] by fastforce
    then show ?case using Cons by (cases r) auto
  qed (simp del: split_paired_Ex)
  show ?case
  proof (cases "p = CNot")
    case True
    then obtain a where a: "args = [a]" "wf_pred a" using Pred.prems by (auto simp: length_Suc_conv)
    then obtain m prune err where "EvalAt tab a e lvl = Some (Ret (m, prune, err))"
      using ih[of a] by fastforce
    moreover have "a \<noteq> PNil" using a(2) by auto
    ultimately show ?thesis using True a(1) by (cases a) (auto simp: not_prune_def)
  next
    case False
    have "\<forall>a \<in> set args. a \<in> set args \<and> wf_pred a" if "p = CAnd \<or> p = COr" using that Pred.prems by auto
    moreover have "\<exists>r. eval_attr tab p nm v e lvl = Some (Ret r)" using Pred.prems by (intro attr_returns) simp
    ultimately show ?thesis using False ands ors by (simp split: if_splits)
  qed
qed simp

text \<open>
  C19: A predicate that \<open>New\<close> parses is well formed, so that evaluating it on any entry, at any
  depth, returns a value and does not panic, if its regexps do not hold the largest rune, U+10FFFF; with it in
  a class the evaluation panics, as the search does (\<open>sre_Exec_class_panics\<close>).
\<close>

theorem pred_EvalAt_safe:
  assumes "pred_New s = Some (Inr p)" and "regexps_ok p"
  shows "\<exists>r. EvalAt tab p e lvl = Some (Ret r)"
  using pred_New_wf[OF assms(1)] EvalAt_returns assms(2) by auto

lemma pred_EvalAt_safe_witness:
  "\<exists>p r. pred_New ''type=d&name~~^a'' = Some (Inr p) \<and>
     EvalAt ascii_tab p [(''name'', ''ab'')] 0 = Some (Ret r)"
proof -
  let ?p = "Pred CAnd [] [] [Pred CEqs ''type'' ''d'' [], Pred CRexp ''name'' [CHR 0x5E, CHR ''a''] []]"
  have p: "pred_New ''type=d&name~~^a'' = Some (Inr ?p)" by code_simp
  have "regexps_ok ?p" by code_simp
  then show ?thesis using p pred_EvalAt_safe[OF p, of ascii_tab "[(''name'', ''ab'')]" 0] by blast
qed

section \<open>The walk\<close>

text \<open>
  The abstract file tree, and what a walk of it lists: the entries that match, in preorder,
  with the trees of pruned entries cut off and reported as such, and removed entries skipped.
\<close>

datatype ftree = FNode (root: dir) (kids: "ftree list")

fun listing :: "(dir \<Rightarrow> int \<Rightarrow> bool \<times> bool) \<Rightarrow> int \<Rightarrow> ftree \<Rightarrow> dir list" where
  "listing ev lvl (FNode d ts) =
     (if snd (ev d lvl) then [with_err d ''pruned'']
      else if dget d ''rm'' \<noteq> [] then []
      else (if fst (ev d lvl) then [d] else []) @
        concat (map (\<lambda>t. if dget (root t) ''rm'' \<noteq> [] then [] else listing ev (lvl + 1) t) ts))"

fun fheight :: "ftree \<Rightarrow> nat" where
  "fheight (FNode d ts) = Suc (fold max (map fheight ts) 0)"

text \<open>The file system holds the tree: reading a directory gives the entries below it.\<close>

fun serves :: "getter \<Rightarrow> ftree \<Rightarrow> bool" where
  "serves get (FNode d ts) \<longleftrightarrow>
     (if dget d ''type'' = ''d'' then zx_GetDir (get (dget d ''path'')) = (Some (map root ts), None)
      else ts = []) \<and> (\<forall>t \<in> set ts. serves get t)"

text \<open>Every entry of the tree evaluates, without an error, as \<open>ev\<close> says.\<close>

fun evaluates :: "(rune \<Rightarrow> bool) \<Rightarrow> pred \<Rightarrow> (dir \<Rightarrow> int \<Rightarrow> bool \<times> bool) \<Rightarrow> int \<Rightarrow> ftree \<Rightarrow> bool" where
  "evaluates tab p ev lvl (FNode d ts) \<longleftrightarrow>
     EvalAt tab p d lvl = Some (Ret (fst (ev d lvl), snd (ev d lvl), None)) \<and>
     (\<forall>t \<in> set ts. evaluates tab p ev (lvl + 1) t)"

definition dc_open :: "dirchan \<Rightarrow> bool" where
  "dc_open c \<longleftrightarrow> dc_room c = None \<and> dc_closed c = None"

definition dc_add :: "dir list \<Rightarrow> dirchan \<Rightarrow> dirchan" where
  "dc_add ds c = c\<lparr>dc_sent := dc_sent c @ ds\<rparr>"

lemma dc_add_simps [simp]:
  "dc_add [] c = c" "dc_add es (dc_add ds c) = dc_add (ds @ es) c" "dc_open (dc_add ds c) = dc_open c"
  by (simp_all add: dc_add_def dc_open_def)

lemma dc_send_open: "dc_open c \<Longrightarrow> dc_send d c = (True, dc_add [d] c)"
  by (simp add: dc_open_def dc_send_def dc_add_def)

lemma max_ge: "x \<in> set xs \<or> x \<le> m \<Longrightarrow> x \<le> fold max xs (m :: nat)"
proof (induction xs arbitrary: m)
  case (Cons y ys)
  have "x \<in> set ys \<or> x \<le> max y m" using Cons.prems by auto
  then show ?case using Cons.IH by simp
qed simp

lemma find_each_lists:
  assumes "\<And>t c. t \<in> set ts \<Longrightarrow> dc_open c \<Longrightarrow>
      FindAt k tab get p (root t) c lvl = Some (Ret (dc_add (listing ev lvl t) c))" and "dc_open c"
  shows "find_each k tab get p (map root ts) c lvl =
    Some (Ret (dc_add (concat (map (\<lambda>t. if dget (root t) ''rm'' \<noteq> [] then [] else listing ev lvl t) ts)) c))"
  using assms by (induction ts arbitrary: c) simp_all

lemma FindAt_lists:
  "\<lbrakk>serves get t; evaluates tab p ev lvl t; fheight t \<le> k; dc_open c\<rbrakk> \<Longrightarrow>
     FindAt k tab get p (root t) c lvl = Some (Ret (dc_add (listing ev lvl t) c))"
proof (induction t arbitrary: lvl k c)
  case (FNode d ts)
  obtain k' where k: "k = Suc k'" using FNode.prems(3) by (cases k) auto
  have h: "fheight t \<le> k'" if "t \<in> set ts" for t
  proof -
    have "fheight t \<le> fold max (map fheight ts) 0" using that by (intro max_ge) simp
    then show ?thesis using FNode.prems(3) k by simp
  qed
  have e: "find_each k' tab get p (map root ts) c (lvl + 1) =
      Some (Ret (dc_add (concat (map (\<lambda>t. if dget (root t) ''rm'' \<noteq> [] then []
        else listing ev (lvl + 1) t) ts)) c))" if "dc_open c" for c
    by (rule find_each_lists) (use FNode h that in auto)
  have g: "find_dirs get d = (map root ts, None)" using FNode.prems(1) by (auto simp: find_dirs_def split: if_splits)
  have "EvalAt tab p d lvl = Some (Ret (fst (ev d lvl), snd (ev d lvl), None))" using FNode.prems(2) by simp
  then show ?case
    using g e FNode.prems(4) unfolding k by (simp add: dc_send_open)
qed

text \<open>
  C18: The walk refines the abstract walk: on a file system that holds a tree all of whose
  entries evaluate without an error, to a reader that takes every entry, \<open>FindAt\<close> ends (with
  fuel for the height of the tree) and sends the listing of the tree.
\<close>

theorem pred_FindAt_refines:
  assumes "serves get t" and "evaluates tab p ev lvl t" and "fheight t \<le> k"
    and "dc_room c = None" and "dc_closed c = None"
  shows "FindAt k tab get p (root t) c lvl = Some (Ret (c\<lparr>dc_sent := dc_sent c @ listing ev lvl t\<rparr>))"
  using FindAt_lists[OF assms(1-3)] assms(4,5) by (simp add: dc_add_def dc_open_def)

text \<open>A directory with a file that is found and one that is not.\<close>

definition demo_dir :: dir where
  "demo_dir = [(''path'', ''/''), (''name'', ''/''), (''type'', ''d'')]"

definition demo_file :: "string \<Rightarrow> dir" where
  "demo_file nm = [(''path'', ''/'' @ nm), (''name'', nm), (''type'', ''-'')]"

definition demo_tree :: ftree where
  "demo_tree = FNode demo_dir [FNode (demo_file ''a'') [], FNode (demo_file ''b'') []]"

definition demo_get :: getter where
  "demo_get p = (if p = ''/'' then (map zx_Dir_WriteTo [demo_file ''a'', demo_file ''b''], None) else ([], None))"

lemma pred_FindAt_refines_witness:
  "FindAt 2 ascii_tab demo_get (Pred CEqs ''name'' ''b'' []) demo_dir \<lparr>dc_sent = [], dc_room = None, dc_closed = None\<rparr> 0 =
     Some (Ret \<lparr>dc_sent = [demo_file ''b''], dc_room = None, dc_closed = None\<rparr>)"
proof -
  let ?ev = "\<lambda>d lvl. (dget d ''name'' = ''b'', False)" and ?p = "Pred CEqs ''name'' ''b'' []"
  have "good_dir (demo_file ''a'')" "good_dir (demo_file ''b'')"
    by (simp_all add: demo_file_def good_dir_def MaxMsgSz_def)
  then have "zx_GetDir (demo_get ''/'') = (Some [demo_file ''a'', demo_file ''b''], None)"
    using zx_UnpackDir_WriteTo[of _ "[]"] by (simp add: demo_get_def zx_GetDir_def)
  then have s: "serves demo_get demo_tree"
    by (simp add: demo_tree_def) (simp add: demo_dir_def demo_file_def dget_def)
  have e: "evaluates ascii_tab ?p ?ev 0 demo_tree"
    by (simp add: demo_tree_def) (simp add: demo_dir_def demo_file_def dget_def eval_attr_def)
  have "fheight demo_tree \<le> 2" "root demo_tree = demo_dir" by (simp_all add: demo_tree_def)
  moreover have "listing ?ev 0 demo_tree = [demo_file ''b'']"
    by (simp add: demo_tree_def) (simp add: demo_dir_def demo_file_def dget_def)
  ultimately show ?thesis
    using pred_FindAt_refines[OF s e, of 2 "\<lparr>dc_sent = [], dc_room = None, dc_closed = None\<rparr>"] by simp
qed

section \<open>Prune indications\<close>



lemma wrap64_range: "- (2 ^ 63) \<le> wrap64 n" "wrap64 n < 2 ^ 63"
  unfolding wrap64_def
  using sint_greater_eq[of "word_of_int n :: 64 word"] sint_less[of "word_of_int n :: 64 word"] by simp_all




lemma parse_one: "go_parse_int ''1'' 0 = (1, None)"
  by (simp add: go_parse_int_def go_parse_uint_def digit_val_def)



section \<open>Where the code is wrong\<close>

text \<open>
  A negated test of the depth prunes what it selects: \<open>!(depth<=1)\<close> holds of the entries
  below depth 1, but at depth 1 it answers with the prune indication of \<open>depth<=1\<close>, and the walk
  stops above them.
\<close>

theorem pred_Not_depth_prunes:
  "\<exists>p. pred_New ''!(depth<=1)'' = Some (Inr p) \<and>
     EvalAt ascii_tab p d 1 = Some (Ret (False, True, None)) \<and>
     EvalAt ascii_tab p d 2 = Some (Ret (True, True, None))"
proof -
  let ?p = "Pred CNot [] [] [Pred CLe ''depth'' ''1'' []]"
  have "pred_New ''!(depth<=1)'' = Some (Inr ?p)" by code_simp
  moreover have "EvalAt ascii_tab ?p d 1 = Some (Ret (False, True, None))"
      "EvalAt ascii_tab ?p d 2 = Some (Ret (True, True, None))" for d
    by (simp_all add: eval_attr_def eval_num_def parse_one cmp_nums_def not_prune_def)
  ultimately show ?thesis by blast
qed

text \<open>\<open>!==\<close> has no case in the comparison and evaluates as \<open>>\<close>.\<close>

lemma pred_Neq_is_Gt: "EvalAt tab (Pred CNeq nm v []) e lvl = EvalAt tab (Pred CGt nm v []) e lvl"
proof -
  have c: "cmp_nums CNeq = cmp_nums CGt" by (intro ext) (simp add: cmp_nums_def)
  have "eval_num CNeq nm v e lvl = eval_num CGt nm v e lvl" unfolding eval_num_def c by (rule refl)
  then show ?thesis by (simp add: eval_attr_def)
qed

text \<open>A value with a space is printed as it is, and does not parse back.\<close>

lemma pred_String_unquoted:
  "pred_New (''name='' @ [CHR 0x22] @ ''a b'' @ [CHR 0x22]) = Some (Inr (Pred CEqs ''name'' ''a b'' [])) \<and>
   pred_String (Pred CEqs ''name'' ''a b'' []) = Ret ''name = a b'' \<and>
   pred_New ''name = a b'' = Some (Inl ''syntax error'')"
  by code_simp

text \<open>The documented operators for \<open>at most\<close> and \<open>at least\<close> are not in the lexer.\<close>

lemma pred_no_unicode_le:
  "pred_New (''size'' @ [CHR 0xE2, CHR 0x89, CHR 0xA4] @ ''3'') = Some (Inl ''op expected'')"
  by code_simp

end
