(* ===== verification/Ns.thy ===== *)
theory Ns
  imports ZxParse
begin

text \<open>
  Name spaces (src/ns/ns.go): a table from path prefixes to the directory entries mounted at
  them, its printed form and parser, and the resolution of a path at its longest prefix.

  The lock of an \<open>NS\<close> makes each exported operation atomic; the debug prints are left out.
  The back pointer of a \<open>prefix\<close> to its \<open>NS\<close> is only used for the lock.
\<close>

section \<open>Library functions used here\<close>

text \<open>\<open>path.Base\<close> and \<open>path.Join\<close> of two elements.\<close>

definition path_Base :: "string \<Rightarrow> string" where
  "path_Base p =
     (if p = [] then ''.''
      else (let q = rev (dropWhile (\<lambda>c. c = slash) (rev p)) in
        if q = [] then ''/'' else rev (takeWhile (\<lambda>c. c \<noteq> slash) (rev q))))"

definition path_Join :: "string \<Rightarrow> string \<Rightarrow> string" where
  "path_Join a b =
     (case filter (\<lambda>e. e \<noteq> []) [a, b] of [] \<Rightarrow> [] | es \<Rightarrow> path_Clean (go_join ''/'' es))"

text \<open>\<open>sort.Sort\<close> with a given \<open>Less\<close>; it promises no order among elements neither of which
  is less than the other, and here they stay as they were.\<close>

fun go_insert :: "('a \<Rightarrow> 'a \<Rightarrow> bool) \<Rightarrow> 'a \<Rightarrow> 'a list \<Rightarrow> 'a list" where
  "go_insert lt x [] = [x]"
| "go_insert lt x (y # ys) = (if lt y x then y # go_insert lt x ys else x # y # ys)"

definition go_sort :: "('a \<Rightarrow> 'a \<Rightarrow> bool) \<Rightarrow> 'a list \<Rightarrow> 'a list" where
  "go_sort lt xs = foldr (go_insert lt) xs []"

section \<open>State\<close>

datatype ns_flag = Repl | Before | After

fun ns_flag_String :: "ns_flag \<Rightarrow> string" where
  "ns_flag_String Before = ''Before''"
| "ns_flag_String After = ''After''"
| "ns_flag_String Repl = ''Repl''"

record ns_prefix =
  pf_name :: string
  pf_mnt :: "dir list"

record NS =
  ns_pref :: "ns_prefix list"

datatype ns_error =
    NotAbs string
  | NoSuchMount string
  | NotExist string
  | BadEntry dir

definition ns_New :: NS where
  "ns_New = \<lparr>ns_pref = [\<lparr>pf_name = ''/'', pf_mnt = []\<rparr>]\<rparr>"

section \<open>Printing\<close>

definition entry_of :: "string \<Rightarrow> dir \<Rightarrow> dir" where
  "entry_of nm d =
     (let nd = zx_Dup d;
          nd = (if dget nd ''type'' = [] then dset nd ''type'' ''p'' else nd);
          nd = (if dget nd ''mode'' = [] then dset nd ''mode'' ''0644'' else nd)
      in dset nd ''path'' nm)"

definition prefix_entries :: "ns_prefix \<Rightarrow> dir list" where
  "prefix_entries p =
     (if pf_mnt p = [] then [[(''path'', pf_name p), (''mode'', ''0644''), (''type'', ''p'')]]
      else map (entry_of (pf_name p)) (pf_mnt p))"

definition ns_Entries :: "NS \<Rightarrow> dir list" where
  "ns_Entries ns =
     (let ents = concat (map prefix_entries (ns_pref ns));
          hasroot = list_ex (\<lambda>p. pf_name p = ''/'') (ns_pref ns)
      in if \<not> hasroot then [(''path'', ''/''), (''mode'', ''0644''), (''type'', ''p'')] # ents else ents)"

text \<open>A line of the printed form; \<open>tab\<close> is the Unicode table of printable runes.\<close>

definition entry_line :: "(rune \<Rightarrow> bool) \<Rightarrow> dir \<Rightarrow> string" where
  "entry_line tab p =
     (let path = dget p ''path''; a = dget p ''addr'' in
      if dget p ''type'' \<noteq> ''p'' then zx_String tab (Some p)
      else if go_has_prefix a ''lfs!'' then
        (let toks = go_split (CHR ''!'') a in
         if length toks = 3 \<and> path = toks ! 1 \<and> toks ! 2 = ''/'' then path
         else if length toks = 3 \<and> toks ! 2 = ''/'' then path @ [CHR 0x09] @ toks ! 1
         else path @ [CHR 0x09] @ a)
      else
        (let pd = [(''path'', path), (''name'', path_Base path), (''mode'', ''0644''), (''type'', ''p''),
                   (''addr'', a)]
         in if zx_EqualDirs pd p then path @ [CHR 0x09] @ a else zx_String tab (Some p)))"

definition ns_String :: "(rune \<Rightarrow> bool) \<Rightarrow> NS option \<Rightarrow> string" where
  "ns_String tab ns0 =
     (case ns0 of
        None \<Rightarrow> ''/'' @ [CHR 0x0A]
      | Some ns \<Rightarrow> concat (map (\<lambda>p. entry_line tab p @ [CHR 0x0A]) (ns_Entries ns)))"

section \<open>Mounting\<close>

definition prefix_mount :: "ns_prefix \<Rightarrow> dir \<Rightarrow> ns_flag \<Rightarrow> ns_prefix" where
  "prefix_mount p d flag =
     (case flag of
        Repl \<Rightarrow> p\<lparr>pf_mnt := [d]\<rparr>
      | Before \<Rightarrow> p\<lparr>pf_mnt := [d] @ pf_mnt p\<rparr>
      | After \<Rightarrow> p\<lparr>pf_mnt := pf_mnt p @ [d]\<rparr>)"

definition byName_Less :: "ns_prefix \<Rightarrow> ns_prefix \<Rightarrow> bool" where
  "byName_Less p q \<longleftrightarrow> zx_PathCmp (pf_name p) (pf_name q) < 0"

text \<open>The loop of \<open>mount\<close>: None when no prefix has the name.\<close>

fun mount_loop :: "string \<Rightarrow> dir \<Rightarrow> ns_flag \<Rightarrow> ns_prefix list \<Rightarrow> ns_prefix list option" where
  "mount_loop nm d flag [] = None"
| "mount_loop nm d flag (p # ps) =
     (if pf_name p = nm then Some (prefix_mount p d flag # ps)
      else map_option (\<lambda>qs. p # qs) (mount_loop nm d flag ps))"

definition ns_mount :: "NS \<Rightarrow> dir \<Rightarrow> ns_flag \<Rightarrow> NS" where
  "ns_mount ns d flag =
     (let nm = dget d ''path'' in
      case mount_loop nm d flag (ns_pref ns) of
        Some ps \<Rightarrow> ns\<lparr>ns_pref := ps\<rparr>
      | None \<Rightarrow> ns\<lparr>ns_pref := go_sort byName_Less (ns_pref ns @ [\<lparr>pf_name = nm, pf_mnt = [d]\<rparr>])\<rparr>)"

definition ns_Mount :: "NS \<Rightarrow> dir \<Rightarrow> ns_flag \<Rightarrow> ns_error + NS" where
  "ns_Mount ns d0 flag =
     (case zx_UseAbsPath (dget d0 ''path'') of
        None \<Rightarrow> Inl (NotAbs (dget d0 ''path''))
      | Some nm \<Rightarrow> Inr (ns_mount ns (dset (dset (zx_Dup d0) ''path'' nm) ''name'' (path_Base nm)) flag))"

fun unmount_dirs :: "dir option \<Rightarrow> dir list \<Rightarrow> bool \<times> dir list" where
  "unmount_dirs d [] = (False, [])"
| "unmount_dirs d (m # ms) =
     (let (some, rest) = unmount_dirs d ms in
      if d = None \<or> zx_Matches m d then (True, rest) else (some, m # rest))"

definition prefix_unmount :: "ns_prefix \<Rightarrow> dir option \<Rightarrow> bool \<times> ns_prefix" where
  "prefix_unmount p d = (let (some, ms) = unmount_dirs d (pf_mnt p) in (some, p\<lparr>pf_mnt := ms\<rparr>))"

fun unmount_loop :: "string \<Rightarrow> dir option \<Rightarrow> ns_prefix list \<Rightarrow> bool \<times> ns_prefix list" where
  "unmount_loop nm d [] = (False, [])"
| "unmount_loop nm d (p # ps) =
     (let (s, q) = (if nm = [] \<or> nm = pf_name p then prefix_unmount p d else (False, p));
          (some, rest) = unmount_loop nm d ps
      in (s \<or> some, if pf_mnt q = [] \<and> pf_name q \<noteq> ''/'' then rest else q # rest))"

text \<open>The name space changes also when the call fails, so it is part of the result.\<close>

definition ns_unmount :: "NS \<Rightarrow> string \<Rightarrow> dir option \<Rightarrow> NS \<times> ns_error option" where
  "ns_unmount ns nm d =
     (let (some, ps) = unmount_loop nm d (ns_pref ns) in
      (ns\<lparr>ns_pref := ps\<rparr>, if \<not> some then Some (NoSuchMount nm) else None))"

definition ns_Unmount :: "NS \<Rightarrow> string \<Rightarrow> dir option \<Rightarrow> NS \<times> ns_error option" where
  "ns_Unmount ns fname d =
     (if fname \<noteq> [] then
        (case zx_UseAbsPath fname of
           None \<Rightarrow> (ns, Some (NotAbs fname))
         | Some nm \<Rightarrow> ns_unmount ns nm d)
      else ns_unmount ns [] d)"

section \<open>Resolving\<close>

definition resolve_prefix :: "string \<Rightarrow> ns_prefix list \<Rightarrow> ns_prefix option" where
  "resolve_prefix path ps =
     fold (\<lambda>np p. if zx_HasPrefix path (pf_name np) then Some np else p) ps None"

definition resolve_dir :: "string \<Rightarrow> dir \<Rightarrow> dir" where
  "resolve_dir suff d0 =
     (let d = zx_Dup d0 in
      if suff \<noteq> ''/'' \<and> suff \<noteq> [] then
        (let a = dget d ''addr'' in
         if a \<noteq> [] \<and> last a = slash then
           (if hd suff = slash then dset d ''addr'' (a @ tl suff) else dset d ''addr'' (a @ suff))
         else dset d ''addr'' (a @ suff))
      else d)"

definition resolve_mnts :: "string \<Rightarrow> dir list \<Rightarrow> dir list" where
  "resolve_mnts suff ds =
     map (resolve_dir suff) (filter (\<lambda>d. zx_IsFinder d \<or> suff = [] \<or> suff = ''/'') ds)"

definition ns_Resolve :: "NS \<Rightarrow> string \<Rightarrow> ns_error + string \<times> dir list" where
  "ns_Resolve ns name =
     (case zx_UseAbsPath name of
        None \<Rightarrow> Inl (NotAbs name)
      | Some path \<Rightarrow>
          (case resolve_prefix path (ns_pref ns) of
             None \<Rightarrow> Inl (NotExist name)
           | Some p \<Rightarrow>
               (let mnts = resolve_mnts (zx_Suffix path (pf_name p)) (pf_mnt p) in
                if mnts = [] then Inl (NotExist name) else Inr (pf_name p, mnts))))"

end
