(* ===== verification/NsParse.thy ===== *)
theory NsParse
  imports Ns
begin

text \<open>
  The parser of name spaces (src/ns/ns.go) and the completion of addresses (src/zx/rzx/cli.go).
\<close>

section \<open>Addresses\<close>

definition FillAddr :: "string \<Rightarrow> string" where
  "FillAddr addr =
     (let toks = go_split (CHR ''!'') addr in
      if length toks = 1 then ''tcp!'' @ toks ! 0 @ ''!zx!main''
      else if length toks = 2 then ''tcp!'' @ toks ! 0 @ ''!'' @ toks ! 1 @ ''!main''
      else if length toks = 3 then addr @ ''!main''
      else addr)"

definition rzx_splitaddr :: "string \<Rightarrow> (string \<times> string) go" where
  "rzx_splitaddr addr =
     (case go_last_index_byte addr (CHR ''!'') of
        None \<Rightarrow> Panic
      | Some n \<Rightarrow> Ret (take n addr, drop (n + 1) addr))"

text \<open>The part of \<open>specialForm\<close> that completes an address.\<close>

definition special_addr :: "string \<Rightarrow> string" where
  "special_addr addr0 =
     (case go_index_byte addr0 (CHR ''!'') of
        None \<Rightarrow> ''lfs!'' @ addr0 @ ''!/''
      | Some _ \<Rightarrow>
          (let els0 = go_split (CHR ''!'') addr0;
               (els, addr) = (if hd els0 \<noteq> ''zx'' \<and> hd els0 \<noteq> ''lfs'' then (''zx'' # els0, ''zx!'' @ addr0)
                              else (els0, addr0))
           in if hd els = ''lfs'' then (if length els = 2 then addr @ ''!/'' else addr)
              else if length els = 6 then addr
              else if length els = 5 then addr @ ''!/''
              else if length els = 4 then addr @ ''!main!/''
              else if length els = 3 \<or> length els = 2 then
                hd els @ ''!'' @ FillAddr (go_join ''!'' (tl els)) @ ''!main!/''
              else addr))"

definition specialForm :: "string \<Rightarrow> dir option" where
  "specialForm ln =
     (if ln = [] \<or> hd ln \<noteq> slash then None
      else if (case go_index_byte ln (CHR '':'') of None \<Rightarrow> False | Some n \<Rightarrow> n > 0) then None
      else (let toks = go_fields ln in
        if length toks > 2 then None
        else Some [(''path'', hd toks), (''addr'', special_addr (last toks)),
                   (''name'', path_Base (hd toks))]))"

section \<open>Name spaces\<close>

text \<open>The lines to parse: when there is one line without blanks it may be the name of a file;
  \<open>readfile\<close> is what the system replies for it.\<close>

definition parse_lines :: "(string \<Rightarrow> string option) \<Rightarrow> string \<Rightarrow> string list" where
  "parse_lines readfile s =
     (let lns = go_split (CHR 0x0A) s in
      if (length lns = 1 \<or> length lns = 2 \<and> lns ! 1 = [])
         \<and> \<not> list_ex (\<lambda>c. c = CHR '' '' \<or> c = CHR 0x09) (hd lns)
      then (case readfile (hd lns) of None \<Rightarrow> lns | Some dat \<Rightarrow> go_split (CHR 0x0A) dat)
      else lns)"

definition line_dir :: "string \<Rightarrow> dir" where
  "line_dir ln = (case specialForm ln of Some d \<Rightarrow> d | None \<Rightarrow> fst (zx_ParseDir ln))"

fun parse_loop :: "string list \<Rightarrow> NS \<Rightarrow> ns_error + NS" where
  "parse_loop [] ns = Inr ns"
| "parse_loop (ln0 # lns) ns =
     (let ln = go_trim_space ln0 in
      if ln = [] \<or> hd ln = CHR ''#'' then parse_loop lns ns
      else (let d = line_dir ln in
        if d = [] \<or> dget d ''path'' = [] then Inl (BadEntry d)
        else (case ns_Mount ns d After of
            Inl err \<Rightarrow> Inl err
          | Inr ns' \<Rightarrow> parse_loop lns ns')))"

definition ns_Parse :: "(string \<Rightarrow> string option) \<Rightarrow> string \<Rightarrow> ns_error + NS" where
  "ns_Parse readfile s = parse_loop (parse_lines readfile s) ns_New"

definition ns_Dup :: "(rune \<Rightarrow> bool) \<Rightarrow> (string \<Rightarrow> string option) \<Rightarrow> NS \<Rightarrow> NS go" where
  "ns_Dup tab readfile ns =
     (case ns_Parse readfile (ns_String tab (Some ns)) of Inl _ \<Rightarrow> Panic | Inr x \<Rightarrow> Ret x)"

end
