(* ===== verification/NsProps.thy ===== *)
theory NsProps
  imports NsParse "HOL-Library.Multiset"
begin

text \<open>
  What a name space means: a table from paths, as lists of elements, to the entries mounted
  there.  The operations keep the table of prefixes sorted and well formed and act on it as
  updates of the map, and a path resolves at the nearest mounted prefix.
\<close>

section \<open>Sorting\<close>

lemma go_insert_insort: "(\<And>x y. lt x y \<longleftrightarrow> f x < f y) \<Longrightarrow> go_insert lt x ys = insort_key f x ys"
  for f :: "'a \<Rightarrow> 'b::linorder"
  by (induction ys) (auto simp: not_less)

lemma go_sort_sort_key: "(\<And>x y. lt x y \<longleftrightarrow> f x < f y) \<Longrightarrow> go_sort lt xs = sort_key f xs"
  for f :: "'a \<Rightarrow> 'b::linorder"
proof -
  assume lt: "\<And>x y. lt x y \<longleftrightarrow> f x < f y"
  have "go_insert lt = insort_key f" by (intro ext go_insert_insort lt)
  then show ?thesis by (simp add: go_sort_def sort_key_def)
qed

definition p_key :: "ns_prefix \<Rightarrow> string list" where
  "p_key p = zx_Elems (pf_name p)"

lemma byName_Less_key: "byName_Less p q \<longleftrightarrow> p_key p < p_key q"
  by (simp add: byName_Less_def zx_PathCmp_def zx_PathCmp_loop p_key_def)

section \<open>Well-formed name spaces\<close>

definition abs_name :: "string \<Rightarrow> bool" where
  "abs_name nm \<longleftrightarrow> is_rooted nm \<and> path_Clean nm = nm"

definition wf_prefix :: "ns_prefix \<Rightarrow> bool" where
  "wf_prefix p \<longleftrightarrow> abs_name (pf_name p) \<and> (pf_mnt p = [] \<longrightarrow> pf_name p = ''/'') \<and>
     (\<forall>d\<in>set (pf_mnt p). wf_dir d \<and> dget d ''path'' = pf_name p \<and> dget d ''name'' = path_Base (pf_name p))"

definition ns_wf :: "NS \<Rightarrow> bool" where
  "ns_wf ns \<longleftrightarrow> list_all wf_prefix (ns_pref ns) \<and> sorted_wrt (<) (map p_key (ns_pref ns)) \<and>
     list_ex (\<lambda>p. pf_name p = ''/'') (ns_pref ns)"

lemma abs_name_elems:
  assumes "abs_name nm"
  shows "nm = abs_path (zx_Elems nm)" and "\<forall>e\<in>set (zx_Elems nm). plain_el e"
proof -
  have 1: "nm = abs_path (clean_els nm)" using assms path_Clean_rooted[of nm] by (simp add: abs_name_def)
  have 2: "\<forall>e\<in>set (clean_els nm). plain_el e" using assms clean_els_plain[of nm] by (simp add: abs_name_def)
  have "zx_Elems nm = clean_els nm" using zx_Elems_abs_path[OF 2] 1 by simp
  then show "nm = abs_path (zx_Elems nm)" "\<forall>e\<in>set (zx_Elems nm). plain_el e" using 1 2 by simp_all
qed

lemma abs_name_Clean: "is_rooted p \<Longrightarrow> abs_name (path_Clean p)"
  using path_Clean_idem[of p] path_Clean_rooted[of p] by (simp add: abs_name_def)

lemma abs_name_UseAbsPath: "zx_UseAbsPath p = Some nm \<Longrightarrow> abs_name nm"
  using abs_name_Clean[of p] by (auto simp: zx_UseAbsPath_def is_rooted_def split: if_splits)

lemma abs_name_inj: "abs_name a \<Longrightarrow> abs_name b \<Longrightarrow> zx_Elems a = zx_Elems b \<longleftrightarrow> a = b"
  using abs_name_elems by metis

lemma abs_name_root: "abs_name ''/''" "zx_Elems ''/'' = []"
  by (simp_all add: abs_name_def is_rooted_def path_Clean_def clean_els_def zx_Elems_def)

lemma wf_prefix_key: "wf_prefix p \<Longrightarrow> abs_name nm \<Longrightarrow> p_key p = zx_Elems nm \<longleftrightarrow> pf_name p = nm"
  by (auto simp: p_key_def wf_prefix_def abs_name_inj)

section \<open>The table of a name space\<close>

type_synonym mtable = "string list \<Rightarrow> dir list option"

definition ptable :: "ns_prefix list \<Rightarrow> mtable" where
  "ptable ps = map_of (map (\<lambda>p. (p_key p, pf_mnt p)) ps)"

definition ns_table :: "NS \<Rightarrow> mtable" where
  "ns_table ns = ptable (ns_pref ns)"

lemma ptable_simps [simp]:
  "ptable [] = Map.empty" "ptable (p # ps) = (ptable ps)(p_key p \<mapsto> pf_mnt p)"
  by (simp_all add: ptable_def)

lemma ptable_None: "ptable ps k = None \<longleftrightarrow> k \<notin> p_key ` set ps"
  by (simp add: ptable_def map_of_eq_None_iff image_image)

lemma ptable_snoc: "p_key q \<notin> p_key ` set ps \<Longrightarrow> ptable (ps @ [q]) = (ptable ps)(p_key q \<mapsto> pf_mnt q)"
  by (induction ps) (auto simp: fun_upd_twist)

lemma ptable_perm:
  assumes "mset ps = mset qs" and "distinct (map p_key ps)"
  shows "ptable ps = ptable qs"
proof -
  have "set ps = set qs" using assms(1) by (rule mset_eq_setD)
  moreover have "distinct (map p_key qs)"
    using assms by (metis distinct_map mset_map mset_eq_imp_distinct_iff)
  ultimately show ?thesis
    unfolding ptable_def using assms(2) by (subst map_of_inject_set) (simp_all add: comp_def)
qed

definition merge_mounts :: "ns_flag \<Rightarrow> dir \<Rightarrow> dir list \<Rightarrow> dir list" where
  "merge_mounts flag d ds = (case flag of Repl \<Rightarrow> [d] | Before \<Rightarrow> d # ds | After \<Rightarrow> ds @ [d])"

definition old_mounts :: "dir list option \<Rightarrow> dir list" where
  "old_mounts m = (case m of None \<Rightarrow> [] | Some ds \<Rightarrow> ds)"

lemma prefix_mount_simps [simp]:
  "pf_name (prefix_mount p d flag) = pf_name p" "p_key (prefix_mount p d flag) = p_key p"
  "pf_mnt (prefix_mount p d flag) = merge_mounts flag d (pf_mnt p)"
  by (simp_all add: prefix_mount_def merge_mounts_def p_key_def split: ns_flag.split)

lemma mount_loop_Some:
  assumes "mount_loop nm d flag ps = Some qs" and "list_all wf_prefix ps" and "abs_name nm"
    and "sorted_wrt (<) (map p_key ps)"
  shows "map pf_name qs = map pf_name ps" and "map p_key qs = map p_key ps"
    and "\<forall>q\<in>set qs. q \<in> set ps \<or> (pf_name q = nm \<and> (\<exists>p\<in>set ps. pf_name p = nm \<and> pf_mnt q = merge_mounts flag d (pf_mnt p)))"
    and "ptable qs = (ptable ps)(zx_Elems nm \<mapsto> merge_mounts flag d (old_mounts (ptable ps (zx_Elems nm))))"
proof -
  have "map pf_name qs = map pf_name ps \<and> map p_key qs = map p_key ps \<and>
    (\<forall>q\<in>set qs. q \<in> set ps \<or> (pf_name q = nm \<and> (\<exists>p\<in>set ps. pf_name p = nm \<and> pf_mnt q = merge_mounts flag d (pf_mnt p)))) \<and>
    ptable qs = (ptable ps)(zx_Elems nm \<mapsto> merge_mounts flag d (old_mounts (ptable ps (zx_Elems nm))))"
    using assms
  proof (induction ps arbitrary: qs)
    case (Cons p ps)
    have k: "p_key p = zx_Elems nm \<longleftrightarrow> pf_name p = nm"
      using Cons.prems by (intro wf_prefix_key) auto
    show ?case
    proof (cases "pf_name p = nm")
      case True
      then show ?thesis using Cons.prems k by (auto simp: old_mounts_def)
    next
      case False
      then obtain qs' where qs: "mount_loop nm d flag ps = Some qs'" "qs = p # qs'"
        using Cons.prems by auto
      have "p_key p \<noteq> zx_Elems nm" using k False by simp
      then show ?thesis using Cons.IH[OF qs(1)] Cons.prems qs(2) by (auto simp: fun_upd_twist)
    qed
  qed simp
  then show "map pf_name qs = map pf_name ps" "map p_key qs = map p_key ps"
    "\<forall>q\<in>set qs. q \<in> set ps \<or> (pf_name q = nm \<and> (\<exists>p\<in>set ps. pf_name p = nm \<and> pf_mnt q = merge_mounts flag d (pf_mnt p)))"
    "ptable qs = (ptable ps)(zx_Elems nm \<mapsto> merge_mounts flag d (old_mounts (ptable ps (zx_Elems nm))))"
    by blast+
qed

lemma mount_loop_None: "mount_loop nm d flag ps = None \<longleftrightarrow> (\<forall>p\<in>set ps. pf_name p \<noteq> nm)"
  by (induction ps) auto

lemma merge_mounts_set: "x \<in> set (merge_mounts flag d ds) \<Longrightarrow> x = d \<or> x \<in> set ds"
  by (auto simp: merge_mounts_def split: ns_flag.splits)

lemma merge_mounts_ne [simp]: "merge_mounts flag d ds \<noteq> []"
  by (simp add: merge_mounts_def split: ns_flag.split)

lemma wf_prefix_merge:
  assumes "wf_prefix p" and "pf_name p = nm" and "pf_name q = nm" and "pf_mnt q = merge_mounts flag d (pf_mnt p)"
    and "wf_dir d" and "dget d ''path'' = nm" and "dget d ''name'' = path_Base nm"
  shows "wf_prefix q"
  using assms merge_mounts_set[of _ flag d "pf_mnt p"] by (auto simp: wf_prefix_def)

text \<open>Mounting an entry named after its clean path updates the table at that path.\<close>

lemma ns_mount_ok:
  assumes wf: "ns_wf ns" and nm: "abs_name nm" and d: "wf_dir d" "dget d ''path'' = nm" "dget d ''name'' = path_Base nm"
  shows "ns_wf (ns_mount ns d flag)"
    and "ns_table (ns_mount ns d flag) =
      (ns_table ns)(zx_Elems nm \<mapsto> merge_mounts flag d (old_mounts (ns_table ns (zx_Elems nm))))"
proof -
  let ?ps = "ns_pref ns" and ?new = "\<lparr>pf_name = nm, pf_mnt = [d]\<rparr>"
  have ps: "list_all wf_prefix ?ps" "sorted_wrt (<) (map p_key ?ps)" "list_ex (\<lambda>p. pf_name p = ''/'') ?ps"
    using wf by (simp_all add: ns_wf_def)
  have "ns_wf (ns_mount ns d flag) \<and> ns_table (ns_mount ns d flag) =
      (ns_table ns)(zx_Elems nm \<mapsto> merge_mounts flag d (old_mounts (ns_table ns (zx_Elems nm))))"
  proof (cases "mount_loop nm d flag ?ps")
    case (Some qs)
    note q = mount_loop_Some[OF Some ps(1) nm ps(2)]
    have m: "ns_mount ns d flag = ns\<lparr>ns_pref := qs\<rparr>" using Some d by (simp add: ns_mount_def)
    have "list_ex (\<lambda>p. pf_name p = ''/'') qs"
      using ps(3) q(1) by (metis (no_types, lifting) image_iff list.set_map list_ex_iff)
    moreover have "list_all wf_prefix qs"
      using q(3) ps(1) wf_prefix_merge[OF _ _ _ _ d] unfolding list_all_iff by blast
    ultimately show ?thesis using m q(2,4) ps(2) by (simp add: ns_wf_def ns_table_def)
  next
    case None
    let ?qs = "go_sort byName_Less (?ps @ [?new])"
    have new: "\<forall>p\<in>set ?ps. pf_name p \<noteq> nm" using None by (simp add: mount_loop_None)
    have qs: "?qs = sort_key p_key (?ps @ [?new])" by (rule go_sort_sort_key) (rule byName_Less_key)
    have key: "zx_Elems nm \<notin> p_key ` set ?ps"
      using new ps(1) wf_prefix_key[OF _ nm] unfolding list_all_iff by (metis image_iff)
    have dist: "distinct (map p_key (?ps @ [?new]))"
      using ps(2) key by (simp add: strict_sorted_iff) (simp add: p_key_def)
    have ms: "mset ?qs = mset (?ps @ [?new])" by (simp add: qs)
    then have "distinct (map p_key ?qs)"
      using dist by (metis mset_eq_imp_distinct_iff mset_map)
    then have "sorted_wrt (<) (map p_key ?qs)"
      unfolding strict_sorted_iff by (simp add: qs)
    moreover have "list_all wf_prefix ?qs" "list_ex (\<lambda>p. pf_name p = ''/'') ?qs"
      using ps d nm by (auto simp: qs list_all_iff list_ex_iff wf_prefix_def)
    moreover have "ptable ?qs = ptable (?ps @ [?new])"
      using ptable_perm[OF ms[symmetric] dist] by simp
    moreover have "ptable (?ps @ [?new]) = (ptable ?ps)(zx_Elems nm \<mapsto> [d])"
      using ptable_snoc[of ?new ?ps] key by (simp add: p_key_def)
    moreover have "ptable ?ps (zx_Elems nm) = None" using key by (simp add: ptable_None)
    ultimately show ?thesis
      using None d by (simp add: ns_mount_def ns_wf_def ns_table_def old_mounts_def merge_mounts_def split: ns_flag.split)
  qed
  then show "ns_wf (ns_mount ns d flag)" "ns_table (ns_mount ns d flag) =
      (ns_table ns)(zx_Elems nm \<mapsto> merge_mounts flag d (old_mounts (ns_table ns (zx_Elems nm))))"
    by simp_all
qed


lemma wf_dir_dset [simp]: "wf_dir d \<Longrightarrow> wf_dir (dset d k v)"
  by (simp add: wf_dir_def dset_def distinct_update)

lemma wf_dir_Dup [simp]: "wf_dir (zx_Dup d)"
proof -
  have "wf_dir nd \<Longrightarrow> wf_dir (fold (\<lambda>(k, v) nd. dset nd k v) d nd)" for nd
    by (induction d arbitrary: nd) auto
  then show ?thesis by (simp add: zx_Dup_def wf_dir_def)
qed

lemma ns_Mount_ok:
  assumes wf: "ns_wf ns" and nm: "zx_UseAbsPath (dget d ''path'') = Some nm"
  shows "\<exists>ns'. ns_Mount ns d flag = Inr ns' \<and> ns_wf ns' \<and> ns_table ns' =
      (ns_table ns)(zx_Elems nm \<mapsto>
        merge_mounts flag (dset (dset (zx_Dup d) ''path'' nm) ''name'' (path_Base nm)) (old_mounts (ns_table ns (zx_Elems nm))))"
proof -
  let ?d = "dset (dset (zx_Dup d) ''path'' nm) ''name'' (path_Base nm)"
  have "wf_dir ?d" "dget ?d ''path'' = nm" "dget ?d ''name'' = path_Base nm"
    by (simp_all add: dget_def update_conv) (simp add: dset_def update_conv)+
  from ns_mount_ok[OF wf abs_name_UseAbsPath[OF nm] this]
  show ?thesis using nm by (simp add: ns_Mount_def)
qed

section \<open>Unmounting\<close>

definition left_mounts :: "dir option \<Rightarrow> dir list \<Rightarrow> dir list" where
  "left_mounts d = filter (\<lambda>m. \<not> (d = None \<or> zx_Matches m d))"

lemma unmount_dirs_filter:
  "unmount_dirs d ms = (list_ex (\<lambda>m. d = None \<or> zx_Matches m d) ms, left_mounts d ms)"
  by (induction ms) (auto simp: left_mounts_def)

text \<open>What unmounting does at one path of the table.\<close>

definition cut_mounts :: "string list option \<Rightarrow> dir option \<Rightarrow> string list \<Rightarrow> dir list option \<Rightarrow> dir list option" where
  "cut_mounts at d k m =
     (case m of
        None \<Rightarrow> None
      | Some ds \<Rightarrow>
          (let ds' = (if at = None \<or> at = Some k then left_mounts d ds else ds) in
           if ds' = [] \<and> k \<noteq> [] then None else Some ds'))"

definition at_elems :: "string \<Rightarrow> string list option" where
  "at_elems nm = (if nm = [] then None else Some (zx_Elems nm))"

lemma cut_mounts_None [simp]: "cut_mounts at d k None = None"
  by (simp add: cut_mounts_def)

lemma left_mounts_subset: "set (left_mounts d ds) \<subseteq> set ds"
  by (auto simp: left_mounts_def)

lemma unmount_loop_ok:
  assumes "unmount_loop nm d ps = (some, qs)" and "list_all wf_prefix ps" and "nm = [] \<or> abs_name nm"
    and "sorted_wrt (<) (map p_key ps)"
  shows "list_all wf_prefix qs \<and> set (map p_key qs) \<subseteq> set (map p_key ps) \<and> sorted_wrt (<) (map p_key qs) \<and>
    (list_ex (\<lambda>p. pf_name p = ''/'') ps \<longrightarrow> list_ex (\<lambda>p. pf_name p = ''/'') qs) \<and>
    ptable qs = (\<lambda>k. cut_mounts (at_elems nm) d k (ptable ps k))"
  using assms
proof (induction ps arbitrary: some qs)
  case (Cons p ps)
  define q where "q = (if nm = [] \<or> nm = pf_name p then snd (prefix_unmount p d) else p)"
  obtain s' qs' where r: "unmount_loop nm d ps = (s', qs')" by (cases "unmount_loop nm d ps")
  have qs: "qs = (if pf_mnt q = [] \<and> pf_name q \<noteq> ''/'' then qs' else q # qs')"
    using Cons.prems(1) r by (auto simp: q_def split: prod.splits if_splits)
  have p: "wf_prefix p" using Cons.prems by simp
  have qf: "pf_name q = pf_name p" "p_key q = p_key p"
    "pf_mnt q = (if nm = [] \<or> nm = pf_name p then left_mounts d (pf_mnt p) else pf_mnt p)"
    by (simp_all add: q_def prefix_unmount_def unmount_dirs_filter p_key_def)
  have ih: "list_all wf_prefix qs'" "set (map p_key qs') \<subseteq> set (map p_key ps)" "sorted_wrt (<) (map p_key qs')"
    "list_ex (\<lambda>p. pf_name p = ''/'') ps \<longrightarrow> list_ex (\<lambda>p. pf_name p = ''/'') qs'"
    "ptable qs' = (\<lambda>k. cut_mounts (at_elems nm) d k (ptable ps k))"
    using Cons.IH[OF r] Cons.prems by simp_all
  have lt: "\<forall>k\<in>set (map p_key ps). p_key p < k" using Cons.prems(4) by auto
  have root: "pf_name p = ''/'' \<longleftrightarrow> p_key p = []"
    using wf_prefix_key[OF p abs_name_root(1)] by (simp add: abs_name_root)
  have at: "(nm = [] \<or> nm = pf_name p) \<longleftrightarrow> at_elems nm = None \<or> at_elems nm = Some (p_key p)"
    using Cons.prems(3) wf_prefix_key[OF p, of nm] by (auto simp: at_elems_def)
  have wfq: "pf_mnt q = [] \<longrightarrow> pf_name q = ''/'' \<Longrightarrow> wf_prefix q"
    using p qf left_mounts_subset[of d "pf_mnt p"] by (auto simp: wf_prefix_def split: if_splits)
  have none: "ptable ps (p_key p) = None" "ptable qs' (p_key p) = None"
    using lt ih(2) by (auto simp: ptable_None dest!: subsetD)
  have tab: "ptable qs = (\<lambda>k. cut_mounts (at_elems nm) d k (ptable (p # ps) k))"
  proof
    fix k
    show "ptable qs k = cut_mounts (at_elems nm) d k (ptable (p # ps) k)"
    proof (cases "k = p_key p")
      case True
      then show ?thesis using qs qf none root at by (simp add: cut_mounts_def)
    next
      case False
      then show ?thesis using qs qf ih(5) by simp
    qed
  qed
  show ?case
    using qs qf ih(1-4) lt wfq tab root by (auto 0 3)
qed (simp add: fun_eq_iff)

lemma ns_unmount_ok:
  assumes "ns_wf ns" and "nm = [] \<or> abs_name nm"
  shows "ns_wf (fst (ns_unmount ns nm d)) \<and>
    ns_table (fst (ns_unmount ns nm d)) = (\<lambda>k. cut_mounts (at_elems nm) d k (ns_table ns k))"
proof -
  obtain some qs where r: "unmount_loop nm d (ns_pref ns) = (some, qs)" by (cases "unmount_loop nm d (ns_pref ns)")
  have "list_all wf_prefix qs \<and> set (map p_key qs) \<subseteq> set (map p_key (ns_pref ns)) \<and> sorted_wrt (<) (map p_key qs) \<and>
    (list_ex (\<lambda>p. pf_name p = ''/'') (ns_pref ns) \<longrightarrow> list_ex (\<lambda>p. pf_name p = ''/'') qs) \<and>
    ptable qs = (\<lambda>k. cut_mounts (at_elems nm) d k (ptable (ns_pref ns) k))"
    using unmount_loop_ok[OF r] assms by (simp add: ns_wf_def)
  then show ?thesis using assms r by (simp add: ns_unmount_def ns_wf_def ns_table_def)
qed

section \<open>Resolving\<close>

text \<open>The nearest path at or above a path where the table has something mounted.\<close>

function nearest :: "(string list \<Rightarrow> bool) \<Rightarrow> string list \<Rightarrow> string list" where
  "nearest t es = (if t es \<or> es = [] then es else nearest t (butlast es))"
  by pat_completeness auto
termination
  by (relation "measure (\<lambda>(t, es). length es)") simp_all

declare nearest.simps [simp del]

definition addr_under :: "string \<Rightarrow> string list \<Rightarrow> string" where
  "addr_under a rest = (if a \<noteq> [] \<and> last a = slash then a else a @ [slash]) @ go_join ''/'' rest"

definition under_dir :: "string list \<Rightarrow> dir \<Rightarrow> dir" where
  "under_dir rest d =
     (if rest = [] then zx_Dup d else dset (zx_Dup d) ''addr'' (addr_under (dget (zx_Dup d) ''addr'') rest))"

definition spec_resolve :: "mtable \<Rightarrow> string \<Rightarrow> ns_error + string \<times> dir list" where
  "spec_resolve t name =
     (let es = zx_Elems (path_Clean name);
          fs = nearest (\<lambda>k. t k \<noteq> None) es;
          rest = drop (length fs) es;
          ds = map (under_dir rest) (filter (\<lambda>d. zx_IsFinder d \<or> rest = []) (old_mounts (t fs)))
      in if ds = [] then Inl (NotExist name) else Inr (abs_path fs, ds))"

lemma nearest_eq:
  "prefix fs es \<Longrightarrow> t fs \<Longrightarrow> (\<And>gs. prefix gs es \<Longrightarrow> t gs \<Longrightarrow> length gs \<le> length fs) \<Longrightarrow> nearest t es = fs"
proof (induction es rule: rev_induct)
  case Nil
  then show ?case by (simp add: nearest.simps)
next
  case (snoc e es)
  show ?case
  proof (cases "fs = es @ [e]")
    case True
    then show ?thesis using snoc.prems(2) by (simp add: nearest.simps)
  next
    case False
    then have p: "prefix fs es" using snoc.prems(1) by (auto simp: prefix_snoc)
    then have "length fs \<le> length es" by (rule prefix_length_le)
    then have "\<not> t (es @ [e])" using snoc.prems(3)[of "es @ [e]"] by auto
    then have "nearest t (es @ [e]) = nearest t es" by (simp add: nearest.simps[of _ "es @ [e]"])
    also have "\<dots> = fs" using p snoc.prems(2) by (intro snoc.IH snoc.prems(3)) (auto intro: prefix_order.trans)
    finally show ?thesis .
  qed
qed

lemma prefix_le_list: "prefix xs ys \<Longrightarrow> xs \<le> ys" for xs :: "'a::linorder list"
  by (induction xs arbitrary: ys) (auto simp: prefix_def less_eq_list_code)

lemma resolve_prefix_last:
  "resolve_prefix path ps = (case filter (\<lambda>p. zx_HasPrefix path (pf_name p)) ps of [] \<Rightarrow> None | qs \<Rightarrow> Some (last qs))"
proof -
  have "fold (\<lambda>np p. if zx_HasPrefix path (pf_name np) then Some np else p) ps r =
     (case filter (\<lambda>p. zx_HasPrefix path (pf_name p)) ps of [] \<Rightarrow> r | qs \<Rightarrow> Some (last qs))" for r
    by (induction ps arbitrary: r) (auto split: list.split)
  then show ?thesis by (simp add: resolve_prefix_def)
qed

lemma wf_HasPrefix:
  assumes "wf_prefix p" and "abs_name path"
  shows "zx_HasPrefix path (pf_name p) \<longleftrightarrow> prefix (p_key p) (zx_Elems path)"
proof -
  have "clean_els nm = zx_Elems nm" if "abs_name nm" for nm
    using abs_name_elems[OF that] clean_els_abs_path by metis
  then show ?thesis
    using zx_HasPrefix_prefix[of path "pf_name p"] assms by (simp add: wf_prefix_def abs_name_def p_key_def)
qed

text \<open>The prefix found is the nearest one, and the root is always there to be found.\<close>

lemma resolve_prefix_nearest:
  assumes wf: "ns_wf ns" and path: "abs_name path"
  shows "\<exists>p\<in>set (ns_pref ns). resolve_prefix path (ns_pref ns) = Some p \<and> wf_prefix p \<and>
    p_key p = nearest (\<lambda>k. ns_table ns k \<noteq> None) (zx_Elems path) \<and> prefix (p_key p) (zx_Elems path) \<and>
    ns_table ns (p_key p) = Some (pf_mnt p)"
proof -
  let ?ps = "ns_pref ns" and ?es = "zx_Elems path"
  have ps: "list_all wf_prefix ?ps" "sorted_wrt (<) (map p_key ?ps)" "list_ex (\<lambda>p. pf_name p = ''/'') ?ps"
    using wf by (simp_all add: ns_wf_def)
  define qs where "qs = filter (\<lambda>p. zx_HasPrefix path (pf_name p)) ?ps"
  have wfp: "wf_prefix p" if "p \<in> set ?ps" for p using ps(1) that by (simp add: list_all_iff)
  have in_qs: "p \<in> set qs \<longleftrightarrow> p \<in> set ?ps \<and> prefix (p_key p) ?es" for p
    using wf_HasPrefix[OF wfp path] by (auto simp: qs_def)
  obtain r where r: "r \<in> set ?ps" "pf_name r = ''/''" using ps(3) by (auto simp: list_ex_iff)
  then have "r \<in> set qs" using abs_name_root by (simp add: in_qs p_key_def)
  then have ne: "qs \<noteq> []" by auto
  define p where "p = last qs"
  have p: "p \<in> set qs" using ne by (simp add: p_def)
  have "sorted_wrt (\<lambda>a b. p_key a < p_key b) qs"
    using ps(2) by (simp add: qs_def sorted_wrt_map sorted_wrt_filter)
  then have "sorted_wrt (\<lambda>a b. p_key a < p_key b) (butlast qs @ [p])" using ne by (simp add: p_def)
  then have below: "p_key q < p_key p" if "q \<in> set (butlast qs)" for q
    using that unfolding sorted_wrt_append by auto
  have max: "length (p_key q) \<le> length (p_key p)" if "q \<in> set qs" for q
  proof (rule ccontr)
    assume l: "\<not> length (p_key q) \<le> length (p_key p)"
    then have "q \<noteq> p" by auto
    then have "q \<in> set (butlast qs)"
      using that ne append_butlast_last_id[of qs] p_def by (metis in_set_conv_decomp rotate1.simps(2) set_ConsD set_rotate1)
    then have "p_key q < p_key p" by (rule below)
    moreover have "prefix (p_key p) (p_key q)"
      using that p l unfolding in_qs by (meson linorder_le_cases prefix_length_prefix)
    ultimately show False using prefix_le_list by fastforce
  qed
  have tab: "ns_table ns (p_key q) = Some (pf_mnt q)" if "q \<in> set ?ps" for q
    using ps(2) that unfolding ns_table_def ptable_def
    by (intro map_of_is_SomeI) (auto simp: strict_sorted_iff comp_def)
  have "nearest (\<lambda>k. ns_table ns k \<noteq> None) ?es = p_key p"
  proof (rule nearest_eq)
    show "prefix (p_key p) ?es" using p in_qs by simp
    show "ns_table ns (p_key p) \<noteq> None" using p tab[of p] by (simp add: in_qs)
    show "length gs \<le> length (p_key p)" if g: "prefix gs ?es" "ns_table ns gs \<noteq> None" for gs
    proof -
      obtain q where "q \<in> set ?ps" "gs = p_key q" using g(2) ptable_None[of ?ps gs] by (auto simp: ns_table_def)
      then show ?thesis using g(1) max[of q] by (simp add: in_qs)
    qed
  qed
  moreover have "resolve_prefix path ?ps = Some p"
    using ne unfolding resolve_prefix_last by (simp add: qs_def[symmetric] p_def split: list.split)
  ultimately show ?thesis using p tab[of p] wfp[of p] by (auto simp: in_qs)
qed

lemma resolve_dir_under:
  assumes "\<forall>e\<in>set rest. plain_el e"
  shows "resolve_dir (slash # go_join ''/'' rest) = under_dir rest"
proof
  fix d
  have "rest = [] \<longleftrightarrow> go_join ''/'' rest = []"
    using assms by (cases rest; cases "tl rest") (auto simp: plain_el_def)
  then show "resolve_dir (slash # go_join ''/'' rest) d = under_dir rest d"
    by (simp add: resolve_dir_def under_dir_def addr_under_def Let_def)
qed

lemma resolve_refines:
  assumes wf: "ns_wf ns" and name: "is_rooted name"
  shows "ns_Resolve ns name = spec_resolve (ns_table ns) name"
proof -
  let ?path = "path_Clean name" let ?es = "zx_Elems ?path"
  have path: "abs_name ?path" using name by (rule abs_name_Clean)
  obtain p where p: "resolve_prefix ?path (ns_pref ns) = Some p" "wf_prefix p"
    "p_key p = nearest (\<lambda>k. ns_table ns k \<noteq> None) ?es" "prefix (p_key p) ?es"
    "ns_table ns (p_key p) = Some (pf_mnt p)"
    using resolve_prefix_nearest[OF wf path] by blast
  define rest where "rest = drop (length (p_key p)) ?es"
  have pl: "\<forall>e\<in>set rest. plain_el e"
    using abs_name_elems(2)[OF path] by (auto simp: rest_def dest: in_set_dropD)
  have nm: "pf_name p = abs_path (p_key p)" "is_rooted (pf_name p)" "path_Clean (pf_name p) = pf_name p"
    using p(2) abs_name_elems(1)[of "pf_name p"] by (simp_all add: wf_prefix_def p_key_def abs_name_def)
  have suff: "zx_Suffix ?path (pf_name p) = slash # go_join ''/'' rest"
    using zx_Suffix_rooted[of ?path "pf_name p"] path nm(2,3) p(4) wf_HasPrefix[OF p(2) path]
    by (simp add: abs_name_def rest_def p_key_def)
  have ne: "slash # go_join ''/'' rest = ''/'' \<longleftrightarrow> rest = []"
    using pl by (cases rest; cases "tl rest") (auto simp: plain_el_def)
  have mnts: "resolve_mnts (zx_Suffix ?path (pf_name p)) (pf_mnt p) =
      map (under_dir rest) (filter (\<lambda>d. zx_IsFinder d \<or> rest = []) (pf_mnt p))"
    unfolding resolve_mnts_def suff resolve_dir_under[OF pl] using ne by simp
  have "zx_UseAbsPath name = Some ?path" using name by (auto simp: zx_UseAbsPath_def is_rooted_def)
  then have "ns_Resolve ns name = (let ds = map (under_dir rest) (filter (\<lambda>d. zx_IsFinder d \<or> rest = []) (pf_mnt p))
      in if ds = [] then Inl (NotExist name) else Inr (pf_name p, ds))"
    by (simp add: ns_Resolve_def p(1) mnts)
  then show ?thesis
    using nm(1) p(5) by (simp only: spec_resolve_def Let_def p(3)[symmetric] rest_def old_mounts_def option.case)
qed

section \<open>Histories of operations\<close>

text \<open>The operations that change a name space; a call that fails leaves it as it says.\<close>

datatype ns_op = OpMount dir ns_flag | OpUnmount string "dir option"

fun ns_run :: "ns_op \<Rightarrow> NS \<Rightarrow> NS" where
  "ns_run (OpMount d flag) ns = (case ns_Mount ns d flag of Inl _ \<Rightarrow> ns | Inr ns' \<Rightarrow> ns')"
| "ns_run (OpUnmount nm d) ns = fst (ns_Unmount ns nm d)"

text \<open>What an operation does at one path of the table.\<close>

fun op_effect :: "ns_op \<Rightarrow> string list \<Rightarrow> dir list option \<Rightarrow> dir list option" where
  "op_effect (OpMount d flag) k m =
     (case zx_UseAbsPath (dget d ''path'') of
        None \<Rightarrow> m
      | Some nm \<Rightarrow>
          if zx_Elems nm = k
          then Some (merge_mounts flag (dset (dset (zx_Dup d) ''path'' nm) ''name'' (path_Base nm)) (old_mounts m))
          else m)"
| "op_effect (OpUnmount fname d) k m =
     (if fname = [] then cut_mounts None d k m
      else (case zx_UseAbsPath fname of
              None \<Rightarrow> m
            | Some nm \<Rightarrow> if zx_Elems nm = k then cut_mounts (Some k) d k m else m))"

text \<open>
  A table whose operations act on each key by itself: what it holds at a key after a history
  depends only on what the operations do at that key.
\<close>

locale keyed_table =
  fixes inv :: "'t \<Rightarrow> bool" and run :: "'op \<Rightarrow> 't \<Rightarrow> 't"
    and look :: "'t \<Rightarrow> 'k \<Rightarrow> 'v" and effect :: "'op \<Rightarrow> 'k \<Rightarrow> 'v \<Rightarrow> 'v"
  assumes run_inv: "inv t \<Longrightarrow> inv (run op t)"
    and run_look: "inv t \<Longrightarrow> look (run op t) k = effect op k (look t k)"
begin

lemma runs_inv: "inv t \<Longrightarrow> inv (fold run ops t)"
  by (induction ops arbitrary: t) (simp_all add: run_inv)

lemma runs_look: "inv t \<Longrightarrow> look (fold run ops t) k = fold (\<lambda>op. effect op k) ops (look t k)"
  by (induction ops arbitrary: t) (simp_all add: run_inv run_look)

lemma runs_filter:
  assumes "inv t" and "\<And>op v. op \<in> set ops \<Longrightarrow> \<not> P op \<Longrightarrow> effect op k v = v"
  shows "look (fold run ops t) k = look (fold run (filter P ops) t) k"
proof -
  have "fold (\<lambda>op. effect op k) ops v = fold (\<lambda>op. effect op k) (filter P ops) v" for v
    using assms(2) by (induction ops arbitrary: v) simp_all
  then show ?thesis by (simp add: runs_look assms(1))
qed

end

lemma at_elems_abs [simp]: "abs_name nm \<Longrightarrow> at_elems nm = Some (zx_Elems nm)"
  by (auto simp: at_elems_def abs_name_def is_rooted_def)

lemma cut_mounts_other:
  assumes "ns_wf ns" and "at \<noteq> Some k" and "at \<noteq> None"
  shows "cut_mounts at d k (ns_table ns k) = ns_table ns k"
proof (cases "ns_table ns k")
  case (Some ds)
  then have "(k, ds) \<in> set (map (\<lambda>p. (p_key p, pf_mnt p)) (ns_pref ns))"
    unfolding ns_table_def ptable_def by (rule map_of_SomeD)
  then obtain p where p: "p \<in> set (ns_pref ns)" "p_key p = k" "pf_mnt p = ds" by auto
  then have "wf_prefix p" using assms(1) by (simp add: ns_wf_def list_all_iff)
  then have "ds = [] \<longrightarrow> k = []" using p abs_name_root by (auto simp: wf_prefix_def p_key_def)
  then show ?thesis using Some assms(2,3) by (auto simp: cut_mounts_def)
qed simp

lemma ns_run_ok:
  assumes "ns_wf ns"
  shows "ns_wf (ns_run op ns)" and "ns_table (ns_run op ns) k = op_effect op k (ns_table ns k)"
proof -
  have "ns_wf (ns_run op ns) \<and> ns_table (ns_run op ns) k = op_effect op k (ns_table ns k)"
  proof (cases op)
    case (OpMount d flag)
    show ?thesis
    proof (cases "zx_UseAbsPath (dget d ''path'')")
      case None
      then show ?thesis using OpMount assms by (simp add: ns_Mount_def)
    next
      case (Some nm)
      from ns_Mount_ok[OF assms this, of flag] show ?thesis using OpMount Some by auto
    qed
  next
    case (OpUnmount fname d)
    consider "fname = []" | "zx_UseAbsPath fname = None" "fname \<noteq> []"
      | nm where "zx_UseAbsPath fname = Some nm" "fname \<noteq> []" by (cases "zx_UseAbsPath fname") auto
    then show ?thesis
    proof cases
      case 1
      then show ?thesis using OpUnmount ns_unmount_ok[OF assms, of "[]" d] by (simp add: ns_Unmount_def at_elems_def)
    next
      case 2
      then show ?thesis using OpUnmount assms by (simp add: ns_Unmount_def)
    next
      case (3 nm)
      from abs_name_UseAbsPath[OF this(1)] show ?thesis
        using 3 OpUnmount ns_unmount_ok[OF assms, of nm d] cut_mounts_other[OF assms, of "Some (zx_Elems nm)" k d]
        by (simp add: ns_Unmount_def)
    qed
  qed
  then show "ns_wf (ns_run op ns)" "ns_table (ns_run op ns) k = op_effect op k (ns_table ns k)" by simp_all
qed

interpretation ns_tab: keyed_table ns_wf ns_run ns_table op_effect
  by unfold_locales (rule ns_run_ok; assumption)+

lemma ns_New_wf: "ns_wf ns_New"
  using abs_name_root by (simp add: ns_wf_def ns_New_def wf_prefix_def)


section \<open>Properties\<close>

text \<open>The name spaces of a program: what it makes, copies or parses, and what it does to them.\<close>

inductive ns_reach :: "(rune \<Rightarrow> bool) \<Rightarrow> (string \<Rightarrow> string option) \<Rightarrow> NS \<Rightarrow> bool" for tab readfile where
  new: "ns_reach tab readfile ns_New"
| parse: "ns_Parse readfile s = Inr ns \<Longrightarrow> ns_reach tab readfile ns"
| dup: "ns_reach tab readfile ns \<Longrightarrow> ns_Dup tab readfile ns = Ret ns' \<Longrightarrow> ns_reach tab readfile ns'"
| op: "ns_reach tab readfile ns \<Longrightarrow> ns_reach tab readfile (ns_run op ns)"

lemma Mount_run: "ns_Mount ns d flag = Inr ns' \<Longrightarrow> ns' = ns_run (OpMount d flag) ns"
  by simp

lemma parse_loop_wf: "parse_loop lns ns = Inr ns' \<Longrightarrow> ns_wf ns \<Longrightarrow> ns_wf ns'"
proof (induction lns arbitrary: ns)
  case (Cons ln lns)
  have "ns_wf x" if "ns_Mount ns d After = Inr x" for d x
    unfolding Mount_run[OF that] by (rule ns_run_ok(1)[OF Cons.prems(2)])
  then show ?case using Cons by (auto simp: Let_def split: if_splits sum.splits)
qed simp

lemma Parse_wf: "ns_Parse readfile s = Inr ns \<Longrightarrow> ns_wf ns"
  unfolding ns_Parse_def using parse_loop_wf ns_New_wf by blast

lemma reach_wf: "ns_reach tab readfile ns \<Longrightarrow> ns_wf ns"
proof (induction rule: ns_reach.induct)
  case (dup ns ns')
  then show ?case using Parse_wf by (auto simp: ns_Dup_def split: sum.splits)
qed (simp_all add: ns_New_wf Parse_wf ns_run_ok(1))

text \<open>
  C21: every name space a program can reach by making, parsing or copying one and by mounting and
  unmounting keeps its prefixes sorted, distinct, clean and absolute, the root among them, with
  something mounted at every other prefix and each entry named after its prefix.
\<close>

theorem ns_reach_wf:
  assumes "ns_reach tab readfile ns"
  shows "ns_wf ns"
  using assms by (rule reach_wf)

definition demo_ns :: NS where
  "demo_ns = fold ns_run
     [OpMount [(''path'', ''/b/../a''), (''addr'', ''lfs!/tmp!/'')] After,
      OpMount [(''path'', ''/''), (''addr'', ''zx!tcp!h!zx!main!/'')] Repl,
      OpMount [(''path'', ''/a/b''), (''addr'', ''zx!tcp!h!zx!main!/x''), (''io'', ''a b'')] Before] ns_New"

lemma demo_ns_reach: "ns_reach tab readfile demo_ns"
  unfolding demo_ns_def by (simp del: ns_run.simps add: ns_reach.intros)

theorem ns_reach_wf_witness: "ns_wf demo_ns"
  by (rule ns_reach_wf[OF demo_ns_reach])

text \<open>
  C22: in every name space reached, resolving an absolute path gives what the table of mounts says
  at the nearest mounted path at or above it: its entries, those of servers only when the path
  is below it, with their addresses extended by the rest of the path.
\<close>

theorem ns_Resolve_refines:
  assumes "ns_reach tab readfile ns" and "is_rooted name"
  shows "ns_Resolve ns name = spec_resolve (ns_table ns) name"
  using resolve_refines[OF reach_wf[OF assms(1)] assms(2)] .

theorem ns_Resolve_refines_witness:
  "ns_Resolve demo_ns ''/a/b/../c//d'' = spec_resolve (ns_table demo_ns) ''/a/b/../c//d''"
  by (rule ns_Resolve_refines[OF demo_ns_reach]) (simp add: is_rooted_def)

text \<open>The operations that name a path.\<close>

fun op_names :: "string list \<Rightarrow> ns_op \<Rightarrow> bool" where
  "op_names k (OpMount d flag) \<longleftrightarrow> map_option zx_Elems (zx_UseAbsPath (dget d ''path'')) = Some k"
| "op_names k (OpUnmount nm d) \<longleftrightarrow> nm = [] \<or> map_option zx_Elems (zx_UseAbsPath nm) = Some k"

text \<open>
  Mounts do not interfere: after any history what is mounted at a path depends only on the
  mounts at that very path and on the unmounts that name it or name no path.
\<close>

theorem ns_mounts_local:
  "ns_table (fold ns_run ops ns_New) k = ns_table (fold ns_run (filter (op_names k) ops) ns_New) k"
proof (rule ns_tab.runs_filter[OF ns_New_wf])
  show "op_effect op k v = v" if "\<not> op_names k op" for op v
    using that by (cases op) (auto split: option.splits)
qed

end
