(* ===== verification/AsciiLines.thy ===== *)
theory AsciiLines
  imports ZxText
begin

text \<open>
  Lines of ASCII text, which name spaces and files of keys are printed as: the fields and the lines of what is
  printed are what was printed.
\<close>

section \<open>Runes, fields and lines\<close>

lemma go_groups_ascii: "\<forall>c\<in>set s. ascii c \<Longrightarrow> go_groups s = map (\<lambda>c. (byte_of c, [c])) s"
proof (induction s)
  case Nil
  then show ?case by (simp add: go_groups.simps)
next
  case (Cons c s)
  have "go_decode (c # s) = (byte_of c, 1)" using Cons.prems by (intro go_decode_ascii) (simp add: ascii_def)
  then show ?case using Cons by (simp add: go_groups.simps[of "c # s"])
qed

definition blank :: "char \<Rightarrow> bool" where
  "blank c \<longleftrightarrow> go_is_space (byte_of c)"

lemma dropWhile_hd: "xs = [] \<or> \<not> P (hd xs) \<Longrightarrow> dropWhile P xs = xs"
  by (cases xs) auto

lemma go_trim_id:
  assumes "\<forall>c\<in>set s. ascii c" and "s \<noteq> []" and "\<not> blank (hd s)" and "\<not> blank (last s)"
  shows "go_trim_space s = s"
proof -
  let ?g = "map (\<lambda>c. (byte_of c, [c])) s"
  have 1: "dropWhile (go_is_space \<circ> fst) ?g = ?g"
    using assms by (intro dropWhile_hd) (simp add: hd_map blank_def)
  have 2: "dropWhile (go_is_space \<circ> fst) (rev ?g) = rev ?g"
    using assms by (intro dropWhile_hd) (simp add: hd_rev last_map blank_def)
  have "concat (map snd ?g) = s" by (induction s) simp_all
  then show ?thesis unfolding go_trim_space_def go_groups_ascii[OF assms(1)] 1 2 by simp
qed

lemma go_trim_Nil [simp]: "go_trim_space [] = []"
  by (simp add: go_trim_space_def go_groups.simps)

lemma fields_word:
  "\<forall>c\<in>set w. \<not> blank c \<Longrightarrow>
    fields_loop (map (\<lambda>c. (byte_of c, [c])) w @ gs) cur = fields_loop gs (cur @ w)"
  by (induction w arbitrary: cur) (simp_all add: blank_def)

lemma go_fields_one:
  assumes "\<forall>c\<in>set w. ascii c \<and> \<not> blank c" and "w \<noteq> []"
  shows "go_fields w = [w]"
  using assms fields_word[of w "[]" "[]"] by (simp add: go_fields_def go_groups_ascii)

lemma go_fields_two:
  assumes "\<forall>c\<in>set w. ascii c \<and> \<not> blank c" and "w \<noteq> []" and "\<forall>c\<in>set v. ascii c \<and> \<not> blank c" and "v \<noteq> []"
  shows "go_fields (w @ CHR 0x09 # v) = [w, v]"
proof -
  have tab: "ascii (CHR 0x09)" "go_is_space (byte_of (CHR 0x09))" by (simp_all add: ascii_def go_is_space_def)
  then have "\<forall>c\<in>set (w @ CHR 0x09 # v). ascii c" using assms by auto
  note go_groups_ascii[OF this]
  then show ?thesis
    using assms tab fields_word[of w "(byte_of (CHR 0x09), [CHR 0x09]) # map (\<lambda>c. (byte_of c, [c])) v" "[]"]
      fields_word[of v "[]" "[]"]
    by (simp add: go_fields_def)
qed

lemma go_split_lines:
  "\<forall>l\<in>set ls. CHR 0x0A \<notin> set l \<Longrightarrow>
    go_split (CHR 0x0A) (concat (map (\<lambda>l. l @ [CHR 0x0A]) ls)) = ls @ [[]]"
  by (induction ls) (simp_all add: go_split_app)

end
