(* ===== verification/NsDup.thy ===== *)
theory NsDup
  imports NsProps AsciiLines
begin

text \<open>
  Copies of name spaces: \<open>Dup\<close> prints a name space and parses what it printed.  For which
  entries the copy has the same entries, and for which it panics or loses some.
\<close>

section \<open>The same table, the same name space\<close>

lemma wf_names:
  assumes "ns_wf ns" and "p \<in> set (ns_pref ns)"
  shows "p = \<lparr>pf_name = abs_path (p_key p), pf_mnt = the (ns_table ns (p_key p))\<rparr>"
proof -
  have "wf_prefix p" using assms by (simp add: ns_wf_def list_all_iff)
  then have "pf_name p = abs_path (p_key p)" using abs_name_elems(1)[of "pf_name p"] by (simp add: wf_prefix_def p_key_def)
  moreover have "ns_table ns (p_key p) = Some (pf_mnt p)"
    using assms unfolding ns_table_def ptable_def ns_wf_def
    by (intro map_of_is_SomeI) (auto simp: strict_sorted_iff comp_def)
  ultimately show ?thesis by simp
qed

lemma ns_wf_unique:
  assumes "ns_wf a" and "ns_wf b" and "ns_table a = ns_table b"
  shows "a = b"
proof -
  let ?f = "\<lambda>k. \<lparr>pf_name = abs_path k, pf_mnt = the (ns_table a k)\<rparr>"
  have "dom (ns_table ns) = set (map p_key (ns_pref ns))" for ns
    using ptable_None by (auto simp: ns_table_def dom_def)
  then have "set (map p_key (ns_pref a)) = set (map p_key (ns_pref b))" using assms(3) by metis
  then have keys: "map p_key (ns_pref a) = map p_key (ns_pref b)"
    using assms(1,2) by (intro strict_sorted_equal) (simp_all add: ns_wf_def)
  have "ns_pref a = map ?f (map p_key (ns_pref a))"
    using wf_names[OF assms(1)] by (simp add: map_idI)
  moreover have "ns_pref b = map ?f (map p_key (ns_pref b))"
    using wf_names[OF assms(2)] assms(3) by (simp add: map_idI)
  ultimately have "ns_pref a = ns_pref b" using keys by simp
  then show ?thesis by simp
qed

section \<open>Entries that are copied\<close>

definition word :: "string \<Rightarrow> bool" where
  "word w \<longleftrightarrow> w \<noteq> [] \<and> (\<forall>c\<in>set w. 32 < byte_of c \<and> byte_of c < 127 \<and> c \<noteq> CHR '':'')"

text \<open>The entry whose line is its path and address, and the entries whose line is their text.\<close>

definition plain_entry :: "string \<Rightarrow> string \<Rightarrow> dir" where
  "plain_entry path a =
     [(''path'', path), (''name'', path_Base path), (''mode'', ''0644''), (''type'', ''p''), (''addr'', a)]"

definition copied :: "dir \<Rightarrow> bool" where
  "copied p \<longleftrightarrow>
     (let path = dget p ''path''; a = dget p ''addr'' in
      if dget p ''type'' = ''p'' \<and> (go_has_prefix a ''lfs!'' \<or> zx_EqualDirs (plain_entry path a) p)
      then set p = set (plain_entry path a) \<and> word path \<and> word a \<and> special_addr a = a \<and> a \<noteq> ''lfs!!/''
      else list_all (\<lambda>(k, v). word k \<and> text_val v) p)"

lemma graph_char: "32 < byte_of c \<Longrightarrow> byte_of c < 127 \<Longrightarrow> ascii c \<and> \<not> blank c \<and> c \<noteq> CHR 0x0A"
  by (cases "c = CHR 0x0A") (simp_all add: ascii_def blank_def go_is_space_def)

lemma word_chars:
  "word w \<Longrightarrow> w \<noteq> []" "word w \<Longrightarrow> \<forall>c\<in>set w. ascii c \<and> \<not> blank c"
  "word w \<Longrightarrow> CHR '':'' \<notin> set w" "word w \<Longrightarrow> CHR 0x0A \<notin> set w"
  unfolding word_def using graph_char by blast+

lemma index_byte_None: "c \<notin> set s \<Longrightarrow> go_index_byte s c = None"
  by (induction s) auto

text \<open>What is mounted for a line, and a line that mounts at a path.\<close>

definition mounted :: "dir \<Rightarrow> dir" where
  "mounted d = dset (dset (zx_Dup d) ''path'' (dget d ''path'')) ''name'' (path_Base (dget d ''path''))"

definition good_line :: "string \<Rightarrow> bool" where
  "good_line l \<longleftrightarrow> l \<noteq> [] \<and> CHR 0x0A \<notin> set l \<and> go_trim_space l = l \<and> hd l \<noteq> CHR ''#''"

lemma map_of_Dup: "wf_dir d \<Longrightarrow> map_of (zx_Dup d) = map_of d"
proof -
  have "distinct (map fst d) \<Longrightarrow>
      map_of (fold (\<lambda>(k, v) nd. dset nd k v) d nd) k = (case map_of d k of None \<Rightarrow> map_of nd k | Some v \<Rightarrow> Some v)" for nd k
    by (induction d arbitrary: nd) (auto split: option.split dest: map_of_SomeD simp: rev_image_eqI)
  then show "wf_dir d \<Longrightarrow> ?thesis" by (auto simp: wf_dir_def zx_Dup_def fun_eq_iff split: option.split)
qed

lemma dget_cong: "map_of d = map_of e \<Longrightarrow> dget d = dget e"
  by (simp add: dget_def fun_eq_iff)

lemma map_of_entry:
  "wf_dir d \<Longrightarrow> map_of (entry_of nm d) =
    (map_of d)(''type'' \<mapsto> (if dget d ''type'' = [] then ''p'' else dget d ''type''),
      ''mode'' \<mapsto> (if dget d ''mode'' = [] then ''0644'' else dget d ''mode''), ''path'' \<mapsto> nm)"
proof (rule ext)
  fix k
  assume wf: "wf_dir d"
  define e where "e = zx_Dup d"
  have m: "map_of e = map_of d" "dget e = dget d" using map_of_Dup[OF wf] dget_cong[OF map_of_Dup[OF wf]] by (simp_all add: e_def)
  have nonempty: "map_of d k = Some (dget d k)" if "dget d k \<noteq> []" for k
    using that by (simp add: dget_def split: option.splits)
  define e1 where "e1 = (if dget e ''type'' = [] then dset e ''type'' ''p'' else e)"
  define e2 where "e2 = (if dget e1 ''mode'' = [] then dset e1 ''mode'' ''0644'' else e1)"
  have e1: "map_of e1 = (map_of d)(''type'' \<mapsto> (if dget d ''type'' = [] then ''p'' else dget d ''type''))"
    using m nonempty by (cases "dget d ''type'' = []") (auto simp: e1_def)
  then have mode: "dget e1 ''mode'' = dget d ''mode''" "map_of e1 ''mode'' = map_of d ''mode''" by (simp_all add: dget_def)
  have e2: "map_of e2 = (map_of e1)(''mode'' \<mapsto> (if dget d ''mode'' = [] then ''0644'' else dget d ''mode''))"
    using mode nonempty by (cases "dget d ''mode'' = []") (auto simp: e2_def)
  have "entry_of nm d = dset e2 ''path'' nm" by (simp only: entry_of_def Let_def e_def e1_def e2_def)
  then show "map_of (entry_of nm d) k = ((map_of d)(''type'' \<mapsto> (if dget d ''type'' = [] then ''p'' else dget d ''type''),
      ''mode'' \<mapsto> (if dget d ''mode'' = [] then ''0644'' else dget d ''mode''), ''path'' \<mapsto> nm)) k"
    by (simp add: e2 e1)
qed

lemma entry_of_cong: "wf_dir d \<Longrightarrow> wf_dir e \<Longrightarrow> map_of d = map_of e \<Longrightarrow> map_of (entry_of nm d) = map_of (entry_of nm e)"
  using dget_cong[of d e] by (simp add: map_of_entry)

lemma wf_entry [simp]: "wf_dir (entry_of nm d)"
  by (simp add: entry_of_def Let_def)


lemma blank_code: "dir_blank c \<Longrightarrow> byte_of c \<le> 32"
  by (auto simp: dir_blank_def)

lemma text_key_word: "word k \<Longrightarrow> text_key k"
proof -
  assume k: "word k"
  then have "32 < byte_of (hd k)" by (simp add: word_def)
  then have "\<not> dir_blank (hd k)" using blank_code by fastforce
  then show ?thesis using word_chars(3)[OF k] by (simp add: text_key_def)
qed

lemma wf_fold_dset: "wf_dir d \<Longrightarrow> wf_dir (fold (\<lambda>a acc. dset acc a (f a)) as d)"
  by (induction as arbitrary: d) simp_all

text \<open>The text of an entry is one line that the parser takes for an entry.\<close>

lemma plain_graph: "plain_char c \<Longrightarrow> ascii c \<and> c \<noteq> CHR 0x0A"
  using plain_char_not_nl by (auto simp: plain_char_def ascii_def)

lemma esc_line: "ascii c \<Longrightarrow> \<forall>x\<in>set (esc_char c). ascii x \<and> x \<noteq> CHR 0x0A"
proof -
  assume c: "ascii c"
  have "ascii (CHR 0x5C)" by (simp add: ascii_def)
  then show ?thesis using esc_char_shape[OF c] c plain_graph esc_no_newline[OF c] by fastforce
qed

lemma quote_line: "\<forall>c\<in>set v. ascii c \<Longrightarrow> \<forall>x\<in>set (go_quote tab v). ascii x \<and> x \<noteq> CHR 0x0A"
proof -
  assume v: "\<forall>c\<in>set v. ascii c"
  have "ascii (CHR 0x22)" by (simp add: ascii_def)
  then show ?thesis using v esc_line by (auto simp: go_quote_def quote_body_ascii[OF v])
qed

lemma word_line: "word k \<Longrightarrow> \<forall>x\<in>set k. ascii x \<and> x \<noteq> CHR 0x0A"
  using graph_char by (auto simp: word_def)

lemma fmt_line:
  assumes "\<forall>a\<in>set as. word a \<and> text_val (dget d a)"
  shows "(\<forall>x\<in>set (fmt_loop tab d True sep as). (ascii x \<and> x \<noteq> CHR 0x0A) \<or> x \<in> set sep) \<and>
    (as \<noteq> [] \<longrightarrow> last (fmt_loop tab d True sep as) = CHR 0x22 \<and>
       (\<exists>r. fmt_loop tab d True sep as = sep @ hd as @ '':'' @ r))"
  using assms
proof (induction as arbitrary: sep)
  case (Cons a as)
  have f: "fmt_loop tab d True sep (a # as) = sep @ a @ '':'' @ go_quote tab (dget d a) @ fmt_loop tab d True '' '' as" by simp
  have a: "\<forall>x\<in>set a. ascii x \<and> x \<noteq> CHR 0x0A" "\<forall>x\<in>set (go_quote tab (dget d a)). ascii x \<and> x \<noteq> CHR 0x0A"
    using Cons.prems word_line[of a] quote_line[of "dget d a"] by (simp_all add: text_val_def)
  have c: "ascii (CHR '':'')" "ascii (CHR '' '')" by (simp_all add: ascii_def)
  have q: "last (go_quote tab v) = CHR 0x22" "go_quote tab v \<noteq> []" for v by (simp_all add: go_quote_def)
  have ih: "\<forall>x\<in>set (fmt_loop tab d True '' '' as). (ascii x \<and> x \<noteq> CHR 0x0A) \<or> x \<in> set '' ''"
    "as \<noteq> [] \<longrightarrow> last (fmt_loop tab d True '' '' as) = CHR 0x22 \<and>
       (\<exists>r. fmt_loop tab d True '' '' as = '' '' @ hd as @ '':'' @ r)"
    using Cons.IH[of "'' ''"] Cons.prems by auto
  have "last (fmt_loop tab d True sep (a # as)) = CHR 0x22"
    using ih(2) q by (cases as) (auto simp: f last_append)
  then show ?case using a c ih(1) by (auto simp: f)
qed simp


lemma good_lineI:
  assumes "\<forall>c\<in>set l. ascii c \<and> c \<noteq> CHR 0x0A" and "l \<noteq> []" and "\<not> blank (hd l)" and "\<not> blank (last l)" and "hd l \<noteq> CHR ''#''"
  shows "good_line l"
  using assms go_trim_id[of l] by (auto simp: good_line_def)

lemma blank_codes [simp]: "\<not> blank (CHR 0x22)" "\<not> blank (CHR ''n'')" "\<not> blank slash" "\<not> blank (CHR ''l'')"
  by (simp_all add: blank_def go_is_space_def)

lemma text_line:
  assumes d: "list_all (\<lambda>(k, v). word k \<and> text_val v) p" and nm: "map_of p ''name'' \<noteq> None"
  shows "good_line (zx_String tab (Some p))"
    and "line_dir (zx_String tab (Some p)) = fold (\<lambda>a acc. dset acc a (dget p a)) (zx_Attrs p) []"
proof -
  let ?l = "zx_String tab (Some p)"
  obtain as where as: "zx_Attrs p = ''name'' # as" using nm by (auto simp: zx_Attrs_def StdAttrOrder_def)
  have dv: "\<forall>(k, v)\<in>set p. word k \<and> text_val v" using d by (simp add: list_all_iff)
  have w: "\<forall>a\<in>set (zx_Attrs p). word a \<and> text_val (dget p a)"
  proof
    fix a assume "a \<in> set (zx_Attrs p)"
    then obtain v where v: "map_of p a = Some v"
      unfolding set_zx_Attrs by (metis map_of_eq_None_iff not_None_eq)
    then show "word a \<and> text_val (dget p a)" using dv map_of_SomeD[OF v] by (auto simp: dget_def)
  qed
  have l: "?l = fmt_loop tab p True [] (zx_Attrs p)" by (simp add: zx_String_def zx_fmt_def)
  obtain r where r: "?l = ''name'' @ '':'' @ r" "last ?l = CHR 0x22" "\<forall>c\<in>set ?l. ascii c \<and> c \<noteq> CHR 0x0A"
    using fmt_line[OF w, of tab "[]"] unfolding l as by auto
  show "good_line ?l"
  proof (rule good_lineI[OF r(3)])
    show "\<not> blank (last ?l)" by (simp add: r(2))
  qed (simp_all add: r(1))
  have "specialForm ?l = None" using r(1) by (simp add: specialForm_def)
  moreover have "\<forall>(k, v)\<in>set p. text_key k \<and> text_val v" using dv text_key_word by blast
  ultimately show "line_dir ?l = fold (\<lambda>a acc. dset acc a (dget p a)) (zx_Attrs p) []"
    using parse_dir_text[of p tab] by (simp add: line_dir_def)
qed

lemma special_line:
  assumes path: "word path" "hd path = slash" and a: "word a"
  shows "good_line (path @ CHR 0x09 # a)" and "good_line path"
    and "line_dir (path @ CHR 0x09 # a) = [(''path'', path), (''addr'', special_addr a), (''name'', path_Base path)]"
    and "line_dir path = [(''path'', path), (''addr'', special_addr path), (''name'', path_Base path)]"
proof -
  have t: "ascii (CHR 0x09)" by (simp add: ascii_def)
  have ne: "path \<noteq> []" "a \<noteq> []" using path(1) a by (simp_all add: word_chars)
  have "\<not> blank (last path)" "\<not> blank (last a)" using word_chars(2) path(1) a ne by auto
  then have l: "\<not> blank (last path)" "\<not> blank (last (path @ CHR 0x09 # a))" using ne by simp_all
  have c: "\<forall>c\<in>set path. ascii c \<and> c \<noteq> CHR 0x0A" "\<forall>c\<in>set (path @ CHR 0x09 # a). ascii c \<and> c \<noteq> CHR 0x0A"
    using word_line[OF path(1)] word_line[OF a] t by (simp_all add: ball_Un)
  show "good_line path" by (rule good_lineI[OF c(1) ne(1) _ l(1)]) (simp_all add: path(2))
  show "good_line (path @ CHR 0x09 # a)" by (rule good_lineI[OF c(2) _ _ l(2)]) (simp_all add: path(2) ne)
  have "CHR '':'' \<notin> set (path @ CHR 0x09 # a)" "CHR '':'' \<notin> set path"
    using word_chars(3) path(1) a by auto
  note idx = this[THEN index_byte_None]
  have hds: "hd (path @ CHR 0x09 # a) = slash" using ne path(2) by simp
  have "go_fields (path @ CHR 0x09 # a) = [path, a]" "go_fields path = [path]"
    using go_fields_two go_fields_one word_chars(2)[OF path(1)] word_chars(2)[OF a] ne by simp_all
  then show "line_dir (path @ CHR 0x09 # a) = [(''path'', path), (''addr'', special_addr a), (''name'', path_Base path)]"
    "line_dir path = [(''path'', path), (''addr'', special_addr path), (''name'', path_Base path)]"
    using ne path(2) hds unfolding line_dir_def specialForm_def idx by simp_all
qed

lemma split_three:
  assumes "go_has_prefix a ''lfs!''" and "length (go_split (CHR ''!'') a) = 3" and "go_split (CHR ''!'') a ! 2 = ''/''"
  shows "a = ''lfs!'' @ go_split (CHR ''!'') a ! 1 @ ''!/''" and "CHR ''!'' \<notin> set (go_split (CHR ''!'') a ! 1)"
proof -
  let ?t = "go_split (CHR ''!'') a"
  obtain r where r: "a = ''lfs!'' @ r"
    using assms(1) append_take_drop_id[of "length ''lfs!''" a] unfolding go_has_prefix_def by metis
  obtain x y z where t: "?t = [x, y, z]"
    using assms(2) by (cases ?t; cases "tl ?t"; cases "tl (tl ?t)") auto
  have "x = ''lfs''" using t by (simp add: r)
  moreover have "a = go_join ''!'' ?t" by (simp add: go_join_split)
  ultimately show "a = ''lfs!'' @ ?t ! 1 @ ''!/''" using t assms(3) by simp
  show "CHR ''!'' \<notin> set (?t ! 1)" using t go_split_no_sep[of y "CHR ''!''" a] by simp
qed

lemma special_addr_lfs: "CHR ''!'' \<notin> set t \<Longrightarrow> special_addr t = ''lfs!'' @ t @ ''!/''"
  by (simp add: special_addr_def index_byte_None)

lemma plain_line:
  assumes p: "set p = set (plain_entry path a)" "dget p ''path'' = path" "dget p ''addr'' = a" "dget p ''type'' = ''p''"
    and path: "word path" "hd path = slash" and a: "word a" "special_addr a = a" "a \<noteq> ''lfs!!/''"
    and sp: "go_has_prefix a ''lfs!'' \<or> zx_EqualDirs (plain_entry path a) p"
  shows "good_line (entry_line tab p) \<and>
    line_dir (entry_line tab p) = [(''path'', path), (''addr'', a), (''name'', path_Base path)]"
proof (cases "go_has_prefix a ''lfs!''")
  case False
  then have "entry_line tab p = path @ CHR 0x09 # a"
    using sp p(2-4) by (simp add: entry_line_def plain_entry_def Let_def)
  then show ?thesis using special_line[OF path a(1)] a(2) by simp
next
  case True
  let ?t = "go_split (CHR ''!'') a"
  show ?thesis
  proof (cases "length ?t = 3 \<and> ?t ! 2 = ''/''")
    case False
    then have "entry_line tab p = path @ CHR 0x09 # a"
      using True p(2-4) by (auto simp: entry_line_def Let_def)
    then show ?thesis using special_line[OF path a(1)] a(2) by simp
  next
    case three: True
    note t = split_three[OF True conjunct1[OF three] conjunct2[OF three]]
    have line: "entry_line tab p = (if path = ?t ! 1 then path else path @ CHR 0x09 # ?t ! 1)"
      using True three p(2-4) by (simp add: entry_line_def Let_def)
    have "?t ! 1 \<noteq> []" using a(3) t(1) by auto
    moreover have "set (?t ! 1) \<subseteq> set a" by (subst (2) t(1)) auto
    ultimately have w: "word (?t ! 1)" using a(1) by (auto simp: word_def)
    have "special_addr (?t ! 1) = a" using special_addr_lfs[OF t(2)] t(1) by simp
    then show ?thesis using line special_line[OF path w] special_line(2,4)[OF path a(1)] by auto
  qed
qed

section \<open>Copying\<close>

lemma path_Base_ne: "path_Base p \<noteq> []"
proof -
  let ?q = "dropWhile (\<lambda>c. c = slash) (rev p)"
  have "?q \<noteq> [] \<Longrightarrow> hd ?q \<noteq> slash" by (metis (mono_tags) hd_dropWhile)
  then show ?thesis by (cases ?q) (auto simp: path_Base_def Let_def)
qed

lemma map_of_mounted:
  "wf_dir d \<Longrightarrow> map_of (mounted d) =
     (map_of d)(''path'' \<mapsto> dget d ''path'', ''name'' \<mapsto> path_Base (dget d ''path''))"
  using map_of_Dup[of d] by (simp add: mounted_def fun_eq_iff)

lemma wf_mounted [simp]: "wf_dir (mounted d)"
  by (simp add: mounted_def)

lemma entry_remounted:
  assumes e: "map_of e ''path'' = Some nm" "map_of e ''name'' = Some (path_Base nm)"
      "map_of e ''type'' = Some ty" "ty \<noteq> []" "map_of e ''mode'' = Some mo" "mo \<noteq> []"
    and l: "wf_dir l" "map_of l = map_of e"
  shows "dget l ''path'' = nm" and "map_of (entry_of nm (mounted l)) = map_of e"
proof -
  show path: "dget l ''path'' = nm" using e(1) l(2) by (simp add: dget_def)
  have m: "map_of (mounted l) = map_of e"
    using e(1,2) by (simp add: map_of_mounted[OF l(1)] l(2) path fun_upd_idem)
  then have "dget (mounted l) ''type'' = ty" "dget (mounted l) ''mode'' = mo"
    using e(3,5) by (simp_all add: dget_def)
  then show "map_of (entry_of nm (mounted l)) = map_of e"
    using e by (simp add: map_of_entry m fun_upd_idem)
qed

lemma entry_copied:
  fixes tab :: "rune \<Rightarrow> bool"
  assumes d: "wf_dir d" "dget d ''name'' = path_Base nm" and nm: "abs_name nm" and c: "copied (entry_of nm d)"
  defines "l \<equiv> entry_line tab (entry_of nm d)"
  shows "good_line l \<and> line_dir l \<noteq> [] \<and> dget (line_dir l) ''path'' = nm \<and>
    map_of (entry_of nm (mounted (line_dir l))) = map_of (entry_of nm d)"
proof -
  define e where "e = entry_of nm d"
  define ty where "ty = dget e ''type''"
  define mo where "mo = dget e ''mode''"
  define a where "a = dget e ''addr''"
  have wfe: "wf_dir e" by (simp add: e_def)
  have "map_of d ''name'' = Some (path_Base nm)"
    using d(2) path_Base_ne[of nm] by (simp add: dget_def split: option.splits)
  then have e: "map_of e ''path'' = Some nm" "map_of e ''name'' = Some (path_Base nm)"
      "map_of e ''type'' = Some ty" "ty \<noteq> []" "map_of e ''mode'' = Some mo" "mo \<noteq> []"
    using map_of_entry[OF d(1), of nm] by (simp_all add: ty_def mo_def e_def dget_def)
  have path: "dget e ''path'' = nm" using e(1) by (simp add: dget_def)
  have hd: "hd nm = slash" "nm \<noteq> []" using nm by (simp_all add: abs_name_def is_rooted_def)
  show ?thesis
  proof (cases "ty = ''p'' \<and> (go_has_prefix a ''lfs!'' \<or> zx_EqualDirs (plain_entry nm a) e)")
    case True
    then have s: "set e = set (plain_entry nm a)" "word nm" "word a" "special_addr a = a" "a \<noteq> ''lfs!!/''"
      using c by (simp_all add: copied_def e_def[symmetric] ty_def[symmetric] a_def[symmetric] path)
    have "distinct (map fst (plain_entry nm a))" by (simp add: plain_entry_def)
    then have m: "map_of e = map_of (plain_entry nm a)"
      using wfe s(1) by (subst map_of_inject_set) (simp_all add: wf_dir_def)
    let ?L = "[(''path'', nm), (''addr'', a), (''name'', path_Base nm)]"
    have line: "good_line l" "line_dir l = ?L"
      using plain_line[OF s(1) path a_def[symmetric] _ s(2) hd(1) s(3-5), of tab] True ty_def
      by (simp_all add: l_def e_def)
    have L: "wf_dir ?L" "dget ?L ''path'' = nm" by (simp_all add: wf_dir_def dget_def)
    have "map_of (entry_of nm (mounted ?L)) = map_of (plain_entry nm a)"
      by (simp add: map_of_entry map_of_mounted[OF L(1)] L(2) dget_def plain_entry_def fun_eq_iff)
    then show ?thesis using line L(2) m by (simp add: e_def)
  next
    case False
    then have t: "list_all (\<lambda>(k, v). word k \<and> text_val v) e"
      using c unfolding copied_def Let_def e_def[symmetric] path ty_def[symmetric] a_def[symmetric] by simp
    have "l = zx_String tab (Some e)"
      using False unfolding l_def entry_line_def Let_def e_def[symmetric] path ty_def[symmetric] a_def[symmetric] plain_entry_def
      by auto
    moreover have "map_of e ''name'' \<noteq> None" using e(2) by simp
    ultimately have line: "good_line l" "line_dir l = fold (\<lambda>a acc. dset acc a (dget e a)) (zx_Attrs e) []"
      using text_line[OF t] by simp_all
    have "wf_dir (line_dir l)" unfolding line(2) by (rule wf_fold_dset) (simp add: wf_dir_def)
    moreover have m: "map_of (line_dir l) = map_of e" unfolding line(2) by (rule map_of_attrs)
    ultimately show ?thesis using entry_remounted[OF e] line(1) e(1) by (auto simp: e_def)
  qed
qed

text \<open>The entries of the copy: each is read back from its line and mounted.\<close>

definition remount :: "(rune \<Rightarrow> bool) \<Rightarrow> dir \<Rightarrow> dir" where
  "remount tab d = mounted (line_dir (entry_line tab (entry_of (dget d ''path'') d)))"

definition copied_ns :: "NS \<Rightarrow> bool" where
  "copied_ns ns \<longleftrightarrow> list_all (\<lambda>p. pf_mnt p \<noteq> [] \<and> list_all (\<lambda>d. copied (entry_of (pf_name p) d)) (pf_mnt p)) (ns_pref ns)"

lemma Mount_line:
  assumes "abs_name (dget d ''path'')"
  shows "ns_Mount ns d After = Inr (ns_run (OpMount d After) ns)"
    and "op_effect (OpMount d After) k m =
      (if zx_Elems (dget d ''path'') = k then Some (old_mounts m @ [mounted d]) else m)"
proof -
  have "zx_UseAbsPath (dget d ''path'') = Some (dget d ''path'')"
    using assms by (auto simp: zx_UseAbsPath_def abs_name_def is_rooted_def)
  then show "ns_Mount ns d After = Inr (ns_run (OpMount d After) ns)"
    "op_effect (OpMount d After) k m = (if zx_Elems (dget d ''path'') = k then Some (old_mounts m @ [mounted d]) else m)"
    by (simp_all add: ns_Mount_def mounted_def merge_mounts_def)
qed

lemma parse_lines_run:
  assumes "\<forall>l\<in>set ls. good_line l \<and> line_dir l \<noteq> [] \<and> abs_name (dget (line_dir l) ''path'')"
  shows "parse_loop (ls @ [[]]) ns = Inr (fold ns_run (map (\<lambda>l. OpMount (line_dir l) After) ls) ns)"
  using assms
proof (induction ls arbitrary: ns)
  case (Cons l ls)
  have g: "go_trim_space l = l" "l \<noteq> []" "hd l \<noteq> CHR ''#''" "line_dir l \<noteq> []" "dget (line_dir l) ''path'' \<noteq> []"
    using Cons.prems by (auto simp: good_line_def abs_name_def is_rooted_def)
  have "parse_loop ((l # ls) @ [[]]) ns = parse_loop (ls @ [[]]) (ns_run (OpMount (line_dir l) After) ns)"
    using g Mount_line(1)[of "line_dir l" ns] Cons.prems by (simp add: Let_def del: ns_run.simps)
  then show ?case using Cons by (simp del: ns_run.simps)
qed (simp add: Let_def)

text \<open>What the lines of a list of prefixes mount at one path.\<close>

lemma fold_mounts:
  assumes "\<forall>d\<in>set ds. dget (f d) ''path'' = nm" and "abs_name nm"
  shows "fold (\<lambda>op. op_effect op k) (map (\<lambda>d. OpMount (f d) After) ds) m =
    (if zx_Elems nm = k \<and> ds \<noteq> [] then Some (old_mounts m @ map (\<lambda>d. mounted (f d)) ds) else m)"
  using assms(1)
proof (induction ds arbitrary: m)
  case (Cons d ds)
  have "op_effect (OpMount (f d) After) k m = (if zx_Elems nm = k then Some (old_mounts m @ [mounted (f d)]) else m)"
    using Mount_line(2)[of "f d" k m] Cons.prems assms(2) by simp
  then show ?case using Cons by (simp add: old_mounts_def del: op_effect.simps)
qed simp

lemma fold_prefixes:
  assumes "\<forall>p\<in>set ps. abs_name (pf_name p) \<and> pf_mnt p \<noteq> [] \<and> (\<forall>d\<in>set (pf_mnt p). dget (f p d) ''path'' = pf_name p)"
    and "distinct (map p_key ps)"
  shows "fold (\<lambda>op. op_effect op k) (concat (map (\<lambda>p. map (\<lambda>d. OpMount (f p d) After) (pf_mnt p)) ps)) m =
    (case ptable (map (\<lambda>p. p\<lparr>pf_mnt := map (\<lambda>d. mounted (f p d)) (pf_mnt p)\<rparr>) ps) k of
       None \<Rightarrow> m | Some ds \<Rightarrow> Some (old_mounts m @ ds))"
  using assms
proof (induction ps arbitrary: m)
  case (Cons p ps)
  let ?q = "\<lambda>p. p\<lparr>pf_mnt := map (\<lambda>d. mounted (f p d)) (pf_mnt p)\<rparr>"
  have key: "p_key (?q p) = p_key p" for p by (simp add: p_key_def)
  have "p_key p \<notin> p_key ` set (map ?q ps)" using Cons.prems(2) by (auto simp: key image_image)
  then have none: "ptable (map ?q ps) (p_key p) = None" by (simp only: ptable_None not_False_eq_True)
  have "fold (\<lambda>op. op_effect op k) (map (\<lambda>d. OpMount (f p d) After) (pf_mnt p)) m =
    (if p_key p = k then Some (old_mounts m @ map (\<lambda>d. mounted (f p d)) (pf_mnt p)) else m)"
    using fold_mounts[of "pf_mnt p" "f p" "pf_name p" k m] Cons.prems(1) by (simp add: p_key_def)
  then show ?case using Cons none by (simp add: key del: op_effect.simps)
qed simp

lemma old_New: "ns_table ns_New k = (if k = [] then Some [] else None)"
  by (simp add: ns_table_def ns_New_def p_key_def zx_Elems_def)

text \<open>A name space with each entry as its line gives it back.\<close>

definition recopy :: "(rune \<Rightarrow> bool) \<Rightarrow> ns_prefix \<Rightarrow> ns_prefix" where
  "recopy tab p = p\<lparr>pf_mnt := map (\<lambda>d. mounted (line_dir (entry_line tab (entry_of (pf_name p) d)))) (pf_mnt p)\<rparr>"

lemma recopy_simps [simp]: "pf_name (recopy tab p) = pf_name p" "p_key (recopy tab p) = p_key p"
  by (simp_all add: recopy_def p_key_def)

lemma copied_nsD:
  assumes wf: "ns_wf ns" and c: "copied_ns ns" and p: "p \<in> set (ns_pref ns)"
  shows "wf_prefix p" and "pf_mnt p \<noteq> []" and "d \<in> set (pf_mnt p) \<Longrightarrow>
    good_line (entry_line tab (entry_of (pf_name p) d)) \<and> line_dir (entry_line tab (entry_of (pf_name p) d)) \<noteq> [] \<and>
    dget (line_dir (entry_line tab (entry_of (pf_name p) d))) ''path'' = pf_name p \<and>
    map_of (entry_of (pf_name p) (mounted (line_dir (entry_line tab (entry_of (pf_name p) d))))) = map_of (entry_of (pf_name p) d)"
proof -
  show wfp: "wf_prefix p" and "pf_mnt p \<noteq> []"
    using wf c p by (auto simp: ns_wf_def copied_ns_def list_all_iff)
  assume d: "d \<in> set (pf_mnt p)"
  show "good_line (entry_line tab (entry_of (pf_name p) d)) \<and> line_dir (entry_line tab (entry_of (pf_name p) d)) \<noteq> [] \<and>
    dget (line_dir (entry_line tab (entry_of (pf_name p) d))) ''path'' = pf_name p \<and>
    map_of (entry_of (pf_name p) (mounted (line_dir (entry_line tab (entry_of (pf_name p) d))))) = map_of (entry_of (pf_name p) d)"
    using wfp c p d by (intro entry_copied) (auto simp: wf_prefix_def copied_ns_def list_all_iff)
qed

lemma copied_Entries:
  assumes "ns_wf ns" and "copied_ns ns"
  shows "ns_Entries ns = concat (map (\<lambda>p. map (entry_of (pf_name p)) (pf_mnt p)) (ns_pref ns))"
proof -
  have "\<forall>p\<in>set (ns_pref ns). pf_mnt p \<noteq> []" using copied_nsD(2)[OF assms] by blast
  then show ?thesis
    using assms(1) by (simp add: ns_Entries_def prefix_entries_def ns_wf_def cong: map_cong)
qed

lemma recopy_wf:
  assumes "ns_wf ns" and "copied_ns ns"
  shows "ns_wf (ns\<lparr>ns_pref := map (recopy tab) (ns_pref ns)\<rparr>)"
proof -
  have "wf_prefix (recopy tab p)" if "p \<in> set (ns_pref ns)" for p
    using copied_nsD[OF assms that] by (auto simp: wf_prefix_def mounted_def recopy_def)
  then show ?thesis using assms(1) by (auto simp: ns_wf_def list_all_iff list_ex_iff comp_def)
qed

lemma recopy_Entries:
  assumes "ns_wf ns" and "copied_ns ns"
  shows "map map_of (ns_Entries (ns\<lparr>ns_pref := map (recopy tab) (ns_pref ns)\<rparr>)) = map map_of (ns_Entries ns)"
proof -
  have e: "map map_of (prefix_entries (recopy tab p)) = map map_of (map (entry_of (pf_name p)) (pf_mnt p))"
    if "p \<in> set (ns_pref ns)" for p
    using copied_nsD(2,3)[OF assms that] by (simp add: prefix_entries_def recopy_def)
  have "ns_Entries (ns\<lparr>ns_pref := map (recopy tab) (ns_pref ns)\<rparr>) =
      concat (map (\<lambda>p. prefix_entries (recopy tab p)) (ns_pref ns))"
    using recopy_wf[OF assms, of tab] by (simp add: ns_Entries_def ns_wf_def comp_def)
  then show ?thesis using e by (simp add: copied_Entries[OF assms] map_concat comp_def cong: map_cong)
qed

text \<open>What parsing the printed form does: one mount for each line.\<close>

lemma Dup_parse:
  assumes wf: "ns_wf ns" and c: "copied_ns ns" and rd: "2 \<le> length (ns_Entries ns) \<or> readfile = (\<lambda>_. None)"
  shows "ns_Parse readfile (ns_String tab (Some ns)) = Inr (fold ns_run
    (concat (map (\<lambda>p. map (\<lambda>d. OpMount (line_dir (entry_line tab (entry_of (pf_name p) d))) After) (pf_mnt p)) (ns_pref ns))) ns_New)"
proof -
  let ?ls = "map (entry_line tab) (ns_Entries ns)"
  have line: "good_line l \<and> line_dir l \<noteq> [] \<and> abs_name (dget (line_dir l) ''path'')" if "l \<in> set ?ls" for l
    using that copied_nsD[OF wf c] by (auto simp: copied_Entries[OF wf c] wf_prefix_def)
  have "go_split (CHR 0x0A) (ns_String tab (Some ns)) = ?ls @ [[]]"
    using go_split_lines[of ?ls] line by (simp add: ns_String_def comp_def good_line_def)
  then have "parse_lines readfile (ns_String tab (Some ns)) = ?ls @ [[]]"
    using rd by (auto simp: parse_lines_def Let_def)
  then have "ns_Parse readfile (ns_String tab (Some ns)) =
      Inr (fold ns_run (map (\<lambda>l. OpMount (line_dir l) After) ?ls) ns_New)"
    using line by (simp add: ns_Parse_def parse_lines_run)
  then show ?thesis by (simp add: copied_Entries[OF wf c] map_concat comp_def)
qed

lemma Dup_ok:
  assumes wf: "ns_wf ns" and c: "copied_ns ns" and rd: "2 \<le> length (ns_Entries ns) \<or> readfile = (\<lambda>_. None)"
  shows "ns_Dup tab readfile ns = Ret (ns\<lparr>ns_pref := map (recopy tab) (ns_pref ns)\<rparr>)" (is "_ = Ret ?ns'")
proof -
  let ?ps = "ns_pref ns"
  let ?f = "\<lambda>p d. line_dir (entry_line tab (entry_of (pf_name p) d))"
  let ?ops = "concat (map (\<lambda>p. map (\<lambda>d. OpMount (?f p d) After) (pf_mnt p)) ?ps)"
  have names: "\<forall>p\<in>set ?ps. abs_name (pf_name p) \<and> pf_mnt p \<noteq> [] \<and> (\<forall>d\<in>set (pf_mnt p). dget (?f p d) ''path'' = pf_name p)"
    using copied_nsD[OF wf c] by (auto simp: wf_prefix_def)
  have keys: "distinct (map p_key ?ps)" using wf by (simp add: ns_wf_def strict_sorted_iff)
  have "ns_table (fold ns_run ?ops ns_New) = ns_table ?ns'"
  proof
    fix k
    have "ns_table (fold ns_run ?ops ns_New) k = fold (\<lambda>op. op_effect op k) ?ops (ns_table ns_New k)"
      by (rule ns_tab.runs_look[OF ns_New_wf])
    also have "\<dots> = (case ptable (map (recopy tab) ?ps) k of
        None \<Rightarrow> ns_table ns_New k | Some ds \<Rightarrow> Some (old_mounts (ns_table ns_New k) @ ds))"
      unfolding recopy_def by (rule fold_prefixes[OF names keys])
    also have "\<dots> = ptable (map (recopy tab) ?ps) k"
    proof -
      obtain r where r: "r \<in> set ?ps" "pf_name r = ''/''" using wf by (auto simp: list_ex_iff ns_wf_def)
      then have "p_key (recopy tab r) = []" by (simp add: p_key_def zx_Elems_def)
      then have "ptable (map (recopy tab) ?ps) [] \<noteq> None" using r(1) unfolding ptable_None by force
      then show ?thesis by (auto simp: old_New old_mounts_def split: option.split)
    qed
    finally show "ns_table (fold ns_run ?ops ns_New) k = ns_table ?ns' k" by (simp add: ns_table_def)
  qed
  then have "fold ns_run ?ops ns_New = ?ns'"
    by (rule ns_wf_unique[OF ns_tab.runs_inv[OF ns_New_wf] recopy_wf[OF wf c]])
  then show ?thesis by (simp add: ns_Dup_def Dup_parse[OF wf c rd])
qed

text \<open>
  C23: a copy has the entries of what it copies, at the same paths and in the same order, when
  something is mounted at the root and each entry is one that its line can carry: a complete address
  at a path, or attributes without blanks or colons in their names and with ASCII values not
  ending in a backslash.  (With one entry, the name it prints must not be that of a file.)
\<close>

theorem ns_Dup_copies:
  assumes "ns_reach tab readfile ns" and "copied_ns ns"
    and "2 \<le> length (ns_Entries ns) \<or> readfile = (\<lambda>_. None)"
  shows "\<exists>x. ns_Dup tab readfile ns = Ret x \<and> map map_of (ns_Entries x) = map map_of (ns_Entries ns)"
  using Dup_ok[OF reach_wf[OF assms(1)] assms(2,3)] recopy_Entries[OF reach_wf[OF assms(1)] assms(2)] by blast

theorem ns_Dup_copies_witness:
  "\<exists>x. ns_Dup (\<lambda>_. True) (\<lambda>_. None) demo_ns = Ret x \<and> map map_of (ns_Entries x) = map map_of (ns_Entries demo_ns)"
  by (rule ns_Dup_copies[OF demo_ns_reach _ disjI2[OF refl]]) code_simp

text \<open>
  A name space with a colon in the address of a mount cannot be copied: the line of the mount
  is parsed as attributes, no path is found in it, and \<open>Dup\<close> panics.
\<close>

theorem ns_Dup_panics:
  "(case ns_Mount ns_New [(''path'', ''/a''), (''addr'', ''zx!tcp!h:99!zx!main!/'')] Repl of
     Inl _ \<Rightarrow> False | Inr ns \<Rightarrow> ns_Dup (\<lambda>_. True) (\<lambda>_. None) ns = Panic)"
  by code_simp

text \<open>
  The copy of a new name space has an entry mounted at the root, where the new one has none: the
  root resolves in the copy and not in the original.
\<close>

lemma ns_Dup_New_differs:
  "ns_Resolve ns_New ''/'' = Inl (NotExist ''/'')"
  "(case ns_Dup (\<lambda>_. True) (\<lambda>_. None) ns_New of Ret x \<Rightarrow> (case ns_Resolve x ''/'' of Inr _ \<Rightarrow> True | _ \<Rightarrow> False) | _ \<Rightarrow> False)"
  by code_simp+

text \<open>A short address of two components is completed twice, to a tree that does not exist.\<close>

lemma specialForm_twice: "special_addr ''localhost!zx'' = ''zx!tcp!localhost!zx!main!main!/''"
  by code_simp

text \<open>The attributes of an entry mounted from a local file system are not printed.\<close>

lemma ns_String_drops_attributes:
  "entry_line (\<lambda>_. True) (entry_of ''/a'' [(''path'', ''/a''), (''addr'', ''lfs!/x!/''), (''name'', ''a''), (''io'', ''1'')])
    = ''/a'' @ [CHR 0x09] @ ''/x''"
  by code_simp

end
