(* ===== verification/NsFile.thy ===== *)
theory NsFile
  imports NsDup
begin

text \<open>
  The operations on files of a name space (src/ns/file.go): each resolves its path, finds the
  server of the first entry mounted and asks it, with the path the server knows the file by.

  A server is a value of a type \<open>'f\<close> of handles; what it replies to a request is the parameter
  \<open>ask\<close>, what it supports is \<open>can\<close>, and \<open>dial\<close> is \<open>rzx.Dial\<close>.  A channel of replies is what
  is sent through it and the error it is closed with.
\<close>

datatype fs_error =
    FsNs ns_error
  | NoZuxTree string
  | NoTree string
  | DialFailed string
  | NotSupported string
  | CrossDevice string
  | ServerError string

section \<open>Local trees\<close>

text \<open>The map \<open>lfs\<close> from the (clean, absolute) paths added to their trees, in the order of an
  iteration over it.  \<open>newzx\<close> is what \<open>NewZX\<close> makes for a path; closing the old tree is not
  modelled.\<close>

type_synonym 'f lfs_map = "(string \<times> 'f) list"

definition AddLfsPath :: "(string \<Rightarrow> 'f option) \<Rightarrow> string \<Rightarrow> 'f option \<Rightarrow> 'f lfs_map \<Rightarrow> 'f lfs_map go" where
  "AddLfsPath newzx path fs lfs =
     (case zx_UseAbsPath path of
        None \<Rightarrow> Panic
      | Some p \<Rightarrow>
          (case (case fs of None \<Rightarrow> newzx p | Some f \<Rightarrow> Some f) of
             None \<Rightarrow> Panic
           | Some f \<Rightarrow> Ret (AList.update p f lfs)))"

text \<open>The best prefix, as the loop of \<open>Lfs\<close> keeps it: its path and the rest.\<close>

definition lfs_best :: "string \<Rightarrow> string list \<Rightarrow> string \<times> string" where
  "lfs_best path ps =
     fold (\<lambda>p (bp, rel). if length p > length bp \<and> zx_HasPrefix path p then (p, zx_Suffix path p) else (bp, rel))
       ps ([], [])"

definition Lfs :: "'f lfs_map \<Rightarrow> string \<Rightarrow> 'f option \<times> string \<times> string" where
  "Lfs lfs path0 =
     (let (bp, rel) = lfs_best (path_Clean path0) (map fst lfs) in (map_of lfs bp, bp, rel))"

text \<open>\<open>DirFs\<close> also returns the entry, whose address it updates for a local tree.\<close>

definition DirFs :: "'f lfs_map \<Rightarrow> (string \<Rightarrow> string + 'f) \<Rightarrow> dir \<Rightarrow> ((fs_error + 'f) \<times> dir) go" where
  "DirFs lfs dial d =
     (let p = zx_Proto d in
      if p = ''lfs'' then
        (let addr = dget d ''addr''; toks = go_split (CHR ''!'') addr in
         if length toks \<noteq> 3 then Ret (Inl (NoZuxTree addr), d)
         else (case Lfs lfs (path_Join (toks ! 1) (toks ! 2)) of
             (None, root, rel) \<Rightarrow> Ret (Inl (NoZuxTree addr), d)
           | (Some fs, root, rel) \<Rightarrow> Ret (Inr fs, dset d ''addr'' (''lfs!'' @ root @ ''!'' @ rel))))
      else if p = ''zx'' then
        (let addr = zx_SAddr d in
         if length addr < 3 then Panic
         else Ret (case dial (drop 3 addr) of Inl e \<Rightarrow> Inl (DialFailed e) | Inr fs \<Rightarrow> Inr fs, d))
      else Ret (Inl (NoTree (dget d ''addr'')), d))"

section \<open>Requests\<close>

datatype fs_req =
    RStat string
  | RGet string int int
  | RPut string dir int
  | RWstat string dir
  | RRemove string
  | RRemoveAll string
  | RMove string string

fun req_kind :: "fs_req \<Rightarrow> string" where
  "req_kind (RStat _) = ''stater''"
| "req_kind (RGet _ _ _) = ''getter''"
| "req_kind (RPut _ _ _) = ''putter''"
| "req_kind (RWstat _ _) = ''wstater''"
| "req_kind (RRemove _) = ''remover''"
| "req_kind (RRemoveAll _) = ''remover''"
| "req_kind (RMove _ _) = ''mover''"

text \<open>Resolve a path and find the server of the first mount; the error channel of the calls.\<close>

definition ns_server ::
    "'f lfs_map \<Rightarrow> (string \<Rightarrow> string + 'f) \<Rightarrow> NS \<Rightarrow> string \<Rightarrow> (fs_error + 'f \<times> string \<times> dir) go" where
  "ns_server lfs dial ns path =
     (case ns_Resolve ns path of
        Inl e \<Rightarrow> Ret (Inl (FsNs e))
      | Inr (pname, ds) \<Rightarrow>
          go_map (\<lambda>(r, d). case r of Inl e \<Rightarrow> Inl e | Inr fs \<Rightarrow> Inr (fs, pname, d)) (DirFs lfs dial (hd ds)))"

text \<open>The replies of a server that name a file get the path of the mount and of the request.\<close>

type_synonym 'r reply = "fs_error + 'r"

definition with_path :: "string \<Rightarrow> dir \<Rightarrow> dir \<Rightarrow> dir" where
  "with_path pname d rd = dset rd ''path'' (path_Join pname (zx_SPath d))"

definition ns_Stat ::
    "'f lfs_map \<Rightarrow> (string \<Rightarrow> string + 'f) \<Rightarrow> ('f \<Rightarrow> fs_req \<Rightarrow> dir option \<times> string option) \<Rightarrow> NS \<Rightarrow> string
      \<Rightarrow> (dir option \<times> fs_error option) go" where
  "ns_Stat lfs dial ask ns path =
     (case ns_Resolve ns path of
        Inl e \<Rightarrow> Ret (None, Some (FsNs e))
      | Inr (pname, ds) \<Rightarrow>
          (let d = hd ds in
           if dget d ''addr'' = [] then Ret (Some (dset d ''path'' (path_Join pname (zx_SPath d))), None)
           else go_map (\<lambda>(r, d).
             case r of
               Inl e \<Rightarrow> (None, Some e)
             | Inr fs \<Rightarrow> (case ask fs (RStat (zx_SPath d)) of
                 (rd, err) \<Rightarrow> (map_option (with_path pname d) rd, map_option ServerError err))) (DirFs lfs dial d)))"

definition ns_Get ::
    "'f lfs_map \<Rightarrow> (string \<Rightarrow> string + 'f) \<Rightarrow> ('f \<Rightarrow> string \<Rightarrow> bool) \<Rightarrow> ('f \<Rightarrow> fs_req \<Rightarrow> byte list list \<times> string option) \<Rightarrow>
      NS \<Rightarrow> string \<Rightarrow> int \<Rightarrow> int \<Rightarrow> (byte list list \<times> fs_error option) go" where
  "ns_Get lfs dial can ask ns path off cnt =
     go_map (\<lambda>r. case r of
         Inl e \<Rightarrow> ([], Some e)
       | Inr (fs, pname, d) \<Rightarrow>
           if \<not> can fs ''getter'' then ([], Some (NotSupported ''getter''))
           else (case ask fs (RGet (zx_SPath d) off cnt) of (bs, err) \<Rightarrow> (bs, map_option ServerError err)))
       (ns_server lfs dial ns path)"

text \<open>A put and a wstat: the first reply, with its path, and the error the server closes with.\<close>

definition ns_update ::
    "'f lfs_map \<Rightarrow> (string \<Rightarrow> string + 'f) \<Rightarrow> ('f \<Rightarrow> string \<Rightarrow> bool) \<Rightarrow> ('f \<Rightarrow> fs_req \<Rightarrow> dir option \<times> string option) \<Rightarrow>
      NS \<Rightarrow> string \<Rightarrow> (string \<Rightarrow> fs_req) \<Rightarrow> (dir option \<times> fs_error option) go" where
  "ns_update lfs dial can ask ns path req =
     go_map (\<lambda>r. case r of
         Inl e \<Rightarrow> (None, Some e)
       | Inr (fs, pname, d) \<Rightarrow>
           if \<not> can fs (req_kind (req [])) then (None, Some (NotSupported (req_kind (req []))))
           else (case ask fs (req (zx_SPath d)) of
               (rd, err) \<Rightarrow> (map_option (with_path pname d) rd, map_option ServerError err)))
       (ns_server lfs dial ns path)"

definition ns_Put where
  "ns_Put lfs dial can ask ns path ud off = ns_update lfs dial can ask ns path (\<lambda>p. RPut p ud off)"

definition ns_Wstat where
  "ns_Wstat lfs dial can ask ns path ud = ns_update lfs dial can ask ns path (\<lambda>p. RWstat p ud)"

text \<open>Calls that reply with an error only.\<close>

definition ns_removal ::
    "'f lfs_map \<Rightarrow> (string \<Rightarrow> string + 'f) \<Rightarrow> ('f \<Rightarrow> string \<Rightarrow> bool) \<Rightarrow> ('f \<Rightarrow> fs_req \<Rightarrow> string option) \<Rightarrow>
      NS \<Rightarrow> string \<Rightarrow> (string \<Rightarrow> fs_req) \<Rightarrow> fs_error option go" where
  "ns_removal lfs dial can ask ns path req =
     go_map (\<lambda>r. case r of
         Inl e \<Rightarrow> Some e
       | Inr (fs, pname, d) \<Rightarrow>
           if \<not> can fs ''remover'' then Some (NotSupported ''remover'')
           else map_option ServerError (ask fs (req (zx_SPath d))))
       (ns_server lfs dial ns path)"

definition ns_Remove where
  "ns_Remove lfs dial can ask ns path = ns_removal lfs dial can ask ns path RRemove"

definition ns_RemoveAll where
  "ns_RemoveAll lfs dial can ask ns path = ns_removal lfs dial can ask ns path RRemoveAll"

text \<open>\<open>Move\<close> finds the server of the source only; the address of the target is what \<open>Resolve\<close> gives.\<close>

definition ns_Move ::
    "'f lfs_map \<Rightarrow> (string \<Rightarrow> string + 'f) \<Rightarrow> ('f \<Rightarrow> string \<Rightarrow> bool) \<Rightarrow> ('f \<Rightarrow> fs_req \<Rightarrow> string option) \<Rightarrow>
      NS \<Rightarrow> string \<Rightarrow> string \<Rightarrow> fs_error option go" where
  "ns_Move lfs dial can ask ns src dst =
     go_map (\<lambda>r. case r of
         Inl e \<Rightarrow> Some e
       | Inr (fs, pname, fromd) \<Rightarrow>
           (case ns_Resolve ns dst of
              Inl e \<Rightarrow> Some (FsNs e)
            | Inr (_, tods) \<Rightarrow>
                (let tod = hd tods in
                 if zx_SAddr fromd \<noteq> zx_SAddr tod then Some (CrossDevice src)
                 else if \<not> can fs ''mover'' then Some (NotSupported ''mover'')
                 else map_option ServerError (ask fs (RMove (zx_SPath fromd) (zx_SPath tod))))))
       (ns_server lfs dial ns src)"

section \<open>Joining paths\<close>

lemma go_split_append: "go_split c (xs @ c # ys) = go_split c xs @ go_split c ys"
proof (induction xs)
  case (Cons x xs)
  then show ?case by (cases "go_split c xs") auto
qed simp

lemma clean_loop_append: "clean_loop r acc (xs @ ys) = clean_loop r (rev (clean_loop r acc xs)) ys"
  by (induction xs arbitrary: acc) auto

lemma go_split_abs_path:
  "\<forall>e\<in>set es. plain_el e \<Longrightarrow> clean_loop True acc (go_split slash (abs_path es)) = rev acc @ es"
proof -
  assume p: "\<forall>e\<in>set es. plain_el e"
  have "go_split slash (go_join [slash] es) = (if es = [] then [[]] else es)"
    using p by (auto intro!: go_split_join simp: plain_el_def)
  then show ?thesis using clean_loop_id[OF p, of True acc] by (auto simp: abs_path_def)
qed

lemma path_Join_abs:
  assumes "\<forall>e\<in>set fs. plain_el e" and "\<forall>e\<in>set gs. plain_el e"
  shows "path_Join (abs_path fs) (abs_path gs) = abs_path (fs @ gs)"
proof -
  have ne: "abs_path es \<noteq> []" for es by (simp add: abs_path_def)
  have j: "path_Join (abs_path fs) (abs_path gs) = path_Clean (abs_path fs @ slash # abs_path gs)"
    by (simp add: path_Join_def ne)
  have r: "is_rooted (abs_path fs @ slash # abs_path gs)" by (simp add: is_rooted_def abs_path_def)
  then have "clean_els (abs_path fs @ slash # abs_path gs) = fs @ gs"
    using go_split_abs_path[OF assms(1), of "[]"] go_split_abs_path[OF assms(2), of "rev fs"]
    by (simp add: clean_els_def go_split_append clean_loop_append)
  then show ?thesis using r by (simp add: j path_Clean_rooted)
qed

section \<open>The best local tree\<close>

definition best_prefix :: "string \<Rightarrow> string list \<Rightarrow> string \<Rightarrow> bool" where
  "best_prefix path ps b \<longleftrightarrow>
     b \<in> set ps \<and> zx_HasPrefix path b \<and> (\<forall>p\<in>set ps. zx_HasPrefix path p \<longrightarrow> length p \<le> length b)"

lemma lfs_best_spec:
  "(fst (lfs_best path ps) = [] \<longrightarrow> snd (lfs_best path ps) = []) \<and>
   (fst (lfs_best path ps) \<noteq> [] \<longrightarrow> snd (lfs_best path ps) = zx_Suffix path (fst (lfs_best path ps)) \<and>
      fst (lfs_best path ps) \<in> set ps \<and> zx_HasPrefix path (fst (lfs_best path ps))) \<and>
   (\<forall>p\<in>set ps. zx_HasPrefix path p \<longrightarrow> length p \<le> length (fst (lfs_best path ps)))"
proof (induction ps rule: rev_induct)
  case (snoc p ps)
  have "lfs_best path (ps @ [p]) =
    (if length p > length (fst (lfs_best path ps)) \<and> zx_HasPrefix path p then (p, zx_Suffix path p) else lfs_best path ps)"
    by (simp add: lfs_best_def case_prod_beta)
  then show ?case using snoc by auto
qed (simp add: lfs_best_def)

lemma abs_name_prefix_length:
  assumes "abs_name a" and "abs_name b" and "abs_name path"
    and "zx_HasPrefix path a" and "zx_HasPrefix path b" and "length a = length b"
  shows "a = b"
proof -
  have "take (length nm) path = nm" if "zx_HasPrefix path nm" "abs_name nm" for nm
    using assms(3) that by (auto simp: zx_HasPrefix_def abs_name_def is_rooted_def go_has_prefix_def Let_def split: if_splits)
  then show ?thesis using assms by metis
qed

lemma lfs_best_unique:
  assumes "\<forall>p\<in>set ps. abs_name p" and "abs_name path" and "set ps = set qs"
  shows "lfs_best path ps = lfs_best path qs"
proof -
  let ?a = "lfs_best path ps" and ?b = "lfs_best path qs"
  note a = lfs_best_spec[of path ps] and b = lfs_best_spec[of path qs]
  have "length (fst ?a) = length (fst ?b)"
    using a b assms(3) by (metis le_antisym le_zero_eq length_0_conv)
  then have "fst ?a = fst ?b"
    using a b assms abs_name_prefix_length[of "fst ?a" "fst ?b" path] by (cases "fst ?a = []") auto
  then show ?thesis using a b by (metis prod.collapse)
qed

text \<open>
  The local tree found for a path does not depend on the order in which the map of trees is
  iterated over.
\<close>

theorem Lfs_any_order:
  assumes "\<forall>p\<in>fst ` set lfs. abs_name p" and "is_rooted path" and "distinct (map fst lfs)" and "mset lfs = mset lfs'"
  shows "Lfs lfs path = Lfs lfs' path"
proof -
  have "set (map fst lfs) = set (map fst lfs')" using mset_eq_setD[OF assms(4)] by simp
  then have "lfs_best (path_Clean path) (map fst lfs) = lfs_best (path_Clean path) (map fst lfs')"
    using assms(1,2) by (intro lfs_best_unique abs_name_Clean) auto
  moreover have "distinct (map fst lfs')"
    using assms(3,4) mset_eq_imp_distinct_iff mset_map by metis
  then have "map_of lfs = map_of lfs'"
    using assms(3) mset_eq_setD[OF assms(4)] map_of_inject_set by blast
  ultimately show ?thesis by (simp add: Lfs_def)
qed

lemma Lfs_any_order_witness:
  "Lfs [(''/'', 1 :: nat), (''/tmp'', 2)] ''/tmp/x/..'' = Lfs [(''/tmp'', 2), (''/'', 1)] ''/tmp/x/..''"
proof (rule Lfs_any_order)
  show "\<forall>p\<in>fst ` set [(''/'', 1 :: nat), (''/tmp'', 2)]. abs_name p"
    by (simp add: abs_name_def is_rooted_def path_Clean_def clean_els_def)
qed (simp_all add: is_rooted_def)

section \<open>Files of remote trees\<close>

lemma last_index_app: "c \<notin> set t \<Longrightarrow> go_last_index_byte (s @ c # t) c = Some (length s)"
proof (induction s)
  case Nil
  have "go_last_index_byte t c = None" using Nil by (induction t) auto
  then show ?case by simp
qed simp

lemma set_tl: "x \<in> set (tl xs) \<Longrightarrow> x \<in> set xs"
  by (cases xs) simp_all

lemma clean_loop_set: "x \<in> set (clean_loop r acc es) \<Longrightarrow> x \<in> set acc \<or> x \<in> set es"
proof (induction r acc es rule: clean_loop.induct)
  case (2 r acc e es)
  then show ?case by (auto split: if_splits dest: set_tl)
qed simp

lemma go_split_set: "e \<in> set (go_split c s) \<Longrightarrow> set e \<subseteq> set s"
proof (induction s arbitrary: e)
  case (Cons x s)
  obtain a as where s: "go_split c s = a # as" by (cases "go_split c s") auto
  have "set a \<subseteq> set s" "\<And>e. e \<in> set as \<Longrightarrow> set e \<subseteq> set s" using Cons.IH by (simp_all add: s)
  then show ?case using Cons.prems by (auto simp: s split: if_splits)
qed simp

lemma nearest_prefix: "prefix (nearest t es) es"
proof (induction es rule: rev_induct)
  case (snoc e es)
  then show ?case by (auto simp: nearest.simps[of t "es @ [e]"] intro: prefix_order.trans)
qed (simp add: nearest.simps)

lemma zx_addr:
  assumes "dget d ''addr'' = ''zx!'' @ t @ ''!'' @ q" and "CHR ''!'' \<notin> set q"
  shows "zx_SPath d = q" and "zx_SAddr d = ''zx!'' @ t" and "zx_Proto d = ''zx''" and "zx_IsFinder d"
proof -
  have "dget d ''addr'' = (''zx!'' @ t) @ CHR ''!'' # q" using assms(1) by simp
  note i = last_index_app[OF assms(2), of "''zx!'' @ t", folded this]
  show "zx_SPath d = q" "zx_SAddr d = ''zx!'' @ t"
    unfolding zx_SPath_def zx_SAddr_def Let_def i using assms(1) by simp_all
  show "zx_Proto d = ''zx''" by (simp add: zx_Proto_def assms(1))
  then show "zx_IsFinder d" by (simp add: zx_IsFinder_def)
qed

lemma under_dir_addr:
  assumes "wf_dir d" and "dget d ''addr'' = s @ ''!/''"
  shows "dget (under_dir rest d) ''addr'' = s @ ''!'' @ abs_path rest"
proof -
  have "dget (zx_Dup d) ''addr'' = s @ ''!/''" using dget_cong[OF map_of_Dup[OF assms(1)]] assms(2) by simp
  then show ?thesis by (simp add: under_dir_def addr_under_def abs_path_def)
qed

text \<open>The first entry that resolves a path below the root of a tree that a server exports.\<close>

lemma resolve_zx:
  assumes wf: "ns_wf ns" and name: "is_rooted name" "CHR ''!'' \<notin> set name"
    and fs: "fs = nearest (\<lambda>k. ns_table ns k \<noteq> None) (zx_Elems (path_Clean name))"
    and m: "ns_table ns fs = Some (d # ds)" "dget d ''addr'' = ''zx!'' @ t @ ''!/''"
  defines "rest \<equiv> drop (length fs) (zx_Elems (path_Clean name))"
  shows "\<exists>ds'. ns_Resolve ns name = Inr (abs_path fs, under_dir rest d # ds')"
    and "zx_SPath (under_dir rest d) = abs_path rest" and "zx_SAddr (under_dir rest d) = ''zx!'' @ t"
    and "zx_Proto (under_dir rest d) = ''zx''" and "path_Join (abs_path fs) (abs_path rest) = path_Clean name"
    and "dget (under_dir rest d) ''addr'' \<noteq> []"
proof -
  let ?es = "zx_Elems (path_Clean name)"
  have es: "path_Clean name = abs_path ?es" "\<forall>e\<in>set ?es. plain_el e"
    using abs_name_elems[OF abs_name_Clean[OF name(1)]] by simp_all
  have app: "fs @ rest = ?es" using nearest_prefix[of _ ?es] unfolding fs rest_def by (metis append_eq_conv_conj prefix_def)
  have pl: "\<forall>e\<in>set fs. plain_el e" "\<forall>e\<in>set rest. plain_el e" using es(2) app by (metis UnCI set_append)+
  show "path_Join (abs_path fs) (abs_path rest) = path_Clean name"
    using path_Join_abs[OF pl] es(1) app by simp
  have "(fs, d # ds) \<in> set (map (\<lambda>p. (p_key p, pf_mnt p)) (ns_pref ns))"
    using m(1) unfolding ns_table_def ptable_def by (rule map_of_SomeD)
  then obtain p where "p \<in> set (ns_pref ns)" "pf_mnt p = d # ds" by auto
  moreover from this have "wf_prefix p" using wf by (simp add: ns_wf_def list_all_iff)
  ultimately have wfd: "wf_dir d" by (simp add: wf_prefix_def)
  have "set (clean_els name) \<subseteq> set (go_split slash name)"
    using clean_loop_set[of _ _ "[]"] by (fastforce simp: clean_els_def)
  moreover have "CHR ''!'' \<notin> set e" if "e \<in> set (go_split slash name)" for e
    using go_split_set[OF that] name(2) by auto
  ultimately have "\<forall>e\<in>set ?es. CHR ''!'' \<notin> set e"
    using path_Clean_rooted[OF name(1)] zx_Elems_abs_path[OF clean_els_plain[OF name(1)]] by auto
  then have "\<forall>e\<in>set rest. CHR ''!'' \<notin> set e" by (metis UnCI app set_append)
  then have bang: "CHR ''!'' \<notin> set (abs_path rest)"
  proof -
    have "\<forall>e\<in>set es. CHR ''!'' \<notin> set e \<Longrightarrow> CHR ''!'' \<notin> set (go_join [slash] es)" for es
      by (induction "[slash]" es rule: go_join.induct) auto
    then show "\<forall>e\<in>set rest. CHR ''!'' \<notin> set e \<Longrightarrow> ?thesis" by (simp add: abs_path_def)
  qed
  have addr: "dget (under_dir rest d) ''addr'' = ''zx!'' @ t @ ''!'' @ abs_path rest"
    using under_dir_addr[OF wfd, of "''zx!'' @ t"] m(2) by simp
  then show "dget (under_dir rest d) ''addr'' \<noteq> []" by simp
  show "zx_SPath (under_dir rest d) = abs_path rest" "zx_SAddr (under_dir rest d) = ''zx!'' @ t"
    "zx_Proto (under_dir rest d) = ''zx''"
    using zx_addr[OF addr bang] by simp_all
  have "zx_IsFinder d" using zx_addr(4)[of d t "''/''"] m(2) by simp
  then have "filter (\<lambda>d. zx_IsFinder d \<or> rest = []) (d # ds) = d # filter (\<lambda>d. zx_IsFinder d \<or> rest = []) ds" by simp
  then show "\<exists>ds'. ns_Resolve ns name = Inr (abs_path fs, under_dir rest d # ds')"
    unfolding resolve_refines[OF wf name(1)] spec_resolve_def Let_def fs[symmetric] rest_def[symmetric] m(1)
    by (simp add: old_mounts_def)
qed

text \<open>
  \<open>Stat\<close> of a path whose nearest mount is the root of a tree of a remote server asks that
  server for the rest of the path, and replies what it replies with the clean path, if neither
  the path nor the mount has an exclamation mark out of place.
\<close>

theorem ns_Stat_remote:
  assumes "ns_reach tab readfile ns" and "is_rooted name" and "CHR ''!'' \<notin> set name"
    and "fs = nearest (\<lambda>k. ns_table ns k \<noteq> None) (zx_Elems (path_Clean name))"
    and "ns_table ns fs = Some (d # ds)" and "dget d ''addr'' = ''zx!'' @ t @ ''!/''"
  shows "ns_Stat lfs dial ask ns name = Ret (case dial t of
       Inl e \<Rightarrow> (None, Some (DialFailed e))
     | Inr f \<Rightarrow> (case ask f (RStat (abs_path (drop (length fs) (zx_Elems (path_Clean name))))) of
         (rd, err) \<Rightarrow> (map_option (\<lambda>rd. dset rd ''path'' (path_Clean name)) rd, map_option ServerError err)))"
proof -
  note r = resolve_zx[OF reach_wf[OF assms(1)] assms(2-6)]
  then obtain ds' where
    "ns_Resolve ns name = Inr (abs_path fs, under_dir (drop (length fs) (zx_Elems (path_Clean name))) d # ds')" by blast
  moreover have "with_path (abs_path fs) (under_dir (drop (length fs) (zx_Elems (path_Clean name))) d) =
      (\<lambda>rd. dset rd ''path'' (path_Clean name))"
    using r(2,5) by (simp add: with_path_def fun_eq_iff)
  ultimately show ?thesis
    using r(2-4,6) by (simp add: ns_Stat_def DirFs_def split: sum.split)
qed

theorem ns_Stat_remote_witness:
  "ns_Stat [] (\<lambda>t. if t = ''tcp!h!zx!main'' then Inr t else Inl ''bad'') (\<lambda>f r. (Some [], None)) demo_ns ''/x/./y'' =
     Ret (Some [(''path'', ''/x/y'')], None)"
proof -
  let ?dial = "\<lambda>t :: string. if t = ''tcp!h!zx!main'' then Inr t else Inl ''bad''"
  let ?ask = "\<lambda>(f :: string) (r :: fs_req). (Some [] :: dir option, None :: string option)"
  let ?fs = "nearest (\<lambda>k. ns_table demo_ns k \<noteq> None) (zx_Elems (path_Clean ''/x/./y''))"
  have e: "?fs = [] \<and> ns_table demo_ns [] = Some [[(''path'', ''/''), (''addr'', ''zx!tcp!h!zx!main!/''), (''name'', ''/'')]]
      \<and> zx_Elems (path_Clean ''/x/./y'') = [''x'', ''y'']" by code_simp
  have c: "path_Clean ''/x/./y'' = ''/x/y''" by code_simp
  have "ns_Stat [] ?dial ?ask demo_ns ''/x/./y'' = Ret (case ?dial ''tcp!h!zx!main'' of
       Inl e \<Rightarrow> (None, Some (DialFailed e))
     | Inr f \<Rightarrow> (case ?ask f (RStat (abs_path (drop (length ([] :: string list)) (zx_Elems (path_Clean ''/x/./y''))))) of
         (rd, err) \<Rightarrow> (map_option (\<lambda>rd. dset rd ''path'' (path_Clean ''/x/./y'')) rd, map_option ServerError err)))"
  proof (rule ns_Stat_remote[OF demo_ns_reach])
    show "ns_table demo_ns [] = Some ([(''path'', ''/''), (''addr'', ''zx!tcp!h!zx!main!/''), (''name'', ''/'')] # [])"
      using e by simp
    show "[] = ?fs" by (rule conjunct1[OF e, symmetric])
  qed (simp_all add: is_rooted_def dget_def)
  then show ?thesis by (simp add: c dset_def)
qed

text \<open>
  When a mount is not the root of what its server exports, \<open>Stat\<close> replies a path that is not
  that of the file, and an entry without address is found twice below its mount.
\<close>

theorem ns_Stat_misplaced:
  "(let ask = (\<lambda>(f :: string) r. (Some [(''name'', ''b'')], None)); dial = Inr in
    case ns_Mount ns_New [(''path'', ''/a''), (''addr'', ''zx!tcp!h!zx!main!/x'')] Repl of
      Inl _ \<Rightarrow> False
    | Inr ns \<Rightarrow> ns_Stat [] dial ask ns ''/a/b'' = Ret (Some [(''name'', ''b''), (''path'', ''/a/x/b'')], None)) \<and>
   (case ns_Mount ns_New [(''path'', ''/a'')] Repl of
      Inl _ \<Rightarrow> False
    | Inr ns \<Rightarrow> ns_Stat [] (\<lambda>_. Inl ''no'') (\<lambda>f r. (None, None)) ns ''/a'' =
        (Ret (Some [(''path'', ''/a/a''), (''name'', ''a'')], None) :: (dir option \<times> fs_error option) go))"
  by code_simp

text \<open>A file with an exclamation mark in its name is looked for in another tree.\<close>

lemma ns_bang_misdirected:
  "(case ns_Mount ns_New [(''path'', ''/a''), (''addr'', ''zx!tcp!h!zx!main!/'')] Repl of
      Inl _ \<Rightarrow> False
    | Inr ns \<Rightarrow> (case ns_Resolve ns ''/a/x!y'' of
        Inr (_, [d]) \<Rightarrow> zx_SAddr d = ''zx!tcp!h!zx!main!/x'' \<and> zx_SPath d = ''y'' | _ \<Rightarrow> False))"
  by code_simp

text \<open>
  Two files of one local tree mounted below its root cannot be moved: the address of the source
  becomes that of the tree, the address of the target does not.
\<close>

lemma ns_Move_local_fails:
  "(case ns_Mount ns_New [(''path'', ''/a''), (''addr'', ''lfs!/tmp!/'')] Repl of
      Inl _ \<Rightarrow> False
    | Inr ns \<Rightarrow> ns_Move [(''/'', ())] (\<lambda>_. Inl ''no'') (\<lambda>_ _. True) (\<lambda>_ _. None) ns ''/a/x'' ''/a/y'' =
        Ret (Some (CrossDevice ''/a/x'')))"
  by code_simp

end
