(* ===== verification/NsFind.thy ===== *)
theory NsFind
  imports ZxPredString ZxPredEval NsFile
begin

text \<open>
  Finding files in a name space (src/ns/find.go): a find at a path goes to the entries mounted at
  its nearest prefix, with a predicate that prunes the prefixes mounted below, and goes on at
  those as the replies reach them.
\<close>

section \<open>Excluding the prefixes below\<close>

text \<open>\<open>New\<close> with its error ignored, which makes it a nil predicate.\<close>

definition new_or_nil :: "string \<Rightarrow> pred" where
  "new_or_nil s = (case pred_New s of Some (Inr p) \<Rightarrow> p | _ \<Rightarrow> PNil)"

definition path_pred :: "(rune \<Rightarrow> bool) \<Rightarrow> string \<Rightarrow> pred" where
  "path_pred tab nm = new_or_nil (''path='' @ go_quote tab nm)"

definition exclSuffixes :: "(rune \<Rightarrow> bool) \<Rightarrow> NS \<Rightarrow> string \<Rightarrow> pred \<Rightarrow> pred" where
  "exclSuffixes tab ns nm fpred =
     (let xpreds = map (\<lambda>p. path_pred tab (pf_name p))
            (filter (\<lambda>p. pf_name p \<noteq> nm \<and> zx_HasPrefix (pf_name p) nm) (ns_pref ns))
      in if xpreds = [] then fpred
         else (let xpred = (if length xpreds > 1 then pred_Or xpreds else hd xpreds);
                   fp = (if fpred = PNil then new_or_nil ''true'' else fpred)
               in pred_Or [pred_And [xpred, new_or_nil ''prune''], fp]))"

section \<open>Finders\<close>

text \<open>
  What a finder knows of its find; the map \<open>suffs\<close> of the prefixes below the path that are not
  yet visited is shared by the finders of one find, and is part of the state.
\<close>

record finder =
  f_name :: string
  f_upred :: pred
  f_spref :: string
  f_dpref :: string
  f_depth :: int
  f_p :: ns_prefix
  f_pred :: pred
  f_walked :: string
  f_spreds :: "(string \<times> pred) list"

type_synonym suffixes = "(string \<times> ns_prefix) list"

text \<open>
  The channel of the replies, of entries or of other messages.  When its reader closes it, the error
  is \<open>rd\<close>.  A server that can find is a function of the arguments of \<open>FindGet\<close>; \<open>Find\<close>
  is the same with entries only.
\<close>

datatype gmsg = GDir dir | GData "byte list"

record gchan =
  gc_sent :: "gmsg list"
  gc_room :: "nat option"

definition gc_send :: "gmsg \<Rightarrow> gchan \<Rightarrow> bool \<times> gchan" where
  "gc_send m c =
     (if gc_room c = Some 0 then (False, c)
      else (True, c\<lparr>gc_sent := gc_sent c @ [m], gc_room := map_option (\<lambda>n. n - 1) (gc_room c)\<rparr>))"

type_synonym find_server = "string \<Rightarrow> string \<Rightarrow> string \<Rightarrow> string \<Rightarrow> int \<Rightarrow> gmsg list \<times> string option"

text \<open>The servers: what \<open>DirFs\<close> replies for an entry, the entry as it leaves it, and whether it finds.\<close>

type_synonym find_dial = "dir \<Rightarrow> ((string + find_server option) \<times> dir) go"

definition find_searching :: "finder \<Rightarrow> bool" where
  "find_searching f \<longleftrightarrow> zx_HasPrefix (f_name f) (f_walked f)"

text \<open>An entry that is not the root of a server: found if it is the file, or below it.\<close>

definition find_leaf :: "(rune \<Rightarrow> bool) \<Rightarrow> bool \<Rightarrow> string option \<Rightarrow> finder \<Rightarrow> dir \<Rightarrow> gchan \<Rightarrow> (string option \<times> gchan) go option" where
  "find_leaf tab get rd f d c =
     (if f_name f = f_walked f \<or> \<not> find_searching f then
        (let d = dset (dset d ''name'' (path_Base (f_walked f))) ''path'' (f_walked f) in
         map_option (go_map (\<lambda>(v, pruned, err).
           if v then (case gc_send (GDir d) c of (ok, c) \<Rightarrow> (if get \<and> \<not> ok then rd else None, c)) else (None, c)))
           (EvalAt tab (f_pred f) d (f_depth f)))
      else Some (Ret (None, c)))"

text \<open>The finder that goes on at a prefix found.\<close>

definition next_finder :: "finder \<Rightarrow> ns_prefix \<Rightarrow> string \<Rightarrow> finder" where
  "next_finder f np rpath =
     f\<lparr>f_p := np,
       f_pred := (case map_of (f_spreds f) rpath of None \<Rightarrow> PNil | Some p \<Rightarrow> p),
       f_walked := rpath,
       f_depth := (if rpath \<noteq> f_name f \<and> zx_HasPrefix rpath (f_name f)
                   then int (length (zx_Elems (zx_Suffix rpath (f_name f)))) else 0)\<rparr>"

definition find_name :: "finder \<Rightarrow> dir \<Rightarrow> dir" where
  "find_name f rd = (if dget rd ''name'' = ''/'' then dset rd ''name'' (path_Base (f_walked f)) else rd)"

definition find_moved :: "finder \<Rightarrow> dir \<Rightarrow> dir" where
  "find_moved f rd =
     (if f_spref f \<noteq> f_dpref f
      then dset rd ''path'' (path_Join (f_dpref f) (zx_Suffix (dget rd ''path'') (f_spref f))) else rd)"

text \<open>
  \<open>find1\<close> and \<open>find1get\<close>, by the flag \<open>get\<close>: one mount point, the loop over the replies of its server, and
  the loop over the entries mounted at a prefix found.  The calls go down the prefixes that the
  replies name, which the code does not bound: None is out of fuel.  One mount returns its error and the entry
  as \<open>DirFs\<close> leaves it; the loop over the mounts below says whether the reader is gone.
\<close>

type_synonym mount_res = "(string option \<times> dir \<times> suffixes \<times> gchan) go option"
type_synonym find_res = "(string option \<times> suffixes \<times> gchan) go option"
type_synonym below_res = "(bool \<times> suffixes \<times> gchan) go option"

definition not_finder :: "bool \<Rightarrow> dir \<Rightarrow> string" where
  "not_finder get d = dget d ''path'' @ (if get then '': not a findgetter'' else '': not a finder'')"

definition find_pending :: "finder \<Rightarrow> string" where
  "find_pending f = (if find_searching f then zx_Suffix (f_name f) (f_walked f) else ''/'')"

function (sequential) find_mount ::
    "nat \<Rightarrow> (rune \<Rightarrow> bool) \<Rightarrow> find_dial \<Rightarrow> bool \<Rightarrow> string option \<Rightarrow> finder \<Rightarrow> dir \<Rightarrow> suffixes \<Rightarrow> gchan \<Rightarrow> mount_res"
  and find_replies ::
    "nat \<Rightarrow> (rune \<Rightarrow> bool) \<Rightarrow> find_dial \<Rightarrow> bool \<Rightarrow> string option \<Rightarrow> finder \<Rightarrow> string option \<Rightarrow> gmsg list \<Rightarrow> suffixes \<Rightarrow> gchan \<Rightarrow> find_res"
  and find_below ::
    "nat \<Rightarrow> (rune \<Rightarrow> bool) \<Rightarrow> find_dial \<Rightarrow> bool \<Rightarrow> string option \<Rightarrow> finder \<Rightarrow> dir list \<Rightarrow> suffixes \<Rightarrow> gchan \<Rightarrow> below_res" where
  "find_mount 0 tab dial get rd f d sf c = None"
| "find_mount (Suc k) tab dial get rd f d sf c =
     (if \<not> zx_IsFinder d then map_option (go_map (\<lambda>(e, c). (e, d, sf, c))) (find_leaf tab get rd f d c)
      else (case dial d of
          Panic \<Rightarrow> Some Panic
        | Ret (Inl e, d) \<Rightarrow> Some (Ret (Some e, d, sf, c))
        | Ret (Inr None, d) \<Rightarrow> Some (Ret (Some (not_finder get d), d, sf, c))
        | Ret (Inr (Some srv), d) \<Rightarrow>
            (case pred_String (f_pred f) of
               Panic \<Rightarrow> Some Panic
             | Ret ps \<Rightarrow>
                 (case srv (path_Join (zx_SPath d) (find_pending f)) ps (zx_SPath d) (f_walked f) (f_depth f) of
                    (reps, err) \<Rightarrow>
                      map_option (go_map (\<lambda>(e, sf, c). (e, d, sf, c))) (find_replies k tab dial get rd f err reps sf c)))))"
| "find_replies k tab dial get rd f err [] sf c = Some (Ret (err, sf, c))"
| "find_replies k tab dial get rd f err (GData b # reps) sf c =
     (case gc_send (GData b) c of
        (ok, c) \<Rightarrow> if \<not> ok then Some (Ret (rd, sf, c)) else find_replies k tab dial get rd f err reps sf c)"
| "find_replies k tab dial get rd f err (GDir rd0 # reps) sf c =
     (let r = find_name f rd0; rpath = dget r ''path'' in
      case (case map_of sf rpath of None \<Rightarrow> None | Some np \<Rightarrow> if pf_name np \<noteq> pf_name (f_p f) then Some np else None) of
        Some np \<Rightarrow>
          (case find_below k tab dial get rd (next_finder f np rpath) (pf_mnt np) sf c of
             None \<Rightarrow> None
           | Some Panic \<Rightarrow> Some Panic
           | Some (Ret (True, sf, c)) \<Rightarrow> Some (Ret (rd, sf, c))
           | Some (Ret (False, sf, c)) \<Rightarrow> find_replies k tab dial get rd f err reps (AList.delete rpath sf) c)
      | None \<Rightarrow>
          (case gc_send (GDir (find_moved f r)) c of
             (ok, c) \<Rightarrow> if \<not> ok then Some (Ret (rd, sf, c)) else find_replies k tab dial get rd f err reps sf c))"
| "find_below k tab dial get rd nf [] sf c = Some (Ret (False, sf, c))"
| "find_below k tab dial get rd nf (nd # nds) sf c =
     (case (case k of 0 \<Rightarrow> None | Suc k' \<Rightarrow> find_mount k' tab dial get rd nf nd sf c) of
        None \<Rightarrow> None
      | Some Panic \<Rightarrow> Some Panic
      | Some (Ret (None, nd, sf, c)) \<Rightarrow> find_below k tab dial get rd nf nds sf c
      | Some (Ret (Some e, nd, sf, c)) \<Rightarrow>
          (case gc_send (GDir (dset nd ''err'' e)) c of
             (ok, c) \<Rightarrow> if \<not> ok then Some (Ret (True, sf, c)) else find_below k tab dial get rd nf nds sf c))"
  by pat_completeness auto
termination
  by (relation "measures [\<lambda>x. case x of Inl (k, _) \<Rightarrow> 2 * k | Inr (Inl (k, _)) \<Rightarrow> 2 * k + 1 | Inr (Inr (k, _)) \<Rightarrow> 2 * k,
      \<lambda>x. case x of Inl _ \<Rightarrow> 0 | Inr (Inl (_, _, _, _, _, _, _, reps, _)) \<Rightarrow> length reps | Inr (Inr (_, _, _, _, _, _, ds, _)) \<Rightarrow> length ds]")
    simp_all

section \<open>Finding\<close>

definition find_suffixes :: "NS \<Rightarrow> ns_prefix \<Rightarrow> string \<Rightarrow> ns_prefix list" where
  "find_suffixes ns p name = filter (\<lambda>xp. pf_name p \<noteq> pf_name xp \<and> zx_HasPrefix (pf_name xp) name) (ns_pref ns)"

fun find_each_mount ::
    "nat \<Rightarrow> (rune \<Rightarrow> bool) \<Rightarrow> find_dial \<Rightarrow> bool \<Rightarrow> string option \<Rightarrow> finder \<Rightarrow> bool \<Rightarrow> dir list \<Rightarrow> suffixes \<Rightarrow> gchan \<Rightarrow>
      (string option \<times> gchan) go option" where
  "find_each_mount k tab dial get rd f single [] sf c = Some (Ret (None, c))"
| "find_each_mount k tab dial get rd f single (d # ds) sf c =
     (case find_mount k tab dial get rd f d sf c of
        None \<Rightarrow> None
      | Some Panic \<Rightarrow> Some Panic
      | Some (Ret (err, d, sf, c)) \<Rightarrow>
          if single then Some (Ret (err, c))
          else (case err of
              None \<Rightarrow> find_each_mount k tab dial get rd f single ds sf c
            | Some e \<Rightarrow> (case gc_send (GDir (dset d ''err'' e)) c of
                (ok, c) \<Rightarrow> if \<not> ok then Some (Ret (rd, c)) else find_each_mount k tab dial get rd f single ds sf c)))"

definition finder_find ::
    "nat \<Rightarrow> (rune \<Rightarrow> bool) \<Rightarrow> find_dial \<Rightarrow> bool \<Rightarrow> string option \<Rightarrow> NS \<Rightarrow> finder \<Rightarrow> gchan \<Rightarrow>
      (string option \<times> gchan) go option" where
  "finder_find k tab dial get rd ns f0 c =
     (case resolve_prefix (f_name f0) (ns_pref ns) of
        None \<Rightarrow> Some (Ret (Some ErrNotExist, c))
      | Some p \<Rightarrow>
          (let xs = find_suffixes ns p (f_name f0);
               f = f0\<lparr>f_p := p, f_pred := exclSuffixes tab ns (pf_name p) (f_upred f0), f_walked := pf_name p,
                 f_spreds := map (\<lambda>xp. (pf_name xp, exclSuffixes tab ns (pf_name xp) (f_upred f0))) xs\<rparr>
           in find_each_mount k tab dial get rd f (length (pf_mnt p) = 1) (pf_mnt p) (map (\<lambda>xp. (pf_name xp, xp)) xs) c))"

text \<open>\<open>findget\<close> closes the channel with the error it returns; out of the paths and the predicate it
  makes the finder.\<close>

definition bad_path :: "string \<Rightarrow> string" where
  "bad_path s = [CHR 0x27] @ s @ [CHR 0x27] @ '' is not an absolute path''"

fun find_paths :: "string \<Rightarrow> string \<Rightarrow> string + string \<times> string" where
  "find_paths spref dpref =
     (if spref \<noteq> [] \<or> dpref \<noteq> [] then
        (case zx_UseAbsPath spref of
           None \<Rightarrow> Inl (bad_path spref)
         | Some s \<Rightarrow> (case zx_UseAbsPath dpref of None \<Rightarrow> Inl (bad_path dpref) | Some d \<Rightarrow> Inr (s, d)))
      else Inr (spref, dpref))"

definition find_args :: "string \<Rightarrow> string \<Rightarrow> string \<Rightarrow> string \<Rightarrow> int \<Rightarrow> (string + finder) option" where
  "find_args name fpred spref dpref depth0 =
     (case find_paths spref dpref of
        Inl e \<Rightarrow> Some (Inl e)
      | Inr (s, d) \<Rightarrow>
          (case zx_UseAbsPath name of
             None \<Rightarrow> Some (Inl (bad_path name))
           | Some n \<Rightarrow> map_option (map_sum id (\<lambda>x.
               \<lparr>f_name = n, f_upred = x, f_spref = s, f_dpref = d, f_depth = depth0,
                f_p = \<lparr>pf_name = [], pf_mnt = []\<rparr>, f_pred = PNil, f_walked = [], f_spreds = []\<rparr>)) (pred_New fpred)))"

definition ns_findget ::
    "nat \<Rightarrow> (rune \<Rightarrow> bool) \<Rightarrow> find_dial \<Rightarrow> bool \<Rightarrow> string option \<Rightarrow> NS \<Rightarrow> string \<Rightarrow> string \<Rightarrow> string \<Rightarrow> string \<Rightarrow> int \<Rightarrow>
      gchan \<Rightarrow> (string option \<times> gchan) go option" where
  "ns_findget k tab dial get rd ns name fpred spref dpref depth0 c =
     (case find_args name fpred spref dpref depth0 of
        None \<Rightarrow> None
      | Some (Inl e) \<Rightarrow> Some (Ret (Some e, c))
      | Some (Inr f) \<Rightarrow> finder_find k tab dial get rd ns f c)"

definition ns_Find where
  "ns_Find k tab dial rd ns name fpred spref dpref depth0 c =
     ns_findget k tab dial False rd ns name fpred spref dpref depth0 c"

definition ns_FindGet where
  "ns_FindGet k tab dial rd ns name fpred spref dpref depth0 c =
     ns_findget k tab dial True rd ns name fpred spref dpref depth0 c"

end
