(* ===== verification/NsFindProps.thy ===== *)
theory NsFindProps
  imports NsFind ZxPredProps
begin

text \<open>
  What a find in a name space asks for, and that it ends: the predicate for a prefix prunes exactly
  the prefixes mounted below it, and the finds go down a finite number of prefixes when the
  servers reply with files below the path they are asked about.
\<close>

section \<open>The predicate that excludes the prefixes below\<close>

text \<open>Names that quoting leaves as they are.\<close>

definition plain_path :: "string \<Rightarrow> bool" where
  "plain_path nm \<longleftrightarrow> (\<forall>c\<in>set nm. plain_char c)"

lemma plain_unquoted: "plain_char c \<Longrightarrow> ascii c \<and> c \<noteq> CHR 0x22"
  by (simp add: plain_char_def ascii_def)

lemma quote_codes: "(of_char c :: nat) = 34 \<longleftrightarrow> c = CHR 0x22" "(of_char c :: nat) = 92 \<longleftrightarrow> c = CHR 0x5C"
  using of_char_eq_iff[of c "CHR 0x22", where 'a=nat] of_char_eq_iff[of c "CHR 0x5C", where 'a=nat] by simp_all

lemma quote_plain: "plain_path nm \<Longrightarrow> go_quote tab nm = CHR 0x22 # nm @ [CHR 0x22]"
proof -
  assume p: "plain_path nm"
  then have a: "\<forall>c\<in>set nm. ascii c" by (auto simp: plain_path_def plain_graph)
  have "esc_char c = [c]" if "plain_char c" for c
    using that by (auto simp: plain_char_def esc_char_def Let_def quote_codes)
  then have "concat (map esc_char nm) = nm" using p by (induction nm) (auto simp: plain_path_def)
  then show ?thesis by (simp add: go_quote_def quote_body_ascii[OF a])
qed

lemma lex_path: "lex_next (rs ''path'' @ 61 # t) = ((CName, ''path'', None), 61 # t)"
  using lex_words[of "''path''" "61 # t"]
  by (simp add: word_char_def ascii_def stop_def pred_isspace_def pred_ispunct_def)

lemma lex_eqs: "hd t \<noteq> 61 \<Longrightarrow> \<exists>v. lex_next (61 # t) = ((CEqs, v, None), t)"
  by (simp add: lex_next_def lex_token_def lex_single_def lex_order_def pred_isspace_def)

lemma lex_string:
  "\<forall>c\<in>set w. ascii c \<and> c \<noteq> CHR 0x22 \<Longrightarrow> lex_next (34 # rs w @ [34]) = ((CName, w, None), [])"
proof -
  assume w: "\<forall>c\<in>set w. ascii c \<and> c \<noteq> CHR 0x22"
  have "of_char c \<noteq> (34 :: rune)" if "c \<noteq> CHR 0x22" for c
    using that of_char_eq_iff[of c "CHR 0x22", where 'a=int] by simp
  then have q: "\<And>x. x \<in> set (rs w) \<Longrightarrow> x \<noteq> 34" using w by auto
  have tw: "takeWhile (\<lambda>x. x \<noteq> 34) (rs w @ [34]) = rs w" by (subst takeWhile_append2) (simp_all add: q del: set_map)
  have dw: "dropWhile (\<lambda>x. x \<noteq> 34) (rs w @ [34]) = [34]" by (subst dropWhile_append2) (simp_all add: q del: set_map)
  have s: "go_string (rs w) = w" using w by (intro go_string_ascii) blast
  have m: "34 \<in> set (rs w @ [34])" "rs w @ [34] \<noteq> []" by simp_all
  have "lex_quoted 34 (rs w @ [34]) = ((CName, w, None), [])"
    unfolding lex_quoted_def tw dw s using m by simp
  then show ?thesis by (simp add: lex_next_def lex_token_def lex_single_def pred_isspace_def)
qed

lemma path_pred_plain:
  assumes "plain_path nm"
  shows "path_pred tab nm = Pred CEqs ''path'' nm []"
proof -
  have a: "\<forall>c\<in>set nm. ascii c \<and> c \<noteq> CHR 0x22"
    using assms plain_unquoted unfolding plain_path_def by blast
  let ?s = "''path='' @ CHR 0x22 # nm @ [CHR 0x22]"
  let ?t = "rs ''path'' @ 61 # 34 # rs nm @ [34]"
  have q: "(of_char (CHR 0x22) :: rune) = 34" by simp
  have "\<forall>c\<in>set ?s. ascii c" using a by (simp add: ascii_def ball_Un)
  then have runes: "go_runes ?s = ?t" by (simp add: go_runes_ascii)
  have l: "lex_next ?t = ((CName, ''path'', None), 61 # 34 # rs nm @ [34])" by (rule lex_path)
  obtain v where e: "lex_next (61 # 34 # rs nm @ [34]) = ((CEqs, v, None), 34 # rs nm @ [34])"
    using lex_eqs[of "34 # rs nm @ [34]"] by auto
  have named: "parse_named ''path'' (61 # 34 # rs nm @ [34]) = Some (Inr (Pred CEqs ''path'' nm [], []))"
    by (simp add: parse_named_def e lex_string[OF a] go_atoi_def go_parse_int_def go_parse_uint_def digit_val_def)
  have prim: "parse_prim (Suc k) ?t = Some (Inr (Pred CEqs ''path'' nm [], []))" for k
    using prim_step[OF l, of k] named by simp
  have ands: "parse_ands (Suc (Suc k)) ?t = Some (Inr (Pred CEqs ''path'' nm [], []))" for k
    by (simp only: parse_ands.simps prim) (simp add: ands_step group_args_def)
  have "parse_ors (Suc (Suc (Suc k))) ?t = Some (Inr (Pred CEqs ''path'' nm [], []))" for k
    by (simp only: parse_ors.simps ands) (simp add: ors_step group_args_def)
  moreover have "\<exists>k. parse_fuel ?t = Suc (Suc (Suc k))" by (simp add: parse_fuel_def)
  ultimately have ors: "parse_ors (parse_fuel ?t) ?t = Some (Inr (Pred CEqs ''path'' nm [], []))" by metis
  have "pred_New ?s = Some (Inr (Pred CEqs ''path'' nm []))"
    unfolding pred_New_def pred_parse_def runes ors by (simp add: lex_peek_def)
  moreover have "''path='' @ go_quote tab nm = ?s" by (simp add: quote_plain[OF assms])
  ultimately show ?thesis by (simp only: path_pred_def new_or_nil_def option.case sum.case)
qed

lemma new_atoms: "new_or_nil ''prune'' = Pred CPrune [] [] []" "new_or_nil ''true'' = Pred CTrue [] [] []"
  by code_simp+

definition below_names :: "NS \<Rightarrow> string \<Rightarrow> string list" where
  "below_names ns nm = map pf_name (filter (\<lambda>p. pf_name p \<noteq> nm \<and> zx_HasPrefix (pf_name p) nm) (ns_pref ns))"

lemma or_paths:
  assumes "map_of d ''path'' = Some q"
  shows "or_loop tab (map (\<lambda>nm. Pred CEqs ''path'' nm []) nms) d lvl = Some (Ret (q \<in> set nms, False, None))"
  by (induction nms) (simp_all add: eval_attr_def assms)

lemma excl_eval:
  assumes plain: "\<forall>nm\<in>set (below_names ns nm). plain_path nm" and q: "map_of d ''path'' = Some q"
  shows "EvalAt tab (exclSuffixes tab ns nm fp) d lvl =
    (if q \<in> set (below_names ns nm) then Some (Ret (False, True, None)) else EvalAt tab fp d lvl)"
proof (cases "below_names ns nm = []")
  case True
  then show ?thesis by (simp add: exclSuffixes_def below_names_def)
next
  case False
  let ?nms = "below_names ns nm" let ?xs = "map (\<lambda>nm. Pred CEqs ''path'' nm []) ?nms"
  let ?x = "if length ?xs > 1 then pred_Or ?xs else hd ?xs"
  let ?fp = "if fp = PNil then Pred CTrue [] [] [] else fp"
  have xs: "map (\<lambda>p. path_pred tab (pf_name p)) (filter (\<lambda>p. pf_name p \<noteq> nm \<and> zx_HasPrefix (pf_name p) nm) (ns_pref ns)) = ?xs"
    using plain path_pred_plain[of _ tab] by (simp add: below_names_def)
  have ex: "exclSuffixes tab ns nm fp = pred_Or [pred_And [?x, Pred CPrune [] [] []], ?fp]"
    using False unfolding exclSuffixes_def Let_def xs new_atoms by simp
  have x: "EvalAt tab ?x d lvl = Some (Ret (q \<in> set ?nms, False, None))"
  proof (cases "length ?xs > 1")
    case True
    then show ?thesis using or_paths[OF q, of tab ?nms lvl] by (simp add: pred_Or_def)
  next
    case one: False
    then obtain n where "?nms = [n]" using False by (cases ?nms; cases "tl ?nms") auto
    then show ?thesis by (simp add: eval_attr_def q)
  qed
  have f: "EvalAt tab ?fp d lvl = EvalAt tab fp d lvl" by simp
  have o: "or_loop tab [p] d lvl = EvalAt tab p d lvl" for p
    by (cases "EvalAt tab p d lvl"; simp; rename_tac y; case_tac y) auto
  have p: "EvalAt tab (Pred CPrune [] [] []) d lvl = Some (Ret (False, True, None))" by simp
  have a: "EvalAt tab (pred_And [?x, Pred CPrune [] [] []]) d lvl = Some (Ret (False, q \<in> set ?nms, None))"
  proof -
    have "EvalAt tab (pred_And [?x, Pred CPrune [] [] []]) d lvl = and_loop tab [?x, Pred CPrune [] [] []] d lvl"
      by (simp add: pred_And_def)
    also have "\<dots> = Some (Ret (False, q \<in> set ?nms, None))"
      unfolding and_loop.simps x p by simp
    finally show ?thesis .
  qed
  have "EvalAt tab (exclSuffixes tab ns nm fp) d lvl = or_loop tab [pred_And [?x, Pred CPrune [] [] []], ?fp] d lvl"
    unfolding ex by (simp add: pred_Or_def)
  also have "\<dots> = (if q \<in> set ?nms then Some (Ret (False, True, None)) else or_loop tab [?fp] d lvl)"
    unfolding or_loop.simps(2)[of tab "pred_And [?x, Pred CPrune [] [] []]" "[?fp]"] a by simp
  finally show ?thesis unfolding o f .
qed

text \<open>Names of mounts that are words in predicates, and that quoting leaves as they are.\<close>

definition wire_path :: "string \<Rightarrow> bool" where
  "wire_path nm \<longleftrightarrow> plain_path nm \<and> plain_word nm"

lemma excl_none: "below_names ns nm = [] \<Longrightarrow> exclSuffixes tab ns nm fp = fp"
  by (simp add: exclSuffixes_def below_names_def)

lemma excl_word:
  assumes "\<forall>nm'\<in>set (below_names ns nm). wire_path nm'" and "below_names ns nm \<noteq> []" and "fp = PNil \<or> words_pred fp"
  shows "words_pred (exclSuffixes tab ns nm fp)"
proof -
  let ?nms = "below_names ns nm" let ?xs = "map (\<lambda>nm. Pred CEqs ''path'' nm []) ?nms"
  let ?x = "if length ?xs > 1 then pred_Or ?xs else hd ?xs"
  have xs: "map (\<lambda>p. path_pred tab (pf_name p)) (filter (\<lambda>p. pf_name p \<noteq> nm \<and> zx_HasPrefix (pf_name p) nm) (ns_pref ns)) = ?xs"
    using assms(1) path_pred_plain[of _ tab] by (simp add: below_names_def wire_path_def)
  have ex: "exclSuffixes tab ns nm fp = pred_Or [pred_And [?x, Pred CPrune [] [] []], if fp = PNil then Pred CTrue [] [] [] else fp]"
    using assms(2) unfolding exclSuffixes_def Let_def xs new_atoms by simp
  have "plain_name ''path''"
    by (simp add: plain_name_def plain_word_def word_char_def ascii_def pred_ispunct_def pred_isspace_def
        go_atoi_def go_parse_int_def go_parse_uint_def digit_val_def)
  then have w: "\<forall>x\<in>set ?xs. words_pred x" using assms(1) by (simp add: wire_path_def)
  moreover have "hd ?xs \<in> set ?xs" using assms(2) by (intro hd_in_set) simp
  ultimately have "words_pred (hd ?xs)" by blast
  then have "words_pred ?x" using w by (cases "length ?xs > 1") (simp_all add: pred_Or_def Suc_le_eq)
  then show ?thesis using assms(3) unfolding ex by (auto simp: pred_Or_def pred_And_def)
qed

text \<open>
  C24: the predicate that a find sends to the servers of a prefix, as the string that its server parses back, prunes the
  entries at the paths mounted below the prefix, whatever the user's predicate says of them, and is the user's predicate
  everywhere else.  The names mounted below must be words, not quoted when they are printed: printable ASCII with no
  blank, quote, backslash or punctuation of predicates; and the user's predicate, if there is one, must have words as
  names and values.
\<close>

theorem ns_excl_prunes:
  assumes "\<forall>nm'\<in>set (below_names ns nm). wire_path nm'" and "fp = PNil \<or> words_pred fp"
  shows "\<exists>s x. pred_String (exclSuffixes tab ns nm fp) = Ret s \<and> pred_New s = Some (Inr x) \<and>
    (\<forall>d q lvl. map_of d ''path'' = Some q \<longrightarrow> EvalAt tab x d lvl =
      (if q \<in> set (below_names ns nm) then Some (Ret (False, True, None)) else EvalAt tab fp d lvl))"
proof -
  let ?x = "exclSuffixes tab ns nm fp"
  have sent: "\<exists>s. pred_String ?x = Ret s \<and> pred_New s = Some (Inr (flat_pred ?x))"
  proof (cases "below_names ns nm = [] \<and> fp = PNil")
    case True
    then have "?x = PNil" by (simp add: excl_none)
    then show ?thesis by (simp add: pred_New_def)
  next
    case False
    then have "words_pred ?x"
      using excl_word[OF assms(1) _ assms(2), of tab] assms(2) excl_none[of ns nm tab fp] by (cases "below_names ns nm = []") auto
    from word_New[OF this] show ?thesis by blast
  qed
  have "\<forall>nm'\<in>set (below_names ns nm). plain_path nm'" using assms(1) by (simp add: wire_path_def)
  from excl_eval[OF this, of _ _ tab fp] have ev: "map_of d ''path'' = Some q \<Longrightarrow> EvalAt tab (flat_pred ?x) d lvl =
      (if q \<in> set (below_names ns nm) then Some (Ret (False, True, None)) else EvalAt tab fp d lvl)" for d q lvl
    by (simp only: EvalAt_flat)
  obtain s where "pred_String ?x = Ret s" "pred_New s = Some (Inr (flat_pred ?x))" using sent by blast
  then show ?thesis using ev by (intro exI[of _ s] exI[of _ "flat_pred ?x"]) blast
qed

theorem ns_excl_prunes_witness:
  "\<exists>s x. pred_String (exclSuffixes ascii_tab demo_ns ''/'' (pred_Or [Pred CEqs ''type'' ''d'' [], Pred CMatch ''name'' ''*.go'' []])) = Ret s \<and>
    pred_New s = Some (Inr x) \<and> EvalAt ascii_tab x [(''path'', ''/a''), (''type'', ''d'')] 1 = Some (Ret (False, True, None))"
proof -
  let ?fp = "pred_Or [Pred CEqs ''type'' ''d'' [], Pred CMatch ''name'' ''*.go'' []]"
  have b: "below_names demo_ns ''/'' = [''/a'', ''/a/b'']" by code_simp
  have w: "\<forall>nm\<in>set (below_names demo_ns ''/''). wire_path nm"
    unfolding b by (simp add: wire_path_def plain_path_def plain_char_def plain_word_def word_char_def ascii_def
        pred_ispunct_def pred_isspace_def)
  have "plain_name ''type''" "plain_name ''name''" "plain_word ''d''" "plain_word ''*.go''"
    by (simp_all add: plain_name_def plain_word_def word_char_def ascii_def pred_ispunct_def pred_isspace_def
        go_atoi_def go_parse_int_def go_parse_uint_def digit_val_def)
  then have f: "?fp = PNil \<or> words_pred ?fp" by (simp add: pred_Or_def)
  have p: "map_of [(''path'', ''/a''), (''type'', ''d'')] ''path'' = Some ''/a''" "''/a'' \<in> set (below_names demo_ns ''/'')"
    by (simp_all add: b)
  obtain s x where "pred_String (exclSuffixes ascii_tab demo_ns ''/'' ?fp) = Ret s" "pred_New s = Some (Inr x)"
    "\<forall>d q lvl. map_of d ''path'' = Some q \<longrightarrow> EvalAt ascii_tab x d lvl =
      (if q \<in> set (below_names demo_ns ''/'') then Some (Ret (False, True, None)) else EvalAt ascii_tab ?fp d lvl)"
    using ns_excl_prunes[OF w f, of ascii_tab] by blast
  then show ?thesis using p by (intro exI[of _ s] exI[of _ x]) auto
qed

text \<open>The predicate sent for a mount whose name has a blank does not parse.\<close>

lemma ns_excl_blank:
  "pred_String (pred_Or [pred_And [path_pred ascii_tab ''/a b'', new_or_nil ''prune''], new_or_nil ''true'']) =
     Ret ''path = /a b & prune | true'' \<and> pred_New ''path = /a b & prune | true'' = Some (Inl ''syntax error'')"
  by code_simp

text \<open>A quote in the name of a mount makes its predicate nil, and printing a predicate with a nil
  argument panics.\<close>

lemma ns_excl_nil:
  "path_pred (\<lambda>_. True) [slash, CHR ''a'', CHR 0x22, CHR ''b''] = PNil \<and>
   pred_String (pred_Or [pred_And [PNil, new_or_nil ''prune''], new_or_nil ''true'']) = Panic"
  by code_simp

section \<open>Finds end\<close>

text \<open>
  Servers reply with entries below the path that replaces the start of theirs (\<open>dpref\<close>), as the
  comment of \<open>Finder\<close> in src/zx/fs.go asks for.
\<close>

definition servers_below :: "find_dial \<Rightarrow> bool" where
  "servers_below dial \<longleftrightarrow>
     (\<forall>d srv d' sname ps spref dpref depth rd. dial d = Ret (Inr (Some srv), d') \<longrightarrow>
        GDir rd \<in> set (fst (srv sname ps spref dpref depth)) \<longrightarrow> zx_HasPrefix (dget rd ''path'') dpref)"

text \<open>The prefixes strictly below a path, which a find at the path may still go down to.\<close>

definition strictly_below :: "NS \<Rightarrow> string \<Rightarrow> ns_prefix set" where
  "strictly_below ns w = {p \<in> set (ns_pref ns). zx_HasPrefix (pf_name p) w \<and> pf_name p \<noteq> w}"

lemma strictly_below_less:
  assumes wf: "ns_wf ns" and p: "p \<in> strictly_below ns w" and w: "abs_name w"
  shows "card (strictly_below ns (pf_name p)) < card (strictly_below ns w)"
proof -
  have pw: "p \<in> set (ns_pref ns)" "zx_HasPrefix (pf_name p) w" "pf_name p \<noteq> w" using p by (auto simp: strictly_below_def)
  then have np: "abs_name (pf_name p)" using wf by (auto simp: ns_wf_def list_all_iff wf_prefix_def)
  have hp: "zx_HasPrefix x y \<longleftrightarrow> prefix (zx_Elems y) (zx_Elems x)" if "abs_name x" "abs_name y" for x y
    using wf_HasPrefix[of "\<lparr>pf_name = y, pf_mnt = [[(''path'', y), (''name'', path_Base y)]]\<rparr>" x] that
    by (simp add: wf_prefix_def p_key_def wf_dir_def dget_def)
  have "strictly_below ns (pf_name p) \<subset> strictly_below ns w"
  proof (rule psubsetI)
    show "strictly_below ns (pf_name p) \<subseteq> strictly_below ns w"
    proof
      fix q assume "q \<in> strictly_below ns (pf_name p)"
      then have q: "q \<in> set (ns_pref ns)" "zx_HasPrefix (pf_name q) (pf_name p)" "pf_name q \<noteq> pf_name p"
        by (auto simp: strictly_below_def)
      then have nq: "abs_name (pf_name q)" using wf by (auto simp: ns_wf_def list_all_iff wf_prefix_def)
      have 1: "prefix (zx_Elems w) (zx_Elems (pf_name p))" "prefix (zx_Elems (pf_name p)) (zx_Elems (pf_name q))"
        using pw(2) q(2) hp[OF np w] hp[OF nq np] by simp_all
      then have "prefix (zx_Elems w) (zx_Elems (pf_name q))" by (rule prefix_order.trans)
      moreover have "pf_name q \<noteq> w"
        using 1 q(3) prefix_order.antisym abs_name_inj[OF nq np] by metis
      ultimately show "q \<in> strictly_below ns w" using q(1) hp[OF nq w] by (simp add: strictly_below_def)
    qed
    show "strictly_below ns (pf_name p) \<noteq> strictly_below ns w" using p by (auto simp: strictly_below_def)
  qed
  moreover have "finite (strictly_below ns w)" by (simp add: strictly_below_def)
  ultimately show ?thesis by (rule psubset_card_mono[rotated])
qed

text \<open>A predicate whose evaluation ends at entries with a path.\<close>

definition path_total :: "(rune \<Rightarrow> bool) \<Rightarrow> pred \<Rightarrow> bool" where
  "path_total tab x \<longleftrightarrow> (\<forall>d lvl. map_of d ''path'' \<noteq> None \<longrightarrow> EvalAt tab x d lvl \<noteq> None)"

text \<open>A finder at one of the prefixes, with what may be left to visit.\<close>

definition find_inv :: "(rune \<Rightarrow> bool) \<Rightarrow> NS \<Rightarrow> finder \<Rightarrow> suffixes \<Rightarrow> bool" where
  "find_inv tab ns f sf \<longleftrightarrow>
     abs_name (f_walked f) \<and> f_walked f = pf_name (f_p f) \<and>
     path_total tab (f_pred f) \<and>
     (\<forall>(k, xp)\<in>set sf. pf_name xp = k \<and> xp \<in> set (ns_pref ns)) \<and>
     (\<forall>x\<in>snd ` set (f_spreds f). path_total tab x)"

lemma find_invD:
  assumes "find_inv tab ns f sf"
  shows "abs_name (f_walked f)" and "f_walked f = pf_name (f_p f)" and "path_total tab (f_pred f)"
    and "\<forall>(k, xp)\<in>set sf. pf_name xp = k \<and> xp \<in> set (ns_pref ns)" and "\<forall>x\<in>snd ` set (f_spreds f). path_total tab x"
  using assms unfolding find_inv_def by blast+

lemma find_inv_mono: "find_inv tab ns f sf \<Longrightarrow> set sf' \<subseteq> set sf \<Longrightarrow> find_inv tab ns f sf'"
  unfolding find_inv_def by blast

lemma find_inv_next:
  assumes "find_inv tab ns f sf" and "map_of sf rpath = Some np" and wf: "ns_wf ns"
  shows "find_inv tab ns (next_finder f np rpath) sf"
proof -
  have "(rpath, np) \<in> set sf" using assms(2) by (rule map_of_SomeD)
  then have np: "pf_name np = rpath" "np \<in> set (ns_pref ns)" using assms(1) by (auto simp: find_inv_def)
  then have "abs_name rpath" using wf by (auto simp: ns_wf_def list_all_iff wf_prefix_def)
  moreover have "path_total tab (case map_of (f_spreds f) rpath of None \<Rightarrow> PNil | Some p \<Rightarrow> p)"
  proof (cases "map_of (f_spreds f) rpath")
    case (Some x)
    then show ?thesis using map_of_SomeD[OF Some] find_invD(5)[OF assms(1)] by force
  qed (simp add: path_total_def)
  ultimately show ?thesis using assms(1) np(1) by (simp add: find_inv_def next_finder_def)
qed


lemma leaf_total:
  assumes "path_total tab (f_pred f)"
  shows "find_leaf tab get rd f d c \<noteq> None"
proof -
  let ?d = "dset (dset d ''name'' (path_Base (f_walked f))) ''path'' (f_walked f)"
  have "EvalAt tab (f_pred f) ?d (f_depth f) \<noteq> None" using assms unfolding path_total_def by simp
  then show ?thesis by (auto simp: find_leaf_def Let_def)
qed

text \<open>Nothing is added to the prefixes not yet visited.\<close>

definition shrinks_below :: "suffixes \<Rightarrow> below_res \<Rightarrow> bool" where
  "shrinks_below sf r \<longleftrightarrow> r \<noteq> None \<and> (\<forall>s sf' c'. r = Some (Ret (s, sf', c')) \<longrightarrow> set sf' \<subseteq> set sf)"

definition shrinks_find :: "suffixes \<Rightarrow> find_res \<Rightarrow> bool" where
  "shrinks_find sf r \<longleftrightarrow> r \<noteq> None \<and> (\<forall>e sf' c'. r = Some (Ret (e, sf', c')) \<longrightarrow> set sf' \<subseteq> set sf)"

definition shrinks_mount :: "suffixes \<Rightarrow> mount_res \<Rightarrow> bool" where
  "shrinks_mount sf r \<longleftrightarrow> r \<noteq> None \<and> (\<forall>e d sf' c'. r = Some (Ret (e, d, sf', c')) \<longrightarrow> set sf' \<subseteq> set sf)"

lemma below_ends:
  assumes mount: "\<And>d sf c. set sf \<subseteq> set sf0 \<Longrightarrow> shrinks_mount sf (find_mount k tab dial get rd nf d sf c)"
  shows "set sf \<subseteq> set sf0 \<Longrightarrow> shrinks_below sf (find_below (Suc k) tab dial get rd nf ds sf c)"
proof (induction ds arbitrary: sf c)
  case (Cons d ds)
  have m: "shrinks_mount sf (find_mount k tab dial get rd nf d sf c)" using mount Cons.prems by blast
  have step: "shrinks_below sf (find_below (Suc k) tab dial get rd nf ds sf' c')" if "set sf' \<subseteq> set sf" for sf' c'
    using Cons.IH[of sf' c'] that Cons.prems unfolding shrinks_below_def by blast
  show ?case
  proof (cases "find_mount k tab dial get rd nf d sf c")
    case None
    then show ?thesis using m by (simp add: shrinks_mount_def)
  next
    case (Some r)
    show ?thesis
    proof (cases r)
      case Panic
      then show ?thesis using Some by (simp add: shrinks_below_def)
    next
      case (Ret y)
      obtain e d' sf' c' where y: "y = (e, d', sf', c')" by (cases y)
      have sub: "set sf' \<subseteq> set sf" using m Some Ret y by (simp add: shrinks_mount_def)
      show ?thesis
      proof (cases e)
        case None
        then show ?thesis using Some Ret y step[OF sub] by simp
      next
        case (Some x)
        obtain ok c2 where g: "gc_send (GDir (dset d' ''err'' x)) c' = (ok, c2)"
          by (cases "gc_send (GDir (dset d' ''err'' x)) c'")
        have "find_below (Suc k) tab dial get rd nf (d # ds) sf c =
            (if \<not> ok then Some (Ret (True, sf', c2)) else find_below (Suc k) tab dial get rd nf ds sf' c2)"
          using \<open>find_mount k tab dial get rd nf d sf c = Some r\<close> Ret y Some g by simp
        then show ?thesis using step[OF sub] sub by (simp add: shrinks_below_def)
      qed
    qed
  qed
qed (simp add: shrinks_below_def)

text \<open>The loop over the replies of a server, given that the finds further down end.\<close>

lemma replies_end:
  assumes below: "\<And>rpath np sf c. map_of sf rpath = Some np \<Longrightarrow> pf_name np \<noteq> pf_name (f_p f) \<Longrightarrow> set sf \<subseteq> set sf0 \<Longrightarrow>
      rpath \<in> paths \<Longrightarrow> shrinks_below sf (find_below k tab dial get rd (next_finder f np rpath) (pf_mnt np) sf c)"
    and paths: "\<forall>r. GDir r \<in> set reps \<longrightarrow> dget r ''path'' \<in> paths"
  shows "set sf \<subseteq> set sf0 \<Longrightarrow> shrinks_find sf (find_replies k tab dial get rd f err reps sf c)"
  using paths
proof (induction reps arbitrary: sf c)
  case (Cons m reps)
  have step: "shrinks_find sf (find_replies k tab dial get rd f err reps sf' c')" if "set sf' \<subseteq> set sf" for sf' c'
    using Cons.IH[of sf' c'] that Cons.prems unfolding shrinks_find_def by auto
  have send: "shrinks_find sf (case gc_send m' c of
      (ok, c) \<Rightarrow> if \<not> ok then Some (Ret (rd, sf, c)) else find_replies k tab dial get rd f err reps sf c)" for m'
    using step[of sf] by (auto simp: shrinks_find_def split: prod.split)
  show ?case
  proof (cases m)
    case (GData b)
    then show ?thesis using send by simp
  next
    case (GDir rd0)
    let ?r = "find_name f rd0" let ?p = "dget ?r ''path''"
    let ?np = "case map_of sf ?p of None \<Rightarrow> None | Some np \<Rightarrow> if pf_name np \<noteq> pf_name (f_p f) then Some np else None"
    show ?thesis
    proof (cases ?np)
      case None
      then show ?thesis using send GDir by (simp add: Let_def)
    next
      case (Some np)
      then have np: "map_of sf ?p = Some np" "pf_name np \<noteq> pf_name (f_p f)" by (auto split: option.splits if_splits)
      have "?p \<in> paths" using Cons.prems(2) GDir by (auto simp: find_name_def)
      from below[OF np Cons.prems(1) this]
      have b: "shrinks_below sf (find_below k tab dial get rd (next_finder f np ?p) (pf_mnt np) sf c)" .
      have "set (AList.delete ?p sf') \<subseteq> set sf" if "set sf' \<subseteq> set sf" for sf'
        using that by (auto simp: AList.delete_eq)
      then have rest: "shrinks_find sf (find_replies k tab dial get rd f err reps (AList.delete ?p sf') c')"
        if "set sf' \<subseteq> set sf" for sf' c'
        using step that by blast
      obtain y where y: "find_below k tab dial get rd (next_finder f np ?p) (pf_mnt np) sf c = Some y"
        using b by (auto simp: shrinks_below_def)
      show ?thesis
      proof (cases y)
        case Panic
        then show ?thesis using GDir Some y by (simp add: Let_def shrinks_find_def)
      next
        case (Ret z)
        obtain s sf' c' where z: "z = (s, sf', c')" by (cases z)
        have sub: "set sf' \<subseteq> set sf" using b y Ret z by (simp add: shrinks_below_def)
        have "find_replies k tab dial get rd f err (m # reps) sf c =
            (if s then Some (Ret (rd, sf', c')) else find_replies k tab dial get rd f err reps (AList.delete ?p sf') c')"
          using GDir Some y Ret z by (simp add: Let_def)
        then show ?thesis using rest[OF sub] sub by (simp add: shrinks_find_def)
      qed
    qed
  qed
qed (simp add: shrinks_find_def)

lemma mount_ends:
  assumes wf: "ns_wf ns" and srv: "servers_below dial"
  shows "find_inv tab ns f sf \<Longrightarrow> 2 * card (strictly_below ns (f_walked f)) < k \<Longrightarrow>
    shrinks_mount sf (find_mount k tab dial get rd f d sf c)"
proof (induction k arbitrary: f d sf c rule: less_induct)
  case (less k)
  obtain k' where k: "k = Suc k'" using less.prems(2) by (cases k) auto
  note inv = find_invD[OF less.prems(1)]
  have below: "shrinks_below sf' (find_below k' tab dial get rd (next_finder f np rpath) (pf_mnt np) sf' c')"
    if np: "map_of sf' rpath = Some np" "pf_name np \<noteq> pf_name (f_p f)" "set sf' \<subseteq> set sf"
      and hp: "rpath \<in> {p. zx_HasPrefix p (f_walked f)}" for rpath np sf' c'
  proof -
    have "pf_name np = rpath" "np \<in> set (ns_pref ns)" using map_of_SomeD[OF np(1)] np(3) inv(4) by blast+
    then have in_below: "np \<in> strictly_below ns (f_walked f)" using np(2) hp inv(2) by (simp add: strictly_below_def)
    have i: "find_inv tab ns (next_finder f np rpath) sf'"
      using find_inv_next[OF find_inv_mono[OF less.prems(1) np(3)] np(1) wf] .
    have "card (strictly_below ns rpath) < card (strictly_below ns (f_walked f))"
      using strictly_below_less[OF wf in_below inv(1)] \<open>pf_name np = rpath\<close> by simp
    then obtain k2 where k2: "k' = Suc k2" "2 * card (strictly_below ns rpath) < k2"
      using less.prems(2) k by (cases k') auto
    have "shrinks_mount sf2 (find_mount k2 tab dial get rd (next_finder f np rpath) d2 sf2 c2)"
      if "set sf2 \<subseteq> set sf'" for d2 sf2 c2
      using less.IH[of k2 "next_finder f np rpath" sf2] find_inv_mono[OF i that] k k2
      by (simp add: next_finder_def)
    then show ?thesis unfolding k2(1) by (rule below_ends[where ?sf0.0 = sf']) simp_all
  qed
  show ?case
  proof (cases "zx_IsFinder d")
    case False
    then show ?thesis
      using leaf_total[OF inv(3), of get rd d c] k by (auto simp: shrinks_mount_def go_simps)
  next
    case True
    show ?thesis
    proof (cases "\<exists>sv d'. dial d = Ret (Inr (Some sv), d')")
      case False
      then show ?thesis using True k
        by (auto simp: shrinks_mount_def split: go.splits sum.splits option.splits prod.splits)
    next
      case dialed: True
      then obtain sv d' where sv: "dial d = Ret (Inr (Some sv), d')" by blast
      show ?thesis
      proof (cases "pred_String (f_pred f)")
        case Panic
        then show ?thesis using True k sv by (simp add: shrinks_mount_def)
      next
        case (Ret ps)
        obtain reps err where r: "sv (path_Join (zx_SPath d') (find_pending f)) ps (zx_SPath d') (f_walked f) (f_depth f) = (reps, err)"
          by (cases "sv (path_Join (zx_SPath d') (find_pending f)) ps (zx_SPath d') (f_walked f) (f_depth f)")
        have "\<forall>x. GDir x \<in> set reps \<longrightarrow> dget x ''path'' \<in> {p. zx_HasPrefix p (f_walked f)}"
          using srv sv r unfolding servers_below_def by (metis fst_conv mem_Collect_eq)
        from replies_end[OF below this subset_refl]
        have "shrinks_find sf (find_replies k' tab dial get rd f err reps sf c)" .
        then show ?thesis using True k sv Ret r by (auto simp: shrinks_mount_def shrinks_find_def go_simps)
      qed
    qed
  qed
qed

lemma each_mount_ends:
  assumes "ns_wf ns" and "servers_below dial" and "find_inv tab ns f sf0" and "2 * card (strictly_below ns (f_walked f)) < k"
  shows "set sf \<subseteq> set sf0 \<Longrightarrow> find_each_mount k tab dial get rd f single ds sf c \<noteq> None"
proof (induction ds arbitrary: sf c)
  case (Cons d ds)
  have "shrinks_mount sf (find_mount k tab dial get rd f d sf c)"
    using mount_ends[OF assms(1,2) find_inv_mono[OF assms(3) Cons.prems] assms(4)] .
  then obtain y where y1: "find_mount k tab dial get rd f d sf c = Some y"
    and y2: "\<forall>e d sf' c'. y = Ret (e, d, sf', c') \<longrightarrow> set sf' \<subseteq> set sf"
    unfolding shrinks_mount_def by blast
  then have y: "find_mount k tab dial get rd f d sf c = Some y"
    "\<And>e d sf' c'. y = Ret (e, d, sf', c') \<Longrightarrow> set sf' \<subseteq> set sf0"
    using Cons.prems by blast+
  show ?case
  proof (cases y)
    case (Ret z)
    obtain e d' sf' c' where z: "z = (e, d', sf', c')" by (cases z)
    have "find_each_mount k tab dial get rd f single ds sf' c2 \<noteq> None" for c2
      using Cons.IH y(2) Ret z by simp
    then show ?thesis using y(1) Ret z by (auto split: option.splits prod.splits)
  qed (simp add: y(1))
qed simp

lemma path_total_excl:
  assumes "\<forall>p\<in>set (ns_pref ns). plain_path (pf_name p)" and "path_total tab x"
  shows "path_total tab (exclSuffixes tab ns nm x)"
proof -
  have "\<forall>nm'\<in>set (below_names ns nm). plain_path nm'" using assms(1) by (auto simp: below_names_def)
  from excl_eval[OF this] assms(2) show ?thesis by (auto simp: path_total_def)
qed

lemma finder_find_ends:
  assumes "ns_wf ns" and "servers_below dial" and "\<forall>p\<in>set (ns_pref ns). plain_path (pf_name p)"
    and "path_total tab (f_upred f0)" and "2 * length (ns_pref ns) < k"
  shows "finder_find k tab dial get rd ns f0 c \<noteq> None"
proof (cases "resolve_prefix (f_name f0) (ns_pref ns)")
  case (Some p)
  then have p: "p \<in> set (ns_pref ns)"
    unfolding resolve_prefix_last
    using last_in_set[of "filter (\<lambda>p. zx_HasPrefix (f_name f0) (pf_name p)) (ns_pref ns)"] by (auto split: list.splits)
  let ?xs = "find_suffixes ns p (f_name f0)"
  let ?f = "f0\<lparr>f_p := p, f_pred := exclSuffixes tab ns (pf_name p) (f_upred f0), f_walked := pf_name p,
                 f_spreds := map (\<lambda>xp. (pf_name xp, exclSuffixes tab ns (pf_name xp) (f_upred f0))) ?xs\<rparr>"
  have "abs_name (pf_name p)" using assms(1) p by (auto simp: ns_wf_def list_all_iff wf_prefix_def)
  then have i: "find_inv tab ns ?f (map (\<lambda>xp. (pf_name xp, xp)) ?xs)"
    using path_total_excl[OF assms(3,4)] by (auto simp: find_inv_def find_suffixes_def)
  have "card (strictly_below ns (f_walked ?f)) \<le> card (set (ns_pref ns))"
    by (rule card_mono) (auto simp: strictly_below_def)
  also have "\<dots> \<le> length (ns_pref ns)" by (rule card_length)
  finally have "2 * card (strictly_below ns (f_walked ?f)) < k" using assms(5) by simp
  from each_mount_ends[OF assms(1,2) i this subset_refl]
  show ?thesis using Some by (simp add: finder_find_def Let_def)
qed (simp add: finder_find_def)

text \<open>
  C25: a find in a name space ends, in at most twice as many nested calls as there are prefixes, when
  its servers reply with entries below the path they are asked to report, the names mounted
  need no escapes, and the regular expressions in the predicate have no class with a bad range.
\<close>

theorem ns_Find_returns:
  assumes "ns_reach tab0 readfile ns" and "servers_below dial"
    and "\<forall>p\<in>set (ns_pref ns). plain_path (pf_name p)"
    and "\<forall>x. pred_New fpred = Some (Inr x) \<longrightarrow> regexps_ok x"
    and "2 * length (ns_pref ns) < k"
  shows "\<exists>r. ns_findget k tab dial get rd ns name fpred spref dpref depth0 c = Some r"
proof -
  obtain y where y: "pred_New fpred = Some y" using New_total by blast
  have total: "path_total tab x" if "y = Inr x" for x
  proof -
    have "x = PNil \<or> wf_pred x" using pred_New_wf y that by simp
    then show ?thesis
      using EvalAt_returns[of x tab] assms(4) y that by (auto simp: path_total_def)
  qed
  show ?thesis
  proof (cases "find_args name fpred spref dpref depth0")
    case None
    then show ?thesis using y by (auto simp: find_args_def split: sum.splits option.splits prod.splits)
  next
    case (Some z)
    show ?thesis
    proof (cases z)
      case (Inl e)
      then show ?thesis using Some by (simp add: ns_findget_def)
    next
      case (Inr f)
      then have "\<exists>x. y = Inr x \<and> f_upred f = x"
        using Some y by (cases y) (auto simp: find_args_def simp del: find_paths.simps split: sum.splits option.splits prod.splits)
      then have "path_total tab (f_upred f)" using total by blast
      from finder_find_ends[OF reach_wf[OF assms(1)] assms(2,3) this assms(5)]
      show ?thesis using Some Inr by (auto simp: ns_findget_def)
    qed
  qed
qed

definition echo_dial :: find_dial where
  "echo_dial d = Ret (Inr (Some (\<lambda>sname ps spref dpref depth. ([GDir [(''path'', dpref)]], None))), d)"

lemma HasPrefix_refl: "zx_HasPrefix p p"
  by (simp add: zx_HasPrefix_def Let_def go_has_prefix_def)

theorem ns_Find_returns_witness:
  "\<exists>r. ns_findget 7 ascii_tab echo_dial False None demo_ns ''/'' ''type=d'' [] [] 0 \<lparr>gc_sent = [], gc_room = None\<rparr> = Some r"
proof (rule ns_Find_returns[OF demo_ns_reach])
  show "servers_below echo_dial" by (auto simp: servers_below_def echo_dial_def HasPrefix_refl dget_def)
  have n: "map pf_name (ns_pref demo_ns) = [''/'', ''/a'', ''/a/b'']" by code_simp
  have "\<forall>nm\<in>set (map pf_name (ns_pref demo_ns)). plain_path nm"
    unfolding n by (simp add: plain_path_def plain_char_def)
  then show "\<forall>p\<in>set (ns_pref demo_ns). plain_path (pf_name p)" by simp
  have "pred_New ''type=d'' = Some (Inr (Pred CEqs ''type'' ''d'' []))" by code_simp
  then show "\<forall>x. pred_New ''type=d'' = Some (Inr x) \<longrightarrow> regexps_ok x" by simp
  show "2 * length (ns_pref demo_ns) < 7" using arg_cong[OF n, of length] by simp
qed

text \<open>Two servers that reply with each other's path keep a find from ending.\<close>

definition cross_dial :: find_dial where
  "cross_dial d = Ret (Inr (Some (\<lambda>sname ps spref dpref depth.
     ([GDir [(''path'', if dpref = ''/a'' then ''/b'' else ''/a'')]], None))), d)"

definition cross_ns :: NS where
  "cross_ns = fold ns_run
     [OpMount [(''path'', ''/''), (''addr'', ''zx!h!p!t!/'')] Repl,
      OpMount [(''path'', ''/a''), (''addr'', ''zx!h!p!t!/a'')] Repl,
      OpMount [(''path'', ''/b''), (''addr'', ''zx!h!p!t!/b'')] Repl] ns_New"

definition cross_prefix :: "string \<Rightarrow> ns_prefix" where
  "cross_prefix nm = \<lparr>pf_name = nm, pf_mnt = [[(''path'', nm), (''addr'', ''zx!h!p!t!'' @ nm), (''name'', tl nm)]]\<rparr>"

abbreviation cross_sf :: suffixes where
  "cross_sf \<equiv> [(''/a'', cross_prefix ''/a''), (''/b'', cross_prefix ''/b'')]"

text \<open>The prefix that the server of a prefix replies with.\<close>

definition cross_next :: "string \<Rightarrow> string" where
  "cross_next nm = (if nm = ''/a'' then ''/b'' else ''/a'')"

lemma cross_sf_next: "map_of cross_sf (cross_next nm) = Some (cross_prefix (cross_next nm))"
  by (simp add: cross_next_def)

lemma cross_replies:
  assumes "pf_name (f_p f) \<noteq> cross_next nm"
    and "find_below k tab dial get rd (next_finder f (cross_prefix (cross_next nm)) (cross_next nm))
           (pf_mnt (cross_prefix (cross_next nm))) cross_sf c = None"
  shows "find_replies k tab dial get rd f err [GDir [(''path'', cross_next nm)]] cross_sf c = None"
proof -
  have "find_name f [(''path'', cross_next nm)] = [(''path'', cross_next nm)]" by (simp add: find_name_def dget_def)
  moreover have "dget [(''path'', cross_next nm)] ''path'' = cross_next nm" by (simp add: dget_def)
  ultimately show ?thesis
    using assms cross_sf_next[of nm] by (simp add: cross_prefix_def[of "cross_next nm"] del: map_of.simps)
qed

lemma cross_mount:
  assumes "f_walked f = pf_name (f_p f)" and "pf_name (f_p f) \<noteq> cross_next (f_walked f)"
    and "pred_String (f_pred f) = Ret s" and "f_spreds f = [(''/a'', PNil), (''/b'', PNil)]"
    and "zx_IsFinder d"
  shows "find_mount k tab cross_dial get rd f d cross_sf c = None"
  using assms
proof (induction k arbitrary: f d s rule: less_induct)
  case (less k)
  let ?o = "cross_next (f_walked f)" let ?nf = "next_finder f (cross_prefix ?o) ?o"
  have nf: "f_walked ?nf = pf_name (f_p ?nf)" "pf_name (f_p ?nf) \<noteq> cross_next (f_walked ?nf)"
    "pred_String (f_pred ?nf) = Ret []" "f_spreds ?nf = [(''/a'', PNil), (''/b'', PNil)]"
    using less.prems by (simp_all add: next_finder_def cross_prefix_def cross_next_def)
  obtain m where m: "pf_mnt (cross_prefix ?o) = [m]" "zx_IsFinder m"
    by (simp add: cross_prefix_def zx_IsFinder_def zx_Proto_def dget_def)
  show ?case
  proof (cases k)
    case (Suc k1)
    have "(case k1 of 0 \<Rightarrow> None | Suc k2 \<Rightarrow> find_mount k2 tab cross_dial get rd ?nf m cross_sf c) = None"
      using less.IH[OF _ nf m(2)] Suc by (cases k1) simp_all
    then have "find_below k1 tab cross_dial get rd ?nf (pf_mnt (cross_prefix ?o)) cross_sf c = None"
      by (simp add: m(1))
    from cross_replies[OF less.prems(2) this]
    have r: "find_replies k1 tab cross_dial get rd f None [GDir [(''path'', ?o)]] cross_sf c = None" .
    have d: "cross_dial d = Ret (Inr (Some (\<lambda>sname ps spref dpref depth. ([GDir [(''path'', cross_next dpref)]], None))), d)"
      by (simp add: cross_dial_def cross_next_def)
    show ?thesis unfolding Suc find_mount.simps d using less.prems(3,5) r by simp
  qed simp
qed

text \<open>Whatever the fuel, the find at the root of such a name space does not end.\<close>

lemma ns_Find_diverges:
  "ns_findget k ascii_tab cross_dial get rd cross_ns ''/'' [] [] [] 0 c = None"
proof -
  let ?root = "\<lparr>pf_name = ''/'', pf_mnt = [[(''path'', ''/''), (''addr'', ''zx!h!p!t!/''), (''name'', ''/'')]]\<rparr>"
  have pref: "resolve_prefix ''/'' (ns_pref cross_ns) = Some ?root"
    "find_suffixes cross_ns ?root ''/'' = [cross_prefix ''/a'', cross_prefix ''/b'']"
    "exclSuffixes ascii_tab cross_ns ''/a'' PNil = PNil" "exclSuffixes ascii_tab cross_ns ''/b'' PNil = PNil"
    by code_simp+
  have "pred_String (exclSuffixes ascii_tab cross_ns ''/'' PNil) \<noteq> Panic" by code_simp
  then obtain s where s: "pred_String (exclSuffixes ascii_tab cross_ns ''/'' PNil) = Ret s"
    by (cases "pred_String (exclSuffixes ascii_tab cross_ns ''/'' PNil)") auto
  define f where "f = \<lparr>f_name = ''/'', f_upred = PNil, f_spref = [], f_dpref = [], f_depth = 0, f_p = ?root,
    f_pred = exclSuffixes ascii_tab cross_ns ''/'' PNil, f_walked = ''/'', f_spreds = [(''/a'', PNil), (''/b'', PNil)]\<rparr>"
  have "zx_IsFinder (hd (pf_mnt ?root))" by code_simp
  then have "find_mount k ascii_tab cross_dial get rd f (hd (pf_mnt ?root)) cross_sf c = None"
    using s by (intro cross_mount) (simp_all add: f_def cross_next_def)
  moreover have "find_args ''/'' [] [] [] 0 = Some (Inr \<lparr>f_name = ''/'', f_upred = PNil, f_spref = [], f_dpref = [],
      f_depth = 0, f_p = \<lparr>pf_name = [], pf_mnt = []\<rparr>, f_pred = PNil, f_walked = [], f_spreds = []\<rparr>)"
    by code_simp
  moreover have "pf_name (cross_prefix nm) = nm" for nm by (simp add: cross_prefix_def)
  ultimately show ?thesis
    by (simp add: ns_findget_def finder_find_def pref f_def Let_def)
qed

end
