(* ===== verification/RzxProto.thy ===== *)
theory RzxProto
  imports ZxProps
begin

text \<open>
  The requests of remote trees (src/zx/rzx/proto.go): their binary form in \<open>ch\<close> messages and their text.
\<close>

section \<open>Requests\<close>

text \<open>\<open>MsgId\<close> is a byte.\<close>

definition Ttrees :: nat where "Ttrees = 66"
definition Tstat :: nat where "Tstat = 67"
definition Tget :: nat where "Tget = 68"
definition Tput :: nat where "Tput = 69"
definition Tmove :: nat where "Tmove = 70"
definition Tlink :: nat where "Tlink = 71"
definition Tremove :: nat where "Tremove = 72"
definition Tremoveall :: nat where "Tremoveall = 73"
definition Twstat :: nat where "Twstat = 74"
definition Tfind :: nat where "Tfind = 75"
definition Tfindget :: nat where "Tfindget = 76"
definition Tend :: nat where "Tend = 77"
definition Tmin :: nat where "Tmin = Ttrees"

lemmas rzx_ops = Ttrees_def Tstat_def Tget_def Tput_def Tmove_def Tlink_def Tremove_def Tremoveall_def
  Twstat_def Tfind_def Tfindget_def Tend_def Tmin_def

record rzx_msg =
  m_Op :: nat
  m_Fsys :: string
  m_Path :: string
  m_Off :: int
  m_Count :: int
  m_D :: "dir option"
  m_To :: string
  m_Pred :: string
  m_Spref :: string
  m_Dpref :: string
  m_Depth :: int

text \<open>\<open>&Msg{Op: op}\<close>: the fields that are not given are zero.\<close>

definition op_msg :: "nat \<Rightarrow> rzx_msg" where
  "op_msg op = \<lparr>m_Op = op, m_Fsys = [], m_Path = [], m_Off = 0, m_Count = 0, m_D = None, m_To = [], m_Pred = [],
     m_Spref = [], m_Dpref = [], m_Depth = 0\<rparr>"

definition rzx_ErrBadMsg :: string where "rzx_ErrBadMsg = ''bad message type''"

definition msgid_String :: "nat \<Rightarrow> string" where
  "msgid_String n =
     (if n = Ttrees then ''Ttrees'' else if n = Tstat then ''Tstat'' else if n = Tget then ''Tget''
      else if n = Tput then ''Tput'' else if n = Tmove then ''Tmove'' else if n = Tlink then ''Tlink''
      else if n = Tremove then ''Tremove'' else if n = Tremoveall then ''Tremoveall''
      else if n = Tfind then ''Tfind'' else if n = Tfindget then ''Tfindget''
      else if n = Twstat then ''Twstat'' else ''Tunknown<'' @ go_digits 10 n @ ''>'')"

section \<open>Binary form\<close>

definition int64_bytes :: "int \<Rightarrow> byte list" where
  "int64_bytes n = le_bytes 8 (nat (n mod 2 ^ 64))"

definition bytes_int64 :: "byte list \<Rightarrow> int" where
  "bytes_int64 b = (let n = int (le_nat b) in if n \<ge> 2 ^ 63 then n - 2 ^ 64 else n)"

text \<open>
  What \<open>WriteTo\<close> writes to a buffer, which never fails, or the error for a bad request, for which nothing is
  written.
\<close>

definition rzx_Msg_WriteTo :: "rzx_msg \<Rightarrow> string + byte list" where
  "rzx_Msg_WriteTo m =
     (if m_Op m < Tmin \<or> m_Op m \<ge> Tend then Inl (rzx_ErrBadMsg @ '' '' @ go_digits 10 (m_Op m))
      else if m_Op m = Ttrees then Inr [char_of (m_Op m)]
      else Inr (char_of (m_Op m) # ch_WriteStringTo (m_Fsys m) @ ch_WriteStringTo (m_Path m) @
        (if m_Op m = Tget \<or> m_Op m = Tput then int64_bytes (m_Off m) else []) @
        (if m_Op m = Tget then int64_bytes (m_Count m) else []) @
        (if m_Op m = Tput \<or> m_Op m = Twstat then zx_Dir_WriteTo (case m_D m of None \<Rightarrow> [] | Some d \<Rightarrow> d) else []) @
        (if m_Op m = Tmove \<or> m_Op m = Tlink then ch_WriteStringTo (m_To m) else []) @
        (if m_Op m = Tfind \<or> m_Op m = Tfindget then ch_WriteStringTo (m_Pred m) else []) @
        (if m_Op m = Tfind \<or> m_Op m = Tfindget
         then ch_WriteStringTo (m_Spref m) @ ch_WriteStringTo (m_Dpref m) @ int64_bytes (m_Depth m) else [])))"

text \<open>
  The steps of the unpacking, each followed by the rest of it.  The result is the bytes left (None is a nil
  slice), the request, and the error.
\<close>

type_synonym rzx_unpacked = "byte list option \<times> rzx_msg option \<times> ch_error option"

definition un_string :: "byte list \<Rightarrow> (string \<Rightarrow> byte list \<Rightarrow> rzx_unpacked) \<Rightarrow> rzx_unpacked" where
  "un_string b k =
     (case ch_UnpackString b of (r, s, Some e) \<Rightarrow> (r, None, Some e) | (r, s, None) \<Rightarrow> k s (the r))"

definition un_int64 :: "byte list \<Rightarrow> (int \<Rightarrow> byte list \<Rightarrow> rzx_unpacked) \<Rightarrow> rzx_unpacked" where
  "un_int64 b k = (if length b < 8 then (Some b, None, Some TooSmall) else k (bytes_int64 (take 8 b)) (drop 8 b))"

definition un_dir :: "byte list \<Rightarrow> (dir option \<Rightarrow> byte list \<Rightarrow> rzx_unpacked) \<Rightarrow> rzx_unpacked" where
  "un_dir b k = (case zx_UnpackDir b of (r, d, Some e) \<Rightarrow> (r, None, Some e) | (r, d, None) \<Rightarrow> k d (the r))"

text \<open>A field that only some requests have: it keeps its zero otherwise.\<close>

definition un_if ::
  "bool \<Rightarrow> (byte list \<Rightarrow> ('a \<Rightarrow> byte list \<Rightarrow> rzx_unpacked) \<Rightarrow> rzx_unpacked) \<Rightarrow> 'a \<Rightarrow> byte list \<Rightarrow>
     ('a \<Rightarrow> byte list \<Rightarrow> rzx_unpacked) \<Rightarrow> rzx_unpacked" where
  "un_if c un z b k = (if c then un b k else k z b)"

definition rzx_UnpackMsg :: "byte list \<Rightarrow> rzx_unpacked" where
  "rzx_UnpackMsg buf =
     (case buf of
        [] \<Rightarrow> (Some buf, None, Some TooSmall)
      | c # b \<Rightarrow>
          (let op = of_char c in
           if op < Tmin \<or> op \<ge> Tend then (Some buf, None, Some (OtherErr (''unknown msg type '' @ go_digits 10 op)))
           else if op = Ttrees then (Some b, Some (op_msg op), None)
           else
             un_string b (\<lambda>fsys b. un_string b (\<lambda>path b.
             un_if (op = Tget \<or> op = Tput) un_int64 0 b (\<lambda>off b.
             un_if (op = Tget) un_int64 0 b (\<lambda>count b.
             un_if (op = Tput \<or> op = Twstat) un_dir None b (\<lambda>d b.
             un_if (op = Tmove \<or> op = Tlink) un_string [] b (\<lambda>to b.
             un_if (op = Tfind \<or> op = Tfindget) un_string [] b (\<lambda>pred b.
             un_if (op = Tfind \<or> op = Tfindget) un_string [] b (\<lambda>spref b.
             un_if (op = Tfind \<or> op = Tfindget) un_string [] b (\<lambda>dpref b.
             un_if (op = Tfind \<or> op = Tfindget) un_int64 0 b (\<lambda>depth b.
               (Some b, Some \<lparr>m_Op = op, m_Fsys = fsys, m_Path = path, m_Off = off, m_Count = count, m_D = d, m_To = to,
                  m_Pred = pred, m_Spref = spref, m_Dpref = dpref, m_Depth = depth\<rparr>, None)))))))))))))"

text \<open>\<open>Unpack\<close> of the message type, and its id.\<close>

definition rzx_Msg_Unpack :: "byte list \<Rightarrow> rzx_msg option \<times> ch_error option" where
  "rzx_Msg_Unpack b = (let (_, m, e) = rzx_UnpackMsg b in (m, e))"

definition rzx_Msg_TypeId :: "16 word" where "rzx_Msg_TypeId = Tzx"

section \<open>Text\<close>

definition rzx_Msg_String :: "(rune \<Rightarrow> bool) \<Rightarrow> rzx_msg option \<Rightarrow> string" where
  "rzx_Msg_String tab om =
     (case om of
        None \<Rightarrow> ''<nil msg>''
      | Some m \<Rightarrow>
          (if m_Op m = Ttrees then msgid_String (m_Op m)
           else msgid_String (m_Op m) @ '' '' @ [CHR 0x27] @ m_Fsys m @ [CHR 0x27] @ '' '' @ [CHR 0x27] @ m_Path m @ [CHR 0x27]) @
          (if m_Op m = Tget \<or> m_Op m = Tput then '' off '' @ go_format_int (m_Off m) 10 else []) @
          (if m_Op m = Tget then '' count '' @ go_format_int (m_Count m) 10 else []) @
          (if m_Op m = Tput \<or> m_Op m = Twstat then '' d <'' @ zx_String tab (m_D m) @ ''> '' else []) @
          (if m_Op m = Tmove \<or> m_Op m = Tlink then '' to '' @ [CHR 0x27] @ m_To m @ [CHR 0x27] else []) @
          (if m_Op m = Tfind \<or> m_Op m = Tfindget then '' pred '' @ [CHR 0x27] @ m_Pred m @ [CHR 0x27] else []) @
          (if m_Op m = Tfind \<or> m_Op m = Tfindget
           then '' spref '' @ [CHR 0x27] @ m_Spref m @ [CHR 0x27] @ '' dpref '' @ [CHR 0x27] @ m_Dpref m @ [CHR 0x27] @
             '' depth '' @ go_format_int (m_Depth m) 10 else []))"

section \<open>Requests arrive as they were sent\<close>

definition int64_ok :: "int \<Rightarrow> bool" where
  "int64_ok n \<longleftrightarrow> - (2 ^ 63) \<le> n \<and> n < 2 ^ 63"

text \<open>
  The requests that arrive as they are: those of the operations, with the fields that their operation does
  not have at zero, an entry where they carry one, and strings that a length of 32 bits tells.
\<close>

definition good_rzx_msg :: "rzx_msg \<Rightarrow> bool" where
  "good_rzx_msg m \<longleftrightarrow> Tmin \<le> m_Op m \<and> m_Op m < Tend \<and>
     (\<forall>s\<in>set [m_Fsys m, m_Path m, m_To m, m_Pred m, m_Spref m, m_Dpref m]. length s < 2 ^ 32) \<and>
     int64_ok (m_Off m) \<and> int64_ok (m_Count m) \<and> int64_ok (m_Depth m) \<and>
     (m_Op m = Ttrees \<longrightarrow> m_Fsys m = [] \<and> m_Path m = []) \<and>
     (m_Op m \<noteq> Tget \<and> m_Op m \<noteq> Tput \<longrightarrow> m_Off m = 0) \<and> (m_Op m \<noteq> Tget \<longrightarrow> m_Count m = 0) \<and>
     (case m_D m of None \<Rightarrow> m_Op m \<noteq> Tput \<and> m_Op m \<noteq> Twstat | Some d \<Rightarrow> (m_Op m = Tput \<or> m_Op m = Twstat) \<and> good_dir d) \<and>
     (m_Op m \<noteq> Tmove \<and> m_Op m \<noteq> Tlink \<longrightarrow> m_To m = []) \<and>
     (m_Op m \<noteq> Tfind \<and> m_Op m \<noteq> Tfindget \<longrightarrow> m_Pred m = [] \<and> m_Spref m = [] \<and> m_Dpref m = [] \<and> m_Depth m = 0)"

lemma length_int64_bytes [simp]: "length (int64_bytes n) = 8"
  by (simp add: int64_bytes_def)

lemma bytes_int64_bytes: "int64_ok n \<Longrightarrow> bytes_int64 (int64_bytes n) = n"
proof -
  assume ok: "int64_ok n"
  have "int (le_nat (int64_bytes n)) = n mod 2 ^ 64"
    by (simp add: int64_bytes_def)
  moreover have "n mod 2 ^ 64 = (if n < 0 then n + 2 ^ 64 else n)"
  proof (cases "n < 0")
    case True
    have "n mod 2 ^ 64 = (n + 2 ^ 64) mod 2 ^ 64" by simp
    also have "\<dots> = n + 2 ^ 64" using ok True unfolding int64_ok_def by (intro mod_pos_pos_trivial) simp_all
    finally show ?thesis using True by simp
  next
    case False
    then show ?thesis using ok unfolding int64_ok_def by (simp add: mod_pos_pos_trivial)
  qed
  ultimately show ?thesis using ok by (simp add: bytes_int64_def Let_def int64_ok_def)
qed

lemma un_int64_bytes [simp]: "int64_ok n \<Longrightarrow> un_int64 (int64_bytes n @ rest) k = k n rest"
  by (simp add: un_int64_def bytes_int64_bytes)

lemma un_string_bytes [simp]: "length s < 2 ^ 32 \<Longrightarrow> un_string (ch_WriteStringTo s @ rest) k = k s rest"
  by (simp add: un_string_def ch_UnpackString_WriteStringTo)

lemma un_dir_bytes [simp]: "good_dir d \<Longrightarrow> un_dir (zx_Dir_WriteTo d @ rest) k = k (Some d) rest"
  by (simp add: un_dir_def zx_UnpackDir_WriteTo)

lemma un_if_simps: "un_if True un z b k = un b k" "un_if False un z b k = k z b"
  by (simp_all add: un_if_def)

lemma un_if_field:
  assumes "c \<Longrightarrow> (\<And>rest k. un (w @ rest) k = k x rest)" and "\<not> c \<Longrightarrow> x = z"
  shows "un_if c un z ((if c then w else []) @ rest) k = k x rest"
  using assms by (simp add: un_if_def)

lemma rzx_UnpackMsg_WriteTo:
  assumes "good_rzx_msg m" and "rzx_Msg_WriteTo m = Inr b"
  shows "rzx_UnpackMsg (b @ rest) = (Some rest, Some m, None)"
proof (cases "m_Op m = Ttrees")
  case True
  moreover have "m = op_msg Ttrees"
    using assms(1) True by (cases m) (auto simp: good_rzx_msg_def op_msg_def rzx_ops split: option.splits)
  ultimately show ?thesis using assms(2) by (auto simp: rzx_Msg_WriteTo_def rzx_UnpackMsg_def rzx_ops)
next
  case False
  note g = assms(1)[unfolded good_rzx_msg_def]
  obtain op fsys path off count d to pred spref dpref depth where m: "m = \<lparr>m_Op = op, m_Fsys = fsys, m_Path = path, m_Off = off,
      m_Count = count, m_D = d, m_To = to, m_Pred = pred, m_Spref = spref, m_Dpref = dpref, m_Depth = depth\<rparr>" by (cases m)
  have r: "\<not> (op < Tmin \<or> Tend \<le> op)" and c: "of_char (char_of op :: char) = op" and t: "op \<noteq> Ttrees"
    using g False m by (auto simp: rzx_ops)
  let ?w = "\<lambda>c x. if c then x else []"
  have b: "b = char_of op # ch_WriteStringTo fsys @ ch_WriteStringTo path @
      ?w (op = Tget \<or> op = Tput) (int64_bytes off) @ ?w (op = Tget) (int64_bytes count) @
      ?w (op = Tput \<or> op = Twstat) (zx_Dir_WriteTo (case d of None \<Rightarrow> [] | Some d \<Rightarrow> d)) @
      ?w (op = Tmove \<or> op = Tlink) (ch_WriteStringTo to) @ ?w (op = Tfind \<or> op = Tfindget) (ch_WriteStringTo pred) @
      ?w (op = Tfind \<or> op = Tfindget) (ch_WriteStringTo spref) @ ?w (op = Tfind \<or> op = Tfindget) (ch_WriteStringTo dpref) @
      ?w (op = Tfind \<or> op = Tfindget) (int64_bytes depth)"
    using assms(2)[unfolded rzx_Msg_WriteTo_def m rzx_msg.simps if_not_P[OF r] if_not_P[OF t] sum.inject]
    by (cases "op = Tfind \<or> op = Tfindget") (simp_all only: if_True if_False simp_thms append_assoc append_Nil append_Nil2)
  have f:
    "\<And>rest k. un_if (op = Tget \<or> op = Tput) un_int64 0 (?w (op = Tget \<or> op = Tput) (int64_bytes off) @ rest) k = k off rest"
    "\<And>rest k. un_if (op = Tget) un_int64 0 (?w (op = Tget) (int64_bytes count) @ rest) k = k count rest"
    "\<And>rest k. un_if (op = Tmove \<or> op = Tlink) un_string [] (?w (op = Tmove \<or> op = Tlink) (ch_WriteStringTo to) @ rest) k = k to rest"
    "\<And>rest k. un_if (op = Tfind \<or> op = Tfindget) un_string [] (?w (op = Tfind \<or> op = Tfindget) (ch_WriteStringTo pred) @ rest) k = k pred rest"
    "\<And>rest k. un_if (op = Tfind \<or> op = Tfindget) un_string [] (?w (op = Tfind \<or> op = Tfindget) (ch_WriteStringTo spref) @ rest) k = k spref rest"
    "\<And>rest k. un_if (op = Tfind \<or> op = Tfindget) un_string [] (?w (op = Tfind \<or> op = Tfindget) (ch_WriteStringTo dpref) @ rest) k = k dpref rest"
    "\<And>rest k. un_if (op = Tfind \<or> op = Tfindget) un_int64 0 (?w (op = Tfind \<or> op = Tfindget) (int64_bytes depth) @ rest) k = k depth rest"
    using g by (intro un_if_field; simp add: m)+
  have fd: "\<And>rest k. un_if (op = Tput \<or> op = Twstat) un_dir None
      (?w (op = Tput \<or> op = Twstat) (zx_Dir_WriteTo (case d of None \<Rightarrow> [] | Some d \<Rightarrow> d)) @ rest) k = k d rest"
    using g by (intro un_if_field) (auto simp: m split: option.splits)
  have s: "length fsys < 2 ^ 32" "length path < 2 ^ 32" using g by (simp_all add: m)
  show ?thesis
    unfolding b rzx_UnpackMsg_def append_Cons list.case append_assoc c Let_def if_not_P[OF r] if_not_P[OF t]
      un_string_bytes[OF s(1)] un_string_bytes[OF s(2)] f fd m by (rule refl)
qed

end
