(* ===== verification/RzxSrv.thy ===== *)
theory RzxSrv
  imports RzxProto NsParse
begin

text \<open>
  The server of remote trees (src/zx/rzx/rzx.go) and its client (src/zx/rzx/cli.go).

  A stream through a channel is the list of what was sent and the error it was closed with.  The trees
  served are parameters: what each of their calls replies and the state after it, for a state \<open>'s\<close> that
  all of them share, and None for an interface that the tree does not have.  A request is the stream received
  in its connection, and its reply the stream sent back, to a peer that takes all of it; requests are
  processes of their own in the code, and here each runs alone.
\<close>

section \<open>Streams and trees\<close>

type_synonym error = "string option"

text \<open>The values of the messages: requests, and those of package \<open>zx\<close>.\<close>

datatype rzx_val = RReq "rzx_msg option" | RZx zx_val

type_synonym rmsg = "rzx_val msg"
type_synonym rstream = "rmsg list \<times> error"

abbreviation dir_msg :: "dir \<Rightarrow> rmsg" where "dir_msg d \<equiv> MUser (RZx (VDir (Some d)))"

record 's xfs =
  xfs_Stat :: "'s \<Rightarrow> string \<Rightarrow> dir option \<times> error"
  xfs_Get :: "('s \<Rightarrow> string \<Rightarrow> int \<Rightarrow> int \<Rightarrow> byte list list \<times> error) option"
  xfs_Put :: "('s \<Rightarrow> string \<Rightarrow> dir option \<Rightarrow> int \<Rightarrow> byte list list \<times> error \<Rightarrow> (dir option \<times> error) \<times> 's) option"
  xfs_Wstat :: "('s \<Rightarrow> string \<Rightarrow> dir option \<Rightarrow> (dir option \<times> error) \<times> 's) option"
  xfs_Move :: "('s \<Rightarrow> string \<Rightarrow> string \<Rightarrow> error \<times> 's) option"
  xfs_Link :: "('s \<Rightarrow> string \<Rightarrow> string \<Rightarrow> error \<times> 's) option"
  xfs_Remove :: "('s \<Rightarrow> string \<Rightarrow> error \<times> 's) option"
  xfs_RemoveAll :: "'s \<Rightarrow> string \<Rightarrow> error \<times> 's"
  xfs_Find :: "('s \<Rightarrow> string \<Rightarrow> string \<Rightarrow> string \<Rightarrow> string \<Rightarrow> int \<Rightarrow> dir list \<times> error) option"
  xfs_FindGet :: "('s \<Rightarrow> string \<Rightarrow> string \<Rightarrow> string \<Rightarrow> string \<Rightarrow> int \<Rightarrow> rstream) option"

definition zx_ErrBug :: string where "zx_ErrBug = ''buggered or not implemented''"
definition zx_ErrRO :: string where "zx_ErrRO = ''resource is read-only''"

section \<open>Clients\<close>

text \<open>The clients by their address, each with its user and the time it came.\<close>

type_synonym clients = "(string \<times> string \<times> int) list"

definition clients_add :: "clients \<Rightarrow> string \<Rightarrow> string \<Rightarrow> int \<Rightarrow> clients" where
  "clients_add cs addr uid now = AList.update addr (uid, now) cs"

definition clients_del :: "clients \<Rightarrow> string \<Rightarrow> clients" where
  "clients_del cs tag = AList.delete tag cs"

text \<open>\<open>since\<close> prints the time that passed since another.\<close>

definition clients_list :: "(int \<Rightarrow> string) \<Rightarrow> clients \<Rightarrow> string list" where
  "clients_list since cs = go_sort (<) (map (\<lambda>(k, u, t). u @ '' '' @ k @ '' '' @ since t) cs)"

definition clients_String :: "(int \<Rightarrow> string) \<Rightarrow> clients \<Rightarrow> string" where
  "clients_String since cs =
     (let cls = clients_list since cs in
      if cls = [] then ''none'' else hd cls @ concat (map (\<lambda>c. CHR 0x0A # ''user '' @ c) (tl cls)))"

section \<open>The server\<close>

record 's rzx_server =
  sv_fs :: "(string \<times> 's xfs) list"
  sv_addr :: string
  sv_rdonly :: bool
  sv_noauth :: bool
  sv_clients :: clients

definition new_server :: "string \<Rightarrow> bool \<Rightarrow> 's rzx_server" where
  "new_server addr ro = \<lparr>sv_fs = [], sv_addr = addr, sv_rdonly = ro, sv_noauth = False, sv_clients = []\<rparr>"

definition sv_NoAuth :: "'s rzx_server \<Rightarrow> 's rzx_server" where
  "sv_NoAuth s = s\<lparr>sv_noauth := True\<rparr>"

definition sv_tree :: "'s rzx_server \<Rightarrow> string \<Rightarrow> 's xfs option" where
  "sv_tree s name = map_of (sv_fs s) name"

definition sv_Serve :: "'s rzx_server \<Rightarrow> string \<Rightarrow> 's xfs \<Rightarrow> error \<times> 's rzx_server" where
  "sv_Serve s name fs =
     (if map_of (sv_fs s) name \<noteq> None then (Some (sv_addr s @ '': '' @ name @ '' already served''), s)
      else (None, s\<lparr>sv_fs := AList.update name fs (sv_fs s)\<rparr>))"

text \<open>The address of an entry, which is nil or not, as clients know it.\<close>

definition sv_mkaddr :: "'s rzx_server \<Rightarrow> dir \<Rightarrow> string \<Rightarrow> dir" where
  "sv_mkaddr s d fsys =
     (let old = dget d ''addr'';
          p = (case go_last_index_byte old (CHR ''!'') of None \<Rightarrow> 0 | Some p \<Rightarrow> p + 1)
      in dset d ''addr'' (''zx!'' @ sv_addr s @ ''!'' @ fsys @ ''!'' @ drop p old))"

definition mkaddr_opt :: "'s rzx_server \<Rightarrow> dir option \<Rightarrow> string \<Rightarrow> dir go" where
  "mkaddr_opt s od fsys = (case od of None \<Rightarrow> Panic | Some d \<Rightarrow> Ret (sv_mkaddr s d fsys))"

text \<open>The handlers: the messages sent and the error, and the state after.\<close>

definition sv_trees :: "'s rzx_server \<Rightarrow> rstream" where
  "sv_trees s = (map (\<lambda>(n, _). MStr n) (sv_fs s), None)"

definition sv_stat :: "'s rzx_server \<Rightarrow> rzx_msg \<Rightarrow> 's xfs \<Rightarrow> 's \<Rightarrow> rstream go" where
  "sv_stat s m fs st =
     (let (d, err) = xfs_Stat fs st (m_Path m) in
      if err = None then go_map (\<lambda>d. ([dir_msg d], None)) (mkaddr_opt s d (m_Fsys m))
      else Ret ([], err))"

text \<open>The messages of a directory are its entries; what is not an entry is sent as it is.\<close>

definition get_item :: "'s rzx_server \<Rightarrow> string \<Rightarrow> byte list \<Rightarrow> byte list" where
  "get_item s fsys x =
     (case zx_UnpackDir x of
        (_, Some d, None) \<Rightarrow> zx_Dir_Bytes (sv_mkaddr s d fsys)
      | _ \<Rightarrow> x)"

definition sv_get :: "'s rzx_server \<Rightarrow> rzx_msg \<Rightarrow> 's xfs \<Rightarrow> 's \<Rightarrow> rstream" where
  "sv_get s m fs st =
     (case xfs_Get fs of
        None \<Rightarrow> ([], Some zx_ErrBug)
      | Some get \<Rightarrow>
          (case xfs_Stat fs st (m_Path m) of
             (_, Some err) \<Rightarrow> ([], Some err)
           | (od, None) \<Rightarrow>
               (let isdir = (dget (case od of None \<Rightarrow> [] | Some d \<Rightarrow> d) ''type'' = ''d'');
                    (xs, err) = get st (m_Path m) (m_Off m) (m_Count m)
                in (map (\<lambda>x. MBytes (if isdir then get_item s (m_Fsys m) x else x)) xs, err))))"

definition ro_err :: "'s rzx_server \<Rightarrow> string" where
  "ro_err s = sv_addr s @ '': '' @ zx_ErrRO"

text \<open>The data of a put: up to the first message that is not data, which is an error.\<close>

fun put_data :: "rmsg list \<Rightarrow> error \<Rightarrow> byte list list \<times> error" where
  "put_data [] err = ([], err)"
| "put_data (MBytes b # ms) err = (let (bs, e) = put_data ms err in (b # bs, e))"
| "put_data (m # ms) err = ([], Some rzx_ErrBadMsg)"

definition sv_put :: "'s rzx_server \<Rightarrow> rzx_msg \<Rightarrow> rstream \<Rightarrow> 's xfs \<Rightarrow> 's \<Rightarrow> (rstream \<times> 's) go" where
  "sv_put s m c_in fs st =
     (if sv_rdonly s then Ret (([], Some (ro_err s)), st)
      else (case xfs_Put fs of
          None \<Rightarrow> Ret (([], Some zx_ErrBug), st)
        | Some put \<Rightarrow>
            (let ic = (if dget (case m_D m of None \<Rightarrow> [] | Some d \<Rightarrow> d) ''type'' = ''d'' then ([], None)
                       else put_data (fst c_in) (snd c_in));
                 ((rd, err), st') = put st (m_Path m) (m_D m) (m_Off m) ic
             in if err \<noteq> None then Ret (([], err), st')
                else go_map (\<lambda>d. (([dir_msg d], None), st')) (mkaddr_opt s rd (m_Fsys m)))))"

definition sv_move :: "'s rzx_server \<Rightarrow> rzx_msg \<Rightarrow> 's xfs \<Rightarrow> 's \<Rightarrow> rstream \<times> 's" where
  "sv_move s m fs st =
     (if sv_rdonly s then (([], Some (ro_err s)), st)
      else (case xfs_Move fs of
          None \<Rightarrow> (([], Some zx_ErrBug), st)
        | Some mv \<Rightarrow> (let (err, st') = mv st (m_Path m) (m_To m) in (([], err), st'))))"

definition sv_link :: "'s rzx_server \<Rightarrow> rzx_msg \<Rightarrow> 's xfs \<Rightarrow> 's \<Rightarrow> rstream \<times> 's" where
  "sv_link s m fs st =
     (if sv_rdonly s then (([], Some (ro_err s)), st)
      else (case xfs_Link fs of
          None \<Rightarrow> (([], Some zx_ErrBug), st)
        | Some link \<Rightarrow> (let (err, st') = link st (m_To m) (m_Path m) in (([], err), st'))))"

definition sv_remove :: "'s rzx_server \<Rightarrow> rzx_msg \<Rightarrow> 's xfs \<Rightarrow> 's \<Rightarrow> rstream \<times> 's" where
  "sv_remove s m fs st =
     (if sv_rdonly s then (([], Some (ro_err s)), st)
      else (case xfs_Remove fs of
          None \<Rightarrow> (([], Some zx_ErrBug), st)
        | Some rm \<Rightarrow>
            if m_Path m = [] \<or> m_Path m = ''/'' then (([], Some (sv_addr s @ '': won'' @ [CHR 0x27] @ ''t remove /'')), st)
            else (let (err, st') = (if m_Op m = Tremove then rm st (m_Path m) else xfs_RemoveAll fs st (m_Path m))
                  in (([], err), st'))))"

definition sv_find :: "'s rzx_server \<Rightarrow> rzx_msg \<Rightarrow> 's xfs \<Rightarrow> 's \<Rightarrow> rstream" where
  "sv_find s m fs st =
     (case xfs_Find fs of
        None \<Rightarrow> ([], Some zx_ErrBug)
      | Some fnd \<Rightarrow>
          (let (ds, err) = fnd st (m_Path m) (m_Pred m) (m_Spref m) (m_Dpref m) (m_Depth m)
           in (map (\<lambda>d. dir_msg (sv_mkaddr s d (m_Fsys m))) ds, err)))"

fun findget_items :: "'s rzx_server \<Rightarrow> string \<Rightarrow> rmsg list \<Rightarrow> rmsg list go" where
  "findget_items s fsys [] = Ret []"
| "findget_items s fsys (x # xs) =
     go_bind (case x of
         MUser (RZx (VDir od)) \<Rightarrow> go_map dir_msg (mkaddr_opt s od fsys)
       | _ \<Rightarrow> Ret x) (\<lambda>x'. go_map ((#) x') (findget_items s fsys xs))"

definition sv_findget :: "'s rzx_server \<Rightarrow> rzx_msg \<Rightarrow> 's xfs \<Rightarrow> 's \<Rightarrow> rstream go" where
  "sv_findget s m fs st =
     (case xfs_FindGet fs of
        None \<Rightarrow> Ret ([], Some zx_ErrBug)
      | Some fnd \<Rightarrow>
          (let (xs, err) = fnd st (m_Path m) (m_Pred m) (m_Spref m) (m_Dpref m) (m_Depth m)
           in go_map (\<lambda>xs. (xs, err)) (findget_items s (m_Fsys m) xs)))"

definition sv_wstat :: "'s rzx_server \<Rightarrow> rzx_msg \<Rightarrow> 's xfs \<Rightarrow> 's \<Rightarrow> (rstream \<times> 's) go" where
  "sv_wstat s m fs st =
     (if sv_rdonly s then Ret (([], Some (ro_err s)), st)
      else (case xfs_Wstat fs of
          None \<Rightarrow> Ret (([], Some zx_ErrBug), st)
        | Some wstat \<Rightarrow>
            (let ((rd, err), st') = wstat st (m_Path m) (m_D m) in
             if err \<noteq> None then Ret (([], err), st')
             else go_map (\<lambda>d. (([dir_msg d], None), st')) (mkaddr_opt s rd (m_Fsys m)))))"

text \<open>
  A request: its first message says what to do.  The name of a type that is not known is the parameter
  \<open>tyname\<close>.  There is no case for \<open>Tlink\<close>.
\<close>

definition sv_dispatch :: "'s rzx_server \<Rightarrow> rzx_msg \<Rightarrow> rstream \<Rightarrow> 's \<Rightarrow> (rstream \<times> 's) go" where
  "sv_dispatch s m c_in st =
     (if m_Op m = Ttrees then Ret (sv_trees s, st)
      else (case sv_tree s (m_Fsys m) of
          None \<Rightarrow> Ret (([], Some (''no fsys '' @ [CHR 0x27] @ m_Fsys m @ [CHR 0x27])), st)
        | Some fs \<Rightarrow>
            if m_Op m = Tstat then go_map (\<lambda>r. (r, st)) (sv_stat s m fs st)
            else if m_Op m = Tget then Ret (sv_get s m fs st, st)
            else if m_Op m = Tput then sv_put s m c_in fs st
            else if m_Op m = Tmove then Ret (sv_move s m fs st)
            else if m_Op m = Tremove \<or> m_Op m = Tremoveall then Ret (sv_remove s m fs st)
            else if m_Op m = Tfind then Ret (sv_find s m fs st, st)
            else if m_Op m = Tfindget then go_map (\<lambda>r. (r, st)) (sv_findget s m fs st)
            else if m_Op m = Twstat then sv_wstat s m fs st
            else Ret (([], Some (''unknown msg op '' @ msgid_String (m_Op m))), st)))"

definition sv_req :: "(rmsg \<Rightarrow> string) \<Rightarrow> 's rzx_server \<Rightarrow> rstream \<Rightarrow> 's \<Rightarrow> (rstream \<times> 's) go" where
  "sv_req tyname s c_in st =
     (case c_in of
        ([], err) \<Rightarrow> Ret (([], err), st)
      | (dat # ms, err) \<Rightarrow>
          (case dat of
             MUser (RReq (Some m)) \<Rightarrow> sv_dispatch s m (ms, err) st
           | MUser (RReq None) \<Rightarrow> Panic
           | _ \<Rightarrow> Ret (([], Some (''unknown msg type '' @ tyname dat)), st)))"

text \<open>
  The trees for a user: \<open>auth\<close> has the trees that authenticate users, by their names.
\<close>

definition sv_authFor ::
  "(string \<Rightarrow> (auth_info \<Rightarrow> string + 's xfs) option) \<Rightarrow> 's rzx_server \<Rightarrow> auth_info \<Rightarrow> 's rzx_server" where
  "sv_authFor auth s ai =
     s\<lparr>sv_fs := concat (map (\<lambda>(n, fs).
        case auth n of
          None \<Rightarrow> [(n, fs)]
        | Some afs \<Rightarrow> (case afs ai of Inl _ \<Rightarrow> [] | Inr fs' \<Rightarrow> [(n, fs')])) (sv_fs s))\<rparr>"

text \<open>
  A client's connections until one authenticates the user: whether each has an output, and what the
  protocol at the server replies in it.  The result is the user, and the connections left.
\<close>

fun auth_loop :: "bool \<Rightarrow> (bool \<times> auth_info option \<times> error) list \<Rightarrow> auth_info option \<Rightarrow>
    auth_info option \<times> nat" where
  "auth_loop noauth [] ai = (ai, 0)"
| "auth_loop noauth ((isrpc, nai, err) # cs) ai =
     (if \<not> isrpc then auth_loop noauth cs ai
      else if err = None \<or> noauth \<and> nai \<noteq> None \<and> err = Some ''auth disabled'' then (nai, length cs)
      else auth_loop noauth cs nai)"

section \<open>The client\<close>

text \<open>
  A call sends a request in a new connection and has the reply: \<open>call\<close> is what the network and the server do,
  and None is a connection that breaks.
\<close>

type_synonym 's call = "rstream \<Rightarrow> 's \<Rightarrow> (rstream \<times> 's) option"

definition send_call :: "'s call \<Rightarrow> rstream \<Rightarrow> (rstream \<Rightarrow> 'a) \<Rightarrow> 's \<Rightarrow> ('a \<times> 's) option" where
  "send_call call req reply st = map_option (\<lambda>(r, st'). (reply r, st')) (call req st)"

abbreviation req_msg :: "rzx_msg \<Rightarrow> rmsg" where "req_msg m \<equiv> MUser (RReq (Some m))"

text \<open>A reply with an entry, and one with an error only.\<close>

definition dir_reply :: "rstream \<Rightarrow> dir option \<times> error" where
  "dir_reply r =
     (case snd r of
        Some e \<Rightarrow> (None, Some e)
      | None \<Rightarrow> (case fst r of MUser (RZx (VDir od)) # _ \<Rightarrow> (od, None) | _ \<Rightarrow> (None, Some rzx_ErrBadMsg)))"

definition rfs_dircall :: "'s call \<Rightarrow> rzx_msg \<Rightarrow> 's \<Rightarrow> ((dir option \<times> error) \<times> 's) option" where
  "rfs_dircall call m st = send_call call ([req_msg m], None) dir_reply st"

definition rfs_errcall :: "'s call \<Rightarrow> rzx_msg \<Rightarrow> 's \<Rightarrow> (error \<times> 's) option" where
  "rfs_errcall call m st = send_call call ([req_msg m], None) snd st"

definition rfs_Stat :: "'s call \<Rightarrow> string \<Rightarrow> string \<Rightarrow> 's \<Rightarrow> ((dir option \<times> error) \<times> 's) option" where
  "rfs_Stat call fsys p st = rfs_dircall call ((op_msg Tstat)\<lparr>m_Fsys := fsys, m_Path := p\<rparr>) st"

definition rfs_Wstat :: "'s call \<Rightarrow> string \<Rightarrow> string \<Rightarrow> dir \<Rightarrow> 's \<Rightarrow> ((dir option \<times> error) \<times> 's) option" where
  "rfs_Wstat call fsys p d st =
     rfs_dircall call ((op_msg Twstat)\<lparr>m_Fsys := fsys, m_Path := p, m_D := Some (zx_Dup d)\<rparr>) st"

definition rfs_Remove :: "'s call \<Rightarrow> string \<Rightarrow> string \<Rightarrow> 's \<Rightarrow> (error \<times> 's) option" where
  "rfs_Remove call fsys p st = rfs_errcall call ((op_msg Tremove)\<lparr>m_Fsys := fsys, m_Path := p\<rparr>) st"

definition rfs_RemoveAll :: "'s call \<Rightarrow> string \<Rightarrow> string \<Rightarrow> 's \<Rightarrow> (error \<times> 's) option" where
  "rfs_RemoveAll call fsys p st = rfs_errcall call ((op_msg Tremoveall)\<lparr>m_Fsys := fsys, m_Path := p\<rparr>) st"

definition rfs_Move :: "'s call \<Rightarrow> string \<Rightarrow> string \<Rightarrow> string \<Rightarrow> 's \<Rightarrow> (error \<times> 's) option" where
  "rfs_Move call fsys src dst st =
     rfs_errcall call ((op_msg Tmove)\<lparr>m_Fsys := fsys, m_Path := src, m_To := dst\<rparr>) st"

definition rfs_Link :: "'s call \<Rightarrow> string \<Rightarrow> string \<Rightarrow> string \<Rightarrow> 's \<Rightarrow> (error \<times> 's) option" where
  "rfs_Link call fsys oldp newp st =
     rfs_errcall call ((op_msg Tlink)\<lparr>m_Fsys := fsys, m_Path := newp, m_To := oldp\<rparr>) st"

text \<open>A reply of data: up to the first message that is something else, which is an error.\<close>

fun data_reply :: "rmsg list \<Rightarrow> error \<Rightarrow> byte list list \<times> error" where
  "data_reply [] err = ([], err)"
| "data_reply (MBytes b # ms) err = (let (bs, e) = data_reply ms err in (b # bs, e))"
| "data_reply (m # ms) err = ([], Some rzx_ErrBadMsg)"

definition rfs_Get :: "'s call \<Rightarrow> string \<Rightarrow> string \<Rightarrow> int \<Rightarrow> int \<Rightarrow> 's \<Rightarrow> ((byte list list \<times> error) \<times> 's) option" where
  "rfs_Get call fsys p off count st =
     send_call call ([req_msg ((op_msg Tget)\<lparr>m_Fsys := fsys, m_Path := p, m_Off := off, m_Count := count\<rparr>)], None)
       (\<lambda>r. data_reply (fst r) (snd r)) st"

text \<open>
  \<open>Put\<close> sends the data after the request, but for directories; an error in the data is sent and replied, with
  no wait for the reply of the server.
\<close>

definition rfs_Put ::
  "'s call \<Rightarrow> string \<Rightarrow> string \<Rightarrow> dir \<Rightarrow> int \<Rightarrow> byte list list \<times> error \<Rightarrow> 's \<Rightarrow> ((dir option \<times> error) \<times> 's) option" where
  "rfs_Put call fsys p d0 off dc st =
     (let d = zx_Dup d0;
          m = (op_msg Tput)\<lparr>m_Fsys := fsys, m_Path := p, m_D := Some d, m_Off := off\<rparr>
      in if dget d ''type'' = ''d'' then rfs_dircall call m st
         else send_call call (req_msg m # map MBytes (fst dc), snd dc)
                (\<lambda>r. case snd dc of Some e \<Rightarrow> (None, Some e) | None \<Rightarrow> dir_reply r) st)"

fun dirs_reply :: "rmsg list \<Rightarrow> error \<Rightarrow> dir option list \<times> error" where
  "dirs_reply [] err = ([], err)"
| "dirs_reply (m # ms) err =
     (case m of
        MUser (RZx (VDir od)) \<Rightarrow> (let (ds, e) = dirs_reply ms err in (od # ds, e))
      | _ \<Rightarrow> ([], Some rzx_ErrBadMsg))"

definition find_msg :: "nat \<Rightarrow> string \<Rightarrow> string \<Rightarrow> string \<Rightarrow> string \<Rightarrow> string \<Rightarrow> int \<Rightarrow> rzx_msg" where
  "find_msg op fsys p pred spref dpref depth0 =
     (op_msg op)\<lparr>m_Fsys := fsys, m_Path := p, m_Pred := pred, m_Spref := spref, m_Dpref := dpref, m_Depth := depth0\<rparr>"

definition rfs_Find ::
  "'s call \<Rightarrow> string \<Rightarrow> string \<Rightarrow> string \<Rightarrow> string \<Rightarrow> string \<Rightarrow> int \<Rightarrow> 's \<Rightarrow> ((dir option list \<times> error) \<times> 's) option" where
  "rfs_Find call fsys p pred spref dpref depth0 st =
     send_call call ([req_msg (find_msg Tfind fsys p pred spref dpref depth0)], None) (\<lambda>r. dirs_reply (fst r) (snd r)) st"

definition rfs_FindGet ::
  "'s call \<Rightarrow> string \<Rightarrow> string \<Rightarrow> string \<Rightarrow> string \<Rightarrow> string \<Rightarrow> int \<Rightarrow> 's \<Rightarrow> (rstream \<times> 's) option" where
  "rfs_FindGet call fsys p pred spref dpref depth0 st =
     send_call call ([req_msg (find_msg Tfindget fsys p pred spref dpref depth0)], None) id st"

text \<open>The names of the trees: those known before, and those replied, and \<open>main\<close> if they are all names.\<close>

fun trees_reply :: "rmsg list \<Rightarrow> error \<Rightarrow> string list \<Rightarrow> string list \<times> error" where
  "trees_reply [] err ts = (List.insert ''main'' ts, err)"
| "trees_reply (MStr t # ms) err ts = trees_reply ms err (List.insert t ts)"
| "trees_reply (m # ms) err ts = (ts, Some rzx_ErrBadMsg)"

definition rfs_getTrees :: "'s call \<Rightarrow> string list \<Rightarrow> 's \<Rightarrow> ((string list \<times> error) \<times> 's) option" where
  "rfs_getTrees call ts st =
     send_call call ([req_msg ((op_msg Ttrees)\<lparr>m_Fsys := ''main''\<rparr>)], None) (\<lambda>r. trees_reply (fst r) (snd r) ts) st"

definition rfs_Trees :: "string list \<Rightarrow> string list" where
  "rfs_Trees ts = go_sort (<) ts"

definition rfs_Fsys :: "string list \<Rightarrow> string \<Rightarrow> error" where
  "rfs_Fsys ts name =
     (if name = ''main'' \<or> name \<in> set ts then None else Some (''no fsys '' @ [CHR 0x27] @ name @ [CHR 0x27]))"

end
