(* ===== verification/RzxProps.thy ===== *)
theory RzxProps
  imports RzxSrv
begin

text \<open>
  Remote trees behave as the trees served: requests and replies arrive as they were sent, and what a client
  is replied is what the tree replies, with the addresses of the entries completed.  A server that is
  read-only changes nothing.
\<close>

section \<open>The wire\<close>

definition rzx_TypeId :: "rzx_val \<Rightarrow> 16 word option" where
  "rzx_TypeId v = (case v of RReq m \<Rightarrow> Some rzx_Msg_TypeId | RZx v \<Rightarrow> zx_TypeId v)"

definition rzx_pack :: "rzx_val \<Rightarrow> byte list" where
  "rzx_pack v =
     (case v of
        RReq None \<Rightarrow> []
      | RReq (Some m) \<Rightarrow> (case rzx_Msg_WriteTo m of Inl _ \<Rightarrow> [] | Inr b \<Rightarrow> b)
      | RZx v \<Rightarrow> zx_WriteTo v)"

definition rzx_unpackers :: "rzx_val unpackers" where
  "rzx_unpackers typ =
     (if typ = rzx_Msg_TypeId then Some (\<lambda>b. let (m, e) = rzx_Msg_Unpack b in (RReq m, e))
      else map_option (\<lambda>f b. let (v, e) = f b in (RZx v, e)) (zx_Unpack typ))"

fun good_rzx_val :: "rzx_val \<Rightarrow> bool" where
  "good_rzx_val (RReq (Some m)) = good_rzx_msg m"
| "good_rzx_val (RReq None) = False"
| "good_rzx_val (RZx v) = good_val v"

lemma good_WriteTo: "good_rzx_msg m \<Longrightarrow> \<exists>b. rzx_Msg_WriteTo m = Inr b"
  by (auto simp: good_rzx_msg_def rzx_Msg_WriteTo_def)

interpretation rzx_codec: msg_codec rzx_TypeId rzx_pack rzx_unpackers good_rzx_val
proof
  fix u assume g: "good_rzx_val u"
  show "\<exists>t. rzx_TypeId u = Some t \<and> t \<noteq> Tbytes \<and> t \<noteq> Tstr \<and> t \<noteq> Terr"
  proof (cases u)
    case (RZx v)
    then show ?thesis using g zx_codec.ty_law[of v] by (simp add: rzx_TypeId_def)
  qed (simp add: rzx_TypeId_def rzx_Msg_TypeId_def ch_types)
next
  fix u t assume g: "good_rzx_val u" and t: "rzx_TypeId u = Some t"
  show "\<exists>f. rzx_unpackers t = Some f \<and> f (rzx_pack u) = (u, None)"
  proof (cases u)
    case (RReq om)
    then obtain m where m: "u = RReq (Some m)" "good_rzx_msg m" using g by (cases om) auto
    then obtain b where b: "rzx_Msg_WriteTo m = Inr b" using good_WriteTo by blast
    show ?thesis
      using m t b rzx_UnpackMsg_WriteTo[OF m(2) b, of "[]"]
      by (simp add: rzx_TypeId_def rzx_unpackers_def rzx_pack_def rzx_Msg_Unpack_def)
  next
    case (RZx v)
    then have v: "good_val v" "zx_TypeId v = Some t" using g t by (simp_all add: rzx_TypeId_def)
    then obtain f where "zx_Unpack t = Some f" "f (zx_WriteTo v) = (v, None)" using zx_codec.unpack_law by blast
    moreover have "t \<noteq> rzx_Msg_TypeId" using v(2) by (cases v) (auto simp: zx_TypeId_def rzx_Msg_TypeId_def ch_types)
    ultimately show ?thesis using RZx by (simp add: rzx_unpackers_def rzx_pack_def)
  qed
qed

text \<open>
  A message goes in a frame that \<open>WriteMsg\<close> writes and \<open>ReadMsg\<close> reads; a stream arrives if all of its
  messages do, and its error goes in a message too.
\<close>

definition rzx_carry :: "rmsg \<Rightarrow> rmsg option" where
  "rzx_carry m =
     (case ch_WriteMsg rzx_TypeId rzx_pack (\<lambda>h b. (length b, None)) [] 0 m of
        (fs, _, Some e) \<Rightarrow> None
      | (fs, _, None) \<Rightarrow>
          (case ch_ReadMsg rzx_unpackers (concat fs, EOFErr) of (_, _, m', None, _) \<Rightarrow> m' | _ \<Rightarrow> None))"

fun carry_msgs :: "rmsg list \<Rightarrow> rmsg list option" where
  "carry_msgs [] = Some []"
| "carry_msgs (m # ms) =
     (case rzx_carry m of None \<Rightarrow> None | Some m' \<Rightarrow> map_option ((#) m') (carry_msgs ms))"

definition carry_err :: "error \<Rightarrow> error option" where
  "carry_err e =
     (case e of
        None \<Rightarrow> Some None
      | Some s \<Rightarrow> (case rzx_carry (MErr s) of Some (MErr s') \<Rightarrow> Some (Some s') | _ \<Rightarrow> None))"

definition carry_stream :: "rstream \<Rightarrow> rstream option" where
  "carry_stream r =
     (case (carry_msgs (fst r), carry_err (snd r)) of (Some ms, Some e) \<Rightarrow> Some (ms, e) | _ \<Rightarrow> None)"

text \<open>A call to a server: the request arrives, the server runs it, and the reply arrives.\<close>

definition remote_call :: "(rmsg \<Rightarrow> string) \<Rightarrow> 's rzx_server \<Rightarrow> 's call" where
  "remote_call tyname s req st =
     (case carry_stream req of
        None \<Rightarrow> None
      | Some req' \<Rightarrow>
          (case sv_req tyname s req' st of
             Panic \<Rightarrow> None
           | Ret (rep, st') \<Rightarrow> map_option (\<lambda>r. (r, st')) (carry_stream rep)))"

text \<open>What fits in a message.\<close>

fun fits :: "rmsg \<Rightarrow> bool" where
  "fits (MBytes b) = (length b \<le> MaxMsgSz)"
| "fits (MStr s) = (length s \<le> MaxMsgSz)"
| "fits (MErr s) = (length s \<le> MaxMsgSz)"
| "fits (MUser u) = (good_rzx_val u \<and> length (rzx_pack u) \<le> MaxMsgSz)"
| "fits (MIgn t b) = False"
| "fits MOther = False"

definition fits_stream :: "rstream \<Rightarrow> bool" where
  "fits_stream r \<longleftrightarrow> list_all fits (fst r) \<and> (case snd r of None \<Rightarrow> True | Some e \<Rightarrow> length e \<le> MaxMsgSz)"

lemma carry_fits: "fits m \<Longrightarrow> rzx_carry m = Some m"
proof -
  assume f: "fits m"
  then have g: "rzx_codec.good_msg m"
    by (cases m) (auto simp: rzx_codec.good_msg_def rzx_codec.payload_def)
  obtain t b where p: "rzx_codec.payload m = Some (t, b)" using g by (auto simp: rzx_codec.good_msg_def)
  show ?thesis
    using rzx_codec.ReadMsg_payload[OF g p, of 0 "[]" EOFErr]
    by (simp add: rzx_carry_def rzx_codec.WriteMsg_payload[OF p] ch_writeBytes_def Let_def)
qed

lemma carry_msgs_fits: "list_all fits ms \<Longrightarrow> carry_msgs ms = Some ms"
  by (induction ms) (auto simp: carry_fits)

lemma carry_stream_fits: "fits_stream r \<Longrightarrow> carry_stream r = Some r"
  by (cases r) (auto simp: carry_stream_def fits_stream_def carry_msgs_fits carry_err_def carry_fits split: option.splits)

lemma remote_call_fits:
  assumes "fits_stream req" and "sv_req tyname s req st = Ret (rep, st')" and "fits_stream rep"
  shows "remote_call tyname s req st = Some (rep, st')"
  using assms by (simp add: remote_call_def carry_stream_fits)

section \<open>Read-only servers\<close>

text \<open>
  C34: a read-only server changes nothing: whatever the request, the state of the trees that it serves is the same
  after it, and a request to put, move, remove or change a file of a tree is replied with the error of its address.
\<close>

theorem rzx_readonly:
  assumes "sv_rdonly s" and "sv_req tyname s c_in st = Ret (r, st')"
  shows "st' = st \<and>
    (\<forall>m ms e. c_in = (req_msg m # ms, e) \<and> sv_tree s (m_Fsys m) \<noteq> None \<and>
        m_Op m \<in> {Tput, Tmove, Tremove, Tremoveall, Twstat} \<longrightarrow> r = ([], Some (ro_err s)))"
proof
  show "st' = st" using assms
    by (auto simp: sv_req_def sv_dispatch_def sv_put_def sv_move_def sv_remove_def sv_wstat_def go_simps
        split: list.splits prod.splits msg.splits rzx_val.splits option.splits if_splits)
  show "\<forall>m ms e. c_in = (req_msg m # ms, e) \<and> sv_tree s (m_Fsys m) \<noteq> None \<and>
      m_Op m \<in> {Tput, Tmove, Tremove, Tremoveall, Twstat} \<longrightarrow> r = ([], Some (ro_err s))" using assms
    by (auto simp: sv_req_def sv_dispatch_def sv_put_def sv_move_def sv_remove_def sv_wstat_def rzx_ops)
qed

section \<open>Remote trees\<close>

text \<open>What a client sees of an entry replied, and what may be replied.\<close>

definition seen_dir :: "'s rzx_server \<Rightarrow> string \<Rightarrow> dir option \<times> error \<Rightarrow> dir option \<times> error" where
  "seen_dir s fsys r =
     (if snd r = None then map_option (\<lambda>d. sv_mkaddr s d fsys) (fst r) else None, snd r)"

definition dir_fits :: "'s rzx_server \<Rightarrow> string \<Rightarrow> dir option \<times> error \<Rightarrow> bool" where
  "dir_fits s fsys r \<longleftrightarrow>
     (case snd r of
        Some e \<Rightarrow> length e \<le> MaxMsgSz
      | None \<Rightarrow> (case fst r of None \<Rightarrow> False | Some d \<Rightarrow> fits (dir_msg (sv_mkaddr s d fsys))))"

lemma op_simps [simp]:
  "m_Op (op_msg op) = op" "m_Fsys (op_msg op) = []" "m_Path (op_msg op) = []" "m_D (op_msg op) = None" "m_Off (op_msg op) = 0"
  "m_Count (op_msg op) = 0" "m_To (op_msg op) = []"
  by (simp_all add: op_msg_def)

lemma dir_reply_seen:
  "dir_fits s fsys (d, e) \<Longrightarrow>
    fits_stream (if e = None then ([dir_msg (sv_mkaddr s (the d) fsys)], None) else ([], e)) \<and>
    dir_reply (if e = None then ([dir_msg (sv_mkaddr s (the d) fsys)], None) else ([], e)) = seen_dir s fsys (d, e)"
  by (cases e; cases d) (auto simp: dir_fits_def seen_dir_def dir_reply_def fits_stream_def)

lemma rfs_Stat_remote:
  assumes "sv_tree s fsys = Some fs" and "xfs_Stat fs st p = r" and "dir_fits s fsys r"
    and "fits (req_msg ((op_msg Tstat)\<lparr>m_Fsys := fsys, m_Path := p\<rparr>))"
  shows "rfs_Stat (remote_call tyname s) fsys p st = Some (seen_dir s fsys r, st)"
proof -
  obtain d e where r: "r = (d, e)" by force
  let ?rep = "if e = None then ([dir_msg (sv_mkaddr s (the d) fsys)], None) else ([], e)"
  let ?req = "([req_msg ((op_msg Tstat)\<lparr>m_Fsys := fsys, m_Path := p\<rparr>)], None)"
  have "sv_req tyname s ?req st = Ret (?rep, st)"
    using assms(1-3) r
    by (auto simp: sv_req_def sv_dispatch_def rzx_ops sv_stat_def mkaddr_opt_def dir_fits_def split: option.splits)
  then show ?thesis
    using remote_call_fits[of ?req tyname s st ?rep st] dir_reply_seen[OF assms(3)[unfolded r]] assms(4) r
    by (simp add: rfs_Stat_def rfs_dircall_def send_call_def fits_stream_def)
qed

lemma rfs_Wstat_remote:
  assumes "sv_tree s fsys = Some fs" and "\<not> sv_rdonly s" and "xfs_Wstat fs = Some wstat"
    and "wstat st p (Some (zx_Dup d)) = (r, st')" and "dir_fits s fsys r"
    and "fits (req_msg ((op_msg Twstat)\<lparr>m_Fsys := fsys, m_Path := p, m_D := Some (zx_Dup d)\<rparr>))"
  shows "rfs_Wstat (remote_call tyname s) fsys p d st = Some (seen_dir s fsys r, st')"
proof -
  obtain d' e where r: "r = (d', e)" by force
  let ?rep = "if e = None then ([dir_msg (sv_mkaddr s (the d') fsys)], None) else ([], e)"
  let ?req = "([req_msg ((op_msg Twstat)\<lparr>m_Fsys := fsys, m_Path := p, m_D := Some (zx_Dup d)\<rparr>)], None)"
  have "sv_req tyname s ?req st = Ret (?rep, st')"
    using assms(1-5) r
    by (auto simp: sv_req_def sv_dispatch_def rzx_ops sv_wstat_def mkaddr_opt_def dir_fits_def split: option.splits)
  then show ?thesis
    using remote_call_fits[of ?req tyname s st ?rep st'] dir_reply_seen[OF assms(5)[unfolded r]] assms(6) r
    by (simp add: rfs_Wstat_def rfs_dircall_def send_call_def fits_stream_def)
qed

lemma put_data_bytes: "put_data (map MBytes bs) e = (bs, e)"
  by (induction bs) auto

text \<open>
  C33: a \<open>Put\<close> in a remote tree is a \<open>Put\<close> in the tree served: the tree gets the path, the entry, the offset and
  the data that the client gave (no data for a directory), and the client gets the entry or the error that the tree
  replied, with the address that the entry has at the server.
\<close>

theorem rzx_Put_remote:
  assumes "sv_tree s fsys = Some fs" and "\<not> sv_rdonly s" and "xfs_Put fs = Some put"
    and "put st p (Some (zx_Dup d)) off (if dget (zx_Dup d) ''type'' = ''d'' then ([], None) else (data, None)) = (r, st')"
    and "dir_fits s fsys r" and "\<forall>b\<in>set data. length b \<le> MaxMsgSz"
    and "fits (req_msg ((op_msg Tput)\<lparr>m_Fsys := fsys, m_Path := p, m_D := Some (zx_Dup d), m_Off := off\<rparr>))"
  shows "rfs_Put (remote_call tyname s) fsys p d off (data, None) st = Some (seen_dir s fsys r, st')"
proof -
  obtain d' e where r: "r = (d', e)" by force
  let ?dir = "dget (zx_Dup d) ''type'' = ''d''"
  let ?rep = "if e = None then ([dir_msg (sv_mkaddr s (the d') fsys)], None) else ([], e)"
  let ?m = "(op_msg Tput)\<lparr>m_Fsys := fsys, m_Path := p, m_D := Some (zx_Dup d), m_Off := off\<rparr>"
  let ?req = "(req_msg ?m # (if ?dir then [] else map MBytes data), None)"
  have "sv_req tyname s ?req st = Ret (?rep, st')"
    using assms(1-5) r
    by (auto simp: sv_req_def sv_dispatch_def rzx_ops sv_put_def mkaddr_opt_def dir_fits_def put_data_bytes
        split: option.splits)
  moreover have "fits_stream ?req" using assms(6,7) by (simp add: fits_stream_def list_all_iff)
  ultimately show ?thesis
    using remote_call_fits[of ?req tyname s st ?rep st'] dir_reply_seen[OF assms(5)[unfolded r]] r
    by (cases ?dir) (simp_all add: rfs_Put_def rfs_dircall_def send_call_def Let_def)
qed

text \<open>Calls with no result but the error.\<close>

lemma errcall_remote:
  assumes "sv_req tyname s ([req_msg m], None) st = Ret (([], e), st')" and "fits (req_msg m)"
    and "\<forall>x. e = Some x \<longrightarrow> length x \<le> MaxMsgSz"
  shows "rfs_errcall (remote_call tyname s) m st = Some (e, st')"
proof -
  have "fits_stream ([req_msg m], None)" and "fits_stream ([], e)"
    using assms(2,3) by (auto simp: fits_stream_def split: option.splits)
  then show ?thesis using remote_call_fits[OF _ assms(1)] by (simp add: rfs_errcall_def send_call_def)
qed

lemma rfs_Remove_remote:
  assumes "sv_tree s fsys = Some fs" and "\<not> sv_rdonly s" and "xfs_Remove fs = Some rm" and "p \<noteq> []" and "p \<noteq> ''/''"
    and "\<forall>x. e = Some x \<longrightarrow> length x \<le> MaxMsgSz"
  shows "rm st p = (e, st') \<Longrightarrow> fits (req_msg ((op_msg Tremove)\<lparr>m_Fsys := fsys, m_Path := p\<rparr>)) \<Longrightarrow>
      rfs_Remove (remote_call tyname s) fsys p st = Some (e, st')"
    and "xfs_RemoveAll fs st p = (e, st') \<Longrightarrow> fits (req_msg ((op_msg Tremoveall)\<lparr>m_Fsys := fsys, m_Path := p\<rparr>)) \<Longrightarrow>
      rfs_RemoveAll (remote_call tyname s) fsys p st = Some (e, st')"
  unfolding rfs_Remove_def rfs_RemoveAll_def using assms
  by (auto intro!: errcall_remote simp: sv_req_def sv_dispatch_def sv_remove_def rzx_ops)

lemma rfs_Move_remote:
  assumes "sv_tree s fsys = Some fs" and "\<not> sv_rdonly s" and "xfs_Move fs = Some mv" and "mv st p q = (e, st')"
    and "fits (req_msg ((op_msg Tmove)\<lparr>m_Fsys := fsys, m_Path := p, m_To := q\<rparr>))" and "\<forall>x. e = Some x \<longrightarrow> length x \<le> MaxMsgSz"
  shows "rfs_Move (remote_call tyname s) fsys p q st = Some (e, st')"
  unfolding rfs_Move_def using assms
  by (auto intro!: errcall_remote simp: sv_req_def sv_dispatch_def sv_move_def rzx_ops)

text \<open>A link is never made: the server has a handler for it that no request reaches.\<close>

theorem rzx_Link_fails:
  assumes "sv_tree s fsys = Some fs"
    and "fits (req_msg ((op_msg Tlink)\<lparr>m_Fsys := fsys, m_Path := newp, m_To := oldp\<rparr>))"
  shows "rfs_Link (remote_call tyname s) fsys oldp newp st = Some (Some ''unknown msg op Tlink'', st)"
  unfolding rfs_Link_def using assms
  by (auto intro!: errcall_remote simp: sv_req_def sv_dispatch_def msgid_String_def rzx_ops MaxMsgSz_def)

text \<open>The data of a file, and the entries of a directory.\<close>

lemma data_reply_bytes: "data_reply (map MBytes bs) e = (bs, e)"
  by (induction bs) auto

lemma rfs_Get_remote:
  assumes "sv_tree s fsys = Some fs" and "xfs_Get fs = Some get" and "xfs_Stat fs st p = (Some d, None)"
    and "get st p off count = (xs, e)"
    and "ys = (if dget d ''type'' = ''d'' then map (get_item s fsys) xs else xs)"
    and "\<forall>y\<in>set ys. length y \<le> MaxMsgSz" and "\<forall>x. e = Some x \<longrightarrow> length x \<le> MaxMsgSz"
    and "fits (req_msg ((op_msg Tget)\<lparr>m_Fsys := fsys, m_Path := p, m_Off := off, m_Count := count\<rparr>))"
  shows "rfs_Get (remote_call tyname s) fsys p off count st = Some ((ys, e), st)"
proof -
  let ?req = "([req_msg ((op_msg Tget)\<lparr>m_Fsys := fsys, m_Path := p, m_Off := off, m_Count := count\<rparr>)], None)"
  have "sv_req tyname s ?req st = Ret ((map MBytes ys, e), st)"
    using assms(1-5) by (simp add: sv_req_def sv_dispatch_def sv_get_def rzx_ops)
  moreover have "fits_stream ?req" and "fits_stream (map MBytes ys, e)"
    using assms(6-8) by (auto simp: fits_stream_def list_all_iff split: option.splits)
  ultimately show ?thesis
    using remote_call_fits[of ?req tyname s st "(map MBytes ys, e)" st]
    by (simp add: rfs_Get_def send_call_def data_reply_bytes)
qed

lemma get_item_entry: "good_dir d \<Longrightarrow> get_item s fsys (zx_Dir_Bytes d) = zx_Dir_Bytes (sv_mkaddr s d fsys)"
  using zx_UnpackDir_WriteTo[of d "[]"] by (simp add: get_item_def zx_Dir_Bytes_def)

lemma get_item_end: "get_item s fsys [] = []"
  by (simp add: get_item_def zx_UnpackDir_def)

lemma dirs_reply_dirs: "dirs_reply (map dir_msg ds) e = (map Some ds, e)"
  by (induction ds) auto

lemma rfs_Find_remote:
  assumes "sv_tree s fsys = Some fs" and "xfs_Find fs = Some fnd" and "fnd st p pred spref dpref depth = (ds, e)"
    and "\<forall>d\<in>set ds. fits (dir_msg (sv_mkaddr s d fsys))" and "\<forall>x. e = Some x \<longrightarrow> length x \<le> MaxMsgSz"
    and "fits (req_msg (find_msg Tfind fsys p pred spref dpref depth))"
  shows "rfs_Find (remote_call tyname s) fsys p pred spref dpref depth st =
    Some ((map (\<lambda>d. Some (sv_mkaddr s d fsys)) ds, e), st)"
proof -
  let ?req = "([req_msg (find_msg Tfind fsys p pred spref dpref depth)], None)"
  let ?rep = "(map (\<lambda>d. dir_msg (sv_mkaddr s d fsys)) ds, e)"
  have "sv_req tyname s ?req st = Ret (?rep, st)"
    using assms(1-3) by (simp add: sv_req_def sv_dispatch_def sv_find_def find_msg_def rzx_ops op_msg_def)
  moreover have "fits_stream ?req" and "fits_stream ?rep"
    using assms(4-6) by (auto simp: fits_stream_def list_all_iff split: option.splits)
  ultimately show ?thesis
    using remote_call_fits[of ?req tyname s st ?rep st] dirs_reply_dirs[of "map (\<lambda>d. sv_mkaddr s d fsys) ds" e]
    by (simp add: rfs_Find_def send_call_def comp_def)
qed

section \<open>A tree in memory\<close>

text \<open>The entries of the files by their paths.\<close>

type_synonym mem = "(string \<times> dir) list"

definition mem_put :: "mem \<Rightarrow> string \<Rightarrow> dir option \<Rightarrow> int \<Rightarrow> byte list list \<times> error \<Rightarrow> (dir option \<times> error) \<times> mem" where
  "mem_put st p od off dc =
     (let d = [(''type'', dget (the od) ''type''), (''size'', go_digits 10 (length (concat (fst dc)))), (''addr'', ''lfs!/t!'' @ p)]
      in ((Some d, None), AList.update p d st))"

definition mem_fs :: "mem xfs" where
  "mem_fs = \<lparr>xfs_Stat = (\<lambda>st p. case map_of st p of None \<Rightarrow> (None, Some ErrNotExist) | Some d \<Rightarrow> (Some d, None)),
     xfs_Get = None, xfs_Put = Some mem_put, xfs_Wstat = None, xfs_Move = None, xfs_Link = None,
     xfs_Remove = Some (\<lambda>st p. (None, AList.delete p st)), xfs_RemoveAll = (\<lambda>st p. (None, AList.delete p st)),
     xfs_Find = None, xfs_FindGet = None\<rparr>"

definition demo_server :: "bool \<Rightarrow> mem rzx_server" where
  "demo_server ro = \<lparr>sv_fs = [(''main'', mem_fs)], sv_addr = ''tcp!h!zx'', sv_rdonly = ro, sv_noauth = False, sv_clients = []\<rparr>"

lemmas fits_simps = fits_stream_def good_rzx_msg_def int64_ok_def rzx_ops MaxMsgSz_def rzx_pack_def rzx_Msg_WriteTo_def op_msg_def
  ch_WriteStringTo_def zx_Dir_WriteTo_def good_dir_def zx_WriteTo_def

theorem rzx_readonly_witness:
  "\<exists>r st'. sv_req (\<lambda>m. []) (demo_server True) ([req_msg ((op_msg Tremove)\<lparr>m_Fsys := ''main'', m_Path := ''/a''\<rparr>)], None) [(''/a'', [])] =
      Ret (r, st') \<and> r = ([], Some ''tcp!h!zx: resource is read-only'') \<and> st' = [(''/a'', [])]"
proof -
  let ?req = "([req_msg ((op_msg Tremove)\<lparr>m_Fsys := ''main'', m_Path := ''/a''\<rparr>)], None)"
  obtain st' where r: "sv_req (\<lambda>m. []) (demo_server True) ?req [(''/a'', [])] = Ret (([], Some ''tcp!h!zx: resource is read-only''), st')"
    by (simp add: demo_server_def sv_req_def sv_dispatch_def sv_tree_def sv_remove_def rzx_ops mem_fs_def ro_err_def zx_ErrRO_def)
  have "sv_rdonly (demo_server True)" by (simp add: demo_server_def)
  from rzx_readonly[OF this r] show ?thesis using r by simp
qed

lemma digits_3: "go_digits 10 (Suc (Suc (Suc 0))) = ''3''"
  by code_simp

theorem rzx_Put_remote_witness:
  "rfs_Put (remote_call (\<lambda>m. []) (demo_server False)) ''main'' ''/a'' [(''type'', ''-'')] 0 ([''xy'', ''z''], None) [] =
    Some (seen_dir (demo_server False) ''main'' (Some [(''type'', ''-''), (''size'', ''3''), (''addr'', ''lfs!/t!/a'')], None),
      [(''/a'', [(''type'', ''-''), (''size'', ''3''), (''addr'', ''lfs!/t!/a'')])])"
proof (rule rzx_Put_remote[where put = mem_put and fs = mem_fs])
  show "fits (req_msg ((op_msg Tput)\<lparr>m_Fsys := ''main'', m_Path := ''/a'', m_D := Some (zx_Dup [(''type'', ''-'')]), m_Off := 0\<rparr>))"
    by (simp add: fits_simps zx_Dup_def dset_def int64_bytes_def)
  show "dir_fits (demo_server False) ''main'' (Some [(''type'', ''-''), (''size'', ''3''), (''addr'', ''lfs!/t!/a'')], None)"
    by (simp add: dir_fits_def fits_simps sv_mkaddr_def demo_server_def dget_def dset_def)
qed (simp_all add: demo_server_def sv_tree_def mem_fs_def mem_put_def zx_Dup_def dset_def dget_def Let_def MaxMsgSz_def digits_3)

theorem rzx_Link_fails_demo:
  "rfs_Link (remote_call (\<lambda>m. []) (demo_server False)) ''main'' ''/a'' ''/b'' [] = Some (Some ''unknown msg op Tlink'', [])"
  by (rule rzx_Link_fails[where fs = mem_fs]) (simp_all add: demo_server_def sv_tree_def fits_simps)

end
