(* ===== verification/ReplDb.thy ===== *)
theory ReplDb
  imports Ns ZxPerms
begin

text \<open>
  The database of a replica (src/zx/repl/db.go): the tree of the entries of a file tree, kept to
  find what changed.

  A database keeps a pointer to the directory it added to last (\<open>lastpf\<close>), so its files are kept in a
  store, and a pointer is an index in it.  The file system and the channels are parameters:
  messages received are lists, with the error that closes them.  Slices of children are values: the
  code appends to a slice of children and stores it back in the one file that holds it.
\<close>

record rfile =
  fi_D :: dir
  fi_Child :: "nat list"

text \<open>The errors, some with the text that tells whether they say that a file does not exist.\<close>

datatype repl_error = RErr string | RCh ch_error

fun repl_IsNotExist :: "repl_error option \<Rightarrow> bool" where
  "repl_IsNotExist (Some (RErr s)) = zx_IsNotExist (Some s)"
| "repl_IsNotExist e = False"

type_synonym store = "rfile list"

record db =
  db_Name :: string
  db_Addr :: string
  db_Excl :: "string list"
  db_files :: store
  db_Root :: "nat option"
  db_lastpf :: "nat option"
  db_lastpdir :: string

definition isExcl :: "string \<Rightarrow> string list \<Rightarrow> bool" where
  "isExcl path excl \<longleftrightarrow> path \<noteq> ''/'' \<and> list_ex (zx_PathPrefixMatch path) excl"

text \<open>A new database for the root that \<open>Stat\<close> replies with.\<close>

definition root_entry :: "dir \<Rightarrow> dir" where
  "root_entry d = dset (dset d ''path'' ''/'') ''name'' ''/''"

definition NewDB :: "string \<Rightarrow> string \<Rightarrow> string list \<Rightarrow> repl_error + dir \<Rightarrow> repl_error + db" where
  "NewDB name addr excl stat =
     (case stat of
        Inl e \<Rightarrow> Inl e
      | Inr d \<Rightarrow> Inr \<lparr>db_Name = name, db_Addr = addr, db_Excl = excl @ [''.Ctl'', ''.Chg'', ''.zx''],
          db_files = [\<lparr>fi_D = root_entry d, fi_Child = []\<rparr>], db_Root = Some 0, db_lastpf = None, db_lastpdir = []\<rparr>)"

section \<open>Walking\<close>

definition file_name :: "store \<Rightarrow> nat \<Rightarrow> string" where
  "file_name h a = dget (fi_D (h ! a)) ''name''"

definition Walk1 :: "store \<Rightarrow> nat \<Rightarrow> string \<Rightarrow> repl_error + nat" where
  "Walk1 h f name =
     (case List.find (\<lambda>c. file_name h c = name) (fi_Child (h ! f)) of
        Some c \<Rightarrow> Inr c
      | None \<Rightarrow> Inl (RErr (dget (fi_D (h ! f)) ''path'' @ '': '' @ name @ '': file not found'')))"

fun walk_from :: "store \<Rightarrow> nat \<Rightarrow> string list \<Rightarrow> repl_error + nat" where
  "walk_from h f [] = Inr f"
| "walk_from h f (e # es) = (case Walk1 h f e of Inl err \<Rightarrow> Inl err | Inr c \<Rightarrow> walk_from h c es)"

text \<open>The files of a tree, parents first; the fuel is the depth of the tree, which the number of files
  bounds.\<close>

fun files_at :: "nat \<Rightarrow> store \<Rightarrow> nat \<Rightarrow> nat list" where
  "files_at 0 h f = []"
| "files_at (Suc k) h f = f # concat (map (files_at k h) (fi_Child (h ! f)))"

definition db_Files :: "db \<Rightarrow> nat list" where
  "db_Files db = (case db_Root db of None \<Rightarrow> [] | Some r \<Rightarrow> files_at (length (db_files db)) (db_files db) r)"

text \<open>The printed forms; \<open>tab\<close> is the Unicode table of printable runes.\<close>

definition file_String :: "(rune \<Rightarrow> bool) \<Rightarrow> dir \<Rightarrow> string" where
  "file_String tab d =
     zx_Fmt tab (Some d) @
     (if dget d ''err'' \<noteq> [] then ''E<'' @ dget d ''err'' @ ''>'' else []) @
     (if dget d ''rm'' \<noteq> [] then '' DEL'' else [])"

definition db_DumpTo :: "(rune \<Rightarrow> bool) \<Rightarrow> db option \<Rightarrow> string" where
  "db_DumpTo tab odb =
     (case odb of
        None \<Rightarrow> ''<nil db>'' @ [CHR 0x0A]
      | Some db \<Rightarrow>
          ''db '' @ db_Name db @ '' '' @ db_Addr db @ [CHR 0x0A] @
          (if length (db_Excl db) > 0
           then ''exclude:'' @ concat (map (\<lambda>e. '' '' @ [CHR 0x27] @ e @ [CHR 0x27]) (db_Excl db)) @ [CHR 0x0A] else []) @
          concat (map (\<lambda>f. file_String tab (fi_D (db_files db ! f)) @ [CHR 0x0A]) (db_Files db)) @ [CHR 0x0A])"

section \<open>Adding\<close>

definition name_Less :: "store \<Rightarrow> nat \<Rightarrow> nat \<Rightarrow> bool" where
  "name_Less h a b \<longleftrightarrow> file_name h a < file_name h b"

definition path_Joins :: "string list \<Rightarrow> string" where
  "path_Joins es = (case filter (\<lambda>e. e \<noteq> []) es of [] \<Rightarrow> [] | fs \<Rightarrow> path_Clean (go_join ''/'' fs))"

text \<open>The children of the parent with the entry updated or added.\<close>

definition no_children :: "dir \<Rightarrow> bool" where
  "no_children d \<longleftrightarrow> dget d ''type'' \<noteq> ''d'' \<or> dget d ''err'' \<noteq> [] \<or> dget d ''rm'' \<noteq> []"

definition add_child :: "store \<Rightarrow> nat \<Rightarrow> string \<Rightarrow> dir \<Rightarrow> store" where
  "add_child h pf name d =
     (let child = fi_Child (h ! pf) in
      case List.find (\<lambda>c. file_name h c = name) child of
        Some c \<Rightarrow> h[c := \<lparr>fi_D = d, fi_Child = (if no_children d then [] else fi_Child (h ! c))\<rparr>]
      | None \<Rightarrow>
          (let h' = h @ [\<lparr>fi_D = d, fi_Child = []\<rparr>]; child' = child @ [length h];
               n = length child';
               child'' = (if n > 1 \<and> file_name h' (child' ! (n - 1)) < file_name h' (child' ! (n - 2))
                          then go_sort (name_Less h') child' else child')
           in h'[pf := (h' ! pf)\<lparr>fi_Child := child''\<rparr>]))"

text \<open>The parent: the last one if the path is the same, or else the one the walk finds.  Walking from
  no root is not reached, since the first entry added becomes the root.\<close>

definition find_parent :: "db \<Rightarrow> nat \<Rightarrow> string list \<Rightarrow> repl_error + nat" where
  "find_parent db root parent =
     (case db_lastpf db of
        Some pf \<Rightarrow> if path_Joins parent \<noteq> db_lastpdir db then walk_from (db_files db) root parent else Inr pf
      | None \<Rightarrow> walk_from (db_files db) root parent)"

definition db_Add :: "db \<Rightarrow> dir \<Rightarrow> (repl_error option \<times> db) go" where
  "db_Add db d0 =
     (if isExcl (dget d0 ''path'') (db_Excl db) then Ret (None, db)
      else (let d = zx_Dup d0; path = dget d ''path''; elems = zx_Elems path; h = db_files db in
        case db_Root db of
          None \<Rightarrow> Ret (None, db\<lparr>db_files := h @ [\<lparr>fi_D = d, fi_Child = []\<rparr>], db_Root := Some (length h)\<rparr>)
        | Some root \<Rightarrow>
            if path = ''/'' then
              Ret (None, db\<lparr>db_files := h @ [\<lparr>fi_D = d, fi_Child = fi_Child (h ! root)\<rparr>], db_Root := Some (length h)\<rparr>)
            else if elems = [] then Panic
            else (case find_parent db root (butlast elems) of
                Inl err \<Rightarrow> Ret (Some err, db)
              | Inr pf \<Rightarrow> Ret (None, db\<lparr>db_files := add_child h pf (last elems) d,
                  db_lastpf := Some pf, db_lastpdir := path_Joins (butlast elems)\<rparr>))))"

section \<open>Scanning\<close>

text \<open>\<open>strings.HasSuffix\<close>.\<close>

definition go_has_suffix :: "string \<Rightarrow> string \<Rightarrow> bool" where
  "go_has_suffix s t \<longleftrightarrow> length t \<le> length s \<and> drop (length s - length t) s = t"

definition scan_skips :: "db \<Rightarrow> string \<Rightarrow> bool" where
  "scan_skips db path \<longleftrightarrow>
     go_has_suffix path ''/Ctl'' \<or> go_has_suffix path ''/.zx'' \<or> go_has_suffix path ''/Chg'' \<or> isExcl path (db_Excl db)"

text \<open>The messages of the channels are those of \<open>ch\<close>, with entries as the values of users.  The loop of
  \<open>scan\<close>: the error of an \<open>Add\<close> is assigned as nil.\<close>

fun scan_loop :: "zx_val msg list \<Rightarrow> repl_error option \<Rightarrow> db \<Rightarrow> (repl_error option \<times> db) go" where
  "scan_loop [] err db = Ret (err, db)"
| "scan_loop (MUser (VDir (Some d)) # ms) err db =
     (if scan_skips db (dget d ''path'') then scan_loop ms err db
      else go_bind (db_Add db d) (\<lambda>(e, db). scan_loop ms (if err = None \<and> e \<noteq> None then None else err) db))"
| "scan_loop (m # ms) err db = scan_loop ms err db"

definition db_scan :: "zx_val msg list \<Rightarrow> repl_error option \<Rightarrow> db \<Rightarrow> (repl_error option \<times> db) go" where
  "db_scan ms cerr db =
     go_map (\<lambda>(err, db). (if err \<noteq> None then err else cerr, db))
       (scan_loop ms None (db\<lparr>db_lastpdir := [], db_lastpf := None, db_Root := None\<rparr>))"

text \<open>\<open>Scan\<close> filters what the file system finds, and scans it.\<close>

definition db_Scan :: "dir list \<Rightarrow> repl_error option \<Rightarrow> db \<Rightarrow> (repl_error option \<times> db) go" where
  "db_Scan ds cerr db =
     db_scan (map (\<lambda>d. MUser (VDir (Some d))) (filter (\<lambda>d. \<not> isExcl (dget d ''path'') (db_Excl db)) ds)) cerr db"

section \<open>Sending and receiving\<close>

text \<open>
  What \<open>sendTo\<close> sends: when the reader closes the channel after \<open>room\<close> messages, with the error \<open>rd\<close>,
  it stops and returns that error, but for the last message, the mark of the end.
\<close>

definition db_msgs :: "db \<Rightarrow> zx_val msg list" where
  "db_msgs db = map MBytes ([db_Name db, db_Addr db, go_join [CHR 0x0A] (db_Excl db)] @
     map (\<lambda>f. zx_Dir_Bytes (fi_D (db_files db ! f))) (db_Files db))"

definition db_sendTo :: "db \<Rightarrow> nat option \<Rightarrow> repl_error option \<Rightarrow> zx_val msg list \<times> repl_error option" where
  "db_sendTo db room rd =
     (let ms = db_msgs db in
      case room of
        None \<Rightarrow> (ms @ [MBytes []], None)
      | Some n \<Rightarrow> if n < length ms then (take n ms, rd) else (take n (ms @ [MBytes []]), None))"

fun gbytes :: "zx_val msg list \<Rightarrow> byte list option \<times> zx_val msg list" where
  "gbytes [] = (None, [])"
| "gbytes (MBytes b # ms) = (Some b, ms)"
| "gbytes (m # ms) = (None, ms)"

text \<open>The loop of \<open>recvDBFrom\<close>; the stream may end without the mark of the end.\<close>

fun recv_loop :: "zx_val msg list \<Rightarrow> db \<Rightarrow> (db \<times> repl_error option) go" where
  "recv_loop [] db = Ret (db, None)"
| "recv_loop (MBytes m # ms) db =
     (if m = [] then Ret (db, None)
      else (case zx_UnpackDir m of
          (_, _, Some e) \<Rightarrow> Ret (db, Some (RCh e))
        | (_, d0, None) \<Rightarrow>
            (let d = (case d0 of None \<Rightarrow> [] | Some d \<Rightarrow> d); path = dget d ''path'' in
             if path = ''/Ctl'' \<or> path = ''/Chg'' then recv_loop ms db
             else if isExcl path (db_Excl db) then recv_loop ms db
             else go_bind (db_Add db d) (\<lambda>(e, db). case e of Some e \<Rightarrow> Ret (db, Some e) | None \<Rightarrow> recv_loop ms db))))"
| "recv_loop (m # ms) db = Ret (db, Some (RErr ''unexpected msg''))"

definition recvDBFrom :: "zx_val msg list \<Rightarrow> (db option \<times> repl_error option) go" where
  "recvDBFrom ms =
     (let (nm, ms1) = gbytes ms; (addr, ms2) = gbytes ms1; (strs, ms3) = gbytes ms2 in
      case (nm, addr, strs) of
        (Some n, Some a, Some s) \<Rightarrow>
          go_map (\<lambda>(db, e). (Some db, e)) (recv_loop ms3
            \<lparr>db_Name = n, db_Addr = a, db_Excl = go_split (CHR 0x0A) s, db_files = [], db_Root = None,
             db_lastpf = None, db_lastpdir = []\<rparr>)
      | _ \<Rightarrow> Ret (None, Some (RErr ''unexpected msg'')))"

section \<open>Saving and loading\<close>

text \<open>
  \<open>Save\<close> writes to another file and renames it: \<open>create\<close> and \<open>rename\<close> are the errors of those calls,
  and \<open>wr\<close> the writes to the file.  The result is what the file has then, when it is replaced.
\<close>

definition db_Save ::
  "ch_writer \<Rightarrow> repl_error option \<Rightarrow> repl_error option \<Rightarrow> db \<Rightarrow> byte list option \<times> repl_error option" where
  "db_Save wr create rename db =
     (case create of
        Some e \<Rightarrow> (None, Some e)
      | None \<Rightarrow>
          (case ch_WriteMsgs zx_TypeId zx_WriteTo wr None 1 [] (fst (db_sendTo db None None)) None of
             (_, _, _, Some e) \<Rightarrow> (None, Some (RCh e))
           | (frames, _, _, None) \<Rightarrow> (case rename of Some e \<Rightarrow> (None, Some e) | None \<Rightarrow> (Some (concat frames), None))))"

text \<open>The error of \<open>ReadMsgs\<close> closes a channel that is not looked at again.\<close>

definition LoadDB :: "repl_error + reader \<Rightarrow> (db option \<times> repl_error option) go" where
  "LoadDB fd =
     (case fd of
        Inl e \<Rightarrow> Ret (None, Some e)
      | Inr r \<Rightarrow> (let (_, _, ms, _) = ch_ReadMsgs zx_Unpack (\<lambda>i. True) None r in recvDBFrom ms))"

end
