(* ===== verification/ReplCmp.thy ===== *)
theory ReplCmp
  imports ReplDb
begin

text \<open>
  The changes between two databases of a replica (src/zx/repl/cmp.go) and how the changes of two
  replicas are merged and resolved (src/zx/repl/tree.go).

  Changes go through channels; here a computation returns the list of what it sends and the error it
  closes the channel with, for a receiver that takes them all.
\<close>

section \<open>Changes\<close>

datatype repl_where = Nowhere | Local | Remote | Both

fun where_String :: "repl_where \<Rightarrow> string go" where
  "where_String Nowhere = Ret ''none''"
| "where_String Local = Ret ''local''"
| "where_String Remote = Ret ''remote''"
| "where_String Both = Panic"

record rchg = chg +
  c_At :: repl_where

abbreviation c_dir :: "rchg \<Rightarrow> dir" where
  "c_dir c \<equiv> (case c_D c of None \<Rightarrow> [] | Some d \<Rightarrow> d)"

definition c_path :: "rchg \<Rightarrow> string" where
  "c_path c = dget (c_dir c) ''path''"

definition mk_rchg :: "chgtype \<Rightarrow> int \<Rightarrow> dir \<Rightarrow> repl_where \<Rightarrow> rchg" where
  "mk_rchg t tm d w = \<lparr>c_Type = t, c_D = Some d, c_Time = tm, c_Err = None, c_At = w\<rparr>"

text \<open>\<open>tab\<close> is the Unicode table of printable runes.\<close>

definition rchg_String :: "(rune \<Rightarrow> bool) \<Rightarrow> rchg \<Rightarrow> string go" where
  "rchg_String tab c =
     (let s = (if dget (c_dir c) ''err'' \<noteq> [] then CHR 0x09 # ''ERR '' @ [] else []) in
      case c_Type c of
        ChgNone \<Rightarrow> Ret ''none''
      | ChgErr \<Rightarrow> Panic
      | _ \<Rightarrow> Ret (chgtype_String (c_Type c) @ '' '' @ zx_Fmt tab (c_D c) @ s))"

definition ignoredAttrs :: "string list" where
  "ignoredAttrs = [''mtime'', ''uid'', ''gid'', ''wuid'', ''Sum'', ''size'', ''addr'']"

text \<open>Times are compared in seconds.\<close>

definition dataChanged :: "dir \<Rightarrow> dir \<Rightarrow> bool" where
  "dataChanged d0 d1 \<longleftrightarrow>
     dget d0 ''type'' \<noteq> dget d1 ''type'' \<or> zx_Uint d0 ''size'' \<noteq> zx_Uint d1 ''size'' \<or>
     zx_Uint d0 ''mtime'' div 1000000000 \<noteq> zx_Uint d1 ''mtime'' div 1000000000"

definition metaChanged :: "dir \<Rightarrow> dir \<Rightarrow> bool" where
  "metaChanged d0 d1 \<longleftrightarrow>
     \<not> zx_EqualDirs (fold AList.delete ignoredAttrs (zx_Dup d0)) (fold AList.delete ignoredAttrs (zx_Dup d1))"

section \<open>Comparing databases\<close>

definition came :: "dir \<Rightarrow> repl_where \<Rightarrow> rchg" where
  "came d w = mk_rchg ChgAdd (zx_Time d ''mtime'') d w"

text \<open>
  What \<open>changes\<close> does before it looks at children: either it returns, with the changes sent and the error,
  or it has two directories to compare, after the changes sent.
\<close>

definition file_changes ::
  "dir \<Rightarrow> dir \<Rightarrow> string list \<Rightarrow> int \<Rightarrow> repl_where \<Rightarrow> (rchg list \<times> repl_error option) + rchg list" where
  "file_changes d0 d1 excl metat w =
     (if isExcl (dget d0 ''path'') excl \<or> isExcl (dget d1 ''path'') excl then Inl ([], None)
      else if dget d0 ''rm'' \<noteq> [] \<and> dget d1 ''rm'' \<noteq> [] then Inl ([], None)
      else if dget d0 ''err'' \<noteq> [] \<or> dget d1 ''err'' \<noteq> [] then Inl ([], None)
      else if dget d0 ''path'' \<noteq> dget d1 ''path'' then
        Inl ([], Some (RErr (''path '' @ [CHR 0x27] @ dget d0 ''path'' @ [CHR 0x27] @ '' does not match '' @
          [CHR 0x27] @ dget d1 ''path'' @ [CHR 0x27])))
      else if dget d0 ''rm'' \<noteq> [] then Inl ([came d1 w], None)
      else (let d1time = zx_Time d1 ''mtime'' in
        if dget d1 ''rm'' \<noteq> [] then Inl ([mk_rchg ChgDel d1time d0 w], None)
        else if dget d0 ''type'' \<noteq> dget d1 ''type'' then Inl ([mk_rchg ChgDirFile d1time d1 w], None)
        else if dget d0 ''type'' \<noteq> ''d'' then
          Inl (if dataChanged d0 d1 then [mk_rchg ChgData d1time d1 w]
               else if metaChanged d0 d1 then [mk_rchg ChgMeta metat d1 w] else [], None)
        else Inr (if metaChanged d0 d1 \<and> dget d0 ''path'' \<noteq> ''/'' \<and> dget d1 ''path'' \<noteq> ''/''
                  then [mk_rchg ChgMeta metat d1 w] else [])))"

text \<open>
  The names of the children of both, those of the first one first: \<open>sort.StringSlice(names)\<close> is a
  conversion and does not sort.
\<close>

definition child_names :: "store \<Rightarrow> nat \<Rightarrow> store \<Rightarrow> nat \<Rightarrow> string list" where
  "child_names h0 f0 h1 f1 =
     foldl (\<lambda>names c1. if file_name h1 c1 \<in> set names then names else names @ [file_name h1 c1])
       (map (file_name h0) (fi_Child (h0 ! f0))) (fi_Child (h1 ! f1))"

text \<open>
  The loop on the names: what is sent, the entries of the children gone, and the store of the second
  database, which the recursive call \<open>rec\<close> updates; its error is ignored.  A name is one of a child of
  either, so that the case of no child is not reached.
\<close>

fun names_loop ::
  "(nat \<Rightarrow> nat \<Rightarrow> store \<Rightarrow> (rchg list \<times> repl_error option \<times> store) option) \<Rightarrow> store \<Rightarrow> nat \<Rightarrow> nat \<Rightarrow> int \<Rightarrow>
     repl_where \<Rightarrow> string list \<Rightarrow> store \<Rightarrow> (rchg list \<times> dir list \<times> store) option" where
  "names_loop rec h0 f0 f1 metat w [] h1 = Some ([], [], h1)"
| "names_loop rec h0 f0 f1 metat w (n # ns) h1 =
     (case (Walk1 h0 f0 n, Walk1 h1 f1 n) of
        (Inl _, Inl _) \<Rightarrow> None
      | (Inl _, Inr c1) \<Rightarrow>
          (let d = fi_D (h1 ! c1) in
           if dget d ''err'' \<noteq> [] then names_loop rec h0 f0 f1 metat w ns h1
           else map_option (\<lambda>(cs, dels, h). (came d w # cs, dels, h)) (names_loop rec h0 f0 f1 metat w ns h1))
      | (Inr c0, Inl _) \<Rightarrow>
          (let d = fi_D (h0 ! c0) in
           if dget d ''err'' \<noteq> [] \<or> dget d ''rm'' \<noteq> [] then names_loop rec h0 f0 f1 metat w ns h1
           else map_option (\<lambda>(cs, dels, h). (mk_rchg ChgDel metat d w # cs, d # dels, h))
             (names_loop rec h0 f0 f1 metat w ns h1))
      | (Inr c0, Inr c1) \<Rightarrow>
          (case rec c0 c1 h1 of
             None \<Rightarrow> None
           | Some (cs1, _, h1') \<Rightarrow>
               map_option (\<lambda>(cs, dels, h). (cs1 @ cs, dels, h)) (names_loop rec h0 f0 f1 metat w ns h1')))"

text \<open>The children gone are noted in the second database, with the time of the directory.\<close>

definition gone_entry :: "string \<Rightarrow> dir \<Rightarrow> dir" where
  "gone_entry mtime d = dset (dset (zx_Dup d) ''rm'' ''y'') ''mtime'' mtime"

definition add_dels :: "store \<Rightarrow> nat \<Rightarrow> dir list \<Rightarrow> store" where
  "add_dels h f dels =
     (if length dels \<noteq> 0 then
        (let mtime = dget (fi_D (h ! f)) ''mtime'';
             h' = h @ map (\<lambda>d. \<lparr>fi_D = gone_entry mtime d, fi_Child = []\<rparr>) dels;
             child = fi_Child (h ! f) @ [length h ..< length h + length dels]
         in h'[f := (h' ! f)\<lparr>fi_Child := go_sort (name_Less h') child\<rparr>])
      else h)"

text \<open>The fuel is the depth of the trees; with less the result is None.\<close>

fun changes ::
  "nat \<Rightarrow> store \<Rightarrow> nat \<Rightarrow> store \<Rightarrow> nat \<Rightarrow> string list \<Rightarrow> int \<Rightarrow> repl_where \<Rightarrow>
     (rchg list \<times> repl_error option \<times> store) option" where
  "changes 0 h0 f0 h1 f1 excl metat w = None"
| "changes (Suc k) h0 f0 h1 f1 excl metat w =
     (let d0 = fi_D (h0 ! f0); d1 = fi_D (h1 ! f1) in
      case file_changes d0 d1 excl metat w of
        Inl (cs, e) \<Rightarrow> Some (cs, e, h1)
      | Inr cs \<Rightarrow>
          (case names_loop (\<lambda>c0 c1 h. changes k h0 c0 h c1 excl (zx_Time d1 ''mtime'') w) h0 f0 f1 metat w
                  (child_names h0 f0 h1 f1) h1 of
             None \<Rightarrow> None
           | Some (cs', dels, h1') \<Rightarrow> Some (cs @ cs', None, add_dels h1' f1 dels)))"

text \<open>\<open>changesFrom\<close> of a database or nil, at the time \<open>now\<close>: the changes, the error, and the database after.\<close>

definition nil_db :: "db option \<Rightarrow> bool" where
  "nil_db odb \<longleftrightarrow>
     (case odb of
        None \<Rightarrow> True
      | Some db \<Rightarrow> (case db_Root db of None \<Rightarrow> True | Some r \<Rightarrow> dget (fi_D (db_files db ! r)) ''path'' = []))"

definition db_changesFrom ::
  "db option \<Rightarrow> db option \<Rightarrow> int \<Rightarrow> repl_where \<Rightarrow> (rchg list \<times> repl_error option \<times> db option) option" where
  "db_changesFrom ondb odb now w =
     (if nil_db odb \<and> nil_db ondb then Some ([], None, ondb)
      else if nil_db odb \<or> nil_db ondb then Some ([], Some (RErr ''tree is void''), ondb)
      else (let db = the odb; ndb = the ondb in
        map_option (\<lambda>(cs, e, h). (cs, e, Some (ndb\<lparr>db_files := h\<rparr>)))
          (changes (length (db_files db)) (db_files db) (the (db_Root db)) (db_files ndb) (the (db_Root ndb))
            (db_Excl db @ db_Excl ndb) now w)))"

definition db_ChangesFrom ::
  "db option \<Rightarrow> db option \<Rightarrow> int \<Rightarrow> (rchg list \<times> repl_error option \<times> db option) option" where
  "db_ChangesFrom ondb odb now = db_changesFrom ondb odb now Nowhere"

section \<open>Merging and resolving\<close>

text \<open>
  \<open>merge\<close> of the changes to pull and to push, with the errors that close their channels.  The type of a
  change held is \<open>None\<close> when there is none.  When one ends the rest of the other is forwarded, with its
  error; the error of the one that ended is lost.
\<close>

definition no_chg :: rchg where
  "no_chg = \<lparr>c_Type = ChgNone, c_D = None, c_Time = 0, c_Err = None, c_At = Nowhere\<rparr>"

definition held :: "rchg \<Rightarrow> rchg list" where
  "held c = (if c_Type c \<noteq> ChgNone then [c] else [])"

function merge_loop ::
  "rchg \<Rightarrow> rchg \<Rightarrow> rchg list \<Rightarrow> rchg list \<Rightarrow> repl_error option \<Rightarrow> repl_error option \<Rightarrow> rchg list \<times> repl_error option" where
  "merge_loop c1 c2 pull push perr qerr =
     (if c_Type c1 = ChgNone \<and> pull = [] then (held c2 @ push, qerr)
      else
        (let (c1', pull') = (if c_Type c1 = ChgNone then (hd pull, tl pull) else (c1, pull)) in
         if c_Type c2 = ChgNone \<and> push = [] then (held c1' @ pull', perr)
         else
           (let (c2', push') = (if c_Type c2 = ChgNone then (hd push, tl push) else (c2, push));
                cmp = zx_PathCmp (c_path c1') (c_path c2');
                (out, err) = merge_loop (if cmp \<le> 0 then no_chg else c1') (if cmp \<ge> 0 then no_chg else c2') pull' push' perr qerr
            in ((if cmp \<le> 0 then [c1'] else []) @ (if cmp \<ge> 0 then [c2'] else []) @ out, err))))"
  by pat_completeness auto
termination
  by (relation "measure (\<lambda>(c1, c2, pull, push, perr, qerr).
        length pull + length push + (if c_Type c1 = ChgNone then 0 else 1) + (if c_Type c2 = ChgNone then 0 else 1))")
    (auto simp: no_chg_def neq_Nil_conv split: if_splits)

declare merge_loop.simps [simp del]

definition tree_merge ::
  "rchg list \<Rightarrow> repl_error option \<Rightarrow> rchg list \<Rightarrow> repl_error option \<Rightarrow> rchg list \<times> repl_error option" where
  "tree_merge pull perr push qerr = merge_loop no_chg no_chg pull push perr qerr"

text \<open>
  \<open>resolve\<close>: of the changes in a row for a path, the latest, and the last of those at the same time.  The
  changes below a path added or removed are only logged as discarded.
\<close>

fun resolve_loop :: "rchg \<Rightarrow> rchg list \<Rightarrow> rchg list" where
  "resolve_loop lst [] = held lst"
| "resolve_loop lst (c # cs) =
     (if c_Type lst = ChgNone then resolve_loop c cs
      else if c_path lst = c_path c then
        (if c_Time c < c_Time lst then resolve_loop lst cs else resolve_loop c cs)
      else lst # resolve_loop c cs)"

definition tree_resolve :: "rchg list \<times> repl_error option \<Rightarrow> rchg list \<times> repl_error option" where
  "tree_resolve mc = (resolve_loop no_chg (fst mc), snd mc)"

end
