(* ===== verification/ReplApply.thy ===== *)
theory ReplApply
  imports ReplCmp
begin

text \<open>
  Applying changes to a replica (src/zx/repl/apply.go), and the operations of a replicated tree
  (src/zx/repl/tree.go).

  The file systems are parameters: what each call replies, and None for a call that the file system
  does not have.  The entry of a change is a value here; in the code it is the map of a database, which
  the application of the change updates too.
\<close>

section \<open>File systems\<close>

text \<open>
  The reply of a \<open>Put\<close>: how many messages of data it takes, the error that closes the channel of the data
  then, and the entry and the error it replies with.
\<close>

record put_reply =
  pr_takes :: nat
  pr_dcerr :: "string option"
  pr_D :: "dir option"
  pr_err :: "string option"

record fsops =
  fs_Wstat :: "(string \<Rightarrow> dir \<Rightarrow> dir option \<times> string option) option"
  fs_RemoveAll :: "(string \<Rightarrow> string option) option"
  fs_FindGet :: "(string \<Rightarrow> string \<Rightarrow> zx_val msg list \<times> string option) option"
  fs_Get :: bool
  fs_Put :: "(string \<Rightarrow> dir \<Rightarrow> put_reply) option"

text \<open>A database with its file system and the path of its root there.\<close>

record replica =
  re_db :: db
  re_rpath :: string
  re_fs :: fsops

definition re_Add :: "replica \<Rightarrow> dir \<Rightarrow> (repl_error option \<times> replica) go" where
  "re_Add r d = go_map (\<lambda>(e, db). (e, r\<lparr>re_db := db\<rparr>)) (db_Add (re_db r) d)"

text \<open>The end of most of these: the entry is added to the target and, if it could, to the source.\<close>

definition add_both :: "replica \<Rightarrow> replica \<Rightarrow> dir \<Rightarrow> (repl_error option \<times> replica \<times> replica) go" where
  "add_both l r d =
     go_bind (re_Add l d) (\<lambda>(err, l').
       if err = None then go_map (\<lambda>(_, r'). (None, l', r')) (re_Add r d) else Ret (err, l', r))"

text \<open>The attributes replied but the path and the name: \<open>for k, v := range rd\<close>.\<close>

definition reply_attrs :: "dir option \<Rightarrow> dir \<Rightarrow> dir" where
  "reply_attrs rd d =
     (case rd of
        None \<Rightarrow> d
      | Some rd \<Rightarrow> fold (\<lambda>(k, v) d. if k \<noteq> ''path'' \<and> k \<noteq> ''name'' then dset d k v else d) rd d)"

definition opt_err :: "string option \<Rightarrow> repl_error option" where
  "opt_err e = map_option RErr e"

section \<open>One change\<close>

definition applyMeta :: "replica \<Rightarrow> rchg \<Rightarrow> replica \<Rightarrow> (repl_error option \<times> replica \<times> replica) go" where
  "applyMeta l c r =
     (case fs_Wstat (re_fs l) of
        None \<Rightarrow> Ret (Some (RErr ''Fs can't wstat''), l, r)
      | Some wstat \<Rightarrow>
          (case wstat (path_Join (re_rpath l) (c_path c)) (c_dir c) of
             (None, e) \<Rightarrow> Ret (opt_err e, l, r)
           | (Some rd, _) \<Rightarrow>
               add_both l r (dset (dset rd ''path'' (c_path c)) ''name'' (dget (c_dir c) ''name''))))"

definition applyDel :: "replica \<Rightarrow> rchg \<Rightarrow> replica \<Rightarrow> (repl_error option \<times> replica \<times> replica) go" where
  "applyDel l c r =
     (if c_path c = ''/'' then Ret (Some (RErr ''won't del /''), l, r)
      else (case fs_RemoveAll (re_fs l) of
        None \<Rightarrow> Ret (Some (RErr ''Fs can't remove''), l, r)
      | Some rmall \<Rightarrow>
          (let err = rmall (path_Join (re_rpath l) (c_path c)) in
           if err \<noteq> None \<and> \<not> zx_IsNotExist err then Ret (opt_err err, l, r)
           else (let d = dset (c_dir c) ''rm'' ''y'' in
             go_bind (re_Add l d) (\<lambda>(err, l').
               let err' = (if repl_IsNotExist err then None else err) in
               if err' = None then go_map (\<lambda>(_, r'). (None, l', r')) (re_Add r d) else Ret (err', l', r))))))"

text \<open>
  The file that is being put: its entry, and the reply of its \<open>Put\<close> with how much of the data was taken
  while the channel of the data is there.
\<close>

record pfile =
  pf_d :: "dir option"
  pf_put :: "(put_reply \<times> nat) option"

definition pf_start :: "replica \<Rightarrow> (string \<Rightarrow> dir \<Rightarrow> put_reply) \<Rightarrow> dir \<Rightarrow> pfile" where
  "pf_start l put d =
     (let rep = put (path_Join (re_rpath l) (dget d ''path'')) d;
          rep' = (if dget d ''type'' \<noteq> ''-'' then rep\<lparr>pr_takes := 0, pr_dcerr := None\<rparr> else rep)
      in \<lparr>pf_d = Some (zx_Dup d), pf_put = Some (rep', 0)\<rparr>)"

definition pf_add :: "pfile \<Rightarrow> replica \<Rightarrow> replica \<Rightarrow> (pfile \<times> replica \<times> replica) go" where
  "pf_add pf l r =
     (case pf_d pf of
        None \<Rightarrow> Ret (pf, l, r)
      | Some d \<Rightarrow>
          if isExcl (dget d ''path'') (db_Excl (re_db l)) then Ret (pf, l, r)
          else go_map (\<lambda>(_, l', r'). (pf\<lparr>pf_d := None\<rparr>, l', r')) (add_both l r d))"

definition pf_done :: "pfile \<Rightarrow> replica \<Rightarrow> replica \<Rightarrow> (pfile \<times> replica \<times> replica) go" where
  "pf_done pf l r =
     (case pf_put pf of
        None \<Rightarrow> pf_add pf l r
      | Some (rep, _) \<Rightarrow>
          (let d = reply_attrs (pr_D rep) (case pf_d pf of None \<Rightarrow> [] | Some d \<Rightarrow> d);
               d' = (case pr_err rep of None \<Rightarrow> d | Some e \<Rightarrow> if dget d ''err'' = [] then dset d ''err'' e else d)
           in pf_add \<lparr>pf_d = Some d', pf_put = None\<rparr> l r))"

text \<open>The loop on what \<open>FindGet\<close> sends.\<close>

fun add_loop ::
  "(string \<Rightarrow> dir \<Rightarrow> put_reply) \<Rightarrow> zx_val msg list \<Rightarrow> pfile \<Rightarrow> replica \<Rightarrow> replica \<Rightarrow> (pfile \<times> replica \<times> replica) go" where
  "add_loop put [] pf l r = Ret (pf, l, r)"
| "add_loop put (MUser (VDir (Some d)) # ms) pf l r =
     go_bind (pf_done pf l r) (\<lambda>(_, l', r'). add_loop put ms (pf_start l' put (zx_Dup d)) l' r')"
| "add_loop put (MBytes b # ms) pf l r =
     (case pf_put pf of
        None \<Rightarrow> add_loop put ms pf l r
      | Some (rep, n) \<Rightarrow>
          if n < pr_takes rep then add_loop put ms (pf\<lparr>pf_put := Some (rep, n + 1)\<rparr>) l r
          else (let err = (case pr_dcerr rep of None \<Rightarrow> ''can't put'' | Some e \<Rightarrow> e);
                    d = dset (case pf_d pf of None \<Rightarrow> [] | Some d \<Rightarrow> d) ''err'' err
                in go_bind (pf_done (pf\<lparr>pf_d := Some d\<rparr>) l r) (\<lambda>(pf', l', r'). add_loop put ms pf' l' r')))"
| "add_loop put (m # ms) pf l r = add_loop put ms pf l r"

definition applyAdd :: "replica \<Rightarrow> rchg \<Rightarrow> replica \<Rightarrow> (repl_error option \<times> replica \<times> replica) go" where
  "applyAdd l c r =
     (case fs_FindGet (re_fs r) of
        None \<Rightarrow> Ret (Some (RErr ''fs can't findget''), l, r)
      | Some findget \<Rightarrow>
          (case fs_Put (re_fs l) of
             None \<Rightarrow> Ret (Some (RErr ''fs can't put''), l, r)
           | Some put \<Rightarrow>
               (let (ms, cerr) = findget (path_Join (re_rpath r) (c_path c)) (re_rpath r) in
                go_bind (add_loop put ms \<lparr>pf_d = None, pf_put = None\<rparr> l r) (\<lambda>(pf, l', r').
                go_map (\<lambda>(_, l'', r''). (opt_err cerr, l'', r'')) (pf_done pf l' r')))))"

definition applyData :: "replica \<Rightarrow> rchg \<Rightarrow> replica \<Rightarrow> (repl_error option \<times> replica \<times> replica) go" where
  "applyData l c r =
     (if \<not> fs_Get (re_fs r) then Ret (Some (RErr ''fs can't get''), l, r)
      else (case fs_Put (re_fs l) of
        None \<Rightarrow> Ret (Some (RErr ''fs can't put''), l, r)
      | Some put \<Rightarrow>
          (let rep = put (path_Join (re_rpath l) (c_path c)) (c_dir c) in
           if pr_D rep = None then Ret (opt_err (pr_err rep), l, r)
           else add_both l r (reply_attrs (pr_D rep) (c_dir c)))))"

section \<open>Trees\<close>

record tree =
  t_Ldb :: replica
  t_Rdb :: replica

text \<open>\<open>Apply\<close>: a local change goes the other way around.  \<open>l\<close> is the target and \<open>r\<close> the source.\<close>

definition apply_chg :: "replica \<Rightarrow> rchg \<Rightarrow> replica \<Rightarrow> (repl_error option \<times> replica \<times> replica) go" where
  "apply_chg l c r =
     (if isExcl (c_path c) (db_Excl (re_db l)) \<or> isExcl (c_path c) (db_Excl (re_db r)) then Ret (None, l, r)
      else (case c_Type c of
        ChgNone \<Rightarrow> Ret (None, l, r)
      | ChgMeta \<Rightarrow> applyMeta l c r
      | ChgData \<Rightarrow> applyData l c r
      | ChgAdd \<Rightarrow> applyAdd l c r
      | ChgDel \<Rightarrow> applyDel l c r
      | ChgDirFile \<Rightarrow>
          go_bind (applyDel l (c\<lparr>c_Type := ChgDel\<rparr>) r) (\<lambda>(err, l', r').
          go_map (\<lambda>(err2, l'', r''). (if err = None then err2 else err, l'', r'')) (applyAdd l' c r'))
      | ChgErr \<Rightarrow> Panic))"

definition tree_Apply :: "tree \<Rightarrow> rchg \<Rightarrow> (repl_error option \<times> tree) go" where
  "tree_Apply t c =
     (if dget (c_dir c) ''err'' \<noteq> [] then Ret (None, t)
      else if c_At c = Local then
        go_map (\<lambda>(e, l, r). (e, \<lparr>t_Ldb = r, t_Rdb = l\<rparr>)) (apply_chg (t_Rdb t) c (t_Ldb t))
      else go_map (\<lambda>(e, l, r). (e, \<lparr>t_Ldb = l, t_Rdb = r\<rparr>)) (apply_chg (t_Ldb t) c (t_Rdb t)))"

text \<open>The text of an error; those of \<open>ch\<close> do not get here.\<close>

fun repl_Error :: "repl_error \<Rightarrow> string" where
  "repl_Error (RErr s) = s"
| "repl_Error (RCh (OtherErr s)) = s"
| "repl_Error (RCh e) = ''i/o error''"

text \<open>
  \<open>ApplyAll\<close>: the first error, the changes applied, and the tree.  \<open>cerr\<close> is the error the stream of changes
  ends with.
\<close>

fun apply_loop :: "rchg list \<Rightarrow> repl_where \<Rightarrow> repl_error option \<Rightarrow> tree \<Rightarrow> (repl_error option \<times> rchg list \<times> tree) go" where
  "apply_loop [] from err t = Ret (err, [], t)"
| "apply_loop (c # cs) from err t =
     (if from = Both \<or> c_At c = from then
        go_bind (tree_Apply t c) (\<lambda>(err2, t').
          let d = zx_Dup (c_dir c);
              d' = (case err2 of None \<Rightarrow> d | Some e \<Rightarrow> if dget d ''err'' = [] then dset d ''err'' (repl_Error e) else d)
          in go_map (\<lambda>(e, out, t''). (e, c\<lparr>c_D := Some d'\<rparr> # out, t''))
               (apply_loop cs from (if err = None then err2 else err) t'))
      else apply_loop cs from err t)"

definition tree_ApplyAll ::
  "rchg list \<times> repl_error option \<Rightarrow> repl_where \<Rightarrow> tree \<Rightarrow> (repl_error option \<times> rchg list \<times> tree) go" where
  "tree_ApplyAll cc from t =
     go_map (\<lambda>(err, out, t'). (if err = None then snd cc else err, out, t')) (apply_loop (fst cc) from None t)"

text \<open>
  \<open>ScanNewDB\<close>, for what \<open>Stat\<close> and \<open>Find\<close> reply; and the changes of a replica since its database, for the
  new database or the error of its scan, at the time \<open>now\<close>.
\<close>

definition ScanNewDB ::
  "string \<Rightarrow> string \<Rightarrow> string list \<Rightarrow> repl_error + dir \<Rightarrow> dir list \<Rightarrow> repl_error option \<Rightarrow> (repl_error + db) go" where
  "ScanNewDB name addr excl stat ds cerr =
     (case NewDB name addr excl stat of
        Inl e \<Rightarrow> Ret (Inl e)
      | Inr db \<Rightarrow> go_map (\<lambda>(e, db'). case e of Some e \<Rightarrow> Inl e | None \<Rightarrow> Inr db') (db_Scan ds cerr db))"

definition mustChange ::
  "repl_error + db \<Rightarrow> db \<Rightarrow> int \<Rightarrow> repl_where \<Rightarrow> (repl_error + rchg list \<times> repl_error option) option" where
  "mustChange scanned old now w =
     (case scanned of
        Inl e \<Rightarrow> Some (Inl e)
      | Inr db \<Rightarrow> map_option (\<lambda>(cs, e, _). Inr (cs, e)) (db_changesFrom (Some db) (Some old) now w))"

definition tree_PullChanges :: "tree \<Rightarrow> repl_error + db \<Rightarrow> int \<Rightarrow> (repl_error + rchg list \<times> repl_error option) option" where
  "tree_PullChanges t rscan now = mustChange rscan (re_db (t_Rdb t)) now Remote"

definition tree_PushChanges :: "tree \<Rightarrow> repl_error + db \<Rightarrow> int \<Rightarrow> (repl_error + rchg list \<times> repl_error option) option" where
  "tree_PushChanges t lscan now = mustChange lscan (re_db (t_Ldb t)) now Local"

text \<open>The differences of the replicas, as changes to pull and as changes to push.\<close>

definition tree_AllPullChanges :: "repl_error + db \<Rightarrow> repl_error + db \<Rightarrow> int \<Rightarrow> (repl_error + rchg list \<times> repl_error option) option" where
  "tree_AllPullChanges lscan rscan now =
     (case lscan of Inl e \<Rightarrow> Some (Inl e) | Inr ldb \<Rightarrow> mustChange rscan ldb now Remote)"

definition tree_AllPushChanges :: "repl_error + db \<Rightarrow> repl_error + db \<Rightarrow> int \<Rightarrow> (repl_error + rchg list \<times> repl_error option) option" where
  "tree_AllPushChanges lscan rscan now =
     (case lscan of
        Inl e \<Rightarrow> Some (Inl e)
      | Inr ldb \<Rightarrow> (case rscan of Inl e \<Rightarrow> Some (Inl e) | Inr rdb \<Rightarrow> mustChange lscan rdb now Local))"

definition tree_Changes ::
  "tree \<Rightarrow> repl_error + db \<Rightarrow> repl_error + db \<Rightarrow> int \<Rightarrow> int \<Rightarrow> (repl_error + rchg list \<times> repl_error option) option" where
  "tree_Changes t lscan rscan now now' =
     (case tree_PullChanges t rscan now of
        None \<Rightarrow> None
      | Some (Inl e) \<Rightarrow> Some (Inl e)
      | Some (Inr (pull, perr)) \<Rightarrow>
          (case tree_PushChanges t lscan now' of
             None \<Rightarrow> None
           | Some (Inl e) \<Rightarrow> Some (Inl e)
           | Some (Inr (push, qerr)) \<Rightarrow> Some (Inr (tree_resolve (tree_merge pull perr push qerr)))))"

text \<open>\<open>Pull\<close>, \<open>Push\<close>, \<open>Sync\<close> and the blind and full ones, for the changes each of them computes.\<close>

definition tree_Run ::
  "repl_error + rchg list \<times> repl_error option \<Rightarrow> repl_where \<Rightarrow> tree \<Rightarrow> (repl_error option \<times> rchg list \<times> tree) go" where
  "tree_Run pc from t = (case pc of Inl e \<Rightarrow> Ret (Some e, [], t) | Inr cc \<Rightarrow> tree_ApplyAll cc from t)"

definition tree_Sync ::
  "tree \<Rightarrow> repl_error + db \<Rightarrow> repl_error + db \<Rightarrow> int \<Rightarrow> int \<Rightarrow> (repl_error option \<times> rchg list \<times> tree) go option" where
  "tree_Sync t lscan rscan now now' = map_option (\<lambda>pc. tree_Run pc Both t) (tree_Changes t lscan rscan now now')"

definition tree_Pull ::
  "tree \<Rightarrow> repl_error + db \<Rightarrow> repl_error + db \<Rightarrow> int \<Rightarrow> int \<Rightarrow> (repl_error option \<times> rchg list \<times> tree) go option" where
  "tree_Pull t lscan rscan now now' = map_option (\<lambda>pc. tree_Run pc Remote t) (tree_Changes t lscan rscan now now')"

definition tree_Push ::
  "tree \<Rightarrow> repl_error + db \<Rightarrow> repl_error + db \<Rightarrow> int \<Rightarrow> int \<Rightarrow> (repl_error option \<times> rchg list \<times> tree) go option" where
  "tree_Push t lscan rscan now now' = map_option (\<lambda>pc. tree_Run pc Local t) (tree_Changes t lscan rscan now now')"

definition tree_BlindPull :: "tree \<Rightarrow> repl_error + db \<Rightarrow> int \<Rightarrow> (repl_error option \<times> rchg list \<times> tree) go option" where
  "tree_BlindPull t rscan now = map_option (\<lambda>pc. tree_Run pc Remote t) (tree_PullChanges t rscan now)"

definition tree_BlindPush :: "tree \<Rightarrow> repl_error + db \<Rightarrow> int \<Rightarrow> (repl_error option \<times> rchg list \<times> tree) go option" where
  "tree_BlindPush t lscan now = map_option (\<lambda>pc. tree_Run pc Local t) (tree_PushChanges t lscan now)"

definition tree_PullAll :: "tree \<Rightarrow> repl_error + db \<Rightarrow> repl_error + db \<Rightarrow> int \<Rightarrow> (repl_error option \<times> rchg list \<times> tree) go option" where
  "tree_PullAll t lscan rscan now = map_option (\<lambda>pc. tree_Run pc Remote t) (tree_AllPullChanges lscan rscan now)"

definition tree_PushAll :: "tree \<Rightarrow> repl_error + db \<Rightarrow> repl_error + db \<Rightarrow> int \<Rightarrow> (repl_error option \<times> rchg list \<times> tree) go option" where
  "tree_PushAll t lscan rscan now = map_option (\<lambda>pc. tree_Run pc Local t) (tree_AllPushChanges lscan rscan now)"

end
