(* ===== verification/ReplDbProps.thy ===== *)
theory ReplDbProps
  imports ReplDb NsProps ZxProps
begin

text \<open>
  The tree of a replica database: the store keeps the shape of a tree with the children of every file in
  the order of their names, \<open>Add\<close> changes the entry at one path, and a database arrives as it was sent.
\<close>

section \<open>Stores that are trees\<close>

definition store_wf :: "store \<Rightarrow> nat \<Rightarrow> bool" where
  "store_wf h r \<longleftrightarrow>
     r < length h \<and>
     (\<forall>a<length h. set (fi_Child (h ! a)) \<subseteq> {..<length h} - {r} \<and>
        sorted_wrt (<) (map (file_name h) (fi_Child (h ! a)))) \<and>
     (\<forall>a<length h. \<forall>b<length h. a \<noteq> b \<longrightarrow> set (fi_Child (h ! a)) \<inter> set (fi_Child (h ! b)) = {})"

definition walks :: "store \<Rightarrow> nat \<Rightarrow> string list \<Rightarrow> nat \<Rightarrow> bool" where
  "walks h r es a \<longleftrightarrow> walk_from h r es = Inr a"

lemma store_wfD:
  assumes "store_wf h r" and "a < length h"
  shows "c \<in> set (fi_Child (h ! a)) \<Longrightarrow> c < length h \<and> c \<noteq> r"
    and "sorted_wrt (<) (map (file_name h) (fi_Child (h ! a)))"
    and "c \<in> set (fi_Child (h ! a)) \<Longrightarrow> c \<in> set (fi_Child (h ! b)) \<Longrightarrow> b < length h \<Longrightarrow> a = b"
  using assms unfolding store_wf_def by blast+

lemma Walk1_child: "Walk1 h a e = Inr c \<Longrightarrow> c \<in> set (fi_Child (h ! a)) \<and> file_name h c = e"
  by (auto simp: Walk1_def find_Some_iff split: option.splits)

lemma Walk1_iff:
  assumes "sorted_wrt (<) (map (file_name h) (fi_Child (h ! a)))"
  shows "Walk1 h a e = Inr c \<longleftrightarrow> c \<in> set (fi_Child (h ! a)) \<and> file_name h c = e"
proof
  assume c: "c \<in> set (fi_Child (h ! a)) \<and> file_name h c = e"
  obtain c' where c': "List.find (\<lambda>c. file_name h c = e) (fi_Child (h ! a)) = Some c'"
    using c by (cases "List.find (\<lambda>c. file_name h c = e) (fi_Child (h ! a))") (auto simp: find_None_iff)
  then have "c' \<in> set (fi_Child (h ! a))" "file_name h c' = e" by (auto simp: find_Some_iff)
  moreover have "inj_on (file_name h) (set (fi_Child (h ! a)))"
    using assms by (simp add: strict_sorted_iff distinct_map)
  ultimately have "c' = c" using c by (auto dest: inj_onD)
  then show "Walk1 h a e = Inr c" using c' by (simp add: Walk1_def)
qed (rule Walk1_child)

lemma walk_from_append: "walk_from h r (es @ fs) = (case walk_from h r es of Inl err \<Rightarrow> Inl err | Inr a \<Rightarrow> walk_from h a fs)"
  by (induction es arbitrary: r) (auto split: sum.splits)

lemma walks_Nil [simp]: "walks h r [] a \<longleftrightarrow> a = r"
  by (auto simp: walks_def)

lemma walks_Walk1: "walks h r (es @ [e]) a \<longleftrightarrow> (\<exists>b. walks h r es b \<and> Walk1 h b e = Inr a)"
  by (auto simp: walks_def walk_from_append split: sum.splits)

lemma walks_unique: "walks h r es a \<Longrightarrow> walks h r es b \<Longrightarrow> a = b"
  by (simp add: walks_def)

lemma walks_bound:
  assumes "store_wf h r" and "walks h r es a"
  shows "a < length h"
  using assms(2)
proof (induction es arbitrary: a rule: rev_induct)
  case Nil
  then show ?case using assms(1) by (simp add: store_wf_def)
next
  case (snoc e es)
  then obtain b where "walks h r es b" "Walk1 h b e = Inr a" by (auto simp: walks_Walk1)
  then show ?case using snoc.IH store_wfD(1)[OF assms(1)] Walk1_child by blast
qed

lemma walks_snoc:
  assumes "store_wf h r"
  shows "walks h r (es @ [e]) a \<longleftrightarrow> (\<exists>b. walks h r es b \<and> a \<in> set (fi_Child (h ! b)) \<and> file_name h a = e)"
  using walks_bound[OF assms] store_wfD(2)[OF assms] by (auto simp: walks_Walk1 Walk1_iff)

text \<open>No file is at two paths.\<close>

lemma walks_inj:
  assumes "store_wf h r" and "walks h r es a" and "walks h r fs a"
  shows "es = fs"
  using assms(2,3)
proof (induction es arbitrary: a fs rule: rev_induct)
  case Nil
  then show ?case
    using store_wfD(1)[OF assms(1) walks_bound[OF assms(1)]] by (cases fs rule: rev_cases) (auto simp: walks_snoc[OF assms(1)])
next
  case (snoc e es)
  obtain b where b: "walks h r es b" "a \<in> set (fi_Child (h ! b))" "file_name h a = e"
    using snoc.prems(1) by (auto simp: walks_snoc[OF assms(1)])
  have "a \<noteq> r" using store_wfD(1)[OF assms(1) walks_bound[OF assms(1) b(1)] b(2)] by simp
  then obtain f fs' where fs: "fs = fs' @ [f]" using snoc.prems(2) by (cases fs rule: rev_cases) auto
  obtain b' where b': "walks h r fs' b'" "a \<in> set (fi_Child (h ! b'))" "file_name h a = f"
    using snoc.prems(2) by (auto simp: walks_snoc[OF assms(1)] fs)
  have "b = b'"
    using store_wfD(3)[OF assms(1) walks_bound[OF assms(1) b(1)] b(2) b'(2) walks_bound[OF assms(1) b'(1)]] .
  then show ?case using snoc.IH[OF b(1)] b' b(3) fs by simp
qed

section \<open>Updating the store\<close>

lemma file_name_upd:
  assumes "c < length h" and "dget d ''name'' = file_name h c"
  shows "file_name (h[c := \<lparr>fi_D = d, fi_Child = k\<rparr>]) = file_name h"
proof
  fix a
  show "file_name (h[c := \<lparr>fi_D = d, fi_Child = k\<rparr>]) a = file_name h a"
    using assms by (cases "a = c") (simp_all add: file_name_def)
qed

lemma upd_wf:
  assumes wf: "store_wf h r" and c: "c < length h" and d: "dget d ''name'' = file_name h c"
    and k: "k = [] \<or> k = fi_Child (h ! c)"
  shows "store_wf (h[c := \<lparr>fi_D = d, fi_Child = k\<rparr>]) r"
proof -
  let ?h = "h[c := \<lparr>fi_D = d, fi_Child = k\<rparr>]"
  have ch: "fi_Child (?h ! a) = (if a = c then k else fi_Child (h ! a))" if "a < length h" for a
    using that by simp
  have sub: "set (fi_Child (?h ! a)) \<subseteq> set (fi_Child (h ! a))" if "a < length h" for a
    using that ch k by auto
  show ?thesis unfolding store_wf_def
  proof (intro conjI allI impI)
    show "r < length ?h" using wf by (simp add: store_wf_def)
    fix a assume "a < length ?h"
    then have a: "a < length h" by simp
    show "set (fi_Child (?h ! a)) \<subseteq> {..<length ?h} - {r}" using sub[OF a] store_wfD(1)[OF wf a] by auto
    show "sorted_wrt (<) (map (file_name ?h) (fi_Child (?h ! a)))"
      unfolding file_name_upd[OF c d] ch[OF a] using k store_wfD(2)[OF wf a] by auto
    fix b assume "b < length ?h" "a \<noteq> b"
    then have b: "b < length h" and ab: "a \<noteq> b" by simp_all
    then show "set (fi_Child (?h ! a)) \<inter> set (fi_Child (?h ! b)) = {}"
      using sub[OF a] sub[OF b] store_wfD(3)[OF wf a _ _ b] by blast
  qed
qed

lemma upd_walks:
  assumes wf: "store_wf h r" and p: "walks h r p c" and d: "dget d ''name'' = file_name h c"
    and k: "k = (if nc then [] else fi_Child (h ! c))"
  shows "walks (h[c := \<lparr>fi_D = d, fi_Child = k\<rparr>]) r qs a \<longleftrightarrow> walks h r qs a \<and> (nc \<longrightarrow> \<not> strict_prefix p qs)"
proof (induction qs arbitrary: a rule: rev_induct)
  case (snoc e qs)
  let ?h = "h[c := \<lparr>fi_D = d, fi_Child = k\<rparr>]"
  note c = walks_bound[OF wf p]
  have wf': "store_wf ?h r" using k by (intro upd_wf[OF wf c d]) auto
  have pre: "strict_prefix p (qs @ [e]) \<longleftrightarrow> p = qs \<or> strict_prefix p qs"
    by (auto simp: strict_prefix_def prefix_snoc)
  have at: "b = c \<longleftrightarrow> qs = p" if "walks h r qs b" for b
    using walks_inj[OF wf p] walks_unique[OF p] that by blast
  have "walks ?h r (qs @ [e]) a \<longleftrightarrow>
      (\<exists>b. walks ?h r qs b \<and> a \<in> set (fi_Child (?h ! b)) \<and> file_name h a = e)"
    unfolding walks_snoc[OF wf'] file_name_upd[OF c d] ..
  also have "\<dots> \<longleftrightarrow> (\<exists>b. walks h r qs b \<and> (nc \<longrightarrow> \<not> strict_prefix p qs) \<and>
      a \<in> set (if b = c then k else fi_Child (h ! b)) \<and> file_name h a = e)"
    unfolding snoc.IH using c by (auto split: if_splits)
  also have "\<dots> \<longleftrightarrow> (\<exists>b. walks h r qs b \<and> a \<in> set (fi_Child (h ! b)) \<and> file_name h a = e) \<and>
      (nc \<longrightarrow> \<not> (p = qs \<or> strict_prefix p qs))"
  proof (cases "qs = p")
    case True
    then have "walks h r qs b \<longleftrightarrow> b = c" for b using at p by blast
    then show ?thesis using True k by (cases nc) (simp_all add: strict_prefix_def)
  next
    case False
    then have "b \<noteq> c" if "walks h r qs b" for b using at that by blast
    then show ?thesis using False by fastforce
  qed
  finally show ?case unfolding walks_snoc[OF wf] pre .
qed auto

text \<open>A new file below the file \<open>pf\<close>.\<close>

definition grown :: "store \<Rightarrow> nat \<Rightarrow> dir \<Rightarrow> nat list \<Rightarrow> store" where
  "grown h pf d cs = (h @ [\<lparr>fi_D = d, fi_Child = []\<rparr>])[pf := \<lparr>fi_D = fi_D (h ! pf), fi_Child = cs\<rparr>]"

lemma grown_simps:
  assumes "pf < length h"
  shows "length (grown h pf d cs) = Suc (length h)"
    and "fi_D (grown h pf d cs ! length h) = d"
    and "a < length h \<Longrightarrow> fi_D (grown h pf d cs ! a) = fi_D (h ! a)"
    and "fi_Child (grown h pf d cs ! length h) = []"
    and "a < length h \<Longrightarrow> fi_Child (grown h pf d cs ! a) = (if a = pf then cs else fi_Child (h ! a))"
    and "file_name (grown h pf d cs) (length h) = dget d ''name''"
    and "a < length h \<Longrightarrow> file_name (grown h pf d cs) a = file_name h a"
  using assms by (auto simp: grown_def file_name_def nth_append nth_list_update)

lemma grown_wf:
  assumes wf: "store_wf h r" and pf: "pf < length h"
    and cs: "set cs = insert (length h) (set (fi_Child (h ! pf)))"
    and srt: "sorted_wrt (<) (map (file_name (grown h pf d cs)) cs)"
  shows "store_wf (grown h pf d cs) r"
proof -
  let ?h = "grown h pf d cs" and ?n = "length h"
  note G = grown_simps[OF pf, where d = d and cs = cs]
  have ch: "set (fi_Child (?h ! a)) \<subseteq> insert ?n (set (fi_Child (h ! a)))" "a \<noteq> pf \<Longrightarrow> ?n \<notin> set (fi_Child (?h ! a))"
    if "a < ?n" for a
    using that cs store_wfD(1)[OF wf that] by (auto simp: G)
  show ?thesis unfolding store_wf_def
  proof (intro conjI allI impI)
    show "r < length ?h" using wf by (simp add: store_wf_def G)
    fix a assume a0: "a < length ?h"
    then consider "a = ?n" | "a < ?n" by (auto simp: G less_Suc_eq)
    note a = this
    show "set (fi_Child (?h ! a)) \<subseteq> {..<length ?h} - {r}"
      using a
    proof cases
      case 2
      have "r \<noteq> ?n" using wf by (auto simp: store_wf_def)
      then show ?thesis using ch(1)[OF 2] store_wfD(1)[OF wf 2] by (force simp: G(1))
    qed (simp add: G)
    show "sorted_wrt (<) (map (file_name ?h) (fi_Child (?h ! a)))"
      using a
    proof cases
      case 2
      have "map (file_name ?h) (fi_Child (h ! a)) = map (file_name h) (fi_Child (h ! a))"
        using store_wfD(1)[OF wf 2] by (simp add: G)
      then show ?thesis using srt store_wfD(2)[OF wf 2] unfolding G(5)[OF 2] by (cases "a = pf") (simp_all only: if_True if_False simp_thms)
    qed (simp add: G)
    fix b assume b0: "b < length ?h" and ab: "a \<noteq> b"
    then consider "b = ?n" | "b < ?n" by (auto simp: G less_Suc_eq)
    then show "set (fi_Child (?h ! a)) \<inter> set (fi_Child (?h ! b)) = {}"
      using a
    proof cases
      case 2
      note b = 2
      show ?thesis
        using a
      proof cases
        case 2
        have "?n \<notin> set (fi_Child (h ! a))" "?n \<notin> set (fi_Child (h ! b))"
          using store_wfD(1)[OF wf 2] store_wfD(1)[OF wf b] by blast+
        moreover have "set (fi_Child (h ! a)) \<inter> set (fi_Child (h ! b)) = {}"
          using store_wfD(3)[OF wf 2 _ _ b] ab by blast
        ultimately show ?thesis using cs ab by (auto simp: G(5)[OF 2] G(5)[OF b])
      qed (simp add: G)
    qed (simp add: G)
  qed
qed

lemma grown_walks:
  assumes wf: "store_wf h r" and p: "walks h r es pf"
    and cs: "set cs = insert (length h) (set (fi_Child (h ! pf)))"
    and srt: "sorted_wrt (<) (map (file_name (grown h pf d cs)) cs)"
  shows "walks (grown h pf d cs) r qs a \<longleftrightarrow> walks h r qs a \<or> qs = es @ [dget d ''name''] \<and> a = length h"
proof (induction qs arbitrary: a rule: rev_induct)
  case (snoc e qs)
  let ?h = "grown h pf d cs" and ?n = "length h"
  note pf = walks_bound[OF wf p]
  note G = grown_simps[OF pf, where d = d and cs = cs]
  have bd: "c < ?n" if "walks h r qs b" "c \<in> set (fi_Child (h ! b))" for b c
    using store_wfD(1)[OF wf walks_bound[OF wf that(1)] that(2)] by simp
  have "walks ?h r (qs @ [e]) a \<longleftrightarrow>
      (\<exists>b. walks ?h r qs b \<and> a \<in> set (fi_Child (?h ! b)) \<and> file_name ?h a = e)"
    by (rule walks_snoc[OF grown_wf[OF wf pf cs srt]])
  also have "\<dots> \<longleftrightarrow> (\<exists>b. walks h r qs b \<and> a \<in> set (fi_Child (?h ! b)) \<and> file_name ?h a = e)"
    unfolding snoc.IH by (auto simp: G)
  also have "\<dots> \<longleftrightarrow> (\<exists>b. walks h r qs b \<and> (a \<in> set (fi_Child (h ! b)) \<or> b = pf \<and> a = ?n) \<and> file_name ?h a = e)"
    using walks_bound[OF wf, of qs] cs by (intro ex_cong1 conj_cong) (auto simp: G)
  also have "\<dots> \<longleftrightarrow> (\<exists>b. walks h r qs b \<and> a \<in> set (fi_Child (h ! b)) \<and> file_name h a = e) \<or>
      (\<exists>b. walks h r qs b \<and> b = pf) \<and> a = ?n \<and> dget d ''name'' = e"
    using bd by (auto simp: G)
  also have "(\<exists>b. walks h r qs b \<and> b = pf) \<longleftrightarrow> qs = es"
    using p walks_inj[OF wf p] by blast
  finally show ?case unfolding walks_snoc[OF wf] by auto
qed auto

section \<open>Adding\<close>

lemma path_Joins_plain: "\<forall>e\<in>set es. plain_el e \<Longrightarrow> path_Joins es = go_join [slash] es"
proof (cases es)
  case (Cons e es')
  assume p: "\<forall>e\<in>set es. plain_el e"
  have f: "filter (\<lambda>e. e \<noteq> []) es = es" using p by (auto simp: plain_el_def filter_id_conv)
  have s: "go_split slash (go_join [slash] es) = es" using p Cons by (intro go_split_join) (auto simp: plain_el_def)
  obtain c cs where c: "e = c # cs" "c \<noteq> slash" using p Cons by (cases e) (auto simp: plain_el_def)
  then have r: "\<not> is_rooted (go_join [slash] es)" using Cons by (cases es') (simp_all add: is_rooted_def)
  have "clean_els (go_join [slash] es) = es" using clean_loop_id[OF p] by (simp add: clean_els_def s)
  then have "path_Clean (go_join [slash] es) = go_join [slash] es" using Cons r by (simp add: path_Clean_def)
  then show ?thesis using f Cons by (simp add: path_Joins_def)
qed (simp add: path_Joins_def)

lemma path_Joins_inj:
  assumes "\<forall>e\<in>set es. plain_el e" and "\<forall>e\<in>set fs. plain_el e" and "path_Joins es = path_Joins fs"
  shows "es = fs"
proof -
  have "abs_path es = abs_path fs" using assms by (simp add: path_Joins_plain abs_path_def)
  then show ?thesis using zx_Elems_abs_path assms(1,2) by metis
qed

lemma go_sort_names: "go_sort (name_Less h) xs = sort_key (file_name h) xs"
  by (rule go_sort_sort_key) (simp add: name_Less_def)

lemma rfile_Child: "f\<lparr>fi_Child := x\<rparr> = \<lparr>fi_D = fi_D f, fi_Child = x\<rparr>" for f :: rfile
  by (cases f) simp

text \<open>What \<open>add_child\<close> does: update the child with the name, or grow the store.\<close>

lemma add_child_cases:
  assumes wf: "store_wf h r" and pf: "pf < length h" and nm: "dget d ''name'' = name"
  obtains (upd) c where "c \<in> set (fi_Child (h ! pf))" "file_name h c = name"
      "add_child h pf name d = h[c := \<lparr>fi_D = d, fi_Child = (if no_children d then [] else fi_Child (h ! c))\<rparr>]"
    | (grow) cs where "name \<notin> file_name h ` set (fi_Child (h ! pf))" "add_child h pf name d = grown h pf d cs"
      "set cs = insert (length h) (set (fi_Child (h ! pf)))"
      "sorted_wrt (<) (map (file_name (grown h pf d cs)) cs)"
proof (cases "List.find (\<lambda>c. file_name h c = name) (fi_Child (h ! pf))")
  case (Some c)
  have "c \<in> set (fi_Child (h ! pf))" "file_name h c = name" using Some by (auto simp: find_Some_iff)
  moreover have "add_child h pf name d = h[c := \<lparr>fi_D = d, fi_Child = (if no_children d then [] else fi_Child (h ! c))\<rparr>]"
    unfolding add_child_def Let_def Some by simp
  ultimately show thesis by (rule upd)
next
  case None
  let ?ch = "fi_Child (h ! pf)" and ?n = "length h"
  let ?h = "h @ [\<lparr>fi_D = d, fi_Child = []\<rparr>]" and ?cs = "fi_Child (h ! pf) @ [length h]"
  define cs where "cs = (if length ?cs > 1 \<and> file_name ?h (?cs ! (length ?cs - 1)) < file_name ?h (?cs ! (length ?cs - 2))
    then go_sort (name_Less ?h) ?cs else ?cs)"
  have fresh: "name \<notin> file_name h ` set ?ch" using None by (auto simp: find_None_iff)
  have a: "add_child h pf name d = grown h pf d cs"
    unfolding add_child_def Let_def None option.case cs_def grown_def rfile_Child using pf by (simp add: nth_append)
  have st: "set cs = insert ?n (set ?ch)" by (auto simp: cs_def go_sort_names)
  have fn: "map (file_name (grown h pf d cs')) xs = map (file_name ?h) xs" if "set xs \<subseteq> {..?n}" for cs' xs
    using that grown_simps(6,7)[OF pf, where d = d and cs = cs'] pf
    by (auto simp: file_name_def nth_append le_less subset_eq)
  have chn: "map (file_name ?h) ?ch = map (file_name h) ?ch"
    using store_wfD(1)[OF wf pf] by (auto simp: file_name_def nth_append)
  have srt: "sorted (map (file_name ?h) ?ch)" unfolding chn using store_wfD(2)[OF wf pf] by (simp add: strict_sorted_iff)
  have nn: "file_name ?h ?n = name" using nm by (simp add: file_name_def)
  have d: "distinct (map (file_name ?h) ?cs)"
    unfolding map_append list.map distinct_append chn using fresh nn store_wfD(2)[OF wf pf]
    by (simp add: strict_sorted_iff)
  have "sorted (map (file_name ?h) cs)"
  proof (cases "length ?cs > 1 \<and> file_name ?h (?cs ! (length ?cs - 1)) < file_name ?h (?cs ! (length ?cs - 2))")
    case True
    then show ?thesis by (simp add: cs_def go_sort_names del: length_append)
  next
    case False
    have "x \<le> name" if "x \<in> set (map (file_name ?h) ?ch)" for x
    proof (cases ?ch rule: rev_cases)
      case (snoc ys y)
      then have "sorted (map (file_name ?h) ys @ [file_name ?h y])" using srt by simp
      moreover have "file_name ?h y \<le> name" using False nn snoc by (simp add: nth_append not_less)
      ultimately show ?thesis using that snoc by (auto simp: sorted_append)
    qed (use that in simp)
    moreover have "cs = ?cs" using False unfolding cs_def by (rule if_not_P)
    ultimately show ?thesis
      using srt nn by (simp add: sorted_append)
  qed
  moreover have "distinct (map (file_name ?h) cs)"
    using d by (simp add: cs_def go_sort_names) (auto simp: distinct_map)
  moreover have "map (file_name (grown h pf d cs)) cs = map (file_name ?h) cs"
    using st store_wfD(1)[OF wf pf] by (intro fn) (auto intro: less_imp_le)
  ultimately have "sorted_wrt (<) (map (file_name (grown h pf d cs)) cs)"
    unfolding strict_sorted_iff by (simp only: simp_thms)
  then show thesis by (rule grow[OF fresh a st])
qed

section \<open>Databases\<close>

text \<open>The entry that a database has at a path, and what it keeps: a tree, and the directory of the
  last \<open>Add\<close> where its path says.\<close>

definition store_lookup :: "store \<Rightarrow> nat \<Rightarrow> string list \<Rightarrow> dir option" where
  "store_lookup h r es = (case walk_from h r es of Inl e \<Rightarrow> None | Inr a \<Rightarrow> Some (fi_D (h ! a)))"

definition db_lookup :: "db \<Rightarrow> string list \<Rightarrow> dir option" where
  "db_lookup db es = (case db_Root db of None \<Rightarrow> None | Some r \<Rightarrow> store_lookup (db_files db) r es)"

definition db_wf :: "db \<Rightarrow> bool" where
  "db_wf db \<longleftrightarrow>
     (case db_Root db of
        None \<Rightarrow> db_files db = [] \<and> db_lastpf db = None
      | Some r \<Rightarrow> store_wf (db_files db) r \<and>
          (\<forall>pf. db_lastpf db = Some pf \<longrightarrow>
             (\<exists>es. list_all plain_el es \<and> walks (db_files db) r es pf \<and> db_lastpdir db = path_Joins es)))"

lemma store_lookup_Some: "walks h r es a \<Longrightarrow> store_lookup h r es = Some (fi_D (h ! a))"
  by (simp add: store_lookup_def walks_def)

lemma store_lookup_None: "\<not> (\<exists>a. walks h r es a) \<Longrightarrow> store_lookup h r es = None"
  by (auto simp: store_lookup_def walks_def split: sum.splits)

lemma zx_Dup_id: "wf_dir d \<Longrightarrow> zx_Dup d = d"
proof -
  have "distinct (map fst (nd @ d)) \<Longrightarrow> fold (\<lambda>(k, v) nd. dset nd k v) d nd = nd @ d" for nd
    by (induction d arbitrary: nd) (auto simp: dset_fresh split: prod.split)
  then show "wf_dir d \<Longrightarrow> ?thesis" by (simp add: wf_dir_def zx_Dup_def)
qed

lemma find_parent_ok:
  assumes "db_wf db" and r: "db_Root db = Some r" and p: "list_all plain_el es" and w: "walks (db_files db) r es pf"
  shows "find_parent db r es = Inr pf"
proof (cases "db_lastpf db")
  case None
  then show ?thesis using w by (simp add: find_parent_def walks_def)
next
  case (Some f)
  then obtain fs where fs: "list_all plain_el fs" "walks (db_files db) r fs f" "db_lastpdir db = path_Joins fs"
    using assms(1) r by (auto simp: db_wf_def)
  show ?thesis
  proof (cases "path_Joins es = db_lastpdir db")
    case True
    then have "es = fs" using path_Joins_inj p fs(1,3) by (metis list.pred_set)
    then show ?thesis using fs(2) w walks_unique Some True by (simp add: find_parent_def)
  qed (use Some w in \<open>simp add: find_parent_def walks_def\<close>)
qed

text \<open>What the tree has after an \<open>Add\<close>.\<close>

definition tree_add :: "string list \<Rightarrow> dir \<Rightarrow> (string list \<Rightarrow> dir option) \<Rightarrow> string list \<Rightarrow> dir option" where
  "tree_add p d t q = (if q = p then Some d else if no_children d \<and> prefix p q then None else t q)"

definition entry_at :: "string list \<Rightarrow> dir \<Rightarrow> bool" where
  "entry_at p d \<longleftrightarrow> list_all plain_el p \<and> dget d ''path'' = abs_path p \<and> (p \<noteq> [] \<longrightarrow> dget d ''name'' = last p) \<and> wf_dir d"

definition same_db :: "db \<Rightarrow> db \<Rightarrow> bool" where
  "same_db db' db \<longleftrightarrow> db_Name db' = db_Name db \<and> db_Addr db' = db_Addr db \<and> db_Excl db' = db_Excl db"

lemma add_child_lookup:
  assumes wf: "store_wf h r" and w: "walks h r es pf" and nm: "dget d ''name'' = name"
  shows "store_wf (add_child h pf name d) r \<and> walks (add_child h pf name d) r es pf \<and>
    store_lookup (add_child h pf name d) r = tree_add (es @ [name]) d (store_lookup h r)"
  using wf walks_bound[OF wf w] nm
proof (cases rule: add_child_cases)
  case (upd c)
  let ?k = "if no_children d then [] else fi_Child (h ! c)" and ?p = "es @ [name]"
  have c: "walks h r ?p c" using w upd by (auto simp: walks_snoc[OF wf])
  have n: "dget d ''name'' = file_name h c" using nm upd by simp
  note ws = upd_walks[OF wf c n refl, of "no_children d"]
  have wf': "store_wf (h[c := \<lparr>fi_D = d, fi_Child = ?k\<rparr>]) r"
    using upd_wf[OF wf walks_bound[OF wf c] n, of ?k] by simp
  have "walks (h[c := \<lparr>fi_D = d, fi_Child = ?k\<rparr>]) r es pf" using w by (simp add: ws) (auto simp: strict_prefix_def prefix_def)
  moreover have "store_lookup (h[c := \<lparr>fi_D = d, fi_Child = ?k\<rparr>]) r q = tree_add ?p d (store_lookup h r) q" for q
  proof (cases "\<exists>a. walks h r q a \<and> (no_children d \<longrightarrow> \<not> strict_prefix ?p q)")
    case True
    then obtain a where a: "walks h r q a" "no_children d \<longrightarrow> \<not> strict_prefix ?p q" by blast
    have "a = c \<longleftrightarrow> q = ?p" using walks_inj[OF wf c] walks_unique[OF c] a(1) by blast
    moreover have "fi_D (h[c := \<lparr>fi_D = d, fi_Child = ?k\<rparr>] ! a) = (if a = c then d else fi_D (h ! a))"
      using walks_bound[OF wf c] by simp
    moreover have "store_lookup (h[c := \<lparr>fi_D = d, fi_Child = ?k\<rparr>]) r q = Some (fi_D (h[c := \<lparr>fi_D = d, fi_Child = ?k\<rparr>] ! a))"
      using a by (intro store_lookup_Some) (simp add: ws)
    ultimately show ?thesis using a store_lookup_Some[OF a(1)] by (auto simp: tree_add_def strict_prefix_def)
  next
    case False
    then have "q \<noteq> ?p" using c by auto
    moreover have "store_lookup (h[c := \<lparr>fi_D = d, fi_Child = ?k\<rparr>]) r q = None"
      using False by (intro store_lookup_None) (simp add: ws)
    moreover have "store_lookup h r q = None" if "\<not> (no_children d \<and> prefix ?p q)"
      using False that by (intro store_lookup_None) (auto simp: strict_prefix_def)
    ultimately show ?thesis by (simp add: tree_add_def)
  qed
  ultimately show ?thesis using upd(3) wf' by (simp add: fun_eq_iff)
next
  case (grow cs)
  let ?h = "grown h pf d cs" and ?p = "es @ [name]"
  note pf = walks_bound[OF wf w]
  note ws = grown_walks[OF wf w grow(3,4), unfolded nm]
  have np: "\<not> walks h r (?p @ xs) a" for xs a
  proof
    assume "walks h r (?p @ xs) a"
    then obtain b where "walks h r ?p b"
      unfolding walks_def by (subst (asm) walk_from_append) (auto split: sum.splits)
    then show False using grow(1) walks_unique[OF w] by (auto simp: walks_snoc[OF wf])
  qed
  have "store_lookup ?h r q = tree_add ?p d (store_lookup h r) q" for q
  proof -
    consider "q = ?p" | a where "walks h r q a" "q \<noteq> ?p" | "\<not> (\<exists>a. walks h r q a)" "q \<noteq> ?p" by blast
    then show ?thesis
    proof cases
      case 1
      have "store_lookup ?h r ?p = Some (fi_D (?h ! length h))" by (intro store_lookup_Some) (simp add: ws)
      then show ?thesis using 1 pf by (simp add: tree_add_def grown_simps)
    next
      case 2
      have "store_lookup ?h r q = Some (fi_D (?h ! a))" using 2 by (intro store_lookup_Some) (simp add: ws)
      moreover have "\<not> prefix ?p q" using np 2(1) by (auto simp: prefix_def)
      ultimately show ?thesis
        using 2 pf store_lookup_Some[OF 2(1)] walks_bound[OF wf 2(1)] by (simp add: tree_add_def grown_simps)
    next
      case 3
      then have "store_lookup ?h r q = None" by (intro store_lookup_None) (simp add: ws)
      then show ?thesis using 3 store_lookup_None[OF 3(1)] by (simp add: tree_add_def)
    qed
  qed
  then show ?thesis using grow(2) grown_wf[OF wf pf grow(3,4)] w by (simp add: ws fun_eq_iff)
qed

text \<open>\<open>Add\<close> below the root changes what the tree has at the path, and keeps the tree.\<close>

lemma db_Add_ok:
  assumes wf: "db_wf db" and r: "db_Root db = Some r" and d: "entry_at p d" and p: "p \<noteq> []"
    and ex: "\<not> isExcl (abs_path p) (db_Excl db)" and par: "db_lookup db (butlast p) \<noteq> None"
  shows "\<exists>db'. db_Add db d = Ret (None, db') \<and> db_wf db' \<and> same_db db' db \<and> db_Root db' = Some r \<and>
    db_lookup db' = tree_add p d (db_lookup db)"
proof -
  let ?h = "db_files db"
  have pl: "list_all plain_el p" "list_all plain_el (butlast p)"
    and path: "dget d ''path'' = abs_path p" and nm: "dget d ''name'' = last p" and dup: "zx_Dup d = d"
    using d p zx_Dup_id by (auto simp: entry_at_def list_all_iff dest: in_set_butlastD)
  obtain pf where w: "walks ?h r (butlast p) pf"
    by (metis (no_types) db_lookup_def option.case(2) par r store_lookup_None)
  have sw: "store_wf ?h r" using wf r by (simp add: db_wf_def)
  note ac = add_child_lookup[OF sw w nm, unfolded append_butlast_last_id[OF p]]
  have "zx_Elems (abs_path p) = p" "abs_path p \<noteq> ''/''"
    using pl(1) p by (simp_all add: zx_Elems_abs_path abs_path_eq_root list_all_iff)
  then have "db_Add db d = Ret (None, db\<lparr>db_files := add_child ?h pf (last p) d,
      db_lastpf := Some pf, db_lastpdir := path_Joins (butlast p)\<rparr>)"
    using ex p find_parent_ok[OF wf r pl(2) w] by (simp add: db_Add_def dup path r Let_def)
  moreover have "db_lookup db = store_lookup ?h r" by (simp add: db_lookup_def r fun_eq_iff)
  moreover have "db_lookup (db\<lparr>db_files := h, db_lastpf := x, db_lastpdir := y\<rparr>) = store_lookup h r" for h x y
    by (simp add: db_lookup_def r fun_eq_iff)
  ultimately show ?thesis using ac pl(2) r by (auto simp: same_db_def db_wf_def)
qed

lemma db_Add_root:
  assumes "db_wf db" and "db_Root db = None" and d: "entry_at [] d"
  shows "\<exists>db'. db_Add db d = Ret (None, db') \<and> db_wf db' \<and> same_db db' db \<and> db_Root db' = Some 0 \<and>
    db_lookup db' = (\<lambda>q. if q = [] then Some d else None)"
proof -
  have h: "db_files db = []" "db_lastpf db = None" using assms by (simp_all add: db_wf_def)
  have dup: "zx_Dup d = d" and path: "dget d ''path'' = ''/''"
    using d zx_Dup_id by (auto simp: entry_at_def abs_path_def)
  let ?h = "[\<lparr>fi_D = d, fi_Child = []\<rparr>]"
  have "walk_from ?h 0 q = (case q of [] \<Rightarrow> Inr 0 | e # es \<Rightarrow> Inl (RErr (''/: '' @ e @ '': file not found'')))" for q
    using path by (cases q) (simp_all add: Walk1_def)
  then have "store_lookup ?h 0 = (\<lambda>q. if q = [] then Some d else None)"
    by (auto simp: store_lookup_def fun_eq_iff split: list.split)
  moreover have "db_Add db d = Ret (None, db\<lparr>db_files := ?h, db_Root := Some 0\<rparr>)"
    using assms(2) h by (simp add: db_Add_def isExcl_def dup path Let_def)
  moreover have "store_wf ?h 0" by (simp add: store_wf_def)
  ultimately show ?thesis using h by (auto simp: same_db_def db_wf_def db_lookup_def)
qed

end
