(* ===== verification/ReplWire.thy ===== *)
theory ReplWire
  imports ReplDbProps
begin

text \<open>
  A replica database arrives as it was sent, and is loaded as it was saved (src/zx/repl/db.go).
\<close>

section \<open>The files, parents first\<close>

fun paths_at :: "nat \<Rightarrow> store \<Rightarrow> nat \<Rightarrow> string list \<Rightarrow> string list list" where
  "paths_at 0 h f q = []"
| "paths_at (Suc k) h f q = q # concat (map (\<lambda>c. paths_at k h c (q @ [file_name h c])) (fi_Child (h ! f)))"

lemma files_paths:
  assumes "store_wf h r" and "walks h r q f"
  shows "list_all2 (walks h r) (paths_at k h f q) (files_at k h f)"
  using assms(2)
proof (induction k arbitrary: f q)
  case (Suc k)
  have "list_all2 (walks h r) (concat (map (\<lambda>c. paths_at k h c (q @ [file_name h c])) cs)) (concat (map (files_at k h) cs))"
    if "set cs \<subseteq> set (fi_Child (h ! f))" for cs
    using that
  proof (induction cs)
    case (Cons c cs)
    have "walks h r (q @ [file_name h c]) c" using Cons.prems Suc.prems by (auto simp: walks_snoc[OF assms(1)])
    then show ?case using Suc.IH Cons by (simp add: list_all2_appendI)
  qed simp
  then show ?case using Suc.prems by simp
qed simp

text \<open>A parent comes before its children.\<close>

fun ordered :: "string list list \<Rightarrow> string list list \<Rightarrow> bool" where
  "ordered xs [] = True"
| "ordered xs (p # ps) \<longleftrightarrow> (p = [] \<or> butlast p \<in> set xs) \<and> ordered (xs @ [p]) ps"

lemma ordered_append: "ordered xs (ps @ qs) \<longleftrightarrow> ordered xs ps \<and> ordered (xs @ ps) qs"
  by (induction ps arbitrary: xs) auto

lemma paths_ordered: "q = [] \<or> butlast q \<in> set xs \<Longrightarrow> ordered xs (paths_at k h f q)"
proof (induction k arbitrary: f q xs)
  case (Suc k)
  have "ordered ys (concat (map (\<lambda>c. paths_at k h c (q @ [file_name h c])) cs))" if "q \<in> set ys" for cs ys
    using that
  proof (induction cs arbitrary: ys)
    case (Cons c cs)
    then show ?case using Suc.IH[of "q @ [file_name h c]" ys] by (simp add: ordered_append)
  qed simp
  then show ?case using Suc.prems by simp
qed simp

lemma paths_complete:
  "walk_from h f es = Inr a \<Longrightarrow> length es < k \<Longrightarrow> q @ es \<in> set (paths_at k h f q)"
proof (induction k arbitrary: f q es)
  case (Suc k)
  show ?case
  proof (cases es)
    case (Cons e es')
    then obtain c where c: "Walk1 h f e = Inr c" "walk_from h c es' = Inr a"
      using Suc.prems(1) by (auto split: sum.splits)
    then have "(q @ [file_name h c]) @ es' \<in> set (paths_at k h c (q @ [file_name h c]))"
      using Suc.prems(2) Cons by (intro Suc.IH) auto
    then show ?thesis using Walk1_child[OF c(1)] Cons by auto
  qed simp
qed simp

text \<open>No path is longer than the files are many.\<close>

lemma walks_length:
  assumes wf: "store_wf h r" and w: "walks h r q a"
  shows "length q < length h"
proof -
  have "\<exists>b. walks h r (take i q) b" for i
    using w walk_from_append[of h r "take i q" "drop i q"] by (auto simp: walks_def split: sum.splits)
  then obtain g where g: "walks h r (take i q) (g i)" for i by metis
  have "inj_on g {..length q}"
  proof (rule inj_onI)
    fix i j assume ij: "i \<in> {..length q}" "j \<in> {..length q}" "g i = g j"
    then have "take i q = take j q" using walks_inj[OF wf] g by metis
    then have "length (take i q) = length (take j q)" by simp
    then show "i = j" using ij by simp
  qed
  moreover have "g ` {..length q} \<subseteq> {..<length h}" using walks_bound[OF wf g] by auto
  ultimately have "card {..length q} \<le> card {..<length h}" by (intro card_inj_on_le) auto
  then show ?thesis by simp
qed

section \<open>Receiving\<close>

text \<open>What a database can hold to be sent.\<close>

definition sendable_db :: "db \<Rightarrow> bool" where
  "sendable_db db \<longleftrightarrow> db_wf db \<and> db_Root db \<noteq> None \<and>
     db_Excl db \<noteq> [] \<and> (\<forall>e\<in>set (db_Excl db). CHR 0x0A \<notin> set e) \<and>
     (\<forall>q d. db_lookup db q = Some d \<longrightarrow>
        entry_at q d \<and> good_dir d \<and> q \<noteq> [''Ctl''] \<and> q \<noteq> [''Chg''] \<and> \<not> isExcl (abs_path q) (db_Excl db) \<and>
        (no_children d \<longrightarrow> (\<forall>q'. strict_prefix q q' \<longrightarrow> db_lookup db q' = None)))"

definition shown :: "string list list \<Rightarrow> (string list \<Rightarrow> dir option) \<Rightarrow> string list \<Rightarrow> dir option" where
  "shown xs t q = (if q \<in> set xs then t q else None)"

lemma tree_add_shown:
  assumes "t p = Some d" and "no_children d \<longrightarrow> (\<forall>q. strict_prefix p q \<longrightarrow> t q = None)"
  shows "tree_add p d (shown xs t) = shown (xs @ [p]) t"
  using assms by (auto simp: tree_add_def shown_def fun_eq_iff strict_prefix_def)

lemma abs_path_other: "list_all plain_el q \<Longrightarrow> list_all plain_el es \<Longrightarrow> q \<noteq> es \<Longrightarrow> abs_path q \<noteq> abs_path es"
  using zx_Elems_abs_path[of q] zx_Elems_abs_path[of es] by (auto simp: list_all_iff)

lemma recv_entry:
  assumes s: "sendable_db sdb" and q: "db_lookup sdb q = Some d" and e: "db_Excl db = db_Excl sdb"
  shows "recv_loop (MBytes (zx_Dir_Bytes d) # ms) db =
    go_bind (db_Add db d) (\<lambda>(e, db). case e of Some e \<Rightarrow> Ret (db, Some e) | None \<Rightarrow> recv_loop ms db)"
proof -
  have d: "entry_at q d" "good_dir d" "q \<noteq> [''Ctl'']" "q \<noteq> [''Chg'']" "\<not> isExcl (abs_path q) (db_Excl db)"
    using s q e by (auto simp: sendable_db_def)
  have path: "dget d ''path'' = abs_path q" and pl: "list_all plain_el q" using d(1) by (auto simp: entry_at_def)
  have "abs_path q \<noteq> ''/Ctl''" "abs_path q \<noteq> ''/Chg''"
    using abs_path_other[OF pl, of "[''Ctl'']"] abs_path_other[OF pl, of "[''Chg'']"] d(3,4)
    by (auto simp: plain_el_def abs_path_def)
  moreover have "zx_UnpackDir (zx_Dir_Bytes d) = (Some [], Some d, None)"
    using zx_UnpackDir_WriteTo[OF d(2), of "[]"] by (simp add: zx_Dir_Bytes_def)
  moreover have "length (zx_Dir_Bytes d) \<noteq> 0" by (simp add: zx_Dir_Bytes_def zx_Dir_WriteTo_def)
  ultimately show ?thesis using d(5) path by simp
qed

lemma recv_rest:
  assumes s: "sendable_db sdb"
  shows "ordered xs ps \<Longrightarrow> [] \<notin> set ps \<Longrightarrow> \<forall>p\<in>set (xs @ ps). db_lookup sdb p \<noteq> None \<Longrightarrow>
    db_wf db \<Longrightarrow> db_Root db \<noteq> None \<Longrightarrow> db_Excl db = db_Excl sdb \<Longrightarrow> db_lookup db = shown xs (db_lookup sdb) \<Longrightarrow>
    \<exists>db'. recv_loop (map (\<lambda>p. MBytes (zx_Dir_Bytes (the (db_lookup sdb p)))) ps @ [MBytes []]) db = Ret (db', None) \<and>
      same_db db' db \<and> db_wf db' \<and> db_lookup db' = shown (xs @ ps) (db_lookup sdb)"
proof (induction ps arbitrary: xs db)
  case Nil
  then show ?case by (simp add: same_db_def)
next
  case (Cons p ps)
  obtain r where r: "db_Root db = Some r" using Cons.prems by auto
  obtain d where d: "db_lookup sdb p = Some d" using Cons.prems by auto
  have e: "entry_at p d" "\<not> isExcl (abs_path p) (db_Excl db)"
      "no_children d \<longrightarrow> (\<forall>q. strict_prefix p q \<longrightarrow> db_lookup sdb q = None)"
    using s d Cons.prems(6) by (auto simp: sendable_db_def)
  have "p \<noteq> []" "butlast p \<in> set xs" using Cons.prems(1,2) by auto
  moreover have "db_lookup db (butlast p) \<noteq> None" using calculation(2) Cons.prems(3,7) by (simp add: shown_def)
  ultimately obtain db1 where db1: "db_Add db d = Ret (None, db1)" "db_wf db1" "same_db db1 db" "db_Root db1 = Some r"
      "db_lookup db1 = tree_add p d (db_lookup db)"
    using db_Add_ok[OF Cons.prems(4) r e(1) _ e(2)] by blast
  have "db_lookup db1 = shown (xs @ [p]) (db_lookup sdb)"
    unfolding db1(5) Cons.prems(7) by (rule tree_add_shown[OF d e(3)])
  moreover have "db_Excl db1 = db_Excl sdb" using db1(3) Cons.prems(6) by (simp add: same_db_def)
  ultimately obtain db' where "recv_loop (map (\<lambda>p. MBytes (zx_Dir_Bytes (the (db_lookup sdb p)))) ps @ [MBytes []]) db1 = Ret (db', None)"
      "same_db db' db1" "db_wf db'" "db_lookup db' = shown ((xs @ [p]) @ ps) (db_lookup sdb)"
    using Cons.IH[of "xs @ [p]" db1] Cons.prems(1-3) db1(2,4) by auto
  then show ?case using d db1(1,3) recv_entry[OF s d Cons.prems(6)] by (auto simp: same_db_def)
qed

lemma paths_nonroot: "[] \<notin> set (tl (paths_at k h f q))"
proof (cases k)
  case (Suc n)
  have "q' \<in> set (paths_at n h c p) \<Longrightarrow> prefix p q'" for c p q'
  proof (induction n arbitrary: c p)
    case (Suc n)
    then show ?case by (auto dest: append_prefixD)
  qed simp
  then show ?thesis using Suc by fastforce
qed simp

lemma db_Files_paths:
  assumes wf: "db_wf db" and r: "db_Root db = Some r"
  shows "\<exists>ps. map (\<lambda>f. fi_D (db_files db ! f)) (db_Files db) = map (\<lambda>p. the (db_lookup db p)) ([] # ps) \<and>
    ordered [[]] ps \<and> [] \<notin> set ps \<and> set ([] # ps) = {p. db_lookup db p \<noteq> None}"
proof -
  let ?h = "db_files db"
  have sw: "store_wf ?h r" using wf r by (simp add: db_wf_def)
  let ?ps = "paths_at (length ?h) ?h r []"
  have lk: "db_lookup db = store_lookup ?h r" by (simp add: db_lookup_def r fun_eq_iff)
  have w: "list_all2 (walks ?h r) ?ps (db_Files db)"
    using files_paths[OF sw, of "[]" r "length ?h"] by (simp add: db_Files_def r)
  have "length ?h \<noteq> 0" using sw by (auto simp: store_wf_def)
  then obtain ps where ps: "?ps = [] # ps" by (cases "length ?h") auto
  have "list_all2 (\<lambda>d p. d = the (db_lookup db p)) (map (\<lambda>f. fi_D (?h ! f)) (db_Files db)) ?ps"
    using w by (auto simp: list.rel_map list_all2_conv_all_nth store_lookup_Some lk)
  then have "map (\<lambda>f. fi_D (?h ! f)) (db_Files db) = map (\<lambda>p. the (db_lookup db p)) ?ps"
    by (simp add: list_all2_conv_all_nth list_eq_iff_nth_eq)
  moreover have "ordered [] ?ps" by (rule paths_ordered) simp
  moreover have "[] \<notin> set (tl ?ps)" by (rule paths_nonroot)
  moreover have "set ?ps = {p. db_lookup db p \<noteq> None}"
  proof (intro equalityI subsetI)
    fix p assume "p \<in> set ?ps"
    then obtain a where "walks ?h r p a" using w by (metis in_set_conv_nth list_all2_conv_all_nth)
    then show "p \<in> {p. db_lookup db p \<noteq> None}" using store_lookup_Some lk by simp
  next
    fix p assume "p \<in> {p. db_lookup db p \<noteq> None}"
    then obtain a where a: "walks ?h r p a" using store_lookup_None[of ?h r p] lk by (metis mem_Collect_eq)
    then show "p \<in> set ?ps"
      using paths_complete[of ?h r p a "length ?h" "[]"] walks_length[OF sw a] by (simp add: walks_def)
  qed
  ultimately show ?thesis unfolding ps by (intro exI[of _ ps]) simp
qed

lemma recvDBFrom_sendTo:
  assumes s: "sendable_db db"
  shows "\<exists>db'. recvDBFrom (fst (db_sendTo db None None)) = Ret (Some db', None) \<and>
    same_db db' db \<and> db_wf db' \<and> db_lookup db' = db_lookup db"
proof -
  have wf: "db_wf db" and ex: "db_Excl db \<noteq> []" "\<forall>e\<in>set (db_Excl db). CHR 0x0A \<notin> set e"
    using s by (auto simp: sendable_db_def)
  obtain r where r: "db_Root db = Some r" using s by (auto simp: sendable_db_def)
  obtain ps where ps: "map (\<lambda>f. fi_D (db_files db ! f)) (db_Files db) = map (\<lambda>p. the (db_lookup db p)) ([] # ps)"
      "ordered [[]] ps" "[] \<notin> set ps" "set ([] # ps) = {p. db_lookup db p \<noteq> None}"
    using db_Files_paths[OF wf r] by blast
  have "map (\<lambda>f. zx_Dir_Bytes (fi_D (db_files db ! f))) (db_Files db) = map zx_Dir_Bytes (map (\<lambda>p. the (db_lookup db p)) ([] # ps))"
    unfolding ps(1)[symmetric] by simp
  then have m: "fst (db_sendTo db None None) = [MBytes (db_Name db), MBytes (db_Addr db), MBytes (go_join [CHR 0x0A] (db_Excl db)),
      MBytes (zx_Dir_Bytes (the (db_lookup db [])))] @ map (\<lambda>p. MBytes (zx_Dir_Bytes (the (db_lookup db p)))) ps @ [MBytes []]"
    unfolding db_sendTo_def db_msgs_def Let_def by (simp only: option.case fst_conv map_append map_map comp_def list.map append.simps)
  have "[] \<in> {p. db_lookup db p \<noteq> None}" unfolding ps(4)[symmetric] by simp
  then obtain d where d: "db_lookup db [] = Some d" by auto
  let ?db0 = "\<lparr>db_Name = db_Name db, db_Addr = db_Addr db, db_Excl = db_Excl db, db_files = [], db_Root = None,
    db_lastpf = None, db_lastpdir = []\<rparr>"
  have e: "entry_at [] d" using s d by (auto simp: sendable_db_def)
  obtain db1 where db1: "db_Add ?db0 d = Ret (None, db1)" "db_wf db1" "same_db db1 ?db0" "db_Root db1 = Some 0"
      "db_lookup db1 = (\<lambda>q. if q = [] then Some d else None)"
    using db_Add_root[of ?db0 d] e by (auto simp: db_wf_def)
  have "db_lookup db1 = shown [[]] (db_lookup db)" using d by (simp add: db1(5) shown_def fun_eq_iff)
  moreover have "db_Excl db1 = db_Excl db" using db1(3) by (simp add: same_db_def)
  ultimately obtain db' where db': "recv_loop (map (\<lambda>p. MBytes (zx_Dir_Bytes (the (db_lookup db p)))) ps @ [MBytes []]) db1 = Ret (db', None)"
      "same_db db' db1" "db_wf db'" "db_lookup db' = shown ([[]] @ ps) (db_lookup db)"
    using recv_rest[OF s ps(2,3), of db1] ps(4) db1(2,4) by auto
  have "shown ([[]] @ ps) (db_lookup db) = db_lookup db"
    using ps(4) by (auto simp: shown_def fun_eq_iff)
  moreover have "recv_loop (MBytes (zx_Dir_Bytes d) # map (\<lambda>p. MBytes (zx_Dir_Bytes (the (db_lookup db p)))) ps @ [MBytes []]) ?db0 =
      Ret (db', None)"
    by (subst recv_entry[OF s d]) (simp_all add: db1(1) db'(1))
  then have "recvDBFrom (fst (db_sendTo db None None)) = Ret (Some db', None)"
    using go_split_join[OF ex] d by (simp add: m recvDBFrom_def del: recv_loop.simps)
  ultimately show ?thesis using db'(2-4) db1(3) by (auto simp: same_db_def)
qed

section \<open>Saving and loading\<close>

lemma sendTo_sendable:
  "\<forall>m\<in>set (db_msgs db). sendable m \<Longrightarrow> \<forall>m\<in>set (fst (db_sendTo db None None)). sendable m"
  by (auto simp: db_sendTo_def)

text \<open>A small database.\<close>

definition demo_entry :: "string \<Rightarrow> string \<Rightarrow> string \<Rightarrow> dir" where
  "demo_entry path nm t = [(''path'', path), (''name'', nm), (''type'', t), (''size'', ''3''), (''mtime'', ''1000000000'')]"

definition demo_with :: "string \<Rightarrow> db" where
  "demo_with nm = \<lparr>db_Name = ''main'', db_Addr = ''/tmp/r'', db_Excl = [''.Ctl'', ''.Chg'', ''.zx''],
     db_files = [\<lparr>fi_D = demo_entry ''/'' ''/'' ''d'', fi_Child = [1]\<rparr>, \<lparr>fi_D = demo_entry ''/a'' ''a'' ''d'', fi_Child = [2]\<rparr>,
       \<lparr>fi_D = demo_entry (''/a/'' @ nm) nm ''-'', fi_Child = []\<rparr>],
     db_Root = Some 0, db_lastpf = Some 1, db_lastpdir = ''a''\<rparr>"

definition demo_db :: db where
  "demo_db = demo_with ''b''"

lemma demo_lookup:
  "db_lookup (demo_with nm) q =
    (if q = [] then Some (demo_entry ''/'' ''/'' ''d'')
     else if q = [''a''] then Some (demo_entry ''/a'' ''a'' ''d'')
     else if q = [''a'', nm] then Some (demo_entry (''/a/'' @ nm) nm ''-'') else None)"
proof -
  let ?h = "db_files (demo_with nm)"
  have w: "Walk1 ?h 0 e = (if e = ''a'' then Inr 1 else Inl (RErr (''/: '' @ e @ '': file not found'')))"
    "Walk1 ?h 1 e = (if e = nm then Inr 2 else Inl (RErr (''/a: '' @ e @ '': file not found'')))"
    "Walk1 ?h 2 e = Inl (RErr (''/a/'' @ nm @ '': '' @ e @ '': file not found''))" for e
    by (auto simp: Walk1_def demo_with_def file_name_def demo_entry_def dget_def)
  have "db_lookup (demo_with nm) q = store_lookup ?h 0 q" by (simp add: db_lookup_def demo_with_def)
  also have "\<dots> = (if q = [] then Some (demo_entry ''/'' ''/'' ''d'')
     else if q = [''a''] then Some (demo_entry ''/a'' ''a'' ''d'')
     else if q = [''a'', nm] then Some (demo_entry (''/a/'' @ nm) nm ''-'') else None)"
    unfolding store_lookup_def
    by (cases q; cases "tl q"; cases "tl (tl q)") (auto simp: w w(2)[unfolded One_nat_def], auto simp: demo_with_def)
  finally show ?thesis .
qed

lemma demo_wf: "db_wf (demo_with nm)"
proof -
  have h: "length (db_files (demo_with nm)) = 3" by (simp add: demo_with_def)
  have all: "(\<forall>a<3. P a) \<longleftrightarrow> P 0 \<and> P 1 \<and> P (2 :: nat)" for P
    by (auto simp: less_Suc_eq numeral_3_eq_3 numeral_2_eq_2)
  have "store_wf (db_files (demo_with nm)) 0"
    unfolding store_wf_def h all by (simp add: demo_with_def file_name_def demo_entry_def dget_def)
  moreover have "walks (db_files (demo_with nm)) 0 [''a''] 1"
    by (simp add: walks_def Walk1_def demo_with_def file_name_def demo_entry_def dget_def)
  ultimately show ?thesis
    unfolding db_wf_def by (simp add: demo_with_def) (intro exI[of _ "[''a'']"], simp add: plain_el_def path_Joins_def path_Clean_def clean_els_def is_rooted_def)
qed

lemma demo_sendable: "sendable_db demo_db"
proof -
  have x: "\<not> isExcl (abs_path []) (db_Excl demo_db)" "\<not> isExcl (abs_path [''a'']) (db_Excl demo_db)"
    "\<not> isExcl (abs_path [''a'', ''b'']) (db_Excl demo_db)"
    by code_simp+
  show ?thesis
    unfolding sendable_db_def using demo_wf x unfolding demo_db_def
    by (auto simp: demo_lookup entry_at_def demo_entry_def dget_def abs_path_def plain_el_def wf_dir_def good_dir_def
        MaxMsgSz_def no_children_def split: if_splits) (auto simp: demo_with_def)
qed

text \<open>
  C26: \<open>Add\<close> of an entry below the root, at its path, with its parent in the database and not excluded, keeps the
  tree, and changes what it has in one place: the path has the entry and, unless it is a directory that is
  there, nothing below it; every other path has what it had.
\<close>

theorem repl_Add_updates:
  assumes "db_wf db" and "entry_at p d" and "p \<noteq> []" and "db_lookup db (butlast p) \<noteq> None"
    and "\<not> isExcl (abs_path p) (db_Excl db)"
  shows "\<exists>db'. db_Add db d = Ret (None, db') \<and> db_wf db' \<and>
    db_lookup db' = (\<lambda>q. if q = p then Some d else if no_children d \<and> prefix p q then None else db_lookup db q)"
proof -
  obtain r where "db_Root db = Some r" using assms(4) by (auto simp: db_lookup_def split: option.splits)
  from db_Add_ok[OF assms(1) this assms(2,3,5,4)] show ?thesis by (auto simp: tree_add_def fun_eq_iff)
qed

theorem repl_Add_updates_witness:
  "\<exists>db'. db_Add demo_db (demo_entry ''/a/c'' ''c'' ''-'') = Ret (None, db') \<and> db_wf db' \<and>
    db_lookup db' = (\<lambda>q. if q = [''a'', ''c''] then Some (demo_entry ''/a/c'' ''c'' ''-'')
      else if no_children (demo_entry ''/a/c'' ''c'' ''-'') \<and> prefix [''a'', ''c''] q then None else db_lookup demo_db q)"
proof (rule repl_Add_updates)
  show "\<not> isExcl (abs_path [''a'', ''c'']) (db_Excl demo_db)" by code_simp
qed (simp_all add: demo_wf demo_lookup demo_db_def entry_at_def demo_entry_def dget_def abs_path_def plain_el_def wf_dir_def)

text \<open>
  After an entry of the root directory the database keeps a pointer to its root; \<open>Add\<close> of the root itself replaces the
  root and keeps that pointer, so what is added to the root next is not in the database.
\<close>

theorem repl_Add_root_loses:
  "(case db_Add demo_db (demo_entry ''/c'' ''c'' ''-'') of Ret (_, db1) \<Rightarrow>
     (case db_Add db1 (demo_entry ''/'' ''/'' ''d'') of Ret (_, db2) \<Rightarrow>
       (case db_Add db2 (demo_entry ''/y'' ''y'' ''-'') of
          Ret (err, db3) \<Rightarrow> err = None \<and> db_lookup db3 [''c''] \<noteq> None \<and> db_lookup db3 [''y''] = None | Panic \<Rightarrow> False)
      | Panic \<Rightarrow> False) | Panic \<Rightarrow> False)"
  by code_simp

text \<open>
  C27: a database saved to a file is loaded from it: with the same name, address and exclusions, and
  the same entry at every path.
\<close>

theorem repl_Save_Load:
  assumes "\<forall>h m. wr h m = (length m, None)" and "sendable_db db" and "\<forall>m\<in>set (db_msgs db). sendable m"
  shows "\<exists>b db'. db_Save wr None None db = (Some b, None) \<and> LoadDB (Inr (b, EOFErr)) = Ret (Some db', None) \<and>
    same_db db' db \<and> db_lookup db' = db_lookup db"
proof -
  let ?ms = "fst (db_sendTo db None None)"
  obtain fs n where w: "ch_WriteMsgs zx_TypeId zx_WriteTo wr None 1 [] ?ms None = (fs, n, length ?ms, None)"
    "ch_ReadMsgs zx_Unpack (\<lambda>i. True) None (concat fs, EOFErr) = (n, length ?ms, ?ms, None)"
    using zx_codec.WriteMsgs_ReadMsgs[OF assms(1)] sendTo_sendable[OF assms(3)] sendable_good by blast
  then show ?thesis
    using recvDBFrom_sendTo[OF assms(2)] by (auto simp: db_Save_def LoadDB_def)
qed

theorem repl_Save_Load_witness:
  "\<exists>b db'. db_Save (\<lambda>h m. (length m, None)) None None demo_db = (Some b, None) \<and>
    LoadDB (Inr (b, EOFErr)) = Ret (Some db', None) \<and> same_db db' demo_db \<and> db_lookup db' = db_lookup demo_db"
proof (rule repl_Save_Load)
  have "db_Files demo_db = [0, 1, 2]" by code_simp
  then show "\<forall>m\<in>set (db_msgs demo_db). sendable m"
    by (simp add: db_msgs_def) (simp add: demo_db_def demo_with_def demo_entry_def zx_Dir_Bytes_def zx_Dir_WriteTo_def ch_WriteStringTo_def MaxMsgSz_def)
qed (simp_all add: demo_sendable)

end
