(* ===== verification/ReplCmpProps.thy ===== *)
theory ReplCmpProps
  imports ReplCmp ReplWire
begin

text \<open>
  What the comparison of two databases sends: the change at every path that a table of the entries of
  both tells, wherever both have directories on the way.
\<close>

section \<open>The reference\<close>

text \<open>The time of a change that has none: that of the directory, or that of the comparison at the root.\<close>

definition chg_time :: "(string list \<Rightarrow> dir option) \<Rightarrow> int \<Rightarrow> string list \<Rightarrow> int" where
  "chg_time t now p =
     (if p = [] then now else (case t (butlast p) of None \<Rightarrow> now | Some d \<Rightarrow> zx_Time d ''mtime''))"

definition path_chg ::
  "(string list \<Rightarrow> dir option) \<Rightarrow> (string list \<Rightarrow> dir option) \<Rightarrow> int \<Rightarrow> repl_where \<Rightarrow> string list \<Rightarrow> rchg option" where
  "path_chg t0 t1 now w p =
     (case (t0 p, t1 p) of
        (None, None) \<Rightarrow> None
      | (None, Some d1) \<Rightarrow> Some (mk_rchg ChgAdd (zx_Time d1 ''mtime'') d1 w)
      | (Some d0, None) \<Rightarrow> Some (mk_rchg ChgDel (chg_time t1 now (butlast p)) d0 w)
      | (Some d0, Some d1) \<Rightarrow>
          if dget d0 ''type'' \<noteq> dget d1 ''type'' then Some (mk_rchg ChgDirFile (zx_Time d1 ''mtime'') d1 w)
          else if dget d0 ''type'' \<noteq> ''d'' \<and> dataChanged d0 d1 then Some (mk_rchg ChgData (zx_Time d1 ''mtime'') d1 w)
          else if metaChanged d0 d1 \<and> (dget d0 ''type'' = ''d'' \<longrightarrow> p \<noteq> []) then Some (mk_rchg ChgMeta (chg_time t1 now p) d1 w)
          else None)"

definition both_dirs :: "(string list \<Rightarrow> dir option) \<Rightarrow> (string list \<Rightarrow> dir option) \<Rightarrow> string list \<Rightarrow> bool" where
  "both_dirs t0 t1 q \<longleftrightarrow>
     (\<exists>d0 d1. t0 q = Some d0 \<and> t1 q = Some d1 \<and> dget d0 ''type'' = ''d'' \<and> dget d1 ''type'' = ''d'')"

definition compared :: "(string list \<Rightarrow> dir option) \<Rightarrow> (string list \<Rightarrow> dir option) \<Rightarrow> string list \<Rightarrow> bool" where
  "compared t0 t1 p \<longleftrightarrow> (\<forall>q. strict_prefix q p \<longrightarrow> both_dirs t0 t1 q)"

text \<open>The databases of a scan: no entry removed, in error or excluded, and each at its path.\<close>

definition scanned :: "string list \<Rightarrow> (string list \<Rightarrow> dir option) \<Rightarrow> bool" where
  "scanned excl t \<longleftrightarrow>
     (\<forall>p d. t p = Some d \<longrightarrow> entry_at p d \<and> dget d ''rm'' = [] \<and> dget d ''err'' = [] \<and> \<not> isExcl (abs_path p) excl)"

lemma strict_prefix_snoc: "strict_prefix q (p @ [n]) \<longleftrightarrow> q = p \<or> strict_prefix q p"
  by (auto simp: strict_prefix_def prefix_snoc)

lemma compared_snoc: "compared t0 t1 (p @ [n]) \<longleftrightarrow> compared t0 t1 p \<and> both_dirs t0 t1 p"
  unfolding compared_def strict_prefix_snoc by blast

lemma compared_prefix: "compared t0 t1 q \<Longrightarrow> strict_prefix p q \<Longrightarrow> both_dirs t0 t1 p"
  by (simp add: compared_def)

section \<open>The files below a path\<close>

definition below :: "store \<Rightarrow> nat \<Rightarrow> string list \<Rightarrow> nat set" where
  "below h r p = {a. \<exists>q. prefix p q \<and> walks h r q a}"

text \<open>A store that differs from another in the children of the files in \<open>S\<close> only.\<close>

definition framed :: "nat set \<Rightarrow> store \<Rightarrow> store \<Rightarrow> bool" where
  "framed S h h' \<longleftrightarrow> length h \<le> length h' \<and>
     (\<forall>a<length h. fi_D (h' ! a) = fi_D (h ! a) \<and> (a \<notin> S \<longrightarrow> fi_Child (h' ! a) = fi_Child (h ! a)))"

lemma framed_refl [simp]: "framed S h h"
  by (simp add: framed_def)

lemma framed_trans: "framed S h h' \<Longrightarrow> framed S h' h'' \<Longrightarrow> framed S h h''"
  by (auto simp: framed_def)

lemma framed_mono: "framed S h h' \<Longrightarrow> S \<subseteq> S' \<Longrightarrow> framed S' h h'"
  by (auto simp: framed_def)

lemma below_bound: "store_wf h r \<Longrightarrow> a \<in> below h r p \<Longrightarrow> a < length h"
  by (auto simp: below_def dest: walks_bound)

lemma below_child: "below h r (p @ [n]) \<subseteq> below h r p"
  by (auto simp: below_def dest: append_prefixD)

lemma below_sibling:
  assumes "store_wf h r" and "n \<noteq> m"
  shows "below h r (p @ [n]) \<inter> below h r (p @ [m]) = {}"
proof -
  have "\<not> (prefix (p @ [n]) q \<and> prefix (p @ [m]) q)" for q
    using assms(2) by (auto simp: prefix_def)
  then show ?thesis unfolding below_def using walks_inj[OF assms(1)] by blast
qed

lemma below_parent: "store_wf h r \<Longrightarrow> walks h r p f \<Longrightarrow> f \<notin> below h r (p @ [n])"
  unfolding below_def using walks_inj by (auto simp: prefix_def) blast

lemma framed_Walk1:
  assumes wf: "store_wf h r" and fr: "framed S h h'" and f: "f < length h" "f \<notin> S"
  shows "Walk1 h' f n = Walk1 h f n"
proof -
  have "fi_D (h' ! f) = fi_D (h ! f)" "fi_Child (h' ! f) = fi_Child (h ! f)" using fr f by (auto simp: framed_def)
  moreover have "\<forall>c\<in>set (fi_Child (h ! f)). file_name h' c = file_name h c"
    using fr store_wfD(1)[OF wf f(1)] by (auto simp: framed_def file_name_def)
  then have "List.find (\<lambda>c. file_name h' c = n) (fi_Child (h ! f)) = List.find (\<lambda>c. file_name h c = n) (fi_Child (h ! f))"
    by (intro find_cong) auto
  ultimately show ?thesis unfolding Walk1_def by (simp split: option.split)
qed

text \<open>The names that the loop goes over are those of the children, each once.\<close>

lemma child_names_foldl:
  "distinct names \<Longrightarrow>
    distinct (foldl (\<lambda>names c1. if f c1 \<in> set names then names else names @ [f c1]) names cs) \<and>
    set (foldl (\<lambda>names c1. if f c1 \<in> set names then names else names @ [f c1]) names cs) = set names \<union> f ` set cs"
  by (induction cs arbitrary: names) auto

lemma child_names_set:
  assumes "store_wf h0 r0" and "f0 < length h0"
  shows "distinct (child_names h0 f0 h1 f1)"
    and "set (child_names h0 f0 h1 f1) = file_name h0 ` set (fi_Child (h0 ! f0)) \<union> file_name h1 ` set (fi_Child (h1 ! f1))"
  using child_names_foldl[of "map (file_name h0) (fi_Child (h0 ! f0))" "file_name h1" "fi_Child (h1 ! f1)"]
    store_wfD(2)[OF assms] by (auto simp: child_names_def strict_sorted_iff)

lemma add_dels_framed:
  assumes "f < length h"
  shows "framed {f} h (add_dels h f dels)"
  using assms by (auto simp: framed_def add_dels_def Let_def nth_list_update nth_append)

section \<open>The comparison\<close>

definition comparable :: "store \<Rightarrow> nat \<Rightarrow> store \<Rightarrow> nat \<Rightarrow> string list \<Rightarrow> bool" where
  "comparable h0 r0 h1 r1 excl \<longleftrightarrow> store_wf h0 r0 \<and> store_wf h1 r1 \<and>
     scanned excl (store_lookup h0 r0) \<and> scanned excl (store_lookup h1 r1)"

text \<open>The changes to send at the paths below \<open>p\<close>.\<close>

definition chgs_below ::
  "(string list \<Rightarrow> dir option) \<Rightarrow> (string list \<Rightarrow> dir option) \<Rightarrow> int \<Rightarrow> repl_where \<Rightarrow> string list \<Rightarrow> rchg set" where
  "chgs_below t0 t1 now w p = {c. \<exists>q. prefix p q \<and> compared t0 t1 q \<and> path_chg t0 t1 now w q = Some c}"

lemma chgs_below_leaf:
  assumes "compared t0 t1 p" and "\<not> both_dirs t0 t1 p"
  shows "chgs_below t0 t1 now w p = set_option (path_chg t0 t1 now w p)"
proof -
  have "compared t0 t1 q \<Longrightarrow> prefix p q \<Longrightarrow> q = p" for q
    using assms(2) by (auto simp: compared_def strict_prefix_def)
  then show ?thesis using assms(1) unfolding chgs_below_def by (auto simp: elem_set)
qed

lemma chgs_below_dir:
  assumes "compared t0 t1 p" and "both_dirs t0 t1 p"
    and "\<forall>n. n \<notin> N \<longrightarrow> t0 (p @ [n]) = None \<and> t1 (p @ [n]) = None"
  shows "chgs_below t0 t1 now w p = set_option (path_chg t0 t1 now w p) \<union> (\<Union>n\<in>N. chgs_below t0 t1 now w (p @ [n]))"
proof -
  have out: "chgs_below t0 t1 now w (p @ [n]) = {}" if "n \<notin> N" for n
    using assms that by (subst chgs_below_leaf) (auto simp: compared_snoc both_dirs_def path_chg_def)
  have "chgs_below t0 t1 now w p = set_option (path_chg t0 t1 now w p) \<union> (\<Union>n. chgs_below t0 t1 now w (p @ [n]))"
  proof (intro equalityI subsetI)
    fix c assume "c \<in> chgs_below t0 t1 now w p"
    then obtain q where q: "prefix p q" "compared t0 t1 q" "path_chg t0 t1 now w q = Some c" by (auto simp: chgs_below_def)
    show "c \<in> set_option (path_chg t0 t1 now w p) \<union> (\<Union>n. chgs_below t0 t1 now w (p @ [n]))"
    proof (cases "q = p")
      case False
      obtain zs where zs: "q = p @ zs" using q(1) by (auto simp: prefix_def)
      then obtain n qs where "zs = n # qs" using False by (cases zs) auto
      then have "prefix (p @ [n]) q" using zs by (auto simp: prefix_def)
      then show ?thesis using q by (auto simp: chgs_below_def)
    qed (use q in simp)
  next
    fix c assume "c \<in> set_option (path_chg t0 t1 now w p) \<union> (\<Union>n. chgs_below t0 t1 now w (p @ [n]))"
    then show "c \<in> chgs_below t0 t1 now w p"
      using assms(1) by (auto simp: chgs_below_def elem_set dest: append_prefixD)
  qed
  then show ?thesis using out by blast
qed

definition rec_ok ::
  "(nat \<Rightarrow> nat \<Rightarrow> store \<Rightarrow> (rchg list \<times> repl_error option \<times> store) option) \<Rightarrow> store \<Rightarrow> nat \<Rightarrow> store \<Rightarrow> nat \<Rightarrow>
     int \<Rightarrow> repl_where \<Rightarrow> string list \<Rightarrow> bool" where
  "rec_ok rec h0 r0 h1 r1 now w p \<longleftrightarrow>
     (\<forall>c0 c1 S h. walks h0 r0 p c0 \<longrightarrow> walks h1 r1 p c1 \<longrightarrow> framed S h1 h \<longrightarrow> S \<inter> below h1 r1 p = {} \<longrightarrow>
        (\<exists>cs h'. rec c0 c1 h = Some (cs, None, h') \<and> framed (below h1 r1 p) h h' \<and>
           set cs = chgs_below (store_lookup h0 r0) (store_lookup h1 r1) now w p))"

lemma names_loop_ok:
  assumes cmp: "comparable h0 r0 h1 r1 excl" and w0: "walks h0 r0 p f0" and w1: "walks h1 r1 p f1"
    and t0: "t0 = store_lookup h0 r0" and t1: "t1 = store_lookup h1 r1"
    and cp: "compared t0 t1 p" "both_dirs t0 t1 p"
  shows "distinct ns \<Longrightarrow> \<forall>n\<in>set ns. t0 (p @ [n]) \<noteq> None \<or> t1 (p @ [n]) \<noteq> None \<Longrightarrow>
    \<forall>n\<in>set ns. rec_ok rec h0 r0 h1 r1 now w (p @ [n]) \<Longrightarrow>
    framed S h1 h \<Longrightarrow> f1 \<notin> S \<Longrightarrow> \<forall>n\<in>set ns. S \<inter> below h1 r1 (p @ [n]) = {} \<Longrightarrow>
    \<exists>cs dels h'. names_loop rec h0 f0 f1 (chg_time t1 now p) w ns h = Some (cs, dels, h') \<and>
      framed (\<Union>n\<in>set ns. below h1 r1 (p @ [n])) h h' \<and>
      set cs = (\<Union>n\<in>set ns. chgs_below t0 t1 now w (p @ [n]))"
proof (induction ns arbitrary: S h)
  case (Cons n ns)
  have wf0: "store_wf h0 r0" and wf1: "store_wf h1 r1" and sc: "scanned excl t0" "scanned excl t1"
    using cmp by (auto simp: comparable_def t0 t1)
  note f1 = walks_bound[OF wf1 w1]
  let ?B = "\<lambda>n. below h1 r1 (p @ [n])"
  have W1: "Walk1 h f1 n = Walk1 h1 f1 n" by (rule framed_Walk1[OF wf1 Cons.prems(4) f1 Cons.prems(5)])
  have at: "walks hh rr (p @ [n]) c" if "Walk1 hh ff n = Inr c" "walks hh rr p ff" for hh rr ff c
    using that by (auto simp: walks_Walk1)
  have none: "\<not> (\<exists>c. walks hh rr (p @ [n]) c)" if "Walk1 hh ff n = Inl e" "walks hh rr p ff" for hh rr ff e
    using that unfolding walks_Walk1 by (metis walks_unique sum.distinct(1))
  have cn: "compared t0 t1 (p @ [n])" using cp by (simp add: compared_snoc)
  have IH: "\<exists>cs dels h''. names_loop rec h0 f0 f1 (chg_time t1 now p) w ns h' = Some (cs, dels, h'') \<and>
      framed (\<Union>n\<in>set ns. ?B n) h' h'' \<and> set cs = (\<Union>n\<in>set ns. chgs_below t0 t1 now w (p @ [n]))"
    if "framed (S \<union> ?B n) h1 h'" for h'
  proof (rule Cons.IH[OF _ _ _ that])
    show "f1 \<notin> S \<union> ?B n" using Cons.prems(5) below_parent[OF wf1 w1] by simp
    show "\<forall>m\<in>set ns. (S \<union> ?B n) \<inter> ?B m = {}"
    proof
      fix m assume m: "m \<in> set ns"
      then have "n \<noteq> m" using Cons.prems(1) by auto
      then have "?B n \<inter> ?B m = {}" by (rule below_sibling[OF wf1])
      then show "(S \<union> ?B n) \<inter> ?B m = {}" using Cons.prems(6) m by auto
    qed
  qed (use Cons.prems in auto)
  have same: "framed (S \<union> ?B n) h1 h" using Cons.prems(4) by (rule framed_mono) simp
  show ?case
  proof (cases "Walk1 h0 f0 n")
    case (Inl e0)
    note no0 = none[OF Inl w0]
    then have n0: "t0 (p @ [n]) = None" by (simp add: t0 store_lookup_None)
    moreover have "t0 (p @ [n]) \<noteq> None \<or> t1 (p @ [n]) \<noteq> None" using Cons.prems(2) by simp
    ultimately obtain d1 where d1: "t1 (p @ [n]) = Some d1" by blast
    then obtain c1 where c1: "walks h1 r1 (p @ [n]) c1" using store_lookup_None[of h1 r1 "p @ [n]"] unfolding t1 by (metis option.distinct(1))
    then have "Walk1 h1 f1 n = Inr c1" using walks_unique[OF w1] by (auto simp: walks_Walk1)
    moreover have "fi_D (h ! c1) = d1"
      using Cons.prems(4) walks_bound[OF wf1 c1] d1 store_lookup_Some[OF c1] by (simp add: framed_def t1)
    moreover have "dget d1 ''err'' = []" using sc(2) d1 by (auto simp: scanned_def)
    moreover have "chgs_below t0 t1 now w (p @ [n]) = {came d1 w}"
      using n0 d1 by (subst chgs_below_leaf[OF cn]) (simp_all add: both_dirs_def path_chg_def came_def)
    ultimately show ?thesis
      using IH[OF same] Inl W1 by (auto intro!: framed_mono[where S = "\<Union>n\<in>set ns. ?B n"])
  next
    case (Inr c0)
    have d0: "t0 (p @ [n]) = Some (fi_D (h0 ! c0))" using store_lookup_Some[OF at[OF Inr w0]] by (simp add: t0)
    show ?thesis
    proof (cases "Walk1 h1 f1 n")
      case (Inl e1)
      have n1: "t1 (p @ [n]) = None" using none[OF Inl w1] by (simp add: t1 store_lookup_None)
      have "dget (fi_D (h0 ! c0)) ''err'' = []" "dget (fi_D (h0 ! c0)) ''rm'' = []" using sc(1) d0 by (auto simp: scanned_def)
      moreover have "chgs_below t0 t1 now w (p @ [n]) = {mk_rchg ChgDel (chg_time t1 now p) (fi_D (h0 ! c0)) w}"
        using d0 n1 by (subst chgs_below_leaf[OF cn]) (simp_all add: both_dirs_def path_chg_def)
      ultimately show ?thesis
        using IH[OF same] Inl Inr W1 by (auto simp: Let_def intro!: framed_mono[where S = "\<Union>n\<in>set ns. ?B n"])
    next
      case (Inr c1)
      have ro: "rec_ok rec h0 r0 h1 r1 now w (p @ [n])" using Cons.prems(3) by simp
      obtain cs h' where r: "rec c0 c1 h = Some (cs, None, h')" "framed (?B n) h h'"
          "set cs = chgs_below t0 t1 now w (p @ [n])"
        using ro at[OF \<open>Walk1 h0 f0 n = Inr c0\<close> w0] at[OF Inr w1] Cons.prems(4,6)
        unfolding rec_ok_def t0 t1 by (metis list.set_intros(1))
      have "framed (S \<union> ?B n) h1 h'"
        using framed_trans[OF same framed_mono[OF r(2)]] by simp
      from IH[OF this] obtain cs' dels h'' where l: "names_loop rec h0 f0 f1 (chg_time t1 now p) w ns h' = Some (cs', dels, h'')"
          "framed (\<Union>n\<in>set ns. ?B n) h' h''" "set cs' = (\<Union>n\<in>set ns. chgs_below t0 t1 now w (p @ [n]))"
        by (elim exE conjE) (rule that)
      have "framed (\<Union>m\<in>set (n # ns). ?B m) h h''"
        by (rule framed_trans[OF framed_mono[OF r(2)] framed_mono[OF l(2)]]) auto
      moreover have "names_loop rec h0 f0 f1 (chg_time t1 now p) w (n # ns) h = Some (cs @ cs', dels, h'')"
        using r(1) l(1) \<open>Walk1 h0 f0 n = Inr c0\<close> Inr W1 by simp
      moreover have "set (cs @ cs') = (\<Union>m\<in>set (n # ns). chgs_below t0 t1 now w (p @ [m]))"
        using r(3) l(3) by simp
      ultimately show ?thesis by blast
    qed
  qed
qed simp

lemma file_changes_scanned:
  assumes sc: "scanned excl t0" "scanned excl t1" and d: "t0 p = Some d0" "t1 p = Some d1"
  shows "file_changes d0 d1 excl (chg_time t1 now p) w =
    (let cs = (case path_chg t0 t1 now w p of None \<Rightarrow> [] | Some c \<Rightarrow> [c]) in
     if both_dirs t0 t1 p then Inr cs else Inl (cs, None))"
proof -
  have e: "entry_at p d0" "entry_at p d1" "dget d0 ''rm'' = []" "dget d1 ''rm'' = []"
      "dget d0 ''err'' = []" "dget d1 ''err'' = []" "\<not> isExcl (abs_path p) excl"
    using sc d by (auto simp: scanned_def)
  have path: "dget d0 ''path'' = abs_path p" "dget d1 ''path'' = abs_path p" and root: "abs_path p = ''/'' \<longleftrightarrow> p = []"
    using e(1,2) abs_path_eq_root[of p] by (auto simp: entry_at_def list_all_iff)
  have bd: "both_dirs t0 t1 p \<longleftrightarrow> dget d0 ''type'' = ''d'' \<and> dget d1 ''type'' = ''d''"
    using d by (simp add: both_dirs_def)
  have dc: "dget d0 ''type'' \<noteq> dget d1 ''type'' \<Longrightarrow> dataChanged d0 d1" by (simp add: dataChanged_def)
  show ?thesis
    unfolding file_changes_def Let_def path root e(3-6) bd path_chg_def d option.case prod.case using e(7) dc
    by (cases "dget d0 ''type'' = dget d1 ''type''"; cases "dget d0 ''type'' = ''d''") simp_all
qed

lemma changes_ok:
  assumes cmp: "comparable h0 r0 h1 r1 excl"
    and t0: "t0 = store_lookup h0 r0" and t1: "t1 = store_lookup h1 r1"
  shows "walks h0 r0 p f0 \<Longrightarrow> walks h1 r1 p f1 \<Longrightarrow> compared t0 t1 p \<Longrightarrow> length h0 \<le> length p + k \<Longrightarrow>
    framed S h1 h \<Longrightarrow> S \<inter> below h1 r1 p = {} \<Longrightarrow>
    \<exists>cs h'. changes k h0 f0 h f1 excl (chg_time t1 now p) w = Some (cs, None, h') \<and>
      framed (below h1 r1 p) h h' \<and> set cs = chgs_below t0 t1 now w p"
proof (induction k arbitrary: p f0 f1 S h)
  case 0
  then show ?case using walks_length[of h0 r0 p f0] cmp by (simp add: comparable_def)
next
  case (Suc k)
  have wf0: "store_wf h0 r0" and wf1: "store_wf h1 r1" and sc: "scanned excl t0" "scanned excl t1"
    using cmp by (auto simp: comparable_def t0 t1)
  let ?B = "\<lambda>p. below h1 r1 p"
  define d0 d1 where "d0 = fi_D (h0 ! f0)" and "d1 = fi_D (h1 ! f1)"
  have d: "t0 p = Some d0" "t1 p = Some d1"
    using store_lookup_Some[OF Suc.prems(1)] store_lookup_Some[OF Suc.prems(2)] by (simp_all add: t0 t1 d0_def d1_def)
  note f0 = walks_bound[OF wf0 Suc.prems(1)] and f1 = walks_bound[OF wf1 Suc.prems(2)]
  have hd: "fi_D (h ! f1) = d1" using Suc.prems(5) f1 by (simp add: framed_def d1_def)
  have f1B: "f1 \<in> ?B p" using Suc.prems(2) by (auto simp: below_def)
  then have f1S: "f1 \<notin> S" using Suc.prems(6) by blast
  note fc = file_changes_scanned[OF sc d, of now w, unfolded Let_def]
  define cs where "cs = (case path_chg t0 t1 now w p of None \<Rightarrow> [] | Some c \<Rightarrow> [c])"
  have cs: "set cs = set_option (path_chg t0 t1 now w p)" by (cases "path_chg t0 t1 now w p") (simp_all add: cs_def)
  show ?case
  proof (cases "both_dirs t0 t1 p")
    case False
    then have "changes (Suc k) h0 f0 h f1 excl (chg_time t1 now p) w = Some (cs, None, h)"
      using fc by (simp add: hd d0_def[symmetric] cs_def)
    then show ?thesis using chgs_below_leaf[OF Suc.prems(3) False] cs by simp
  next
    case True
    define ns where "ns = child_names h0 f0 h f1"
    have fn: "\<forall>c\<in>set (fi_Child (h1 ! f1)). file_name h c = file_name h1 c"
      using Suc.prems(5) store_wfD(1)[OF wf1 f1] by (auto simp: framed_def file_name_def)
    have ch: "fi_Child (h ! f1) = fi_Child (h1 ! f1)" using Suc.prems(5) f1 f1S by (auto simp: framed_def)
    have ns: "distinct ns" "set ns = file_name h0 ` set (fi_Child (h0 ! f0)) \<union> file_name h1 ` set (fi_Child (h1 ! f1))"
      using child_names_set[OF wf0 f0, of h f1] fn unfolding ns_def ch by auto
    have in0: "t0 (p @ [n]) \<noteq> None \<longleftrightarrow> n \<in> file_name h0 ` set (fi_Child (h0 ! f0))" for n
    proof -
      have "t0 (p @ [n]) \<noteq> None \<longleftrightarrow> (\<exists>c. walks h0 r0 (p @ [n]) c)"
        unfolding t0 using store_lookup_None store_lookup_Some by (metis option.distinct(1))
      then show ?thesis unfolding walks_snoc[OF wf0] using Suc.prems(1) walks_unique by blast
    qed
    have in1: "t1 (p @ [n]) \<noteq> None \<longleftrightarrow> n \<in> file_name h1 ` set (fi_Child (h1 ! f1))" for n
    proof -
      have "t1 (p @ [n]) \<noteq> None \<longleftrightarrow> (\<exists>c. walks h1 r1 (p @ [n]) c)"
        unfolding t1 using store_lookup_None store_lookup_Some by (metis option.distinct(1))
      then show ?thesis unfolding walks_snoc[OF wf1] using Suc.prems(2) walks_unique by blast
    qed
    let ?rec = "\<lambda>c0 c1 h. changes k h0 c0 h c1 excl (zx_Time d1 ''mtime'') w"
    have ro: "rec_ok ?rec h0 r0 h1 r1 now w (p @ [n])" for n
      unfolding rec_ok_def
    proof (intro allI impI)
      fix c0 c1 S' h'
      assume a: "walks h0 r0 (p @ [n]) c0" "walks h1 r1 (p @ [n]) c1" "framed S' h1 h'" "S' \<inter> ?B (p @ [n]) = {}"
      have "chg_time t1 now (p @ [n]) = zx_Time d1 ''mtime''" using d by (simp add: chg_time_def)
      moreover have "compared t0 t1 (p @ [n])" using True Suc.prems(3) by (simp add: compared_snoc)
      ultimately show "\<exists>cs h''. ?rec c0 c1 h' = Some (cs, None, h'') \<and> framed (?B (p @ [n])) h' h'' \<and>
          set cs = chgs_below (store_lookup h0 r0) (store_lookup h1 r1) now w (p @ [n])"
        using Suc.IH[OF a(1,2) _ _ a(3,4)] Suc.prems(4) by (simp add: t0 t1)
    qed
    have "\<exists>cs' dels h'. names_loop ?rec h0 f0 f1 (chg_time t1 now p) w ns h = Some (cs', dels, h') \<and>
        framed (\<Union>n\<in>set ns. ?B (p @ [n])) h h' \<and> set cs' = (\<Union>n\<in>set ns. chgs_below t0 t1 now w (p @ [n]))"
    proof (rule names_loop_ok[OF cmp Suc.prems(1,2) t0 t1 Suc.prems(3) True ns(1)])
      show "\<forall>n\<in>set ns. t0 (p @ [n]) \<noteq> None \<or> t1 (p @ [n]) \<noteq> None" unfolding ns(2) using in0 in1 by auto
      show "\<forall>n\<in>set ns. S \<inter> ?B (p @ [n]) = {}" using Suc.prems(6) below_child by blast
    qed (use ro Suc.prems(5) f1S in auto)
    then obtain cs' dels h' where l: "names_loop ?rec h0 f0 f1 (chg_time t1 now p) w ns h = Some (cs', dels, h')"
        "framed (\<Union>n\<in>set ns. ?B (p @ [n])) h h'" "set cs' = (\<Union>n\<in>set ns. chgs_below t0 t1 now w (p @ [n]))"
      by blast
    have "changes (Suc k) h0 f0 h f1 excl (chg_time t1 now p) w = Some (cs @ cs', None, add_dels h' f1 dels)"
      using fc True l(1) by (simp add: hd d0_def[symmetric] cs_def ns_def)
    moreover have "framed (?B p) h (add_dels h' f1 dels)"
    proof -
      have "length h1 \<le> length h'" using l(2) Suc.prems(5) by (auto simp: framed_def)
      then have "framed {f1} h' (add_dels h' f1 dels)" using f1 by (intro add_dels_framed) simp
      then have "framed (?B p) h' (add_dels h' f1 dels)" by (rule framed_mono) (use f1B in simp)
      moreover have "framed (?B p) h h'" by (rule framed_mono[OF l(2)]) (use below_child in blast)
      ultimately show ?thesis by (metis framed_trans)
    qed
    moreover have "set (cs @ cs') = chgs_below t0 t1 now w p"
    proof -
      have "\<forall>n. n \<notin> set ns \<longrightarrow> t0 (p @ [n]) = None \<and> t1 (p @ [n]) = None"
        unfolding ns(2) using in0 in1 by (metis UnI1 UnI2)
      from chgs_below_dir[OF Suc.prems(3) True this] show ?thesis using cs l(3) by simp
    qed
    ultimately show ?thesis by blast
  qed
qed

lemma scanned_demo:
  assumes "list_all plain_el [nm]" and "\<not> isExcl (abs_path [''a'', nm]) excl" and "\<not> isExcl (abs_path [''a'']) excl"
  shows "scanned excl (db_lookup (demo_with nm))"
  using assms
  by (auto simp: scanned_def demo_lookup entry_at_def demo_entry_def dget_def abs_path_def plain_el_def wf_dir_def isExcl_def
      split: if_splits)

text \<open>
  C28: between two scanned databases \<open>changesFrom\<close> returns, with no error, and sends exactly the changes
  that their entries tell, at every path on the way to which both have directories: an addition where only
  the new one has an entry, a removal where only the old one has it, and where both have it the change of
  its type, of its data or of its attributes.
\<close>

theorem repl_changes_spec:
  assumes "db_wf db" and "db_wf ndb" and "db_lookup db [] \<noteq> None" and "db_lookup ndb [] \<noteq> None"
    and "scanned (db_Excl db @ db_Excl ndb) (db_lookup db)" and "scanned (db_Excl db @ db_Excl ndb) (db_lookup ndb)"
  shows "\<exists>cs ndb'. db_changesFrom (Some ndb) (Some db) now w = Some (cs, None, Some ndb') \<and>
    set cs = {c. \<exists>p. compared (db_lookup db) (db_lookup ndb) p \<and> path_chg (db_lookup db) (db_lookup ndb) now w p = Some c}"
proof -
  obtain r0 where r0: "db_Root db = Some r0" using assms(3) by (auto simp: db_lookup_def split: option.splits)
  obtain r1 where r1: "db_Root ndb = Some r1" using assms(4) by (auto simp: db_lookup_def split: option.splits)
  let ?h0 = "db_files db" and ?h1 = "db_files ndb"
  have t: "db_lookup db = store_lookup ?h0 r0" "db_lookup ndb = store_lookup ?h1 r1"
    by (simp_all add: db_lookup_def r0 r1 fun_eq_iff)
  have cmp: "comparable ?h0 r0 ?h1 r1 (db_Excl db @ db_Excl ndb)"
    using assms r0 r1 by (simp add: comparable_def db_wf_def t)
  have root: "dget (fi_D (?h0 ! r0)) ''path'' = ''/''" "dget (fi_D (?h1 ! r1)) ''path'' = ''/''"
    using assms(5,6) store_lookup_Some[of ?h0 r0 "[]"] store_lookup_Some[of ?h1 r1 "[]"]
    by (auto simp: scanned_def entry_at_def t abs_path_def)
  have "\<exists>cs h'. changes (length ?h0) ?h0 r0 ?h1 r1 (db_Excl db @ db_Excl ndb) (chg_time (db_lookup ndb) now []) w = Some (cs, None, h') \<and>
      framed (below ?h1 r1 []) ?h1 h' \<and> set cs = chgs_below (db_lookup db) (db_lookup ndb) now w []"
    by (rule changes_ok[OF cmp t, where S = "{}"]) (simp_all add: compared_def)
  then show ?thesis
    using root by (auto simp: db_changesFrom_def nil_db_def r0 r1 chgs_below_def chg_time_def)
qed

theorem repl_changes_spec_witness:
  "\<exists>cs ndb'. db_changesFrom (Some (demo_with ''c'')) (Some demo_db) 5 Local = Some (cs, None, Some ndb') \<and>
    set cs = {c. \<exists>p. compared (db_lookup demo_db) (db_lookup (demo_with ''c'')) p \<and>
      path_chg (db_lookup demo_db) (db_lookup (demo_with ''c'')) 5 Local p = Some c}"
proof (rule repl_changes_spec)
  let ?x = "db_Excl demo_db @ db_Excl (demo_with ''c'')"
  have x: "\<not> isExcl (abs_path [''a'', ''b'']) ?x" "\<not> isExcl (abs_path [''a'', ''c'']) ?x" "\<not> isExcl (abs_path [''a'']) ?x"
    by code_simp+
  show "scanned ?x (db_lookup demo_db)" "scanned ?x (db_lookup (demo_with ''c''))"
    unfolding demo_db_def using x by (auto intro!: scanned_demo simp: plain_el_def demo_db_def)
qed (simp_all add: demo_wf demo_lookup demo_db_def)

end
