(* ===== verification/ReplSync.thy ===== *)
theory ReplSync
  imports ReplCmpProps "HOL-Library.Multiset"
begin

text \<open>
  The changes of two replicas merged and resolved (src/zx/repl/tree.go): one change for a path, the latest.
\<close>

section \<open>Merging\<close>

definition c_key :: "rchg \<Rightarrow> string list" where
  "c_key c = zx_Elems (c_path c)"

text \<open>The reference: a merge by the elements of the paths.\<close>

fun chg_merge :: "rchg list \<Rightarrow> rchg list \<Rightarrow> rchg list" where
  "chg_merge (x # xs) (y # ys) =
     (if c_key x < c_key y then x # chg_merge xs (y # ys)
      else if c_key x = c_key y then x # y # chg_merge xs ys
      else y # chg_merge (x # xs) ys)"
| "chg_merge xs [] = xs"
| "chg_merge [] ys = ys"

lemma chg_merge_Nil [simp]: "chg_merge [] ys = ys"
  by (cases ys) auto

lemma mset_chg_merge: "mset (chg_merge xs ys) = mset xs + mset ys"
  by (induction xs ys rule: chg_merge.induct) (auto simp: ac_simps)

lemma set_chg_merge: "set (chg_merge xs ys) = set xs \<union> set ys"
  by (induction xs ys rule: chg_merge.induct) auto

lemma sorted_chg_merge:
  "sorted (map c_key xs) \<Longrightarrow> sorted (map c_key ys) \<Longrightarrow> sorted (map c_key (chg_merge xs ys))"
  by (induction xs ys rule: chg_merge.induct) (auto simp: set_chg_merge)

text \<open>Some changes are streamed: none of them is the change of no type.\<close>

definition real_chgs :: "rchg list \<Rightarrow> bool" where
  "real_chgs cs \<longleftrightarrow> (\<forall>c\<in>set cs. c_Type c \<noteq> ChgNone)"

lemma no_chg_Type [simp]: "c_Type no_chg = ChgNone" "held no_chg = []"
  by (simp_all add: no_chg_def held_def)

lemma held_Type: "c_Type c \<noteq> ChgNone \<Longrightarrow> held c = [c]" "c_Type c = ChgNone \<Longrightarrow> held c = []"
  by (simp_all add: held_def)

lemma merge_loop_refines:
  "real_chgs (held c1 @ pull) \<Longrightarrow> real_chgs (held c2 @ push) \<Longrightarrow>
    fst (merge_loop c1 c2 pull push perr qerr) = chg_merge (held c1 @ pull) (held c2 @ push)"
proof (induction c1 c2 pull push perr qerr rule: merge_loop.induct)
  case (1 c1 c2 pull push perr qerr)
  show ?case
  proof (cases "held c1 @ pull")
    case Nil
    then have "c_Type c1 = ChgNone" "pull = []" by (auto simp: held_def split: if_splits)
    then show ?thesis by (simp add: merge_loop.simps held_Type)
  next
    case (Cons x xs)
    note X = this
    then have n1: "\<not> (c_Type c1 = ChgNone \<and> pull = [])" by (auto simp: held_def)
    have p1: "(if c_Type c1 = ChgNone then (hd pull, tl pull) else (c1, pull)) = (x, xs)"
      using X by (auto simp: held_def split: if_splits)
    have x: "c_Type x \<noteq> ChgNone" "real_chgs xs" using 1(2) X by (auto simp: real_chgs_def)
    show ?thesis
    proof (cases "held c2 @ push")
      case Nil
      then have "c_Type c2 = ChgNone" "push = []" by (auto simp: held_def split: if_splits)
      then show ?thesis using X n1 p1 x by (subst merge_loop.simps) (simp add: held_Type Let_def del: not_None_eq)
    next
      case (Cons y ys)
      note Y = this
      then have n2: "\<not> (c_Type c2 = ChgNone \<and> push = [])" by (auto simp: held_def)
      have p2: "(if c_Type c2 = ChgNone then (hd push, tl push) else (c2, push)) = (y, ys)"
        using Y by (auto simp: held_def split: if_splits)
      have y: "c_Type y \<noteq> ChgNone" "real_chgs ys" using 1(3) Y by (auto simp: real_chgs_def)
      let ?cmp = "zx_PathCmp (c_path x) (c_path y)"
      let ?m = "merge_loop (if ?cmp \<le> 0 then no_chg else x) (if ?cmp \<ge> 0 then no_chg else y) xs ys perr qerr"
      have IH: "fst ?m = chg_merge (held (if ?cmp \<le> 0 then no_chg else x) @ xs) (held (if ?cmp \<ge> 0 then no_chg else y) @ ys)"
        using x y by (intro 1(1)[OF n1 p1[symmetric] refl n2 p2[symmetric] refl refl]) (auto simp: real_chgs_def held_def)
      have "merge_loop c1 c2 pull push perr qerr =
          ((if ?cmp \<le> 0 then [x] else []) @ (if ?cmp \<ge> 0 then [y] else []) @ fst ?m, snd ?m)"
        by (subst merge_loop.simps) (simp only: n1 n2 p1 p2 if_False Let_def prod.case_eq_if fst_conv snd_conv)
      moreover have "?cmp \<le> 0 \<longleftrightarrow> c_key x \<le> c_key y" "?cmp \<ge> 0 \<longleftrightarrow> c_key y \<le> c_key x"
        by (auto simp: zx_PathCmp_def zx_PathCmp_loop c_key_def not_less)
      ultimately show ?thesis
        unfolding X Y using IH by (cases "c_key x" "c_key y" rule: linorder_cases) (auto simp: held_Type x y)
    qed
  qed
qed

lemma tree_merge_refines:
  "real_chgs pull \<Longrightarrow> real_chgs push \<Longrightarrow> fst (tree_merge pull perr push qerr) = chg_merge pull push"
  using merge_loop_refines[of no_chg pull no_chg push] by (simp add: tree_merge_def)

section \<open>Resolving\<close>

text \<open>The latest of some changes, the last one when the times are the same.\<close>

fun latest :: "rchg list \<Rightarrow> rchg option" where
  "latest [] = None"
| "latest (c # cs) = Some (foldl (\<lambda>a c. if c_Time c < c_Time a then a else c) c cs)"

definition chg_at :: "rchg list \<Rightarrow> string \<Rightarrow> rchg option" where
  "chg_at cs p = List.find (\<lambda>c. c_path c = p) cs"

definition at_path :: "string \<Rightarrow> rchg list \<Rightarrow> rchg list" where
  "at_path p cs = filter (\<lambda>c. c_path c = p) cs"

text \<open>Paths as the scans give them.\<close>

definition good_path :: "string \<Rightarrow> bool" where
  "good_path p \<longleftrightarrow> (\<exists>es. list_all plain_el es \<and> p = abs_path es)"

lemma good_path_inj: "good_path p \<Longrightarrow> good_path q \<Longrightarrow> zx_Elems p = zx_Elems q \<Longrightarrow> p = q"
  by (auto simp: good_path_def zx_Elems_abs_path list_all_iff)

lemma resolve_loop_set: "c_Type l \<noteq> ChgNone \<Longrightarrow> real_chgs cs \<Longrightarrow> set (resolve_loop l cs) \<subseteq> insert l (set cs)"
proof (induction cs arbitrary: l)
  case (Cons c cs)
  then have "c_Type c \<noteq> ChgNone" "real_chgs cs" by (auto simp: real_chgs_def)
  then show ?case using Cons.IH[of l] Cons.IH[of c] Cons.prems(1) by auto
qed (simp add: held_def)

lemma first_less:
  assumes "sorted (map c_key (l # c # cs))" and "c_key l \<noteq> c_key c"
  shows "\<forall>c'\<in>set (c # cs). c_key l < c_key c'"
proof -
  have "c_key l < c_key c" "\<forall>c'\<in>set (c # cs). c_key c \<le> c_key c'" using assms by (simp_all add: order.strict_iff_order)
  then show ?thesis by (meson order.strict_trans2)
qed

lemma at_path_less: "\<forall>c'\<in>set cs. c_key c < c_key c' \<Longrightarrow> at_path (c_path c) cs = []"
  by (fastforce simp: at_path_def filter_empty_conv c_key_def)

lemma resolve_loop_sorted:
  assumes "c_Type l \<noteq> ChgNone" and "real_chgs cs" and "sorted (map c_key (l # cs))"
    and "\<forall>c\<in>set (l # cs). good_path (c_path c)"
  shows "sorted_wrt (<) (map c_key (resolve_loop l cs))"
  using assms
proof (induction cs arbitrary: l)
  case (Cons c cs)
  have r: "c_Type c \<noteq> ChgNone" "real_chgs cs" using Cons.prems(2) by (auto simp: real_chgs_def)
  show ?case
  proof (cases "c_path l = c_path c")
    case True
    then show ?thesis using Cons r by simp
  next
    case False
    have k: "c_key l \<noteq> c_key c" using good_path_inj[of "c_path l" "c_path c"] False Cons.prems(4) by (auto simp: c_key_def)
    have "\<forall>c'\<in>set (c # cs). c_key l < c_key c'" by (rule first_less[OF Cons.prems(3) k])
    then have "\<forall>c'\<in>set (resolve_loop c cs). c_key l < c_key c'" using resolve_loop_set[OF r] by auto
    then show ?thesis using Cons False r by simp
  qed
qed (simp add: held_def)

lemma resolve_loop_at:
  assumes "c_Type l \<noteq> ChgNone" and "real_chgs cs" and "sorted (map c_key (l # cs))"
    and "\<forall>c\<in>set (l # cs). good_path (c_path c)"
  shows "chg_at (resolve_loop l cs) p = latest (at_path p (l # cs))"
  using assms
proof (induction cs arbitrary: l)
  case (Cons c cs)
  have r: "c_Type c \<noteq> ChgNone" "real_chgs cs" using Cons.prems(2) by (auto simp: real_chgs_def)
  show ?case
  proof (cases "c_path l = c_path c")
    case True
    have "chg_at (resolve_loop l cs) p = latest (at_path p (l # cs))" "chg_at (resolve_loop c cs) p = latest (at_path p (c # cs))"
      using Cons r by simp_all
    then show ?thesis using True Cons.prems(1) by (auto simp: at_path_def)
  next
    case False
    have k: "c_key l \<noteq> c_key c" using good_path_inj[of "c_path l" "c_path c"] False Cons.prems(4) by (auto simp: c_key_def)
    have "\<forall>c'\<in>set (c # cs). c_key l < c_key c'" by (rule first_less[OF Cons.prems(3) k])
    then have "at_path (c_path l) (c # cs) = []" by (rule at_path_less)
    moreover have "chg_at (resolve_loop c cs) p = latest (at_path p (c # cs))" using Cons r by simp
    ultimately show ?thesis using False Cons.prems(1) by (auto simp: chg_at_def at_path_def)
  qed
qed (simp add: held_def chg_at_def at_path_def)

lemma resolve_no_chg: "real_chgs cs \<Longrightarrow> resolve_loop no_chg cs = (case cs of [] \<Rightarrow> [] | c # cs' \<Rightarrow> resolve_loop c cs')"
  by (cases cs) auto

section \<open>The changes to sync\<close>

text \<open>A stream of changes in the order of their paths, one for each.\<close>

definition chg_stream :: "rchg list \<Rightarrow> bool" where
  "chg_stream cs \<longleftrightarrow> real_chgs cs \<and> sorted_wrt (<) (map c_key cs) \<and> (\<forall>c\<in>set cs. good_path (c_path c))"

definition newer :: "rchg option \<Rightarrow> rchg option \<Rightarrow> rchg option" where
  "newer a b =
     (case (a, b) of
        (Some x, Some y) \<Rightarrow> Some (if c_Time y < c_Time x then x else y)
      | (None, _) \<Rightarrow> b
      | (_, None) \<Rightarrow> a)"

lemma at_path_sorted:
  "sorted_wrt (<) (map c_key cs) \<Longrightarrow> at_path p cs = (case chg_at cs p of None \<Rightarrow> [] | Some c \<Rightarrow> [c])"
proof (induction cs)
  case (Cons c cs)
  have "at_path (c_path c) cs = []" using Cons.prems by (intro at_path_less) simp
  then show ?case using Cons by (cases "c_path c = p") (auto simp: at_path_def chg_at_def)
qed (simp add: at_path_def chg_at_def)

lemma at_path_merge:
  "sorted_wrt (<) (map c_key xs) \<Longrightarrow> sorted_wrt (<) (map c_key ys) \<Longrightarrow>
    at_path p (chg_merge xs ys) = at_path p xs @ at_path p ys"
proof (induction xs ys rule: chg_merge.induct)
  case (1 x xs y ys)
  consider "c_key x < c_key y" | "c_key x = c_key y" | "c_key y < c_key x" using less_linear by blast
  then show ?case
  proof cases
    case 1
    then show ?thesis using "1.IH"(1) "1.prems" by (simp add: at_path_def)
  next
    case 2
    have "at_path (c_path y) xs = []" using "1.prems"(1) 2 by (intro at_path_less) simp
    then show ?thesis using "1.IH"(2) "1.prems" 2 by (auto simp: at_path_def)
  next
    case 3
    then have "\<forall>c\<in>set (x # xs). c_key y < c_key c" using "1.prems"(1) by (auto dest: order.strict_trans)
    then have "at_path (c_path y) (x # xs) = []" by (rule at_path_less)
    then show ?thesis using "1.IH"(3) "1.prems" 3 by (auto simp: at_path_def)
  qed
qed (simp_all add: at_path_def)

lemma sync_ordered:
  assumes "chg_stream pull" and "chg_stream push"
  shows "sorted_wrt (<) (map c_key (fst (tree_resolve (tree_merge pull perr push qerr))))"
    and "chg_at (fst (tree_resolve (tree_merge pull perr push qerr))) p = newer (chg_at pull p) (chg_at push p)"
proof -
  let ?m = "chg_merge pull push"
  have real: "real_chgs pull" "real_chgs push" and srt: "sorted_wrt (<) (map c_key pull)" "sorted_wrt (<) (map c_key push)"
    and gp: "\<forall>c\<in>set ?m. good_path (c_path c)"
    using assms by (auto simp: chg_stream_def set_chg_merge)
  have m: "real_chgs ?m" "sorted (map c_key ?m)"
    using real srt sorted_chg_merge by (auto simp: real_chgs_def set_chg_merge strict_sorted_iff)
  have out: "fst (tree_resolve (tree_merge pull perr push qerr)) = (case ?m of [] \<Rightarrow> [] | c # cs \<Rightarrow> resolve_loop c cs)"
    by (simp add: tree_resolve_def tree_merge_refines[OF real] resolve_no_chg[OF m(1)])
  show "sorted_wrt (<) (map c_key (fst (tree_resolve (tree_merge pull perr push qerr))))"
    unfolding out using m gp resolve_loop_sorted by (auto simp: real_chgs_def split: list.split)
  have "chg_at (case ?m of [] \<Rightarrow> [] | c # cs \<Rightarrow> resolve_loop c cs) p = latest (at_path p ?m)"
    using m gp resolve_loop_at by (auto simp: real_chgs_def chg_at_def at_path_def split: list.split)
  also have "\<dots> = newer (chg_at pull p) (chg_at push p)"
    unfolding at_path_merge[OF srt] at_path_sorted[OF srt(1)] at_path_sorted[OF srt(2)]
    by (simp add: newer_def split: option.split)
  finally show "chg_at (fst (tree_resolve (tree_merge pull perr push qerr))) p = newer (chg_at pull p) (chg_at push p)"
    unfolding out .
qed

text \<open>
  What the comments of \<open>resolve\<close> and \<open>Sync\<close> promise: the latest change of those at a path, where the changes of one
  replica below a path that the other adds, removes or replaces do not count.
\<close>

definition overrides :: "chgtype \<Rightarrow> bool" where
  "overrides t \<longleftrightarrow> t \<in> {ChgAdd, ChgDel, ChgDirFile}"

definition overridden :: "rchg list \<Rightarrow> string \<Rightarrow> bool" where
  "overridden cs p \<longleftrightarrow> (\<exists>c\<in>set cs. overrides (c_Type c) \<and>
     length (c_key c) < length (zx_Elems p) \<and> take (length (c_key c)) (zx_Elems p) = c_key c)"

definition wanted :: "rchg list \<Rightarrow> rchg list \<Rightarrow> string \<Rightarrow> rchg option" where
  "wanted pull push p =
     newer (if overridden push p then None else chg_at pull p) (if overridden pull p then None else chg_at push p)"

lemma chg_at_SomeD: "chg_at cs p = Some c \<Longrightarrow> c \<in> set cs \<and> c_path c = p"
  by (auto simp: chg_at_def find_Some_iff)

lemma wanted_newer:
  assumes "\<forall>c\<in>set pull. \<not> overridden push (c_path c)" and "\<forall>c\<in>set push. \<not> overridden pull (c_path c)"
  shows "wanted pull push p = newer (chg_at pull p) (chg_at push p)"
proof -
  have "chg_at pull p = None" if "overridden push p"
    using that assms(1) chg_at_SomeD[of pull p] by (cases "chg_at pull p") auto
  moreover have "chg_at push p = None" if "overridden pull p"
    using that assms(2) chg_at_SomeD[of push p] by (cases "chg_at push p") auto
  ultimately show ?thesis by (simp add: wanted_def)
qed

text \<open>
  C29: of the changes to pull and to push, when each stream is in the order of the paths with one change
  for a path, and neither has a change below a path that the other adds, removes or replaces, what \<open>Changes\<close> sends
  after merging and resolving them is in the order of the paths and is what the comments promise: one change for a
  path, the one there is, or of both the latest, and the one to push at the same time.  Where there is a change below
  a path that the other replica adds or removes, \<open>resolve\<close> does not do what its comment says, and sends both
  (\<open>repl_resolve_keeps_suffixes\<close>).
\<close>

theorem repl_Changes_latest:
  assumes "chg_stream pull" and "chg_stream push"
    and "\<forall>c\<in>set pull. \<not> overridden push (c_path c)" and "\<forall>c\<in>set push. \<not> overridden pull (c_path c)"
  shows "sorted_wrt (<) (map c_key (fst (tree_resolve (tree_merge pull perr push qerr)))) \<and>
    (\<forall>p. chg_at (fst (tree_resolve (tree_merge pull perr push qerr))) p = wanted pull push p)"
  using sync_ordered[OF assms(1,2)] wanted_newer[OF assms(3,4)] by simp

definition demo_chg :: "chgtype \<Rightarrow> int \<Rightarrow> string \<Rightarrow> repl_where \<Rightarrow> rchg" where
  "demo_chg t tm nm w = mk_rchg t tm (demo_entry (''/'' @ nm) nm ''-'') w"

lemma demo_chg_path: "c_path (demo_chg t tm nm w) = abs_path [nm]"
  by (simp add: demo_chg_def c_path_def mk_rchg_def demo_entry_def dget_def abs_path_def)

lemma demo_chg_key: "plain_el nm \<Longrightarrow> c_key (demo_chg t tm nm w) = [nm]"
  by (simp add: c_key_def demo_chg_path zx_Elems_abs_path)

lemma demo_chg_simps [simp]: "c_Type (demo_chg t tm nm w) = t" "c_Time (demo_chg t tm nm w) = tm"
  by (simp_all add: demo_chg_def mk_rchg_def)

lemma demo_good_path: "plain_el nm \<Longrightarrow> good_path (abs_path [nm])"
  by (auto simp: good_path_def intro!: exI[of _ "[nm]"])

lemma demo_stream:
  assumes "sorted_wrt (<) (map (\<lambda>(t, tm, nm). [nm]) cs)" and "\<forall>(t, tm, nm)\<in>set cs. t \<noteq> ChgNone \<and> plain_el nm"
  shows "chg_stream (map (\<lambda>(t, tm, nm). demo_chg t tm nm w) cs)"
proof -
  have k: "map c_key (map (\<lambda>(t, tm, nm). demo_chg t tm nm w) cs) = map (\<lambda>(t, tm, nm). [nm]) cs"
    using assms(2) by (auto simp: demo_chg_key)
  show ?thesis
    using assms unfolding chg_stream_def real_chgs_def k by (auto simp: demo_chg_path demo_good_path)
qed

theorem repl_Changes_latest_witness:
  "let pull = map (\<lambda>(t, tm, nm). demo_chg t tm nm Remote) [(ChgAdd, 3, ''a''), (ChgData, 9, ''b'')];
       push = map (\<lambda>(t, tm, nm). demo_chg t tm nm Local) [(ChgMeta, 5, ''b''), (ChgDel, 4, ''c'')];
       out = fst (tree_resolve (tree_merge pull None push None))
   in sorted_wrt (<) (map c_key out) \<and> (\<forall>p. chg_at out p = wanted pull push p)"
  unfolding Let_def
  by (rule repl_Changes_latest; (rule demo_stream)?)
    (simp_all add: plain_el_def overridden_def demo_chg_key demo_chg_path zx_Elems_abs_path)

section \<open>What the streams may be\<close>

text \<open>
  The names of the children are not sorted before the loop on them, and a new file comes after all those
  that were there: the changes are not in the order of the paths that \<open>merge\<close> takes them to be in.
\<close>

theorem repl_names_unsorted:
  "child_names (db_files demo_db) 1 (db_files (demo_with ''0'')) 1 = [''b'', ''0'']"
  by code_simp

text \<open>Then the changes at the same path of both replicas may pass each other, and both are applied.\<close>

theorem repl_both_applied:
  "map c_path (fst (tree_resolve (tree_merge
      [demo_chg ChgData 3 ''b'' Remote, demo_chg ChgAdd 3 ''a'' Remote] None
      [demo_chg ChgAdd 4 ''a'' Local, demo_chg ChgData 4 ''b'' Local] None))) = [''/a'', ''/b'', ''/a'']"
proof -
  have "fst (tree_merge
      [demo_chg ChgData 3 ''b'' Remote, demo_chg ChgAdd 3 ''a'' Remote] None
      [demo_chg ChgAdd 4 ''a'' Local, demo_chg ChgData 4 ''b'' Local] None) =
    [demo_chg ChgAdd 4 ''a'' Local, demo_chg ChgData 3 ''b'' Remote, demo_chg ChgData 4 ''b'' Local, demo_chg ChgAdd 3 ''a'' Remote]"
    by (subst tree_merge_refines) (simp_all add: real_chgs_def demo_chg_key plain_el_def)
  then show ?thesis by (simp add: tree_resolve_def demo_chg_path abs_path_def held_def)
qed

text \<open>The error of the changes to pull, when they end first, is lost.\<close>

theorem repl_merge_loses_error: "tree_merge [] (Some (RErr ''tree is void'')) [] None = ([], None)"
  by (simp add: tree_merge_def merge_loop.simps)

text \<open>
  A change below a path that the other replica removes is not discarded, though the comment promises it and the
  log says so.
\<close>

definition demo_below :: rchg where
  "demo_below = mk_rchg ChgData 3 (demo_entry ''/a/b'' ''b'' ''-'') Local"

theorem repl_resolve_keeps_suffixes:
  "fst (tree_resolve (tree_merge [demo_chg ChgDel 3 ''a'' Remote] None [demo_below] None)) =
    [demo_chg ChgDel 3 ''a'' Remote, demo_below] \<and>
   overridden [demo_chg ChgDel 3 ''a'' Remote] ''/a/b''"
proof -
  have b: "c_path demo_below = abs_path [''a'', ''b'']" "c_Type demo_below = ChgData" "c_Time demo_below = 3"
    by (simp_all add: demo_below_def c_path_def mk_rchg_def demo_entry_def dget_def abs_path_def)
  have k: "c_key demo_below = [''a'', ''b'']" "zx_Elems ''/a/b'' = [''a'', ''b'']"
    using zx_Elems_abs_path[of "[''a'', ''b'']"] by (simp_all add: c_key_def b plain_el_def abs_path_def)
  have "fst (tree_merge [demo_chg ChgDel 3 ''a'' Remote] None [demo_below] None) = [demo_chg ChgDel 3 ''a'' Remote, demo_below]"
    by (subst tree_merge_refines) (simp_all add: real_chgs_def demo_chg_key plain_el_def b k)
  moreover have "overridden [demo_chg ChgDel 3 ''a'' Remote] ''/a/b''"
    by (simp add: overridden_def overrides_def demo_chg_key plain_el_def k)
  ultimately show ?thesis by (simp add: tree_resolve_def demo_chg_path b abs_path_def held_def)
qed

end
