(* ===== verification/ReplApplyProps.thy ===== *)
theory ReplApplyProps
  imports ReplApply ReplSync
begin

text \<open>
  Applying a change updates both databases at its path, or neither of them and tells why.
\<close>

text \<open>A replica that can take an entry at a path.\<close>

definition takes_at :: "string list \<Rightarrow> replica \<Rightarrow> bool" where
  "takes_at p r \<longleftrightarrow> db_wf (re_db r) \<and> db_lookup (re_db r) (butlast p) \<noteq> None \<and> \<not> isExcl (abs_path p) (db_Excl (re_db r))"

definition re_lookup :: "replica \<Rightarrow> string list \<Rightarrow> dir option" where
  "re_lookup r = db_lookup (re_db r)"

lemma re_Add_ok:
  assumes "takes_at p r" and "entry_at p d" and "p \<noteq> []"
  shows "\<exists>r'. re_Add r d = Ret (None, r') \<and> re_lookup r' = tree_add p d (re_lookup r) \<and> db_wf (re_db r')"
proof -
  obtain r0 where "db_Root (re_db r) = Some r0"
    using assms(1) by (auto simp: takes_at_def db_lookup_def split: option.splits)
  then show ?thesis
    using db_Add_ok[of "re_db r" r0 p d] assms by (fastforce simp: takes_at_def re_Add_def re_lookup_def)
qed

lemma add_both_ok:
  assumes "takes_at p l" and "takes_at p r" and "entry_at p d" and "p \<noteq> []"
  shows "\<exists>l' r'. add_both l r d = Ret (None, l', r') \<and> re_lookup l' = tree_add p d (re_lookup l) \<and>
    re_lookup r' = tree_add p d (re_lookup r)"
  using re_Add_ok[OF assms(1,3,4)] re_Add_ok[OF assms(2,3,4)] by (auto simp: add_both_def)

text \<open>The replica that a change is made to, and the one that has it.\<close>

definition target :: "tree \<Rightarrow> rchg \<Rightarrow> replica" where
  "target t c = (if c_At c = Local then t_Rdb t else t_Ldb t)"

definition source :: "tree \<Rightarrow> rchg \<Rightarrow> replica" where
  "source t c = (if c_At c = Local then t_Ldb t else t_Rdb t)"

lemma tree_Apply_at:
  assumes "dget (c_dir c) ''err'' = []"
  shows "tree_Apply t c = go_map (\<lambda>(e, l, r). (e, if c_At c = Local then \<lparr>t_Ldb = r, t_Rdb = l\<rparr> else \<lparr>t_Ldb = l, t_Rdb = r\<rparr>))
    (apply_chg (target t c) c (source t c))"
  using assms by (simp add: tree_Apply_def target_def source_def)

text \<open>A change at a path that both replicas can take.\<close>

definition chg_ready :: "tree \<Rightarrow> string list \<Rightarrow> rchg \<Rightarrow> bool" where
  "chg_ready t p c \<longleftrightarrow> p \<noteq> [] \<and> takes_at p (t_Ldb t) \<and> takes_at p (t_Rdb t) \<and>
     entry_at p (c_dir c) \<and> dget (c_dir c) ''err'' = []"

lemma ready_path:
  assumes "chg_ready t p c"
  shows "c_path c = abs_path p" and "abs_path p \<noteq> ''/''" and "takes_at p (target t c)" and "takes_at p (source t c)"
    and "\<not> isExcl (c_path c) (db_Excl (re_db (target t c)))" and "\<not> isExcl (c_path c) (db_Excl (re_db (source t c)))"
  using assms abs_path_eq_root[of p]
  by (auto simp: chg_ready_def c_path_def entry_at_def takes_at_def target_def source_def list_all_iff)

lemma entry_at_dset: "entry_at p d \<Longrightarrow> k \<noteq> ''path'' \<Longrightarrow> k \<noteq> ''name'' \<Longrightarrow> entry_at p (dset d k v)"
  by (auto simp: entry_at_def)

text \<open>
  A removal whose \<open>RemoveAll\<close> succeeds, or says that there is no such file, returns no error; then
  both databases have the entry marked as removed at its path, nothing below it, and what they had elsewhere.
\<close>

theorem repl_Apply_Del:
  assumes "chg_ready t p c" and "c_Type c = ChgDel" and "fs_RemoveAll (re_fs (target t c)) = Some rmall"
    and "err = rmall (path_Join (re_rpath (target t c)) (abs_path p))" and "err = None \<or> zx_IsNotExist err"
    and "d = dset (c_dir c) ''rm'' ''y''"
  shows "\<exists>t'. tree_Apply t c = Ret (None, t') \<and>
    re_lookup (t_Ldb t') = (\<lambda>q. if q = p then Some d else if prefix p q then None else re_lookup (t_Ldb t) q) \<and>
    re_lookup (t_Rdb t') = (\<lambda>q. if q = p then Some d else if prefix p q then None else re_lookup (t_Rdb t) q)"
proof -
  note R = ready_path[OF assms(1)]
  let ?l = "target t c" and ?r = "source t c"
  have p: "p \<noteq> []" and e: "entry_at p d" and er: "dget (c_dir c) ''err'' = []"
    using assms(1,6) by (auto simp: chg_ready_def intro: entry_at_dset)
  have nc: "no_children d" by (simp add: assms(6) no_children_def)
  obtain l' where l: "re_Add ?l d = Ret (None, l')" "re_lookup l' = tree_add p d (re_lookup ?l)"
    using re_Add_ok[OF R(3) e p] by blast
  obtain r' where r: "re_Add ?r d = Ret (None, r')" "re_lookup r' = tree_add p d (re_lookup ?r)"
    using re_Add_ok[OF R(4) e p] by blast
  have "apply_chg ?l c ?r = applyDel ?l c ?r" using R(5,6) assms(2) by (simp add: apply_chg_def)
  also have "\<dots> = Ret (None, l', r')"
    using l(1) r(1) assms(3,5) R(2) unfolding applyDel_def R(1) assms(6)[symmetric]
    by (auto simp: Let_def assms(4)[symmetric])
  finally have "tree_Apply t c = Ret (None, if c_At c = Local then \<lparr>t_Ldb = r', t_Rdb = l'\<rparr> else \<lparr>t_Ldb = l', t_Rdb = r'\<rparr>)"
    by (simp add: tree_Apply_at[OF er])
  moreover have "tree_add p d f = (\<lambda>q. if q = p then Some d else if prefix p q then None else f q)" for f
    using nc by (simp add: tree_add_def fun_eq_iff)
  ultimately show ?thesis using l(2) r(2) by (auto simp: target_def source_def)
qed

definition demo_fs :: fsops where
  "demo_fs = \<lparr>fs_Wstat = Some (\<lambda>p d. (Some d, None)), fs_RemoveAll = Some (\<lambda>p. None),
     fs_FindGet = Some (\<lambda>p r. ([], None)), fs_Get = True, fs_Put = Some (\<lambda>p d. \<lparr>pr_takes = 1, pr_dcerr = None, pr_D = Some d, pr_err = None\<rparr>)\<rparr>"

definition demo_replica :: "string \<Rightarrow> replica" where
  "demo_replica nm = \<lparr>re_db = demo_with nm, re_rpath = ''/tmp'', re_fs = demo_fs\<rparr>"

definition demo_rtree :: tree where
  "demo_rtree = \<lparr>t_Ldb = demo_replica ''b'', t_Rdb = demo_replica ''c''\<rparr>"

definition demo_del :: rchg where
  "demo_del = mk_rchg ChgDel 7 (demo_entry ''/a/b'' ''b'' ''-'') Remote"

lemma demo_ready: "chg_ready demo_rtree [''a'', ''b''] demo_del"
proof -
  have x: "\<not> isExcl (abs_path [''a'', ''b'']) [''.Ctl'', ''.Chg'', ''.zx'']" by code_simp
  have "takes_at [''a'', ''b''] (demo_replica nm)" for nm
    using x by (simp add: takes_at_def demo_replica_def demo_wf demo_lookup) (simp add: demo_with_def)
  then show ?thesis
    by (simp add: chg_ready_def demo_rtree_def demo_del_def mk_rchg_def entry_at_def demo_entry_def dget_def abs_path_def
        plain_el_def wf_dir_def)
qed

theorem repl_Apply_Del_witness:
  "\<exists>t'. tree_Apply demo_rtree demo_del = Ret (None, t') \<and>
    re_lookup (t_Ldb t') = (\<lambda>q. if q = [''a'', ''b''] then Some (dset (c_dir demo_del) ''rm'' ''y'') else if prefix [''a'', ''b''] q then None
      else re_lookup (t_Ldb demo_rtree) q) \<and>
    re_lookup (t_Rdb t') = (\<lambda>q. if q = [''a'', ''b''] then Some (dset (c_dir demo_del) ''rm'' ''y'') else if prefix [''a'', ''b''] q then None
      else re_lookup (t_Rdb demo_rtree) q)"
  by (rule repl_Apply_Del[OF demo_ready, where rmall = "\<lambda>p. None", OF _ _ refl _ refl])
    (simp_all add: demo_del_def mk_rchg_def target_def demo_rtree_def demo_replica_def demo_fs_def)

text \<open>When the removal fails otherwise nothing is changed, and the error is returned.\<close>

theorem repl_Apply_Del_fails:
  assumes "chg_ready t p c" and "c_Type c = ChgDel" and "fs_RemoveAll (re_fs (target t c)) = Some rmall"
    and "rmall (path_Join (re_rpath (target t c)) (abs_path p)) = Some e" and "\<not> zx_IsNotExist (Some e)"
  shows "tree_Apply t c = Ret (Some (RErr e), t)"
proof -
  note R = ready_path[OF assms(1)]
  have "dget (c_dir c) ''err'' = []" using assms(1) by (simp add: chg_ready_def)
  moreover have "apply_chg (target t c) c (source t c) = Ret (Some (RErr e), target t c, source t c)"
    using R assms(2-5) by (simp add: apply_chg_def applyDel_def opt_err_def)
  ultimately show ?thesis by (cases t) (simp add: tree_Apply_at target_def source_def)
qed

text \<open>Changes of attributes and of data: both databases get the entry that the file system replied with.\<close>

lemma repl_Apply_Meta:
  assumes "chg_ready t p c" and "c_Type c = ChgMeta" and "fs_Wstat (re_fs (target t c)) = Some wstat"
    and "wstat (path_Join (re_rpath (target t c)) (abs_path p)) (c_dir c) = (Some rd, e)" and "wf_dir rd"
    and "d = dset (dset rd ''path'' (abs_path p)) ''name'' (last p)"
  shows "\<exists>t'. tree_Apply t c = Ret (None, t') \<and> re_lookup (t_Ldb t') = tree_add p d (re_lookup (t_Ldb t)) \<and>
    re_lookup (t_Rdb t') = tree_add p d (re_lookup (t_Rdb t))"
proof -
  note R = ready_path[OF assms(1)]
  have p: "p \<noteq> []" and er: "dget (c_dir c) ''err'' = []" and nm: "dget (c_dir c) ''name'' = last p"
    and d: "entry_at p d"
    using assms(1,5,6) by (auto simp: chg_ready_def entry_at_def)
  obtain l' r' where lr: "add_both (target t c) (source t c) d = Ret (None, l', r')"
      "re_lookup l' = tree_add p d (re_lookup (target t c))" "re_lookup r' = tree_add p d (re_lookup (source t c))"
    using add_both_ok[OF R(3,4) d p] by blast
  have "apply_chg (target t c) c (source t c) = Ret (None, l', r')"
    using R assms(2-4,6) lr(1) nm by (simp add: apply_chg_def applyMeta_def)
  then show ?thesis using lr(2,3) by (auto simp: tree_Apply_at[OF er] target_def source_def)
qed

end
