(* ===== verification/Opt.thy ===== *)
theory Opt
  imports GoConv "HOL-Library.Word"
begin

text \<open>
  Command line options (src/cmd/opt/opt.go).

  A flag holds a pointer to a value of one of several types; the value is kept in the flag here.  The
  functions \<open>Usage\<close> and \<open>Fatal\<close> print and end the program, which is a result of its own.
\<close>

section \<open>Ranges\<close>

record range =
  rg_P0 :: int
  rg_P1 :: int

datatype range_error = RangeP0 num_error | RangeP1 num_error

text \<open>\<open>SplitN\<close> in two at the first comma, and numbers of 64 bits.\<close>

definition ParseRange :: "string \<Rightarrow> range_error + range" where
  "ParseRange arg =
     (let toks = go_split2 (CHR '','') arg;
          toks1 = (if length toks = 1 then toks @ [toks ! 0] else toks);
          toks2 = (if length (toks1 ! 0) = 0 then toks1[0 := ''1''] else toks1);
          toks3 = (if length (toks2 ! 1) = 0 then toks2[1 := ''-1''] else toks2)
      in case go_atoi (toks3 ! 0) of
           (_, Some e) \<Rightarrow> Inl (RangeP0 e)
         | (p0, None) \<Rightarrow>
             (case go_atoi (toks3 ! 1) of
                (_, Some e) \<Rightarrow> Inl (RangeP1 e)
              | (p1, None) \<Rightarrow> Inr \<lparr>rg_P0 = p0, rg_P1 = p1\<rparr>))"

definition range_String :: "range \<Rightarrow> string" where
  "range_String r =
     (if rg_P0 r = rg_P1 r then go_format_int (rg_P0 r) 10
      else (let p0 = (if rg_P0 r \<noteq> 1 then go_format_int (rg_P0 r) 10 else []);
                p1 = (if rg_P1 r \<noteq> -1 then go_format_int (rg_P1 r) 10 else [])
            in p0 @ '','' @ p1))"

text \<open>The arithmetic of an \<open>int\<close> of 64 bits.\<close>

definition int64_of :: "int \<Rightarrow> int" where
  "int64_of n = (n + 2 ^ 63) mod 2 ^ 64 - 2 ^ 63"

definition range_Matches :: "range \<Rightarrow> int \<Rightarrow> int \<Rightarrow> bool" where
  "range_Matches a i n =
     (if n = 0 \<and> (rg_P0 a < 0 \<or> rg_P1 a < 0) then False
      else if rg_P0 a > 0 \<and> i < rg_P0 a then False
      else if rg_P1 a > 0 \<and> i > rg_P1 a then False
      else (let negi = int64_of (n - i + 1) in
        if rg_P0 a < 0 \<and> negi > int64_of (- rg_P0 a) then False
        else if rg_P1 a < 0 \<and> negi < int64_of (- rg_P1 a) then False
        else True))"

section \<open>Flags\<close>

text \<open>
  The values by their types; \<open>ONil\<close> is no pointer and \<open>OUnknown\<close> a type that is not known.  Numbers are of 64
  bits; durations and times are nanoseconds.
\<close>

datatype opt_val =
    OBool bool | OCounter int | OOctal int | OHexa int | OInt int | OInt64 int | OUint64 nat
  | OString string | OStrings "string list" | OFloat "64 word" | ODuration int | OTime int | ORange range
  | ONil | OUnknown

record opt_def =
  od_name :: string
  od_help :: string
  od_val :: opt_val
  od_argname :: string

text \<open>The map of definitions is a list, in the order in which Go goes over the map; no two have a name.\<close>

record opt_flags =
  o_Argv0 :: string
  o_usage :: string
  o_defs :: "opt_def list"
  o_plus :: "opt_def option"
  o_minus :: "opt_def option"
  o_xtra :: string

text \<open>What parsing the library has for floats, durations and times (in a format) is a parameter, and so are the
  arguments of the context of the command.\<close>

record opt_lib =
  lib_ParseFloat :: "string \<Rightarrow> 64 word option"
  lib_ParseDuration :: "string \<Rightarrow> int option"
  lib_ParseTime :: "string \<Rightarrow> string \<Rightarrow> int option"
  lib_Args :: "string list"

datatype opt_error =
    NoName | NoArgument string | WrongValue string string | UndefinedValue string | UnknownType string
  | UnknownOption rune | BadTime string | BadRange string | WrongPlus string string | WrongMinus string string

text \<open>A run of the program goes on with a value, or ends: after the usage, with the warning before it if any,
  or with a fatal error, or in a run-time panic.\<close>

datatype 'a opt_run = ORun 'a | OUsage "opt_error option" | OFatal string | OPanic

definition opt_New :: "string \<Rightarrow> opt_flags" where
  "opt_New usage = \<lparr>o_Argv0 = [], o_usage = usage, o_defs = [], o_plus = None, o_minus = None, o_xtra = []\<rparr>"

definition opt_AddUsage :: "opt_flags \<Rightarrow> string \<Rightarrow> opt_flags" where
  "opt_AddUsage f xtra = f\<lparr>o_xtra := o_xtra f @ xtra\<rparr>"

definition opt_lookup :: "opt_flags \<Rightarrow> string \<Rightarrow> opt_def option" where
  "opt_lookup f name = List.find (\<lambda>d. od_name d = name) (o_defs f)"

text \<open>The name of the argument of a flag: what the help has before a colon, or that of the type.\<close>

definition help_arg :: "string \<Rightarrow> string" where
  "help_arg help = (case go_index_byte help (CHR '':'') of Some i \<Rightarrow> take i help | None \<Rightarrow> [])"

fun type_arg :: "opt_val \<Rightarrow> string" where
  "type_arg (OBool _) = []"
| "type_arg (OCounter _) = []"
| "type_arg (OString _) = ''str''"
| "type_arg (OStrings _) = ''str''"
| "type_arg (ODuration _) = ''ival''"
| "type_arg (OTime _) = ''time''"
| "type_arg (ORange _) = ''range''"
| "type_arg _ = ''num''"

fun takes_no_arg :: "opt_val \<Rightarrow> bool" where
  "takes_no_arg (OBool _) = True"
| "takes_no_arg (OCounter _) = True"
| "takes_no_arg _ = False"

definition opt_NewFlag :: "opt_flags \<Rightarrow> string \<Rightarrow> string \<Rightarrow> opt_val \<Rightarrow> opt_flags opt_run" where
  "opt_NewFlag f name help vp =
     (if vp = ONil then OFatal (''flag '' @ name @ '': nil value'')
      else if length name = 0 then OFatal ''empty flag name''
      else if opt_lookup f name \<noteq> None then OFatal (''flag '' @ name @ '' redefined'')
      else if vp = OUnknown then OFatal (''flag '' @ name @ '': unknown flag type'')
      else (let aname = (if help_arg help = [] then type_arg vp else help_arg help);
                aname' = (if takes_no_arg vp then help_arg help else aname);
                d = \<lparr>od_name = name, od_help = help, od_val = vp, od_argname = aname'\<rparr>
            in case vp of
                 OInt _ \<Rightarrow>
                   if hd name = CHR ''+'' then
                     (if o_plus f \<noteq> None then OFatal ''flag +number redefined'' else ORun (f\<lparr>o_plus := Some d\<rparr>))
                   else if hd name = CHR ''-'' then
                     (if o_minus f \<noteq> None then OFatal ''flag -number redefined'' else ORun (f\<lparr>o_minus := Some d\<rparr>))
                   else ORun (f\<lparr>o_defs := o_defs f @ [d]\<rparr>)
               | _ \<Rightarrow>
                   if hd name = CHR ''+'' \<or> hd name = CHR ''-'' then OFatal ''name with a sign is only for int''
                   else ORun (f\<lparr>o_defs := o_defs f @ [d]\<rparr>)))"

section \<open>Usage\<close>

text \<open>Flags with no argument and a name of a single rune are shown together.\<close>

definition short_name :: "opt_def \<Rightarrow> bool" where
  "short_name d \<longleftrightarrow> go_rune_count (od_name d) = 1"

definition usage_one :: "opt_def \<Rightarrow> string" where
  "usage_one d =
     (if takes_no_arg (od_val d) \<and> short_name d then []
      else (case od_val d of
        OBool _ \<Rightarrow> '' [-'' @ od_name d @ '']''
      | OCounter _ \<Rightarrow> '' {-'' @ od_name d @ ''}''
      | v \<Rightarrow>
          (let arg0 = (case v of ORange _ \<Rightarrow> ''range'' | _ \<Rightarrow> ''arg'');
               arg = (case go_index_byte (od_help d) (CHR '':'') of Some i \<Rightarrow> take i (od_help d) | None \<Rightarrow> arg0)
           in case v of
                OStrings _ \<Rightarrow> '' {-'' @ od_name d @ '' '' @ arg @ ''}''
              | _ \<Rightarrow> '' [-'' @ od_name d @ '' '' @ arg @ '']'')))"

text \<open>\<open>optUsage\<close>, for the definitions in order: for \<open>minus\<close> it shows the name of \<open>plus\<close>.\<close>

definition optUsage :: "opt_flags \<Rightarrow> opt_def list \<Rightarrow> string go" where
  "optUsage f order =
     (let bools = concat (map od_name (filter (\<lambda>d. (case od_val d of OBool _ \<Rightarrow> True | _ \<Rightarrow> False) \<and> short_name d) order));
          counters = concat (map od_name (filter (\<lambda>d. (case od_val d of OCounter _ \<Rightarrow> True | _ \<Rightarrow> False) \<and> short_name d) order));
          s = (if bools \<noteq> [] then ''[-'' @ bools @ '']'' else []) @
              (if counters \<noteq> [] then '' {-'' @ counters @ ''}'' else []) @
              (case o_plus f of None \<Rightarrow> [] | Some d \<Rightarrow> '' [+'' @ od_name d @ '']'')
      in case o_minus f of
           None \<Rightarrow> Ret (s @ concat (map usage_one order))
         | Some _ \<Rightarrow>
             (case o_plus f of
                None \<Rightarrow> Panic
              | Some d \<Rightarrow> Ret (s @ '' [-'' @ od_name d @ '']'' @ concat (map usage_one order))))"

definition opt_Usage :: "opt_flags \<Rightarrow> opt_error option \<Rightarrow> 'a opt_run" where
  "opt_Usage f e = (case optUsage f (sort_key od_name (o_defs f)) of Panic \<Rightarrow> OPanic | Ret _ \<Rightarrow> OUsage e)"

section \<open>Parsing\<close>

definition tfmts :: "string list" where
  "tfmts = [''Jan 2'', ''01/02'', ''01/02/06'', ''01/02/2006'', ''Jan 2 2006'', ''2006/0102'', ''15:04:05'', ''15:04'',
     ''Jan 2 15:04'', ''3pm'', ''3:04pm'', ''Jan 2 3pm'', ''Jan 2 3:04pm'', ''01/02 15:04'', ''01/02/06 15:04'',
     ''01/02/2006 15:04'', ''2006/0102 15:04'', ''2006-01-02'', ''2006-01-02 3pm'', ''2006-01-02 3:04pm'',
     ''2006-01-02 15:04:05'', ''2006-01-02 15:04'']"

text \<open>The first format that the argument has.\<close>

fun parse_time_loop :: "opt_lib \<Rightarrow> string list \<Rightarrow> string \<Rightarrow> int option" where
  "parse_time_loop lib [] arg = None"
| "parse_time_loop lib (fmt # fmts) arg =
     (case lib_ParseTime lib fmt arg of Some t \<Rightarrow> Some t | None \<Rightarrow> parse_time_loop lib fmts arg)"

definition ParseTime :: "opt_lib \<Rightarrow> string \<Rightarrow> int option" where
  "ParseTime lib arg = parse_time_loop lib tfmts arg"

definition optArg :: "string list \<Rightarrow> (string list \<times> string) option" where
  "optArg argv =
     (let argv' = (if length argv > 0 \<and> length (hd argv) = 0 then tl argv else argv) in
      if length argv' = 0 then None else Some (tl argv', hd argv'))"

definition int_arg :: "(int \<Rightarrow> opt_val) \<Rightarrow> string \<Rightarrow> string \<Rightarrow> nat \<Rightarrow> opt_error + opt_val" where
  "int_arg mk name arg base =
     (case go_parse_int arg base of (_, Some _) \<Rightarrow> Inl (WrongValue name arg) | (v, None) \<Rightarrow> Inr (mk v))"

text \<open>The value for an argument, by the type of the value that was there.\<close>

fun arg_value :: "opt_lib \<Rightarrow> string \<Rightarrow> opt_val \<Rightarrow> string \<Rightarrow> opt_error + opt_val" where
  "arg_value lib name (OOctal _) arg = int_arg OOctal name arg 8"
| "arg_value lib name (OHexa _) arg = int_arg OHexa name arg 16"
| "arg_value lib name (OInt _) arg = int_arg OInt name arg 0"
| "arg_value lib name (OInt64 _) arg = int_arg OInt64 name arg 0"
| "arg_value lib name (OUint64 _) arg =
     (case go_parse_uint arg 0 of (_, Some _) \<Rightarrow> Inl (WrongValue name arg) | (v, None) \<Rightarrow> Inr (OUint64 v))"
| "arg_value lib name (OString _) arg = Inr (OString arg)"
| "arg_value lib name (OStrings ss) arg = Inr (OStrings (ss @ [arg]))"
| "arg_value lib name (OFloat _) arg =
     (case lib_ParseFloat lib arg of None \<Rightarrow> Inl (WrongValue name arg) | Some v \<Rightarrow> Inr (OFloat v))"
| "arg_value lib name (ODuration _) arg =
     (case lib_ParseDuration lib arg of None \<Rightarrow> Inl (WrongValue name arg) | Some v \<Rightarrow> Inr (ODuration v))"
| "arg_value lib name (OTime _) arg =
     (case ParseTime lib arg of None \<Rightarrow> Inl (BadTime name) | Some v \<Rightarrow> Inr (OTime v))"
| "arg_value lib name (ORange _) arg =
     (case ParseRange arg of Inl _ \<Rightarrow> Inl (BadRange name) | Inr r \<Rightarrow> Inr (ORange r))"
| "arg_value lib name _ arg = Inl (UnknownType name)"

definition flag_value :: "opt_val \<Rightarrow> opt_val" where
  "flag_value v = (case v of OBool _ \<Rightarrow> OBool True | OCounter n \<Rightarrow> OCounter (int64_of (n + 1)) | _ \<Rightarrow> v)"

text \<open>\<open>def.parse\<close>: the first argument has the name of the option and what follows, without the sign.\<close>

definition def_parse :: "opt_lib \<Rightarrow> opt_def \<Rightarrow> string list \<Rightarrow> opt_error + (opt_val \<times> string list)" where
  "def_parse lib d argv0 =
     (let v = od_val d; argv = argv0[0 := drop (length (od_name d)) (hd argv0)] in
      if v = ONil then Inl (UndefinedValue (od_name d))
      else if v = OUnknown then Inl (UnknownType (od_name d))
      else if takes_no_arg v then
        Inr (flag_value v, if length (hd argv) = 0 then tl argv else argv[0 := CHR ''-'' # hd argv])
      else (case optArg argv of
          None \<Rightarrow> Inl (NoArgument (od_name d))
        | Some (nargv, arg) \<Rightarrow>
            (case arg_value lib (od_name d) v arg of Inl e \<Rightarrow> Inl e | Inr v' \<Rightarrow> Inr (v', nargv))))"

text \<open>The arguments that are a number with a sign.\<close>

definition def_parsePlus :: "opt_def \<Rightarrow> string list \<Rightarrow> opt_error + (opt_val \<times> string list)" where
  "def_parsePlus d argv =
     (case go_parse_int (tl (hd argv)) 0 of
        (_, Some _) \<Rightarrow> Inl (WrongPlus (od_name d) (tl (hd argv)))
      | (v, None) \<Rightarrow> Inr (OInt v, tl argv))"

definition def_parseMinus :: "opt_def \<Rightarrow> string list \<Rightarrow> opt_error + (opt_val \<times> string list)" where
  "def_parseMinus d argv =
     (case go_parse_int (tl (hd argv)) 0 of
        (_, Some _) \<Rightarrow> Inl (WrongMinus (od_name d) (tl (hd argv)))
      | (v, None) \<Rightarrow> Inr (OInt (int64_of (- v)), tl argv))"

text \<open>The value of a flag is set.\<close>

definition set_value :: "opt_flags \<Rightarrow> string \<Rightarrow> opt_val \<Rightarrow> opt_flags" where
  "set_value f name v = f\<lparr>o_defs := map (\<lambda>d. if od_name d = name then d\<lparr>od_val := v\<rparr> else d) (o_defs f)\<rparr>"

text \<open>The option that an argument starts with: the one with the whole name or else the one with the first rune.\<close>

definition find_opt :: "opt_flags \<Rightarrow> string \<Rightarrow> opt_def option" where
  "find_opt f name =
     (case opt_lookup f name of
        Some d \<Rightarrow> Some d
      | None \<Rightarrow> opt_lookup f (take (snd (go_decode name)) name))"

definition is_digit :: "char \<Rightarrow> bool" where
  "is_digit c \<longleftrightarrow> CHR ''0'' \<le> c \<and> c \<le> CHR ''9''"

lemma find_opt_name: "find_opt f name = Some d \<Longrightarrow> name \<noteq> [] \<Longrightarrow> od_name d \<noteq> [] \<and> length (od_name d) \<le> length name"
  using go_decode_size[of name]
  by (auto simp: find_opt_def opt_lookup_def find_Some_iff split: option.splits)

definition args_size :: "string list \<Rightarrow> nat" where
  "args_size args = sum_list (map (\<lambda>a. Suc (length a)) args)"

lemma optArg_size: "optArg argv = Some (nargv, arg) \<Longrightarrow> args_size nargv < args_size argv"
  by (cases argv; cases "tl argv") (auto simp: optArg_def args_size_def split: if_splits)

lemma def_parse_size:
  assumes "def_parse lib d (name # args) = Inr (v, args')" and "od_name d \<noteq> []" and "length (od_name d) \<le> length name"
  shows "args_size args' < Suc (args_size (name # args))"
proof -
  have "length (drop (length (od_name d)) name) < length name" using assms(2,3) by (cases name; cases "od_name d") auto
  then show ?thesis
    using assms(1) optArg_size[of "drop (length (od_name d)) name # args"]
    by (auto simp: def_parse_def Let_def args_size_def split: if_splits option.splits sum.splits dest: less_trans)
qed

function parse_loop :: "opt_lib \<Rightarrow> opt_flags \<Rightarrow> string list \<Rightarrow> (opt_flags \<times> string list) opt_run" where
  "parse_loop lib f args =
     (case args of
        [] \<Rightarrow> ORun (f, [])
      | a # as \<Rightarrow>
          if a = [] \<or> hd a \<noteq> CHR ''-'' \<and> hd a \<noteq> CHR ''+'' then ORun (f, args)
          else if a = ''-?'' then opt_Usage f None
          else if o_plus f \<noteq> None \<and> hd a = CHR ''+'' then
            (case def_parsePlus (the (o_plus f)) args of
               Inl e \<Rightarrow> opt_Usage f (Some e)
             | Inr (v, _) \<Rightarrow> parse_loop lib (f\<lparr>o_plus := Some ((the (o_plus f))\<lparr>od_val := v\<rparr>)\<rparr>) as)
          else if o_minus f \<noteq> None \<and> length a > 1 \<and> is_digit (a ! 1) then
            (case def_parseMinus (the (o_minus f)) args of
               Inl e \<Rightarrow> opt_Usage f (Some e)
             | Inr (v, _) \<Rightarrow> parse_loop lib (f\<lparr>o_minus := Some ((the (o_minus f))\<lparr>od_val := v\<rparr>)\<rparr>) as)
          else (let name = tl a in
            if name = [] then opt_Usage f (Some NoName)
            else if name = ''-'' then ORun (f, as)
            else (case find_opt f name of
                None \<Rightarrow> opt_Usage f (Some (UnknownOption (fst (go_decode name))))
              | Some d \<Rightarrow>
                  (case def_parse lib d (name # as) of
                     Inl e \<Rightarrow> opt_Usage f (Some e)
                   | Inr (v, args') \<Rightarrow> parse_loop lib (set_value f (od_name d) v) args'))))"
  by pat_completeness auto
termination
proof (relation "measure (\<lambda>(lib, f, args). args_size args)", goal_cases)
  case 4
  then show ?case using find_opt_name def_parse_size by (fastforce simp: args_size_def)
qed (auto simp: args_size_def)

declare parse_loop.simps [simp del]

text \<open>\<open>Parse\<close>; the argument vector starts with the name of the program, and without one it is that of the context.\<close>

definition opt_Parse :: "opt_lib \<Rightarrow> opt_flags \<Rightarrow> string list \<Rightarrow> (opt_flags \<times> string list) opt_run" where
  "opt_Parse lib f argv =
     (case (if argv = [] then lib_Args lib else argv) of
        [] \<Rightarrow> OPanic
      | a # args \<Rightarrow> parse_loop lib (f\<lparr>o_Argv0 := a\<rparr>) args)"

end
