(* ===== verification/OptProps.thy ===== *)
theory OptProps
  imports Opt
begin

text \<open>
  Ranges are parsed back as they are printed and select the items they say; options given as separate
  words set the values of their flags, and the arguments after them are returned.
\<close>

section \<open>Ranges\<close>

lemma format_no_comma: "CHR '','' \<notin> set (go_format_int n 10)"
proof
  assume c: "CHR '','' \<in> set (go_format_int n 10)"
  then have "CHR '','' \<in> set (go_digits 10 (nat (if n < 0 then - n else n)))"
    by (auto simp: go_format_int_def split: if_splits)
  from go_digits_set[OF _ _ this] show False by simp
qed

lemma split2_no_comma: "c \<notin> set s \<Longrightarrow> go_split2 c s = [s]"
  by (induction s) auto

lemma split2_comma: "c \<notin> set s \<Longrightarrow> go_split2 c (s @ c # t) = [s, t]"
  by (induction s) auto

lemma format_int_nonempty: "go_format_int n 10 \<noteq> []"
  by (simp add: go_format_int_def)

lemma atoi_defaults: "go_atoi ''1'' = (1, None)" "go_atoi ''-1'' = (- 1, None)"
  by (simp_all add: go_atoi_def go_parse_int_def go_parse_uint_def digit_val_def)

text \<open>
  A range whose numbers are of 64 bits is parsed back by \<open>ParseRange\<close> from what \<open>String\<close> prints.
\<close>

theorem opt_range_roundtrip:
  assumes "- (2 ^ 63) \<le> rg_P0 r" and "rg_P0 r < 2 ^ 63" and "- (2 ^ 63) \<le> rg_P1 r" and "rg_P1 r < 2 ^ 63"
  shows "ParseRange (range_String r) = Inr r"
proof -
  have a: "go_atoi (go_format_int (rg_P0 r) 10) = (rg_P0 r, None)" "go_atoi (go_format_int (rg_P1 r) 10) = (rg_P1 r, None)"
    using assms by (simp_all add: go_atoi_format)
  show ?thesis
  proof (cases "rg_P0 r = rg_P1 r")
    case True
    then show ?thesis using a
      by (cases r) (simp add: range_String_def ParseRange_def split2_no_comma[OF format_no_comma] format_int_nonempty Let_def)
  next
    case False
    let ?p0 = "if rg_P0 r \<noteq> 1 then go_format_int (rg_P0 r) 10 else []"
    let ?p1 = "if rg_P1 r \<noteq> -1 then go_format_int (rg_P1 r) 10 else []"
    have "range_String r = ?p0 @ CHR '','' # ?p1" using False by (simp add: range_String_def Let_def)
    moreover have "go_split2 (CHR '','') (?p0 @ CHR '','' # ?p1) = [?p0, ?p1]"
      using format_no_comma by (intro split2_comma) simp
    ultimately show ?thesis using a
      by (cases r) (simp add: ParseRange_def format_int_nonempty Let_def atoi_defaults)
  qed
qed

theorem opt_range_roundtrip_witness:
  "ParseRange (range_String \<lparr>rg_P0 = 1, rg_P1 = -3\<rparr>) = Inr \<lparr>rg_P0 = 1, rg_P1 = -3\<rparr>"
  by (rule opt_range_roundtrip) simp_all

text \<open>The item a bound of a range stands for, out of \<open>n\<close>: negative bounds count from the end.\<close>

definition bound_item :: "int \<Rightarrow> int \<Rightarrow> int" where
  "bound_item n p = (if p < 0 then n + 1 + p else p)"

lemma int64_of_id: "- (2 ^ 63) \<le> n \<Longrightarrow> n < 2 ^ 63 \<Longrightarrow> int64_of n = n"
  by (simp add: int64_of_def)

text \<open>
  C32: out of \<open>n\<close> items, from 1 on, a range matches those from the one its first bound stands for to the one its second
  bound stands for, negative bounds counting from the end; a bound of 0 is no bound.  So \<open>1,-1\<close>, what \<open>ParseRange\<close>
  gives for no bounds, is everything, and \<open>1,1\<close>, that the comment of \<open>Range\<close> says is, only the first item.
\<close>

theorem opt_range_Matches:
  assumes "1 \<le> i" and "i \<le> n" and "n < 2 ^ 63" and "- (2 ^ 63) < rg_P0 r" and "- (2 ^ 63) < rg_P1 r"
  shows "range_Matches r i n \<longleftrightarrow>
    (rg_P0 r = 0 \<or> bound_item n (rg_P0 r) \<le> i) \<and> (rg_P1 r = 0 \<or> i \<le> bound_item n (rg_P1 r))"
proof -
  have n: "int64_of (n - i + 1) = n - i + 1" using assms(1-3) by (intro int64_of_id) simp_all
  have p: "rg_P0 r < 0 \<Longrightarrow> int64_of (- rg_P0 r) = - rg_P0 r" "rg_P1 r < 0 \<Longrightarrow> int64_of (- rg_P1 r) = - rg_P1 r"
    using assms(4,5) by (intro int64_of_id; simp)+
  have "n \<noteq> 0" using assms by simp
  then show ?thesis
    unfolding range_Matches_def bound_item_def n Let_def
    by (cases "rg_P0 r < 0"; cases "rg_P1 r < 0") (auto simp: p)
qed

theorem opt_range_Matches_witness:
  "range_Matches \<lparr>rg_P0 = 2, rg_P1 = -2\<rparr> 4 5 \<longleftrightarrow>
    (rg_P0 \<lparr>rg_P0 = 2, rg_P1 = -2\<rparr> = 0 \<or> bound_item 5 (rg_P0 \<lparr>rg_P0 = 2, rg_P1 = -2\<rparr>) \<le> 4) \<and>
    (rg_P1 \<lparr>rg_P0 = 2, rg_P1 = -2\<rparr> = 0 \<or> 4 \<le> bound_item 5 (rg_P1 \<lparr>rg_P0 = 2, rg_P1 = -2\<rparr>))"
  by (rule opt_range_Matches) simp_all

section \<open>Options\<close>

text \<open>A setting: the name of an option, and its argument if it takes one.  The words it is given with.\<close>

type_synonym setting = "string \<times> string option"

definition setting_words :: "setting \<Rightarrow> string list" where
  "setting_words s = (CHR ''-'' # fst s) # (case snd s of None \<Rightarrow> [] | Some arg \<Rightarrow> [arg])"

text \<open>The value that a setting gives to a flag.\<close>

definition setting_value :: "opt_lib \<Rightarrow> opt_flags \<Rightarrow> setting \<Rightarrow> opt_val option" where
  "setting_value lib f s =
     (case opt_lookup f (fst s) of
        None \<Rightarrow> None
      | Some d \<Rightarrow>
          (case snd s of
             None \<Rightarrow> if takes_no_arg (od_val d) then Some (flag_value (od_val d)) else None
           | Some arg \<Rightarrow>
               if takes_no_arg (od_val d) then None
               else (case arg_value lib (fst s) (od_val d) arg of Inl e \<Rightarrow> None | Inr v \<Rightarrow> Some v)))"

text \<open>The flags after some settings, when each of them has a value.\<close>

fun settings_flags :: "opt_lib \<Rightarrow> opt_flags \<Rightarrow> setting list \<Rightarrow> opt_flags option" where
  "settings_flags lib f [] = Some f"
| "settings_flags lib f (s # ss) =
     (case setting_value lib f s of None \<Rightarrow> None | Some v \<Rightarrow> settings_flags lib (set_value f (fst s) v) ss)"

definition option_name :: "string \<Rightarrow> bool" where
  "option_name n \<longleftrightarrow> n \<noteq> [] \<and> n \<noteq> ''-'' \<and> n \<noteq> ''?''"

lemma od_name_lookup: "opt_lookup f n = Some d \<Longrightarrow> od_name d = n"
  by (auto simp: opt_lookup_def find_Some_iff)

lemma setting_parse:
  assumes "setting_value lib f s = Some v" and "opt_lookup f (fst s) = Some d"
  shows "def_parse lib d (fst s # (case snd s of None \<Rightarrow> [] | Some arg \<Rightarrow> [arg]) @ rest) = Inr (v, rest)"
proof (cases "snd s")
  case None
  then have t: "takes_no_arg (od_val d)" and v: "v = flag_value (od_val d)"
    using assms by (auto simp: setting_value_def split: if_splits)
  then have "od_val d \<noteq> ONil" "od_val d \<noteq> OUnknown" by auto
  then show ?thesis using None t v by (simp add: def_parse_def od_name_lookup[OF assms(2)])
next
  case (Some arg)
  then have t: "\<not> takes_no_arg (od_val d)" and v: "arg_value lib (fst s) (od_val d) arg = Inr v"
    using assms by (auto simp: setting_value_def split: if_splits sum.splits)
  then have "od_val d \<noteq> ONil" "od_val d \<noteq> OUnknown" by auto
  then show ?thesis using Some t v by (simp add: def_parse_def od_name_lookup[OF assms(2)] optArg_def)
qed

text \<open>The name is not taken for a number, if there is an option for \<open>-number\<close>.\<close>

definition not_number :: "opt_flags \<Rightarrow> string \<Rightarrow> bool" where
  "not_number f n \<longleftrightarrow> o_minus f = None \<or> \<not> is_digit (hd n)"

lemma set_value_minus [simp]: "o_minus (set_value f n v) = o_minus f" "o_plus (set_value f n v) = o_plus f"
  "not_number (set_value f n v) w = not_number f w"
  by (simp_all add: set_value_def not_number_def)

lemma parse_word:
  assumes v: "setting_value lib f s = Some v" and n: "option_name (fst s)" and m: "not_number f (fst s)"
  shows "parse_loop lib f (setting_words s @ rest) = parse_loop lib (set_value f (fst s) v) rest"
proof -
  obtain d where d: "opt_lookup f (fst s) = Some d" using v by (auto simp: setting_value_def split: option.splits)
  have "find_opt f (fst s) = Some d" by (simp add: find_opt_def d)
  then show ?thesis
    using n m setting_parse[OF v d, of rest]
    by (subst parse_loop.simps) (auto simp: setting_words_def option_name_def not_number_def od_name_lookup[OF d] hd_conv_nth)
qed

lemma settings_loop:
  "settings_flags lib f ss = Some f' \<Longrightarrow> \<forall>s\<in>set ss. option_name (fst s) \<and> not_number f (fst s) \<Longrightarrow>
    parse_loop lib f (concat (map setting_words ss) @ rest) = parse_loop lib f' rest \<and> o_minus f' = o_minus f \<and> o_plus f' = o_plus f"
proof (induction ss arbitrary: f)
  case (Cons s ss)
  then obtain v where v: "setting_value lib f s = Some v" "settings_flags lib (set_value f (fst s) v) ss = Some f'"
    by (auto split: option.splits)
  then show ?case using Cons parse_word[OF v(1), of "concat (map setting_words ss) @ rest"] by simp
qed simp

text \<open>Why a setting is refused: there is no such flag, its argument is missing or it is not one for the flag.\<close>

definition setting_error :: "opt_lib \<Rightarrow> opt_flags \<Rightarrow> setting \<Rightarrow> opt_error option" where
  "setting_error lib f s =
     (case find_opt f (fst s) of
        None \<Rightarrow> Some (UnknownOption (fst (go_decode (fst s))))
      | Some d \<Rightarrow>
          if od_name d \<noteq> fst s then None
          else if od_val d = ONil then Some (UndefinedValue (fst s))
          else if od_val d = OUnknown then Some (UnknownType (fst s))
          else if takes_no_arg (od_val d) then None
          else (case snd s of
             None \<Rightarrow> Some (NoArgument (fst s))
           | Some arg \<Rightarrow> (case arg_value lib (fst s) (od_val d) arg of Inl e \<Rightarrow> Some e | Inr v \<Rightarrow> None)))"

lemma parse_refused:
  assumes e: "setting_error lib f s = Some e" and n: "option_name (fst s)" and m: "not_number f (fst s)"
    and r: "snd s = None \<Longrightarrow> rest = []"
  shows "parse_loop lib f (setting_words s @ rest) = opt_Usage f (Some e)"
proof (cases "find_opt f (fst s)")
  case None
  then show ?thesis using e n m
    by (subst parse_loop.simps) (auto simp: setting_words_def setting_error_def option_name_def not_number_def hd_conv_nth)
next
  case (Some d)
  have nm: "od_name d = fst s" using e Some by (auto simp: setting_error_def split: if_splits)
  have "def_parse lib d (fst s # (case snd s of None \<Rightarrow> [] | Some arg \<Rightarrow> [arg]) @ rest) = Inl e"
    using e Some nm r
    by (auto simp: setting_error_def def_parse_def optArg_def Let_def split: if_splits option.splits sum.splits)
  then show ?thesis using n m Some
    by (subst parse_loop.simps) (auto simp: setting_words_def option_name_def not_number_def hd_conv_nth)
qed

lemma Usage_value:
  "opt_Usage f e = (if o_minus f \<noteq> None \<and> o_plus f = None then OPanic else OUsage e)"
  by (auto simp: opt_Usage_def optUsage_def Let_def split: option.splits)

text \<open>
  C30: in a program with no option for \<open>-number\<close>, options given as words of their own, each with its argument in the next
  word if it takes one, and then \<open>--\<close>: \<open>Parse\<close> sets the values of those flags, in order, and returns the arguments after
  the \<open>--\<close>, whatever they are.
\<close>

theorem opt_Parse_settings:
  assumes "settings_flags lib (f\<lparr>o_Argv0 := a\<rparr>) ss = Some f'" and "\<forall>s\<in>set ss. option_name (fst s)" and "o_minus f = None"
  shows "opt_Parse lib f (a # concat (map setting_words ss) @ ''--'' # rest) = ORun (f', rest)"
proof -
  have n: "\<forall>s\<in>set ss. option_name (fst s) \<and> not_number (f\<lparr>o_Argv0 := a\<rparr>) (fst s)" using assms(2,3) by (simp add: not_number_def)
  have "parse_loop lib f' (''--'' # rest) = ORun (f', rest)"
    using settings_loop[OF assms(1) n] assms(3) by (subst parse_loop.simps) simp
  then show ?thesis using settings_loop[OF assms(1) n, of "''--'' # rest"] by (simp add: opt_Parse_def)
qed

text \<open>
  C31: after settings that are done, one that is refused (there is no such flag, its argument is missing at the end of the
  words, or it is not a value for the flag) ends \<open>Parse\<close> with the usage and its error, whatever follows; except in a
  program that has an option for \<open>-number\<close> and none for \<open>+number\<close>, where it ends in a panic of the usage.  The names
  given are not numbers, if there is an option for \<open>-number\<close>.
\<close>

theorem opt_Parse_refuses:
  assumes "settings_flags lib (f\<lparr>o_Argv0 := a\<rparr>) ss = Some f'" and "setting_error lib f' s = Some e"
    and "\<forall>s\<in>set (ss @ [s]). option_name (fst s) \<and> not_number f (fst s)" and "snd s = None \<Longrightarrow> rest = []"
  shows "opt_Parse lib f (a # concat (map setting_words ss) @ setting_words s @ rest) =
    (if o_minus f \<noteq> None \<and> o_plus f = None then OPanic else OUsage (Some e))"
proof -
  have n: "\<forall>s\<in>set ss. option_name (fst s) \<and> not_number (f\<lparr>o_Argv0 := a\<rparr>) (fst s)" using assms(3) by (simp add: not_number_def)
  note L = settings_loop[OF assms(1) n, of "setting_words s @ rest"]
  have "not_number f' (fst s)" "option_name (fst s)" using L assms(3) by (simp_all add: not_number_def)
  then show ?thesis using L parse_refused[OF assms(2) _ _ assms(4)] by (simp add: opt_Parse_def Usage_value)
qed

definition demo_lib :: opt_lib where
  "demo_lib = \<lparr>lib_ParseFloat = (\<lambda>s. None), lib_ParseDuration = (\<lambda>s. None), lib_ParseTime = (\<lambda>f s. None), lib_Args = []\<rparr>"

definition demo_flags :: "bool \<Rightarrow> string \<Rightarrow> string list \<Rightarrow> opt_flags" where
  "demo_flags l nm xs = \<lparr>o_Argv0 = ''ls'', o_usage = ''[file...]'',
     o_defs = [\<lparr>od_name = ''l'', od_help = ''long'', od_val = OBool l, od_argname = []\<rparr>,
       \<lparr>od_name = ''name'', od_help = ''str: name'', od_val = OString nm, od_argname = ''str''\<rparr>,
       \<lparr>od_name = ''x'', od_help = ''str: exclude'', od_val = OStrings xs, od_argname = ''str''\<rparr>],
     o_plus = None, o_minus = None, o_xtra = []\<rparr>"

theorem opt_Parse_settings_witness:
  "opt_Parse demo_lib (demo_flags False [] [])
      (''ls'' # concat (map setting_words [(''x'', Some ''a''), (''l'', None), (''name'', Some ''-b''), (''x'', Some ''c'')]) @ ''--'' # [''-l'']) =
    ORun (demo_flags True ''-b'' [''a'', ''c''], [''-l''])"
proof (rule opt_Parse_settings)
  show "settings_flags demo_lib ((demo_flags False [] [])\<lparr>o_Argv0 := ''ls''\<rparr>)
      [(''x'', Some ''a''), (''l'', None), (''name'', Some ''-b''), (''x'', Some ''c'')] = Some (demo_flags True ''-b'' [''a'', ''c''])"
    by (simp add: setting_value_def opt_lookup_def demo_flags_def set_value_def flag_value_def)
qed (auto simp: option_name_def demo_flags_def)

theorem opt_Parse_refuses_witness:
  "opt_Parse demo_lib (demo_flags False [] [])
      (''ls'' # concat (map setting_words [(''x'', Some ''a''), (''l'', None)]) @ setting_words (''name'', None) @ []) =
    OUsage (Some (NoArgument ''name''))"
proof -
  have f: "settings_flags demo_lib ((demo_flags False [] [])\<lparr>o_Argv0 := ''ls''\<rparr>) [(''x'', Some ''a''), (''l'', None)] =
      Some (demo_flags True [] [''a''])"
    by (simp add: setting_value_def opt_lookup_def demo_flags_def set_value_def flag_value_def)
  have e: "setting_error demo_lib (demo_flags True [] [''a'']) (''name'', None) = Some (NoArgument ''name'')"
    by (simp add: setting_error_def find_opt_def opt_lookup_def demo_flags_def)
  have n: "\<forall>s\<in>set ([(''x'', Some ''a''), (''l'', None)] @ [(''name'', None)]). option_name (fst s) \<and> not_number (demo_flags False [] []) (fst s)"
    by (auto simp: option_name_def not_number_def demo_flags_def)
  from opt_Parse_refuses[OF f e n, of "[]"] show ?thesis by (simp add: demo_flags_def)
qed

text \<open>Flags of a rune given in one word are parsed one after the other.\<close>

theorem opt_Parse_combined:
  "opt_Parse demo_lib (demo_flags False [] []) [''ls'', ''-lxa'', ''b''] = ORun (demo_flags True [] [''a''], [''b''])"
  by (simp add: opt_Parse_def parse_loop.simps find_opt_def opt_lookup_def demo_flags_def go_decode_ascii
      def_parse_def flag_value_def set_value_def optArg_def)

text \<open>With no arguments, those of the context are parsed.\<close>

lemma opt_Parse_context: "lib_Args lib \<noteq> [] \<Longrightarrow> opt_Parse lib f [] = opt_Parse lib f (lib_Args lib)"
  by (simp add: opt_Parse_def)

text \<open>A program with an option for \<open>-number\<close> and none for \<open>+number\<close> takes \<open>+5\<close> for \<open>-5\<close>, and its usage panics.\<close>

theorem opt_plus_taken_for_minus:
  "parse_loop demo_lib ((demo_flags False [] [])\<lparr>o_minus := Some \<lparr>od_name = ''-num'', od_help = ''n'', od_val = OInt 0, od_argname = ''num''\<rparr>\<rparr>) [''+5''] =
    ORun ((demo_flags False [] [])\<lparr>o_minus := Some \<lparr>od_name = ''-num'', od_help = ''n'', od_val = OInt (- 5), od_argname = ''num''\<rparr>\<rparr>, [])"
  by (simp add: parse_loop.simps demo_flags_def is_digit_def def_parseMinus_def go_parse_int_def go_parse_uint_def digit_val_def
      int64_of_def less_eq_char_def)

theorem opt_usage_panics:
  "opt_Usage ((demo_flags False [] [])\<lparr>o_minus := Some \<lparr>od_name = ''-num'', od_help = ''n'', od_val = OInt 0, od_argname = ''num''\<rparr>\<rparr>) None = OPanic"
  by (simp add: opt_Usage_def optUsage_def demo_flags_def)

end
