(* ===== verification/Diffs.thy ===== *)
theory Diffs
  imports ZxPerms
begin

text \<open>
  The differences between files (src/cmd/diffs/diffs.go): lines are given numbers by a table shared by both
  files, the lines in common at their start and at their end are set aside, and a longest common subsequence of the rest
  gives a script of lines that are equal, added and removed, which is printed in groups.

  What the command reads is two streams of messages; which of the two is read next, when both may be, is a list of
  choices, the first stream when the list is done.  What it prints is the list of what it sends to its output,
  which takes everything; warnings and debug prints are left out.
\<close>

section \<open>Files\<close>

record xfile =
  f_name :: string
  f_lines :: "nat list"

datatype rep_what = OEq | OAdd | ODel

record rep =
  rp_what :: rep_what
  rp_i :: nat
  rp_j :: nat

record xfiles =
  x_rpath :: string
  x_f1 :: xfile
  x_f2 :: xfile
  h_lines :: "string \<rightharpoonup> nat"
  h_hlines :: "string list"
  x_prefix :: "nat list"
  x_suffix :: "nat list"
  x_lcs :: "int list list"

definition no_file :: xfile where "no_file = \<lparr>f_name = [], f_lines = []\<rparr>"

definition new_xfiles :: xfiles where
  "new_xfiles = \<lparr>x_rpath = [], x_f1 = no_file, x_f2 = no_file, h_lines = Map.empty, h_hlines = [],
     x_prefix = [], x_suffix = [], x_lcs = []\<rparr>"

definition errDiffs :: string where "errDiffs = ''diffs''"

function prefix_loop :: "'a list \<Rightarrow> 'a list \<Rightarrow> nat \<Rightarrow> nat" where
  "prefix_loop ln1 ln2 i =
     (if i < length ln1 \<and> i < length ln2
      then (if ln1 ! i \<noteq> ln2 ! i then i else prefix_loop ln1 ln2 (i + 1)) else i)"
  by auto
termination by (relation "measure (\<lambda>(ln1, ln2, i). length ln1 - i)") auto

definition diff_prefix :: "'a list \<Rightarrow> 'a list \<Rightarrow> 'a list \<times> 'a list \<times> 'a list" where
  "diff_prefix ln1 ln2 = (let i = prefix_loop ln1 ln2 0 in (take i ln1, drop i ln1, drop i ln2))"

function suffix_loop :: "'a list \<Rightarrow> 'a list \<Rightarrow> nat \<Rightarrow> nat" where
  "suffix_loop ln1 ln2 i =
     (let ni = length ln1; nj = length ln2 in
      if i < ni \<and> i < nj
      then (if ln1 ! (ni - i - 1) \<noteq> ln2 ! (nj - i - 1) then i else suffix_loop ln1 ln2 (i + 1)) else i)"
  by auto
termination by (relation "measure (\<lambda>(ln1, ln2, i). length ln1 - i)") auto

definition diff_suffix :: "'a list \<Rightarrow> 'a list \<Rightarrow> 'a list \<times> 'a list \<times> 'a list" where
  "diff_suffix ln1 ln2 =
     (let i = suffix_loop ln1 ln2 0
      in (drop (length ln1 - i) ln1, take (length ln1 - i) ln1, take (length ln2 - i) ln2))"

text \<open>A line of the first file (1) or the second (2); file 0 is none of them.\<close>

definition add_line_id :: "nat \<Rightarrow> nat \<Rightarrow> xfiles \<Rightarrow> xfiles" where
  "add_line_id fno i x =
     (if fno = 1 then x\<lparr>x_f1 := (x_f1 x)\<lparr>f_lines := f_lines (x_f1 x) @ [i]\<rparr>\<rparr>
      else if fno = 2 then x\<lparr>x_f2 := (x_f2 x)\<lparr>f_lines := f_lines (x_f2 x) @ [i]\<rparr>\<rparr>
      else x)"

definition x_addLine :: "xfiles \<Rightarrow> string \<Rightarrow> nat \<Rightarrow> xfiles" where
  "x_addLine x s fno =
     (if fno \<noteq> 1 \<and> fno \<noteq> 2 then x
      else case h_lines x s of
          Some i \<Rightarrow> add_line_id fno i x
        | None \<Rightarrow>
            (let i = length (h_hlines x) in
             add_line_id fno i (x\<lparr>h_lines := (h_lines x)(s \<mapsto> i), h_hlines := h_hlines x @ [s]\<rparr>)))"

section \<open>The longest common subsequence\<close>

definition lcs_cell :: "'a list \<Rightarrow> 'a list \<Rightarrow> nat \<Rightarrow> nat \<Rightarrow> int list list \<Rightarrow> int list list" where
  "lcs_cell l1 l2 i j t =
     (let v = (if l1 ! (i - 1) = l2 ! (j - 1) then t ! (i - 1) ! (j - 1) + 1
               else if t ! i ! (j - 1) > t ! (i - 1) ! j then t ! i ! (j - 1)
               else t ! (i - 1) ! j)
      in t[i := (t ! i)[j := v]])"

definition lcs_table :: "'a list \<Rightarrow> 'a list \<Rightarrow> int list list" where
  "lcs_table l1 l2 =
     (let ni = length l1 + 1; nj = length l2 + 1 in
      fold (\<lambda>i t. fold (\<lambda>j t. lcs_cell l1 l2 i j t) [1..<nj] t) [1..<ni] (replicate ni (replicate nj 0)))"

function x_report :: "'a list \<Rightarrow> 'a list \<Rightarrow> int list list \<Rightarrow> nat \<Rightarrow> nat \<Rightarrow> rep list" where
  "x_report l1 l2 t i j =
     (if i > 0 \<and> j > 0 \<and> l1 ! (i - 1) = l2 ! (j - 1) then
        x_report l1 l2 t (i - 1) (j - 1) @ [\<lparr>rp_what = OEq, rp_i = i - 1, rp_j = j - 1\<rparr>]
      else if j > 0 \<and> (i = 0 \<or> t ! i ! (j - 1) \<ge> t ! (i - 1) ! j) then
        x_report l1 l2 t i (j - 1) @ [\<lparr>rp_what = OAdd, rp_i = i, rp_j = j - 1\<rparr>]
      else if i > 0 \<and> (j = 0 \<or> t ! i ! (j - 1) < t ! (i - 1) ! j) then
        x_report l1 l2 t (i - 1) j @ [\<lparr>rp_what = ODel, rp_i = i - 1, rp_j = j\<rparr>]
      else [])"
  by auto
termination by (relation "measure (\<lambda>(l1, l2, t, i, j). i + j)") auto

section \<open>Printing\<close>

text \<open>
  The group being printed: its text, the addresses of its lines in both files, their numbers, the error, what was
  printed before it and the last item of the script.
\<close>

record show_state =
  sh_buf :: string
  sh_a1 :: addr
  sh_a2 :: addr
  sh_n1 :: int
  sh_n2 :: int
  sh_err :: "string option"
  sh_out :: "string list"
  sh_r :: rep

abbreviation name_addr :: "string \<Rightarrow> addr" where
  "name_addr n \<equiv> \<lparr>a_Name = n, a_Ln0 = 0, a_Ln1 = 0, a_P0 = 0, a_P1 = 0\<rparr>"

definition diff_head :: "string \<Rightarrow> string \<Rightarrow> string \<Rightarrow> string" where
  "diff_head w a1 a2 = w @ [CHR 0x09] @ a1 @ [CHR 0x09] @ a2 @ [CHR 0x0A]"

text \<open>A group printed: the lines of a file that has none in it are those given.\<close>

definition show_group :: "int \<Rightarrow> int \<Rightarrow> show_state \<Rightarrow> show_state" where
  "show_group ln1 ln2 s =
     (if sh_buf s = [] then s
      else
        (let (b1, n1) = (if a_Ln0 (sh_a1 s) = 0 then (ln1, 1) else (a_Ln0 (sh_a1 s), sh_n1 s));
             (b2, n2) = (if a_Ln0 (sh_a2 s) = 0 then (ln2, 1) else (a_Ln0 (sh_a2 s), sh_n2 s));
             a1 = (sh_a1 s)\<lparr>a_Ln0 := b1, a_Ln1 := b1 + n1 - 1\<rparr>;
             a2 = (sh_a2 s)\<lparr>a_Ln0 := b2, a_Ln1 := b2 + n2 - 1\<rparr>
         in s\<lparr>sh_out := sh_out s @ [diff_head ''#diff'' (zx_Addr_String a1) (zx_Addr_String a2), sh_buf s], sh_buf := []\<rparr>))"

definition show_rep :: "bool \<Rightarrow> xfiles \<Rightarrow> rep \<Rightarrow> show_state \<Rightarrow> show_state" where
  "show_rep lflag x r s0 =
     (let s = s0\<lparr>sh_r := r\<rparr>; np = len (x_prefix x);
          l1 = h_hlines x ! (f_lines (x_f1 x) ! rp_i r); l2 = h_hlines x ! (f_lines (x_f2 x) ! rp_j r) in
      case rp_what r of
        OEq \<Rightarrow>
          (let s' = show_group (int (rp_i r) + 1 + np) (int (rp_j r) + 1 + np) s in
           s'\<lparr>sh_a1 := name_addr (f_name (x_f1 x)), sh_a2 := name_addr (f_name (x_f2 x)), sh_n1 := 0, sh_n2 := 0,
              sh_out := sh_out s' @ (if lflag then [''  '' @ l1] else [])\<rparr>)
      | OAdd \<Rightarrow>
          s\<lparr>sh_a2 := (if a_Ln0 (sh_a2 s) = 0 then (sh_a2 s)\<lparr>a_Ln0 := int (rp_j r) + 1 + np\<rparr> else sh_a2 s),
            sh_n2 := sh_n2 s + 1, sh_buf := sh_buf s @ ''+ '' @ l2, sh_err := Some errDiffs\<rparr>
      | ODel \<Rightarrow>
          s\<lparr>sh_a1 := (if a_Ln0 (sh_a1 s) = 0 then (sh_a1 s)\<lparr>a_Ln0 := int (rp_i r) + 1 + np\<rparr> else sh_a1 s),
            sh_n1 := sh_n1 s + 1, sh_buf := sh_buf s @ ''- '' @ l1, sh_err := Some errDiffs\<rparr>)"

text \<open>
  The whole report.  The error of the lines in common at the end, printed with the flag \<open>-l\<close>, replaces the one
  there was.
\<close>

definition show_start :: "xfiles \<Rightarrow> show_state" where
  "show_start x = \<lparr>sh_buf = [], sh_a1 = name_addr (f_name (x_f1 x)), sh_a2 = name_addr (f_name (x_f2 x)), sh_n1 = 0, sh_n2 = 0,
     sh_err = None, sh_out = [], sh_r = \<lparr>rp_what = OEq, rp_i = 0, rp_j = 0\<rparr>\<rparr>"

definition x_showreport :: "bool \<Rightarrow> xfiles \<Rightarrow> rep list \<Rightarrow> string option \<times> string list" where
  "x_showreport lflag x reps =
     (let np = len (x_prefix x);
          lines = (\<lambda>ls. if lflag then map (\<lambda>ln. ''  '' @ h_hlines x ! ln) ls else []);
          s = fold (show_rep lflag x) reps (show_start x);
          s' = show_group (int (rp_i (sh_r s)) + np) (int (rp_j (sh_r s)) + np) s
      in (if lflag \<and> x_suffix x \<noteq> [] then None else sh_err s', lines (x_prefix x) @ sh_out s' @ lines (x_suffix x)))"

section \<open>Two files\<close>

definition x_strip :: "xfiles \<Rightarrow> xfiles" where
  "x_strip x =
     (let (p, l1, l2) = diff_prefix (f_lines (x_f1 x)) (f_lines (x_f2 x));
          (s, m1, m2) = diff_suffix l1 l2
      in x\<lparr>x_prefix := p, x_suffix := s, x_f1 := (x_f1 x)\<lparr>f_lines := m1\<rparr>, x_f2 := (x_f2 x)\<lparr>f_lines := m2\<rparr>\<rparr>)"

definition x_script :: "xfiles \<Rightarrow> rep list" where
  "x_script x =
     x_report (f_lines (x_f1 x)) (f_lines (x_f2 x)) (x_lcs x) (length (f_lines (x_f1 x))) (length (f_lines (x_f2 x)))"

definition x_diff :: "bool \<Rightarrow> bool \<Rightarrow> xfiles \<Rightarrow> (string option \<times> string list) \<times> xfiles" where
  "x_diff lflag qflag x0 =
     (let x = x_strip x0; l1 = f_lines (x_f1 x); l2 = f_lines (x_f2 x);
          hd = diff_head ''#diffs'' (f_name (x_f1 x)) (f_name (x_f2 x))
      in if l1 = [] \<and> l2 = [] then ((None, []), x)
         else if qflag then ((Some errDiffs, [hd]), x)
         else
           (let x' = x\<lparr>x_lcs := lcs_table l1 l2\<rparr>; (err, outs) = x_showreport lflag x' (x_script x')
            in ((err, hd # outs), x')))"

section \<open>Two streams of files\<close>

text \<open>What is read: errors, entries, the lines of the files, and anything else, which is skipped.\<close>

datatype diff_msg = DmErr | DmDir dir | DmLine string | DmOther

fun x_getFile :: "xfiles \<Rightarrow> diff_msg list \<Rightarrow> nat \<Rightarrow> dir option \<times> xfiles \<times> diff_msg list" where
  "x_getFile x [] fno = (None, x, [])"
| "x_getFile x (DmDir d # ms) fno = (Some d, x, ms)"
| "x_getFile x (DmLine b # ms) fno = x_getFile (x_addLine x b fno) ms fno"
| "x_getFile x (m # ms) fno = x_getFile x ms fno"

fun x_getDir :: "diff_msg list \<Rightarrow> dir option \<times> diff_msg list" where
  "x_getDir [] = (None, [])"
| "x_getDir (DmDir d # ms) = (Some d, ms)"
| "x_getDir (m # ms) = x_getDir ms"

text \<open>The stream read next: the first of the choices, and those left.\<close>

definition pick :: "bool list \<Rightarrow> bool \<times> bool list" where
  "pick bs = (case bs of [] \<Rightarrow> (True, []) | b # bs' \<Rightarrow> (b, bs'))"

record two_streams =
  ts_sched :: "bool list"
  ts_1 :: "diff_msg list"
  ts_2 :: "diff_msg list"

definition then_2 :: "dir option \<Rightarrow> xfiles \<Rightarrow> two_streams \<Rightarrow> (dir option \<times> dir option) \<times> xfiles \<times> two_streams" where
  "then_2 d x t = (let (d2, x', ms) = x_getFile x (ts_2 t) 2 in ((d, d2), x', t\<lparr>ts_2 := ms\<rparr>))"

definition then_1 :: "dir option \<Rightarrow> xfiles \<Rightarrow> two_streams \<Rightarrow> (dir option \<times> dir option) \<times> xfiles \<times> two_streams" where
  "then_1 d x t = (let (d1, x', ms) = x_getFile x (ts_1 t) 1 in ((d1, d), x', t\<lparr>ts_1 := ms\<rparr>))"

function x_getFiles :: "xfiles \<Rightarrow> two_streams \<Rightarrow> (dir option \<times> dir option) \<times> xfiles \<times> two_streams" where
  "x_getFiles x t =
     (let bs = snd (pick (ts_sched t)) in
      if fst (pick (ts_sched t)) then
          (case ts_1 t of
             [] \<Rightarrow> then_2 None x (t\<lparr>ts_sched := bs\<rparr>)
           | DmDir d # ms \<Rightarrow> then_2 (Some d) x (t\<lparr>ts_sched := bs, ts_1 := ms\<rparr>)
           | DmLine b # ms \<Rightarrow> x_getFiles (x_addLine x b 1) (t\<lparr>ts_sched := bs, ts_1 := ms\<rparr>)
           | m # ms \<Rightarrow> x_getFiles x (t\<lparr>ts_sched := bs, ts_1 := ms\<rparr>))
      else
          (case ts_2 t of
             [] \<Rightarrow> then_1 None x (t\<lparr>ts_sched := bs\<rparr>)
           | DmDir d # ms \<Rightarrow> then_1 (Some d) x (t\<lparr>ts_sched := bs, ts_2 := ms\<rparr>)
           | DmLine b # ms \<Rightarrow> x_getFiles (x_addLine x b 2) (t\<lparr>ts_sched := bs, ts_2 := ms\<rparr>)
           | m # ms \<Rightarrow> x_getFiles x (t\<lparr>ts_sched := bs, ts_2 := ms\<rparr>)))"
  by auto
termination by (relation "measure (\<lambda>(x, t). length (ts_1 t) + length (ts_2 t))") auto

function x_getDirs :: "two_streams \<Rightarrow> (dir option \<times> dir option) \<times> two_streams" where
  "x_getDirs t =
     (let bs = snd (pick (ts_sched t)) in
      if fst (pick (ts_sched t)) then
          (case ts_1 t of
             [] \<Rightarrow> (let (d2, ms2) = x_getDir (ts_2 t) in ((None, d2), t\<lparr>ts_sched := bs, ts_2 := ms2\<rparr>))
           | DmDir d # ms \<Rightarrow>
               (let (d2, ms2) = x_getDir (ts_2 t) in ((Some d, d2), t\<lparr>ts_sched := bs, ts_1 := ms, ts_2 := ms2\<rparr>))
           | m # ms \<Rightarrow> x_getDirs (t\<lparr>ts_sched := bs, ts_1 := ms\<rparr>))
      else
          (case ts_2 t of
             [] \<Rightarrow> (let (d1, ms1) = x_getDir (ts_1 t) in ((d1, None), t\<lparr>ts_sched := bs, ts_1 := ms1\<rparr>))
           | DmDir d # ms \<Rightarrow>
               (let (d1, ms1) = x_getDir (ts_1 t) in ((d1, Some d), t\<lparr>ts_sched := bs, ts_1 := ms1, ts_2 := ms\<rparr>))
           | m # ms \<Rightarrow> x_getDirs (t\<lparr>ts_sched := bs, ts_2 := ms\<rparr>)))"
  by auto
termination by (relation "measure (\<lambda>t. length (ts_1 t) + length (ts_2 t))") auto

declare x_getFiles.simps [simp del] x_getDirs.simps [simp del] x_report.simps [simp del]
  prefix_loop.simps [simp del] suffix_loop.simps [simp del]

section \<open>The command\<close>

text \<open>
  The loop of \<open>main\<close>: entries with a path that only one stream has are printed, and two files with the same path
  are compared.  Its result is the status and what is printed.
\<close>

definition only_line :: "(rune \<Rightarrow> bool) \<Rightarrow> dir \<Rightarrow> string" where
  "only_line tab d = ''#only '' @ zx_Fmt tab (Some (dset d ''path'' (dget d ''Upath''))) @ [CHR 0x0A]"

definition start_files :: "dir \<Rightarrow> dir \<Rightarrow> xfiles \<Rightarrow> xfiles" where
  "start_files d1 d2 x =
     x\<lparr>x_rpath := dget d1 ''Rpath'', x_f1 := \<lparr>f_name = dget d1 ''Upath'', f_lines = []\<rparr>,
       x_f2 := \<lparr>f_name = dget d2 ''Upath'', f_lines = []\<rparr>\<rparr>"

lemma x_getFile_length: "x_getFile x ms fno = (d, x', ms') \<Longrightarrow> length ms' + (if d = None then 0 else 1) \<le> length ms"
  by (induction x ms fno rule: x_getFile.induct) auto

lemma x_getDir_length: "x_getDir ms = (d, ms') \<Longrightarrow> length ms' + (if d = None then 0 else 1) \<le> length ms"
  by (induction ms rule: x_getDir.induct) auto

definition ts_size :: "dir option \<Rightarrow> dir option \<Rightarrow> two_streams \<Rightarrow> nat" where
  "ts_size d1 d2 t = length (ts_1 t) + length (ts_2 t) + (if d1 = None then 0 else 1) + (if d2 = None then 0 else 1)"

lemma x_getFiles_size: "x_getFiles x t = ((d1, d2), x', t') \<Longrightarrow> ts_size d1 d2 t' \<le> length (ts_1 t) + length (ts_2 t)"
proof (induction "length (ts_1 t) + length (ts_2 t)" arbitrary: x t rule: less_induct)
  case less
  have IH: "x_getFiles y u = ((d1, d2), x', t') \<Longrightarrow> length (ts_1 u) + length (ts_2 u) < length (ts_1 t) + length (ts_2 t) \<Longrightarrow>
    ts_size d1 d2 t' \<le> length (ts_1 u) + length (ts_2 u)" for y u using less.hyps by blast
  note E = less.prems[unfolded x_getFiles.simps[of x t] Let_def]
  show ?case
  proof (cases "fst (pick (ts_sched t))")
    case True
    with E show ?thesis
      by (auto simp: then_2_def split: prod.splits list.splits diff_msg.splits dest!: x_getFile_length IH)
        (auto simp: ts_size_def split: if_splits)
  next
    case False
    with E show ?thesis
      by (auto simp: then_1_def split: prod.splits list.splits diff_msg.splits dest!: x_getFile_length IH)
        (auto simp: ts_size_def split: if_splits)
  qed
qed

function main_loop :: "(rune \<Rightarrow> bool) \<Rightarrow> bool \<Rightarrow> bool \<Rightarrow> dir option \<Rightarrow> dir option \<Rightarrow> xfiles \<Rightarrow> two_streams \<Rightarrow>
    string option \<Rightarrow> string option \<times> string list" where
  "main_loop tab lflag qflag None None x t sts = (sts, [])"
| "main_loop tab lflag qflag (Some d1) None x t sts =
     (let (d, ms) = x_getDir (ts_1 t);
          (sts', outs) = main_loop tab lflag qflag d None x (t\<lparr>ts_1 := ms\<rparr>) (Some errDiffs)
      in (sts', only_line tab d1 # outs))"
| "main_loop tab lflag qflag None (Some d2) x t sts =
     (let (d, ms) = x_getDir (ts_2 t);
          (sts', outs) = main_loop tab lflag qflag None d x (t\<lparr>ts_2 := ms\<rparr>) (Some errDiffs)
      in (sts', only_line tab d2 # outs))"
| "main_loop tab lflag qflag (Some d1) (Some d2) x t sts =
     (let cmp = zx_PathCmp (dget d1 ''Rpath'') (dget d2 ''Rpath'') in
      if cmp < 0 then
        (let (d, ms) = x_getDir (ts_1 t);
             (sts', outs) = main_loop tab lflag qflag d (Some d2) x (t\<lparr>ts_1 := ms\<rparr>) (Some errDiffs)
         in (sts', only_line tab d1 # outs))
      else if cmp > 0 then
        (let (d, ms) = x_getDir (ts_2 t);
             (sts', outs) = main_loop tab lflag qflag (Some d1) d x (t\<lparr>ts_2 := ms\<rparr>) (Some errDiffs)
         in (sts', only_line tab d2 # outs))
      else
        (let differ = dget d1 ''type'' \<noteq> dget d2 ''type'';
             (only, sts1) = (if differ then ([only_line tab d1, only_line tab d2], Some errDiffs) else ([], sts))
         in case x_getFiles (start_files d1 d2 x) t of
              ((e1, e2), x', t') \<Rightarrow>
                if dget d1 ''type'' = ''-'' \<and> dget d2 ''type'' = ''-'' then
                  (case x_diff lflag qflag x' of
                     ((err, outs1), _) \<Rightarrow>
                       (let (sts', outs) = main_loop tab lflag qflag e1 e2 new_xfiles t' (if err = None then sts1 else err)
                        in (sts', only @ outs1 @ outs)))
                else
                  (let (sts', outs) = main_loop tab lflag qflag e1 e2 x' t' sts1 in (sts', only @ outs))))"
  by pat_completeness auto
termination
  by (relation "measure (\<lambda>(tab, lflag, qflag, d1, d2, x, t, sts). ts_size d1 d2 t)")
    (auto simp: ts_size_def split: if_splits
      dest!: x_getDir_length[OF sym] x_getFiles_size[OF sym, unfolded ts_size_def])

definition diffs_main :: "(rune \<Rightarrow> bool) \<Rightarrow> bool \<Rightarrow> bool \<Rightarrow> two_streams \<Rightarrow> string option \<times> string list" where
  "diffs_main tab lflag qflag t =
     (let ((d1, d2), t') = x_getDirs t in main_loop tab lflag qflag d1 d2 new_xfiles t' None)"

end
