(* ===== verification/DiffsProps.thy ===== *)
theory DiffsProps
  imports Diffs "HOL-Library.Sublist"
begin

text \<open>
  The script of differences takes one file to the other and keeps as many lines as any script may; the status says
  whether the files differ; and what is printed does not depend on which of the two streams is read first.
\<close>

section \<open>Prefixes and suffixes in common\<close>

lemma prefix_loop_spec:
  assumes "i \<le> length l1" and "i \<le> length l2" and "take i l1 = take i l2"
  shows "prefix_loop l1 l2 i \<le> length l1 \<and> prefix_loop l1 l2 i \<le> length l2 \<and>
    take (prefix_loop l1 l2 i) l1 = take (prefix_loop l1 l2 i) l2"
  using assms
proof (induction l1 l2 i rule: prefix_loop.induct)
  case (1 l1 l2 i)
  show ?case
  proof (cases "i < length l1 \<and> i < length l2 \<and> l1 ! i = l2 ! i")
    case True
    then have "take (i + 1) l1 = take (i + 1) l2" using "1.prems"(3) by (simp add: take_Suc_conv_app_nth)
    then show ?thesis using 1 True by (subst (1 2 3 4) prefix_loop.simps) simp
  next
    case False
    then have "prefix_loop l1 l2 i = i" by (subst prefix_loop.simps) auto
    then show ?thesis using "1.prems" by simp
  qed
qed

lemma diff_prefix_spec:
  assumes "diff_prefix l1 l2 = (p, m1, m2)"
  shows "l1 = p @ m1 \<and> l2 = p @ m2"
  using assms prefix_loop_spec[of 0 l1 l2] by (auto simp: diff_prefix_def Let_def) (metis append_take_drop_id)

lemma suffix_loop_rev: "suffix_loop l1 l2 i = prefix_loop (rev l1) (rev l2) i"
proof (induction l1 l2 i rule: suffix_loop.induct)
  case (1 l1 l2 i)
  show ?case
    by (subst suffix_loop.simps, subst prefix_loop.simps) (use 1 in \<open>auto simp: rev_nth Let_def\<close>)
qed

lemma diff_suffix_spec:
  assumes "diff_suffix l1 l2 = (s, m1, m2)"
  shows "l1 = m1 @ s \<and> l2 = m2 @ s"
proof -
  define k where "k = suffix_loop l1 l2 0"
  have k: "k \<le> length l1" "k \<le> length l2" "take k (rev l1) = take k (rev l2)"
    using prefix_loop_spec[of 0 "rev l1" "rev l2"] by (simp_all add: k_def suffix_loop_rev)
  have "drop (length l1 - k) l1 = drop (length l2 - k) l2"
    using k(3) by (simp add: take_rev)
  then show ?thesis using assms k(1,2)
    by (auto simp: diff_suffix_def Let_def k_def[symmetric]) (metis append_take_drop_id)
qed

section \<open>The table\<close>

fun lcs_at :: "'a list \<Rightarrow> 'a list \<Rightarrow> nat \<Rightarrow> nat \<Rightarrow> int" where
  "lcs_at l1 l2 0 j = 0"
| "lcs_at l1 l2 (Suc i) 0 = 0"
| "lcs_at l1 l2 (Suc i) (Suc j) =
     (if l1 ! i = l2 ! j then lcs_at l1 l2 i j + 1 else max (lcs_at l1 l2 (Suc i) j) (lcs_at l1 l2 i (Suc j)))"

lemma lcs_at_0 [simp]: "lcs_at l1 l2 i 0 = 0"
  by (cases i) simp_all

lemma lcs_at_nonneg: "0 \<le> lcs_at l1 l2 i j"
  by (induction l1 l2 i j rule: lcs_at.induct) auto

text \<open>The table when the rows before \<open>i\<close> and the cells before \<open>j\<close> of this row are done.\<close>

definition table_ok :: "'a list \<Rightarrow> 'a list \<Rightarrow> nat \<Rightarrow> nat \<Rightarrow> int list list \<Rightarrow> bool" where
  "table_ok l1 l2 i j t \<longleftrightarrow> length t = length l1 + 1 \<and> (\<forall>a \<le> length l1. length (t ! a) = length l2 + 1) \<and>
     (\<forall>a \<le> length l1. \<forall>b \<le> length l2. a < i \<or> a = i \<and> b < j \<or> a = 0 \<or> b = 0 \<longrightarrow> t ! a ! b = lcs_at l1 l2 a b)"

lemma lcs_cell_ok:
  assumes "table_ok l1 l2 i j t" and "1 \<le> i" and "i \<le> length l1" and "1 \<le> j" and "j \<le> length l2"
  shows "table_ok l1 l2 i (j + 1) (lcs_cell l1 l2 i j t)"
proof -
  obtain i' j' where ij: "i = Suc i'" "j = Suc j'" using assms(2,4) by (metis One_nat_def Suc_le_D)
  have T: "a \<le> length l1 \<Longrightarrow> b \<le> length l2 \<Longrightarrow> a < i \<or> a = i \<and> b < j \<or> a = 0 \<or> b = 0 \<Longrightarrow> t ! a ! b = lcs_at l1 l2 a b" for a b
    using assms(1) unfolding table_ok_def by blast
  have L: "length t = length l1 + 1" "\<And>a. a \<le> length l1 \<Longrightarrow> length (t ! a) = length l2 + 1"
    using assms(1) by (simp_all add: table_ok_def)
  have v: "(if l1 ! (i - 1) = l2 ! (j - 1) then t ! (i - 1) ! (j - 1) + 1
               else if t ! i ! (j - 1) > t ! (i - 1) ! j then t ! i ! (j - 1)
               else t ! (i - 1) ! j) = lcs_at l1 l2 i j"
    using T[of i' j'] T[of i j'] T[of i' j] assms(3,5) by (simp add: max_def ij)
  have C: "lcs_cell l1 l2 i j t = t[i := (t ! i)[j := lcs_at l1 l2 i j]]"
    by (simp only: lcs_cell_def v Let_def)
  have n: "lcs_cell l1 l2 i j t ! a ! b = (if a = i \<and> b = j then lcs_at l1 l2 i j else t ! a ! b)"
    if "a \<le> length l1" "b \<le> length l2" for a b
    using that L assms(3,5) by (auto simp: C nth_list_update)
  show ?thesis
    unfolding table_ok_def
  proof (intro conjI allI impI)
    show "length (lcs_cell l1 l2 i j t) = length l1 + 1" by (simp add: C L)
    show "length (lcs_cell l1 l2 i j t ! a) = length l2 + 1" if "a \<le> length l1" for a
      using that L assms(3) by (auto simp: C nth_list_update)
    show "lcs_cell l1 l2 i j t ! a ! b = lcs_at l1 l2 a b"
      if "a \<le> length l1" "b \<le> length l2" "a < i \<or> a = i \<and> b < j + 1 \<or> a = 0 \<or> b = 0" for a b
      using that T[OF that(1,2)] by (auto simp: n[OF that(1,2)])
  qed
qed

lemma lcs_row_ok:
  assumes "table_ok l1 l2 i 1 t" and "1 \<le> i" and "i \<le> length l1" and "j \<le> length l2"
  shows "table_ok l1 l2 i (j + 1) (fold (\<lambda>j t. lcs_cell l1 l2 i j t) [1..<j + 1] t)"
  using assms(4)
proof (induction j)
  case 0
  then show ?case using assms(1) by simp
next
  case (Suc j)
  then show ?case using lcs_cell_ok[OF _ assms(2,3), where j = "Suc j"] by simp
qed

lemma table_next_row: "table_ok l1 l2 i (length l2 + 1) t \<Longrightarrow> table_ok l1 l2 (i + 1) 1 t"
  by (fastforce simp: table_ok_def less_Suc_eq_le le_less)

lemma lcs_rows_ok:
  assumes "i \<le> length l1"
  shows "table_ok l1 l2 (i + 1) 1
    (fold (\<lambda>i t. fold (\<lambda>j t. lcs_cell l1 l2 i j t) [1..<length l2 + 1] t) [1..<i + 1]
      (replicate (length l1 + 1) (replicate (length l2 + 1) 0)))"
  using assms
proof (induction i)
  case 0
  show ?case by (auto simp: table_ok_def simp del: replicate_Suc)
next
  case (Suc i)
  then show ?case using table_next_row[OF lcs_row_ok[of l1 l2 "Suc i" _ "length l2"]] by simp
qed

lemma lcs_table_at:
  assumes "a \<le> length l1" and "b \<le> length l2"
  shows "lcs_table l1 l2 ! a ! b = lcs_at l1 l2 a b"
  using lcs_rows_ok[of "length l1" l1 l2] assms by (simp add: lcs_table_def Let_def table_ok_def)

section \<open>Subsequences in common\<close>

lemma subseq_snocE:
  assumes "subseq zs (xs @ [x])"
  shows "subseq zs xs \<or> (\<exists>ys. zs = ys @ [x] \<and> subseq ys xs)"
proof -
  obtain us vs where s: "zs = us @ vs" "subseq us xs" "subseq vs [x]" using assms by (auto simp: subseq_append_iff)
  then show ?thesis by (cases vs) (auto split: if_splits simp: subseq_Cons2_iff)
qed

lemma subseq_butlast: "subseq zs (xs @ [x]) \<Longrightarrow> subseq (butlast zs) xs"
  by (auto dest!: subseq_snocE intro: subseq_order.trans[OF prefix_imp_subseq[OF prefixeq_butlast]])

lemma lcs_at_bound:
  assumes "subseq zs (take i l1)" and "subseq zs (take j l2)" and "i \<le> length l1" and "j \<le> length l2"
  shows "len zs \<le> lcs_at l1 l2 i j"
  using assms
proof (induction l1 l2 i j arbitrary: zs rule: lcs_at.induct)
  case (3 l1 l2 i j)
  have t: "take (Suc i) l1 = take i l1 @ [l1 ! i]" "take (Suc j) l2 = take j l2 @ [l2 ! j]"
    using 3(6,7) by (simp_all add: take_Suc_conv_app_nth)
  have s1: "subseq zs (take i l1) \<or> (\<exists>ys. zs = ys @ [l1 ! i] \<and> subseq ys (take i l1))" using subseq_snocE 3(4) t by metis
  have s2: "subseq zs (take j l2) \<or> (\<exists>ys. zs = ys @ [l2 ! j] \<and> subseq ys (take j l2))" using subseq_snocE 3(5) t by metis
  show ?case
  proof (cases "l1 ! i = l2 ! j")
    case True
    have "subseq (butlast zs) (take i l1)" "subseq (butlast zs) (take j l2)"
      using subseq_butlast 3(4,5) t by metis+
    then have "len (butlast zs) \<le> lcs_at l1 l2 i j" using 3(1)[OF True, of "butlast zs"] 3(6,7) by (simp del: length_butlast)
    then show ?thesis using True by simp
  next
    case False
    then have "subseq zs (take j l2) \<or> subseq zs (take i l1)" using s1 s2 by auto
    then show ?thesis using 3(2)[OF False] 3(3)[OF False] 3(4-7) False by (auto simp: le_max_iff_disj)
  qed
qed (auto simp: subseq_append_iff)

section \<open>The script\<close>

definition kept :: "rep list \<Rightarrow> nat" where
  "kept rs = length (filter (\<lambda>r. rp_what r = OEq) rs)"

definition old_part :: "rep list \<Rightarrow> nat list" where
  "old_part rs = map rp_i (filter (\<lambda>r. rp_what r \<noteq> OAdd) rs)"

definition new_part :: "rep list \<Rightarrow> nat list" where
  "new_part rs = map rp_j (filter (\<lambda>r. rp_what r \<noteq> ODel) rs)"

lemma part_simps [simp]:
  "kept (rs @ ss) = kept rs + kept ss" "old_part (rs @ ss) = old_part rs @ old_part ss"
  "new_part (rs @ ss) = new_part rs @ new_part ss" "kept [] = 0" "old_part [] = []" "new_part [] = []"
  "kept [r] = (if rp_what r = OEq then 1 else 0)" "old_part [r] = (if rp_what r \<noteq> OAdd then [rp_i r] else [])"
  "new_part [r] = (if rp_what r \<noteq> ODel then [rp_j r] else [])"
  by (simp_all add: kept_def old_part_def new_part_def)

lemma upt_conv_snoc: "0 < i \<Longrightarrow> [0..<i] = [0..<i - Suc 0] @ [i - Suc 0]"
  by (cases i) simp_all

text \<open>Every item is at the lines of both files where those before it end.\<close>

definition rep_ok :: "'a list \<Rightarrow> 'a list \<Rightarrow> rep \<Rightarrow> bool" where
  "rep_ok l1 l2 r \<longleftrightarrow>
     (rp_what r \<noteq> OAdd \<longrightarrow> rp_i r < length l1) \<and> (rp_what r \<noteq> ODel \<longrightarrow> rp_j r < length l2) \<and>
     (rp_what r = OEq \<longrightarrow> l1 ! rp_i r = l2 ! rp_j r)"

lemma x_report_parts:
  assumes "i \<le> length l1" and "j \<le> length l2"
  shows "old_part (x_report l1 l2 t i j) = [0..<i] \<and> new_part (x_report l1 l2 t i j) = [0..<j] \<and>
    (\<forall>r\<in>set (x_report l1 l2 t i j). rep_ok l1 l2 r)"
  using assms
proof (induction l1 l2 t i j rule: x_report.induct)
  case (1 l1 l2 t i j)
  consider (eq) "i > 0 \<and> j > 0 \<and> l1 ! (i - 1) = l2 ! (j - 1)"
    | (add) "\<not> (i > 0 \<and> j > 0 \<and> l1 ! (i - 1) = l2 ! (j - 1))" "j > 0 \<and> (i = 0 \<or> t ! i ! (j - 1) \<ge> t ! (i - 1) ! j)"
    | (del) "\<not> (i > 0 \<and> j > 0 \<and> l1 ! (i - 1) = l2 ! (j - 1))" "\<not> (j > 0 \<and> (i = 0 \<or> t ! i ! (j - 1) \<ge> t ! (i - 1) ! j))"
        "i > 0 \<and> (j = 0 \<or> t ! i ! (j - 1) < t ! (i - 1) ! j)"
    | (none) "i = 0" "j = 0"
    by force
  then show ?case
  proof cases
    case eq
    have E: "x_report l1 l2 t i j = x_report l1 l2 t (i - 1) (j - 1) @ [\<lparr>rp_what = OEq, rp_i = i - 1, rp_j = j - 1\<rparr>]"
      using eq by (subst x_report.simps) simp
    then show ?thesis using 1(1)[OF eq] 1(4,5) eq by (auto simp: rep_ok_def upt_conv_snoc)
  next
    case add
    have E: "x_report l1 l2 t i j = x_report l1 l2 t i (j - 1) @ [\<lparr>rp_what = OAdd, rp_i = i, rp_j = j - 1\<rparr>]"
      using add by (subst x_report.simps) simp
    then show ?thesis using 1(2)[OF add] 1(4,5) add by (auto simp: rep_ok_def upt_conv_snoc)
  next
    case del
    have E: "x_report l1 l2 t i j = x_report l1 l2 t (i - 1) j @ [\<lparr>rp_what = ODel, rp_i = i - 1, rp_j = j\<rparr>]"
      using del by (subst x_report.simps) simp
    then show ?thesis using 1(3)[OF del] 1(4,5) del by (auto simp: rep_ok_def upt_conv_snoc)
  next
    case none
    then show ?thesis by (simp add: x_report.simps)
  qed
qed

lemma x_report_kept:
  assumes "i \<le> length l1" and "j \<le> length l2"
    and "\<And>a b. a \<le> length l1 \<Longrightarrow> b \<le> length l2 \<Longrightarrow> t ! a ! b = lcs_at l1 l2 a b"
  shows "int (kept (x_report l1 l2 t i j)) = lcs_at l1 l2 i j"
  using assms
proof (induction l1 l2 t i j rule: x_report.induct)
  case (1 l1 l2 t i j)
  show ?case
  proof (cases "i = 0 \<or> j = 0")
    case True
    then show ?thesis using 1 by (subst x_report.simps) auto
  next
    case False
    then obtain i' j' where ij: "i = Suc i'" "j = Suc j'" by (metis not0_implies_Suc)
    then show ?thesis using 1 by (subst x_report.simps) auto
  qed
qed

section \<open>Lines and their numbers\<close>

definition hash_ok :: "xfiles \<Rightarrow> bool" where
  "hash_ok x \<longleftrightarrow> (\<forall>s i. h_lines x s = Some i \<longleftrightarrow> i < length (h_hlines x) \<and> h_hlines x ! i = s)"

definition x_ok :: "xfiles \<Rightarrow> bool" where
  "x_ok x \<longleftrightarrow> hash_ok x \<and> set (f_lines (x_f1 x)) \<union> set (f_lines (x_f2 x)) \<subseteq> {..<length (h_hlines x)}"

definition text_of :: "xfiles \<Rightarrow> nat list \<Rightarrow> string list" where
  "text_of x ids = map ((!) (h_hlines x)) ids"

abbreviation text1 :: "xfiles \<Rightarrow> string list" where "text1 x \<equiv> text_of x (f_lines (x_f1 x))"
abbreviation text2 :: "xfiles \<Rightarrow> string list" where "text2 x \<equiv> text_of x (f_lines (x_f2 x))"

lemma new_xfiles_ok [simp]: "x_ok new_xfiles"
  by (simp add: x_ok_def hash_ok_def new_xfiles_def no_file_def)

lemma hash_inj: "hash_ok x \<Longrightarrow> inj_on ((!) (h_hlines x)) {..<length (h_hlines x)}"
proof (rule inj_onI)
  fix i j
  assume a: "hash_ok x" "i \<in> {..<length (h_hlines x)}" "j \<in> {..<length (h_hlines x)}" "h_hlines x ! i = h_hlines x ! j"
  have h: "h_lines x s = Some k \<longleftrightarrow> k < length (h_hlines x) \<and> h_hlines x ! k = s" for s k
    using a(1) unfolding hash_ok_def by (elim allE) assumption
  have "h_lines x (h_hlines x ! i) = Some i" "h_lines x (h_hlines x ! j) = Some j" using a(2,3) by (simp_all only: h lessThan_iff refl simp_thms)
  then show "i = j" using a(4) by (metis option.inject)
qed

lemma x_addLine_ok:
  assumes "x_ok x" and "fno = 1 \<or> fno = 2"
  shows "x_ok (x_addLine x s fno) \<and> text1 (x_addLine x s fno) = text1 x @ (if fno = 1 then [s] else []) \<and>
    text2 (x_addLine x s fno) = text2 x @ (if fno = 2 then [s] else []) \<and>
    f_name (x_f1 (x_addLine x s fno)) = f_name (x_f1 x) \<and> f_name (x_f2 (x_addLine x s fno)) = f_name (x_f2 x)"
proof (cases "h_lines x s")
  case (Some i)
  then have "i < length (h_hlines x)" "h_hlines x ! i = s" using assms(1) by (auto simp: x_ok_def hash_ok_def)
  moreover have "x_addLine x s fno = add_line_id fno i x" using assms(2) Some by (auto simp: x_addLine_def)
  ultimately show ?thesis using assms by (auto simp: add_line_id_def x_ok_def hash_ok_def text_of_def)
next
  case None
  have old: "\<And>k. k < length (h_hlines x) \<Longrightarrow> h_hlines x ! k \<noteq> s"
    using assms(1) None by (metis hash_ok_def option.distinct(1) x_ok_def)
  have ids: "\<And>k. k \<in> set (f_lines (x_f1 x)) \<union> set (f_lines (x_f2 x)) \<Longrightarrow> k < length (h_hlines x)"
    using assms(1) by (auto simp: x_ok_def)
  have "hash_ok (x\<lparr>h_lines := (h_lines x)(s \<mapsto> length (h_hlines x)), h_hlines := h_hlines x @ [s]\<rparr>)"
    using assms(1) old by (auto simp: x_ok_def hash_ok_def nth_append less_Suc_eq)
  then show ?thesis using assms(2) None ids
    by (auto simp: x_addLine_def add_line_id_def x_ok_def hash_ok_def text_of_def nth_append less_Suc_eq Let_def)
qed

section \<open>Files that are numbered differently\<close>

lemma prefix_loop_map:
  "inj_on f (set l1 \<union> set l2) \<Longrightarrow> prefix_loop (map f l1) (map f l2) i = prefix_loop l1 l2 i"
proof (induction l1 l2 i rule: prefix_loop.induct)
  case (1 l1 l2 i)
  show ?case
    by (subst (1 2) prefix_loop.simps) (use 1 in \<open>auto simp: inj_on_eq_iff\<close>)
qed

lemma suffix_loop_map:
  "inj_on f (set l1 \<union> set l2) \<Longrightarrow> suffix_loop (map f l1) (map f l2) i = suffix_loop l1 l2 i"
  using prefix_loop_map[of f "rev l1" "rev l2" i] by (simp add: suffix_loop_rev rev_map)

lemma lcs_at_map:
  "inj_on f (set l1 \<union> set l2) \<Longrightarrow> i \<le> length l1 \<Longrightarrow> j \<le> length l2 \<Longrightarrow> lcs_at (map f l1) (map f l2) i j = lcs_at l1 l2 i j"
  by (induction l1 l2 i j rule: lcs_at.induct) (auto simp: inj_on_eq_iff)

lemma x_report_map:
  assumes "inj_on f (set l1 \<union> set l2)" and "i \<le> length l1" and "j \<le> length l2"
    and "\<And>a b. a \<le> length l1 \<Longrightarrow> b \<le> length l2 \<Longrightarrow> t ! a ! b = t' ! a ! b"
  shows "x_report (map f l1) (map f l2) t' i j = x_report l1 l2 t i j"
  using assms
proof (induction l1 l2 t i j rule: x_report.induct)
  case (1 l1 l2 t i j)
  have e: "0 < i \<Longrightarrow> 0 < j \<Longrightarrow> map f l1 ! (i - 1) = map f l2 ! (j - 1) \<longleftrightarrow> l1 ! (i - 1) = l2 ! (j - 1)"
    using 1(4-6) by (auto simp: inj_on_eq_iff)
  have T: "0 < i \<Longrightarrow> 0 < j \<Longrightarrow> t' ! i ! (j - 1) = t ! i ! (j - 1) \<and> t' ! (i - 1) ! j = t ! (i - 1) ! j"
    using 1(5-7) by simp
  show ?case
    by (subst (1 2) x_report.simps) (use 1 e T in \<open>auto simp: simp del: nth_map\<close>)
qed

definition strip_lists :: "'a list \<Rightarrow> 'a list \<Rightarrow> 'a list \<times> 'a list \<times> 'a list \<times> 'a list" where
  "strip_lists l1 l2 = (let (p, a1, a2) = diff_prefix l1 l2; (s, m1, m2) = diff_suffix a1 a2 in (p, s, m1, m2))"

lemma diff_prefix_map:
  "inj_on f (set l1 \<union> set l2) \<Longrightarrow>
    diff_prefix (map f l1) (map f l2) = (case diff_prefix l1 l2 of (p, a1, a2) \<Rightarrow> (map f p, map f a1, map f a2))"
  by (simp add: diff_prefix_def Let_def prefix_loop_map take_map drop_map)

lemma diff_suffix_map:
  "inj_on f (set l1 \<union> set l2) \<Longrightarrow>
    diff_suffix (map f l1) (map f l2) = (case diff_suffix l1 l2 of (p, a1, a2) \<Rightarrow> (map f p, map f a1, map f a2))"
  by (simp add: diff_suffix_def Let_def suffix_loop_map take_map drop_map)

lemma strip_lists_map:
  assumes "inj_on f (set l1 \<union> set l2)"
  shows "strip_lists (map f l1) (map f l2) =
    (case strip_lists l1 l2 of (p, s, m1, m2) \<Rightarrow> (map f p, map f s, map f m1, map f m2))"
proof -
  obtain p a1 a2 where p: "diff_prefix l1 l2 = (p, a1, a2)" by (metis prod_cases3)
  have "set a1 \<union> set a2 \<subseteq> set l1 \<union> set l2" using diff_prefix_spec[OF p] by auto
  then show ?thesis using diff_suffix_map[OF inj_on_subset[OF assms], of a1 a2]
    by (simp add: strip_lists_def diff_prefix_map[OF assms] p split: prod.splits)
qed

lemma strip_lists_spec:
  assumes "strip_lists l1 l2 = (p, s, m1, m2)"
  shows "l1 = p @ m1 @ s" and "l2 = p @ m2 @ s"
  using assms diff_prefix_spec diff_suffix_spec by (fastforce simp: strip_lists_def split: prod.splits)+

text \<open>What is left has no line in common at its start.\<close>

lemma prefix_loop_stops:
  "prefix_loop l1 l2 i < length l1 \<Longrightarrow> prefix_loop l1 l2 i < length l2 \<Longrightarrow>
    l1 ! prefix_loop l1 l2 i \<noteq> l2 ! prefix_loop l1 l2 i"
proof (induction l1 l2 i rule: prefix_loop.induct)
  case (1 l1 l2 i)
  then show ?case by (subst (1 2) prefix_loop.simps) (auto simp: prefix_loop.simps[of l1 l2 i] split: if_splits)
qed

lemma strip_lists_differ:
  assumes "strip_lists l1 l2 = (p, s, m1, m2)" and "m1 \<noteq> []" and "m2 \<noteq> []"
  shows "hd m1 \<noteq> hd m2"
proof -
  obtain a1 a2 where a: "diff_prefix l1 l2 = (p, a1, a2)" "diff_suffix a1 a2 = (s, m1, m2)"
    using assms(1) by (auto simp: strip_lists_def split: prod.splits)
  note d = diff_suffix_spec[OF a(2)]
  let ?k = "prefix_loop l1 l2 0"
  have k: "a1 = drop ?k l1" "a2 = drop ?k l2" using a(1) by (auto simp: diff_prefix_def Let_def)
  have n: "a1 \<noteq> []" "a2 \<noteq> []" using d assms(2,3) by auto
  then have "l1 ! ?k \<noteq> l2 ! ?k" using prefix_loop_stops[of l1 l2 0] k by simp
  moreover have "hd a1 = l1 ! ?k" "hd a2 = l2 ! ?k" using n k by (simp_all add: hd_drop_conv_nth)
  moreover have "hd a1 = hd m1" "hd a2 = hd m2" using d assms(2,3) by simp_all
  ultimately show ?thesis by simp
qed

lemma strip_lists_equal:
  assumes "strip_lists l1 l2 = (p, s, m1, m2)"
  shows "l1 = l2 \<longleftrightarrow> m1 = [] \<and> m2 = []"
  using strip_lists_spec[OF assms] strip_lists_differ[OF assms] by auto

lemma subseq_tl: "subseq zs (x # xs) \<Longrightarrow> subseq (tl zs) xs"
  by (cases zs) (auto simp: subseq_Cons2_iff split: if_splits dest: subseq_Cons')

lemma common_append:
  assumes "subseq zs (p @ m1 @ s)" and "subseq zs (p @ m2 @ s)"
    and "\<And>ys. subseq ys m1 \<Longrightarrow> subseq ys m2 \<Longrightarrow> length ys \<le> n"
  shows "length zs \<le> length p + n + length s"
proof -
  have tail: "length ys \<le> n + length s" if "subseq ys (m1 @ s)" "subseq ys (m2 @ s)" for ys
    using that
  proof (induction s arbitrary: ys rule: rev_induct)
    case Nil
    then show ?case using assms(3) by simp
  next
    case (snoc x s)
    have "subseq ys ((m1 @ s) @ [x])" "subseq ys ((m2 @ s) @ [x])" using snoc.prems by simp_all
    then have "subseq (butlast ys) (m1 @ s)" "subseq (butlast ys) (m2 @ s)"
      by (blast intro: subseq_butlast)+
    from snoc.IH[OF this] show ?case by simp
  qed
  show ?thesis using assms(1,2)
  proof (induction p arbitrary: zs)
    case Nil
    then show ?case using tail by simp
  next
    case (Cons c p)
    have t: "subseq (tl zs) (p @ m1 @ s)" "subseq (tl zs) (p @ m2 @ s)" using Cons.prems subseq_tl by simp_all
    from Cons.IH[OF t] show ?case by simp
  qed
qed

section \<open>Comparing two files\<close>

lemma x_strip_lists:
  assumes "strip_lists (f_lines (x_f1 x)) (f_lines (x_f2 x)) = (p, s, m1, m2)"
  shows "x_strip x = x\<lparr>x_prefix := p, x_suffix := s, x_f1 := (x_f1 x)\<lparr>f_lines := m1\<rparr>, x_f2 := (x_f2 x)\<lparr>f_lines := m2\<rparr>\<rparr>"
  using assms by (auto simp: x_strip_def strip_lists_def split: prod.splits)

lemma x_diff_cases:
  assumes "strip_lists (f_lines (x_f1 x)) (f_lines (x_f2 x)) = (p, s, m1, m2)"
  shows "x_diff lflag qflag x =
    (let y = x\<lparr>x_prefix := p, x_suffix := s, x_f1 := (x_f1 x)\<lparr>f_lines := m1\<rparr>, x_f2 := (x_f2 x)\<lparr>f_lines := m2\<rparr>\<rparr>;
         z = y\<lparr>x_lcs := lcs_table m1 m2\<rparr>; head = diff_head ''#diffs'' (f_name (x_f1 x)) (f_name (x_f2 x))
     in if m1 = [] \<and> m2 = [] then ((None, []), y)
        else if qflag then ((Some errDiffs, [head]), y)
        else ((fst (x_showreport lflag z (x_script z)), head # snd (x_showreport lflag z (x_script z))), z))"
  by (simp add: x_diff_def x_strip_lists[OF assms] Let_def split: prod.splits)

lemma x_script_lcs:
  assumes "f_lines (x_f1 z) = m1" and "f_lines (x_f2 z) = m2" and "x_lcs z = lcs_table m1 m2 \<or> m1 = [] \<and> m2 = []"
  shows "old_part (x_script z) = [0..<length m1] \<and> new_part (x_script z) = [0..<length m2] \<and>
    (\<forall>r\<in>set (x_script z). rep_ok m1 m2 r) \<and> int (kept (x_script z)) = lcs_at m1 m2 (length m1) (length m2)"
proof (cases "m1 = [] \<and> m2 = []")
  case True
  then show ?thesis using assms(1,2) by (simp add: x_script_def x_report.simps)
next
  case False
  then have t: "x_lcs z = lcs_table m1 m2" using assms(3) by blast
  show ?thesis
    using x_report_parts[of "length m1" m1 "length m2" m2 "lcs_table m1 m2"]
      x_report_kept[of "length m1" m1 "length m2" m2 "lcs_table m1 m2"] lcs_table_at[of _ m1 _ m2]
    by (simp add: x_script_def assms(1,2) t)
qed

lemma lcs_text_bound:
  assumes "inj_on f (set m1 \<union> set m2)" and "subseq ys (map f m1)" and "subseq ys (map f m2)"
  shows "len ys \<le> lcs_at m1 m2 (length m1) (length m2)"
  using lcs_at_bound[of ys "length m1" "map f m1" "length m2" "map f m2"] assms lcs_at_map[OF assms(1)] by simp

text \<open>
  C35: whatever the two files, the script, with the lines set aside at both ends, goes through every line of both
  in order; the lines it says are equal are; and no subsequence in common of the files is longer than what the
  script keeps of them.
\<close>

theorem diffs_script:
  assumes "x_ok x"
  shows "let x' = snd (x_diff lflag False x); rs = x_script x' in
    text1 x = text_of x' (x_prefix x') @ map ((!) (text1 x')) (old_part rs) @ text_of x' (x_suffix x') \<and>
    text2 x = text_of x' (x_prefix x') @ map ((!) (text2 x')) (new_part rs) @ text_of x' (x_suffix x') \<and>
    (\<forall>r\<in>set rs. rp_what r = OEq \<longrightarrow> text1 x' ! rp_i r = text2 x' ! rp_j r) \<and>
    (\<forall>zs. subseq zs (text1 x) \<and> subseq zs (text2 x) \<longrightarrow> length zs \<le> length (x_prefix x') + kept rs + length (x_suffix x'))"
proof -
  obtain p s m1 m2 where st: "strip_lists (f_lines (x_f1 x)) (f_lines (x_f2 x)) = (p, s, m1, m2)" by (metis prod_cases4)
  define z where "z = snd (x_diff lflag False x)"
  have z: "h_hlines z = h_hlines x" "x_prefix z = p" "x_suffix z = s" "f_lines (x_f1 z) = m1" "f_lines (x_f2 z) = m2"
    "x_lcs z = lcs_table m1 m2 \<or> m1 = [] \<and> m2 = []"
    by (auto simp: z_def x_diff_cases[OF st] Let_def)
  note sc = x_script_lcs[OF z(4-6)]
  note l = strip_lists_spec[OF st]
  have inj: "inj_on ((!) (h_hlines x)) (set m1 \<union> set m2)"
    using assms l by (auto simp: x_ok_def intro: inj_on_subset[OF hash_inj])
  have t: "text1 z = map ((!) (h_hlines x)) m1" "text2 z = map ((!) (h_hlines x)) m2" by (simp_all add: text_of_def z)
  have c: "length zs \<le> length p + kept (x_script z) + length s" if "subseq zs (text1 x)" "subseq zs (text2 x)" for zs
    using that lcs_text_bound[OF inj] sc
      common_append[of zs "map ((!) (h_hlines x)) p" "map ((!) (h_hlines x)) m1" "map ((!) (h_hlines x)) s"
        "map ((!) (h_hlines x)) m2" "kept (x_script z)"]
    by (fastforce simp: text_of_def l)
  have e: "\<forall>r\<in>set (x_script z). rp_what r = OEq \<longrightarrow> text1 z ! rp_i r = text2 z ! rp_j r"
    using sc by (auto simp: rep_ok_def t)
  have m: "map ((!) (text1 z)) [0..<length m1] = text1 z" "map ((!) (text2 z)) [0..<length m2] = text2 z"
    by (simp_all add: map_nth[symmetric] t del: map_map) (metis length_map map_nth)+
  show ?thesis
    unfolding Let_def z_def[symmetric] using c e m sc by (auto simp: text_of_def z l)
qed

lemma x_script_differs:
  assumes "f_lines (x_f1 z) = m1" and "f_lines (x_f2 z) = m2" and "x_lcs z = lcs_table m1 m2" and "m1 \<noteq> m2"
  shows "\<exists>r\<in>set (x_script z). rp_what r \<noteq> OEq"
proof (rule ccontr)
  assume "\<not> ?thesis"
  then have a: "\<forall>r\<in>set (x_script z). rp_what r = OEq" by simp
  note sc = x_script_lcs[OF assms(1,2) disjI1[OF assms(3)]]
  have i: "map rp_i (x_script z) = [0..<length m1]" "map rp_j (x_script z) = [0..<length m2]"
    using sc a by (auto simp: old_part_def new_part_def cong: filter_cong)
  then have n: "length m1 = length m2" by (metis diff_zero length_map length_upt)
  have "m1 ! k = m2 ! k" if "k < length m1" for k
  proof -
    have k: "k < length (x_script z)" using that i(1) by (metis diff_zero length_map length_upt)
    have "rp_i (x_script z ! k) = k" using i(1) k that by (metis add_0 nth_map nth_upt)
    moreover have "rp_j (x_script z ! k) = k" using i(2) k that n by (metis add_0 nth_map nth_upt)
    ultimately show ?thesis using a sc nth_mem[OF k] by (auto simp: rep_ok_def)
  qed
  then show False using n assms(4) by (simp add: nth_equalityI)
qed

section \<open>What is printed\<close>

definition line_of :: "xfiles \<Rightarrow> rep \<Rightarrow> string" where
  "line_of x r = (case rp_what r of
     OEq \<Rightarrow> [] | OAdd \<Rightarrow> ''+ '' @ text2 x ! rp_j r | ODel \<Rightarrow> ''- '' @ text1 x ! rp_i r)"

text \<open>The address of the lines \<open>ls\<close> of a file; a file with none of them has the address of a line.\<close>

definition grp_addr :: "string \<Rightarrow> int \<Rightarrow> nat list \<Rightarrow> addr \<Rightarrow> bool" where
  "grp_addr nm np ls a \<longleftrightarrow> a_Name a = nm \<and> a_P0 a = 0 \<and> a_P1 a = 0 \<and>
     (if ls = [] then a_Ln0 a = a_Ln1 a
      else ls = [hd ls..<hd ls + length ls] \<and> a_Ln0 a = int (hd ls) + 1 + np \<and> a_Ln1 a = int (hd ls) + len ls + np)"

definition grp_head :: "xfiles \<Rightarrow> rep list \<Rightarrow> string \<Rightarrow> bool" where
  "grp_head x g h \<longleftrightarrow> g \<noteq> [] \<and> (\<exists>a1 a2. h = diff_head ''#diff'' (zx_Addr_String a1) (zx_Addr_String a2) \<and>
     grp_addr (f_name (x_f1 x)) (len (x_prefix x)) (old_part g) a1 \<and>
     grp_addr (f_name (x_f2 x)) (len (x_prefix x)) (new_part g) a2)"

text \<open>
  What is printed is a list of blocks: a group with its header, or a line that both files have, which is printed
  with the flag \<open>-l\<close> only and has no header.
\<close>

definition is_shown :: "bool \<Rightarrow> rep \<Rightarrow> bool" where
  "is_shown l r \<longleftrightarrow> l \<or> rp_what r \<noteq> OEq"

definition block_out :: "xfiles \<Rightarrow> string \<times> rep list \<Rightarrow> string list" where
  "block_out x b = (if map rp_what (snd b) = [OEq] then [''  '' @ text1 x ! rp_i (hd (snd b))]
     else [fst b, concat (map (line_of x) (snd b))])"

definition block_ok :: "xfiles \<Rightarrow> string \<times> rep list \<Rightarrow> bool" where
  "block_ok x b \<longleftrightarrow> map rp_what (snd b) = [OEq] \<or> (\<forall>r\<in>set (snd b). rp_what r \<noteq> OEq) \<and> grp_head x (snd b) (fst b)"

lemma group_block: "\<forall>r\<in>set g. rp_what r \<noteq> OEq \<Longrightarrow> block_out x (h, g) = [h, concat (map (line_of x) g)]"
  by (auto simp: block_out_def)

text \<open>The address kept for the lines \<open>ls\<close> that a group has so far, of which the last was before \<open>i\<close>.\<close>

definition cur_addr :: "string \<Rightarrow> int \<Rightarrow> nat list \<Rightarrow> nat \<Rightarrow> addr \<Rightarrow> int \<Rightarrow> bool" where
  "cur_addr nm np ls i a n \<longleftrightarrow> a_Name a = nm \<and> a_P0 a = 0 \<and> a_P1 a = 0 \<and> n = len ls \<and>
     (if ls = [] then a_Ln0 a = 0 else a_Ln0 a = int (hd ls) + 1 + np) \<and> length ls \<le> i \<and> ls = [i - length ls..<i]"

definition shown :: "bool \<Rightarrow> xfiles \<Rightarrow> rep list \<Rightarrow> (string \<times> rep list) list \<Rightarrow> rep list \<Rightarrow> show_state \<Rightarrow> bool" where
  "shown l x rs gs g s \<longleftrightarrow>
     sh_out s = concat (map (block_out x) gs) \<and>
     filter (is_shown l) rs = concat (map snd gs) @ g \<and> list_all (block_ok x) gs \<and>
     (\<forall>r\<in>set g. rp_what r \<noteq> OEq) \<and> sh_buf s = concat (map (line_of x) g) \<and>
     cur_addr (f_name (x_f1 x)) (len (x_prefix x)) (old_part g) (length (old_part rs)) (sh_a1 s) (sh_n1 s) \<and>
     cur_addr (f_name (x_f2 x)) (len (x_prefix x)) (new_part g) (length (new_part rs)) (sh_a2 s) (sh_n2 s) \<and>
     sh_err s = (if \<exists>r\<in>set rs. rp_what r \<noteq> OEq then Some errDiffs else None)"

lemma line_of_nonempty: "rp_what r \<noteq> OEq \<Longrightarrow> line_of x r \<noteq> []"
  by (cases "rp_what r") (simp_all add: line_of_def)

lemma lines_empty: "\<forall>r\<in>set g. rp_what r \<noteq> OEq \<Longrightarrow> concat (map (line_of x) g) = [] \<longleftrightarrow> g = []"
  by (cases g) (simp_all add: line_of_nonempty)

lemma cur_grp_addr:
  assumes "cur_addr nm np ls i a n" and "0 \<le> np" and "b = (if a_Ln0 a = 0 then (k, 1) else (a_Ln0 a, n))"
  shows "grp_addr nm np ls (a\<lparr>a_Ln0 := fst b, a_Ln1 := fst b + snd b - 1\<rparr>)"
proof (cases "ls = []")
  case True
  then show ?thesis using assms by (simp add: cur_addr_def grp_addr_def)
next
  case False
  then have "0 < length ls" by simp
  moreover have c: "length ls \<le> i" "ls = [i - length ls..<i]" using assms(1) by (simp_all only: cur_addr_def)
  ultimately have "i - length ls < i" by linarith
  then have h: "hd ls = i - length ls" using c(2) by (metis hd_upt)
  then have "ls = [hd ls..<hd ls + length ls]" using c by (metis le_add_diff_inverse2)
  then show ?thesis using assms False by (simp add: cur_addr_def grp_addr_def)
qed

text \<open>An item that goes on with the current group.\<close>

lemma cur_addr_add:
  assumes "cur_addr nm np ls i a n" and "0 \<le> np"
  shows "cur_addr nm np (ls @ [i]) (Suc i) (if a_Ln0 a = 0 then a\<lparr>a_Ln0 := int i + 1 + np\<rparr> else a) (n + 1)"
proof -
  have c: "length ls \<le> i" "ls = [i - length ls..<i]" using assms(1) by (simp_all only: cur_addr_def)
  have "ls @ [i] = [i - length ls..<i] @ [i]" using c(2) by (rule arg_cong)
  then have l: "ls @ [i] = [Suc i - length (ls @ [i])..<Suc i]" using c(1) by simp
  have a: "a_Name a = nm" "a_P0 a = 0" "a_P1 a = 0" "n = len ls" "if ls = [] then a_Ln0 a = 0 else a_Ln0 a = int (hd ls) + 1 + np"
    using assms(1) unfolding cur_addr_def by blast+
  show ?thesis
    unfolding cur_addr_def
  proof (intro conjI)
    show "ls @ [i] = [Suc i - length (ls @ [i])..<Suc i]" by (rule l)
  qed (use a assms(2) c(1) in \<open>auto split: if_splits\<close>)
qed

lemma cur_addr_none: "cur_addr nm np [] i (name_addr nm) 0"
  by (simp add: cur_addr_def)

lemma show_group_shown:
  assumes "shown l x rs gs g s"
  shows "\<exists>gs'. sh_out (show_group k1 k2 s) = concat (map (block_out x) gs') \<and>
    filter (is_shown l) rs = concat (map snd gs') \<and> list_all (block_ok x) gs'"
proof (cases "g = []")
  case True
  then show ?thesis using assms by (auto simp: shown_def show_group_def intro!: exI[of _ gs])
next
  case False
  then have b: "sh_buf s \<noteq> []" using assms lines_empty by (auto simp: shown_def)
  let ?b1 = "if a_Ln0 (sh_a1 s) = 0 then (k1, 1) else (a_Ln0 (sh_a1 s), sh_n1 s)"
  let ?b2 = "if a_Ln0 (sh_a2 s) = 0 then (k2, 1) else (a_Ln0 (sh_a2 s), sh_n2 s)"
  let ?a1 = "(sh_a1 s)\<lparr>a_Ln0 := fst ?b1, a_Ln1 := fst ?b1 + snd ?b1 - 1\<rparr>"
  let ?a2 = "(sh_a2 s)\<lparr>a_Ln0 := fst ?b2, a_Ln1 := fst ?b2 + snd ?b2 - 1\<rparr>"
  let ?h = "diff_head ''#diff'' (zx_Addr_String ?a1) (zx_Addr_String ?a2)"
  have "grp_addr (f_name (x_f1 x)) (len (x_prefix x)) (old_part g) ?a1"
    "grp_addr (f_name (x_f2 x)) (len (x_prefix x)) (new_part g) ?a2"
    using assms by (auto simp only: shown_def intro!: cur_grp_addr)
  then have "grp_head x g ?h" using False unfolding grp_head_def by blast
  then have "block_ok x (?h, g)" "block_out x (?h, g) = [?h, sh_buf s]"
    using assms by (simp_all add: shown_def block_ok_def group_block)
  moreover have "sh_out (show_group k1 k2 s) = sh_out s @ [?h, sh_buf s]"
    using b by (simp add: show_group_def Let_def)
  ultimately show ?thesis using assms by (intro exI[of _ "gs @ [(?h, g)]"]) (simp add: shown_def)
qed

lemma show_group_fields: "sh_err (show_group k1 k2 s) = sh_err s"
  by (simp add: show_group_def Let_def split: prod.splits)

lemma show_group_buf: "sh_buf (show_group k1 k2 s) = []"
  by (simp add: show_group_def Let_def split: prod.splits)

lemma show_rep_shown:
  assumes "shown l x rs gs g s" and "rep_ok (f_lines (x_f1 x)) (f_lines (x_f2 x)) r"
    and "rp_what r \<noteq> OAdd \<Longrightarrow> rp_i r = length (old_part rs)" and "rp_what r \<noteq> ODel \<Longrightarrow> rp_j r = length (new_part rs)"
  shows "\<exists>gs' g'. shown l x (rs @ [r]) gs' g' (show_rep l x r s)"
proof (cases "rp_what r")
  case OEq
  let ?s = "show_group (int (rp_i r) + 1 + len (x_prefix x)) (int (rp_j r) + 1 + len (x_prefix x)) (s\<lparr>sh_r := r\<rparr>)"
  have "shown l x rs gs g (s\<lparr>sh_r := r\<rparr>)" using assms(1) by (simp add: shown_def)
  from show_group_shown[OF this] obtain gs' where
    "sh_out ?s = concat (map (block_out x) gs')" "filter (is_shown l) rs = concat (map snd gs')" "list_all (block_ok x) gs'"
    by blast
  moreover have "sh_err ?s = sh_err s" by (simp add: show_group_fields)
  moreover have "h_hlines x ! (f_lines (x_f1 x) ! rp_i r) = text1 x ! rp_i r"
    using assms(2) OEq by (simp add: rep_ok_def text_of_def)
  ultimately have "shown l x (rs @ [r]) (gs' @ (if l then [([], [r])] else [])) [] (show_rep l x r s)"
    using OEq assms(1)
    by (auto simp: shown_def show_rep_def Let_def show_group_buf cur_addr_none is_shown_def block_out_def block_ok_def)
  then show ?thesis by blast
next
  case OAdd
  have "shown l x (rs @ [r]) gs (g @ [r]) (show_rep l x r s)"
    using OAdd assms cur_addr_add[of "f_name (x_f2 x)" "len (x_prefix x)" "new_part g" "length (new_part rs)" "sh_a2 s" "sh_n2 s"]
    by (auto simp: shown_def show_rep_def Let_def line_of_def text_of_def rep_ok_def is_shown_def)
  then show ?thesis by blast
next
  case ODel
  have "shown l x (rs @ [r]) gs (g @ [r]) (show_rep l x r s)"
    using ODel assms cur_addr_add[of "f_name (x_f1 x)" "len (x_prefix x)" "old_part g" "length (old_part rs)" "sh_a1 s" "sh_n1 s"]
    by (auto simp: shown_def show_rep_def Let_def line_of_def text_of_def rep_ok_def is_shown_def)
  then show ?thesis by blast
qed

lemma part_at:
  assumes "old_part (rs @ r # ss) = [0..<n]" and "rp_what r \<noteq> OAdd"
  shows "rp_i r = length (old_part rs)"
proof -
  have "old_part (rs @ r # ss) = old_part rs @ rp_i r # old_part ss" using assms(2) by (simp add: old_part_def)
  then have e: "[0..<n] = old_part rs @ rp_i r # old_part ss" using assms(1) by simp
  then have l: "length (old_part rs) < n" by (metis diff_zero length_upt length_append list.size(4) less_add_Suc1 add_Suc_right)
  have "[0..<n] ! length (old_part rs) = rp_i r" using e by simp
  then show ?thesis using l by simp
qed

lemma new_part_at:
  assumes "new_part (rs @ r # ss) = [0..<n]" and "rp_what r \<noteq> ODel"
  shows "rp_j r = length (new_part rs)"
proof -
  have "new_part (rs @ r # ss) = new_part rs @ rp_j r # new_part ss" using assms(2) by (simp add: new_part_def)
  then have e: "[0..<n] = new_part rs @ rp_j r # new_part ss" using assms(1) by simp
  then have l: "length (new_part rs) < n" by (metis diff_zero length_upt length_append list.size(4) less_add_Suc1 add_Suc_right)
  have "[0..<n] ! length (new_part rs) = rp_j r" using e by simp
  then show ?thesis using l by simp
qed

lemma shown_start: "shown l x [] [] [] (show_start x)"
  by (simp add: shown_def show_start_def cur_addr_none)

lemma show_fold_shown:
  assumes "old_part (rs @ ss) = [0..<n]" and "new_part (rs @ ss) = [0..<k]"
    and "\<forall>r\<in>set rs. rep_ok (f_lines (x_f1 x)) (f_lines (x_f2 x)) r"
  shows "\<exists>gs g. shown l x rs gs g (fold (show_rep l x) rs (show_start x))"
  using assms
proof (induction rs arbitrary: ss rule: rev_induct)
  case Nil
  then show ?case using shown_start by auto
next
  case (snoc r rs)
  have "old_part (rs @ r # ss) = [0..<n]" "new_part (rs @ r # ss) = [0..<k]" using snoc.prems(1,2) by simp_all
  from snoc.IH[OF this] snoc.prems(3) obtain gs g where
    "shown l x rs gs g (fold (show_rep l x) rs (show_start x))" by auto
  from show_rep_shown[OF this, of r] snoc.prems show ?case
    using part_at[of rs r ss n] new_part_at[of rs r ss k] by simp
qed

text \<open>The lines in common at the ends, printed with the flag \<open>-l\<close>.\<close>

definition ends_shown :: "bool \<Rightarrow> xfiles \<Rightarrow> nat list \<Rightarrow> string list" where
  "ends_shown l x ls = (if l then map ((@) ''  '') (text_of x ls) else [])"

lemma x_showreport_groups:
  assumes "f_lines (x_f1 z) = m1" and "f_lines (x_f2 z) = m2" and "x_lcs z = lcs_table m1 m2" and "m1 \<noteq> m2"
  shows "fst (x_showreport l z (x_script z)) = (if l \<and> x_suffix z \<noteq> [] then None else Some errDiffs) \<and>
    (\<exists>gs. snd (x_showreport l z (x_script z)) =
      ends_shown l z (x_prefix z) @ concat (map (block_out z) gs) @ ends_shown l z (x_suffix z) \<and>
    concat (map snd gs) = filter (is_shown l) (x_script z) \<and> list_all (block_ok z) gs)"
proof -
  note sc = x_script_lcs[OF assms(1,2) disjI1[OF assms(3)]]
  let ?s = "fold (show_rep l z) (x_script z) (show_start z)"
  obtain gs g where s: "shown l z (x_script z) gs g ?s"
    using show_fold_shown[of "x_script z" "[]" "length m1" "length m2" z l] sc assms(1,2) by auto
  let ?k1 = "int (rp_i (sh_r ?s)) + len (x_prefix z)" and ?k2 = "int (rp_j (sh_r ?s)) + len (x_prefix z)"
  obtain gs' where
    "sh_out (show_group ?k1 ?k2 ?s) = concat (map (block_out z) gs')"
    "filter (is_shown l) (x_script z) = concat (map snd gs')" "list_all (block_ok z) gs'"
    using show_group_shown[OF s] by blast
  moreover have "sh_err (show_group ?k1 ?k2 ?s) = Some errDiffs"
    using s x_script_differs[OF assms] by (simp only: show_group_fields) (simp add: shown_def)
  moreover have "map (\<lambda>ln. w @ h_hlines z ! ln) ls = map ((@) w) (text_of z ls)" for w :: string and ls
    by (simp add: text_of_def)
  ultimately show ?thesis
    by (intro conjI exI[of _ gs']) (simp_all add: x_showreport_def Let_def ends_shown_def del: append_Cons append_Nil)
qed

text \<open>
  C36: nothing is printed for two files that are equal, whatever the flags, and their status is nil.  For files
  that differ a header is printed, and with \<open>-q\<close> nothing else; the status says that they differ.  Without \<open>-q\<close>
  the header is followed by the lines that the script adds and removes, in order and in groups, each with the
  numbers that its lines have in the files.  With \<open>-l\<close> the lines that both files have are printed too, each where
  it is, from the first line to the last; then the status of files that differ and end in common lines is nil, as
  \<open>diffs_l_status\<close> shows of two of them.
\<close>

theorem diffs_printed:
  assumes "x_ok x" and "x_diff lflag qflag x = ((err, outs), x')"
  shows "if text1 x = text2 x then err = None \<and> outs = []
    else if qflag then err = Some errDiffs \<and> outs = [diff_head ''#diffs'' (f_name (x_f1 x)) (f_name (x_f2 x))]
    else err = (if lflag \<and> x_suffix x' \<noteq> [] then None else Some errDiffs) \<and>
      (\<exists>gs. outs = diff_head ''#diffs'' (f_name (x_f1 x)) (f_name (x_f2 x)) #
            ends_shown lflag x' (x_prefix x') @ concat (map (block_out x') gs) @ ends_shown lflag x' (x_suffix x') \<and>
          concat (map snd gs) = filter (is_shown lflag) (x_script x') \<and> list_all (block_ok x') gs)"
proof -
  obtain p s m1 m2 where st: "strip_lists (f_lines (x_f1 x)) (f_lines (x_f2 x)) = (p, s, m1, m2)" by (metis prod_cases4)
  have "inj_on ((!) (h_hlines x)) (set (f_lines (x_f1 x)) \<union> set (f_lines (x_f2 x)))"
    using assms(1) by (auto simp: x_ok_def intro: inj_on_subset[OF hash_inj])
  then have eq: "text1 x = text2 x \<longleftrightarrow> m1 = [] \<and> m2 = []"
    using strip_lists_equal[OF st] by (simp add: text_of_def inj_on_map_eq_map)
  consider "m1 = [] \<and> m2 = []" | "\<not> (m1 = [] \<and> m2 = [])" qflag | "\<not> (m1 = [] \<and> m2 = [])" "\<not> qflag" by blast
  then show ?thesis
  proof cases
    case 3
    have z: "f_lines (x_f1 x') = m1" "f_lines (x_f2 x') = m2" "x_lcs x' = lcs_table m1 m2"
      "err = fst (x_showreport lflag x' (x_script x'))"
      "outs = diff_head ''#diffs'' (f_name (x_f1 x)) (f_name (x_f2 x)) # snd (x_showreport lflag x' (x_script x'))"
      using assms(2) 3 by (auto simp: x_diff_cases[OF st] Let_def)
    have "m1 \<noteq> m2" using strip_lists_differ[OF st] 3 by auto
    from x_showreport_groups[OF z(1-3) this, of lflag] show ?thesis using z(4,5) eq 3 by simp
  qed (use assms(2) eq in \<open>auto simp: x_diff_cases[OF st] Let_def\<close>)
qed

section \<open>Reading the streams in any order\<close>

definition same_files :: "xfiles \<Rightarrow> xfiles \<Rightarrow> bool" where
  "same_files x y \<longleftrightarrow> x_ok x \<and> x_ok y \<and> text1 x = text1 y \<and> text2 x = text2 y \<and>
     f_name (x_f1 x) = f_name (x_f1 y) \<and> f_name (x_f2 x) = f_name (x_f2 y)"

lemma showreport_same:
  assumes "\<forall>r\<in>set rs. rep_ok (f_lines (x_f1 x)) (f_lines (x_f2 x)) r"
    and "\<forall>r\<in>set rs. rep_ok (f_lines (x_f1 y)) (f_lines (x_f2 y)) r"
    and "text1 x = text1 y" and "text2 x = text2 y"
    and "text_of x (x_prefix x) = text_of y (x_prefix y)" and "text_of x (x_suffix x) = text_of y (x_suffix y)"
    and "f_name (x_f1 x) = f_name (x_f1 y)" and "f_name (x_f2 x) = f_name (x_f2 y)"
  shows "x_showreport lflag x rs = x_showreport lflag y rs"
proof -
  have np: "length (x_prefix x) = length (x_prefix y)" "x_suffix x = [] \<longleftrightarrow> x_suffix y = []"
    using assms(5,6) by (auto simp: text_of_def dest: map_eq_imp_length_eq)
  have l: "i < length (f_lines (x_f1 x)) \<Longrightarrow> h_hlines x ! (f_lines (x_f1 x) ! i) = h_hlines y ! (f_lines (x_f1 y) ! i)"
    "j < length (f_lines (x_f2 x)) \<Longrightarrow> h_hlines x ! (f_lines (x_f2 x) ! j) = h_hlines y ! (f_lines (x_f2 y) ! j)" for i j
    using assms(3,4) map_eq_imp_length_eq[of _ "f_lines (x_f1 x)"] map_eq_imp_length_eq[of _ "f_lines (x_f2 x)"]
    by (metis nth_map text_of_def)+
  have step: "show_rep lflag x r s = show_rep lflag y r s" if "r \<in> set rs" for r s
  proof -
    have "rp_what r \<noteq> OAdd \<Longrightarrow> rp_i r < length (f_lines (x_f1 x))" "rp_what r \<noteq> ODel \<Longrightarrow> rp_j r < length (f_lines (x_f2 x))"
      using that assms(1) by (auto simp: rep_ok_def)
    then show ?thesis using assms(7,8) np(1) l by (cases "rp_what r") (simp_all add: show_rep_def Let_def)
  qed
  have "fold (show_rep lflag x) rs s = fold (show_rep lflag y) rs s" for s
    using step by (intro fold_cong) auto
  moreover have "show_start x = show_start y" using assms(7,8) by (simp add: show_start_def)
  moreover have "map (\<lambda>ln. w @ h_hlines v ! ln) ls = map ((@) w) (text_of v ls)" for w :: string and v ls
    by (simp add: text_of_def)
  ultimately show ?thesis using assms(5,6) np by (simp add: x_showreport_def Let_def del: append_Cons append_Nil)
qed

lemma x_diff_same:
  assumes "same_files x y"
  shows "fst (x_diff lflag qflag x) = fst (x_diff lflag qflag y)"
proof -
  let ?f = "(!) (h_hlines x)" and ?g = "(!) (h_hlines y)"
  let ?x1 = "f_lines (x_f1 x)" and ?x2 = "f_lines (x_f2 x)" and ?y1 = "f_lines (x_f1 y)" and ?y2 = "f_lines (x_f2 y)"
  have inj: "inj_on ?f (set ?x1 \<union> set ?x2)" "inj_on ?g (set ?y1 \<union> set ?y2)"
    using assms by (auto simp: same_files_def x_ok_def intro: inj_on_subset[OF hash_inj])
  have t: "map ?f ?x1 = map ?g ?y1" "map ?f ?x2 = map ?g ?y2" using assms by (simp_all add: same_files_def text_of_def)
  obtain p s m1 m2 where x: "strip_lists ?x1 ?x2 = (p, s, m1, m2)" by (metis prod_cases4)
  obtain q u n1 n2 where y: "strip_lists ?y1 ?y2 = (q, u, n1, n2)" by (metis prod_cases4)
  have e: "map ?f p = map ?g q" "map ?f s = map ?g u" "map ?f m1 = map ?g n1" "map ?f m2 = map ?g n2"
    using strip_lists_map[OF inj(1)] strip_lists_map[OF inj(2)] t x y by simp_all
  have len: "length m1 = length n1" "length m2 = length n2" using e by (metis length_map)+
  have nm: "f_name (x_f1 x) = f_name (x_f1 y)" "f_name (x_f2 x) = f_name (x_f2 y)" using assms by (simp_all add: same_files_def)
  let ?x = "x\<lparr>x_prefix := p, x_suffix := s, x_f1 := (x_f1 x)\<lparr>f_lines := m1\<rparr>, x_f2 := (x_f2 x)\<lparr>f_lines := m2\<rparr>, x_lcs := lcs_table m1 m2\<rparr>"
  let ?y = "y\<lparr>x_prefix := q, x_suffix := u, x_f1 := (x_f1 y)\<lparr>f_lines := n1\<rparr>, x_f2 := (x_f2 y)\<lparr>f_lines := n2\<rparr>, x_lcs := lcs_table n1 n2\<rparr>"
  have i: "inj_on ?f (set m1 \<union> set m2)" "inj_on ?g (set n1 \<union> set n2)"
    by (rule inj_on_subset[OF inj(1)], use strip_lists_spec[OF x] in auto)
      (rule inj_on_subset[OF inj(2)], use strip_lists_spec[OF y] in auto)
  have tab: "lcs_table m1 m2 ! a ! b = lcs_table n1 n2 ! a ! b" if "a \<le> length m1" "b \<le> length m2" for a b
    using that lcs_at_map[OF i(1), of a b] lcs_at_map[OF i(2), of a b] e len by (simp add: lcs_table_at)
  have "x_script ?x = x_script ?y"
    using x_report_map[OF i(1), of "length m1" "length m2" "lcs_table m1 m2" "lcs_table m1 m2"]
      x_report_map[OF i(2), of "length n1" "length n2" "lcs_table n1 n2" "lcs_table m1 m2"] e len tab
    by (simp add: x_script_def)
  moreover have "x_showreport lflag ?x (x_script ?x) = x_showreport lflag ?y (x_script ?x)"
    using x_script_lcs[of ?x m1 m2] x_script_lcs[of ?y n1 n2] calculation e nm
    by (intro showreport_same) (simp_all add: text_of_def)
  ultimately show ?thesis
    using nm arg_cong[OF len(1), of "\<lambda>n. n = 0"] arg_cong[OF len(2), of "\<lambda>n. n = 0"]
    by (simp add: x_diff_cases[OF x] x_diff_cases[OF y] Let_def)
qed

text \<open>The lines of the first file in a stream, the entry that ends them, and what follows.\<close>

fun lines_of :: "diff_msg list \<Rightarrow> string list" where
  "lines_of [] = []"
| "lines_of (DmDir d # ms) = []"
| "lines_of (DmLine b # ms) = b # lines_of ms"
| "lines_of (m # ms) = lines_of ms"

definition adds_lines :: "xfiles \<Rightarrow> string list \<Rightarrow> string list \<Rightarrow> xfiles \<Rightarrow> bool" where
  "adds_lines x l1 l2 x' \<longleftrightarrow> x_ok x' \<and> text1 x' = text1 x @ l1 \<and> text2 x' = text2 x @ l2 \<and>
     f_name (x_f1 x') = f_name (x_f1 x) \<and> f_name (x_f2 x') = f_name (x_f2 x)"

lemma x_getFile_spec:
  assumes "x_ok x" and "fno = 1 \<or> fno = 2" and "x_getFile x ms fno = (d, x', ms')"
  shows "adds_lines x (if fno = 1 then lines_of ms else []) (if fno = 2 then lines_of ms else []) x' \<and> x_getDir ms = (d, ms')"
  using assms
proof (induction x ms fno arbitrary: d x' ms' rule: x_getFile.induct)
  case (3 x b ms fno)
  note a = x_addLine_ok[OF 3(2,3), of b]
  show ?case using 3(1)[OF conjunct1[OF a] 3(3)] 3(4) a 3(3) by (auto simp: adds_lines_def)
qed (auto simp: adds_lines_def)

lemma x_getFiles_spec:
  assumes "x_ok x" and "x_getFiles x t = ((d1, d2), x', t')"
  shows "adds_lines x (lines_of (ts_1 t)) (lines_of (ts_2 t)) x' \<and>
    x_getDir (ts_1 t) = (d1, ts_1 t') \<and> x_getDir (ts_2 t) = (d2, ts_2 t')"
  using assms
proof (induction "length (ts_1 t) + length (ts_2 t)" arbitrary: x t rule: less_induct)
  case less
  have IH: "adds_lines y (lines_of (ts_1 u)) (lines_of (ts_2 u)) x' \<and>
      x_getDir (ts_1 u) = (d1, ts_1 t') \<and> x_getDir (ts_2 u) = (d2, ts_2 t')"
    if "x_ok y" "length (ts_1 u) + length (ts_2 u) < length (ts_1 t) + length (ts_2 t)" "x_getFiles y u = ((d1, d2), x', t')" for y u
    using less.hyps that by blast
  note E = less.prems(2)[unfolded x_getFiles.simps[of x t] Let_def]
  note A = x_addLine_ok[OF less.prems(1)]
  show ?case
  proof (cases "fst (pick (ts_sched t))")
    case True
    show ?thesis
    proof (cases "ts_1 t")
      case Nil
      then show ?thesis using E True x_getFile_spec[OF less.prems(1), of 2 "ts_2 t"] by (auto simp: then_2_def split: prod.splits)
    next
      case (Cons m ms)
      let ?u = "t\<lparr>ts_sched := snd (pick (ts_sched t)), ts_1 := ms\<rparr>"
      show ?thesis
      proof (cases m)
        case (DmDir d)
        then show ?thesis using E True Cons x_getFile_spec[OF less.prems(1), of 2 "ts_2 t"]
          by (auto simp: then_2_def split: prod.splits)
      next
        case (DmLine b)
        then have "x_getFiles (x_addLine x b 1) ?u = ((d1, d2), x', t')" using E True Cons by simp
        from IH[OF _ _ this] show ?thesis using A[of 1 b] DmLine Cons by (auto simp: adds_lines_def)
      qed (use E True Cons IH[OF less.prems(1), of ?u] in \<open>auto\<close>)
    qed
  next
    case False
    show ?thesis
    proof (cases "ts_2 t")
      case Nil
      then show ?thesis using E False x_getFile_spec[OF less.prems(1), of 1 "ts_1 t"] by (auto simp: then_1_def split: prod.splits)
    next
      case (Cons m ms)
      let ?u = "t\<lparr>ts_sched := snd (pick (ts_sched t)), ts_2 := ms\<rparr>"
      show ?thesis
      proof (cases m)
        case (DmDir d)
        then show ?thesis using E False Cons x_getFile_spec[OF less.prems(1), of 1 "ts_1 t"]
          by (auto simp: then_1_def split: prod.splits)
      next
        case (DmLine b)
        then have "x_getFiles (x_addLine x b 2) ?u = ((d1, d2), x', t')" using E False Cons by simp
        from IH[OF _ _ this] show ?thesis using A[of 2 b] DmLine Cons by (auto simp: adds_lines_def)
      qed (use E False Cons IH[OF less.prems(1), of ?u] in \<open>auto\<close>)
    qed
  qed
qed

lemma x_getDirs_spec:
  assumes "x_getDirs t = ((d1, d2), t')"
  shows "x_getDir (ts_1 t) = (d1, ts_1 t') \<and> x_getDir (ts_2 t) = (d2, ts_2 t')"
  using assms
proof (induction "length (ts_1 t) + length (ts_2 t)" arbitrary: t rule: less_induct)
  case less
  have IH: "x_getDir (ts_1 u) = (d1, ts_1 t') \<and> x_getDir (ts_2 u) = (d2, ts_2 t')"
    if "length (ts_1 u) + length (ts_2 u) < length (ts_1 t) + length (ts_2 t)" "x_getDirs u = ((d1, d2), t')" for u
    using less.hyps that by blast
  note E = less.prems[unfolded x_getDirs.simps[of t] Let_def]
  show ?case
  proof (cases "fst (pick (ts_sched t))")
    case True
    then show ?thesis using E IH[of "t\<lparr>ts_sched := snd (pick (ts_sched t)), ts_1 := tl (ts_1 t)\<rparr>"]
      by (auto split: list.splits diff_msg.splits prod.splits)
  next
    case False
    then show ?thesis using E IH[of "t\<lparr>ts_sched := snd (pick (ts_sched t)), ts_2 := tl (ts_2 t)\<rparr>"]
      by (auto split: list.splits diff_msg.splits prod.splits)
  qed
qed

section \<open>The command\<close>

lemma start_files_ok:
  "x_ok x \<Longrightarrow> x_ok (start_files d1 d2 x) \<and> text1 (start_files d1 d2 x) = [] \<and> text2 (start_files d1 d2 x) = [] \<and>
    f_name (x_f1 (start_files d1 d2 x)) = dget d1 ''Upath'' \<and> f_name (x_f2 (start_files d1 d2 x)) = dget d2 ''Upath''"
  by (simp add: start_files_def x_ok_def hash_ok_def text_of_def)

lemma getFiles_same:
  assumes "x_ok x" and "x_ok y" and "ts_1 t = ts_1 u" and "ts_2 t = ts_2 u"
    and "x_getFiles (start_files d1 d2 x) t = ((e1, e2), x', t')" and "x_getFiles (start_files d1 d2 y) u = ((g1, g2), y', u')"
  shows "same_files x' y' \<and> e1 = g1 \<and> e2 = g2 \<and> ts_1 t' = ts_1 u' \<and> ts_2 t' = ts_2 u'"
  using x_getFiles_spec[OF _ assms(5)] x_getFiles_spec[OF _ assms(6)] start_files_ok[OF assms(1), of d1 d2]
    start_files_ok[OF assms(2), of d1 d2] assms(3,4)
  by (auto simp: same_files_def adds_lines_def)

lemma main_loop_same:
  assumes "x_ok x" and "x_ok y" and "ts_1 t = ts_1 u" and "ts_2 t = ts_2 u"
  shows "main_loop tab lflag qflag d1 d2 x t sts = main_loop tab lflag qflag d1 d2 y u sts"
  using assms
proof (induction tab lflag qflag d1 d2 x t sts arbitrary: y u rule: main_loop.induct)
  case (1 tab lflag qflag x t sts)
  then show ?case by simp
next
  case (2 tab lflag qflag d1 x t sts)
  obtain d ms where g: "x_getDir (ts_1 t) = (d, ms)" by force
  have "main_loop tab lflag qflag d None x (t\<lparr>ts_1 := ms\<rparr>) (Some errDiffs) =
      main_loop tab lflag qflag d None y (u\<lparr>ts_1 := ms\<rparr>) (Some errDiffs)"
    using 2(1)[OF g[symmetric] refl, of y "u\<lparr>ts_1 := ms\<rparr>"] 2(2-5) by simp
  then show ?case using g 2(4) by simp
next
  case (3 tab lflag qflag d2 x t sts)
  obtain d ms where g: "x_getDir (ts_2 t) = (d, ms)" by force
  have "main_loop tab lflag qflag None d x (t\<lparr>ts_2 := ms\<rparr>) (Some errDiffs) =
      main_loop tab lflag qflag None d y (u\<lparr>ts_2 := ms\<rparr>) (Some errDiffs)"
    using 3(1)[OF g[symmetric] refl, of y "u\<lparr>ts_2 := ms\<rparr>"] 3(2-5) by simp
  then show ?case using g 3(5) by simp
next
  case (4 tab lflag qflag d1 d2 x t sts)
  let ?c = "zx_PathCmp (dget d1 ''Rpath'') (dget d2 ''Rpath'')"
  obtain d ms where g1: "x_getDir (ts_1 t) = (d, ms)" by force
  obtain d' ms' where g2: "x_getDir (ts_2 t) = (d', ms')" by force
  obtain e1 e2 x' t' where f: "x_getFiles (start_files d1 d2 x) t = ((e1, e2), x', t')" by (metis prod.exhaust)
  obtain f1 f2 y' u' where f': "x_getFiles (start_files d1 d2 y) u = ((f1, f2), y', u')" by (metis prod.exhaust)
  note S = getFiles_same[OF "4.prems" f f']
  consider "?c < 0" | "?c > 0" | "?c = 0" by linarith
  then show ?case
  proof cases
    case 1
    then have "main_loop tab lflag qflag d (Some d2) x (t\<lparr>ts_1 := ms\<rparr>) (Some errDiffs) =
        main_loop tab lflag qflag d (Some d2) y (u\<lparr>ts_1 := ms\<rparr>) (Some errDiffs)"
      using "4.IH"(1)[OF refl _ g1[symmetric] refl, of y "u\<lparr>ts_1 := ms\<rparr>"] "4.prems" by simp
    then show ?thesis using g1 1 "4.prems"(3) by simp
  next
    case 2
    then have "main_loop tab lflag qflag (Some d1) d' x (t\<lparr>ts_2 := ms'\<rparr>) (Some errDiffs) =
        main_loop tab lflag qflag (Some d1) d' y (u\<lparr>ts_2 := ms'\<rparr>) (Some errDiffs)"
      using "4.IH"(2)[OF refl _ _ g2[symmetric] refl, of y "u\<lparr>ts_2 := ms'\<rparr>"] "4.prems" by simp
    then show ?thesis using g2 2 "4.prems"(4) by simp
  next
    case 3
    let ?o = "if dget d1 ''type'' \<noteq> dget d2 ''type'' then ([only_line tab d1, only_line tab d2], Some errDiffs) else ([], sts)"
    obtain on sts1 where o: "(on, sts1) = ?o" by (metis prod.exhaust)
    obtain err out z where dx: "x_diff lflag qflag x' = ((err, out), z)" by (metis prod.exhaust)
    moreover obtain z' where dy: "x_diff lflag qflag y' = (fst (x_diff lflag qflag y'), z')" by (metis prod.collapse)
    moreover have "fst (x_diff lflag qflag x') = fst (x_diff lflag qflag y')" using S x_diff_same by blast
    ultimately have dy: "x_diff lflag qflag y' = ((err, out), z')" by simp
    have ok: "x_ok x'" "x_ok y'" using S by (simp_all add: same_files_def)
    show ?thesis
    proof (cases "dget d1 ''type'' = ''-'' \<and> dget d2 ''type'' = ''-''")
      case True
      have "main_loop tab lflag qflag e1 e2 new_xfiles t' (if err = None then sts1 else err) =
          main_loop tab lflag qflag e1 e2 new_xfiles u' (if err = None then sts1 else err)"
        using "4.IH"(3)[OF refl _ _ refl refl o f[symmetric] refl refl True dx[symmetric] refl] 3 S by simp
      then show ?thesis using 3 f f' dx dy True o[symmetric] S by simp
    next
      case False
      have "main_loop tab lflag qflag e1 e2 x' t' sts1 = main_loop tab lflag qflag e1 e2 y' u' sts1"
        using "4.IH"(4)[OF refl _ _ refl refl o f[symmetric] refl refl False ok] 3 S by simp
      then show ?thesis using 3 f f' False o[symmetric] S by (cases "dget d1 ''type'' = ''-''") simp_all
    qed
  qed
qed

text \<open>
  C37: what the command prints and its status do not depend on which of the two streams is read first, at
  any point.
\<close>

theorem diffs_schedule:
  "diffs_main tab lflag qflag (t\<lparr>ts_sched := as\<rparr>) = diffs_main tab lflag qflag (t\<lparr>ts_sched := bs\<rparr>)"
proof -
  obtain d1 d2 u where u: "x_getDirs (t\<lparr>ts_sched := as\<rparr>) = ((d1, d2), u)" by (metis prod.exhaust)
  obtain e1 e2 v where v: "x_getDirs (t\<lparr>ts_sched := bs\<rparr>) = ((e1, e2), v)" by (metis prod.exhaust)
  have "d1 = e1" "d2 = e2" "ts_1 u = ts_1 v" "ts_2 u = ts_2 v"
    using x_getDirs_spec[OF u] x_getDirs_spec[OF v] by simp_all
  then show ?thesis using u v main_loop_same[of new_xfiles new_xfiles u v] by (simp add: diffs_main_def)
qed

section \<open>Runs\<close>

definition add_all :: "nat \<Rightarrow> string list \<Rightarrow> xfiles \<Rightarrow> xfiles" where
  "add_all fno ls x = fold (\<lambda>s x. x_addLine x s fno) ls x"

lemma add_all_ok: "x_ok x \<Longrightarrow> fno = 1 \<or> fno = 2 \<Longrightarrow> x_ok (add_all fno ls x)"
  by (induction ls arbitrary: x) (simp_all add: add_all_def x_addLine_ok)

definition demo_files :: xfiles where
  "demo_files = add_all 2 [''a'', ''x'', ''c'', ''z''] (add_all 1 [''a'', ''b'', ''c'', ''d'', ''z''] new_xfiles)"

lemma demo_files_ok: "x_ok demo_files"
  by (simp add: demo_files_def add_all_ok)

theorem diffs_script_witness:
  "\<exists>x' rs. x' = snd (x_diff False False demo_files) \<and> rs = x_script x' \<and>
    map rp_what rs = [ODel, OAdd, OEq, ODel] \<and> length (x_prefix x') = 1 \<and> length (x_suffix x') = 1 \<and>
    (\<forall>zs. subseq zs (text1 demo_files) \<and> subseq zs (text2 demo_files) \<longrightarrow> length zs \<le> 3)"
proof -
  have r: "map rp_what (x_script (snd (x_diff False False demo_files))) = [ODel, OAdd, OEq, ODel]"
    "length (x_prefix (snd (x_diff False False demo_files))) = 1"
    "length (x_suffix (snd (x_diff False False demo_files))) = 1"
    "kept (x_script (snd (x_diff False False demo_files))) = 1"
    by code_simp+
  show ?thesis using diffs_script[OF demo_files_ok, where lflag = False] r by (fastforce simp: Let_def)
qed

theorem diffs_printed_witness:
  "\<exists>x' outs gs. x_diff False False demo_files = ((Some errDiffs, outs), x') \<and> text1 demo_files \<noteq> text2 demo_files \<and>
    length outs = 5 \<and> tl outs = concat (map (block_out x') gs) \<and>
    concat (map snd gs) = filter (\<lambda>r. rp_what r \<noteq> OEq) (x_script x') \<and> list_all (block_ok x') gs"
proof -
  obtain err outs x' where d: "x_diff False False demo_files = ((err, outs), x')" by (metis prod.exhaust)
  have n: "text1 demo_files \<noteq> text2 demo_files" by code_simp
  have "length (snd (fst (x_diff False False demo_files))) = 5" by code_simp
  moreover have "is_shown False = (\<lambda>r. rp_what r \<noteq> OEq)" by (simp add: is_shown_def fun_eq_iff)
  ultimately show ?thesis using diffs_printed[OF demo_files_ok d] d n by (auto simp: ends_shown_def)
qed

text \<open>
  With the flag \<open>-l\<close>, files that differ and end in the same line have the status of files that are equal.
\<close>

theorem diffs_l_status:
  "fst (x_diff True False demo_files) = (None, snd (fst (x_diff True False demo_files))) \<and> text1 demo_files \<noteq> text2 demo_files"
  by code_simp

end
