(* ===== verification/Auth.thy ===== *)
theory Auth
  imports ZxPerms
begin

text \<open>
  Authentication (src/net/auth/auth.go): files of keys, the messages of the protocol, and the protocol
  at one of its ends.

  The block cipher is a parameter, and so is the derivation of keys from secrets: \<open>cbc k iv b\<close> are the
  blocks \<open>b\<close> encrypted, None if \<open>k\<close> is not the size of a key.  Each exchange with the other end has an outcome,
  a value of its own.
\<close>

section \<open>Errors\<close>

type_synonym error = "string option"

definition ErrDisabled :: string where "ErrDisabled = ''auth disabled''"
definition ErrTimedOut :: string where "ErrTimedOut = ''auth timed out''"
definition ErrFailed :: string where "ErrFailed = ''auth failed''"

section \<open>Files of keys\<close>

record auth_key =
  k_Uid :: string
  k_Gids :: "string list"
  k_Key :: "byte list"

datatype key_error = KeyEOF | KeyHex | KeyOpen string

definition auth_KeyFile :: "string \<Rightarrow> string \<Rightarrow> string" where
  "auth_KeyFile dir name =
     (let nm = ''clive.'' @ (if name = [] then ''default'' else name)
      in path_Clean (go_join ''/'' (filter (\<lambda>e. e \<noteq> []) [dir, nm])))"

text \<open>The lines of a scanner: those past one of 64 KBytes are lost, and so is a carriage return at the end.\<close>

definition drop_cr :: "string \<Rightarrow> string" where
  "drop_cr s = (if s \<noteq> [] \<and> last s = CHR 0x0D then butlast s else s)"

definition scan_lines :: "string \<Rightarrow> string list" where
  "scan_lines s =
     (let ls = go_split (CHR 0x0A) s
      in map drop_cr (takeWhile (\<lambda>l. length l < 65536) (if last ls = [] then butlast ls else ls)))"

definition hex_encode :: "byte list \<Rightarrow> string" where
  "hex_encode bs = concat (map (\<lambda>b. hex_digits 2 (of_char b)) bs)"

fun hex_decode :: "string \<Rightarrow> byte list option" where
  "hex_decode [] = Some []"
| "hex_decode [c] = None"
| "hex_decode (c # d # s) =
     (case (hex_val c, hex_val d, hex_decode s) of
        (Some a, Some b, Some bs) \<Rightarrow> Some (char_of (nat (a * 16 + b)) # bs)
      | _ \<Rightarrow> None)"

fun load_loop :: "string list \<Rightarrow> auth_key list \<Rightarrow> auth_key list \<times> key_error option" where
  "load_loop [] ks = (if ks = [] then ([], Some KeyEOF) else (ks, None))"
| "load_loop (users # ls) ks =
     (case go_fields users of
        [] \<Rightarrow> (ks, Some KeyEOF)
      | user # toks \<Rightarrow>
          (case ls of
             [] \<Rightarrow> (ks, Some KeyEOF)
           | l # ls' \<Rightarrow>
               (case hex_decode l of
                  None \<Rightarrow> (ks, Some KeyHex)
                | Some key \<Rightarrow>
                    load_loop ls' (ks @ [\<lparr>k_Uid = user, k_Gids = (if toks = [] then [user] else toks), k_Key = key\<rparr>]))))"

text \<open>A file is its contents or the error of opening it.\<close>

definition auth_LoadKey :: "string + string \<Rightarrow> auth_key list \<times> key_error option" where
  "auth_LoadKey f =
     (case f of Inl e \<Rightarrow> ([], Some (KeyOpen e)) | Inr s \<Rightarrow> load_loop (scan_lines s) [])"

text \<open>
  Saving a key: what is written, call by call, and the file left by calls that fail as the list \<open>os\<close> says, those past
  its end without error.  A file that cannot be written is removed.
\<close>

definition key_writes :: "auth_key \<Rightarrow> string list" where
  "key_writes k = k_Uid k # map (\<lambda>g. CHR '' '' # g) (k_Gids k) @ [CHR 0x0A # hex_encode (k_Key k) @ [CHR 0x0A]]"

fun os_next :: "error list \<Rightarrow> error \<times> error list" where
  "os_next [] = (None, [])"
| "os_next (e # es) = (e, es)"

fun write_calls :: "string list \<Rightarrow> string \<Rightarrow> error list \<Rightarrow> (string + string) \<times> error list" where
  "write_calls [] s os = (Inr s, os)"
| "write_calls (w # ws) s os =
     (case os_next os of (Some e, os') \<Rightarrow> (Inl e, os') | (None, os') \<Rightarrow> write_calls ws (s @ w) os')"

definition new_keys :: "auth_key list \<Rightarrow> auth_key \<Rightarrow> auth_key list" where
  "new_keys old k = filter (\<lambda>o'. k_Uid o' \<noteq> k_Uid k) old @ [k]"

definition no_such_file :: string where "no_such_file = ''no such file or directory''"

definition auth_SaveKey ::
  "(string \<Rightarrow> byte list) \<Rightarrow> error list \<Rightarrow> string + string \<Rightarrow> string \<Rightarrow> string \<Rightarrow> string list \<Rightarrow> error \<times> (string + string)" where
  "auth_SaveKey kdf os f user secret groups =
     (let ks = new_keys (fst (auth_LoadKey f)) \<lparr>k_Uid = user, k_Gids = groups, k_Key = kdf secret\<rparr> in
      case os_next os of
        (Some e, _) \<Rightarrow> (Some e, f)
      | (None, os1) \<Rightarrow>
          (case write_calls (concat (map key_writes ks)) [] os1 of
             (Inl e, _) \<Rightarrow> (Some e, Inl no_such_file)
           | (Inr s, os2) \<Rightarrow>
               (case os_next os2 of
                  (Some e, _) \<Rightarrow> (Some e, Inl no_such_file)
                | (None, os3) \<Rightarrow>
                    (case os_next os3 of
                       (Some e, _) \<Rightarrow> (Some e, Inl no_such_file)
                     | (None, _) \<Rightarrow> (None, Inr s)))))"

section \<open>Messages\<close>

text \<open>The protocols are the keys of a map, in the order of its iteration.\<close>

record auth_msg =
  m_enabled :: bool
  m_user :: string
  m_speaksfor :: string
  m_proto :: "string list"
  m_ch :: "byte list"

definition no_msg :: auth_msg where
  "no_msg = \<lparr>m_enabled = False, m_user = [], m_speaksfor = [], m_proto = [], m_ch = []\<rparr>"

abbreviation zero_byte :: char where "zero_byte \<equiv> CHR 0x00"

definition auth_pack :: "auth_msg \<Rightarrow> byte list" where
  "auth_pack m =
     (if m_enabled m then ''auth'' else ''noauth'') @ [zero_byte] @ m_user m @ [zero_byte] @ m_speaksfor m @ [zero_byte] @
     [char_of (length (m_proto m) mod 256)] @ concat (map (\<lambda>k. k @ [zero_byte]) (m_proto m)) @ m_ch m"

definition auth_msg_String :: "auth_msg option \<Rightarrow> string" where
  "auth_msg_String om =
     (case om of
        None \<Rightarrow> ''<nil auth msg>''
      | Some m \<Rightarrow> (if m_enabled m then ''auth'' else ''noauth'') @ '' '' @ m_user m @
          concat (map (\<lambda>k. '' '' @ k) (m_proto m)))"

text \<open>A string up to a zero byte, and what follows it.\<close>

fun unpackstr :: "byte list \<Rightarrow> (string \<times> byte list) option" where
  "unpackstr [] = None"
| "unpackstr (c # s) = (if c = zero_byte then Some ([], s) else map_option (\<lambda>(t, r). (c # t, r)) (unpackstr s))"

fun unpack_protos :: "nat \<Rightarrow> byte list \<Rightarrow> string list \<Rightarrow> (string list \<times> byte list) option" where
  "unpack_protos 0 buf ps = Some (ps, buf)"
| "unpack_protos (Suc n) buf ps =
     (case unpackstr buf of None \<Rightarrow> None | Some (s, buf') \<Rightarrow> unpack_protos n buf' (if s \<in> set ps then ps else ps @ [s]))"

definition auth_unpack :: "byte list \<Rightarrow> string + auth_msg" where
  "auth_unpack buf =
     (case unpackstr buf of
        None \<Rightarrow> Inl ''auth: no string found''
      | Some (s, buf1) \<Rightarrow>
          (case unpackstr buf1 of
             None \<Rightarrow> Inl ''auth: no string found''
           | Some (user, buf2) \<Rightarrow>
               (case unpackstr buf2 of
                  None \<Rightarrow> Inl ''auth: no string found''
                | Some (spk, buf3) \<Rightarrow>
                    (case buf3 of
                       [] \<Rightarrow> Inl ''short auth msg''
                     | n # buf4 \<Rightarrow>
                         (case unpack_protos (of_char n) buf4 [] of
                            None \<Rightarrow> Inl ''auth: no string found''
                          | Some (ps, ch) \<Rightarrow>
                              Inr \<lparr>m_enabled = (s = ''auth''), m_user = user, m_speaksfor = spk, m_proto = ps, m_ch = ch\<rparr>)))))"

section \<open>Encryption\<close>

definition auth_pad :: "byte list \<Rightarrow> byte list" where
  "auth_pad b = (let p = 16 - length b mod 16; padding = (if p = 0 then 16 else p) in b @ replicate padding (char_of padding))"

definition auth_unpad :: "byte list \<Rightarrow> byte list option" where
  "auth_unpad b =
     (if b = [] then None
      else (let n = of_char (last b) :: nat in
            if n > length b \<or> n > 16 then None
            else if list_all (\<lambda>c. c = last b) (drop (length b - n + 1) b) then Some (take (length b - n) b)
            else None))"

type_synonym cbc = "byte list \<Rightarrow> byte list \<Rightarrow> byte list \<Rightarrow> byte list option"

definition auth_encrypt :: "cbc \<Rightarrow> byte list \<Rightarrow> byte list option \<Rightarrow> byte list \<Rightarrow> byte list option" where
  "auth_encrypt cbc k iv b = (case iv of None \<Rightarrow> None | Some v \<Rightarrow> cbc k v (auth_pad b))"

text \<open>\<open>uncbc\<close> decrypts with the first block as the vector.\<close>

definition auth_decrypt :: "cbc \<Rightarrow> byte list \<Rightarrow> byte list \<Rightarrow> byte list option" where
  "auth_decrypt uncbc k b =
     (if b = [] \<or> length b mod 16 \<noteq> 0 then None
      else (case uncbc k (take 16 b) (drop 16 b) of None \<Rightarrow> None | Some d \<Rightarrow> auth_unpad d))"

section \<open>The protocol\<close>

text \<open>
  What a process knows: its user, the keys of the default domain (none when they are nil), the vector, whether both
  ends of TLS are configured, whether authentication is enabled, the keys of other domains, and the cipher.
\<close>

record auth_env =
  e_Uid :: string
  e_keys :: "auth_key list"
  e_iv :: "byte list option"
  e_tls :: bool
  e_Enabled :: bool
  e_load :: "string \<Rightarrow> auth_key list \<times> error"
  e_cbc :: cbc

record auth_full = auth_info +
  ai_SpeaksFor :: string
  ai_Proto :: "string list"
  ai_Ok :: bool

text \<open>
  The outcome of sending a message and of receiving one.  A channel that is closed gives no message; the error
  of a message received is that of a channel closed after it.
\<close>

datatype auth_sent = STimeout | SSent error
datatype auth_recv = RTimeout | RData "byte list" error | ROther

text \<open>What the protocol returns, the error that the connection is closed with, if it is, and what was sent.\<close>

record auth_run =
  ar_info :: "auth_full option"
  ar_err :: error
  ar_closed :: "error option"
  ar_sent :: "byte list list"

definition auth_setup ::
  "auth_env \<Rightarrow> string \<Rightarrow> bool \<Rightarrow> string + bool \<times> string \<times> byte list option" where
  "auth_setup e name enabled0 =
     (let enabled = (enabled0 \<and> e_Enabled e);
          (user, k) = (if e_keys e = [] then (e_Uid e, None) else (k_Uid (hd (e_keys e)), Some (k_Key (hd (e_keys e))))) in
      if \<not> enabled then Inr (False, user, k)
      else if \<not> e_tls e then Inl ''no tls''
      else if name \<noteq> [] \<and> name \<noteq> ''default'' then
        (case e_load e name of
           (_, Some err) \<Rightarrow> Inl (''no key: '' @ err)
         | (ks, None) \<Rightarrow> Inr (True, k_Uid (hd ks), Some (k_Key (hd ks))))
      else if k = None then Inl ''no key''
      else Inr (True, user, k))"

definition hello_msg :: "auth_env \<Rightarrow> bool \<Rightarrow> string \<Rightarrow> string list \<Rightarrow> byte list \<Rightarrow> auth_msg" where
  "hello_msg e enabled user proto ch =
     \<lparr>m_enabled = enabled, m_user = user, m_speaksfor = e_Uid e, m_proto = remdups proto,
      m_ch = (if enabled then ch else replicate 16 zero_byte)\<rparr>"

text \<open>The key of a user at the server, the last one that there is.\<close>

fun user_key :: "auth_key list \<Rightarrow> string \<Rightarrow> auth_key option \<Rightarrow> auth_key option" where
  "user_key [] user k = k"
| "user_key (key # ks) user k = user_key ks user (if k_Uid key = user then Some key else k)"

definition run_end :: "auth_full option \<Rightarrow> error \<Rightarrow> error option \<Rightarrow> byte list list \<Rightarrow> auth_run" where
  "run_end i err cl out = \<lparr>ar_info = i, ar_err = err, ar_closed = cl, ar_sent = out\<rparr>"

definition run_fail :: "auth_full option \<Rightarrow> string \<Rightarrow> byte list list \<Rightarrow> auth_run" where
  "run_fail i err out = run_end i (Some err) (Some (Some err)) out"

text \<open>The last part: the response is sent, the one of the other end is read, and checked.\<close>

definition auth_finish ::
  "auth_env \<Rightarrow> byte list \<Rightarrow> byte list \<Rightarrow> byte list \<Rightarrow> auth_full \<Rightarrow> byte list list \<Rightarrow> auth_sent \<Rightarrow> auth_recv \<Rightarrow> auth_run" where
  "auth_finish e k mych rch info out s2 r2 =
     (case auth_encrypt (e_cbc e) k (e_iv e) rch of
        None \<Rightarrow> run_fail (Some info) ''encrypt failed'' out
      | Some resp \<Rightarrow>
          (case s2 of
             STimeout \<Rightarrow> run_fail (Some info) ErrTimedOut out
           | SSent (Some err) \<Rightarrow> run_fail (Some info) (''auth: '' @ err) (out @ [resp])
           | SSent None \<Rightarrow>
               (let out' = out @ [resp]; repl = (case r2 of RData b _ \<Rightarrow> b | _ \<Rightarrow> []) in
                if r2 = RTimeout then run_fail (Some info) ErrTimedOut out'
                else if repl = [] then run_end (Some info) (Some (ErrFailed @ '': empty reply'')) (Some (Some ErrFailed)) out'
                else
                  (case auth_encrypt (e_cbc e) k (e_iv e) mych of
                     None \<Rightarrow> run_fail (Some info) ''encrypt failed'' out'
                   | Some chresp \<Rightarrow>
                       if chresp \<noteq> repl then
                         run_end (Some info) (Some (ErrFailed @ '': bad reply'')) (Some (Some ErrFailed)) out'
                       else run_end (Some (info\<lparr>ai_Ok := True\<rparr>)) None None out'))))"

text \<open>
  The part after the message of the other end.  A message that is not bytes, or no message, is taken as an
  empty one.
\<close>

definition auth_checked ::
  "auth_env \<Rightarrow> bool \<Rightarrow> string \<Rightarrow> byte list option \<Rightarrow> auth_msg \<Rightarrow> auth_msg \<Rightarrow> auth_sent \<Rightarrow> auth_recv \<Rightarrow> auth_run" where
  "auth_checked e iscaller user k m rm s2 r2 =
     (let out = [auth_pack m];
          info = \<lparr>ai_Uid = (if iscaller then user else m_user rm), ai_Gids = [], ai_SpeaksFor = m_speaksfor rm,
                  ai_Proto = filter (\<lambda>p. p \<in> set (m_proto m)) (m_proto rm), ai_Ok = False\<rparr> in
      if ai_Proto info = [] then run_fail (Some info) ''no shared protocol'' out
      else if \<not> m_enabled m \<and> \<not> m_enabled rm then run_end (Some info) None None out
      else if m_enabled m \<noteq> m_enabled rm then run_fail (Some info) ErrDisabled out
      else if iscaller then
        (case k of None \<Rightarrow> run_fail (Some info) ''encrypt failed'' out
         | Some key \<Rightarrow> auth_finish e key (m_ch m) (m_ch rm) info out s2 r2)
      else
        (case user_key (e_keys e) (m_user rm) None of
           None \<Rightarrow> run_fail (Some info) ''wrong user/key'' out
         | Some key \<Rightarrow> auth_finish e (k_Key key) (m_ch m) (m_ch rm) (info\<lparr>ai_Gids := k_Gids key\<rparr>) out s2 r2))"

definition auth_conn ::
  "auth_env \<Rightarrow> bool \<Rightarrow> string \<Rightarrow> bool \<Rightarrow> string list \<Rightarrow> byte list \<Rightarrow> auth_sent \<Rightarrow> auth_recv \<Rightarrow> auth_sent \<Rightarrow> auth_recv \<Rightarrow> auth_run" where
  "auth_conn e iscaller name enabled0 proto ch s1 r1 s2 r2 =
     (case auth_setup e name enabled0 of
        Inl err \<Rightarrow> run_end None (Some err) None []
      | Inr (enabled, user, k) \<Rightarrow>
          (let m = hello_msg e enabled user proto ch in
           case s1 of
             STimeout \<Rightarrow> run_fail None ErrTimedOut []
           | SSent (Some err) \<Rightarrow> run_fail None err [auth_pack m]
           | SSent None \<Rightarrow>
               (case r1 of
                  RTimeout \<Rightarrow> run_fail None ErrTimedOut [auth_pack m]
                | ROther \<Rightarrow> auth_checked e iscaller user k m no_msg s2 r2
                | RData dat cerr \<Rightarrow>
                    (case auth_unpack dat of
                       Inl err \<Rightarrow>
                         run_fail None (''auth: '' @ (case cerr of None \<Rightarrow> err | Some c \<Rightarrow> ''auth: '' @ c)) [auth_pack m]
                     | Inr rm \<Rightarrow> auth_checked e iscaller user k m rm s2 r2))))"

definition auth_AtClient where "auth_AtClient e name proto = auth_conn e True name True proto"
definition auth_NoneAtClient where "auth_NoneAtClient e name proto = auth_conn e True name False proto"
definition auth_AtServer where "auth_AtServer e name proto = auth_conn e False name True proto"
definition auth_NoneAtServer where "auth_NoneAtServer e name proto = auth_conn e False name False proto"

section \<open>Challenges of web interfaces\<close>

definition ChallengeResponseOk :: "auth_env \<Rightarrow> string \<Rightarrow> byte list \<Rightarrow> string \<Rightarrow> string \<times> bool" where
  "ChallengeResponseOk e name ch resp =
     (if \<not> e_Enabled e then (e_Uid e, True)
      else if e_keys e = [] \<or> e_iv e = None then (e_Uid e, False)
      else
        (let check = (\<lambda>k. (k_Uid k, case auth_encrypt (e_cbc e) (k_Key k) (e_iv e) ch of
                         None \<Rightarrow> False | Some r \<Rightarrow> r \<noteq> [] \<and> hex_encode r = resp)) in
         if name \<noteq> [] \<and> name \<noteq> ''default'' then
           (case e_load e name of
              (_, Some err) \<Rightarrow> (k_Uid (hd (e_keys e)), False)
            | (ks, None) \<Rightarrow> check (hd ks))
         else check (hd (e_keys e))))"

end
