(* ===== verification/AuthProps.thy ===== *)
theory AuthProps
  imports Auth AsciiLines
begin

text \<open>
  The protocol authenticates two ends that share a key, and no end that shows no response made with the
  key; keys are loaded as they were saved.  The protocol is the same at both ends, so that who sends back to a server what
  it sends is authenticated too.
\<close>

section \<open>Messages\<close>

lemma unpackstr_string: "zero_byte \<notin> set s \<Longrightarrow> unpackstr (s @ zero_byte # r) = Some (s, r)"
  by (induction s) auto

lemma unpack_protos_list:
  assumes "\<forall>p\<in>set qs. zero_byte \<notin> set p" and "distinct (ps @ qs)"
  shows "unpack_protos (length qs) (concat (map (\<lambda>k. k @ [zero_byte]) qs) @ r) ps = Some (ps @ qs, r)"
  using assms
proof (induction qs arbitrary: ps)
  case (Cons q qs)
  have "unpackstr ((q @ zero_byte # concat (map (\<lambda>k. k @ [zero_byte]) qs)) @ r) = Some (q, concat (map (\<lambda>k. k @ [zero_byte]) qs) @ r)"
    using unpackstr_string[of q "concat (map (\<lambda>k. k @ [zero_byte]) qs) @ r"] Cons.prems(1) by simp
  moreover have "q \<notin> set ps" "distinct ((ps @ [q]) @ qs)" using Cons.prems(2) by auto
  ultimately show ?case using Cons.IH[of "ps @ [q]"] Cons.prems(1) by simp
qed simp

definition good_auth_msg :: "auth_msg \<Rightarrow> bool" where
  "good_auth_msg m \<longleftrightarrow> zero_byte \<notin> set (m_user m) \<and> zero_byte \<notin> set (m_speaksfor m) \<and>
     (\<forall>p\<in>set (m_proto m). zero_byte \<notin> set p) \<and> distinct (m_proto m) \<and> length (m_proto m) < 256"

lemma auth_unpack_pack:
  assumes "good_auth_msg m"
  shows "auth_unpack (auth_pack m) = Inr m"
proof -
  let ?w = "if m_enabled m then ''auth'' else ''noauth''"
  let ?c = "char_of (length (m_proto m) mod 256) # concat (map (\<lambda>k. k @ [zero_byte]) (m_proto m)) @ m_ch m"
  have p: "auth_pack m = ?w @ zero_byte # m_user m @ zero_byte # m_speaksfor m @ zero_byte # ?c"
    by (simp add: auth_pack_def)
  have "zero_byte \<notin> set ?w" by simp
  note s = unpackstr_string[OF this, of "m_user m @ zero_byte # m_speaksfor m @ zero_byte # ?c"]
    unpackstr_string[of "m_user m" "m_speaksfor m @ zero_byte # ?c"] unpackstr_string[of "m_speaksfor m" ?c]
  have "unpack_protos (length (m_proto m)) (concat (map (\<lambda>k. k @ [zero_byte]) (m_proto m)) @ m_ch m) [] = Some (m_proto m, m_ch m)"
    using unpack_protos_list[of "m_proto m" "[]"] assms by (simp add: good_auth_msg_def)
  then show ?thesis using s assms by (simp add: auth_unpack_def p good_auth_msg_def)
qed

section \<open>Padding\<close>

lemma auth_unpad_pad: "auth_unpad (auth_pad b) = Some b \<and> length (auth_pad b) mod 16 = 0"
proof -
  define n where "n = 16 - length b mod 16"
  have n: "0 < n" "n \<le> 16" by (simp_all add: n_def)
  have p: "auth_pad b = b @ replicate n (char_of n)" using n by (simp add: auth_pad_def n_def Let_def)
  have l: "last (auth_pad b) = char_of n" using n by (simp add: p)
  have c: "of_char (char_of n :: char) = n" using n by simp
  have "length (auth_pad b) mod 16 = (length b mod 16 + n) mod 16" by (simp add: p mod_add_left_eq)
  then have "length (auth_pad b) mod 16 = 0" by (simp add: n_def)
  moreover have "list_all (\<lambda>x. x = char_of n) (drop (length (auth_pad b) - n + 1) (auth_pad b))"
    by (auto simp: p list_all_iff dest: in_set_dropD)
  ultimately show ?thesis using n by (simp add: auth_unpad_def l c p)
qed

section \<open>What an end that authenticates has checked\<close>

lemma auth_finish_ok:
  assumes "ar_info (auth_finish e k mych rch info out s2 r2) = Some i" and "ai_Ok i" and "\<not> ai_Ok info"
  shows "i = info\<lparr>ai_Ok := True\<rparr> \<and> ar_err (auth_finish e k mych rch info out s2 r2) = None \<and>
    (\<exists>b err. r2 = RData b err \<and> auth_encrypt (e_cbc e) k (e_iv e) mych = Some b)"
  using assms
  by (auto simp: auth_finish_def run_fail_def run_end_def Let_def
      split: option.splits auth_sent.splits auth_recv.splits if_splits)

lemma user_key_in: "user_key ks user k = Some key \<Longrightarrow> key \<in> set ks \<and> k_Uid key = user \<or> k = Some key"
  by (induction ks arbitrary: k) (auto split: if_splits)

lemma auth_checked_ok:
  assumes "ar_info (auth_checked e iscaller user k m rm s2 r2) = Some i" and "ai_Ok i"
  shows "ar_err (auth_checked e iscaller user k m rm s2 r2) = None \<and> m_enabled m \<and> m_enabled rm \<and>
    ai_Proto i \<noteq> [] \<and> set (ai_Proto i) = set (m_proto m) \<inter> set (m_proto rm) \<and> ai_SpeaksFor i = m_speaksfor rm \<and>
    (\<exists>b err kk. r2 = RData b err \<and> auth_encrypt (e_cbc e) kk (e_iv e) (m_ch m) = Some b \<and>
      (if iscaller then ai_Uid i = user \<and> k = Some kk
       else ai_Uid i = m_user rm \<and> (\<exists>key\<in>set (e_keys e). k_Uid key = m_user rm \<and> k_Key key = kk \<and> ai_Gids i = k_Gids key)))"
proof (cases iscaller)
  case True
  then show ?thesis using assms
    by (auto simp: auth_checked_def run_fail_def run_end_def Let_def dest!: auth_finish_ok split: option.splits if_splits)
next
  case False
  then show ?thesis using assms
    by (auto simp: auth_checked_def run_fail_def run_end_def Let_def dest!: auth_finish_ok user_key_in
        split: option.splits if_splits; blast)
qed

text \<open>
  C38: an end reports that the other is authenticated only if it was enabled itself, with both ends of TLS, and received
  a message of the other end that says that it is enabled too and names some of the protocols of this end; the protocols
  and the user spoken for that are reported are those of that message; and the last message received is this end's
  challenge encrypted with a key of the user reported: at a client the key of its domain, at a server a key of the
  default domain for the user that the message names, with its groups.
\<close>

theorem auth_ok_checked:
  assumes "ar_info (auth_conn e iscaller name en proto ch s1 r1 s2 r2) = Some i" and "ai_Ok i"
  shows "en \<and> e_Enabled e \<and> e_tls e \<and> ar_err (auth_conn e iscaller name en proto ch s1 r1 s2 r2) = None \<and>
    (\<exists>dat cerr rm. r1 = RData dat cerr \<and> auth_unpack dat = Inr rm \<and> m_enabled rm \<and>
      ai_Proto i \<noteq> [] \<and> set (ai_Proto i) = set proto \<inter> set (m_proto rm) \<and> ai_SpeaksFor i = m_speaksfor rm \<and>
      (\<exists>b err k. r2 = RData b err \<and> auth_encrypt (e_cbc e) k (e_iv e) ch = Some b \<and>
        (if iscaller then auth_setup e name en = Inr (True, ai_Uid i, Some k)
         else ai_Uid i = m_user rm \<and> (\<exists>key\<in>set (e_keys e). k_Uid key = m_user rm \<and> k_Key key = k \<and> ai_Gids i = k_Gids key))))"
proof -
  obtain b user k where su: "auth_setup e name en = Inr (b, user, k)"
    using assms(1) by (cases "auth_setup e name en") (auto simp: auth_conn_def run_end_def)
  define m where "m = hello_msg e b user proto ch"
  have "(\<exists>rm. auth_conn e iscaller name en proto ch s1 r1 s2 r2 = auth_checked e iscaller user k m rm s2 r2 \<and>
      (rm = no_msg \<or> (\<exists>dat cerr. r1 = RData dat cerr \<and> auth_unpack dat = Inr rm)))"
    using assms(1) su
    by (auto simp: auth_conn_def m_def run_fail_def run_end_def Let_def split: auth_sent.splits auth_recv.splits option.splits sum.splits)
  then obtain rm where r: "auth_conn e iscaller name en proto ch s1 r1 s2 r2 = auth_checked e iscaller user k m rm s2 r2"
    and rm: "rm = no_msg \<or> (\<exists>dat cerr. r1 = RData dat cerr \<and> auth_unpack dat = Inr rm)" by blast
  note C = auth_checked_ok[OF assms(1)[unfolded r] assms(2)]
  have b: b using C by (simp add: m_def hello_msg_def)
  then have e: "en \<and> e_Enabled e \<and> e_tls e" using su by (auto simp: auth_setup_def Let_def split: if_splits)
  have m: "m_ch m = ch" "set (m_proto m) = set proto" using b by (simp_all add: m_def hello_msg_def)
  have "rm \<noteq> no_msg" using C by (auto simp: no_msg_def)
  then obtain dat cerr where "r1 = RData dat cerr" "auth_unpack dat = Inr rm" using rm by blast
  moreover obtain bb err kk where "r2 = RData bb err" "auth_encrypt (e_cbc e) kk (e_iv e) ch = Some bb"
    "if iscaller then ai_Uid i = user \<and> k = Some kk
     else ai_Uid i = m_user rm \<and> (\<exists>key\<in>set (e_keys e). k_Uid key = m_user rm \<and> k_Key key = kk \<and> ai_Gids i = k_Gids key)"
    using C m(1) by auto
  moreover have "m_enabled rm" "ai_Proto i \<noteq> []" "set (ai_Proto i) = set proto \<inter> set (m_proto rm)"
    "ai_SpeaksFor i = m_speaksfor rm" "ar_err (auth_checked e iscaller user k m rm s2 r2) = None"
    using C m(2) by auto
  ultimately show ?thesis using e b su unfolding r by (cases iscaller) auto
qed

section \<open>Two ends that share a key\<close>

text \<open>
  C39: whatever the domains that the two ends name, a client that finds its user \<open>u\<close> and a key \<open>k\<close> in its own, and a
  server that finds a key in its own and has \<open>k\<close> as the key of \<open>u\<close> among those of its default domain (the only ones
  in which it looks for the user of the client), authenticate each other when they share a protocol and each receives
  what the other sends: both return with no error, and the server has the user and the groups of its key.
\<close>

theorem auth_mutual:
  assumes "auth_setup c namec True = Inr (True, u, Some k)" and "auth_setup s names True = Inr (True, us, ks)"
    and "user_key (e_keys s) u None = Some key" and "k_Key key = k"
    and "e_iv s = e_iv c" and "e_cbc s = e_cbc c"
    and "auth_encrypt (e_cbc c) k (e_iv c) chc = Some rc" and "auth_encrypt (e_cbc c) k (e_iv c) chs = Some rs"
    and "rc \<noteq> []" and "rs \<noteq> []" and "p \<in> set pc \<inter> set ps"
    and "good_auth_msg (hello_msg c True u pc chc)" and "good_auth_msg (hello_msg s True us ps chs)"
    and "rnc = auth_AtClient c namec pc chc (SSent None) (RData s1 None) (SSent None) (RData s2 None)"
    and "rns = auth_AtServer s names ps chs (SSent None) (RData c1 None) (SSent None) (RData c2 None)"
    and "c1 = auth_pack (hello_msg c True u pc chc)" and "s1 = auth_pack (hello_msg s True us ps chs)"
    and "c2 = rs" and "s2 = rc"
  shows "ar_sent rnc = [c1, c2] \<and> ar_sent rns = [s1, s2] \<and> ar_err rnc = None \<and> ar_err rns = None \<and>
    ar_closed rnc = None \<and> ar_closed rns = None \<and>
    (\<exists>i j. ar_info rnc = Some i \<and> ai_Ok i \<and> ai_Uid i = u \<and> ai_SpeaksFor i = e_Uid s \<and>
       ar_info rns = Some j \<and> ai_Ok j \<and> ai_Uid j = u \<and> ai_Gids j = k_Gids key \<and> ai_SpeaksFor j = e_Uid c)"
proof -
  have uc: "auth_unpack s1 = Inr (hello_msg s True us ps chs)" "auth_unpack c1 = Inr (hello_msg c True u pc chc)"
    using assms(12,13,16,17) auth_unpack_pack by simp_all
  have p: "filter (\<lambda>p. p \<in> set pc) (remdups ps) \<noteq> []" "filter (\<lambda>p. p \<in> set ps) (remdups pc) \<noteq> []"
    using assms(11) by (auto simp: filter_empty_conv)
  have C: "rnc = auth_finish c k chc chs
      \<lparr>ai_Uid = u, ai_Gids = [], ai_SpeaksFor = e_Uid s, ai_Proto = filter (\<lambda>p. p \<in> set pc) (remdups ps), ai_Ok = False\<rparr>
      [c1] (SSent None) (RData rc None)"
    using uc p unfolding assms(14,19)
    by (simp add: auth_AtClient_def auth_conn_def assms(1) auth_checked_def Let_def assms(16)[symmetric])
      (simp add: hello_msg_def assms(16))
  have S: "rns = auth_finish s k chs chc
      \<lparr>ai_Uid = u, ai_Gids = k_Gids key, ai_SpeaksFor = e_Uid c, ai_Proto = filter (\<lambda>p. p \<in> set ps) (remdups pc), ai_Ok = False\<rparr>
      [s1] (SSent None) (RData rs None)"
    using assms(3,4) uc p unfolding assms(15,18)
    by (simp add: auth_AtServer_def auth_conn_def assms(2) auth_checked_def Let_def assms(17)[symmetric])
      (simp add: hello_msg_def assms(17))
  show ?thesis
    unfolding C S auth_finish_def using assms(5-10,18,19) by (simp add: run_end_def Let_def)
qed

section \<open>Keys\<close>

lemma hex_val_digit_char: "d < 16 \<Longrightarrow> hex_val (digit_char d) = Some (int d)"
proof -
  assume "d < 16"
  then have "d \<in> {0..<16}" by simp
  then have "d \<in> set [0..<16]" by simp
  then show ?thesis by (auto simp: upt_conv_Cons hex_val_def digit_char_def)
qed

lemma nat_pair: "nat (int a * 16 + int b) = a * 16 + b"
  by (simp add: nat_add_distrib nat_mult_distrib)

lemma hex_decode_encode: "hex_decode (hex_encode bs) = Some bs"
proof (induction bs)
  case (Cons b bs)
  let ?n = "of_char b :: nat"
  have n: "?n < 256" by simp
  have d: "hex_digits 2 ?n = [digit_char (?n div 16 mod 16), digit_char (?n mod 16)]"
    by (simp add: hex_digits_def upt_rec)
  have "?n div 16 < 16" using n by (simp add: less_mult_imp_div_less)
  then have "?n div 16 mod 16 * 16 + ?n mod 16 = ?n" by simp
  then have "nat (int (?n div 16 mod 16) * 16 + int (?n mod 16)) = ?n" by (simp only: nat_pair)
  moreover have "hex_val (digit_char (?n div 16 mod 16)) = Some (int (?n div 16 mod 16))"
    "hex_val (digit_char (?n mod 16)) = Some (int (?n mod 16))" by (rule hex_val_digit_char; simp)+
  moreover have "hex_encode (b # bs) = digit_char (?n div 16 mod 16) # digit_char (?n mod 16) # hex_encode bs"
    by (simp only: hex_encode_def d list.map concat.simps append.simps)
  ultimately show ?case using Cons by (simp only: hex_decode.simps option.case prod.case) simp
qed (simp add: hex_encode_def)

definition word_ok :: "string \<Rightarrow> bool" where
  "word_ok w \<longleftrightarrow> w \<noteq> [] \<and> (\<forall>c\<in>set w. ascii c \<and> \<not> blank c)"

definition key_line :: "auth_key \<Rightarrow> string" where
  "key_line k = k_Uid k @ concat (map (\<lambda>g. CHR '' '' # g) (k_Gids k))"

definition good_key :: "auth_key \<Rightarrow> bool" where
  "good_key k \<longleftrightarrow> word_ok (k_Uid k) \<and> (\<forall>g\<in>set (k_Gids k). word_ok g) \<and> length (key_line k) < 65536 \<and>
     length (hex_encode (k_Key k)) < 65536"

text \<open>A user with no groups is in its own.\<close>

definition own_group :: "auth_key \<Rightarrow> auth_key" where
  "own_group k = k\<lparr>k_Gids := (if k_Gids k = [] then [k_Uid k] else k_Gids k)\<rparr>"

lemma fields_words:
  assumes "\<forall>w\<in>set ws. word_ok w" and "cur \<noteq> []"
  shows "fields_loop (map (\<lambda>c. (byte_of c, [c])) (concat (map (\<lambda>g. CHR '' '' # g) ws))) cur = cur # ws"
  using assms
proof (induction ws arbitrary: cur)
  case (Cons w ws)
  have "go_is_space (byte_of (CHR '' ''))" by (simp add: go_is_space_def)
  then show ?case using Cons fields_word[of w _ "[]"] by (simp add: word_ok_def)
qed simp

lemma key_line_fields:
  assumes "good_key k"
  shows "go_fields (key_line k) = k_Uid k # k_Gids k"
proof -
  have a: "\<forall>c\<in>set (key_line k). ascii c"
    using assms by (auto simp: key_line_def good_key_def word_ok_def ascii_def)
  have "fields_loop (map (\<lambda>c. (byte_of c, [c])) (k_Uid k) @ map (\<lambda>c. (byte_of c, [c])) (concat (map (\<lambda>g. CHR '' '' # g) (k_Gids k)))) [] =
      k_Uid k # k_Gids k"
    using assms by (simp only: fields_word fields_words append_Nil good_key_def word_ok_def) (simp add: fields_word fields_words word_ok_def)
  then show ?thesis by (simp add: go_fields_def go_groups_ascii[OF a]) (simp add: key_line_def)
qed

lemma hex_char: "c \<in> set (hex_encode bs) \<Longrightarrow> (\<exists>d < 16. c = digit_char d)"
  by (auto simp: hex_encode_def hex_digits_def) (metis mod_less_divisor zero_less_numeral)

lemma digit_not_eol: "d < 16 \<Longrightarrow> digit_char d \<noteq> CHR 0x0A \<and> digit_char d \<noteq> CHR 0x0D"
proof -
  assume "d < 16"
  moreover have "\<forall>d\<in>set [0..<16]. digit_char d \<noteq> CHR 0x0A \<and> digit_char d \<noteq> CHR 0x0D" by code_simp
  ultimately show ?thesis by simp
qed

lemma hex_line: "CHR 0x0A \<notin> set (hex_encode bs) \<and> CHR 0x0D \<notin> set (hex_encode bs)"
  using hex_char digit_not_eol by metis

lemma blank_eol: "blank (CHR 0x0A)" "blank (CHR 0x0D)"
  by (simp_all add: blank_def go_is_space_def)

lemma key_line_eol:
  assumes "good_key k"
  shows "CHR 0x0A \<notin> set (key_line k) \<and> CHR 0x0D \<notin> set (key_line k)"
  using assms blank_eol by (auto simp: key_line_def good_key_def word_ok_def)

lemma drop_cr_id: "CHR 0x0D \<notin> set l \<Longrightarrow> drop_cr l = l"
  using last_in_set by (fastforce simp: drop_cr_def)

definition key_lines :: "auth_key list \<Rightarrow> string list" where
  "key_lines ks = concat (map (\<lambda>k. [key_line k, hex_encode (k_Key k)]) ks)"

lemma key_writes_lines: "concat (concat (map key_writes ks)) = concat (map (\<lambda>l. l @ [CHR 0x0A]) (key_lines ks))"
  by (induction ks) (simp_all add: key_writes_def key_lines_def key_line_def)

lemma scan_key_lines:
  assumes "\<forall>k\<in>set ks. good_key k"
  shows "scan_lines (concat (map (\<lambda>l. l @ [CHR 0x0A]) (key_lines ks))) = key_lines ks"
proof -
  have l: "CHR 0x0A \<notin> set l \<and> CHR 0x0D \<notin> set l \<and> length l < 65536" if "l \<in> set (key_lines ks)" for l
    using that assms key_line_eol hex_line by (auto simp: key_lines_def good_key_def)
  then have "takeWhile (\<lambda>l. length l < 65536) (key_lines ks) = key_lines ks" by (auto simp: takeWhile_eq_all_conv)
  moreover have "map drop_cr (key_lines ks) = key_lines ks" using l drop_cr_id by (auto intro: map_idI)
  moreover have "scan_lines (concat (map (\<lambda>l. l @ [CHR 0x0A]) (key_lines ks))) =
      map drop_cr (takeWhile (\<lambda>l. length l < 65536) (key_lines ks))"
    using l by (simp add: scan_lines_def go_split_lines Let_def butlast_append)
  ultimately show ?thesis by (simp only:)
qed

lemma load_key_lines:
  assumes "\<forall>k\<in>set ks. good_key k"
  shows "load_loop (key_lines ks) acc = (if acc @ ks = [] then ([], Some KeyEOF) else (acc @ map own_group ks, None))"
  using assms
proof (induction ks arbitrary: acc)
  case (Cons k ks)
  have "own_group k = \<lparr>k_Uid = k_Uid k, k_Gids = (if k_Gids k = [] then [k_Uid k] else k_Gids k), k_Key = k_Key k\<rparr>"
    by (simp add: own_group_def)
  then show ?case using Cons key_line_fields[of k] by (simp add: key_lines_def hex_decode_encode)
qed (simp add: key_lines_def)

lemma write_calls_all: "write_calls ws s [] = (Inr (s @ concat ws), [])"
  by (induction ws arbitrary: s) simp_all

lemma user_key_append: "user_key (ks @ [k]) u d = (if k_Uid k = u then Some k else user_key ks u d)"
  by (induction ks arbitrary: d) simp_all

lemma user_key_map: "user_key (map own_group ks) u (map_option own_group d) = map_option own_group (user_key ks u d)"
proof (induction ks arbitrary: d)
  case (Cons k ks)
  have "k_Uid (own_group k) = k_Uid k" by (simp add: own_group_def)
  then show ?case using Cons[of d] Cons[of "Some k"] by simp
qed simp

lemma user_key_filter: "u \<noteq> v \<Longrightarrow> user_key (filter (\<lambda>k. k_Uid k \<noteq> v) ks) u d = user_key ks u d"
  by (induction ks arbitrary: d) auto

text \<open>
  C40: a key that is saved is loaded back: its user has the key derived from the secret with the groups given, or its
  own when there are none, and every other user of the file keeps its key.
\<close>

theorem auth_SaveKey_LoadKey:
  assumes "auth_LoadKey f = (old, err)" and "\<forall>k\<in>set old. good_key k"
    and "good_key \<lparr>k_Uid = user, k_Gids = groups, k_Key = kdf secret\<rparr>"
  shows "\<exists>f' ks. auth_SaveKey kdf [] f user secret groups = (None, f') \<and> auth_LoadKey f' = (ks, None) \<and>
    (\<forall>u. user_key ks u None =
      (if u = user then Some \<lparr>k_Uid = user, k_Gids = (if groups = [] then [user] else groups), k_Key = kdf secret\<rparr>
       else map_option own_group (user_key old u None)))"
proof -
  let ?k = "\<lparr>k_Uid = user, k_Gids = groups, k_Key = kdf secret\<rparr>"
  let ?ks = "new_keys old ?k"
  have g: "\<forall>k\<in>set ?ks. good_key k" using assms(2,3) by (auto simp: new_keys_def)
  have s: "auth_SaveKey kdf [] f user secret groups = (None, Inr (concat (map (\<lambda>l. l @ [CHR 0x0A]) (key_lines ?ks))))"
    using assms(1) by (simp add: auth_SaveKey_def write_calls_all key_writes_lines[symmetric] Let_def)
  have l: "auth_LoadKey (Inr (concat (map (\<lambda>l. l @ [CHR 0x0A]) (key_lines ?ks)))) = (map own_group ?ks, None)"
    using load_key_lines[OF g, of "[]"] by (simp only: auth_LoadKey_def sum.case scan_key_lines[OF g]) (simp add: new_keys_def)
  have "user_key (map own_group ?ks) u None =
      (if u = user then Some (own_group ?k) else map_option own_group (user_key old u None))" for u
    using user_key_map[of ?ks u None] by (simp add: new_keys_def user_key_append user_key_filter)
  then show ?thesis using s l by (simp add: own_group_def)
qed

section \<open>Where the protocol goes wrong\<close>

text \<open>An end of the default domain.\<close>

definition has_key :: "auth_env \<Rightarrow> bool" where
  "has_key e \<longleftrightarrow> e_Enabled e \<and> e_tls e \<and> e_keys e \<noteq> []"

lemma setup_default: "has_key e \<Longrightarrow> auth_setup e [] True = Inr (True, k_Uid (hd (e_keys e)), Some (k_Key (hd (e_keys e))))"
  by (simp add: has_key_def auth_setup_def Let_def)

definition hello :: "auth_env \<Rightarrow> string list \<Rightarrow> byte list \<Rightarrow> auth_msg" where
  "hello e proto ch = hello_msg e True (k_Uid (hd (e_keys e))) proto ch"

text \<open>
  An end that knows no key sends back to the server its own challenge, as that of any of its users, and then its
  own response.
\<close>

definition reflected :: "string \<Rightarrow> byte list \<Rightarrow> byte list" where
  "reflected user first = (case auth_unpack first of Inl _ \<Rightarrow> [] | Inr m \<Rightarrow> auth_pack (m\<lparr>m_user := user\<rparr>))"

theorem auth_reflection:
  assumes "has_key s" and "user_key (e_keys s) u None = Some key" and "zero_byte \<notin> set u"
    and "auth_encrypt (e_cbc s) (k_Key key) (e_iv s) chs = Some rs" and "rs \<noteq> []"
    and "good_auth_msg (hello s ps chs)" and "ps \<noteq> []" and "first = auth_pack (hello s ps chs)"
  shows "ar_sent (auth_AtServer s [] ps chs (SSent None) (RData (reflected u first) None) (SSent None) r2) = [first, rs] \<and>
    (\<exists>i. ar_info (auth_AtServer s [] ps chs (SSent None) (RData (reflected u first) None) (SSent None) (RData rs None)) = Some i \<and>
      ai_Ok i \<and> ai_Uid i = u \<and> ai_Gids i = k_Gids key)"
proof -
  have r: "auth_unpack (reflected u first) = Inr ((hello s ps chs)\<lparr>m_user := u\<rparr>)"
    using assms(3,6) auth_unpack_pack by (simp add: reflected_def assms(8) good_auth_msg_def)
  have p: "filter (\<lambda>p. p \<in> set ps) (remdups ps) \<noteq> []" using assms(7) by (auto simp: filter_empty_conv)
  have "auth_AtServer s [] ps chs (SSent None) (RData (reflected u first) None) (SSent None) r =
      auth_finish s (k_Key key) chs chs
        \<lparr>ai_Uid = u, ai_Gids = k_Gids key, ai_SpeaksFor = e_Uid s, ai_Proto = filter (\<lambda>p. p \<in> set ps) (remdups ps), ai_Ok = False\<rparr>
        [first] (SSent None) r" for r
    using r p assms(2) unfolding assms(8)
    by (simp add: auth_AtServer_def auth_conn_def setup_default[OF assms(1)] auth_checked_def hello_def hello_msg_def Let_def)
  then show ?thesis using assms(4,5)
    by (simp add: auth_finish_def run_end_def run_fail_def Let_def split: auth_recv.splits)
qed

text \<open>
  A server of a domain that is not the default one looks for its users in the keys of the default domain only.
\<close>

theorem auth_domain_keys_unused:
  assumes "e_Enabled s" and "e_tls s" and "name \<noteq> []" and "name \<noteq> ''default''" and "e_load s name = (ks, None)"
    and "good_auth_msg m" and "m_enabled m" and "set (m_proto m) \<inter> set ps \<noteq> {}"
    and "user_key (e_keys s) (m_user m) None = None"
  shows "ar_err (auth_AtServer s name ps chs (SSent None) (RData (auth_pack m) None) s2 r2) = Some ''wrong user/key''"
  using assms auth_unpack_pack[OF assms(6)]
  by (auto simp: auth_AtServer_def auth_conn_def auth_setup_def auth_checked_def hello_msg_def run_fail_def run_end_def Let_def
      filter_empty_conv)

text \<open>A connection that closes, or what is not bytes, is reported as an end with no protocol in common.\<close>

theorem auth_closed_no_protocol:
  assumes "has_key s"
  shows "ar_err (auth_AtServer s [] ps chs (SSent None) ROther s2 r2) = Some ''no shared protocol''"
  by (simp add: auth_AtServer_def auth_conn_def setup_default[OF assms] auth_checked_def no_msg_def run_fail_def run_end_def Let_def)

section \<open>Runs\<close>

text \<open>A cipher that puts the key after the reverse of the text.\<close>

definition demo_cbc :: cbc where
  "demo_cbc k iv b = (if length k = 4 then Some (rev b @ k) else None)"

definition demo_end :: "string \<Rightarrow> auth_key list \<Rightarrow> auth_env" where
  "demo_end u ks = \<lparr>e_Uid = u, e_keys = ks, e_iv = Some ''iv'', e_tls = True, e_Enabled = True,
     e_load = (\<lambda>_. ([], Some ''no such file'')), e_cbc = demo_cbc\<rparr>"

definition demo_client :: auth_env where
  "demo_client = demo_end ''a'' [\<lparr>k_Uid = ''ann'', k_Gids = [''ann''], k_Key = ''kkkk''\<rparr>]"

definition demo_srv :: auth_env where
  "demo_srv = demo_end ''s'' [\<lparr>k_Uid = ''bob'', k_Gids = [''bob''], k_Key = ''bbbb''\<rparr>,
     \<lparr>k_Uid = ''ann'', k_Gids = [''ann'', ''sys''], k_Key = ''kkkk''\<rparr>]"

definition demo_resp :: "byte list \<Rightarrow> byte list" where "demo_resp ch = rev (auth_pad ch) @ ''kkkk''"

lemmas demo_auth = demo_client_def demo_srv_def demo_end_def demo_cbc_def demo_resp_def has_key_def hello_def hello_msg_def
  good_auth_msg_def auth_encrypt_def

text \<open>The same two ends, that find keys for another domain.\<close>

definition demo_zone_client :: auth_env where
  "demo_zone_client = demo_client\<lparr>e_keys := [], e_load := (\<lambda>_. ([\<lparr>k_Uid = ''ann'', k_Gids = [''ann''], k_Key = ''kkkk''\<rparr>], None))\<rparr>"

definition demo_zone_srv :: auth_env where
  "demo_zone_srv = demo_srv\<lparr>e_load := (\<lambda>_. ([\<lparr>k_Uid = ''eve'', k_Gids = [''eve''], k_Key = ''eeee''\<rparr>], None))\<rparr>"

lemmas demo_zone = demo_zone_client_def demo_zone_srv_def demo_auth

theorem auth_mutual_witness:
  "\<exists>rnc rns. rnc = auth_AtClient demo_zone_client ''zone'' [''zx''] ''cc'' (SSent None)
      (RData (auth_pack (hello_msg demo_zone_srv True ''eve'' [''zx''] ''ss'')) None) (SSent None) (RData (demo_resp ''cc'') None) \<and>
    rns = auth_AtServer demo_zone_srv ''zone'' [''zx''] ''ss'' (SSent None)
      (RData (auth_pack (hello_msg demo_zone_client True ''ann'' [''zx''] ''cc'')) None) (SSent None) (RData (demo_resp ''ss'') None) \<and>
    ar_err rnc = None \<and> ar_err rns = None \<and> (\<exists>j. ar_info rns = Some j \<and> ai_Ok j \<and> ai_Uid j = ''ann'' \<and> ai_Gids j = [''ann'', ''sys''])"
proof -
  let ?key = "\<lparr>k_Uid = ''ann'', k_Gids = [''ann'', ''sys''], k_Key = ''kkkk''\<rparr>"
  have a: "auth_setup demo_zone_client ''zone'' True = Inr (True, ''ann'', Some ''kkkk'')"
    "auth_setup demo_zone_srv ''zone'' True = Inr (True, ''eve'', Some ''eeee'')"
    "user_key (e_keys demo_zone_srv) ''ann'' None = Some ?key" "k_Key ?key = ''kkkk''"
    "e_iv demo_zone_srv = e_iv demo_zone_client" "e_cbc demo_zone_srv = e_cbc demo_zone_client"
    by (simp_all add: demo_zone auth_setup_def)
  have b: "auth_encrypt (e_cbc demo_zone_client) ''kkkk'' (e_iv demo_zone_client) ''cc'' = Some (demo_resp ''cc'')"
    "auth_encrypt (e_cbc demo_zone_client) ''kkkk'' (e_iv demo_zone_client) ''ss'' = Some (demo_resp ''ss'')"
    "demo_resp ''cc'' \<noteq> []" "demo_resp ''ss'' \<noteq> []" "''zx'' \<in> set [''zx''] \<inter> set [''zx'']"
    "good_auth_msg (hello_msg demo_zone_client True ''ann'' [''zx''] ''cc'')"
    "good_auth_msg (hello_msg demo_zone_srv True ''eve'' [''zx''] ''ss'')"
    by (simp_all add: demo_zone)
  from auth_mutual[OF a b refl refl refl refl refl refl] show ?thesis by auto
qed

theorem auth_ok_checked_witness:
  "\<exists>i. ar_info (auth_conn demo_srv False [] True [''zx''] ''ss'' (SSent None) (RData (auth_pack (hello demo_client [''zx''] ''cc'')) None)
      (SSent None) (RData (demo_resp ''ss'') None)) = Some i \<and> ai_Ok i \<and>
    (\<exists>rm. auth_unpack (auth_pack (hello demo_client [''zx''] ''cc'')) = Inr rm \<and> m_enabled rm \<and> ai_Uid i = m_user rm \<and>
      (\<exists>key\<in>set (e_keys demo_srv). k_Uid key = m_user rm \<and> ai_Gids i = k_Gids key))"
proof -
  let ?r = "auth_conn demo_srv False [] True [''zx''] ''ss'' (SSent None) (RData (auth_pack (hello demo_client [''zx''] ''cc'')) None)
      (SSent None) (RData (demo_resp ''ss'') None)"
  have "(case ar_info ?r of None \<Rightarrow> False | Some i \<Rightarrow> ai_Ok i)" by code_simp
  then obtain i where i: "ar_info ?r = Some i" "ai_Ok i" by (auto split: option.splits)
  have "\<exists>rm. auth_unpack (auth_pack (hello demo_client [''zx''] ''cc'')) = Inr rm \<and> m_enabled rm \<and> ai_Uid i = m_user rm \<and>
      (\<exists>key\<in>set (e_keys demo_srv). k_Uid key = m_user rm \<and> ai_Gids i = k_Gids key)"
    using auth_ok_checked[OF i] unfolding if_False auth_recv.inject by blast
  then show ?thesis using i by metis
qed

theorem auth_SaveKey_LoadKey_witness:
  "\<exists>f' ks. auth_SaveKey (\<lambda>s. s) [] (Inr (''bob bob sys'' @ [CHR 0x0A] @ ''6262'' @ [CHR 0x0A])) ''ann'' ''k'' [] = (None, f') \<and>
    auth_LoadKey f' = (ks, None) \<and> user_key ks ''ann'' None = Some \<lparr>k_Uid = ''ann'', k_Gids = [''ann''], k_Key = ''k''\<rparr> \<and>
    user_key ks ''bob'' None = Some \<lparr>k_Uid = ''bob'', k_Gids = [''bob'', ''sys''], k_Key = ''bb''\<rparr>"
proof -
  let ?bob = "\<lparr>k_Uid = ''bob'', k_Gids = [''bob'', ''sys''], k_Key = ''bb''\<rparr>"
  have g: "\<forall>k\<in>set [?bob]. good_key k" "good_key \<lparr>k_Uid = ''ann'', k_Gids = [], k_Key = ''k''\<rparr>"
    by (simp_all add: good_key_def word_ok_def ascii_def blank_def go_is_space_def key_line_def hex_encode_def hex_digits_def)
  have h: "hex_encode ''bb'' = ''6262''" by code_simp
  have e: "''bob bob sys'' @ [CHR 0x0A] @ ''6262'' @ [CHR 0x0A] = concat (map (\<lambda>l. l @ [CHR 0x0A]) (key_lines [?bob]))"
    by (simp add: key_lines_def key_line_def h)
  have l: "auth_LoadKey (Inr (''bob bob sys'' @ [CHR 0x0A] @ ''6262'' @ [CHR 0x0A])) = ([?bob], None)"
    unfolding e by (simp only: auth_LoadKey_def sum.case scan_key_lines[OF g(1)] load_key_lines[OF g(1)]) (simp add: own_group_def)
  from auth_SaveKey_LoadKey[where kdf = "\<lambda>s. s" and secret = "''k''", OF l g] show ?thesis by (auto simp: own_group_def)
qed

theorem auth_reflection_demo:
  "\<exists>i. ar_info (auth_AtServer demo_srv [] [''zx''] ''ss'' (SSent None)
      (RData (reflected ''ann'' (auth_pack (hello demo_srv [''zx''] ''ss''))) None) (SSent None) (RData (demo_resp ''ss'') None)) = Some i \<and>
    ai_Ok i \<and> ai_Uid i = ''ann''"
proof -
  let ?key = "\<lparr>k_Uid = ''ann'', k_Gids = [''ann'', ''sys''], k_Key = ''kkkk''\<rparr>"
  have a: "has_key demo_srv" "user_key (e_keys demo_srv) ''ann'' None = Some ?key" "zero_byte \<notin> set ''ann''"
    "auth_encrypt (e_cbc demo_srv) (k_Key ?key) (e_iv demo_srv) ''ss'' = Some (demo_resp ''ss'')" "demo_resp ''ss'' \<noteq> []"
    "good_auth_msg (hello demo_srv [''zx''] ''ss'')" "[''zx''] \<noteq> []"
    by (simp_all add: demo_auth)
  from auth_reflection[OF a refl] show ?thesis by auto
qed

end
