(* ===== verification/Spec2Isabelle.thy ===== *)
theory Spec2Isabelle
  imports TxtProps MblkFd MuxRuns ZxText SreText SreDebug ZxPredString ZxPredProps NsFindProps RzxProps ReplApplyProps
    OptProps DiffsProps AuthProps
begin

text \<open>
  Clive is an operating-system environment in Go: editable text, memory buffers, framed messages and
  multiplexed streams, trees of files with attributes, predicates that select files, name spaces that mount trees,
  remote trees, replicated trees, and the expressions and options of its commands.  This library models those
  packages as the code has them and proves what makes them correct.  The code is Clive's dialect of Go: a channel is
  closed with an error that its other side can see.

  How the parts interact.  Values travel as messages of \<open>ch\<close>; many streams of them share a device by \<open>ch.Mux\<close>.
  A file is a directory entry of \<open>zx\<close>, a map of attributes.  A server of \<open>zx/rzx\<close> replies to requests on trees, sent
  in messages over such streams; a name space of \<open>ns\<close> resolves paths to the trees mounted, local or remote, and finds
  files with predicates of \<open>zx/pred\<close>.  A replica of \<open>zx/repl\<close> compares the databases of two trees and applies the
  changes of one to the other.  Editors keep a \<open>txt.Text\<close>, which \<open>sre\<close> searches; caches keep data in buffers of \<open>mblk\<close>.
\<close>

section \<open>Conventions\<close>

text \<open>
  A call that may panic returns a value of \<open>go\<close> (Prelude): \<open>Ret x\<close> or \<open>Panic\<close>.  Errors are values, as in the code: an
  optional string, or an option of a datatype of errors.  Strings are lists of bytes (\<open>string\<close>), runes integers.
  Lengths and offsets, an \<open>int\<close> of Go, are unbounded integers where they count what is in memory; fields that travel
  or wrap are words or are reduced (\<open>int64_of\<close>, tags of 32 bits).  A channel that one process drains is the list of what
  it is sent and the error it is closed with; where the interleaving matters, processes are steps of
  a relation (Mux) or their choices are a list (Diffs).
  A mutex makes an operation atomic, and the operation is one definition.

  GoStrings, GoConv and GoPath model what the code uses of the standard library: UTF-8 and \<open>strings\<close>; \<open>strconv\<close>,
  quoting and the verbs of \<open>fmt\<close>; \<open>path.Clean\<close> and the patterns of \<open>path/filepath\<close>.
\<close>

section \<open>Theories and sources\<close>

text \<open>
  \<^item> src/txt/txt.go, editable text.  TxtBlocks has \<open>Text\<close> as a list of slices with its cached position, and the raw
    insertion and deletion; TxtEdit the marks, the edits, undo and redo; TxtLines the lines; TxtProps what each operation does
    to the flat contents (\<open>contents\<close>), that marks stay on their runes, and that undoing a session of edits restores the
    contents.  The locale \<open>flat_store\<close> is what undo relies on, interpreted on \<open>txt_ins\<close> and \<open>txt_del\<close>.
  \<^item> src/mblk/mblk.go, buffers of blocks and holes.  Mblk has the blocks and the operations; MblkProps the block
    invariant and the flat bytes they stand for; MblkFd descriptors with their cached block, and transfers over a channel.
  \<^item> src/ch/ch.go, framed messages.  Ch has frames, reading and writing with the errors of the device as a script;
    ChProps, with the locale \<open>msg_codec\<close> for the types that packages define, that messages are read back; it is
    interpreted on the entries and addresses of \<open>zx\<close> (ZxProps) and on the requests of \<open>rzx\<close> (RzxProps).
  \<^item> src/ch/mux.go, multiplexed streams.  Mux has an end (\<open>mux\<close>), its connections (\<open>conn\<close>), one definition for each step
    of its processes (\<open>out\<close>, \<open>flowproc\<close>, \<open>demux\<close>, those that post tickets) and of its users, and the relation \<open>mux_reach\<close> of two
    ends, a step at a time in any order; MuxInv the invariants of a stream; MuxProps that streams deliver what was sent
    and that flow control leaves room for every message; MuxRuns schedules, with those where the code goes wrong.
  \<^item> src/zx/*.go and \<open>InGroup\<close> of src/net/auth/auth.go, directory entries.  ZxUtil has paths and their meaning as lists of
    elements; ZxDir entries, formats and their bytes; ZxParse the parsers; ZxPerms permissions, errors, changes, flags,
    counters and the calls of fs.go; ZxProps and ZxText the permissions and the round trips.
  \<^item> src/sre/*.go, structural regular expressions.  Sre is the compiler and its operator stack; SreInv its
    invariants; SreAst a parser to trees that it refines (SreComp, SreTree); SreExec the machine that searches forward
    and backward; SreSem what a program and a tree match; SreRun, with the locale \<open>rune_reader\<close> for the text, and SreSearch
    that the search finds a match when the tree denotes one; SreProps the properties; SreText searching a \<open>Text\<close>; SreDebug
    the printing of programs.
  \<^item> src/zx/pred/*.go, predicates.  ZxPred has the lexer, the parser and the printers; ZxPredEval the evaluation at an
    entry and the walk of a tree; ZxPredParse, ZxPredString and ZxPredProps that they are printed and parsed back, evaluate
    without run-time errors, and that a walk sends what an abstract walk lists.
  \<^item> src/ns/*.go, name spaces.  Ns has the sorted table of prefixes and mounts; NsParse its text and the completion of
    addresses (rzx/cli.go); NsFile the operations on files; NsFind finding; NsProps, with the locale \<open>keyed_table\<close>
    interpreted on the table, the meaning as a map from paths to mounts; NsDup copies; NsFindProps finds.
  \<^item> src/zx/repl/*.go, replicas.  ReplDb has the database, whose files live in a store since the code keeps pointers to
    them; ReplWire sending, saving and loading; ReplCmp the comparison; ReplSync merging and resolving; ReplApply applying a
    change, and the trees; ReplDbProps, ReplCmpProps and ReplApplyProps their correctness.
  \<^item> src/zx/rzx/*.go, remote trees.  RzxProto has the requests and their bytes; RzxSrv the handlers of the server
    and the calls of the client; RzxProps that a client sees what the tree replies, and read-only servers.
  \<^item> src/cmd/opt/opt.go, command line options: Opt and OptProps.
  \<^item> src/cmd/diffs/diffs.go, differences between files.  Diffs has the lines and their numbers, the table of the longest common
    subsequence, the script, what is printed, the reading of two streams with the choices of the scheduler, and the loop of
    the command; DiffsProps that the script is right and keeps as many lines as may be kept, what is printed for
    it, and that the choices do not matter.
  \<^item> src/net/auth/auth.go, authentication.  Auth has the files of keys, the messages, and an end of the protocol with the
    outcome of each exchange; AuthProps that what is authenticated has been checked, that two ends that share a key
    authenticate each other, that keys are loaded as they were saved, and an attack on the protocol.

  AsciiLines has the lemmas on lines of ASCII text that files of keys and name spaces share.
\<close>

section \<open>Loops, bounds and parameters\<close>

text \<open>
  Loops are structural recursion or recursion with a measure, and total; exceptions are these.  The machine of \<open>sre\<close> is
  \<open>partial_function (option)\<close>: None is a search that does not return, and it is proved that the forward search returns
  while a backward one may not.  The parser of predicates takes \<open>parse_fuel\<close>, four times the length of the text
  and 8, shown to be enough; the walk of a tree the height of the tree; a find in a name space twice the number of its
  prefixes and one; the walks of a replica database the number of files in its store.  Mux is for any buffer of at
  least 2 messages, the bound that the code states.

  Parameters stand for what is not under src/ or is the operating system's: Unicode tables of letters, digits and of
  printable runes; file systems and servers (what each call replies and its effect on a state of any type); the
  readers and writers of a device; the block cipher and the derivation of keys of \<open>net/auth\<close>; floating point numbers,
  durations and times of the library; the arguments of a command's context; the clock.

  A property whose theorem has conditions on reachable inputs says which in the text before it, and the theory has the
  input where the code fails them: an empty slice of a text (\<open>txt_Getc_panics\<close>), a rune that the expressions take for a
  mark (\<open>sre_Exec_class_panics\<close>), a word that predicates do not quote (\<open>pred_String_tokens\<close>), a name that a predicate
  does not carry (\<open>ns_excl_blank\<close>), a change below a path removed (\<open>repl_resolve_keeps_suffixes\<close>), replies that are not
  read (\<open>mux_replies_block\<close>).
\<close>

section \<open>Not modelled\<close>

text \<open>
  Dialing and TLS (network and cryptography); goroutines that only pump channels
  (ch/conn.go, \<open>Merge\<close> and \<open>GroupBytes\<close>); moving a replica and pairs of replica files; trees of the
  operating system (zx/zux, zx/zxfs, fuse), and the write-back cache zx/zxc, whose processes share entries under
  several locks; contexts of commands, the shell and the expression calculator, whose parsers are generated; the user
  interface (cmd/ix, net/ink, with the scripts of net/ink/js as string constants); document formatting (cmd/wr); the
  mains of the commands; debug prints; and vendored packages (x).
\<close>

end
